(* ===== verification/Prelude.thy ===== *)
theory Prelude
  imports Main "HOL-Library.Word" "HOL-Library.Monad_Syntax"
begin

text \<open>
  Shared vocabulary of the development.

  \<^item> Machine integers are words: \<open>u8\<close>, \<open>u16\<close>, \<open>u32\<close>, \<open>u64\<close> for the C types
    \<open>uint8_t\<close>, \<open>uint16_t\<close>, \<open>uint32_t\<close> (and \<open>size_t\<close>, \<open>int\<close> and pointers on the
    i686 target) and \<open>uint64_t\<close>.
  \<^item> A C object of \<open>n\<close> elements is a list of length \<open>n\<close>.  Reading or writing it goes
    through \<open>rd\<close> and \<open>wr\<close>, which return \<open>None\<close> outside the object: everywhere in
    the development the value \<open>None\<close> of a model stands for C undefined behaviour (an access
    outside an object or a signed overflow), never for an error code of the program.
  \<^item> The collections \<open>mem_simps\<close> and \<open>unat_simps\<close> carry the facts on object access and
    on the unsigned value of word arithmetic that the component proofs share.
\<close>

unbundle bit_operations_syntax

type_synonym u8 = "8 word"
type_synonym u16 = "16 word"
type_synonym u32 = "32 word"
type_synonym u64 = "64 word"

named_theorems mem_simps
named_theorems unat_simps

section \<open>Objects\<close>

definition rd :: "'a list \<Rightarrow> nat \<Rightarrow> 'a option" where
  "rd b i = (if i < length b then Some (b ! i) else None)"

definition wr :: "'a list \<Rightarrow> nat \<Rightarrow> 'a \<Rightarrow> 'a list option" where
  "wr b i v = (if i < length b then Some (b[i := v]) else None)"

text \<open>A run of elements of an object.\<close>

definition rd_bytes :: "'a list \<Rightarrow> nat \<Rightarrow> nat \<Rightarrow> 'a list option" where
  "rd_bytes b p n = (if p + n \<le> length b then Some (take n (drop p b)) else None)"

lemma rd_in [mem_simps]: "i < length b \<Longrightarrow> rd b i = Some (b ! i)"
  by (simp add: rd_def)

lemma rd_out [mem_simps]: "length b \<le> i \<Longrightarrow> rd b i = None"
  by (simp add: rd_def)

lemma wr_in [mem_simps]: "i < length b \<Longrightarrow> wr b i v = Some (b[i := v])"
  by (simp add: wr_def)

lemma wr_out [mem_simps]: "length b \<le> i \<Longrightarrow> wr b i v = None"
  by (simp add: wr_def)

lemma rd_SomeD: "rd b i = Some v \<Longrightarrow> i < length b \<and> v = b ! i"
  by (simp add: rd_def split: if_splits)

lemma wr_SomeD: "wr b i v = Some b' \<Longrightarrow> i < length b \<and> b' = b[i := v]"
  by (simp add: wr_def split: if_splits)

lemma length_wr: "wr b i v = Some b' \<Longrightarrow> length b' = length b"
  by (auto dest: wr_SomeD)

lemma rd_wr_same: "wr b i v = Some b' \<Longrightarrow> rd b' i = Some v"
  by (auto dest!: wr_SomeD simp: rd_def)

lemma rd_wr_other: "wr b i v = Some b' \<Longrightarrow> i \<noteq> j \<Longrightarrow> rd b' j = rd b j"
  by (auto dest!: wr_SomeD simp: rd_def)

section \<open>Lists\<close>

text \<open>Writing past a prefix, the step of every copy loop.\<close>

lemma update_after_prefix: "(xs @ y # ys)[length xs := z] = xs @ z # ys"
  by simp

lemma append_drop_update:
  assumes "length xs < length b"
  shows "(xs @ drop (length xs) b)[length xs := z] = (xs @ [z]) @ drop (Suc (length xs)) b"
  using assms by (simp add: Cons_nth_drop_Suc [symmetric])

lemma take_Suc_snoc: "i < length xs \<Longrightarrow> take (Suc i) xs = take i xs @ [xs ! i]"
  by (rule take_Suc_conv_app_nth)

lemma takeWhile_neq_nth:
  "i < length (takeWhile P xs) \<Longrightarrow> P (xs ! i)"
  by (metis nth_mem set_takeWhileD takeWhile_nth)

lemma takeWhile_stop:
  assumes "x \<in> set xs" and "\<not> P x"
  shows "length (takeWhile P xs) < length xs" and "\<not> P (xs ! length (takeWhile P xs))"
proof -
  have "takeWhile P xs \<noteq> xs"
    using assms by (metis takeWhile_eq_all_conv)
  then show "length (takeWhile P xs) < length xs"
    by (metis le_neq_implies_less length_takeWhile_le takeWhile_eq_take take_all_iff order_refl)
  then show "\<not> P (xs ! length (takeWhile P xs))"
    by (rule nth_length_takeWhile)
qed

lemma takeWhile_length_eq:
  assumes "n \<le> length xs" and "\<And>i. i < n \<Longrightarrow> P (xs ! i)" and "n = length xs \<or> \<not> P (xs ! n)"
  shows "length (takeWhile P xs) = n"
proof (rule antisym)
  show "length (takeWhile P xs) \<le> n"
  proof (rule ccontr)
    assume "\<not> ?thesis"
    then have lt: "n < length (takeWhile P xs)" by simp
    then have "n < length xs" using length_takeWhile_le [of P xs] by linarith
    with assms(3) have "\<not> P (xs ! n)" by simp
    with takeWhile_neq_nth [OF lt] show False by simp
  qed
  show "n \<le> length (takeWhile P xs)"
  proof (rule ccontr)
    assume "\<not> ?thesis"
    then have lt: "length (takeWhile P xs) < n" by simp
    then have "\<not> P (xs ! length (takeWhile P xs))"
      using assms(1) by (intro nth_length_takeWhile) simp
    with assms(2) [OF lt] show False by simp
  qed
qed

text \<open>
  \<open>blit b d xs\<close> is the object \<open>b\<close> with the elements from index \<open>d\<close> on replaced by
  \<open>xs\<close>: what every copy loop of the kernel leaves behind.
\<close>

definition blit :: "'a list \<Rightarrow> nat \<Rightarrow> 'a list \<Rightarrow> 'a list" where
  "blit b d xs = take d b @ xs @ drop (d + length xs) b"

lemma length_blit [mem_simps]: "d + length xs \<le> length b \<Longrightarrow> length (blit b d xs) = length b"
  by (simp add: blit_def)

lemma nth_blit [mem_simps]:
  assumes "d + length xs \<le> length b" and "i < length b"
  shows "blit b d xs ! i = (if d \<le> i \<and> i < d + length xs then xs ! (i - d) else b ! i)"
  using assms by (auto simp: blit_def nth_append min_def)

lemma blit_Nil [simp]: "blit b d [] = b"
  by (simp add: blit_def)

lemma blit_snoc:
  assumes "d + length xs < length b"
  shows "(blit b d xs)[d + length xs := v] = blit b d (xs @ [v])"
  using assms by (intro nth_equalityI) (auto simp: nth_list_update mem_simps nth_append)

lemma blit_cons:
  assumes "0 < d" and "d + length xs \<le> length b"
  shows "(blit b d xs)[d - 1 := v] = blit b (d - 1) (v # xs)"
  using assms by (intro nth_equalityI) (auto simp: nth_list_update mem_simps nth_Cons')

lemma blit_step:
  assumes "p < length b"
  shows "blit (b[p := v]) (Suc p) xs = blit b p (v # xs)"
  using assms by (simp add: blit_def take_Suc_snoc)

lemma take_blit_self [mem_simps]: "d \<le> length b \<Longrightarrow> take (d + length xs) (blit b d xs) = take d b @ xs"
  by (simp add: blit_def)

lemma blit_append:
  assumes "d + length xs + length ys \<le> length b"
  shows "blit (blit b d xs) (d + length xs) ys = blit b d (xs @ ys)"
  using assms by (intro nth_equalityI) (auto simp: mem_simps nth_append)

section \<open>Words\<close>

lemma unat_less_2p32 [unat_simps]: "unat (x :: u32) < 4294967296"
  using unsigned_less [of x] by simp

lemma unat_less_256 [unat_simps]: "unat (x :: u8) < 256"
  using unsigned_less [of x] by simp

lemma unat_less_65536 [unat_simps]: "unat (x :: u16) < 65536"
  using unsigned_less [of x] by simp

lemma unat_of_nat32 [unat_simps]: "n < 4294967296 \<Longrightarrow> unat (of_nat n :: u32) = n"
  by (simp add: unsigned_of_nat take_bit_nat_eq_self_iff)

lemma unat_of_nat16 [unat_simps]: "n < 65536 \<Longrightarrow> unat (of_nat n :: u16) = n"
  by (simp add: unsigned_of_nat take_bit_nat_eq_self_iff)

lemma unat_of_nat8 [unat_simps]: "n < 256 \<Longrightarrow> unat (of_nat n :: u8) = n"
  by (simp add: unsigned_of_nat take_bit_nat_eq_self_iff)

lemma unat_plus_nowrap32 [unat_simps]:
  "unat (x :: u32) + unat y < 4294967296 \<Longrightarrow> unat (x + y) = unat x + unat y"
  by (simp add: unat_word_ariths)

lemma unat_minus_le [unat_simps]: "y \<le> x \<Longrightarrow> unat ((x :: 'a::len word) - y) = unat x - unat y"
  by (rule unat_sub)

lemma unat_mask: "unat ((x :: 'a::len word) AND mask n) = unat x mod 2 ^ n"
  by (simp add: take_bit_eq_mask [symmetric] unsigned_take_bit_eq) (simp add: take_bit_eq_mod)

lemma unat_drop: "unat (drop_bit n (x :: 'a::len word)) = unat x div 2 ^ n"
proof -
  have "unat (drop_bit n x) = drop_bit n (unat x)"
    by (rule bit_eqI) (simp add: bit_unsigned_iff bit_drop_bit_eq)
  then show ?thesis by (simp add: drop_bit_eq_div)
qed

lemma unat_or_disjoint:
  assumes "(x :: 'a::len word) AND y = 0"
  shows "unat (x OR y) = unat x + unat y"
proof -
  have "unat (x OR y) = unat x OR unat y" by (simp add: unsigned_or_eq)
  moreover have "unat x AND unat y = 0" using assms by (metis unsigned_and_eq unsigned_0)
  ultimately show ?thesis by (simp add: disjunctive_add_eq_or)
qed

section \<open>Scanning for a run\<close>

text \<open>
  The allocators look for \<open>n\<close> consecutive free places below a limit by counting the free places
  seen so far: \<open>scanned\<close> is the state of such a scan at position \<open>pos\<close> with count \<open>c\<close>.
\<close>

definition run_at :: "(nat \<Rightarrow> bool) \<Rightarrow> nat \<Rightarrow> nat \<Rightarrow> nat \<Rightarrow> bool" where
  "run_at P n lim b \<longleftrightarrow> b + n \<le> lim \<and> (\<forall>x \<in> {b..<b + n}. P x)"

definition lowest_run :: "(nat \<Rightarrow> bool) \<Rightarrow> nat \<Rightarrow> nat \<Rightarrow> nat \<Rightarrow> bool" where
  "lowest_run P n lim b \<longleftrightarrow> run_at P n lim b \<and> (\<forall>b'. run_at P n lim b' \<longrightarrow> b \<le> b')"

definition scanned :: "(nat \<Rightarrow> bool) \<Rightarrow> nat \<Rightarrow> nat \<Rightarrow> nat \<Rightarrow> nat \<Rightarrow> bool" where
  "scanned P n lim pos c \<longleftrightarrow> c < n \<and> c \<le> pos \<and>
     (\<forall>x. pos - c \<le> x \<and> x < pos \<longrightarrow> P x) \<and> (\<forall>b. run_at P n lim b \<longrightarrow> pos - c \<le> b)"

lemma scanned_start: "0 < n \<Longrightarrow> scanned P n lim 0 0"
  by (simp add: scanned_def)

lemma scanned_free:
  assumes "scanned P n lim pos c" and "P pos"
  shows "c + 1 = n \<Longrightarrow> pos < lim \<Longrightarrow> lowest_run P n lim (pos - c)"
    and "c + 1 \<noteq> n \<Longrightarrow> scanned P n lim (Suc pos) (c + 1)"
proof -
  have free: "P x" if "pos - c \<le> x" "x < Suc pos" for x
    using assms that by (cases "x = pos") (auto simp: scanned_def)
  show "c + 1 = n \<Longrightarrow> pos < lim \<Longrightarrow> lowest_run P n lim (pos - c)"
    using assms(1) free by (auto simp: lowest_run_def run_at_def scanned_def)
  show "c + 1 \<noteq> n \<Longrightarrow> scanned P n lim (Suc pos) (c + 1)"
    using assms(1) free by (auto simp: scanned_def)
qed

lemma scanned_skip:
  assumes "scanned P n lim pos 0" and "\<forall>x. pos \<le> x \<and> x < pos' \<longrightarrow> \<not> P x" and "pos \<le> pos'"
  shows "scanned P n lim pos' 0"
proof -
  have "pos' \<le> b" if r: "run_at P n lim b" for b
  proof (rule ccontr)
    assume "\<not> pos' \<le> b"
    moreover have "pos \<le> b" "0 < n" using assms(1) r by (auto simp: scanned_def)
    ultimately show False using r assms(2) by (auto simp: run_at_def)
  qed
  then show ?thesis using assms(1) by (auto simp: scanned_def)
qed

lemma scanned_used:
  assumes "scanned P n lim pos c" and "\<not> P pos"
  shows "scanned P n lim (Suc pos) 0"
proof -
  have "Suc pos \<le> b" if r: "run_at P n lim b" for b
  proof (rule ccontr)
    assume "\<not> Suc pos \<le> b"
    moreover have "pos - c \<le> b" "c < n" "c \<le> pos" using assms(1) r by (auto simp: scanned_def)
    ultimately have "pos \<in> {b..<b + n}" by auto
    with r assms(2) show False by (auto simp: run_at_def)
  qed
  then show ?thesis using assms(1) by (auto simp: scanned_def)
qed

lemma scanned_end:
  assumes "scanned P n lim lim c"
  shows "\<not> run_at P n lim b"
  using assms by (fastforce simp: scanned_def run_at_def)

end
