(* ===== verification/Pmm.thy ===== *)
theory Pmm
  imports Prelude
begin

text \<open>
  The physical memory manager: \<open>src/kernel/mm/get_mem_max_addr.c\<close>, \<open>src/kernel/mm/pmm.c\<close>
  and the bitmap helpers of \<open>src/include/memory.h\<close>.  The state is the bitmap of 4 KiB frames
  (one bit per frame, 32 to a word) and the three counters.  The array \<open>_pm_map\<close> is a function
  of the index; lemma \<open>pm_index_in_range\<close> shows that no frame number below the managed range
  indexes it outside its 32768 words.  Loop counters are \<open>nat\<close>: they are bounded by the
  \<open>2 ^ 20\<close> frames of a 32-bit address space.
\<close>

section \<open>Definitions\<close>

record mmap_entry =
  addr_low :: u32
  addr_high :: u32
  len_low :: u32
  len_high :: u32
  mtype :: u32

text \<open>The entries of the multiboot memory map, in the order of the loop over \<open>mmap_length\<close>.\<close>

fun ram_max_loop :: "mmap_entry list \<Rightarrow> u32 \<Rightarrow> u32 \<Rightarrow> u32" where
  "ram_max_loop [] addr_min addr_max = addr_max"
| "ram_max_loop (m # ms) addr_min addr_max =
     (if mtype m = 1 then
        (let addr_min' = (if addr_low m < addr_min then addr_low m else addr_min);
             tmp = addr_low m + len_low m;
             addr_max' = (if addr_max < tmp then tmp else addr_max)
         in ram_max_loop ms addr_min' addr_max')
      else ram_max_loop ms addr_min addr_max)"

definition ram_max :: "mmap_entry list \<Rightarrow> u32" where
  "ram_max mmap = ram_max_loop mmap 0xFFFFFFFF 0"

record pm_state =
  pm_map :: "nat \<Rightarrow> u32"
  pm_size :: u32
  pm_blocks :: u32
  pm_used :: u32

definition mmap_set :: "pm_state \<Rightarrow> nat \<Rightarrow> pm_state" where
  "mmap_set s b = s\<lparr>pm_map := (pm_map s)(b div 32 := pm_map s (b div 32) OR push_bit (b mod 32) 1)\<rparr>"

definition mmap_unset :: "pm_state \<Rightarrow> nat \<Rightarrow> pm_state" where
  "mmap_unset s b =
     s\<lparr>pm_map := (pm_map s)(b div 32 := pm_map s (b div 32) AND NOT (push_bit (b mod 32) 1))\<rparr>"

definition mmap_test :: "pm_state \<Rightarrow> nat \<Rightarrow> u32" where
  "mmap_test s b = pm_map s (b div 32) AND push_bit (b mod 32) 1"

definition pm_free_count :: "pm_state \<Rightarrow> u32" where
  "pm_free_count s = pm_blocks s - pm_used s"

definition pm_init :: "mmap_entry list \<Rightarrow> pm_state \<Rightarrow> pm_state" where
  "pm_init mmap s =
     (let size' = (ram_max mmap + 4096 - 1) AND NOT (4096 - 1);
          blocks = size' div 4096
      in \<lparr>pm_map = (\<lambda>i. if i < 32 then 0xFFFFFFFF else if i < unat blocks div 32 then 0 else pm_map s i),
          pm_size = size', pm_blocks = blocks, pm_used = 1024\<rparr>)"

text \<open>The search loops.  The inner loops run over the 32 blocks of one word.\<close>

function first_free_in :: "pm_state \<Rightarrow> nat \<Rightarrow> nat \<Rightarrow> nat option" where
  "first_free_in s block lim =
     (if block < lim then
        (if mmap_test s block = 0 then Some block else first_free_in s (Suc block) lim)
      else None)"
  by pat_completeness auto
termination
  by (relation "measure (\<lambda>(s, block, lim). lim - block)") auto

function first_free_from :: "pm_state \<Rightarrow> nat \<Rightarrow> int" where
  "first_free_from s i =
     (if i < unat (pm_blocks s) div 32 then
        (if pm_map s i \<noteq> 0xFFFFFFFF then
           (case first_free_in s (i * 32) ((i + 1) * 32) of
              Some block \<Rightarrow> int block
            | None \<Rightarrow> first_free_from s (Suc i))
         else first_free_from s (Suc i))
      else - 1)"
  by pat_completeness auto
termination
  by (relation "measure (\<lambda>(s, i). unat (pm_blocks s) div 32 - i)") auto

definition mmap_get_first_free :: "pm_state \<Rightarrow> int" where
  "mmap_get_first_free s = first_free_from s 0"

text \<open>
  The search for a run keeps the length \<open>c\<close> of the current run and its first block; \<open>Inl\<close>
  is the \<open>return\<close> out of both loops, \<open>Inr\<close> the state in which the inner loop ends.
\<close>

function run_in :: "pm_state \<Rightarrow> nat \<Rightarrow> nat \<Rightarrow> nat \<Rightarrow> nat \<Rightarrow> nat \<Rightarrow> nat + (nat \<times> nat)" where
  "run_in s n block lim c first_block =
     (if block < lim then
        (if mmap_test s block = 0 then
           (let c' = c + 1;
                first' = (if first_block = 0 then block else first_block)
            in if c' = n then Inl first' else run_in s n (Suc block) lim c' first')
         else run_in s n (Suc block) lim 0 0)
      else Inr (c, first_block))"
  by pat_completeness auto
termination
  by (relation "measure (\<lambda>(s, n, block, lim, c, f). lim - block)") auto

function run_from :: "pm_state \<Rightarrow> nat \<Rightarrow> nat \<Rightarrow> nat \<Rightarrow> nat \<Rightarrow> int" where
  "run_from s n i c first_block =
     (if i < unat (pm_blocks s) div 32 then
        (if pm_map s i \<noteq> 0xFFFFFFFF then
           (case run_in s n (i * 32) ((i + 1) * 32) c first_block of
              Inl block \<Rightarrow> int block
            | Inr (c', first') \<Rightarrow> run_from s n (Suc i) c' first')
         else run_from s n (Suc i) c first_block)
      else - 1)"
  by pat_completeness auto
termination
  by (relation "measure (\<lambda>(s, n, i, c, f). unat (pm_blocks s) div 32 - i)") auto

definition mmap_get_free_consecutives :: "pm_state \<Rightarrow> nat \<Rightarrow> int" where
  "mmap_get_free_consecutives s n = run_from s n 0 0 0"

fun mmap_set_range :: "pm_state \<Rightarrow> nat \<Rightarrow> nat \<Rightarrow> pm_state" where
  "mmap_set_range s i 0 = s"
| "mmap_set_range s i (Suc n) = mmap_set_range (mmap_set s i) (Suc i) n"

definition pm_alloc_blocks :: "pm_state \<Rightarrow> u32 \<Rightarrow> u32 \<times> pm_state" where
  "pm_alloc_blocks s n =
     (if pm_free_count s < n then (0, s)
      else let frame = mmap_get_free_consecutives s (unat n) in
        if frame = - 1 then (0, s)
        else let s' = mmap_set_range s (nat frame) (unat n)
             in (word_of_int frame * 4096, s'\<lparr>pm_used := pm_used s' + n\<rparr>))"

definition pm_alloc :: "pm_state \<Rightarrow> u32 \<times> pm_state" where
  "pm_alloc s =
     (if pm_free_count s = 0 then (0, s)
      else let frame = mmap_get_first_free s in
        if frame = - 1 then (0, s)
        else let s' = mmap_set s (nat frame)
             in (word_of_int frame * 4096, s'\<lparr>pm_used := pm_used s' + 1\<rparr>))"

definition pm_free :: "pm_state \<Rightarrow> u32 \<Rightarrow> pm_state" where
  "pm_free s block_paddr =
     (let s' = mmap_unset s (unat (block_paddr div 4096)) in s'\<lparr>pm_used := pm_used s' - 1\<rparr>)"

text \<open>
  The map printed by the shell, \<open>print_physical_memory\<close>: the number of frames per character, one
  cell of the grid, and the grid.  Reading \<open>_pm_map\<close> past its 32768 words is \<open>None\<close>.
\<close>

definition count_positive_bits :: "u32 \<Rightarrow> nat" where
  "count_positive_bits m = sum_list (map (\<lambda>i. unat (drop_bit i m AND 1)) [0..<32])"

definition map_pp_char :: "pm_state \<Rightarrow> nat" where
  "map_pp_char s = (let pp_char = unat (pm_blocks s) div (8 * 80) + 1 in pp_char + (32 - pp_char mod 32))"

function print_cell :: "pm_state \<Rightarrow> nat \<Rightarrow> nat \<Rightarrow> nat \<Rightarrow> nat \<Rightarrow> (nat \<times> nat) option" where
  "print_cell s pp_char c cur_page t =
     (if c < pp_char then
        (if (cur_page + c) div 32 < 32768 then
           print_cell s pp_char (c + 32) (cur_page + 32) (t + count_positive_bits (pm_map s ((cur_page + c) div 32)))
         else None)
      else Some (cur_page, t))"
  by pat_completeness auto
termination
  by (relation "measure (\<lambda>(s, pp_char, c, cur_page, t). pp_char - c)") auto

fun print_grid :: "pm_state \<Rightarrow> nat \<Rightarrow> nat \<Rightarrow> nat \<Rightarrow> string option" where
  "print_grid s pp_char 0 cur_page = Some []"
| "print_grid s pp_char (Suc cells) cur_page =
     (case print_cell s pp_char 0 cur_page 0 of
        None \<Rightarrow> None
      | Some (cur_page', t) \<Rightarrow>
          let ch = (if t = 0 then ''.'' else if t < pp_char div 2 then ''*'' else ''#'')
          in if unat (pm_blocks s) \<le> cur_page' then Some (ch @ [CHR 0x0A])
             else map_option ((@) ch) (print_grid s pp_char cells cur_page'))"

definition print_physical_memory :: "pm_state \<Rightarrow> string option" where
  "print_physical_memory s = print_grid s (map_pp_char s) (8 * 80) 0"

section \<open>The bitmap as a set of frames\<close>

declare first_free_in.simps [simp del] first_free_from.simps [simp del]
  run_in.simps [simp del] run_from.simps [simp del] print_cell.simps [simp del]

definition frame_used :: "pm_state \<Rightarrow> nat \<Rightarrow> bool" where
  "frame_used s b \<longleftrightarrow> bit (pm_map s (b div 32)) (b mod 32)"

definition managed :: "pm_state \<Rightarrow> nat" where
  "managed s = unat (pm_blocks s) div 32 * 32"

lemma bit_push_one: "k < 32 \<Longrightarrow> bit (2 ^ k :: u32) n \<longleftrightarrow> n = k"
  by (auto simp: bit_exp_iff possible_bit_word)

lemma and_push_one_eq_0: "k < 32 \<Longrightarrow> (x :: u32) AND 2 ^ k = 0 \<longleftrightarrow> \<not> bit x k"
  unfolding bit_eq_iff [of "x AND 2 ^ k" 0] by (auto simp: bit_and_iff bit_push_one possible_bit_word)

lemma mmap_test_eq_0 [simp]: "mmap_test s b = 0 \<longleftrightarrow> \<not> frame_used s b"
  by (simp add: mmap_test_def frame_used_def and_push_one_eq_0)

lemma div_mod_32_eq: "a div 32 = b div 32 \<Longrightarrow> a mod 32 = b mod (32 :: nat) \<Longrightarrow> a = b"
  by (metis div_mult_mod_eq)

lemma frame_used_set [simp]: "frame_used (mmap_set s a) b \<longleftrightarrow> a = b \<or> frame_used s b"
  by (auto simp: mmap_set_def frame_used_def bit_or_iff bit_push_one dest: div_mod_32_eq)

lemma frame_used_unset [simp]: "frame_used (mmap_unset s a) b \<longleftrightarrow> a \<noteq> b \<and> frame_used s b"
  by (auto simp: mmap_unset_def frame_used_def bit_and_iff bit_not_iff bit_push_one
      dest: div_mod_32_eq bit_imp_le_length)

lemma pm_counters_set [simp]:
  "pm_blocks (mmap_set s a) = pm_blocks s" "pm_used (mmap_set s a) = pm_used s" "pm_size (mmap_set s a) = pm_size s"
  "pm_blocks (mmap_unset s a) = pm_blocks s" "pm_used (mmap_unset s a) = pm_used s" "pm_size (mmap_unset s a) = pm_size s"
  by (simp_all add: mmap_set_def mmap_unset_def)

lemma managed_set [simp]: "managed (mmap_set s a) = managed s" "managed (mmap_unset s a) = managed s"
  by (simp_all add: managed_def)

lemma frame_used_upd [simp]:
  "frame_used (s\<lparr>pm_used := u\<rparr>) b = frame_used s b" "managed (s\<lparr>pm_used := u\<rparr>) = managed s"
  by (simp_all add: frame_used_def managed_def)

lemma full_word_used:
  assumes "pm_map s i = 0xFFFFFFFF" and "i * 32 \<le> b" and "b < (i + 1) * 32"
  shows "frame_used s b"
proof -
  have "b div 32 = i" using assms(2,3) by (intro div_nat_eqI) auto
  moreover have "(0xFFFFFFFF :: u32) = - 1" by simp
  then have "bit (0xFFFFFFFF :: u32) (b mod 32)" by (simp only: bit_minus_1_iff possible_bit_word) simp
  ultimately show ?thesis using assms(1) by (simp add: frame_used_def)
qed

lemma first_free_in_spec:
  "case first_free_in s block lim of
     Some b \<Rightarrow> block \<le> b \<and> b < lim \<and> \<not> frame_used s b \<and> (\<forall>x. block \<le> x \<and> x < b \<longrightarrow> frame_used s x)
   | None \<Rightarrow> \<forall>x. block \<le> x \<and> x < lim \<longrightarrow> frame_used s x"
proof (induction s block lim rule: first_free_in.induct)
  case (1 s block lim)
  show ?case
  proof (cases "block < lim \<and> frame_used s block")
    case True
    have "block \<le> x \<longleftrightarrow> x = block \<or> Suc block \<le> x" for x by auto
    with True "1.IH" show ?thesis
      by (subst first_free_in.simps) (auto split: option.splits)
  next
    case False
    then show ?thesis by (subst first_free_in.simps) auto
  qed
qed

lemma first_free_from_spec:
  assumes "\<forall>x < i * 32. frame_used s x" and "i \<le> unat (pm_blocks s) div 32"
  shows "(first_free_from s i = - 1 \<and> (\<forall>x < managed s. frame_used s x)) \<or>
         (\<exists>b. first_free_from s i = int b \<and> b < managed s \<and> \<not> frame_used s b \<and> (\<forall>x < b. frame_used s x))"
  using assms
proof (induction s i rule: first_free_from.induct)
  case (1 s i)
  show ?case
  proof (cases "i < unat (pm_blocks s) div 32")
    case False
    with "1.prems" have "managed s = i * 32" by (simp add: managed_def)
    with False "1.prems" show ?thesis by (subst first_free_from.simps) simp
  next
    case True
    have all: ?thesis if used: "\<forall>x. i * 32 \<le> x \<and> x < (i + 1) * 32 \<longrightarrow> frame_used s x"
      and eq: "first_free_from s i = first_free_from s (Suc i)"
      and ih: "\<forall>x < Suc i * 32. frame_used s x \<Longrightarrow> Suc i \<le> unat (pm_blocks s) div 32 \<Longrightarrow>
        (first_free_from s (Suc i) = - 1 \<and> (\<forall>x < managed s. frame_used s x)) \<or>
         (\<exists>b. first_free_from s (Suc i) = int b \<and> b < managed s \<and> \<not> frame_used s b \<and> (\<forall>x < b. frame_used s x))"
    proof -
      have "\<forall>x < Suc i * 32. frame_used s x"
        using used "1.prems"(1) by (metis Suc_eq_plus1 not_less)
      with ih True show ?thesis by (simp add: eq)
    qed
    show ?thesis
    proof (cases "pm_map s i \<noteq> 0xFFFFFFFF")
      case False
      then have "first_free_from s i = first_free_from s (Suc i)"
        using True by (subst first_free_from.simps) simp
      with False full_word_used [of s i] "1.IH"(2) [OF True] show ?thesis by (intro all) auto
    next
      case word: True
      show ?thesis
      proof (cases "first_free_in s (i * 32) ((i + 1) * 32)")
        case None
        then have "first_free_from s i = first_free_from s (Suc i)"
          using True word by (subst first_free_from.simps) simp
        with None first_free_in_spec [where s = s and block = "i * 32" and lim = "(i + 1) * 32"] "1.IH"(1) [OF True word None]
        show ?thesis by (intro all) auto
      next
        case (Some b)
        have "first_free_from s i = int b"
          using Some True word by (subst first_free_from.simps) simp
        moreover have "b < managed s"
        proof -
          have "b < (i + 1) * 32" using Some first_free_in_spec [where s = s and block = "i * 32" and lim = "(i + 1) * 32"] by simp
          also have "\<dots> \<le> managed s" unfolding managed_def using True by (intro mult_le_mono1) simp
          finally show ?thesis .
        qed
        ultimately show ?thesis
          using Some first_free_in_spec [where s = s and block = "i * 32" and lim = "(i + 1) * 32"] "1.prems"(1)
          by (auto simp: not_le) (metis not_less)
      qed
    qed
  qed
qed

lemma mmap_get_first_free_spec:
  "(mmap_get_first_free s = - 1 \<and> (\<forall>x < managed s. frame_used s x)) \<or>
   (\<exists>b. mmap_get_first_free s = int b \<and> b < managed s \<and> \<not> frame_used s b \<and> (\<forall>x < b. frame_used s x))"
  using first_free_from_spec [of 0] by (simp add: mmap_get_first_free_def)

section \<open>The invariant and single frames\<close>

definition used_frames :: "pm_state \<Rightarrow> nat set" where
  "used_frames s = {b. b < managed s \<and> frame_used s b}"

definition pm_inv :: "pm_state \<Rightarrow> bool" where
  "pm_inv s \<longleftrightarrow> unat (pm_blocks s) \<le> 1048576 \<and> frame_used s 0 \<and> unat (pm_used s) = card (used_frames s)"

definition frame_addr :: "nat \<Rightarrow> u32" where
  "frame_addr b = of_nat b * 4096"

definition free_frames :: "pm_state \<Rightarrow> u32 set" where
  "free_frames s = frame_addr ` {b. b < managed s \<and> \<not> frame_used s b}"

lemma finite_used_frames [simp]: "finite (used_frames s)"
  by (simp add: used_frames_def)

lemma managed_le: "managed s \<le> unat (pm_blocks s)"
  by (simp add: managed_def)

lemma card_used_frames_le: "card (used_frames s) \<le> managed s"
proof -
  have "card (used_frames s) \<le> card {..<managed s}"
    by (rule card_mono) (auto simp: used_frames_def)
  then show ?thesis by simp
qed

lemma pm_index_in_range: "pm_inv s \<Longrightarrow> b < managed s \<Longrightarrow> b div 32 < 32768"
  using managed_le [of s] by (simp add: pm_inv_def div_less_iff_less_mult)

lemma unat_frame_addr:
  assumes "b < 1048576"
  shows "unat (frame_addr b) = b * 4096"
proof -
  have "b * 4096 < 1048576 * 4096" using assms by (rule mult_strict_right_mono) simp
  then have "unat (of_nat (b * 4096) :: u32) = b * 4096" by (intro unat_of_nat32) simp
  then show ?thesis by (simp add: frame_addr_def)
qed

lemma frame_addr_inj: "a < 1048576 \<Longrightarrow> b < 1048576 \<Longrightarrow> frame_addr a = frame_addr b \<Longrightarrow> a = b"
  by (metis unat_frame_addr mult_cancel2 zero_neq_numeral)

lemma frame_addr_eq_0: "b < 1048576 \<Longrightarrow> frame_addr b = 0 \<longleftrightarrow> b = 0"
  using unat_frame_addr [of b] by (metis mult_eq_0_iff unat_0 unat_eq_zero zero_neq_numeral)

lemma frame_addr_div: "b < 1048576 \<Longrightarrow> unat (frame_addr b div 4096) = b"
  by (simp add: unat_div unat_frame_addr)

lemma unat_pm_free_count:
  assumes "pm_inv s"
  shows "unat (pm_free_count s) = unat (pm_blocks s) - card (used_frames s)"
proof -
  have "pm_used s \<le> pm_blocks s"
    using assms card_used_frames_le [of s] managed_le [of s] by (simp add: pm_inv_def word_le_nat_alt)
  then show ?thesis using assms by (simp add: pm_free_count_def unat_sub pm_inv_def)
qed

lemma all_used_card: "(\<forall>x < managed s. frame_used s x) \<Longrightarrow> card (used_frames s) = managed s"
proof -
  assume "\<forall>x < managed s. frame_used s x"
  then have "used_frames s = {..<managed s}" by (auto simp: used_frames_def)
  then show ?thesis by simp
qed

lemma free_frame_card:
  assumes "b < managed s" and "\<not> frame_used s b"
  shows "card (used_frames s) < managed s"
proof -
  have "card (used_frames s) < card {..<managed s}"
    using assms by (intro psubset_card_mono) (auto simp: used_frames_def)
  then show ?thesis by simp
qed

definition take_frame :: "pm_state \<Rightarrow> nat \<Rightarrow> pm_state" where
  "take_frame s b = (mmap_set s b)\<lparr>pm_used := pm_used s + 1\<rparr>"

lemma take_frame_simps [simp]:
  "frame_used (take_frame s b) x \<longleftrightarrow> b = x \<or> frame_used s x" "managed (take_frame s b) = managed s"
  "pm_blocks (take_frame s b) = pm_blocks s" "pm_used (take_frame s b) = pm_used s + 1"
  by (simp_all add: take_frame_def)

lemma used_frames_take: "b < managed s \<Longrightarrow> used_frames (take_frame s b) = insert b (used_frames s)"
  by (auto simp: used_frames_def)

lemma pm_inv_take_frame:
  assumes "pm_inv s" and "b < managed s" and "\<not> frame_used s b"
  shows "pm_inv (take_frame s b)"
proof -
  have "b \<notin> used_frames s" using assms(3) by (simp add: used_frames_def)
  moreover have "unat (pm_used s + 1) = card (used_frames s) + 1"
  proof -
    have "card (used_frames s) + 1 < 4294967296"
      using free_frame_card [OF assms(2,3)] managed_le [of s] assms(1) by (simp add: pm_inv_def)
    then show ?thesis using assms(1) by (simp add: pm_inv_def unat_word_ariths)
  qed
  ultimately show ?thesis using assms
    by (simp add: pm_inv_def used_frames_take)
qed

lemma pm_alloc_spec:
  assumes "pm_inv s"
  shows "(\<exists>b. b < managed s \<and> \<not> frame_used s b \<and> (\<forall>x < b. frame_used s x) \<and>
              pm_alloc s = (frame_addr b, take_frame s b)) \<or>
         ((\<forall>x < managed s. frame_used s x) \<and> pm_alloc s = (0, s))"
proof (cases "\<forall>x < managed s. frame_used s x")
  case True
  then have "mmap_get_first_free s = - 1" using mmap_get_first_free_spec [of s] by auto
  then show ?thesis using True by (simp add: pm_alloc_def)
next
  case False
  then obtain b where b: "mmap_get_first_free s = int b" "b < managed s" "\<not> frame_used s b"
    "\<forall>x < b. frame_used s x"
    using mmap_get_first_free_spec [of s] by auto
  have "unat (pm_free_count s) \<noteq> 0"
    using unat_pm_free_count [OF assms] free_frame_card [OF b(2,3)] managed_le [of s] by simp
  then have "pm_free_count s \<noteq> 0" by auto
  then show ?thesis using b by (auto simp: pm_alloc_def frame_addr_def take_frame_def)
qed

section \<open>The allocator as an interface\<close>

text \<open>
  What the clients of the allocator (\<open>vmm.c\<close>, \<open>heap.c\<close>, \<open>usertask.c\<close>) rely on: a successful
  allocation returns a frame that was free and takes only that frame, a failing one returns 0 and
  leaves the state alone, and a frame given back is free again.
\<close>

locale frame_allocator =
  fixes alloc :: "'s \<Rightarrow> u32 \<times> 's"
    and release :: "'s \<Rightarrow> u32 \<Rightarrow> 's"
    and invar :: "'s \<Rightarrow> bool"
    and free :: "'s \<Rightarrow> u32 set"
    and taken :: "'s \<Rightarrow> u32 set"
  assumes alloc_fail: "invar s \<Longrightarrow> alloc s = (0, s') \<Longrightarrow> free s = {} \<and> s' = s"
    and alloc_frame: "invar s \<Longrightarrow> alloc s = (p, s') \<Longrightarrow> p \<noteq> 0 \<Longrightarrow> p \<in> free s"
    and alloc_takes: "invar s \<Longrightarrow> alloc s = (p, s') \<Longrightarrow> p \<noteq> 0 \<Longrightarrow>
           free s' = free s - {p} \<and> taken s' = insert p (taken s)"
    and alloc_invar: "invar s \<Longrightarrow> alloc s = (p, s') \<Longrightarrow> invar s'"
    and release_frees: "invar s \<Longrightarrow> p \<in> taken s \<Longrightarrow>
           free (release s p) = insert p (free s) \<and> taken (release s p) = taken s - {p}"
    and release_invar: "invar s \<Longrightarrow> p \<in> taken s \<Longrightarrow> invar (release s p)"
begin

text \<open>A loop of allocations (\<open>vm_init\<close>, \<open>vmalloc\<close>).\<close>

fun alloc_many :: "nat \<Rightarrow> 's \<Rightarrow> u32 list \<times> 's" where
  "alloc_many 0 s = ([], s)"
| "alloc_many (Suc n) s =
     (let (p, s1) = alloc s; (ps, s2) = alloc_many n s1 in (p # ps, s2))"

lemma alloc_many_invar: "invar s \<Longrightarrow> alloc_many n s = (ps, s') \<Longrightarrow> invar s'"
  by (induction n arbitrary: s ps) (auto dest: alloc_invar split: prod.splits)

lemma alloc_many_free:
  assumes "invar s" and "alloc_many n s = (ps, s')" and "0 \<notin> set ps"
  shows "length ps = n \<and> distinct ps \<and> set ps \<subseteq> free s \<and> free s' = free s - set ps"
  using assms
proof (induction n arbitrary: s ps)
  case 0
  then show ?case by simp
next
  case (Suc n)
  obtain p s1 where a: "alloc s = (p, s1)" by fastforce
  obtain qs where q: "alloc_many n s1 = (qs, s')" and ps: "ps = p # qs"
    using Suc.prems(2) a by (auto split: prod.splits)
  have p: "p \<noteq> 0" "0 \<notin> set qs" using Suc.prems(3) ps by auto
  have ih: "length qs = n \<and> distinct qs \<and> set qs \<subseteq> free s1 \<and> free s' = free s1 - set qs"
    using Suc.IH [OF alloc_invar [OF Suc.prems(1) a] q p(2)] .
  have f: "p \<in> free s" "free s1 = free s - {p}"
    using alloc_frame [OF Suc.prems(1) a p(1)] alloc_takes [OF Suc.prems(1) a p(1)] by auto
  show ?case using ih f ps by auto
qed

lemma alloc_release:
  assumes "invar s" and "alloc s = (p, s')" and "p \<noteq> 0" and "p \<notin> taken s"
  shows "free (release s' p) = free s \<and> taken (release s' p) = taken s \<and> invar (release s' p)"
proof -
  have t: "free s' = free s - {p}" "taken s' = insert p (taken s)" "p \<in> free s"
    using alloc_takes [OF assms(1-3)] alloc_frame [OF assms(1-3)] by auto
  have "invar s'" using alloc_invar [OF assms(1,2)] .
  then show ?thesis using release_frees [of s' p] release_invar [of s' p] t assms(4) by auto
qed

end

definition taken_frames :: "pm_state \<Rightarrow> u32 set" where
  "taken_frames s = frame_addr ` {b. 0 < b \<and> b < managed s \<and> frame_used s b}"

lemma frame_addr_mem:
  assumes "b < 1048576" and "\<forall>x \<in> B. x < 1048576"
  shows "frame_addr b \<in> frame_addr ` B \<longleftrightarrow> b \<in> B"
  using assms by (auto dest: frame_addr_inj)

lemma managed_bound: "pm_inv s \<Longrightarrow> managed s \<le> 1048576"
  using managed_le [of s] by (simp add: pm_inv_def)

lemma free_frames_take:
  assumes "pm_inv s" and "b < managed s" and "\<not> frame_used s b"
  shows "free_frames (take_frame s b) = free_frames s - {frame_addr b}"
    and "taken_frames (take_frame s b) = insert (frame_addr b) (taken_frames s)"
proof -
  have m: "x < managed s \<Longrightarrow> x < 1048576" for x using managed_bound [OF assms(1)] by simp
  have b0: "0 < b" using assms(1,3) by (cases b) (auto simp: pm_inv_def)
  show "free_frames (take_frame s b) = free_frames s - {frame_addr b}"
    using assms(2) by (auto simp: free_frames_def dest: frame_addr_inj [OF m m])
  show "taken_frames (take_frame s b) = insert (frame_addr b) (taken_frames s)"
    using assms(2) b0 by (auto simp: taken_frames_def)
qed

definition give_frame :: "pm_state \<Rightarrow> nat \<Rightarrow> pm_state" where
  "give_frame s b = (mmap_unset s b)\<lparr>pm_used := pm_used s - 1\<rparr>"

lemma give_frame_simps [simp]:
  "frame_used (give_frame s b) x \<longleftrightarrow> b \<noteq> x \<and> frame_used s x" "managed (give_frame s b) = managed s"
  "pm_blocks (give_frame s b) = pm_blocks s" "pm_used (give_frame s b) = pm_used s - 1"
  by (simp_all add: give_frame_def)

lemma pm_free_frame: "b < 1048576 \<Longrightarrow> pm_free s (frame_addr b) = give_frame s b"
  by (simp add: pm_free_def give_frame_def frame_addr_div)

lemma used_frames_give: "used_frames (give_frame s b) = used_frames s - {b}"
  by (auto simp: used_frames_def)

lemma pm_inv_give_frame:
  assumes "pm_inv s" and "0 < b" and "b < managed s" and "frame_used s b"
  shows "pm_inv (give_frame s b)"
proof -
  have b: "b \<in> used_frames s" using assms(3,4) by (simp add: used_frames_def)
  then have "0 < card (used_frames s)" by (metis card_gt_0_iff empty_iff finite_used_frames)
  then have "1 \<le> pm_used s" using assms(1) by (simp add: pm_inv_def word_le_nat_alt)
  then have "unat (pm_used s - 1) = card (used_frames s) - 1"
    using assms(1) by (simp add: pm_inv_def unat_minus_le)
  then show ?thesis using assms b by (simp add: pm_inv_def used_frames_give)
qed

lemma free_frames_give:
  assumes "pm_inv s" and "0 < b" and "b < managed s" and "frame_used s b"
  shows "free_frames (give_frame s b) = insert (frame_addr b) (free_frames s)"
    and "taken_frames (give_frame s b) = taken_frames s - {frame_addr b}"
proof -
  have m: "x < managed s \<Longrightarrow> x < 1048576" for x using managed_bound [OF assms(1)] by simp
  show "free_frames (give_frame s b) = insert (frame_addr b) (free_frames s)"
    using assms(3) by (auto simp: free_frames_def)
  show "taken_frames (give_frame s b) = taken_frames s - {frame_addr b}"
    using assms(3) by (auto simp: taken_frames_def dest: frame_addr_inj [OF m m])
qed

lemma frame_addr_nonzero:
  assumes "pm_inv s" and "b < managed s" and "\<not> frame_used s b"
  shows "frame_addr b \<noteq> 0"
proof -
  have "b \<noteq> 0" using assms(1,3) unfolding pm_inv_def by metis
  then show ?thesis using frame_addr_eq_0 [of b] managed_bound [OF assms(1)] assms(2) by simp
qed

interpretation pm: frame_allocator pm_alloc pm_free pm_inv free_frames taken_frames
proof
  fix s s' assume s: "pm_inv s" and a: "pm_alloc s = (0, s')"
  then show "free_frames s = {} \<and> s' = s"
    using pm_alloc_spec [OF s] frame_addr_nonzero [OF s] by (auto simp: free_frames_def)
next
  fix s p s' assume s: "pm_inv s" and a: "pm_alloc s = (p, s')" and p: "p \<noteq> 0"
  then obtain b where b: "b < managed s" "\<not> frame_used s b" "p = frame_addr b" "s' = take_frame s b"
    using pm_alloc_spec [OF s] by auto
  show "p \<in> free_frames s" using b by (auto simp: free_frames_def)
  show "free_frames s' = free_frames s - {p} \<and> taken_frames s' = insert p (taken_frames s)"
    using free_frames_take [OF s b(1,2)] b by simp
next
  fix s p s' assume s: "pm_inv s" and a: "pm_alloc s = (p, s')"
  then show "pm_inv s'" using pm_alloc_spec [OF s] pm_inv_take_frame [OF s] by auto
next
  fix s p assume s: "pm_inv s" and p: "p \<in> taken_frames s"
  then obtain b where b: "0 < b" "b < managed s" "frame_used s b" "p = frame_addr b"
    by (auto simp: taken_frames_def)
  then have f: "pm_free s p = give_frame s b"
    using managed_bound [OF s] by (simp add: pm_free_frame)
  show "free_frames (pm_free s p) = insert p (free_frames s) \<and> taken_frames (pm_free s p) = taken_frames s - {p}"
    using free_frames_give [OF s b(1-3)] f b by simp
  show "pm_inv (pm_free s p)" using pm_inv_give_frame [OF s b(1-3)] f by simp
qed

section \<open>Initialisation\<close>

lemma drop_and_not_4095: "drop_bit 12 ((x :: u32) AND NOT 4095) = drop_bit 12 x"
proof (rule bit_eqI)
  fix n assume "possible_bit TYPE(u32) n"
  have "(4095 :: u32) = mask 12" by (simp add: mask_eq_exp_minus_1)
  then have "\<not> bit (4095 :: u32) (12 + n)" by (simp only: bit_mask_iff) simp
  then show "bit (drop_bit 12 (x AND NOT 4095)) n = bit (drop_bit 12 x) n"
    by (simp only: bit_drop_bit_eq bit_and_iff bit_not_iff comp_def) (metis bit_imp_possible_bit)
qed

lemma div_4096_drop: "(x :: u32) div 4096 = drop_bit 12 x"
  by (simp add: drop_bit_eq_div)

lemma pm_init_blocks: "unat (pm_blocks (pm_init mmap s)) = unat (ram_max mmap + 4095) div 4096"
proof -
  have "ram_max mmap + 4096 - 1 = ram_max mmap + 4095" "(4096 - 1 :: u32) = 4095" by simp_all
  then have "pm_blocks (pm_init mmap s) = (ram_max mmap + 4095) div 4096"
    by (simp only: pm_init_def Let_def pm_state.simps div_4096_drop drop_and_not_4095)
  then show ?thesis by (simp only: unat_div) simp
qed

lemma pm_init_used:
  assumes "b < managed (pm_init mmap s)"
  shows "frame_used (pm_init mmap s) b \<longleftrightarrow> b < 1024"
proof -
  have lt: "b div 32 < unat (pm_blocks (pm_init mmap s)) div 32"
    using assms by (simp add: managed_def less_mult_imp_div_less)
  have "bit (0xFFFFFFFF :: u32) (b mod 32)"
    using full_word_used [of "\<lparr>pm_map = \<lambda>_. 0xFFFFFFFF, pm_size = 0, pm_blocks = 0, pm_used = 0\<rparr>" "b div 32" b]
    by (simp add: frame_used_def div_less_iff_less_mult [symmetric])
  moreover have "b div 32 < 32 \<longleftrightarrow> b < 1024" by (simp add: div_less_iff_less_mult)
  ultimately show ?thesis using lt by (simp add: frame_used_def pm_init_def Let_def)
qed

lemma pm_init_inv:
  assumes "4194304 \<le> ram_max mmap" and "ram_max mmap \<le> 0xFFFFF000"
  shows "pm_inv (pm_init mmap s)" and "free_frames (pm_init mmap s) = frame_addr ` {1024..<managed (pm_init mmap s)}"
proof -
  let ?s = "pm_init mmap s"
  have r: "4194304 \<le> unat (ram_max mmap)" "unat (ram_max mmap) \<le> 4294963200"
    using assms by (simp_all add: word_le_nat_alt)
  then have sum: "unat (ram_max mmap + 4095) = unat (ram_max mmap) + 4095"
    by (subst unat_plus_nowrap32) simp_all
  have lo: "1024 \<le> unat (pm_blocks ?s)"
    unfolding pm_init_blocks sum using r(1) by (simp add: less_eq_div_iff_mult_less_eq)
  then have m: "1024 \<le> managed ?s" by (simp add: managed_def)
  have hi: "unat (pm_blocks ?s) \<le> 1048576"
  proof -
    have "unat (pm_blocks ?s) \<le> 4294967296 div 4096"
      unfolding pm_init_blocks by (intro div_le_mono order_less_imp_le unat_less_2p32)
    then show ?thesis by simp
  qed
  have "used_frames ?s = {..<1024}"
    using m pm_init_used by (auto simp: used_frames_def)
  moreover have "unat (pm_used ?s) = 1024" by (simp add: pm_init_def Let_def)
  moreover have "frame_used ?s 0" using pm_init_used [of 0 mmap s] m by simp
  ultimately show "pm_inv ?s" using hi by (simp add: pm_inv_def)
  have "{b. b < managed ?s \<and> \<not> frame_used ?s b} = {1024..<managed ?s}"
    by (auto simp: pm_init_used)
  then show "free_frames ?s = frame_addr ` {1024..<managed ?s}" by (simp add: free_frames_def)
qed

section \<open>Runs of frames\<close>

definition free_run :: "pm_state \<Rightarrow> nat \<Rightarrow> nat \<Rightarrow> bool" where
  "free_run s n b \<longleftrightarrow> run_at (\<lambda>x. \<not> frame_used s x) n (managed s) b"

text \<open>
  The search is right as long as the completely used words of the bitmap form a prefix of it:
  it passes over such a word without ending the current run.
\<close>

definition no_full_gap :: "pm_state \<Rightarrow> bool" where
  "no_full_gap s \<longleftrightarrow> (\<exists>k. \<forall>i < unat (pm_blocks s) div 32. pm_map s i = 0xFFFFFFFF \<longleftrightarrow> i < k)"

definition run_state :: "pm_state \<Rightarrow> nat \<Rightarrow> nat \<Rightarrow> nat \<Rightarrow> nat \<Rightarrow> bool" where
  "run_state s n block c first_block \<longleftrightarrow>
     scanned (\<lambda>x. \<not> frame_used s x) n (managed s) block c \<and> first_block = (if c = 0 then 0 else block - c)"

definition lowest_free_run :: "pm_state \<Rightarrow> nat \<Rightarrow> nat \<Rightarrow> bool" where
  "lowest_free_run s n b \<longleftrightarrow> free_run s n b \<and> (\<forall>b'. free_run s n b' \<longrightarrow> b \<le> b')"

lemma run_state_first:
  assumes "run_state s n block c f" and "frame_used s 0"
  shows "(if f = 0 then block else f) = block - c"
proof (cases "c = 0")
  case False
  have "block - c \<noteq> 0"
  proof
    assume "block - c = 0"
    with assms(1) False have "\<not> frame_used s 0" by (auto simp: run_state_def scanned_def)
    with assms(2) show False by simp
  qed
  with False assms(1) show ?thesis by (simp add: run_state_def)
qed (use assms(1) in \<open>simp add: run_state_def\<close>)

lemma run_state_free:
  assumes "run_state s n block c f" and "\<not> frame_used s block" and "frame_used s 0"
  shows "c + 1 = n \<Longrightarrow> block < managed s \<Longrightarrow> lowest_free_run s n (if f = 0 then block else f)"
    and "c + 1 \<noteq> n \<Longrightarrow> run_state s n (Suc block) (c + 1) (if f = 0 then block else f)"
  using scanned_free [of "\<lambda>x. \<not> frame_used s x" n "managed s" block c] assms(1,2)
  unfolding run_state_first [OF assms(1,3)]
  by (auto simp: run_state_def lowest_free_run_def lowest_run_def free_run_def)

lemma run_state_used:
  "run_state s n block c f \<Longrightarrow> frame_used s block \<Longrightarrow> run_state s n (Suc block) 0 0"
  using scanned_used [of "\<lambda>x. \<not> frame_used s x" n "managed s" block c] by (simp add: run_state_def)

lemma run_in_spec:
  assumes "run_state s n block c f" and "frame_used s 0" and "block \<le> lim" and "lim \<le> managed s"
  shows "case run_in s n block lim c f of
      Inl b \<Rightarrow> lowest_free_run s n b
    | Inr (c', f') \<Rightarrow> run_state s n lim c' f'"
  using assms
proof (induction s n block lim c f rule: run_in.induct)
  case (1 s n block lim c f)
  show ?case
  proof (cases "block < lim")
    case False
    then show ?thesis using "1.prems" by (subst run_in.simps) simp
  next
    case True
    show ?thesis
    proof (cases "frame_used s block")
      case used: True
      with True have "run_in s n block lim c f = run_in s n (Suc block) lim 0 0"
        by (subst run_in.simps) simp
      then show ?thesis using "1.IH"(2) [OF True] used True "1.prems" run_state_used by simp
    next
      case False
      have m: "block < managed s" using True "1.prems"(4) by simp
      show ?thesis
      proof (cases "c + 1 = n")
        case full: True
        with True False have "run_in s n block lim c f = Inl (if f = 0 then block else f)"
          by (subst run_in.simps) (simp add: Let_def)
        then show ?thesis using run_state_free(1) [OF "1.prems"(1) False "1.prems"(2) full m] by simp
      next
        case more: False
        with True False have "run_in s n block lim c f = run_in s n (Suc block) lim (c + 1) (if f = 0 then block else f)"
          by (subst run_in.simps) (simp add: Let_def)
        then show ?thesis
          using "1.IH"(1) [OF True _ refl refl more] False True "1.prems"
            run_state_free(2) [OF "1.prems"(1) False "1.prems"(2) more] by simp
      qed
    qed
  qed
qed

lemma run_state_skip:
  assumes "run_state s n (i * 32) 0 0" and "pm_map s i = 0xFFFFFFFF"
  shows "run_state s n (Suc i * 32) 0 0"
  using assms scanned_skip [of "\<lambda>x. \<not> frame_used s x" n "managed s" "i * 32" "Suc i * 32"]
    full_word_used [OF assms(2)] by (simp add: run_state_def)

definition run_result :: "pm_state \<Rightarrow> nat \<Rightarrow> int \<Rightarrow> bool" where
  "run_result s n r \<longleftrightarrow>
     (r = - 1 \<and> (\<forall>b. \<not> free_run s n b)) \<or>
     (\<exists>b. r = int b \<and> lowest_free_run s n b)"

lemma run_from_spec:
  assumes "run_state s n (i * 32) c f" and "frame_used s 0" and "i \<le> unat (pm_blocks s) div 32"
    and "\<forall>j < unat (pm_blocks s) div 32. pm_map s j = 0xFFFFFFFF \<longleftrightarrow> j < k" and "i \<le> k \<longrightarrow> c = 0"
  shows "run_result s n (run_from s n i c f)"
  using assms
proof (induction s n i c f rule: run_from.induct)
  case (1 s n i c f)
  note st = "1.prems"(1) and gap = "1.prems"(4)
  show ?case
  proof (cases "i < unat (pm_blocks s) div 32")
    case False
    then have "managed s = i * 32" using "1.prems"(3) by (simp add: managed_def)
    moreover have "run_from s n i c f = - 1" using False by (subst run_from.simps) simp
    ultimately show ?thesis using st scanned_end
      by (auto simp: run_result_def run_state_def free_run_def)
  next
    case True
    show ?thesis
    proof (cases "pm_map s i \<noteq> 0xFFFFFFFF")
      case False
      then have c: "c = 0" "f = 0" "Suc i \<le> k"
        using gap True st "1.prems"(5) by (auto simp: run_state_def)
      have eq: "run_from s n i c f = run_from s n (Suc i) c f"
        using True False by (subst run_from.simps) simp
      have "run_state s n (Suc i * 32) c f" using st False c run_state_skip by simp
      with "1.IH"(2) [OF True False] show ?thesis using "1.prems" True c eq by simp
    next
      case word: True
      have lim: "(i + 1) * 32 \<le> managed s" unfolding managed_def using True by (intro mult_le_mono1) simp
      note inner = run_in_spec [OF st "1.prems"(2) _ lim]
      show ?thesis
      proof (cases "run_in s n (i * 32) ((i + 1) * 32) c f")
        case (Inl b)
        then have "run_from s n i c f = int b" using True word by (subst run_from.simps) simp
        then show ?thesis using Inl inner by (simp add: run_result_def)
      next
        case (Inr r)
        obtain c' f' where r: "r = (c', f')" by fastforce
        have eq: "run_from s n i c f = run_from s n (Suc i) c' f'"
          using Inr r True word by (subst run_from.simps) simp
        have "run_state s n (Suc i * 32) c' f'" using inner Inr r by simp
        moreover have "\<not> Suc i \<le> k" using gap True word by auto
        ultimately show ?thesis using "1.IH"(1) [OF True word Inr r [symmetric]] "1.prems" True eq by simp
      qed
    qed
  qed
qed

lemma mmap_get_free_consecutives_spec:
  assumes "frame_used s 0" and "no_full_gap s" and "0 < n"
  shows "run_result s n (mmap_get_free_consecutives s n)"
proof -
  obtain k where k: "\<forall>j < unat (pm_blocks s) div 32. pm_map s j = 0xFFFFFFFF \<longleftrightarrow> j < k"
    using assms(2) by (auto simp: no_full_gap_def)
  have "run_state s n (0 * 32) 0 0" using assms(3) scanned_start by (simp add: run_state_def)
  then show ?thesis unfolding mmap_get_free_consecutives_def
    by (rule run_from_spec [OF _ assms(1) _ k]) simp_all
qed

lemma mmap_set_range_simps [simp]:
  "frame_used (mmap_set_range s i n) x \<longleftrightarrow> (i \<le> x \<and> x < i + n) \<or> frame_used s x"
  "managed (mmap_set_range s i n) = managed s" "pm_blocks (mmap_set_range s i n) = pm_blocks s"
  "pm_used (mmap_set_range s i n) = pm_used s"
  by (induction n arbitrary: s i) auto

definition take_run :: "pm_state \<Rightarrow> nat \<Rightarrow> nat \<Rightarrow> pm_state" where
  "take_run s b n = (mmap_set_range s b n)\<lparr>pm_used := pm_used s + of_nat n\<rparr>"

lemma take_run_simps [simp]:
  "frame_used (take_run s b n) x \<longleftrightarrow> (b \<le> x \<and> x < b + n) \<or> frame_used s x"
  "managed (take_run s b n) = managed s" "pm_blocks (take_run s b n) = pm_blocks s"
  "pm_used (take_run s b n) = pm_used s + of_nat n"
  by (simp_all add: take_run_def)

lemma used_frames_take_run: "free_run s n b \<Longrightarrow> used_frames (take_run s b n) = used_frames s \<union> {b..<b + n}"
  by (auto simp: used_frames_def free_run_def run_at_def)

lemma card_take_run:
  assumes "free_run s n b"
  shows "card (used_frames (take_run s b n)) = card (used_frames s) + n"
    and "card (used_frames s) + n \<le> managed s"
proof -
  have "used_frames s \<inter> {b..<b + n} = {}" using assms by (auto simp: used_frames_def free_run_def run_at_def)
  then show c: "card (used_frames (take_run s b n)) = card (used_frames s) + n"
    by (simp add: used_frames_take_run [OF assms] card_Un_disjoint)
  show "card (used_frames s) + n \<le> managed s"
    using card_used_frames_le [of "take_run s b n"] c by simp
qed

lemma pm_inv_take_run:
  assumes "pm_inv s" and "free_run s n b"
  shows "pm_inv (take_run s b n)"
proof -
  have m: "card (used_frames s) + n \<le> 1048576"
    using card_take_run(2) [OF assms(2)] managed_bound [OF assms(1)] by simp
  then have "unat (pm_used s + of_nat n) = card (used_frames s) + n"
    using assms(1) by (simp add: pm_inv_def unat_plus_nowrap32 unat_of_nat32)
  then show ?thesis using assms card_take_run(1) by (simp add: pm_inv_def)
qed

lemma pm_alloc_blocks_spec:
  assumes "pm_inv s" and "no_full_gap s" and "0 < n"
  shows "(\<exists>b. lowest_free_run s (unat n) b \<and>
              pm_alloc_blocks s n = (frame_addr b, take_run s b (unat n))) \<or>
         ((\<forall>b. \<not> free_run s (unat n) b) \<and> pm_alloc_blocks s n = (0, s))"
proof -
  have n: "0 < unat n" using assms(3) by (simp add: word_less_nat_alt)
  have r: "run_result s (unat n) (mmap_get_free_consecutives s (unat n))"
    using assms(1) by (intro mmap_get_free_consecutives_spec [OF _ assms(2) n]) (simp add: pm_inv_def)
  have count: "\<not> pm_free_count s < n" if "free_run s (unat n) b" for b
    using card_take_run(2) [OF that] unat_pm_free_count [OF assms(1)] managed_le [of s]
    by (simp add: word_less_nat_alt)
  show ?thesis
  proof (cases "\<exists>b. free_run s (unat n) b")
    case False
    then show ?thesis using r by (auto simp: run_result_def lowest_free_run_def pm_alloc_blocks_def)
  next
    case True
    then obtain b where b: "mmap_get_free_consecutives s (unat n) = int b" "free_run s (unat n) b"
      "lowest_free_run s (unat n) b" using r by (auto simp: run_result_def lowest_free_run_def)
    then have "pm_alloc_blocks s n = (frame_addr b, take_run s b (unat n))"
      using count [OF b(2)] by (simp add: pm_alloc_blocks_def frame_addr_def take_run_def)
    with b show ?thesis by blast
  qed
qed

section \<open>Properties\<close>

lemma card_used_frames_code: "card (used_frames s) = length (filter (frame_used s) [0..<managed s])"
proof -
  have "used_frames s = set (filter (frame_used s) [0..<managed s])" by (auto simp: used_frames_def)
  then show ?thesis by (simp only: distinct_card distinct_filter distinct_upt)
qed

text \<open>
  C4: in a state in which \<open>_pm_used\<close> counts the set bits of the bitmap, \<open>pm_alloc\<close> returns the
  lowest free frame, marks exactly that frame and keeps the count; it fails, with no change, only
  when every managed frame is in use.
\<close>

theorem pm_alloc_correct:
  assumes "pm_inv s"
  shows "case pm_alloc s of (p, s') \<Rightarrow> pm_inv s' \<and> pm_blocks s' = pm_blocks s \<and>
    (if \<forall>b < managed s. frame_used s b then p = 0 \<and> s' = s
     else \<exists>b < managed s. p = frame_addr b \<and> p \<noteq> 0 \<and> \<not> frame_used s b \<and> (\<forall>x < b. frame_used s x) \<and>
            (\<forall>x. frame_used s' x \<longleftrightarrow> x = b \<or> frame_used s x))"
  using pm_alloc_spec [OF assms] pm_inv_take_frame [OF assms] assms frame_addr_nonzero [OF assms] by auto

definition demo_pm :: pm_state where
  "demo_pm = \<lparr>pm_map = (\<lambda>i. if i = 0 then 7 else 0), pm_size = 131072, pm_blocks = 32, pm_used = 3\<rparr>"

lemma demo_pm_inv: "pm_inv demo_pm"
proof -
  have "managed demo_pm = 32" by (simp add: managed_def demo_pm_def)
  moreover have "filter (frame_used demo_pm) [0..<32] = [0, 1, 2]" by code_simp
  moreover have "frame_used demo_pm 0" by code_simp
  ultimately show ?thesis by (simp add: pm_inv_def card_used_frames_code) (simp add: demo_pm_def)
qed

theorem pm_alloc_correct_witness:
  "pm_inv demo_pm \<and> (case pm_alloc demo_pm of (p, s') \<Rightarrow> pm_inv s' \<and> p = 12288 \<and> frame_used s' 3)"
proof -
  have "\<not> (\<forall>b < managed demo_pm. frame_used demo_pm b)" by code_simp
  moreover have "fst (pm_alloc demo_pm) = 12288" "frame_used (snd (pm_alloc demo_pm)) 3" by code_simp+
  ultimately show ?thesis using pm_alloc_correct [OF demo_pm_inv] demo_pm_inv by (auto split: prod.splits)
qed

text \<open>
  C1: after \<open>pm_init\<close> on a machine with at least 4 MB of memory, no sequence of successful
  allocations hands out a frame twice or a frame of the first 4 MB, which the kernel occupies.
\<close>

theorem pm_init_frames_distinct:
  assumes "4194304 \<le> ram_max mmap" and "ram_max mmap \<le> 0xFFFFF000"
    and "pm.alloc_many n (pm_init mmap s) = (ps, s')" and "0 \<notin> set ps"
  shows "length ps = n \<and> distinct ps \<and> (\<forall>p \<in> set ps. 4194304 \<le> p) \<and> pm_inv s'"
proof -
  note i = pm_init_inv [OF assms(1,2), of s]
  have a: "length ps = n" "distinct ps" "set ps \<subseteq> free_frames (pm_init mmap s)"
    using pm.alloc_many_free [OF i(1) assms(3,4)] by auto
  have "4194304 \<le> p" if p: "p \<in> set ps" for p
  proof -
    obtain b where b: "p = frame_addr b" "1024 \<le> b" "b < managed (pm_init mmap s)"
      using p a(3) i(2) by fastforce
    then have "unat p = b * 4096" using unat_frame_addr [of b] managed_bound [OF i(1)] by simp
    moreover have "4194304 \<le> b * 4096" using b(2) by simp
    ultimately show ?thesis by (simp add: word_le_nat_alt)
  qed
  then show ?thesis using a pm.alloc_many_invar [OF i(1) assms(3)] by simp
qed

definition demo_mmap :: "mmap_entry list" where
  "demo_mmap = [\<lparr>addr_low = 0, addr_high = 0, len_low = 0x9FC00, len_high = 0, mtype = 1\<rparr>,
                \<lparr>addr_low = 0x100000, addr_high = 0, len_low = 0x1F00000, len_high = 0, mtype = 1\<rparr>]"

theorem pm_init_frames_distinct_witness:
  "case pm.alloc_many 2 (pm_init demo_mmap demo_pm) of (ps, s') \<Rightarrow>
     0 \<notin> set ps \<and> length ps = 2 \<and> distinct ps \<and> (\<forall>p \<in> set ps. 4194304 \<le> p) \<and> pm_inv s'"
proof -
  let ?s = "pm_init demo_mmap demo_pm"
  have r: "4194304 \<le> ram_max demo_mmap" "ram_max demo_mmap \<le> 0xFFFFF000"
    by (simp_all add: ram_max_def demo_mmap_def)
  note i = pm_init_inv [OF r, of demo_pm]
  have m: "managed ?s = 8192" unfolding managed_def pm_init_blocks by (simp add: ram_max_def demo_mmap_def)
  obtain p s1 where a: "pm_alloc ?s = (p, s1)" by fastforce
  obtain q s2 where b: "pm_alloc s1 = (q, s2)" by fastforce
  have f: "frame_addr 1024 \<in> free_frames ?s" "frame_addr 1025 \<in> free_frames ?s" unfolding i(2) m by auto
  then have p: "p \<noteq> 0" using pm.alloc_fail [OF i(1)] a by auto
  have "frame_addr 1024 \<noteq> frame_addr 1025" by (simp add: frame_addr_def)
  then have "free_frames s1 \<noteq> {}" using pm.alloc_takes [OF i(1) a p] f by auto
  then have q: "q \<noteq> 0" using pm.alloc_fail [OF pm.alloc_invar [OF i(1) a]] b by auto
  have "pm.alloc_many 2 ?s = ([p, q], s2)" using a b by (simp add: numeral_2_eq_2)
  then show ?thesis using pm_init_frames_distinct [OF r, of 2 demo_pm "[p, q]" s2] p q by simp
qed

text \<open>
  C30: as long as the fully used words of the bitmap form a prefix of it, \<open>pm_alloc_blocks\<close> returns
  the lowest run of \<open>n\<close> free frames, marks exactly that run and keeps the count of used frames,
  and it fails only when there is no such run.
\<close>

theorem pm_alloc_blocks_correct:
  assumes "pm_inv s" and "no_full_gap s" and "0 < n"
  shows "case pm_alloc_blocks s n of (p, s') \<Rightarrow> pm_inv s' \<and>
    (if \<exists>b. free_run s (unat n) b
     then \<exists>b. p = frame_addr b \<and> free_run s (unat n) b \<and> (\<forall>b'. free_run s (unat n) b' \<longrightarrow> b \<le> b') \<and>
            (\<forall>x. frame_used s' x \<longleftrightarrow> (b \<le> x \<and> x < b + unat n) \<or> frame_used s x)
     else p = 0 \<and> s' = s)"
  using pm_alloc_blocks_spec [OF assms] pm_inv_take_run [OF assms(1)] assms(1)
  by (auto simp: lowest_free_run_def)

theorem pm_alloc_blocks_correct_witness:
  "case pm_alloc_blocks demo_pm 4 of (p, s') \<Rightarrow>
     pm_inv s' \<and> p = 12288 \<and> (\<forall>x \<in> {3, 4, 5, 6}. frame_used s' x)"
proof -
  have "no_full_gap demo_pm" unfolding no_full_gap_def by (rule exI [of _ 0]) (simp add: demo_pm_def)
  moreover have "fst (pm_alloc_blocks demo_pm 4) = 12288"
    "\<forall>x \<in> {3, 4, 5, 6}. frame_used (snd (pm_alloc_blocks demo_pm 4)) x" by code_simp+
  ultimately show ?thesis using pm_alloc_blocks_correct [OF demo_pm_inv, of 4] by (auto split: prod.splits)
qed

text \<open>
  Without that condition the search runs across a full word.  With the kernel's 4 MB in use,
  frame 1055 free, the 32 frames after it in use and the rest free, a request for two frames
  returns frame 1055 and thereby also claims frame 1056, which is already in use.
\<close>

definition gap_pm :: pm_state where
  "gap_pm = \<lparr>pm_map = (\<lambda>i. if i < 32 then 0xFFFFFFFF else if i = 32 then 0x7FFFFFFF
                         else if i = 33 then 0xFFFFFFFF else 0),
             pm_size = 0x800000, pm_blocks = 2048, pm_used = 1087\<rparr>"

theorem pm_alloc_blocks_overlaps:
  "fst (pm_alloc_blocks gap_pm 2) = frame_addr 1055 \<and> frame_used gap_pm 1056"
  by code_simp

end
