(* ===== verification/Vmm.thy ===== *)
theory Vmm
  imports Pmm
begin

text \<open>
  Paging: \<open>src/kernel/mm/vmm.c\<close>, the entry helpers of \<open>src/include/memory.h\<close>, the heap
  \<open>src/kernel/mm/heap.c\<close> and \<open>map_ident\<close> of \<open>src/kernel/kernel.c\<close>.

  The state is the frame allocator, the page directory and the physical memory as words indexed by
  their (aligned) byte address.  Once paging is on, every pointer the code dereferences is a virtual
  address: \<open>translate\<close> is the walk of the two-level table that the processor makes (supervisor mode,
  \<open>CR0.WP\<close> clear, no stale TLB entry), and a page fault is \<open>None\<close>.  The page directory is a kernel
  object of its own, and \<open>fpt\<close> is the address at which the linker puts \<open>first_page_table\<close>.
\<close>

section \<open>Definitions\<close>

record vm_state =
  vm_pm :: pm_state
  page_directory :: "nat \<Rightarrow> u32"
  phys_mem :: "nat \<Rightarrow> u32"

definition PAGE_DIR_INDEX :: "u32 \<Rightarrow> nat" where
  "PAGE_DIR_INDEX x = unat (drop_bit 22 x AND 0x3ff)"

definition PAGE_TABLE_INDEX :: "u32 \<Rightarrow> nat" where
  "PAGE_TABLE_INDEX x = unat (drop_bit 12 x AND 0x3ff)"

definition PTE_FRAME :: u32 where
  "PTE_FRAME = 0x7FFFF000"

definition pt_entry_add_attrib :: "u32 \<Rightarrow> u32 \<Rightarrow> u32" where
  "pt_entry_add_attrib e attribute = e OR attribute"

definition pt_entry_del_attrib :: "u32 \<Rightarrow> u32 \<Rightarrow> u32" where
  "pt_entry_del_attrib e attribute = e XOR attribute"

definition pt_entry_pfn :: "u32 \<Rightarrow> u32" where
  "pt_entry_pfn e = e AND PTE_FRAME"

definition pt_entry_set_frame :: "u32 \<Rightarrow> u32 \<Rightarrow> u32" where
  "pt_entry_set_frame e addr = (e AND NOT PTE_FRAME) OR addr"

text \<open>The processor's walk, and memory accesses through it.\<close>

definition translate :: "vm_state \<Rightarrow> u32 \<Rightarrow> u32 option" where
  "translate s v =
     (let pde = page_directory s (PAGE_DIR_INDEX v) in
      if pde AND 1 = 0 then None
      else let pte = phys_mem s (unat (pde AND 0xFFFFF000) + 4 * PAGE_TABLE_INDEX v) in
        if pte AND 1 = 0 then None
        else Some ((pte AND 0xFFFFF000) OR (v AND 0xFFF)))"

definition vread :: "vm_state \<Rightarrow> u32 \<Rightarrow> u32 option" where
  "vread s a = map_option (\<lambda>p. phys_mem s (unat p)) (translate s a)"

definition vwrite :: "vm_state \<Rightarrow> u32 \<Rightarrow> u32 \<Rightarrow> vm_state option" where
  "vwrite s a x = map_option (\<lambda>p. s\<lparr>phys_mem := (phys_mem s)(unat p := x)\<rparr>) (translate s a)"

definition zero_page :: "vm_state \<Rightarrow> u32 \<Rightarrow> vm_state" where
  "zero_page s p = s\<lparr>phys_mem := (\<lambda>a. if unat p \<le> a \<and> a < unat p + 4096 then 0 else phys_mem s a)\<rparr>"

text \<open>\<open>vm_init\<close> runs before paging is on: its accesses are physical.\<close>

function vm_init_dir :: "vm_state \<Rightarrow> nat \<Rightarrow> vm_state" where
  "vm_init_dir s i =
     (if i < 1024 then
        (case pm_alloc (vm_pm s) of (new_table, pm') \<Rightarrow>
           let s' = zero_page (s\<lparr>vm_pm := pm'\<rparr>) new_table
           in vm_init_dir (s'\<lparr>page_directory := (page_directory s')(i := new_table OR (2 OR 1))\<rparr>) (Suc i))
      else s)"
  by pat_completeness auto
termination
  by (relation "measure (\<lambda>(s, i). 1024 - i)") auto

function vm_init_first :: "nat \<Rightarrow> vm_state \<Rightarrow> nat \<Rightarrow> vm_state" where
  "vm_init_first fpt s i =
     (if i < 1024 then
        vm_init_first fpt (s\<lparr>phys_mem := (phys_mem s)(fpt + 4 * i := (of_nat i * 0x1000) OR (2 OR 1))\<rparr>) (Suc i)
      else s)"
  by pat_completeness auto
termination
  by (relation "measure (\<lambda>(fpt, s, i). 1024 - i)") auto

function vm_init_pages :: "nat \<Rightarrow> vm_state \<Rightarrow> nat \<Rightarrow> vm_state" where
  "vm_init_pages pages s i =
     (if i < 1024 then
        vm_init_pages pages
          (s\<lparr>phys_mem := (phys_mem s)(pages + 4 * i := (page_directory s i AND PTE_FRAME) OR (2 OR 1))\<rparr>) (Suc i)
      else s)"
  by pat_completeness auto
termination
  by (relation "measure (\<lambda>(pages, s, i). 1024 - i)") auto

definition vm_init :: "nat \<Rightarrow> vm_state \<Rightarrow> vm_state" where
  "vm_init fpt s =
     (let s1 = vm_init_dir s 0;
          s2 = vm_init_first fpt s1 0;
          s3 = vm_init_pages (unat (page_directory s2 1 AND PTE_FRAME)) s2 0
      in s3\<lparr>page_directory := (page_directory s3)(0 := of_nat fpt OR (2 OR 1))\<rparr>)"

text \<open>A \<open>pt_entry *\<close> is the virtual address of the entry.\<close>

definition vm_alloc_page :: "vm_state \<Rightarrow> u32 \<Rightarrow> (u8 \<times> vm_state) option" where
  "vm_alloc_page s e =
     (case pm_alloc (vm_pm s) of (p, pm') \<Rightarrow>
        let s' = s\<lparr>vm_pm := pm'\<rparr> in
        if p = 0 then Some (1, s')
        else do {
          x \<leftarrow> vread s' e;
          s1 \<leftarrow> vwrite s' e (pt_entry_set_frame x p);
          y \<leftarrow> vread s1 e;
          s2 \<leftarrow> vwrite s1 e (pt_entry_add_attrib y 1);
          Some (0, s2) })"

definition vm_free_page :: "vm_state \<Rightarrow> u32 \<Rightarrow> vm_state option" where
  "vm_free_page s e =
     do {
       x \<leftarrow> vread s e;
       let p = pt_entry_pfn x;
       let s' = (if p \<noteq> 0 then s\<lparr>vm_pm := pm_free (vm_pm s) p\<rparr> else s);
       y \<leftarrow> vread s' e;
       vwrite s' e (pt_entry_del_attrib y 1) }"

definition map_page_entry :: "vm_state \<Rightarrow> u32 \<Rightarrow> u32 \<Rightarrow> vm_state option" where
  "map_page_entry s phys virt =
     do {
       let table = page_directory s (PAGE_DIR_INDEX virt) AND NOT 0xfff;
       let page = table + 4 * of_nat (PAGE_TABLE_INDEX virt);
       x \<leftarrow> vread s page;
       s1 \<leftarrow> vwrite s page (pt_entry_set_frame x phys);
       y \<leftarrow> vread s1 page;
       vwrite s1 page (pt_entry_add_attrib y 1) }"

definition vm_map_page :: "vm_state \<Rightarrow> u32 \<Rightarrow> u32 \<Rightarrow> vm_state option" where
  "vm_map_page s phys virt =
     (let e = PAGE_DIR_INDEX virt in
      if page_directory s e AND 1 \<noteq> 1 then
        (case pm_alloc (vm_pm s) of (table, pm') \<Rightarrow>
           let s0 = s\<lparr>vm_pm := pm'\<rparr> in
           if table = 0 then Some s0
           else do {
             p \<leftarrow> translate s0 table;
             let s1 = zero_page s0 p;
             let new_e = pt_entry_set_frame (pt_entry_add_attrib (pt_entry_add_attrib (page_directory s1 e) 1) 2) table;
             map_page_entry (s1\<lparr>page_directory := (page_directory s1)(e := new_e)\<rparr>) phys virt })
      else map_page_entry s phys virt)"

function available_table_from :: "vm_state \<Rightarrow> nat \<Rightarrow> u32" where
  "available_table_from s i =
     (if i < 1024 then
        (if page_directory s i AND 1 \<noteq> 1 then of_nat (i * 1024 * 4096) else available_table_from s (Suc i))
      else 0)"
  by pat_completeness auto
termination
  by (relation "measure (\<lambda>(s, i). 1024 - i)") auto

definition get_available_page_table :: "vm_state \<Rightarrow> u32" where
  "get_available_page_table s = available_table_from s 0"

text \<open>\<open>Inl\<close> is the \<open>return\<close> out of both loops of \<open>vm_find_free\<close>.\<close>

function find_in_table :: "vm_state \<Rightarrow> nat \<Rightarrow> nat \<Rightarrow> u32 \<Rightarrow> nat \<Rightarrow> nat \<Rightarrow> u32 \<Rightarrow> (u32 + (nat \<times> u32)) option" where
  "find_in_table s nbr i table j count vaddr =
     (if j < 1024 then
        (case vread s (table + 4 * of_nat j) of
           None \<Rightarrow> None
         | Some x \<Rightarrow>
             if x AND 1 \<noteq> 1 then
               (let vaddr' = (if count = 0 then of_nat (i * 1024 * 4096 + j * 4096) else vaddr)
                in if count + 1 = nbr then Some (Inl vaddr')
                   else find_in_table s nbr i table (Suc j) (count + 1) vaddr')
             else find_in_table s nbr i table (Suc j) 0 vaddr)
      else Some (Inr (count, vaddr)))"
  by pat_completeness auto
termination
  by (relation "measure (\<lambda>(s, nbr, i, table, j, count, vaddr). 1024 - j)") auto

function find_free_from :: "vm_state \<Rightarrow> nat \<Rightarrow> nat \<Rightarrow> nat \<Rightarrow> u32 \<Rightarrow> u32 option" where
  "find_free_from s nbr i count vaddr =
     (if i < 1024 then
        (if page_directory s i AND 1 = 1 then
           (case find_in_table s nbr i (page_directory s i AND PTE_FRAME) 0 count vaddr of
              None \<Rightarrow> None
            | Some (Inl v) \<Rightarrow> Some v
            | Some (Inr (count', vaddr')) \<Rightarrow> find_free_from s nbr (Suc i) count' vaddr')
         else find_free_from s nbr (Suc i) 0 vaddr)
      else Some (get_available_page_table s))"
  by pat_completeness auto
termination
  by (relation "measure (\<lambda>(s, nbr, i, count, vaddr). 1024 - i)") auto

definition vm_find_free :: "vm_state \<Rightarrow> nat \<Rightarrow> u32 option" where
  "vm_find_free s nbr = find_free_from s nbr 0 0 0"

definition vm_alloc_size :: "vm_state \<Rightarrow> u32 \<Rightarrow> u32 option" where
  "vm_alloc_size s addr = vread s (addr - 16 + 4)"

fun free_pages :: "vm_state \<Rightarrow> u32 \<Rightarrow> nat \<Rightarrow> vm_state option" where
  "free_pages s vaddr 0 = Some s"
| "free_pages s vaddr (Suc n) =
     do {
       let t = page_directory s (PAGE_DIR_INDEX vaddr) AND PTE_FRAME;
       s' \<leftarrow> vm_free_page s (t + 4 * of_nat (PAGE_TABLE_INDEX vaddr));
       free_pages s' (vaddr + 0x1000) n }"

definition vm_alloc_free :: "vm_state \<Rightarrow> u32 \<Rightarrow> vm_state option" where
  "vm_alloc_free s addr =
     do { let vaddr = addr - 16;
          pages_to_free \<leftarrow> vread s vaddr;
          free_pages s vaddr (unat pages_to_free) }"

text \<open>The heap.\<close>

definition pages_needed :: "u32 \<Rightarrow> nat" where
  "pages_needed size' = unat (size' div 4096 + (if size' mod 4096 = 0 then 0 else 1))"

fun vmalloc_map :: "vm_state \<Rightarrow> u32 \<Rightarrow> nat \<Rightarrow> vm_state option" where
  "vmalloc_map s vaddr 0 = Some s"
| "vmalloc_map s vaddr (Suc n) =
     (case pm_alloc (vm_pm s) of (paddr, pm') \<Rightarrow>
        do { s' \<leftarrow> vm_map_page (s\<lparr>vm_pm := pm'\<rparr>) paddr vaddr; vmalloc_map s' (vaddr + 4096) n })"

fun kmalloc_map :: "vm_state \<Rightarrow> u32 \<Rightarrow> u32 \<Rightarrow> nat \<Rightarrow> vm_state option" where
  "kmalloc_map s paddr vaddr 0 = Some s"
| "kmalloc_map s paddr vaddr (Suc n) =
     do { s' \<leftarrow> vm_map_page s paddr vaddr; kmalloc_map s' (paddr + 4096) (vaddr + 4096) n }"

definition write_header :: "vm_state \<Rightarrow> u32 \<Rightarrow> nat \<Rightarrow> u32 \<Rightarrow> (u32 \<times> vm_state) option" where
  "write_header s vaddr_begin pages size' =
     do { s1 \<leftarrow> vwrite s vaddr_begin (of_nat pages);
          s2 \<leftarrow> vwrite s1 (vaddr_begin + 4) (size' - 16);
          Some (vaddr_begin + 16, s2) }"

definition vmalloc :: "vm_state \<Rightarrow> u32 \<Rightarrow> (u32 \<times> vm_state) option" where
  "vmalloc s sz =
     (let size' = sz + 16; n = pages_needed size' in
      if size' \<noteq> 0 then
        do { vaddr_begin \<leftarrow> vm_find_free s n;
             if vaddr_begin = 0 then Some (0, s)
             else do { s1 \<leftarrow> vmalloc_map s vaddr_begin n; write_header s1 vaddr_begin n size' } }
      else Some (0, s))"

definition kmalloc :: "vm_state \<Rightarrow> u32 \<Rightarrow> (u32 \<times> vm_state) option" where
  "kmalloc s sz =
     (let size' = sz + 16; n = pages_needed size' in
      if size' \<noteq> 0 then
        do { vaddr_begin \<leftarrow> vm_find_free s n;
             if vaddr_begin = 0 then Some (0, s)
             else (case pm_alloc_blocks (vm_pm s) (of_nat n) of (paddr, pm') \<Rightarrow>
                     do { s1 \<leftarrow> kmalloc_map (s\<lparr>vm_pm := pm'\<rparr>) paddr vaddr_begin n;
                          write_header s1 vaddr_begin n size' }) }
      else Some (0, s))"

definition vfree :: "vm_state \<Rightarrow> u32 \<Rightarrow> vm_state option" where
  "vfree s addr = vm_alloc_free s addr"

definition kfree :: "vm_state \<Rightarrow> u32 \<Rightarrow> vm_state option" where
  "kfree s addr = vm_alloc_free s addr"

definition vsize :: "vm_state \<Rightarrow> u32 \<Rightarrow> u32 option" where
  "vsize s addr = vm_alloc_size s addr"

definition ksize :: "vm_state \<Rightarrow> u32 \<Rightarrow> u32 option" where
  "ksize s addr = vm_alloc_size s addr"

text \<open>
  \<open>map_ident\<close>.  Its loop does not end when the last page of the address space is part of the range,
  so it is a partial function: \<open>None\<close> is also the value of a loop that does not end.
\<close>

partial_function (option) map_ident_loop :: "vm_state \<Rightarrow> u32 \<Rightarrow> u32 \<Rightarrow> vm_state option" where
  "map_ident_loop s page lim =
     (if page < lim then do { s' \<leftarrow> vm_map_page s page page; map_ident_loop s' (page + 4096) lim }
      else Some s)"

definition map_ident :: "vm_state \<Rightarrow> u32 \<Rightarrow> u32 \<Rightarrow> vm_state option" where
  "map_ident s base len = map_ident_loop s (base AND NOT 0xFFF) (base + len)"

section \<open>Bits of addresses and entries\<close>

declare vm_init_dir.simps [simp del] vm_init_first.simps [simp del] vm_init_pages.simps [simp del]
  available_table_from.simps [simp del] find_in_table.simps [simp del] find_free_from.simps [simp del]

text \<open>The masks of the code in terms of \<open>mask\<close>.\<close>

lemma masks:
  "(0xFFF :: u32) = mask 12" "(0xFFFFF000 :: u32) = NOT (mask 12)" "(0x3ff :: u32) = mask 10"
  "PTE_FRAME = mask 31 AND NOT (mask 12)" "(0x80000FFE :: u32) = NOT (mask 31) OR (mask 12 AND NOT (mask 1))"
  "(1 :: u32) = mask 1"
  by (simp_all add: mask_eq_exp_minus_1 PTE_FRAME_def)

lemma dir_index: "PAGE_DIR_INDEX v = unat v div 4194304"
proof -
  have "unat v div 4194304 < 1024" using unat_less_2p32 [of v] by (simp add: div_less_iff_less_mult)
  then show ?thesis unfolding PAGE_DIR_INDEX_def masks unat_mask unat_drop by simp
qed

lemma table_index: "PAGE_TABLE_INDEX v = unat v div 4096 mod 1024"
  unfolding PAGE_TABLE_INDEX_def masks unat_mask unat_drop by simp

lemma page_index: "1024 * PAGE_DIR_INDEX v + PAGE_TABLE_INDEX v = unat v div 4096"
proof -
  have "unat v div 4194304 = unat v div 4096 div 1024" by (simp add: div_mult2_eq [symmetric])
  then show ?thesis by (simp add: dir_index table_index)
qed

lemma and_1_eq_0: "(x :: u32) AND 1 = 0 \<longleftrightarrow> \<not> bit x 0"
  by (simp add: and_one_eq bit_0 even_iff_mod_2_eq_zero)

lemma and_1_eq_1: "(x :: u32) AND 1 = 1 \<longleftrightarrow> bit x 0"
  by (simp add: and_one_eq odd_iff_mod_2_eq_one bit_0)

lemma unat_and_not_mask: "unat ((x :: u32) AND NOT (mask n)) = unat x - unat x mod 2 ^ n"
proof -
  have "x = (x AND NOT (mask n)) OR (x AND mask n)"
    by (rule bit_eqI) (auto simp: bit_simps)
  moreover have "(x AND NOT (mask n)) AND (x AND mask n) = 0"
    by (rule bit_eqI) (auto simp: bit_simps)
  ultimately have "unat x = unat (x AND NOT (mask n)) + unat (x AND mask n)"
    by (metis unat_or_disjoint)
  then show ?thesis by (simp add: unat_mask)
qed

text \<open>An entry of the heap's tables holds a frame below 2 GB and at most the present bit.\<close>

definition pte_ok :: "u32 \<Rightarrow> bool" where
  "pte_ok e \<longleftrightarrow> e AND 0x80000FFE = 0"

definition frame_ok :: "u32 \<Rightarrow> bool" where
  "frame_ok p \<longleftrightarrow> p AND NOT PTE_FRAME = 0"

lemma bit_lt32: "bit (x :: u32) n \<Longrightarrow> n < 32"
  using bit_imp_le_length [of x n] by simp

lemma frame_ok_bits: "frame_ok p \<longleftrightarrow> (\<forall>n. bit p n \<longrightarrow> 12 \<le> n \<and> n < 31)"
  unfolding frame_ok_def masks bit_eq_iff [of "p AND _" 0]
  by (simp add: bit_simps) (metis bit_lt32 not_less)

lemma pte_ok_bits: "pte_ok e \<longleftrightarrow> (\<forall>n. bit e n \<longrightarrow> n = 0 \<or> 12 \<le> n \<and> n < 31)"
  unfolding pte_ok_def masks bit_eq_iff [of "e AND _" 0]
  by (simp add: bit_simps) (metis bit_lt32 not_less zero_less_numeral)

lemma set_present:
  assumes "pte_ok e" and "frame_ok p"
  shows "pt_entry_add_attrib (pt_entry_set_frame e p) 1 = p OR 1"
proof (rule bit_eqI)
  fix n assume "possible_bit TYPE(u32) n"
  then show "bit (pt_entry_add_attrib (pt_entry_set_frame e p) 1) n = bit (p OR 1) n"
    using assms unfolding pt_entry_add_attrib_def pt_entry_set_frame_def masks frame_ok_bits pte_ok_bits
    by (auto simp: bit_simps)
qed

lemma frame_present:
  assumes "frame_ok p"
  shows "pte_ok (p OR 1)" "bit (p OR 1) 0" "pte_ok p" "\<not> bit p 0" "(p OR 1) AND 0xFFFFF000 = p"
    "pt_entry_pfn (p OR 1) = p" "pt_entry_del_attrib (p OR 1) 1 = p"
proof -
  note b = assms [unfolded frame_ok_bits]
  show "pte_ok (p OR 1)" "bit (p OR 1) 0" "pte_ok p" "\<not> bit p 0"
    using b by (auto simp: pte_ok_bits bit_simps)
  show "(p OR 1) AND 0xFFFFF000 = p" "pt_entry_pfn (p OR 1) = p" "pt_entry_del_attrib (p OR 1) 1 = p"
    using b unfolding pt_entry_pfn_def pt_entry_del_attrib_def masks
    by (auto intro!: bit_eqI simp: bit_simps)
qed

lemma frame_ok_addr:
  assumes "b < 524288"
  shows "frame_ok (frame_addr b)"
proof -
  have f: "frame_addr b = push_bit 12 (of_nat b)" by (simp add: frame_addr_def push_bit_eq_mult)
  have u: "unat (of_nat b :: u32) = b" using assms by (intro unat_of_nat32) simp
  have "\<not> bit (of_nat b :: u32) n" if "19 \<le> n" for n
  proof -
    have "b < 2 ^ n" using assms power_increasing [OF that, of "2 :: nat"] by simp
    then have "\<not> bit b n" by (simp add: bit_nat_def)
    then have "\<not> bit (unat (of_nat b :: u32)) n" unfolding u .
    then show ?thesis by (simp add: bit_unsigned_iff)
  qed
  then have "bit (push_bit 12 (of_nat b :: u32)) n \<Longrightarrow> 12 \<le> n \<and> n - 12 < 19" for n
    by (auto simp: bit_push_bit_iff not_le [symmetric])
  then show ?thesis unfolding f frame_ok_bits by force
qed

section \<open>The invariant of the address space\<close>

text \<open>
  After \<open>vm_init\<close> the directory points at 1024 tables, the first one \<open>first_page_table\<close> and the
  others in the frames from 4 MB on, so that the entry of page \<open>k\<close> is at a fixed address; the first
  8 MB of virtual memory are mapped to the same physical addresses, which makes every table
  reachable at its own address.  Above 8 MB a present entry maps a used frame above 8 MB, and no
  two of them the same frame.
\<close>

definition table_at :: "nat \<Rightarrow> nat \<Rightarrow> nat" where
  "table_at fpt i = (if i = 0 then fpt else 4194304 + 4096 * i)"

definition pte_addr :: "nat \<Rightarrow> nat \<Rightarrow> nat" where
  "pte_addr fpt k = (if k < 1024 then fpt + 4 * k else 4194304 + 4 * k)"

definition pte :: "nat \<Rightarrow> vm_state \<Rightarrow> nat \<Rightarrow> u32" where
  "pte fpt s k = phys_mem s (pte_addr fpt k)"

definition mapped :: "nat \<Rightarrow> vm_state \<Rightarrow> nat \<Rightarrow> bool" where
  "mapped fpt s k \<longleftrightarrow> bit (pte fpt s k) 0"

definition page_frame :: "nat \<Rightarrow> vm_state \<Rightarrow> nat \<Rightarrow> nat" where
  "page_frame fpt s k = unat (pte fpt s k) div 4096"

definition tables_ok :: "nat \<Rightarrow> vm_state \<Rightarrow> bool" where
  "tables_ok fpt s \<longleftrightarrow> fpt mod 4096 = 0 \<and> fpt + 4096 \<le> 4194304 \<and>
     (\<forall>i < 1024. unat (page_directory s i AND 0xFFFFF000) = table_at fpt i \<and> bit (page_directory s i) 0) \<and>
     (\<forall>k < 2048. pte fpt s k = frame_addr k OR 3)"

definition heap_ok :: "nat \<Rightarrow> vm_state \<Rightarrow> bool" where
  "heap_ok fpt s \<longleftrightarrow> pm_inv (vm_pm s) \<and> managed (vm_pm s) \<le> 524288 \<and>
     (\<forall>b < 2048. frame_used (vm_pm s) b) \<and>
     (\<forall>k. 2048 \<le> k \<and> k < 1048576 \<longrightarrow> pte_ok (pte fpt s k)) \<and>
     (\<forall>k. 2048 \<le> k \<and> k < 1048576 \<and> mapped fpt s k \<longrightarrow>
        2048 \<le> page_frame fpt s k \<and> page_frame fpt s k < managed (vm_pm s) \<and>
        frame_used (vm_pm s) (page_frame fpt s k)) \<and>
     inj_on (page_frame fpt s) {k. 2048 \<le> k \<and> k < 1048576 \<and> mapped fpt s k}"

definition vm_inv :: "nat \<Rightarrow> vm_state \<Rightarrow> bool" where
  "vm_inv fpt s \<longleftrightarrow> tables_ok fpt s \<and> heap_ok fpt s"

lemma pte_addr_inj:
  assumes "fpt + 4096 \<le> 4194304" and "pte_addr fpt j = pte_addr fpt k"
  shows "j = k"
  using assms by (auto simp: pte_addr_def split: if_splits)

lemma pte_addr_bound:
  assumes "fpt + 4096 \<le> 4194304" and "k < 1048576"
  shows "pte_addr fpt k < 8388608"
  using assms by (auto simp: pte_addr_def)

lemma table_pte_addr:
  assumes "j < 1024"
  shows "table_at fpt i + 4 * j = pte_addr fpt (1024 * i + j)"
  using assms by (auto simp: pte_addr_def table_at_def)

text \<open>The walk of the processor in terms of the entries.\<close>

lemma walk:
  assumes "tables_ok fpt s"
  shows "translate s v =
    (let e = pte fpt s (unat v div 4096) in
     if bit e 0 then Some ((e AND 0xFFFFF000) OR (v AND 0xFFF)) else None)"
proof -
  have i: "PAGE_DIR_INDEX v < 1024" using unat_less_2p32 [of v]
    by (simp add: dir_index div_less_iff_less_mult)
  then have d: "unat (page_directory s (PAGE_DIR_INDEX v) AND 0xFFFFF000) = table_at fpt (PAGE_DIR_INDEX v)"
    "bit (page_directory s (PAGE_DIR_INDEX v)) 0"
    using assms by (simp_all add: tables_ok_def and_1_eq_0)
  have "table_at fpt (PAGE_DIR_INDEX v) + 4 * PAGE_TABLE_INDEX v = pte_addr fpt (unat v div 4096)"
    unfolding page_index [symmetric] by (rule table_pte_addr) (simp add: table_index)
  then show ?thesis by (simp add: translate_def d pte_def and_1_eq_0 Let_def)
qed

lemma frame_addr_3:
  assumes "k < 524288"
  shows "bit (frame_addr k OR 3) 0" and "(frame_addr k OR 3) AND 0xFFFFF000 = frame_addr k"
proof -
  have three: "(3 :: u32) = mask 2" by (simp add: mask_eq_exp_minus_1)
  note b = frame_ok_addr [OF assms, unfolded frame_ok_bits]
  show "bit (frame_addr k OR 3) 0" "(frame_addr k OR 3) AND 0xFFFFF000 = frame_addr k"
    unfolding three masks using b by (auto intro!: bit_eqI simp: bit_simps)
qed

lemma frame_or_offset:
  assumes "k < 524288" and "off < 4096"
  shows "unat (frame_addr k OR (of_nat off AND 0xFFF)) = k * 4096 + off"
proof -
  have "frame_addr k AND (of_nat off AND 0xFFF) = 0"
    using frame_ok_addr [OF assms(1), unfolded frame_ok_bits] unfolding masks
    by (auto intro!: bit_eqI simp: bit_simps)
  moreover have "unat (of_nat off AND 0xFFF :: u32) = off"
    unfolding masks unat_mask using assms(2) by (simp add: unat_of_nat32)
  ultimately show ?thesis using unat_frame_addr [of k] assms(1) by (simp add: unat_or_disjoint)
qed

lemma translate_low:
  assumes "tables_ok fpt s" and "unat v < 8388608"
  shows "translate s v = Some v"
proof -
  have k: "unat v div 4096 < 2048" using assms(2) by (simp add: div_less_iff_less_mult)
  then have e: "pte fpt s (unat v div 4096) = frame_addr (unat v div 4096) OR 3"
    using assms(1) by (simp add: tables_ok_def)
  have m: "v AND 0xFFF = of_nat (unat v mod 4096) AND 0xFFF"
    unfolding masks word_unat_eq_iff unat_mask by (simp add: unat_of_nat32)
  have "unat (frame_addr (unat v div 4096) OR (v AND 0xFFF)) = unat v"
    unfolding m using k by (subst frame_or_offset) auto
  then have "frame_addr (unat v div 4096) OR (v AND 0xFFF) = v" by (rule word_unat_eq_iff [THEN iffD2])
  then show ?thesis using frame_addr_3 [of "unat v div 4096"] k e by (simp add: walk [OF assms(1)] Let_def)
qed

lemma entry_access:
  assumes "tables_ok fpt s" and "k < 1048576"
  shows "vread s (of_nat (pte_addr fpt k)) = Some (pte fpt s k)"
    and "vwrite s (of_nat (pte_addr fpt k)) x = Some (s\<lparr>phys_mem := (phys_mem s)(pte_addr fpt k := x)\<rparr>)"
proof -
  have "pte_addr fpt k < 8388608" using pte_addr_bound [of fpt k] assms by (simp add: tables_ok_def)
  then have u: "unat (of_nat (pte_addr fpt k) :: u32) = pte_addr fpt k" "pte_addr fpt k < 8388608"
    by (simp_all add: unat_of_nat32)
  then have "translate s (of_nat (pte_addr fpt k)) = Some (of_nat (pte_addr fpt k))"
    by (intro translate_low [OF assms(1)]) simp
  then show "vread s (of_nat (pte_addr fpt k)) = Some (pte fpt s k)"
    "vwrite s (of_nat (pte_addr fpt k)) x = Some (s\<lparr>phys_mem := (phys_mem s)(pte_addr fpt k := x)\<rparr>)"
    using u by (simp_all add: vread_def vwrite_def pte_def)
qed

section \<open>Effects of the operations on entries\<close>

definition set_pte :: "nat \<Rightarrow> vm_state \<Rightarrow> nat \<Rightarrow> u32 \<Rightarrow> vm_state" where
  "set_pte fpt s k e = s\<lparr>phys_mem := (phys_mem s)(pte_addr fpt k := e)\<rparr>"

lemma pte_set_pte: "fpt + 4096 \<le> 4194304 \<Longrightarrow> pte fpt (set_pte fpt s k e) j = (if j = k then e else pte fpt s j)"
  using pte_addr_inj [of fpt j k] by (auto simp: pte_def set_pte_def)

lemma set_pte_simps [simp]:
  "vm_pm (set_pte fpt s k e) = vm_pm s" "page_directory (set_pte fpt s k e) = page_directory s"
  "set_pte fpt (set_pte fpt s k e) k e' = set_pte fpt s k e'"
  "pte fpt (s\<lparr>vm_pm := m\<rparr>) k = pte fpt s k" "tables_ok fpt (s\<lparr>vm_pm := m\<rparr>) = tables_ok fpt s"
  by (simp_all add: set_pte_def pte_def tables_ok_def)

lemma tables_ok_fpt: "tables_ok fpt s \<Longrightarrow> fpt + 4096 \<le> 4194304"
  by (simp add: tables_ok_def)

lemma tables_ok_set_pte: "tables_ok fpt s \<Longrightarrow> 2048 \<le> k \<Longrightarrow> tables_ok fpt (set_pte fpt s k e)"
  using pte_set_pte [of fpt s k e] by (simp add: tables_ok_def)

text \<open>The directory entry as the code reads it.\<close>

lemma dir_table:
  assumes "tables_ok fpt s" and "i < 1024"
  shows "page_directory s i AND NOT 0xfff = of_nat (table_at fpt i)"
    and "page_directory s i AND PTE_FRAME = of_nat (table_at fpt i)"
    and "page_directory s i AND 1 = 1"
proof -
  let ?w = "page_directory s i AND NOT (mask 12)"
  have u: "unat ?w = table_at fpt i" "bit (page_directory s i) 0"
    using assms unfolding tables_ok_def masks by auto
  have lt: "table_at fpt i < 2147483648"
    using assms by (auto simp: table_at_def tables_ok_def)
  then have w: "?w = of_nat (table_at fpt i)" unfolding u(1) [symmetric] by simp
  show "page_directory s i AND NOT 0xfff = of_nat (table_at fpt i)" unfolding masks by (rule w)
  have "page_directory s i AND PTE_FRAME = ?w AND mask 31"
    unfolding masks by (rule bit_eqI) (auto simp: bit_simps)
  moreover have "?w AND mask 31 = ?w" unfolding word_unat_eq_iff unat_mask u(1) using lt by simp
  ultimately show "page_directory s i AND PTE_FRAME = of_nat (table_at fpt i)" using w by simp
  show "page_directory s i AND 1 = 1" using u(2) by (simp add: and_1_eq_1)
qed

lemma page_lt: "unat (v :: u32) div 4096 < 1048576"
  using unat_less_2p32 [of v] by (simp add: div_less_iff_less_mult)

lemma dir_index_lt: "PAGE_DIR_INDEX v < 1024" "PAGE_TABLE_INDEX v < 1024"
  using unat_less_2p32 [of v] by (simp_all add: dir_index table_index div_less_iff_less_mult)

lemma entry_pointer:
  "of_nat (table_at fpt (PAGE_DIR_INDEX v)) + 4 * of_nat (PAGE_TABLE_INDEX v) = (of_nat (pte_addr fpt (unat v div 4096)) :: u32)"
  unfolding page_index [symmetric] table_pte_addr [OF dir_index_lt(2), symmetric] by simp

lemma vwrite_entry:
  "tables_ok fpt s \<Longrightarrow> k < 1048576 \<Longrightarrow> vwrite s (of_nat (pte_addr fpt k)) x = Some (set_pte fpt s k x)"
  by (simp add: entry_access set_pte_def)

lemma vread_set_pte:
  "tables_ok fpt s \<Longrightarrow> 2048 \<le> k \<Longrightarrow> k < 1048576 \<Longrightarrow> vread (set_pte fpt s k x) (of_nat (pte_addr fpt k)) = Some x"
  by (simp add: entry_access tables_ok_set_pte pte_set_pte tables_ok_fpt)

lemma vm_map_page_eq:
  assumes "tables_ok fpt s" and "2048 \<le> unat v div 4096"
  shows "vm_map_page s p v =
    Some (set_pte fpt s (unat v div 4096)
            (pt_entry_add_attrib (pt_entry_set_frame (pte fpt s (unat v div 4096)) p) 1))"
proof -
  have "page_directory s (PAGE_DIR_INDEX v) AND 1 = 1" using dir_table(3) [OF assms(1) dir_index_lt(1)] .
  then have "vm_map_page s p v = map_page_entry s p v" by (simp add: vm_map_page_def)
  then show ?thesis
    unfolding map_page_entry_def dir_table(1) [OF assms(1) dir_index_lt(1)] Let_def entry_pointer
    using assms page_lt [of v] tables_ok_set_pte [OF assms]
    by (simp add: vwrite_entry entry_access(1) pte_set_pte [OF tables_ok_fpt [OF assms(1)]])
qed

lemma vm_free_page_eq:
  assumes "tables_ok fpt s" and "2048 \<le> k" and "k < 1048576"
  shows "vm_free_page s (of_nat (pte_addr fpt k)) =
    Some (set_pte fpt (if pt_entry_pfn (pte fpt s k) \<noteq> 0
                       then s\<lparr>vm_pm := pm_free (vm_pm s) (pt_entry_pfn (pte fpt s k))\<rparr> else s)
            k (pt_entry_del_attrib (pte fpt s k) 1))"
  using assms by (simp add: vm_free_page_def entry_access(1) vwrite_entry Let_def)

section \<open>Finding free pages\<close>

definition find_state :: "nat \<Rightarrow> vm_state \<Rightarrow> nat \<Rightarrow> nat \<Rightarrow> nat \<Rightarrow> u32 \<Rightarrow> bool" where
  "find_state fpt s n pos count vaddr \<longleftrightarrow>
     scanned (\<lambda>k. \<not> mapped fpt s k) n 1048576 pos count \<and> (count \<noteq> 0 \<longrightarrow> vaddr = of_nat ((pos - count) * 4096))"

lemma find_state_free:
  assumes "find_state fpt s n pos count vaddr" and "\<not> mapped fpt s pos"
  defines "v \<equiv> if count = 0 then of_nat (pos * 4096) else vaddr"
  shows "count + 1 = n \<Longrightarrow> pos < 1048576 \<Longrightarrow>
           \<exists>k. v = of_nat (k * 4096) \<and> lowest_run (\<lambda>k. \<not> mapped fpt s k) n 1048576 k"
    and "count + 1 \<noteq> n \<Longrightarrow> find_state fpt s n (Suc pos) (count + 1) v"
proof -
  note f = scanned_free [of "\<lambda>k. \<not> mapped fpt s k" n 1048576 pos count]
  have "v = of_nat ((pos - count) * 4096)" using assms(1) by (simp add: v_def find_state_def)
  then show "count + 1 = n \<Longrightarrow> pos < 1048576 \<Longrightarrow>
      \<exists>k. v = of_nat (k * 4096) \<and> lowest_run (\<lambda>k. \<not> mapped fpt s k) n 1048576 k"
    and "count + 1 \<noteq> n \<Longrightarrow> find_state fpt s n (Suc pos) (count + 1) v"
    using f assms(1,2) unfolding find_state_def by auto
qed

lemma find_state_used:
  "find_state fpt s n pos count vaddr \<Longrightarrow> mapped fpt s pos \<Longrightarrow> find_state fpt s n (Suc pos) 0 vaddr'"
  using scanned_used [of "\<lambda>k. \<not> mapped fpt s k" n 1048576 pos count] by (simp add: find_state_def)

lemma table_read:
  assumes "tables_ok fpt s" and "i < 1024" and "j < 1024"
  shows "vread s (of_nat (table_at fpt i) + 4 * of_nat j) = Some (pte fpt s (1024 * i + j))"
proof -
  have "(of_nat (table_at fpt i) + 4 * of_nat j :: u32) = of_nat (pte_addr fpt (1024 * i + j))"
    unfolding table_pte_addr [OF assms(3), symmetric] by simp
  then show ?thesis using entry_access(1) [OF assms(1), of "1024 * i + j"] assms(2,3) by simp
qed

lemma find_in_table_spec:
  assumes "tables_ok fpt s" and "i < 1024" and "j \<le> 1024" and "find_state fpt s n (1024 * i + j) count vaddr"
  shows "\<exists>r. find_in_table s n i (of_nat (table_at fpt i)) j count vaddr = Some r \<and>
    (case r of
       Inl v \<Rightarrow> \<exists>k. v = of_nat (k * 4096) \<and> lowest_run (\<lambda>k. \<not> mapped fpt s k) n 1048576 k
     | Inr (count', vaddr') \<Rightarrow> find_state fpt s n (1024 * Suc i) count' vaddr')"
  using assms(3,4)
proof (induction "1024 - j" arbitrary: j count vaddr)
  case 0
  then have "j = 1024" by simp
  then show ?case using 0 by (subst find_in_table.simps) (simp add: add.commute)
next
  case (Suc m)
  then have j: "j < 1024" by simp
  note rd = table_read [OF assms(1,2) j]
  have pos: "1024 * i + j < 1048576" using assms(2) j by simp
  have addr: "of_nat (i * 1024 * 4096 + j * 4096) = (of_nat ((1024 * i + j) * 4096) :: u32)"
    by (simp add: algebra_simps)
  show ?case
  proof (cases "mapped fpt s (1024 * i + j)")
    case True
    then have "find_in_table s n i (of_nat (table_at fpt i)) j count vaddr =
      find_in_table s n i (of_nat (table_at fpt i)) (Suc j) 0 vaddr"
      using j rd by (subst find_in_table.simps) (simp add: and_1_eq_1 mapped_def)
    moreover have "find_state fpt s n (1024 * i + Suc j) 0 vaddr"
      using find_state_used [OF Suc.prems(2) True] by simp
    ultimately show ?thesis using Suc.hyps(1) [of "Suc j"] Suc.hyps(2) j by simp
  next
    case False
    define v where "v = (if count = 0 then of_nat (i * 1024 * 4096 + j * 4096) else vaddr)"
    note free = find_state_free [OF Suc.prems(2) False, folded addr, folded v_def]
    have step: "find_in_table s n i (of_nat (table_at fpt i)) j count vaddr =
      (if count + 1 = n then Some (Inl v) else find_in_table s n i (of_nat (table_at fpt i)) (Suc j) (count + 1) v)"
      using j rd False by (subst find_in_table.simps) (simp add: and_1_eq_1 mapped_def v_def)
    show ?thesis
    proof (cases "count + 1 = n")
      case True
      then show ?thesis using free(1) pos step by simp
    next
      case more: False
      then show ?thesis using free(2) step Suc.hyps(1) [of "Suc j" "count + 1" v] Suc.hyps(2) j by simp
    qed
  qed
qed

lemma no_available_table:
  "tables_ok fpt s \<Longrightarrow> i \<le> 1024 \<Longrightarrow> available_table_from s i = 0"
proof (induction "1024 - i" arbitrary: i)
  case 0
  then show ?case by (subst available_table_from.simps) simp
next
  case (Suc m)
  then show ?case using dir_table(3) [of fpt s i] by (subst available_table_from.simps) simp
qed

lemma find_free_from_spec:
  assumes "tables_ok fpt s" and "i \<le> 1024" and "find_state fpt s n (1024 * i) count vaddr"
  shows "\<exists>v. find_free_from s n i count vaddr = Some v \<and>
    ((\<exists>k. v = of_nat (k * 4096) \<and> lowest_run (\<lambda>k. \<not> mapped fpt s k) n 1048576 k) \<or>
     (v = 0 \<and> (\<forall>k. \<not> run_at (\<lambda>k. \<not> mapped fpt s k) n 1048576 k)))"
  using assms(2,3)
proof (induction "1024 - i" arbitrary: i count vaddr)
  case 0
  then have "scanned (\<lambda>k. \<not> mapped fpt s k) n 1048576 1048576 count" by (simp add: find_state_def)
  then have "\<not> run_at (\<lambda>k. \<not> mapped fpt s k) n 1048576 k" for k by (rule scanned_end)
  then show ?case using 0 no_available_table [OF assms(1)]
    by (subst find_free_from.simps) (simp add: get_available_page_table_def)
next
  case (Suc m)
  then have i: "i < 1024" by simp
  obtain r where r: "find_in_table s n i (of_nat (table_at fpt i)) 0 count vaddr = Some r"
    "case r of
       Inl v \<Rightarrow> \<exists>k. v = of_nat (k * 4096) \<and> lowest_run (\<lambda>k. \<not> mapped fpt s k) n 1048576 k
     | Inr (count', vaddr') \<Rightarrow> find_state fpt s n (1024 * Suc i) count' vaddr'"
    using find_in_table_spec [OF assms(1) i, of 0 n count vaddr] Suc.prems by auto
  have step: "find_free_from s n i count vaddr = (case r of
      Inl v \<Rightarrow> Some v | Inr (count', vaddr') \<Rightarrow> find_free_from s n (Suc i) count' vaddr')"
    using i r(1) dir_table [OF assms(1) i] by (subst find_free_from.simps) (simp split: sum.splits)
  show ?case
  proof (cases r)
    case (Inl v)
    then show ?thesis using r(2) step by auto
  next
    case (Inr p)
    then show ?thesis using r(2) step Suc.hyps(1) [of "Suc i"] Suc.hyps(2) i by (cases p) simp
  qed
qed

lemma vm_find_free_spec:
  assumes "tables_ok fpt s" and "0 < n"
  shows "\<exists>v. vm_find_free s n = Some v \<and>
    ((\<exists>k. v = of_nat (k * 4096) \<and> lowest_run (\<lambda>k. \<not> mapped fpt s k) n 1048576 k) \<or>
     (v = 0 \<and> (\<forall>k. \<not> run_at (\<lambda>k. \<not> mapped fpt s k) n 1048576 k)))"
  unfolding vm_find_free_def using assms
  by (intro find_free_from_spec) (simp_all add: find_state_def scanned_start)

section \<open>Mapping and unmapping ranges\<close>

lemma frame_addr_Suc: "frame_addr k + 4096 = frame_addr (Suc k)"
  by (simp add: frame_addr_def algebra_simps)

lemma unat_page_offset:
  assumes "k < 1048576" and "off < 4096"
  shows "unat (frame_addr k + of_nat off) = k * 4096 + off"
proof -
  have "unat (of_nat (k * 4096 + off) :: u32) = k * 4096 + off" using assms by (intro unat_of_nat32) simp
  moreover have "frame_addr k + of_nat off = of_nat (k * 4096 + off)" by (simp add: frame_addr_def)
  ultimately show ?thesis by (simp only:)
qed

lemma page_of_addr:
  "k < 1048576 \<Longrightarrow> unat (frame_addr k) div 4096 = k"
  by (simp add: unat_frame_addr)

lemma unat_present: "b < 524288 \<Longrightarrow> unat (frame_addr b OR 1) div 4096 = b"
proof -
  assume b: "b < 524288"
  then have "frame_addr b AND 1 = 0" using frame_present(4) [OF frame_ok_addr] by (simp add: and_1_eq_0)
  then have "unat (frame_addr b OR 1) = b * 4096 + 1"
    using unat_frame_addr [of b] b by (simp add: unat_or_disjoint)
  then show ?thesis by simp
qed

lemma translate_page:
  assumes "tables_ok fpt s" and "k < 1048576" and "off < 4096" and "pte fpt s k = frame_addr b OR 1" and "b < 524288"
  shows "\<exists>p. translate s (frame_addr k + of_nat off) = Some p \<and> unat p = b * 4096 + off"
proof -
  let ?v = "frame_addr k + of_nat off"
  have v: "unat ?v div 4096 = k" "unat ?v mod 4096 = off"
    unfolding unat_page_offset [OF assms(2,3)] using assms(3) by simp_all
  have m: "?v AND 0xFFF = of_nat off AND 0xFFF"
    unfolding masks word_unat_eq_iff unat_mask using v(2) assms(3) by (simp add: unat_of_nat32)
  note f = frame_present [OF frame_ok_addr [OF assms(5)]]
  have "translate s ?v = Some (frame_addr b OR (of_nat off AND 0xFFF))"
    unfolding walk [OF assms(1)] v(1) assms(4) m using f(2,5) by (simp add: Let_def)
  then show ?thesis using frame_or_offset [OF assms(5,3)] by blast
qed

lemma page_access:
  assumes "tables_ok fpt s" and "k < 1048576" and "off < 4096" and "pte fpt s k = frame_addr b OR 1" and "b < 524288"
  shows "vread s (frame_addr k + of_nat off) = Some (phys_mem s (b * 4096 + off))"
    and "vwrite s (frame_addr k + of_nat off) x = Some (s\<lparr>phys_mem := (phys_mem s)(b * 4096 + off := x)\<rparr>)"
  using translate_page [OF assms] by (auto simp: vread_def vwrite_def)

fun map_run :: "nat \<Rightarrow> vm_state \<Rightarrow> nat \<Rightarrow> nat \<Rightarrow> nat \<Rightarrow> vm_state" where
  "map_run fpt s k b 0 = s"
| "map_run fpt s k b (Suc n) = map_run fpt (set_pte fpt s k (frame_addr b OR 1)) (Suc k) (Suc b) n"

lemma map_run_simps [simp]:
  "vm_pm (map_run fpt s k b n) = vm_pm s" "page_directory (map_run fpt s k b n) = page_directory s"
  by (induction n arbitrary: s k b) simp_all

lemma pte_map_run:
  assumes "fpt + 4096 \<le> 4194304"
  shows "pte fpt (map_run fpt s k b n) j = (if k \<le> j \<and> j < k + n then frame_addr (b + (j - k)) OR 1 else pte fpt s j)"
proof (induction n arbitrary: s k b)
  case (Suc n)
  have "b + (j - k) = Suc b + (j - Suc k)" if "Suc k \<le> j" using that by simp
  then show ?case using Suc by (auto simp: pte_set_pte [OF assms])
qed auto

lemma map_run_high:
  assumes "fpt + 4096 \<le> 4194304" and "k + n \<le> 1048576" and "8388608 \<le> a"
  shows "phys_mem (map_run fpt s k b n) a = phys_mem s a"
  using assms(2)
proof (induction n arbitrary: s k b)
  case (Suc n)
  then have "pte_addr fpt k < 8388608" using pte_addr_bound [OF assms(1)] by simp
  then show ?case using Suc assms(3) by (simp add: set_pte_def)
qed simp

lemma tables_ok_map_run: "tables_ok fpt s \<Longrightarrow> 2048 \<le> k \<Longrightarrow> tables_ok fpt (map_run fpt s k b n)"
  by (induction n arbitrary: s k b) (simp_all add: tables_ok_set_pte)

lemma kmalloc_map_run:
  assumes "tables_ok fpt s" and "2048 \<le> k" and "k + n \<le> 1048576" and "b + n \<le> 524288"
    and "\<forall>j. k \<le> j \<and> j < k + n \<longrightarrow> pte_ok (pte fpt s j)"
  shows "kmalloc_map s (frame_addr b) (frame_addr k) n = Some (map_run fpt s k b n)"
  using assms
proof (induction n arbitrary: s k b)
  case (Suc n)
  let ?s = "set_pte fpt s k (frame_addr b OR 1)"
  have k: "unat (frame_addr k) div 4096 = k" using Suc.prems(3) by (simp add: page_of_addr)
  have "vm_map_page s (frame_addr b) (frame_addr k) = Some ?s"
    using Suc.prems set_present [OF _ frame_ok_addr, of "pte fpt s k" b]
    by (subst vm_map_page_eq [OF Suc.prems(1)]) (simp_all add: k)
  moreover have "kmalloc_map ?s (frame_addr (Suc b)) (frame_addr (Suc k)) n = Some (map_run fpt ?s (Suc k) (Suc b) n)"
    using Suc.prems by (intro Suc.IH) (auto simp: tables_ok_set_pte pte_set_pte tables_ok_fpt)
  ultimately show ?case by (simp add: frame_addr_Suc)
qed simp

lemma inj_on_extend:
  assumes "inj_on f A" and "\<forall>x \<in> A. g x = f x" and "inj_on g B" and "f ` A \<inter> g ` B = {}"
  shows "inj_on g (A \<union> B)"
proof -
  have "inj_on g A" using assms(1,2) by (simp cong: inj_on_cong)
  moreover have "g ` A = f ` A" using assms(2) by (auto intro: rev_image_eqI)
  ultimately show ?thesis using assms(3,4) by (auto simp: inj_on_Un)
qed

lemma heap_ok_map_run:
  assumes "vm_inv fpt s" and "2048 \<le> k" and "k + n \<le> 1048576"
    and "\<forall>j. k \<le> j \<and> j < k + n \<longrightarrow> \<not> mapped fpt s j" and "free_run (vm_pm s) n b"
  shows "heap_ok fpt (map_run fpt (s\<lparr>vm_pm := take_run (vm_pm s) b n\<rparr>) k b n)" (is "heap_ok fpt ?s")
proof -
  have t: "fpt + 4096 \<le> 4194304" and h: "heap_ok fpt s"
    using assms(1) tables_ok_fpt unfolding vm_inv_def by blast+
  have p: "pte fpt ?s j = (if k \<le> j \<and> j < k + n then frame_addr (b + (j - k)) OR 1 else pte fpt s j)" for j
    by (simp add: pte_map_run [OF t])
  have r: "b + n \<le> managed (vm_pm s)" "x \<in> {b..<b + n} \<Longrightarrow> \<not> frame_used (vm_pm s) x" for x
    using assms(5) by (auto simp: free_run_def run_at_def)
  have lo: "2048 \<le> x" if "x \<in> {b..<b + n}" for x
    using r(2) [OF that] h unfolding heap_ok_def by (meson not_less)
  have new: "page_frame fpt ?s j = b + (j - k)" "mapped fpt ?s j" if "k \<le> j" "j < k + n" for j
    using that r(1) h frame_present(2) [OF frame_ok_addr, of "b + (j - k)"]
    by (auto simp: page_frame_def mapped_def p unat_present heap_ok_def)
  have old: "page_frame fpt ?s j = page_frame fpt s j" "mapped fpt ?s j = mapped fpt s j" if "\<not> (k \<le> j \<and> j < k + n)" for j
    using that by (auto simp: page_frame_def mapped_def p)
  have "pte_ok (pte fpt ?s j)" if "2048 \<le> j" "j < 1048576" for j
  proof (cases "k \<le> j \<and> j < k + n")
    case True
    then have "b + (j - k) < 524288" using r(1) h by (auto simp: heap_ok_def)
    then show ?thesis unfolding p if_P [OF True] by (rule frame_present(1) [OF frame_ok_addr])
  qed (use that h in \<open>auto simp: p heap_ok_def\<close>)
  moreover have "2048 \<le> page_frame fpt ?s j \<and> page_frame fpt ?s j < managed (vm_pm ?s) \<and> frame_used (vm_pm ?s) (page_frame fpt ?s j)"
    if "2048 \<le> j" "j < 1048576" "mapped fpt ?s j" for j
  proof (cases "k \<le> j \<and> j < k + n")
    case True
    then have d: "b + (j - k) \<in> {b..<b + n}" by auto
    show ?thesis unfolding new(1) [OF conjunct1 [OF True] conjunct2 [OF True]] using d r(1) lo [OF d] by simp
  next
    case False
    then show ?thesis using that h old [OF False] by (simp add: heap_ok_def)
  qed
  moreover have "inj_on (page_frame fpt ?s) {j. 2048 \<le> j \<and> j < 1048576 \<and> mapped fpt ?s j}"
  proof -
    let ?old = "{j. 2048 \<le> j \<and> j < 1048576 \<and> mapped fpt s j}" and ?new = "{k..<k + n}"
    have dom: "j \<in> ?old \<Longrightarrow> \<not> (k \<le> j \<and> j < k + n)" for j using assms(4) by auto
    have "page_frame fpt s j \<notin> {b..<b + n}" if "j \<in> ?old" for j
      using that h r(2) unfolding heap_ok_def by blast
    moreover have "page_frame fpt ?s ` ?new \<subseteq> {b..<b + n}" using new(1) by auto
    ultimately have disj: "page_frame fpt s ` ?old \<inter> page_frame fpt ?s ` ?new = {}" by blast
    have "inj_on (page_frame fpt s) ?old" using h by (simp only: heap_ok_def)
    moreover have "\<forall>x \<in> ?old. page_frame fpt ?s x = page_frame fpt s x" using old(1) dom by blast
    moreover have "inj_on (page_frame fpt ?s) ?new" using new(1) by (intro inj_onI) auto
    ultimately have "inj_on (page_frame fpt ?s) (?old \<union> ?new)" using disj by (rule inj_on_extend)
    moreover have "{j. 2048 \<le> j \<and> j < 1048576 \<and> mapped fpt ?s j} = ?old \<union> ?new"
      using new(2) old(2) dom assms(2,3) by auto
    ultimately show ?thesis by simp
  qed
  ultimately show ?thesis using h pm_inv_take_run [OF _ assms(5)]
    unfolding heap_ok_def by simp
qed

section \<open>Allocation\<close>

lemma vm_inv_simps:
  assumes "vm_inv fpt s"
  shows "tables_ok fpt s" "heap_ok fpt s" "pm_inv (vm_pm s)" "managed (vm_pm s) \<le> 524288"
    and "k < 2048 \<Longrightarrow> mapped fpt s k" and "2048 \<le> k \<Longrightarrow> k < 1048576 \<Longrightarrow> pte_ok (pte fpt s k)"
proof -
  show "tables_ok fpt s" "heap_ok fpt s" "pm_inv (vm_pm s)" "managed (vm_pm s) \<le> 524288"
    "2048 \<le> k \<Longrightarrow> k < 1048576 \<Longrightarrow> pte_ok (pte fpt s k)"
    using assms by (simp_all add: vm_inv_def heap_ok_def)
  then show "k < 2048 \<Longrightarrow> mapped fpt s k"
    using frame_addr_3(1) [of k] by (simp add: tables_ok_def mapped_def)
qed

lemma unmapped_run_high:
  assumes "vm_inv fpt s" and "run_at (\<lambda>k. \<not> mapped fpt s k) n 1048576 k" and "0 < n"
  shows "2048 \<le> k"
proof (rule ccontr)
  assume "\<not> 2048 \<le> k"
  then have "mapped fpt s k" using vm_inv_simps(5) [OF assms(1)] by simp
  with assms(2,3) show False by (auto simp: run_at_def)
qed

text \<open>Data written above the first 8 MB leaves the tables alone.\<close>

lemma vm_inv_write_high:
  assumes "vm_inv fpt s" and "8388608 \<le> a"
  shows "vm_inv fpt (s\<lparr>phys_mem := (phys_mem s)(a := x)\<rparr>)"
    and "k < 1048576 \<Longrightarrow> pte fpt (s\<lparr>phys_mem := (phys_mem s)(a := x)\<rparr>) k = pte fpt s k"
proof -
  let ?s = "s\<lparr>phys_mem := (phys_mem s)(a := x)\<rparr>"
  note t = vm_inv_simps(1) [OF assms(1)]
  have p: "pte fpt ?s k = pte fpt s k" if "k < 1048576" for k
    using pte_addr_bound [OF tables_ok_fpt [OF t] that] assms(2) by (simp add: pte_def)
  have m: "mapped fpt ?s k = mapped fpt s k" "page_frame fpt ?s k = page_frame fpt s k" if "k < 1048576" for k
    using p [OF that] by (simp_all add: mapped_def page_frame_def)
  have "{k. 2048 \<le> k \<and> k < 1048576 \<and> mapped fpt ?s k} = {k. 2048 \<le> k \<and> k < 1048576 \<and> mapped fpt s k}"
    using m(1) by auto
  then have "inj_on (page_frame fpt ?s) {k. 2048 \<le> k \<and> k < 1048576 \<and> mapped fpt ?s k} =
    inj_on (page_frame fpt s) {k. 2048 \<le> k \<and> k < 1048576 \<and> mapped fpt s k}"
    using m(2) inj_on_cong [of "{k. 2048 \<le> k \<and> k < 1048576 \<and> mapped fpt s k}" "page_frame fpt ?s" "page_frame fpt s"]
    by auto
  then have "heap_ok fpt ?s = heap_ok fpt s" using p m unfolding heap_ok_def by auto
  moreover have "tables_ok fpt ?s = tables_ok fpt s" using p unfolding tables_ok_def by simp
  ultimately show "vm_inv fpt ?s" using assms(1) by (simp add: vm_inv_def)
  show "k < 1048576 \<Longrightarrow> pte fpt ?s k = pte fpt s k" by (rule p)
qed

lemma write_header_spec:
  assumes "vm_inv fpt s" and "k < 1048576" and "pte fpt s k = frame_addr b OR 1" and "2048 \<le> b" and "b < 524288"
  shows "\<exists>s'. write_header s (frame_addr k) n size' = Some (frame_addr k + 16, s') \<and> vm_inv fpt s' \<and>
    vm_pm s' = vm_pm s \<and> (\<forall>j < 1048576. pte fpt s' j = pte fpt s j) \<and>
    phys_mem s' = (phys_mem s)(b * 4096 := of_nat n, b * 4096 + 4 := size' - 16)"
proof -
  have hi: "8388608 \<le> b * 4096" "8388608 \<le> b * 4096 + 4" using assms(4) by simp_all
  let ?s1 = "s\<lparr>phys_mem := (phys_mem s)(b * 4096 := of_nat n)\<rparr>"
  note i1 = vm_inv_write_high [OF assms(1) hi(1), where x = "of_nat n"]
  have w1: "vwrite s (frame_addr k) (of_nat n) = Some ?s1"
    using page_access(2) [OF vm_inv_simps(1) [OF assms(1)] assms(2) _ assms(3,5), of 0] by simp
  have w2: "vwrite ?s1 (frame_addr k + 4) (size' - 16) = Some (?s1\<lparr>phys_mem := (phys_mem ?s1)(b * 4096 + 4 := size' - 16)\<rparr>)"
    using page_access(2) [OF vm_inv_simps(1) [OF i1(1)] assms(2) _ _ assms(5), of 4] i1(2) assms(2,3) by simp
  show ?thesis using vm_inv_write_high [OF i1(1) hi(2), where x = "size' - 16"] i1(2)
    by (simp add: write_header_def w1 w2)
qed

lemma ceil_div: "(u + 4095) div 4096 = u div 4096 + (if u mod 4096 = 0 then 0 else (1 :: nat))"
  by (auto simp: div_add1_eq [of u 4095] intro!: div_nat_eqI)

lemma pages_needed_eq:
  assumes "unat size' + 4095 < 4294967296"
  shows "pages_needed size' = (unat size' + 4095) div 4096"
proof -
  let ?u = "unat size'"
  have d: "unat (size' div 4096) = ?u div 4096" "unat (size' mod 4096) = ?u mod 4096"
    by (simp_all add: unat_div unat_mod)
  have z: "size' mod 4096 = 0 \<longleftrightarrow> ?u mod 4096 = 0" using d(2) by (metis unat_0 unat_eq_zero)
  have "?u div 4096 + 1 < 4294967296" using unat_less_2p32 [of size'] by (simp add: div_less_iff_less_mult)
  then have "unat (size' div 4096 + 1) = ?u div 4096 + 1" using d by (simp add: unat_plus_nowrap32)
  moreover have "(?u + 4095) div 4096 = ?u div 4096 + (if ?u mod 4096 = 0 then 0 else 1)"
    by (rule ceil_div)
  ultimately show ?thesis using d z by (simp add: pages_needed_def)
qed

lemma vm_inv_map_run:
  assumes "vm_inv fpt s" and "2048 \<le> k" and "k + n \<le> 1048576"
    and "\<forall>j. k \<le> j \<and> j < k + n \<longrightarrow> \<not> mapped fpt s j" and "free_run (vm_pm s) n b"
  shows "vm_inv fpt (map_run fpt (s\<lparr>vm_pm := take_run (vm_pm s) b n\<rparr>) k b n)"
  using heap_ok_map_run [OF assms] tables_ok_map_run [of fpt "s\<lparr>vm_pm := take_run (vm_pm s) b n\<rparr>" k b n]
    vm_inv_simps(1) [OF assms(1)] assms(2) by (simp add: vm_inv_def)

lemma free_run_bounds:
  assumes "vm_inv fpt s" and "free_run (vm_pm s) n b" and "0 < n"
  shows "2048 \<le> b" "b + n \<le> 524288"
proof -
  have "\<not> frame_used (vm_pm s) b" using assms(2,3) by (auto simp: free_run_def run_at_def)
  then show "2048 \<le> b" using assms(1) unfolding vm_inv_def heap_ok_def by (meson not_less)
  show "b + n \<le> 524288" using assms(2) vm_inv_simps(4) [OF assms(1)] by (simp add: free_run_def run_at_def)
qed

text \<open>What \<open>kmalloc\<close> leaves behind: \<open>n\<close> fresh pages from \<open>k\<close> on \<open>n\<close> fresh frames from \<open>b\<close>.\<close>

definition block_mapped :: "nat \<Rightarrow> vm_state \<Rightarrow> vm_state \<Rightarrow> nat \<Rightarrow> nat \<Rightarrow> nat \<Rightarrow> bool" where
  "block_mapped fpt s s' n k b \<longleftrightarrow> vm_pm s' = take_run (vm_pm s) b n \<and>
     (\<forall>j < 1048576. pte fpt s' j = (if k \<le> j \<and> j < k + n then frame_addr (b + (j - k)) OR 1 else pte fpt s j))"

lemma kmalloc_block:
  assumes s: "vm_inv fpt s" and k: "run_at (\<lambda>k. \<not> mapped fpt s k) n 1048576 k" and n: "0 < n"
    and b: "free_run (vm_pm s) n b"
  shows "\<exists>s1 s'. kmalloc_map (s\<lparr>vm_pm := take_run (vm_pm s) b n\<rparr>) (frame_addr b) (frame_addr k) n = Some s1 \<and>
    write_header s1 (frame_addr k) n size' = Some (frame_addr k + 16, s') \<and> vm_inv fpt s' \<and>
    block_mapped fpt s s' n k b \<and>
    (\<forall>a \<ge> 8388608. phys_mem s' a =
       (if a = b * 4096 + 4 then size' - 16 else if a = b * 4096 then of_nat n else phys_mem s a))"
proof -
  let ?s = "s\<lparr>vm_pm := take_run (vm_pm s) b n\<rparr>"
  let ?s1 = "map_run fpt ?s k b n"
  note t = vm_inv_simps(1) [OF s]
  have k1: "2048 \<le> k" "k + n \<le> 1048576" "\<forall>j. k \<le> j \<and> j < k + n \<longrightarrow> \<not> mapped fpt s j"
    using unmapped_run_high [OF s k n] k by (auto simp: run_at_def)
  note b1 = free_run_bounds [OF s b n]
  have m: "kmalloc_map ?s (frame_addr b) (frame_addr k) n = Some ?s1"
    using t k1 b1 vm_inv_simps(6) [OF s] by (intro kmalloc_map_run) auto
  have i: "vm_inv fpt ?s1" by (rule vm_inv_map_run [OF s k1 b])
  have p: "pte fpt ?s1 j = (if k \<le> j \<and> j < k + n then frame_addr (b + (j - k)) OR 1 else pte fpt s j)" for j
    by (simp add: pte_map_run [OF tables_ok_fpt [OF t]])
  have hi: "phys_mem ?s1 a = phys_mem s a" if "8388608 \<le> a" for a
    using map_run_high [OF tables_ok_fpt [OF t] k1(2) that, of ?s b] by simp
  obtain s' where w: "write_header ?s1 (frame_addr k) n size' = Some (frame_addr k + 16, s')" "vm_inv fpt s'"
    "vm_pm s' = vm_pm ?s1" "\<forall>j < 1048576. pte fpt s' j = pte fpt ?s1 j"
    "phys_mem s' = (phys_mem ?s1)(b * 4096 := of_nat n, b * 4096 + 4 := size' - 16)"
    using write_header_spec [OF i, of k b n size'] p [of k] k1 b1 n by auto
  show ?thesis using m w p hi by (auto simp: block_mapped_def)
qed

lemma block_header:
  assumes "vm_inv fpt s'" and "block_mapped fpt s s' n k b" and "0 < n" and "k + n \<le> 1048576" and "b + n \<le> 524288"
    and "phys_mem s' (b * 4096) = x" and "phys_mem s' (b * 4096 + 4) = y"
  shows "vread s' (frame_addr k + 16 - 16) = Some x" and "vm_alloc_size s' (frame_addr k + 16) = Some y"
proof -
  have p: "pte fpt s' k = frame_addr b OR 1" using assms(2-4) by (simp add: block_mapped_def)
  note r = page_access(1) [OF vm_inv_simps(1) [OF assms(1)] _ _ p]
  show "vread s' (frame_addr k + 16 - 16) = Some x" using r [of 0] assms by simp
  show "vm_alloc_size s' (frame_addr k + 16) = Some y" using r [of 4] assms by (simp add: vm_alloc_size_def)
qed

text \<open>Giving pages back.\<close>

lemma pte_mapped:
  assumes "vm_inv fpt s" and "2048 \<le> k" and "k < 1048576" and "mapped fpt s k"
  shows "pte fpt s k = frame_addr (page_frame fpt s k) OR 1"
proof -
  let ?e = "pte fpt s k" and ?f = "page_frame fpt s k"
  have ok: "pte_ok ?e" "bit ?e 0" using assms vm_inv_simps(6) by (auto simp: mapped_def)
  have f: "frame_addr ?f = ?e AND NOT (mask 12)"
  proof -
    have "?f < 524288" using assms vm_inv_simps(4) [OF assms(1)] by (auto simp: vm_inv_def heap_ok_def)
    then have "unat (frame_addr ?f) = ?f * 4096" by (intro unat_frame_addr) simp
    also have "\<dots> = unat ?e - unat ?e mod 2 ^ 12" by (simp add: page_frame_def minus_mod_eq_div_mult)
    finally show ?thesis unfolding word_unat_eq_iff unat_and_not_mask .
  qed
  show ?thesis unfolding f using ok unfolding pte_ok_bits
    by (intro bit_eqI) (auto simp: bit_simps)
qed

lemma free_one_page:
  assumes s: "vm_inv fpt s" and k: "2048 \<le> k" "k < 1048576" "mapped fpt s k"
  defines "f \<equiv> page_frame fpt s k"
  shows "\<exists>s'. vm_free_page s (of_nat (pte_addr fpt k)) = Some s' \<and> vm_inv fpt s' \<and> vm_pm s' = give_frame (vm_pm s) f \<and>
    (\<forall>j. pte fpt s' j = (if j = k then frame_addr f else pte fpt s j))"
proof -
  note t = vm_inv_simps(1) [OF s] and h = vm_inv_simps(2) [OF s]
  have f: "2048 \<le> f" "f < managed (vm_pm s)" "frame_used (vm_pm s) f" "f < 524288"
    using h k unfolding f_def heap_ok_def by auto
  note fp = frame_present [OF frame_ok_addr [OF f(4)]]
  have e: "pte fpt s k = frame_addr f OR 1" using pte_mapped [OF s k] by (simp add: f_def)
  let ?s = "set_pte fpt (s\<lparr>vm_pm := give_frame (vm_pm s) f\<rparr>) k (frame_addr f)"
  have "frame_addr f \<noteq> 0" using f frame_addr_eq_0 [of f] by simp
  then have eq: "vm_free_page s (of_nat (pte_addr fpt k)) = Some ?s"
    using vm_free_page_eq [OF t k(1,2)] e fp pm_free_frame [of f "vm_pm s"] f(4) by simp
  have p: "pte fpt ?s j = (if j = k then frame_addr f else pte fpt s j)" for j
    by (simp add: pte_set_pte [OF tables_ok_fpt [OF t]])
  have m: "mapped fpt ?s j \<longleftrightarrow> j \<noteq> k \<and> mapped fpt s j" "j \<noteq> k \<Longrightarrow> page_frame fpt ?s j = page_frame fpt s j" for j
    using fp(4) by (auto simp: mapped_def page_frame_def p)
  have other: "page_frame fpt s j \<noteq> f" if "2048 \<le> j" "j < 1048576" "mapped fpt s j" "j \<noteq> k" for j
    using h k that inj_onD [of "page_frame fpt s" "{k. 2048 \<le> k \<and> k < 1048576 \<and> mapped fpt s k}" j k]
    unfolding f_def heap_ok_def by blast
  have "inj_on (page_frame fpt ?s) {j. 2048 \<le> j \<and> j < 1048576 \<and> mapped fpt ?s j}"
  proof (rule inj_onI)
    fix i j assume "i \<in> {j. 2048 \<le> j \<and> j < 1048576 \<and> mapped fpt ?s j}" "j \<in> {j. 2048 \<le> j \<and> j < 1048576 \<and> mapped fpt ?s j}"
      "page_frame fpt ?s i = page_frame fpt ?s j"
    then show "i = j" using m h unfolding heap_ok_def by (auto dest: inj_onD)
  qed
  moreover have "pm_inv (give_frame (vm_pm s) f)" using pm_inv_give_frame vm_inv_simps(3) [OF s] f by simp
  moreover have "pte_ok (pte fpt ?s j)" if "2048 \<le> j" "j < 1048576" for j
    using that fp(3) vm_inv_simps(6) [OF s] by (simp add: p)
  ultimately have "heap_ok fpt ?s" using h m other f unfolding heap_ok_def by auto
  moreover have "tables_ok fpt ?s" using tables_ok_set_pte k(1) t by simp
  ultimately show ?thesis using eq p by (auto simp: vm_inv_def)
qed

lemma free_pages_spec:
  assumes "vm_inv fpt s" and "2048 \<le> k" and "k + n \<le> 1048576" and "\<forall>j \<in> {k..<k + n}. mapped fpt s j"
  shows "\<exists>s'. free_pages s (frame_addr k) n = Some s' \<and> vm_inv fpt s' \<and> managed (vm_pm s') = managed (vm_pm s) \<and>
    (\<forall>j. mapped fpt s' j \<longleftrightarrow> mapped fpt s j \<and> j \<notin> {k..<k + n}) \<and>
    (\<forall>j. j \<notin> {k..<k + n} \<longrightarrow> pte fpt s' j = pte fpt s j) \<and>
    (\<forall>x. frame_used (vm_pm s') x \<longleftrightarrow> frame_used (vm_pm s) x \<and> x \<notin> page_frame fpt s ` {k..<k + n})"
  using assms
proof (induction n arbitrary: s k)
  case (Suc n)
  have k: "k < 1048576" "mapped fpt s k" using Suc.prems(3,4) by auto
  let ?f = "page_frame fpt s k"
  obtain s1 where s1: "vm_free_page s (of_nat (pte_addr fpt k)) = Some s1" "vm_inv fpt s1"
    "vm_pm s1 = give_frame (vm_pm s) ?f" "\<And>j. pte fpt s1 j = (if j = k then frame_addr ?f else pte fpt s j)"
    using free_one_page [OF Suc.prems(1,2) k] by auto
  have "?f < 524288" using Suc.prems(1,2) k unfolding vm_inv_def heap_ok_def by force
  then have m1: "mapped fpt s1 j \<longleftrightarrow> j \<noteq> k \<and> mapped fpt s j" for j
    using frame_present(4) [OF frame_ok_addr] by (auto simp: mapped_def s1(4))
  have f1: "page_frame fpt s1 ` {Suc k..<Suc k + n} = page_frame fpt s ` {Suc k..<Suc k + n}"
    by (auto simp: page_frame_def s1(4) image_iff)
  have rng: "{k..<k + Suc n} = insert k {Suc k..<Suc k + n}" by auto
  obtain s' where s': "free_pages s1 (frame_addr (Suc k)) n = Some s'" "vm_inv fpt s'"
    "managed (vm_pm s') = managed (vm_pm s1)"
    "\<forall>j. mapped fpt s' j \<longleftrightarrow> mapped fpt s1 j \<and> j \<notin> {Suc k..<Suc k + n}"
    "\<forall>j. j \<notin> {Suc k..<Suc k + n} \<longrightarrow> pte fpt s' j = pte fpt s1 j"
    "\<forall>x. frame_used (vm_pm s') x \<longleftrightarrow> frame_used (vm_pm s1) x \<and> x \<notin> page_frame fpt s1 ` {Suc k..<Suc k + n}"
    using Suc.IH [OF s1(2), of "Suc k"] Suc.prems(2-4) m1 by auto
  have "free_pages s (frame_addr k) (Suc n) = Some s'"
    using s1(1) s'(1) dir_table(2) [OF vm_inv_simps(1) [OF Suc.prems(1)] dir_index_lt(1), of "frame_addr k"]
      entry_pointer [of fpt "frame_addr k"] page_of_addr [OF k(1)]
    by (simp add: frame_addr_Suc)
  moreover have "frame_used (vm_pm s') x \<longleftrightarrow> frame_used (vm_pm s) x \<and> x \<notin> page_frame fpt s ` {k..<k + Suc n}" for x
    unfolding rng using s'(6) s1(3) f1 by auto
  ultimately show ?case using s' s1 m1 unfolding rng by auto
qed auto

lemma kfree_block:
  assumes s: "vm_inv fpt s" and s': "vm_inv fpt s'" and blk: "block_mapped fpt s s' n k b" and n: "0 < n"
    and k: "run_at (\<lambda>k. \<not> mapped fpt s k) n 1048576 k" and b: "free_run (vm_pm s) n b"
    and hd: "phys_mem s' (b * 4096) = of_nat n"
  shows "\<exists>s''. kfree s' (frame_addr k + 16) = Some s'' \<and> vm_inv fpt s'' \<and>
    (\<forall>j < 1048576. mapped fpt s'' j = mapped fpt s j) \<and> managed (vm_pm s'') = managed (vm_pm s) \<and>
    (\<forall>x. frame_used (vm_pm s'') x = frame_used (vm_pm s) x)"
proof -
  have k1: "2048 \<le> k" "k + n \<le> 1048576" "\<forall>j \<in> {k..<k + n}. \<not> mapped fpt s j"
    using unmapped_run_high [OF s k n] k by (auto simp: run_at_def)
  note b1 = free_run_bounds [OF s b n]
  have p: "pte fpt s' j = frame_addr (b + (j - k)) OR 1" if "j \<in> {k..<k + n}" for j
    using blk that k1(2) by (auto simp: block_mapped_def)
  have fr: "mapped fpt s' j" "page_frame fpt s' j = b + (j - k)" if "j \<in> {k..<k + n}" for j
  proof -
    have d: "b + (j - k) < 524288" using that b1(2) by auto
    show "mapped fpt s' j" "page_frame fpt s' j = b + (j - k)"
      using frame_present(2) [OF frame_ok_addr [OF d]] unat_present [OF d] p [OF that]
      by (simp_all add: mapped_def page_frame_def)
  qed
  have m: "mapped fpt s' j = mapped fpt s j" if "j \<notin> {k..<k + n}" "j < 1048576" for j
    using blk that by (auto simp: block_mapped_def mapped_def)
  have img: "page_frame fpt s' ` {k..<k + n} = {b..<b + n}"
  proof -
    have "page_frame fpt s' ` {k..<k + n} = (\<lambda>j. b + (j - k)) ` {k..<k + n}" using fr(2) by (intro image_cong) auto
    also have "\<dots> = {b..<b + n}"
    proof (intro equalityI subsetI)
      fix x assume "x \<in> {b..<b + n}"
      then show "x \<in> (\<lambda>j. b + (j - k)) ` {k..<k + n}" by (intro image_eqI [where x = "x - b + k"]) auto
    qed auto
    finally show ?thesis .
  qed
  obtain s'' where f: "free_pages s' (frame_addr k) n = Some s''" "vm_inv fpt s''" "managed (vm_pm s'') = managed (vm_pm s')"
    "\<forall>j. mapped fpt s'' j \<longleftrightarrow> mapped fpt s' j \<and> j \<notin> {k..<k + n}"
    "\<forall>x. frame_used (vm_pm s'') x \<longleftrightarrow> frame_used (vm_pm s') x \<and> x \<notin> page_frame fpt s' ` {k..<k + n}"
    using free_pages_spec [OF s' k1(1,2)] fr(1) by auto
  have "vread s' (frame_addr k + 16 - 16) = Some (of_nat n)"
    using block_header(1) [OF s' blk n k1(2) b1(2) hd] by simp
  moreover have "unat (of_nat n :: u32) = n" using k1(2) by (intro unat_of_nat32) simp
  ultimately have "kfree s' (frame_addr k + 16) = Some s''"
    using f(1) by (simp add: kfree_def vm_alloc_free_def)
  moreover have "vm_pm s' = take_run (vm_pm s) b n" using blk by (simp add: block_mapped_def)
  moreover have "x \<in> {b..<b + n} \<Longrightarrow> \<not> frame_used (vm_pm s) x" for x using b by (auto simp: free_run_def run_at_def)
  moreover have "mapped fpt s'' j = mapped fpt s j" if "j < 1048576" for j
    using f(4) m [OF _ that] k1(3) by blast
  ultimately show ?thesis using f(2,3,5) unfolding img by auto
qed

section \<open>Initialisation\<close>

definition dir_state :: "nat \<Rightarrow> vm_state \<Rightarrow> bool" where
  "dir_state i s \<longleftrightarrow> pm_inv (vm_pm s) \<and> 2048 \<le> managed (vm_pm s) \<and>
     (\<forall>x < managed (vm_pm s). frame_used (vm_pm s) x \<longleftrightarrow> x < 1024 + i) \<and>
     (\<forall>j < i. page_directory s j = frame_addr (1024 + j) OR 3) \<and>
     (\<forall>a. 4194304 \<le> a \<and> a < 4194304 + 4096 * i \<longrightarrow> phys_mem s a = 0)"

lemma dir_state_step:
  assumes "dir_state i s" and "i < 1024"
  shows "\<exists>pm'. pm_alloc (vm_pm s) = (frame_addr (1024 + i), pm') \<and> managed pm' = managed (vm_pm s) \<and>
    dir_state (Suc i) (zero_page (s\<lparr>vm_pm := pm'\<rparr>) (frame_addr (1024 + i))
      \<lparr>page_directory := (page_directory s)(i := frame_addr (1024 + i) OR 3)\<rparr>)"
proof -
  let ?m = "vm_pm s" and ?b = "1024 + i"
  have d: "pm_inv ?m" "2048 \<le> managed ?m" "\<forall>x < managed ?m. frame_used ?m x \<longleftrightarrow> x < ?b"
    using assms(1) by (auto simp: dir_state_def)
  have free: "?b < managed ?m" "\<not> frame_used ?m ?b" using assms(2) d(2,3) by auto
  then obtain b where b: "b < managed ?m" "\<not> frame_used ?m b" "\<forall>x < b. frame_used ?m x"
    "pm_alloc ?m = (frame_addr b, take_frame ?m b)"
    using pm_alloc_spec [OF d(1)] by blast
  have "b = ?b"
  proof (rule antisym)
    show "b \<le> ?b" using b(3) free(2) by (meson not_less)
    show "?b \<le> b" using b(1,2) d(3) by auto
  qed
  moreover have "unat (frame_addr ?b) = 4194304 + 4096 * i" using unat_frame_addr [of ?b] assms(2) by simp
  moreover have "pm_inv (take_frame ?m ?b)" using pm_inv_take_frame [OF d(1) free] .
  ultimately show ?thesis using assms(1) b(4) d
    by (auto simp: dir_state_def zero_page_def less_Suc_eq)
qed

lemma vm_init_dir_spec:
  "dir_state i s \<Longrightarrow> i \<le> 1024 \<Longrightarrow>
     dir_state 1024 (vm_init_dir s i) \<and> managed (vm_pm (vm_init_dir s i)) = managed (vm_pm s)"
proof (induction "1024 - i" arbitrary: i s)
  case 0
  then show ?case by (subst (1 2) vm_init_dir.simps) simp
next
  case (Suc m)
  then have i: "i < 1024" by simp
  obtain pm' where p: "pm_alloc (vm_pm s) = (frame_addr (1024 + i), pm')" "managed pm' = managed (vm_pm s)"
    "dir_state (Suc i) (zero_page (s\<lparr>vm_pm := pm'\<rparr>) (frame_addr (1024 + i))
      \<lparr>page_directory := (page_directory s)(i := frame_addr (1024 + i) OR 3)\<rparr>)"
    using dir_state_step [OF Suc.prems(1) i] by blast
  have "vm_init_dir s i = vm_init_dir (zero_page (s\<lparr>vm_pm := pm'\<rparr>) (frame_addr (1024 + i))
      \<lparr>page_directory := (page_directory s)(i := frame_addr (1024 + i) OR 3)\<rparr>) (Suc i)"
    using i p(1) by (subst vm_init_dir.simps) (simp add: zero_page_def)
  then show ?case using Suc.hyps(1) [OF _ p(3)] Suc.hyps(2) i p(2) by (simp add: zero_page_def)
qed

text \<open>\<open>fill m p g i\<close>: the table at \<open>p\<close> with the entries from \<open>i\<close> on set by \<open>g\<close>.\<close>

definition fill :: "(nat \<Rightarrow> u32) \<Rightarrow> nat \<Rightarrow> (nat \<Rightarrow> u32) \<Rightarrow> nat \<Rightarrow> nat \<Rightarrow> u32" where
  "fill m p g i = (\<lambda>a. if \<exists>j \<ge> i. j < 1024 \<and> a = p + 4 * j then g ((a - p) div 4) else m a)"

lemma fill_end: "fill m p g 1024 = m"
  by (auto simp: fill_def fun_eq_iff)

lemma fill_step: "i < 1024 \<Longrightarrow> fill (m(p + 4 * i := g i)) p g (Suc i) = fill m p g i"
  by (rule ext) (auto simp: fill_def Suc_le_eq le_less)

lemma fill_entry: "j < 1024 \<Longrightarrow> fill m p g 0 (p + 4 * j) = g j"
  by (auto simp: fill_def)

lemma fill_other: "a < p \<or> p + 4096 \<le> a \<Longrightarrow> fill m p g i a = m a"
  by (auto simp: fill_def)

lemma vm_init_first_spec:
  "i \<le> 1024 \<Longrightarrow> vm_init_first fpt s i = s\<lparr>phys_mem := fill (phys_mem s) fpt (\<lambda>i. frame_addr i OR 3) i\<rparr>"
proof (induction "1024 - i" arbitrary: i s)
  case 0
  then show ?case by (subst vm_init_first.simps) (simp add: fill_end)
next
  case (Suc m)
  then show ?case
    using fill_step [of i "phys_mem s" fpt "\<lambda>i. frame_addr i OR 3"] Suc.hyps(1) [of "Suc i"]
    by (subst vm_init_first.simps) (simp add: frame_addr_def)
qed

lemma vm_init_pages_spec:
  "i \<le> 1024 \<Longrightarrow> vm_init_pages pages s i =
     s\<lparr>phys_mem := fill (phys_mem s) pages (\<lambda>i. (page_directory s i AND PTE_FRAME) OR 3) i\<rparr>"
proof (induction "1024 - i" arbitrary: i s)
  case 0
  then show ?case by (subst vm_init_pages.simps) (simp add: fill_end)
next
  case (Suc m)
  then show ?case
    using fill_step [of i "phys_mem s" pages "\<lambda>i. (page_directory s i AND PTE_FRAME) OR 3"] Suc.hyps(1) [of "Suc i"]
    by (subst vm_init_pages.simps) simp
qed

lemma dir_state_frame:
  assumes "dir_state 1024 s" and "j < 1024"
  shows "page_directory s j AND PTE_FRAME = frame_addr (1024 + j)"
proof -
  have three: "(3 :: u32) = mask 2" by (simp add: mask_eq_exp_minus_1)
  have "page_directory s j = frame_addr (1024 + j) OR 3" using assms by (simp add: dir_state_def)
  then show ?thesis using frame_ok_addr [of "1024 + j"] assms(2)
    unfolding three masks frame_ok_bits by (auto intro!: bit_eqI simp: bit_simps)
qed

lemma vm_init_state:
  assumes d: "dir_state 1024 (vm_init_dir s 0)" and fpt: "fpt + 4096 \<le> 4194304"
  shows "vm_pm (vm_init fpt s) = vm_pm (vm_init_dir s 0)"
    and "page_directory (vm_init fpt s) = (page_directory (vm_init_dir s 0))(0 := of_nat fpt OR 3)"
    and "k < 2048 \<Longrightarrow> pte fpt (vm_init fpt s) k = frame_addr k OR 3"
    and "2048 \<le> k \<Longrightarrow> k < 1048576 \<Longrightarrow> pte fpt (vm_init fpt s) k = 0"
proof -
  let ?d = "vm_init_dir s 0"
  have pages: "unat (page_directory ?d 1 AND PTE_FRAME) = 4198400"
    using dir_state_frame [OF d, of 1] unat_frame_addr [of 1025] by simp
  show "vm_pm (vm_init fpt s) = vm_pm ?d" "page_directory (vm_init fpt s) = (page_directory ?d)(0 := of_nat fpt OR 3)"
    by (simp_all add: vm_init_def Let_def vm_init_first_spec vm_init_pages_spec)
  have mem: "phys_mem (vm_init fpt s) = fill (fill (phys_mem ?d) fpt (\<lambda>i. frame_addr i OR 3) 0) 4198400
      (\<lambda>i. (page_directory ?d i AND PTE_FRAME) OR 3) 0"
    using pages by (simp add: vm_init_def Let_def vm_init_first_spec vm_init_pages_spec)
  show "pte fpt (vm_init fpt s) k = frame_addr k OR 3" if "k < 2048"
  proof (cases "k < 1024")
    case True
    then show ?thesis using fpt by (simp add: pte_def pte_addr_def mem fill_other fill_entry)
  next
    case False
    then have "4194304 + 4 * k = 4198400 + 4 * (k - 1024)" "k - 1024 < 1024" using that by auto
    then show ?thesis using False dir_state_frame [OF d, of "k - 1024"]
      by (simp add: pte_def pte_addr_def mem fill_entry)
  qed
  show "pte fpt (vm_init fpt s) k = 0" if "2048 \<le> k" "k < 1048576"
    using that fpt d by (simp add: pte_def pte_addr_def mem fill_other dir_state_def)
qed

lemma vm_init_tables:
  assumes d: "dir_state 1024 (vm_init_dir s 0)" and fpt: "fpt mod 4096 = 0" "fpt + 4096 \<le> 4194304"
  shows "tables_ok fpt (vm_init fpt s)"
proof -
  let ?s = "vm_init fpt s"
  have "unat (page_directory ?s i AND 0xFFFFF000) = table_at fpt i \<and> bit (page_directory ?s i) 0" if "i < 1024" for i
  proof (cases "i = 0")
    case True
    have f: "fpt div 4096 * 4096 = fpt" using fpt(1) by (simp add: mod_eq_0_iff_dvd)
    then have "of_nat fpt = frame_addr (fpt div 4096)" by (metis frame_addr_def of_nat_mult of_nat_numeral)
    then show ?thesis using f True frame_addr_3 [of "fpt div 4096"] unat_frame_addr [of "fpt div 4096"] fpt
      by (simp add: vm_init_state [OF d fpt(2)] table_at_def)
  next
    case False
    then have "page_directory ?s i = frame_addr (1024 + i) OR 3"
      using d that by (simp add: vm_init_state [OF d fpt(2)] dir_state_def)
    then show ?thesis using False frame_addr_3 [of "1024 + i"] unat_frame_addr [of "1024 + i"] that
      by (simp add: table_at_def)
  qed
  then show ?thesis using fpt vm_init_state(3) [OF d fpt(2)] by (simp add: tables_ok_def)
qed

lemma vm_init_inv:
  assumes "dir_state 0 s" and "managed (vm_pm s) \<le> 524288" and fpt: "fpt mod 4096 = 0" "fpt + 4096 \<le> 4194304"
  shows "vm_inv fpt (vm_init fpt s)" and "k < 1048576 \<Longrightarrow> mapped fpt (vm_init fpt s) k \<longleftrightarrow> k < 2048"
proof -
  let ?s = "vm_init fpt s"
  have d: "dir_state 1024 (vm_init_dir s 0)" "managed (vm_pm (vm_init_dir s 0)) \<le> 524288"
    using vm_init_dir_spec [OF assms(1)] assms(2) by auto
  note st = vm_init_state [OF d(1) fpt(2)]
  have nm: "\<not> mapped fpt ?s k" if "2048 \<le> k" "k < 1048576" for k using st(4) [OF that] by (simp add: mapped_def)
  then have "{k. 2048 \<le> k \<and> k < 1048576 \<and> mapped fpt ?s k} = {}" by blast
  then have inj: "inj_on (page_frame fpt ?s) {k. 2048 \<le> k \<and> k < 1048576 \<and> mapped fpt ?s k}" by (simp only: inj_on_empty)
  have "pm_inv (vm_pm ?s)" "managed (vm_pm ?s) \<le> 524288" "\<forall>b < 2048. frame_used (vm_pm ?s) b"
    using d by (auto simp: st dir_state_def)
  moreover have "pte_ok (pte fpt ?s k)" if "2048 \<le> k" "k < 1048576" for k using st(4) [OF that] by (simp add: pte_ok_def)
  ultimately have "heap_ok fpt ?s" using nm inj unfolding heap_ok_def by blast
  then show i: "vm_inv fpt ?s" using vm_init_tables [OF d(1) fpt] by (simp add: vm_inv_def)
  show "k < 1048576 \<Longrightarrow> mapped fpt ?s k \<longleftrightarrow> k < 2048"
    using vm_inv_simps(5) [OF i] nm [of k] by (meson not_less)
qed

section \<open>The heap as a whole\<close>

text \<open>The situation in which an allocation succeeds, and what it produces.\<close>

definition can_alloc :: "nat \<Rightarrow> vm_state \<Rightarrow> u32 \<Rightarrow> bool" where
  "can_alloc fpt s sz \<longleftrightarrow> vm_inv fpt s \<and> no_full_gap (vm_pm s) \<and> unat sz + 4111 < 4294967296 \<and>
     (\<exists>k. run_at (\<lambda>k. \<not> mapped fpt s k) ((unat sz + 4111) div 4096) 1048576 k) \<and>
     (\<exists>b. free_run (vm_pm s) ((unat sz + 4111) div 4096) b)"

lemma kmalloc_spec:
  assumes "can_alloc fpt s sz" and n: "n = (unat sz + 4111) div 4096"
  shows "\<exists>k b s'. kmalloc s sz = Some (frame_addr k + 16, s') \<and> vm_inv fpt s' \<and>
    lowest_run (\<lambda>k. \<not> mapped fpt s k) n 1048576 k \<and> lowest_free_run (vm_pm s) n b \<and> block_mapped fpt s s' n k b \<and>
    phys_mem s' (b * 4096) = of_nat n \<and> phys_mem s' (b * 4096 + 4) = sz"
proof -
  have s: "vm_inv fpt s" "no_full_gap (vm_pm s)" and sz: "unat sz + 4111 < 4294967296"
    and v: "\<exists>k. run_at (\<lambda>k. \<not> mapped fpt s k) n 1048576 k" and p: "\<exists>b. free_run (vm_pm s) n b"
    using assms by (auto simp: can_alloc_def)
  have size: "unat (sz + 16) = unat sz + 16" using sz by (subst unat_plus_nowrap32) simp_all
  have pn: "pages_needed (sz + 16) = n" "sz + 16 \<noteq> 0"
    using pages_needed_eq [of "sz + 16"] size sz n by (auto simp: word_unat_eq_iff)
  have n0: "0 < n" using n by (simp add: div_greater_zero_iff)
  obtain k where k: "vm_find_free s n = Some (frame_addr k)" "lowest_run (\<lambda>k. \<not> mapped fpt s k) n 1048576 k"
    using vm_find_free_spec [OF vm_inv_simps(1) [OF s(1)] n0] v by (auto simp: frame_addr_def)
  have kr: "run_at (\<lambda>k. \<not> mapped fpt s k) n 1048576 k" "2048 \<le> k" "k + n \<le> 1048576"
    using k(2) unmapped_run_high [OF s(1) _ n0] by (auto simp: lowest_run_def run_at_def)
  have un: "unat (of_nat n :: u32) = n" using kr(3) by (intro unat_of_nat32) simp
  have "0 < (of_nat n :: u32)" using un n0 by (simp add: word_less_nat_alt)
  then obtain b where b: "lowest_free_run (vm_pm s) n b" "pm_alloc_blocks (vm_pm s) (of_nat n) = (frame_addr b, take_run (vm_pm s) b n)"
    using pm_alloc_blocks_spec [OF vm_inv_simps(3) [OF s(1)] s(2), of "of_nat n"] p un by auto
  have fr: "free_run (vm_pm s) n b" using b(1) by (simp add: lowest_free_run_def)
  obtain s1 s' where m: "kmalloc_map (s\<lparr>vm_pm := take_run (vm_pm s) b n\<rparr>) (frame_addr b) (frame_addr k) n = Some s1"
    "write_header s1 (frame_addr k) n (sz + 16) = Some (frame_addr k + 16, s')" "vm_inv fpt s'" "block_mapped fpt s s' n k b"
    "\<forall>a \<ge> 8388608. phys_mem s' a = (if a = b * 4096 + 4 then sz + 16 - 16 else if a = b * 4096 then of_nat n else phys_mem s a)"
    using kmalloc_block [OF s(1) kr(1) n0 fr, of "sz + 16"] by blast
  have "frame_addr k \<noteq> 0" using frame_addr_eq_0 [of k] kr n0 by simp
  then have "kmalloc s sz = Some (frame_addr k + 16, s')" using pn k(1) b(2) m(1,2) by (simp add: kmalloc_def)
  moreover have "8388608 \<le> b * 4096" using free_run_bounds(1) [OF s(1) fr n0] by simp
  ultimately show ?thesis using m(3,4,5) k(2) b(1) by force
qed

lemma no_full_gap_prefix:
  assumes "\<forall>x < managed s. frame_used s x \<longleftrightarrow> x < 32 * m"
  shows "no_full_gap s"
  unfolding no_full_gap_def
proof (intro exI allI impI)
  fix i assume i: "i < unat (pm_blocks s) div 32"
  have bits: "bit (pm_map s i) n \<longleftrightarrow> i < m" if "n < 32" for n
  proof -
    have "i * 32 + n < (i + 1) * 32" using that by simp
    also have "\<dots> \<le> managed s" unfolding managed_def using i by (intro mult_le_mono1) simp
    finally have "frame_used s (i * 32 + n) \<longleftrightarrow> i * 32 + n < 32 * m" using assms by blast
    then show ?thesis using that by (simp add: frame_used_def) linarith
  qed
  have full: "(0xFFFFFFFF :: u32) = - 1" by simp
  show "pm_map s i = 0xFFFFFFFF \<longleftrightarrow> i < m"
  proof
    assume "pm_map s i = 0xFFFFFFFF"
    then have "bit (pm_map s i) 0" by simp
    then show "i < m" using bits [of 0] by simp
  next
    assume "i < m"
    then show "pm_map s i = 0xFFFFFFFF"
      unfolding full using bits by (intro bit_eqI) (simp add: bit_simps)
  qed
qed

section \<open>Properties\<close>

lemma pm_init_dir_state:
  assumes "8388608 \<le> ram_max mmap" and "ram_max mmap \<le> 0x80000000"
  shows "dir_state 0 (s\<lparr>vm_pm := pm_init mmap m\<rparr>)" and "managed (pm_init mmap m) \<le> 524288"
proof -
  have r: "8388608 \<le> unat (ram_max mmap)" "unat (ram_max mmap) \<le> 2147483648"
    using assms by (simp_all add: word_le_nat_alt)
  have sum: "unat (pm_blocks (pm_init mmap m)) = (unat (ram_max mmap) + 4095) div 4096"
    unfolding pm_init_blocks using r(2) by (subst unat_plus_nowrap32) simp_all
  have "2048 \<le> unat (pm_blocks (pm_init mmap m))" unfolding sum using div_le_mono [of 8388608 _ 4096] r(1) by simp
  then have lo: "2048 \<le> managed (pm_init mmap m)" by (simp add: managed_def)
  have "unat (pm_blocks (pm_init mmap m)) \<le> 524288"
    unfolding sum using div_le_mono [of "unat (ram_max mmap) + 4095" 2147487743 4096] r(2) by simp
  then show "managed (pm_init mmap m) \<le> 524288" using managed_le [of "pm_init mmap m"] by simp
  have "4194304 \<le> ram_max mmap" "ram_max mmap \<le> 0xFFFFF000" using r by (simp_all add: word_le_nat_alt)
  then show "dir_state 0 (s\<lparr>vm_pm := pm_init mmap m\<rparr>)"
    using pm_init_inv(1) lo pm_init_used by (auto simp: dir_state_def)
qed

lemma translate_mapped:
  assumes "tables_ok fpt s"
  shows "translate s v = None \<longleftrightarrow> \<not> mapped fpt s (unat v div 4096)"
  by (simp add: walk [OF assms] mapped_def Let_def)

text \<open>
  C7: on a machine with 8 MB to 2 GB of memory, \<open>pm_init\<close> followed by \<open>vm_init\<close> leaves an address
  space in which exactly the first 8 MB are mapped, each address to itself: the kernel keeps running
  when paging is enabled and reaches every page table at its own address.
\<close>

theorem vm_init_identity:
  assumes "8388608 \<le> ram_max mmap" and "ram_max mmap \<le> 0x80000000"
    and "fpt mod 4096 = 0" and "fpt + 4096 \<le> 4194304"
  shows "let s' = vm_init fpt (s\<lparr>vm_pm := pm_init mmap (vm_pm s)\<rparr>)
         in vm_inv fpt s' \<and> translate s' v = (if unat v < 8388608 then Some v else None)"
proof -
  define s' where "s' = vm_init fpt (s\<lparr>vm_pm := pm_init mmap (vm_pm s)\<rparr>)"
  have i: "vm_inv fpt s'" "\<And>k. k < 1048576 \<Longrightarrow> mapped fpt s' k \<longleftrightarrow> k < 2048"
    unfolding s'_def using vm_init_inv pm_init_dir_state [OF assms(1,2)] assms(3,4) by simp_all
  have "unat v < 8388608 \<longleftrightarrow> unat v div 4096 < 2048" by (simp add: div_less_iff_less_mult)
  then show ?thesis using i translate_low [OF vm_inv_simps(1) [OF i(1)]] translate_mapped [OF vm_inv_simps(1) [OF i(1)]]
      page_lt [of v] by (auto simp: Let_def simp flip: s'_def)
qed

definition demo_boot :: vm_state where
  "demo_boot = \<lparr>vm_pm = demo_pm, page_directory = (\<lambda>_. 0), phys_mem = (\<lambda>_. 0)\<rparr>"

definition demo_vm :: vm_state where
  "demo_vm = vm_init 0x200000 (demo_boot\<lparr>vm_pm := pm_init demo_mmap (vm_pm demo_boot)\<rparr>)"

lemma demo_ram: "8388608 \<le> ram_max demo_mmap" "ram_max demo_mmap \<le> 0x80000000"
  by (simp_all add: ram_max_def demo_mmap_def)

theorem vm_init_identity_witness:
  "8388608 \<le> ram_max demo_mmap \<and> vm_inv 0x200000 demo_vm \<and> translate demo_vm 0xB8000 = Some 0xB8000 \<and>
   translate demo_vm 0x800000 = None"
  using vm_init_identity [OF demo_ram, where fpt = "0x200000" and v = "0xB8000" and s = demo_boot]
    vm_init_identity [OF demo_ram, where fpt = "0x200000" and v = "0x800000" and s = demo_boot]
    demo_ram by (simp add: demo_vm_def Let_def)

text \<open>
  C9: \<open>vm_find_free\<close> never faults and returns the start of the lowest run of \<open>n\<close> unmapped pages, or 0
  when there is no such run.
\<close>

theorem vm_find_free_lowest:
  assumes "vm_inv fpt s" and "0 < n"
  shows "\<exists>v. vm_find_free s n = Some v \<and>
    (if \<exists>k. run_at (\<lambda>k. \<not> mapped fpt s k) n 1048576 k
     then \<exists>k. v = of_nat (k * 4096) \<and> 8388608 \<le> v \<and> lowest_run (\<lambda>k. \<not> mapped fpt s k) n 1048576 k
     else v = 0)"
proof -
  have hi: "8388608 \<le> (of_nat (k * 4096) :: u32)" if "lowest_run (\<lambda>k. \<not> mapped fpt s k) n 1048576 k" for k
  proof -
    have "2048 \<le> k" "k + n \<le> 1048576"
      using that unmapped_run_high [OF assms(1) _ assms(2)] by (auto simp: lowest_run_def run_at_def)
    moreover have "unat (of_nat (k * 4096) :: u32) = k * 4096" using calculation assms(2) by (intro unat_of_nat32) simp
    ultimately show ?thesis by (simp only: word_le_nat_alt) simp
  qed
  show ?thesis using vm_find_free_spec [OF vm_inv_simps(1) [OF assms(1)] assms(2)] hi
    by (auto simp: lowest_run_def)
qed

lemma demo_vm_inv:
  "vm_inv 0x200000 demo_vm" "k < 1048576 \<Longrightarrow> mapped 0x200000 demo_vm k \<longleftrightarrow> k < 2048"
  unfolding demo_vm_def using vm_init_inv [OF pm_init_dir_state(1) [OF demo_ram], where fpt = "0x200000"] pm_init_dir_state(2) [OF demo_ram] by simp_all

lemma demo_vm_run: "lowest_run (\<lambda>k. \<not> mapped 0x200000 demo_vm k) 3 1048576 2048"
  unfolding lowest_run_def
proof (intro conjI allI impI)
  show "run_at (\<lambda>k. \<not> mapped 0x200000 demo_vm k) 3 1048576 2048" by (auto simp: run_at_def demo_vm_inv)
  show "2048 \<le> b" if "run_at (\<lambda>k. \<not> mapped 0x200000 demo_vm k) 3 1048576 b" for b
    using that unmapped_run_high [OF demo_vm_inv(1)] by simp
qed

theorem vm_find_free_lowest_witness:
  "vm_inv 0x200000 demo_vm \<and> vm_find_free demo_vm 3 = Some 0x800000"
proof -
  have ex: "\<exists>k. run_at (\<lambda>k. \<not> mapped 0x200000 demo_vm k) 3 1048576 k"
    using demo_vm_run unfolding lowest_run_def by blast
  obtain v where v: "vm_find_free demo_vm 3 = Some v"
    "\<exists>k. v = of_nat (k * 4096) \<and> 8388608 \<le> v \<and> lowest_run (\<lambda>k. \<not> mapped 0x200000 demo_vm k) 3 1048576 k"
    using vm_find_free_lowest [OF demo_vm_inv(1), of 3] unfolding if_P [OF ex] by auto
  then obtain k where k: "v = of_nat (k * 4096)" "lowest_run (\<lambda>k. \<not> mapped 0x200000 demo_vm k) 3 1048576 k" by auto
  then have "k = 2048" using demo_vm_run by (auto simp: lowest_run_def intro: antisym)
  then show ?thesis using v(1) k(1) demo_vm_inv(1) by simp
qed


lemma demo_can_alloc: "can_alloc 0x200000 demo_vm 12000"
proof -
  have d: "dir_state 1024 (vm_init_dir (demo_boot\<lparr>vm_pm := pm_init demo_mmap (vm_pm demo_boot)\<rparr>) 0)"
    using vm_init_dir_spec [OF pm_init_dir_state(1) [OF demo_ram]] by simp
  have pm: "vm_pm demo_vm = vm_pm (vm_init_dir (demo_boot\<lparr>vm_pm := pm_init demo_mmap (vm_pm demo_boot)\<rparr>) 0)"
    unfolding demo_vm_def using vm_init_state(1) [OF d] by simp
  have m: "managed (vm_pm demo_vm) = 8192"
  proof -
    have "managed (vm_pm demo_vm) = managed (pm_init demo_mmap (vm_pm demo_boot))"
      unfolding pm using vm_init_dir_spec [OF pm_init_dir_state(1) [OF demo_ram]] by simp
    then show ?thesis unfolding managed_def pm_init_blocks by (simp add: ram_max_def demo_mmap_def)
  qed
  have u: "frame_used (vm_pm demo_vm) x \<longleftrightarrow> x < 2048" if "x < 8192" for x
    using d that m by (simp add: pm dir_state_def)
  then have "no_full_gap (vm_pm demo_vm)" using m by (intro no_full_gap_prefix [of _ 64]) simp
  moreover have "free_run (vm_pm demo_vm) 3 2048" using u m by (auto simp: free_run_def run_at_def)
  ultimately show ?thesis using demo_vm_inv(1) demo_vm_run unfolding can_alloc_def lowest_run_def by auto
qed




text \<open>
  The frame mask \<open>0x7FFFF000\<close> misses bit 31.  An entry that mapped a frame above 2 GB gives back
  the wrong frame, and when it is reused for a lower frame it keeps the bit and maps a frame the
  caller never asked for.
\<close>

theorem frame_mask_misses_bit_31:
  "let e = pt_entry_add_attrib (pt_entry_set_frame 0 0x80001000) 1;
       freed = pt_entry_del_attrib e 1;
       reused = pt_entry_add_attrib (pt_entry_set_frame freed 0x00402000) 1
   in pt_entry_pfn e = 0x00001000 \<and> reused AND 0xFFFFF000 = 0x80402000"
  by (simp add: pt_entry_add_attrib_def pt_entry_set_frame_def pt_entry_del_attrib_def pt_entry_pfn_def PTE_FRAME_def)

end
