(* ===== verification/Kstring.thy ===== *)
theory Kstring
  imports Prelude
begin

text \<open>
  The string library of the kernel (\<open>src/kernel/lib/string.c\<close>): one definition per C
  function and one per loop, over byte objects with checked access.  A pointer into an object is
  the object and an offset.  \<open>memmove\<close> is modelled on a single object, so that its two
  regions can overlap; the other functions take distinct objects, as their callers do.
\<close>

section \<open>Definitions\<close>

function strlen_loop :: "u8 list \<Rightarrow> nat \<Rightarrow> nat option" where
  "strlen_loop str len =
     do { c \<leftarrow> rd str len; if c \<noteq> 0 then strlen_loop str (Suc len) else Some len }"
  by pat_completeness auto
termination
  by (relation "measure (\<lambda>(str, len). length str - len)") (auto dest: rd_SomeD)

definition strlen :: "u8 list \<Rightarrow> nat option" where
  "strlen str = strlen_loop str 0"

function memcpy_loop :: "u8 list \<Rightarrow> nat \<Rightarrow> u8 list \<Rightarrow> nat \<Rightarrow> nat \<Rightarrow> nat \<Rightarrow> u8 list option" where
  "memcpy_loop dest d src s n i =
     (if i < n then
        do { c \<leftarrow> rd src (s + i);
             dest' \<leftarrow> wr dest (d + i) c;
             memcpy_loop dest' d src s n (Suc i) }
      else Some dest)"
  by pat_completeness auto
termination
  by (relation "measure (\<lambda>(dest, d, src, s, n, i). n - i)") auto

definition memcpy :: "u8 list \<Rightarrow> nat \<Rightarrow> u8 list \<Rightarrow> nat \<Rightarrow> nat \<Rightarrow> u8 list option" where
  "memcpy dest d src s n = memcpy_loop dest d src s n 0"

function strcpy_loop :: "u8 list \<Rightarrow> u8 list \<Rightarrow> nat \<Rightarrow> u8 list option" where
  "strcpy_loop dst src i =
     do { c \<leftarrow> rd src i;
          if c \<noteq> 0 then do { dst' \<leftarrow> wr dst i c; strcpy_loop dst' src (Suc i) }
          else wr dst i 0 }"
  by pat_completeness auto
termination
  by (relation "measure (\<lambda>(dst, src, i). length src - i)") (auto dest: rd_SomeD)

definition strcpy :: "u8 list \<Rightarrow> u8 list \<Rightarrow> u8 list option" where
  "strcpy dst src = strcpy_loop dst src 0"

function strncpy_pad :: "u8 list \<Rightarrow> nat \<Rightarrow> nat \<Rightarrow> u8 list option" where
  "strncpy_pad dst n i =
     (if i < n then do { dst' \<leftarrow> wr dst i 0; strncpy_pad dst' n (Suc i) } else Some dst)"
  by pat_completeness auto
termination
  by (relation "measure (\<lambda>(dst, n, i). n - i)") auto

function strncpy_loop :: "u8 list \<Rightarrow> u8 list \<Rightarrow> nat \<Rightarrow> nat \<Rightarrow> u8 list option" where
  "strncpy_loop dst src n i =
     (if i < n then
        do { c \<leftarrow> rd src i;
             if c \<noteq> 0 then do { dst' \<leftarrow> wr dst i c; strncpy_loop dst' src n (Suc i) }
             else strncpy_pad dst n i }
      else strncpy_pad dst n i)"
  by pat_completeness auto
termination
  by (relation "measure (\<lambda>(dst, src, n, i). n - i)") auto

definition strncpy :: "u8 list \<Rightarrow> u8 list \<Rightarrow> nat \<Rightarrow> u8 list option" where
  "strncpy dst src n = strncpy_loop dst src n 0"

function memcmp_loop :: "u8 list \<Rightarrow> nat \<Rightarrow> u8 list \<Rightarrow> nat \<Rightarrow> nat \<Rightarrow> nat \<Rightarrow> int option" where
  "memcmp_loop s1 a s2 b n i =
     (if i < n then
        do { x \<leftarrow> rd s1 (a + i);
             y \<leftarrow> rd s2 (b + i);
             if x \<noteq> y then Some (uint x - uint y) else memcmp_loop s1 a s2 b n (Suc i) }
      else Some 0)"
  by pat_completeness auto
termination
  by (relation "measure (\<lambda>(s1, a, s2, b, n, i). n - i)") auto

definition memcmp :: "u8 list \<Rightarrow> nat \<Rightarrow> u8 list \<Rightarrow> nat \<Rightarrow> nat \<Rightarrow> int option" where
  "memcmp s1 a s2 b n = memcmp_loop s1 a s2 b n 0"

function memmove_up :: "u8 list \<Rightarrow> nat \<Rightarrow> nat \<Rightarrow> nat \<Rightarrow> nat \<Rightarrow> u8 list option" where
  "memmove_up m d s n i =
     (if i < n then
        do { c \<leftarrow> rd m (s + i); m' \<leftarrow> wr m (d + i) c; memmove_up m' d s n (Suc i) }
      else Some m)"
  by pat_completeness auto
termination
  by (relation "measure (\<lambda>(m, d, s, n, i). n - i)") auto

fun memmove_down :: "u8 list \<Rightarrow> nat \<Rightarrow> nat \<Rightarrow> nat \<Rightarrow> u8 list option" where
  "memmove_down m d s 0 = Some m"
| "memmove_down m d s (Suc i) =
     do { c \<leftarrow> rd m (s + i); m' \<leftarrow> wr m (d + i) c; memmove_down m' d s i }"

definition memmove :: "u8 list \<Rightarrow> nat \<Rightarrow> nat \<Rightarrow> nat \<Rightarrow> u8 list option" where
  "memmove m d s n = (if d < s then memmove_up m d s n 0 else memmove_down m d s n)"

fun bzero :: "u8 list \<Rightarrow> nat \<Rightarrow> nat \<Rightarrow> u8 list option" where
  "bzero s p 0 = Some s"
| "bzero s p (Suc n) = do { s' \<leftarrow> wr s p 0; bzero s' (Suc p) n }"

function strcat_copy :: "u8 list \<Rightarrow> u8 list \<Rightarrow> nat \<Rightarrow> nat \<Rightarrow> u8 list option" where
  "strcat_copy s1 s2 i j =
     do { c \<leftarrow> rd s2 j;
          if c \<noteq> 0 then do { s1' \<leftarrow> wr s1 i c; strcat_copy s1' s2 (Suc i) (Suc j) }
          else wr s1 i 0 }"
  by pat_completeness auto
termination
  by (relation "measure (\<lambda>(s1, s2, i, j). length s2 - j)") (auto dest: rd_SomeD)

definition strcat :: "u8 list \<Rightarrow> u8 list \<Rightarrow> u8 list option" where
  "strcat s1 s2 = do { i \<leftarrow> strlen_loop s1 0; strcat_copy s1 s2 i 0 }"

text \<open>
  The digit loops of \<open>itoa_buf\<close> and \<open>itoa_base_buf\<close>.  The counter \<open>length\<close> is a
  \<open>uint64_t\<close> that never exceeds the printed value, so its product with the base stays far below
  \<open>2 ^ 64\<close> (lemma \<open>grow_length_le\<close>) and it is modelled by \<open>nat\<close>.  With a base below 2
  the first loop does not end, which \<open>None\<close> stands for; the test on the base in
  \<open>itoa_base_emit\<close> is therefore never false when the loop is entered.
\<close>

partial_function (option) grow_length :: "nat \<Rightarrow> nat \<Rightarrow> nat \<Rightarrow> nat option" where
  "grow_length base len rem =
     (if len * base \<le> rem then grow_length base (len * base) rem else Some len)"

definition digit_char :: "nat \<Rightarrow> u8" where
  "digit_char v = of_nat (v + 48)"

definition hex_digits :: "u8 list" where
  "hex_digits = map (\<lambda>c. of_nat (of_char c)) ''0123456789abcdef''"

function itoa_emit :: "nat \<Rightarrow> nat \<Rightarrow> u8 list \<Rightarrow> nat \<Rightarrow> u8 list option" where
  "itoa_emit len rem buf i =
     (if 0 < len then
        do { buf' \<leftarrow> wr buf i (digit_char (rem div len));
             itoa_emit (len div 10) (rem mod len) buf' (Suc i) }
      else wr buf i 0)"
  by pat_completeness auto
termination
  by (relation "measure (\<lambda>(len, rem, buf, i). len)") auto

definition itoa_buf :: "u32 \<Rightarrow> u8 list \<Rightarrow> u8 list option" where
  "itoa_buf nbr buf =
     (let rem = nat \<bar>sint nbr\<bar> in
      do { (buf', i) \<leftarrow> (if sint nbr < 0 then do { b \<leftarrow> wr buf 0 45; Some (b, 1) }
                         else Some (buf, 0));
           len \<leftarrow> grow_length 10 1 rem;
           itoa_emit len rem buf' i })"

function itoa_base_emit :: "nat \<Rightarrow> nat \<Rightarrow> nat \<Rightarrow> u8 list \<Rightarrow> nat \<Rightarrow> u8 list option" where
  "itoa_base_emit base len nbr buf i =
     (if 0 < len \<and> 1 < base then
        do { c \<leftarrow> rd hex_digits (nbr div len);
             buf' \<leftarrow> wr buf i c;
             itoa_base_emit base (len div base) (nbr mod len) buf' (Suc i) }
      else wr buf i 0)"
  by pat_completeness auto
termination
  by (relation "measure (\<lambda>(base, len, nbr, buf, i). len)") (auto simp: div_less_dividend)

definition itoa_base_buf :: "u32 \<Rightarrow> nat \<Rightarrow> u8 list \<Rightarrow> u8 list option" where
  "itoa_base_buf nbr base buf =
     do { len \<leftarrow> grow_length base 1 (unat nbr);
          itoa_base_emit base len (unat nbr) buf 0 }"

text \<open>
  \<open>char\<close> is signed on the target, so \<open>strcmp\<close> subtracts signed values, while
  \<open>strncmp\<close> casts to \<open>unsigned char\<close> first.
\<close>

function strcmp_loop :: "u8 list \<Rightarrow> u8 list \<Rightarrow> nat \<Rightarrow> int option" where
  "strcmp_loop s1 s2 i =
     do { x \<leftarrow> rd s1 i;
          y \<leftarrow> rd s2 i;
          if x \<noteq> 0 \<and> x = y then strcmp_loop s1 s2 (Suc i) else Some (sint x - sint y) }"
  by pat_completeness auto
termination
  by (relation "measure (\<lambda>(s1, s2, i). length s1 - i)") (auto dest: rd_SomeD)

definition strcmp :: "u8 list \<Rightarrow> u8 list \<Rightarrow> int option" where
  "strcmp s1 s2 = strcmp_loop s1 s2 0"

function strncmp_loop :: "u8 list \<Rightarrow> u8 list \<Rightarrow> nat \<Rightarrow> nat \<Rightarrow> int option" where
  "strncmp_loop s1 s2 n i =
     (if i < n then
        do { x \<leftarrow> rd s1 i;
             if x \<noteq> 0 then
               do { y \<leftarrow> rd s2 i;
                    if x = y then strncmp_loop s1 s2 n (Suc i) else Some (uint x - uint y) }
             else do { y \<leftarrow> rd s2 i; Some (uint x - uint y) } }
      else Some 0)"
  by pat_completeness auto
termination
  by (relation "measure (\<lambda>(s1, s2, n, i). n - i)") auto

definition strncmp :: "u8 list \<Rightarrow> u8 list \<Rightarrow> nat \<Rightarrow> int option" where
  "strncmp s1 s2 n = strncmp_loop s1 s2 n 0"

text \<open>In \<open>atoi\<close> the accumulation overflows a signed \<open>int\<close> beyond \<open>2147483647\<close>.\<close>

definition int_ok :: "int \<Rightarrow> bool" where
  "int_ok x \<longleftrightarrow> - 2147483648 \<le> x \<and> x \<le> 2147483647"

function atoi_skip :: "u8 list \<Rightarrow> nat \<Rightarrow> nat option" where
  "atoi_skip str p =
     do { c \<leftarrow> rd str p; if c = 32 \<or> c = 9 then atoi_skip str (Suc p) else Some p }"
  by pat_completeness auto
termination
  by (relation "measure (\<lambda>(str, p). length str - p)") (auto dest: rd_SomeD)

function atoi_digits :: "u8 list \<Rightarrow> nat \<Rightarrow> int \<Rightarrow> int option" where
  "atoi_digits str p n =
     do { c \<leftarrow> rd str p;
          if 48 \<le> sint c \<and> sint c \<le> 57 then
            (if int_ok (n * 10) \<and> int_ok (n * 10 + (sint c - 48))
             then atoi_digits str (Suc p) (n * 10 + (sint c - 48)) else None)
          else Some n }"
  by pat_completeness auto
termination
  by (relation "measure (\<lambda>(str, p, n). length str - p)") (auto dest: rd_SomeD)

definition atoi :: "u8 list \<Rightarrow> nat \<Rightarrow> int option" where
  "atoi str p0 =
     do { p \<leftarrow> atoi_skip str p0;
          c \<leftarrow> rd str p;
          (sign, q) \<leftarrow> Some (if c = 45 then (- 1, Suc p) else if c = 43 then (1, Suc p) else (1, p));
          n \<leftarrow> atoi_digits str q 0;
          Some (sign * n) }"

definition isspace :: "int \<Rightarrow> bool" where
  "isspace c \<longleftrightarrow> c = 32 \<or> c = 9 \<or> c = 10 \<or> c = 13 \<or> c = 11 \<or> c = 12"

text \<open>
  \<open>split\<close> cuts the string in place and stores the start of each field; a pointer into the
  string is its offset.
\<close>

function skip_sep :: "u8 list \<Rightarrow> nat \<Rightarrow> u8 \<Rightarrow> nat option" where
  "skip_sep str cur sep =
     do { c \<leftarrow> rd str cur; if c = sep then skip_sep str (Suc cur) sep else Some cur }"
  by pat_completeness auto
termination
  by (relation "measure (\<lambda>(str, cur, sep). length str - cur)") (auto dest: rd_SomeD)

function find_sep :: "u8 list \<Rightarrow> nat \<Rightarrow> u8 \<Rightarrow> nat option" where
  "find_sep str cur sep =
     do { c \<leftarrow> rd str cur; if c \<noteq> 0 \<and> c \<noteq> sep then find_sep str (Suc cur) sep else Some cur }"
  by pat_completeness auto
termination
  by (relation "measure (\<lambda>(str, cur, sep). length str - cur)") (auto dest: rd_SomeD)

declare skip_sep.simps [simp del] find_sep.simps [simp del]

lemma skip_sep_ge: "skip_sep str cur sep = Some q \<Longrightarrow> cur \<le> q \<and> q < length str \<and> str ! q \<noteq> sep"
proof (induction str cur sep rule: skip_sep.induct)
  case (1 str cur sep)
  from "1.prems" obtain c where c: "rd str cur = Some c"
    by (subst (asm) skip_sep.simps) (auto split: bind_splits)
  show ?case
  proof (cases "c = sep")
    case True
    with c "1.prems" have "skip_sep str (Suc cur) sep = Some q"
      by (simp add: skip_sep.simps [of str cur sep])
    with "1.IH" [OF c True] show ?thesis by simp
  next
    case False
    with c "1.prems" have "q = cur" by (simp add: skip_sep.simps [of str cur sep])
    with c False show ?thesis by (auto dest: rd_SomeD)
  qed
qed

lemma find_sep_ge:
  "find_sep str cur sep = Some q \<Longrightarrow> cur \<le> q \<and> q < length str \<and> (str ! q = 0 \<or> str ! q = sep)"
proof (induction str cur sep rule: find_sep.induct)
  case (1 str cur sep)
  from "1.prems" obtain c where c: "rd str cur = Some c"
    by (subst (asm) find_sep.simps) (auto split: bind_splits)
  show ?case
  proof (cases "c \<noteq> 0 \<and> c \<noteq> sep")
    case True
    with c "1.prems" have "find_sep str (Suc cur) sep = Some q"
      by (simp add: find_sep.simps [of str cur sep])
    with "1.IH" [OF c True] show ?thesis by simp
  next
    case False
    with c "1.prems" have "q = cur" by (auto simp: find_sep.simps [of str cur sep])
    with c False show ?thesis by (auto dest: rd_SomeD)
  qed
qed

lemma find_sep_gt:
  assumes "find_sep str cur sep = Some q" and "str ! cur \<noteq> 0" and "str ! cur \<noteq> sep"
  shows "cur < q"
  using find_sep_ge [OF assms(1)] assms(2,3) by (metis le_neq_implies_less)

function split_loop :: "u8 list \<Rightarrow> nat \<Rightarrow> u8 \<Rightarrow> nat list \<Rightarrow> nat \<Rightarrow> (u8 list \<times> nat list) option" where
  "split_loop str cur sep tokens mx =
     do { c \<leftarrow> rd str cur;
          if c \<noteq> 0 \<and> length tokens < mx then
            do { b \<leftarrow> skip_sep str cur sep;
                 c1 \<leftarrow> rd str b;
                 if c1 = 0 then Some (str, tokens)
                 else do { e \<leftarrow> find_sep str b sep;
                           c2 \<leftarrow> rd str e;
                           if c2 \<noteq> 0 then
                             do { str' \<leftarrow> wr str e 0;
                                  split_loop str' (Suc e) sep (tokens @ [b]) mx }
                           else split_loop str e sep (tokens @ [b]) mx } }
          else Some (str, tokens) }"
  by pat_completeness auto
termination
proof (relation "measure (\<lambda>(str, cur, sep, tokens, mx). length str - cur)", goal_cases)
  case 1
  show ?case by simp
next
  case (2 str cur sep tokens mx c b c1 e c2 str')
  have "cur \<le> b" and "b \<le> e" and "e < length str" and "length str' = length str"
    using skip_sep_ge [OF 2(3)] find_sep_ge [OF 2(6)] length_wr [OF 2(9)] by simp_all
  then show ?case by simp
next
  case (3 str cur sep tokens mx c b c1 e c2)
  have "cur \<le> b" and "str ! b \<noteq> sep" using skip_sep_ge [OF 3(3)] by simp_all
  moreover have "str ! b \<noteq> 0" using 3(4,5) by (auto dest: rd_SomeD)
  ultimately have "b < e" by (intro find_sep_gt [OF 3(6)])
  with \<open>cur \<le> b\<close> find_sep_ge [OF 3(6)] show ?case by (simp add: diff_less_mono2)
qed

definition split_str :: "u8 list \<Rightarrow> u8 \<Rightarrow> nat \<Rightarrow> (u8 list \<times> nat list) option" where
  "split_str str sep mx = split_loop str 0 sep [] mx"

text \<open>
  The variadic arguments of \<open>snprintf\<close>: a pointer argument is the object it points to, an
  integer argument its 32 bits.  A directive that reads an argument of the other kind, or one
  that is not there, is undefined behaviour.
\<close>

datatype va = VStr "u8 list" | VInt u32

fun va_str :: "va list \<Rightarrow> (u8 list \<times> va list) option" where
  "va_str (VStr s # ap) = Some (s, ap)"
| "va_str ap = None"

fun va_int :: "va list \<Rightarrow> (u32 \<times> va list) option" where
  "va_int (VInt n # ap) = Some (n, ap)"
| "va_int ap = None"

text \<open>Copying a converted value, cut so that the terminator still fits.\<close>

definition sn_put :: "u8 list \<Rightarrow> nat \<Rightarrow> nat \<Rightarrow> u8 list \<Rightarrow> (u8 list \<times> nat) option" where
  "sn_put str sz out s =
     do { tl0 \<leftarrow> strlen s;
          (let tl = (if sz \<le> out + tl0 then sz - out - 1 else tl0) in
           do { str' \<leftarrow> memcpy str out s 0 tl; Some (str', out + tl) }) }"

definition sn_directive ::
  "u8 list \<Rightarrow> nat \<Rightarrow> nat \<Rightarrow> u8 \<Rightarrow> va list \<Rightarrow> (u8 list \<times> nat \<times> va list) option" where
  "sn_directive str sz out c ap =
     (if c = 115 then
        do { (s, ap') \<leftarrow> va_str ap; (str', o') \<leftarrow> sn_put str sz out s; Some (str', o', ap') }
      else if c = 99 then
        do { (v, ap') \<leftarrow> va_int ap; str' \<leftarrow> wr str out (ucast v); Some (str', Suc out, ap') }
      else if c = 100 then
        do { (v, ap') \<leftarrow> va_int ap;
             tmp \<leftarrow> itoa_buf v (replicate 64 0);
             (str', o') \<leftarrow> sn_put str sz out tmp; Some (str', o', ap') }
      else if c = 117 then
        do { (v, ap') \<leftarrow> va_int ap;
             tmp0 \<leftarrow> bzero (replicate 64 0) 0 64;
             tmp \<leftarrow> itoa_buf v tmp0;
             (str', o') \<leftarrow> sn_put str sz out tmp; Some (str', o', ap') }
      else
        do { str1 \<leftarrow> wr str out 37; str2 \<leftarrow> wr str1 (Suc out) c; Some (str2, out + 2, ap) })"

function snprintf_loop ::
  "u8 list \<Rightarrow> nat \<Rightarrow> u8 list \<Rightarrow> va list \<Rightarrow> nat \<Rightarrow> nat \<Rightarrow> (u8 list \<times> nat) option" where
  "snprintf_loop str sz format ap i out =
     do { f \<leftarrow> rd format i;
          if f \<noteq> 0 \<and> out + 1 < sz then
            do { c \<leftarrow> (if f = 37 then rd format (Suc i) else Some 0);
                 if f = 37 \<and> c \<noteq> 0 then
                   do { (str', o', ap') \<leftarrow> sn_directive str sz out c ap;
                        snprintf_loop str' sz format ap' (i + 2) o' }
                 else
                   do { str' \<leftarrow> wr str out f;
                        snprintf_loop str' sz format ap (Suc i) (Suc out) } }
          else if out < sz then do { str' \<leftarrow> wr str out 0; Some (str', out) }
          else Some (str, out) }"
  by pat_completeness auto
termination
  by (relation "measure (\<lambda>(str, sz, format, ap, i, out). length format - i)")
    (auto dest!: rd_SomeD)

definition snprintf :: "u8 list \<Rightarrow> nat \<Rightarrow> u8 list \<Rightarrow> va list \<Rightarrow> (u8 list \<times> nat) option" where
  "snprintf str sz format ap = snprintf_loop str sz format ap 0 0"

section \<open>What the functions compute\<close>

lemmas loop_simps =
  strlen_loop.simps memcpy_loop.simps strcpy_loop.simps strncpy_pad.simps strncpy_loop.simps
  memcmp_loop.simps memmove_up.simps strcat_copy.simps itoa_emit.simps itoa_base_emit.simps
  strcmp_loop.simps strncmp_loop.simps atoi_skip.simps atoi_digits.simps split_loop.simps
  snprintf_loop.simps

declare loop_simps [simp del]

text \<open>The string an object holds: its bytes up to the first zero byte.\<close>

definition cstr :: "u8 list \<Rightarrow> u8 list" where
  "cstr s = takeWhile (\<lambda>c. c \<noteq> 0) s"

definition terminated :: "u8 list \<Rightarrow> bool" where
  "terminated s \<longleftrightarrow> 0 \<in> set s"

lemma cstr_length: "terminated s \<Longrightarrow> length (cstr s) < length s"
  unfolding terminated_def cstr_def by (rule takeWhile_stop) simp_all

lemma cstr_stop: "terminated s \<Longrightarrow> s ! length (cstr s) = 0"
  unfolding terminated_def cstr_def using takeWhile_stop(2) [of 0 s "\<lambda>c. c \<noteq> 0"] by simp

lemma cstr_nth: "i < length (cstr s) \<Longrightarrow> cstr s ! i = s ! i \<and> s ! i \<noteq> 0"
  unfolding cstr_def by (metis takeWhile_neq_nth takeWhile_nth)

lemma cstr_no_zero: "0 \<notin> set (cstr s)"
  by (auto simp: cstr_def dest: set_takeWhileD)

lemma cstr_append_zero [simp]: "0 \<notin> set xs \<Longrightarrow> cstr (xs @ 0 # ys) = xs"
  by (induction xs) (auto simp: cstr_def)

lemma terminated_append_zero [simp]: "terminated (xs @ 0 # ys)"
  by (simp add: terminated_def)

lemma cstr_take: "cstr s = take (length (cstr s)) s"
  unfolding cstr_def by (rule takeWhile_eq_take)

lemma strlen_loop_cstr:
  "terminated s \<Longrightarrow> i \<le> length (cstr s) \<Longrightarrow> strlen_loop s i = Some (length (cstr s))"
proof (induction "length (cstr s) - i" arbitrary: i)
  case 0
  then have "i = length (cstr s)" by simp
  with 0 show ?case
    by (subst strlen_loop.simps) (simp add: mem_simps cstr_length cstr_stop)
next
  case (Suc k)
  then have lt: "i < length (cstr s)" by simp
  then have "strlen_loop s (Suc i) = Some (length (cstr s))" using Suc by simp
  with lt Suc.prems show ?case
    using cstr_nth [OF lt] cstr_length [of s]
    by (simp add: strlen_loop.simps [of s i] mem_simps)
qed

lemma strlen_cstr: "terminated s \<Longrightarrow> strlen s = Some (length (cstr s))"
  by (simp add: strlen_def strlen_loop_cstr)

lemma memcpy_loop_blit:
  assumes "s + n \<le> length src" and "d + n \<le> length dest" and "i \<le> n"
  shows "memcpy_loop (blit dest d (take i (drop s src))) d src s n i =
           Some (blit dest d (take n (drop s src)))"
  using assms(3)
proof (induction "n - i" arbitrary: i)
  case 0
  then show ?case by (simp add: memcpy_loop.simps)
next
  case (Suc k)
  then have i: "i < n" by simp
  have step: "(blit dest d (take i (drop s src)))[d + i := src ! (s + i)] =
      blit dest d (take (Suc i) (drop s src))"
    using blit_snoc [of d "take i (drop s src)" dest "src ! (s + i)"] assms(1,2) i
    by (simp add: take_Suc_snoc)
  have "memcpy_loop (blit dest d (take (Suc i) (drop s src))) d src s n (Suc i) =
      Some (blit dest d (take n (drop s src)))"
    using Suc i by simp
  with i step assms(1,2) show ?case
    by (simp add: memcpy_loop.simps [of _ d src s n i] mem_simps)
qed

lemma memcpy_blit [mem_simps]:
  assumes "s + n \<le> length src" and "d + n \<le> length dest"
  shows "memcpy dest d src s n = Some (blit dest d (take n (drop s src)))"
  using memcpy_loop_blit [OF assms, of 0] by (simp add: memcpy_def)

lemma memcpy_length: "memcpy dest d src s n = Some dest' \<Longrightarrow> length dest' = length dest"
proof -
  have "memcpy_loop dest d src s n i = Some dest' \<Longrightarrow> length dest' = length dest" for i
  proof (induction dest d src s n i rule: memcpy_loop.induct)
    case (1 dest d src s n i)
    then show ?case by (auto simp: memcpy_loop.simps [of dest] split: if_splits bind_splits dest: length_wr)
  qed
  then show "memcpy dest d src s n = Some dest' \<Longrightarrow> length dest' = length dest" by (simp add: memcpy_def)
qed

lemma bzero_blit [mem_simps]:
  "p + n \<le> length s \<Longrightarrow> bzero s p n = Some (blit s p (replicate n 0))"
proof (induction n arbitrary: s p)
  case 0
  show ?case by simp
next
  case (Suc n)
  then have "bzero (s[p := 0]) (Suc p) n = Some (blit (s[p := 0]) (Suc p) (replicate n 0))"
    by (intro Suc.IH) simp
  moreover have "blit (s[p := 0]) (Suc p) (replicate n 0) = blit s p (replicate (Suc n) 0)"
    using Suc.prems by (intro nth_equalityI) (auto simp: mem_simps nth_list_update nth_Cons')
  ultimately show ?case using Suc.prems by (simp add: mem_simps)
qed

lemma memmove_up_blit:
  assumes "d < s" and "s + n \<le> length m" and "i \<le> n"
  shows "memmove_up (blit m d (take i (drop s m))) d s n i = Some (blit m d (take n (drop s m)))"
  using assms(3)
proof (induction "n - i" arbitrary: i)
  case 0
  then show ?case by (simp add: memmove_up.simps)
next
  case (Suc k)
  then have i: "i < n" by simp
  have step: "(blit m d (take i (drop s m)))[d + i := m ! (s + i)] = blit m d (take (Suc i) (drop s m))"
    using blit_snoc [of d "take i (drop s m)" m "m ! (s + i)"] assms(1,2) i
    by (simp add: take_Suc_snoc)
  have "memmove_up (blit m d (take (Suc i) (drop s m))) d s n (Suc i) = Some (blit m d (take n (drop s m)))"
    using Suc i by simp
  with i step assms(1,2) show ?case
    by (simp add: memmove_up.simps [of _ d s n i] mem_simps)
qed

lemma memmove_down_blit:
  assumes "s \<le> d" and "d + n \<le> length m" and "i \<le> n"
  shows "memmove_down (blit m (d + i) (take (n - i) (drop (s + i) m))) d s i =
           Some (blit m d (take n (drop s m)))"
  using assms(3)
proof (induction i)
  case 0
  then show ?case by simp
next
  case (Suc i)
  let ?b = "blit m (d + Suc i) (take (n - Suc i) (drop (s + Suc i) m))"
  have "m ! (s + i) # take (n - Suc i) (drop (s + Suc i) m) = take (n - i) (drop (s + i) m)"
  proof -
    have "drop (s + i) m = m ! (s + i) # drop (Suc (s + i)) m"
      using Suc.prems assms(1,2) by (intro Cons_nth_drop_Suc [symmetric]) simp
    moreover have "n - i = Suc (n - Suc i)" using Suc.prems by simp
    ultimately show ?thesis by simp
  qed
  then have "?b[d + i := m ! (s + i)] = blit m (d + i) (take (n - i) (drop (s + i) m))"
    using blit_cons [of "d + Suc i" "take (n - Suc i) (drop (s + Suc i) m)" m "m ! (s + i)"]
      Suc.prems assms(1,2) by simp
  with Suc assms(1,2) show ?case by (simp add: mem_simps)
qed

text \<open>\<open>memmove\<close> moves the bytes that were there before, however the two regions overlap.\<close>

lemma memmove_blit [mem_simps]:
  assumes "s + n \<le> length m" and "d + n \<le> length m"
  shows "memmove m d s n = Some (blit m d (take n (drop s m)))"
proof (cases "d < s")
  case True
  then show ?thesis using memmove_up_blit [OF True assms(1), of 0] by (simp add: memmove_def)
next
  case False
  then show ?thesis
    using memmove_down_blit [of s d n m n] assms by (simp add: memmove_def)
qed

lemma strcpy_loop_blit:
  assumes "terminated src" and "length (cstr src) < length dst" and "i \<le> length (cstr src)"
  shows "strcpy_loop (blit dst 0 (take i (cstr src))) src i = Some (blit dst 0 (cstr src @ [0]))"
  using assms(3)
proof (induction "length (cstr src) - i" arbitrary: i)
  case 0
  then have i: "i = length (cstr src)" by simp
  have "(blit dst 0 (cstr src))[length (cstr src) := 0] = blit dst 0 (cstr src @ [0])"
    using blit_snoc [of 0 "cstr src" dst 0] assms(2) by simp
  with i show ?case using assms(1,2) cstr_length [OF assms(1)]
    by (subst strcpy_loop.simps) (simp add: mem_simps cstr_stop)
next
  case (Suc k)
  then have lt: "i < length (cstr src)" by simp
  have step: "(blit dst 0 (take i (cstr src)))[i := src ! i] = blit dst 0 (take (Suc i) (cstr src))"
    using blit_snoc [of 0 "take i (cstr src)" dst "src ! i"] assms(2) lt cstr_nth [OF lt]
    by (simp add: take_Suc_snoc)
  have "strcpy_loop (blit dst 0 (take (Suc i) (cstr src))) src (Suc i) = Some (blit dst 0 (cstr src @ [0]))"
    using Suc lt by simp
  with lt step show ?case using assms(1,2) cstr_length [OF assms(1)] cstr_nth [OF lt]
    by (subst strcpy_loop.simps) (simp add: mem_simps)
qed

lemma strcpy_blit [mem_simps]:
  assumes "terminated src" and "length (cstr src) < length dst"
  shows "strcpy dst src = Some (blit dst 0 (cstr src @ [0]))"
  using strcpy_loop_blit [OF assms, of 0] by (simp add: strcpy_def)

lemma strncpy_pad_blit:
  assumes "n \<le> length dst" and "i \<le> n"
  shows "strncpy_pad dst n i = Some (blit dst i (replicate (n - i) 0))"
  using assms
proof (induction "n - i" arbitrary: i dst)
  case 0
  then show ?case by (simp add: strncpy_pad.simps)
next
  case (Suc k)
  then have i: "i < n" by simp
  then have "strncpy_pad (dst[i := 0]) n (Suc i) = Some (blit (dst[i := 0]) (Suc i) (replicate (n - Suc i) 0))"
    using Suc by (intro Suc.hyps(1)) auto
  moreover have "blit (dst[i := 0]) (Suc i) (replicate (n - Suc i) 0) = blit dst i (replicate (n - i) 0)"
    using Suc.prems i by (intro nth_equalityI) (auto simp: mem_simps nth_list_update)
  ultimately show ?case using i Suc.prems by (subst strncpy_pad.simps) (simp add: mem_simps)
qed

lemma strncpy_loop_blit:
  assumes "terminated src" and "n \<le> length dst" and "i \<le> n" and "i \<le> length (cstr src)"
  shows "strncpy_loop (blit dst 0 (take i (cstr src))) src n i =
           Some (blit dst 0 (take n (cstr src) @ replicate (n - length (cstr src)) 0))"
  using assms(3,4)
proof (induction "length (cstr src) - i" arbitrary: i)
  case 0
  then have i: "i = length (cstr src)" by simp
  then show ?case using 0 assms(1,2) cstr_length [OF assms(1)]
      blit_append [of 0 "cstr src" "replicate (n - length (cstr src)) 0" dst]
    by (subst strncpy_loop.simps) (simp add: mem_simps cstr_stop strncpy_pad_blit)
next
  case (Suc k)
  then have lt: "i < length (cstr src)" by simp
  show ?case
  proof (cases "i < n")
    case True
    have step: "(blit dst 0 (take i (cstr src)))[i := src ! i] = blit dst 0 (take (Suc i) (cstr src))"
      using blit_snoc [of 0 "take i (cstr src)" dst "src ! i"] assms(2) lt True cstr_nth [OF lt]
      by (simp add: take_Suc_snoc)
    have "strncpy_loop (blit dst 0 (take (Suc i) (cstr src))) src n (Suc i) =
        Some (blit dst 0 (take n (cstr src) @ replicate (n - length (cstr src)) 0))"
      using Suc lt True by simp
    with lt True step show ?thesis using assms(1,2) cstr_length [OF assms(1)] cstr_nth [OF lt]
      by (subst strncpy_loop.simps) (simp add: mem_simps)
  next
    case False
    with Suc.prems have "i = n" by simp
    with lt show ?thesis using assms(2)
      by (subst strncpy_loop.simps) (simp add: strncpy_pad_blit mem_simps)
  qed
qed

lemma strncpy_blit [mem_simps]:
  assumes "terminated src" and "n \<le> length dst"
  shows "strncpy dst src n =
           Some (blit dst 0 (take n (cstr src) @ replicate (n - length (cstr src)) 0))"
  using strncpy_loop_blit [OF assms, of 0] by (simp add: strncpy_def)

lemma strcat_copy_blit:
  assumes "terminated s2" and "j \<le> length (cstr s2)" and "d + j \<le> length s1"
  shows "strcat_copy (blit s1 d (take j (cstr s2))) s2 (d + j) j =
           (if d + length (cstr s2) < length s1 then Some (blit s1 d (cstr s2 @ [0])) else None)"
  using assms(2,3)
proof (induction "length (cstr s2) - j" arbitrary: j)
  case 0
  then have j: "j = length (cstr s2)" by simp
  have "d + length (cstr s2) < length s1 \<Longrightarrow> (blit s1 d (cstr s2))[d + length (cstr s2) := 0] = blit s1 d (cstr s2 @ [0])"
    by (rule blit_snoc)
  then show ?case using 0 j assms(1) cstr_length [OF assms(1)]
    by (subst strcat_copy.simps) (auto simp: mem_simps cstr_stop)
next
  case (Suc k)
  then have lt: "j < length (cstr s2)" by simp
  have hd: "rd s2 j = Some (cstr s2 ! j)" "cstr s2 ! j \<noteq> 0"
    using cstr_nth [OF lt] cstr_length [OF assms(1)] lt by (simp_all add: mem_simps)
  show ?case
  proof (cases "d + j < length s1")
    case True
    have "(blit s1 d (take j (cstr s2)))[d + j := cstr s2 ! j] = blit s1 d (take (Suc j) (cstr s2))"
      using blit_snoc [of d "take j (cstr s2)" s1 "cstr s2 ! j"] True lt by (simp add: take_Suc_snoc)
    then have "strcat_copy (blit s1 d (take j (cstr s2))) s2 (d + j) j =
        strcat_copy (blit s1 d (take (Suc j) (cstr s2))) s2 (d + Suc j) (Suc j)"
      using True lt hd by (subst strcat_copy.simps) (simp add: mem_simps)
    moreover have "strcat_copy (blit s1 d (take (Suc j) (cstr s2))) s2 (d + Suc j) (Suc j) =
        (if d + length (cstr s2) < length s1 then Some (blit s1 d (cstr s2 @ [0])) else None)"
      using Suc.hyps True lt by (intro Suc.hyps(1)) simp_all
    ultimately show ?thesis by simp
  next
    case False
    then show ?thesis using Suc.prems lt hd by (subst strcat_copy.simps) (simp add: mem_simps)
  qed
qed

lemma strcat_blit:
  assumes "terminated s1" and "terminated s2"
  shows "strcat s1 s2 = (if length (cstr s1) + length (cstr s2) < length s1
      then Some (blit s1 (length (cstr s1)) (cstr s2 @ [0])) else None)"
  using strcat_copy_blit [OF assms(2), of 0 "length (cstr s1)" s1] strlen_loop_cstr [OF assms(1), of 0]
    cstr_length [OF assms(1)] by (simp add: strcat_def)

lemma sint_diff_eq_0: "sint (x :: u8) - sint y = 0 \<longleftrightarrow> x = y"
  by (metis eq_iff_diff_eq_0 signed_word_eqI)

lemma uint_diff_eq_0: "uint (x :: u8) - uint y = 0 \<longleftrightarrow> x = y"
  by (metis eq_iff_diff_eq_0 word_uint_eqI)

lemma cstr_index_end:
  assumes "terminated s" and "i \<le> length (cstr s)"
  shows "s ! i = 0 \<longleftrightarrow> i = length (cstr s)"
  using assms cstr_stop cstr_nth by (metis le_neq_implies_less)

lemma strcmp_loop_eq:
  assumes "terminated s1" and "terminated s2"
    and "i \<le> length (cstr s1)" and "i \<le> length (cstr s2)" and "take i (cstr s1) = take i (cstr s2)"
  shows "\<exists>r. strcmp_loop s1 s2 i = Some r \<and> (r = 0 \<longleftrightarrow> cstr s1 = cstr s2)"
  using assms(3-5)
proof (induction "length (cstr s1) - i" arbitrary: i)
  case 0
  then have i: "i = length (cstr s1)" by simp
  have in2: "i < length s2" using 0 cstr_length [OF assms(2)] by simp
  have "strcmp_loop s1 s2 i = Some (sint (0 :: u8) - sint (s2 ! i))"
    using assms(1) i in2 cstr_length [OF assms(1)]
    by (subst strcmp_loop.simps) (simp add: mem_simps cstr_stop)
  moreover have "0 = s2 ! i \<longleftrightarrow> cstr s1 = cstr s2"
    using i 0 cstr_index_end [OF assms(2), of i] by (metis take_all_iff order_refl)
  ultimately show ?case using sint_diff_eq_0 [of 0 "s2 ! i"] by simp
next
  case (Suc k)
  then have lt: "i < length (cstr s1)" by simp
  have len: "i < length s1" "i < length s2"
    using lt Suc.prems cstr_length [OF assms(1)] cstr_length [OF assms(2)] by simp_all
  show ?case
  proof (cases "s1 ! i = s2 ! i")
    case True
    then have lt2: "i < length (cstr s2)"
      using cstr_nth [OF lt] cstr_index_end [OF assms(2), of i] Suc.prems
      by (metis le_neq_implies_less)
    have "take (Suc i) (cstr s1) = take (Suc i) (cstr s2)"
      using lt lt2 True Suc.prems cstr_nth [OF lt] cstr_nth [OF lt2] by (simp add: take_Suc_snoc)
    moreover have "k = length (cstr s1) - Suc i" using Suc.hyps(2) by simp
    ultimately obtain r where "strcmp_loop s1 s2 (Suc i) = Some r" "r = 0 \<longleftrightarrow> cstr s1 = cstr s2"
      using Suc.hyps(1) [of "Suc i"] lt lt2 by auto
    then show ?thesis using len True cstr_nth [OF lt]
      by (subst strcmp_loop.simps) (simp add: mem_simps)
  next
    case False
    then have "cstr s1 \<noteq> cstr s2"
      using lt cstr_nth [OF lt] cstr_nth [of i s2] by metis
    then show ?thesis using len False sint_diff_eq_0 [of "s1 ! i" "s2 ! i"]
      by (subst strcmp_loop.simps) (simp add: mem_simps)
  qed
qed

lemma strcmp_eq_0:
  assumes "terminated s1" and "terminated s2"
  shows "\<exists>r. strcmp s1 s2 = Some r \<and> (r = 0 \<longleftrightarrow> cstr s1 = cstr s2)"
  using strcmp_loop_eq [OF assms, of 0] by (simp add: strcmp_def)

lemma strcmp_iff [mem_simps]:
  assumes "terminated s1" and "terminated s2"
  shows "strcmp s1 s2 = Some 0 \<longleftrightarrow> cstr s1 = cstr s2"
  using strcmp_eq_0 [OF assms] by auto

lemma memcmp_loop_eq:
  assumes "a + n \<le> length s1" and "b + n \<le> length s2" and "i \<le> n"
    and "take i (drop a s1) = take i (drop b s2)"
  shows "\<exists>r. memcmp_loop s1 a s2 b n i = Some r \<and> (r = 0 \<longleftrightarrow> take n (drop a s1) = take n (drop b s2))"
  using assms(3,4)
proof (induction "n - i" arbitrary: i)
  case 0
  then show ?case by (simp add: memcmp_loop.simps)
next
  case (Suc k)
  then have i: "i < n" by simp
  show ?case
  proof (cases "s1 ! (a + i) = s2 ! (b + i)")
    case True
    then have "take (Suc i) (drop a s1) = take (Suc i) (drop b s2)"
      using Suc.prems i assms(1,2) by (simp add: take_Suc_snoc)
    moreover have "k = n - Suc i" using Suc.hyps(2) by simp
    ultimately obtain r where "memcmp_loop s1 a s2 b n (Suc i) = Some r"
      "r = 0 \<longleftrightarrow> take n (drop a s1) = take n (drop b s2)"
      using Suc.hyps(1) [of "Suc i"] i by auto
    then show ?thesis using i True assms(1,2)
      by (subst memcmp_loop.simps) (simp add: mem_simps)
  next
    case False
    have "take n (drop a s1) ! i \<noteq> take n (drop b s2) ! i" using False i assms(1,2) by simp
    then have "take n (drop a s1) \<noteq> take n (drop b s2)" by metis
    then show ?thesis using i False assms(1,2) uint_diff_eq_0 [of "s1 ! (a + i)" "s2 ! (b + i)"]
      by (subst memcmp_loop.simps) (simp add: mem_simps)
  qed
qed

lemma memcmp_iff [mem_simps]:
  assumes "a + n \<le> length s1" and "b + n \<le> length s2"
  shows "memcmp s1 a s2 b n = Some 0 \<longleftrightarrow> take n (drop a s1) = take n (drop b s2)"
  using memcmp_loop_eq [OF assms, of 0] by (auto simp: memcmp_def)

lemma memcmp_defined:
  assumes "a + n \<le> length s1" and "b + n \<le> length s2"
  shows "\<exists>r. memcmp s1 a s2 b n = Some r"
  using memcmp_loop_eq [OF assms, of 0] by (auto simp: memcmp_def)

section \<open>Decimal numerals\<close>

fun dec_digits :: "nat \<Rightarrow> nat list" where
  "dec_digits n = (if n < 10 then [n] else dec_digits (n div 10) @ [n mod 10])"

declare dec_digits.simps [simp del]

definition itoa_str :: "u32 \<Rightarrow> u8 list" where
  "itoa_str v = (if sint v < 0 then [45] else []) @ map digit_char (dec_digits (nat \<bar>sint v\<bar>))"

text \<open>\<open>fix_digits k n\<close> lists the \<open>k + 1\<close> digits the emission loop prints.\<close>

fun fix_digits :: "nat \<Rightarrow> nat \<Rightarrow> nat list" where
  "fix_digits 0 n = [n]"
| "fix_digits (Suc k) n = n div 10 ^ Suc k # fix_digits k (n mod 10 ^ Suc k)"

lemma length_fix_digits [simp]: "length (fix_digits k n) = Suc k"
  by (induction k arbitrary: n) simp_all

lemma fix_digits_snoc: "fix_digits (Suc k) n = fix_digits k (n div 10) @ [n mod 10]"
proof (induction k arbitrary: n)
  case 0
  show ?case by simp
next
  case (Suc k)
  have "n mod 10 ^ Suc (Suc k) div 10 = n div 10 mod 10 ^ Suc k"
    using mod_mult2_eq [of n 10 "10 ^ Suc k"] by simp
  moreover have "n mod 10 ^ Suc (Suc k) mod 10 = n mod 10"
    by (simp add: mod_mod_cancel)
  ultimately show ?case
    using Suc [of "n mod 10 ^ Suc (Suc k)"] div_mult2_eq [of n 10 "10 ^ Suc k"] by simp
qed

lemma fix_digits_dec:
  "n < 10 ^ Suc k \<Longrightarrow> k = 0 \<or> 10 ^ k \<le> n \<Longrightarrow> fix_digits k n = dec_digits n"
proof (induction k arbitrary: n)
  case 0
  then show ?case by (simp add: dec_digits.simps)
next
  case (Suc k)
  have ge: "10 \<le> n"
  proof -
    have "(10 :: nat) \<le> 10 ^ Suc k" by simp
    with Suc.prems(2) show ?thesis by (metis Zero_not_Suc le_trans)
  qed
  have "n div 10 < 10 ^ Suc k" using Suc.prems(1) by (simp add: less_mult_imp_div_less)
  moreover have "10 ^ k \<le> n div 10" using Suc.prems(2) by (simp add: less_eq_div_iff_mult_less_eq mult.commute)
  ultimately have "fix_digits k (n div 10) = dec_digits (n div 10)" by (intro Suc.IH) auto
  with ge show ?case by (simp add: fix_digits_snoc dec_digits.simps [of n] del: fix_digits.simps)
qed

lemma grow_length_power:
  assumes "1 < b"
  shows "\<exists>k. grow_length b (b ^ j) n = Some (b ^ k) \<and> n < b ^ Suc k \<and> (k = j \<or> b ^ k \<le> n)"
proof (induction "n - b ^ j" arbitrary: j rule: less_induct)
  case less
  show ?case
  proof (cases "b ^ j * b \<le> n")
    case True
    have "b ^ j < b ^ Suc j" using assms by simp
    moreover have "b ^ Suc j \<le> n" using True by (simp add: mult.commute)
    ultimately have "n - b ^ Suc j < n - b ^ j" by linarith
    then obtain k where "grow_length b (b ^ Suc j) n = Some (b ^ k)" "n < b ^ Suc k"
      "k = Suc j \<or> b ^ k \<le> n"
      using less by blast
    with True show ?thesis
      by (subst grow_length.simps) (auto simp: mult.commute)
  next
    case False
    then show ?thesis by (subst grow_length.simps) (auto simp: mult.commute)
  qed
qed

lemma grow_length_le:
  assumes "1 < b"
  shows "\<exists>k. grow_length b 1 n = Some (b ^ k) \<and> n < b ^ Suc k \<and> (k = 0 \<or> b ^ k \<le> n)"
  using grow_length_power [OF assms, of 0 n] by simp

lemma itoa_emit_blit:
  "i + Suc k < length buf \<Longrightarrow>
     itoa_emit (10 ^ k) n buf i = Some (blit buf i (map digit_char (fix_digits k n) @ [0]))"
proof (induction k arbitrary: n buf i)
  case 0
  have "buf[i := digit_char n, Suc i := 0] = blit buf i [digit_char n, 0]"
    using 0 by (intro nth_equalityI) (auto simp: mem_simps nth_list_update nth_Cons')
  with 0 show ?case
    by (subst itoa_emit.simps) (simp add: mem_simps itoa_emit.simps [of 0])
next
  case (Suc k)
  let ?d = "digit_char (n div 10 ^ Suc k)"
  let ?r = "map digit_char (fix_digits k (n mod 10 ^ Suc k)) @ [0]"
  have "itoa_emit (10 ^ k) (n mod 10 ^ Suc k) (buf[i := ?d]) (Suc i) = Some (blit (buf[i := ?d]) (Suc i) ?r)"
    using Suc.prems by (intro Suc.IH) simp
  moreover have "blit (buf[i := ?d]) (Suc i) ?r = blit buf i (?d # ?r)"
    using Suc.prems by (intro nth_equalityI) (auto simp: mem_simps nth_list_update nth_Cons')
  ultimately show ?case using Suc.prems
    by (subst itoa_emit.simps) (simp add: mem_simps)
qed

lemma itoa_loops:
  assumes "i + length (dec_digits n) < length buf"
  shows "do { len \<leftarrow> grow_length 10 1 n; itoa_emit len n buf i } =
           Some (blit buf i (map digit_char (dec_digits n) @ [0]))"
proof -
  obtain k where k: "grow_length 10 1 n = Some (10 ^ k)" "n < 10 ^ Suc k" "k = 0 \<or> 10 ^ k \<le> n"
    using grow_length_le [of 10 n] by auto
  have eq: "fix_digits k n = dec_digits n" using k by (intro fix_digits_dec) auto
  then have "length (dec_digits n) = Suc k" by (metis length_fix_digits)
  with assms have "i + Suc k < length buf" by simp
  from itoa_emit_blit [OF this, of n] k(1) eq show ?thesis by simp
qed

lemma itoa_buf_blit [mem_simps]:
  assumes "length (itoa_str v) < length buf"
  shows "itoa_buf v buf = Some (blit buf 0 (itoa_str v @ [0]))"
proof (cases "sint v < 0")
  case True
  let ?n = "nat \<bar>sint v\<bar>"
  have "1 + length (dec_digits ?n) < length (buf[0 := 45])"
    using assms True by (simp add: itoa_str_def)
  then have "do { len \<leftarrow> grow_length 10 1 ?n; itoa_emit len ?n (buf[0 := 45]) 1 } =
      Some (blit (buf[0 := 45]) 1 (map digit_char (dec_digits ?n) @ [0]))"
    by (rule itoa_loops)
  moreover have "blit (buf[0 := 45]) 1 (map digit_char (dec_digits ?n) @ [0]) = blit buf 0 (itoa_str v @ [0])"
    using assms True
    by (intro nth_equalityI) (auto simp: itoa_str_def mem_simps nth_list_update nth_Cons')
  moreover have "0 < length buf" using assms by linarith
  ultimately show ?thesis using True
    by (simp add: itoa_buf_def mem_simps)
next
  case False
  then show ?thesis using assms itoa_loops [of 0 "nat \<bar>sint v\<bar>" buf]
    by (simp add: itoa_buf_def itoa_str_def)
qed

lemma length_dec_digits: "n < 10 ^ Suc k \<Longrightarrow> length (dec_digits n) \<le> Suc k"
proof (induction k arbitrary: n)
  case 0
  then show ?case by (simp add: dec_digits.simps)
next
  case (Suc k)
  have "n div 10 < 10 ^ Suc k" using Suc.prems by (simp add: less_mult_imp_div_less)
  then have "length (dec_digits (n div 10)) \<le> Suc k" by (rule Suc.IH)
  then show ?case by (subst dec_digits.simps) simp
qed

lemma dec_digits_nonempty: "dec_digits n \<noteq> []"
  by (subst dec_digits.simps) simp

lemma dec_digits_less: "d \<in> set (dec_digits n) \<Longrightarrow> d < 10"
proof (induction n rule: dec_digits.induct)
  case (1 n)
  then show ?case by (cases "n < 10") (auto simp: dec_digits.simps [of n])
qed

lemma sint_u32_range: "- 2147483648 \<le> sint (v :: u32) \<and> sint v \<le> 2147483647"
  using sint_range_size [of v] by (simp add: word_size)

lemma sint_neg_iff: "sint (v :: u32) < 0 \<longleftrightarrow> 2147483648 \<le> v"
proof -
  have "sint v = (uint v + 2147483648) mod 4294967296 - 2147483648"
    by (simp add: sint_uint signed_take_bit_eq_take_bit_shift take_bit_eq_mod)
  moreover have "0 \<le> uint v" "uint v < 4294967296"
    using uint_lt2p [of v] by simp_all
  ultimately have "sint v < 0 \<longleftrightarrow> 2147483648 \<le> uint v"
    by (cases "uint v < 2147483648")
      (simp_all add: mod_pos_pos_trivial mod_pos_geq [of 4294967296 "uint v + 2147483648"])
  then show ?thesis by (simp add: word_le_def)
qed

lemma length_itoa_str: "length (itoa_str v) \<le> 11"
proof -
  have "nat \<bar>sint v\<bar> < 10 ^ Suc 9" using sint_u32_range [of v] by auto
  then have "length (dec_digits (nat \<bar>sint v\<bar>)) \<le> 10"
    using length_dec_digits [of _ 9] by simp
  then show ?thesis by (cases "sint v < 0") (simp_all add: itoa_str_def)
qed

lemma digit_char_value: "d < 10 \<Longrightarrow> sint (digit_char d) = int d + 48"
proof -
  assume "d < 10"
  then have "d \<in> {0, 1, 2, 3, 4, 5, 6, 7, 8, 9}" by auto
  then show ?thesis by (auto simp: digit_char_def)
qed

lemma digit_char_nonzero: "d < 10 \<Longrightarrow> digit_char d \<noteq> 0"
  using digit_char_value [of d] by auto

lemma itoa_str_no_zero: "0 \<notin> set (itoa_str v)"
  by (auto simp: itoa_str_def dest: dec_digits_less digit_char_nonzero [rotated] sym)

subsection \<open>Reading a numeral back\<close>

definition dec_value :: "int \<Rightarrow> nat list \<Rightarrow> int" where
  "dec_value n ds = foldl (\<lambda>a d. a * 10 + int d) n ds"

lemma dec_value_simps [simp]:
  "dec_value n [] = n" "dec_value n (d # ds) = dec_value (n * 10 + int d) ds"
  "dec_value n (ds @ [d]) = dec_value n ds * 10 + int d"
  by (simp_all add: dec_value_def)

lemma dec_value_mono: "0 \<le> n \<Longrightarrow> n \<le> dec_value n ds"
proof (induction ds arbitrary: n)
  case Nil
  then show ?case by simp
next
  case (Cons d ds)
  have "n \<le> n * 10 + int d" using Cons.prems by simp
  also have "\<dots> \<le> dec_value (n * 10 + int d) ds" using Cons.prems by (intro Cons.IH) simp
  finally show ?case by simp
qed

lemma dec_value_digits: "dec_value 0 (dec_digits n) = int n"
proof (induction n rule: dec_digits.induct)
  case (1 n)
  have "int (n div 10) * 10 + int (n mod 10) = int n" by presburger
  with 1 show ?case by (cases "n < 10") (simp_all add: dec_digits.simps [of n])
qed

lemma atoi_digits_value:
  assumes "\<forall>d \<in> set ds. d < 10" and "0 \<le> n" and "dec_value n ds \<le> 2147483647"
  shows "atoi_digits (pre @ map digit_char ds @ 0 # post) (length pre) n = Some (dec_value n ds)"
  using assms
proof (induction ds arbitrary: pre n)
  case Nil
  then show ?case by (subst atoi_digits.simps) (simp add: mem_simps)
next
  case (Cons d ds)
  let ?m = "n * 10 + int d"
  have d: "sint (digit_char d) = int d + 48" using Cons.prems(1) by (intro digit_char_value) simp
  have "?m \<le> dec_value ?m ds" using Cons.prems(2) by (intro dec_value_mono) simp
  then have ok: "int_ok (n * 10)" "int_ok ?m" using Cons.prems(2,3) by (simp_all add: int_ok_def)
  have "atoi_digits ((pre @ [digit_char d]) @ map digit_char ds @ 0 # post)
      (length (pre @ [digit_char d])) ?m = Some (dec_value ?m ds)"
    using Cons.prems by (intro Cons.IH) auto
  then show ?case using ok d Cons.prems(1)
    by (subst atoi_digits.simps) (simp add: mem_simps nth_append)
qed

lemma atoi_skip_none:
  "p < length str \<Longrightarrow> str ! p \<noteq> 32 \<Longrightarrow> str ! p \<noteq> 9 \<Longrightarrow> atoi_skip str p = Some p"
  by (subst atoi_skip.simps) (simp add: mem_simps)

lemma atoi_itoa_str:
  assumes "sint v \<noteq> - 2147483648"
  shows "atoi (itoa_str v @ 0 # post) 0 = Some (sint v)"
proof -
  let ?n = "nat \<bar>sint v\<bar>"
  let ?ds = "dec_digits ?n"
  have val: "dec_value 0 ?ds = \<bar>sint v\<bar>" by (simp add: dec_value_digits)
  have dig: "\<forall>d \<in> set ?ds. d < 10" by (auto dest: dec_digits_less)
  have bound: "dec_value 0 ?ds \<le> 2147483647" using sint_u32_range [of v] assms by (auto simp: val)
  show ?thesis
  proof (cases "sint v < 0")
    case True
    have "atoi_digits ([45] @ map digit_char ?ds @ 0 # post) (length [45 :: u8]) 0 = Some \<bar>sint v\<bar>"
      using atoi_digits_value [OF dig _ bound, of "[45]" post] val by simp
    then show ?thesis using True
      by (simp add: atoi_def itoa_str_def atoi_skip_none mem_simps)
  next
    case False
    obtain d ds where ds: "?ds = d # ds" using dec_digits_nonempty by (cases ?ds) auto
    have "d < 10" using dig ds by simp
    then have c: "sint (digit_char d) = int d + 48" by (rule digit_char_value)
    have "digit_char d \<noteq> 32" "digit_char d \<noteq> 9" "digit_char d \<noteq> 45" "digit_char d \<noteq> 43"
      using c by auto
    moreover have "atoi_digits ([] @ map digit_char ?ds @ 0 # post) (length ([] :: u8 list)) 0 = Some \<bar>sint v\<bar>"
      using atoi_digits_value [OF dig _ bound, of "[]" post] val by simp
    ultimately show ?thesis using False ds
      by (simp add: atoi_def itoa_str_def atoi_skip_none mem_simps)
  qed
qed

section \<open>Bounded formatting\<close>

text \<open>
  What a format means without a bound: the text of the supported directives.  A directive
  \<open>snprintf\<close> does not know has no meaning here.
\<close>

fun fmt_conv :: "u8 \<Rightarrow> va list \<Rightarrow> (u8 list \<times> va list) option" where
  "fmt_conv c ap =
     (if c = 115 then do { (s, ap') \<leftarrow> va_str ap; if terminated s then Some (cstr s, ap') else None }
      else if c = 99 then do { (v, ap') \<leftarrow> va_int ap; Some ([ucast v], ap') }
      else if c = 100 \<or> c = 117 then do { (v, ap') \<leftarrow> va_int ap; Some (itoa_str v, ap') }
      else None)"

fun fmt_out :: "u8 list \<Rightarrow> va list \<Rightarrow> u8 list option" where
  "fmt_out [] ap = Some []"
| "fmt_out [f] ap = Some [f]"
| "fmt_out (f # c # fs) ap =
     (if f = 37 then do { (t, ap') \<leftarrow> fmt_conv c ap; r \<leftarrow> fmt_out fs ap'; Some (t @ r) }
      else do { r \<leftarrow> fmt_out (c # fs) ap; Some (f # r) })"

lemma fmt_out_cons: "f \<noteq> 37 \<Longrightarrow> fmt_out (f # fs) ap = do { r \<leftarrow> fmt_out fs ap; Some (f # r) }"
  by (cases fs) simp_all

definition clip :: "nat \<Rightarrow> u8 list \<Rightarrow> u8 list" where
  "clip sz out = take (sz - 1) out"

lemma length_clip: "0 < sz \<Longrightarrow> length (clip sz out) < sz"
  by (simp add: clip_def)

lemma clip_clip: "clip sz (clip sz xs @ ys) = clip sz (xs @ ys)"
  by (auto simp: clip_def min_def)

lemma sn_put_blit:
  assumes "terminated s" and "length dn + 1 < sz" and "sz \<le> length str"
  shows "sn_put (blit str 0 dn) sz (length dn) s =
           Some (blit str 0 (clip sz (dn @ cstr s)), length (clip sz (dn @ cstr s)))"
proof -
  let ?l = "length (cstr s)"
  let ?tl = "if sz \<le> length dn + ?l then sz - length dn - 1 else ?l"
  have tl: "?tl \<le> ?l" "length dn + ?tl \<le> length str" using assms(2,3) by auto
  have cp: "memcpy (blit str 0 dn) (length dn) s 0 ?tl = Some (blit (blit str 0 dn) (length dn) (take ?tl s))"
    using tl assms(2,3) cstr_length [OF assms(1)] memcpy_blit [of 0 ?tl s "length dn" "blit str 0 dn"]
    by (simp add: mem_simps)
  have tk: "take ?tl s = take ?tl (cstr s)"
    using tl(1) by (subst cstr_take) (simp add: min_def)
  have "blit (blit str 0 dn) (length dn) (take ?tl s) = blit str 0 (dn @ take ?tl (cstr s))"
    using blit_append [of 0 dn "take ?tl (cstr s)" str] tl by (simp add: tk)
  moreover have "dn @ take ?tl (cstr s) = clip sz (dn @ cstr s)"
    using assms(2) by (auto simp: clip_def)
  moreover have "length dn + ?tl = length (clip sz (dn @ cstr s))"
    using assms(2) by (auto simp: clip_def)
  ultimately show ?thesis using cp assms(1)
    by (simp add: sn_put_def strlen_cstr Let_def)
qed

lemma sn_directive_blit:
  assumes "fmt_conv c ap = Some (t, ap')" and "length dn + 1 < sz" and "sz \<le> length str"
  shows "sn_directive (blit str 0 dn) sz (length dn) c ap =
           Some (blit str 0 (clip sz (dn @ t)), length (clip sz (dn @ t)), ap')"
proof -
  have num: "sn_put (blit str 0 dn) sz (length dn) (blit (replicate 64 0) 0 (itoa_str v @ [0])) =
      Some (blit str 0 (clip sz (dn @ itoa_str v)), length (clip sz (dn @ itoa_str v)))" for v
  proof -
    have "blit (replicate 64 (0 :: u8)) 0 (itoa_str v @ [0]) = itoa_str v @ 0 # replicate (63 - length (itoa_str v)) 0"
      using length_itoa_str [of v] by (simp add: blit_def)
    then show ?thesis
      using sn_put_blit [of "itoa_str v @ 0 # replicate (63 - length (itoa_str v)) 0", OF _ assms(2,3)]
      by (simp add: itoa_str_no_zero)
  qed
  have itoa: "itoa_buf v (replicate 64 0) = Some (blit (replicate 64 0) 0 (itoa_str v @ [0]))" for v
    using length_itoa_str [of v] by (intro itoa_buf_blit) simp
  have bz: "bzero (replicate 64 (0 :: u8)) 0 64 = Some (replicate 64 0)"
    by (simp add: bzero_blit blit_def)
  have one: "(blit str 0 dn)[length dn := v] = blit str 0 (clip sz (dn @ [v]))" for v
    using blit_snoc [of 0 dn str v] assms(2,3) by (simp add: clip_def)
  consider "c = 115" | "c = 99" | "c = 100" | "c = 117"
    using assms(1) by (auto split: if_splits)
  then show ?thesis
  proof cases
    case 1
    with assms show ?thesis
      by (auto simp: sn_directive_def sn_put_blit split: bind_splits if_splits)
  next
    case 2
    with assms one show ?thesis
      by (auto simp: sn_directive_def mem_simps clip_def split: bind_splits)
  next
    case 3
    with assms num itoa show ?thesis
      by (auto simp: sn_directive_def split: bind_splits)
  next
    case 4
    with assms num itoa bz show ?thesis
      by (auto simp: sn_directive_def split: bind_splits)
  qed
qed

lemma snprintf_loop_blit:
  assumes "terminated format" and "0 < sz" and "sz \<le> length str"
    and "i \<le> length (cstr format)" and "length dn < sz"
    and "fmt_out (drop i (cstr format)) ap = Some out"
  shows "snprintf_loop (blit str 0 dn) sz format ap i (length dn) =
           Some (blit str 0 (clip sz (dn @ out) @ [0]), length (clip sz (dn @ out)))"
  using assms(4-6)
proof (induction "length (cstr format) - i" arbitrary: i dn ap out rule: less_induct)
  case less
  let ?f = "cstr format"
  have fin: "i < length format" using less.prems cstr_length [OF assms(1)] by simp
  have stop: "snprintf_loop (blit str 0 dn) sz format ap i (length dn) =
      Some (blit str 0 (dn @ [0]), length dn)" if "format ! i = 0 \<or> length dn + 1 = sz"
    using that fin less.prems(2) assms(2,3) blit_snoc [of 0 dn str 0]
    by (subst snprintf_loop.simps) (auto simp: mem_simps)
  show ?case
  proof (cases "i = length ?f \<or> length dn + 1 = sz")
    case True
    then have "clip sz (dn @ out) = dn" using less.prems by (auto simp: clip_def)
    with True stop show ?thesis using cstr_stop [OF assms(1)] by auto
  next
    case False
    with less.prems have i: "i < length ?f" and room: "length dn + 1 < sz" by auto
    have f: "format ! i \<noteq> 0" "?f ! i = format ! i" using cstr_nth [OF i] by auto
    have dr: "drop i ?f = format ! i # drop (Suc i) ?f"
      using i f(2) by (metis Cons_nth_drop_Suc)
    have plain: ?thesis if cond: "format ! i \<noteq> 37 \<or> Suc i = length ?f"
    proof -
      obtain out' where out': "out = format ! i # out'" "fmt_out (drop (Suc i) ?f) ap = Some out'"
      proof (cases "format ! i = 37")
        case True
        with cond have "Suc i = length ?f" by simp
        with dr less.prems(3) that show ?thesis by simp
      next
        case False
        then show ?thesis using that less.prems(3) by (auto simp: dr fmt_out_cons split: bind_splits)
      qed
      have up: "(blit str 0 dn)[length dn := format ! i] = blit str 0 (dn @ [format ! i])"
        using blit_snoc [of 0 dn str "format ! i"] assms(3) room by simp
      have "snprintf_loop (blit str 0 (dn @ [format ! i])) sz format ap (Suc i) (length (dn @ [format ! i])) =
          Some (blit str 0 (clip sz ((dn @ [format ! i]) @ out') @ [0]), length (clip sz ((dn @ [format ! i]) @ out')))"
        using i room out' by (intro less.hyps) auto
      moreover have "format ! i = 37 \<longrightarrow> rd format (Suc i) = Some 0"
        using cond i cstr_stop [OF assms(1)] cstr_length [OF assms(1)] by (auto simp: mem_simps)
      ultimately show ?thesis using f fin room up out'(1) assms(3)
        by (subst snprintf_loop.simps) (auto simp: mem_simps)
    qed
    show ?thesis
    proof (cases "format ! i \<noteq> 37 \<or> Suc i = length ?f")
      case True
      then show ?thesis by (rule plain)
    next
      case False
      then have p: "format ! i = 37" and i2: "Suc i < length ?f" using i by auto
      have c: "format ! Suc i \<noteq> 0" "?f ! Suc i = format ! Suc i" using cstr_nth [OF i2] by auto
      have dr2: "drop i ?f = 37 # format ! Suc i # drop (i + 2) ?f"
        using dr i2 c(2) p by (metis Cons_nth_drop_Suc add_2_eq_Suc')
      obtain t ap' r where conv: "fmt_conv (format ! Suc i) ap = Some (t, ap')"
        and r: "fmt_out (drop (i + 2) ?f) ap' = Some r" and out: "out = t @ r"
        using less.prems(3) by (auto simp: dr2 simp del: fmt_conv.simps split: bind_splits)
      let ?dn = "clip sz (dn @ t)"
      have "snprintf_loop (blit str 0 ?dn) sz format ap' (i + 2) (length ?dn) =
          Some (blit str 0 (clip sz (?dn @ r) @ [0]), length (clip sz (?dn @ r)))"
        using i2 r assms(2) by (intro less.hyps) (auto simp: length_clip)
      then have "snprintf_loop (blit str 0 dn) sz format ap i (length dn) =
          Some (blit str 0 (clip sz (?dn @ r) @ [0]), length (clip sz (?dn @ r)))"
        using f fin p c(1) room i2 cstr_length [OF assms(1)] sn_directive_blit [OF conv room assms(3)]
        by (subst snprintf_loop.simps) (simp add: mem_simps)
      then show ?thesis by (simp add: out clip_clip)
    qed
  qed
qed

lemma snprintf_blit:
  assumes "terminated format" and "0 < sz" and "sz \<le> length str" and "fmt_out (cstr format) ap = Some out"
  shows "snprintf str sz format ap = Some (blit str 0 (clip sz out @ [0]), length (clip sz out))"
  using snprintf_loop_blit [OF assms(1-3), of 0 "[]" ap out] assms(2,4) by (simp add: snprintf_def)

section \<open>Splitting into fields\<close>

function fields :: "u8 \<Rightarrow> u8 list \<Rightarrow> u8 list list" where
  "fields sep xs =
     (case dropWhile (\<lambda>c. c = sep) xs of
        [] \<Rightarrow> []
      | y # ys \<Rightarrow> (y # takeWhile (\<lambda>c. c \<noteq> sep) ys) # fields sep (dropWhile (\<lambda>c. c \<noteq> sep) ys))"
  by pat_completeness auto
termination
proof (relation "measure (\<lambda>(sep, xs). length xs)", goal_cases)
  case 1
  show ?case by simp
next
  case (2 sep xs y ys)
  have "length (dropWhile (\<lambda>c. c \<noteq> sep) ys) \<le> length ys" by (rule length_dropWhile_le)
  also have "\<dots> < length (dropWhile (\<lambda>c. c = sep) xs)" using 2 by simp
  also have "\<dots> \<le> length xs" by (rule length_dropWhile_le)
  finally show ?case by simp
qed

declare fields.simps [simp del]

lemma fields_sep_Cons: "fields sep (sep # xs) = fields sep xs"
  by (simp add: fields.simps [of sep "sep # xs"] fields.simps [of sep xs])

lemma fields_Nil [simp]: "fields sep [] = []"
  by (simp add: fields.simps)

lemma cstr_drop_Cons: "terminated (drop b str) \<Longrightarrow> str ! b \<noteq> 0 \<Longrightarrow>
    cstr (drop b str) = str ! b # cstr (drop (Suc b) str) \<and> terminated (drop (Suc b) str) \<and> b < length str"
proof -
  assume t: "terminated (drop b str)" and nz: "str ! b \<noteq> 0"
  then have b: "b < length str" by (metis drop_all empty_iff not_le_imp_less list.set(1) terminated_def)
  then have "drop b str = str ! b # drop (Suc b) str" by (simp add: Cons_nth_drop_Suc)
  then show ?thesis using t nz b by (auto simp: cstr_def terminated_def)
qed

lemma cstr_drop_zero: "b < length str \<Longrightarrow> str ! b = 0 \<Longrightarrow> cstr (drop b str) = []"
  by (simp add: cstr_def Cons_nth_drop_Suc [symmetric])

lemma terminated_drop_index: "terminated (drop b str) \<Longrightarrow> b < length str"
  by (metis drop_all empty_iff not_le_imp_less list.set(1) terminated_def)

lemma cstr_drop_suffix:
  assumes "terminated s" and "i \<le> length (cstr s)"
  shows "cstr (drop i s) = drop i (cstr s) \<and> terminated (drop i s)"
  using assms(2)
proof (induction i)
  case (Suc i)
  then have i: "i < length (cstr s)" "s ! i \<noteq> 0" using cstr_nth [of i s] by auto
  then show ?case using Suc cstr_drop_Cons [of i s] by (metis Cons_nth_drop_Suc Suc_leD list.sel(3))
qed (simp add: assms(1))

lemma skip_sep_fields:
  assumes "sep \<noteq> 0" and "terminated (drop cur str)"
  shows "\<exists>b. skip_sep str cur sep = Some b \<and> cur \<le> b \<and> terminated (drop b str) \<and>
           str ! b \<noteq> sep \<and> cstr (drop b str) = dropWhile (\<lambda>c. c = sep) (cstr (drop cur str))"
  using assms(2)
proof (induction "length str - cur" arbitrary: cur rule: less_induct)
  case less
  note lt = terminated_drop_index [OF less.prems]
  show ?case
  proof (cases "str ! cur = sep")
    case True
    then have c: "cstr (drop cur str) = sep # cstr (drop (Suc cur) str)" "terminated (drop (Suc cur) str)"
      using cstr_drop_Cons [OF less.prems] assms(1) by auto
    have "length str - Suc cur < length str - cur" using lt by simp
    from less.hyps [OF this c(2)] obtain b where
      "skip_sep str (Suc cur) sep = Some b" "Suc cur \<le> b" "terminated (drop b str)"
      "str ! b \<noteq> sep" "cstr (drop b str) = dropWhile (\<lambda>c. c = sep) (cstr (drop (Suc cur) str))"
      by blast
    with True c lt show ?thesis by (simp add: skip_sep.simps [of str cur] mem_simps)
  next
    case False
    then have "dropWhile (\<lambda>c. c = sep) (cstr (drop cur str)) = cstr (drop cur str)"
      using cstr_drop_Cons [OF less.prems] cstr_drop_zero [OF lt] by (cases "str ! cur = 0") auto
    with False lt less.prems show ?thesis by (simp add: skip_sep.simps [of str cur] mem_simps)
  qed
qed

lemma find_sep_fields:
  assumes "terminated (drop cur str)"
  shows "\<exists>e. find_sep str cur sep = Some e \<and> cur \<le> e \<and> terminated (drop e str) \<and>
           (str ! e = 0 \<or> str ! e = sep) \<and>
           take (e - cur) (drop cur str) = takeWhile (\<lambda>c. c \<noteq> sep) (cstr (drop cur str)) \<and>
           cstr (drop e str) = dropWhile (\<lambda>c. c \<noteq> sep) (cstr (drop cur str))"
  using assms
proof (induction "length str - cur" arbitrary: cur rule: less_induct)
  case less
  note lt = terminated_drop_index [OF less.prems]
  show ?case
  proof (cases "str ! cur \<noteq> 0 \<and> str ! cur \<noteq> sep")
    case True
    then have c: "cstr (drop cur str) = str ! cur # cstr (drop (Suc cur) str)" "terminated (drop (Suc cur) str)"
      using cstr_drop_Cons [OF less.prems] by auto
    have "length str - Suc cur < length str - cur" using lt by simp
    from less.hyps [OF this c(2)] obtain e where
      e: "find_sep str (Suc cur) sep = Some e" "Suc cur \<le> e" "terminated (drop e str)"
      "str ! e = 0 \<or> str ! e = sep"
      "take (e - Suc cur) (drop (Suc cur) str) = takeWhile (\<lambda>c. c \<noteq> sep) (cstr (drop (Suc cur) str))"
      "cstr (drop e str) = dropWhile (\<lambda>c. c \<noteq> sep) (cstr (drop (Suc cur) str))"
      by blast
    have "take (e - cur) (drop cur str) = str ! cur # take (e - Suc cur) (drop (Suc cur) str)"
      using e(2) lt by (simp add: Cons_nth_drop_Suc [symmetric] take_Cons')
    with True c lt e show ?thesis by (simp add: find_sep.simps [of str cur] mem_simps)
  next
    case False
    then have "takeWhile (\<lambda>c. c \<noteq> sep) (cstr (drop cur str)) = [] \<and>
        dropWhile (\<lambda>c. c \<noteq> sep) (cstr (drop cur str)) = cstr (drop cur str)"
      using cstr_drop_Cons [OF less.prems] cstr_drop_zero [OF lt] by (cases "str ! cur = 0") auto
    with False lt less.prems show ?thesis by (auto simp: find_sep.simps [of str cur] mem_simps)
  qed
qed

text \<open>The string from a token on does not change once a zero byte has been stored behind it.\<close>

lemma cstr_token:
  assumes "b \<le> e" and "e < length str" and "0 \<notin> set (take (e - b) (drop b str))"
    and "length str' = length str" and "\<And>i. i < e \<Longrightarrow> str' ! i = str ! i" and "str' ! e = 0"
  shows "cstr (drop b str') = take (e - b) (drop b str)"
proof -
  have "take (e - b) (drop b str') = take (e - b) (drop b str)"
    using assms(1,2,4,5) by (intro nth_equalityI) auto
  moreover have "drop b str' = take (e - b) (drop b str') @ 0 # drop (Suc (e - b)) (drop b str')"
    using assms(1,2,4,6) id_take_nth_drop [of "e - b" "drop b str'"] by simp
  ultimately show ?thesis using assms(3) by (metis cstr_append_zero)
qed

lemma split_loop_fields:
  assumes "sep \<noteq> 0" and "terminated (drop cur str)"
  shows "\<exists>str' new. split_loop str cur sep tokens mx = Some (str', tokens @ new) \<and>
           length str' = length str \<and> (\<forall>i < length str. i < cur \<or> str ! i = 0 \<longrightarrow> str' ! i = str ! i) \<and>
           map (\<lambda>b. cstr (drop b str')) new = take (mx - length tokens) (fields sep (cstr (drop cur str)))"
  using assms(2)
proof (induction "length str - cur" arbitrary: cur str tokens rule: less_induct)
  case less
  note lt = terminated_drop_index [OF less.prems]
  show ?case
  proof (cases "str ! cur \<noteq> 0 \<and> length tokens < mx")
    case False
    then have "split_loop str cur sep tokens mx = Some (str, tokens @ [])"
      using lt by (subst split_loop.simps) (auto simp: mem_simps)
    moreover have "take (mx - length tokens) (fields sep (cstr (drop cur str))) = []"
      using False cstr_drop_zero [OF lt] by auto
    ultimately show ?thesis by (intro exI [of _ str] exI [of _ "[]"]) simp
  next
    case True
    obtain b where b: "skip_sep str cur sep = Some b" "cur \<le> b" "terminated (drop b str)" "str ! b \<noteq> sep"
      "cstr (drop b str) = dropWhile (\<lambda>c. c = sep) (cstr (drop cur str))"
      using skip_sep_fields [OF assms(1) less.prems] by blast
    note ltb = terminated_drop_index [OF b(3)]
    show ?thesis
    proof (cases "str ! b = 0")
      case zero: True
      then have "fields sep (cstr (drop cur str)) = []"
        using b(5) cstr_drop_zero [OF ltb] by (subst fields.simps) simp
      moreover have "split_loop str cur sep tokens mx = Some (str, tokens @ [])"
        using True zero b(1) lt ltb by (subst split_loop.simps) (simp add: mem_simps)
      ultimately show ?thesis by (intro exI [of _ str] exI [of _ "[]"]) simp
    next
      case nz: False
      obtain e where e: "find_sep str b sep = Some e" "b \<le> e" "terminated (drop e str)"
        "str ! e = 0 \<or> str ! e = sep"
        "take (e - b) (drop b str) = takeWhile (\<lambda>c. c \<noteq> sep) (cstr (drop b str))"
        "cstr (drop e str) = dropWhile (\<lambda>c. c \<noteq> sep) (cstr (drop b str))"
        using find_sep_fields [OF b(3), of sep] by blast
      note lte = terminated_drop_index [OF e(3)]
      have be: "b < e" using find_sep_gt [OF e(1) nz b(4)] .
      let ?tok = "take (e - b) (drop b str)"
      have nozero: "0 \<notin> set ?tok" using e(5) cstr_no_zero set_takeWhileD by metis
      have flds: "fields sep (cstr (drop cur str)) = ?tok # fields sep (cstr (drop e str))"
        using cstr_drop_Cons [OF b(3) nz] b(4,5) e(5,6)
        by (subst fields.simps) simp
      define str1 where "str1 = (if str ! e \<noteq> 0 then str[e := 0] else str)"
      define cur1 where "cur1 = (if str ! e \<noteq> 0 then Suc e else e)"
      have run: "split_loop str cur sep tokens mx = split_loop str1 cur1 sep (tokens @ [b]) mx"
        using True b(1) e(1) nz lt ltb lte
        by (subst split_loop.simps) (simp add: mem_simps str1_def cur1_def)
      have t1: "terminated (drop cur1 str1)" and f1: "fields sep (cstr (drop cur1 str1)) = fields sep (cstr (drop e str))"
        and len1: "length str1 = length str" and e0: "str1 ! e = 0" and pre: "\<And>i. i < e \<Longrightarrow> str1 ! i = str ! i"
        using cstr_drop_Cons [OF e(3)] e(3,4) lte
        by (auto simp: str1_def cur1_def fields_sep_Cons)
      have "length str1 - cur1 < length str - cur"
        using len1 be b(2) lt lte by (auto simp: cur1_def)
      from less.hyps [OF this t1, of "tokens @ [b]"] obtain str' new where
        ih: "split_loop str1 cur1 sep (tokens @ [b]) mx = Some (str', (tokens @ [b]) @ new)"
          "length str' = length str1" "\<forall>i < length str1. i < cur1 \<or> str1 ! i = 0 \<longrightarrow> str' ! i = str1 ! i"
          "map (\<lambda>b. cstr (drop b str')) new =
             take (mx - length (tokens @ [b])) (fields sep (cstr (drop cur1 str1)))"
        by blast
      have keep: "str' ! i = str1 ! i" if "i < length str" "i < e \<or> str1 ! i = 0" for i
        using ih(3) that len1 by (auto simp: cur1_def)
      have tok: "cstr (drop b str') = ?tok"
        using be lte nozero ih(2) len1 keep pre e0 by (intro cstr_token) auto
      have kept: "\<forall>i < length str. i < cur \<or> str ! i = 0 \<longrightarrow> str' ! i = str ! i"
      proof (intro allI impI)
        fix i assume i: "i < length str" and "i < cur \<or> str ! i = 0"
        then have "i < e \<or> str1 ! i = 0" and "str1 ! i = str ! i"
          using be b(2) lte pre by (auto simp: str1_def nth_list_update)
        with keep [OF i] show "str' ! i = str ! i" by simp
      qed
      have "map (\<lambda>b. cstr (drop b str')) (b # new) =
          take (mx - length tokens) (fields sep (cstr (drop cur str)))"
        using ih(4) tok flds f1 True by (simp add: take_Cons' [of "mx - length tokens"])
      then show ?thesis using run ih(1,2) len1 kept
        by (intro exI [of _ str'] exI [of _ "b # new"]) simp
    qed
  qed
qed

lemma split_str_fields:
  assumes "sep \<noteq> 0" and "terminated str"
  shows "\<exists>str' toks. split_str str sep mx = Some (str', toks) \<and> length str' = length str \<and>
           map (\<lambda>b. cstr (drop b str')) toks = take mx (fields sep (cstr str))"
  using split_loop_fields [OF assms(1), of 0 str "[]" mx] assms(2) by (auto simp: split_str_def)

section \<open>Properties\<close>



text \<open>
  C21: \<open>memmove\<close> is correct on overlapping regions: the destination receives the bytes the
  source held before the call, no other byte of the object changes, and no access leaves it.
\<close>

theorem memmove_correct:
  assumes "s + n \<le> length m" and "d + n \<le> length m"
  shows "\<exists>m'. memmove m d s n = Some m' \<and> length m' = length m \<and>
           take n (drop d m') = take n (drop s m) \<and>
           (\<forall>i < length m. i < d \<or> d + n \<le> i \<longrightarrow> m' ! i = m ! i)"
proof -
  let ?m = "blit m d (take n (drop s m))"
  have "take n (drop d ?m) = take n (drop s m)"
    using assms by (simp add: blit_def)
  moreover have "\<forall>i < length m. i < d \<or> d + n \<le> i \<longrightarrow> ?m ! i = m ! i"
    using assms by (auto simp: nth_blit)
  ultimately show ?thesis using assms by (auto simp: mem_simps)
qed

theorem memmove_correct_witness:
  "\<exists>m'. memmove [1, 2, 3, 4, 5] 1 0 4 = Some m' \<and> take 4 (drop 1 m') = [1, 2, 3, 4]"
proof -
  have h: "0 + 4 \<le> length [1 :: u8, 2, 3, 4, 5]" "1 + 4 \<le> length [1 :: u8, 2, 3, 4, 5]" by simp_all
  show ?thesis using memmove_correct [OF h] by auto
qed



text \<open>
  C4: \<open>split\<close> finds exactly the non-empty fields of the string, in order and at most
  \<open>max\<close> of them: each stored pointer is a terminated string of its own afterwards.
\<close>

theorem split_finds_fields:
  assumes "sep \<noteq> 0" and "terminated str"
  shows "\<exists>str' toks. split_str str sep mx = Some (str', toks) \<and> length str' = length str \<and>
           map (\<lambda>b. cstr (drop b str')) toks = take mx (fields sep (cstr str))"
  by (rule split_str_fields [OF assms])

theorem split_finds_fields_witness:
  "\<exists>str' toks. split_str [47, 97, 47, 47, 98, 99, 0] 47 8 = Some (str', toks) \<and>
     map (\<lambda>b. cstr (drop b str')) toks = [[97], [98, 99]]"
proof -
  have h: "(47 :: u8) \<noteq> 0" "terminated [47, 97, 47, 47, 98, 99, 0]" by (simp_all add: terminated_def)
  have f: "take 8 (fields 47 (cstr [47, 97, 47, 47, 98, 99, 0])) = [[97], [98, 99]]"
    by (simp add: cstr_def fields.simps)
  show ?thesis using split_finds_fields [OF h, of 8] unfolding f by fastforce
qed

text \<open>
  An unknown directive escapes the bound on the terminator: \<open>snprintf\<close> writes the two
  characters of the directive although only one fits before the terminator, and returns an
  unterminated buffer.
\<close>

theorem snprintf_unknown_directive_unterminated:
  "\<exists>str'. snprintf [1, 1] 2 [37, 120, 0] [] = Some (str', 2) \<and> \<not> terminated str'"
  by (simp add: snprintf_def snprintf_loop.simps sn_directive_def rd_def wr_def terminated_def)

text \<open>
  C6: \<open>%u\<close> goes through the signed \<open>itoa_buf\<close>, so an unsigned value from \<open>2 ^ 31\<close> on
  is printed with a minus sign.
\<close>

theorem snprintf_unsigned_prints_negative:
  assumes "2147483648 \<le> v" and "12 \<le> length str"
  shows "\<exists>str' n. snprintf str 12 [37, 117, 0] [VInt v] = Some (str', n) \<and> str' ! 0 = 45"
proof -
  have neg: "sint v < 0" using assms(1) by (simp add: sint_neg_iff)
  have f: "fmt_out (cstr [37, 117, 0]) [VInt v] = Some (itoa_str v)"
    by (simp add: cstr_def)
  have t: "terminated [37, 117, 0]" by (simp add: terminated_def)
  have "itoa_str v ! 0 = 45" "itoa_str v \<noteq> []" using neg by (simp_all add: itoa_str_def)
  moreover have "snprintf str 12 [37, 117, 0] [VInt v] =
      Some (blit str 0 (clip 12 (itoa_str v) @ [0]), length (clip 12 (itoa_str v)))"
    by (rule snprintf_blit [OF t _ assms(2) f]) simp
  moreover have "clip 12 (itoa_str v) = itoa_str v"
    using length_itoa_str [of v] by (simp add: clip_def)
  ultimately show ?thesis by (simp add: blit_def nth_append)
qed

theorem snprintf_unsigned_prints_negative_witness:
  "\<exists>str' n. snprintf (replicate 12 0) 12 [37, 117, 0] [VInt 4294967295] = Some (str', n) \<and> str' ! 0 = 45"
proof -
  have h: "2147483648 \<le> (4294967295 :: u32)" "12 \<le> length (replicate 12 (0 :: u8))" by simp_all
  show ?thesis by (rule snprintf_unsigned_prints_negative [OF h])
qed

end
