(* ===== verification/Sched.thy ===== *)
theory Sched
  imports Kstring
begin

text \<open>
  The task scheduler \<open>src/kernel/task/sched.c\<close>, the task state segment \<open>src/kernel/arch/tss.c\<close> and
  the timer interrupt \<open>src/kernel/arch/system_timer.c\<close>.  The task table is the list \<open>g_tasks\<close> of 8
  entries; the initial frames that \<open>sched_build_initial_frame\<close> writes to the kernel stacks are kept
  in \<open>frames\<close>, indexed by the address of the frame.  \<open>kstacks\<close> is the address of \<open>g_kstacks\<close>.
\<close>

section \<open>Definitions\<close>

datatype task_status = S_EMPTY | S_RUNNABLE | S_RUNNING | S_ZOMBIE

record task_t =
  pid :: u32
  tname :: "u8 list"
  tstate :: task_status
  saved_esp :: u32
  kstack_top :: u32
  kstack_bot :: u32
  entry :: u32
  user_esp :: u32

record regs_t =
  r_gs :: u32
  r_fs :: u32
  r_es :: u32
  r_ds :: u32
  r_edi :: u32
  r_esi :: u32
  r_ebp :: u32
  r_esp :: u32
  r_ebx :: u32
  r_edx :: u32
  r_ecx :: u32
  r_eax :: u32
  r_int_no :: u32
  r_err_code :: u32
  r_eip :: u32
  r_cs :: u32
  r_eflags :: u32
  r_useresp :: u32
  r_ss :: u32

text \<open>The fields of the TSS that the kernel sets; \<open>tss_init\<close> clears all the others.\<close>

record tss_t =
  esp0 :: u32
  ss0 :: u32
  trap :: u16
  iomap_base :: u16

definition tss_init :: tss_t where
  "tss_init = \<lparr>esp0 = 0, ss0 = 0x10, trap = 0, iomap_base = 104\<rparr>"

record sched_state =
  g_tasks :: "task_t list"
  frames :: "u32 \<Rightarrow> regs_t option"
  g_cur :: nat
  g_rr :: nat
  g_enabled :: bool
  g_next_pid :: u32
  sched_cur_esp :: u32
  sched_next_esp :: u32
  sched_force_switch :: u32
  sched_active :: bool
  g_tss :: tss_t
  timer_ticks :: u32

definition SCHED_MAX_TASKS :: nat where
  "SCHED_MAX_TASKS = 8"

definition SCHED_KSTACK_SIZE :: u32 where
  "SCHED_KSTACK_SIZE = 4096"

definition task_empty :: task_t where
  "task_empty = \<lparr>pid = 0, tname = replicate 16 0, tstate = S_EMPTY, saved_esp = 0, kstack_top = 0,
     kstack_bot = 0, entry = 0, user_esp = 0\<rparr>"

definition tss_set_kernel_esp0 :: "u32 \<Rightarrow> sched_state \<Rightarrow> sched_state" where
  "tss_set_kernel_esp0 esp s = s\<lparr>g_tss := (g_tss s)\<lparr>esp0 := esp\<rparr>\<rparr>"

function pick_runnable :: "sched_state \<Rightarrow> nat \<Rightarrow> nat option" where
  "pick_runnable s step =
     (if step < SCHED_MAX_TASKS then
        (let i = (g_rr s + step) mod SCHED_MAX_TASKS
         in if tstate (g_tasks s ! i) = S_RUNNABLE then Some i else pick_runnable s (Suc step))
      else None)"
  by pat_completeness auto
termination
  by (relation "measure (\<lambda>(s, step). SCHED_MAX_TASKS - step)") auto

function pick_live :: "sched_state \<Rightarrow> nat \<Rightarrow> nat option" where
  "pick_live s step =
     (if step < SCHED_MAX_TASKS then
        (let i = (g_rr s + step) mod SCHED_MAX_TASKS
         in if tstate (g_tasks s ! i) \<noteq> S_EMPTY \<and> tstate (g_tasks s ! i) \<noteq> S_ZOMBIE then Some i
            else pick_live s (Suc step))
      else None)"
  by pat_completeness auto
termination
  by (relation "measure (\<lambda>(s, step). SCHED_MAX_TASKS - step)") auto

definition sched_pick :: "sched_state \<Rightarrow> nat \<times> sched_state" where
  "sched_pick s =
     (case pick_runnable s 0 of
        Some i \<Rightarrow> (i, s\<lparr>g_rr := (i + 1) mod SCHED_MAX_TASKS\<rparr>)
      | None \<Rightarrow> (case pick_live s 0 of Some i \<Rightarrow> (i, s) | None \<Rightarrow> (g_cur s, s)))"

definition regs_zero :: regs_t where
  "regs_zero = \<lparr>r_gs = 0, r_fs = 0, r_es = 0, r_ds = 0, r_edi = 0, r_esi = 0, r_ebp = 0, r_esp = 0, r_ebx = 0,
     r_edx = 0, r_ecx = 0, r_eax = 0, r_int_no = 0, r_err_code = 0, r_eip = 0, r_cs = 0, r_eflags = 0,
     r_useresp = 0, r_ss = 0\<rparr>"

text \<open>The frame and its address; \<open>regs_t\<close> is 19 words long and \<open>gs\<close> is its first word.\<close>

definition sched_build_initial_frame :: "task_t \<Rightarrow> (u32 \<Rightarrow> regs_t option) \<Rightarrow> task_t \<times> (u32 \<Rightarrow> regs_t option)" where
  "sched_build_initial_frame t fs =
     (let fr = kstack_top t - 76;
          r = regs_zero\<lparr>r_gs := 0x2B, r_fs := 0x2B, r_es := 0x2B, r_ds := 0x2B, r_eip := entry t, r_cs := 0x23,
                r_eflags := 0x202, r_useresp := user_esp t, r_ss := 0x2B, r_esp := user_esp t\<rparr>
      in (t\<lparr>saved_esp := fr\<rparr>, fs(fr \<mapsto> r)))"

definition kernel_name :: "u8 list" where
  "kernel_name = [0x6B, 0x65, 0x72, 0x6E, 0x65, 0x6C, 0]"

definition sched_init :: "u32 \<Rightarrow> sched_state \<Rightarrow> (int \<times> sched_state) option" where
  "sched_init kstacks s =
     do {
       nm \<leftarrow> strcpy (tname task_empty) kernel_name;
       let t0 = task_empty\<lparr>pid := 0, tname := nm, tstate := S_RUNNING, saved_esp := 0, kstack_top := 0,
                  kstack_bot := 0, entry := 0, user_esp := 0\<rparr>;
       let s1 = s\<lparr>g_tasks := (replicate SCHED_MAX_TASKS task_empty)[0 := t0], g_cur := 0, g_rr := 1,
                  g_enabled := True, sched_active := True\<rparr>;
       Some (0, tss_set_kernel_esp0 (kstacks + SCHED_KSTACK_SIZE) s1) }"

function find_slot :: "sched_state \<Rightarrow> nat \<Rightarrow> int" where
  "find_slot s i =
     (if i < SCHED_MAX_TASKS then
        (if tstate (g_tasks s ! i) = S_EMPTY \<or> tstate (g_tasks s ! i) = S_ZOMBIE then int i else find_slot s (Suc i))
      else - 1)"
  by pat_completeness auto
termination
  by (relation "measure (\<lambda>(s, i). SCHED_MAX_TASKS - i)") auto

definition sched_add :: "u32 \<Rightarrow> sched_state \<Rightarrow> u8 list \<Rightarrow> u32 \<Rightarrow> u32 \<Rightarrow> (int \<times> sched_state) option" where
  "sched_add kstacks s name ent uesp =
     (let slot = find_slot s 0 in
      if slot < 0 then Some (- 1, s)
      else do {
        nm \<leftarrow> strncpy (tname task_empty) name 15;
        nm' \<leftarrow> wr nm 15 0;
        let bot = kstacks + of_int slot * SCHED_KSTACK_SIZE;
        let t = task_empty\<lparr>pid := g_next_pid s, tname := nm', tstate := S_RUNNABLE, kstack_bot := bot,
                  kstack_top := bot + SCHED_KSTACK_SIZE, entry := ent, user_esp := uesp\<rparr>;
        let (t', fs) = sched_build_initial_frame t (frames s);
        Some (sint (pid t'), s\<lparr>g_tasks := (g_tasks s)[nat slot := t'], frames := fs, g_next_pid := g_next_pid s + 1\<rparr>) })"

definition switch_to :: "nat \<Rightarrow> sched_state \<Rightarrow> sched_state" where
  "switch_to next_i s =
     (let next = (g_tasks s ! next_i)\<lparr>tstate := S_RUNNING\<rparr>;
          s1 = s\<lparr>g_tasks := (g_tasks s)[next_i := next]\<rparr>;
          s2 = (if kstack_top next \<noteq> 0 then tss_set_kernel_esp0 (kstack_top next) s1 else s1)
      in s2\<lparr>sched_next_esp := saved_esp next, g_cur := next_i\<rparr>)"

definition upd_task :: "nat \<Rightarrow> (task_t \<Rightarrow> task_t) \<Rightarrow> sched_state \<Rightarrow> sched_state" where
  "upd_task i f s = s\<lparr>g_tasks := (g_tasks s)[i := f (g_tasks s ! i)]\<rparr>"

definition sched_tick :: "sched_state \<Rightarrow> sched_state" where
  "sched_tick s =
     (if \<not> g_enabled s then s\<lparr>sched_next_esp := sched_cur_esp s\<rparr>
      else
        let s1 = upd_task (g_cur s) (\<lambda>t. t\<lparr>saved_esp := sched_cur_esp s\<rparr>) s;
            (next_i, s2) = sched_pick s1;
            cur = g_tasks s2 ! g_cur s
        in if next_i = g_cur s2 \<and> tstate cur = S_RUNNING then s2\<lparr>sched_next_esp := saved_esp cur\<rparr>
           else
             let s3 = (if tstate cur = S_RUNNING then upd_task (g_cur s2) (\<lambda>t. t\<lparr>tstate := S_RUNNABLE\<rparr>) s2 else s2)
             in switch_to next_i s3)"

definition sched_yield :: "sched_state \<Rightarrow> sched_state" where
  "sched_yield s =
     (if \<not> g_enabled s then s
      else
        let (next_i, s1) = sched_pick s
        in if next_i = g_cur s1 then s1
           else
             let s2 = upd_task (g_cur s1) (\<lambda>t. t\<lparr>saved_esp := sched_cur_esp s1, tstate := S_RUNNABLE\<rparr>) s1
             in (switch_to next_i s2)\<lparr>sched_force_switch := 1\<rparr>)"

text \<open>\<open>Halted\<close> is the endless \<open>hlt\<close> loop of \<open>sched_exit\<close>.\<close>

datatype 'a outcome = Returned 'a | Halted

definition sched_exit :: "sched_state \<Rightarrow> sched_state outcome" where
  "sched_exit s =
     (if \<not> g_enabled s then Returned s
      else
        let s1 = upd_task (g_cur s) (\<lambda>t. t\<lparr>tstate := S_ZOMBIE\<rparr>) s;
            (next_i, s2) = sched_pick s1
        in if next_i = g_cur s2 then Halted
           else Returned ((switch_to next_i s2)\<lparr>sched_force_switch := 1\<rparr>))"

definition sched_pid :: "sched_state \<Rightarrow> u32" where
  "sched_pid s = pid (g_tasks s ! g_cur s)"

fun count_tasks :: "task_t list \<Rightarrow> int" where
  "count_tasks [] = 0"
| "count_tasks (t # ts) = (if tstate t \<noteq> S_EMPTY then 1 else 0) + count_tasks ts"

definition sched_count :: "sched_state \<Rightarrow> int" where
  "sched_count s = count_tasks (g_tasks s)"

fun alive_in :: "task_t list \<Rightarrow> u32 \<Rightarrow> bool" where
  "alive_in [] p = False"
| "alive_in (t # ts) p = ((pid t = p \<and> tstate t \<noteq> S_EMPTY \<and> tstate t \<noteq> S_ZOMBIE) \<or> alive_in ts p)"

definition sched_alive :: "sched_state \<Rightarrow> u32 \<Rightarrow> bool" where
  "sched_alive s p = alive_in (g_tasks s) p"

definition timer_int :: "sched_state \<Rightarrow> sched_state" where
  "timer_int s = sched_tick (s\<lparr>timer_ticks := timer_ticks s + 1\<rparr>)"

text \<open>
  The timer interrupt as \<open>irq_common_stub\<close> of \<open>src/boot/irqs.s\<close> delivers it: the stack pointer of the
  interrupted task is stored in both variables before the handler runs, and the processor resumes
  at \<open>sched_next_esp\<close>.
\<close>

definition timer_irq :: "u32 \<Rightarrow> sched_state \<Rightarrow> sched_state" where
  "timer_irq esp s = timer_int (s\<lparr>sched_cur_esp := esp, sched_next_esp := esp\<rparr>)"

section \<open>Picking a task\<close>

declare pick_runnable.simps [simp del] pick_live.simps [simp del] find_slot.simps [simp del]

abbreviation status :: "sched_state \<Rightarrow> nat \<Rightarrow> task_status" where
  "status s i \<equiv> tstate (g_tasks s ! i)"

definition live :: "task_status \<Rightarrow> bool" where
  "live st \<longleftrightarrow> st \<noteq> S_EMPTY \<and> st \<noteq> S_ZOMBIE"

text \<open>How far task \<open>i\<close> is from the round-robin position.\<close>

definition rr_dist :: "sched_state \<Rightarrow> nat \<Rightarrow> nat" where
  "rr_dist s i = (i + 8 - g_rr s) mod 8"

lemma max_tasks [simp]: "SCHED_MAX_TASKS = 8"
  by (simp add: SCHED_MAX_TASKS_def)

lemma pick_runnable_spec:
  assumes "step \<le> 8" and "\<forall>k < step. status s ((g_rr s + k) mod 8) \<noteq> S_RUNNABLE"
  shows "case pick_runnable s step of
      Some i \<Rightarrow> \<exists>d < 8. i = (g_rr s + d) mod 8 \<and> status s i = S_RUNNABLE \<and>
                 (\<forall>k < d. status s ((g_rr s + k) mod 8) \<noteq> S_RUNNABLE)
    | None \<Rightarrow> \<forall>k < 8. status s ((g_rr s + k) mod 8) \<noteq> S_RUNNABLE"
  using assms
proof (induction s step rule: pick_runnable.induct)
  case (1 s step)
  show ?case
  proof (cases "step < 8")
    case True
    show ?thesis
    proof (cases "status s ((g_rr s + step) mod 8) = S_RUNNABLE")
      case found: True
      then have "pick_runnable s step = Some ((g_rr s + step) mod 8)"
        using True by (subst pick_runnable.simps) simp
      then show ?thesis using found True "1.prems"(2) by auto
    next
      case False
      then have "pick_runnable s step = pick_runnable s (Suc step)"
        using True by (subst pick_runnable.simps) simp
      moreover have "\<forall>k < Suc step. status s ((g_rr s + k) mod 8) \<noteq> S_RUNNABLE"
        using False "1.prems"(2) by (simp add: less_Suc_eq)
      ultimately show ?thesis using "1.IH" [of "(g_rr s + step) mod 8"] True False by simp
    qed
  next
    case False
    then have "step = 8" using "1.prems"(1) by simp
    then show ?thesis using "1.prems"(2) by (subst pick_runnable.simps) simp
  qed
qed

lemma pick_live_spec:
  "case pick_live s step of
     Some i \<Rightarrow> i < 8 \<and> live (status s i)
   | None \<Rightarrow> \<forall>k. step \<le> k \<and> k < 8 \<longrightarrow> \<not> live (status s ((g_rr s + k) mod 8))"
proof (induction s step rule: pick_live.induct)
  case (1 s step)
  let ?i = "(g_rr s + step) mod 8"
  show ?case
  proof (cases "step < 8 \<and> \<not> live (status s ?i)")
    case True
    have eq: "pick_live s step = pick_live s (Suc step)"
      using True by (subst pick_live.simps) (auto simp: live_def)
    have "step \<le> k \<longleftrightarrow> k = step \<or> Suc step \<le> k" for k by auto
    moreover have "case pick_live s (Suc step) of
        Some i \<Rightarrow> i < 8 \<and> live (status s i)
      | None \<Rightarrow> \<forall>k. Suc step \<le> k \<and> k < 8 \<longrightarrow> \<not> live (status s ((g_rr s + k) mod 8))"
      using "1.IH" [of ?i] True by (auto simp: live_def)
    ultimately show ?thesis unfolding eq using True by (auto split: option.splits)
  next
    case False
    then show ?thesis by (subst pick_live.simps) (auto simp: live_def)
  qed
qed

lemma rr_cover:
  assumes "i < 8" and "g_rr s < 8"
  shows "(g_rr s + rr_dist s i) mod 8 = i" and "rr_dist s i < 8"
proof -
  show "(g_rr s + rr_dist s i) mod 8 = i"
    unfolding rr_dist_def mod_add_right_eq using assms by (cases "g_rr s \<le> i") auto
qed (simp add: rr_dist_def)

lemma rr_dist_add: "d < 8 \<Longrightarrow> g_rr s < 8 \<Longrightarrow> rr_dist s ((g_rr s + d) mod 8) = d"
  by (cases "g_rr s + d < 8") (simp_all add: rr_dist_def mod_if)

lemma pick_runnable_some:
  assumes "i < 8" and "g_rr s < 8" and "status s i = S_RUNNABLE"
  obtains j where "pick_runnable s 0 = Some j" and "j < 8" and "status s j = S_RUNNABLE" and "rr_dist s j \<le> rr_dist s i"
proof -
  have c: "(g_rr s + rr_dist s i) mod 8 = i" "rr_dist s i < 8" using rr_cover [OF assms(1,2)] by auto
  then have "pick_runnable s 0 \<noteq> None" using pick_runnable_spec [where s = s and step = 0] assms(3) by (auto split: option.splits)
  then obtain j where j: "pick_runnable s 0 = Some j" by auto
  then obtain d where d: "d < 8" "j = (g_rr s + d) mod 8" "status s j = S_RUNNABLE"
    "\<forall>k < d. status s ((g_rr s + k) mod 8) \<noteq> S_RUNNABLE"
    using pick_runnable_spec [where s = s and step = 0] by auto
  have "d \<le> rr_dist s i" using d(4) c(1) assms(3) by (metis not_less)
  then show thesis using that [OF j] d rr_dist_add [OF d(1) assms(2)] by simp
qed

lemma pick_runnable_none:
  assumes "g_rr s < 8" and "pick_runnable s 0 = None" and "i < 8"
  shows "status s i \<noteq> S_RUNNABLE"
  using assms by (metis option.distinct(1) pick_runnable_some)

section \<open>The invariant\<close>

definition sched_inv :: "sched_state \<Rightarrow> bool" where
  "sched_inv s \<longleftrightarrow> length (g_tasks s) = 8 \<and> g_cur s < 8 \<and> g_rr s < 8 \<and> g_enabled s \<and>
     (\<forall>i < 8. status s i = S_RUNNING \<longleftrightarrow> i = g_cur s)"

lemma sched_pick_spec:
  assumes "length (g_tasks s) = 8" and "g_rr s < 8" and "g_cur s < 8"
  shows "\<exists>i rr. sched_pick s = (i, s\<lparr>g_rr := rr\<rparr>) \<and> i < 8 \<and> rr < 8 \<and>
    (if \<exists>j < 8. status s j = S_RUNNABLE
     then status s i = S_RUNNABLE \<and> rr = (i + 1) mod 8 \<and> (\<forall>j < 8. status s j = S_RUNNABLE \<longrightarrow> rr_dist s i \<le> rr_dist s j)
     else rr = g_rr s \<and> (if \<exists>j < 8. live (status s j) then live (status s i) else i = g_cur s))"
proof (cases "\<exists>j < 8. status s j = S_RUNNABLE")
  case True
  then obtain i where i: "pick_runnable s 0 = Some i" "i < 8" "status s i = S_RUNNABLE"
    using pick_runnable_some [OF _ assms(2)] by metis
  have "rr_dist s i \<le> rr_dist s j" if "j < 8" "status s j = S_RUNNABLE" for j
    using pick_runnable_some [OF that(1) assms(2) that(2)] i(1) by auto
  then show ?thesis using i True by (auto simp: sched_pick_def)
next
  case False
  have n: "pick_runnable s 0 = None"
  proof (cases "pick_runnable s 0")
    case (Some i)
    then have "i < 8" "status s i = S_RUNNABLE" using pick_runnable_spec [where s = s and step = 0] by auto
    with False show ?thesis by blast
  qed
  show ?thesis
  proof (cases "pick_live s 0")
    case None
    then have "\<not> live (status s j)" if "j < 8" for j
      using pick_live_spec [where s = s and step = 0] rr_cover [OF that assms(2)] by (auto split: option.splits)
    then show ?thesis using n None False assms by (auto simp: sched_pick_def intro!: exI [of _ "g_cur s"] exI [of _ "g_rr s"])
  next
    case (Some i)
    then show ?thesis using n False assms(2) pick_live_spec [where s = s and step = 0]
      by (auto simp: sched_pick_def intro!: exI [of _ i] exI [of _ "g_rr s"])
  qed
qed

lemma switch_to_simps:
  assumes "length (g_tasks s) = 8" and "i < 8"
  shows "g_tasks (switch_to i s) = (g_tasks s)[i := (g_tasks s ! i)\<lparr>tstate := S_RUNNING\<rparr>]"
    and "g_cur (switch_to i s) = i" and "sched_next_esp (switch_to i s) = saved_esp (g_tasks s ! i)"
    and "g_rr (switch_to i s) = g_rr s" and "g_enabled (switch_to i s) = g_enabled s"
    and "g_next_pid (switch_to i s) = g_next_pid s" and "frames (switch_to i s) = frames s"
    and "kstack_top (g_tasks s ! i) \<noteq> 0 \<Longrightarrow> esp0 (g_tss (switch_to i s)) = kstack_top (g_tasks s ! i)"
  by (simp_all add: switch_to_def tss_set_kernel_esp0_def Let_def)

text \<open>
  What a tick does when some task is runnable: it saves the stack pointer of the current task, makes
  it runnable and switches to the next runnable task.
\<close>

definition preempted :: "u32 \<Rightarrow> sched_state \<Rightarrow> task_t list" where
  "preempted esp s = (g_tasks s)[g_cur s := (g_tasks s ! g_cur s)\<lparr>saved_esp := esp, tstate := S_RUNNABLE\<rparr>]"

lemma timer_irq_switch:
  assumes inv: "sched_inv s" and r: "\<exists>j < 8. status s j = S_RUNNABLE"
  shows "\<exists>i < 8. status s i = S_RUNNABLE \<and> (\<forall>j < 8. status s j = S_RUNNABLE \<longrightarrow> rr_dist s i \<le> rr_dist s j) \<and>
    g_tasks (timer_irq esp s) = (preempted esp s)[i := (g_tasks s ! i)\<lparr>tstate := S_RUNNING\<rparr>] \<and>
    g_cur (timer_irq esp s) = i \<and> g_rr (timer_irq esp s) = (i + 1) mod 8 \<and> g_enabled (timer_irq esp s) \<and>
    sched_next_esp (timer_irq esp s) = saved_esp (g_tasks s ! i) \<and>
    (kstack_top (g_tasks s ! i) \<noteq> 0 \<longrightarrow> esp0 (g_tss (timer_irq esp s)) = kstack_top (g_tasks s ! i))"
proof -
  let ?c = "g_cur s"
  let ?s1 = "upd_task ?c (\<lambda>t. t\<lparr>saved_esp := esp\<rparr>) (s\<lparr>sched_cur_esp := esp, sched_next_esp := esp, timer_ticks := timer_ticks s + 1\<rparr>)"
  have inv': "length (g_tasks s) = 8" "?c < 8" "g_rr s < 8" "g_enabled s" "\<forall>i < 8. status s i = S_RUNNING \<longleftrightarrow> i = ?c"
    using inv by (auto simp: sched_inv_def)
  have st: "status ?s1 j = status s j" if "j < 8" for j
    using that inv' by (auto simp: upd_task_def nth_list_update)
  have st1: "length (g_tasks ?s1) = 8" "g_rr ?s1 = g_rr s" "g_cur ?s1 = ?c" "rr_dist ?s1 j = rr_dist s j" for j
    using inv' by (simp_all add: upd_task_def rr_dist_def)
  obtain i where i: "sched_pick ?s1 = (i, ?s1\<lparr>g_rr := (i + 1) mod 8\<rparr>)" "i < 8" "status s i = S_RUNNABLE"
    "\<forall>j < 8. status s j = S_RUNNABLE \<longrightarrow> rr_dist s i \<le> rr_dist s j"
    using sched_pick_spec [of ?s1] r inv' st st1 by (auto split: if_splits)
  have ne: "i \<noteq> ?c" using i(2,3) inv'(5) by auto
  let ?s2 = "upd_task ?c (\<lambda>t. t\<lparr>tstate := S_RUNNABLE\<rparr>) (?s1\<lparr>g_rr := (i + 1) mod 8\<rparr>)"
  have eq: "timer_irq esp s = switch_to i ?s2"
    using i(1) ne inv' st [OF inv'(2)]
    by (simp add: timer_irq_def timer_int_def sched_tick_def Let_def) (simp add: upd_task_def)
  have ts: "g_tasks ?s2 = preempted esp s" "g_tasks ?s2 ! i = g_tasks s ! i" "length (g_tasks ?s2) = 8"
    using inv' ne by (simp_all add: upd_task_def preempted_def)
  show ?thesis
    unfolding eq using i(2-4) ts switch_to_simps [OF ts(3) i(2)] inv'
    by (intro exI [of _ i]) (simp add: upd_task_def)
qed

lemma sched_inv_switch:
  assumes "sched_inv s" and "i < 8" and "status s i = S_RUNNABLE" and "length (g_tasks s') = 8"
    and "\<forall>j < 8. status s' j = (if j = i then S_RUNNING else if j = g_cur s then x else status s j)"
    and "x \<noteq> S_RUNNING" and "g_cur s' = i" and "g_rr s' < 8" and "g_enabled s'"
  shows "sched_inv s'"
  using assms by (auto simp: sched_inv_def)

lemma timer_irq_idle:
  assumes "sched_inv s" and no: "\<not> (\<exists>j < 8. status s j = S_RUNNABLE)"
  shows "timer_irq esp s = upd_task (g_cur s) (\<lambda>t. t\<lparr>saved_esp := esp\<rparr>)
      (s\<lparr>sched_cur_esp := esp, sched_next_esp := esp, timer_ticks := timer_ticks s + 1\<rparr>)"
proof -
  let ?s1 = "upd_task (g_cur s) (\<lambda>t. t\<lparr>saved_esp := esp\<rparr>) (s\<lparr>sched_cur_esp := esp, sched_next_esp := esp, timer_ticks := timer_ticks s + 1\<rparr>)"
  have inv: "length (g_tasks s) = 8" "g_cur s < 8" "g_rr s < 8" "g_enabled s" "\<forall>i < 8. status s i = S_RUNNING \<longleftrightarrow> i = g_cur s"
    using assms(1) by (auto simp: sched_inv_def)
  have st: "status ?s1 j = status s j" if "j < 8" for j
    using that inv by (auto simp: upd_task_def nth_list_update)
  have st1: "length (g_tasks ?s1) = 8" "g_rr ?s1 = g_rr s" "g_cur ?s1 = g_cur s" using inv by (simp_all add: upd_task_def)
  have l: "live (status s j) \<longleftrightarrow> j = g_cur s" if "j < 8" for j
    using that no inv(5) by (cases "status s j") (auto simp: live_def)
  have "sched_pick ?s1 = (g_cur s, ?s1\<lparr>g_rr := g_rr s\<rparr>)"
    using sched_pick_spec [of ?s1] no inv st st1 l by (auto split: if_splits)
  then show ?thesis
    using inv by (simp add: timer_irq_def timer_int_def sched_tick_def Let_def) (simp add: upd_task_def)
qed

lemma timer_irq_inv:
  assumes "sched_inv s"
  shows "sched_inv (timer_irq esp s)"
proof (cases "\<exists>j < 8. status s j = S_RUNNABLE")
  case True
  obtain i where i: "i < 8" "status s i = S_RUNNABLE"
    "g_tasks (timer_irq esp s) = (preempted esp s)[i := (g_tasks s ! i)\<lparr>tstate := S_RUNNING\<rparr>]"
    "g_cur (timer_irq esp s) = i" "g_rr (timer_irq esp s) = (i + 1) mod 8" "g_enabled (timer_irq esp s)"
    using timer_irq_switch [OF assms True, of esp] by blast
  show ?thesis
    by (rule sched_inv_switch [OF assms i(1,2), where x = S_RUNNABLE])
      (use i assms in \<open>auto simp: preempted_def nth_list_update sched_inv_def\<close>)
next
  case False
  then show ?thesis using assms timer_irq_idle [OF assms False]
    by (auto simp: sched_inv_def upd_task_def nth_list_update)
qed

lemma sched_pick_running:
  assumes "sched_inv s"
  shows "\<exists>i rr. sched_pick s = (i, s\<lparr>g_rr := rr\<rparr>) \<and> i < 8 \<and> rr < 8 \<and> (i = g_cur s \<or> status s i = S_RUNNABLE)"
proof -
  have inv: "length (g_tasks s) = 8" "g_cur s < 8" "g_rr s < 8" "\<forall>i < 8. status s i = S_RUNNING \<longleftrightarrow> i = g_cur s"
    using assms by (auto simp: sched_inv_def)
  have "status s (g_cur s) = S_RUNNING" using inv(2,4) by blast
  then have ex: "\<exists>j < 8. live (status s j)" using inv(2) by (auto simp: live_def)
  obtain i rr where i: "sched_pick s = (i, s\<lparr>g_rr := rr\<rparr>)" "i < 8" "rr < 8" and
    F: "if \<exists>j < 8. status s j = S_RUNNABLE
     then status s i = S_RUNNABLE \<and> rr = (i + 1) mod 8 \<and> (\<forall>j < 8. status s j = S_RUNNABLE \<longrightarrow> rr_dist s i \<le> rr_dist s j)
     else rr = g_rr s \<and> (if \<exists>j < 8. live (status s j) then live (status s i) else i = g_cur s)"
    using sched_pick_spec [OF inv(1,3,2)] by blast
  have "i = g_cur s \<or> status s i = S_RUNNABLE"
  proof (cases "\<exists>j < 8. status s j = S_RUNNABLE")
    case True
    then show ?thesis using F by simp
  next
    case False
    have "live (status s i)" using F unfolding if_not_P [OF False] if_P [OF ex] by blast
    then show ?thesis using inv(4) i(2) by (cases "status s i") (auto simp: live_def)
  qed
  then show ?thesis using i by blast
qed

lemma sched_yield_eq:
  assumes "sched_inv s"
  shows "(\<exists>rr < 8. sched_yield s = s\<lparr>g_rr := rr\<rparr>) \<or>
    (\<exists>i < 8. \<exists>rr < 8. i \<noteq> g_cur s \<and> status s i = S_RUNNABLE \<and> sched_yield s =
       (switch_to i (upd_task (g_cur s) (\<lambda>t. t\<lparr>saved_esp := sched_cur_esp s, tstate := S_RUNNABLE\<rparr>) (s\<lparr>g_rr := rr\<rparr>)))
         \<lparr>sched_force_switch := 1\<rparr>)"
proof -
  obtain i rr where i: "sched_pick s = (i, s\<lparr>g_rr := rr\<rparr>)" "i < 8" "rr < 8" "i = g_cur s \<or> status s i = S_RUNNABLE"
    using sched_pick_running [OF assms] by blast
  then show ?thesis using assms by (cases "i = g_cur s") (auto simp: sched_yield_def sched_inv_def)
qed

lemma sched_yield_inv:
  assumes "sched_inv s"
  shows "sched_inv (sched_yield s)"
  using sched_yield_eq [OF assms]
proof (elim disjE exE conjE)
  fix i rr
  let ?s2 = "upd_task (g_cur s) (\<lambda>t. t\<lparr>saved_esp := sched_cur_esp s, tstate := S_RUNNABLE\<rparr>) (s\<lparr>g_rr := rr\<rparr>)"
  assume i: "i < 8" "rr < 8" "i \<noteq> g_cur s" "status s i = S_RUNNABLE"
    and eq: "sched_yield s = (switch_to i ?s2)\<lparr>sched_force_switch := 1\<rparr>"
  have inv: "length (g_tasks s) = 8" "g_cur s < 8" "g_enabled s" using assms by (auto simp: sched_inv_def)
  then have l: "length (g_tasks ?s2) = 8" by (simp add: upd_task_def)
  show ?thesis unfolding eq
    by (rule sched_inv_switch [OF assms i(1,4), where x = S_RUNNABLE])
      (use i inv switch_to_simps [OF l i(1)] in \<open>auto simp: upd_task_def nth_list_update\<close>)
qed (use assms in \<open>simp add: sched_inv_def\<close>)

text \<open>A task that exits hands the processor to another live task if there is one.\<close>

lemma sched_exit_spec:
  assumes "sched_inv s"
  shows "(\<exists>i s'. sched_exit s = Returned s' \<and> i < 8 \<and> i \<noteq> g_cur s \<and> status s i = S_RUNNABLE \<and> sched_inv s' \<and>
           g_cur s' = i \<and> status s' (g_cur s) = S_ZOMBIE \<and> sched_next_esp s' = saved_esp (g_tasks s ! i) \<and>
           g_next_pid s' = g_next_pid s \<and> (\<forall>j < 8. pid (g_tasks s' ! j) = pid (g_tasks s ! j)) \<and>
           (\<forall>j < 8. j \<noteq> g_cur s \<and> j \<noteq> i \<longrightarrow> g_tasks s' ! j = g_tasks s ! j)) \<or>
         (sched_exit s = Halted \<and> (\<forall>j < 8. j \<noteq> g_cur s \<longrightarrow> \<not> live (status s j)))"
proof -
  have inv: "length (g_tasks s) = 8" "g_cur s < 8" "g_rr s < 8" "g_enabled s" "\<forall>i < 8. status s i = S_RUNNING \<longleftrightarrow> i = g_cur s"
    using assms by (auto simp: sched_inv_def)
  let ?s1 = "upd_task (g_cur s) (\<lambda>t. t\<lparr>tstate := S_ZOMBIE\<rparr>) s"
  have st: "status ?s1 j = (if j = g_cur s then S_ZOMBIE else status s j)" if "j < 8" for j
    using that inv by (auto simp: upd_task_def nth_list_update)
  have l1: "length (g_tasks ?s1) = 8" "g_rr ?s1 < 8" "g_cur ?s1 < 8" "g_cur ?s1 = g_cur s"
    using inv by (simp_all add: upd_task_def)
  have run: "live (status s j) \<Longrightarrow> j \<noteq> g_cur s \<Longrightarrow> j < 8 \<Longrightarrow> status s j = S_RUNNABLE" for j
    using inv(5) by (cases "status s j") (auto simp: live_def)
  show ?thesis
  proof (cases "\<exists>j < 8. j \<noteq> g_cur s \<and> live (status s j)")
    case True
    then have "\<exists>j < 8. status ?s1 j = S_RUNNABLE" using st run by auto
    then obtain i rr where i: "sched_pick ?s1 = (i, ?s1\<lparr>g_rr := rr\<rparr>)" "i < 8" "rr < 8" "status ?s1 i = S_RUNNABLE"
      using sched_pick_spec [OF l1(1-3)] by auto
    then have ne: "i \<noteq> g_cur s" "status s i = S_RUNNABLE" using st by (auto split: if_splits)
    let ?s' = "(switch_to i (?s1\<lparr>g_rr := rr\<rparr>))\<lparr>sched_force_switch := 1\<rparr>"
    have l: "length (g_tasks (?s1\<lparr>g_rr := rr\<rparr>)) = 8" using l1 by simp
    note sw = switch_to_simps [OF l i(2)]
    have "sched_inv ?s'"
      by (rule sched_inv_switch [OF assms i(2) ne(2), where x = S_ZOMBIE])
        (use ne i inv sw in \<open>auto simp: upd_task_def nth_list_update\<close>)
    moreover have "sched_exit s = Returned ?s'" using i(1) ne inv(4) l1(4) by (simp add: sched_exit_def Let_def)
    ultimately show ?thesis using ne i(2) sw inv
      by (intro disjI1 exI [of _ i] exI [of _ ?s']) (auto simp: upd_task_def nth_list_update)
  next
    case False
    then have n: "\<not> (\<exists>j < 8. live (status ?s1 j))" using st by (auto simp: live_def)
    then have "\<not> (\<exists>j < 8. status ?s1 j = S_RUNNABLE)" by (auto simp: live_def)
    then have "sched_pick ?s1 = (g_cur s, ?s1\<lparr>g_rr := g_rr ?s1\<rparr>)"
      using sched_pick_spec [OF l1(1-3)] l1(4) n by (auto simp only: if_not_P if_False)
    then have "sched_exit s = Halted" using inv(4) l1(4) by (simp add: sched_exit_def)
    with False show ?thesis by blast
  qed
qed

section \<open>Adding tasks\<close>

lemma find_slot_spec:
  "(find_slot s i = - 1 \<and> (\<forall>j. i \<le> j \<and> j < 8 \<longrightarrow> live (status s j))) \<or>
   (\<exists>j. find_slot s i = int j \<and> i \<le> j \<and> j < 8 \<and> \<not> live (status s j) \<and> (\<forall>k. i \<le> k \<and> k < j \<longrightarrow> live (status s k)))"
proof (induction s i rule: find_slot.induct)
  case (1 s i)
  show ?case
  proof (cases "i < 8 \<and> live (status s i)")
    case True
    then have "find_slot s i = find_slot s (Suc i)" by (subst find_slot.simps) (auto simp: live_def)
    moreover have "i \<le> j \<longleftrightarrow> j = i \<or> Suc i \<le> j" for j by auto
    ultimately show ?thesis using "1.IH" True by (simp add: live_def) blast
  next
    case False
    then show ?thesis by (subst (1 2) find_slot.simps) (auto simp: live_def)
  qed
qed

definition ring3_frame :: "u32 \<Rightarrow> u32 \<Rightarrow> regs_t" where
  "ring3_frame ent uesp = \<lparr>r_gs = 0x2B, r_fs = 0x2B, r_es = 0x2B, r_ds = 0x2B, r_edi = 0, r_esi = 0, r_ebp = 0,
     r_esp = uesp, r_ebx = 0, r_edx = 0, r_ecx = 0, r_eax = 0, r_int_no = 0, r_err_code = 0, r_eip = ent,
     r_cs = 0x23, r_eflags = 0x202, r_useresp = uesp, r_ss = 0x2B\<rparr>"

lemma sched_add_eq:
  assumes "0 \<le> find_slot s 0" and "strncpy (replicate 16 0) name 15 = Some nm" and "length nm = 16"
    and "ktop = kstacks + of_int (find_slot s 0) * 4096 + 4096"
  shows "sched_add kstacks s name ent uesp =
    Some (sint (g_next_pid s), s\<lparr>g_tasks := (g_tasks s)[nat (find_slot s 0) :=
        \<lparr>pid = g_next_pid s, tname = nm[15 := 0], tstate = S_RUNNABLE, saved_esp = ktop - 76, kstack_top = ktop,
         kstack_bot = ktop - 4096, entry = ent, user_esp = uesp\<rparr>],
      frames := (frames s)(ktop - 76 \<mapsto> ring3_frame ent uesp), g_next_pid := g_next_pid s + 1\<rparr>)"
  using assms by (simp add: sched_add_def task_empty_def wr_def sched_build_initial_frame_def regs_zero_def
      ring3_frame_def SCHED_KSTACK_SIZE_def Let_def)

text \<open>Live tasks have distinct pids, all of them handed out already.\<close>

definition pids_ok :: "sched_state \<Rightarrow> bool" where
  "pids_ok s \<longleftrightarrow> (\<forall>i < 8. live (status s i) \<longrightarrow> pid (g_tasks s ! i) < g_next_pid s) \<and>
     (\<forall>i < 8. \<forall>j < 8. live (status s i) \<and> live (status s j) \<and> pid (g_tasks s ! i) = pid (g_tasks s ! j) \<longrightarrow> i = j)"

lemma pids_ok_mono:
  assumes "pids_ok s" and "g_next_pid s' = g_next_pid s"
    and "\<forall>j < 8. pid (g_tasks s' ! j) = pid (g_tasks s ! j) \<and> (live (status s' j) \<longrightarrow> live (status s j))"
  shows "pids_ok s'"
  using assms unfolding pids_ok_def by auto

lemma timer_irq_pids:
  assumes "sched_inv s" and "pids_ok s"
  shows "pids_ok (timer_irq esp s)"
proof (rule pids_ok_mono [OF assms(2)])
  show "g_next_pid (timer_irq esp s) = g_next_pid s"
    by (auto simp: timer_irq_def timer_int_def sched_tick_def switch_to_def tss_set_kernel_esp0_def upd_task_def
        sched_pick_def Let_def split: option.splits)
  have inv: "length (g_tasks s) = 8" "g_cur s < 8" "\<forall>i < 8. status s i = S_RUNNING \<longleftrightarrow> i = g_cur s"
    using assms(1) by (auto simp: sched_inv_def)
  then have "live (status s (g_cur s))" by (metis live_def task_status.distinct(3,11))
  then show "\<forall>j < 8. pid (g_tasks (timer_irq esp s) ! j) = pid (g_tasks s ! j) \<and>
      (live (status (timer_irq esp s) j) \<longrightarrow> live (status s j))"
    using timer_irq_switch [OF assms(1), of esp] timer_irq_idle [OF assms(1), of esp] inv
    by (cases "\<exists>j < 8. status s j = S_RUNNABLE")
      (auto simp: preempted_def upd_task_def nth_list_update live_def split: if_splits)
qed

lemma sched_yield_pids:
  assumes "sched_inv s" and "pids_ok s"
  shows "pids_ok (sched_yield s)"
  using sched_yield_eq [OF assms(1)]
proof (elim disjE exE conjE)
  fix i rr
  let ?s2 = "upd_task (g_cur s) (\<lambda>t. t\<lparr>saved_esp := sched_cur_esp s, tstate := S_RUNNABLE\<rparr>) (s\<lparr>g_rr := rr\<rparr>)"
  assume i: "i < 8" "rr < 8" "i \<noteq> g_cur s" "status s i = S_RUNNABLE"
    and eq: "sched_yield s = (switch_to i ?s2)\<lparr>sched_force_switch := 1\<rparr>"
  have inv: "length (g_tasks s) = 8" "g_cur s < 8" "\<forall>i < 8. status s i = S_RUNNING \<longleftrightarrow> i = g_cur s"
    using assms(1) by (auto simp: sched_inv_def)
  have "status s (g_cur s) = S_RUNNING" using inv by blast
  moreover have l: "length (g_tasks ?s2) = 8" using inv by (simp add: upd_task_def)
  ultimately show ?thesis unfolding eq
    by (intro pids_ok_mono [OF assms(2)])
      (use i inv switch_to_simps [OF l i(1)] in \<open>auto simp: upd_task_def nth_list_update live_def\<close>)
qed (use assms in \<open>simp add: pids_ok_def\<close>)

lemma sched_exit_pids:
  assumes "sched_inv s" and "pids_ok s" and "sched_exit s = Returned s'"
  shows "pids_ok s'"
proof -
  obtain i where i: "i < 8" "i \<noteq> g_cur s" "status s i = S_RUNNABLE" "status s' (g_cur s) = S_ZOMBIE"
    "g_next_pid s' = g_next_pid s" "\<forall>j < 8. pid (g_tasks s' ! j) = pid (g_tasks s ! j)"
    "\<forall>j < 8. j \<noteq> g_cur s \<and> j \<noteq> i \<longrightarrow> g_tasks s' ! j = g_tasks s ! j"
    using sched_exit_spec [OF assms(1)] assms(3) by auto
  have "live (status s j)" if "j < 8" "live (status s' j)" for j
    using that i by (cases "j = g_cur s"; cases "j = i") (auto simp: live_def)
  then show ?thesis using i(5,6) by (intro pids_ok_mono [OF assms(2)]) auto
qed

definition sched_added :: "u32 \<Rightarrow> sched_state \<Rightarrow> sched_state \<Rightarrow> u32 \<Rightarrow> u32 \<Rightarrow> bool" where
  "sched_added kstacks s s' ent uesp \<longleftrightarrow> (\<exists>i < 8. \<not> live (status s i) \<and> (\<forall>j < i. live (status s j)) \<and>
     (\<forall>j < 8. j \<noteq> i \<longrightarrow> g_tasks s' ! j = g_tasks s ! j) \<and>
     (let t = g_tasks s' ! i in pid t = g_next_pid s \<and> tstate t = S_RUNNABLE \<and>
        kstack_bot t = kstacks + of_nat i * 4096 \<and> kstack_top t = kstack_bot t + 4096 \<and>
        length (tname t) = 16 \<and> tname t ! 15 = 0 \<and> frames s' (saved_esp t) = Some (ring3_frame ent uesp)))"

lemma sched_add_spec:
  assumes "sched_inv s" and "terminated name"
  shows "(\<exists>s'. sched_add kstacks s name ent uesp = Some (sint (g_next_pid s), s') \<and> sched_inv s' \<and>
            g_next_pid s' = g_next_pid s + 1 \<and> sched_added kstacks s s' ent uesp) \<or>
         (sched_add kstacks s name ent uesp = Some (- 1, s) \<and> (\<forall>j < 8. live (status s j)))"
proof (cases "\<forall>j < 8. live (status s j)")
  case True
  then have "find_slot s 0 = - 1" using find_slot_spec [of s 0] by auto
  then show ?thesis using True by (simp add: sched_add_def)
next
  case False
  then obtain i where i: "find_slot s 0 = int i" "i < 8" "\<not> live (status s i)" "\<forall>k < i. live (status s k)"
    using find_slot_spec [of s 0] by auto
  obtain nm where nm: "strncpy (replicate 16 0) name 15 = Some nm" "length nm = 16"
    using strncpy_blit [OF assms(2), of 15 "replicate 16 0"] by (auto simp: length_blit)
  have inv: "length (g_tasks s) = 8" using assms(1) by (simp add: sched_inv_def)
  have "i \<noteq> g_cur s" using i assms(1) by (auto simp: sched_inv_def live_def)
  with inv i assms(1) show ?thesis
    using sched_add_eq [OF _ nm refl, of s kstacks ent uesp] nm(2)
    by (intro disjI1) (auto simp: sched_added_def sched_inv_def nth_list_update Let_def intro!: exI [of _ i])
qed

lemma sched_add_pids:
  assumes "sched_inv s" and "pids_ok s" and "g_next_pid s \<noteq> 0xFFFFFFFF" and "sched_added kstacks s s' ent uesp"
    and "g_next_pid s' = g_next_pid s + 1"
  shows "pids_ok s'"
proof -
  have "unat (g_next_pid s) \<noteq> 4294967295" using assms(3) by (simp add: word_unat_eq_iff)
  then have "unat (g_next_pid s + 1) = unat (g_next_pid s) + 1"
    using unat_less_2p32 [of "g_next_pid s"] by (subst unat_plus_nowrap32) simp_all
  then have lt: "x \<le> g_next_pid s \<Longrightarrow> x < g_next_pid s + 1" for x
    by (simp add: word_less_nat_alt word_le_nat_alt)
  obtain i where i: "i < 8" "\<forall>j < 8. j \<noteq> i \<longrightarrow> g_tasks s' ! j = g_tasks s ! j" "pid (g_tasks s' ! i) = g_next_pid s"
    using assms(4) by (auto simp: sched_added_def Let_def)
  have old: "pid (g_tasks s' ! j) < g_next_pid s" if "j < 8" "j \<noteq> i" "live (status s' j)" for j
    using that i(2) assms(2) by (auto simp: pids_ok_def)
  have "pid (g_tasks s' ! j) < g_next_pid s'" if "j < 8" "live (status s' j)" for j
    using old [OF that(1) _ that(2)] i(3) lt assms(5) by (cases "j = i") (auto intro: less_imp_le)
  moreover have "j = k" if "j < 8" "k < 8" "live (status s' j)" "live (status s' k)" "pid (g_tasks s' ! j) = pid (g_tasks s' ! k)" for j k
    using that old [of j] old [of k] i assms(2) by (cases "j = i"; cases "k = i") (auto simp: pids_ok_def)
  ultimately show ?thesis unfolding pids_ok_def by blast
qed

section \<open>The scheduler as a transition system\<close>

text \<open>
  The events that change the scheduler: a timer interrupt with any stack pointer, the two system
  calls (which arrive through \<open>sys_common_stub\<close> with the caller's stack pointer) and a new task.
  Pids are handed out from a 32-bit counter; the relation stops short of its wrap-around.
\<close>

inductive sched_step :: "u32 \<Rightarrow> sched_state \<Rightarrow> sched_state \<Rightarrow> bool" for kstacks where
  step_tick: "sched_step kstacks s (timer_irq esp s)"
| step_yield: "sched_step kstacks s (sched_yield (s\<lparr>sched_cur_esp := esp\<rparr>))"
| step_exit: "sched_exit s = Returned s' \<Longrightarrow> sched_step kstacks s s'"
| step_add: "terminated name \<Longrightarrow> g_next_pid s \<noteq> 0xFFFFFFFF \<Longrightarrow>
    sched_add kstacks s name ent uesp = Some (r, s') \<Longrightarrow> sched_step kstacks s s'"

inductive sched_reach :: "u32 \<Rightarrow> sched_state \<Rightarrow> bool" for kstacks where
  reach_init: "sched_init kstacks s0 = Some (r, s) \<Longrightarrow> 0 < g_next_pid s0 \<Longrightarrow> sched_reach kstacks s"
| reach_step: "sched_reach kstacks s \<Longrightarrow> sched_step kstacks s s' \<Longrightarrow> sched_reach kstacks s'"

lemma sched_init_inv:
  assumes "sched_init kstacks s0 = Some (r, s)"
  shows "sched_inv s" and "0 < g_next_pid s0 \<Longrightarrow> pids_ok s" and "status s 0 = S_RUNNING"
proof -
  have "strcpy (tname task_empty) kernel_name \<noteq> None \<Longrightarrow> r = 0" using assms by (auto simp: sched_init_def)
  obtain nm where s: "s = tss_set_kernel_esp0 (kstacks + SCHED_KSTACK_SIZE)
      (s0\<lparr>g_tasks := (replicate 8 task_empty)[0 := task_empty\<lparr>pid := 0, tname := nm, tstate := S_RUNNING\<rparr>],
        g_cur := 0, g_rr := 1, g_enabled := True, sched_active := True\<rparr>)"
    using assms by (auto simp: sched_init_def task_empty_def split: bind_splits)
  have st: "status s j = (if j = 0 then S_RUNNING else S_EMPTY)" if "j < 8" for j
    using that by (simp add: s tss_set_kernel_esp0_def task_empty_def nth_list_update)
  then show "sched_inv s" by (auto simp: sched_inv_def) (auto simp: s tss_set_kernel_esp0_def)
  show "0 < g_next_pid s0 \<Longrightarrow> pids_ok s"
    using st by (auto simp: pids_ok_def live_def) (auto simp: s tss_set_kernel_esp0_def task_empty_def)
  show "status s 0 = S_RUNNING" using st by simp
qed

lemma sched_step_inv:
  assumes "sched_step kstacks s s'" and "sched_inv s" and "pids_ok s"
  shows "sched_inv s' \<and> pids_ok s'"
  using assms(1)
proof (cases rule: sched_step.cases)
  case (step_tick esp)
  then show ?thesis using timer_irq_inv timer_irq_pids assms(2,3) by simp
next
  case (step_yield esp)
  have "sched_inv (s\<lparr>sched_cur_esp := esp\<rparr>)" using assms(2) by (simp add: sched_inv_def)
  moreover have "pids_ok (s\<lparr>sched_cur_esp := esp\<rparr>)" using assms(3) by (intro pids_ok_mono [OF assms(3)]) simp_all
  ultimately show ?thesis using step_yield sched_yield_inv sched_yield_pids by blast
next
  case step_exit
  then have "sched_inv s'" using sched_exit_spec [OF assms(2)] by auto
  then show ?thesis using sched_exit_pids [OF assms(2,3) step_exit] by blast
next
  case (step_add name ent uesp r)
  then consider "s' = s" | "sched_inv s'" "g_next_pid s' = g_next_pid s + 1" "sched_added kstacks s s' ent uesp"
    using sched_add_spec [OF assms(2) step_add(1), of kstacks ent uesp] by auto
  then show ?thesis using sched_add_pids [OF assms(2,3) step_add(2)] assms(2,3) by cases auto
qed

lemma sched_reach_inv:
  "sched_reach kstacks s \<Longrightarrow> sched_inv s \<and> pids_ok s"
  by (induction rule: sched_reach.induct) (use sched_init_inv sched_step_inv in blast)+

section \<open>Fairness\<close>

lemma rr_dist_decreases:
  assumes "i < 8" and "j < 8" and "i \<noteq> j" and "g_rr s < 8" and "rr_dist s i \<le> rr_dist s j" and "g_rr s' = (i + 1) mod 8"
  shows "rr_dist s' j < rr_dist s j"
proof -
  have i: "i = (g_rr s + rr_dist s i) mod 8" and j: "j = (g_rr s + rr_dist s j) mod 8"
    using rr_cover [OF assms(1,4)] rr_cover [OF assms(2,4)] by auto
  have lt: "rr_dist s i < rr_dist s j" using assms(3,5) i j by (metis le_neq_implies_less)
  have g: "g_rr s' = (g_rr s + (rr_dist s i + 1)) mod 8" unfolding assms(6) using i by (metis add.assoc mod_add_left_eq)
  have d: "rr_dist s j - (rr_dist s i + 1) < 8" using rr_cover(2) [OF assms(2,4)] by simp
  have "j = (g_rr s' + (rr_dist s j - (rr_dist s i + 1))) mod 8"
    unfolding g mod_add_left_eq using lt j by simp
  moreover have "g_rr s' < 8" using assms(6) by simp
  ultimately have "rr_dist s' j = rr_dist s j - (rr_dist s i + 1)" using rr_dist_add [OF d, of s'] by simp
  then show ?thesis using lt by simp
qed

fun ticks :: "u32 list \<Rightarrow> sched_state \<Rightarrow> sched_state" where
  "ticks [] s = s"
| "ticks (e # es) s = ticks es (timer_irq e s)"

lemma ticks_fair:
  assumes "sched_inv s" and "i < 8" and "status s i = S_RUNNABLE" and "rr_dist s i < length es"
  shows "\<exists>k. 0 < k \<and> k \<le> rr_dist s i + 1 \<and> (let s' = ticks (take k es) s in
    g_cur s' = i \<and> sched_next_esp s' = saved_esp (g_tasks s ! i) \<and>
    (kstack_top (g_tasks s ! i) \<noteq> 0 \<longrightarrow> esp0 (g_tss s') = kstack_top (g_tasks s ! i)))"
  using assms
proof (induction es arbitrary: s)
  case (Cons e es)
  let ?s1 = "timer_irq e s"
  obtain j where j: "j < 8" "status s j = S_RUNNABLE" "rr_dist s j \<le> rr_dist s i"
    "g_tasks ?s1 = (preempted e s)[j := (g_tasks s ! j)\<lparr>tstate := S_RUNNING\<rparr>]" "g_cur ?s1 = j" "g_rr ?s1 = (j + 1) mod 8"
    "sched_next_esp ?s1 = saved_esp (g_tasks s ! j)"
    "kstack_top (g_tasks s ! j) \<noteq> 0 \<longrightarrow> esp0 (g_tss ?s1) = kstack_top (g_tasks s ! j)"
    using timer_irq_switch [OF Cons.prems(1), of e] Cons.prems(2,3) by blast
  show ?case
  proof (cases "j = i")
    case True
    then show ?thesis using j by (intro exI [of _ 1]) simp
  next
    case False
    have d: "rr_dist ?s1 i < rr_dist s i"
      using rr_dist_decreases [OF j(1) Cons.prems(2) False _ j(3,6)] Cons.prems(1) by (simp add: sched_inv_def)
    have "i \<noteq> g_cur s" using Cons.prems(1-3) by (auto simp: sched_inv_def)
    then have t: "g_tasks ?s1 ! i = g_tasks s ! i" using False j(4) by (simp add: preempted_def)
    obtain k where k: "0 < k" "k \<le> rr_dist ?s1 i + 1" "let s' = ticks (take k es) ?s1 in
      g_cur s' = i \<and> sched_next_esp s' = saved_esp (g_tasks ?s1 ! i) \<and>
      (kstack_top (g_tasks ?s1 ! i) \<noteq> 0 \<longrightarrow> esp0 (g_tss s') = kstack_top (g_tasks ?s1 ! i))"
      using Cons.IH [OF timer_irq_inv [OF Cons.prems(1), of e] Cons.prems(2)] t Cons.prems(3,4) d by auto
    then show ?thesis using d t by (intro exI [of _ "Suc k"]) simp
  qed
qed simp

section \<open>Properties\<close>

text \<open>
  C5: in every reachable state of the scheduler exactly one task is running, namely the current one,
  the indices stay inside the task table, and no two live tasks share a pid.
\<close>

theorem sched_reachable_consistent:
  assumes "sched_reach kstacks s"
  shows "length (g_tasks s) = 8 \<and> g_cur s < 8 \<and> g_rr s < 8 \<and> (\<forall>i < 8. status s i = S_RUNNING \<longleftrightarrow> i = g_cur s) \<and>
    (\<forall>i < 8. \<forall>j < 8. live (status s i) \<and> live (status s j) \<and> pid (g_tasks s ! i) = pid (g_tasks s ! j) \<longrightarrow> i = j)"
  using sched_reach_inv [OF assms] by (simp add: sched_inv_def pids_ok_def)

definition sched_boot :: sched_state where
  "sched_boot = \<lparr>g_tasks = [], frames = Map.empty, g_cur = 0, g_rr = 1, g_enabled = False, g_next_pid = 1,
     sched_cur_esp = 0, sched_next_esp = 0, sched_force_switch = 0, sched_active = False,
     g_tss = tss_init, timer_ticks = 0\<rparr>"

definition demo_sched :: sched_state where
  "demo_sched = snd (the (sched_add 0x300000 (snd (the (sched_init 0x300000 sched_boot))) [0x61, 0] 0x40000000 0x40017FF0))"

lemma demo_sched_reach: "sched_reach 0x300000 demo_sched"
proof -
  have i: "sched_init 0x300000 sched_boot = Some (0, snd (the (sched_init 0x300000 sched_boot)))" by code_simp
  have "sched_add 0x300000 (snd (the (sched_init 0x300000 sched_boot))) [0x61, 0] 0x40000000 0x40017FF0 = Some (1, demo_sched)"
    unfolding demo_sched_def by code_simp
  moreover have "g_next_pid (snd (the (sched_init 0x300000 sched_boot))) \<noteq> 0xFFFFFFFF" by code_simp
  moreover have "terminated [0x61, 0]" by (simp add: terminated_def)
  moreover have "0 < g_next_pid sched_boot" by (simp add: sched_boot_def)
  ultimately show ?thesis using reach_step [OF reach_init [OF i] step_add] by blast
qed

theorem sched_reachable_consistent_witness:
  "sched_reach 0x300000 demo_sched \<and> status demo_sched 0 = S_RUNNING \<and> status demo_sched 1 = S_RUNNABLE \<and>
   status demo_sched (g_cur demo_sched) = S_RUNNING \<and> g_rr demo_sched < 8"
proof -
  have "status demo_sched 0 = S_RUNNING" "status demo_sched 1 = S_RUNNABLE" by code_simp+
  then show ?thesis using sched_reachable_consistent [OF demo_sched_reach] demo_sched_reach by blast
qed

text \<open>
  C6: the scheduler is fair and transparent.  Whatever stack pointers the timer interrupts bring, a
  runnable task gets the processor within eight ticks, it resumes at the stack pointer it was saved
  with, and the processor then uses the task's own kernel stack.
\<close>

theorem sched_tick_fair:
  assumes "sched_reach kstacks s" and "i < 8" and "status s i = S_RUNNABLE" and "length es = 8"
  shows "\<exists>k \<le> 8. 0 < k \<and> (let s' = ticks (take k es) s in
    g_cur s' = i \<and> sched_next_esp s' = saved_esp (g_tasks s ! i) \<and>
    (kstack_top (g_tasks s ! i) \<noteq> 0 \<longrightarrow> esp0 (g_tss s') = kstack_top (g_tasks s ! i)))"
proof -
  have inv: "sched_inv s" using sched_reach_inv [OF assms(1)] by simp
  then have "rr_dist s i < 8" using rr_cover(2) [OF assms(2)] by (simp add: sched_inv_def)
  moreover obtain k where k: "0 < k" "k \<le> rr_dist s i + 1" "let s' = ticks (take k es) s in
    g_cur s' = i \<and> sched_next_esp s' = saved_esp (g_tasks s ! i) \<and>
    (kstack_top (g_tasks s ! i) \<noteq> 0 \<longrightarrow> esp0 (g_tss s') = kstack_top (g_tasks s ! i))"
    using ticks_fair [OF inv assms(2,3), of es] calculation assms(4) by auto
  ultimately show ?thesis by (intro exI [of _ k]) simp
qed

theorem sched_tick_fair_witness:
  "\<exists>k \<le> 8. let s' = ticks (take k (replicate 8 0x00305000)) demo_sched in
     g_cur s' = 1 \<and> sched_next_esp s' = saved_esp (g_tasks demo_sched ! 1)"
proof -
  have "status demo_sched 1 = S_RUNNABLE" by code_simp
  then show ?thesis using sched_tick_fair [OF demo_sched_reach, of 1 "replicate 8 0x00305000"] by (auto simp: Let_def)
qed

text \<open>
  C14: \<open>sched_add\<close> puts the new task into the lowest free slot, gives it a pid no live task has and a
  kernel stack of its own with a frame from which \<open>iret\<close> enters the program in ring 3, leaves the
  other tasks alone, and fails with -1 and no change exactly when all slots hold live tasks.
\<close>

theorem sched_add_correct:
  assumes "sched_reach kstacks s" and "terminated name"
  shows "if \<forall>j < 8. live (status s j) then sched_add kstacks s name ent uesp = Some (- 1, s)
    else \<exists>s'. sched_add kstacks s name ent uesp = Some (sint (g_next_pid s), s') \<and>
      sched_added kstacks s s' ent uesp \<and> (\<forall>j < 8. live (status s j) \<longrightarrow> pid (g_tasks s ! j) \<noteq> g_next_pid s)"
proof -
  have inv: "sched_inv s" "pids_ok s" using sched_reach_inv [OF assms(1)] by auto
  have "\<not> sched_added kstacks s s' ent uesp" if "\<forall>j < 8. live (status s j)" for s'
    using that by (auto simp: sched_added_def)
  moreover have "pid (g_tasks s ! j) \<noteq> g_next_pid s" if "j < 8" "live (status s j)" for j
    using that inv(2) unfolding pids_ok_def by (metis less_irrefl)
  ultimately show ?thesis using sched_add_spec [OF inv(1) assms(2), of kstacks ent uesp] by (auto split: if_splits)
qed

theorem sched_add_correct_witness:
  "\<exists>s'. sched_add 0x300000 demo_sched [0x62, 0] 0x40000000 0x4001FFF0 = Some (2, s') \<and>
     sched_added 0x300000 demo_sched s' 0x40000000 0x4001FFF0"
proof -
  have f: "(\<forall>j < 8. live (status demo_sched j)) = False" "sint (g_next_pid demo_sched) = 2" by code_simp+
  have "terminated [0x62, 0]" by (simp add: terminated_def)
  then show ?thesis
    using sched_add_correct [OF demo_sched_reach, where name = "[0x62, 0]" and ent = "0x40000000" and uesp = "0x4001FFF0"]
    by (simp only: f if_False simp_thms) blast
qed

end
