(* ===== verification/Term.thy ===== *)
theory Term
  imports Kstring
begin

text \<open>
  The text terminal and \<open>printk\<close>: \<open>src/kernel/lib/term.c\<close>, with \<open>vga_entry\<close> of
  \<open>src/include/vga.h\<close> and \<open>update_cursor\<close> of \<open>src/include/cursor.h\<close>.

  \<open>t_buf\<close> is the text memory the terminal owns; writing outside it is \<open>None\<close>.  Nothing in the kernel
  calls \<open>term_set_fb\<close>, so \<open>term_fb_mode\<close> is 0 and the frame-buffer branches never run: only the text
  mode is modelled.  Rows and columns are \<open>nat\<close>; the one subtraction of the code that can wrap, in the
  loop for a tab, is written out modulo \<open>2 ^ 32\<close>.
\<close>

section \<open>Definitions\<close>

record term_state =
  t_row :: nat
  t_col :: nat
  t_color :: u8
  t_buf :: "u16 list"
  term_width :: nat
  term_height :: nat
  cursor_reg :: u16

definition vga_entry_color :: "u8 \<Rightarrow> u8 \<Rightarrow> u8" where
  "vga_entry_color fg bg = fg OR push_bit 4 bg"

definition vga_entry :: "u8 \<Rightarrow> u8 \<Rightarrow> u16" where
  "vga_entry uc color = ucast uc OR push_bit 8 (ucast color)"

text \<open>The two halves of \<open>pos\<close> go to the cursor registers; \<open>x\<close> and \<open>y\<close> are narrowed to \<open>int8_t\<close>.\<close>

definition update_cursor :: "nat \<Rightarrow> nat \<Rightarrow> term_state \<Rightarrow> term_state" where
  "update_cursor x y s =
     s\<lparr>cursor_reg := of_int (sint (of_nat y :: u8) * int (term_width s) + sint (of_nat x :: u8))\<rparr>"

fun fill_cells :: "nat \<Rightarrow> u16 \<Rightarrow> nat \<Rightarrow> u16 list \<Rightarrow> u16 list option" where
  "fill_cells index v 0 b = Some b"
| "fill_cells index v (Suc n) b = do { b' \<leftarrow> wr b index v; fill_cells (Suc index) v n b' }"

text \<open>Rows \<open>y .. h - 1\<close> of width \<open>w\<close>, as the nested loops of \<open>term_init\<close> and \<open>term_clear\<close> fill them.\<close>

fun fill_rows :: "nat \<Rightarrow> nat \<Rightarrow> u16 \<Rightarrow> nat \<Rightarrow> nat \<Rightarrow> u16 list \<Rightarrow> u16 list option" where
  "fill_rows width w v y 0 b = Some b"
| "fill_rows width w v y (Suc n) b = do { b' \<leftarrow> fill_cells (y * width) v w b; fill_rows width w v (Suc y) n b' }"

definition term_init :: "term_state \<Rightarrow> term_state option" where
  "term_init s =
     (let color = vga_entry_color 7 0 in
      do { b \<leftarrow> fill_rows 80 80 (vga_entry 0x20 color) 0 25 (t_buf s);
           Some (s\<lparr>term_width := 80, term_height := 25, t_row := 0, t_col := 0, t_color := color, t_buf := b\<rparr>) })"

definition term_putch_at :: "u8 \<Rightarrow> u8 \<Rightarrow> nat \<Rightarrow> nat \<Rightarrow> term_state \<Rightarrow> term_state option" where
  "term_putch_at c color x y s =
     do { b \<leftarrow> wr (t_buf s) (y * term_width s + x) (vga_entry c color); Some (s\<lparr>t_buf := b\<rparr>) }"

fun shift_row :: "nat \<Rightarrow> nat \<Rightarrow> nat \<Rightarrow> u16 list \<Rightarrow> u16 list option" where
  "shift_row w index 0 b = Some b"
| "shift_row w index (Suc n) b =
     do { c \<leftarrow> rd b (index + w); b' \<leftarrow> wr b index c; shift_row w (Suc index) n b' }"

fun shift_rows :: "nat \<Rightarrow> nat \<Rightarrow> nat \<Rightarrow> u16 list \<Rightarrow> u16 list option" where
  "shift_rows w y 0 b = Some b"
| "shift_rows w y (Suc n) b = do { b' \<leftarrow> shift_row w (y * w) w b; shift_rows w (Suc y) n b' }"

definition shift_terminal_content :: "term_state \<Rightarrow> term_state option" where
  "shift_terminal_content s =
     do { b1 \<leftarrow> shift_rows (term_width s) 0 (term_height s - 1) (t_buf s);
          b2 \<leftarrow> fill_cells ((term_height s - 1) * term_width s) (vga_entry 0x20 (t_color s)) (term_width s) b1;
          Some (s\<lparr>t_buf := b2\<rparr>) }"

definition term_clear :: "term_state \<Rightarrow> term_state option" where
  "term_clear s =
     do { b \<leftarrow> fill_rows (term_width s) (min (term_width s) 160) (vga_entry 0x20 (t_color s)) 0 (min (term_height s) 50) (t_buf s);
          Some (s\<lparr>t_buf := b, t_row := 0, t_col := 0\<rparr>) }"

text \<open>The loop for a tab; \<open>first\<close> is its condition \<open>i == 0\<close>.\<close>

function tab_loop :: "bool \<Rightarrow> term_state \<Rightarrow> term_state option" where
  "tab_loop first s =
     (if (t_col s mod 4 \<noteq> 0 \<and> 1 < (term_width s + 4294967296 - t_col s) mod 4294967296) \<or> first then
        (case term_putch_at 0x20 (t_color s) (t_col s) (t_row s) s of
           None \<Rightarrow> None
         | Some s' \<Rightarrow> tab_loop False (s'\<lparr>t_col := t_col s' + 1\<rparr>))
      else Some s)"
  by pat_completeness auto
termination
proof (relation "measure (\<lambda>(first, s). if first then 5 else (4 - t_col s mod 4) mod 4)", goal_cases)
  case (2 first s s')
  then have "t_col s' = t_col s" by (auto simp: term_putch_at_def split: bind_splits)
  moreover have "(4 - Suc n mod 4) mod 4 < (4 - n mod 4) mod (4 :: nat)" if nz: "n mod 4 \<noteq> 0" for n
  proof -
    have "n mod 4 < 4" by simp
    then consider "n mod 4 = 1" | "n mod 4 = 2" | "n mod 4 = 3" using nz by linarith
    then show ?thesis by cases (simp_all add: mod_Suc)
  qed
  moreover have "(4 - Suc n mod 4) mod 4 < (5 :: nat)" for n :: nat
    using mod_less_divisor [of 4 "4 - Suc n mod 4"] by linarith
  ultimately show ?case using 2(1) by auto
qed simp

definition term_putchar :: "u8 \<Rightarrow> term_state \<Rightarrow> term_state option" where
  "term_putchar c s =
     do {
       s1 \<leftarrow> (if c = 0x0A then Some (s\<lparr>t_row := t_row s + 1, t_col := 0\<rparr>)
              else if c = 0x09 then tab_loop True s
              else do { s' \<leftarrow> term_putch_at c (t_color s) (t_col s) (t_row s) s;
                        let s'' = s'\<lparr>t_col := t_col s' + 1\<rparr>;
                        Some (if t_col s'' = term_width s'' then s''\<lparr>t_col := 0, t_row := t_row s'' + 1\<rparr> else s'') });
       if t_row s1 = term_height s1 then
         do { s2 \<leftarrow> shift_terminal_content s1; Some (s2\<lparr>t_row := t_row s2 - 1\<rparr>) }
       else Some s1 }"

fun term_write :: "u8 list \<Rightarrow> term_state \<Rightarrow> term_state option" where
  "term_write [] s = Some s"
| "term_write (c # cs) s = do { s' \<leftarrow> term_putchar c s; term_write cs s' }"

definition puts :: "u8 list \<Rightarrow> term_state \<Rightarrow> term_state option" where
  "puts data s =
     do { n \<leftarrow> strlen data; s' \<leftarrow> term_write (take n data) s; Some (update_cursor (t_col s') (t_row s') s') }"

subsection \<open>printk\<close>

datatype pk_flag = PRINTK_NULL | PRINTK_STR | PRINTK_PTR | PRINTK_CHR | PRINTK_INT | PRINTK_UINT
  | PRINTK_HEX32 | PRINTK_HEX64 | PRINTK_BIN

definition get_flag :: "u8 \<Rightarrow> pk_flag" where
  "get_flag c =
     (if c = 0x73 then PRINTK_STR else if c = 0x70 then PRINTK_PTR else if c = 0x63 then PRINTK_CHR
      else if c = 0x64 then PRINTK_INT else if c = 0x75 then PRINTK_UINT else if c = 0x78 then PRINTK_HEX32
      else if c = 0x58 then PRINTK_HEX64 else if c = 0x62 then PRINTK_BIN else PRINTK_NULL)"

text \<open>
  A variadic argument: a string (\<open>None\<close> is the null pointer), a 32-bit or a 64-bit value.
  Fetching an argument of another type is undefined.
\<close>

datatype pk_arg = PStr "u8 list option" | PInt u32 | PInt64 u64

fun arg_int :: "pk_arg list \<Rightarrow> (u32 \<times> pk_arg list) option" where
  "arg_int (PInt n # ap) = Some (n, ap)"
| "arg_int ap = None"

definition PRINTK_LOC_MAX :: nat where
  "PRINTK_LOC_MAX = 4096"

definition PRINTK_BUFF_LEN :: nat where
  "PRINTK_BUFF_LEN = 256"

function get_str_loop :: "u8 list \<Rightarrow> nat \<Rightarrow> u8 list \<Rightarrow> u8 list option" where
  "get_str_loop n k loc_buff =
     do { c \<leftarrow> rd n k;
          if c \<noteq> 0 \<and> k < PRINTK_LOC_MAX - 1 then do { b \<leftarrow> wr loc_buff k c; get_str_loop n (Suc k) b }
          else wr loc_buff k 0 }"
  by pat_completeness auto
termination
  by (relation "measure (\<lambda>(n, k, b). PRINTK_LOC_MAX - k)") (auto simp: PRINTK_LOC_MAX_def)

definition null_str :: "u8 list" where
  "null_str = [0x28, 0x6E, 0x75, 0x6C, 0x6C, 0x29, 0]"

fun get_str :: "pk_arg list \<Rightarrow> u8 list \<Rightarrow> (u8 list \<times> pk_arg list) option" where
  "get_str (PStr p # ap) b =
     do { b' \<leftarrow> get_str_loop (case p of None \<Rightarrow> null_str | Some n \<Rightarrow> n) 0 b; Some (b', ap) }"
| "get_str ap b = None"

text \<open>\<open>itoa_base_buf\<close> at \<open>loc_buff + 2\<close> works on the tail of the buffer.\<close>

definition get_ptr :: "pk_arg list \<Rightarrow> u8 list \<Rightarrow> (u8 list \<times> pk_arg list) option" where
  "get_ptr ap b =
     do { (n, ap') \<leftarrow> arg_int ap; b1 \<leftarrow> wr b 0 0x30; b2 \<leftarrow> wr b1 1 0x78;
          tl' \<leftarrow> itoa_base_buf n 16 (drop 2 b2); Some (take 2 b2 @ tl', ap') }"

definition get_char :: "pk_arg list \<Rightarrow> u8 list \<Rightarrow> (u8 list \<times> pk_arg list) option" where
  "get_char ap b =
     do { (c, ap') \<leftarrow> arg_int ap; b1 \<leftarrow> wr b 0 (ucast c); b2 \<leftarrow> wr b1 1 0; Some (b2, ap') }"

definition get_int :: "pk_arg list \<Rightarrow> u8 list \<Rightarrow> (u8 list \<times> pk_arg list) option" where
  "get_int ap b = do { (n, ap') \<leftarrow> arg_int ap; b' \<leftarrow> itoa_buf n b; Some (b', ap') }"

definition get_uint :: "pk_arg list \<Rightarrow> u8 list \<Rightarrow> (u8 list \<times> pk_arg list) option" where
  "get_uint ap b = do { (n, ap') \<leftarrow> arg_int ap; b' \<leftarrow> itoa_base_buf n 10 b; Some (b', ap') }"

definition get_hex32 :: "pk_arg list \<Rightarrow> u8 list \<Rightarrow> (u8 list \<times> pk_arg list) option" where
  "get_hex32 ap b = do { (n, ap') \<leftarrow> arg_int ap; b' \<leftarrow> itoa_base_buf n 16 b; Some (b', ap') }"

text \<open>The 64-bit argument is narrowed to the \<open>uint32_t\<close> parameter of \<open>itoa_base_buf\<close>.\<close>

fun get_hex64 :: "pk_arg list \<Rightarrow> u8 list \<Rightarrow> (u8 list \<times> pk_arg list) option" where
  "get_hex64 (PInt64 n # ap) b = do { b' \<leftarrow> itoa_base_buf (ucast n) 16 b; Some (b', ap) }"
| "get_hex64 ap b = None"

definition get_bin :: "pk_arg list \<Rightarrow> u8 list \<Rightarrow> (u8 list \<times> pk_arg list) option" where
  "get_bin ap b = do { (n, ap') \<leftarrow> arg_int ap; b' \<leftarrow> itoa_base_buf n 2 b; Some (b', ap') }"

fun call_flag :: "pk_flag \<Rightarrow> pk_arg list \<Rightarrow> u8 list \<Rightarrow> (u8 list \<times> pk_arg list) option" where
  "call_flag PRINTK_NULL ap b = None"
| "call_flag PRINTK_STR ap b = get_str ap b"
| "call_flag PRINTK_PTR ap b = get_ptr ap b"
| "call_flag PRINTK_CHR ap b = get_char ap b"
| "call_flag PRINTK_INT ap b = get_int ap b"
| "call_flag PRINTK_UINT ap b = get_uint ap b"
| "call_flag PRINTK_HEX32 ap b = get_hex32 ap b"
| "call_flag PRINTK_HEX64 ap b = get_hex64 ap b"
| "call_flag PRINTK_BIN ap b = get_bin ap b"

text \<open>Flushing writes the buffer out and resets the index; it leaves the contents in place.\<close>

definition flush_printk_buff :: "u8 list \<Rightarrow> nat \<Rightarrow> term_state \<Rightarrow> term_state option" where
  "flush_printk_buff buff j s =
     (if j \<le> length buff then
        do { s' \<leftarrow> term_write (take j buff) s; Some (update_cursor (t_col s') (t_row s') s') }
      else None)"

definition process_flag ::
  "pk_flag \<Rightarrow> pk_arg list \<Rightarrow> u8 list \<Rightarrow> nat \<Rightarrow> term_state \<Rightarrow> (pk_arg list \<times> u8 list \<times> nat \<times> term_state) option" where
  "process_flag flag ap buff j s =
     do {
       loc0 \<leftarrow> bzero (replicate PRINTK_LOC_MAX 0) 0 PRINTK_LOC_MAX;
       (loc, ap') \<leftarrow> call_flag flag ap loc0;
       len \<leftarrow> strlen loc;
       if PRINTK_BUFF_LEN \<le> len then
         do { s1 \<leftarrow> (if 0 < j then flush_printk_buff buff j s else Some s);
              s2 \<leftarrow> term_write (take len loc) s1;
              Some (ap', buff, (if 0 < j then 0 else j), update_cursor (t_col s2) (t_row s2) s2) }
       else do {
         (s1, j1) \<leftarrow> (if PRINTK_BUFF_LEN < j + len then do { s1 \<leftarrow> flush_printk_buff buff j s; Some (s1, 0) } else Some (s, j));
         buff' \<leftarrow> strcat buff loc;
         Some (ap', buff', j1 + len, s1) } }"

function printk_loop ::
  "u8 list \<Rightarrow> nat \<Rightarrow> nat \<Rightarrow> pk_arg list \<Rightarrow> u8 list \<Rightarrow> nat \<Rightarrow> term_state \<Rightarrow> (u8 list \<times> nat \<times> term_state) option" where
  "printk_loop format len i ap buff j s =
     (if i < len then
        do {
          c \<leftarrow> rd format i;
          let i' = (if c = 0x25 \<and> i + 1 < len then i + 1 else i);
          (ap', buff', j', s') \<leftarrow>
            (if c = 0x25 \<and> i + 1 < len then
               do { d \<leftarrow> rd format (i + 1);
                    if get_flag d \<noteq> PRINTK_NULL then process_flag (get_flag d) ap buff j s
                    else if d = 0x25 then do { b1 \<leftarrow> wr buff j 0x25; Some (ap, b1, j + 1, s) }
                    else Some (ap, buff, j, s) }
             else do { b1 \<leftarrow> wr buff j c; Some (ap, b1, j + 1, s) });
          if j' = PRINTK_BUFF_LEN \<and> i' + 1 < len then
            do { s'' \<leftarrow> flush_printk_buff buff' j' s'; printk_loop format len (i' + 1) ap' buff' 0 s'' }
          else printk_loop format len (i' + 1) ap' buff' j' s' }
      else Some (buff, j, s))"
  by pat_completeness auto
termination
  by (relation "measure (\<lambda>(format, len, i, ap, buff, j, s). len - i)") auto

definition printk :: "u8 list \<Rightarrow> pk_arg list \<Rightarrow> term_state \<Rightarrow> term_state option" where
  "printk format ap s =
     do { len \<leftarrow> strlen format;
          buff \<leftarrow> bzero (replicate PRINTK_BUFF_LEN 0) 0 PRINTK_BUFF_LEN;
          (buff', j, s') \<leftarrow> printk_loop format len 0 ap buff 0 s;
          flush_printk_buff buff' j s' }"

section \<open>The screen\<close>

declare tab_loop.simps [simp del] get_str_loop.simps [simp del] printk_loop.simps [simp del]

definition term_ok :: "term_state \<Rightarrow> bool" where
  "term_ok s \<longleftrightarrow> 0 < term_width s \<and> 0 < term_height s \<and> term_width s * term_height s \<le> length (t_buf s) \<and>
     t_row s < term_height s \<and> t_col s < term_width s"

lemma fill_cells_blit:
  "index + n \<le> length b \<Longrightarrow> fill_cells index v n b = Some (blit b index (replicate n v))"
proof (induction n arbitrary: index b)
  case (Suc n)
  have "fill_cells (Suc index) v n (b[index := v]) = Some (blit (b[index := v]) (Suc index) (replicate n v))"
    using Suc by simp
  moreover have "blit (b[index := v]) (Suc index) (replicate n v) = blit b index (replicate (Suc n) v)"
    using Suc.prems by (intro nth_equalityI) (auto simp: mem_simps nth_list_update nth_Cons' nth_replicate simp del: replicate_Suc)
  ultimately show ?case using Suc.prems by (simp add: wr_in)
qed simp

lemma shift_row_blit:
  "index + n + w \<le> length b \<Longrightarrow> 0 < w \<Longrightarrow> shift_row w index n b = Some (blit b index (take n (drop (index + w) b)))"
proof (induction n arbitrary: index b)
  case (Suc n)
  let ?b = "b[index := b ! (index + w)]"
  have "shift_row w (Suc index) n ?b = Some (blit ?b (Suc index) (take n (drop (Suc index + w) ?b)))"
    using Suc by simp
  moreover have "blit ?b (Suc index) (take n (drop (Suc index + w) ?b)) = blit b index (take (Suc n) (drop (index + w) b))"
    using Suc.prems by (intro nth_equalityI) (auto simp: mem_simps nth_list_update)
  ultimately show ?case using Suc.prems by (simp add: wr_in rd_in)
qed simp

lemma shift_rows_blit:
  "(y + n + 1) * w \<le> length b \<Longrightarrow> 0 < w \<Longrightarrow>
     shift_rows w y n b = Some (blit b (y * w) (take (n * w) (drop (y * w + w) b)))"
proof (induction n arbitrary: y b)
  case (Suc n)
  let ?b = "blit b (y * w) (take w (drop (y * w + w) b))"
  have le: "y * w + w + w + n * w \<le> length b" using Suc.prems(1) by (simp add: algebra_simps)
  then have row: "shift_row w (y * w) w b = Some ?b" using Suc.prems(2) by (intro shift_row_blit) simp_all
  have len: "length ?b = length b" using le by (simp add: mem_simps)
  have "shift_rows w (Suc y) n ?b = Some (blit ?b (Suc y * w) (take (n * w) (drop (Suc y * w + w) ?b)))"
  proof (rule Suc.IH)
    show "(Suc y + n + 1) * w \<le> length ?b" unfolding len using Suc.prems(1) by simp
  qed (rule Suc.prems(2))
  moreover have "blit ?b (Suc y * w) (take (n * w) (drop (Suc y * w + w) ?b)) = blit b (y * w) (take (Suc n * w) (drop (y * w + w) b))"
    using le by (intro nth_equalityI) (auto simp: mem_simps algebra_simps)
  ultimately show ?case using row by simp
qed simp

lemma shift_terminal_content_eq:
  assumes "0 < term_width s" and "0 < term_height s" and "term_width s * term_height s \<le> length (t_buf s)"
  defines "w \<equiv> term_width s" and "n \<equiv> (term_height s - 1) * term_width s"
  shows "shift_terminal_content s =
    Some (s\<lparr>t_buf := blit (t_buf s) 0 (take n (drop w (t_buf s)) @ replicate w (vga_entry 0x20 (t_color s)))\<rparr>)"
proof -
  have le: "n + w \<le> length (t_buf s)" using assms by (cases "term_height s") (auto simp: algebra_simps)
  let ?b = "blit (t_buf s) 0 (take n (drop w (t_buf s)))"
  have "shift_rows w 0 (term_height s - 1) (t_buf s) = Some ?b"
    using shift_rows_blit [of 0 "term_height s - 1" w "t_buf s"] le assms(1) by (simp add: n_def w_def algebra_simps)
  moreover have "fill_cells n (vga_entry 0x20 (t_color s)) w ?b = Some (blit ?b n (replicate w (vga_entry 0x20 (t_color s))))"
    using le by (intro fill_cells_blit) (simp add: mem_simps)
  moreover have "blit ?b n (replicate w v) = blit (t_buf s) 0 (take n (drop w (t_buf s)) @ replicate w v)" for v
    using blit_append [of 0 "take n (drop w (t_buf s))" "replicate w v" "t_buf s"] le by simp
  ultimately show ?thesis by (simp add: shift_terminal_content_def n_def w_def)
qed

text \<open>The terminal after a step: the dimensions and everything outside the screen are unchanged.\<close>

definition term_same :: "term_state \<Rightarrow> term_state \<Rightarrow> bool" where
  "term_same s s' \<longleftrightarrow> term_width s' = term_width s \<and> term_height s' = term_height s \<and> t_color s' = t_color s \<and>
     length (t_buf s') = length (t_buf s) \<and> drop (term_width s * term_height s) (t_buf s') = drop (term_width s * term_height s) (t_buf s)"

lemma term_same_refl [simp]: "term_same s s"
  by (simp add: term_same_def)

lemma term_same_trans: "term_same s s' \<Longrightarrow> term_same s' s'' \<Longrightarrow> term_same s s''"
  by (simp add: term_same_def)

lemma cell_index:
  assumes "y < h" and "x < w"
  shows "y * w + x < w * (h :: nat)"
proof -
  have "y * w + x < Suc y * w" using assms(2) by simp
  also have "\<dots> \<le> h * w" using assms(1) by (intro mult_le_mono1) simp
  finally show ?thesis by (simp add: mult.commute)
qed

lemma term_putch_at_ok:
  assumes "term_ok s" and "x < term_width s" and "y < term_height s"
  shows "\<exists>s'. term_putch_at c color x y s = Some s' \<and> term_same s s' \<and> t_row s' = t_row s \<and> t_col s' = t_col s \<and>
    t_buf s' = (t_buf s)[y * term_width s + x := vga_entry c color]"
  using assms cell_index [OF assms(3,2)] by (auto simp: term_putch_at_def term_ok_def wr_in term_same_def)

lemma scroll_ok:
  assumes "0 < term_width s" and "0 < term_height s" and "term_width s * term_height s \<le> length (t_buf s)"
    and "t_row s = term_height s" and "t_col s < term_width s"
  shows "\<exists>s'. shift_terminal_content s = Some s' \<and> term_ok (s'\<lparr>t_row := t_row s' - 1\<rparr>) \<and> term_same s (s'\<lparr>t_row := t_row s' - 1\<rparr>)"
proof -
  let ?l = "take ((term_height s - 1) * term_width s) (drop (term_width s) (t_buf s)) @ replicate (term_width s) (vga_entry 0x20 (t_color s))"
  have l: "length ?l = term_width s * term_height s"
    using assms(1-3) by (cases "term_height s") (auto simp: algebra_simps)
  then have "length (blit (t_buf s) 0 ?l) = length (t_buf s)" using assms(3) by (intro length_blit) simp
  moreover have "drop (term_width s * term_height s) (blit (t_buf s) 0 ?l) = drop (term_width s * term_height s) (t_buf s)"
    unfolding blit_def using l by simp
  ultimately show ?thesis
    using assms shift_terminal_content_eq [OF assms(1-3)] by (auto simp: term_ok_def term_same_def)
qed

lemma term_putchar_ok:
  assumes "term_ok s" and "c \<noteq> 0x09"
  shows "\<exists>s'. term_putchar c s = Some s' \<and> term_ok s' \<and> term_same s s'"
proof -
  obtain s1 where s1: "(if c = 0x0A then Some (s\<lparr>t_row := t_row s + 1, t_col := 0\<rparr>)
      else if c = 0x09 then tab_loop True s
      else do { s' \<leftarrow> term_putch_at c (t_color s) (t_col s) (t_row s) s;
                let s'' = s'\<lparr>t_col := t_col s' + 1\<rparr>;
                Some (if t_col s'' = term_width s'' then s''\<lparr>t_col := 0, t_row := t_row s'' + 1\<rparr> else s'') }) = Some s1"
    "term_same s s1" "t_row s1 \<le> term_height s" "t_col s1 < term_width s"
  proof (cases "c = 0x0A")
    case True
    then show thesis using that [of "s\<lparr>t_row := t_row s + 1, t_col := 0\<rparr>"] assms(1) by (simp add: term_ok_def term_same_def)
  next
    case False
    obtain s' where s': "term_putch_at c (t_color s) (t_col s) (t_row s) s = Some s'" "term_same s s'" "t_row s' = t_row s" "t_col s' = t_col s"
      using term_putch_at_ok [OF assms(1), of "t_col s" "t_row s" c "t_color s"] assms(1) unfolding term_ok_def by blast
    show thesis
      by (rule that [of "if t_col s' + 1 = term_width s' then s'\<lparr>t_col := 0, t_row := t_row s' + 1\<rparr> else s'\<lparr>t_col := t_col s' + 1\<rparr>"])
        (use False assms s' in \<open>auto simp: term_ok_def term_same_def Let_def\<close>)
  qed
  show ?thesis
  proof (cases "t_row s1 = term_height s1")
    case True
    then obtain s' where "shift_terminal_content s1 = Some s'" "term_ok (s'\<lparr>t_row := t_row s' - 1\<rparr>)" "term_same s1 (s'\<lparr>t_row := t_row s' - 1\<rparr>)"
      using scroll_ok [of s1] s1 assms(1) by (auto simp: term_ok_def term_same_def)
    then show ?thesis using True s1(1) term_same_trans [OF s1(2)] unfolding term_putchar_def by simp
  next
    case False
    then have "term_ok s1" using s1(2-4) assms(1) by (auto simp: term_ok_def term_same_def)
    then show ?thesis using False s1(1,2) unfolding term_putchar_def by simp
  qed
qed

lemma term_write_ok:
  "term_ok s \<Longrightarrow> 0x09 \<notin> set data \<Longrightarrow> \<exists>s'. term_write data s = Some s' \<and> term_ok s' \<and> term_same s s'"
proof (induction data arbitrary: s)
  case (Cons c cs)
  obtain s1 where s1: "term_putchar c s = Some s1" "term_ok s1" "term_same s s1"
    using term_putchar_ok [OF Cons.prems(1), of c] Cons.prems(2) by auto
  then show ?case using Cons.IH [OF s1(2)] Cons.prems(2) term_same_trans [OF s1(3)] by auto
qed simp

lemma term_write_append: "term_write (xs @ ys) s = do { s' \<leftarrow> term_write xs s; term_write ys s' }"
  by (induction xs arbitrary: s) (auto split: bind_split)

section \<open>printk on short output\<close>

text \<open>
  What a conversion appends, and the output of a whole format.  The reference covers literal text and
  the conversions \<open>%s\<close>, \<open>%c\<close> (of a non-zero character), \<open>%d\<close> and \<open>%%\<close>; the code drops an unknown
  conversion.
\<close>

definition pk_conv :: "u8 \<Rightarrow> pk_arg list \<Rightarrow> (u8 list \<times> pk_arg list) option" where
  "pk_conv d ap =
     (if d = 0x73 then
        (case ap of
           PStr p # r \<Rightarrow> (let str = (case p of None \<Rightarrow> null_str | Some n \<Rightarrow> n)
                         in if terminated str then Some (cstr str, r) else None)
         | _ \<Rightarrow> None)
      else if d = 0x63 then
        (case ap of PInt n # r \<Rightarrow> if (ucast n :: u8) \<noteq> 0 then Some ([ucast n], r) else None | _ \<Rightarrow> None)
      else if d = 0x64 then (case ap of PInt n # r \<Rightarrow> Some (itoa_str n, r) | _ \<Rightarrow> None)
      else if get_flag d \<noteq> PRINTK_NULL then None
      else if d = 0x25 then Some ([0x25], ap) else Some ([], ap))"

fun pk_out :: "u8 list \<Rightarrow> pk_arg list \<Rightarrow> u8 list option" where
  "pk_out [] ap = Some []"
| "pk_out [c] ap = Some [c]"
| "pk_out (c # d # cs) ap =
     (if c = 0x25 then do { (x, ap') \<leftarrow> pk_conv d ap; r \<leftarrow> pk_out cs ap'; Some (x @ r) }
      else do { r \<leftarrow> pk_out (d # cs) ap; Some (c # r) })"

lemma get_str_loop_blit:
  assumes "terminated n" and "length (cstr n) < 4095" and "length b = 4096" and "k \<le> length (cstr n)"
  shows "get_str_loop n k (blit b 0 (take k (cstr n))) = Some (blit b 0 (cstr n @ [0]))"
  using assms(4)
proof (induction "length (cstr n) - k" arbitrary: k)
  case 0
  then have k: "k = length (cstr n)" by simp
  then show ?case using assms cstr_length [OF assms(1)] blit_snoc [of 0 "cstr n" b 0]
    by (subst get_str_loop.simps) (simp add: mem_simps cstr_stop)
next
  case (Suc m)
  then have lt: "k < length (cstr n)" by simp
  have "(blit b 0 (take k (cstr n)))[k := n ! k] = blit b 0 (take (Suc k) (cstr n))"
    using blit_snoc [of 0 "take k (cstr n)" b "n ! k"] assms lt cstr_nth [OF lt] by (simp add: take_Suc_snoc)
  moreover have "get_str_loop n (Suc k) (blit b 0 (take (Suc k) (cstr n))) = Some (blit b 0 (cstr n @ [0]))"
    using Suc lt by simp
  ultimately show ?case using assms lt cstr_nth [OF lt] cstr_length [OF assms(1)]
    by (subst get_str_loop.simps) (simp add: mem_simps PRINTK_LOC_MAX_def)
qed

lemma blit_cstr: "length xs < length b \<Longrightarrow> 0 \<notin> set xs \<Longrightarrow> cstr (blit b 0 (xs @ [0])) = xs \<and> terminated (blit b 0 (xs @ [0]))"
  by (simp add: blit_def)

lemma call_flag_conv:
  assumes "pk_conv d ap = Some (x, ap')" and "get_flag d \<noteq> PRINTK_NULL" and "length x < 256"
  shows "\<exists>loc. call_flag (get_flag d) ap (replicate 4096 0) = Some (loc, ap') \<and> cstr loc = x \<and> terminated loc"
proof -
  consider (s) "d = 0x73" | (c) "d = 0x63" | (d) "d = 0x64"
    using assms(1,2) by (auto simp: pk_conv_def split: if_splits)
  then show ?thesis
  proof cases
    case s
    obtain p where p: "ap = PStr p # ap'" "terminated (case p of None \<Rightarrow> null_str | Some n \<Rightarrow> n)"
      "x = cstr (case p of None \<Rightarrow> null_str | Some n \<Rightarrow> n)"
      using assms(1) s by (auto simp: pk_conv_def Let_def split: list.splits pk_arg.splits if_splits)
    have "get_str_loop (case p of None \<Rightarrow> null_str | Some n \<Rightarrow> n) 0 (replicate 4096 0) = Some (blit (replicate 4096 0) 0 (x @ [0]))"
      using get_str_loop_blit [OF p(2), of "replicate 4096 0" 0] assms(3) p(3) by simp
    then show ?thesis using p s blit_cstr [of x "replicate 4096 0"] assms(3) cstr_no_zero by (simp add: get_flag_def)
  next
    case c
    then obtain n where n: "ap = PInt n # ap'" "x = [ucast n]" "(ucast n :: u8) \<noteq> 0"
      using assms(1) by (auto simp: pk_conv_def split: list.splits pk_arg.splits if_splits)
    have "(replicate 4096 0)[0 := ucast n, 1 := 0] = blit (replicate 4096 (0 :: u8)) 0 ([ucast n] @ [0])"
      by (intro nth_equalityI) (auto simp: mem_simps nth_list_update nth_Cons')
    then show ?thesis using n c blit_cstr [of x "replicate 4096 0"] by (simp add: get_flag_def get_char_def mem_simps)
  next
    case d
    then obtain n where n: "ap = PInt n # ap'" "x = itoa_str n"
      using assms(1) by (auto simp: pk_conv_def split: list.splits pk_arg.splits)
    then show ?thesis using d blit_cstr [of x "replicate 4096 0"] assms(3) itoa_str_no_zero
      by (simp add: get_flag_def get_int_def mem_simps)
  qed
qed

definition pk_buf :: "u8 list \<Rightarrow> u8 list" where
  "pk_buf x = x @ replicate (256 - length x) 0"

lemma pk_buf_cat:
  assumes "0 \<notin> set x" and "terminated loc" and "length x + length (cstr loc) < 256"
  shows "strcat (pk_buf x) loc = Some (pk_buf (x @ cstr loc))"
proof -
  have z: "replicate (256 - length x) (0 :: u8) = 0 # replicate (255 - length x) 0"
    using assms(3) by (simp add: Suc_diff_le flip: replicate_Suc)
  have "cstr (pk_buf x) = x" "terminated (pk_buf x)" "length (pk_buf x) = 256"
    using assms(1,3) z by (simp_all add: pk_buf_def)
  moreover have "blit (pk_buf x) (length x) (cstr loc @ [0]) = pk_buf (x @ cstr loc)"
    using assms(3) by (intro nth_equalityI) (auto simp: mem_simps pk_buf_def nth_append)
  ultimately show ?thesis using strcat_blit [of "pk_buf x" loc] assms by simp
qed

lemma pk_buf_put: "length x < 256 \<Longrightarrow> wr (pk_buf x) (length x) c = Some (pk_buf (x @ [c]))"
  by (simp add: wr_in pk_buf_def list_update_append Suc_diff_Suc [symmetric] del: replicate_Suc)
    (metis Suc_diff_Suc list_update_code(2) replicate_Suc)

lemma bzero_zero: "bzero (replicate n 0) 0 n = Some (replicate n 0)"
proof -
  have "bzero (replicate n 0) 0 n = Some (blit (replicate n 0) 0 (replicate n 0))" by (rule bzero_blit) simp
  then show ?thesis by (simp add: blit_def)
qed

lemma process_flag_conv:
  assumes "pk_conv d ap = Some (x, ap')" and "get_flag d \<noteq> PRINTK_NULL" and "0 \<notin> set w" and "length (w @ x) < 256"
  shows "process_flag (get_flag d) ap (pk_buf w) (length w) s = Some (ap', pk_buf (w @ x), length (w @ x), s)"
proof -
  obtain loc where l: "call_flag (get_flag d) ap (replicate 4096 0) = Some (loc, ap')" "cstr loc = x" "terminated loc"
    using call_flag_conv [OF assms(1,2)] assms(4) by auto
  have "bzero (replicate 4096 0) 0 4096 = Some (replicate 4096 0)" by (rule bzero_zero)
  then show ?thesis using l assms(3,4) pk_buf_cat [OF assms(3) l(3)] strlen_cstr [OF l(3)]
    by (simp add: process_flag_def PRINTK_LOC_MAX_def PRINTK_BUFF_LEN_def)
qed

lemma pk_conv_no_zero: "pk_conv d ap = Some (x, ap') \<Longrightarrow> 0 \<notin> set x"
  using cstr_no_zero itoa_str_no_zero
  by (auto simp: pk_conv_def Let_def split: if_splits list.splits pk_arg.splits option.splits)

lemma format_char:
  "terminated format \<Longrightarrow> i < length (cstr format) \<Longrightarrow> rd format i = Some (cstr format ! i)"
  using cstr_nth [of i format] cstr_length [of format] by (simp add: mem_simps)

lemma printk_conv_step:
  assumes "terminated format" and "Suc i < length (cstr format)" and "cstr format ! i = 0x25"
    and "pk_conv (cstr format ! Suc i) ap = Some (x, ap')" and "0 \<notin> set w" and "length (w @ x) < 256"
  shows "printk_loop format (length (cstr format)) i ap (pk_buf w) (length w) s =
    printk_loop format (length (cstr format)) (Suc (Suc i)) ap' (pk_buf (w @ x)) (length (w @ x)) s"
proof -
  let ?d = "cstr format ! Suc i"
  have r: "rd format i = Some 0x25" "rd format (Suc i) = Some ?d"
    using format_char [OF assms(1), of i] format_char [OF assms(1,2)] assms(2,3) by simp_all
  consider (flag) "get_flag ?d \<noteq> PRINTK_NULL" | (pct) "get_flag ?d = PRINTK_NULL" "x = [0x25]" "ap' = ap" "?d = 0x25"
    | (none) "get_flag ?d = PRINTK_NULL" "x = []" "ap' = ap" "?d \<noteq> 0x25"
    using assms(4) by (auto simp: pk_conv_def get_flag_def split: if_splits)
  then show ?thesis
  proof cases
    case flag
    then show ?thesis using r assms process_flag_conv [OF assms(4) flag assms(5,6), of s]
      by (subst printk_loop.simps) (simp add: PRINTK_BUFF_LEN_def)
  next
    case pct
    then show ?thesis using r assms pk_buf_put [of w "0x25"]
      by (subst printk_loop.simps) (simp add: PRINTK_BUFF_LEN_def)
  next
    case none
    then show ?thesis using r assms by (subst printk_loop.simps) (simp add: PRINTK_BUFF_LEN_def)
  qed
qed

lemma printk_lit_step:
  assumes "terminated format" and "i < length (cstr format)" and "cstr format ! i \<noteq> 0x25 \<or> Suc i = length (cstr format)"
    and "length w + 1 < 256"
  shows "printk_loop format (length (cstr format)) i ap (pk_buf w) (length w) s =
    printk_loop format (length (cstr format)) (Suc i) ap (pk_buf (w @ [cstr format ! i])) (length (w @ [cstr format ! i])) s"
  using assms(2-4) format_char [OF assms(1,2)] pk_buf_put [of w "cstr format ! i"]
  by (subst printk_loop.simps) (auto simp: PRINTK_BUFF_LEN_def)

lemma printk_loop_out:
  assumes "terminated format" and "pk_out (drop i (cstr format)) ap = Some r" and "i \<le> length (cstr format)"
    and "0 \<notin> set w" and "length (w @ r) < 256"
  shows "printk_loop format (length (cstr format)) i ap (pk_buf w) (length w) s = Some (pk_buf (w @ r), length (w @ r), s)"
  using assms(2-5)
proof (induction "length (cstr format) - i" arbitrary: i ap r w rule: less_induct)
  case less
  let ?f = "cstr format"
  consider (fin) "i = length ?f" | (conv) "Suc i < length ?f" "?f ! i = 0x25"
    | (lit) "i < length ?f" "?f ! i \<noteq> 0x25 \<or> Suc i = length ?f"
    using less.prems(2) by linarith
  then show ?case
  proof cases
    case fin
    then show ?thesis using less.prems by (subst printk_loop.simps) simp
  next
    case conv
    then have dr: "drop i ?f = ?f ! i # ?f ! Suc i # drop (Suc (Suc i)) ?f" by (metis Cons_nth_drop_Suc Suc_lessD)
    obtain x ap' r' where x: "pk_conv (?f ! Suc i) ap = Some (x, ap')" "pk_out (drop (Suc (Suc i)) ?f) ap' = Some r'" "r = x @ r'"
      using less.prems(1) conv unfolding dr by (auto split: bind_splits)
    have "printk_loop format (length ?f) (Suc (Suc i)) ap' (pk_buf (w @ x)) (length (w @ x)) s = Some (pk_buf ((w @ x) @ r'), length ((w @ x) @ r'), s)"
      using less.prems(3,4) x conv pk_conv_no_zero [OF x(1)] by (intro less.hyps) auto
    then show ?thesis using printk_conv_step [OF assms(1) conv x(1) less.prems(3), of s] less.prems(4) x(3) by simp
  next
    case lit
    then have dr: "drop i ?f = ?f ! i # drop (Suc i) ?f" by (simp add: Cons_nth_drop_Suc)
    obtain r' where r': "pk_out (drop (Suc i) ?f) ap = Some r'" "r = ?f ! i # r'"
      using less.prems(1) lit unfolding dr by (cases "drop (Suc i) ?f") (auto split: bind_splits if_splits)
    have "?f ! i \<noteq> 0" using cstr_nth [OF lit(1)] by simp
    then have "printk_loop format (length ?f) (Suc i) ap (pk_buf (w @ [?f ! i])) (length (w @ [?f ! i])) s =
        Some (pk_buf ((w @ [?f ! i]) @ r'), length ((w @ [?f ! i]) @ r'), s)"
      using less.prems(3,4) r' lit by (intro less.hyps) auto
    then show ?thesis using printk_lit_step [OF assms(1) lit, of w ap s] less.prems(4) r'(2) by simp
  qed
qed

lemma printk_short:
  assumes "terminated format" and "pk_out (cstr format) ap = Some r" and "length r < 256"
  shows "printk format ap s = do { s' \<leftarrow> term_write r s; Some (update_cursor (t_col s') (t_row s') s') }"
proof -
  have "bzero (replicate 256 0) 0 256 = Some (pk_buf [])" unfolding bzero_zero by (simp add: pk_buf_def)
  moreover have "printk_loop format (length (cstr format)) 0 ap (pk_buf []) 0 s = Some (pk_buf r, length r, s)"
    using printk_loop_out [OF assms(1), of 0 ap r "[]" s] assms(2,3) by simp
  ultimately show ?thesis using strlen_cstr [OF assms(1)] assms(3)
    by (simp add: printk_def PRINTK_BUFF_LEN_def flush_printk_buff_def) (simp add: pk_buf_def)
qed

section \<open>Properties\<close>

text \<open>
  Writing text without tabs never leaves the screen: every cell written lies inside the text
  buffer's \<open>width * height\<close> cells, the cursor stays on the screen, and what lies behind the screen is
  untouched.
\<close>

theorem term_write_stays_on_screen:
  assumes "term_ok s" and "0x09 \<notin> set data"
  shows "\<exists>s'. term_write data s = Some s' \<and> t_row s' < term_height s \<and> t_col s' < term_width s \<and>
    drop (term_width s * term_height s) (t_buf s') = drop (term_width s * term_height s) (t_buf s)"
  using term_write_ok [OF assms] by (auto simp: term_ok_def term_same_def)

definition demo_term :: term_state where
  "demo_term = \<lparr>t_row = 1, t_col = 2, t_color = 7, t_buf = replicate 9 0x0741, term_width = 3, term_height = 2, cursor_reg = 0\<rparr>"

theorem term_write_stays_on_screen_witness:
  "\<exists>s'. term_write [0x61, 0x62] demo_term = Some s' \<and> t_row s' = 1 \<and> t_col s' = 1 \<and> t_buf s' ! 8 = 0x0741"
proof -
  obtain s' where s': "term_write [0x61, 0x62] demo_term = Some s'" "drop 6 (t_buf s') = drop 6 (t_buf demo_term)"
    using term_write_stays_on_screen [of demo_term "[0x61, 0x62]"] by (auto simp: term_ok_def demo_term_def)
  have e: "map_option (\<lambda>s. (t_row s, t_col s)) (term_write [0x61, 0x62] demo_term) = Some (1, 1)" by code_simp
  have l: "map_option (\<lambda>s. length (t_buf s)) (term_write [0x61, 0x62] demo_term) = Some 9" by code_simp
  have "drop 6 (t_buf s') ! 2 = drop 6 (t_buf demo_term) ! 2" by (simp only: s'(2))
  then have "t_buf s' ! 8 = 0x0741" using s'(1) l by (simp add: demo_term_def)
  then show ?thesis using s'(1) e by auto
qed

text \<open>
  A line feed on the last row scrolls: every row moves up by one, the last row is blank in the
  current colour, the cursor is at its start, and nothing behind the screen changes.
\<close>

theorem newline_scrolls:
  assumes "term_ok s" and "t_row s + 1 = term_height s"
  shows "\<exists>s'. term_putchar 0x0A s = Some s' \<and> t_row s' = t_row s \<and> t_col s' = 0 \<and>
    (\<forall>y x. y < term_height s \<and> x < term_width s \<longrightarrow> t_buf s' ! (y * term_width s + x) =
       (if y + 1 < term_height s then t_buf s ! ((y + 1) * term_width s + x) else vga_entry 0x20 (t_color s))) \<and>
    drop (term_width s * term_height s) (t_buf s') = drop (term_width s * term_height s) (t_buf s)"
proof -
  let ?w = "term_width s" and ?h = "term_height s"
  let ?s1 = "s\<lparr>t_row := t_row s + 1, t_col := 0\<rparr>"
  let ?v = "vga_entry 0x20 (t_color s)"
  let ?l = "take ((?h - 1) * ?w) (drop ?w (t_buf s)) @ replicate ?w ?v"
  have ok: "0 < ?w" "0 < ?h" "?w * ?h \<le> length (t_buf s)" using assms(1) by (auto simp: term_ok_def)
  have le: "(?h - 1) * ?w + ?w = ?w * ?h" using ok(2) by (cases ?h) (auto simp: algebra_simps)
  have l: "length ?l = ?w * ?h" using ok le by simp
  let ?s' = "s\<lparr>t_row := t_row s, t_col := 0, t_buf := blit (t_buf s) 0 ?l\<rparr>"
  have "shift_terminal_content ?s1 = Some (?s1\<lparr>t_buf := blit (t_buf s) 0 ?l\<rparr>)"
    using shift_terminal_content_eq [of ?s1] ok by simp
  then have e: "term_putchar 0x0A s = Some ?s'" using assms(2) by (simp add: term_putchar_def)
  have "t_buf ?s' ! (y * ?w + x) = (if y + 1 < ?h then t_buf s ! ((y + 1) * ?w + x) else ?v)" if "y < ?h" "x < ?w" for y x
  proof -
    have i: "y * ?w + x < ?w * ?h" using cell_index [OF that] .
    have "t_buf ?s' ! (y * ?w + x) = ?l ! (y * ?w + x)" using i l ok(3) by (simp add: nth_blit)
    moreover have "y * ?w + x < (?h - 1) * ?w \<longleftrightarrow> y + 1 < ?h"
    proof
      assume "y + 1 < ?h"
      then show "y * ?w + x < (?h - 1) * ?w" using cell_index [of y "?h - 1" x ?w] that(2) by (simp add: mult.commute)
    next
      assume lt: "y * ?w + x < (?h - 1) * ?w"
      show "y + 1 < ?h"
      proof (rule ccontr)
        assume "\<not> y + 1 < ?h"
        then have "?h - 1 \<le> y" by simp
        then have "(?h - 1) * ?w \<le> y * ?w" by (rule mult_le_mono1)
        with lt show False by linarith
      qed
    qed
    ultimately show ?thesis using i l le ok(3) by (auto simp: nth_append algebra_simps)
  qed
  moreover have "drop (?w * ?h) (t_buf ?s') = drop (?w * ?h) (t_buf s)" unfolding blit_def using l by simp
  ultimately show ?thesis using e by auto
qed

theorem newline_scrolls_witness:
  "\<exists>s'. term_putchar 0x0A demo_term = Some s' \<and> t_row s' = 1 \<and> t_buf s' ! 0 = t_buf demo_term ! 3 \<and> t_buf s' ! 3 = 0x0720"
proof -
  have ok: "term_ok demo_term" "t_row demo_term + 1 = term_height demo_term" by (simp_all add: term_ok_def demo_term_def)
  obtain s' where s': "term_putchar 0x0A demo_term = Some s'" "t_row s' = t_row demo_term"
    "\<forall>y x. y < term_height demo_term \<and> x < term_width demo_term \<longrightarrow> t_buf s' ! (y * term_width demo_term + x) =
       (if y + 1 < term_height demo_term then t_buf demo_term ! ((y + 1) * term_width demo_term + x) else vga_entry 0x20 (t_color demo_term))"
    using newline_scrolls [OF ok] by blast
  have v: "vga_entry 0x20 (t_color demo_term) = 0x0720" by code_simp
  show ?thesis using s' s'(3) [rule_format, of 0 0] s'(3) [rule_format, of 1 0] v by (simp add: demo_term_def)
qed



text \<open>
  C18: \<open>flush_printk_buff\<close> resets the index but not the buffer, so a value that does not fit behind the
  text already collected is appended to stale text by \<open>strcat\<close>, past the end of the buffer: two
  strings of 200 and 100 characters in one call overrun the stack buffer.
\<close>

theorem printk_overruns_buffer:
  assumes "term_ok s" and "length xs = 200" and "length ys = 100" and "0 \<notin> set xs" and "0 \<notin> set ys" and "0x09 \<notin> set xs"
  shows "printk [0x25, 0x73, 0x25, 0x73, 0] [PStr (Some (xs @ [0])), PStr (Some (ys @ [0]))] s = None"
proof -
  let ?f = "[0x25, 0x73, 0x25, 0x73, 0] :: u8 list"
  have f: "terminated ?f" "cstr ?f = [0x25, 0x73, 0x25, 0x73]" by (simp_all add: terminated_def cstr_def)
  have n: "length (cstr ?f) = 4" "Suc 0 < length (cstr ?f)" "cstr ?f ! 0 = 0x25" "cstr ?f ! Suc 0 = 0x73" by (simp_all add: f(2))
  have "pk_conv (cstr ?f ! Suc 0) [PStr (Some (xs @ [0])), PStr (Some (ys @ [0]))] = Some (xs, [PStr (Some (ys @ [0]))])"
    unfolding n(4) using assms(4) by (simp add: pk_conv_def)
  then have "printk_loop ?f 4 0 [PStr (Some (xs @ [0])), PStr (Some (ys @ [0]))] (pk_buf []) (length ([] :: u8 list)) s =
      printk_loop ?f 4 (Suc (Suc 0)) [PStr (Some (ys @ [0]))] (pk_buf ([] @ xs)) (length ([] @ xs)) s"
    unfolding n(1) [symmetric] using assms(2) by (intro printk_conv_step [OF f(1) n(2,3)]) auto
  then have s1: "printk_loop ?f 4 0 [PStr (Some (xs @ [0])), PStr (Some (ys @ [0]))] (pk_buf []) 0 s =
      printk_loop ?f 4 2 [PStr (Some (ys @ [0]))] (pk_buf xs) 200 s"
    using assms(2) by (simp add: numeral_2_eq_2)
  obtain loc where l: "call_flag PRINTK_STR [PStr (Some (ys @ [0]))] (replicate 4096 0) = Some (loc, [])" "cstr loc = ys" "terminated loc"
    using call_flag_conv [of "0x73" "[PStr (Some (ys @ [0]))]" ys "[]"] assms by (auto simp: pk_conv_def get_flag_def)
  have z: "pk_buf xs = xs @ 0 # replicate 55 0"
    using assms(2) by (simp add: pk_buf_def numeral_eq_Suc)
  have "strcat (pk_buf xs) loc = None"
    using strcat_blit [of "pk_buf xs" loc] l assms unfolding z by simp
  moreover have "bzero (replicate 4096 0) 0 4096 = Some (replicate 4096 0)" "bzero (replicate 256 0) 0 256 = Some (pk_buf [])"
    unfolding bzero_zero by (simp_all add: pk_buf_def)
  moreover obtain s' where "flush_printk_buff (pk_buf xs) 200 s = Some s'"
    using term_write_ok [OF assms(1,6)] assms(2) by (auto simp: flush_printk_buff_def pk_buf_def)
  ultimately have "process_flag PRINTK_STR [PStr (Some (ys @ [0]))] (pk_buf xs) 200 s = None"
    using l assms(3) strlen_cstr [OF l(3)]
    by (simp add: process_flag_def PRINTK_LOC_MAX_def PRINTK_BUFF_LEN_def del: call_flag.simps)
  then have "printk_loop ?f 4 2 [PStr (Some (ys @ [0]))] (pk_buf xs) 200 s = None"
    by (subst printk_loop.simps) (simp add: rd_def get_flag_def)
  then show ?thesis using s1 \<open>bzero (replicate 256 0) 0 256 = Some (pk_buf [])\<close> strlen_cstr [OF f(1), unfolded n(1)]
    by (simp add: printk_def PRINTK_BUFF_LEN_def)
qed

theorem printk_overruns_buffer_witness:
  "printk [0x25, 0x73, 0x25, 0x73, 0] [PStr (Some (replicate 200 0x61 @ [0])), PStr (Some (replicate 100 0x62 @ [0]))] demo_term = None"
  by (rule printk_overruns_buffer) (simp_all add: term_ok_def demo_term_def)

text \<open>
  A tab in the last column leaves the column equal to the width, which the wrap-around test
  never sees: the next characters run on past the line, and on the last row past the screen.
\<close>

theorem tab_leaves_screen:
  "map_option t_col (term_putchar 0x09 demo_term) = Some 3 \<and>
   map_option (\<lambda>s. t_buf s ! 6) (term_write [0x09, 0x58] demo_term) = Some 0x0758"
proof -
  have "tab_loop True demo_term = Some (demo_term\<lparr>t_buf := (replicate 9 0x0741)[5 := 0x0720], t_col := 3\<rparr>)"
    by (subst tab_loop.simps) (simp add: demo_term_def term_putch_at_def wr_def vga_entry_def tab_loop.simps)
  then show ?thesis
    by (simp add: term_putchar_def term_putch_at_def wr_def demo_term_def vga_entry_def)
qed

end
