(* ===== verification/Usertask.thy ===== *)
theory Usertask
  imports Vmm Sched Term
begin

text \<open>
  User tasks and system calls: \<open>src/kernel/task/usertask.c\<close> and \<open>src/kernel/task/syscall.c\<close>.
  The user program's image, which the build links into the kernel, is the parameter \<open>bin\<close>.
  Bytes are read and written through the processor's translation, in little-endian order inside the
  words of the physical memory; a page fault is \<open>None\<close>.
\<close>

section \<open>Definitions\<close>

definition byte_of :: "u32 \<Rightarrow> nat \<Rightarrow> u8" where
  "byte_of w k = ucast (drop_bit (8 * k) w)"

definition set_byte :: "u32 \<Rightarrow> nat \<Rightarrow> u8 \<Rightarrow> u32" where
  "set_byte w k b = (w AND NOT (push_bit (8 * k) 0xFF)) OR push_bit (8 * k) (ucast b)"

definition vread8 :: "vm_state \<Rightarrow> u32 \<Rightarrow> u8 option" where
  "vread8 s a = map_option (\<lambda>p. byte_of (phys_mem s (unat p - unat p mod 4)) (unat p mod 4)) (translate s a)"

definition vwrite8 :: "vm_state \<Rightarrow> u32 \<Rightarrow> u8 \<Rightarrow> vm_state option" where
  "vwrite8 s a b =
     map_option (\<lambda>p. let w = unat p - unat p mod 4
                     in s\<lparr>phys_mem := (phys_mem s)(w := set_byte (phys_mem s w) (unat p mod 4) b)\<rparr>) (translate s a)"

fun vread_bytes :: "vm_state \<Rightarrow> u32 \<Rightarrow> nat \<Rightarrow> u8 list option" where
  "vread_bytes s a 0 = Some []"
| "vread_bytes s a (Suc n) = do { b \<leftarrow> vread8 s a; bs \<leftarrow> vread_bytes s (a + 1) n; Some (b # bs) }"

fun vwrite_bytes :: "vm_state \<Rightarrow> u32 \<Rightarrow> u8 list \<Rightarrow> vm_state option" where
  "vwrite_bytes s a [] = Some s"
| "vwrite_bytes s a (b # bs) = do { s' \<leftarrow> vwrite8 s a b; vwrite_bytes s' (a + 1) bs }"

definition USER_ENTRY :: u32 where
  "USER_ENTRY = 0x40000000"

definition USER_STACK_BASE :: u32 where
  "USER_STACK_BASE = 0x40010000"

definition USER_STACK_SIZE :: u32 where
  "USER_STACK_SIZE = 0x8000"

definition USER_MAX_TASKS :: nat where
  "USER_MAX_TASKS = 6"

record ut_state =
  ut_vm :: vm_state
  ut_sched :: sched_state
  g_code_mapped :: bool
  g_user_slots :: "int list"

text \<open>The part of \<open>map_user_page\<close> after the directory entry is known to point at a table.\<close>

definition map_user_entry :: "vm_state \<Rightarrow> u32 \<Rightarrow> u32 \<Rightarrow> (int \<times> vm_state) option" where
  "map_user_entry s virt phys =
     (let e = PAGE_DIR_INDEX virt;
          s1 = s\<lparr>page_directory := (page_directory s)(e := pt_entry_add_attrib (page_directory s e) (1 OR 2 OR 4))\<rparr>;
          table = page_directory s1 e AND NOT 0xfff;
          pg = table + 4 * of_nat (PAGE_TABLE_INDEX virt)
      in do { x \<leftarrow> vread s1 pg;
              s2 \<leftarrow> vwrite s1 pg (pt_entry_set_frame x phys);
              y \<leftarrow> vread s2 pg;
              s3 \<leftarrow> vwrite s2 pg (pt_entry_add_attrib y (1 OR 2 OR 4));
              Some (0, s3) })"

definition map_user_page :: "vm_state \<Rightarrow> u32 \<Rightarrow> u32 \<Rightarrow> (int \<times> vm_state) option" where
  "map_user_page s virt phys =
     (let e = PAGE_DIR_INDEX virt in
      if page_directory s e AND 1 = 0 then
        (case pm_alloc (vm_pm s) of (table, pm') \<Rightarrow>
           let s0 = s\<lparr>vm_pm := pm'\<rparr> in
           if table = 0 then Some (- 1, s0)
           else do {
             p \<leftarrow> translate s0 table;
             let s1 = zero_page s0 p;
             map_user_entry (s1\<lparr>page_directory := (page_directory s1)(e := pt_entry_set_frame (page_directory s1 e) table)\<rparr>) virt phys })
      else map_user_entry s virt phys)"

definition unmap_user_page :: "vm_state \<Rightarrow> u32 \<Rightarrow> vm_state option" where
  "unmap_user_page s virt =
     (let e = PAGE_DIR_INDEX virt in
      if page_directory s e AND 1 = 0 then Some s
      else
        let pg = (page_directory s e AND NOT 0xfff) + 4 * of_nat (PAGE_TABLE_INDEX virt)
        in do { x \<leftarrow> vread s pg;
                if x AND 1 \<noteq> 0 then vwrite (s\<lparr>vm_pm := pm_free (vm_pm s) (pt_entry_pfn x)\<rparr>) pg 0
                else Some s })"

definition usertask_ensure_code :: "u8 list \<Rightarrow> ut_state \<Rightarrow> (int \<times> ut_state) option" where
  "usertask_ensure_code bin u =
     (if g_code_mapped u then Some (0, u)
      else if length bin = 0 \<or> 4096 < length bin then Some (- 1, u)
      else case pm_alloc (vm_pm (ut_vm u)) of (phys, pm') \<Rightarrow>
        let u1 = u\<lparr>ut_vm := (ut_vm u)\<lparr>vm_pm := pm'\<rparr>\<rparr> in
        if phys = 0 then Some (- 1, u1)
        else do {
          (r, s2) \<leftarrow> map_user_page (ut_vm u1) USER_ENTRY phys;
          if r < 0 then Some (- 1, u1\<lparr>ut_vm := s2\<lparr>vm_pm := pm_free (vm_pm s2) phys\<rparr>\<rparr>)
          else do {
            s3 \<leftarrow> vwrite_bytes s2 USER_ENTRY bin;
            Some (0, u1\<lparr>ut_vm := s3, g_code_mapped := True\<rparr>) } })"

function user_slot :: "ut_state \<Rightarrow> nat \<Rightarrow> int" where
  "user_slot u i =
     (if i < USER_MAX_TASKS then
        (if g_user_slots u ! i = 0 \<or> \<not> sched_alive (ut_sched u) (of_int (g_user_slots u ! i)) then int i
         else user_slot u (Suc i))
      else - 1)"
  by pat_completeness auto
termination
  by (relation "measure (\<lambda>(u, i). USER_MAX_TASKS - i)") auto

definition utask_spawn :: "u32 \<Rightarrow> u8 list \<Rightarrow> ut_state \<Rightarrow> u8 list \<Rightarrow> (int \<times> ut_state) option" where
  "utask_spawn kstacks bin u name =
     (let slot = user_slot u 0 in
      if slot < 0 then Some (- 1, u)
      else do {
        (r, u1) \<leftarrow> usertask_ensure_code bin u;
        if r < 0 then Some (- 1, u1)
        else
          let stack_virt = USER_STACK_BASE + of_int slot * USER_STACK_SIZE in
          case pm_alloc (vm_pm (ut_vm u1)) of (phys, pm') \<Rightarrow>
            let u2 = u1\<lparr>ut_vm := (ut_vm u1)\<lparr>vm_pm := pm'\<rparr>\<rparr> in
            if phys = 0 then Some (- 1, u2)
            else do {
              s3 \<leftarrow> (if g_user_slots u2 ! nat slot \<noteq> 0 then unmap_user_page (ut_vm u2) stack_virt else Some (ut_vm u2));
              (r2, s4) \<leftarrow> map_user_page s3 stack_virt phys;
              if r2 < 0 then Some (- 1, u2\<lparr>ut_vm := s4\<lparr>vm_pm := pm_free (vm_pm s4) phys\<rparr>\<rparr>)
              else do {
                (pid', sc) \<leftarrow> sched_add kstacks (ut_sched u2) name USER_ENTRY (stack_virt + USER_STACK_SIZE - 16);
                if pid' < 0 then
                  do { s5 \<leftarrow> unmap_user_page s4 stack_virt; Some (- 1, u2\<lparr>ut_vm := s5, ut_sched := sc\<rparr>) }
                else Some (pid', u2\<lparr>ut_vm := s4, ut_sched := sc, g_user_slots := (g_user_slots u2)[nat slot := pid']\<rparr>) } } })"

subsection \<open>System calls\<close>

record sys_state =
  sys_vm :: vm_state
  sys_sched :: sched_state
  sys_term :: term_state

definition sys_write :: "sys_state \<Rightarrow> u32 \<Rightarrow> u32 \<Rightarrow> u32 \<Rightarrow> (int \<times> sys_state) option" where
  "sys_write y fd buf len =
     do { data \<leftarrow> vread_bytes (sys_vm y) buf (unat len);
          t \<leftarrow> term_write data (sys_term y);
          Some (sint len, y\<lparr>sys_term := t\<rparr>) }"

definition syscall_handler :: "sys_state \<Rightarrow> regs_t \<Rightarrow> (regs_t \<times> sys_state) outcome option" where
  "syscall_handler y re =
     (let n = r_eax re;
          y1 = y\<lparr>sys_sched := (sys_sched y)\<lparr>sched_force_switch := 0\<rparr>\<rparr>;
          re1 = re\<lparr>r_eax := 0\<rparr>
      in if n = 1 then
           do { (r, y2) \<leftarrow> sys_write y1 (r_ebx re) (r_ecx re) (r_edx re); Some (Returned (re1\<lparr>r_eax := of_int r\<rparr>, y2)) }
         else if n = 2 then
           Some (case sched_exit (sys_sched y1) of Halted \<Rightarrow> Halted | Returned sc \<Rightarrow> Returned (re1, y1\<lparr>sys_sched := sc\<rparr>))
         else if n = 3 then Some (Returned (re1\<lparr>r_eax := sched_pid (sys_sched y1)\<rparr>, y1))
         else if n = 4 then Some (Returned (re1, y1\<lparr>sys_sched := sched_yield (sys_sched y1)\<rparr>))
         else if n = 5 then Some (Returned (re1\<lparr>r_eax := timer_ticks (sys_sched y1)\<rparr>, y1))
         else Some (Returned (re1\<lparr>r_eax := 0xFFFFFFFF\<rparr>, y1)))"

section \<open>Effects on the address space\<close>

declare user_slot.simps [simp del]

lemma flags_7: "(1 OR 2 OR 4 :: u32) = 7" "(7 :: u32) = mask 3"
  by (simp_all add: mask_eq_exp_minus_1)

lemma tables_ok_dir_flags:
  assumes "tables_ok fpt s"
  shows "tables_ok fpt (s\<lparr>page_directory := (page_directory s)(e := pt_entry_add_attrib (page_directory s e) 7)\<rparr>)"
proof -
  have "(x OR 7) AND 0xFFFFF000 = x AND 0xFFFFF000" "bit (x OR 7) 0" for x :: u32
    unfolding flags_7 masks by (auto intro!: bit_eqI simp: bit_simps)
  then show ?thesis using assms by (simp add: tables_ok_def pt_entry_add_attrib_def pte_def)
qed

definition user_pte :: "u32 \<Rightarrow> u32 \<Rightarrow> u32" where
  "user_pte x phys = pt_entry_add_attrib (pt_entry_set_frame x phys) 7"

lemma map_user_page_eq:
  assumes "tables_ok fpt s" and "2048 \<le> unat v div 4096"
  shows "\<exists>s'. map_user_page s v phys = Some (0, s') \<and> tables_ok fpt s' \<and> vm_pm s' = vm_pm s \<and>
    (\<forall>j. pte fpt s' j = (if j = unat v div 4096 then user_pte (pte fpt s (unat v div 4096)) phys else pte fpt s j))"
proof -
  let ?k = "unat v div 4096" and ?e = "PAGE_DIR_INDEX v"
  let ?s1 = "s\<lparr>page_directory := (page_directory s)(?e := pt_entry_add_attrib (page_directory s ?e) 7)\<rparr>"
  note t1 = tables_ok_dir_flags [OF assms(1), of ?e]
  have p1: "pte fpt ?s1 j = pte fpt s j" for j by (simp add: pte_def)
  have "page_directory s ?e AND 1 = 1" using dir_table(3) [OF assms(1) dir_index_lt(1)] .
  then have "map_user_page s v phys = map_user_entry s v phys" by (simp add: map_user_page_def)
  moreover have "map_user_entry s v phys = Some (0, set_pte fpt ?s1 ?k (user_pte (pte fpt s ?k) phys))"
    unfolding map_user_entry_def Let_def flags_7(1) dir_table(1) [OF t1 dir_index_lt(1)] entry_pointer
    using page_lt [of v] tables_ok_set_pte [OF t1 assms(2)] t1
    by (simp add: vwrite_entry entry_access(1) pte_set_pte [OF tables_ok_fpt [OF assms(1)]] p1 user_pte_def)
  ultimately show ?thesis
    using tables_ok_set_pte [OF t1 assms(2)] p1 by (simp add: pte_set_pte [OF tables_ok_fpt [OF assms(1)]])
qed

lemma unmap_user_page_eq:
  assumes "tables_ok fpt s" and "2048 \<le> unat v div 4096"
  shows "\<exists>s'. unmap_user_page s v = Some s' \<and> tables_ok fpt s' \<and> (\<forall>j. j \<noteq> unat v div 4096 \<longrightarrow> pte fpt s' j = pte fpt s j)"
proof -
  let ?k = "unat v div 4096" and ?e = "PAGE_DIR_INDEX v"
  have d: "page_directory s ?e AND 1 = 1" using dir_table(3) [OF assms(1) dir_index_lt(1)] .
  let ?x = "pte fpt s ?k"
  let ?s' = "if ?x AND 1 \<noteq> 0 then set_pte fpt (s\<lparr>vm_pm := pm_free (vm_pm s) (pt_entry_pfn ?x)\<rparr>) ?k 0 else s"
  have "unmap_user_page s v = Some ?s'"
    unfolding unmap_user_page_def Let_def dir_table(1) [OF assms(1) dir_index_lt(1)] entry_pointer
    using d page_lt [of v] assms(1) by (simp add: vwrite_entry entry_access(1))
  moreover have "tables_ok fpt ?s'" using assms tables_ok_set_pte by simp
  moreover have "pte fpt ?s' j = pte fpt s j" if "j \<noteq> ?k" for j
    using that by (simp add: pte_set_pte [OF tables_ok_fpt [OF assms(1)]])
  ultimately show ?thesis by blast
qed

lemma user_pte_frame:
  assumes "pte_ok x" and "b < 524288"
  shows "bit (user_pte x (frame_addr b)) 0" and "user_pte x (frame_addr b) AND 0xFFFFF000 = frame_addr b"
proof -
  have x: "bit x n \<Longrightarrow> n < 31" for n using assms(1) unfolding pte_ok_bits by force
  show "bit (user_pte x (frame_addr b)) 0" "user_pte x (frame_addr b) AND 0xFFFFF000 = frame_addr b"
    using x frame_ok_addr [OF assms(2)]
    unfolding user_pte_def pt_entry_add_attrib_def pt_entry_set_frame_def flags_7 masks frame_ok_bits
    by (auto intro!: bit_eqI simp: bit_simps)
qed

lemma vwrite8_page:
  assumes "tables_ok fpt s" and "k < 1048576" and "off < 4096" and "bit (pte fpt s k) 0"
    and "pte fpt s k AND 0xFFFFF000 = frame_addr b" and "2048 \<le> b" and "b < 524288"
  shows "\<exists>s'. vwrite8 s (frame_addr k + of_nat off) x = Some s' \<and> tables_ok fpt s' \<and> (\<forall>j < 1048576. pte fpt s' j = pte fpt s j)"
proof -
  let ?v = "frame_addr k + of_nat off"
  have v: "unat ?v div 4096 = k" "unat ?v mod 4096 = off"
    unfolding unat_page_offset [OF assms(2,3)] using assms(3) by simp_all
  have m: "?v AND 0xFFF = of_nat off AND 0xFFF"
    unfolding masks word_unat_eq_iff unat_mask using v(2) assms(3) by (simp add: unat_of_nat32)
  let ?p = "frame_addr b OR (of_nat off AND 0xFFF)"
  have tr: "translate s ?v = Some ?p" unfolding walk [OF assms(1)] v(1) m using assms(4,5) by (simp add: Let_def)
  have up: "unat ?p = b * 4096 + off" using frame_or_offset [OF assms(7,3)] .
  let ?w = "unat ?p - unat ?p mod 4"
  have "8388608 \<le> unat ?p" using up assms(6) by simp
  then have hi: "8388608 \<le> ?w"
    unfolding minus_mod_eq_div_mult using div_le_mono [of 8388608 "unat ?p" 4] by simp
  let ?s' = "s\<lparr>phys_mem := (phys_mem s)(?w := set_byte (phys_mem s ?w) (unat ?p mod 4) x)\<rparr>"
  have p: "pte fpt ?s' j = pte fpt s j" if "j < 1048576" for j
    using pte_addr_bound [OF tables_ok_fpt [OF assms(1)] that] hi by (simp add: pte_def)
  then have "tables_ok fpt ?s'" using assms(1) unfolding tables_ok_def by simp
  then show ?thesis using tr p by (simp add: vwrite8_def Let_def)
qed

lemma vwrite_bytes_page:
  assumes "k < 1048576" and "2048 \<le> b" and "b < 524288"
  shows "tables_ok fpt s \<Longrightarrow> off + length bs \<le> 4096 \<Longrightarrow> bit (pte fpt s k) 0 \<Longrightarrow> pte fpt s k AND 0xFFFFF000 = frame_addr b \<Longrightarrow>
    \<exists>s'. vwrite_bytes s (frame_addr k + of_nat off) bs = Some s' \<and> tables_ok fpt s' \<and> (\<forall>j < 1048576. pte fpt s' j = pte fpt s j)"
proof (induction bs arbitrary: s off)
  case (Cons x bs)
  have lt: "off < 4096" using Cons.prems(2) by simp
  obtain s1 where s1: "vwrite8 s (frame_addr k + of_nat off) x = Some s1" "tables_ok fpt s1" "\<forall>j < 1048576. pte fpt s1 j = pte fpt s j"
    using vwrite8_page [OF Cons.prems(1) assms(1) lt Cons.prems(3,4) assms(2,3)] by blast
  have eq: "frame_addr k + of_nat off + 1 = frame_addr k + of_nat (Suc off)" by simp
  obtain s' where "vwrite_bytes s1 (frame_addr k + of_nat (Suc off)) bs = Some s'" "tables_ok fpt s'" "\<forall>j < 1048576. pte fpt s' j = pte fpt s1 j"
    using Cons.IH [OF s1(2), of "Suc off"] Cons.prems(2-4) s1(3) assms(1) by auto
  then show ?case using s1 unfolding vwrite_bytes.simps eq by simp
qed auto

section \<open>Spawning\<close>

definition user_ok :: "nat \<Rightarrow> ut_state \<Rightarrow> bool" where
  "user_ok fpt u \<longleftrightarrow> tables_ok fpt (ut_vm u) \<and> pm_inv (vm_pm (ut_vm u)) \<and> managed (vm_pm (ut_vm u)) \<le> 524288 \<and>
     (\<forall>b < 2048. frame_used (vm_pm (ut_vm u)) b) \<and> (g_code_mapped u \<or> pte_ok (pte fpt (ut_vm u) 262144))"

lemma user_entry_page: "unat USER_ENTRY div 4096 = 262144" "USER_ENTRY = frame_addr 262144 + of_nat 0"
  by (simp_all add: USER_ENTRY_def frame_addr_def)

lemma usertask_ensure_code_spec:
  assumes "user_ok fpt u" and "usertask_ensure_code bin u = Some (r, u')" and "0 \<le> r"
  shows "tables_ok fpt (ut_vm u') \<and> ut_sched u' = ut_sched u \<and> g_user_slots u' = g_user_slots u \<and>
    (\<forall>j < 1048576. j \<noteq> 262144 \<longrightarrow> pte fpt (ut_vm u') j = pte fpt (ut_vm u) j)"
proof (cases "g_code_mapped u")
  case True
  then show ?thesis using assms by (simp add: usertask_ensure_code_def user_ok_def)
next
  case False
  note u = assms(1) [unfolded user_ok_def]
  obtain phys pm' where a: "pm_alloc (vm_pm (ut_vm u)) = (phys, pm')" by fastforce
  have len: "length bin \<noteq> 0" "length bin \<le> 4096" "phys \<noteq> 0"
    using assms(2,3) False a by (auto simp: usertask_ensure_code_def split: if_splits)
  obtain b where b: "b < managed (vm_pm (ut_vm u))" "\<not> frame_used (vm_pm (ut_vm u)) b" "phys = frame_addr b"
    using pm_alloc_spec [of "vm_pm (ut_vm u)"] u a len(3) by auto
  have b2: "2048 \<le> b" "b < 524288" using b u by (auto simp: not_less [symmetric])
  let ?s1 = "(ut_vm u)\<lparr>vm_pm := pm'\<rparr>"
  obtain s2 where s2: "map_user_page ?s1 USER_ENTRY phys = Some (0, s2)" "tables_ok fpt s2"
    "\<forall>j. pte fpt s2 j = (if j = 262144 then user_pte (pte fpt (ut_vm u) 262144) phys else pte fpt (ut_vm u) j)"
    using map_user_page_eq [of fpt ?s1 USER_ENTRY phys] u unfolding user_entry_page(1) by auto
  have f: "bit (pte fpt s2 262144) 0" "pte fpt s2 262144 AND 0xFFFFF000 = frame_addr b"
    using user_pte_frame [of "pte fpt (ut_vm u) 262144" b] s2(3) u False b(3) b2 by simp_all
  obtain s3 where s3: "vwrite_bytes s2 USER_ENTRY bin = Some s3" "tables_ok fpt s3" "\<forall>j < 1048576. pte fpt s3 j = pte fpt s2 j"
    using vwrite_bytes_page [OF _ b2 s2(2) _ f, of 0 bin] len(2) unfolding user_entry_page(2) by auto
  have "usertask_ensure_code bin u = Some (0, u\<lparr>ut_vm := s3, g_code_mapped := True\<rparr>)"
    using False len a s2(1) s3(1) by (simp add: usertask_ensure_code_def)
  then show ?thesis using assms(2) s3 s2(3) by auto
qed

lemma stack_pages:
  assumes "slot < 6"
  shows "unat (USER_STACK_BASE + of_nat slot * USER_STACK_SIZE) div 4096 = 262160 + 8 * slot"
    and "unat (USER_STACK_BASE + of_nat slot * USER_STACK_SIZE + USER_STACK_SIZE - 16) div 4096 = 262167 + 8 * slot"
proof -
  consider "slot = 0" | "slot = 1" | "slot = 2" | "slot = 3" | "slot = 4" | "slot = 5" using assms by linarith
  then show "unat (USER_STACK_BASE + of_nat slot * USER_STACK_SIZE) div 4096 = 262160 + 8 * slot"
    by cases (simp_all add: USER_STACK_BASE_def USER_STACK_SIZE_def)
  consider "slot = 0" | "slot = 1" | "slot = 2" | "slot = 3" | "slot = 4" | "slot = 5" using assms by linarith
  then show "unat (USER_STACK_BASE + of_nat slot * USER_STACK_SIZE + USER_STACK_SIZE - 16) div 4096 = 262167 + 8 * slot"
    by cases (simp_all add: USER_STACK_BASE_def USER_STACK_SIZE_def)
qed

lemma user_slot_range: "user_slot u i = - 1 \<or> (\<exists>j < 6. user_slot u i = int j)"
  by (induction u i rule: user_slot.induct) (subst (1 2) user_slot.simps, auto simp: USER_MAX_TASKS_def)

lemma utask_spawn_stack:
  assumes "user_ok fpt u" and "utask_spawn kstacks bin u name = Some (p, u')" and "0 \<le> p"
  shows "\<exists>slot < 6. let esp = USER_STACK_BASE + of_nat slot * USER_STACK_SIZE + USER_STACK_SIZE - 16 in
    sched_add kstacks (ut_sched u) name USER_ENTRY esp = Some (p, ut_sched u') \<and> tables_ok fpt (ut_vm u') \<and>
    pte fpt (ut_vm u') (262167 + 8 * slot) = pte fpt (ut_vm u) (262167 + 8 * slot)"
proof -
  obtain slot where slot: "user_slot u 0 = int slot" "slot < 6"
    using user_slot_range [of u 0] assms(2,3) by (auto simp: utask_spawn_def)
  let ?stk = "USER_STACK_BASE + of_nat slot * USER_STACK_SIZE"
  obtain r u1 where e: "usertask_ensure_code bin u = Some (r, u1)"
    using assms(2) slot by (cases "usertask_ensure_code bin u") (auto simp: utask_spawn_def Let_def)
  then have r: "0 \<le> r" using assms(2,3) slot by (auto simp: utask_spawn_def Let_def split: if_splits)
  note c = usertask_ensure_code_spec [OF assms(1) e r]
  obtain phys pm' where a: "pm_alloc (vm_pm (ut_vm u1)) = (phys, pm')" by fastforce
  let ?s2 = "(ut_vm u1)\<lparr>vm_pm := pm'\<rparr>"
  have k: "2048 \<le> unat ?stk div 4096" using stack_pages(1) [OF slot(2)] by simp
  obtain s3 where s3: "(if g_user_slots u1 ! slot \<noteq> 0 then unmap_user_page ?s2 ?stk else Some ?s2) = Some s3" "tables_ok fpt s3"
    "\<forall>j. j \<noteq> unat ?stk div 4096 \<longrightarrow> pte fpt s3 j = pte fpt (ut_vm u1) j"
    using unmap_user_page_eq [of fpt ?s2 ?stk] k c by (cases "g_user_slots u1 ! slot \<noteq> 0") auto
  obtain s4 where s4: "map_user_page s3 ?stk phys = Some (0, s4)" "tables_ok fpt s4"
    "\<forall>j. j \<noteq> unat ?stk div 4096 \<longrightarrow> pte fpt s4 j = pte fpt s3 j"
    using map_user_page_eq [OF s3(2) k, of phys] by auto
  have "sched_add kstacks (ut_sched u) name USER_ENTRY (?stk + USER_STACK_SIZE - 16) = Some (p, ut_sched u') \<and> ut_vm u' = s4"
    using assms(2,3) slot e r a s3(1) s4(1) c
    by (auto simp: utask_spawn_def Let_def split: if_splits bind_splits)
  moreover have "pte fpt s4 (262167 + 8 * slot) = pte fpt (ut_vm u) (262167 + 8 * slot)"
    using s3(3) s4(3) c slot(2) stack_pages(1) [OF slot(2)] by simp
  ultimately show ?thesis using slot(2) s4(2) by (auto simp: Let_def intro!: exI [of _ slot])
qed

section \<open>Properties\<close>

text \<open>
  A spawned task starts on a stack that is not there.  \<open>utask_spawn\<close> maps one page at the bottom
  of the 32 KB stack region but puts the initial stack pointer at its top, seven pages above: if that
  page was not mapped before, the stack pointer of the new task faults.
\<close>

theorem utask_spawn_stack_unmapped:
  assumes "user_ok fpt u" and "utask_spawn kstacks bin u name = Some (p, u')" and "0 \<le> p"
    and "sched_inv (ut_sched u)" and "terminated name"
    and "\<forall>slot < 6. \<not> mapped fpt (ut_vm u) (262167 + 8 * slot)"
  shows "\<exists>i < 8. \<exists>fr. let t = g_tasks (ut_sched u') ! i in tstate t = S_RUNNABLE \<and> pid t = g_next_pid (ut_sched u) \<and>
    frames (ut_sched u') (saved_esp t) = Some fr \<and> r_eip fr = USER_ENTRY \<and> translate (ut_vm u') (r_useresp fr) = None"
proof -
  obtain slot where slot: "slot < 6" and
    s: "sched_add kstacks (ut_sched u) name USER_ENTRY (USER_STACK_BASE + of_nat slot * USER_STACK_SIZE + USER_STACK_SIZE - 16) = Some (p, ut_sched u')"
      "tables_ok fpt (ut_vm u')" "pte fpt (ut_vm u') (262167 + 8 * slot) = pte fpt (ut_vm u) (262167 + 8 * slot)"
    using utask_spawn_stack [OF assms(1-3)] by (auto simp: Let_def)
  let ?esp = "USER_STACK_BASE + of_nat slot * USER_STACK_SIZE + USER_STACK_SIZE - 16"
  have "sched_added kstacks (ut_sched u) (ut_sched u') USER_ENTRY ?esp"
    using sched_add_spec [OF assms(4,5), of kstacks USER_ENTRY ?esp] s(1) assms(3) by auto
  then obtain i where "i < 8" "let t = g_tasks (ut_sched u') ! i in pid t = g_next_pid (ut_sched u) \<and> tstate t = S_RUNNABLE \<and>
      frames (ut_sched u') (saved_esp t) = Some (ring3_frame USER_ENTRY ?esp)"
    by (auto simp: sched_added_def Let_def)
  moreover have "translate (ut_vm u') ?esp = None"
    using translate_mapped [OF s(2)] stack_pages(2) [OF slot] s(3) assms(6) slot by (simp add: mapped_def)
  ultimately show ?thesis by (auto simp: Let_def ring3_frame_def intro!: exI [of _ i])
qed

definition demo_user :: ut_state where
  "demo_user = \<lparr>ut_vm = demo_vm, ut_sched = demo_sched, g_code_mapped = True, g_user_slots = replicate 6 0\<rparr>"

lemma demo_user_ok: "user_ok 0x200000 demo_user"
  using vm_inv_simps [OF demo_vm_inv(1)] demo_vm_inv(1) by (auto simp: user_ok_def demo_user_def vm_inv_def heap_ok_def)

lemma demo_spawn: "\<exists>u'. utask_spawn 0x300000 [0x90] demo_user [0x61, 0] = Some (2, u')"
proof -
  have slot: "user_slot demo_user 0 = 0" by (subst user_slot.simps) (simp add: demo_user_def USER_MAX_TASKS_def)
  have e: "usertask_ensure_code [0x90] demo_user = Some (0, demo_user)" by (simp add: usertask_ensure_code_def demo_user_def)
  obtain b where b: "free_run (vm_pm demo_vm) 3 b" using demo_can_alloc by (auto simp: can_alloc_def)
  then have fr: "b < managed (vm_pm demo_vm)" "\<not> frame_used (vm_pm demo_vm) b" by (auto simp: free_run_def run_at_def)
  then obtain phys pm' where a: "pm_alloc (vm_pm demo_vm) = (phys, pm')" "phys \<noteq> 0"
    using pm_alloc_spec [OF vm_inv_simps(3) [OF demo_vm_inv(1)]] frame_addr_nonzero [OF vm_inv_simps(3) [OF demo_vm_inv(1)]] by blast
  have k: "2048 \<le> unat USER_STACK_BASE div 4096" by (simp add: USER_STACK_BASE_def)
  obtain s4 where s4: "map_user_page (demo_vm\<lparr>vm_pm := pm'\<rparr>) USER_STACK_BASE phys = Some (0, s4)"
    using map_user_page_eq [of "0x200000" "demo_vm\<lparr>vm_pm := pm'\<rparr>" USER_STACK_BASE phys] vm_inv_simps(1) [OF demo_vm_inv(1)] k by auto
  have inv: "sched_inv demo_sched" using sched_reach_inv [OF demo_sched_reach] by blast
  have n: "\<not> (\<forall>j < 8. live (status demo_sched j))" "sint (g_next_pid demo_sched) = 2" by code_simp+
  have "terminated [0x61, 0]" by (simp add: terminated_def)
  then obtain sc where "sched_add 0x300000 demo_sched [0x61, 0] USER_ENTRY (USER_STACK_BASE + USER_STACK_SIZE - 16) = Some (2, sc)"
    using sched_add_spec [OF inv, of "[0x61, 0]" "0x300000" USER_ENTRY "USER_STACK_BASE + USER_STACK_SIZE - 16"] n by auto
  then show ?thesis using slot e a s4 by (simp add: utask_spawn_def Let_def demo_user_def)
qed

theorem utask_spawn_stack_unmapped_witness:
  "\<exists>u' i fr. utask_spawn 0x300000 [0x90] demo_user [0x61, 0] = Some (2, u') \<and>
     frames (ut_sched u') (saved_esp (g_tasks (ut_sched u') ! i)) = Some fr \<and> translate (ut_vm u') (r_useresp fr) = None"
proof -
  obtain u' where u': "utask_spawn 0x300000 [0x90] demo_user [0x61, 0] = Some (2, u')" using demo_spawn by blast
  have "sched_inv (ut_sched demo_user)" using sched_reach_inv [OF demo_sched_reach] by (simp add: demo_user_def)
  moreover have "terminated [0x61, 0]" by (simp add: terminated_def)
  moreover have "\<forall>slot < 6. \<not> mapped 0x200000 (ut_vm demo_user) (262167 + 8 * slot)"
    using demo_vm_inv(2) by (auto simp: demo_user_def)
  ultimately show ?thesis
    using utask_spawn_stack_unmapped [OF demo_user_ok u'] u' by (auto simp: Let_def)
qed

text \<open>
  C32: \<open>SYS_EXIT\<close> ends the calling task for good.  If another task is live, the call returns to the stub
  with a forced switch to a runnable task at that task's saved stack pointer, the caller is a zombie
  whose slot can be reused, and the scheduler is consistent; only when no other task is live does
  the kernel halt.  The terminal and the address space are not touched.
\<close>

theorem syscall_exit_switches:
  assumes "sched_inv (sys_sched y)" and "r_eax re = 2"
  shows "if \<exists>j < 8. j \<noteq> g_cur (sys_sched y) \<and> live (status (sys_sched y) j)
    then \<exists>y'. syscall_handler y re = Some (Returned (re\<lparr>r_eax := 0\<rparr>, y')) \<and> sys_vm y' = sys_vm y \<and> sys_term y' = sys_term y \<and>
      (let s = sys_sched y; s' = sys_sched y' in sched_inv s' \<and> status s' (g_cur s) = S_ZOMBIE \<and>
         g_cur s' \<noteq> g_cur s \<and> status s (g_cur s') = S_RUNNABLE \<and> sched_next_esp s' = saved_esp (g_tasks s ! g_cur s') \<and>
         sched_force_switch s' = 1)
    else syscall_handler y re = Some Halted"
proof -
  let ?s = "(sys_sched y)\<lparr>sched_force_switch := 0\<rparr>"
  have inv: "sched_inv ?s" using assms(1) by (simp add: sched_inv_def)
  have h: "syscall_handler y re = Some (case sched_exit ?s of Halted \<Rightarrow> Halted
      | Returned sc \<Rightarrow> Returned (re\<lparr>r_eax := 0\<rparr>, y\<lparr>sys_sched := sc\<rparr>))"
    using assms(2) by (auto simp: syscall_handler_def Let_def split: outcome.splits)
  have force: "sched_force_switch sc = 1" if "sched_exit ?s = Returned sc" for sc
    using that inv by (auto simp: sched_exit_def sched_inv_def Let_def split: if_splits prod.splits)
  show ?thesis using sched_exit_spec [OF inv]
  proof (elim disjE exE conjE)
    fix i s' assume e: "sched_exit ?s = Returned s'" and i: "i < 8" "i \<noteq> g_cur ?s" "status ?s i = S_RUNNABLE" and
      r: "sched_inv s'" "g_cur s' = i" "status s' (g_cur ?s) = S_ZOMBIE" "sched_next_esp s' = saved_esp (g_tasks ?s ! i)"
    have "\<exists>j < 8. j \<noteq> g_cur (sys_sched y) \<and> live (status (sys_sched y) j)" using i by (auto simp: live_def)
    then show ?thesis using h e i r force [OF e] by (simp add: Let_def)
  qed (use h in auto)
qed

theorem syscall_exit_switches_witness:
  "\<exists>y'. syscall_handler \<lparr>sys_vm = demo_vm, sys_sched = demo_sched, sys_term = demo_term\<rparr> (regs_zero\<lparr>r_eax := 2\<rparr>) =
     Some (Returned (regs_zero\<lparr>r_eax := 0\<rparr>, y')) \<and> status (sys_sched y') 0 = S_ZOMBIE"
proof -
  let ?y = "\<lparr>sys_vm = demo_vm, sys_sched = demo_sched, sys_term = demo_term\<rparr>"
  have e: "\<exists>j < 8. j \<noteq> g_cur (sys_sched ?y) \<and> live (status (sys_sched ?y) j)" "g_cur demo_sched = 0"
    unfolding sys_state.simps by code_simp+
  have "sched_inv (sys_sched ?y)" using sched_reach_inv [OF demo_sched_reach] by simp
  then show ?thesis
    using syscall_exit_switches [of ?y "regs_zero\<lparr>r_eax := 2\<rparr>"] unfolding if_P [OF e(1)] by (auto simp: Let_def e(2))
qed

end
