(* ===== verification/Inet.thy ===== *)
theory Inet
  imports Kstring
begin

text \<open>
  Addresses, byte order and checksums of \<open>src/kernel/net/network.c\<close>.

  \<open>net_ip4_t\<close> and \<open>net_mac_t\<close> are structures around arrays of 4 and 6 bytes and are lists here; comparing two
  whole arrays with \<open>memcmp\<close> is equality.  The processor is little-endian: \<open>le16\<close> and \<open>le32\<close> are the bytes of a field in
  memory, \<open>rd16\<close> and \<open>rd32\<close> read one.  An out parameter is returned; \<open>Some None\<close> is the result -1.
\<close>

section \<open>Definitions\<close>

type_synonym net_ip4_t = "u8 list"
type_synonym net_mac_t = "u8 list"

definition ip4_to_u32 :: "net_ip4_t \<Rightarrow> u32" where
  "ip4_to_u32 ip = push_bit 24 (ucast (ip ! 0)) OR push_bit 16 (ucast (ip ! 1)) OR push_bit 8 (ucast (ip ! 2)) OR ucast (ip ! 3)"

definition u32_to_ip4 :: "u32 \<Rightarrow> net_ip4_t" where
  "u32_to_ip4 v = [ucast (drop_bit 24 v AND 0xFF), ucast (drop_bit 16 v AND 0xFF), ucast (drop_bit 8 v AND 0xFF), ucast (v AND 0xFF)]"

text \<open>The loop of \<open>ip4_to_string\<close> over the octets still to be printed; \<open>tmp\<close> is overwritten by each \<open>itoa_buf\<close>.\<close>

fun ip4_octets :: "bool \<Rightarrow> u8 list \<Rightarrow> u8 list \<Rightarrow> nat \<Rightarrow> nat \<Rightarrow> (int \<times> u8 list) option" where
  "ip4_octets first [] out n used = (if used < n then do { b \<leftarrow> wr out used 0; Some (0, b) } else Some (0, out))"
| "ip4_octets first (o1 # os) out n used =
     do {
       (b, u) \<leftarrow> (if \<not> first \<and> used + 1 < n then do { b \<leftarrow> wr out used 0x2E; Some (b, used + 1) } else Some (out, used));
       tmp \<leftarrow> itoa_buf (ucast o1) (replicate 4 0);
       tl \<leftarrow> strlen tmp;
       if n \<le> u + tl then Some (- 1, b)
       else do { b' \<leftarrow> memcpy b u tmp 0 tl; ip4_octets False os b' n (u + tl) } }"

definition ip4_to_string :: "net_ip4_t \<Rightarrow> u8 list \<Rightarrow> nat \<Rightarrow> (int \<times> u8 list) option" where
  "ip4_to_string ip out n = ip4_octets True ip out n 0"

text \<open>The loop of \<open>string_to_ip4\<close>; \<open>octets\<close> holds the \<open>idx\<close> octets read so far.\<close>

function parse_octets :: "u8 list \<Rightarrow> nat \<Rightarrow> nat list \<Rightarrow> nat \<Rightarrow> net_ip4_t option option" where
  "parse_octets s p octets cur =
     do {
       c \<leftarrow> rd s p;
       if c = 0 then
         (if length octets \<noteq> 3 then Some None else Some (Some (map of_nat (octets @ [cur]))))
       else if 0x30 \<le> sint c \<and> sint c \<le> 0x39 then
         (let cur' = cur * 10 + (unat c - 0x30) in if 255 < cur' then Some None else parse_octets s (Suc p) octets cur')
       else if c = 0x2E then
         (if 3 \<le> length octets then Some None else parse_octets s (Suc p) (octets @ [cur]) 0)
       else Some None }"
  by pat_completeness auto
termination
  by (relation "measure (\<lambda>(s, p, octets, cur). length s - p)") (auto dest: rd_SomeD)

definition string_to_ip4 :: "u8 list option \<Rightarrow> net_ip4_t option option" where
  "string_to_ip4 sp = (case sp of None \<Rightarrow> Some None | Some s \<Rightarrow> parse_octets s 0 [] 0)"

definition htons16 :: "u16 \<Rightarrow> u16" where
  "htons16 x = drop_bit 8 x OR push_bit 8 x"

definition htons32 :: "u32 \<Rightarrow> u32" where
  "htons32 x = (drop_bit 24 x AND 0xFF) OR (drop_bit 8 x AND 0xFF00) OR (push_bit 8 x AND 0xFF0000) OR (push_bit 24 x AND 0xFF000000)"

definition ntohs32 :: "u32 \<Rightarrow> u32" where
  "ntohs32 x = htons32 x"

definition le16 :: "u16 \<Rightarrow> u8 list" where
  "le16 x = [ucast x, ucast (drop_bit 8 x)]"

definition le32 :: "u32 \<Rightarrow> u8 list" where
  "le32 x = [ucast x, ucast (drop_bit 8 x), ucast (drop_bit 16 x), ucast (drop_bit 24 x)]"

definition rd16 :: "u8 list \<Rightarrow> nat \<Rightarrow> u16 option" where
  "rd16 b p = do { x \<leftarrow> rd b p; y \<leftarrow> rd b (p + 1); Some (ucast x OR push_bit 8 (ucast y)) }"

definition rd32 :: "u8 list \<Rightarrow> nat \<Rightarrow> u32 option" where
  "rd32 b p = do { x \<leftarrow> rd b p; y \<leftarrow> rd b (p + 1); z \<leftarrow> rd b (p + 2); w \<leftarrow> rd b (p + 3);
     Some (ucast x OR push_bit 8 (ucast y) OR push_bit 16 (ucast z) OR push_bit 24 (ucast w)) }"

text \<open>The 16-bit value of two bytes in network order.\<close>

definition be16 :: "u8 \<Rightarrow> u8 \<Rightarrow> u16" where
  "be16 x y = push_bit 8 (ucast x) OR ucast y"

subsection \<open>Checksums\<close>

function sum_words :: "u8 list \<Rightarrow> nat \<Rightarrow> nat \<Rightarrow> u32 \<Rightarrow> u32 option" where
  "sum_words data p len acc =
     (if 1 < len then do { x \<leftarrow> rd data p; y \<leftarrow> rd data (p + 1); sum_words data (p + 2) (len - 2) (acc + ucast (be16 x y)) }
      else if len \<noteq> 0 then do { x \<leftarrow> rd data p; Some (acc + ucast (be16 x 0)) }
      else Some acc)"
  by pat_completeness auto
termination
  by (relation "measure (\<lambda>(data, p, len, acc). len)") auto

lemma fold_less: "drop_bit 16 (x :: u32) \<noteq> 0 \<Longrightarrow> unat ((x AND 0xFFFF) + drop_bit 16 x) = unat x mod 65536 + unat x div 65536
    \<and> unat x mod 65536 + unat x div 65536 < unat x"
proof -
  assume nz: "drop_bit 16 x \<noteq> 0"
  have d: "unat (drop_bit 16 x) = unat x div 65536" using unat_drop [of 16] by simp
  have m: "unat (x AND 0xFFFF) = unat x mod 65536" using unat_mask [of x 16] by (simp add: mask_numeral)
  have lt: "unat x < 4294967296" by (rule unat_less_2p32)
  have pos: "0 < unat x div 65536" using nz d by (metis gr0I unsigned_eq_0_iff)
  have "unat x mod 65536 + unat x div 65536 < unat x"
    using pos div_mult_mod_eq [of "unat x" 65536] by linarith
  then show ?thesis using lt d m by (subst unat_plus_nowrap32) auto
qed

function fold_sum :: "u32 \<Rightarrow> u32" where
  "fold_sum acc = (if drop_bit 16 acc \<noteq> 0 then fold_sum ((acc AND 0xFFFF) + drop_bit 16 acc) else acc)"
  by pat_completeness auto
termination
  by (relation "measure unat") (use fold_less in auto)

definition ip_checksum :: "u8 list \<Rightarrow> nat \<Rightarrow> u16 option" where
  "ip_checksum data len = do { acc \<leftarrow> sum_words data 0 len 0; Some (ucast (NOT (fold_sum acc))) }"

definition icmp_checksum :: "u8 list \<Rightarrow> nat \<Rightarrow> u16 option" where
  "icmp_checksum data len = do { acc \<leftarrow> sum_words data 0 len 0; Some (ucast (NOT (fold_sum acc))) }"

definition ones_complement :: "u32 \<Rightarrow> u16" where
  "ones_complement acc = ucast (NOT (fold_sum acc))"

definition tcp_checksum :: "u8 list \<Rightarrow> u8 list \<Rightarrow> u8 \<Rightarrow> u8 list \<Rightarrow> nat \<Rightarrow> u16 option" where
  "tcp_checksum src_ip dst_ip proto tcp tcp_len =
     do { s1 \<leftarrow> sum_words src_ip 0 4 0;
          s2 \<leftarrow> sum_words dst_ip 0 4 s1;
          s3 \<leftarrow> sum_words tcp 0 tcp_len (s2 + ucast proto + of_nat tcp_len);
          Some (ones_complement s3) }"

section \<open>One's complement sums\<close>

declare sum_words.simps [simp del] fold_sum.simps [simp del] parse_octets.simps [simp del]

text \<open>
  The reference: the sum of the 16-bit words as a natural number, and its value in one's complement
  arithmetic, where 65535 represents 0 unless every word is 0.
\<close>

fun word_sum :: "u8 list \<Rightarrow> nat" where
  "word_sum [] = 0"
| "word_sum [x] = 256 * unat x"
| "word_sum (x # y # xs) = 256 * unat x + unat y + word_sum xs"

definition oc_norm :: "nat \<Rightarrow> nat" where
  "oc_norm n = (if n = 0 then 0 else if n mod 65535 = 0 then 65535 else n mod 65535)"

lemma unat_ucast_u8: "unat (ucast (x :: u8) :: u16) = unat x" "unat (ucast (x :: u8) :: u32) = unat x"
  by (simp_all add: unsigned_ucast_eq take_bit_nat_eq_self_iff) (use unat_less_256 [of x] in auto)

lemma unat_be16: "unat (be16 x y) = 256 * unat x + unat y"
proof -
  have "unat (push_bit 8 (ucast x :: u16)) = 256 * unat x"
    using unat_less_256 [of x] by (simp add: push_bit_eq_mult unat_word_ariths unat_ucast_u8)
  moreover have "push_bit 8 (ucast x) AND (ucast y :: u16) = 0"
    by (rule bit_eqI) (auto simp: bit_simps dest: bit_imp_le_length)
  ultimately show ?thesis unfolding be16_def by (simp add: unat_or_disjoint unat_ucast_u8)
qed

lemma unat_be16_32: "unat (ucast (be16 x y) :: u32) = 256 * unat x + unat y"
  using unat_less_65536 [of "be16 x y"] by (simp add: unsigned_ucast_eq take_bit_nat_eq_self_iff unat_be16)

lemma word_sum_le: "word_sum xs \<le> 65535 * ((length xs + 1) div 2)"
proof (induction xs rule: word_sum.induct)
  case (3 x y xs)
  then show ?case using unat_less_256 [of x] unat_less_256 [of y] by simp
next
  case (2 x)
  then show ?case using unat_less_256 [of x] by simp
qed simp

lemma sum_words_spec:
  assumes "p + len \<le> length data" and "unat acc + word_sum (take len (drop p data)) < 4294967296"
  shows "\<exists>r. sum_words data p len acc = Some r \<and> unat r = unat acc + word_sum (take len (drop p data))"
  using assms
proof (induction data p len acc rule: sum_words.induct)
  case (1 data p len acc)
  consider "len = 0" | "len = 1" | "1 < len" by linarith
  then show ?case
  proof cases
    case 1
    then show ?thesis by (subst sum_words.simps) simp
  next
    case 2
    then have "take len (drop p data) = [data ! p]" using "1.prems"(1) by (simp add: take_Suc_conv_app_nth)
    moreover have "unat (acc + ucast (be16 (data ! p) 0)) = unat acc + 256 * unat (data ! p)"
      using "1.prems"(2) calculation unat_be16_32 [of "data ! p" 0] by (subst unat_plus_nowrap32) simp_all
    moreover have "sum_words data p len acc = Some (acc + ucast (be16 (data ! p) 0))"
      using 2 "1.prems"(1) by (subst sum_words.simps) (simp add: rd_in)
    ultimately show ?thesis by simp
  next
    case 3
    then obtain n where n: "len = Suc (Suc n)" using that [of "len - 2"] by simp
    have c: "take len (drop p data) = data ! p # data ! Suc p # take n (drop (Suc (Suc p)) data)"
      using "1.prems"(1) n by (simp add: Cons_nth_drop_Suc [symmetric])
    let ?s = "acc + ucast (be16 (data ! p) (data ! (p + 1)))"
    have s: "unat ?s = unat acc + 256 * unat (data ! p) + unat (data ! Suc p)"
      using "1.prems"(2) unat_be16_32 [of "data ! p" "data ! (p + 1)"] unfolding c
      by (subst unat_plus_nowrap32) simp_all
    have "p + 2 + (len - 2) \<le> length data" using "1.prems"(1) n by simp
    moreover have "unat ?s + word_sum (take (len - 2) (drop (p + 2) data)) < 4294967296"
      using "1.prems"(2) s n unfolding c by simp
    ultimately obtain r where "sum_words data (p + 2) (len - 2) ?s = Some r" "unat r = unat ?s + word_sum (take (len - 2) (drop (p + 2) data))"
      using "1.IH" [OF 3, of "data ! p" "data ! (p + 1)"] "1.prems"(1) n by (auto simp: rd_in)
    moreover have "sum_words data p len acc = sum_words data (p + 2) (len - 2) ?s"
      using 3 "1.prems"(1) n by (subst sum_words.simps) (simp add: rd_in)
    ultimately show ?thesis using s n unfolding c by simp
  qed
qed

lemma oc_norm_fold: "65536 \<le> n \<Longrightarrow> oc_norm (n mod 65536 + n div 65536) = oc_norm n"
proof -
  assume n: "65536 \<le> n"
  have "n = n mod 65536 + n div 65536 + 65535 * (n div 65536)" using div_mult_mod_eq [of n 65536] by simp
  then have "n mod 65535 = (n mod 65536 + n div 65536) mod 65535" by (metis mod_mult_self2)
  then show ?thesis using n by (auto simp: oc_norm_def)
qed

lemma oc_norm_small: "n < 65536 \<Longrightarrow> oc_norm n = n"
  by (cases "n = 65535") (simp_all add: oc_norm_def)

lemma fold_sum_spec: "unat (fold_sum s) = oc_norm (unat s)"
proof (induction s rule: fold_sum.induct)
  case (1 s)
  have d: "unat (drop_bit 16 s) = unat s div 65536" using unat_drop [of 16] by simp
  show ?case
  proof (cases "drop_bit 16 s = 0")
    case True
    then have "unat s div 65536 = 0" using d by simp
    then have "unat s < 65536" by (simp add: div_eq_0_iff)
    moreover have "fold_sum s = s" by (subst fold_sum.simps) (use True in simp)
    ultimately show ?thesis using oc_norm_small by simp
  next
    case False
    let ?t = "(s AND 0xFFFF) + drop_bit 16 s"
    have "fold_sum s = fold_sum ?t" by (subst fold_sum.simps) (use False in simp)
    then have "unat (fold_sum s) = oc_norm (unat ?t)" using 1 [OF False] by (simp only:)
    moreover have "unat s div 65536 \<noteq> 0" using False d by (metis unsigned_eq_0_iff)
    then have "65536 \<le> unat s" by (simp add: div_eq_0_iff not_less)
    ultimately show ?thesis using fold_less [OF False] oc_norm_fold by (simp only:)
  qed
qed

lemma unat_not_low: "unat (x :: u32) < 65536 \<Longrightarrow> unat (ucast (NOT x) :: u16) = 65535 - unat x"
proof -
  assume x: "unat x < 65536"
  have "ucast (NOT x) = NOT (ucast x :: u16)" by (rule bit_eqI) (auto simp: bit_simps)
  moreover have "unat (ucast x :: u16) = unat x" using x by (simp add: unsigned_ucast_eq take_bit_nat_eq_self_iff)
  moreover have "unat (NOT y) = 65535 - unat y" for y :: u16
  proof -
    have "y \<le> - 1" by simp
    then have "unat (- 1 - y) = unat (- 1 :: u16) - unat y" by (rule unat_minus_le)
    moreover have "NOT y = - 1 - y" by (simp add: not_eq_complement)
    ultimately show ?thesis by (simp add: unsigned_minus_1_eq_mask mask_numeral)
  qed
  ultimately show ?thesis by simp
qed

lemma oc_norm_less: "oc_norm n < 65536"
  by (auto simp: oc_norm_def)

lemma ip_checksum_spec:
  assumes "len \<le> length data" and "len \<le> 65536"
  shows "\<exists>c. ip_checksum data len = Some c \<and> unat c = 65535 - oc_norm (word_sum (take len data))"
proof -
  have "word_sum (take len data) < 4294967296" using word_sum_le [of "take len data"] assms by auto
  then obtain r where "sum_words data 0 len 0 = Some r" "unat r = word_sum (take len data)"
    using sum_words_spec [of 0 len data 0] assms(1) by auto
  then show ?thesis using unat_not_low [of "fold_sum r"] fold_sum_spec [of r] oc_norm_less
    by (simp add: ip_checksum_def)
qed

lemma le16_htons16: "le16 (htons16 c) = [ucast (drop_bit 8 c), ucast c]"
proof -
  have "ucast (htons16 c) = (ucast (drop_bit 8 c) :: u8)" "ucast (drop_bit 8 (htons16 c)) = (ucast c :: u8)"
    unfolding htons16_def by (rule bit_eqI; auto simp: bit_simps)+
  then show ?thesis by (simp add: le16_def)
qed

lemma unat_bytes16: "256 * unat (ucast (drop_bit 8 c) :: u8) + unat (ucast c :: u8) = unat (c :: u16)"
proof -
  have "be16 (ucast (drop_bit 8 c)) (ucast c) = c"
    unfolding be16_def by (rule bit_eqI) (auto simp: bit_simps)
  then show ?thesis by (metis unat_be16)
qed

lemma word_sum_append: "even (length xs) \<Longrightarrow> word_sum (xs @ ys) = word_sum xs + word_sum ys"
  by (induction xs rule: word_sum.induct) auto

lemma oc_norm_complement: "oc_norm (n + (65535 - oc_norm n)) = 65535"
proof (cases "n mod 65535 = 0")
  case True
  then obtain k where "n = 65535 * k" by auto
  then show ?thesis by (cases k) (simp_all add: oc_norm_def)
next
  case False
  then have e: "oc_norm n = n mod 65535" "n mod 65535 < 65535" by (auto simp: oc_norm_def)
  have "n = 65535 * (n div 65535) + n mod 65535" by simp
  then have "n + (65535 - oc_norm n) = 65535 * Suc (n div 65535)" using e by (simp only: e mult_Suc_right)
  then show ?thesis by (simp add: oc_norm_def)
qed

text \<open>Storing the complement of the sum makes the sum of the whole 65535, that is zero.\<close>

lemma checksum_verifies:
  assumes "even (length pre)" and "ip_checksum (pre @ [0, 0] @ post) len = Some c" and "len = length (pre @ [0, 0] @ post)" and "len \<le> 65536"
  shows "ip_checksum (pre @ le16 (htons16 c) @ post) len = Some 0"
proof -
  let ?n = "word_sum pre + word_sum post"
  have "word_sum (pre @ [0, 0] @ post) = ?n" using assms(1) by (simp add: word_sum_append)
  then have c: "unat c = 65535 - oc_norm ?n" using ip_checksum_spec [of len "pre @ [0, 0] @ post"] assms(2-4) by auto
  have "word_sum (pre @ le16 (htons16 c) @ post) = ?n + unat c"
    using assms(1) unat_bytes16 [of c] by (simp add: word_sum_append le16_htons16)
  moreover have "oc_norm (?n + unat c) = 65535" unfolding c by (rule oc_norm_complement)
  moreover have "length (pre @ le16 (htons16 c) @ post) = len" using assms(3) by (simp add: le16_def)
  ultimately show ?thesis using ip_checksum_spec [of len "pre @ le16 (htons16 c) @ post"] assms(4)
    by (auto simp: unsigned_eq_0_iff)
qed

section \<open>Printing and parsing an address\<close>

fun dotted :: "bool \<Rightarrow> u8 list \<Rightarrow> u8 list" where
  "dotted first [] = []"
| "dotted first (o1 # os) = (if first then [] else [0x2E]) @ itoa_str (ucast o1) @ dotted False os"

lemma uint_u8: "uint (x :: u8) < 256" "sint (ucast x :: u32) = uint x"
proof -
  show lt: "uint x < 256" using uint_lt2p [of x] by simp
  moreover have "0 \<le> uint x" by simp
  moreover have "- (2 ^ 31) \<le> (0 :: int)" "(256 :: int) \<le> 2 ^ 31" by simp_all
  ultimately have "signed_take_bit 31 (uint x) = uint x" by (intro signed_take_bit_int_eq_self) linarith+
  then show "sint (ucast x :: u32) = uint x" by (simp add: signed_ucast_eq)
qed

lemma itoa_octet:
  "itoa_str (ucast (x :: u8)) = map digit_char (dec_digits (unat x))" "length (itoa_str (ucast (x :: u8))) \<le> 3"
proof -
  show e: "itoa_str (ucast x) = map digit_char (dec_digits (unat x))" by (simp add: itoa_str_def uint_u8(2))
  have "unat x < 10 ^ Suc 2" using unat_less_256 [of x] by simp
  then have "length (dec_digits (unat x)) \<le> Suc 2" by (rule length_dec_digits)
  then show "length (itoa_str (ucast x)) \<le> 3" using e by simp
qed

lemma ip4_octets_blit:
  "used + length (dotted first os) < n \<Longrightarrow> n \<le> length out \<Longrightarrow>
     ip4_octets first os out n used = Some (0, blit out used (dotted first os @ [0]))"
proof (induction os arbitrary: first out used)
  case Nil
  then have "out[used := 0] = blit out used [0]" using blit_snoc [of used "[]" out 0] by simp
  then show ?case using Nil by (simp add: wr_in)
next
  case (Cons o1 os)
  let ?t = "itoa_str (ucast o1)" and ?d = "if first then [] else [0x2E :: u8]"
  let ?tmp = "blit (replicate 4 0) 0 (?t @ [0])"
  have t: "itoa_buf (ucast o1) (replicate 4 0) = Some ?tmp" "strlen ?tmp = Some (length ?t)" "take (length ?t) ?tmp = ?t" "length ?tmp = 4"
    using itoa_octet(2) [of o1] itoa_str_no_zero strlen_cstr [of ?tmp]
    by (auto simp: itoa_buf_blit blit_def)
  let ?out = "blit out used ?d"
  have first: "(if \<not> first \<and> used + 1 < n then do { b \<leftarrow> wr out used 0x2E; Some (b, used + 1) } else Some (out, used)) = Some (?out, used + length ?d)"
    using Cons.prems blit_snoc [of used "[]" out "0x2E"] by (auto simp: wr_in)
  have len: "used + length ?d + length ?t + length (dotted False os) < n" "length ?out = length out"
    using Cons.prems by (auto simp: length_blit)
  have b: "memcpy ?out (used + length ?d) ?tmp 0 (length ?t) = Some (blit out used (?d @ ?t))"
    using memcpy_blit [of 0 "length ?t" ?tmp "used + length ?d" ?out] t(3,4) len itoa_octet(2) [of o1] Cons.prems(2)
      blit_append [of used ?d ?t out] by simp
  have "ip4_octets False os (blit out used (?d @ ?t)) n (used + length ?d + length ?t) =
      Some (0, blit (blit out used (?d @ ?t)) (used + length ?d + length ?t) (dotted False os @ [0]))"
    using len Cons.prems(2) by (intro Cons.IH) (simp_all add: length_blit)
  moreover have "blit (blit out used (?d @ ?t)) (used + length ?d + length ?t) (dotted False os @ [0]) = blit out used (dotted first (o1 # os) @ [0])"
    using blit_append [of used "?d @ ?t" "dotted False os @ [0]" out] len Cons.prems(2) by (simp add: add.assoc)
  moreover have "\<not> n \<le> used + length ?d + length ?t" using len by simp
  ultimately show ?case using first t(1,2) b by (simp del: dotted.simps)
qed

lemma parse_digits:
  assumes "\<forall>d \<in> set ds. d < 10" and "dec_value (int cur) ds \<le> 255"
  shows "parse_octets (pre @ map digit_char ds @ post) (length pre) octs cur =
    parse_octets (pre @ map digit_char ds @ post) (length pre + length ds) octs (nat (dec_value (int cur) ds))"
  using assms
proof (induction ds arbitrary: pre cur)
  case (Cons d ds)
  have d: "d < 10" "sint (digit_char d) = int d + 48" "unat (digit_char d) = d + 48" "digit_char d \<noteq> 0"
    using Cons.prems(1) digit_char_value [of d] digit_char_nonzero [of d] unat_of_nat8 [of "d + 48"]
    by (simp_all add: digit_char_def)
  have "int (cur * 10 + d) \<le> dec_value (int (cur * 10 + d)) ds" by (rule dec_value_mono) simp
  then have le: "cur * 10 + d \<le> 255" using Cons.prems(2) by simp
  have "rd (pre @ map digit_char (d # ds) @ post) (length pre) = Some (digit_char d)" by (simp add: rd_def)
  then have "parse_octets (pre @ map digit_char (d # ds) @ post) (length pre) octs cur =
      parse_octets ((pre @ [digit_char d]) @ map digit_char ds @ post) (length (pre @ [digit_char d])) octs (cur * 10 + d)"
    using d le by (subst parse_octets.simps) simp
  then show ?case using Cons.IH [of "cur * 10 + d" "pre @ [digit_char d]"] Cons.prems by simp
qed simp

lemma parse_octet:
  assumes "c = 0x2E \<and> length octs < 3 \<or> c = 0 \<and> length octs = 3"
  shows "parse_octets (pre @ itoa_str (ucast (x :: u8)) @ c # post) (length pre) octs 0 =
    (if c = 0 then Some (Some (map of_nat (octs @ [unat x])))
     else parse_octets ((pre @ itoa_str (ucast x) @ [c]) @ post) (length (pre @ itoa_str (ucast x) @ [c])) (octs @ [unat x]) 0)"
proof -
  have "\<forall>d \<in> set (dec_digits (unat x)). d < 10" "dec_value 0 (dec_digits (unat x)) = int (unat x)"
    using dec_digits_less dec_value_digits by auto
  then have p: "parse_octets (pre @ itoa_str (ucast x) @ c # post) (length pre) octs 0 =
      parse_octets (pre @ itoa_str (ucast x) @ c # post) (length pre + length (itoa_str (ucast x))) octs (unat x)"
    using parse_digits [of "dec_digits (unat x)" 0 pre "c # post" octs] uint_u8(1) [of x]
    by (simp add: itoa_octet(1))
  have "rd (pre @ itoa_str (ucast x) @ c # post) (length pre + length (itoa_str (ucast x))) = Some c" by (simp add: rd_def nth_append)
  then show ?thesis unfolding p using assms by (subst parse_octets.simps) auto
qed

lemma parse_dotted:
  "string_to_ip4 (Some (dotted True [a, b, c, d] @ 0 # post)) = Some (Some [a, b, c, d])"
proof -
  let ?t = "\<lambda>x :: u8. itoa_str (ucast x)"
  let ?S = "?t a @ 0x2E # ?t b @ 0x2E # ?t c @ 0x2E # ?t d @ 0 # post"
  have "parse_octets ?S 0 [] 0 = parse_octets ?S (length (?t a @ [0x2E])) [unat a] 0"
    using parse_octet [of "0x2E" "[]" "[]" a "?t b @ 0x2E # ?t c @ 0x2E # ?t d @ 0 # post"] by simp
  also have "\<dots> = parse_octets ?S (length (?t a @ [0x2E] @ ?t b @ [0x2E])) [unat a, unat b] 0"
    using parse_octet [of "0x2E" "[unat a]" "?t a @ [0x2E]" b "?t c @ 0x2E # ?t d @ 0 # post"] by simp
  also have "\<dots> = parse_octets ?S (length (?t a @ [0x2E] @ ?t b @ [0x2E] @ ?t c @ [0x2E])) [unat a, unat b, unat c] 0"
    using parse_octet [of "0x2E" "[unat a, unat b]" "?t a @ [0x2E] @ ?t b @ [0x2E]" c "?t d @ 0 # post"] by simp
  also have "\<dots> = Some (Some [a, b, c, d])"
    using parse_octet [of 0 "[unat a, unat b, unat c]" "?t a @ [0x2E] @ ?t b @ [0x2E] @ ?t c @ [0x2E]" d post] by simp
  finally show ?thesis by (simp add: string_to_ip4_def)
qed

lemma dotted_length: "length (dotted True [a, b, c, d]) \<le> 15"
  using itoa_octet(2) [of a] itoa_octet(2) [of b] itoa_octet(2) [of c] itoa_octet(2) [of d] by simp

section \<open>Properties\<close>

text \<open>
  Printing an address and parsing it back gives the address: with room for 16 characters,
  \<open>ip4_to_string\<close> writes a terminated string inside the buffer from which \<open>string_to_ip4\<close> reads the same four octets.
\<close>

theorem ip4_string_roundtrip:
  assumes "length ip = 4" and "16 \<le> n" and "n \<le> length out"
  shows "\<exists>out'. ip4_to_string ip out n = Some (0, out') \<and> length out' = length out \<and> string_to_ip4 (Some out') = Some (Some ip)"
proof -
  obtain a b c d where ip: "ip = [a, b, c, d]" using assms(1) by (auto simp: numeral_eq_Suc length_Suc_conv)
  let ?s = "dotted True ip"
  have l: "length ?s < 16" using dotted_length [of a b c d] ip by simp
  then have "ip4_to_string ip out n = Some (0, blit out 0 (?s @ [0]))"
    using ip4_octets_blit [of 0 True ip n out] assms(2,3) by (simp add: ip4_to_string_def)
  moreover have "blit out 0 (?s @ [0]) = ?s @ 0 # drop (Suc (length ?s)) out" by (simp add: blit_def)
  moreover have "length (blit out 0 (?s @ [0])) = length out" using l assms(2,3) by (intro length_blit) simp
  ultimately show ?thesis using parse_dotted [of a b c d] ip by simp
qed

theorem ip4_string_roundtrip_witness:
  "\<exists>out'. ip4_to_string [10, 0, 2, 255] (replicate 16 1) 16 = Some (0, out') \<and> string_to_ip4 (Some out') = Some (Some [10, 0, 2, 255])"
  using ip4_string_roundtrip [of "[10, 0, 2, 255]" 16 "replicate 16 1"] by auto

text \<open>
  C33: the three checksum routines compute the complement of the one's complement sum of the 16-bit words
  of the data, of the pseudo-header too for TCP, without leaving the data and without overflow.
\<close>

theorem checksum_equivalence:
  assumes "len \<le> length data" and "len < 65536" and "length src = 4" and "length dst = 4"
  shows "\<exists>c t. ip_checksum data len = Some c \<and> icmp_checksum data len = Some c \<and>
    unat c = 65535 - oc_norm (word_sum (take len data)) \<and>
    tcp_checksum src dst proto data len = Some t \<and>
    unat t = 65535 - oc_norm (word_sum (src @ dst) + unat proto + len + word_sum (take len data))"
proof -
  obtain c where c: "ip_checksum data len = Some c" "unat c = 65535 - oc_norm (word_sum (take len data))"
    using ip_checksum_spec [of len data] assms(1,2) by auto
  have ws: "word_sum src \<le> 131070" "word_sum dst \<le> 131070" "word_sum (take len data) \<le> 65535 * 32768"
    using word_sum_le [of src] word_sum_le [of dst] word_sum_le [of "take len data"] assms by auto
  obtain s1 where s1: "sum_words src 0 4 0 = Some s1" "unat s1 = word_sum src"
    using sum_words_spec [of 0 4 src 0] assms(3) ws(1) by auto
  obtain s2 where s2: "sum_words dst 0 4 s1 = Some s2" "unat s2 = word_sum src + word_sum dst"
    using sum_words_spec [of 0 4 dst s1] assms(4) ws s1(2) by auto
  have n: "unat (of_nat len :: u32) = len" using assms(2) by (simp add: unat_of_nat32)
  have "unat (s2 + ucast proto) = unat s2 + unat proto"
    using s2(2) ws unat_less_256 [of proto] by (subst unat_plus_nowrap32) (simp_all add: unat_ucast_u8)
  then have s3: "unat (s2 + ucast proto + of_nat len) = word_sum src + word_sum dst + unat proto + len"
    using s2(2) ws unat_less_256 [of proto] n assms(2) by (subst unat_plus_nowrap32) simp_all
  then obtain s4 where s4: "sum_words data 0 len (s2 + ucast proto + of_nat len) = Some s4"
      "unat s4 = word_sum src + word_sum dst + unat proto + len + word_sum (take len data)"
    using sum_words_spec [of 0 len data "s2 + ucast proto + of_nat len"] assms(1,2) ws unat_less_256 [of proto] by auto
  have "unat (ones_complement s4) = 65535 - oc_norm (unat s4)"
    using unat_not_low [of "fold_sum s4"] fold_sum_spec [of s4] oc_norm_less by (simp add: ones_complement_def)
  moreover have "word_sum (src @ dst) = word_sum src + word_sum dst" using assms(3) by (intro word_sum_append) simp
  ultimately show ?thesis using c s1(1) s2(1) s4 by (simp add: tcp_checksum_def icmp_checksum_def ip_checksum_def)
qed

theorem checksum_equivalence_witness:
  "\<exists>c. ip_checksum [0x45, 0, 0, 0x1C] 4 = Some c \<and> icmp_checksum [0x45, 0, 0, 0x1C] 4 = Some c \<and> unat c = 0xBAE3"
  using checksum_equivalence [of 4 "[0x45, 0, 0, 0x1C]" "[0, 0, 0, 0]" "[0, 0, 0, 0]" 6]
  by (auto simp: oc_norm_def)

end
