(* ===== verification/Net.thy ===== *)
theory Net
  imports Inet
begin

text \<open>
  The network stack of \<open>src/kernel/net/network.c\<close>, from the network card up to TCP, with the transmit and poll
  entries of \<open>src/kernel/dev/rtl8139.c\<close>.

  \<^item> The state is one record per protocol.  The objects that \<open>current_conn\<close> and \<open>g_active_tx\<close> point to are part
    of the state (\<open>conn\<close>, \<open>tx\<close>), with a flag for whether the pointer is set.
  \<^item> A frame is the 1518-byte buffer the driver copies it into, with its length: what follows the frame in the
    buffer is whatever the stack held.  \<open>stack\<close> is the content of uninitialised local buffers.
  \<^item> The outside world acts at polls: \<open>arrivals\<close> lists, for each coming poll, the timer ticks that have passed, whether
    Ctrl+C was pressed and the frames that have arrived.  When the list is exhausted the network is
    silent and every poll sees one more tick.
  \<^item> Waiting for an ARP reply polls the card, which handles frames, which may send and wait again.  The functions
    between the card and the polls take \<open>poll\<close> as a parameter; \<open>rtl8139_poll\<close> closes the recursion with a bound on its depth.
  \<^item> What \<open>printk\<close> writes to the terminal is left out.
\<close>

section \<open>State\<close>

record net_iface_t =
  if_name :: "u8 list"
  if_mac :: net_mac_t
  if_ip :: net_ip4_t
  if_netmask :: net_ip4_t
  if_gateway :: net_ip4_t
  if_dns :: net_ip4_t
  if_up :: bool

record arp_entry_t =
  ae_ip :: net_ip4_t
  ae_mac :: net_mac_t
  ae_valid :: bool
  ae_age :: u32

record arp_state =
  arp_cache :: "arp_entry_t list"
  arp_pending :: bool
  arp_pending_ip :: net_ip4_t
  arp_pending_mac :: net_mac_t

record icmp_state =
  icmp_waiting :: bool
  icmp_wait_id :: u16
  icmp_wait_seq :: u16
  icmp_wait_start :: u32
  icmp_reply_recv :: bool

record udp_bind_slot_t =
  ub_port :: u16
  ub_cb :: nat
  ub_used :: bool

record udp_transaction_t =
  tx_remote :: net_ip4_t
  tx_remote_port :: u16
  tx_local_port :: u16
  tx_reply :: "u8 list"
  tx_reply_len :: nat
  tx_done :: bool

text \<open>A callback is an identifier, 0 the null pointer; \<open>udp_calls\<close> records the calls.\<close>

record udp_state =
  udp_binds :: "udp_bind_slot_t list"
  udp_calls :: "(nat \<times> u8 list) list"
  g_active_tx :: bool
  tx :: udp_transaction_t

record tcp_conn_t =
  c_active :: bool
  c_remote :: net_ip4_t
  c_src_port :: u16
  c_dst_port :: u16
  c_my_seq :: u32
  c_their_seq :: u32
  c_my_ack :: u32
  c_inbuf :: "u8 list"
  c_inlen :: nat
  c_closed :: bool
  c_established :: bool
  c_syn_sent :: bool

record tcp_state =
  current_conn :: bool
  conn :: tcp_conn_t

record poll_event =
  ev_ticks :: u32
  ev_cancel :: bool
  ev_frames :: "(u8 list \<times> nat) list"

record nic_state =
  rtl_up :: bool
  tx_cur :: nat
  tx_buffer :: "u8 list"
  sent :: "u8 list list"
  rxq :: "(u8 list \<times> nat) list"
  arrivals :: "poll_event list"
  ticks :: u32
  cancelled :: bool
  stack :: "u8 list"

record net_state =
  iface :: net_iface_t
  arp :: arp_state
  icmp :: icmp_state
  udp :: udp_state
  tcp :: tcp_state
  nic :: nic_state

type_synonym poller = "net_state \<Rightarrow> net_state option"

definition NET_BUF_SIZE :: nat where
  "NET_BUF_SIZE = 1518"

definition NET_PAYLOAD_MAX :: nat where
  "NET_PAYLOAD_MAX = 1500"

text \<open>A string literal with its terminator.\<close>

definition lit :: "string \<Rightarrow> u8 list" where
  "lit s = map (\<lambda>c. of_nat (of_char c)) s @ [0]"

section \<open>Interface and Ethernet\<close>

definition init_ip :: "string \<Rightarrow> net_ip4_t \<Rightarrow> net_ip4_t option" where
  "init_ip s old = map_option (\<lambda>r. case r of None \<Rightarrow> old | Some ip \<Rightarrow> ip) (string_to_ip4 (Some (lit s)))"

definition net_init :: "net_state \<Rightarrow> net_state option" where
  "net_init s =
     (let f = iface s in
      do { name \<leftarrow> strcpy (if_name f) (lit ''eth0'');
           ip \<leftarrow> init_ip ''10.0.2.15'' (if_ip f);
           mask \<leftarrow> init_ip ''255.255.255.0'' (if_netmask f);
           gw \<leftarrow> init_ip ''10.0.2.2'' (if_gateway f);
           dns \<leftarrow> init_ip ''10.0.2.3'' (if_dns f);
           Some (s\<lparr>iface := \<lparr>if_name = name, if_mac = replicate 6 0, if_ip = ip, if_netmask = mask,
             if_gateway = gw, if_dns = dns, if_up = False\<rparr>\<rparr>) })"

definition net_link_up :: "net_mac_t \<Rightarrow> net_state \<Rightarrow> net_state" where
  "net_link_up mac s = s\<lparr>iface := (iface s)\<lparr>if_mac := mac, if_up := True\<rparr>\<rparr>"

text \<open>The wait for a free descriptor gives up after 1000 tries and is left out.\<close>

definition rtl8139_tx :: "u8 list \<Rightarrow> nat \<Rightarrow> net_state \<Rightarrow> (int \<times> net_state) option" where
  "rtl8139_tx data len s =
     (let n = nic s in
      if \<not> rtl_up n \<or> len = 0 \<or> NET_BUF_SIZE < len then Some (- 1, s)
      else
        let len' = (if len < 60 then 60 else len) in
        do { buf \<leftarrow> memcpy (tx_buffer n) 0 data 0 len';
             Some (0, s\<lparr>nic := n\<lparr>tx_buffer := buf, sent := sent n @ [take len' buf], tx_cur := (tx_cur n + 1) mod 4\<rparr>\<rparr>) })"

definition net_send_frame :: "u8 list \<Rightarrow> nat \<Rightarrow> net_state \<Rightarrow> (int \<times> net_state) option" where
  "net_send_frame frame len s = (if \<not> if_up (iface s) then Some (- 1, s) else rtl8139_tx frame len s)"

definition eth_send :: "net_mac_t \<Rightarrow> u16 \<Rightarrow> u8 list \<Rightarrow> nat \<Rightarrow> net_state \<Rightarrow> (int \<times> net_state) option" where
  "eth_send dst ethertype payload len s =
     (if NET_PAYLOAD_MAX < len then Some (- 1, s)
      else do {
        d1 \<leftarrow> memcpy (stack (nic s)) 0 dst 0 6;
        d2 \<leftarrow> memcpy d1 6 (if_mac (iface s)) 0 6;
        d3 \<leftarrow> wr d2 12 (ucast (drop_bit 8 ethertype AND 0xFF));
        d4 \<leftarrow> wr d3 13 (ucast (ethertype AND 0xFF));
        d5 \<leftarrow> memcpy d4 14 payload 0 len;
        net_send_frame d5 (14 + len) s })"

section \<open>ARP\<close>

record arp_packet_t =
  ap_htype :: u16
  ap_ptype :: u16
  ap_hlen :: u8
  ap_plen :: u8
  ap_opcode :: u16
  ap_sha :: "u8 list"
  ap_spa :: "u8 list"
  ap_tha :: "u8 list"
  ap_tpa :: "u8 list"

definition arp_bytes :: "arp_packet_t \<Rightarrow> u8 list" where
  "arp_bytes p = le16 (ap_htype p) @ le16 (ap_ptype p) @ [ap_hlen p, ap_plen p] @ le16 (ap_opcode p) @
     ap_sha p @ ap_spa p @ ap_tha p @ ap_tpa p"

definition arp_packet_at :: "u8 list \<Rightarrow> arp_packet_t option" where
  "arp_packet_at b =
     do { htype \<leftarrow> rd16 b 0; ptype \<leftarrow> rd16 b 2; hlen \<leftarrow> rd b 4; plen \<leftarrow> rd b 5; opcode \<leftarrow> rd16 b 6;
          sha \<leftarrow> rd_bytes b 8 6; spa \<leftarrow> rd_bytes b 14 4; tha \<leftarrow> rd_bytes b 18 6; tpa \<leftarrow> rd_bytes b 24 4;
          Some \<lparr>ap_htype = htype, ap_ptype = ptype, ap_hlen = hlen, ap_plen = plen, ap_opcode = opcode,
            ap_sha = sha, ap_spa = spa, ap_tha = tha, ap_tpa = tpa\<rparr> }"

definition ARP_CACHE_SIZE :: nat where
  "ARP_CACHE_SIZE = 8"

definition arp_cache_boot :: "net_state \<Rightarrow> net_state" where
  "arp_cache_boot s =
     s\<lparr>arp := (arp s)\<lparr>arp_cache := replicate ARP_CACHE_SIZE \<lparr>ae_ip = replicate 4 0, ae_mac = replicate 6 0, ae_valid = False, ae_age = 0\<rparr>,
       arp_pending := False\<rparr>\<rparr>"

text \<open>The first loop of \<open>arp_cache_add\<close> and the loop of \<open>arp_cache_lookup\<close>.\<close>

fun arp_find :: "net_ip4_t \<Rightarrow> arp_entry_t list \<Rightarrow> nat option" where
  "arp_find ip [] = None"
| "arp_find ip (e # es) = (if ae_valid e \<and> ae_ip e = ip then Some 0 else map_option Suc (arp_find ip es))"

text \<open>The second loop: the first free slot, else the one with the smallest age.\<close>

fun arp_slot :: "arp_entry_t list \<Rightarrow> nat \<Rightarrow> nat \<Rightarrow> u32 \<Rightarrow> nat" where
  "arp_slot [] i oldest oldest_age = oldest"
| "arp_slot (e # es) i oldest oldest_age =
     (if \<not> ae_valid e then i
      else if ae_age e < oldest_age then arp_slot es (Suc i) i (ae_age e)
      else arp_slot es (Suc i) oldest oldest_age)"

definition arp_cache_add :: "net_ip4_t \<Rightarrow> net_mac_t \<Rightarrow> net_state \<Rightarrow> net_state" where
  "arp_cache_add ip mac s =
     (let a = arp s; c = arp_cache a; now = ticks (nic s) in
      case arp_find ip c of
        Some i \<Rightarrow> s\<lparr>arp := a\<lparr>arp_cache := c[i := (c ! i)\<lparr>ae_mac := mac, ae_age := now\<rparr>]\<rparr>\<rparr>
      | None \<Rightarrow>
          let oldest = arp_slot c 0 0 0xFFFFFFFF;
              a1 = a\<lparr>arp_cache := c[oldest := \<lparr>ae_ip = ip, ae_mac = mac, ae_valid = True, ae_age = now\<rparr>]\<rparr>
          in s\<lparr>arp := (if arp_pending a1 \<and> ip = arp_pending_ip a1 then a1\<lparr>arp_pending_mac := mac, arp_pending := False\<rparr> else a1)\<rparr>)"

definition arp_cache_lookup :: "net_ip4_t \<Rightarrow> net_state \<Rightarrow> net_mac_t option" where
  "arp_cache_lookup ip s = map_option (\<lambda>i. ae_mac (arp_cache (arp s) ! i)) (arp_find ip (arp_cache (arp s)))"

definition arp_send_request :: "net_ip4_t \<Rightarrow> net_state \<Rightarrow> (int \<times> net_state) option" where
  "arp_send_request target_ip s =
     eth_send (replicate 6 0) 0x0806
       (arp_bytes \<lparr>ap_htype = htons16 1, ap_ptype = htons16 0x0800, ap_hlen = 6, ap_plen = 4, ap_opcode = htons16 1,
          ap_sha = if_mac (iface s), ap_spa = if_ip (iface s), ap_tha = replicate 6 0, ap_tpa = target_ip\<rparr>) 28 s"

text \<open>
  The waiting loops of the stack: poll until \<open>waiting\<close> is false, \<open>stop\<close> holds after a poll, or \<open>timeout\<close> ticks
  have passed since \<open>start\<close>.  The first argument bounds the number of polls.
\<close>

fun poll_wait :: "nat \<Rightarrow> poller \<Rightarrow> (net_state \<Rightarrow> bool) \<Rightarrow> (net_state \<Rightarrow> bool) \<Rightarrow> u32 \<Rightarrow> u32 \<Rightarrow> poller" where
  "poll_wait 0 poll waiting stop start timeout s = (if \<not> waiting s then Some s else None)"
| "poll_wait (Suc k) poll waiting stop start timeout s =
     (if \<not> waiting s then Some s
      else do { s1 \<leftarrow> poll s;
                if stop s1 \<or> timeout \<le> ticks (nic s1) - start then Some s1
                else poll_wait k poll waiting stop start timeout s1 })"

definition wait_bound :: "net_state \<Rightarrow> u32 \<Rightarrow> nat" where
  "wait_bound s timeout = length (arrivals (nic s)) + unat timeout + 2"

definition arp_resolve :: "poller \<Rightarrow> net_ip4_t \<Rightarrow> net_state \<Rightarrow> (net_mac_t option \<times> net_state) option" where
  "arp_resolve poll ip s =
     (case arp_cache_lookup ip s of
        Some mac \<Rightarrow> Some (Some mac, s)
      | None \<Rightarrow>
          let s1 = s\<lparr>arp := (arp s)\<lparr>arp_pending := True, arp_pending_ip := ip\<rparr>\<rparr>; start = ticks (nic s) in
          do { (r, s2) \<leftarrow> arp_send_request ip s1;
               if r \<noteq> 0 then Some (None, s2\<lparr>arp := (arp s2)\<lparr>arp_pending := False\<rparr>\<rparr>)
               else do {
                 s3 \<leftarrow> poll_wait (wait_bound s2 200) poll (\<lambda>s. arp_pending (arp s)) (\<lambda>s. cancelled (nic s)) start 200 s2;
                 if arp_pending (arp s3) then Some (None, s3\<lparr>arp := (arp s3)\<lparr>arp_pending := False\<rparr>\<rparr>)
                 else Some (Some (arp_pending_mac (arp s3)), s3) } })"

definition arp_handle :: "u8 list \<Rightarrow> nat \<Rightarrow> net_state \<Rightarrow> (int \<times> net_state) option" where
  "arp_handle pkt len s =
     (if len < 28 then Some (- 1, s)
      else do {
        p \<leftarrow> arp_packet_at pkt;
        if htons16 (ap_htype p) \<noteq> 1 then Some (- 1, s)
        else
          let s1 = arp_cache_add (u32_to_ip4 (ip4_to_u32 (ap_spa p))) (ap_sha p) s in
          if htons16 (ap_opcode p) = 1 \<and> u32_to_ip4 (ip4_to_u32 (ap_tpa p)) = if_ip (iface s1) then
            do { (r, s2) \<leftarrow> eth_send (ap_sha p) 0x0806
                   (arp_bytes \<lparr>ap_htype = ap_htype p, ap_ptype = ap_ptype p, ap_hlen = 6, ap_plen = 4, ap_opcode = htons16 2,
                      ap_sha = ap_tha p, ap_spa = ap_tpa p, ap_tha = ap_sha p, ap_tpa = ap_spa p\<rparr>) 28 s1;
                 Some (0, s2) }
          else Some (0, s1) })"

section \<open>IPv4\<close>

record ipv4_header_t =
  ih_ver_ihl :: u8
  ih_tos :: u8
  ih_total_len :: u16
  ih_id :: u16
  ih_flags_frag :: u16
  ih_ttl :: u8
  ih_protocol :: u8
  ih_checksum :: u16
  ih_src :: "u8 list"
  ih_dst :: "u8 list"

definition ipv4_bytes :: "ipv4_header_t \<Rightarrow> u8 list" where
  "ipv4_bytes h = [ih_ver_ihl h, ih_tos h] @ le16 (ih_total_len h) @ le16 (ih_id h) @ le16 (ih_flags_frag h) @
     [ih_ttl h, ih_protocol h] @ le16 (ih_checksum h) @ ih_src h @ ih_dst h"

definition is_local_network :: "net_ip4_t \<Rightarrow> net_state \<Rightarrow> bool" where
  "is_local_network ip s =
     (let mask = ip4_to_u32 (if_netmask (iface s)) in ip4_to_u32 ip AND mask = ip4_to_u32 (if_ip (iface s)) AND mask)"

definition ipv4_send :: "poller \<Rightarrow> net_ip4_t \<Rightarrow> u8 \<Rightarrow> u8 list \<Rightarrow> nat \<Rightarrow> net_state \<Rightarrow> (int \<times> net_state) option" where
  "ipv4_send poll dst proto payload len s =
     (if \<not> if_up (iface s) \<or> NET_PAYLOAD_MAX - 20 < len then Some (- 1, s)
      else
        let hdr = \<lparr>ih_ver_ihl = 0x45, ih_tos = 0, ih_total_len = htons16 (of_nat (20 + len)), ih_id = htons16 0x4242,
              ih_flags_frag = 0, ih_ttl = 64, ih_protocol = proto, ih_checksum = 0,
              ih_src = if_ip (iface s), ih_dst = dst\<rparr>
        in do {
          c \<leftarrow> ip_checksum (ipv4_bytes hdr) 20;
          p1 \<leftarrow> memcpy (stack (nic s)) 0 (ipv4_bytes (hdr\<lparr>ih_checksum := htons16 c\<rparr>)) 0 20;
          p2 \<leftarrow> memcpy p1 20 payload 0 len;
          let next_hop = (if is_local_network dst s then dst else if_gateway (iface s));
          (m, s1) \<leftarrow> arp_resolve poll next_hop s;
          case m of None \<Rightarrow> Some (- 1, s1) | Some mac \<Rightarrow> eth_send mac 0x0800 p2 (20 + len) s1 })"

section \<open>ICMP\<close>

definition icmp_bytes :: "u8 \<Rightarrow> u8 \<Rightarrow> u16 \<Rightarrow> u16 \<Rightarrow> u16 \<Rightarrow> u8 list" where
  "icmp_bytes type code checksum ident seq = [type, code] @ le16 checksum @ le16 ident @ le16 seq"

definition icmp_handle :: "poller \<Rightarrow> u8 list \<Rightarrow> nat \<Rightarrow> net_ip4_t \<Rightarrow> net_state \<Rightarrow> (int \<times> net_state) option" where
  "icmp_handle poll pkt len src s =
     (if len < 8 then Some (- 1, s)
      else do {
        type \<leftarrow> rd pkt 0; ident \<leftarrow> rd16 pkt 4; seq \<leftarrow> rd16 pkt 6;
        if type = 8 then
          let blen = len - 8; n = (if 504 < blen then 504 else blen) in
          do {
            c0 \<leftarrow> icmp_checksum (icmp_bytes 0 0 0 ident seq) 8;
            let reply = icmp_bytes 0 0 (htons16 c0) ident seq;
            t1 \<leftarrow> memcpy (take 512 (stack (nic s))) 0 reply 0 8;
            tmp \<leftarrow> memcpy t1 8 pkt 8 n;
            csum \<leftarrow> icmp_checksum tmp (8 + n);
            o1 \<leftarrow> memcpy (take 512 (stack (nic s))) 0 (icmp_bytes 0 0 (htons16 csum) ident seq) 0 8;
            out \<leftarrow> memcpy o1 8 pkt 8 n;
            (r, s1) \<leftarrow> ipv4_send poll src 1 out (8 + n) s;
            Some (0, s1) }
        else if type = 0 then
          let i = icmp s in
          if icmp_waiting i \<and> ident = icmp_wait_id i \<and> seq = icmp_wait_seq i then Some (0, s\<lparr>icmp := i\<lparr>icmp_reply_recv := True\<rparr>\<rparr>)
          else Some (0, s)
        else Some (0, s) })"

section \<open>UDP\<close>

definition udp_bytes :: "u16 \<Rightarrow> u16 \<Rightarrow> u16 \<Rightarrow> u16 \<Rightarrow> u8 list" where
  "udp_bytes src_port dst_port len checksum = le16 src_port @ le16 dst_port @ le16 len @ le16 checksum"

definition udp_find_bind :: "u16 \<Rightarrow> net_state \<Rightarrow> udp_bind_slot_t option" where
  "udp_find_bind port s = List.find (\<lambda>b. ub_used b \<and> ub_port b = port) (udp_binds (udp s))"

fun bind_slot :: "u16 \<Rightarrow> nat \<Rightarrow> udp_bind_slot_t list \<Rightarrow> udp_bind_slot_t list option" where
  "bind_slot port cb [] = None"
| "bind_slot port cb (b # bs) =
     (if \<not> ub_used b then Some (\<lparr>ub_port = port, ub_cb = cb, ub_used = True\<rparr> # bs) else map_option ((#) b) (bind_slot port cb bs))"

definition udp_bind :: "u16 \<Rightarrow> nat \<Rightarrow> net_state \<Rightarrow> int \<times> net_state" where
  "udp_bind port cb s =
     (case bind_slot port cb (udp_binds (udp s)) of
        None \<Rightarrow> (- 1, s) | Some bs \<Rightarrow> (0, s\<lparr>udp := (udp s)\<lparr>udp_binds := bs\<rparr>\<rparr>))"

definition udp_send :: "poller \<Rightarrow> net_ip4_t \<Rightarrow> u16 \<Rightarrow> u16 \<Rightarrow> u8 list \<Rightarrow> nat \<Rightarrow> net_state \<Rightarrow> (int \<times> net_state) option" where
  "udp_send poll dst src_port dst_port payload len s =
     (if NET_PAYLOAD_MAX - 20 - 8 < len then Some (- 1, s)
      else do {
        d1 \<leftarrow> memcpy (stack (nic s)) 0 (udp_bytes (htons16 src_port) (htons16 dst_port) (htons16 (of_nat (8 + len))) 0) 0 8;
        d2 \<leftarrow> memcpy d1 8 payload 0 len;
        ipv4_send poll dst 17 d2 (8 + len) s })"

definition udp_handle :: "u8 list \<Rightarrow> nat \<Rightarrow> net_state \<Rightarrow> (int \<times> net_state) option" where
  "udp_handle pkt len s =
     (if len < 8 then Some (- 1, s)
      else do {
        p \<leftarrow> rd16 pkt 2;
        let dst_port = htons16 p;
        let plen = len - 8;
        let u = udp s;
        if g_active_tx u \<and> tx_local_port (tx u) = dst_port then
          (if plen \<le> 512 then
             do { r \<leftarrow> memcpy (tx_reply (tx u)) 0 pkt 8 plen;
                  Some (0, s\<lparr>udp := u\<lparr>tx := (tx u)\<lparr>tx_reply := r, tx_reply_len := plen, tx_done := True\<rparr>\<rparr>\<rparr>) }
           else Some (0, s))
        else
          (case udp_find_bind dst_port s of
             Some b \<Rightarrow> (if ub_cb b \<noteq> 0 then
                do { d \<leftarrow> rd_bytes pkt 8 plen; Some (0, s\<lparr>udp := u\<lparr>udp_calls := udp_calls u @ [(ub_cb b, d)]\<rparr>\<rparr>) }
              else Some (0, s))
           | None \<Rightarrow> Some (0, s)) })"

section \<open>TCP\<close>

definition tcp_bytes :: "u16 \<Rightarrow> u16 \<Rightarrow> u32 \<Rightarrow> u32 \<Rightarrow> u8 \<Rightarrow> u8 \<Rightarrow> u16 \<Rightarrow> u16 \<Rightarrow> u16 \<Rightarrow> u8 list" where
  "tcp_bytes src_port dst_port seq ack data_off flags window checksum urgent =
     le16 src_port @ le16 dst_port @ le32 seq @ le32 ack @ [data_off, flags] @ le16 window @ le16 checksum @ le16 urgent"

definition tcp_send_seg :: "poller \<Rightarrow> u8 \<Rightarrow> u8 list \<Rightarrow> nat \<Rightarrow> net_state \<Rightarrow> (int \<times> net_state) option" where
  "tcp_send_seg poll flags data len s =
     (let c = conn (tcp s);
          hdr = (\<lambda>ck. tcp_bytes (htons16 (c_src_port c)) (htons16 (c_dst_port c)) (htons32 (c_my_seq c)) (htons32 (c_my_ack c))
                        0x50 flags (htons16 65535) ck 0)
      in do {
        b1 \<leftarrow> memcpy (replicate NET_BUF_SIZE 0) 0 (hdr 0) 0 20;
        b2 \<leftarrow> (if len \<noteq> 0 then memcpy b1 20 data 0 len else Some b1);
        csum \<leftarrow> tcp_checksum (if_ip (iface s)) (c_remote c) 6 b2 (20 + len);
        b3 \<leftarrow> memcpy b2 0 (hdr (htons16 csum)) 0 20;
        (ret, s1) \<leftarrow> ipv4_send poll (c_remote c) 6 b3 (20 + len) s;
        Some (ret, if ret = 0 \<and> flags AND 0x02 \<noteq> 0
          then s1\<lparr>tcp := (tcp s1)\<lparr>conn := (conn (tcp s1))\<lparr>c_my_seq := c_my_seq (conn (tcp s1)) + 1\<rparr>\<rparr>\<rparr> else s1) })"

definition upd_conn :: "(tcp_conn_t \<Rightarrow> tcp_conn_t) \<Rightarrow> net_state \<Rightarrow> net_state" where
  "upd_conn f s = s\<lparr>tcp := (tcp s)\<lparr>conn := f (conn (tcp s))\<rparr>\<rparr>"

text \<open>Adding to \<open>inlen\<close> is \<open>size_t\<close> arithmetic and wraps at 32 bits.\<close>

definition tcp_handle :: "poller \<Rightarrow> u8 list \<Rightarrow> nat \<Rightarrow> net_state \<Rightarrow> (int \<times> net_state) option" where
  "tcp_handle poll pkt len s =
     (if len < 20 then Some (- 1, s)
      else if \<not> current_conn (tcp s) \<or> \<not> c_active (conn (tcp s)) then Some (- 1, s)
      else do {
        dp \<leftarrow> rd16 pkt 2;
        if htons16 dp \<noteq> c_src_port (conn (tcp s)) then Some (- 1, s)
        else do {
          flags \<leftarrow> rd pkt 13;
          d \<leftarrow> rd pkt 12;
          let off0 = drop_bit 4 d * 4;
          let data_off = (if off0 < 20 then 20 else unat off0);
          if len < data_off then Some (- 1, s)
          else do {
            q \<leftarrow> rd32 pkt 4;
            let seq = ntohs32 q;
            let plen = len - data_off;
            if flags AND 0x02 \<noteq> 0 then
              do { (r, s1) \<leftarrow> tcp_send_seg poll 0x10 [] 0 (upd_conn (\<lambda>c. c\<lparr>c_their_seq := seq, c_my_ack := seq + 1\<rparr>) s);
                   Some (0, upd_conn (\<lambda>c. c\<lparr>c_established := True, c_syn_sent := False\<rparr>) s1) }
            else do {
              s2 \<leftarrow> (let c = conn (tcp s) in
                     if 0 < plen \<and> (c_inlen c + plen) mod 4294967296 \<le> 4096 then
                       do { b \<leftarrow> memcpy (c_inbuf c) (c_inlen c) pkt data_off plen;
                            (r, s1) \<leftarrow> tcp_send_seg poll 0x10 [] 0
                              (upd_conn (\<lambda>c. c\<lparr>c_inbuf := b, c_inlen := c_inlen c + plen, c_my_ack := c_my_ack c + of_nat plen\<rparr>) s);
                            Some s1 }
                     else Some s);
              Some (0, if flags AND 0x01 \<noteq> 0 then upd_conn (\<lambda>c. c\<lparr>c_closed := True\<rparr>) s2 else s2) } } } })"

section \<open>Reception\<close>

text \<open>The length that \<open>ipv4_handle\<close> passes on is \<open>total - ihl\<close> as a \<open>size_t\<close>.\<close>

definition ipv4_handle :: "poller \<Rightarrow> u8 list \<Rightarrow> nat \<Rightarrow> net_state \<Rightarrow> (int \<times> net_state) option" where
  "ipv4_handle poll pkt len s =
     (if len < 20 then Some (- 1, s)
      else do {
        t \<leftarrow> rd16 pkt 2;
        dst \<leftarrow> rd_bytes pkt 16 4;
        if u32_to_ip4 (ip4_to_u32 dst) \<noteq> if_ip (iface s) then Some (0, s)
        else
          let total0 = htons16 t; total = (if len < unat total0 then of_nat len else total0) in
          if total < 20 then Some (- 1, s)
          else do {
            v \<leftarrow> rd pkt 0;
            let ihl = (v AND 0x0F) * 4;
            if ihl < 20 then Some (- 1, s)
            else do {
              proto \<leftarrow> rd pkt 9;
              let plen = (unat total + 4294967296 - unat ihl) mod 4294967296;
              let body = drop (unat ihl) pkt;
              if proto = 1 then do { src \<leftarrow> rd_bytes pkt 12 4; icmp_handle poll body plen src s }
              else if proto = 17 then udp_handle body plen s
              else if proto = 6 then tcp_handle poll body plen s
              else Some (- 1, s) } } })"

definition net_handle_frame :: "poller \<Rightarrow> u8 list \<Rightarrow> nat \<Rightarrow> net_state \<Rightarrow> (int \<times> net_state) option" where
  "net_handle_frame poll frame len s =
     (if len < 14 then Some (- 1, s)
      else do {
        t \<leftarrow> rd16 frame 12;
        src \<leftarrow> rd_bytes frame 6 6;
        let type = htons16 t;
        let s1 = (if if_mac (iface s) = replicate 6 0 then s\<lparr>iface := (iface s)\<lparr>if_mac := src\<rparr>\<rparr> else s);
        if type = 0x0806 then arp_handle (drop 14 frame) (len - 14) s1
        else if type = 0x0800 then ipv4_handle poll (drop 14 frame) (len - 14) s1
        else Some (- 1, s1) })"

definition net_receive :: "poller \<Rightarrow> u8 list \<Rightarrow> nat \<Rightarrow> net_state \<Rightarrow> net_state option" where
  "net_receive poll frame len s = map_option snd (net_handle_frame poll frame len s)"

text \<open>What happens outside until the next poll.\<close>

definition pass_time :: "net_state \<Rightarrow> net_state" where
  "pass_time s =
     (let n = nic s in
      case arrivals n of
        [] \<Rightarrow> s\<lparr>nic := n\<lparr>ticks := ticks n + 1\<rparr>\<rparr>
      | e # es \<Rightarrow> s\<lparr>nic := n\<lparr>ticks := ticks n + ev_ticks e, cancelled := cancelled n \<or> ev_cancel e,
                               rxq := rxq n @ ev_frames e, arrivals := es\<rparr>\<rparr>)"

text \<open>The receive loop of the driver, bounded by the number of frames there can be.\<close>

definition frames_left :: "net_state \<Rightarrow> nat" where
  "frames_left s = length (rxq (nic s)) + sum_list (map (\<lambda>e. length (ev_frames e)) (arrivals (nic s)))"

fun rx_loop :: "nat \<Rightarrow> poller \<Rightarrow> poller" where
  "rx_loop k poll s =
     (case rxq (nic s) of
        [] \<Rightarrow> Some s
      | (frame, len) # q \<Rightarrow>
          (case k of 0 \<Rightarrow> None
           | Suc k' \<Rightarrow> do { s1 \<leftarrow> net_receive poll frame len (s\<lparr>nic := (nic s)\<lparr>rxq := q\<rparr>\<rparr>); rx_loop k' poll s1 }))"

fun poll_depth :: "nat \<Rightarrow> poller" where
  "poll_depth 0 s = (if rtl_up (nic (pass_time s)) \<and> rxq (nic (pass_time s)) \<noteq> [] then None else Some (pass_time s))"
| "poll_depth (Suc n) s =
     (if rtl_up (nic (pass_time s)) then rx_loop (frames_left (pass_time s)) (poll_depth n) (pass_time s) else Some (pass_time s))"

definition rtl8139_poll :: poller where
  "rtl8139_poll s = poll_depth (frames_left s) s"

section \<open>Operations that wait\<close>

definition icmp_ping :: "net_ip4_t \<Rightarrow> net_state \<Rightarrow> (u32 option \<times> net_state) option" where
  "icmp_ping dst s =
     (let ident = ucast (ticks (nic s) AND 0xFFFF); start = ticks (nic s) in
      do {
        csum \<leftarrow> icmp_checksum (icmp_bytes 8 0 0 ident 1) 8;
        let s1 = s\<lparr>icmp := \<lparr>icmp_waiting = True, icmp_wait_id = ident, icmp_wait_seq = 1, icmp_wait_start = start, icmp_reply_recv = False\<rparr>\<rparr>;
        (r, s2) \<leftarrow> ipv4_send rtl8139_poll dst 1 (icmp_bytes 8 0 (htons16 csum) ident 1) 8 s1;
        if r \<noteq> 0 then Some (None, s2\<lparr>icmp := (icmp s2)\<lparr>icmp_waiting := False\<rparr>\<rparr>)
        else do {
          s3 \<leftarrow> poll_wait (wait_bound s2 60) rtl8139_poll (\<lambda>s. \<not> icmp_reply_recv (icmp s)) (\<lambda>s. cancelled (nic s)) start 60 s2;
          let s4 = s3\<lparr>icmp := (icmp s3)\<lparr>icmp_waiting := False\<rparr>\<rparr>;
          Some (if \<not> icmp_reply_recv (icmp s4) then None else Some (ticks (nic s4) - start), s4) } })"

definition udp_exchange :: "net_ip4_t \<Rightarrow> u16 \<Rightarrow> u8 list \<Rightarrow> nat \<Rightarrow> u16 \<Rightarrow> u32 \<Rightarrow> net_state \<Rightarrow> (int \<times> net_state) option" where
  "udp_exchange dst dst_port payload len local_port timeout s =
     (let s1 = s\<lparr>udp := (udp s)\<lparr>tx := (tx (udp s))\<lparr>tx_remote := dst, tx_remote_port := dst_port, tx_local_port := local_port,
            tx_done := False, tx_reply_len := 0\<rparr>, g_active_tx := True\<rparr>\<rparr>;
          start = ticks (nic s)
      in do {
        (r, s2) \<leftarrow> udp_send rtl8139_poll dst local_port dst_port payload len s1;
        if r \<noteq> 0 then Some (- 1, s2\<lparr>udp := (udp s2)\<lparr>g_active_tx := False\<rparr>\<rparr>)
        else do {
          s3 \<leftarrow> poll_wait (wait_bound s2 timeout) rtl8139_poll (\<lambda>s. \<not> tx_done (tx (udp s))) (\<lambda>s. cancelled (nic s)) start timeout s2;
          Some (if tx_done (tx (udp s3)) then 0 else - 1, s3\<lparr>udp := (udp s3)\<lparr>g_active_tx := False\<rparr>\<rparr>) } })"

definition conn_off :: "net_state \<Rightarrow> net_state" where
  "conn_off s = s\<lparr>tcp := \<lparr>current_conn = False, conn = (conn (tcp s))\<lparr>c_active := False\<rparr>\<rparr>\<rparr>"

definition tcp_connect :: "net_ip4_t \<Rightarrow> u16 \<Rightarrow> net_state \<Rightarrow> (int \<times> net_state) option" where
  "tcp_connect dst dst_port s =
     (let now = ticks (nic s);
          c = \<lparr>c_active = True, c_remote = dst, c_src_port = 49152 + of_nat (unat now mod 5000), c_dst_port = dst_port,
               c_my_seq = now + 1, c_their_seq = 0, c_my_ack = 0, c_inbuf = replicate 4096 0, c_inlen = 0, c_closed = False,
               c_established = False, c_syn_sent = False\<rparr>
      in do {
        (r, s1) \<leftarrow> tcp_send_seg rtl8139_poll 0x02 [] 0 (s\<lparr>tcp := \<lparr>current_conn = True, conn = c\<rparr>\<rparr>);
        if r \<noteq> 0 then Some (- 1, conn_off s1)
        else do {
          let s2 = upd_conn (\<lambda>c. c\<lparr>c_syn_sent := True\<rparr>) s1;
          s3 \<leftarrow> poll_wait (wait_bound s2 500) rtl8139_poll (\<lambda>s. \<not> c_established (conn (tcp s)))
                 (\<lambda>s. c_closed (conn (tcp s)) \<or> cancelled (nic s)) now 500 s2;
          Some (if \<not> c_established (conn (tcp s3)) then (- 1, conn_off s3) else (0, s3)) } })"

definition tcp_send :: "u8 list \<Rightarrow> nat \<Rightarrow> net_state \<Rightarrow> (int \<times> net_state) option" where
  "tcp_send data len s =
     (if \<not> c_established (conn (tcp s)) then Some (- 1, s)
      else do { (ret, s1) \<leftarrow> tcp_send_seg rtl8139_poll 0x18 data len s;
                Some (ret, if ret = 0 then upd_conn (\<lambda>c. c\<lparr>c_my_seq := c_my_seq c + of_nat len\<rparr>) s1 else s1) })"

text \<open>The bytes that \<open>tcp_recv\<close> stores at \<open>buf\<close> are returned.\<close>

definition tcp_recv :: "nat \<Rightarrow> u32 \<Rightarrow> net_state \<Rightarrow> (int \<times> u8 list \<times> net_state) option" where
  "tcp_recv len timeout s =
     do { s1 \<leftarrow> poll_wait (wait_bound s timeout) rtl8139_poll (\<lambda>s. c_inlen (conn (tcp s)) = 0 \<and> \<not> c_closed (conn (tcp s)))
                 (\<lambda>s. cancelled (nic s)) (ticks (nic s)) timeout s;
          let c = conn (tcp s1);
          let n = min (c_inlen c) len;
          if c_inlen c = 0 then Some (if c_closed c then 0 else - 1, [], s1)
          else do {
            out \<leftarrow> rd_bytes (c_inbuf c) 0 n;
            b \<leftarrow> memmove (c_inbuf c) 0 n (c_inlen c - n);
            Some (int n, out, upd_conn (\<lambda>c. c\<lparr>c_inbuf := b, c_inlen := c_inlen c - n\<rparr>) s1) } }"

definition tcp_close :: "net_state \<Rightarrow> net_state option" where
  "tcp_close s =
     do { s1 \<leftarrow> (if c_established (conn (tcp s)) then map_option snd (tcp_send_seg rtl8139_poll 0x11 [] 0 s) else Some s);
          Some (s1\<lparr>tcp := \<lparr>current_conn = False, conn = (conn (tcp s1))\<lparr>c_closed := True, c_active := False\<rparr>\<rparr>\<rparr>) }"

end
