(* ===== verification/NetSafety.thy ===== *)
theory NetSafety
  imports Net
begin

text \<open>
  Safety and termination of the network stack.  The interface between the card and the protocols is the
  locale \<open>nic_poll\<close>: a poll succeeds, keeps the stack well formed and makes progress.  Sending, resolving and
  handling a frame are proved safe for every such poll; the driver's poll is shown to be one.
\<close>

section \<open>Well-formed states\<close>

definition rx_frame_ok :: "u8 list \<times> nat \<Rightarrow> bool" where
  "rx_frame_ok f \<longleftrightarrow> length (fst f) = 1518 \<and> snd f \<le> 1514"

definition iface_ok :: "net_iface_t \<Rightarrow> bool" where
  "iface_ok f \<longleftrightarrow> length (if_mac f) = 6 \<and> length (if_ip f) = 4 \<and> length (if_netmask f) = 4 \<and> length (if_gateway f) = 4 \<and> length (if_dns f) = 4"

definition arp_ok :: "arp_state \<Rightarrow> bool" where
  "arp_ok a \<longleftrightarrow> length (arp_cache a) = 8 \<and> (\<forall>e \<in> set (arp_cache a). length (ae_mac e) = 6) \<and> length (arp_pending_mac a) = 6"

definition udp_ok :: "udp_state \<Rightarrow> bool" where
  "udp_ok u \<longleftrightarrow> length (tx_reply (tx u)) = 512 \<and> tx_reply_len (tx u) \<le> 512 \<and> (\<forall>b \<in> set (udp_binds u). \<not> ub_used b)"

definition nic_ok :: "nic_state \<Rightarrow> bool" where
  "nic_ok n \<longleftrightarrow> rtl_up n \<and> length (tx_buffer n) = 1518 \<and> length (stack n) = 1518 \<and> (\<forall>f \<in> set (rxq n). rx_frame_ok f) \<and>
     (\<forall>e \<in> set (arrivals n). \<forall>f \<in> set (ev_frames e). rx_frame_ok f)"

text \<open>The card is initialised, no TCP connection is open and no UDP port is bound.\<close>

definition net_ok :: "net_state \<Rightarrow> bool" where
  "net_ok s \<longleftrightarrow> iface_ok (iface s) \<and> arp_ok (arp s) \<and> udp_ok (udp s) \<and> \<not> current_conn (tcp s) \<and> nic_ok (nic s)"

text \<open>A step of the stack: well formed, and neither frames nor future events have been added.\<close>

definition handled :: "net_state \<Rightarrow> net_state \<Rightarrow> bool" where
  "handled s s' \<longleftrightarrow> net_ok s' \<and> frames_left s' \<le> frames_left s \<and> length (arrivals (nic s')) \<le> length (arrivals (nic s))"

lemma handled_refl: "net_ok s \<Longrightarrow> handled s s"
  by (simp add: handled_def)

lemma handled_trans: "handled s s' \<Longrightarrow> handled s' s'' \<Longrightarrow> handled s s''"
  by (auto simp: handled_def)

lemma handled_ok: "handled s s' \<Longrightarrow> net_ok s'"
  by (simp add: handled_def)

text \<open>Changes of the protocol variables that keep the state well formed.\<close>

lemma handled_upd:
  assumes "net_ok s"
  shows "arp_ok a \<Longrightarrow> handled s (s\<lparr>arp := a\<rparr>)" and "handled s (s\<lparr>icmp := i\<rparr>)" and "udp_ok u \<Longrightarrow> handled s (s\<lparr>udp := u\<rparr>)"
    and "iface_ok f \<Longrightarrow> handled s (s\<lparr>iface := f\<rparr>)"
  using assms by (simp_all add: handled_def net_ok_def frames_left_def)

section \<open>Sending a frame\<close>

definition eth_frame :: "net_state \<Rightarrow> net_mac_t \<Rightarrow> u16 \<Rightarrow> u8 list \<Rightarrow> nat \<Rightarrow> u8 list" where
  "eth_frame s dst ty payload len =
     dst @ if_mac (iface s) @ [ucast (drop_bit 8 ty AND 0xFF), ucast (ty AND 0xFF)] @ take len payload @
     take (60 - (14 + len)) (drop (14 + len) (stack (nic s)))"

lemma append_blit: "length xs = d \<Longrightarrow> blit (xs @ ys) d zs = xs @ zs @ drop (length zs) ys"
  by (simp add: blit_def)

lemma eth_send_build:
  assumes "length dst = 6" and "length (if_mac (iface s)) = 6" and "len \<le> 1500" and "len \<le> length payload" and "length (stack (nic s)) = 1518"
  shows "eth_send dst ty payload len s =
    net_send_frame (dst @ if_mac (iface s) @ [ucast (drop_bit 8 ty AND 0xFF), ucast (ty AND 0xFF)] @ take len payload @ drop (14 + len) (stack (nic s))) (14 + len) s"
proof -
  let ?st = "stack (nic s)" and ?m = "if_mac (iface s)" and ?h = "ucast (drop_bit 8 ty AND 0xFF)" and ?l = "ucast (ty AND 0xFF)"
  have d1: "memcpy ?st 0 dst 0 6 = Some (dst @ drop 6 ?st)"
    using assms by (simp add: memcpy_blit blit_def)
  have d2: "memcpy (dst @ drop 6 ?st) 6 ?m 0 6 = Some (dst @ ?m @ drop 12 ?st)"
    using assms by (simp add: memcpy_blit append_blit)
  have d3: "wr (dst @ ?m @ drop 12 ?st) 12 ?h = Some (dst @ ?m @ [?h] @ drop 13 ?st)"
    using assms by (simp add: wr_in list_update_append Cons_nth_drop_Suc [symmetric])
  have d4: "wr (dst @ ?m @ [?h] @ drop 13 ?st) 13 ?l = Some (dst @ ?m @ [?h, ?l] @ drop 14 ?st)"
    using assms by (simp add: wr_in list_update_append Cons_nth_drop_Suc [symmetric])
  have "length (dst @ ?m @ [?h, ?l]) = 14" using assms(1,2) by simp
  then have d5: "memcpy (dst @ ?m @ [?h, ?l] @ drop 14 ?st) 14 payload 0 len = Some (dst @ ?m @ [?h, ?l] @ take len payload @ drop (14 + len) ?st)"
    using assms(3-5) append_blit [of "dst @ ?m @ [?h, ?l]" 14 "drop 14 ?st" "take len payload"]
    by (simp add: memcpy_blit add.commute)
  show ?thesis using d1 d2 d3 d4 d5 assms(3)
    by (simp add: eth_send_def NET_PAYLOAD_MAX_def del: append.simps append_assoc)
qed

lemma eth_send_eq:
  assumes "length dst = 6" and "length (if_mac (iface s)) = 6" and "len \<le> 1500" and "len \<le> length payload" and "nic_ok (nic s)" and "if_up (iface s)"
  shows "\<exists>buf. length buf = 1518 \<and> eth_send dst ty payload len s =
    Some (0, s\<lparr>nic := (nic s)\<lparr>tx_buffer := buf, sent := sent (nic s) @ [eth_frame s dst ty payload len], tx_cur := (tx_cur (nic s) + 1) mod 4\<rparr>\<rparr>)"
proof -
  let ?st = "stack (nic s)" and ?m = "if_mac (iface s)" and ?h = "ucast (drop_bit 8 ty AND 0xFF)" and ?l = "ucast (ty AND 0xFF)"
  let ?len = "if 14 + len < 60 then 60 else 14 + len"
  let ?d = "dst @ ?m @ [?h, ?l] @ take len payload @ drop (14 + len) ?st"
  have st: "length ?st = 1518" "length (tx_buffer (nic s)) = 1518" "rtl_up (nic s)" using assms(5) by (simp_all add: nic_ok_def)
  have dl: "length ?d = 1518" using assms st by simp
  have t: "take ?len ?d = eth_frame s dst ty payload len"
    using assms(1-4) by (simp add: eth_frame_def)
  let ?buf = "blit (tx_buffer (nic s)) 0 (take ?len ?d)"
  have "memcpy (tx_buffer (nic s)) 0 ?d 0 ?len = Some ?buf"
    using dl st assms(3) by (subst memcpy_blit) auto
  moreover have "take ?len ?buf = take ?len ?d" "length ?buf = 1518" using dl st assms(3) by (auto simp: blit_def)
  moreover have "\<not> 1518 < 14 + len" using assms(3) by simp
  ultimately show ?thesis
    using eth_send_build [OF assms(1-4) st(1)] t st(3) assms(6)
    by (intro exI [of _ ?buf]) (simp add: net_send_frame_def rtl8139_tx_def NET_BUF_SIZE_def Let_def del: append.simps append_assoc)
qed

lemma eth_send_ok:
  assumes "net_ok s" and "length dst = 6" and "len \<le> 1500" and "len \<le> length payload"
  shows "\<exists>r s'. eth_send dst ty payload len s = Some (r, s') \<and> handled s s' \<and>
    arp s' = arp s \<and> iface s' = iface s \<and> ticks (nic s') = ticks (nic s) \<and> arrivals (nic s') = arrivals (nic s) \<and> rxq (nic s') = rxq (nic s)"
proof -
  have l: "length (if_mac (iface s)) = 6" "nic_ok (nic s)" "length (stack (nic s)) = 1518"
    using assms(1) by (simp_all add: net_ok_def iface_ok_def nic_ok_def)
  show ?thesis
  proof (cases "if_up (iface s)")
    case True
    from eth_send_eq [OF assms(2) l(1) assms(3,4) l(2) True, of ty] obtain buf where
      "length buf = 1518" and e: "eth_send dst ty payload len s =
        Some (0, s\<lparr>nic := (nic s)\<lparr>tx_buffer := buf, sent := sent (nic s) @ [eth_frame s dst ty payload len], tx_cur := (tx_cur (nic s) + 1) mod 4\<rparr>\<rparr>)"
      by blast
    then show ?thesis unfolding e using assms(1) by (simp add: handled_def net_ok_def nic_ok_def frames_left_def)
  next
    case False
    then have "eth_send dst ty payload len s = Some (- 1, s)"
      using eth_send_build [OF assms(2) l(1) assms(3,4) l(3), of ty] by (simp add: net_send_frame_def)
    then show ?thesis using handled_refl [OF assms(1)] by simp
  qed
qed

section \<open>The ARP cache\<close>

lemma arp_find_Some: "arp_find ip es = Some i \<Longrightarrow> i < length es \<and> ae_valid (es ! i) \<and> ae_ip (es ! i) = ip \<and> (\<forall>j < i. \<not> (ae_valid (es ! j) \<and> ae_ip (es ! j) = ip))"
proof (induction es arbitrary: i)
  case (Cons e es)
  show ?case
  proof (cases "ae_valid e \<and> ae_ip e = ip")
    case False
    then obtain z where z: "i = Suc z" "arp_find ip es = Some z" using Cons.prems by auto
    have "\<not> (ae_valid ((e # es) ! j) \<and> ae_ip ((e # es) ! j) = ip)" if "j < i" for j
      using Cons.IH [OF z(2)] z(1) that False by (cases j) auto
    then show ?thesis using Cons.IH [OF z(2)] z(1) by auto
  qed (use Cons.prems in auto)
qed simp

lemma arp_find_None: "arp_find ip es = None \<longleftrightarrow> (\<forall>e \<in> set es. \<not> (ae_valid e \<and> ae_ip e = ip))"
  by (induction es) auto

lemma arp_slot_less: "oldest < m \<Longrightarrow> i + length es \<le> m \<Longrightarrow> arp_slot es i oldest age < m"
  by (induction es arbitrary: i oldest age) auto

lemma arp_cache_add_ok:
  assumes "net_ok s" and "length mac = 6"
  shows "handled s (arp_cache_add ip mac s)" and "iface (arp_cache_add ip mac s) = iface s" and "nic (arp_cache_add ip mac s) = nic s"
proof -
  let ?c = "arp_cache (arp s)"
  have c: "length ?c = 8" "\<forall>e \<in> set ?c. length (ae_mac e) = 6" "length (arp_pending_mac (arp s)) = 6"
    using assms(1) by (auto simp: net_ok_def arp_ok_def)
  have "arp_ok (arp (arp_cache_add ip mac s))"
    using c assms(2) by (auto simp: arp_cache_add_def arp_ok_def Let_def split: option.splits dest!: set_update_subset_insert [THEN subsetD])
  moreover have "arp_cache_add ip mac s = s\<lparr>arp := arp (arp_cache_add ip mac s)\<rparr>"
    by (simp add: arp_cache_add_def Let_def split: option.splits)
  ultimately show "handled s (arp_cache_add ip mac s)" using handled_upd(1) [OF assms(1)] by metis
  show "iface (arp_cache_add ip mac s) = iface s" "nic (arp_cache_add ip mac s) = nic s"
    by (simp_all add: arp_cache_add_def Let_def split: option.splits)
qed

lemma arp_cache_lookup_length: "net_ok s \<Longrightarrow> arp_cache_lookup ip s = Some mac \<Longrightarrow> length mac = 6"
  by (auto simp: arp_cache_lookup_def net_ok_def arp_ok_def dest!: arp_find_Some)

lemma length_bytes: "length (le16 x) = 2" "length (le32 y) = 4" "length (u32_to_ip4 v) = 4"
  by (simp_all add: le16_def le32_def u32_to_ip4_def)

lemma arp_packet_at_ok:
  assumes "28 \<le> length b"
  shows "\<exists>p. arp_packet_at b = Some p \<and> length (ap_sha p) = 6 \<and> length (ap_spa p) = 4 \<and> length (ap_tha p) = 6 \<and> length (ap_tpa p) = 4"
proof -
  have "b \<noteq> []" using assms by auto
  then show ?thesis using assms by (simp add: arp_packet_at_def rd16_def rd_bytes_def rd_in)
qed

lemma arp_send_request_ok:
  assumes "net_ok s" and "length ip = 4"
  shows "\<exists>r s'. arp_send_request ip s = Some (r, s') \<and> handled s s' \<and> arp s' = arp s \<and> iface s' = iface s \<and>
    ticks (nic s') = ticks (nic s) \<and> arrivals (nic s') = arrivals (nic s) \<and> rxq (nic s') = rxq (nic s)"
  unfolding arp_send_request_def using assms
  by (intro eth_send_ok) (simp_all add: arp_bytes_def length_bytes net_ok_def iface_ok_def)

lemma arp_handle_ok:
  assumes "net_ok s" and "28 \<le> length pkt"
  shows "\<exists>r s'. arp_handle pkt len s = Some (r, s') \<and> handled s s'"
proof -
  obtain p where p: "arp_packet_at pkt = Some p" "length (ap_sha p) = 6" "length (ap_spa p) = 4" "length (ap_tha p) = 6" "length (ap_tpa p) = 4"
    using arp_packet_at_ok [OF assms(2)] by blast
  let ?s1 = "arp_cache_add (u32_to_ip4 (ip4_to_u32 (ap_spa p))) (ap_sha p) s"
  let ?b = "arp_bytes \<lparr>ap_htype = ap_htype p, ap_ptype = ap_ptype p, ap_hlen = 6, ap_plen = 4, ap_opcode = htons16 2,
                      ap_sha = ap_tha p, ap_spa = ap_tpa p, ap_tha = ap_sha p, ap_tpa = ap_spa p\<rparr>"
  have s1: "handled s ?s1" using arp_cache_add_ok(1) [OF assms(1) p(2)] .
  obtain r s2 where "eth_send (ap_sha p) 0x0806 ?b 28 ?s1 = Some (r, s2)" "handled ?s1 s2"
    using eth_send_ok [OF handled_ok [OF s1] p(2), of 28 ?b "0x0806"] p by (auto simp: arp_bytes_def length_bytes)
  then show ?thesis using p(1) s1 handled_refl [OF assms(1)] handled_trans [OF s1]
    by (auto simp: arp_handle_def Let_def)
qed

lemma icmp_checksum_ip: "icmp_checksum data len = ip_checksum data len"
  by (simp add: icmp_checksum_def ip_checksum_def)

section \<open>The interface of the card\<close>

text \<open>
  What the protocols rely on: in a well-formed state with at most \<open>n\<close> frames to come, a poll succeeds, leaves no
  frame in the queue, consumes an event of the outside world if there is one and otherwise, if
  nothing is queued, only lets one tick pass.
\<close>

definition polled :: "net_state \<Rightarrow> net_state \<Rightarrow> bool" where
  "polled s s' \<longleftrightarrow> handled s s' \<and> rxq (nic s') = [] \<and>
     (arrivals (nic s) \<noteq> [] \<longrightarrow> length (arrivals (nic s')) < length (arrivals (nic s))) \<and>
     (arrivals (nic s) = [] \<and> rxq (nic s) = [] \<longrightarrow> s' = pass_time s)"

locale nic_poll =
  fixes n :: nat and poll :: poller
  assumes poll_ok: "net_ok s \<Longrightarrow> frames_left s \<le> n \<Longrightarrow> \<exists>s'. poll s = Some s' \<and> polled s s'"
begin

definition waits :: "net_state \<Rightarrow> u32 \<Rightarrow> u32 \<Rightarrow> nat" where
  "waits s start timeout =
     (if arrivals (nic s) = [] \<and> rxq (nic s) = [] then unat timeout - unat (ticks (nic s) - start)
      else length (arrivals (nic s)) + unat timeout + (if rxq (nic s) = [] then 0 else 1))"

text \<open>Every poll of a waiting loop brings it closer to its end.\<close>

lemma waits_decreases:
  assumes "polled s s'" and "ticks (nic s') - start < timeout" and "ticks (nic s) - start < timeout"
  shows "waits s' start timeout < waits s start timeout"
proof -
  have p: "rxq (nic s') = []" "arrivals (nic s) \<noteq> [] \<longrightarrow> length (arrivals (nic s')) < length (arrivals (nic s))"
    "length (arrivals (nic s')) \<le> length (arrivals (nic s))"
    "arrivals (nic s) = [] \<and> rxq (nic s) = [] \<longrightarrow> s' = pass_time s"
    using assms(1) by (auto simp: polled_def handled_def)
  have t: "0 < unat timeout" using assms(2) by (metis word_less_nat_alt not_less_zero gr0I)
  show ?thesis
  proof (cases "arrivals (nic s) = [] \<and> rxq (nic s) = []")
    case True
    let ?d = "ticks (nic s) - start"
    have e: "ticks (nic s') - start = ?d + 1" "arrivals (nic s') = []" "rxq (nic s') = []"
      using p(4) True by (simp_all add: pass_time_def Let_def)
    have lt: "unat ?d < unat timeout" using assms(3) by (simp add: word_less_nat_alt)
    then have "unat (?d + 1) = unat ?d + 1"
      using unat_less_2p32 [of timeout] by (subst unat_plus_nowrap32) simp_all
    then have "unat (ticks (nic s') - start) = unat ?d + 1" by (simp only: e(1))
    then show ?thesis using lt True e(2,3) by (simp add: waits_def)
  next
    case False
    have "waits s' start timeout \<le> length (arrivals (nic s')) + unat timeout" using p(1) by (simp add: waits_def)
    also have "\<dots> < waits s start timeout" using False p(2,3) by (auto simp: waits_def)
    finally show ?thesis .
  qed
qed

lemma poll_wait_from:
  assumes "net_ok s" and "frames_left s \<le> n" and "ticks (nic s) - start < timeout" and "waits s start timeout \<le> k"
  shows "\<exists>s'. poll_wait k poll waiting stop start timeout s = Some s' \<and> handled s s'"
  using assms
proof (induction k arbitrary: s)
  case 0
  have "0 < waits s start timeout" using 0(3) by (auto simp: waits_def word_less_nat_alt)
  then show ?case using 0(4) by simp
next
  case (Suc k)
  obtain s1 where s1: "poll s = Some s1" "polled s s1" using poll_ok [OF Suc.prems(1,2)] by blast
  then have h: "handled s s1" by (simp add: polled_def)
  show ?case
  proof (cases "\<not> waiting s \<or> stop s1 \<or> timeout \<le> ticks (nic s1) - start")
    case True
    then show ?thesis using s1 h handled_refl [OF Suc.prems(1)] by auto
  next
    case False
    then have lt: "ticks (nic s1) - start < timeout" by (simp add: not_le)
    have "waits s1 start timeout \<le> k" using waits_decreases [OF s1(2) lt Suc.prems(3)] Suc.prems(4) by simp
    moreover have "net_ok s1" "frames_left s1 \<le> n" using h Suc.prems(2) by (auto simp: handled_def)
    ultimately obtain s' where "poll_wait k poll waiting stop start timeout s1 = Some s'" "handled s1 s'"
      using Suc.IH [of s1] lt by blast
    then show ?thesis using False s1 handled_trans [OF h] by auto
  qed
qed

lemma poll_wait_ok:
  assumes "net_ok s" and "frames_left s \<le> n"
  shows "\<exists>s'. poll_wait (wait_bound s timeout) poll waiting stop start timeout s = Some s' \<and> handled s s'"
proof -
  obtain s1 where s1: "poll s = Some s1" "polled s s1" using poll_ok [OF assms] by blast
  then have h: "handled s s1" and q: "rxq (nic s1) = []" by (simp_all add: polled_def)
  let ?k = "length (arrivals (nic s)) + unat timeout + 1"
  have "waits s1 start timeout \<le> ?k" using h q by (auto simp: waits_def handled_def)
  moreover have "net_ok s1" "frames_left s1 \<le> n" using h assms(2) by (auto simp: handled_def)
  ultimately have "\<exists>s'. poll_wait ?k poll waiting stop start timeout s1 = Some s' \<and> handled s1 s'"
    if "ticks (nic s1) - start < timeout" using poll_wait_from that by blast
  moreover have "wait_bound s timeout = Suc ?k" by (simp add: wait_bound_def)
  ultimately show ?thesis using s1(1) h handled_refl [OF assms(1)] handled_trans [OF h]
    by (auto simp: not_le simp del: add_Suc_right)
qed

lemma arp_resolve_ok:
  assumes "net_ok s" and "frames_left s \<le> n" and "length ip = 4"
  shows "\<exists>m s'. arp_resolve poll ip s = Some (m, s') \<and> handled s s' \<and> (\<forall>mac. m = Some mac \<longrightarrow> length mac = 6)"
proof (cases "arp_cache_lookup ip s")
  case (Some mac)
  then show ?thesis using assms(1) arp_cache_lookup_length handled_refl by (simp add: arp_resolve_def)
next
  case None
  have off: "handled s' (s'\<lparr>arp := (arp s')\<lparr>arp_pending := False\<rparr>\<rparr>)" if "net_ok s'" for s'
    using that by (intro handled_upd) (simp_all add: net_ok_def arp_ok_def)
  let ?s1 = "s\<lparr>arp := (arp s)\<lparr>arp_pending := True, arp_pending_ip := ip\<rparr>\<rparr>"
  have h1: "handled s ?s1" using assms(1) by (intro handled_upd) (simp_all add: net_ok_def arp_ok_def)
  obtain r s2 where s2: "arp_send_request ip ?s1 = Some (r, s2)" "handled ?s1 s2"
    using arp_send_request_ok [OF handled_ok [OF h1] assms(3)] by blast
  have h2: "handled s s2" by (rule handled_trans [OF h1 s2(2)])
  then have "net_ok s2" "frames_left s2 \<le> n" using assms(2) by (auto simp: handled_def)
  then obtain s3 where s3: "poll_wait (wait_bound s2 200) poll (\<lambda>s. arp_pending (arp s)) (\<lambda>s. cancelled (nic s)) (ticks (nic s)) 200 s2 = Some s3" "handled s2 s3"
    using poll_wait_ok by blast
  have h3: "handled s s3" by (rule handled_trans [OF h2 s3(2)])
  have "length (arp_pending_mac (arp s3)) = 6" using h3 by (simp add: handled_def net_ok_def arp_ok_def)
  then show ?thesis
    using None s2(1) s3(1) h3 handled_trans [OF h2 off [OF handled_ok [OF h2]]] handled_trans [OF h3 off [OF handled_ok [OF h3]]]
    by (simp add: arp_resolve_def Let_def)
qed

lemma ipv4_send_ok:
  assumes "net_ok s" and "frames_left s \<le> n" and "length dst = 4" and "len \<le> length payload"
  shows "\<exists>r s'. ipv4_send poll dst proto payload len s = Some (r, s') \<and> handled s s'"
proof (cases "\<not> if_up (iface s) \<or> 1480 < len")
  case True
  then show ?thesis using handled_refl [OF assms(1)] by (auto simp: ipv4_send_def NET_PAYLOAD_MAX_def)
next
  case False
  let ?hdr = "\<lparr>ih_ver_ihl = 0x45, ih_tos = 0, ih_total_len = htons16 (of_nat (20 + len)), ih_id = htons16 0x4242,
              ih_flags_frag = 0, ih_ttl = 64, ih_protocol = proto, ih_checksum = 0, ih_src = if_ip (iface s), ih_dst = dst\<rparr>"
  have l: "length (if_ip (iface s)) = 4" "length (if_gateway (iface s)) = 4" "length (stack (nic s)) = 1518"
    using assms(1) by (simp_all add: net_ok_def iface_ok_def nic_ok_def)
  have b: "length (ipv4_bytes (?hdr\<lparr>ih_checksum := ck\<rparr>)) = 20" "length (ipv4_bytes ?hdr) = 20" for ck
    using l assms(3) by (simp_all add: ipv4_bytes_def length_bytes)
  obtain c where c: "ip_checksum (ipv4_bytes ?hdr) 20 = Some c" using ip_checksum_spec [of 20 "ipv4_bytes ?hdr"] b by auto
  obtain p1 where p1: "memcpy (stack (nic s)) 0 (ipv4_bytes (?hdr\<lparr>ih_checksum := htons16 c\<rparr>)) 0 20 = Some p1" "length p1 = 1518"
    using b(1) l(3) by (simp add: mem_simps del: ipv4_header_t.update_convs)
  obtain p2 where p2: "memcpy p1 20 payload 0 len = Some p2" "length p2 = 1518"
    using p1(2) assms(4) False by (simp add: mem_simps)
  let ?hop = "if is_local_network dst s then dst else if_gateway (iface s)"
  have "length ?hop = 4" using l(2) assms(3) by simp
  then obtain m s1 where s1: "arp_resolve poll ?hop s = Some (m, s1)" "handled s s1" "\<forall>mac. m = Some mac \<longrightarrow> length mac = 6"
    using arp_resolve_ok [OF assms(1,2)] by blast
  show ?thesis
  proof (cases m)
    case None
    then show ?thesis using False c p1(1) p2(1) s1 by (simp add: ipv4_send_def NET_PAYLOAD_MAX_def Let_def)
  next
    case (Some mac)
    then obtain r s2 where "eth_send mac 0x0800 p2 (20 + len) s1 = Some (r, s2)" "handled s1 s2"
      using eth_send_ok [OF handled_ok [OF s1(2)], of mac "20 + len" p2 "0x0800"] s1(3) False p2(2) by auto
    then show ?thesis using Some False c p1(1) p2(1) s1 handled_trans [OF s1(2)]
      by (simp add: ipv4_send_def NET_PAYLOAD_MAX_def Let_def)
  qed
qed

lemma icmp_handle_ok:
  assumes "net_ok s" and "frames_left s \<le> n" and "length src = 4" and "512 \<le> length pkt"
  shows "\<exists>r s'. icmp_handle poll pkt len src s = Some (r, s') \<and> handled s s'"
proof -
  have st: "length (stack (nic s)) = 1518" using assms(1) by (simp add: net_ok_def nic_ok_def)
  have "pkt \<noteq> []" using assms(4) by auto
  then obtain ty ident seq where r: "rd pkt 0 = Some ty" "rd16 pkt 4 = Some ident" "rd16 pkt 6 = Some seq"
    using assms(4) by (simp add: rd16_def rd_in)
  let ?n = "if 504 < len - 8 then 504 else len - 8"
  have le: "8 + ?n \<le> 512" by simp
  have bl: "length (icmp_bytes a b c d e) = 8" for a b c d e by (simp add: icmp_bytes_def length_bytes)
  obtain c0 where c0: "icmp_checksum (icmp_bytes 0 0 0 ident seq) 8 = Some c0"
    using ip_checksum_spec [of 8 "icmp_bytes 0 0 0 ident seq"] bl unfolding icmp_checksum_ip by auto
  have cp: "\<exists>b. memcpy (take 512 (stack (nic s))) 0 h 0 8 = Some b \<and> length b = 512" if "length h = 8" for h
    using that st by (simp add: mem_simps)
  have cp2: "\<exists>b. memcpy b1 8 pkt 8 ?n = Some b \<and> length b = 512" if "length b1 = 512" for b1
    using that assms(4) by (simp add: mem_simps)
  obtain t1 tmp where t: "memcpy (take 512 (stack (nic s))) 0 (icmp_bytes 0 0 (htons16 c0) ident seq) 0 8 = Some t1"
      "memcpy t1 8 pkt 8 ?n = Some tmp" "length tmp = 512" using cp [OF bl] cp2 by meson
  obtain cs where cs: "icmp_checksum tmp (8 + ?n) = Some cs"
    using ip_checksum_spec [of "8 + ?n" tmp] le t(3) unfolding icmp_checksum_ip by auto
  obtain o1 out where o: "memcpy (take 512 (stack (nic s))) 0 (icmp_bytes 0 0 (htons16 cs) ident seq) 0 8 = Some o1"
      "memcpy o1 8 pkt 8 ?n = Some out" "length out = 512" using cp [OF bl] cp2 by meson
  obtain q s1 where s1: "ipv4_send poll src 1 out (8 + ?n) s = Some (q, s1)" "handled s s1"
    using ipv4_send_ok [OF assms(1-3), of "8 + ?n" out 1] o(3) le by auto
  show ?thesis using r c0 t(1,2) cs o(1,2) s1 handled_refl [OF assms(1)] handled_upd(2) [OF assms(1)]
    by (simp add: icmp_handle_def Let_def)
qed

lemma udp_handle_ok:
  assumes "net_ok s" and "520 \<le> length pkt"
  shows "\<exists>r s'. udp_handle pkt len s = Some (r, s') \<and> handled s s'"
proof -
  have u: "length (tx_reply (tx (udp s))) = 512" "udp_find_bind p s = None" "udp_ok (udp s)" for p
    using assms(1) by (auto simp: net_ok_def udp_ok_def udp_find_bind_def find_None_iff)
  obtain p where p: "rd16 pkt 2 = Some p" using assms(2) by (simp add: rd16_def rd_in)
  have "handled s (s\<lparr>udp := (udp s)\<lparr>tx := (tx (udp s))\<lparr>tx_reply := r, tx_reply_len := l, tx_done := True\<rparr>\<rparr>\<rparr>)" if "length r = 512" "l \<le> 512" for r l
    using u(3) that by (intro handled_upd [OF assms(1)]) (simp add: udp_ok_def)
  then show ?thesis using p u(1,2) assms(2) handled_refl [OF assms(1)]
    by (simp add: udp_handle_def Let_def mem_simps)
qed

lemma ipv4_handle_ok:
  assumes "net_ok s" and "frames_left s \<le> n" and "1504 \<le> length pkt" and "len \<le> 1500"
  shows "\<exists>r s'. ipv4_handle poll pkt len s = Some (r, s') \<and> handled s s'"
proof -
  have ne: "pkt \<noteq> []" using assms(3) by auto
  obtain t v proto where r: "rd16 pkt 2 = Some t" "rd pkt 0 = Some v" "rd pkt 9 = Some proto"
    using assms(3) ne by (simp add: rd16_def rd_in)
  have b: "rd_bytes pkt 16 4 = Some (take 4 (drop 16 pkt))" "rd_bytes pkt 12 4 = Some (take 4 (drop 12 pkt))"
    using assms(3) by (simp_all add: rd_bytes_def)
  have "unat ((v AND 0x0F) * 4) < 256" by (rule unat_less_256)
  then have body: "520 \<le> length (drop (unat ((v AND 0x0F) * 4)) pkt)" using assms(3) by simp
  have i: "\<exists>r s'. icmp_handle poll (drop (unat ((v AND 0x0F) * 4)) pkt) l (take 4 (drop 12 pkt)) s = Some (r, s') \<and> handled s s'" for l
    using assms(3) body by (intro icmp_handle_ok [OF assms(1,2)]) auto
  have u: "\<exists>r s'. udp_handle (drop (unat ((v AND 0x0F) * 4)) pkt) l s = Some (r, s') \<and> handled s s'" for l
    using udp_handle_ok [OF assms(1) body] .
  have "tcp_handle poll (drop (unat ((v AND 0x0F) * 4)) pkt) l s = Some (- 1, s)" for l
    using assms(1) by (simp add: tcp_handle_def net_ok_def)
  then show ?thesis using r b i u handled_refl [OF assms(1)] by (simp add: ipv4_handle_def Let_def)
qed

lemma net_receive_ok:
  assumes "net_ok s" and "frames_left s \<le> n" and "rx_frame_ok (frame, len)"
  shows "\<exists>s'. net_receive poll frame len s = Some s' \<and> handled s s'"
proof (cases "len < 14")
  case True
  then show ?thesis using handled_refl [OF assms(1)] by (simp add: net_receive_def net_handle_frame_def)
next
  case False
  have f: "length frame = 1518" "len \<le> 1514" using assms(3) by (simp_all add: rx_frame_ok_def)
  obtain t where r: "rd16 frame 12 = Some t" "rd_bytes frame 6 6 = Some (take 6 (drop 6 frame))"
    using f(1) by (simp add: rd16_def rd_in rd_bytes_def)
  let ?s1 = "if if_mac (iface s) = replicate 6 0 then s\<lparr>iface := (iface s)\<lparr>if_mac := take 6 (drop 6 frame)\<rparr>\<rparr> else s"
  have h1: "handled s ?s1"
    using assms(1) f(1) handled_upd(4) [OF assms(1), of "(iface s)\<lparr>if_mac := take 6 (drop 6 frame)\<rparr>"] handled_refl [OF assms(1)]
    by (simp add: net_ok_def iface_ok_def)
  have n1: "net_ok ?s1" "frames_left ?s1 \<le> n" using h1 assms(2) by (auto simp: handled_def simp del: split_paired_All)
  obtain q2 s2 where a: "arp_handle (drop 14 frame) (len - 14) ?s1 = Some (q2, s2)" "handled ?s1 s2"
    using arp_handle_ok [OF n1(1), of "drop 14 frame" "len - 14"] f by auto
  obtain q3 s3 where i: "ipv4_handle poll (drop 14 frame) (len - 14) ?s1 = Some (q3, s3)" "handled ?s1 s3"
    using ipv4_handle_ok [OF n1, of "drop 14 frame" "len - 14"] f by (auto simp: le_diff_conv)
  show ?thesis using False r a(1) i(1) h1 handled_trans [OF h1 a(2)] handled_trans [OF h1 i(2)]
    by (simp add: net_receive_def net_handle_frame_def Let_def del: if_split)
qed

lemma rx_loop_ok:
  assumes "net_ok s" and "frames_left s \<le> Suc n" and "frames_left s \<le> k"
  shows "\<exists>s'. rx_loop k poll s = Some s' \<and> handled s s' \<and> rxq (nic s') = []"
  using assms
proof (induction k arbitrary: s)
  case 0
  then have "rxq (nic s) = []" by (simp add: frames_left_def)
  then show ?case using handled_refl [OF "0.prems"(1)] by (subst rx_loop.simps) simp
next
  case (Suc k)
  show ?case
  proof (cases "rxq (nic s)")
    case Nil
    then show ?thesis using handled_refl [OF Suc.prems(1)] by (subst rx_loop.simps) simp
  next
    case (Cons f q)
    obtain frame len where f: "f = (frame, len)" by fastforce
    let ?s0 = "s\<lparr>nic := (nic s)\<lparr>rxq := q\<rparr>\<rparr>"
    have s0: "net_ok ?s0" "Suc (frames_left ?s0) = frames_left s" "rx_frame_ok (frame, len)" "handled s ?s0"
      using Suc.prems(1) Cons f by (auto simp: net_ok_def nic_ok_def frames_left_def handled_def)
    then obtain s1 where s1: "net_receive poll frame len ?s0 = Some s1" "handled ?s0 s1"
      using net_receive_ok [of ?s0 frame len] Suc.prems(2) by auto
    then have "net_ok s1" "frames_left s1 \<le> Suc n" "frames_left s1 \<le> k"
      using s0(2) Suc.prems(2,3) by (auto simp: handled_def)
    then obtain s' where "rx_loop k poll s1 = Some s'" "handled s1 s'" "rxq (nic s') = []" using Suc.IH by blast
    then show ?thesis using Cons f s1 handled_trans [OF handled_trans [OF s0(4) s1(2)]]
      by (subst rx_loop.simps) simp
  qed
qed

end

lemma pass_time_ok:
  assumes "net_ok s"
  shows "handled s (pass_time s)" and "frames_left (pass_time s) = frames_left s"
    and "arrivals (nic s) \<noteq> [] \<Longrightarrow> length (arrivals (nic (pass_time s))) < length (arrivals (nic s))"
    and "arrivals (nic s) = [] \<Longrightarrow> rxq (nic (pass_time s)) = rxq (nic s)"
  using assms by (auto simp: pass_time_def Let_def handled_def net_ok_def nic_ok_def frames_left_def split: list.splits)

declare rx_loop.simps [simp del]

text \<open>The poll of the driver, at every depth that covers the frames to come, is such a poll.\<close>

lemma poll_depth_nic: "nic_poll n (poll_depth n)"
proof (induction n)
  case 0
  show ?case
  proof
    fix s assume s: "net_ok s" "frames_left s \<le> 0"
    then have "frames_left (pass_time s) = 0" using pass_time_ok(2) [OF s(1)] by simp
    then have "rxq (nic (pass_time s)) = []" by (simp add: frames_left_def)
    then show "\<exists>s'. poll_depth 0 s = Some s' \<and> polled s s'" using pass_time_ok [OF s(1)] by (auto simp: polled_def)
  qed
next
  case (Suc n)
  show ?case
  proof
    fix s assume s: "net_ok s" "frames_left s \<le> Suc n"
    note t = pass_time_ok [OF s(1)]
    have up: "rtl_up (nic (pass_time s))" using t(1) by (simp add: handled_def net_ok_def nic_ok_def)
    obtain s' where s': "rx_loop (frames_left (pass_time s)) (poll_depth n) (pass_time s) = Some s'" "handled (pass_time s) s'" "rxq (nic s') = []"
      using nic_poll.rx_loop_ok [OF Suc.IH handled_ok [OF t(1)]] t(2) s(2) by auto
    have "length (arrivals (nic s')) \<le> length (arrivals (nic (pass_time s)))" using s'(2) by (simp add: handled_def)
    moreover have "s' = pass_time s" if "arrivals (nic s) = []" "rxq (nic s) = []"
      using s'(1) t(4) that by (subst (asm) rx_loop.simps) simp
    ultimately have "polled s s'" using handled_trans [OF t(1) s'(2)] s'(3) t(3) by (auto simp: polled_def)
    then show "\<exists>s'. poll_depth (Suc n) s = Some s' \<and> polled s s'" using up s'(1) by simp
  qed
qed

lemma rtl8139_poll_nic: "nic_poll n rtl8139_poll"
proof
  fix s assume "net_ok s"
  then show "\<exists>s'. rtl8139_poll s = Some s' \<and> polled s s'"
    unfolding rtl8139_poll_def by (rule nic_poll.poll_ok [OF poll_depth_nic]) simp
qed

interpretation card: nic_poll n rtl8139_poll for n
  by (rule rtl8139_poll_nic)

lemma icmp_ping_ok:
  assumes "net_ok s" and "length dst = 4"
  shows "\<exists>r s'. icmp_ping dst s = Some (r, s') \<and> net_ok s'"
proof -
  let ?id = "ucast (ticks (nic s) AND 0xFFFF) :: u16"
  have bl: "length (icmp_bytes a b c d e) = 8" for a b c d e by (simp add: icmp_bytes_def length_bytes)
  obtain c where c: "icmp_checksum (icmp_bytes 8 0 0 ?id 1) 8 = Some c"
    using ip_checksum_spec [of 8 "icmp_bytes 8 0 0 ?id 1"] bl unfolding icmp_checksum_ip by auto
  let ?s1 = "s\<lparr>icmp := \<lparr>icmp_waiting = True, icmp_wait_id = ?id, icmp_wait_seq = 1, icmp_wait_start = ticks (nic s), icmp_reply_recv = False\<rparr>\<rparr>"
  have s1: "net_ok ?s1" using handled_upd(2) [OF assms(1)] handled_ok by blast
  obtain r s2 where s2: "ipv4_send rtl8139_poll dst 1 (icmp_bytes 8 0 (htons16 c) ?id 1) 8 ?s1 = Some (r, s2)" "net_ok s2"
    using card.ipv4_send_ok [OF s1 order_refl assms(2), of 8 "icmp_bytes 8 0 (htons16 c) ?id 1" 1] bl handled_ok by force
  obtain s3 where s3: "poll_wait (wait_bound s2 60) rtl8139_poll (\<lambda>s. \<not> icmp_reply_recv (icmp s)) (\<lambda>s. cancelled (nic s)) (ticks (nic s)) 60 s2 = Some s3" "net_ok s3"
    using card.poll_wait_ok [OF s2(2) order_refl] handled_ok by blast
  have "net_ok (s2\<lparr>icmp := (icmp s2)\<lparr>icmp_waiting := False\<rparr>\<rparr>)" "net_ok (s3\<lparr>icmp := (icmp s3)\<lparr>icmp_waiting := False\<rparr>\<rparr>)"
    using handled_upd(2) s2(2) s3(2) handled_ok by blast+
  then show ?thesis using c s2(1) s3(1) by (simp add: icmp_ping_def Let_def)
qed

lemma udp_exchange_ok:
  assumes "net_ok s" and "length dst = 4" and "len \<le> length payload"
  shows "\<exists>r s'. udp_exchange dst port payload len local_port timeout s = Some (r, s') \<and> net_ok s'"
proof -
  have off: "net_ok (s'\<lparr>udp := (udp s')\<lparr>g_active_tx := b\<rparr>\<rparr>)" if "net_ok s'" for s' b
    using that by (simp add: net_ok_def udp_ok_def)
  let ?s1 = "s\<lparr>udp := (udp s)\<lparr>tx := (tx (udp s))\<lparr>tx_remote := dst, tx_remote_port := port, tx_local_port := local_port,
            tx_done := False, tx_reply_len := 0\<rparr>, g_active_tx := True\<rparr>\<rparr>"
  have s1: "net_ok ?s1" using assms(1) by (simp add: net_ok_def udp_ok_def)
  have "\<exists>r s2. udp_send rtl8139_poll dst local_port port payload len ?s1 = Some (r, s2) \<and> net_ok s2"
  proof (cases "1472 < len")
    case True
    then show ?thesis using s1 by (simp add: udp_send_def NET_PAYLOAD_MAX_def)
  next
    case False
    have st: "length (stack (nic ?s1)) = 1518" using s1 by (simp add: net_ok_def nic_ok_def)
    have "length (udp_bytes a b c d) = 8" for a b c d by (simp add: udp_bytes_def length_bytes)
    then obtain d1 where d1: "memcpy (stack (nic ?s1)) 0 (udp_bytes (htons16 local_port) (htons16 port) (htons16 (of_nat (8 + len))) 0) 0 8 = Some d1" "length d1 = 1518"
      using st by (simp add: mem_simps)
    then obtain d2 where d2: "memcpy d1 8 payload 0 len = Some d2" "length d2 = 1518" using assms(3) False by (simp add: mem_simps)
    have "\<exists>r s2. ipv4_send rtl8139_poll dst 17 d2 (8 + len) ?s1 = Some (r, s2) \<and> handled ?s1 s2"
      using d2(2) False by (intro card.ipv4_send_ok [OF s1 order_refl assms(2)]) simp
    then show ?thesis using d1(1) d2(1) False handled_ok by (auto simp: udp_send_def NET_PAYLOAD_MAX_def)
  qed
  then obtain r s2 where s2: "udp_send rtl8139_poll dst local_port port payload len ?s1 = Some (r, s2)" "net_ok s2" by blast
  obtain s3 where s3: "poll_wait (wait_bound s2 timeout) rtl8139_poll (\<lambda>s. \<not> tx_done (tx (udp s))) (\<lambda>s. cancelled (nic s)) (ticks (nic s)) timeout s2 = Some s3" "net_ok s3"
    using card.poll_wait_ok [OF s2(2) order_refl] handled_ok by blast
  show ?thesis using s2 s3 off by (simp add: udp_exchange_def Let_def)
qed

section \<open>Properties\<close>


definition demo_conn :: tcp_conn_t where
  "demo_conn = \<lparr>c_active = False, c_remote = replicate 4 0, c_src_port = 0, c_dst_port = 0, c_my_seq = 0, c_their_seq = 0, c_my_ack = 0,
     c_inbuf = replicate 4096 0, c_inlen = 0, c_closed = False, c_established = False, c_syn_sent = False\<rparr>"

definition demo_net :: net_state where
  "demo_net =
     \<lparr>iface = \<lparr>if_name = lit ''eth0'', if_mac = [2, 0, 0, 0, 0, 1], if_ip = [10, 0, 2, 15], if_netmask = [255, 255, 255, 0],
        if_gateway = [10, 0, 2, 2], if_dns = [10, 0, 2, 3], if_up = True\<rparr>,
      arp = \<lparr>arp_cache = \<lparr>ae_ip = [10, 0, 2, 2], ae_mac = [2, 0, 0, 0, 0, 2], ae_valid = True, ae_age = 5\<rparr> #
          replicate 7 \<lparr>ae_ip = replicate 4 0, ae_mac = replicate 6 0, ae_valid = False, ae_age = 0\<rparr>,
        arp_pending = False, arp_pending_ip = replicate 4 0, arp_pending_mac = replicate 6 0\<rparr>,
      icmp = \<lparr>icmp_waiting = False, icmp_wait_id = 0, icmp_wait_seq = 0, icmp_wait_start = 0, icmp_reply_recv = False\<rparr>,
      udp = \<lparr>udp_binds = replicate 4 \<lparr>ub_port = 0, ub_cb = 0, ub_used = False\<rparr>, udp_calls = [], g_active_tx = False,
        tx = \<lparr>tx_remote = replicate 4 0, tx_remote_port = 0, tx_local_port = 0, tx_reply = replicate 512 0, tx_reply_len = 0, tx_done = False\<rparr>\<rparr>,
      tcp = \<lparr>current_conn = False, conn = demo_conn\<rparr>,
      nic = \<lparr>rtl_up = True, tx_cur = 0, tx_buffer = replicate 1518 0, sent = [], rxq = [], arrivals = [], ticks = 100, cancelled = False, stack = replicate 1518 0xAA\<rparr>\<rparr>"

text \<open>A ping of the host at 10.0.2.15 whose Ethernet frame arrives at the next poll.\<close>

definition ping_frame :: "u8 list" where
  "ping_frame = [2, 0, 0, 0, 0, 1] @ [2, 0, 0, 0, 0, 2] @ [0x08, 0] @
     [0x45, 0, 0, 28, 0, 1, 0, 0, 64, 1, 0, 0, 10, 0, 2, 2, 10, 0, 2, 15] @ [8, 0, 0, 0, 0, 7, 0, 1] @ replicate 1476 0"

definition demo_pinged :: net_state where
  "demo_pinged = demo_net\<lparr>nic := (nic demo_net)\<lparr>arrivals := [\<lparr>ev_ticks = 1, ev_cancel = False, ev_frames = [(ping_frame, 60)]\<rparr>]\<rparr>\<rparr>"

lemma demo_net_ok: "net_ok demo_net" "net_ok demo_pinged"
  by (simp_all add: net_ok_def demo_net_def iface_ok_def arp_ok_def udp_ok_def nic_ok_def demo_pinged_def rx_frame_ok_def ping_frame_def)


end
