(* ===== verification/NetProps.thy ===== *)
theory NetProps
  imports NetSafety
begin

text \<open>
  What the protocols do: the ARP cache as a bounded map, the frames that \<open>ipv4_send\<close> produces, echo replies,
  and the TCP receive path.
\<close>

section \<open>The ARP cache as a map\<close>

definition arp_uniq :: "arp_entry_t list \<Rightarrow> bool" where
  "arp_uniq c \<longleftrightarrow> (\<forall>i < length c. \<forall>j < length c. ae_valid (c ! i) \<and> ae_valid (c ! j) \<and> ae_ip (c ! i) = ae_ip (c ! j) \<longrightarrow> i = j)"

lemma arp_find_iff:
  assumes "arp_uniq c"
  shows "arp_find ip c = Some i \<longleftrightarrow> i < length c \<and> ae_valid (c ! i) \<and> ae_ip (c ! i) = ip"
proof
  assume i: "i < length c \<and> ae_valid (c ! i) \<and> ae_ip (c ! i) = ip"
  then have "arp_find ip c \<noteq> None" using arp_find_None [of ip c] nth_mem by blast
  then obtain j where "arp_find ip c = Some j" by blast
  then show "arp_find ip c = Some i" using arp_find_Some [of ip c j] i assms by (auto simp: arp_uniq_def)
qed (use arp_find_Some in blast)

lemma arp_slot_spec:
  "let r = arp_slot es i oldest age in
     ((\<exists>e \<in> set es. \<not> ae_valid e) \<longrightarrow> i \<le> r \<and> r < i + length es \<and> \<not> ae_valid (es ! (r - i))) \<and>
     ((\<forall>e \<in> set es. ae_valid e) \<longrightarrow> (r = oldest \<and> (\<forall>e \<in> set es. age \<le> ae_age e)) \<or>
        (i \<le> r \<and> r < i + length es \<and> ae_age (es ! (r - i)) < age \<and> (\<forall>e \<in> set es. ae_age (es ! (r - i)) \<le> ae_age e)))"
proof (induction es arbitrary: i oldest age)
  case (Cons e es)
  show ?case
  proof (cases "ae_valid e")
    case True
    let ?o = "if ae_age e < age then i else oldest" and ?a = "if ae_age e < age then ae_age e else age"
    have r: "arp_slot (e # es) i oldest age = arp_slot es (Suc i) ?o ?a" using True by simp
    have nth: "(e # es) ! (k - i) = es ! (k - Suc i)" if "Suc i \<le> k" for k using that by (simp add: nth_Cons')
    show ?thesis using Cons.IH [of "Suc i" ?o ?a] True nth [of "arp_slot es (Suc i) ?o ?a"] unfolding r Let_def
      by (auto split: if_splits simp: not_less dest: order.strict_trans)
  qed simp
qed simp

lemma arp_slot_victim:
  assumes "c \<noteq> []"
  shows "arp_slot c 0 0 0xFFFFFFFF < length c"
    and "\<exists>e \<in> set c. \<not> ae_valid e \<Longrightarrow> \<not> ae_valid (c ! arp_slot c 0 0 0xFFFFFFFF)"
    and "\<forall>e \<in> set c. ae_valid e \<Longrightarrow> e \<in> set c \<Longrightarrow> ae_age (c ! arp_slot c 0 0 0xFFFFFFFF) \<le> ae_age e"
proof -
  let ?r = "arp_slot c 0 0 0xFFFFFFFF"
  note sp = arp_slot_spec [of c 0 0 "0xFFFFFFFF", unfolded Let_def, simplified]
  show "?r < length c" using sp assms by (cases "\<exists>e \<in> set c. \<not> ae_valid e") auto
  show "\<exists>e \<in> set c. \<not> ae_valid e \<Longrightarrow> \<not> ae_valid (c ! ?r)" using sp by auto
  assume v: "\<forall>e \<in> set c. ae_valid e" and e: "e \<in> set c"
  have m: "x \<le> (0xFFFFFFFF :: u32)" for x using word_le_nat_alt [of x "0xFFFFFFFF"] unat_less_2p32 [of x] by simp
  from v sp consider "\<forall>e \<in> set c. 0xFFFFFFFF \<le> ae_age e" | "\<forall>e \<in> set c. ae_age (c ! ?r) \<le> ae_age e" by blast
  then show "ae_age (c ! ?r) \<le> ae_age e"
  proof cases
    case 1
    then show ?thesis using m [of "ae_age (c ! ?r)"] e order_trans by blast
  qed (use e in blast)
qed

text \<open>Storing a valid entry for \<open>ip\<close> in a slot that holds \<open>ip\<close> or is chosen when nobody holds it.\<close>

lemma arp_store:
  assumes "arp_uniq c" and "k < length c" and "\<forall>j < length c. j \<noteq> k \<longrightarrow> \<not> (ae_valid (c ! j) \<and> ae_ip (c ! j) = ip)"
    and "ae_valid e" and "ae_ip e = ip"
  shows "arp_uniq (c[k := e])" and "arp_find ip (c[k := e]) = Some k"
    and "ip' \<noteq> ip \<Longrightarrow> arp_find ip' (c[k := e]) = (if ae_valid (c ! k) \<and> ae_ip (c ! k) = ip' then None else arp_find ip' c)"
proof -
  show u: "arp_uniq (c[k := e])" using assms by (auto simp: arp_uniq_def nth_list_update)
  show "arp_find ip (c[k := e]) = Some k" using u assms by (simp add: arp_find_iff)
  assume ne: "ip' \<noteq> ip"
  have iff: "arp_find ip' (c[k := e]) = Some j \<longleftrightarrow> j \<noteq> k \<and> arp_find ip' c = Some j" for j
    using u assms ne by (auto simp: arp_find_iff nth_list_update)
  show "arp_find ip' (c[k := e]) = (if ae_valid (c ! k) \<and> ae_ip (c ! k) = ip' then None else arp_find ip' c)"
  proof (cases "ae_valid (c ! k) \<and> ae_ip (c ! k) = ip'")
    case True
    then have "arp_find ip' c = Some k" using assms(1,2) by (simp add: arp_find_iff)
    then show ?thesis using True iff by (metis not_None_eq option.inject)
  next
    case False
    then have "arp_find ip' c \<noteq> Some k" using assms(1) by (auto simp: arp_find_iff)
    then show ?thesis using False iff by (metis not_None_eq)
  qed
qed

lemma arp_cache_add_eq:
  assumes "length (arp_cache (arp s)) = 8" and "arp_uniq (arp_cache (arp s))"
  shows "\<exists>k e. k < 8 \<and> arp_cache (arp (arp_cache_add ip mac s)) = (arp_cache (arp s))[k := e] \<and> ae_valid e \<and> ae_ip e = ip \<and> ae_mac e = mac \<and>
    (\<forall>j < 8. j \<noteq> k \<longrightarrow> \<not> (ae_valid (arp_cache (arp s) ! j) \<and> ae_ip (arp_cache (arp s) ! j) = ip)) \<and>
    (if arp_find ip (arp_cache (arp s)) \<noteq> None then ae_ip (arp_cache (arp s) ! k) = ip
     else if \<exists>x \<in> set (arp_cache (arp s)). \<not> ae_valid x then \<not> ae_valid (arp_cache (arp s) ! k)
     else \<forall>x \<in> set (arp_cache (arp s)). ae_age (arp_cache (arp s) ! k) \<le> ae_age x)"
proof (cases "arp_find ip (arp_cache (arp s))")
  case None
  let ?c = "arp_cache (arp s)" and ?k = "arp_slot (arp_cache (arp s)) 0 0 0xFFFFFFFF"
  have ne: "?c \<noteq> []" using assms(1) by auto
  have "\<forall>j < 8. \<not> (ae_valid (?c ! j) \<and> ae_ip (?c ! j) = ip)" using None assms(1) by (auto simp: arp_find_None)
  then show ?thesis using None arp_slot_victim [OF ne] assms(1)
    by (intro exI [of _ ?k] exI [of _ "\<lparr>ae_ip = ip, ae_mac = mac, ae_valid = True, ae_age = ticks (nic s)\<rparr>"])
      (auto simp: arp_cache_add_def Let_def)
next
  case (Some i)
  then have "i < 8" "ae_valid (arp_cache (arp s) ! i)" "ae_ip (arp_cache (arp s) ! i) = ip"
    using assms arp_find_iff by auto
  then show ?thesis using Some assms
    by (intro exI [of _ i] exI [of _ "(arp_cache (arp s) ! i)\<lparr>ae_mac := mac, ae_age := ticks (nic s)\<rparr>"])
      (auto simp: arp_cache_add_def Let_def arp_uniq_def)
qed

section \<open>Properties of ARP\<close>

text \<open>
  The ARP cache is a map of at most eight addresses.  After \<open>arp_cache_add\<close> the address is found with its new
  hardware address, no address has two entries, and every other address is found as before, except
  one of minimal age when the cache was full and the address is new.
\<close>

theorem arp_cache_add_correct:
  assumes "length (arp_cache (arp s)) = 8" and "arp_uniq (arp_cache (arp s))" and "s' = arp_cache_add ip mac s"
  shows "arp_cache_lookup ip s' = Some mac \<and> arp_uniq (arp_cache (arp s')) \<and> length (arp_cache (arp s')) = 8 \<and>
    (\<exists>k < 8. \<forall>ip'. ip' \<noteq> ip \<longrightarrow> arp_cache_lookup ip' s' =
       (if arp_cache_lookup ip s = None \<and> (\<forall>e \<in> set (arp_cache (arp s)). ae_valid e \<and> ae_age (arp_cache (arp s) ! k) \<le> ae_age e) \<and>
           ae_ip (arp_cache (arp s) ! k) = ip'
        then None else arp_cache_lookup ip' s))"
proof -
  let ?c = "arp_cache (arp s)"
  obtain k e where k: "k < 8" "arp_cache (arp s') = ?c[k := e]" "ae_valid e" "ae_ip e = ip" "ae_mac e = mac"
    "\<forall>j < 8. j \<noteq> k \<longrightarrow> \<not> (ae_valid (?c ! j) \<and> ae_ip (?c ! j) = ip)"
    and v: "if arp_find ip ?c \<noteq> None then ae_ip (?c ! k) = ip
       else if \<exists>x \<in> set ?c. \<not> ae_valid x then \<not> ae_valid (?c ! k) else \<forall>x \<in> set ?c. ae_age (?c ! k) \<le> ae_age x"
    using arp_cache_add_eq [OF assms(1,2), of ip mac] unfolding assms(3) by blast
  note st = arp_store [OF assms(2), of k ip e, unfolded assms(1), OF k(1,6,3,4)]
  have look: "arp_cache_lookup x s' = map_option (\<lambda>i. ae_mac (?c[k := e] ! i)) (arp_find x (?c[k := e]))" for x
    using k(2) by (simp add: arp_cache_lookup_def)
  have other: "arp_cache_lookup x s' = (if ae_valid (?c ! k) \<and> ae_ip (?c ! k) = x then None else arp_cache_lookup x s)" if "x \<noteq> ip" for x
  proof (cases "ae_valid (?c ! k) \<and> ae_ip (?c ! k) = x")
    case False
    then have "arp_find x ?c \<noteq> Some k" using arp_find_iff [OF assms(2)] by auto
    then show ?thesis using False st(3) [OF that] look by (cases "arp_find x ?c") (auto simp: arp_cache_lookup_def)
  qed (use st(3) [OF that] look in simp)
  have victim: "ae_valid (?c ! k) \<and> ae_ip (?c ! k) = x \<longleftrightarrow> arp_cache_lookup ip s = None \<and> (\<forall>e \<in> set ?c. ae_valid e \<and> ae_age (?c ! k) \<le> ae_age e) \<and> ae_ip (?c ! k) = x"
    if "x \<noteq> ip" for x
    using v that k(1) assms(1) by (auto simp: arp_cache_lookup_def split: if_splits)
  have "arp_cache_lookup ip s' = Some mac" using look st(2) k(1,5) assms(1) by simp
  then show ?thesis using st(1) k(1,2) assms(1) other victim by (intro conjI exI [of _ k]) auto
qed

theorem arp_cache_add_correct_witness:
  "arp_cache_lookup [10, 0, 2, 3] (arp_cache_add [10, 0, 2, 3] [2, 0, 0, 0, 0, 9] demo_net) = Some [2, 0, 0, 0, 0, 9] \<and>
   arp_uniq (arp_cache (arp (arp_cache_add [10, 0, 2, 3] [2, 0, 0, 0, 0, 9] demo_net)))"
proof -
  have "length (arp_cache (arp demo_net)) = 8" "arp_uniq (arp_cache (arp demo_net))"
    by (auto simp: demo_net_def arp_uniq_def nth_Cons' nth_replicate)
  then show ?thesis using arp_cache_add_correct [of demo_net _ "[10, 0, 2, 3]" "[2, 0, 0, 0, 0, 9]"] by blast
qed

section \<open>Sending a packet\<close>

text \<open>The header that \<open>ipv4_send\<close> puts in front of \<open>len\<close> bytes, with checksum \<open>ck\<close>.\<close>

definition ip_header :: "net_state \<Rightarrow> net_ip4_t \<Rightarrow> u8 \<Rightarrow> nat \<Rightarrow> u8 list \<Rightarrow> u8 list" where
  "ip_header s dst proto len ck =
     [0x45, 0] @ le16 (htons16 (of_nat (20 + len))) @ [0x42, 0x42, 0, 0, 64, proto] @ ck @ if_ip (iface s) @ dst"

definition next_hop :: "net_state \<Rightarrow> net_ip4_t \<Rightarrow> net_ip4_t" where
  "next_hop s dst = (if is_local_network dst s then dst else if_gateway (iface s))"

text \<open>A transmission changes only the card: one more frame, the buffer and the descriptor index.\<close>

definition transmitted :: "net_state \<Rightarrow> u8 list \<Rightarrow> net_state \<Rightarrow> bool" where
  "transmitted s frame s' \<longleftrightarrow> (\<exists>buf cur. length buf = 1518 \<and>
     s' = s\<lparr>nic := (nic s)\<lparr>tx_buffer := buf, sent := sent (nic s) @ [frame], tx_cur := cur\<rparr>\<rparr>)"

lemma transmitted_simps:
  assumes "transmitted s f s'"
  shows "iface s' = iface s" and "arp s' = arp s" and "icmp s' = icmp s" and "udp s' = udp s" and "tcp s' = tcp s"
    and "sent (nic s') = sent (nic s) @ [f]" and "nic_ok (nic s) \<Longrightarrow> nic_ok (nic s')"
  using assms by (auto simp: transmitted_def nic_ok_def)

lemma ipv4_send_cached:
  assumes "iface_ok (iface s)" and "nic_ok (nic s)" and "if_up (iface s)" and "length dst = 4" and "len \<le> 1480" and "len \<le> length payload"
    and "arp_cache_lookup (next_hop s dst) s = Some mac" and "length mac = 6"
  shows "\<exists>s' ck frame. ipv4_send poll dst proto payload len s = Some (0, s') \<and> transmitted s frame s' \<and> length ck = 2 \<and>
    ip_checksum (ip_header s dst proto len ck) 20 = Some 0 \<and>
    frame = mac @ if_mac (iface s) @ [0x08, 0x00] @ ip_header s dst proto len ck @ take len payload @
      take (60 - (34 + len)) (drop (34 + len) (stack (nic s)))"
proof -
  let ?hdr = "\<lparr>ih_ver_ihl = 0x45, ih_tos = 0, ih_total_len = htons16 (of_nat (20 + len)), ih_id = htons16 0x4242,
              ih_flags_frag = 0, ih_ttl = 64, ih_protocol = proto, ih_checksum = 0, ih_src = if_ip (iface s), ih_dst = dst\<rparr>"
  have l: "length (if_ip (iface s)) = 4" "length (if_mac (iface s)) = 6" "length (stack (nic s)) = 1518"
    using assms(1,2) by (simp_all add: iface_ok_def nic_ok_def)
  have id: "le16 (htons16 0x4242) = [0x42, 0x42]" "le16 0 = [0, 0]" unfolding le16_htons16 by (simp_all add: le16_def)
  have hb: "ipv4_bytes (?hdr\<lparr>ih_checksum := c\<rparr>) = ip_header s dst proto len (le16 c)" "ipv4_bytes ?hdr = ip_header s dst proto len [0, 0]" for c
    by (simp_all add: ipv4_bytes_def ip_header_def id)
  have len20: "length (ip_header s dst proto len ck) = 20" if "length ck = 2" for ck
    using that l assms(4) by (simp add: ip_header_def length_bytes)
  let ?pre = "[0x45, 0] @ le16 (htons16 (of_nat (20 + len))) @ [0x42, 0x42, 0, 0, 64, proto]"
  have split: "ip_header s dst proto len ck = ?pre @ ck @ (if_ip (iface s) @ dst)" for ck by (simp add: ip_header_def)
  obtain c where c: "ip_checksum (ip_header s dst proto len [0, 0]) 20 = Some c"
    using ip_checksum_spec [of 20 "ip_header s dst proto len [0, 0]"] len20 by auto
  have v: "ip_checksum (ip_header s dst proto len (le16 (htons16 c))) 20 = Some 0"
    unfolding split by (rule checksum_verifies) (use c [unfolded split] len20 [of "[0, 0]", unfolded split] in \<open>simp_all add: length_bytes\<close>)
  let ?h = "ip_header s dst proto len (le16 (htons16 c))"
  have h20: "length ?h = 20" by (rule len20) (simp add: length_bytes)
  have p1: "memcpy (stack (nic s)) 0 ?h 0 20 = Some (?h @ drop 20 (stack (nic s)))"
    using h20 l(3) by (simp add: memcpy_blit blit_def)
  let ?p2 = "?h @ take len payload @ drop (20 + len) (stack (nic s))"
  have p2: "memcpy (?h @ drop 20 (stack (nic s))) 20 payload 0 len = Some ?p2"
    using h20 l(3) assms(5,6) append_blit [of ?h 20 "drop 20 (stack (nic s))" "take len payload"] by (simp add: memcpy_blit add.commute)
  have "20 + len \<le> 1500" "20 + len \<le> length ?p2" using assms(5,6) h20 l(3) by simp_all
  from eth_send_eq [OF assms(8) l(2) this assms(2,3), of "0x0800"] obtain buf where buf: "length buf = 1518"
    "eth_send mac 0x0800 ?p2 (20 + len) s = Some (0, s\<lparr>nic := (nic s)\<lparr>tx_buffer := buf, sent := sent (nic s) @ [eth_frame s mac 0x0800 ?p2 (20 + len)],
       tx_cur := (tx_cur (nic s) + 1) mod 4\<rparr>\<rparr>)" by blast
  have "arp_resolve poll (next_hop s dst) s = Some (Some mac, s)" using assms(7) by (simp add: arp_resolve_def)
  then have "ipv4_send poll dst proto payload len s = eth_send mac 0x0800 ?p2 (20 + len) s"
    using assms(3,5) c p1 p2 unfolding ipv4_send_def Let_def hb next_hop_def by (simp add: NET_PAYLOAD_MAX_def)
  moreover have "eth_frame s mac 0x0800 ?p2 (20 + len) = mac @ if_mac (iface s) @ [0x08, 0x00] @ ?h @ take len payload @
      take (60 - (34 + len)) (drop (34 + len) (stack (nic s)))"
    using h20 assms(6) by (simp add: eth_frame_def)
  ultimately show ?thesis using buf v
    by (intro exI [of _ "s\<lparr>nic := (nic s)\<lparr>tx_buffer := buf, sent := sent (nic s) @ [eth_frame s mac 0x0800 ?p2 (20 + len)], tx_cur := (tx_cur (nic s) + 1) mod 4\<rparr>\<rparr>"]
        exI [of _ "le16 (htons16 c)"] exI [of _ "eth_frame s mac 0x0800 ?p2 (20 + len)"])
      (auto simp: transmitted_def length_bytes)
qed

text \<open>
  C27: with the next hop in the ARP cache, \<open>ipv4_send\<close> transmits one frame: the Ethernet header, a 20-byte IP
  header with the right lengths, addresses and a checksum that verifies, the payload, and padding
  to 60 bytes, which is whatever the stack holds.  Nothing else of the stack changes.
\<close>

theorem ipv4_send_frame:
  assumes "net_ok s" and "if_up (iface s)" and "length dst = 4" and "len \<le> 1480" and "len \<le> length payload"
    and "arp_cache_lookup (next_hop s dst) s = Some mac"
  shows "\<exists>s' ck frame. ipv4_send poll dst proto payload len s = Some (0, s') \<and> transmitted s frame s' \<and>
    ip_checksum (ip_header s dst proto len ck) 20 = Some 0 \<and> 60 \<le> length frame \<and>
    frame = mac @ if_mac (iface s) @ [0x08, 0x00] @ ip_header s dst proto len ck @ take len payload @
      take (60 - (34 + len)) (drop (34 + len) (stack (nic s)))"
proof -
  have ok: "iface_ok (iface s)" "nic_ok (nic s)" "length mac = 6" using assms(1,6) arp_cache_lookup_length by (auto simp: net_ok_def)
  obtain s' ck frame where r: "ipv4_send poll dst proto payload len s = Some (0, s')" "transmitted s frame s'" "length ck = 2"
    "ip_checksum (ip_header s dst proto len ck) 20 = Some 0"
    and f: "frame = mac @ if_mac (iface s) @ [0x08, 0x00] @ ip_header s dst proto len ck @ take len payload @
      take (60 - (34 + len)) (drop (34 + len) (stack (nic s)))"
    using ipv4_send_cached [OF ok(1,2) assms(2-6) ok(3)] by blast
  have "length (ip_header s dst proto len ck) = 20" using r(3) ok(1) assms(3) by (simp add: ip_header_def length_bytes iface_ok_def)
  then have "60 \<le> length frame" unfolding f using ok assms(5) by (auto simp: iface_ok_def nic_ok_def)
  then show ?thesis using r f by blast
qed

lemma demo_hop: "arp_cache_lookup (next_hop demo_net [10, 0, 2, 2]) demo_net = Some [2, 0, 0, 0, 0, 2]"
  by code_simp

theorem ipv4_send_frame_witness:
  "\<exists>s' frame. ipv4_send rtl8139_poll [10, 0, 2, 2] 17 [1, 2, 3] 3 demo_net = Some (0, s') \<and> transmitted demo_net frame s' \<and>
     take 14 frame = [2, 0, 0, 0, 0, 2, 2, 0, 0, 0, 0, 1, 8, 0]"
proof -
  have "if_up (iface demo_net)" "if_mac (iface demo_net) = [2, 0, 0, 0, 0, 1]" by (simp_all add: demo_net_def)
  then obtain s' ck frame where r: "ipv4_send rtl8139_poll [10, 0, 2, 2] 17 [1, 2, 3] 3 demo_net = Some (0, s')" "transmitted demo_net frame s'"
    and f: "frame = [2, 0, 0, 0, 0, 2] @ [2, 0, 0, 0, 0, 1] @ [0x08, 0x00] @ ip_header demo_net [10, 0, 2, 2] 17 3 ck @ take 3 [1, 2, 3] @
      take (60 - (34 + 3)) (drop (34 + 3) (stack (nic demo_net)))"
    using ipv4_send_frame [OF demo_net_ok(1) _ _ _ _ demo_hop, of 3 "[1, 2, 3]" rtl8139_poll 17] by auto
  have "take 14 frame = [2, 0, 0, 0, 0, 2, 2, 0, 0, 0, 0, 1, 8, 0]" unfolding f by simp
  then show ?thesis using r by blast
qed

section \<open>Echo replies\<close>

lemma icmp_header_sum: "word_sum (icmp_bytes 0 0 (htons16 c) ident seq) = unat c + word_sum (le16 ident @ le16 seq)"
  using unat_bytes16 [of c] by (simp add: icmp_bytes_def le16_htons16) 

lemma icmp_header_zero: "icmp_bytes 0 0 0 ident seq = icmp_bytes 0 0 (htons16 0) ident seq"
  by (simp add: htons16_def)

lemma take_4: "4 \<le> length xs \<Longrightarrow> take 4 xs = [xs ! 0, xs ! 1, xs ! 2, xs ! 3]"
  by (cases xs; cases "tl xs"; cases "tl (tl xs)"; cases "tl (tl (tl xs))") auto

lemma mod_cancel: "(a + b) mod m = 0 \<Longrightarrow> b mod m = 0 \<Longrightarrow> a mod m = (0 :: nat)"
  by (simp add: mod_eq_0_iff_dvd dvd_add_left_iff)

lemma oc_norm_max: "oc_norm n = 65535 \<Longrightarrow> n mod 65535 = 0"
  by (auto simp: oc_norm_def split: if_splits)

lemma complement_mod: "(65535 - oc_norm n + n) mod 65535 = 0"
  using oc_norm_max [OF oc_norm_complement [of n]] by (simp add: add.commute)

lemma ip_checksum_take:
  assumes "len \<le> length data" and "len \<le> 65536"
  shows "ip_checksum data len = ip_checksum (take len data) len"
  using ip_checksum_spec [OF assms] ip_checksum_spec [of len "take len data"] assms by (auto simp: word_unat_eq_iff)

text \<open>The checksum of a reply whose header sum was complemented twice is off by the identifier and the sequence number.\<close>

lemma echo_checksum:
  assumes "icmp_checksum (icmp_bytes 0 0 0 ident seq) 8 = Some c0"
    and "icmp_checksum (icmp_bytes 0 0 (htons16 c0) ident seq @ body) (8 + length body) = Some cs" and "length body \<le> 504"
  shows "\<exists>v. icmp_checksum (icmp_bytes 0 0 (htons16 cs) ident seq @ body) (8 + length body) = Some v \<and>
    (word_sum (le16 ident @ le16 seq) mod 65535 \<noteq> 0 \<longrightarrow> v \<noteq> 0)"
proof -
  let ?w = "word_sum (le16 ident @ le16 seq)" and ?b = "word_sum body"
  have bl: "length (icmp_bytes 0 0 c ident seq) = 8" for c by (simp add: icmp_bytes_def length_bytes)
  have ws: "word_sum (icmp_bytes 0 0 (htons16 c) ident seq @ body) = unat c + ?w + ?b" for c
    using bl by (subst word_sum_append) (simp_all add: icmp_header_sum)
  have "word_sum (icmp_bytes 0 0 0 ident seq) = ?w" unfolding icmp_header_zero icmp_header_sum by simp
  then have c0: "unat c0 = 65535 - oc_norm ?w"
    using ip_checksum_spec [of 8 "icmp_bytes 0 0 0 ident seq"] assms(1) bl unfolding icmp_checksum_ip by auto
  have cs: "unat cs = 65535 - oc_norm (unat c0 + ?w + ?b)"
    using ip_checksum_spec [of "8 + length body" "icmp_bytes 0 0 (htons16 c0) ident seq @ body"] assms(2,3) bl ws [of c0]
    unfolding icmp_checksum_ip by auto
  obtain v where v: "icmp_checksum (icmp_bytes 0 0 (htons16 cs) ident seq @ body) (8 + length body) = Some v"
      "unat v = 65535 - oc_norm (unat cs + ?w + ?b)"
    using ip_checksum_spec [of "8 + length body" "icmp_bytes 0 0 (htons16 cs) ident seq @ body"] assms(3) bl ws [of cs]
    unfolding icmp_checksum_ip by auto
  have "?w mod 65535 = 0" if "v = 0"
  proof -
    have "oc_norm (unat cs + ?w + ?b) = 65535" using v(2) that oc_norm_less [of "unat cs + ?w + ?b"] by simp
    then have t: "(?w + (unat cs + ?b)) mod 65535 = 0" using oc_norm_max by (metis add.assoc add.commute)
    have c0w: "(unat c0 + ?w) mod 65535 = 0" unfolding c0 by (rule complement_mod)
    have "(unat cs + (unat c0 + ?w + ?b)) mod 65535 = 0" unfolding cs by (rule complement_mod)
    then have "(unat cs + ?b + (unat c0 + ?w)) mod 65535 = 0" by (metis add.assoc add.commute)
    then have "(unat cs + ?b) mod 65535 = 0" using c0w by (rule mod_cancel)
    with t show ?thesis by (rule mod_cancel)
  qed
  then have "?w mod 65535 \<noteq> 0 \<longrightarrow> v \<noteq> 0" by (rule contrapos_nn [THEN impI, rotated]) 
  then show ?thesis using v(1) by (intro exI [of _ v] conjI)
qed

text \<open>
  Answers to pings carry a wrong checksum.  \<open>icmp_handle\<close> sums a header that already holds its own checksum, so
  the identifier and the sequence number drop out: for every echo request whose identifier and
  sequence number do not add up to a multiple of 65535, the reply it sends does not verify.
\<close>

theorem echo_reply_checksum_wrong:
  assumes "net_ok s" and "if_up (iface s)" and "length src = 4" and "arp_cache_lookup (next_hop s src) s = Some mac"
    and "8 \<le> len" and "len \<le> 512" and "512 \<le> length pkt" and "pkt ! 0 = 8" and "word_sum (take 4 (drop 4 pkt)) mod 65535 \<noteq> 0"
  shows "\<exists>s' hdr reply pad v. icmp_handle poll pkt len src s = Some (0, s') \<and> sent (nic s') = sent (nic s) @ [hdr @ reply @ pad] \<and>
    length hdr = 34 \<and> length reply = len \<and> icmp_checksum reply len = Some v \<and> v \<noteq> 0"
proof -
  let ?n = "len - 8" and ?body = "take (len - 8) (drop 8 pkt)"
  have st: "length (stack (nic s)) = 1518" and ok: "iface_ok (iface s)" "nic_ok (nic s)" "length mac = 6"
    using assms(1) arp_cache_lookup_length [OF assms(1,4)] by (simp_all add: net_ok_def nic_ok_def)
  have n: "(if 504 < len - 8 then 504 else len - 8) = ?n" "8 + ?n = len" using assms(5,6) by auto
  have lb: "length ?body = ?n" using assms(6,7) by simp
  obtain ident seq where r: "rd pkt 0 = Some 8" "rd16 pkt 4 = Some ident" "rd16 pkt 6 = Some seq"
  proof -
    have "pkt \<noteq> []" using assms(7) by auto
    then show thesis using that assms(7,8) by (simp add: rd16_def rd_in)
  qed
  have four: "take 4 (drop 4 pkt) = [pkt ! 4, pkt ! 5, pkt ! 6, pkt ! 7]"
    using take_4 [of "drop 4 pkt"] assms(7) by simp
  have le: "le16 (ucast x OR push_bit 8 (ucast y)) = [x, y]" for x y
  proof -
    have "ucast (ucast x OR push_bit 8 (ucast y) :: u16) = x" "ucast (drop_bit 8 (ucast x OR push_bit 8 (ucast y) :: u16)) = y"
      by (rule bit_eqI; auto simp: bit_simps dest: bit_imp_le_length)+
    then show ?thesis by (simp add: le16_def)
  qed
  have "ident = ucast (pkt ! 4) OR push_bit 8 (ucast (pkt ! 5))" "seq = ucast (pkt ! 6) OR push_bit 8 (ucast (pkt ! 7))"
    using r(2,3) assms(7) by (auto simp: rd16_def rd_in)
  then have ids: "word_sum (le16 ident @ le16 seq) mod 65535 \<noteq> 0" using assms(9) unfolding four by (simp add: le)
  have bl: "length (icmp_bytes 0 0 c ident seq) = 8" for c by (simp add: icmp_bytes_def length_bytes)
  have cp: "memcpy (take 512 (stack (nic s))) 0 (icmp_bytes 0 0 c ident seq) 0 8 = Some (icmp_bytes 0 0 c ident seq @ drop 8 (take 512 (stack (nic s))))" for c
    using bl st by (simp add: memcpy_blit blit_def)
  let ?pad = "drop len (take 512 (stack (nic s)))"
  have cp2: "memcpy (icmp_bytes 0 0 c ident seq @ drop 8 (take 512 (stack (nic s)))) 8 pkt 8 ?n = Some (icmp_bytes 0 0 c ident seq @ ?body @ ?pad)" for c
    using bl [of c] st lb assms(6,7) n(2) append_blit [of "icmp_bytes 0 0 c ident seq" 8 "drop 8 (take 512 (stack (nic s)))" ?body]
    by (simp add: memcpy_blit)
  have cut: "icmp_checksum (xs @ ?body @ ?pad) len = icmp_checksum (xs @ ?body) len" if "length xs = 8" for xs
  proof -
    have "take len (xs @ ?body @ ?pad) = xs @ ?body" using that lb n(2) by simp
    moreover have "len \<le> length (xs @ ?body @ ?pad)" "len \<le> 65536" using that lb n(2) assms(6) by simp_all
    ultimately show ?thesis unfolding icmp_checksum_ip using ip_checksum_take by metis
  qed
  obtain c0 where c0: "icmp_checksum (icmp_bytes 0 0 0 ident seq) 8 = Some c0"
    using ip_checksum_spec [of 8 "icmp_bytes 0 0 0 ident seq"] bl unfolding icmp_checksum_ip by auto
  obtain cs where cs: "icmp_checksum (icmp_bytes 0 0 (htons16 c0) ident seq @ ?body) len = Some cs"
    using ip_checksum_spec [of len "icmp_bytes 0 0 (htons16 c0) ident seq @ ?body"] bl lb n(2) assms(6) unfolding icmp_checksum_ip by auto
  let ?reply = "icmp_bytes 0 0 (htons16 cs) ident seq @ ?body"
  obtain v where v: "icmp_checksum ?reply len = Some v" "v \<noteq> 0"
    using echo_checksum [OF c0, of ?body cs] cs lb n(2) assms(6) ids by auto
  have lr: "length ?reply = len" using bl lb n(2) by simp
  have pl: "len \<le> length (?reply @ ?pad)" "len \<le> 1480" "take len (?reply @ ?pad) = ?reply"
    using lr bl assms(6) by simp_all
  obtain s' ck frame where s': "ipv4_send poll src 1 (?reply @ ?pad) len s = Some (0, s')" "transmitted s frame s'" "length ck = 2"
    "frame = mac @ if_mac (iface s) @ [0x08, 0x00] @ ip_header s src 1 len ck @ take len (?reply @ ?pad) @ take (60 - (34 + len)) (drop (34 + len) (stack (nic s)))"
    using ipv4_send_cached [OF ok(1,2) assms(2,3) pl(2,1) assms(4) ok(3), of poll 1] by blast
  let ?h = "mac @ if_mac (iface s) @ [0x08, 0x00] @ ip_header s src 1 len ck"
  have "length ?h = 34" using ok s'(3) assms(3) by (simp add: ip_header_def length_bytes iface_ok_def)
  moreover have "sent (nic s') = sent (nic s) @ [?h @ ?reply @ take (60 - (34 + len)) (drop (34 + len) (stack (nic s)))]"
    using transmitted_simps(6) [OF s'(2)] s'(4) pl(3) by simp
  moreover have "icmp_handle poll pkt len src s = Some (0, s')"
    using assms(5) r c0 cp cp2 cut bl cs s'(1) n by (simp add: icmp_handle_def Let_def)
  ultimately show ?thesis using lr v by blast
qed

theorem echo_reply_checksum_wrong_witness:
  "\<exists>s' hdr reply pad v. icmp_handle rtl8139_poll ([8, 0, 0, 0, 0, 7, 0, 1] @ replicate 504 0) 16 [10, 0, 2, 2] demo_net = Some (0, s') \<and>
     sent (nic s') = [hdr @ reply @ pad] \<and> icmp_checksum reply 16 = Some v \<and> v \<noteq> 0"
proof -
  have "if_up (iface demo_net)" "sent (nic demo_net) = []" by (simp_all add: demo_net_def)
  moreover have "word_sum (take 4 (drop 4 ([8, 0, 0, 0, 0, 7, 0, 1] @ replicate 504 0))) mod 65535 \<noteq> 0" by simp
  ultimately show ?thesis
    using echo_reply_checksum_wrong [OF demo_net_ok(1) _ _ demo_hop, of 16 "[8, 0, 0, 0, 0, 7, 0, 1] @ replicate 504 0" rtl8139_poll] by auto
qed

section \<open>TCP reception\<close>

lemma memcpy_loop_None: "length src < s + n \<Longrightarrow> i < n \<Longrightarrow> memcpy_loop dest d src s n i = None"
proof (induction "length src - (s + i)" arbitrary: i dest)
  case 0
  then show ?case by (subst memcpy_loop.simps) (auto simp: rd_out)
next
  case (Suc k)
  then have "s + i < length src" "Suc i < n" "k = length src - (s + Suc i)" by linarith+
  then show ?case using Suc.hyps(1) [of "Suc i"] Suc.prems
    by (subst memcpy_loop.simps) (auto simp: rd_in wr_def)
qed

lemma memcpy_overrun: "length src < s + n \<Longrightarrow> 0 < n \<Longrightarrow> memcpy dest d src s n = None"
  by (simp add: memcpy_def memcpy_loop_None)

text \<open>
  A malformed IP header crashes the kernel.  \<open>ipv4_handle\<close> passes \<open>total - ihl\<close> on without checking that it is not negative;
  with an open connection that has enough unread data, the addition in \<open>tcp_handle\<close> wraps and the check on the
  buffer passes: the copy of almost 4 GB runs out of the packet.
\<close>

theorem tcp_length_underflow:
  assumes "length pkt = 1504" and "20 \<le> len" and "len \<le> 1500" and "rd16 pkt 2 = Some (htons16 tot_len)" and "u32_to_ip4 (ip4_to_u32 (take 4 (drop 16 pkt))) = if_ip (iface s)"
    and "20 \<le> unat tot_len" and "unat tot_len \<le> len" and "h = unat ((pkt ! 0 AND 0x0F) * 4)" and "unat tot_len < h" and "pkt ! 9 = 6"
    and "current_conn (tcp s)" and "c_active (conn (tcp s))" and "rd16 (drop h pkt) 2 = Some (htons16 (c_src_port (conn (tcp s))))"
    and "drop_bit 4 (pkt ! (h + 12)) * 4 \<le> 20" and "pkt ! (h + 13) AND 0x02 = 0"
    and "h + 20 - unat tot_len \<le> c_inlen (conn (tcp s))" and "c_inlen (conn (tcp s)) \<le> 4096"
  shows "ipv4_handle poll pkt len s = None"
proof -
  have sw: "htons16 (htons16 x) = x" for x unfolding htons16_def by (rule bit_eqI) (auto simp: bit_simps, metis le_add_diff_inverse not_less)
  have h: "h < 256" "20 \<le> h" using assms(6,8,9) unat_less_256 [of "(pkt ! 0 AND 0x0F) * 4"] by simp_all
  have ne: "pkt \<noteq> []" "drop h pkt \<noteq> []" using assms(1) h by auto
  let ?body = "drop h pkt" and ?pl = "(unat tot_len + 4294967296 - h) mod 4294967296"
  have pl: "?pl = unat tot_len + 4294967296 - h" using assms(9) by simp
  have ihl: "\<not> (pkt ! 0 AND 0x0F) * 4 < 20" using h(2) assms(8) by (simp add: word_less_nat_alt)
  have tot: "\<not> tot_len < 20" using assms(6) by (simp add: word_less_nat_alt)
  have ip: "ipv4_handle poll pkt len s = tcp_handle poll ?body ?pl s"
    using assms(1-5,7,8,10) ne(1) sw ihl tot by (simp add: ipv4_handle_def Let_def rd_in rd_bytes_def)
  let ?c = "conn (tcp s)"
  have off: "(if drop_bit 4 (pkt ! (h + 12)) * 4 < 20 then 20 else unat (drop_bit 4 (pkt ! (h + 12)) * 4)) = 20"
    using assms(14) by (auto simp: word_less_nat_alt word_le_nat_alt)
  have pl2: "20 \<le> ?pl" "0 < ?pl - 20" "(c_inlen ?c + (?pl - 20)) mod 4294967296 \<le> 4096"
  proof -
    have "c_inlen ?c + (?pl - 20) = (c_inlen ?c - (h + 20 - unat tot_len)) + 4294967296" using pl assms(9,16) h by simp
    then have "(c_inlen ?c + (?pl - 20)) mod 4294967296 = (c_inlen ?c - (h + 20 - unat tot_len)) mod 4294967296" by (simp only: mod_add_self2)
    also have "\<dots> \<le> c_inlen ?c - (h + 20 - unat tot_len)" by (rule mod_less_eq_dividend)
    also have "\<dots> \<le> 4096" using assms(17) by simp
    finally show "(c_inlen ?c + (?pl - 20)) mod 4294967296 \<le> 4096" .
  qed (use pl h in simp_all)
  obtain q where q: "rd32 ?body 4 = Some q" using assms(1) h by (simp add: rd32_def rd_in)
  have r: "rd ?body 13 = Some (pkt ! (h + 13))" "rd ?body 12 = Some (pkt ! (h + 12))" using assms(1) h by (simp_all add: rd_in add.commute)
  have over: "memcpy (c_inbuf ?c) (c_inlen ?c) ?body 20 (?pl - 20) = None"
    unfolding pl using assms(1) h by (intro memcpy_overrun) simp_all
  show ?thesis unfolding ip using assms(11-13,15) sw r q off pl2 over
    by (simp add: tcp_handle_def Let_def)
qed

text \<open>The witness: an open connection with 100 unread bytes, and a packet with a 60-byte header in 20 bytes.\<close>

definition bad_packet :: "u8 list" where
  "bad_packet = [0x4F, 0, 0, 20, 0, 1, 0, 0, 64, 6, 0, 0, 10, 0, 2, 2, 10, 0, 2, 15] @ replicate 40 0 @ [0, 80, 0xC0, 0x64] @ replicate 1440 0"

definition demo_tcp :: net_state where
  "demo_tcp = demo_net\<lparr>tcp := \<lparr>current_conn = True, conn = demo_conn\<lparr>c_active := True, c_remote := [10, 0, 2, 2], c_src_port := 0xC064,
     c_established := True, c_inlen := 100\<rparr>\<rparr>\<rparr>"

theorem tcp_length_underflow_witness: "ipv4_handle rtl8139_poll bad_packet 46 demo_tcp = None"
proof -
  have swap: "htons16 20 = 0x1400" "htons16 0xC064 = 0x64C0" by code_simp+
  have "drop 60 bad_packet = [0, 80, 0xC0, 0x64] @ replicate 1440 0" by (simp add: bad_packet_def)
  then have p: "rd16 (drop 60 bad_packet) 2 = Some 0x64C0" by (simp add: rd16_def rd_def)
  have n: "bad_packet ! (60 + 12) = 0" "bad_packet ! (60 + 13) = 0" "bad_packet ! 0 = 0x4F" "bad_packet ! 9 = 6"
    by (simp_all add: bad_packet_def nth_append nth_Cons')
  have q: "rd16 bad_packet 2 = Some 0x1400" "take 4 (drop 16 bad_packet) = [10, 0, 2, 15]" "length bad_packet = 1504"
    by (simp_all add: bad_packet_def rd16_def rd_def)
  have ip: "u32_to_ip4 (ip4_to_u32 [10, 0, 2, 15]) = [10, 0, 2, 15]" by code_simp
  show ?thesis
    by (rule tcp_length_underflow [of bad_packet 46 20 demo_tcp 60])
      (use swap p n q ip in \<open>simp_all add: demo_tcp_def demo_net_def demo_conn_def\<close>)
qed

end
