(* ===== verification/Rtl8139.thy ===== *)
theory Rtl8139
  imports NetSafety
begin

text \<open>
  The receive path of the network card driver, \<open>rtl8139_rx\<close> of \<open>src/kernel/dev/rtl8139.c\<close>: walking the ring that the card
  fills.  The theory of the protocol stack works on the frames that this walk delivers.

  \<^item> \<open>rx_cur\<close> and the lengths are natural numbers; they stay below twice the size of the ring.
  \<^item> The number of times that the card reports a non-empty ring is an argument of the loop.
\<close>

section \<open>Model\<close>

definition RTL_RXBUF_SIZE :: nat where
  "RTL_RXBUF_SIZE = 8192"

text \<open>
  One pass of the loop: stop at an invalid slot, else the new \<open>rx_cur\<close>, the value written to CAPR and the frame, if it is
  passed on, with its length.
\<close>

datatype rx_result = RxStop | RxNext nat nat "(u8 list \<times> nat) option"

definition rtl8139_rx_step :: "u8 list \<Rightarrow> u8 list \<Rightarrow> nat \<Rightarrow> rx_result option" where
  "rtl8139_rx_step frame rx_buffer rx_cur =
     do { status \<leftarrow> rd32 rx_buffer rx_cur;
          let rx_len = unat (drop_bit 16 status AND 0x3FFF);
          let offset = (rx_cur + 4) mod RTL_RXBUF_SIZE;
          if rx_len = 0 \<or> NET_BUF_SIZE - 4 < rx_len then Some RxStop
          else do {
            let c0 = (rx_cur + rx_len + 4 + 3) div 4 * 4;
            let c1 = (if RTL_RXBUF_SIZE \<le> c0 then c0 - RTL_RXBUF_SIZE else c0);
            let nextcap = (if 16 \<le> c1 then c1 - 16 else RTL_RXBUF_SIZE + c1 - 16);
            if status AND 0x8000 \<noteq> 0 then Some (RxNext c1 nextcap None)
            else if offset + rx_len \<le> RTL_RXBUF_SIZE then
              do { f \<leftarrow> memcpy frame 0 rx_buffer offset rx_len; Some (RxNext c1 nextcap (Some (f, rx_len))) }
            else do {
              let first = RTL_RXBUF_SIZE - offset;
              f1 \<leftarrow> memcpy frame 0 rx_buffer offset first;
              f2 \<leftarrow> memcpy f1 first rx_buffer 0 (rx_len - first);
              Some (RxNext c1 nextcap (Some (f2, rx_len))) } } }"

text \<open>The frames delivered, in order, and the position at the end.\<close>

fun rtl8139_rx :: "nat \<Rightarrow> u8 list \<Rightarrow> u8 list \<Rightarrow> nat \<Rightarrow> ((u8 list \<times> nat) list \<times> nat) option" where
  "rtl8139_rx 0 frame rx_buffer rx_cur = Some ([], rx_cur)"
| "rtl8139_rx (Suc n) frame rx_buffer rx_cur =
     do { r \<leftarrow> rtl8139_rx_step frame rx_buffer rx_cur;
          case r of
            RxStop \<Rightarrow> Some ([], rx_cur)
          | RxNext c nextcap f \<Rightarrow>
              do { (fs, c') \<leftarrow> rtl8139_rx n frame rx_buffer c;
                   Some ((case f of None \<Rightarrow> fs | Some x \<Rightarrow> x # fs), c') } }"

section \<open>The ring\<close>

text \<open>The reference: \<open>n\<close> bytes of the ring from an offset, wrapping at the end.\<close>

definition ring_bytes :: "u8 list \<Rightarrow> nat \<Rightarrow> nat \<Rightarrow> u8 list" where
  "ring_bytes b p n = map (\<lambda>i. b ! ((p + i) mod 8192)) [0..<n]"

definition ring_ok :: "u8 list \<Rightarrow> nat \<Rightarrow> bool" where
  "ring_ok b c \<longleftrightarrow> length b = 8192 \<and> c < 8192 \<and> c mod 4 = 0"

definition slot_end :: "nat \<Rightarrow> nat \<Rightarrow> nat" where
  "slot_end c n = ((c + 4 + n + 3) div 4 * 4) mod 8192"

lemma slot_end_ok: "ring_ok b c \<Longrightarrow> ring_ok b (slot_end c n)"
proof -
  assume "ring_ok b c"
  moreover have "(x * 4) mod 8192 mod 4 = 0" for x :: nat
  proof -
    have "(x * 4) mod 8192 mod 4 = (x * 4) mod 4" by (rule mod_mod_cancel) simp
    then show ?thesis by simp
  qed
  ultimately show ?thesis unfolding ring_ok_def slot_end_def by simp
qed

lemma length_ring_bytes [simp]: "length (ring_bytes b p n) = n"
  by (simp add: ring_bytes_def)

lemma ring_bytes_straight:
  assumes "length b = 8192" and "p + n \<le> 8192"
  shows "take n (drop p b) = ring_bytes b p n"
  using assms by (intro nth_equalityI) (auto simp: ring_bytes_def)

lemma ring_bytes_wrap:
  assumes "length b = 8192" and "p < 8192" and "8192 < p + n" and "n \<le> 8192"
  shows "take (8192 - p) (drop p b) @ take (n - (8192 - p)) b = ring_bytes b p n"
proof (rule nth_equalityI)
  fix i
  assume i: "i < length (take (8192 - p) (drop p b) @ take (n - (8192 - p)) b)"
  then have "i < n" using assms by simp
  moreover have "(p + i) mod 8192 = p + i - 8192" if "8192 - p \<le> i"
    using that assms \<open>i < n\<close> by (simp add: le_mod_geq)
  ultimately show "(take (8192 - p) (drop p b) @ take (n - (8192 - p)) b) ! i = ring_bytes b p n ! i"
    using assms by (auto simp: ring_bytes_def nth_append add.commute)
qed (use assms in \<open>simp add: ring_bytes_def\<close>)

text \<open>The two cases of the copy.\<close>

lemma rx_copy:
  assumes "ring_ok b c" and "length frame = 1518" and "0 < n" and "n \<le> 1514" and "offset = (c + 4) mod 8192"
  shows "\<exists>f. (if offset + n \<le> 8192 then memcpy frame 0 b offset n
      else do { f1 \<leftarrow> memcpy frame 0 b offset (8192 - offset); memcpy f1 (8192 - offset) b 0 (n - (8192 - offset)) }) = Some f \<and>
    length f = 1518 \<and> take n f = ring_bytes b offset n"
proof -
  have b: "length b = 8192" "offset < 8192" using assms(1,5) by (simp_all add: ring_ok_def)
  show ?thesis
  proof (cases "offset + n \<le> 8192")
    case True
    then show ?thesis using b assms(2,4) ring_bytes_straight [OF b(1) True]
      by (simp add: memcpy_blit length_blit blit_def)
  next
    case False
    let ?k = "8192 - offset" and ?x = "take (8192 - offset) (drop offset b)" and ?y = "take (n - (8192 - offset)) b"
    have l: "length ?x = ?k" "length ?y = n - ?k" "?k + (n - ?k) = n" using b False assms(4) by simp_all
    have "memcpy frame 0 b offset ?k = Some (blit frame 0 ?x)" using b False assms(2,4) by (simp add: memcpy_blit)
    moreover have "memcpy (blit frame 0 ?x) ?k b 0 (n - ?k) = Some (blit frame 0 (?x @ ?y))"
      using b False assms(2,4) l blit_append [of 0 ?x ?y frame] by (simp add: memcpy_blit length_blit)
    moreover have "?x @ ?y = ring_bytes b offset n" using ring_bytes_wrap [OF b] False assms(4) by simp
    moreover have "length (blit frame 0 (?x @ ?y)) = 1518" "take n (blit frame 0 (?x @ ?y)) = ?x @ ?y"
      using l assms(2,4) by (simp_all add: length_blit blit_def)
    ultimately show ?thesis using False by auto
  qed
qed

lemma rx_advance:
  assumes "c < 8192" and "n \<le> 1514"
  shows "(let c0 = (c + n + 4 + 3) div 4 * 4 in if 8192 \<le> c0 then c0 - 8192 else c0) = slot_end c n"
proof -
  have "(c + n + 4 + 3) div 4 * 4 < 2 * 8192" using assms by linarith
  moreover have "c + n + 4 + 3 = c + 4 + n + 3" by simp
  ultimately show ?thesis by (simp add: slot_end_def Let_def le_mod_geq del: Suc_eq_plus1)
qed

section \<open>One slot\<close>

definition slot_len :: "u32 \<Rightarrow> nat" where
  "slot_len status = unat (drop_bit 16 status AND 0x3FFF)"

lemma rd32_ring:
  assumes "ring_ok b c"
  shows "rd32 b c = Some (ucast (b ! c) OR push_bit 8 (ucast (b ! (c + 1))) OR push_bit 16 (ucast (b ! (c + 2))) OR push_bit 24 (ucast (b ! (c + 3))))"
proof -
  have "c + 3 < 8192" using assms unfolding ring_ok_def by presburger
  then show ?thesis using assms by (simp add: rd32_def rd_in ring_ok_def)
qed

lemma rx_stop:
  assumes "rd32 b c = Some status" and "slot_len status = 0 \<or> 1514 < slot_len status"
  shows "rtl8139_rx_step frame b c = Some RxStop"
  using assms by (auto simp: rtl8139_rx_step_def slot_len_def NET_BUF_SIZE_def Let_def)

lemma rx_next:
  assumes "ring_ok b c" and "length frame = 1518" and "rd32 b c = Some status" and "n = slot_len status" and "0 < n" and "n \<le> 1514"
  shows "\<exists>cap f. rtl8139_rx_step frame b c = Some (RxNext (slot_end c n) cap (if status AND 0x8000 \<noteq> 0 then None else Some (f, n))) \<and>
    length f = 1518 \<and> take n f = ring_bytes b ((c + 4) mod 8192) n"
proof -
  let ?o = "(c + 4) mod 8192"
  obtain f where f: "(if ?o + n \<le> 8192 then memcpy frame 0 b ?o n
      else do { f1 \<leftarrow> memcpy frame 0 b ?o (8192 - ?o); memcpy f1 (8192 - ?o) b 0 (n - (8192 - ?o)) }) = Some f"
    "length f = 1518" "take n f = ring_bytes b ?o n"
    using rx_copy [OF assms(1,2,5,6) refl] by blast
  have adv: "(if 8192 \<le> (c + n + 4 + 3) div 4 * 4 then (c + n + 4 + 3) div 4 * 4 - 8192 else (c + n + 4 + 3) div 4 * 4) = slot_end c n"
    using rx_advance [of c n] assms(1,6) unfolding ring_ok_def Let_def by blast
  have n: "unat (drop_bit 16 status AND 0x3FFF) = n" using assms(4) by (simp add: slot_len_def)
  have "\<exists>cap. rtl8139_rx_step frame b c = Some (RxNext (slot_end c n) cap (if status AND 0x8000 \<noteq> 0 then None else Some (f, n)))"
    unfolding rtl8139_rx_step_def assms(3) RTL_RXBUF_SIZE_def NET_BUF_SIZE_def Let_def bind.simps n adv
    using assms(5,6) f(1) by (auto split: if_splits option.splits bind_splits)
  then show ?thesis using f(2,3) by blast
qed

section \<open>What the card lays out\<close>

text \<open>A slot is the receive status, the length of the frame, and the frame; the next slot begins at a multiple of four.\<close>

fun ring_holds :: "u8 list \<Rightarrow> nat \<Rightarrow> (u16 \<times> u8 list) list \<Rightarrow> bool" where
  "ring_holds b c [] \<longleftrightarrow> True"
| "ring_holds b c ((st, d) # ps) \<longleftrightarrow>
     ring_bytes b c (4 + length d) = le16 st @ le16 (of_nat (length d)) @ d \<and> 0 < length d \<and> length d \<le> 1514 \<and>
     ring_holds b (slot_end c (length d)) ps"

lemma header_word:
  assumes "ring_ok b c" and "ring_bytes b c (4 + n) = le16 st @ le16 len @ d"
  shows "rd32 b c = Some (ucast st OR push_bit 16 (ucast len))"
proof -
  have c: "c + 3 < 8192" using assms(1) unfolding ring_ok_def by presburger
  have "b ! (c + i) = (le16 st @ le16 len @ d) ! i" if "i < 4" for i
    using arg_cong [OF assms(2), of "\<lambda>xs. xs ! i"] that c by (simp add: ring_bytes_def)
  from this [of 0] this [of 1] this [of 2] this [of 3]
  have b: "b ! c = ucast st" "b ! (c + 1) = ucast (drop_bit 8 st)" "b ! (c + 2) = ucast len" "b ! (c + 3) = ucast (drop_bit 8 len)"
    by (simp_all add: le16_def)
  show ?thesis unfolding rd32_ring [OF assms(1)] b option.inject
  proof (rule bit_eqI)
    fix n :: nat
    consider "n < 8" | "8 \<le> n" "n < 16" | "16 \<le> n" "n < 24" | "24 \<le> n" by linarith
    then show "bit (ucast (ucast st :: u8) OR push_bit 8 (ucast (ucast (drop_bit 8 st) :: u8)) OR push_bit 16 (ucast (ucast len :: u8)) OR
        push_bit 24 (ucast (ucast (drop_bit 8 len) :: u8)) :: u32) n = bit (ucast st OR push_bit 16 (ucast len) :: u32) n"
      by cases (auto simp: bit_simps dest: bit_imp_le_length)
  qed
qed

lemma header_fields:
  fixes st len :: u16
  assumes "unat len < 16384"
  shows "slot_len (ucast st OR push_bit 16 (ucast len)) = unat len"
    and "(ucast st OR push_bit 16 (ucast len)) AND 0x8000 = (0 :: u32) \<longleftrightarrow> st AND 0x8000 = 0"
proof -
  have "drop_bit 16 (ucast st OR push_bit 16 (ucast len)) = (ucast len :: u32)"
    by (rule bit_eqI) (auto simp: bit_simps dest: bit_imp_le_length)
  moreover have "unat (ucast len :: u32) = unat len"
    by (simp add: unsigned_ucast_eq take_bit_nat_eq_self_iff) (use unat_less_65536 [of len] in auto)
  then have "unat ((ucast len :: u32) AND 0x3FFF) = unat len"
    using unat_mask [of "ucast len :: u32" 14] assms by (simp add: mask_numeral)
  ultimately show "slot_len (ucast st OR push_bit 16 (ucast len)) = unat len" by (simp add: slot_len_def)
  have "x AND 0x8000 = 0 \<longleftrightarrow> \<not> bit x 15" for x :: u32
    by (simp add: and_exp_eq_0_iff_not_bit [of x 15, simplified])
  moreover have "x AND 0x8000 = 0 \<longleftrightarrow> \<not> bit x 15" for x :: u16
    by (simp add: and_exp_eq_0_iff_not_bit [of x 15, simplified])
  ultimately show "(ucast st OR push_bit 16 (ucast len)) AND 0x8000 = (0 :: u32) \<longleftrightarrow> st AND 0x8000 = 0"
    by (simp add: bit_simps)
qed

section \<open>The whole walk\<close>

lemma rtl8139_rx_safe:
  assumes "ring_ok b c" and "length frame = 1518"
  shows "\<exists>fs c'. rtl8139_rx n frame b c = Some (fs, c') \<and> (\<forall>f \<in> set fs. rx_frame_ok f) \<and> ring_ok b c'"
  using assms(1)
proof (induction n arbitrary: c)
  case (Suc n)
  obtain status where st: "rd32 b c = Some status" using rd32_ring [OF Suc.prems] by blast
  show ?case
  proof (cases "slot_len status = 0 \<or> 1514 < slot_len status")
    case True
    then show ?thesis using rx_stop [OF st] Suc.prems by simp
  next
    case False
    then obtain cap f where f: "rtl8139_rx_step frame b c = Some (RxNext (slot_end c (slot_len status)) cap (if status AND 0x8000 \<noteq> 0 then None else Some (f, slot_len status)))"
      "length f = 1518" using rx_next [OF Suc.prems assms(2) st refl] by auto
    have "rx_frame_ok (f, slot_len status)" using f(2) False by (simp add: rx_frame_ok_def)
    then show ?thesis using Suc.IH [OF slot_end_ok [OF Suc.prems, of "slot_len status"]] f(1) by (cases "status AND 0x8000 = 0") fastforce+
  qed
qed simp

lemma rtl8139_rx_holds:
  assumes "ring_ok b c" and "length frame = 1518" and "ring_holds b c ps"
  shows "\<exists>fs c'. rtl8139_rx (length ps) frame b c = Some (fs, c') \<and>
    map (\<lambda>(f, n). take n f) fs = map snd (filter (\<lambda>(st, d). st AND 0x8000 = 0) ps) \<and> c' = foldl slot_end c (map (\<lambda>p. length (snd p)) ps)"
  using assms(1,3)
proof (induction ps arbitrary: c)
  case (Cons p ps)
  obtain st d where p: "p = (st, d)" by force
  let ?n = "length d" and ?status = "ucast st OR push_bit 16 (ucast (of_nat (length d) :: u16)) :: u32"
  have h: "ring_bytes b c (4 + ?n) = le16 st @ le16 (of_nat ?n) @ d" "0 < ?n" "?n \<le> 1514" "ring_holds b (slot_end c ?n) ps"
    using Cons.prems(2) p by auto
  have u: "unat (of_nat ?n :: u16) = ?n" using h(3) by (simp add: unat_simps)
  note hw = header_word [OF Cons.prems(1) h(1)] and hf = header_fields [of "of_nat ?n :: u16" st, unfolded u]
  have sl: "slot_len ?status = ?n" using hf(1) h(3) by simp
  obtain cap f where f: "rtl8139_rx_step frame b c = Some (RxNext (slot_end c ?n) cap (if ?status AND 0x8000 \<noteq> 0 then None else Some (f, ?n)))"
    "take ?n f = ring_bytes b ((c + 4) mod 8192) ?n" using rx_next [OF Cons.prems(1) assms(2) hw sl [symmetric] h(2,3)] by blast
  have "ring_bytes b ((c + 4) mod 8192) ?n = drop 4 (ring_bytes b c (4 + ?n))"
    by (intro nth_equalityI) (auto simp: ring_bytes_def mod_simps add.assoc)
  then have d: "take ?n f = d" using f(2) h(1) by (simp add: le16_def)
  obtain fs c' where "rtl8139_rx (length ps) frame b (slot_end c ?n) = Some (fs, c')"
    "map (\<lambda>(f, n). take n f) fs = map snd (filter (\<lambda>(st, d). st AND 0x8000 = 0) ps)" "c' = foldl slot_end (slot_end c ?n) (map (\<lambda>p. length (snd p)) ps)"
    using Cons.IH [OF slot_end_ok [OF Cons.prems(1)] h(4)] by blast
  then show ?case using f(1) d hf(2) h(3) p by (cases "st AND 0x8000 = 0") auto
qed simp

section \<open>Properties\<close>


text \<open>The witness: a frame of five bytes that crosses the end of the ring.\<close>

definition demo_ring :: "u8 list" where
  "demo_ring = [1, 2, 3, 4, 5, 0, 0, 0] @ replicate 8180 0 @ [1, 0, 5, 0]"


text \<open>
  C34: a frame of full size stops reception for good.  The length in a slot includes the four bytes of the checksum, but
  the walk takes every length above 1514 for the end of the data and does not move on, however often it is called.
\<close>

theorem rtl8139_rx_stalls:
  assumes "ring_ok b c" and "ring_bytes b c 4 = le16 st @ le16 len" and "1514 < unat len" and "unat len < 16384"
  shows "rtl8139_rx n frame b c = Some ([], c)"
proof -
  have "rd32 b c = Some (ucast st OR push_bit 16 (ucast len))" using header_word [OF assms(1), of 0 st len "[]"] assms(2) by simp
  moreover have "slot_len (ucast st OR push_bit 16 (ucast len)) = unat len" by (rule header_fields(1) [OF assms(4)])
  ultimately show ?thesis using rx_stop assms(3) by (cases n) simp_all
qed

theorem rtl8139_rx_stalls_witness:
  "rtl8139_rx 5 (replicate 1518 0) ([1, 0, 0xEE, 5] @ replicate 8188 0) 0 = Some ([], 0)"
proof -
  have "ring_bytes ([1, 0, 0xEE, 5] @ replicate 8188 0) 0 4 = le16 1 @ le16 1518"
    by (simp add: ring_bytes_def upt_rec le16_def drop_bit_eq_div)
  then show ?thesis by (intro rtl8139_rx_stalls [of _ _ 1 1518]) (simp_all add: ring_ok_def)
qed

end
