(* ===== verification/Dns.thy ===== *)
theory Dns
  imports NetSafety
begin

text \<open>
  The name resolver of \<open>src/kernel/net/network.c\<close> (\<open>dns_build_name\<close>, \<open>dns_skip_name\<close>, \<open>dns_resolve\<close>) on top of the UDP exchange.

  \<^item> The offsets into a message are natural numbers: every offset is checked against the length of the reply,
    at most 512, before the next addition, so that the \<open>uint32_t\<close> of the source never wraps.
  \<^item> A parser returns \<open>Some None\<close> where the source returns -1.
\<close>

section \<open>Model\<close>

definition DNS_PORT :: u16 where
  "DNS_PORT = 53"

definition DNS_MAX_NAME :: nat where
  "DNS_MAX_NAME = 255"

text \<open>Copying the characters of a label, from \<open>i\<close> up to \<open>e\<close>.\<close>

function dns_label :: "u8 list \<Rightarrow> nat \<Rightarrow> nat \<Rightarrow> u8 list \<Rightarrow> nat \<Rightarrow> (u8 list \<times> nat) option" where
  "dns_label name i e out p =
     (if i < e then do { c \<leftarrow> rd name i; out' \<leftarrow> wr out p c; dns_label name (Suc i) e out' (Suc p) }
      else Some (out, p))"
  by pat_completeness auto
termination
  by (relation "measure (\<lambda>(name, i, e, out, p). e - i)") auto

text \<open>The loop over the labels; \<open>p\<close> is the position in the buffer.\<close>

function dns_labels :: "u8 list \<Rightarrow> nat \<Rightarrow> u8 list \<Rightarrow> nat \<Rightarrow> (u8 list \<times> nat) option" where
  "dns_labels name lab_start out p =
     do { c \<leftarrow> rd name lab_start;
          if c = 0 then Some (out, p)
          else do {
            lab_end \<leftarrow> find_sep name lab_start 46;
            out1 \<leftarrow> wr out p (of_nat (lab_end - lab_start));
            (out2, p2) \<leftarrow> dns_label name lab_start lab_end out1 (Suc p);
            e \<leftarrow> rd name lab_end;
            if e = 0 then Some (out2, p2) else dns_labels name (Suc lab_end) out2 p2 } }"
  by pat_completeness auto
termination
  by (relation "measure (\<lambda>(name, lab_start, out, p). length name - lab_start)")
    (auto dest!: rd_SomeD dest: find_sep_ge)

definition dns_build_name :: "u8 list \<Rightarrow> u8 list \<Rightarrow> nat \<Rightarrow> (u8 list \<times> nat) option" where
  "dns_build_name name out base =
     do { (out1, p) \<leftarrow> dns_labels name 0 out base;
          out2 \<leftarrow> wr out1 p 0;
          Some (out2, Suc p - base) }"

function dns_skip_name :: "u8 list \<Rightarrow> nat \<Rightarrow> nat \<Rightarrow> nat option option" where
  "dns_skip_name pkt pktlen offset =
     (if pktlen \<le> offset then Some None
      else do {
        len \<leftarrow> rd pkt offset;
        if len AND 0xC0 = 0xC0 then Some (Some (offset + 2))
        else if len = 0 then Some (Some (offset + 1))
        else if len AND 0xC0 \<noteq> 0 then Some None
        else if pktlen \<le> offset + (1 + unat len) then Some None
        else dns_skip_name pkt pktlen (offset + (1 + unat len)) })"
  by pat_completeness auto
termination
  by (relation "measure (\<lambda>(pkt, pktlen, offset). pktlen - offset)") auto

definition dns_query :: "u8 list \<Rightarrow> u16 \<Rightarrow> (u8 list \<times> nat) option" where
  "dns_query name ident =
     do { q0 \<leftarrow> bzero (replicate 512 0) 0 512;
          q1 \<leftarrow> memcpy q0 0 [ucast (drop_bit 8 ident), ucast (ident AND 0xFF), 0x01, 0, 0, 0x01, 0, 0, 0, 0, 0, 0] 0 12;
          (q2, nlen) \<leftarrow> dns_build_name name q1 12;
          let hlen = 12 + nlen;
          q3 \<leftarrow> wr q2 hlen 0;
          q4 \<leftarrow> wr q3 (hlen + 1) 1;
          q5 \<leftarrow> wr q4 (hlen + 2) 0;
          q6 \<leftarrow> wr q5 (hlen + 3) 1;
          Some (q6, hlen + 4) }"

fun dns_questions :: "u8 list \<Rightarrow> nat \<Rightarrow> nat \<Rightarrow> nat \<Rightarrow> nat option option" where
  "dns_questions resp rlen 0 offset = Some (Some offset)"
| "dns_questions resp rlen (Suc qd) offset =
     (if offset < rlen then
        do { r \<leftarrow> dns_skip_name resp rlen offset;
             case r of None \<Rightarrow> Some None | Some next \<Rightarrow> dns_questions resp rlen qd (next + 4) }
      else Some (Some offset))"

fun dns_answers :: "u8 list \<Rightarrow> nat \<Rightarrow> nat \<Rightarrow> nat \<Rightarrow> net_ip4_t option option" where
  "dns_answers resp rlen 0 offset = Some None"
| "dns_answers resp rlen (Suc ans) offset =
     (if offset < rlen then
        do { r \<leftarrow> dns_skip_name resp rlen offset;
             case r of None \<Rightarrow> Some None
             | Some next \<Rightarrow>
                 (if rlen < next + 10 then Some None
                  else do {
                    t1 \<leftarrow> rd resp next; t2 \<leftarrow> rd resp (next + 1);
                    l1 \<leftarrow> rd resp (next + 8); l2 \<leftarrow> rd resp (next + 9);
                    let type = be16 t1 t2;
                    let rdlen = be16 l1 l2;
                    if type = 1 \<and> rdlen = 4 \<and> next + 10 + 4 \<le> rlen then
                      do { a \<leftarrow> rd resp (next + 10); b \<leftarrow> rd resp (next + 11); c \<leftarrow> rd resp (next + 12); d \<leftarrow> rd resp (next + 13);
                           Some (Some [a, b, c, d]) }
                    else dns_answers resp rlen ans (next + 10 + unat rdlen) }) }
      else Some None)"

definition dns_reply :: "u8 list \<Rightarrow> nat \<Rightarrow> net_ip4_t option option" where
  "dns_reply resp rlen =
     (if rlen < 12 then Some None
      else do {
        q1 \<leftarrow> rd resp 4; q2 \<leftarrow> rd resp 5; a1 \<leftarrow> rd resp 6; a2 \<leftarrow> rd resp 7;
        r \<leftarrow> dns_questions resp rlen (unat (be16 q1 q2)) 12;
        case r of None \<Rightarrow> Some None | Some offset \<Rightarrow> dns_answers resp rlen (unat (be16 a1 a2)) offset })"

definition dns_resolve :: "u8 list \<Rightarrow> net_state \<Rightarrow> (net_ip4_t option \<times> net_state) option" where
  "dns_resolve name s =
     do { r \<leftarrow> string_to_ip4 (Some name);
          case r of
            Some ip \<Rightarrow> Some (Some ip, s)
          | None \<Rightarrow> do {
              d \<leftarrow> rd (if_dns (iface s)) 0;
              if d = 0 then Some (None, s)
              else do {
                l \<leftarrow> strlen name;
                if 0 < l \<and> l < DNS_MAX_NAME then
                  do { let ident = ucast (ticks (nic s) AND 0xFFFF);
                       (query, hlen) \<leftarrow> dns_query name ident;
                       (r, s1) \<leftarrow> udp_exchange (if_dns (iface s)) DNS_PORT query hlen (5353 + ident mod 1000) 300 s;
                       if r \<noteq> 0 then Some (None, s1)
                       else do { a \<leftarrow> dns_reply (tx_reply (tx (udp s1))) (tx_reply_len (tx (udp s1))); Some (a, s1) } }
                else Some (None, s) } } }"

declare dns_label.simps [simp del] dns_labels.simps [simp del] dns_skip_name.simps [simp del]

section \<open>The name in wire format\<close>

text \<open>The reference: the labels between the dots, each with its length in front.\<close>

function dot_labels :: "u8 list \<Rightarrow> u8 list list" where
  "dot_labels xs =
     (if xs = [] then []
      else takeWhile (\<lambda>c. c \<noteq> 46) xs #
        (case dropWhile (\<lambda>c. c \<noteq> 46) xs of [] \<Rightarrow> [] | y # ys \<Rightarrow> dot_labels ys))"
  by pat_completeness auto
termination
proof (relation "measure length", goal_cases)
  case (2 xs y ys)
  then show ?case using length_dropWhile_le [of "\<lambda>c. c \<noteq> 46" xs] by simp
qed simp

declare dot_labels.simps [simp del]

definition wire_labels :: "u8 list list \<Rightarrow> u8 list" where
  "wire_labels ls = concat (map (\<lambda>l. of_nat (length l) # l) ls)"

lemma wire_labels_simps [simp]:
  "wire_labels [] = []" "wire_labels (l # ls) = of_nat (length l) # l @ wire_labels ls"
  by (simp_all add: wire_labels_def)

lemma wire_labels_length: "length (wire_labels (dot_labels xs)) \<le> Suc (length xs)"
proof (induction xs rule: dot_labels.induct)
  case (1 xs)
  have l: "length (takeWhile (\<lambda>c. c \<noteq> 46) xs) + length (dropWhile (\<lambda>c. c \<noteq> 46) xs) = length xs"
    by (metis length_append takeWhile_dropWhile_id)
  show ?case
  proof (cases "dropWhile (\<lambda>c. c \<noteq> 46) xs")
    case Nil
    then show ?thesis using l unfolding dot_labels.simps [of xs] Nil by simp
  next
    case (Cons y ys)
    then have "xs \<noteq> []" by auto
    with 1 [OF this Cons] Cons l show ?thesis by (simp add: dot_labels.simps [of xs])
  qed
qed

lemma dns_label_blit:
  assumes "e \<le> length name" and "p + (e - i) \<le> length out" and "i \<le> e"
  shows "dns_label name i e out p = Some (blit out p (take (e - i) (drop i name)), p + (e - i))"
  using assms(2,3)
proof (induction "e - i" arbitrary: i out p)
  case 0
  then show ?case by (simp add: dns_label.simps)
next
  case (Suc k)
  then have i: "i < e" "i < length name" "p < length out" using assms(1) by auto
  have ih: "dns_label name (Suc i) e (out[p := name ! i]) (Suc p) =
      Some (blit (out[p := name ! i]) (Suc p) (take (e - Suc i) (drop (Suc i) name)), Suc p + (e - Suc i))"
    using Suc i by (intro Suc.hyps(1)) auto
  have "blit (out[p := name ! i]) (Suc p) (take (e - Suc i) (drop (Suc i) name)) = blit out p (take (e - i) (drop i name))"
    using i by (simp add: blit_step Cons_nth_drop_Suc [symmetric, of i] take_Cons')
  then show ?case using i ih by (simp add: dns_label.simps [of name i] mem_simps)
qed

lemma dns_labels_blit:
  assumes "terminated (drop b name)" and "p + length (wire_labels (dot_labels (cstr (drop b name)))) \<le> length out"
  shows "dns_labels name b out p = Some (blit out p (wire_labels (dot_labels (cstr (drop b name)))),
    p + length (wire_labels (dot_labels (cstr (drop b name)))))"
  using assms
proof (induction "length name - b" arbitrary: b out p rule: less_induct)
  case less
  note lt = terminated_drop_index [OF less.prems(1)]
  let ?c = "cstr (drop b name)"
  show ?case
  proof (cases "name ! b = 0")
    case True
    then show ?thesis using lt by (simp add: dns_labels.simps [of name b] cstr_drop_zero mem_simps dot_labels.simps)
  next
    case False
    obtain e where e: "find_sep name b 46 = Some e" "b \<le> e" "terminated (drop e name)" "name ! e = 0 \<or> name ! e = 46"
      "take (e - b) (drop b name) = takeWhile (\<lambda>c. c \<noteq> 46) ?c" "cstr (drop e name) = dropWhile (\<lambda>c. c \<noteq> 46) ?c"
      using find_sep_fields [OF less.prems(1)] by blast
    have el: "e < length name" by (rule terminated_drop_index [OF e(3)])
    have ne: "?c \<noteq> []" using cstr_drop_Cons [OF less.prems(1) False] by simp
    let ?l = "takeWhile (\<lambda>c. c \<noteq> 46) ?c"
    have ll: "length ?l = e - b" using e(2,5) el by (metis diff_le_mono less_imp_le length_drop length_take min.absorb2)
    have hd: "dot_labels ?c = ?l # (case cstr (drop e name) of [] \<Rightarrow> [] | y # ys \<Rightarrow> dot_labels ys)"
      using ne e(6) by (simp add: dot_labels.simps [of ?c])
    have room: "p < length out" "Suc p + (e - b) \<le> length out" using less.prems(2) hd ll by auto
    let ?o1 = "blit out p (of_nat (e - b) # ?l)"
    have "blit (out[p := of_nat (e - b)]) (Suc p) ?l = ?o1"
      using room by (simp add: blit_step)
    then have lab: "dns_label name b e (out[p := of_nat (e - b)]) (Suc p) = Some (?o1, Suc p + (e - b))"
      using dns_label_blit [of e name "Suc p" b "out[p := of_nat (e - b)]"] room el e(2,5) by simp
    show ?thesis
    proof (cases "name ! e = 0")
      case True
      then have "cstr (drop e name) = []" using el by (simp add: cstr_drop_zero)
      then show ?thesis using True False lt e(1) room lab el hd ll by (simp add: dns_labels.simps [of name b] mem_simps)
    next
      case nz: False
      then have c: "cstr (drop e name) = name ! e # cstr (drop (Suc e) name)" "terminated (drop (Suc e) name)"
        using cstr_drop_Cons [OF e(3)] by auto
      let ?w = "wire_labels (dot_labels (cstr (drop (Suc e) name)))"
      have w: "wire_labels (dot_labels ?c) = (of_nat (e - b) # ?l) @ ?w" using hd c ll by simp
      have lo: "length ?o1 = length out" using room ll by (simp add: mem_simps)
      have "dns_labels name (Suc e) ?o1 (p + length (of_nat (e - b) # ?l)) = Some (blit ?o1 (p + length (of_nat (e - b) # ?l)) ?w, p + length (of_nat (e - b) # ?l) + length ?w)"
        using less.hyps [of "Suc e" "p + length (of_nat (e - b) # ?l)" ?o1] c(2) less.prems(2) w lo e(2) el by simp
      moreover have "blit ?o1 (p + length (of_nat (e - b) # ?l)) ?w = blit out p (wire_labels (dot_labels ?c))"
        using less.prems(2) w by (subst blit_append) simp_all
      ultimately have "dns_labels name (Suc e) ?o1 (Suc p + (e - b)) = Some (blit out p (wire_labels (dot_labels ?c)), p + length (wire_labels (dot_labels ?c)))"
        using w ll by simp
      then show ?thesis using nz False lt e(1) room lab el by (simp add: dns_labels.simps [of name b] mem_simps)
    qed
  qed
qed

lemma dns_build_name_blit:
  assumes "terminated name" and "w = wire_labels (dot_labels (cstr name)) @ [0]" and "base + length w \<le> length out"
  shows "dns_build_name name out base = Some (blit out base w, length w)"
proof -
  have "dns_labels name 0 out base = Some (blit out base (wire_labels (dot_labels (cstr name))), base + length (wire_labels (dot_labels (cstr name))))"
    using dns_labels_blit [of 0 name base out] assms by simp
  then show ?thesis using assms(2,3) by (simp add: dns_build_name_def mem_simps blit_snoc)
qed

section \<open>Parsing\<close>

lemma dns_skip_name_defined: "pktlen \<le> length pkt \<Longrightarrow> \<exists>r. dns_skip_name pkt pktlen offset = Some r"
proof (induction pkt pktlen offset rule: dns_skip_name.induct)
  case (1 pkt pktlen offset)
  then show ?case by (cases "pktlen \<le> offset") (auto simp: dns_skip_name.simps [of pkt pktlen offset] rd_in)
qed

lemma dns_questions_defined: "rlen \<le> length resp \<Longrightarrow> \<exists>r. dns_questions resp rlen qd offset = Some r"
proof (induction qd arbitrary: offset)
  case (Suc qd)
  then show ?case using dns_skip_name_defined [of rlen resp offset] by (auto split: option.splits)
qed simp

lemma dns_answers_defined: "rlen \<le> length resp \<Longrightarrow> \<exists>r. dns_answers resp rlen ans offset = Some r"
proof (induction ans arbitrary: offset)
  case (Suc ans)
  then show ?case using dns_skip_name_defined [of rlen resp offset] by (auto split: option.splits simp: rd_in Let_def)
qed simp

lemma dns_reply_defined:
  assumes "rlen \<le> length resp"
  shows "\<exists>r. dns_reply resp rlen = Some r"
proof (cases "rlen < 12")
  case False
  obtain r where "dns_questions resp rlen (unat (be16 (resp ! 4) (resp ! 5))) 12 = Some r"
    using dns_questions_defined [OF assms] by blast
  moreover have "\<exists>a. dns_answers resp rlen (unat (be16 (resp ! 6) (resp ! 7))) offset = Some a" for offset
    using dns_answers_defined [OF assms] .
  ultimately show ?thesis using assms False by (cases r) (simp_all add: dns_reply_def rd_in)
qed (simp add: dns_reply_def)

text \<open>A name in a message: labels of 1 to 63 characters, then the root or a pointer.\<close>

definition wire_name :: "u8 list \<Rightarrow> bool" where
  "wire_name w \<longleftrightarrow> (\<exists>ls t. w = wire_labels ls @ t \<and> (\<forall>l \<in> set ls. 0 < length l \<and> length l < 64) \<and>
     (t = [0] \<or> (\<exists>p q. t = [p, q] \<and> p AND 0xC0 = 0xC0)))"

lemma label_byte: "0 < n \<Longrightarrow> n < 64 \<Longrightarrow> (of_nat n :: u8) AND 0xC0 = 0 \<and> (of_nat n :: u8) \<noteq> 0 \<and> unat (of_nat n :: u8) = n"
proof -
  assume n: "0 < n" "n < 64"
  have "list_all (\<lambda>n. (of_nat n :: u8) AND 0xC0 = 0) [0..<64]" by code_simp
  then have "(of_nat n :: u8) AND 0xC0 = 0" using n by (simp add: list_all_iff)
  moreover have "unat (of_nat n :: u8) = n" using n by (simp add: unat_simps)
  ultimately show ?thesis using n by (metis less_numeral_extra(3) unsigned_0)
qed

lemma dns_skip_labels:
  assumes "\<forall>l \<in> set ls. 0 < length l \<and> length l < 64" and "t \<noteq> []"
    and "length (pre @ wire_labels ls @ t) \<le> pktlen"
  shows "dns_skip_name (pre @ wire_labels ls @ t @ post) pktlen (length pre) =
    dns_skip_name (pre @ wire_labels ls @ t @ post) pktlen (length (pre @ wire_labels ls))"
  using assms(1,3)
proof (induction ls arbitrary: pre)
  case (Cons l ls)
  let ?p = "pre @ wire_labels (l # ls) @ t @ post" and ?n = "length l"
  have n: "0 < ?n" "?n < 64" using Cons.prems(1) by auto
  have "0 < length t" using assms(2) by simp
  then have more: "Suc (length pre + ?n) < pktlen" using Cons.prems(2) by (simp del: length_greater_0_conv)
  have "rd ?p (length pre) = Some (of_nat ?n)" by (simp add: rd_def nth_append)
  then have "dns_skip_name ?p pktlen (length pre) = dns_skip_name ?p pktlen (length pre + (1 + ?n))"
    using label_byte [OF n] more by (subst dns_skip_name.simps) simp
  also have "\<dots> = dns_skip_name ?p pktlen (length (pre @ wire_labels (l # ls)))"
    using Cons.IH [of "pre @ of_nat ?n # l"] Cons.prems by simp
  finally show ?case .
qed simp

lemma dns_skip_wire:
  assumes "wire_name w" and "length (pre @ w) \<le> pktlen"
  shows "dns_skip_name (pre @ w @ post) pktlen (length pre) = Some (Some (length (pre @ w)))"
proof -
  obtain ls t where w: "w = wire_labels ls @ t" "\<forall>l \<in> set ls. 0 < length l \<and> length l < 64"
    "t = [0] \<or> (\<exists>p q. t = [p, q] \<and> p AND 0xC0 = 0xC0)" using assms(1) unfolding wire_name_def by blast
  have "dns_skip_name (pre @ w @ post) pktlen (length pre) = dns_skip_name (pre @ w @ post) pktlen (length (pre @ wire_labels ls))"
    using dns_skip_labels [OF w(2), of t pre pktlen post] w(1,3) assms(2) by auto
  also have "\<dots> = Some (Some (length (pre @ w)))"
    using w(1,3) assms(2) by (subst dns_skip_name.simps) (auto simp: rd_def nth_append)
  finally show ?thesis .
qed

section \<open>Messages\<close>

record dns_rr =
  rr_name :: "u8 list"
  rr_type :: u16
  rr_meta :: "u8 list"
  rr_data :: "u8 list"

definition be_bytes :: "u16 \<Rightarrow> u8 list" where
  "be_bytes x = [ucast (drop_bit 8 x), ucast x]"

definition rr_bytes :: "dns_rr \<Rightarrow> u8 list" where
  "rr_bytes r = rr_name r @ be_bytes (rr_type r) @ rr_meta r @ be_bytes (of_nat (length (rr_data r))) @ rr_data r"

text \<open>The class and the time to live are six bytes.\<close>

definition rr_ok :: "dns_rr \<Rightarrow> bool" where
  "rr_ok r \<longleftrightarrow> wire_name (rr_name r) \<and> length (rr_meta r) = 6 \<and> length (rr_data r) < 65536"

definition is_A :: "dns_rr \<Rightarrow> bool" where
  "is_A r \<longleftrightarrow> rr_type r = 1 \<and> length (rr_data r) = 4"

definition dns_message :: "u8 list \<Rightarrow> u8 list \<Rightarrow> (u8 list \<times> u8 list) list \<Rightarrow> dns_rr list \<Rightarrow> u8 list" where
  "dns_message head tail qs rrs =
     head @ be_bytes (of_nat (length qs)) @ be_bytes (of_nat (length rrs)) @ tail @
     concat (map (\<lambda>(w, t). w @ t) qs) @ concat (map rr_bytes rrs)"

lemma be16_bytes: "be16 (ucast (drop_bit 8 x)) (ucast x) = x"
  using unat_bytes16 [of x] unat_be16 by (metis word_unat_eq_iff)

lemma wire_name_nonempty: "wire_name w \<Longrightarrow> 0 < length w"
  by (auto simp: wire_name_def)

lemma dns_questions_message:
  assumes "\<forall>(w, t) \<in> set qs. wire_name w \<and> length t = 4" and "length (pre @ concat (map (\<lambda>(w, t). w @ t) qs)) \<le> rlen"
  shows "dns_questions (pre @ concat (map (\<lambda>(w, t). w @ t) qs) @ post) rlen (length qs) (length pre) =
    Some (Some (length (pre @ concat (map (\<lambda>(w, t). w @ t) qs))))"
  using assms
proof (induction qs arbitrary: pre)
  case (Cons q qs)
  obtain w t where q: "q = (w, t)" by force
  let ?c = "concat (map (\<lambda>(w, t). w @ t) qs)"
  have w: "wire_name w" "length t = 4" "0 < length w" using Cons.prems(1) q wire_name_nonempty by auto
  have "dns_skip_name (pre @ w @ t @ ?c @ post) rlen (length pre) = Some (Some (length pre + length w))"
    using dns_skip_wire [OF w(1), of pre rlen "t @ ?c @ post"] Cons.prems(2) q by simp
  moreover have "dns_questions (pre @ w @ t @ ?c @ post) rlen (length qs) (length pre + length w + 4) =
      Some (Some (length pre + length w + 4 + length ?c))"
    using Cons.IH [of "pre @ w @ t"] Cons.prems q w(2) by (simp add: add.assoc)
  ultimately show ?case using q w(2,3) Cons.prems(2) by (simp add: add.assoc)
qed simp

lemma take_4_nth: "length xs = 4 \<Longrightarrow> [xs ! 0, xs ! 1, xs ! 2, xs ! 3] = xs"
  by (auto simp: numeral_eq_Suc length_Suc_conv)

lemma nth_at: "(pre @ xs) ! (length pre + i) = xs ! i"
  by (simp add: nth_append)

lemma dns_answers_skip:
  assumes "dns_skip_name resp rlen offset = Some (Some next)" and "offset < rlen" and "next + 10 \<le> rlen"
    and "rd resp next = Some t1" and "rd resp (next + 1) = Some t2" and "rd resp (next + 8) = Some l1" and "rd resp (next + 9) = Some l2"
    and "\<not> (be16 t1 t2 = 1 \<and> be16 l1 l2 = 4)"
  shows "dns_answers resp rlen (Suc ans) offset = dns_answers resp rlen ans (next + 10 + unat (be16 l1 l2))"
  using assms by (auto simp: Let_def)

lemma dns_answers_message:
  assumes "\<forall>r \<in> set rrs. rr_ok r" and "length (pre @ concat (map rr_bytes rrs)) \<le> rlen" and "rlen \<le> length (pre @ concat (map rr_bytes rrs) @ post)"
  shows "dns_answers (pre @ concat (map rr_bytes rrs) @ post) rlen (length rrs) (length pre) = Some (map_option rr_data (List.find is_A rrs))"
  using assms
proof (induction rrs arbitrary: pre)
  case (Cons r rrs)
  let ?rest = "concat (map rr_bytes rrs) @ post" and ?w = "rr_name r" and ?d = "rr_data r"
  let ?body = "be_bytes (rr_type r) @ rr_meta r @ be_bytes (of_nat (length ?d)) @ ?d @ ?rest"
  let ?p = "pre @ ?w @ ?body" and ?off = "length (pre @ ?w)"
  have r: "wire_name ?w" "length (rr_meta r) = 6" "length ?d < 65536" "0 < length ?w"
    using Cons.prems(1) wire_name_nonempty by (auto simp: rr_ok_def)
  have p: "pre @ concat (map rr_bytes (r # rrs)) @ post = ?p" by (simp add: rr_bytes_def [of r])
  have len: "?off + 10 + length ?d + length (concat (map rr_bytes rrs)) \<le> rlen" "rlen \<le> length ?p"
    using Cons.prems(2,3) r(2) by (simp_all add: rr_bytes_def [of r] be_bytes_def)
  have rdp: "rd ?p (?off + i) = Some (?body ! i)" if "i < 10 + length ?d" for i
    using nth_at [of "pre @ ?w" ?body i] len that by (simp add: rd_def)
  have skip: "dns_skip_name ?p rlen (length pre) = Some (Some ?off)"
    using dns_skip_wire [OF r(1), of pre rlen ?body] len(1) by simp
  have b: "?body ! 0 = ucast (drop_bit 8 (rr_type r))" "?body ! 1 = ucast (rr_type r)"
    "?body ! 8 = ucast (drop_bit 8 (of_nat (length ?d) :: u16))" "?body ! 9 = ucast (of_nat (length ?d) :: u16)"
    using r(2) by (simp_all add: be_bytes_def nth_append)
  have d: "?body ! (10 + i) = ?d ! i" if "i < length ?d" for i
    using nth_at [of "be_bytes (rr_type r) @ rr_meta r @ be_bytes (of_nat (length ?d))" "?d @ ?rest" i] r(2) that by (simp add: be_bytes_def nth_append)
  have ulen: "unat (of_nat (length ?d) :: u16) = length ?d" "(of_nat (length ?d) :: u16) = 4 \<longleftrightarrow> length ?d = 4"
    using r(3) by (simp_all add: unat_simps word_unat_eq_iff)
  note rds = rdp [of 0] rdp [of 1] rdp [of 8] rdp [of 9]
  show ?case
  proof (cases "is_A r")
    case True
    then have A: "rr_type r = 1" "length ?d = 4" by (auto simp: is_A_def)
    have "rd ?p (?off + 10) = Some (?d ! 0)" "rd ?p (?off + 11) = Some (?d ! 1)" "rd ?p (?off + 12) = Some (?d ! 2)" "rd ?p (?off + 13) = Some (?d ! 3)"
      using rdp [of 10] rdp [of 11] rdp [of 12] rdp [of 13] d [of 0] d [of 1] d [of 2] d [of 3] A(2) by simp_all
    then show ?thesis unfolding p using skip rds b len r(4) True A take_4_nth [OF A(2)] be16_bytes [of "rr_type r"] be16_bytes [of "4 :: u16"]
      by (simp add: add.assoc Let_def)
  next
    case False
    have "dns_answers ?p rlen (length rrs) (?off + 10 + length ?d) = Some (map_option rr_data (List.find is_A rrs))"
      using Cons.IH [of "pre @ rr_bytes r"] Cons.prems r(2) by (simp add: rr_bytes_def [of r] be_bytes_def add.assoc)
    moreover have "dns_answers ?p rlen (Suc (length rrs)) (length pre) = dns_answers ?p rlen (length rrs) (?off + 10 + length ?d)"
      using dns_answers_skip [OF skip, of _ _ _ _ "length rrs"] rds b len r(4) False ulen
        be16_bytes [of "rr_type r"] be16_bytes [of "of_nat (length ?d) :: u16"] by (simp add: is_A_def)
    ultimately show ?thesis unfolding p using False by simp
  qed
qed simp

section \<open>The resolver\<close>

lemma parse_octets_defined: "terminated (drop p s) \<Longrightarrow> \<exists>r. parse_octets s p octets cur = Some r"
proof (induction s p octets cur rule: parse_octets.induct)
  case (1 s p octets cur)
  have p: "p < length s" by (rule terminated_drop_index [OF "1.prems"])
  show ?case
  proof (cases "s ! p = 0")
    case True
    then show ?thesis using p by (simp add: parse_octets.simps [of s p] rd_in)
  next
    case False
    then have t: "terminated (drop (Suc p) s)" using cstr_drop_Cons [OF "1.prems"] by simp
    show ?thesis using "1.IH" [OF rd_in [OF p] False] p False t
      by (auto simp: parse_octets.simps [of s p] rd_in Let_def)
  qed
qed

lemma dns_query_wire:
  assumes "terminated name" and "length (cstr name) < 255"
  shows "\<exists>query hlen. dns_query name ident = Some (query, hlen) \<and> length query = 512 \<and> hlen \<le> 512 \<and>
    take hlen query = [ucast (drop_bit 8 ident), ucast (ident AND 0xFF), 1, 0, 0, 1, 0, 0, 0, 0, 0, 0] @
      wire_labels (dot_labels (cstr name)) @ [0] @ [0, 1, 0, 1]"
proof -
  define h where "h = [ucast (drop_bit 8 ident), ucast (ident AND 0xFF), 1, 0, 0, 1, 0, 0, 0, 0, 0, 0 :: u8]"
  define w where "w = wire_labels (dot_labels (cstr name)) @ [0]"
  define z where "z = (replicate 512 0 :: u8 list)"
  have n: "length w \<le> 256" using wire_labels_length [of "cstr name"] assms(2) by (simp add: w_def)
  have l: "length h = 12" "length z = 512" by (simp_all add: h_def z_def)
  have bz: "bzero z 0 512 = Some z" by (simp add: bzero_blit blit_def z_def)
  have h: "memcpy z 0 h 0 12 = Some (blit z 0 h)" using l by (simp add: memcpy_blit)
  have b: "dns_build_name name (blit z 0 h) 12 = Some (blit z 0 (h @ w), length w)"
    using dns_build_name_blit [OF assms(1) w_def, of 12 "blit z 0 h"] n l blit_append [of 0 h w z] by (simp add: length_blit)
  let ?q = "\<lambda>t. blit z 0 (h @ w @ t)"
  have step: "wr (?q t) (12 + length w + length t) v = Some (?q (t @ [v]))" if "length t < 4" for t v
    using blit_snoc [of 0 "h @ w @ t" z v] n l that by (simp add: wr_def length_blit add.assoc)
  have "dns_query name ident = Some (?q [0, 1, 0, 1], 12 + length w + 4)"
    using step [of "[]" 0] step [of "[0]" 1] step [of "[0, 1]" 0] step [of "[0, 1, 0]" 1]
    unfolding dns_query_def h_def [symmetric] z_def [symmetric] by (simp add: bz h b)
  moreover have "length (?q [0, 1, 0, 1]) = 512" using n l by (simp add: length_blit)
  moreover have "take (12 + length w + 4) (?q [0, 1, 0, 1]) = h @ w @ [0, 1, 0, 1]" using l by (simp add: blit_def)
  ultimately show ?thesis using n by (simp add: h_def w_def)
qed

section \<open>Properties\<close>



text \<open>
  C35: the reply is read as it should be: from a message of well-formed questions and resource records, whatever
  follows it in the buffer, \<open>dns_reply\<close> returns the address of the first record of type A with four bytes of data,
  and nothing when there is none.
\<close>

theorem dns_reply_first_address:
  assumes "length head = 4" and "length tail = 4" and "length qs < 65536" and "length rrs < 65536"
    and "\<forall>(w, t) \<in> set qs. wire_name w \<and> length t = 4" and "\<forall>r \<in> set rrs. rr_ok r"
  shows "dns_reply (dns_message head tail qs rrs @ rest) (length (dns_message head tail qs rrs)) =
    Some (map_option rr_data (List.find is_A rrs))"
proof -
  define c where "c = concat (map (\<lambda>(w, t). w @ t) qs)"
  define r where "r = concat (map rr_bytes rrs)"
  define h where "h = head @ be_bytes (of_nat (length qs)) @ be_bytes (of_nat (length rrs)) @ tail"
  have m: "dns_message head tail qs rrs = h @ c @ r" by (simp add: dns_message_def h_def c_def r_def)
  have hl: "length h = 12" using assms(1,2) by (simp add: h_def be_bytes_def)
  have q: "dns_questions (h @ c @ r @ rest) (12 + length c + length r) (length qs) 12 = Some (Some (12 + length c))"
    using dns_questions_message [OF assms(5), of h "12 + length c + length r" "r @ rest"] hl by (simp add: c_def [symmetric])
  have a: "dns_answers (h @ c @ r @ rest) (12 + length c + length r) (length rrs) (12 + length c) = Some (map_option rr_data (List.find is_A rrs))"
    using dns_answers_message [OF assms(6), of "h @ c" "12 + length c + length r" rest] hl by (simp add: r_def [symmetric])
  have u: "unat (of_nat (length qs) :: u16) = length qs" "unat (of_nat (length rrs) :: u16) = length rrs"
    using assms(3,4) by (simp_all add: unat_simps)
  have rdh: "rd (h @ c @ r @ rest) i = Some (h ! i)" if "i < 12" for i using that hl by (simp add: rd_def nth_append)
  have b: "h ! 4 = ucast (drop_bit 8 (of_nat (length qs) :: u16))" "h ! 5 = ucast (of_nat (length qs) :: u16)"
    "h ! 6 = ucast (drop_bit 8 (of_nat (length rrs) :: u16))" "h ! 7 = ucast (of_nat (length rrs) :: u16)"
    using assms(1) by (simp_all add: h_def be_bytes_def nth_append)
  have "dns_reply (h @ c @ r @ rest) (12 + length c + length r) = dns_answers (h @ c @ r @ rest) (12 + length c + length r) (length rrs) (12 + length c)"
    unfolding dns_reply_def using rdh [of 4] rdh [of 5] rdh [of 6] rdh [of 7] b be16_bytes u q by simp
  then show ?thesis unfolding m using a hl by (simp add: add.assoc)
qed

text \<open>The witness: one question and two records, an alias and an address.\<close>

definition demo_rrs :: "dns_rr list" where
  "demo_rrs = [\<lparr>rr_name = [0xC0, 12], rr_type = 5, rr_meta = replicate 6 0, rr_data = [0xC0, 12]\<rparr>,
    \<lparr>rr_name = [0xC0, 12], rr_type = 1, rr_meta = replicate 6 0, rr_data = [93, 184, 216, 34]\<rparr>]"

theorem dns_reply_first_address_witness:
  "dns_reply (dns_message (replicate 4 0) (replicate 4 0) [([1, 97, 0], [0, 1, 0, 1])] demo_rrs @ replicate 400 7)
     (length (dns_message (replicate 4 0) (replicate 4 0) [([1, 97, 0], [0, 1, 0, 1])] demo_rrs)) = Some (Some [93, 184, 216, 34])"
proof -
  have w: "wire_name [1, 97, 0]" unfolding wire_name_def by (intro exI [of _ "[[97]]"] exI [of _ "[0]"]) simp
  have p: "wire_name [0xC0, 12]" unfolding wire_name_def by (intro exI [of _ "[]"] exI [of _ "[0xC0, 12]"]) simp
  show ?thesis
    by (subst dns_reply_first_address) (use w p in \<open>simp_all add: demo_rrs_def rr_ok_def is_A_def\<close>)
qed

text \<open>
  C36: the query is well formed.  For a name of at most 254 characters \<open>dns_query\<close> stays inside its 512 bytes and writes the
  header, the labels with their lengths, the root, type A and class IN; when every label has 1 to 63 characters,
  \<open>dns_skip_name\<close> reads the name back to its end.
\<close>

theorem dns_query_roundtrip:
  assumes "terminated name" and "length (cstr name) < 255"
  shows "\<exists>query hlen. dns_query name ident = Some (query, hlen) \<and> length query = 512 \<and> hlen \<le> 512 \<and>
    take hlen query = [ucast (drop_bit 8 ident), ucast (ident AND 0xFF), 1, 0, 0, 1, 0, 0, 0, 0, 0, 0] @
      wire_labels (dot_labels (cstr name)) @ [0] @ [0, 1, 0, 1] \<and>
    ((\<forall>l \<in> set (dot_labels (cstr name)). 0 < length l \<and> length l < 64) \<longrightarrow> dns_skip_name query hlen 12 = Some (Some (hlen - 4)))"
proof -
  let ?h = "[ucast (drop_bit 8 ident), ucast (ident AND 0xFF), 1, 0, 0, 1, 0, 0, 0, 0, 0, 0] :: u8 list"
  let ?w = "wire_labels (dot_labels (cstr name)) @ [0]"
  obtain query hlen where q: "dns_query name ident = Some (query, hlen)" "length query = 512" "hlen \<le> 512"
    "take hlen query = ?h @ ?w @ [0, 1, 0, 1]" using dns_query_wire [OF assms, of ident] by auto
  have hl: "hlen = 12 + length ?w + 4" 
  proof -
    have "hlen = length (take hlen query)" using q(2,3) by simp
    then show ?thesis unfolding q(4) by simp
  qed
  have e: "query = ?h @ ?w @ [0, 1, 0, 1] @ drop hlen query" using q(4) append_take_drop_id [of hlen query] by simp
  have "dns_skip_name query hlen 12 = Some (Some (hlen - 4))"
    if "\<forall>l \<in> set (dot_labels (cstr name)). 0 < length l \<and> length l < 64"
  proof -
    have "wire_name ?w" unfolding wire_name_def using that by blast
    moreover have len: "length ?h = 12" "length (?h @ ?w) = hlen - 4" "length (?h @ ?w) \<le> hlen" using hl by simp_all
    ultimately have "dns_skip_name (?h @ ?w @ [0, 1, 0, 1] @ drop hlen query) hlen (length ?h) = Some (Some (length (?h @ ?w)))"
      by (intro dns_skip_wire)
    then show ?thesis unfolding e [symmetric] len(2) unfolding len(1) .
  qed
  then show ?thesis using q by auto
qed

theorem dns_query_roundtrip_witness:
  "\<exists>query hlen. dns_query [97, 98, 46, 99, 0] 7 = Some (query, hlen) \<and> take hlen query =
     [0, 7, 1, 0, 0, 1, 0, 0, 0, 0, 0, 0, 2, 97, 98, 1, 99, 0, 0, 1, 0, 1] \<and> dns_skip_name query hlen 12 = Some (Some (hlen - 4))"
proof -
  have l: "dot_labels (cstr [97, 98, 46, 99, 0]) = [[97, 98], [99]]" by (simp add: cstr_def dot_labels.simps)
  show ?thesis using dns_query_roundtrip [of "[97, 98, 46, 99, 0]" 7] l by (auto simp: terminated_def cstr_def)
qed

end
