(* ===== verification/Http.thy ===== *)
theory Http
  imports Dns
begin

text \<open>
  The HTTP client of \<open>src/kernel/net/network.c\<close>: \<open>strstr_c\<close>, \<open>parse_url\<close> and \<open>http_get\<close>, on top of the resolver and TCP.
  A pointer into a string is its offset; the path that \<open>parse_url\<close> returns is the string it points to.
  What \<open>printk\<close> writes is left out.
\<close>

section \<open>Model\<close>

definition HTTP_PORT :: u16 where
  "HTTP_PORT = 80"

definition HTTP_BUF :: nat where
  "HTTP_BUF = 2048"

text \<open>How far the needle agrees with the string from \<open>h\<close> on.\<close>

function strstr_match :: "u8 list \<Rightarrow> nat \<Rightarrow> u8 list \<Rightarrow> nat \<Rightarrow> nat option" where
  "strstr_match hay h needle n =
     do { x \<leftarrow> rd hay h;
          if x = 0 then Some n
          else do { y \<leftarrow> rd needle n;
                    if y \<noteq> 0 \<and> x = y then strstr_match hay (Suc h) needle (Suc n) else Some n } }"
  by pat_completeness auto
termination
  by (relation "measure (\<lambda>(hay, h, needle, n). length hay - h)") (auto dest: rd_SomeD)

function strstr_loop :: "u8 list \<Rightarrow> nat \<Rightarrow> u8 list \<Rightarrow> nat option option" where
  "strstr_loop hay i needle =
     do { x \<leftarrow> rd hay i;
          if x = 0 then Some None
          else do { n \<leftarrow> strstr_match hay i needle 0;
                    y \<leftarrow> rd needle n;
                    if y = 0 then Some (Some i) else strstr_loop hay (Suc i) needle } }"
  by pat_completeness auto
termination
  by (relation "measure (\<lambda>(hay, i, needle). length hay - i)") (auto dest: rd_SomeD)

definition strstr_c :: "u8 list \<Rightarrow> u8 list \<Rightarrow> nat option option" where
  "strstr_c hay needle = do { y \<leftarrow> rd needle 0; if y = 0 then Some (Some 0) else strstr_loop hay 0 needle }"

text \<open>The host part of a URL, and the digits of a port; the port is accumulated in an \<open>int\<close>.\<close>

function url_host :: "u8 list \<Rightarrow> nat \<Rightarrow> nat \<Rightarrow> u8 list \<Rightarrow> nat \<Rightarrow> (nat \<times> u8 list \<times> nat) option" where
  "url_host url p host_sz hostbuf hi =
     do { c \<leftarrow> rd url p;
          if c \<noteq> 0 \<and> c \<noteq> 47 \<and> c \<noteq> 58 \<and> hi < host_sz - 1 then
            do { b \<leftarrow> wr hostbuf hi c; url_host url (Suc p) host_sz b (Suc hi) }
          else Some (p, hostbuf, hi) }"
  by pat_completeness auto
termination
  by (relation "measure (\<lambda>(url, p, host_sz, hostbuf, hi). length url - p)") (auto dest: rd_SomeD)

function url_port :: "u8 list \<Rightarrow> nat \<Rightarrow> int \<Rightarrow> (nat \<times> int) option" where
  "url_port url p prt =
     do { c \<leftarrow> rd url p;
          if 48 \<le> sint c \<and> sint c \<le> 57 then
            (if int_ok (prt * 10) \<and> int_ok (prt * 10 + (sint c - 48)) then url_port url (Suc p) (prt * 10 + (sint c - 48)) else None)
          else Some (p, prt) }"
  by pat_completeness auto
termination
  by (relation "measure (\<lambda>(url, p, prt). length url - p)") (auto dest: rd_SomeD)

definition parse_url :: "u8 list \<Rightarrow> u8 list \<Rightarrow> nat \<Rightarrow> ((u8 list \<times> u16 \<times> u8 list) option) option" where
  "parse_url url host host_sz =
     do { k \<leftarrow> strncmp url (lit ''http://'') 7;
          (p1, hb, hi) \<leftarrow> url_host url (if k = 0 then 7 else 0) host_sz (replicate 128 0) 0;
          hostbuf \<leftarrow> wr hb hi 0;
          c \<leftarrow> rd url p1;
          (p2, port) \<leftarrow> (if c = 58 then
             do { (q, prt) \<leftarrow> url_port url (Suc p1) 0;
                  Some (q, if 0 < prt \<and> prt < 65536 then word_of_int prt else HTTP_PORT) }
           else Some (p1, HTTP_PORT));
          d \<leftarrow> rd url p2;
          let path = (if d = 47 then drop p2 url else lit ''/'');
          if hi = 0 then Some None
          else do { h \<leftarrow> memcpy host 0 hostbuf 0 (Suc hi); Some (Some (h, port, path)) } }"

text \<open>\<open>snprintf\<close> at an offset into the request.\<close>

definition req_add :: "u8 list \<Rightarrow> va list \<Rightarrow> u8 list \<times> nat \<Rightarrow> (u8 list \<times> nat) option" where
  "req_add format ap st =
     (case st of (req, rlen) \<Rightarrow>
        do { (r, n) \<leftarrow> snprintf (drop rlen req) (length req - rlen) format ap; Some (take rlen req @ r, rlen + n) })"

definition CRLF :: "u8 list" where
  "CRLF = [13, 10]"

definition http_request :: "u8 list \<Rightarrow> u8 list \<Rightarrow> (u8 list \<times> nat) option" where
  "http_request path host =
     do { r1 \<leftarrow> req_add (butlast (lit ''GET %s HTTP/1.1'') @ CRLF @ [0]) [VStr path] (replicate 512 0, 0);
          r2 \<leftarrow> req_add (butlast (lit ''Host: %s'') @ CRLF @ [0]) [VStr host] r1;
          r3 \<leftarrow> req_add (butlast (lit ''Connection: close'') @ CRLF @ [0]) [] r2;
          req_add (CRLF @ [0]) [] r3 }"

text \<open>The loop that reads the response; a positive result of \<open>tcp_recv\<close> is the number of bytes it stored.\<close>

function http_read :: "u8 list \<Rightarrow> nat \<Rightarrow> net_state \<Rightarrow> (u8 list \<times> nat \<times> net_state) option" where
  "http_read resp rpos s =
     (if rpos < HTTP_BUF then
        do { (n, out, s1) \<leftarrow> tcp_recv (HTTP_BUF - rpos) 300 s;
             if n \<le> 0 then Some (resp, rpos, s1)
             else do { resp' \<leftarrow> memcpy resp rpos out 0 (nat n); http_read resp' (rpos + nat n) s1 } }
      else Some (resp, rpos, s))"
  by pat_completeness auto
termination
  by (relation "measure (\<lambda>(resp, rpos, s). HTTP_BUF - rpos)") auto

text \<open>The skip to the first space of the status line, and the status, -1 if there is none.\<close>

function skip_to_space :: "u8 list \<Rightarrow> nat \<Rightarrow> nat option" where
  "skip_to_space resp sp = do { c \<leftarrow> rd resp sp; if c \<noteq> 0 \<and> c \<noteq> 32 then skip_to_space resp (Suc sp) else Some sp }"
  by pat_completeness auto
termination
  by (relation "measure (\<lambda>(resp, sp). length resp - sp)") (auto dest: rd_SomeD)

definition http_status :: "u8 list \<Rightarrow> int option" where
  "http_status resp =
     do { k \<leftarrow> strncmp resp (lit ''HTTP/'') 5;
          if k = 0 then
            do { sp \<leftarrow> skip_to_space resp 0;
                 c \<leftarrow> rd resp sp;
                 let sp' = (if c \<noteq> 0 then Suc sp else sp);
                 d \<leftarrow> rd resp sp';
                 if 48 \<le> sint d \<and> sint d \<le> 57 then atoi resp sp' else Some (- 1) }
          else Some (- 1) }"

text \<open>The copy of the body; the subtraction \<open>rpos - (bodystart - resp)\<close> is on \<open>size_t\<close>.\<close>

definition http_body :: "u8 list \<Rightarrow> nat \<Rightarrow> u8 list \<Rightarrow> nat \<Rightarrow> u8 list option" where
  "http_body resp rpos body body_size =
     do { b \<leftarrow> strstr_c resp (CRLF @ CRLF @ [0]);
          let bodystart = (case b of None \<Rightarrow> 0 | Some i \<Rightarrow> i + 4);
          let len0 = (rpos + 4294967296 - bodystart) mod 4294967296;
          let bodylen = (if body_size < len0 then body_size else len0);
          body1 \<leftarrow> memcpy body 0 resp bodystart bodylen;
          if body_size \<noteq> 0 then wr body1 (if bodylen < body_size then bodylen else body_size - 1) 0 else Some body1 }"

definition http_reply :: "u8 list \<Rightarrow> nat \<Rightarrow> u8 list \<Rightarrow> nat \<Rightarrow> (int \<times> u8 list) option" where
  "http_reply resp0 rpos body body_size =
     do { resp \<leftarrow> wr resp0 (if rpos < HTTP_BUF then rpos else HTTP_BUF - 1) 0;
          st \<leftarrow> http_status resp;
          body' \<leftarrow> http_body resp rpos body body_size;
          Some (st, body') }"

definition http_get :: "u8 list \<Rightarrow> u8 list \<Rightarrow> nat \<Rightarrow> net_state \<Rightarrow> (int \<times> u8 list \<times> net_state) option" where
  "http_get url body body_size s =
     do { u \<leftarrow> parse_url url (replicate 128 0) 128;
          case u of
            None \<Rightarrow> Some (- 1, body, s)
          | Some (host, port, path) \<Rightarrow> do {
              (r, s1) \<leftarrow> dns_resolve host s;
              case r of
                None \<Rightarrow> Some (- 1, body, s1)
              | Some ip \<Rightarrow> do {
                  (ok, s2) \<leftarrow> tcp_connect ip port s1;
                  if ok \<noteq> 0 then Some (- 1, body, s2)
                  else do {
                    (req, rlen) \<leftarrow> http_request path host;
                    (sent, s3) \<leftarrow> tcp_send req rlen s2;
                    if sent \<noteq> 0 then do { s4 \<leftarrow> tcp_close s3; Some (- 1, body, s4) }
                    else do {
                      (resp, rpos, s4) \<leftarrow> http_read (take HTTP_BUF (stack (nic s3) @ replicate HTTP_BUF 0)) 0 s3;
                      (st, body') \<leftarrow> http_reply resp rpos body body_size;
                      s5 \<leftarrow> tcp_close s4;
                      Some (st, body', s5) } } } } }"

declare strstr_match.simps [simp del] strstr_loop.simps [simp del] url_host.simps [simp del] url_port.simps [simp del]
  http_read.simps [simp del] skip_to_space.simps [simp del]

section \<open>Searching and comparing\<close>

lemma cstr_from:
  assumes "terminated s" and "i \<le> length (cstr s)"
  shows "cstr (drop i s) = drop i (cstr s)" and "terminated (drop i s)" and "i < length s"
  using cstr_drop_suffix [OF assms] terminated_drop_index by auto

lemma strncmp_lit:
  assumes "terminated s" and "0 \<notin> set w" and "n = length w"
  shows "\<exists>k. strncmp s (w @ [0]) n = Some k \<and> (k = 0 \<longleftrightarrow> take n (cstr s) = w)"
proof -
  have "\<exists>k. strncmp_loop s (w @ [0]) (length w) i = Some k \<and> (k = 0 \<longleftrightarrow> take (length w - i) (drop i (cstr s)) = drop i w)"
    if "i \<le> length w" "i \<le> length (cstr s)" for i
    using that
  proof (induction "length w - i" arbitrary: i)
    case 0
    then show ?case by (simp add: strncmp_loop.simps)
  next
    case (Suc k)
    then have i: "i < length w" "i < length s" using cstr_from(3) [OF assms(1)] by auto
    have wi: "(w @ [0]) ! i = w ! i" "w ! i \<noteq> 0" using i assms(2) by (auto simp: nth_append dest: nth_mem)
    show ?case
    proof (cases "i = length (cstr s)")
      case True
      then have "s ! i = 0" using cstr_stop [OF assms(1)] by simp
      then show ?thesis using i wi True by (auto simp: strncmp_loop.simps [of s] rd_in uint_0_iff)
    next
      case False
      then have c: "cstr s ! i = s ! i" "s ! i \<noteq> 0" "i < length (cstr s)" using cstr_nth [of i s] Suc.prems by auto
      have t: "take (length w - i) (drop i (cstr s)) = s ! i # take (length w - Suc i) (drop (Suc i) (cstr s))"
        using c i by (simp add: Cons_nth_drop_Suc [symmetric] take_Cons')
      have d: "drop i w = w ! i # drop (Suc i) w" using i by (simp add: Cons_nth_drop_Suc)
      show ?thesis using Suc.hyps(1) [of "Suc i"] Suc.hyps(2) c i wi t d
        by (auto simp: strncmp_loop.simps [of s _ _ i] rd_in nth_append word_uint_eq_iff)
    qed
  qed
  from this [of 0] show ?thesis by (simp add: strncmp_def assms(3))
qed

lemma strstr_match_spec:
  assumes "terminated hay" and "0 \<notin> set w" and "h \<le> length (cstr hay)" and "n \<le> length w"
  shows "\<exists>m. strstr_match hay h (w @ [0]) n = Some m \<and> m \<le> length w \<and> (m = length w \<longleftrightarrow> take (length w - n) (drop h (cstr hay)) = drop n w)"
  using assms(3,4)
proof (induction "length w - n" arbitrary: h n)
  case 0
  then show ?case using cstr_from(3) [OF assms(1)] by (simp add: strstr_match.simps [of hay h] rd_in nth_append)
next
  case (Suc k)
  then have n: "n < length w" by simp
  have h: "h < length hay" using cstr_from(3) [OF assms(1) Suc.prems(1)] .
  show ?case
  proof (cases "h = length (cstr hay)")
    case True
    then have "hay ! h = 0" using cstr_stop [OF assms(1)] by simp
    then show ?thesis using h n True by (subst strstr_match.simps) (simp add: rd_in)
  next
    case False
    then have c: "cstr hay ! h = hay ! h" "hay ! h \<noteq> 0" "h < length (cstr hay)" using cstr_nth [of h hay] Suc.prems by auto
    have wn: "(w @ [0]) ! n = w ! n" "w ! n \<noteq> 0" using n assms(2) by (auto simp: nth_append dest: nth_mem)
    have t: "take (length w - n) (drop h (cstr hay)) = hay ! h # take (length w - Suc n) (drop (Suc h) (cstr hay))"
      using c n by (simp add: Cons_nth_drop_Suc [symmetric] take_Cons')
    have d: "drop n w = w ! n # drop (Suc n) w" using n by (simp add: Cons_nth_drop_Suc)
    show ?thesis
    proof (cases "hay ! h = w ! n")
      case True
      then show ?thesis using Suc.hyps(1) [of "Suc n" "Suc h"] Suc.hyps(2) c n h wn t d
        by (simp add: strstr_match.simps [of hay h] rd_in)
    next
      case False
      then show ?thesis using c n h wn t d by (simp add: strstr_match.simps [of hay h] rd_in)
    qed
  qed
qed

text \<open>The first place where a text occurs.\<close>

definition first_at :: "u8 list \<Rightarrow> u8 list \<Rightarrow> nat \<Rightarrow> bool" where
  "first_at w s i \<longleftrightarrow> take (length w) (drop i s) = w \<and> (\<forall>j < i. take (length w) (drop j s) \<noteq> w)"

lemma strstr_loop_found:
  assumes "terminated hay" and "0 \<notin> set w" and "w \<noteq> []" and "first_at w (cstr hay) i" and "j \<le> i"
  shows "strstr_loop hay j (w @ [0]) = Some (Some i)"
  using assms(5)
proof (induction "i - j" arbitrary: j)
  case 0
  then have ji: "j = i" by simp
  have "take (length w) (drop i (cstr hay)) = w" using assms(4) by (simp add: first_at_def)
  then have lt: "i < length (cstr hay)" using assms(3) by (cases "i < length (cstr hay)") auto
  obtain m where "strstr_match hay i (w @ [0]) 0 = Some m" "m = length w"
    using strstr_match_spec [OF assms(1,2), of i 0] lt assms(4) by (auto simp: first_at_def)
  then show ?case using ji lt cstr_nth [OF lt] cstr_length [OF assms(1)] by (simp add: strstr_loop.simps [of hay i] rd_in)
next
  case (Suc k)
  have "take (length w) (drop i (cstr hay)) = w" using assms(4) by (simp add: first_at_def)
  then have lt: "j < length (cstr hay)" using assms(3) Suc by (cases "i < length (cstr hay)") auto
  obtain m where m: "strstr_match hay j (w @ [0]) 0 = Some m" "m < length w"
    using strstr_match_spec [OF assms(1,2), of j 0] lt assms(4) Suc by (fastforce simp: first_at_def)
  then have "(w @ [0]) ! m \<noteq> 0" using assms(2) by (auto simp: nth_append dest: nth_mem)
  then show ?case using m lt cstr_nth [OF lt] cstr_length [OF assms(1)] Suc
    by (simp add: strstr_loop.simps [of hay j] rd_in)
qed

section \<open>Numbers\<close>

lemma atoi_digits_url_port: "atoi_digits str p n = map_option snd (url_port str p n)"
proof (induction str p n rule: url_port.induct)
  case (1 url p prt)
  then show ?case
    by (cases "rd url p") (auto simp: url_port.simps [of url p] atoi_digits.simps [of url p])
qed

lemma url_port_value:
  assumes "\<forall>d \<in> set ds. d < 10" and "0 \<le> n" and "dec_value n ds \<le> 2147483647" and "\<not> (48 \<le> sint t \<and> sint t \<le> 57)"
  shows "url_port (pre @ map digit_char ds @ t # post) (length pre) n = Some (length pre + length ds, dec_value n ds)"
  using assms(1-3)
proof (induction ds arbitrary: pre n)
  case Nil
  then show ?case using assms(4) by (subst url_port.simps) (auto simp: mem_simps)
next
  case (Cons d ds)
  let ?m = "n * 10 + int d"
  have d: "sint (digit_char d) = int d + 48" using Cons.prems(1) by (intro digit_char_value) simp
  have "?m \<le> dec_value ?m ds" using Cons.prems(2) by (intro dec_value_mono) simp
  then have ok: "int_ok (n * 10)" "int_ok ?m" using Cons.prems(2,3) by (simp_all add: int_ok_def)
  have "url_port ((pre @ [digit_char d]) @ map digit_char ds @ t # post) (length (pre @ [digit_char d])) ?m =
      Some (length (pre @ [digit_char d]) + length ds, dec_value ?m ds)"
    using Cons.prems by (intro Cons.IH) auto
  then show ?case using ok d Cons.prems(1)
    by (subst url_port.simps) (simp add: mem_simps nth_append)
qed

lemma atoi_number:
  assumes "\<forall>d \<in> set ds. d < 10" and "ds \<noteq> []" and "dec_value 0 ds \<le> 2147483647" and "\<not> (48 \<le> sint t \<and> sint t \<le> 57)"
  shows "atoi (pre @ map digit_char ds @ t # post) (length pre) = Some (dec_value 0 ds)"
proof -
  obtain d ds' where ds: "ds = d # ds'" using assms(2) by (cases ds) auto
  have c: "sint (digit_char d) = int d + 48" using assms(1) ds by (intro digit_char_value) simp
  then have "digit_char d \<noteq> 32" "digit_char d \<noteq> 9" "digit_char d \<noteq> 45" "digit_char d \<noteq> 43" by auto
  then show ?thesis using url_port_value [OF assms(1) _ assms(3,4), of pre post] ds
    by (simp add: atoi_def atoi_skip_none atoi_digits_url_port rd_in nth_append)
qed

section \<open>URLs\<close>

lemma url_host_value:
  assumes "set host \<inter> {0, 47, 58} = {}" and "hi + length host \<le> 127" and "t \<in> {0, 47, 58}" and "length hostbuf = 128"
  shows "url_host (pre @ host @ t # post) (length pre) 128 hostbuf hi = Some (length pre + length host, blit hostbuf hi host, hi + length host)"
  using assms(1,2,4)
proof (induction host arbitrary: pre hostbuf hi)
  case Nil
  then show ?case using assms(3) by (subst url_host.simps) (auto simp: rd_in)
next
  case (Cons c host)
  have "url_host ((pre @ [c]) @ host @ t # post) (length (pre @ [c])) 128 (hostbuf[hi := c]) (Suc hi) =
      Some (length (pre @ [c]) + length host, blit (hostbuf[hi := c]) (Suc hi) host, Suc hi + length host)"
    using Cons.prems by (intro Cons.IH) auto
  then show ?case using Cons.prems by (subst url_host.simps) (simp add: rd_in wr_in nth_append blit_step)
qed

definition port_part :: "nat list \<Rightarrow> u8 list" where
  "port_part ds = (if ds = [] then [] else 58 # map digit_char ds)"

text \<open>A URL without the protocol does not begin with the protocol.\<close>

lemma no_protocol:
  assumes "set host \<inter> {0, 47, 58} = {}" and "path = [] \<or> (\<exists>r. path = 47 # r)" and "\<forall>d \<in> set ds. d < 10"
  shows "take 7 (host @ port_part ds @ path) \<noteq> [104, 116, 116, 112, 58, 47, 47]"
proof
  assume e: "take 7 (host @ port_part ds @ path) = [104, 116, 116, 112, 58, 47, 47]"
  let ?s = "host @ port_part ds @ path"
  have l: "7 \<le> length ?s" using arg_cong [OF e, of length] by simp
  have n: "?s ! i = [104, 116, 116, 112, 58, 47, 47] ! i" if "i < 7" for i
    using nth_take [OF that, of ?s] unfolding e by simp
  have hn: "host ! i \<noteq> 47 \<and> host ! i \<noteq> 58" if "i < length host" for i using assms(1) nth_mem [OF that] by auto
  have "\<not> 4 < length host" using n [of 4] hn [of 4] by (auto simp: nth_append)
  moreover have "host = [] \<or> length host \<in> {1, 2, 3, 4}" using calculation by (cases "length host") auto
  moreover have "?s ! length host \<in> {58, 47}"
    using l assms(2) calculation by (auto simp: nth_append port_part_def)
  ultimately have h4: "length host = 4" using n [of "length host"] by auto
  then have "?s ! 4 = (port_part ds @ path) ! 0" "?s ! 5 = (port_part ds @ path) ! 1" by (simp_all add: nth_append)
  then have p: "(port_part ds @ path) ! 0 = 58" "(port_part ds @ path) ! 1 = 47" using n [of 4] n [of 5] by simp_all
  show False
  proof (cases ds)
    case Nil
    then show ?thesis using l h4 p(1) assms(2) by (auto simp: port_part_def)
  next
    case (Cons d ds')
    then show ?thesis using p(2) digit_char_value [of d] assms(3) by (auto simp: port_part_def)
  qed
qed

lemma lit_http: "lit ''http://'' = [104, 116, 116, 112, 58, 47, 47] @ [0]" "lit ''HTTP/'' = [72, 84, 84, 80, 47] @ [0]" "lit ''/'' = [47] @ [0]"
  by (simp_all add: lit_def)

text \<open>The port and the path.\<close>

definition url_value :: "nat list \<Rightarrow> u16" where
  "url_value ds = (if 0 < dec_value 0 ds \<and> dec_value 0 ds < 65536 then word_of_int (dec_value 0 ds) else HTTP_PORT)"

lemma url_tail:
  assumes "path = [] \<or> (\<exists>r. path = 47 # r)" and "\<forall>d \<in> set ds. d < 10" and "dec_value 0 ds \<le> 2147483647"
    and "url = pre @ port_part ds @ path @ 0 # junk" and "p = length pre"
  shows "\<exists>c d. rd url p = Some c \<and> (if c = 58 then
             do { (q, prt) \<leftarrow> url_port url (Suc p) 0; Some (q, if 0 < prt \<and> prt < 65536 then word_of_int prt else HTTP_PORT) }
           else Some (p, HTTP_PORT)) = Some (p + length (port_part ds), url_value ds) \<and> rd url (p + length (port_part ds)) = Some d \<and>
     cstr (if d = 47 then drop (p + length (port_part ds)) url else lit ''/'') = cstr (if path = [] then [47, 0] else path @ 0 # junk)"
proof -
  obtain t post where t: "path @ 0 # junk = t # post" "\<not> (48 \<le> sint t \<and> sint t \<le> 57)" "t \<noteq> 58" "t = 47 \<longleftrightarrow> path \<noteq> []"
    using assms(1) by (cases path) auto
  have d: "rd url (p + length (port_part ds)) = Some t" unfolding assms(4,5) t(1) by (simp add: rd_def nth_append)
  have path: "cstr (if t = 47 then drop (p + length (port_part ds)) url else lit ''/'') = cstr (if path = [] then [47, 0] else path @ 0 # junk)"
    unfolding assms(4,5) using t(1,4) by (simp add: lit_def cstr_def)
  show ?thesis
  proof (cases "ds = []")
    case True
    then show ?thesis using d path t(3) by (auto simp: port_part_def url_value_def)
  next
    case False
    have "url = (pre @ [58]) @ map digit_char ds @ t # post" unfolding assms(4) t(1) using False by (simp add: port_part_def)
    then have "url_port url (Suc p) 0 = Some (Suc p + length ds, dec_value 0 ds)"
      using url_port_value [OF assms(2) _ assms(3) t(2), of "pre @ [58]" post] assms(5) by simp
    moreover have "rd url p = Some 58" unfolding assms(4,5) using False by (simp add: rd_def port_part_def nth_append)
    ultimately show ?thesis using d path False by (auto simp: port_part_def url_value_def)
  qed
qed

lemma parse_url_at:
  assumes "set host \<inter> {0, 47, 58} = {}" and "0 < length host" and "length host \<le> 127" and "path = [] \<or> (\<exists>r. path = 47 # r)"
    and "\<forall>d \<in> set ds. d < 10" and "dec_value 0 ds \<le> 2147483647" and "url = proto @ host @ port_part ds @ path @ 0 # junk"
    and "strncmp url (lit ''http://'') 7 = Some k" and "length proto = (if k = 0 then 7 else 0)" and "length hostb = 128"
  shows "\<exists>pth. parse_url url hostb 128 = Some (Some (blit hostb 0 (host @ [0]), url_value ds, pth)) \<and>
    cstr pth = cstr (if path = [] then [47, 0] else path @ 0 # junk)"
proof -
  obtain t post where t: "port_part ds @ path @ 0 # junk = t # post" "t \<in> {0, 47, 58}"
    using assms(4) by (cases "port_part ds @ path") (auto simp: port_part_def split: if_splits)
  let ?p = "length proto + length host"
  have h: "url_host url (if k = 0 then 7 else 0) 128 (replicate 128 0) 0 = Some (?p, blit (replicate 128 0) 0 host, length host)"
    using url_host_value [of host 0 t "replicate 128 0" proto post] assms(1,3,7) t unfolding assms(9) [symmetric] by simp
  from url_tail [of path ds url "proto @ host" junk ?p] obtain c d where c: "rd url ?p = Some c"
    "(if c = 58 then do { (q, prt) \<leftarrow> url_port url (Suc ?p) 0; Some (q, if 0 < prt \<and> prt < 65536 then word_of_int prt else HTTP_PORT) }
      else Some (?p, HTTP_PORT)) = Some (?p + length (port_part ds), url_value ds)"
    "rd url (?p + length (port_part ds)) = Some d"
    "cstr (if d = 47 then drop (?p + length (port_part ds)) url else lit ''/'') = cstr (if path = [] then [47, 0] else path @ 0 # junk)"
    using assms(4-7) by auto
  have w: "wr (blit (replicate 128 0) 0 host) (length host) 0 = Some (blit (replicate 128 0) 0 (host @ [0]))"
    using blit_snoc [of 0 host "replicate 128 0" 0] assms(3) by (simp add: wr_def length_blit)
  have m: "memcpy hostb 0 (blit (replicate 128 0) 0 (host @ [0])) 0 (Suc (length host)) = Some (blit hostb 0 (host @ [0]))"
    using assms(3,10) by (simp add: memcpy_blit length_blit) (simp add: blit_def)
  show ?thesis
    unfolding parse_url_def assms(8) bind.simps h prod.case w c(1,2,3) Let_def using assms(2) m c(4) by simp
qed

section \<open>Responses\<close>

lemma skip_to_space_value:
  assumes "0 \<notin> set w" and "32 \<notin> set w"
  shows "skip_to_space (pre @ w @ 32 # post) (length pre) = Some (length pre + length w)"
  using assms
proof (induction w arbitrary: pre)
  case Nil
  then show ?case by (subst skip_to_space.simps) (simp add: rd_in)
next
  case (Cons c w)
  then show ?case using Cons.IH [of "pre @ [c]"] by (subst skip_to_space.simps) (auto simp: rd_in nth_append)
qed

lemma http_status_value:
  assumes "0 \<notin> set ver" and "32 \<notin> set ver" and "\<forall>d \<in> set ds. d < 10" and "ds \<noteq> []" and "dec_value 0 ds \<le> 2147483647"
    and "\<not> (48 \<le> sint t \<and> sint t \<le> 57)" and "resp = [72, 84, 84, 80, 47] @ ver @ 32 # map digit_char ds @ t # post" and "terminated resp"
  shows "http_status resp = Some (dec_value 0 ds)"
proof -
  let ?h = "[72, 84, 84, 80, 47] :: u8 list"
  have d: "sint (digit_char (hd ds)) = int (hd ds) + 48" "hd ds < 10" using assms(3,4) digit_char_value [of "hd ds"] by simp_all
  have c: "take 5 (cstr resp) = ?h" unfolding assms(7) by (simp add: cstr_def)
  obtain k where k: "strncmp resp (?h @ [0]) 5 = Some k" "k = 0" using strncmp_lit [OF assms(8), of ?h 5] c by auto
  have "skip_to_space ([] @ (?h @ ver) @ 32 # map digit_char ds @ t # post) (length ([] :: u8 list)) = Some (length ([] :: u8 list) + length (?h @ ver))"
    using assms(1,2) by (intro skip_to_space_value) auto
  then have sp: "skip_to_space resp 0 = Some (5 + length ver)" unfolding assms(7) by (simp add: add.commute)
  have r: "rd resp (5 + length ver) = Some 32" "rd resp (Suc (5 + length ver)) = Some (digit_char (hd ds))"
    unfolding assms(7) using assms(4) by (auto simp: rd_def nth_append nth_Cons' hd_conv_nth)
  have "length (?h @ ver @ [32]) = Suc (5 + length ver)" "resp = (?h @ ver @ [32]) @ map digit_char ds @ t # post" using assms(7) by simp_all
  then have "atoi resp (Suc (5 + length ver)) = Some (dec_value 0 ds)" using atoi_number [OF assms(3-6), of "?h @ ver @ [32]" post] by metis
  then show ?thesis using k sp r d by (simp add: http_status_def lit_http)
qed

lemma first_at_less: "first_at w s i \<Longrightarrow> w \<noteq> [] \<Longrightarrow> i + length w \<le> length s"
proof -
  assume "first_at w s i" "w \<noteq> []"
  then have t: "take (length w) (drop i s) = w" by (simp add: first_at_def)
  then have "length w \<le> length s - i" by (metis length_drop length_take min.cobounded1)
  moreover have "0 < length w" using \<open>w \<noteq> []\<close> by simp
  ultimately show ?thesis by linarith
qed

lemma http_body_value:
  assumes "terminated resp" and "first_at [13, 10, 13, 10] (cstr resp) i" and "rpos \<le> length resp" and "length resp = 2048"
    and "i + 4 \<le> rpos" and "0 < body_size" and "body_size \<le> length body"
  shows "http_body resp rpos body body_size = Some (blit body 0 (take (body_size - 1) (drop (i + 4) (take rpos resp)) @ [0]))"
proof -
  let ?n = "rpos - (i + 4)" and ?c = "drop (i + 4) (take rpos resp)"
  let ?m = "min ?n body_size"
  have s: "strstr_c resp (CRLF @ CRLF @ [0]) = Some (Some i)"
    using strstr_loop_found [OF assms(1), of "[13, 10, 13, 10]" i 0] assms(2) by (simp add: strstr_c_def CRLF_def rd_def)
  have l: "(rpos + 4294967296 - (i + 4)) mod 4294967296 = ?n"
  proof -
    have "rpos + 4294967296 - (i + 4) = ?n + 4294967296" using assms(5) by simp
    then show ?thesis using assms(3,4) by (simp only: mod_add_self2) simp
  qed
  have b: "(if body_size < ?n then body_size else ?n) = ?m" by simp
  have lc: "length ?c = ?n" using assms(3) by simp
  have t: "take ?m (drop (i + 4) resp) = take ?m ?c" by (simp add: drop_take)
  have m: "memcpy body 0 resp (i + 4) ?m = Some (blit body 0 (take ?m ?c))"
    using assms(3,5,7) lc t by (subst memcpy_blit) auto
  have "wr (blit body 0 (take ?m ?c)) (if ?m < body_size then ?m else body_size - 1) 0 = Some (blit body 0 (take (body_size - 1) ?c @ [0]))"
  proof (cases "?m < body_size")
    case True
    then have nb: "?n < body_size" by (simp add: min_less_iff_disj)
    then have "?m = ?n" "take ?m ?c = ?c" "take (body_size - 1) ?c = ?c" using lc by auto
    then show ?thesis using nb lc assms(7) blit_snoc [of 0 ?c body 0] by (simp add: wr_def length_blit)
  next
    case False
    then have mm: "?m = body_size" "body_size \<le> length ?c" using assms(3,5) by auto
    have "take body_size ?c = take (body_size - 1) ?c @ [?c ! (body_size - 1)]"
      using take_Suc_snoc [of "body_size - 1" ?c] mm(2) assms(6) by simp
    then have "blit body 0 (take body_size ?c) = take (body_size - 1) ?c @ ?c ! (body_size - 1) # drop body_size body"
      using mm(2) assms(6) by (simp add: blit_def)
    moreover have "length (take (body_size - 1) ?c) = body_size - 1" using mm(2) by simp
    ultimately have "(blit body 0 (take body_size ?c))[body_size - 1 := 0] = take (body_size - 1) ?c @ 0 # drop body_size body"
      using update_after_prefix by metis
    then show ?thesis using mm assms(6,7) by (simp add: wr_def length_blit) (simp add: blit_def)
  qed
  then show ?thesis
    unfolding http_body_def s bind.simps option.case l b m Let_def using assms(6) by simp
qed

section \<open>Properties\<close>

text \<open>
  C37: a URL is taken apart as documented.  For \<open>http://host:port/path\<close> with the protocol, the port and the path optional, a host of
  1 to 127 characters and a port that fits an \<open>int\<close>, \<open>parse_url\<close> stores the host, returns the port (80 when it is missing or out of range)
  and the path (\<open>/\<close> when it is missing).
\<close>

theorem parse_url_correct:
  assumes "set host \<inter> {0, 47, 58} = {}" and "0 < length host" and "length host \<le> 127" and "path = [] \<or> (\<exists>r. path = 47 # r)" and "0 \<notin> set path"
    and "\<forall>d \<in> set ds. d < 10" and "dec_value 0 ds \<le> 2147483647" and "proto = [] \<or> proto = [104, 116, 116, 112, 58, 47, 47]"
    and "url = proto @ host @ port_part ds @ path @ 0 # junk" and "length hostb = 128"
  shows "\<exists>h pth. parse_url url hostb 128 = Some (Some (h, url_value ds, pth)) \<and> cstr h = host \<and> cstr pth = (if path = [] then [47] else path)"
proof -
  let ?http = "[104, 116, 116, 112, 58, 47, 47] :: u8 list"
  have "0 \<notin> digit_char ` set ds" using assms(6) digit_char_nonzero by (metis imageE)
  then have nz: "0 \<notin> set (proto @ host @ port_part ds @ path)" using assms(1,5,8) by (auto simp: port_part_def)
  have u: "url = (proto @ host @ port_part ds @ path) @ 0 # junk" using assms(9) by simp
  have c: "cstr url = proto @ host @ port_part ds @ path" "terminated url"
    unfolding u by (rule cstr_append_zero [OF nz], rule terminated_append_zero)
  obtain k where k: "strncmp url (lit ''http://'') 7 = Some k" "k = 0 \<longleftrightarrow> take 7 (cstr url) = ?http"
    unfolding lit_http using strncmp_lit [OF c(2), of ?http 7] by auto
  have "take 7 (cstr url) = ?http \<longleftrightarrow> proto \<noteq> []"
    using assms(8) no_protocol [OF assms(1,4,6)] c(1) by auto
  then have "length proto = (if k = 0 then 7 else 0)" using assms(8) k(2) by auto
  then obtain pth where p: "parse_url url hostb 128 = Some (Some (blit hostb 0 (host @ [0]), url_value ds, pth))"
    "cstr pth = cstr (if path = [] then [47, 0] else path @ 0 # junk)"
    using parse_url_at [OF assms(1-4,6,7,9) k(1) _ assms(10)] by blast
  have "0 \<notin> set host" using assms(1) by auto
  then have "cstr (blit hostb 0 (host @ [0])) = host" by (simp add: blit_def)
  moreover have "cstr [47, 0] = [47]" by (simp add: cstr_def)
  then have "cstr pth = (if path = [] then [47] else path)" using p(2) assms(5) by simp
  ultimately show ?thesis using p(1) by blast
qed

text \<open>The witness: \<open>http://a:81/x\<close>.\<close>

theorem parse_url_correct_witness:
  "\<exists>h pth. parse_url [104, 116, 116, 112, 58, 47, 47, 97, 58, 56, 49, 47, 120, 0] (replicate 128 0) 128 = Some (Some (h, 81, pth)) \<and>
     cstr h = [97] \<and> cstr pth = [47, 120]"
  using parse_url_correct [of "[97]" "[47, 120]" "[8, 1]" "[104, 116, 116, 112, 58, 47, 47]" _ "[]" "replicate 128 0", OF _ _ _ _ _ _ _ _ refl]
  by (simp add: port_part_def url_value_def digit_char_def)

text \<open>
  C38: a response is split as it should be.  When the bytes received fit the buffer and are a status line, more header
  fields, the empty line and the content, \<open>http_reply\<close> returns the status and stores the content, cut to the size of the
  caller's buffer and terminated.
\<close>

theorem http_reply_correct:
  assumes "length resp = 2048" and "rpos < 2048" and "take rpos resp = hdr @ [13, 10, 13, 10] @ content"
    and "hdr = [72, 84, 84, 80, 47] @ ver @ 32 # map digit_char ds @ flds" and "0 \<notin> set hdr" and "32 \<notin> set ver"
    and "first_at [13, 10, 13, 10] (hdr @ [13, 10, 13, 10]) (length hdr)"
    and "\<forall>d \<in> set ds. d < 10" and "ds \<noteq> []" and "dec_value 0 ds \<le> 2147483647" and "flds = [] \<or> \<not> (48 \<le> sint (hd flds) \<and> sint (hd flds) \<le> 57)"
    and "0 < body_size" and "body_size \<le> length body"
  shows "http_reply resp rpos body body_size = Some (dec_value 0 ds, blit body 0 (take (body_size - 1) content @ [0]))"
proof -
  let ?r = "resp[rpos := 0]" and ?e = "[13, 10, 13, 10] :: u8 list"
  have rl: "rpos = length (hdr @ ?e @ content)" using arg_cong [OF assms(3), of length] assms(1,2) by simp
  have "?r = take rpos resp @ 0 # drop (Suc rpos) resp" using assms(1,2) by (simp add: upd_conv_take_nth_drop)
  then have r: "?r = hdr @ ?e @ content @ 0 # drop (Suc rpos) resp" using assms(3) by simp
  have t: "terminated ?r" unfolding r by (simp add: terminated_def)
  obtain t post where flds: "flds @ ?e @ content @ 0 # drop (Suc rpos) resp = t # post" "\<not> (48 \<le> sint t \<and> sint t \<le> 57)"
    using assms(11) by (cases flds) auto
  have st: "http_status ?r = Some (dec_value 0 ds)"
    using assms(4,5,6,8-10) flds t r by (intro http_status_value [of ver ds t ?r post]) auto
  let ?c = "takeWhile (\<lambda>x. x \<noteq> 0) content"
  have "cstr ?r = (hdr @ ?e) @ cstr (content @ 0 # drop (Suc rpos) resp)"
    unfolding r cstr_def using assms(5) by (subst append_assoc [symmetric], subst takeWhile_append2) auto
  then have "first_at ?e (cstr ?r) (length hdr)"
    using assms(7) by (auto simp: first_at_def take_Cons' split: if_splits)
  moreover have "rpos \<le> length ?r" "length ?r = 2048" "length hdr + 4 \<le> rpos" using assms(1,2) rl by simp_all
  ultimately have "http_body ?r rpos body body_size = Some (blit body 0 (take (body_size - 1) (drop (length hdr + 4) (take rpos ?r)) @ [0]))"
    using http_body_value [OF t] assms(12,13) by blast
  moreover have "drop (length hdr + 4) (take rpos ?r) = content" using assms(3) by simp
  ultimately show ?thesis using st assms(1,2) by (simp add: http_reply_def wr_in HTTP_BUF_def)
qed

text \<open>The witness: status 404 and the content \<open>no\<close>.\<close>

theorem http_reply_correct_witness:
  "http_reply ([72, 84, 84, 80, 47, 49, 32, 52, 48, 52, 13, 10, 13, 10, 110, 111] @ replicate 2032 7) 16 (replicate 8 1) 8 =
     Some (404, [110, 111, 0, 1, 1, 1, 1, 1])"
proof -
  have d: "map digit_char [4, 0, 4] = [52, 48, 52]" by (simp add: digit_char_def)
  have n: "length [72, 84, 84, 80, 47, 49, 32, 52, 48, 52 :: u8] = 10" by simp
  have f: "first_at [13, 10, 13, 10] ([72, 84, 84, 80, 47, 49, 32, 52, 48, 52] @ [13, 10, 13, 10]) 10"
  proof -
    have "list_all (\<lambda>j. take (length [13, 10, 13, 10 :: u8]) (drop j ([72, 84, 84, 80, 47, 49, 32, 52, 48, 52] @ [13, 10, 13, 10 :: u8])) \<noteq> [13, 10, 13, 10]) [0..<10]" by code_simp
    then show ?thesis by (simp add: first_at_def list_all_iff)
  qed
  have "http_reply ([72, 84, 84, 80, 47, 49, 32, 52, 48, 52, 13, 10, 13, 10, 110, 111] @ replicate 2032 7) 16 (replicate 8 1) 8 =
     Some (dec_value 0 [4, 0, 4], blit (replicate 8 1) 0 (take (8 - 1) [110, 111] @ [0]))"
    by (rule http_reply_correct [of _ _ "[72, 84, 84, 80, 47, 49, 32, 52, 48, 52]" _ "[49]" "[4, 0, 4]" "[]"])
      (use d f [folded n] in simp_all)
  then show ?thesis by (simp add: blit_def numeral_eq_Suc)
qed

end
