(* ===== verification/Ata.thy ===== *)
theory Ata
  imports Kstring
begin

text \<open>
  Disks: the sector transfers of \<open>src/kernel/dev/ata.c\<close>, and the little-endian fields of on-disk structures.

  \<^item> A device has its content, flat, and a set of sectors at which the drive reports an error (\<open>ata_wait\<close> fails); it also
    reports one for a sector it does not have.  The registers that select a sector are modelled, with the sector the
    drive takes from them; the busy waits and the transfer word by word through the data port are not.
  \<^item> Unsigned 32-bit values are natural numbers; \<open>wrap32\<close> is written where an addition or a product can wrap.
  \<^item> A C structure read from disk is its bytes, with an accessor and an update per field.
\<close>

section \<open>Numbers in memory\<close>

definition wrap32 :: "nat \<Rightarrow> nat" where
  "wrap32 n = n mod 4294967296"

fun le_val :: "u8 list \<Rightarrow> nat" where
  "le_val [] = 0"
| "le_val (x # xs) = unat x + 256 * le_val xs"

fun le_bytes :: "nat \<Rightarrow> nat \<Rightarrow> u8 list" where
  "le_bytes 0 v = []"
| "le_bytes (Suc n) v = of_nat v # le_bytes n (v div 256)"

text \<open>The field of \<open>n\<close> bytes at an offset.\<close>

definition fld :: "nat \<Rightarrow> u8 list \<Rightarrow> nat \<Rightarrow> nat" where
  "fld n b p = le_val (take n (drop p b))"

definition set_fld :: "nat \<Rightarrow> u8 list \<Rightarrow> nat \<Rightarrow> nat \<Rightarrow> u8 list" where
  "set_fld n b p v = blit b p (le_bytes n v)"

text \<open>The same with the bounds of the object checked.\<close>

definition rd_fld :: "nat \<Rightarrow> u8 list \<Rightarrow> nat \<Rightarrow> nat option" where
  "rd_fld n b p = (if p + n \<le> length b then Some (fld n b p) else None)"

definition wr_fld :: "nat \<Rightarrow> u8 list \<Rightarrow> nat \<Rightarrow> nat \<Rightarrow> u8 list option" where
  "wr_fld n b p v = (if p + n \<le> length b then Some (set_fld n b p v) else None)"

section \<open>Devices\<close>

definition ATA_SECTOR_SIZE :: nat where
  "ATA_SECTOR_SIZE = 512"

record ata_device_t =
  present :: bool
  capacity_sectors :: nat
  media :: "u8 list"
  faulty :: "nat \<Rightarrow> bool"

definition ata_get_index :: "nat \<Rightarrow> nat option" where
  "ata_get_index drive = (if 4 \<le> drive then None else Some drive)"

text \<open>
  The registers that name a sector, written before a command, and the sector the drive takes from them.  The bit of the
  drive on its channel is 0 for the master.
\<close>

record ata_regs =
  drive_head :: u8
  seccount :: u8
  lba_lo :: u8
  lba_mid :: u8
  lba_hi :: u8

definition ata_select :: "u8 \<Rightarrow> u32 \<Rightarrow> ata_regs" where
  "ata_select drv lba =
     \<lparr>drive_head = ucast (0xE0 OR push_bit 4 (ucast drv) OR (drop_bit 24 lba AND 0x0F)), seccount = 1,
      lba_lo = ucast (lba AND 0xFF), lba_mid = ucast (drop_bit 8 lba AND 0xFF), lba_hi = ucast (drop_bit 16 lba AND 0xFF)\<rparr>"

definition selected_lba :: "ata_regs \<Rightarrow> nat" where
  "selected_lba r = unat (lba_lo r) + 256 * unat (lba_mid r) + 65536 * unat (lba_hi r) + 16777216 * (unat (drive_head r) mod 16)"

definition lba28 :: "nat \<Rightarrow> nat" where
  "lba28 lba = selected_lba (ata_select 0 (of_nat lba))"

definition drive_error :: "ata_device_t \<Rightarrow> nat \<Rightarrow> bool" where
  "drive_error dev lba \<longleftrightarrow> faulty dev (lba28 lba) \<or> length (media dev) < ATA_SECTOR_SIZE * (lba28 lba + 1)"

text \<open>One sector into the buffer at \<open>off\<close>; the flag says whether the transfer succeeded.\<close>

definition ata_read_sector_lba28 :: "ata_device_t \<Rightarrow> nat \<Rightarrow> u8 list \<Rightarrow> nat \<Rightarrow> (bool \<times> u8 list) option" where
  "ata_read_sector_lba28 dev lba buf off =
     (if drive_error dev lba then Some (False, buf)
      else do { b \<leftarrow> memcpy buf off (media dev) (ATA_SECTOR_SIZE * lba28 lba) ATA_SECTOR_SIZE; Some (True, b) })"

definition ata_write_sector_lba28 :: "ata_device_t \<Rightarrow> nat \<Rightarrow> u8 list \<Rightarrow> nat \<Rightarrow> (bool \<times> ata_device_t) option" where
  "ata_write_sector_lba28 dev lba buf off =
     (if drive_error dev lba then Some (False, dev)
      else do { m \<leftarrow> memcpy (media dev) (ATA_SECTOR_SIZE * lba28 lba) buf off ATA_SECTOR_SIZE; Some (True, dev\<lparr>media := m\<rparr>) })"

fun ata_read_loop :: "ata_device_t \<Rightarrow> nat \<Rightarrow> nat \<Rightarrow> u8 list \<Rightarrow> nat \<Rightarrow> (bool \<times> u8 list) option" where
  "ata_read_loop dev lba 0 buf off = Some (True, buf)"
| "ata_read_loop dev lba (Suc n) buf off =
     do { (ok, b) \<leftarrow> ata_read_sector_lba28 dev lba buf off;
          if \<not> ok then Some (False, b) else ata_read_loop dev (wrap32 (lba + 1)) n b (off + ATA_SECTOR_SIZE) }"

fun ata_write_loop :: "ata_device_t \<Rightarrow> nat \<Rightarrow> nat \<Rightarrow> u8 list \<Rightarrow> nat \<Rightarrow> (bool \<times> ata_device_t) option" where
  "ata_write_loop dev lba 0 buf off = Some (True, dev)"
| "ata_write_loop dev lba (Suc n) buf off =
     do { (ok, d) \<leftarrow> ata_write_sector_lba28 dev lba buf off;
          if \<not> ok then Some (False, d) else ata_write_loop d (wrap32 (lba + 1)) n buf (off + ATA_SECTOR_SIZE) }"

definition ata_read_sectors :: "ata_device_t list \<Rightarrow> nat \<Rightarrow> nat \<Rightarrow> nat \<Rightarrow> u8 list \<Rightarrow> nat \<Rightarrow> (bool \<times> u8 list) option" where
  "ata_read_sectors devs drive lba count buf off =
     (case ata_get_index drive of
        None \<Rightarrow> Some (False, buf)
      | Some idx \<Rightarrow> do {
          dev \<leftarrow> rd devs idx;
          if \<not> present dev \<or> capacity_sectors dev < wrap32 (lba + count) then Some (False, buf)
          else ata_read_loop dev lba count buf off })"

definition ata_write_sectors :: "ata_device_t list \<Rightarrow> nat \<Rightarrow> nat \<Rightarrow> nat \<Rightarrow> u8 list \<Rightarrow> nat \<Rightarrow> (bool \<times> ata_device_t list) option" where
  "ata_write_sectors devs drive lba count buf off =
     (case ata_get_index drive of
        None \<Rightarrow> Some (False, devs)
      | Some idx \<Rightarrow> do {
          dev \<leftarrow> rd devs idx;
          if \<not> present dev \<or> capacity_sectors dev < wrap32 (lba + count) then Some (False, devs)
          else do { (ok, d) \<leftarrow> ata_write_loop dev lba count buf off; Some (ok, devs[idx := d]) } })"

section \<open>Fields\<close>

lemma length_le_bytes [simp]: "length (le_bytes n v) = n"
  by (induction n arbitrary: v) simp_all

lemma le_val_bytes: "le_val (le_bytes n v) = v mod 256 ^ n"
proof (induction n arbitrary: v)
  case (Suc n)
  have "unat (of_nat v :: u8) = v mod 256" by (simp add: unat_of_nat)
  then show ?case using Suc by (simp add: mod_mult2_eq)
qed simp

lemma le_val_less: "le_val xs < 256 ^ length xs"
proof (induction xs)
  case (Cons x xs)
  then have "le_val xs \<le> 256 ^ length xs - 1" by simp
  then have "256 * le_val xs \<le> 256 * (256 ^ length xs - 1)" by (rule mult_le_mono2)
  then show ?case using unat_less_256 [of x] Cons by (simp add: right_diff_distrib')
qed simp

lemma length_set_fld [simp]: "p + n \<le> length b \<Longrightarrow> length (set_fld n b p v) = length b"
  by (simp add: set_fld_def length_blit)

lemma fld_set_same: "p + n \<le> length b \<Longrightarrow> fld n (set_fld n b p v) p = v mod 256 ^ n"
  by (simp add: fld_def set_fld_def blit_def le_val_bytes)

lemma fld_set_other:
  assumes "p + n \<le> length b" and "q + m \<le> p \<or> p + n \<le> q"
  shows "fld m (set_fld n b p v) q = fld m b q"
proof -
  have "take m (drop q (blit b p (le_bytes n v))) = take m (drop q b)"
    using assms by (intro nth_equalityI) (auto simp: nth_blit length_blit)
  then show ?thesis by (simp add: fld_def set_fld_def)
qed

lemma fld_less: "fld n b p < 256 ^ n"
proof -
  have "le_val (take n (drop p b)) < 256 ^ length (take n (drop p b))" by (rule le_val_less)
  also have "\<dots> \<le> 256 ^ n" by (rule power_increasing) simp_all
  finally show ?thesis by (simp add: fld_def)
qed

section \<open>Transfers on a healthy drive\<close>

definition healthy :: "ata_device_t \<Rightarrow> bool" where
  "healthy dev \<longleftrightarrow> present dev \<and> length (media dev) = 512 * capacity_sectors dev \<and> capacity_sectors dev < 268435456 \<and> (\<forall>i. \<not> faulty dev i)"

lemma byte_digits:
  "n mod 256 + 256 * (n div 256 mod 256) + 65536 * (n div 65536 mod 256) + 16777216 * (n div 16777216 mod 16) = (n :: nat) mod 268435456"
  using mod_mult2_eq [of n 256 1048576] mod_mult2_eq [of "n div 256" 256 4096] mod_mult2_eq [of "n div 65536" 256 16]
  by (simp add: div_mult2_eq [symmetric])

lemma selected_lba_select:
  assumes "drv = 0 \<or> drv = 1"
  shows "selected_lba (ata_select drv lba) = unat lba mod 268435456"
proof -
  have byte: "unat (ucast (x AND 0xFF) :: u8) = unat x mod 256" for x :: u32
    using unat_mask [of x 8] by (simp add: mask_numeral unsigned_ucast_eq take_bit_eq_mod)
  define y where "y = drop_bit 24 lba AND 0x0F"
  define h where "h = (0xE0 OR push_bit 4 (ucast drv) :: u32)"
  have y: "unat y = unat lba div 16777216 mod 16" using unat_mask [of "drop_bit 24 lba" 4] by (simp add: y_def mask_numeral unat_drop)
  have h: "h = 0xE0 \<or> h = 0xF0" using assms by (auto simp: h_def)
  have "h AND y = drop_bit 24 lba AND (h AND 0x0F)" by (simp add: y_def and.left_commute)
  then have "h AND y = 0" using h by auto
  then have "unat (h OR y) = unat h + unat y" by (rule unat_or_disjoint)
  moreover have "unat h = 224 \<or> unat h = 240" using h by auto
  ultimately have hy: "unat (h OR y) = 224 + unat y \<or> unat (h OR y) = 240 + unat y" by auto
  have "unat y < 16" using y by simp
  then have "unat (ucast (h OR y) :: u8) mod 16 = unat y"
    using hy mod_mult_self3 [of 14 16 "unat y"] mod_mult_self3 [of 15 16 "unat y"] by (auto simp: unsigned_ucast_eq take_bit_eq_mod)
  then have "unat (ucast (h OR y) :: u8) mod 16 = unat lba div 16777216 mod 16" using y by simp
  then have "unat (drive_head (ata_select drv lba)) mod 16 = unat lba div 16777216 mod 16"
    by (simp add: ata_select_def h_def y_def or.assoc)
  moreover have "unat lba mod 256 + 256 * (unat lba div 256 mod 256) + 65536 * (unat lba div 65536 mod 256) +
      16777216 * (unat lba div 16777216 mod 16) = unat lba mod 268435456"
    by (rule byte_digits)
  ultimately show ?thesis by (simp add: selected_lba_def ata_select_def byte unat_drop)
qed

lemma lba28_mod: "lba < 4294967296 \<Longrightarrow> lba28 lba = lba mod 268435456"
  by (simp add: lba28_def selected_lba_select unat_simps)

lemma sector_ok: "healthy dev \<Longrightarrow> lba < capacity_sectors dev \<Longrightarrow> \<not> drive_error dev lba \<and> lba28 lba = lba"
  by (simp add: healthy_def drive_error_def lba28_mod ATA_SECTOR_SIZE_def)

lemma ata_read_loop_blit:
  assumes "healthy dev" and "lba + n \<le> capacity_sectors dev" and "off + 512 * n \<le> length buf"
  shows "ata_read_loop dev lba n buf off = Some (True, blit buf off (take (512 * n) (drop (512 * lba) (media dev))))"
  using assms(2,3)
proof (induction n arbitrary: lba buf off)
  case (Suc n)
  let ?m = "media dev" and ?s = "take 512 (drop (512 * lba) (media dev))"
  have l: "lba < capacity_sectors dev" "lba < 4294967295" "512 * (lba + 1) \<le> length ?m" using Suc.prems(1) assms(1) by (auto simp: healthy_def)
  have ls: "length ?s = 512" using l(3) by simp
  have m: "memcpy buf off ?m (512 * lba) 512 = Some (blit buf off ?s)" using l(3) Suc.prems(2) by (subst memcpy_blit) auto
  have "ata_read_loop dev (lba + 1) n (blit buf off ?s) (off + 512) =
      Some (True, blit (blit buf off ?s) (off + length ?s) (take (512 * n) (drop (512 * (lba + 1)) ?m)))"
    using Suc.prems ls by (subst Suc.IH) (simp_all add: length_blit)
  moreover have "512 * n \<le> length (drop (512 * (lba + 1)) ?m)" using Suc.prems(1) assms(1) by (auto simp: healthy_def)
  then have "blit (blit buf off ?s) (off + length ?s) (take (512 * n) (drop (512 * (lba + 1)) ?m)) =
      blit buf off (?s @ take (512 * n) (drop (512 * (lba + 1)) ?m))"
    using Suc.prems(2) ls by (subst blit_append) auto
  moreover have "?s @ take (512 * n) (drop (512 * (lba + 1)) ?m) = take (512 * Suc n) (drop (512 * lba) ?m)"
    using take_add [of 512 "512 * n" "drop (512 * lba) ?m"] by (simp add: add.commute)
  ultimately show ?case using sector_ok [OF assms(1) l(1)] m l(2)
    by (simp add: ata_read_sector_lba28_def ATA_SECTOR_SIZE_def wrap32_def)
qed simp

lemma healthy_media: "healthy dev \<Longrightarrow> length m = length (media dev) \<Longrightarrow> healthy (dev\<lparr>media := m\<rparr>)"
  by (simp add: healthy_def)

lemma ata_write_loop_blit:
  assumes "healthy dev" and "lba + n \<le> capacity_sectors dev" and "off + 512 * n \<le> length buf"
  shows "ata_write_loop dev lba n buf off = Some (True, dev\<lparr>media := blit (media dev) (512 * lba) (take (512 * n) (drop off buf))\<rparr>)"
  using assms
proof (induction n arbitrary: dev lba off)
  case (Suc n)
  let ?m = "media dev" and ?s = "take 512 (drop off buf)"
  have l: "lba < capacity_sectors dev" "lba < 4294967295" "512 * (lba + 1) \<le> length ?m" using Suc.prems(1,2) by (auto simp: healthy_def)
  have ls: "length ?s = 512" using Suc.prems(3) by simp
  let ?d = "dev\<lparr>media := blit ?m (512 * lba) ?s\<rparr>"
  have m: "memcpy ?m (512 * lba) buf off 512 = Some (blit ?m (512 * lba) ?s)" using l(3) Suc.prems(3) by (subst memcpy_blit) auto
  have h: "healthy ?d" using Suc.prems(1) l(3) ls by (intro healthy_media) (simp_all add: length_blit)
  have "ata_write_loop ?d (lba + 1) n buf (off + 512) =
      Some (True, ?d\<lparr>media := blit (media ?d) (512 * lba + length ?s) (take (512 * n) (drop (off + 512) buf))\<rparr>)"
    using Suc.prems(2,3) ls by (subst Suc.IH [OF h]) (simp_all add: add.commute [of 512])
  moreover have lm: "512 * (lba + Suc n) \<le> length ?m" using Suc.prems(1,2) by (simp add: healthy_def)
  then have "blit (blit ?m (512 * lba) ?s) (512 * lba + length ?s) (take (512 * n) (drop (off + 512) buf)) =
      blit ?m (512 * lba) (?s @ take (512 * n) (drop (off + 512) buf))"
    using Suc.prems(3) ls by (subst blit_append) auto
  moreover have "?s @ take (512 * n) (drop (off + 512) buf) = take (512 * Suc n) (drop off buf)"
    using take_add [of 512 "512 * n" "drop off buf"] by (simp add: add.commute)
  ultimately show ?case using sector_ok [OF Suc.prems(1) l(1)] m l(2)
    by (simp add: ata_write_sector_lba28_def ATA_SECTOR_SIZE_def wrap32_def)
qed (simp add: blit_def)

end
