(* ===== verification/Ext2.thy ===== *)
theory Ext2
  imports Ata
begin

text \<open>
  The ext2 driver of \<open>src/kernel/fs/ext2.c\<close>, first part: blocks, inodes, allocation, and reading and writing file data.

  \<^item> The state is the global \<open>ext2_fs\<close> with \<open>ext2_mounted\<close>, and the disks.  A null pointer to the superblock or the group
    descriptors is \<open>None\<close>.
  \<^item> The superblock (204 bytes), the group descriptors (32 bytes each) and an inode (128 bytes) are the bytes of the C
    structures, with an accessor for each field the code uses.
  \<^item> Local buffers start as zero, which no value depends on: the code fills them before use.  Where it ignores a failed
    transfer into one and goes on with indeterminate bytes, the model has \<open>None\<close>.
  \<^item> A division by zero is \<open>None\<close>, like the other undefined behaviour.
\<close>

section \<open>State\<close>

record ext2_st =
  superblock :: "u8 list option"
  block_size :: nat
  blocks_per_group :: nat
  inodes_per_group :: nat
  group_count :: nat
  group_desc :: "u8 list option"
  ext2_mounted :: bool
  ata_devs :: "ata_device_t list"

definition EXT2_SECTOR_SIZE :: nat where
  "EXT2_SECTOR_SIZE = 512"

definition EXT2_SUPERBLOCK_OFFSET :: nat where
  "EXT2_SUPERBLOCK_OFFSET = 1024"

definition EXT2_DRIVE :: nat where
  "EXT2_DRIVE = 2"

definition sb_inodes_count :: "u8 list \<Rightarrow> nat" where
  "sb_inodes_count b = fld 4 b 0"

definition sb_blocks_count :: "u8 list \<Rightarrow> nat" where
  "sb_blocks_count b = fld 4 b 4"

definition sb_first_data_block :: "u8 list \<Rightarrow> nat" where
  "sb_first_data_block b = fld 4 b 20"

definition sb_log_block_size :: "u8 list \<Rightarrow> nat" where
  "sb_log_block_size b = fld 4 b 24"

definition sb_blocks_per_group :: "u8 list \<Rightarrow> nat" where
  "sb_blocks_per_group b = fld 4 b 32"

definition sb_inodes_per_group :: "u8 list \<Rightarrow> nat" where
  "sb_inodes_per_group b = fld 4 b 40"

definition sb_magic :: "u8 list \<Rightarrow> nat" where
  "sb_magic b = fld 2 b 56"

definition sb_inode_size :: "u8 list \<Rightarrow> nat" where
  "sb_inode_size b = fld 2 b 88"

text \<open>The counters of free blocks (offset 12) and free inodes (offset 16), and those of a group (offsets 12 and 14).\<close>

definition sb_count :: "nat \<Rightarrow> int \<Rightarrow> u8 list \<Rightarrow> u8 list" where
  "sb_count p d b = set_fld 4 b p (nat ((int (fld 4 b p) + d) mod 4294967296))"

definition gd_fld :: "nat \<Rightarrow> u8 list \<Rightarrow> nat \<Rightarrow> nat \<Rightarrow> nat option" where
  "gd_fld n gd g p = rd_fld n gd (32 * g + p)"

definition gd_count :: "nat \<Rightarrow> int \<Rightarrow> u8 list \<Rightarrow> nat \<Rightarrow> u8 list option" where
  "gd_count p d gd g = do { v \<leftarrow> gd_fld 2 gd g p; wr_fld 2 gd (32 * g + p) (nat ((int v + d) mod 65536)) }"

definition i_mode :: "u8 list \<Rightarrow> nat" where
  "i_mode i = fld 2 i 0"

definition i_size :: "u8 list \<Rightarrow> nat" where
  "i_size i = fld 4 i 4"

definition i_links_count :: "u8 list \<Rightarrow> nat" where
  "i_links_count i = fld 2 i 26"

definition i_blocks :: "u8 list \<Rightarrow> nat" where
  "i_blocks i = fld 4 i 28"

definition i_block :: "u8 list \<Rightarrow> nat \<Rightarrow> nat" where
  "i_block i k = fld 4 i (40 + 4 * k)"

definition set_i_size :: "nat \<Rightarrow> u8 list \<Rightarrow> u8 list" where
  "set_i_size v i = set_fld 4 i 4 v"

definition set_i_blocks :: "nat \<Rightarrow> u8 list \<Rightarrow> u8 list" where
  "set_i_blocks v i = set_fld 4 i 28 v"

definition set_i_block :: "nat \<Rightarrow> nat \<Rightarrow> u8 list \<Rightarrow> u8 list" where
  "set_i_block k v i = set_fld 4 i (40 + 4 * k) v"

definition EXT2_S_ISDIR :: "nat \<Rightarrow> bool" where
  "EXT2_S_ISDIR m \<longleftrightarrow> m div 4096 mod 16 = 4"

section \<open>Sectors and blocks\<close>

definition ext2_off_to_sector :: "nat \<Rightarrow> nat" where
  "ext2_off_to_sector byte_off = byte_off div EXT2_SECTOR_SIZE"

definition ext2_off_to_sectors :: "nat \<Rightarrow> nat \<Rightarrow> nat" where
  "ext2_off_to_sectors byte_off byte_len =
     (let start = byte_off div EXT2_SECTOR_SIZE; end = wrap32 (byte_off + byte_len + EXT2_SECTOR_SIZE - 1) div EXT2_SECTOR_SIZE in
      if byte_len = 0 then 0 else wrap32 (end + 4294967296 - start))"

definition ext2_gd_sector :: "ext2_st \<Rightarrow> nat option" where
  "ext2_gd_sector s =
     (if block_size s = 0 then None
      else Some (wrap32 ((EXT2_SUPERBLOCK_OFFSET div block_size s + 1) * (block_size s div EXT2_SECTOR_SIZE))))"

definition disk_read :: "ext2_st \<Rightarrow> nat \<Rightarrow> nat \<Rightarrow> u8 list \<Rightarrow> nat \<Rightarrow> (bool \<times> u8 list) option" where
  "disk_read s sector count buf off = ata_read_sectors (ata_devs s) EXT2_DRIVE sector count buf off"

definition disk_write :: "ext2_st \<Rightarrow> nat \<Rightarrow> nat \<Rightarrow> u8 list \<Rightarrow> nat \<Rightarrow> (bool \<times> ext2_st) option" where
  "disk_write s sector count buf off =
     do { (ok, d) \<leftarrow> ata_write_sectors (ata_devs s) EXT2_DRIVE sector count buf off; Some (ok, s\<lparr>ata_devs := d\<rparr>) }"

definition ext2_read_superblock :: "ext2_st \<Rightarrow> u8 list option option" where
  "ext2_read_superblock s =
     do { (ok, buf) \<leftarrow> disk_read s (EXT2_SUPERBLOCK_OFFSET div EXT2_SECTOR_SIZE) 1 (replicate 512 0) 0;
          if \<not> ok then Some None
          else do { sb \<leftarrow> rd_bytes buf (EXT2_SUPERBLOCK_OFFSET mod EXT2_SECTOR_SIZE) 204; Some (Some sb) } }"

text \<open>Reading a block returns the number of bytes, 0 on failure.\<close>

definition block_len :: "ext2_st \<Rightarrow> nat \<Rightarrow> nat" where
  "block_len s len = (if block_size s < len \<or> EXT2_SECTOR_SIZE * 4 < block_size s then block_size s else len)"

definition break_sectors :: "ext2_st \<Rightarrow> nat \<Rightarrow> nat" where
  "break_sectors s len = min ((block_len s len + EXT2_SECTOR_SIZE - 1) div EXT2_SECTOR_SIZE) (block_size s div EXT2_SECTOR_SIZE)"

definition ext2_read_block :: "ext2_st \<Rightarrow> nat \<Rightarrow> u8 list \<Rightarrow> nat \<Rightarrow> nat \<Rightarrow> (nat \<times> u8 list) option" where
  "ext2_read_block s block_num buf off len =
     (if block_num = 0 then Some (0, buf)
      else do {
        (ok, b) \<leftarrow> disk_read s (wrap32 (block_num * (block_size s div EXT2_SECTOR_SIZE))) (break_sectors s len) buf off;
        Some (if ok then block_len s len else 0, b) })"

definition ext2_write_block :: "ext2_st \<Rightarrow> nat \<Rightarrow> u8 list \<Rightarrow> nat \<Rightarrow> nat \<Rightarrow> (nat \<times> ext2_st) option" where
  "ext2_write_block s block_num buf off len =
     (if block_num = 0 then Some (0, s)
      else do {
        (ok, s1) \<leftarrow> disk_write s (wrap32 (block_num * (block_size s div EXT2_SECTOR_SIZE))) (break_sectors s len) buf off;
        Some (if ok then block_len s len else 0, s1) })"

section \<open>Inodes\<close>

text \<open>Where an inode lives: the sector and the offset in it.\<close>

definition inode_place :: "ext2_st \<Rightarrow> u8 list \<Rightarrow> u8 list \<Rightarrow> nat \<Rightarrow> (nat \<times> nat) option option" where
  "inode_place s sb gd ino =
     (let ipg = sb_inodes_per_group sb; n = wrap32 (ino + 4294967295) in
      if ipg = 0 then None
      else if group_count s \<le> n div ipg then Some None
      else do {
        table \<leftarrow> gd_fld 4 gd (n div ipg) 8;
        let inode_size = (if sb_inode_size sb \<noteq> 0 then sb_inode_size sb else 128);
        let byte_off = wrap32 (table * block_size s + n mod ipg * inode_size);
        Some (Some (byte_off div EXT2_SECTOR_SIZE, byte_off mod EXT2_SECTOR_SIZE)) })"

definition ext2_read_inode :: "ext2_st \<Rightarrow> nat \<Rightarrow> u8 list option option" where
  "ext2_read_inode s inode_num =
     (case (superblock s, group_desc s) of
        (Some sb, Some gd) \<Rightarrow>
          if inode_num < 1 \<or> sb_inodes_count sb < inode_num then Some None
          else do {
            place \<leftarrow> inode_place s sb gd inode_num;
            case place of None \<Rightarrow> Some None
            | Some (sector, off) \<Rightarrow> do {
                (ok, buf) \<leftarrow> disk_read s sector 1 (replicate 512 0) 0;
                if \<not> ok then Some None else do { i \<leftarrow> rd_bytes buf off 128; Some (Some i) } } }
      | _ \<Rightarrow> Some None)"

definition ext2_write_inode :: "ext2_st \<Rightarrow> nat \<Rightarrow> u8 list \<Rightarrow> (bool \<times> ext2_st) option" where
  "ext2_write_inode s inode_num inode =
     (case (superblock s, group_desc s) of
        (Some sb, Some gd) \<Rightarrow> do {
          place \<leftarrow> inode_place s sb gd inode_num;
          case place of None \<Rightarrow> Some (False, s)
          | Some (sector, off) \<Rightarrow> do {
              (ok, buf) \<leftarrow> disk_read s sector 1 (replicate 512 0) 0;
              if \<not> ok then Some (False, s)
              else do { b \<leftarrow> memcpy buf off inode 0 128; disk_write s sector 1 b 0 } } }
      | _ \<Rightarrow> Some (False, s))"

section \<open>Block lookup\<close>

definition ptr_per_block :: "ext2_st \<Rightarrow> nat" where
  "ptr_per_block s = block_size s div 4"

fun ext2_get_block_from_ptr :: "ext2_st \<Rightarrow> nat \<Rightarrow> nat \<Rightarrow> nat \<Rightarrow> nat option" where
  "ext2_get_block_from_ptr s block target 0 = Some block"
| "ext2_get_block_from_ptr s block target (Suc level) =
     do { (n, contents) \<leftarrow> ext2_read_block s block (replicate 4096 0) 0 (block_size s);
          if n = 0 then Some 0
          else if Suc level = 1 then
            (if ptr_per_block s \<le> target then Some 0 else rd_fld 4 contents (4 * target))
          else if Suc level = 2 then
            (let first = target div ptr_per_block s; second = target mod ptr_per_block s in
             if ptr_per_block s \<le> first then Some 0
             else do { p \<leftarrow> rd_fld 4 contents (4 * first); ext2_get_block_from_ptr s p second level })
          else Some 0 }"

definition ext2_block_lookup :: "ext2_st \<Rightarrow> u8 list \<Rightarrow> nat \<Rightarrow> nat option" where
  "ext2_block_lookup s inode logical =
     (if logical < 12 then Some (i_block inode logical)
      else if logical - 12 < ptr_per_block s then ext2_get_block_from_ptr s (i_block inode 12) (logical - 12) 1
      else if logical - 12 - ptr_per_block s < wrap32 (ptr_per_block s * ptr_per_block s) then
        ext2_get_block_from_ptr s (i_block inode 13) (logical - 12 - ptr_per_block s) 2
      else Some 0)"

section \<open>Bitmaps and allocation\<close>

definition bitmap_byte :: "nat \<Rightarrow> nat" where
  "bitmap_byte b = b div 32 * 4 + b mod 32 div 8"

definition bitmap_mask :: "nat \<Rightarrow> u8" where
  "bitmap_mask b = push_bit (b mod 32 mod 8) 1"

text \<open>The block holding a bitmap is named by the group descriptor at offset 0 (blocks) or 4 (inodes).\<close>

definition ext2_read_bitmap :: "nat \<Rightarrow> ext2_st \<Rightarrow> nat \<Rightarrow> u8 list \<Rightarrow> u8 list option" where
  "ext2_read_bitmap p s g buf =
     do { gd \<leftarrow> group_desc s;
          blk \<leftarrow> gd_fld 4 gd g p;
          (ok, b) \<leftarrow> disk_read s (wrap32 (blk * (block_size s div EXT2_SECTOR_SIZE))) (block_size s div EXT2_SECTOR_SIZE) buf 0;
          if ok then Some b else None }"

definition ext2_write_bitmap :: "nat \<Rightarrow> ext2_st \<Rightarrow> nat \<Rightarrow> u8 list \<Rightarrow> ext2_st option" where
  "ext2_write_bitmap p s g buf =
     do { gd \<leftarrow> group_desc s;
          blk \<leftarrow> gd_fld 4 gd g p;
          (ok, s1) \<leftarrow> disk_write s (wrap32 (blk * (block_size s div EXT2_SECTOR_SIZE))) (block_size s div EXT2_SECTOR_SIZE) buf 0;
          Some s1 }"

text \<open>The search for a clear bit from \<open>b\<close> on, \<open>k\<close> bits.\<close>

fun bitmap_find :: "u8 list \<Rightarrow> nat \<Rightarrow> nat \<Rightarrow> nat option option" where
  "bitmap_find bm b 0 = Some None"
| "bitmap_find bm b (Suc k) =
     do { x \<leftarrow> rd bm (bitmap_byte b);
          if x AND bitmap_mask b = 0 then Some (Some b) else bitmap_find bm (Suc b) k }"

definition bitmap_update :: "(u8 \<Rightarrow> u8 \<Rightarrow> u8) \<Rightarrow> u8 list \<Rightarrow> nat \<Rightarrow> u8 list option" where
  "bitmap_update f bm b = do { x \<leftarrow> rd bm (bitmap_byte b); wr bm (bitmap_byte b) (f x (bitmap_mask b)) }"

text \<open>Writing the superblock and the group descriptors back; the descriptor buffer has four sectors.\<close>

definition ext2_persist :: "ext2_st \<Rightarrow> ext2_st option" where
  "ext2_persist s =
     do { sb \<leftarrow> superblock s;
          gd \<leftarrow> group_desc s;
          (ok1, b1) \<leftarrow> disk_read s (EXT2_SUPERBLOCK_OFFSET div EXT2_SECTOR_SIZE) 1 (replicate 512 0) 0;
          if \<not> ok1 then None else do {
          b2 \<leftarrow> memcpy b1 (EXT2_SUPERBLOCK_OFFSET mod EXT2_SECTOR_SIZE) sb 0 204;
          (ok2, s1) \<leftarrow> disk_write s (EXT2_SUPERBLOCK_OFFSET div EXT2_SECTOR_SIZE) 1 b2 0;
          sec \<leftarrow> ext2_gd_sector s1;
          (ok3, g1) \<leftarrow> disk_read s1 sec (block_size s1 div EXT2_SECTOR_SIZE) (replicate 2048 0) 0;
          if \<not> ok3 then None else do {
          g2 \<leftarrow> memcpy g1 0 gd 0 (32 * group_count s1);
          (ok4, s2) \<leftarrow> disk_write s1 sec (block_size s1 div EXT2_SECTOR_SIZE) g2 0;
          Some s2 } } }"

text \<open>Taking bit \<open>b\<close> of a group: \<open>p\<close> selects the bitmap, \<open>q\<close> the group counter, \<open>r\<close> the superblock counter.\<close>

definition ext2_take_bit :: "nat \<Rightarrow> nat \<Rightarrow> nat \<Rightarrow> ext2_st \<Rightarrow> nat \<Rightarrow> u8 list \<Rightarrow> nat \<Rightarrow> ext2_st option" where
  "ext2_take_bit p q r s g bm b =
     do { bm1 \<leftarrow> bitmap_update (OR) bm b;
          s1 \<leftarrow> ext2_write_bitmap p s g bm1;
          gd \<leftarrow> group_desc s1;
          gd1 \<leftarrow> gd_count q (- 1) gd g;
          sb \<leftarrow> superblock s1;
          ext2_persist (s1\<lparr>group_desc := Some gd1, superblock := Some (sb_count r (- 1) sb)\<rparr>) }"

fun alloc_block_groups :: "nat \<Rightarrow> nat \<Rightarrow> ext2_st \<Rightarrow> (nat option \<times> ext2_st) option" where
  "alloc_block_groups 0 g s = Some (None, s)"
| "alloc_block_groups (Suc n) g s =
     do { gd \<leftarrow> group_desc s;
          free \<leftarrow> gd_fld 2 gd g 12;
          if free = 0 then alloc_block_groups n (Suc g) s
          else do {
            bm \<leftarrow> ext2_read_bitmap 0 s g (replicate 4096 0);
            r \<leftarrow> bitmap_find bm 0 (blocks_per_group s);
            case r of
              None \<Rightarrow> alloc_block_groups n (Suc g) s
            | Some b \<Rightarrow> do {
                s1 \<leftarrow> ext2_take_bit 0 12 12 s g bm b;
                sb \<leftarrow> superblock s1;
                Some (Some (wrap32 (g * blocks_per_group s1 + b + sb_first_data_block sb)), s1) } } }"

definition ext2_alloc_block :: "ext2_st \<Rightarrow> (nat option \<times> ext2_st) option" where
  "ext2_alloc_block s = (if superblock s = None \<or> group_desc s = None then Some (None, s) else alloc_block_groups (group_count s) 0 s)"

text \<open>Giving a bit back updates the bitmap and the counters in memory only.\<close>

definition ext2_give_bit :: "nat \<Rightarrow> nat \<Rightarrow> nat \<Rightarrow> ext2_st \<Rightarrow> nat \<Rightarrow> nat \<Rightarrow> ext2_st option" where
  "ext2_give_bit p q r s g b =
     do { bm \<leftarrow> ext2_read_bitmap p s g (replicate 4096 0);
          bm1 \<leftarrow> bitmap_update (\<lambda>x m. x AND NOT m) bm b;
          s1 \<leftarrow> ext2_write_bitmap p s g bm1;
          gd \<leftarrow> group_desc s1;
          gd1 \<leftarrow> gd_count q 1 gd g;
          sb \<leftarrow> superblock s1;
          Some (s1\<lparr>group_desc := Some gd1, superblock := Some (sb_count r 1 sb)\<rparr>) }"

definition ext2_free_block :: "ext2_st \<Rightarrow> nat \<Rightarrow> ext2_st option" where
  "ext2_free_block s block =
     (if block = 0 then Some s
      else do {
        sb \<leftarrow> superblock s;
        let n = wrap32 (block + 4294967296 - sb_first_data_block sb);
        if blocks_per_group s = 0 then None
        else ext2_give_bit 0 12 12 s (n div blocks_per_group s) (n mod blocks_per_group s) })"

fun alloc_inode_groups :: "nat \<Rightarrow> nat \<Rightarrow> ext2_st \<Rightarrow> (nat option \<times> ext2_st) option" where
  "alloc_inode_groups 0 g s = Some (None, s)"
| "alloc_inode_groups (Suc n) g s =
     do { gd \<leftarrow> group_desc s;
          free \<leftarrow> gd_fld 2 gd g 14;
          if free = 0 then alloc_inode_groups n (Suc g) s
          else do {
            bm \<leftarrow> ext2_read_bitmap 4 s g (replicate 4096 0);
            sb0 \<leftarrow> superblock s;
            r \<leftarrow> bitmap_find bm 0 (sb_inodes_per_group sb0);
            case r of
              None \<Rightarrow> alloc_inode_groups n (Suc g) s
            | Some i \<Rightarrow> do {
                s1 \<leftarrow> ext2_take_bit 4 14 16 s g bm i;
                sb \<leftarrow> superblock s1;
                Some (Some (wrap32 (g * sb_inodes_per_group sb + i + 1)), s1) } } }"

definition ext2_alloc_inode :: "ext2_st \<Rightarrow> (nat option \<times> ext2_st) option" where
  "ext2_alloc_inode s = (if superblock s = None \<or> group_desc s = None then Some (None, s) else alloc_inode_groups (group_count s) 0 s)"

definition ext2_free_inode :: "ext2_st \<Rightarrow> nat \<Rightarrow> ext2_st option" where
  "ext2_free_inode s ino =
     (if ino < 1 then Some s
      else do {
        sb \<leftarrow> superblock s;
        let ipg = sb_inodes_per_group sb;
        if ipg = 0 then None else ext2_give_bit 4 14 16 s ((ino - 1) div ipg) ((ino - 1) mod ipg) })"

end
