(* ===== verification/Ext2Store.thy ===== *)
theory Ext2Store
  imports Ext2
begin

text \<open>
  The disk seen as blocks and inodes.  On a healthy drive the transfers of the driver read and replace pieces of the
  medium; blocks and inodes are then two instances of one interface, a store of cells with a read and a write.
\<close>

section \<open>The medium\<close>

definition disk :: "ext2_st \<Rightarrow> u8 list" where
  "disk s = media (ata_devs s ! 2)"

definition set_disk :: "u8 list \<Rightarrow> ext2_st \<Rightarrow> ext2_st" where
  "set_disk m s = s\<lparr>ata_devs := (ata_devs s)[2 := (ata_devs s ! 2)\<lparr>media := m\<rparr>]\<rparr>"

definition disk_ok :: "ext2_st \<Rightarrow> bool" where
  "disk_ok s \<longleftrightarrow> 2 < length (ata_devs s) \<and> healthy (ata_devs s ! 2)"

lemma disk_set_disk [simp]: "2 < length (ata_devs s) \<Longrightarrow> disk (set_disk m s) = m"
  by (simp add: disk_def set_disk_def)

lemma set_disk_fields [simp]:
  "superblock (set_disk m s) = superblock s" "group_desc (set_disk m s) = group_desc s"
  "block_size (set_disk m s) = block_size s" "blocks_per_group (set_disk m s) = blocks_per_group s"
  "group_count (set_disk m s) = group_count s" "ext2_mounted (set_disk m s) = ext2_mounted s"
  "inodes_per_group (set_disk m s) = inodes_per_group s" "length (ata_devs (set_disk m s)) = length (ata_devs s)"
  by (simp_all add: set_disk_def)

lemma disk_ok_set [simp]: "disk_ok s \<Longrightarrow> length m = length (disk s) \<Longrightarrow> disk_ok (set_disk m s)"
  by (simp add: disk_ok_def set_disk_def disk_def healthy_media)

lemma disk_ok_length: "disk_ok s \<Longrightarrow> 2 < length (ata_devs s)"
  by (simp add: disk_ok_def)

lemma disk_less: "disk_ok s \<Longrightarrow> length (disk s) < 137438953472"
  by (simp add: disk_ok_def healthy_def disk_def)

lemma disk_read_ok:
  assumes "disk_ok s" and "512 * (sector + count) \<le> length (disk s)" and "off + 512 * count \<le> length buf"
  shows "disk_read s sector count buf off = Some (True, blit buf off (take (512 * count) (drop (512 * sector) (disk s))))"
proof -
  let ?d = "ata_devs s ! 2"
  have h: "healthy ?d" "2 < length (ata_devs s)" using assms(1) by (auto simp: disk_ok_def)
  have c: "sector + count \<le> capacity_sectors ?d" using assms(2) h(1) by (simp add: healthy_def disk_def)
  moreover have "wrap32 (sector + count) = sector + count" using c h(1) by (simp add: wrap32_def healthy_def)
  ultimately show ?thesis using ata_read_loop_blit [OF h(1) c assms(3)] h
    by (simp add: disk_read_def ata_read_sectors_def ata_get_index_def EXT2_DRIVE_def rd_in healthy_def disk_def)
qed

lemma disk_write_ok:
  assumes "disk_ok s" and "512 * (sector + count) \<le> length (disk s)" and "off + 512 * count \<le> length buf"
  shows "disk_write s sector count buf off =
           Some (True, set_disk (blit (disk s) (512 * sector) (take (512 * count) (drop off buf))) s)"
proof -
  let ?d = "ata_devs s ! 2"
  have h: "healthy ?d" "2 < length (ata_devs s)" using assms(1) by (auto simp: disk_ok_def)
  have c: "sector + count \<le> capacity_sectors ?d" using assms(2) h(1) by (simp add: healthy_def disk_def)
  moreover have "wrap32 (sector + count) = sector + count" using c h(1) by (simp add: wrap32_def healthy_def)
  ultimately show ?thesis using ata_write_loop_blit [OF h(1) c assms(3)] h
    by (simp add: disk_write_def ata_write_sectors_def ata_get_index_def EXT2_DRIVE_def rd_in healthy_def disk_def set_disk_def)
qed

section \<open>Stores of cells\<close>

text \<open>
  A store has cells, numbered; reading one gives its content, and writing one changes that content and no other.
  The laws give the meaning of any sequence of writes: each cell holds what was last written to it.
\<close>

locale cell_store =
  fixes invar :: "'s \<Rightarrow> bool"
    and cells :: "'s \<Rightarrow> nat set"
    and content :: "'s \<Rightarrow> 'c set"
    and readc :: "'s \<Rightarrow> nat \<Rightarrow> 'c option option"
    and writec :: "'s \<Rightarrow> nat \<Rightarrow> 'c \<Rightarrow> (bool \<times> 's) option"
  assumes read_cell: "invar s \<Longrightarrow> i \<in> cells s \<Longrightarrow> \<exists>c \<in> content s. readc s i = Some (Some c)"
    and write_cell: "invar s \<Longrightarrow> i \<in> cells s \<Longrightarrow> c \<in> content s \<Longrightarrow>
           \<exists>s'. writec s i c = Some (True, s') \<and> invar s' \<and> cells s' = cells s \<and> content s' = content s \<and>
                (\<forall>j \<in> cells s. readc s' j = (if j = i then Some (Some c) else readc s j))"
begin

fun write_all :: "'s \<Rightarrow> (nat \<times> 'c) list \<Rightarrow> (bool \<times> 's) option" where
  "write_all s [] = Some (True, s)"
| "write_all s ((i, c) # ws) = do { (ok, s1) \<leftarrow> writec s i c; if ok then write_all s1 ws else Some (False, s1) }"

lemma write_all_spec:
  assumes "invar s" and "fst ` set ws \<subseteq> cells s" and "snd ` set ws \<subseteq> content s"
  shows "\<exists>s'. write_all s ws = Some (True, s') \<and> invar s' \<and> cells s' = cells s \<and> content s' = content s \<and>
           (\<forall>j \<in> cells s. readc s' j = (case map_of (rev ws) j of Some c \<Rightarrow> Some (Some c) | None \<Rightarrow> readc s j))"
  using assms
proof (induction ws arbitrary: s)
  case (Cons w ws)
  obtain i c where w: "w = (i, c)" by (cases w)
  obtain s1 where s1: "writec s i c = Some (True, s1)" "invar s1" "cells s1 = cells s" "content s1 = content s"
    "\<forall>j \<in> cells s. readc s1 j = (if j = i then Some (Some c) else readc s j)"
    using write_cell [of s i c] Cons.prems by (auto simp: w)
  obtain s2 where s2: "write_all s1 ws = Some (True, s2)" "invar s2" "cells s2 = cells s1" "content s2 = content s1"
    "\<forall>j \<in> cells s1. readc s2 j = (case map_of (rev ws) j of Some d \<Rightarrow> Some (Some d) | None \<Rightarrow> readc s1 j)"
    using Cons.IH [OF s1(2)] Cons.prems(2,3) s1(3,4) by auto
  show ?case using s1 s2 by (auto simp: w map_add_def split: option.splits)
qed simp

end

section \<open>Blocks\<close>

definition good_size :: "nat \<Rightarrow> bool" where
  "good_size bs \<longleftrightarrow> bs = 1024 \<or> bs = 2048 \<or> bs = 4096"

definition blk :: "ext2_st \<Rightarrow> nat \<Rightarrow> u8 list" where
  "blk s b = take (block_size s) (drop (b * block_size s) (disk s))"

definition set_blk :: "ext2_st \<Rightarrow> nat \<Rightarrow> u8 list \<Rightarrow> ext2_st" where
  "set_blk s b c = set_disk (blit (disk s) (b * block_size s) c) s"

definition block_in :: "ext2_st \<Rightarrow> nat \<Rightarrow> bool" where
  "block_in s b \<longleftrightarrow> b \<noteq> 0 \<and> (b + 1) * block_size s \<le> length (disk s)"

definition blocks_ok :: "ext2_st \<Rightarrow> bool" where
  "blocks_ok s \<longleftrightarrow> disk_ok s \<and> good_size (block_size s)"

lemma length_blk [simp]:
  assumes "block_in s b"
  shows "length (blk s b) = block_size s"
proof -
  have "block_size s \<le> length (disk s) - b * block_size s" using assms by (simp add: block_in_def) linarith
  then show ?thesis by (simp add: blk_def)
qed

lemma block_sectors:
  assumes "blocks_ok s" and "block_in s b"
  shows "wrap32 (b * (block_size s div 512)) = b * (block_size s div 512)" and "512 * (block_size s div 512) = block_size s"
    and "512 * (b * (block_size s div 512)) = b * block_size s"
proof -
  show bs: "512 * (block_size s div 512) = block_size s" using assms(1) by (auto simp: blocks_ok_def good_size_def)
  show e: "512 * (b * (block_size s div 512)) = b * block_size s" using bs by (metis mult.left_commute)
  have "b * block_size s < 137438953472" using assms disk_less [of s] by (simp add: blocks_ok_def block_in_def)
  then have "b * (block_size s div 512) < 268435456" using e by linarith
  then show "wrap32 (b * (block_size s div 512)) = b * (block_size s div 512)" by (simp add: wrap32_def)
qed

lemma whole_block:
  assumes "blocks_ok s"
  shows "block_len s (block_size s) = block_size s" and "break_sectors s (block_size s) = block_size s div 512"
  using assms by (auto simp: blocks_ok_def good_size_def block_len_def break_sectors_def EXT2_SECTOR_SIZE_def)

lemma block_read:
  assumes "blocks_ok s" and "block_in s b" and "off + block_size s \<le> length buf"
  shows "disk_read s (b * (block_size s div 512)) (block_size s div 512) buf off = Some (True, blit buf off (blk s b))"
proof -
  note sec = block_sectors [OF assms(1,2)]
  have "disk_read s (b * (block_size s div 512)) (block_size s div 512) buf off =
      Some (True, blit buf off (take (512 * (block_size s div 512)) (drop (512 * (b * (block_size s div 512))) (disk s))))"
  proof (rule disk_read_ok)
    show "disk_ok s" using assms(1) by (simp add: blocks_ok_def)
    show "512 * (b * (block_size s div 512) + block_size s div 512) \<le> length (disk s)"
      using assms(2) by (simp add: distrib_left sec(2,3) block_in_def add.commute)
    show "off + 512 * (block_size s div 512) \<le> length buf" using assms(3) sec by simp
  qed
  then show ?thesis by (simp add: sec(2,3) blk_def)
qed

lemma block_write:
  assumes "blocks_ok s" and "block_in s b" and "off + block_size s \<le> length buf"
  shows "disk_write s (b * (block_size s div 512)) (block_size s div 512) buf off = Some (True, set_blk s b (take (block_size s) (drop off buf)))"
proof -
  note sec = block_sectors [OF assms(1,2)]
  have "disk_write s (b * (block_size s div 512)) (block_size s div 512) buf off =
      Some (True, set_disk (blit (disk s) (512 * (b * (block_size s div 512))) (take (512 * (block_size s div 512)) (drop off buf))) s)"
  proof (rule disk_write_ok)
    show "disk_ok s" using assms(1) by (simp add: blocks_ok_def)
    show "512 * (b * (block_size s div 512) + block_size s div 512) \<le> length (disk s)"
      using assms(2) by (simp add: distrib_left sec(2,3) block_in_def add.commute)
    show "off + 512 * (block_size s div 512) \<le> length buf" using assms(3) sec by simp
  qed
  then show ?thesis by (simp add: sec(2,3) set_blk_def)
qed

lemma ext2_read_block_ok:
  assumes "blocks_ok s" and "block_in s b" and "off + block_size s \<le> length buf"
  shows "ext2_read_block s b buf off (block_size s) = Some (block_size s, blit buf off (blk s b))"
  using assms(2) block_read [OF assms] block_sectors(1) [OF assms(1,2)] whole_block [OF assms(1)]
  by (simp add: ext2_read_block_def block_in_def EXT2_SECTOR_SIZE_def)

lemma ext2_write_block_ok:
  assumes "blocks_ok s" and "block_in s b" and "off + block_size s \<le> length buf"
  shows "ext2_write_block s b buf off (block_size s) = Some (block_size s, set_blk s b (take (block_size s) (drop off buf)))"
  using assms(2) block_write [OF assms] block_sectors(1) [OF assms(1,2)] whole_block [OF assms(1)]
  by (simp add: ext2_write_block_def block_in_def EXT2_SECTOR_SIZE_def)

lemma length_set_blk:
  assumes "disk_ok s" and "block_in s b" and "length c = block_size s"
  shows "length (disk (set_blk s b c)) = length (disk s)"
  using assms disk_ok_length by (simp add: set_blk_def block_in_def length_blit)

lemma set_blk_fields [simp]:
  "superblock (set_blk s b c) = superblock s" "group_desc (set_blk s b c) = group_desc s"
  "block_size (set_blk s b c) = block_size s" "blocks_per_group (set_blk s b c) = blocks_per_group s"
  "group_count (set_blk s b c) = group_count s" "ext2_mounted (set_blk s b c) = ext2_mounted s"
  "inodes_per_group (set_blk s b c) = inodes_per_group s"
  by (simp_all add: set_blk_def)

lemma set_blk_ok:
  assumes "blocks_ok s" and "block_in s b" and "length c = block_size s"
  shows "blocks_ok (set_blk s b c)" and "block_in (set_blk s b c) = block_in s"
proof -
  have d: "disk_ok s" using assms(1) by (simp add: blocks_ok_def)
  have l: "length (disk (set_blk s b c)) = length (disk s)" by (rule length_set_blk [OF d assms(2,3)])
  show "block_in (set_blk s b c) = block_in s" using l by (auto simp: block_in_def fun_eq_iff)
  have "disk_ok (set_blk s b c)" unfolding set_blk_def
    using assms(2,3) d by (intro disk_ok_set) (auto simp: block_in_def length_blit)
  then show "blocks_ok (set_blk s b c)" using assms(1) by (simp add: blocks_ok_def)
qed

lemma blit_other:
  assumes "d + length c \<le> length m" and "p + n \<le> d \<or> d + length c \<le> p"
  shows "take n (drop p (blit m d c)) = take n (drop p m)"
  using assms by (intro nth_equalityI) (auto simp: nth_blit length_blit)

lemma blit_same: "d + length c \<le> length m \<Longrightarrow> take (length c) (drop d (blit m d c)) = c"
  by (simp add: blit_def)

lemma blocks_apart: "a \<noteq> b \<Longrightarrow> (a :: nat) * n + n \<le> b * n \<or> b * n + n \<le> a * n"
  by (metis add.commute mult_Suc mult_le_mono1 not_less_eq_eq nat_less_le not_less)

lemma blk_set:
  assumes "disk_ok s" and "block_in s b" and "length c = block_size s" and "block_in s a"
  shows "blk (set_blk s b c) a = (if a = b then c else blk s a)"
proof -
  have fit: "b * block_size s + length c \<le> length (disk s)" using assms(2,3) by (simp add: block_in_def)
  have d: "disk (set_blk s b c) = blit (disk s) (b * block_size s) c" using disk_ok_length [OF assms(1)] by (simp add: set_blk_def)
  show ?thesis
  proof (cases "a = b")
    case True
    then show ?thesis using blit_same [OF fit] assms(3) by (simp add: blk_def d)
  next
    case False
    then have "take (block_size s) (drop (a * block_size s) (blit (disk s) (b * block_size s) c)) = blk s a"
      unfolding blk_def using blit_other [OF fit] blocks_apart [OF False, of "block_size s"] assms(3) by simp
    then show ?thesis using False by (simp add: blk_def d)
  qed
qed

text \<open>Reading and writing a whole block with the routines of the driver.\<close>

definition read_whole :: "ext2_st \<Rightarrow> nat \<Rightarrow> u8 list option option" where
  "read_whole s b =
     do { (n, c) \<leftarrow> ext2_read_block s b (replicate (block_size s) 0) 0 (block_size s); Some (if n = block_size s then Some c else None) }"

definition write_whole :: "ext2_st \<Rightarrow> nat \<Rightarrow> u8 list \<Rightarrow> (bool \<times> ext2_st) option" where
  "write_whole s b c = do { (n, s1) \<leftarrow> ext2_write_block s b c 0 (block_size s); Some (n = block_size s, s1) }"

lemma read_whole_ok: "blocks_ok s \<Longrightarrow> block_in s b \<Longrightarrow> read_whole s b = Some (Some (blk s b))"
  by (simp add: read_whole_def ext2_read_block_ok blit_def)

lemma write_whole_ok:
  "blocks_ok s \<Longrightarrow> block_in s b \<Longrightarrow> length c = block_size s \<Longrightarrow> write_whole s b c = Some (True, set_blk s b c)"
  by (simp add: write_whole_def ext2_write_block_ok)

interpretation blocks: cell_store blocks_ok "\<lambda>s. {b. block_in s b}" "\<lambda>s. {c. length c = block_size s}" read_whole write_whole
proof
  fix s b
  assume "blocks_ok s" and "b \<in> {b. block_in s b}"
  then show "\<exists>c \<in> {c. length c = block_size s}. read_whole s b = Some (Some c)"
    by (intro bexI [of _ "blk s b"]) (simp_all add: read_whole_ok)
next
  fix s b and c :: "u8 list"
  assume s: "blocks_ok s" and "b \<in> {b. block_in s b}" and "c \<in> {c. length c = block_size s}"
  then have b: "block_in s b" and c: "length c = block_size s" by auto
  have d: "disk_ok s" using s by (simp add: blocks_ok_def)
  note ok = set_blk_ok [OF s b c]
  have "\<forall>a. block_in s a \<longrightarrow> read_whole (set_blk s b c) a = (if a = b then Some (Some c) else read_whole s a)"
    using read_whole_ok [OF ok(1)] ok(2) read_whole_ok [OF s] blk_set [OF d b c] by simp
  then show "\<exists>s'. write_whole s b c = Some (True, s') \<and> blocks_ok s' \<and> {b. block_in s' b} = {b. block_in s b} \<and>
      {c. length c = block_size s'} = {c. length c = block_size s} \<and>
      (\<forall>j \<in> {b. block_in s b}. read_whole s' j = (if j = b then Some (Some c) else read_whole s j))"
    using write_whole_ok [OF s b c] ok by (intro exI [of _ "set_blk s b c"]) auto
qed

section \<open>Inodes\<close>

definition inode_bytes :: "u8 list \<Rightarrow> nat" where
  "inode_bytes sb = (if sb_inode_size sb \<noteq> 0 then sb_inode_size sb else 128)"

definition table_at :: "ext2_st \<Rightarrow> nat \<Rightarrow> nat" where
  "table_at s g = fld 4 (the (group_desc s)) (32 * g + 8) * block_size s"

definition table_len :: "ext2_st \<Rightarrow> nat" where
  "table_len s = sb_inodes_per_group (the (superblock s)) * inode_bytes (the (superblock s))"

text \<open>
  The tables of inodes are where the disk has bytes, below 4 GiB where the byte offsets are computed, and apart from
  each other; a sector holds a whole number of inodes.
\<close>

definition inodes_ok :: "ext2_st \<Rightarrow> bool" where
  "inodes_ok s \<longleftrightarrow> disk_ok s \<and> good_size (block_size s) \<and> superblock s \<noteq> None \<and> group_desc s \<noteq> None \<and>
     32 * group_count s \<le> length (the (group_desc s)) \<and> inode_bytes (the (superblock s)) \<in> {128, 256, 512} \<and>
     sb_inodes_per_group (the (superblock s)) \<noteq> 0 \<and>
     (\<forall>g < group_count s. table_at s g + table_len s \<le> length (disk s) \<and> table_at s g + table_len s \<le> 4294967296 \<and>
        table_len s mod 512 = 0 \<and>
        (\<forall>h < group_count s. g \<noteq> h \<longrightarrow> table_at s g + table_len s \<le> table_at s h \<or> table_at s h + table_len s \<le> table_at s g))"

definition inode_in :: "ext2_st \<Rightarrow> nat \<Rightarrow> bool" where
  "inode_in s ino \<longleftrightarrow> 1 \<le> ino \<and> ino \<le> sb_inodes_count (the (superblock s)) \<and>
     (ino - 1) div sb_inodes_per_group (the (superblock s)) < group_count s"

definition inode_at :: "ext2_st \<Rightarrow> nat \<Rightarrow> nat" where
  "inode_at s ino =
     (let sb = the (superblock s); ipg = sb_inodes_per_group sb
      in table_at s ((ino - 1) div ipg) + (ino - 1) mod ipg * inode_bytes sb)"

definition ino :: "ext2_st \<Rightarrow> nat \<Rightarrow> u8 list" where
  "ino s i = take 128 (drop (inode_at s i) (disk s))"

definition set_ino :: "ext2_st \<Rightarrow> nat \<Rightarrow> u8 list \<Rightarrow> ext2_st" where
  "set_ino s i c = set_disk (blit (disk s) (inode_at s i) c) s"

lemma mod_dvd_room: "d dvd n \<Longrightarrow> d dvd k \<Longrightarrow> 0 < n \<Longrightarrow> k mod n + d \<le> (n :: nat)"
proof -
  assume d: "d dvd n" "d dvd k" "0 < n"
  then obtain q m where q: "n = d * q" and m: "k mod n = d * m" by (metis dvd_def dvd_mod)
  have "d * m < d * q" using mod_less_divisor [OF d(3), of k] q m by simp
  then have "d * Suc m \<le> d * q" by (metis Suc_leI mult_less_cancel1 mult_le_mono2)
  then show ?thesis using q m by simp
qed

lemma inode_slot:
  assumes "inodes_ok s" and "inode_in s i"
  shows "inode_at s i + inode_bytes (the (superblock s)) \<le> table_at s ((i - 1) div sb_inodes_per_group (the (superblock s))) + table_len s"
proof -
  let ?ipg = "sb_inodes_per_group (the (superblock s))" and ?b = "inode_bytes (the (superblock s))"
  have "Suc ((i - 1) mod ?ipg) \<le> ?ipg" using assms(1) by (simp add: inodes_ok_def Suc_leI)
  then have "Suc ((i - 1) mod ?ipg) * ?b \<le> ?ipg * ?b" by (rule mult_le_mono1)
  then show ?thesis by (simp add: inode_at_def table_len_def Let_def)
qed

lemma inode_fits:
  assumes "inodes_ok s" and "inode_in s i"
  shows "inode_at s i + 128 \<le> length (disk s)" and "inode_at s i < 4294967296" and "inode_at s i mod 512 + 128 \<le> 512"
    and "512 * (inode_at s i div 512 + 1) \<le> length (disk s)"
proof -
  let ?sb = "the (superblock s)" and ?g = "(i - 1) div sb_inodes_per_group (the (superblock s))"
  have b: "inode_bytes ?sb \<in> {128, 256, 512}" using assms(1) by (simp add: inodes_ok_def)
  have g: "?g < group_count s" using assms(2) by (simp add: inode_in_def)
  have t: "table_at s ?g + table_len s \<le> length (disk s)" "table_at s ?g + table_len s \<le> 4294967296"
    using assms(1) g by (auto simp: inodes_ok_def)
  show "inode_at s i + 128 \<le> length (disk s)" and "inode_at s i < 4294967296" using inode_slot [OF assms] b t by auto
  have "512 dvd block_size s" using assms(1) by (auto simp: inodes_ok_def good_size_def)
  then have "inode_bytes ?sb dvd table_at s ?g" using b unfolding table_at_def by (auto intro: dvd_trans dvd_mult)
  then have "inode_bytes ?sb dvd inode_at s i" unfolding inode_at_def Let_def by (rule dvd_add) simp
  moreover have "inode_bytes ?sb dvd 512" using b by auto
  ultimately have "inode_at s i mod 512 + inode_bytes ?sb \<le> 512" by (intro mod_dvd_room) simp_all
  then show "inode_at s i mod 512 + 128 \<le> 512" using b by auto
  have l: "length (disk s) = 512 * capacity_sectors (ata_devs s ! 2)"
    using assms(1) by (simp add: inodes_ok_def disk_ok_def healthy_def disk_def)
  then have "inode_at s i < capacity_sectors (ata_devs s ! 2) * 512" using \<open>inode_at s i + 128 \<le> length (disk s)\<close> by simp
  then have "inode_at s i div 512 + 1 \<le> capacity_sectors (ata_devs s ! 2)" using less_mult_imp_div_less Suc_leI by simp
  then show "512 * (inode_at s i div 512 + 1) \<le> length (disk s)" unfolding l by (rule mult_le_mono2)
qed

lemma inodes_apart:
  assumes "inodes_ok s" and "inode_in s i" and "inode_in s j" and "i \<noteq> j"
  shows "inode_at s i + 128 \<le> inode_at s j \<or> inode_at s j + 128 \<le> inode_at s i"
proof -
  let ?sb = "the (superblock s)"
  let ?ipg = "sb_inodes_per_group ?sb"
  let ?g = "(i - 1) div ?ipg" and ?h = "(j - 1) div ?ipg"
  have b: "128 \<le> inode_bytes ?sb" using assms(1) by (auto simp: inodes_ok_def)
  show ?thesis
  proof (cases "?g = ?h")
    case True
    have "(i - 1) mod ?ipg \<noteq> (j - 1) mod ?ipg"
    proof
      assume "(i - 1) mod ?ipg = (j - 1) mod ?ipg"
      then have "i - 1 = j - 1" using True by (metis div_mult_mod_eq)
      then show False using assms(2-4) by (auto simp: inode_in_def)
    qed
    from blocks_apart [OF this, of "inode_bytes ?sb"] show ?thesis using True b by (auto simp: inode_at_def Let_def)
  next
    case False
    then have "table_at s ?g + table_len s \<le> table_at s ?h \<or> table_at s ?h + table_len s \<le> table_at s ?g"
      using assms(1-3) by (auto simp: inodes_ok_def inode_in_def)
    moreover have "table_at s ?g \<le> inode_at s i" "table_at s ?h \<le> inode_at s j" by (simp_all add: inode_at_def Let_def)
    ultimately show ?thesis using inode_slot [OF assms(1,2)] inode_slot [OF assms(1,3)] b by linarith
  qed
qed

lemma inode_place_ok:
  assumes "inodes_ok s" and "inode_in s i" and "superblock s = Some sb" and "group_desc s = Some gd"
  shows "inode_place s sb gd i = Some (Some (inode_at s i div 512, inode_at s i mod 512))"
proof -
  let ?ipg = "sb_inodes_per_group sb"
  have i: "1 \<le> i" "i < 4294967296" "(i - 1) div ?ipg < group_count s"
    using assms(2,3) fld_less [of 4 sb 0] by (auto simp: inode_in_def sb_inodes_count_def)
  obtain k where "i = Suc k" using i(1) by (cases i) auto
  then have w: "wrap32 (i + 4294967295) = i - 1" using i(2) by (simp add: wrap32_def)
  have "32 * ((i - 1) div ?ipg + 1) \<le> 32 * group_count s" using i(3) by (intro mult_le_mono2) simp
  then have "32 * ((i - 1) div ?ipg) + 8 + 4 \<le> length gd" using assms(1,4) by (simp add: inodes_ok_def)
  then have gd: "gd_fld 4 gd ((i - 1) div ?ipg) 8 = Some (fld 4 gd (32 * ((i - 1) div ?ipg) + 8))"
    by (simp add: gd_fld_def rd_fld_def)
  have at: "wrap32 (fld 4 gd (32 * ((i - 1) div ?ipg) + 8) * block_size s + (i - 1) mod ?ipg * inode_bytes sb) = inode_at s i"
    using inode_fits(2) [OF assms(1,2)] assms(3,4) by (simp add: inode_at_def Let_def table_at_def wrap32_def)
  show ?thesis using i(3) w gd at assms(1,3)
    by (simp add: inode_place_def Let_def inode_bytes_def EXT2_SECTOR_SIZE_def inodes_ok_def)
qed

text \<open>A piece replaced inside a sector is that piece replaced on the medium.\<close>

lemma blit_sub:
  assumes "a + n \<le> length m" and "q + length c \<le> n"
  shows "blit m a (blit (take n (drop a m)) q c) = blit m (a + q) c"
  using assms by (intro nth_equalityI) (auto simp: length_blit nth_blit)

lemma sector_piece:
  assumes "q + n \<le> 512" and "a + 512 \<le> length m"
  shows "take n (drop q (take 512 (drop a m))) = take n (drop (a + q) m)"
  using assms by (simp add: drop_take add.commute)

lemma read_sector_of:
  assumes "disk_ok s" and "512 * (p div 512 + 1) \<le> length (disk s)"
  shows "disk_read s (p div 512) 1 (replicate 512 0) 0 = Some (True, take 512 (drop (512 * (p div 512)) (disk s)))"
  using disk_read_ok [OF assms(1), of "p div 512" 1 0 "replicate 512 0"] assms(2) by (simp add: blit_def)

lemma ext2_read_inode_ok:
  assumes "inodes_ok s" and "inode_in s i"
  shows "ext2_read_inode s i = Some (Some (ino s i))"
proof -
  obtain sb gd where sb: "superblock s = Some sb" "group_desc s = Some gd" using assms(1) by (auto simp: inodes_ok_def)
  let ?p = "inode_at s i"
  note f = inode_fits [OF assms]
  have d: "disk_ok s" using assms(1) by (simp add: inodes_ok_def)
  have "rd_bytes (take 512 (drop (512 * (?p div 512)) (disk s))) (?p mod 512) 128 = Some (ino s i)"
    using f(3,4) sector_piece [of "?p mod 512" 128 "512 * (?p div 512)" "disk s"] by (simp add: rd_bytes_def ino_def)
  then show ?thesis using inode_place_ok [OF assms sb] read_sector_of [OF d f(4)] assms(2) sb
    by (simp add: ext2_read_inode_def inode_in_def)
qed

lemma ext2_write_inode_ok:
  assumes "inodes_ok s" and "inode_in s i" and "length c = 128"
  shows "ext2_write_inode s i c = Some (True, set_ino s i c)"
proof -
  obtain sb gd where sb: "superblock s = Some sb" "group_desc s = Some gd" using assms(1) by (auto simp: inodes_ok_def)
  let ?p = "inode_at s i"
  let ?sec = "take 512 (drop (512 * (?p div 512)) (disk s))"
  note f = inode_fits [OF assms(1,2)]
  have d: "disk_ok s" using assms(1) by (simp add: inodes_ok_def)
  have ls: "length ?sec = 512" using f(4) by simp
  have m: "memcpy ?sec (?p mod 512) c 0 128 = Some (blit ?sec (?p mod 512) c)"
    using f(3) ls assms(3) by (subst memcpy_blit) simp_all
  have "disk_write s (?p div 512) 1 (blit ?sec (?p mod 512) c) 0 =
      Some (True, set_disk (blit (disk s) (512 * (?p div 512)) (blit ?sec (?p mod 512) c)) s)"
    using disk_write_ok [OF d, of "?p div 512" 1 0 "blit ?sec (?p mod 512) c"] f(3,4) ls assms(3) by (simp add: length_blit)
  moreover have "blit (disk s) (512 * (?p div 512)) (blit ?sec (?p mod 512) c) = blit (disk s) ?p c"
    using blit_sub [of "512 * (?p div 512)" 512 "disk s" "?p mod 512" c] f(3,4) assms(3) by simp
  ultimately show ?thesis using inode_place_ok [OF assms(1,2) sb] read_sector_of [OF d f(4)] m sb
    by (simp add: ext2_write_inode_def set_ino_def)
qed

lemma set_ino_fields [simp]:
  "superblock (set_ino s b c) = superblock s" "group_desc (set_ino s b c) = group_desc s"
  "block_size (set_ino s b c) = block_size s" "blocks_per_group (set_ino s b c) = blocks_per_group s"
  "group_count (set_ino s b c) = group_count s" "ext2_mounted (set_ino s b c) = ext2_mounted s"
  "inodes_per_group (set_ino s b c) = inodes_per_group s" "length (ata_devs (set_ino s b c)) = length (ata_devs s)"
  by (simp_all add: set_ino_def)

lemma inode_at_cong:
  "superblock t = superblock s \<Longrightarrow> group_desc t = group_desc s \<Longrightarrow> block_size t = block_size s \<Longrightarrow> inode_at t i = inode_at s i"
  by (simp add: inode_at_def table_at_def Let_def)

lemma inodes_ok_cong:
  assumes "superblock t = superblock s" and "group_desc t = group_desc s" and "block_size t = block_size s"
    and "group_count t = group_count s" and "disk_ok t" and "length (disk t) = length (disk s)"
  shows "inodes_ok s \<Longrightarrow> inodes_ok t" and "inode_in t i = inode_in s i"
  using assms by (simp_all add: inodes_ok_def inode_in_def table_at_def table_len_def)

lemma set_ino_ok:
  assumes "inodes_ok s" and "inode_in s i" and "length c = 128"
  shows "length (disk (set_ino s i c)) = length (disk s)" and "disk_ok (set_ino s i c)" and "inodes_ok (set_ino s i c)"
    and "inode_in (set_ino s i c) = inode_in s"
proof -
  have d: "disk_ok s" using assms(1) by (simp add: inodes_ok_def)
  have b: "length (blit (disk s) (inode_at s i) c) = length (disk s)" using inode_fits(1) [OF assms(1,2)] assms(3) by (simp add: length_blit)
  then show l: "length (disk (set_ino s i c)) = length (disk s)" using disk_ok_length [OF d] by (simp add: set_ino_def)
  show k: "disk_ok (set_ino s i c)" using d b by (simp add: set_ino_def)
  show "inodes_ok (set_ino s i c)" by (rule inodes_ok_cong(1) [OF _ _ _ _ k l assms(1)]) simp_all
  show "inode_in (set_ino s i c) = inode_in s" using inodes_ok_cong(2) [OF _ _ _ _ k l] by (simp add: fun_eq_iff)
qed

lemma ino_set:
  assumes "inodes_ok s" and "inode_in s i" and "length c = 128" and "inode_in s j"
  shows "ino (set_ino s i c) j = (if j = i then c else ino s j)"
proof -
  have fit: "inode_at s i + length c \<le> length (disk s)" using inode_fits(1) [OF assms(1,2)] assms(3) by simp
  have d: "disk (set_ino s i c) = blit (disk s) (inode_at s i) c"
    using assms(1) disk_ok_length [of s] by (simp add: set_ino_def inodes_ok_def)
  have at: "inode_at (set_ino s i c) k = inode_at s k" for k by (rule inode_at_cong) simp_all
  show ?thesis
  proof (cases "j = i")
    case True
    then show ?thesis using blit_same [OF fit] assms(3) by (simp add: ino_def at d)
  next
    case False
    have "inode_at s j + 128 \<le> inode_at s i \<or> inode_at s i + length c \<le> inode_at s j"
      using inodes_apart [OF assms(1,2,4)] False assms(3) by auto
    then show ?thesis using blit_other [OF fit] False by (simp add: ino_def at d)
  qed
qed

lemma length_ino [simp]: "inodes_ok s \<Longrightarrow> inode_in s i \<Longrightarrow> length (ino s i) = 128"
  using inode_fits(1) [of s i] by (simp add: ino_def)

interpretation inodes: cell_store inodes_ok "\<lambda>s. {i. inode_in s i}" "\<lambda>s. {c. length c = 128}" ext2_read_inode ext2_write_inode
proof
  fix s i
  assume "inodes_ok s" and "i \<in> {i. inode_in s i}"
  then show "\<exists>c \<in> {c. length c = 128}. ext2_read_inode s i = Some (Some c)"
    by (intro bexI [of _ "ino s i"]) (simp_all add: ext2_read_inode_ok)
next
  fix s i and c :: "u8 list"
  assume s: "inodes_ok s" and "i \<in> {i. inode_in s i}" and "c \<in> {c. length c = 128}"
  then have i: "inode_in s i" and c: "length c = 128" by auto
  note ok = set_ino_ok [OF s i c]
  have "\<forall>j. inode_in s j \<longrightarrow> ext2_read_inode (set_ino s i c) j = (if j = i then Some (Some c) else ext2_read_inode s j)"
    using ext2_read_inode_ok [OF ok(3)] ok(4) ext2_read_inode_ok [OF s] ino_set [OF s i c] by simp
  then show "\<exists>s'. ext2_write_inode s i c = Some (True, s') \<and> inodes_ok s' \<and> {i. inode_in s' i} = {i. inode_in s i} \<and>
      {c. length c = 128} = {c. length c = 128} \<and>
      (\<forall>j \<in> {i. inode_in s i}. ext2_read_inode s' j = (if j = i then Some (Some c) else ext2_read_inode s j))"
    using ext2_write_inode_ok [OF s i c] ok by (intro exI [of _ "set_ino s i c"]) auto
qed

section \<open>A small file system\<close>

text \<open>
  An example for the statements below: 65 blocks of 1 KiB in one group, 32 inodes of 128 bytes.  Block 3 is the bitmap of the
  blocks, block 4 that of the inodes, blocks 5 to 8 are the table of inodes.
\<close>

definition demo_sb :: "u8 list" where
  "demo_sb = le_bytes 4 32 @ le_bytes 4 65 @ le_bytes 4 0 @ le_bytes 4 56 @ le_bytes 4 24 @ le_bytes 4 1 @ le_bytes 4 0 @ le_bytes 4 0 @
     le_bytes 4 64 @ le_bytes 4 64 @ le_bytes 4 32 @ replicate 12 0 @ le_bytes 2 61267 @ replicate 30 0 @ le_bytes 2 128 @ replicate 114 0"

definition demo_gd :: "u8 list" where
  "demo_gd = le_bytes 4 3 @ le_bytes 4 4 @ le_bytes 4 5 @ le_bytes 2 56 @ le_bytes 2 24 @ replicate 16 0"

definition demo_fs :: "u8 list \<Rightarrow> ext2_st" where
  "demo_fs m =
     (let none = \<lparr>present = False, capacity_sectors = 0, media = [], faulty = \<lambda>_. False\<rparr>;
          dev = \<lparr>present = True, capacity_sectors = 130, media = m, faulty = \<lambda>_. False\<rparr>
      in \<lparr>superblock = Some demo_sb, block_size = 1024, blocks_per_group = 64, inodes_per_group = 32, group_count = 1,
          group_desc = Some demo_gd, ext2_mounted = True, ata_devs = [none, none, dev, none]\<rparr>)"

lemma fld_skip: "length xs \<le> p \<Longrightarrow> fld n (xs @ ys) p = fld n ys (p - length xs)"
  by (simp add: fld_def)

lemma fld_here: "fld n (le_bytes n v @ ys) 0 = v mod 256 ^ n"
  by (simp add: fld_def le_val_bytes)

lemma demo_fields:
  "length demo_sb = 204" "length demo_gd = 32" "sb_inodes_count demo_sb = 32" "sb_first_data_block demo_sb = 1"
  "sb_inodes_per_group demo_sb = 32" "sb_inode_size demo_sb = 128" "fld 4 demo_gd 0 = 3" "fld 4 demo_gd 4 = 4" "fld 4 demo_gd 8 = 5"
  "fld 2 demo_gd 12 = 56" "fld 2 demo_gd 14 = 24"
  by (simp_all add: demo_sb_def demo_gd_def fld_skip fld_here sb_inodes_count_def sb_first_data_block_def sb_inodes_per_group_def sb_inode_size_def)

lemma demo_fs_fields [simp]:
  "superblock (demo_fs m) = Some demo_sb" "block_size (demo_fs m) = 1024" "blocks_per_group (demo_fs m) = 64"
  "group_count (demo_fs m) = 1" "group_desc (demo_fs m) = Some demo_gd" "ext2_mounted (demo_fs m) = True" "disk (demo_fs m) = m"
  by (simp_all add: demo_fs_def disk_def Let_def numeral_2_eq_2)

lemma demo_disk_ok: "length m = 66560 \<Longrightarrow> disk_ok (demo_fs m)"
  by (simp add: disk_ok_def demo_fs_def healthy_def numeral_2_eq_2 Let_def)

lemma demo_inodes_ok: "length m = 66560 \<Longrightarrow> inodes_ok (demo_fs m)"
  by (simp add: inodes_ok_def demo_disk_ok good_size_def demo_fields table_at_def table_len_def inode_bytes_def)

lemma demo_inode_in: "1 \<le> i \<Longrightarrow> i \<le> 32 \<Longrightarrow> inode_in (demo_fs m) i"
  by (simp add: inode_in_def demo_fields)

lemma demo_block_in: "length m = 66560 \<Longrightarrow> 1 \<le> b \<Longrightarrow> b \<le> 64 \<Longrightarrow> block_in (demo_fs m) b"
  by (simp add: block_in_def)

section \<open>Properties\<close>



text \<open>
  The blocks of a file system are a map.  \<open>ext2_write_block\<close> with a whole block stores it, \<open>ext2_read_block\<close> returns it,
  and no other block changes, for block sizes of 1, 2 and 4 KiB and every block of the disk but block 0.
\<close>

theorem ext2_blocks_are_a_map:
  assumes "blocks_ok s" and "block_in s b" and "length c = block_size s" and "block_in s a" and "off + block_size s \<le> length buf"
  shows "\<exists>s'. ext2_write_block s b c 0 (block_size s) = Some (block_size s, s') \<and> blocks_ok s' \<and>
           ext2_read_block s' a buf off (block_size s) = Some (block_size s, blit buf off (if a = b then c else blk s a))"
proof -
  have d: "disk_ok s" using assms(1) by (simp add: blocks_ok_def)
  note ok = set_blk_ok [OF assms(1-3)]
  have "ext2_read_block (set_blk s b c) a buf off (block_size s) = Some (block_size s, blit buf off (blk (set_blk s b c) a))"
    using ext2_read_block_ok [OF ok(1), of a off buf] assms(4,5) ok(2) by simp
  then show ?thesis using ext2_write_block_ok [OF assms(1,2), of 0 c] assms(3) blk_set [OF d assms(2-4)] ok(1) by auto
qed

theorem ext2_blocks_are_a_map_witness:
  "\<exists>s'. ext2_write_block (demo_fs (replicate 66560 0)) 9 (replicate 1024 7) 0 1024 = Some (1024, s') \<and>
     ext2_read_block s' 10 (replicate 1024 1) 0 1024 = Some (1024, replicate 1024 0)"
proof -
  let ?s = "demo_fs (replicate 66560 0)"
  have "blocks_ok ?s" by (simp add: blocks_ok_def demo_disk_ok good_size_def)
  moreover have "block_in ?s 9" "block_in ?s 10" by (simp_all add: demo_block_in)
  ultimately have "\<exists>s'. ext2_write_block ?s 9 (replicate 1024 7) 0 1024 = Some (1024, s') \<and> blocks_ok s' \<and>
      ext2_read_block s' 10 (replicate 1024 1) 0 1024 = Some (1024, blit (replicate 1024 1) 0 (blk ?s 10))"
    using ext2_blocks_are_a_map [of ?s 9 "replicate 1024 7" 10 0 "replicate 1024 1"] by simp
  moreover have "blk ?s 10 = replicate 1024 0" by (simp add: blk_def)
  ultimately show ?thesis by (auto simp: blit_def)
qed

end
