(* ===== verification/Ext2Alloc.thy ===== *)
theory Ext2Alloc
  imports Ext2Store
begin

text \<open>
  Allocation of blocks and inodes.  The bitmap on disk, the counters in the group descriptors and the numbers handed out
  are related by an invariant; under it \<open>ext2_alloc_block\<close> and \<open>ext2_alloc_inode\<close> are exact: they hand out a number that was
  free as long as there is one, and change nothing else of the bitmaps.
\<close>

section \<open>Bits\<close>

lemma bitmap_byte_div: "bitmap_byte b = b div 8"
proof -
  have "b div 8 = (b div 32 * 4 * 8 + b mod 32) div 8" by simp
  also have "\<dots> = b div 32 * 4 + b mod 32 div 8" by (subst div_mult_self3) simp_all
  finally show ?thesis by (simp add: bitmap_byte_def)
qed

lemma bitmap_mask_mod: "bitmap_mask b = push_bit (b mod 8) 1"
  by (simp add: bitmap_mask_def mod_mod_cancel)

definition bit_of :: "u8 list \<Rightarrow> nat \<Rightarrow> bool" where
  "bit_of bm b = bit (bm ! (b div 8)) (b mod 8)"

lemma mask_test: "x AND bitmap_mask b = 0 \<longleftrightarrow> \<not> bit x (b mod 8)"
  by (simp add: bitmap_mask_mod bit_iff_and_push_bit_not_eq_0)

lemma bitmap_find_lowest:
  assumes "b + k \<le> 8 * length bm"
  shows "\<exists>r. bitmap_find bm b k = Some r \<and>
           (case r of None \<Rightarrow> \<forall>i. b \<le> i \<and> i < b + k \<longrightarrow> bit_of bm i
            | Some j \<Rightarrow> b \<le> j \<and> j < b + k \<and> \<not> bit_of bm j \<and> (\<forall>i. b \<le> i \<and> i < j \<longrightarrow> bit_of bm i))"
  using assms
proof (induction k arbitrary: b)
  case (Suc k)
  have "b div 8 < length bm" using Suc.prems by (simp add: less_mult_imp_div_less mult.commute)
  then have r: "rd bm (bitmap_byte b) = Some (bm ! (b div 8))" by (simp add: bitmap_byte_div rd_in)
  show ?case
  proof (cases "bit_of bm b")
    case True
    obtain q where q: "bitmap_find bm (Suc b) k = Some q"
      "case q of None \<Rightarrow> \<forall>i. Suc b \<le> i \<and> i < Suc b + k \<longrightarrow> bit_of bm i
       | Some j \<Rightarrow> Suc b \<le> j \<and> j < Suc b + k \<and> \<not> bit_of bm j \<and> (\<forall>i. Suc b \<le> i \<and> i < j \<longrightarrow> bit_of bm i)"
      using Suc.IH [of "Suc b"] Suc.prems by auto
    have "bitmap_find bm b (Suc k) = Some q" using r True q(1) by (simp add: mask_test bit_of_def)
    then show ?thesis using q(2) True by (auto split: option.splits simp: Suc_le_eq nat_less_le)
  next
    case False
    then show ?thesis using r by (auto simp: mask_test bit_of_def)
  qed
qed auto

lemma bit_of_update:
  assumes "b div 8 < length bm"
  shows "bit_of (bm[b div 8 := bm ! (b div 8) OR bitmap_mask b]) i = (i = b \<or> bit_of bm i)"
    and "bit_of (bm[b div 8 := bm ! (b div 8) AND NOT (bitmap_mask b)]) i = (i \<noteq> b \<and> bit_of bm i)"
proof -
  have m: "bit (bitmap_mask b) (i mod 8) = (i mod 8 = b mod 8)" by (auto simp: bitmap_mask_mod bit_simps)
  have e: "i div 8 = b div 8 \<Longrightarrow> i mod 8 = b mod 8 \<longleftrightarrow> i = b" by (metis div_mult_mod_eq)
  have l: "i mod 8 < LENGTH(8)" by simp
  show "bit_of (bm[b div 8 := bm ! (b div 8) OR bitmap_mask b]) i = (i = b \<or> bit_of bm i)"
    using assms m e by (cases "i div 8 = b div 8") (auto simp: bit_of_def bit_or_iff)
  show "bit_of (bm[b div 8 := bm ! (b div 8) AND NOT (bitmap_mask b)]) i = (i \<noteq> b \<and> bit_of bm i)"
    using assms m e l by (cases "i div 8 = b div 8") (auto simp: bit_of_def bit_and_iff bit_not_iff)
qed

section \<open>Metadata\<close>

definition gd_blk :: "ext2_st \<Rightarrow> nat" where
  "gd_blk s = 1024 div block_size s + 1"

text \<open>The block that holds a bitmap of a group, and the counter of a group.\<close>

definition bm_blk :: "nat \<Rightarrow> ext2_st \<Rightarrow> nat \<Rightarrow> nat" where
  "bm_blk p s g = fld 4 (the (group_desc s)) (32 * g + p)"

definition free_count :: "nat \<Rightarrow> ext2_st \<Rightarrow> nat \<Rightarrow> nat" where
  "free_count q s g = fld 2 (the (group_desc s)) (32 * g + q)"

definition used_bit :: "nat \<Rightarrow> ext2_st \<Rightarrow> nat \<Rightarrow> nat \<Rightarrow> bool" where
  "used_bit p s g b = bit_of (blk s (bm_blk p s g)) b"

text \<open>
  The superblock and the descriptors are loaded, the descriptors fit in one block, and the bitmaps are blocks of their own
  behind it.
\<close>

definition meta_ok :: "ext2_st \<Rightarrow> bool" where
  "meta_ok s \<longleftrightarrow> disk_ok s \<and> block_size s \<in> {1024, 2048} \<and> superblock s \<noteq> None \<and> length (the (superblock s)) = 204 \<and>
     group_desc s \<noteq> None \<and> length (the (group_desc s)) = 32 * group_count s \<and> 32 * group_count s \<le> block_size s \<and>
     block_in s (gd_blk s) \<and>
     (\<forall>p \<in> {0, 4}. \<forall>g < group_count s. gd_blk s < bm_blk p s g \<and> block_in s (bm_blk p s g) \<and>
        (\<forall>q \<in> {0, 4}. \<forall>h < group_count s. (p, g) \<noteq> (q, h) \<longrightarrow> bm_blk p s g \<noteq> bm_blk q s h))"

lemma meta_ok_blocks: "meta_ok s \<Longrightarrow> blocks_ok s"
  by (auto simp: meta_ok_def blocks_ok_def good_size_def)

lemma meta_bitmap:
  "meta_ok s \<Longrightarrow> p \<in> {0, 4} \<Longrightarrow> g < group_count s \<Longrightarrow> gd_blk s < bm_blk p s g \<and> block_in s (bm_blk p s g)"
  unfolding meta_ok_def by blast

lemma meta_apart:
  assumes "meta_ok s" and "p \<in> {0, 4}" and "q \<in> {0, 4}" and "g < group_count s" and "h < group_count s" and "(p, g) \<noteq> (q, h)"
  shows "bm_blk p s g \<noteq> bm_blk q s h"
proof -
  have "\<forall>p \<in> {0, 4}. \<forall>g < group_count s. gd_blk s < bm_blk p s g \<and> block_in s (bm_blk p s g) \<and>
      (\<forall>q \<in> {0, 4}. \<forall>h < group_count s. (p, g) \<noteq> (q, h) \<longrightarrow> bm_blk p s g \<noteq> bm_blk q s h)"
    using assms(1) unfolding meta_ok_def by (elim conjE)
  from this [THEN bspec, OF assms(2), THEN spec, THEN mp, OF assms(4)]
  have "\<forall>q \<in> {0, 4}. \<forall>h < group_count s. (p, g) \<noteq> (q, h) \<longrightarrow> bm_blk p s g \<noteq> bm_blk q s h" by (elim conjE)
  from this [THEN bspec, OF assms(3), THEN spec, THEN mp, OF assms(5), THEN mp, OF assms(6)] show ?thesis .
qed

lemma meta_SomeE:
  assumes "meta_ok s"
  obtains sb gd where "superblock s = Some sb" "length sb = 204" "group_desc s = Some gd" "length gd = 32 * group_count s"
  using assms by (auto simp: meta_ok_def)

definition persisted :: "ext2_st \<Rightarrow> ext2_st" where
  "persisted s = set_disk (blit (blit (disk s) 1024 (the (superblock s))) (gd_blk s * block_size s) (the (group_desc s))) s"

lemma ext2_persist_ok:
  assumes "meta_ok s"
  shows "ext2_persist s = Some (persisted s)"
proof -
  obtain sb gd where sb: "superblock s = Some sb" "length sb = 204" "group_desc s = Some gd" "length gd = 32 * group_count s"
    by (rule meta_SomeE [OF assms])
  let ?bs = "block_size s" and ?m = "disk s"
  have d: "disk_ok s" and gb: "block_in s (gd_blk s)" and gl: "length gd \<le> ?bs" and bs: "?bs = 1024 \<or> ?bs = 2048"
    using assms sb by (auto simp: meta_ok_def)
  have k: "gd_blk s = (if ?bs = 1024 then 2 else 1)" using bs by (auto simp: gd_blk_def)
  have lm: "2048 \<le> length ?m" "gd_blk s * ?bs + ?bs \<le> length ?m" using gb bs k by (auto simp: block_in_def split: if_splits)
  let ?sec = "take 512 (drop 1024 ?m)"
  have r1: "disk_read s 2 1 (replicate 512 0) 0 = Some (True, ?sec)" using read_sector_of [OF d, of 1024] lm(1) by simp
  have m1: "memcpy ?sec 0 sb 0 204 = Some (blit ?sec 0 sb)" using lm(1) sb(2) by (subst memcpy_blit) simp_all
  define m1' where "m1' = blit ?m 1024 sb"
  have lm1: "length m1' = length ?m" using lm(1) sb(2) by (simp add: m1'_def length_blit)
  define s1 where "s1 = set_disk m1' s"
  have "blit ?m 1024 (blit ?sec 0 sb) = m1'" using blit_sub [of 1024 512 ?m 0 sb] lm(1) sb(2) by (simp add: m1'_def)
  then have w1: "disk_write s 2 1 (blit ?sec 0 sb) 0 = Some (True, s1)"
    using disk_write_ok [OF d, of 2 1 0 "blit ?sec 0 sb"] lm(1) sb(2) by (simp add: length_blit s1_def)
  have d1: "disk_ok s1" "disk s1 = m1'" using d lm1 disk_ok_length [OF d] by (simp_all add: s1_def)
  have b1: "blocks_ok s1" "block_in s1 (gd_blk s)" using d1 assms gb lm1 by (auto simp: blocks_ok_def meta_ok_def good_size_def s1_def block_in_def)
  have sec: "ext2_gd_sector s1 = Some (gd_blk s * (?bs div 512))"
    using bs by (auto simp: ext2_gd_sector_def s1_def gd_blk_def EXT2_SUPERBLOCK_OFFSET_def EXT2_SECTOR_SIZE_def wrap32_def)
  have bs1: "block_size s1 = ?bs" "blk s1 (gd_blk s) = take ?bs (drop (gd_blk s * ?bs) m1')" by (simp_all add: s1_def blk_def d1(2) [unfolded s1_def])
  let ?z = "replicate 2048 0 :: u8 list" and ?b = "blk s1 (gd_blk s)"
  have lb: "length ?b = ?bs" using b1(2) bs1(1) by simp
  have r2: "disk_read s1 (gd_blk s * (?bs div 512)) (?bs div 512) ?z 0 = Some (True, blit ?z 0 ?b)"
    using block_read [OF b1, of 0 ?z] bs bs1(1) by auto
  have m2: "memcpy (blit ?z 0 ?b) 0 gd 0 (32 * group_count s) = Some (blit (blit ?z 0 ?b) 0 gd)"
    using lb bs gl sb(4) by (subst memcpy_blit) (auto simp: length_blit)
  have tk: "take ?bs (blit (blit ?z 0 ?b) 0 gd) = blit ?b 0 gd"
    using lb bs gl by (intro nth_equalityI) (auto simp: length_blit nth_blit)
  have "disk_write s1 (gd_blk s * (?bs div 512)) (?bs div 512) (blit (blit ?z 0 ?b) 0 gd) 0 = Some (True, set_blk s1 (gd_blk s) (blit ?b 0 gd))"
    using block_write [OF b1, of 0 "blit (blit ?z 0 ?b) 0 gd"] bs bs1(1) lb gl tk by (auto simp: length_blit)
  moreover have "blit m1' (gd_blk s * ?bs) (blit ?b 0 gd) = blit m1' (gd_blk s * ?bs) gd"
    unfolding bs1(2) using blit_sub [of "gd_blk s * ?bs" ?bs m1' 0 gd] lm(2) lm1 gl by simp
  moreover have "set_disk x s1 = set_disk x s" for x using disk_ok_length [OF d] by (simp add: s1_def set_disk_def)
  ultimately have w2: "disk_write s1 (gd_blk s * (?bs div 512)) (?bs div 512) (blit (blit ?z 0 ?b) 0 gd) 0 = Some (True, persisted s)"
    by (simp add: persisted_def set_blk_def sb m1'_def bs1(1) d1(2))
  have gc: "group_count s1 = group_count s" "block_size s1 = ?bs" by (simp_all add: s1_def)
  show ?thesis using r1 m1 w1 sec r2 m2 w2 gc
    by (simp add: ext2_persist_def sb EXT2_SUPERBLOCK_OFFSET_def EXT2_SECTOR_SIZE_def)
qed

lemma persisted_fields [simp]:
  "superblock (persisted s) = superblock s" "group_desc (persisted s) = group_desc s"
  "block_size (persisted s) = block_size s" "blocks_per_group (persisted s) = blocks_per_group s"
  "group_count (persisted s) = group_count s" "ext2_mounted (persisted s) = ext2_mounted s"
  "inodes_per_group (persisted s) = inodes_per_group s" "gd_blk (persisted s) = gd_blk s"
  "bm_blk p (persisted s) g = bm_blk p s g" "free_count q (persisted s) g = free_count q s g"
  by (simp_all add: persisted_def gd_blk_def bm_blk_def free_count_def)

lemma persisted_disk:
  assumes "meta_ok s"
  shows "disk_ok (persisted s)" and "length (disk (persisted s)) = length (disk s)"
    and "block_in (persisted s) = block_in s"
    and "block_in s x \<Longrightarrow> gd_blk s < x \<Longrightarrow> blk (persisted s) x = blk s x"
    and "take 204 (drop 1024 (disk (persisted s))) = the (superblock s)"
    and "take (32 * group_count s) (drop (gd_blk s * block_size s) (disk (persisted s))) = the (group_desc s)"
proof -
  obtain sb gd where sb: "superblock s = Some sb" "length sb = 204" "group_desc s = Some gd" "length gd = 32 * group_count s"
    by (rule meta_SomeE [OF assms])
  let ?bs = "block_size s" and ?m = "disk s"
  have d: "disk_ok s" and gb: "block_in s (gd_blk s)" and gl: "length gd \<le> ?bs" and bs: "?bs = 1024 \<or> ?bs = 2048"
    using assms sb by (auto simp: meta_ok_def)
  have k: "gd_blk s = (if ?bs = 1024 then 2 else 1)" using bs by (auto simp: gd_blk_def)
  define a where "a = gd_blk s * ?bs"
  have a: "2048 \<le> a" using k bs by (auto simp: a_def)
  have lm: "a + ?bs \<le> length ?m" using gb by (simp add: block_in_def a_def)
  let ?m1 = "blit ?m 1024 sb"
  have l1: "length ?m1 = length ?m" using lm a sb(2) by (simp add: length_blit)
  have l2: "length (blit ?m1 a gd) = length ?m" using lm gl l1 by (simp add: length_blit)
  have dk: "disk (persisted s) = blit ?m1 a gd" using disk_ok_length [OF d] by (simp add: persisted_def sb a_def)
  show "length (disk (persisted s)) = length (disk s)" using dk l2 by simp
  then show "block_in (persisted s) = block_in s" by (simp add: block_in_def fun_eq_iff)
  show "disk_ok (persisted s)" using d l2 by (simp add: persisted_def sb a_def [symmetric])
  have f1: "1024 + length sb \<le> length ?m" and f2: "a + length gd \<le> length ?m1" using lm a gl sb(2) l1 by auto
  show "take 204 (drop 1024 (disk (persisted s))) = the (superblock s)"
    using blit_other [OF f2, of 1024 204] blit_same [OF f1] a sb dk by simp
  show "take (32 * group_count s) (drop (gd_blk s * block_size s) (disk (persisted s))) = the (group_desc s)"
    using blit_same [OF f2] sb dk by (simp add: a_def)
  show "blk (persisted s) x = blk s x" if x: "block_in s x" "gd_blk s < x"
  proof -
    have "Suc (gd_blk s) * ?bs \<le> x * ?bs" using x(2) by (intro mult_le_mono1) simp
    then have xa: "a + ?bs \<le> x * ?bs" by (simp add: a_def)
    have "take ?bs (drop (x * ?bs) (blit ?m1 a gd)) = take ?bs (drop (x * ?bs) ?m1)" using xa gl by (intro blit_other [OF f2]) simp
    also have "\<dots> = take ?bs (drop (x * ?bs) ?m)" using xa a sb(2) by (intro blit_other [OF f1]) simp
    finally show ?thesis by (simp add: blk_def dk)
  qed
qed

text \<open>The superblock and the group descriptors on disk are those in memory.\<close>

definition on_disk :: "ext2_st \<Rightarrow> bool" where
  "on_disk s \<longleftrightarrow> take 204 (drop 1024 (disk s)) = the (superblock s) \<and>
     take (32 * group_count s) (drop (gd_blk s * block_size s) (disk s)) = the (group_desc s)"

lemma on_disk_persisted: "meta_ok s \<Longrightarrow> on_disk (persisted s)"
  using persisted_disk(5,6) [of s] by (simp add: on_disk_def)

section \<open>Setting and clearing a bit\<close>

text \<open>
  Which bitmap (\<open>p\<close>), counter of the group (\<open>q\<close>) and counter of the superblock (\<open>r\<close>) belong together.
\<close>

definition kind_ok :: "nat \<Rightarrow> nat \<Rightarrow> nat \<Rightarrow> bool" where
  "kind_ok p q r \<longleftrightarrow> (p, q, r) = (0, 12, 12) \<or> (p, q, r) = (4, 14, 16)"

definition count_gd :: "nat \<Rightarrow> int \<Rightarrow> u8 list \<Rightarrow> nat \<Rightarrow> u8 list" where
  "count_gd q d gd g = set_fld 2 gd (32 * g + q) (nat ((int (fld 2 gd (32 * g + q)) + d) mod 65536))"

text \<open>The state with the counters changed, in memory.\<close>

definition counted :: "nat \<Rightarrow> nat \<Rightarrow> int \<Rightarrow> nat \<Rightarrow> ext2_st \<Rightarrow> ext2_st" where
  "counted q r d g s = s\<lparr>group_desc := Some (count_gd q d (the (group_desc s)) g), superblock := Some (sb_count r d (the (superblock s)))\<rparr>"

lemma counted_fields [simp]:
  "block_size (counted q r d g s) = block_size s" "blocks_per_group (counted q r d g s) = blocks_per_group s"
  "group_count (counted q r d g s) = group_count s" "ext2_mounted (counted q r d g s) = ext2_mounted s"
  "inodes_per_group (counted q r d g s) = inodes_per_group s" "gd_blk (counted q r d g s) = gd_blk s"
  "disk (counted q r d g s) = disk s" "block_in (counted q r d g s) = block_in s" "blk (counted q r d g s) = blk s"
  "disk_ok (counted q r d g s) = disk_ok s"
  by (simp_all add: counted_def gd_blk_def disk_def block_in_def blk_def disk_ok_def fun_eq_iff)

lemma gd_room: "g < n \<Longrightarrow> length gd = 32 * n \<Longrightarrow> k \<le> 32 \<Longrightarrow> 32 * g + k \<le> length gd"
  by simp

lemma gd_field_counted:
  assumes "kind_ok p q r" and "g < n" and "length gd = 32 * n" and "k \<in> {0, 4, 8}"
  shows "fld 4 (count_gd q d gd g) (32 * h + k) = fld 4 gd (32 * h + k)"
proof -
  have q: "q = 12 \<or> q = 14" using assms(1) by (auto simp: kind_ok_def)
  have "32 * h + k + 4 \<le> 32 * g + q \<or> 32 * g + q + 2 \<le> 32 * h + k"
  proof -
    have "32 * h \<le> 32 * g \<or> 32 * g + 32 \<le> 32 * h" by (cases "h \<le> g") auto
    then show ?thesis using q assms(4) by auto
  qed
  then show ?thesis using gd_room [OF assms(2,3), of "q + 2"] q unfolding count_gd_def by (intro fld_set_other) auto
qed

lemma gd_count_counted:
  assumes "kind_ok p q r" and "kind_ok p' q' r'" and "g < n" and "length gd = 32 * n"
  shows "fld 2 (count_gd q d gd g) (32 * h + q') =
    (if h = g \<and> q' = q then nat ((int (fld 2 gd (32 * g + q)) + d) mod 65536) else fld 2 gd (32 * h + q'))"
proof -
  have q: "q = 12 \<or> q = 14" "q' = 12 \<or> q' = 14" using assms(1,2) by (auto simp: kind_ok_def)
  have room: "32 * g + q + 2 \<le> length gd" using gd_room [OF assms(3,4), of "q + 2"] q by auto
  show ?thesis
  proof (cases "h = g \<and> q' = q")
    case True
    have "nat (x mod 65536) < 65536" for x :: int by simp
    then show ?thesis using True fld_set_same [OF room] by (simp add: count_gd_def)
  next
    case False
    then have "32 * h + q' + 2 \<le> 32 * g + q \<or> 32 * g + q + 2 \<le> 32 * h + q'" using q by (cases "h < g"; cases "g < h") auto
    then have "fld 2 (count_gd q d gd g) (32 * h + q') = fld 2 gd (32 * h + q')" unfolding count_gd_def by (intro fld_set_other [OF room])
    then show ?thesis by (simp only: if_not_P [OF False])
  qed
qed

lemma length_count_gd: "kind_ok p q r \<Longrightarrow> g < n \<Longrightarrow> length gd = 32 * n \<Longrightarrow> length (count_gd q d gd g) = 32 * n"
  unfolding count_gd_def by (subst length_set_fld) (auto simp: kind_ok_def)

lemma sb_count_fields:
  assumes "kind_ok p q r" and "length sb = 204"
  shows "length (sb_count r d sb) = 204" and "sb_inodes_count (sb_count r d sb) = sb_inodes_count sb"
    and "sb_first_data_block (sb_count r d sb) = sb_first_data_block sb"
    and "sb_inodes_per_group (sb_count r d sb) = sb_inodes_per_group sb" and "sb_inode_size (sb_count r d sb) = sb_inode_size sb"
proof -
  have r: "r = 12 \<or> r = 16" using assms(1) by (auto simp: kind_ok_def)
  then have room: "r + 4 \<le> length sb" using assms(2) by auto
  show "length (sb_count r d sb) = 204" using room assms(2) by (simp add: sb_count_def)
  show "sb_inodes_count (sb_count r d sb) = sb_inodes_count sb" "sb_first_data_block (sb_count r d sb) = sb_first_data_block sb"
    "sb_inodes_per_group (sb_count r d sb) = sb_inodes_per_group sb" "sb_inode_size (sb_count r d sb) = sb_inode_size sb"
    unfolding sb_count_def sb_inodes_count_def sb_first_data_block_def sb_inodes_per_group_def sb_inode_size_def
    using r by (intro fld_set_other [OF room]; auto)+
qed

lemma counted_meta:
  assumes "meta_ok s" and "kind_ok p q r" and "g < group_count s"
  shows "meta_ok (counted q r d g s)" and "bm_blk a (counted q r d g s) h = bm_blk a s h \<or> a \<notin> {0, 4}"
    and "kind_ok p' q' r' \<Longrightarrow> free_count q' (counted q r d g s) h =
      (if h = g \<and> q' = q then nat ((int (free_count q s g) + d) mod 65536) else free_count q' s h)"
proof -
  obtain sb gd where sb: "superblock s = Some sb" "length sb = 204" "group_desc s = Some gd" "length gd = 32 * group_count s"
    by (rule meta_SomeE [OF assms(1)])
  have bm: "bm_blk a (counted q r d g s) h = bm_blk a s h" if "a \<in> {0, 4}" for a h
    using gd_field_counted [OF assms(2,3) sb(4), of a d h] that by (auto simp: bm_blk_def counted_def sb)
  then show "bm_blk a (counted q r d g s) h = bm_blk a s h \<or> a \<notin> {0, 4}" by blast
  show "kind_ok p' q' r' \<Longrightarrow> free_count q' (counted q r d g s) h =
      (if h = g \<and> q' = q then nat ((int (free_count q s g) + d) mod 65536) else free_count q' s h)"
    using gd_count_counted [OF assms(2) _ assms(3) sb(4)] by (simp add: free_count_def counted_def sb)
  have len: "length (count_gd q d gd g) = 32 * group_count s" "length (sb_count r d sb) = 204"
    using length_count_gd [OF assms(2,3) sb(4)] sb_count_fields(1) [OF assms(2) sb(2)] by auto
  have sd: "superblock (counted q r d g s) = Some (sb_count r d sb)" "group_desc (counted q r d g s) = Some (count_gd q d gd g)"
    by (simp_all add: counted_def sb)
  show "meta_ok (counted q r d g s)" using assms(1) bm len by (simp add: meta_ok_def sd)
qed

lemma set_blk_meta:
  assumes "meta_ok s" and "block_in s b" and "length c = block_size s"
  shows "meta_ok (set_blk s b c)" and "bm_blk p (set_blk s b c) = bm_blk p s" and "free_count q (set_blk s b c) = free_count q s"
    and "gd_blk (set_blk s b c) = gd_blk s"
proof -
  note ok = set_blk_ok [OF meta_ok_blocks [OF assms(1)] assms(2,3)]
  show bm: "bm_blk p (set_blk s b c) = bm_blk p s" for p by (simp add: bm_blk_def fun_eq_iff)
  show "free_count q (set_blk s b c) = free_count q s" by (simp add: free_count_def fun_eq_iff)
  show gb: "gd_blk (set_blk s b c) = gd_blk s" by (simp add: gd_blk_def)
  show "meta_ok (set_blk s b c)" using assms(1) ok by (simp add: meta_ok_def bm gb blocks_ok_def)
qed

lemma persisted_meta: "meta_ok s \<Longrightarrow> meta_ok (persisted s)"
  using persisted_disk(1,3) [of s] by (simp add: meta_ok_def)

text \<open>The bitmap of a group, loaded into a buffer and written back.\<close>

definition bm_buf :: "nat \<Rightarrow> ext2_st \<Rightarrow> nat \<Rightarrow> u8 list" where
  "bm_buf p s g = blit (replicate 4096 0) 0 (blk s (bm_blk p s g))"

definition bm_new :: "(u8 \<Rightarrow> u8 \<Rightarrow> u8) \<Rightarrow> nat \<Rightarrow> ext2_st \<Rightarrow> nat \<Rightarrow> nat \<Rightarrow> ext2_st" where
  "bm_new f p s g b =
     (let m = blk s (bm_blk p s g) in set_blk s (bm_blk p s g) (m[b div 8 := f (m ! (b div 8)) (bitmap_mask b)]))"

lemma bitmap_transfer:
  assumes "meta_ok s" and "p \<in> {0, 4}" and "g < group_count s"
  shows "ext2_read_bitmap p s g (replicate 4096 0) = Some (bm_buf p s g)" and "length (bm_buf p s g) = 4096"
    and "b < 8 * block_size s \<Longrightarrow> bit_of (bm_buf p s g) b = used_bit p s g b"
    and "b < 8 * block_size s \<Longrightarrow>
      do { bm \<leftarrow> bitmap_update f (bm_buf p s g) b; ext2_write_bitmap p s g bm } = Some (bm_new f p s g b)"
proof -
  obtain sb gd where sb: "superblock s = Some sb" "length sb = 204" "group_desc s = Some gd" "length gd = 32 * group_count s"
    by (rule meta_SomeE [OF assms(1)])
  let ?B = "bm_blk p s g" and ?z = "replicate 4096 0 :: u8 list"
  have B: "block_in s ?B" using meta_bitmap [OF assms] by simp
  have bs: "block_size s = 1024 \<or> block_size s = 2048" using assms(1) by (simp add: meta_ok_def)
  have fd: "gd_fld 4 gd g p = Some ?B"
    using gd_room [OF assms(3) sb(4), of "p + 4"] assms(2) by (auto simp: gd_fld_def rd_fld_def bm_blk_def sb)
  note bok = meta_ok_blocks [OF assms(1)]
  note sec = block_sectors(1) [OF bok B]
  have "disk_read s (?B * (block_size s div 512)) (block_size s div 512) ?z 0 = Some (True, bm_buf p s g)"
    using block_read [OF bok B, of 0 ?z] bs by (auto simp: bm_buf_def)
  then show "ext2_read_bitmap p s g ?z = Some (bm_buf p s g)"
    by (simp add: ext2_read_bitmap_def sb(3) fd EXT2_SECTOR_SIZE_def sec)
  have lb: "length (blk s ?B) = block_size s" using B by simp
  show l: "length (bm_buf p s g) = 4096" using lb bs by (auto simp: bm_buf_def length_blit)
  have nth: "bm_buf p s g ! i = blk s ?B ! i" if "i < block_size s" for i
    using that lb bs by (auto simp: bm_buf_def nth_blit)
  have b8: "b div 8 < block_size s" if "b < 8 * block_size s" using that by (simp add: less_mult_imp_div_less mult.commute)
  show "bit_of (bm_buf p s g) b = used_bit p s g b" if "b < 8 * block_size s"
    using nth b8 [OF that] by (simp add: bit_of_def used_bit_def)
  show "do { bm \<leftarrow> bitmap_update f (bm_buf p s g) b; ext2_write_bitmap p s g bm } = Some (bm_new f p s g b)"
    if b: "b < 8 * block_size s"
  proof -
    let ?v = "f (blk s ?B ! (b div 8)) (bitmap_mask b)"
    have u: "bitmap_update f (bm_buf p s g) b = Some ((bm_buf p s g)[b div 8 := ?v])"
      using b8 [OF b] l nth bs by (auto simp: bitmap_update_def bitmap_byte_div rd_in wr_in)
    have "take (block_size s) ((bm_buf p s g)[b div 8 := ?v]) = (blk s ?B)[b div 8 := ?v]"
      using l lb nth bs b8 [OF b] by (intro nth_equalityI) (auto simp: nth_list_update)
    then have "disk_write s (?B * (block_size s div 512)) (block_size s div 512) ((bm_buf p s g)[b div 8 := ?v]) 0 = Some (True, bm_new f p s g b)"
      using block_write [OF bok B, of 0 "(bm_buf p s g)[b div 8 := ?v]"] l bs by (auto simp: bm_new_def Let_def)
    then show ?thesis by (simp add: u ext2_write_bitmap_def sb(3) fd EXT2_SECTOR_SIZE_def sec)
  qed
qed

lemma bm_new_ok:
  assumes "meta_ok s" and "p \<in> {0, 4}" and "g < group_count s" and "b < 8 * block_size s"
  shows "meta_ok (bm_new f p s g b)" and "bm_blk a (bm_new f p s g b) = bm_blk a s"
    and "free_count q (bm_new f p s g b) = free_count q s" and "gd_blk (bm_new f p s g b) = gd_blk s"
    and "block_in (bm_new f p s g b) = block_in s"
    and "block_in s x \<Longrightarrow> x \<noteq> bm_blk p s g \<Longrightarrow> blk (bm_new f p s g b) x = blk s x"
    and "blk (bm_new f p s g b) (bm_blk p s g) =
      (blk s (bm_blk p s g))[b div 8 := f (blk s (bm_blk p s g) ! (b div 8)) (bitmap_mask b)]"
proof -
  let ?B = "bm_blk p s g"
  have B: "block_in s ?B" using meta_bitmap [OF assms(1-3)] by simp
  have d: "disk_ok s" using assms(1) by (simp add: meta_ok_def)
  have l: "length ((blk s ?B)[b div 8 := f (blk s ?B ! (b div 8)) (bitmap_mask b)]) = block_size s" using B by simp
  note m = set_blk_meta [OF assms(1) B l] and k = set_blk_ok(2) [OF meta_ok_blocks [OF assms(1)] B l] and v = blk_set [OF d B l]
  show "meta_ok (bm_new f p s g b)" "bm_blk a (bm_new f p s g b) = bm_blk a s" "free_count q (bm_new f p s g b) = free_count q s"
    "gd_blk (bm_new f p s g b) = gd_blk s" "block_in (bm_new f p s g b) = block_in s"
    using m k by (simp_all add: bm_new_def Let_def)
  show "block_in s x \<Longrightarrow> x \<noteq> bm_blk p s g \<Longrightarrow> blk (bm_new f p s g b) x = blk s x"
    and "blk (bm_new f p s g b) ?B = (blk s ?B)[b div 8 := f (blk s ?B ! (b div 8)) (bitmap_mask b)]"
    using v B by (simp_all add: bm_new_def Let_def)
qed

lemma bm_new_fields [simp]:
  "superblock (bm_new f p s g b) = superblock s" "group_desc (bm_new f p s g b) = group_desc s"
  "block_size (bm_new f p s g b) = block_size s" "blocks_per_group (bm_new f p s g b) = blocks_per_group s"
  "group_count (bm_new f p s g b) = group_count s" "ext2_mounted (bm_new f p s g b) = ext2_mounted s"
  "inodes_per_group (bm_new f p s g b) = inodes_per_group s"
  by (simp_all add: bm_new_def Let_def)

lemma bm_new_bits:
  assumes "meta_ok s" and "p \<in> {0, 4}" and "g < group_count s" and "b < 8 * block_size s" and "a \<in> {0, 4}" and "h < group_count s"
  shows "used_bit a (bm_new (OR) p s g b) h i = (used_bit a s h i \<or> (a, h, i) = (p, g, b))"
    and "used_bit a (bm_new (\<lambda>x m. x AND NOT m) p s g b) h i = (used_bit a s h i \<and> (a, h, i) \<noteq> (p, g, b))"
proof -
  note ok = bm_new_ok [OF assms(1-4)]
  have B: "block_in s (bm_blk p s g)" "block_in s (bm_blk a s h)" using meta_bitmap [OF assms(1)] assms(2,3,5,6) by auto
  have l: "b div 8 < length (blk s (bm_blk p s g))" using B(1) assms(4) by (simp add: less_mult_imp_div_less mult.commute)
  have "used_bit a (bm_new (OR) p s g b) h i = (used_bit a s h i \<or> (a, h, i) = (p, g, b)) \<and>
    used_bit a (bm_new (\<lambda>x m. x AND NOT m) p s g b) h i = (used_bit a s h i \<and> (a, h, i) \<noteq> (p, g, b))"
  proof (cases "(a, h) = (p, g)")
    case True
    then show ?thesis using bit_of_update [OF l, of i] by (auto simp: used_bit_def ok(2,7))
  next
    case False
    then have "bm_blk a s h \<noteq> bm_blk p s g" using meta_apart [OF assms(1,5,2,6,3)] by blast
    then have "blk (bm_new f p s g b) (bm_blk a s h) = blk s (bm_blk a s h)" for f using ok(6) [OF B(2)] by blast
    then show ?thesis using False by (auto simp: used_bit_def ok(2))
  qed
  then show "used_bit a (bm_new (OR) p s g b) h i = (used_bit a s h i \<or> (a, h, i) = (p, g, b))"
    "used_bit a (bm_new (\<lambda>x m. x AND NOT m) p s g b) h i = (used_bit a s h i \<and> (a, h, i) \<noteq> (p, g, b))" by blast+
qed

text \<open>Both updates of a bit, with what they change and what they leave.\<close>

definition bit_changed :: "nat \<Rightarrow> nat \<Rightarrow> nat \<Rightarrow> bool \<Rightarrow> ext2_st \<Rightarrow> ext2_st \<Rightarrow> nat \<Rightarrow> nat \<Rightarrow> bool" where
  "bit_changed p q r v s s' g b \<longleftrightarrow> meta_ok s' \<and>
     block_size s' = block_size s \<and> blocks_per_group s' = blocks_per_group s \<and> group_count s' = group_count s \<and>
     ext2_mounted s' = ext2_mounted s \<and> block_in s' = block_in s \<and> length (disk s') = length (disk s) \<and> gd_blk s' = gd_blk s \<and>
     superblock s' = Some (sb_count r (if v then - 1 else 1) (the (superblock s))) \<and>
     group_desc s' = Some (count_gd q (if v then - 1 else 1) (the (group_desc s)) g) \<and>
     (\<forall>a \<in> {0, 4}. \<forall>h < group_count s. \<forall>i. used_bit a s' h i = (if (a, h, i) = (p, g, b) then v else used_bit a s h i)) \<and>
     (\<forall>x. block_in s x \<and> gd_blk s < x \<and> x \<noteq> bm_blk p s g \<longrightarrow> blk s' x = blk s x)"

lemma kind_p: "kind_ok p q r \<Longrightarrow> p \<in> {0, 4}"
  by (auto simp: kind_ok_def)

lemma gd_count_ok: "kind_ok p q r \<Longrightarrow> g < n \<Longrightarrow> length gd = 32 * n \<Longrightarrow> gd_count q d gd g = Some (count_gd q d gd g)"
  by (auto simp: gd_count_def gd_fld_def rd_fld_def wr_fld_def count_gd_def kind_ok_def)

lemma bit_changed_counted:
  assumes "meta_ok s" and "kind_ok p q r" and "g < group_count s" and "b < 8 * block_size s"
    and "(f, d, v) = ((OR), - 1, True) \<or> (f, d, v) = (\<lambda>x m. x AND NOT m, 1, False)"
  shows "bit_changed p q r v s (counted q r d g (bm_new f p s g b)) g b"
proof -
  note p = kind_p [OF assms(2)]
  define s1 where "s1 = bm_new f p s g b"
  define s2 where "s2 = counted q r d g s1"
  note n = bm_new_ok [OF assms(1) p assms(3,4), where f = f, folded s1_def]
  have g1: "g < group_count s1" using assms(3) by (simp add: s1_def)
  note c = counted_meta [OF n(1) assms(2) g1, where d = d, folded s2_def]
  have bm: "bm_blk a s2 h = bm_blk a s h" if "a \<in> {0, 4}" for a h using c(2) [of a h] n(2) [of a] that by auto
  have in2: "block_in s2 = block_in s" "blk s2 = blk s1" "gd_blk s2 = gd_blk s" using n(4,5) by (simp_all add: s2_def)
  have ub: "used_bit a s2 h i = (if (a, h, i) = (p, g, b) then v else used_bit a s h i)"
    if a: "a \<in> {0, 4}" and h: "h < group_count s" for a h i
  proof -
    have "used_bit a s2 h i = used_bit a s1 h i" using bm [OF a, of h] n(2) [of a] in2 by (simp add: used_bit_def)
    then show ?thesis using bm_new_bits [OF assms(1) p assms(3,4) a h, of i] assms(5) by (auto simp: s1_def)
  qed
  have f2: "block_size s2 = block_size s" "blocks_per_group s2 = blocks_per_group s" "group_count s2 = group_count s"
    "ext2_mounted s2 = ext2_mounted s" "superblock s2 = Some (sb_count r d (the (superblock s)))"
    "group_desc s2 = Some (count_gd q d (the (group_desc s)) g)"
    by (simp_all add: s2_def s1_def counted_def)
  have dv: "d = (if v then - 1 else 1)" using assms(5) by auto
  have "length (disk s1) = length (disk s)" unfolding s1_def bm_new_def Let_def
    using meta_bitmap [OF assms(1) p assms(3)] assms(1) by (intro length_set_blk) (auto simp: meta_ok_def)
  then have "length (disk s2) = length (disk s)" by (simp add: s2_def)
  then have "bit_changed p q r v s s2 g b" unfolding bit_changed_def using ub n(6) f2 in2 c(1) dv by simp
  then show ?thesis by (simp add: s2_def s1_def)
qed

lemma bit_changed_persisted:
  assumes "meta_ok s" and "kind_ok p q r" and "bit_changed p q r v s t g b" and "\<forall>a \<in> {0, 4}. \<forall>h. bm_blk a t h = bm_blk a s h"
  shows "bit_changed p q r v s (persisted t) g b"
proof -
  have t: "meta_ok t" "gd_blk t = gd_blk s" "block_in t = block_in s" using assms(3) by (simp_all add: bit_changed_def)
  note d = persisted_disk [OF t(1)]
  have "used_bit a (persisted t) h i = used_bit a t h i" if a: "a \<in> {0, 4}" and h: "h < group_count s" for a h i
  proof -
    have "gd_blk s < bm_blk a s h" "block_in s (bm_blk a s h)" using meta_bitmap [OF assms(1) a h] by auto
    moreover have "bm_blk a t h = bm_blk a s h" using assms(4) a by blast
    ultimately show ?thesis using d(4) t by (simp add: used_bit_def)
  qed
  moreover have "blk (persisted t) x = blk t x" if "block_in s x" "gd_blk s < x" for x using d(4) [of x] t that by simp
  ultimately show ?thesis using assms(3) persisted_meta [OF t(1)] d(2,3) unfolding bit_changed_def by simp
qed

lemma counted_bm:
  assumes "meta_ok s" and "kind_ok p q r" and "g < group_count s" and "b < 8 * block_size s"
  shows "meta_ok (counted q r d g (bm_new f p s g b))"
    and "\<forall>a \<in> {0, 4}. \<forall>h. bm_blk a (counted q r d g (bm_new f p s g b)) h = bm_blk a s h"
proof -
  note n = bm_new_ok [OF assms(1) kind_p [OF assms(2)] assms(3,4), where f = f]
  have "g < group_count (bm_new f p s g b)" using assms(3) by simp
  note c = counted_meta [OF n(1) assms(2) this, where d = d]
  show "meta_ok (counted q r d g (bm_new f p s g b))" by (rule c(1))
  show "\<forall>a \<in> {0, 4}. \<forall>h. bm_blk a (counted q r d g (bm_new f p s g b)) h = bm_blk a s h" using c(2) n(2) by metis
qed

lemma ext2_take_bit_ok:
  assumes "meta_ok s" and "kind_ok p q r" and "g < group_count s" and "b < 8 * block_size s"
  shows "\<exists>s'. ext2_take_bit p q r s g (bm_buf p s g) b = Some s' \<and> bit_changed p q r True s s' g b \<and> on_disk s'"
proof -
  obtain sb gd where sb: "superblock s = Some sb" "length sb = 204" "group_desc s = Some gd" "length gd = 32 * group_count s"
    by (rule meta_SomeE [OF assms(1)])
  let ?s1 = "bm_new (OR) p s g b"
  let ?s2 = "counted q r (- 1) g ?s1"
  note c = counted_bm [OF assms, where d = "- 1" and f = "(OR)"]
  have w: "do { bm1 \<leftarrow> bitmap_update (OR) (bm_buf p s g) b; ext2_write_bitmap p s g bm1 } = Some ?s1"
    using bitmap_transfer(4) [OF assms(1) kind_p [OF assms(2)] assms(3,4)] by simp
  have "ext2_take_bit p q r s g (bm_buf p s g) b =
      do { s1 \<leftarrow> do { bm1 \<leftarrow> bitmap_update (OR) (bm_buf p s g) b; ext2_write_bitmap p s g bm1 };
           gd \<leftarrow> group_desc s1; gd1 \<leftarrow> gd_count q (- 1) gd g; sb \<leftarrow> superblock s1;
           ext2_persist (s1\<lparr>group_desc := Some gd1, superblock := Some (sb_count r (- 1) sb)\<rparr>) }"
    by (simp add: ext2_take_bit_def bind_assoc)
  also have "\<dots> = ext2_persist ?s2" unfolding w using gd_count_ok [OF assms(2,3) sb(4)] sb by (simp add: counted_def)
  finally have run: "ext2_take_bit p q r s g (bm_buf p s g) b = Some (persisted ?s2)" using ext2_persist_ok [OF c(1)] by simp
  have "bit_changed p q r True s (persisted ?s2) g b"
    by (rule bit_changed_persisted [OF assms(1,2) _ c(2)], rule bit_changed_counted [OF assms]) simp
  then show ?thesis using run on_disk_persisted [OF c(1)] by auto
qed

lemma ext2_give_bit_ok:
  assumes "meta_ok s" and "kind_ok p q r" and "g < group_count s" and "b < 8 * block_size s"
  shows "\<exists>s'. ext2_give_bit p q r s g b = Some s' \<and> bit_changed p q r False s s' g b"
proof -
  obtain sb gd where sb: "superblock s = Some sb" "length sb = 204" "group_desc s = Some gd" "length gd = 32 * group_count s"
    by (rule meta_SomeE [OF assms(1)])
  let ?f = "\<lambda>x m. x AND NOT m"
  let ?s1 = "bm_new ?f p s g b"
  note t = bitmap_transfer [OF assms(1) kind_p [OF assms(2)] assms(3)]
  have "ext2_give_bit p q r s g b =
      do { s1 \<leftarrow> do { bm1 \<leftarrow> bitmap_update ?f (bm_buf p s g) b; ext2_write_bitmap p s g bm1 };
           gd \<leftarrow> group_desc s1; gd1 \<leftarrow> gd_count q 1 gd g; sb \<leftarrow> superblock s1;
           Some (s1\<lparr>group_desc := Some gd1, superblock := Some (sb_count r 1 sb)\<rparr>) }"
    by (simp add: ext2_give_bit_def t(1) bind_assoc)
  also have "\<dots> = Some (counted q r 1 g ?s1)"
    unfolding t(4) [OF assms(4)] using gd_count_ok [OF assms(2,3) sb(4)] sb by (simp add: counted_def)
  finally show ?thesis using bit_changed_counted [OF assms, of ?f 1 False] by simp
qed

section \<open>The invariant\<close>

definition bits_of :: "nat \<Rightarrow> ext2_st \<Rightarrow> nat" where
  "bits_of p s = (if p = 0 then blocks_per_group s else sb_inodes_per_group (the (superblock s)))"

definition free_bits :: "nat \<Rightarrow> ext2_st \<Rightarrow> nat \<Rightarrow> nat set" where
  "free_bits p s g = {b. b < bits_of p s \<and> \<not> used_bit p s g b}"

definition first_block :: "ext2_st \<Rightarrow> nat" where
  "first_block s = sb_first_data_block (the (superblock s))"

text \<open>
  A group has at most the bits of a block, numbers fit in 32 bits, block number 0 is never free, and the counters of the
  groups count the clear bits.
\<close>

definition groups_ok :: "ext2_st \<Rightarrow> bool" where
  "groups_ok s \<longleftrightarrow> meta_ok s \<and> (\<forall>p \<in> {0, 4}. 0 < bits_of p s \<and> bits_of p s \<le> 8 * block_size s) \<and>
     group_count s * blocks_per_group s + first_block s < 4294967296 \<and> group_count s * bits_of 4 s < 4294967295 \<and>
     (first_block s = 0 \<longrightarrow> (\<forall>g < group_count s. g = 0 \<longrightarrow> used_bit 0 s g 0)) \<and>
     (\<forall>g < group_count s. free_count 12 s g = card (free_bits 0 s g) \<and> free_count 14 s g = card (free_bits 4 s g))"

lemma groups_meta: "groups_ok s \<Longrightarrow> meta_ok s"
  by (simp add: groups_ok_def)

lemma groups_bits: "groups_ok s \<Longrightarrow> p \<in> {0, 4} \<Longrightarrow> 0 < bits_of p s \<and> bits_of p s \<le> 8 * block_size s"
  unfolding groups_ok_def by blast

lemma groups_count: "groups_ok s \<Longrightarrow> kind_ok p q r \<Longrightarrow> g < group_count s \<Longrightarrow> free_count q s g = card (free_bits p s g)"
  by (auto simp: groups_ok_def kind_ok_def)

lemma bit_changed_layout:
  assumes "meta_ok s" and "kind_ok p q r" and "bit_changed p q r v s s' g b"
  shows "bits_of a s' = bits_of a s" and "first_block s' = first_block s"
    and "sb_inodes_count (the (superblock s')) = sb_inodes_count (the (superblock s))"
    and "sb_inode_size (the (superblock s')) = sb_inode_size (the (superblock s))"
proof -
  obtain sb gd where sb: "superblock s = Some sb" "length sb = 204" "group_desc s = Some gd" "length gd = 32 * group_count s"
    by (rule meta_SomeE [OF assms(1)])
  note f = sb_count_fields [OF assms(2) sb(2)]
  show "bits_of a s' = bits_of a s" "first_block s' = first_block s"
    "sb_inodes_count (the (superblock s')) = sb_inodes_count (the (superblock s))"
    "sb_inode_size (the (superblock s')) = sb_inode_size (the (superblock s))"
    using assms(3) f by (simp_all add: bit_changed_def bits_of_def first_block_def sb)
qed

lemma bit_changed_count:
  assumes "meta_ok s" and "kind_ok p q r" and "bit_changed p q r v s s' g b" and "g < group_count s" and "kind_ok p' q' r'"
  shows "free_count q' s' h =
    (if h = g \<and> q' = q then nat ((int (free_count q s g) + (if v then - 1 else 1)) mod 65536) else free_count q' s h)"
proof -
  obtain sb gd where sb: "superblock s = Some sb" "length sb = 204" "group_desc s = Some gd" "length gd = 32 * group_count s"
    by (rule meta_SomeE [OF assms(1)])
  show ?thesis using gd_count_counted [OF assms(2,5,4) sb(4), of "if v then - 1 else 1" h] assms(3)
    by (simp add: free_count_def bit_changed_def sb)
qed

lemma free_bits_changed:
  assumes "meta_ok s" and "kind_ok p q r" and "bit_changed p q r v s s' g b" and "a \<in> {0, 4}" and "h < group_count s"
  shows "free_bits a s' h =
    (if (a, h) = (p, g) \<and> b < bits_of p s then (if v then free_bits a s h - {b} else insert b (free_bits a s h)) else free_bits a s h)"
proof -
  have "used_bit a s' h i = (if (a, h, i) = (p, g, b) then v else used_bit a s h i)" for i
    using assms(3-5) unfolding bit_changed_def by blast
  then show ?thesis using bit_changed_layout(1) [OF assms(1-3), of a] unfolding free_bits_def by auto
qed

lemma free_bits_finite [simp]: "finite (free_bits p s g)"
  by (rule finite_subset [of _ "{..<bits_of p s}"]) (auto simp: free_bits_def)

lemma free_bits_card: "card (free_bits p s g) \<le> bits_of p s"
  using card_mono [of "{..<bits_of p s}" "free_bits p s g"] by (auto simp: free_bits_def)

lemma groups_count_changed:
  assumes "groups_ok s" and "kind_ok p q r" and "bit_changed p q r v s s' g b" and "g < group_count s"
    and "b < bits_of p s" and "used_bit p s g b = (\<not> v)" and "kind_ok a c e" and "h < group_count s"
  shows "free_count c s' h = card (free_bits a s' h)"
proof -
  note m = groups_meta [OF assms(1)]
  have a: "a \<in> {0, 4}" by (rule kind_p [OF assms(7)])
  note fc = bit_changed_count [OF m assms(2,3,4,7), of h] and fb = free_bits_changed [OF m assms(2,3) a assms(8)]
  have eq: "a = p \<longleftrightarrow> c = q" using assms(2,7) by (auto simp: kind_ok_def)
  have old: "free_count c s h = card (free_bits a s h)" by (rule groups_count [OF assms(1,7,8)])
  show ?thesis
  proof (cases "(a, h) = (p, g)")
    case True
    have le: "card (free_bits p s g) \<le> 16384" using free_bits_card [of p s g] groups_bits [OF assms(1) kind_p [OF assms(2)]] m
      by (auto simp: meta_ok_def)
    show ?thesis
    proof (cases v)
      case t: True
      then have b: "b \<in> free_bits p s g" using assms(5,6) by (simp add: free_bits_def)
      then have "0 < card (free_bits p s g)" by (auto simp: card_gt_0_iff)
      then have "nat ((int (card (free_bits p s g)) - 1) mod 65536) = card (free_bits p s g) - 1" using le by (simp add: nat_eq_iff)
      then show ?thesis using True t b fc fb eq old assms(5) by (simp add: card_Diff_singleton)
    next
      case f: False
      then have b: "b \<notin> free_bits p s g" using assms(6) by (simp add: free_bits_def)
      have "nat ((int (card (free_bits p s g)) + 1) mod 65536) = Suc (card (free_bits p s g))" using le by (simp add: nat_eq_iff)
      then show ?thesis using True f b fc fb eq old assms(5) by simp
    qed
  next
    case False
    then show ?thesis using fc fb eq old by auto
  qed
qed

lemma groups_ok_changed:
  assumes "groups_ok s" and "kind_ok p q r" and "bit_changed p q r v s s' g b" and "g < group_count s"
    and "b < bits_of p s" and "used_bit p s g b = (\<not> v)" and "v \<or> p \<noteq> 0 \<or> first_block s \<noteq> 0 \<or> g \<noteq> 0 \<or> b \<noteq> 0"
  shows "groups_ok s'"
proof -
  note m = groups_meta [OF assms(1)] and lay = bit_changed_layout [OF groups_meta [OF assms(1)] assms(2,3)]
  have f: "meta_ok s'" "block_size s' = block_size s" "group_count s' = group_count s" "blocks_per_group s' = blocks_per_group s"
    using assms(3) by (simp_all add: bit_changed_def)
  have k: "kind_ok 0 12 12" "kind_ok 4 14 16" by (simp_all add: kind_ok_def)
  note cnt = groups_count_changed [OF assms(1-6)]
  have c: "\<forall>g < group_count s'. free_count 12 s' g = card (free_bits 0 s' g) \<and> free_count 14 s' g = card (free_bits 4 s' g)"
    using cnt [OF k(1)] cnt [OF k(2)] f(3) by simp
  have "used_bit 0 s' h 0 = (if (0, h, 0) = (p, g, b) then v else used_bit 0 s h 0)" if "h < group_count s" for h
    using assms(3) that unfolding bit_changed_def by blast
  then have "first_block s' = 0 \<longrightarrow> (\<forall>g < group_count s'. g = 0 \<longrightarrow> used_bit 0 s' g 0)"
    using assms(1,7) f(3) lay(2) by (auto simp: groups_ok_def)
  then show ?thesis using assms(1) f c lay by (simp add: groups_ok_def)
qed

section \<open>Allocation\<close>

text \<open>The search both allocators make, with the group and the bit it finds.\<close>

fun alloc_groups :: "nat \<Rightarrow> nat \<Rightarrow> nat \<Rightarrow> nat \<Rightarrow> nat \<Rightarrow> nat \<Rightarrow> ext2_st \<Rightarrow> ((nat \<times> nat) option \<times> ext2_st) option" where
  "alloc_groups p q r k 0 g s = Some (None, s)"
| "alloc_groups p q r k (Suc n) g s =
     do { gd \<leftarrow> group_desc s;
          free \<leftarrow> gd_fld 2 gd g q;
          if free = 0 then alloc_groups p q r k n (Suc g) s
          else do {
            bm \<leftarrow> ext2_read_bitmap p s g (replicate 4096 0);
            x \<leftarrow> bitmap_find bm 0 k;
            case x of None \<Rightarrow> alloc_groups p q r k n (Suc g) s
            | Some b \<Rightarrow> do { s1 \<leftarrow> ext2_take_bit p q r s g bm b; Some (Some (g, b), s1) } } }"

lemma alloc_block_groups_eq:
  "alloc_block_groups n g s =
     do { (x, s1) \<leftarrow> alloc_groups 0 12 12 (blocks_per_group s) n g s;
          case x of None \<Rightarrow> Some (None, s1)
          | Some (g, b) \<Rightarrow> do { sb \<leftarrow> superblock s1; Some (Some (wrap32 (g * blocks_per_group s1 + b + sb_first_data_block sb)), s1) } }"
  by (induction n arbitrary: g) (auto simp: bind_assoc split: option.splits intro!: Option.bind_cong)

lemma alloc_inode_groups_eq:
  assumes "superblock s = Some sb"
  shows "alloc_inode_groups n g s =
     do { (x, s1) \<leftarrow> alloc_groups 4 14 16 (sb_inodes_per_group sb) n g s;
          case x of None \<Rightarrow> Some (None, s1)
          | Some (g, i) \<Rightarrow> do { sb1 \<leftarrow> superblock s1; Some (Some (wrap32 (g * sb_inodes_per_group sb1 + i + 1)), s1) } }"
  by (induction n arbitrary: g) (auto simp: assms bind_assoc split: option.splits intro!: Option.bind_cong)

lemma alloc_groups_spec:
  assumes "groups_ok s" and "kind_ok p q r" and "g + n = group_count s"
  shows "\<exists>x s'. alloc_groups p q r (bits_of p s) n g s = Some (x, s') \<and>
    (case x of None \<Rightarrow> s' = s \<and> (\<forall>h. g \<le> h \<and> h < group_count s \<longrightarrow> free_bits p s h = {})
     | Some (h, b) \<Rightarrow> g \<le> h \<and> h < group_count s \<and> b \<in> free_bits p s h \<and> (\<forall>c \<in> free_bits p s h. b \<le> c) \<and>
         (\<forall>j. g \<le> j \<and> j < h \<longrightarrow> free_bits p s j = {}) \<and> bit_changed p q r True s s' h b \<and> on_disk s')"
  using assms(3)
proof (induction n arbitrary: g)
  case (Suc n)
  note m = groups_meta [OF assms(1)] and p = kind_p [OF assms(2)]
  obtain sb gd where sb: "superblock s = Some sb" "length sb = 204" "group_desc s = Some gd" "length gd = 32 * group_count s"
    by (rule meta_SomeE [OF m])
  have g: "g < group_count s" using Suc.prems by simp
  have fd: "gd_fld 2 gd g q = Some (free_count q s g)"
    using gd_room [OF g sb(4), of "q + 2"] assms(2) by (auto simp: gd_fld_def rd_fld_def free_count_def sb kind_ok_def)
  have fc: "free_count q s g = card (free_bits p s g)" by (rule groups_count [OF assms(1,2) g])
  show ?case
  proof (cases "free_bits p s g = {}")
    case True
    then have step: "alloc_groups p q r (bits_of p s) (Suc n) g s = alloc_groups p q r (bits_of p s) n (Suc g) s"
      using fd fc sb(3) by simp
    have ge: "free_bits p s h = {}" if "g \<le> h" "Suc g \<le> h \<Longrightarrow> free_bits p s h = {}" for h
      using that True by (cases "h = g") auto
    have "\<exists>x s'. alloc_groups p q r (bits_of p s) n (Suc g) s = Some (x, s') \<and>
      (case x of None \<Rightarrow> s' = s \<and> (\<forall>h. Suc g \<le> h \<and> h < group_count s \<longrightarrow> free_bits p s h = {})
       | Some (h, b) \<Rightarrow> Suc g \<le> h \<and> h < group_count s \<and> b \<in> free_bits p s h \<and> (\<forall>c \<in> free_bits p s h. b \<le> c) \<and>
           (\<forall>j. Suc g \<le> j \<and> j < h \<longrightarrow> free_bits p s j = {}) \<and> bit_changed p q r True s s' h b \<and> on_disk s')"
      using Suc.prems by (intro Suc.IH) simp
    then obtain x s' where x: "alloc_groups p q r (bits_of p s) n (Suc g) s = Some (x, s')"
      "case x of None \<Rightarrow> s' = s \<and> (\<forall>h. Suc g \<le> h \<and> h < group_count s \<longrightarrow> free_bits p s h = {})
       | Some (h, b) \<Rightarrow> Suc g \<le> h \<and> h < group_count s \<and> b \<in> free_bits p s h \<and> (\<forall>c \<in> free_bits p s h. b \<le> c) \<and>
           (\<forall>j. Suc g \<le> j \<and> j < h \<longrightarrow> free_bits p s j = {}) \<and> bit_changed p q r True s s' h b \<and> on_disk s'" by blast
    show ?thesis
    proof (cases x)
      case None
      then show ?thesis using x step ge by auto
    next
      case (Some hb)
      obtain h b where hb: "hb = (h, b)" by (cases hb)
      have "\<forall>j. g \<le> j \<and> j < h \<longrightarrow> free_bits p s j = {}" using x(2) Some hb ge by auto
      then show ?thesis using x step Some hb by auto
    qed
  next
    case False
    note t = bitmap_transfer [OF m p g]
    have k: "bits_of p s \<le> 8 * block_size s" using groups_bits [OF assms(1) p] by simp
    moreover have "block_size s \<le> 4096" using m by (auto simp: meta_ok_def)
    ultimately have k2: "bits_of p s \<le> 8 * length (bm_buf p s g)" using t(2) by simp
    have eq: "bit_of (bm_buf p s g) i = used_bit p s g i" if "i < bits_of p s" for i using t(3) [of i] k that by simp
    obtain x where x: "bitmap_find (bm_buf p s g) 0 (bits_of p s) = Some x"
      "case x of None \<Rightarrow> \<forall>i. 0 \<le> i \<and> i < 0 + bits_of p s \<longrightarrow> bit_of (bm_buf p s g) i
       | Some j \<Rightarrow> 0 \<le> j \<and> j < 0 + bits_of p s \<and> \<not> bit_of (bm_buf p s g) j \<and> (\<forall>i. 0 \<le> i \<and> i < j \<longrightarrow> bit_of (bm_buf p s g) i)"
      using bitmap_find_lowest [of 0 "bits_of p s" "bm_buf p s g"] k2 by auto
    then obtain b where b: "x = Some b" "b < bits_of p s" "\<not> used_bit p s g b" "\<forall>i < b. used_bit p s g i"
      using False eq by (cases x) (auto simp: free_bits_def)
    have "b < 8 * block_size s" using b(2) k by simp
    from ext2_take_bit_ok [OF m assms(2) g this] obtain s' where s': "ext2_take_bit p q r s g (bm_buf p s g) b = Some s'"
      "bit_changed p q r True s s' g b" "on_disk s'" by blast
    have "card (free_bits p s g) \<noteq> 0" using False by simp
    then have "alloc_groups p q r (bits_of p s) (Suc n) g s = Some (Some (g, b), s')"
      using sb(3) fd fc t(1) x(1) b(1) s'(1) by simp
    moreover have "b \<in> free_bits p s g" "\<forall>c \<in> free_bits p s g. b \<le> c" using b by (auto simp: free_bits_def not_less [symmetric])
    ultimately show ?thesis using g s'(2,3) by auto
  qed
qed auto

section \<open>Allocators of numbers\<close>

text \<open>
  An allocator of numbers hands out one that is not taken while there is one, and takes one back; a series of requests
  then gets different numbers, as many as there are free ones.
\<close>

locale id_allocator =
  fixes invar :: "'s \<Rightarrow> bool"
    and ids :: "'s \<Rightarrow> nat set"
    and taken :: "'s \<Rightarrow> nat set"
    and alloc :: "'s \<Rightarrow> (nat option \<times> 's) option"
    and release :: "'s \<Rightarrow> nat \<Rightarrow> 's option"
  assumes finite_ids: "finite (ids s)"
    and alloc_id: "invar s \<Longrightarrow> \<exists>r s'. alloc s = Some (r, s') \<and> invar s' \<and> ids s' = ids s \<and>
           (case r of None \<Rightarrow> s' = s \<and> ids s \<subseteq> taken s | Some x \<Rightarrow> x \<in> ids s - taken s \<and> taken s' = insert x (taken s))"
    and release_id: "invar s \<Longrightarrow> x \<in> taken s \<Longrightarrow> x \<noteq> 0 \<Longrightarrow>
           \<exists>s'. release s x = Some s' \<and> invar s' \<and> ids s' = ids s \<and> taken s' = taken s - {x}"
begin

fun alloc_many :: "nat \<Rightarrow> 's \<Rightarrow> (nat list \<times> 's) option" where
  "alloc_many 0 s = Some ([], s)"
| "alloc_many (Suc n) s =
     do { (r, s1) \<leftarrow> alloc s;
          case r of None \<Rightarrow> Some ([], s1)
          | Some x \<Rightarrow> do { (xs, s2) \<leftarrow> alloc_many n s1; Some (x # xs, s2) } }"

lemma alloc_many_spec:
  "invar s \<Longrightarrow> \<exists>xs s'. alloc_many n s = Some (xs, s') \<and> invar s' \<and> ids s' = ids s \<and> distinct xs \<and>
     set xs \<subseteq> ids s - taken s \<and> taken s' = taken s \<union> set xs \<and> length xs = min n (card (ids s - taken s))"
proof (induction n arbitrary: s)
  case (Suc n)
  obtain r s1 where r: "alloc s = Some (r, s1)" "invar s1" "ids s1 = ids s"
    "case r of None \<Rightarrow> s1 = s \<and> ids s \<subseteq> taken s | Some x \<Rightarrow> x \<in> ids s - taken s \<and> taken s1 = insert x (taken s)"
    using alloc_id [OF Suc.prems] by blast
  show ?case
  proof (cases r)
    case None
    then have e: "ids s - taken s = {}" "s1 = s" using r(4) by auto
    have "alloc_many (Suc n) s = Some ([], s)" using r None e(2) by simp
    moreover have "length [] = min (Suc n) (card (ids s - taken s))" unfolding e(1) by simp
    ultimately show ?thesis using Suc.prems by (intro exI [of _ "[]"] exI [of _ s]) (simp only: list.set distinct.simps empty_subsetI Un_empty_right simp_thms)
  next
    case (Some x)
    then have x: "x \<in> ids s - taken s" "taken s1 = insert x (taken s)" using r(4) by auto
    obtain xs s2 where xs: "alloc_many n s1 = Some (xs, s2)" "invar s2" "ids s2 = ids s1" "distinct xs"
      "set xs \<subseteq> ids s1 - taken s1" "taken s2 = taken s1 \<union> set xs" "length xs = min n (card (ids s1 - taken s1))"
      using Suc.IH [OF r(2)] by blast
    have "ids s1 - taken s1 = (ids s - taken s) - {x}" using x(2) r(3) by auto
    moreover have "finite (ids s - taken s)" using finite_ids by simp
    ultimately have "Suc (card (ids s1 - taken s1)) = card (ids s - taken s)" using x(1) by (simp only: card_Suc_Diff1)
    then have "length (x # xs) = min (Suc n) (card (ids s - taken s))" using xs(7) by simp
    then show ?thesis using r xs x Some by auto
  qed
qed simp

end

subsection \<open>Numbers of blocks and inodes\<close>

definition block_ids :: "ext2_st \<Rightarrow> nat set" where
  "block_ids s = {g * bits_of 0 s + b + first_block s | g b. g < group_count s \<and> b < bits_of 0 s}"

definition taken_blocks :: "ext2_st \<Rightarrow> nat set" where
  "taken_blocks s = {g * bits_of 0 s + b + first_block s | g b. g < group_count s \<and> b < bits_of 0 s \<and> used_bit 0 s g b}"

definition inode_ids :: "ext2_st \<Rightarrow> nat set" where
  "inode_ids s = {g * bits_of 4 s + b + 1 | g b. g < group_count s \<and> b < bits_of 4 s}"

definition taken_inodes :: "ext2_st \<Rightarrow> nat set" where
  "taken_inodes s = {g * bits_of 4 s + b + 1 | g b. g < group_count s \<and> b < bits_of 4 s \<and> used_bit 4 s g b}"

text \<open>Both are one set, of the numbers \<open>g * n + b + k\<close> of the bits that satisfy a predicate.\<close>

definition numbers :: "nat \<Rightarrow> nat \<Rightarrow> nat \<Rightarrow> (nat \<Rightarrow> nat \<Rightarrow> bool) \<Rightarrow> nat set" where
  "numbers m n k P = {g * n + b + k | g b. g < m \<and> b < n \<and> P g b}"

lemma numbers_sets:
  "block_ids s = numbers (group_count s) (bits_of 0 s) (first_block s) (\<lambda>g b. True)"
  "taken_blocks s = numbers (group_count s) (bits_of 0 s) (first_block s) (used_bit 0 s)"
  "inode_ids s = numbers (group_count s) (bits_of 4 s) 1 (\<lambda>g b. True)"
  "taken_inodes s = numbers (group_count s) (bits_of 4 s) 1 (used_bit 4 s)"
  by (simp_all add: numbers_def block_ids_def taken_blocks_def inode_ids_def taken_inodes_def)

lemma number_inj: "b < n \<Longrightarrow> c < n \<Longrightarrow> g * n + b + k = h * n + c + k \<Longrightarrow> g = h \<and> b = (c :: nat)"
  by (metis add_right_cancel add.commute div_mult_self3 div_less gr_implies_not0 add_0 mod_mult_self3 mod_less)

lemma finite_numbers: "finite (numbers m n k P)"
proof (rule finite_subset)
  show "numbers m n k P \<subseteq> (\<lambda>(g, b). g * n + b + k) ` ({..<m} \<times> {..<n})" by (auto simp: numbers_def image_iff)
qed simp

lemma in_numbers: "b < n \<Longrightarrow> g * n + b + k \<in> numbers m n k P \<longleftrightarrow> g < m \<and> P g b"
  unfolding numbers_def using number_inj [of b n _ g k] by (auto 4 4)

lemma numbers_change:
  assumes "g < m" and "b < n" and "\<And>h i. h < m \<Longrightarrow> i < n \<Longrightarrow> Q h i = (if (h, i) = (g, b) then v else P h i)"
  shows "numbers m n k Q = (if v then insert (g * n + b + k) (numbers m n k P) else numbers m n k P - {g * n + b + k})"
proof (rule set_eqI)
  fix x
  show "x \<in> numbers m n k Q \<longleftrightarrow> x \<in> (if v then insert (g * n + b + k) (numbers m n k P) else numbers m n k P - {g * n + b + k})"
  proof (cases "\<exists>h i. h < m \<and> i < n \<and> x = h * n + i + k")
    case True
    then obtain h i where x: "h < m" "i < n" "x = h * n + i + k" by blast
    have "x = g * n + b + k \<longleftrightarrow> (h, i) = (g, b)" using number_inj [OF x(2) assms(2), of h k g] x(3) by auto
    then show ?thesis using x assms in_numbers [OF x(2)] by auto
  next
    case False
    then have "x \<notin> numbers m n k Q" "x \<notin> numbers m n k P" "x \<noteq> g * n + b + k" using assms(1,2) by (auto simp: numbers_def)
    then show ?thesis by simp
  qed
qed

lemma number_less: "g < m \<Longrightarrow> b < n \<Longrightarrow> g * n + b < m * (n :: nat)"
  using mult_le_mono1 [of "Suc g" m n] by simp

subsection \<open>The allocators of the driver\<close>

lemma ext2_alloc_block_spec:
  assumes "groups_ok s"
  shows "\<exists>x s'. ext2_alloc_block s = Some (x, s') \<and>
    (case x of None \<Rightarrow> s' = s \<and> (\<forall>g < group_count s. free_bits 0 s g = {})
     | Some n \<Rightarrow> \<exists>g b. n = g * bits_of 0 s + b + first_block s \<and> g < group_count s \<and> b \<in> free_bits 0 s g \<and>
         (\<forall>c \<in> free_bits 0 s g. b \<le> c) \<and> (\<forall>h < g. free_bits 0 s h = {}) \<and> bit_changed 0 12 12 True s s' g b \<and> on_disk s')"
proof -
  have k: "kind_ok 0 12 12" by (simp add: kind_ok_def)
  note m = groups_meta [OF assms]
  obtain sb gd where sb: "superblock s = Some sb" "length sb = 204" "group_desc s = Some gd" "length gd = 32 * group_count s"
    by (rule meta_SomeE [OF m])
  obtain x s' where x: "alloc_groups 0 12 12 (bits_of 0 s) (group_count s) 0 s = Some (x, s')"
    "case x of None \<Rightarrow> s' = s \<and> (\<forall>h. 0 \<le> h \<and> h < group_count s \<longrightarrow> free_bits 0 s h = {})
     | Some (h, b) \<Rightarrow> 0 \<le> h \<and> h < group_count s \<and> b \<in> free_bits 0 s h \<and> (\<forall>c \<in> free_bits 0 s h. b \<le> c) \<and>
         (\<forall>j. 0 \<le> j \<and> j < h \<longrightarrow> free_bits 0 s j = {}) \<and> bit_changed 0 12 12 True s s' h b \<and> on_disk s'"
    using alloc_groups_spec [OF assms k, of 0 "group_count s"] by auto
  have run: "ext2_alloc_block s = do { sb \<leftarrow> superblock s';
      Some (map_option (\<lambda>(g, b). wrap32 (g * blocks_per_group s' + b + sb_first_data_block sb)) x, s') }" if "superblock s' \<noteq> None"
    using x(1) that sb by (cases x) (auto simp: ext2_alloc_block_def alloc_block_groups_eq bits_of_def)
  show ?thesis
  proof (cases x)
    case None
    then show ?thesis using run x(2) sb by simp
  next
    case (Some hb)
    obtain h b where hb: "hb = (h, b)" by (cases hb)
    have c: "bit_changed 0 12 12 True s s' h b" and b: "h < group_count s" "b < bits_of 0 s" "b \<in> free_bits 0 s h"
      using x(2) Some hb by (auto simp: free_bits_def)
    have f: "superblock s' \<noteq> None" "blocks_per_group s' = bits_of 0 s" using c by (simp_all add: bit_changed_def bits_of_def)
    have fb: "sb_first_data_block (the (superblock s')) = first_block s" using bit_changed_layout(2) [OF m k c] by (simp add: first_block_def)
    have "h * bits_of 0 s + b + first_block s < 4294967296"
      using number_less [OF b(1,2)] assms by (simp add: groups_ok_def bits_of_def)
    then have "ext2_alloc_block s = Some (Some (h * bits_of 0 s + b + first_block s), s')"
      using run [OF f(1)] f fb Some hb by (auto simp: wrap32_def)
    then show ?thesis using x(2) Some hb by auto
  qed
qed

lemma ext2_alloc_inode_spec:
  assumes "groups_ok s"
  shows "\<exists>x s'. ext2_alloc_inode s = Some (x, s') \<and>
    (case x of None \<Rightarrow> s' = s \<and> (\<forall>g < group_count s. free_bits 4 s g = {})
     | Some n \<Rightarrow> \<exists>g b. n = g * bits_of 4 s + b + 1 \<and> g < group_count s \<and> b \<in> free_bits 4 s g \<and>
         (\<forall>c \<in> free_bits 4 s g. b \<le> c) \<and> (\<forall>h < g. free_bits 4 s h = {}) \<and> bit_changed 4 14 16 True s s' g b \<and> on_disk s')"
proof -
  have k: "kind_ok 4 14 16" by (simp add: kind_ok_def)
  note m = groups_meta [OF assms]
  obtain sb gd where sb: "superblock s = Some sb" "length sb = 204" "group_desc s = Some gd" "length gd = 32 * group_count s"
    by (rule meta_SomeE [OF m])
  obtain x s' where x: "alloc_groups 4 14 16 (bits_of 4 s) (group_count s) 0 s = Some (x, s')"
    "case x of None \<Rightarrow> s' = s \<and> (\<forall>h. 0 \<le> h \<and> h < group_count s \<longrightarrow> free_bits 4 s h = {})
     | Some (h, b) \<Rightarrow> 0 \<le> h \<and> h < group_count s \<and> b \<in> free_bits 4 s h \<and> (\<forall>c \<in> free_bits 4 s h. b \<le> c) \<and>
         (\<forall>j. 0 \<le> j \<and> j < h \<longrightarrow> free_bits 4 s j = {}) \<and> bit_changed 4 14 16 True s s' h b \<and> on_disk s'"
    using alloc_groups_spec [OF assms k, of 0 "group_count s"] by auto
  have run: "ext2_alloc_inode s = do { sb \<leftarrow> superblock s';
      Some (map_option (\<lambda>(g, b). wrap32 (g * sb_inodes_per_group sb + b + 1)) x, s') }" if "superblock s' \<noteq> None"
    using x(1) that sb by (cases x) (auto simp: ext2_alloc_inode_def alloc_inode_groups_eq [OF sb(1)] bits_of_def)
  show ?thesis
  proof (cases x)
    case None
    then show ?thesis using run x(2) sb by simp
  next
    case (Some hb)
    obtain h b where hb: "hb = (h, b)" by (cases hb)
    have c: "bit_changed 4 14 16 True s s' h b" and b: "h < group_count s" "b < bits_of 4 s" "b \<in> free_bits 4 s h"
      using x(2) Some hb by (auto simp: free_bits_def)
    have f: "superblock s' \<noteq> None" using c by (simp add: bit_changed_def)
    have fb: "sb_inodes_per_group (the (superblock s')) = bits_of 4 s" using bit_changed_layout(1) [OF m k c, of 4] by (simp add: bits_of_def)
    have "h * bits_of 4 s + b + 1 < 4294967296" using number_less [OF b(1,2)] assms by (simp add: groups_ok_def)
    then have "ext2_alloc_inode s = Some (Some (h * bits_of 4 s + b + 1), s')"
      using run [OF f] fb Some hb f by (auto simp: wrap32_def)
    then show ?thesis using x(2) Some hb by auto
  qed
qed

lemma ids_changed:
  assumes "groups_ok s" and "kind_ok p q r" and "bit_changed p q r v s s' g b" and "g < group_count s" and "b < bits_of p s"
  shows "block_ids s' = block_ids s" and "inode_ids s' = inode_ids s"
    and "p = 0 \<Longrightarrow> taken_blocks s' =
      (if v then insert (g * bits_of 0 s + b + first_block s) (taken_blocks s) else taken_blocks s - {g * bits_of 0 s + b + first_block s})"
    and "p = 4 \<Longrightarrow> taken_inodes s' =
      (if v then insert (g * bits_of 4 s + b + 1) (taken_inodes s) else taken_inodes s - {g * bits_of 4 s + b + 1})"
proof -
  note lay = bit_changed_layout [OF groups_meta [OF assms(1)] assms(2,3)]
  have gc: "group_count s' = group_count s" using assms(3) by (simp add: bit_changed_def)
  show "block_ids s' = block_ids s" "inode_ids s' = inode_ids s" by (simp_all add: numbers_sets lay gc)
  have u: "used_bit a s' h i = (if (a, h, i) = (p, g, b) then v else used_bit a s h i)" if "a \<in> {0, 4}" "h < group_count s" for a h i
    using assms(3) that unfolding bit_changed_def by blast
  show "taken_blocks s' = (if v then insert (g * bits_of 0 s + b + first_block s) (taken_blocks s)
      else taken_blocks s - {g * bits_of 0 s + b + first_block s})" if "p = 0"
    unfolding numbers_sets lay gc using assms(4,5) u that by (intro numbers_change) auto
  show "taken_inodes s' = (if v then insert (g * bits_of 4 s + b + 1) (taken_inodes s)
      else taken_inodes s - {g * bits_of 4 s + b + 1})" if "p = 4"
    unfolding numbers_sets lay gc using assms(4,5) u that by (intro numbers_change) auto
qed

lemma free_bitsD: "b \<in> free_bits p s g \<Longrightarrow> b < bits_of p s \<and> \<not> used_bit p s g b"
  by (simp add: free_bits_def)

lemma ext2_free_block_ok:
  assumes "groups_ok s" and "g < group_count s" and "b < bits_of 0 s" and "used_bit 0 s g b"
    and "g * bits_of 0 s + b + first_block s \<noteq> 0"
  shows "\<exists>s'. ext2_free_block s (g * bits_of 0 s + b + first_block s) = Some s' \<and> bit_changed 0 12 12 False s s' g b \<and> groups_ok s'"
proof -
  let ?x = "g * bits_of 0 s + b + first_block s"
  have k: "kind_ok 0 12 12" by (simp add: kind_ok_def)
  note m = groups_meta [OF assms(1)]
  obtain sb gd where sb: "superblock s = Some sb" "length sb = 204" "group_desc s = Some gd" "length gd = 32 * group_count s"
    by (rule meta_SomeE [OF m])
  have n: "0 < bits_of 0 s" "bits_of 0 s \<le> 8 * block_size s" using groups_bits [OF assms(1), of 0] by auto
  have lt: "?x < 4294967296" using number_less [OF assms(2,3)] assms(1) by (simp add: groups_ok_def bits_of_def)
  have "wrap32 (y + first_block s + 4294967296 - first_block s) = y" if "y + first_block s < 4294967296" for y
    using that by (simp add: wrap32_def)
  from this [OF lt] have "wrap32 (?x + 4294967296 - sb_first_data_block sb) = g * bits_of 0 s + b" by (simp add: first_block_def sb)
  moreover have "(g * bits_of 0 s + b) div bits_of 0 s = g" "(g * bits_of 0 s + b) mod bits_of 0 s = b" using assms(3) by auto
  ultimately have e: "ext2_free_block s ?x = ext2_give_bit 0 12 12 s g b"
    unfolding ext2_free_block_def if_not_P [OF assms(5)] using n(1) sb by (simp add: bits_of_def)
  obtain s' where s': "ext2_give_bit 0 12 12 s g b = Some s'" "bit_changed 0 12 12 False s s' g b"
    using ext2_give_bit_ok [OF m k assms(2), of b] assms(3) n(2) by auto
  have "groups_ok s'" using assms(4,5) by (intro groups_ok_changed [OF assms(1) k s'(2) assms(2,3)]) auto
  then show ?thesis using e s' by auto
qed

lemma ext2_free_inode_ok:
  assumes "groups_ok s" and "g < group_count s" and "b < bits_of 4 s" and "used_bit 4 s g b"
  shows "\<exists>s'. ext2_free_inode s (g * bits_of 4 s + b + 1) = Some s' \<and> bit_changed 4 14 16 False s s' g b \<and> groups_ok s'"
proof -
  have k: "kind_ok 4 14 16" by (simp add: kind_ok_def)
  note m = groups_meta [OF assms(1)]
  obtain sb gd where sb: "superblock s = Some sb" "length sb = 204" "group_desc s = Some gd" "length gd = 32 * group_count s"
    by (rule meta_SomeE [OF m])
  have n: "0 < bits_of 4 s" "bits_of 4 s \<le> 8 * block_size s" using groups_bits [OF assms(1), of 4] by auto
  have "(g * bits_of 4 s + b) div bits_of 4 s = g" "(g * bits_of 4 s + b) mod bits_of 4 s = b" using assms(3) by auto
  then have e: "ext2_free_inode s (g * bits_of 4 s + b + 1) = ext2_give_bit 4 14 16 s g b"
    using n(1) sb by (simp add: ext2_free_inode_def bits_of_def)
  obtain s' where s': "ext2_give_bit 4 14 16 s g b = Some s'" "bit_changed 4 14 16 False s s' g b"
    using ext2_give_bit_ok [OF m k assms(2), of b] assms(3) n(2) by auto
  have "groups_ok s'" using assms(4) by (intro groups_ok_changed [OF assms(1) k s'(2) assms(2,3)]) auto
  then show ?thesis using e s' by auto
qed

interpretation block_alloc: id_allocator groups_ok block_ids taken_blocks ext2_alloc_block ext2_free_block
proof
  show "finite (block_ids s)" for s by (simp add: numbers_sets finite_numbers)
next
  fix s assume s: "groups_ok s"
  have k: "kind_ok 0 12 12" by (simp add: kind_ok_def)
  obtain x s' where x: "ext2_alloc_block s = Some (x, s')"
    "case x of None \<Rightarrow> s' = s \<and> (\<forall>g < group_count s. free_bits 0 s g = {})
     | Some n \<Rightarrow> \<exists>g b. n = g * bits_of 0 s + b + first_block s \<and> g < group_count s \<and> b \<in> free_bits 0 s g \<and>
         (\<forall>c \<in> free_bits 0 s g. b \<le> c) \<and> (\<forall>h < g. free_bits 0 s h = {}) \<and> bit_changed 0 12 12 True s s' g b \<and> on_disk s'"
    using ext2_alloc_block_spec [OF s] by blast
  show "\<exists>r s'. ext2_alloc_block s = Some (r, s') \<and> groups_ok s' \<and> block_ids s' = block_ids s \<and>
    (case r of None \<Rightarrow> s' = s \<and> block_ids s \<subseteq> taken_blocks s
     | Some x \<Rightarrow> x \<in> block_ids s - taken_blocks s \<and> taken_blocks s' = insert x (taken_blocks s))"
  proof (cases x)
    case None
    then have "block_ids s \<subseteq> taken_blocks s" using x(2) by (auto simp: block_ids_def taken_blocks_def free_bits_def)
    then show ?thesis using x None s by auto
  next
    case (Some n)
    obtain g b where gb: "n = g * bits_of 0 s + b + first_block s" "g < group_count s" "b \<in> free_bits 0 s g" "bit_changed 0 12 12 True s s' g b"
      using x(2) Some by auto
    note b = free_bitsD [OF gb(3)] and c = ids_changed [OF s k gb(4,2)]
    have "groups_ok s'" using b by (intro groups_ok_changed [OF s k gb(4,2)]) auto
    moreover have "n \<in> block_ids s" "n \<notin> taken_blocks s" using b gb(1,2) by (simp_all add: numbers_sets in_numbers)
    ultimately show ?thesis using x(1) Some gb(1) b c by auto
  qed
next
  fix s x assume s: "groups_ok s" and x: "x \<in> taken_blocks s" "x \<noteq> 0"
  then obtain g b where gb: "x = g * bits_of 0 s + b + first_block s" "g < group_count s" "b < bits_of 0 s" "used_bit 0 s g b"
    by (auto simp: taken_blocks_def)
  have k: "kind_ok 0 12 12" by (simp add: kind_ok_def)
  obtain s' where s': "ext2_free_block s x = Some s'" "bit_changed 0 12 12 False s s' g b" "groups_ok s'"
    using ext2_free_block_ok [OF s gb(2-4)] x(2) gb(1) by auto
  then show "\<exists>s'. ext2_free_block s x = Some s' \<and> groups_ok s' \<and> block_ids s' = block_ids s \<and> taken_blocks s' = taken_blocks s - {x}"
    using ids_changed [OF s k s'(2) gb(2,3)] gb(1) by auto
qed

interpretation inode_alloc: id_allocator groups_ok inode_ids taken_inodes ext2_alloc_inode ext2_free_inode
proof
  show "finite (inode_ids s)" for s by (simp add: numbers_sets finite_numbers)
next
  fix s assume s: "groups_ok s"
  have k: "kind_ok 4 14 16" by (simp add: kind_ok_def)
  obtain x s' where x: "ext2_alloc_inode s = Some (x, s')"
    "case x of None \<Rightarrow> s' = s \<and> (\<forall>g < group_count s. free_bits 4 s g = {})
     | Some n \<Rightarrow> \<exists>g b. n = g * bits_of 4 s + b + 1 \<and> g < group_count s \<and> b \<in> free_bits 4 s g \<and>
         (\<forall>c \<in> free_bits 4 s g. b \<le> c) \<and> (\<forall>h < g. free_bits 4 s h = {}) \<and> bit_changed 4 14 16 True s s' g b \<and> on_disk s'"
    using ext2_alloc_inode_spec [OF s] by blast
  show "\<exists>r s'. ext2_alloc_inode s = Some (r, s') \<and> groups_ok s' \<and> inode_ids s' = inode_ids s \<and>
    (case r of None \<Rightarrow> s' = s \<and> inode_ids s \<subseteq> taken_inodes s
     | Some x \<Rightarrow> x \<in> inode_ids s - taken_inodes s \<and> taken_inodes s' = insert x (taken_inodes s))"
  proof (cases x)
    case None
    then have "inode_ids s \<subseteq> taken_inodes s" using x(2) by (auto simp: inode_ids_def taken_inodes_def free_bits_def)
    then show ?thesis using x None s by auto
  next
    case (Some n)
    obtain g b where gb: "n = g * bits_of 4 s + b + 1" "g < group_count s" "b \<in> free_bits 4 s g" "bit_changed 4 14 16 True s s' g b"
      using x(2) Some by auto
    note b = free_bitsD [OF gb(3)] and c = ids_changed [OF s k gb(4,2)]
    have "groups_ok s'" using b by (intro groups_ok_changed [OF s k gb(4,2)]) auto
    moreover have "n \<in> inode_ids s" "n \<notin> taken_inodes s"
      unfolding gb(1) numbers_sets using b gb(2) in_numbers [of b "bits_of 4 s" g 1 "group_count s"] by blast+
    ultimately show ?thesis using x(1) Some gb(1) b c by auto
  qed
next
  fix s x assume s: "groups_ok s" and x: "x \<in> taken_inodes s" "x \<noteq> 0"
  then obtain g b where gb: "x = g * bits_of 4 s + b + 1" "g < group_count s" "b < bits_of 4 s" "used_bit 4 s g b"
    by (auto simp: taken_inodes_def)
  have k: "kind_ok 4 14 16" by (simp add: kind_ok_def)
  obtain s' where s': "ext2_free_inode s x = Some s'" "bit_changed 4 14 16 False s s' g b" "groups_ok s'"
    using ext2_free_inode_ok [OF s gb(2-4)] gb(1) by auto
  then show "\<exists>s'. ext2_free_inode s x = Some s' \<and> groups_ok s' \<and> inode_ids s' = inode_ids s \<and> taken_inodes s' = taken_inodes s - {x}"
    using ids_changed [OF s k s'(2) gb(2,3)] gb(1) by auto
qed

section \<open>The example\<close>

text \<open>The first eight blocks and the first eight inodes are taken.\<close>

definition demo_disk :: "u8 list" where
  "demo_disk = blit (blit (replicate 66560 0) 3072 [255]) 4096 [255]"

lemma length_demo_disk: "length demo_disk = 66560"
  by (simp add: demo_disk_def length_blit)

lemma demo_bitmaps:
  "blk (demo_fs demo_disk) 3 = 255 # replicate 1023 0" "blk (demo_fs demo_disk) 4 = 255 # replicate 1023 0"
  by (simp_all add: blk_def demo_disk_def blit_def take_Cons' drop_Cons')

lemma demo_bit: "b < 64 \<Longrightarrow> bit_of (255 # replicate 1023 0) b = (b < 8)"
proof -
  assume b: "b < 64"
  show ?thesis
  proof (cases "b < 8")
    case True
    have "bit (255 :: u8) b" using True bit_mask_iff [of 8 b, where 'a = u8] by (simp add: mask_numeral)
    then show ?thesis using True by (simp add: bit_of_def)
  next
    case False
    then have "b div 8 \<noteq> 0" "b div 8 < 8" using b by auto
    then show ?thesis using False by (simp add: bit_of_def nth_Cons')
  qed
qed

lemma demo_meta_ok: "meta_ok (demo_fs demo_disk)"
  by (simp add: meta_ok_def demo_disk_ok length_demo_disk demo_fields gd_blk_def bm_blk_def demo_block_in)

lemma demo_free:
  "free_bits 0 (demo_fs demo_disk) 0 = {8..<64}" "free_bits 4 (demo_fs demo_disk) 0 = {8..<32}"
  by (auto simp: free_bits_def bits_of_def used_bit_def bm_blk_def demo_fields demo_bitmaps demo_bit)

lemma demo_groups_ok: "groups_ok (demo_fs demo_disk)"
  by (simp add: groups_ok_def demo_meta_ok demo_free bits_of_def first_block_def demo_fields free_count_def)

lemma demo_alloc: "\<exists>n s1. ext2_alloc_block (demo_fs demo_disk) = Some (Some n, s1) \<and> n \<noteq> 0"
proof -
  have "first_block (demo_fs demo_disk) = 1" by (simp add: first_block_def demo_fields)
  then show ?thesis using ext2_alloc_block_spec [OF demo_groups_ok] demo_free(1) by (auto split: option.splits)
qed

section \<open>Properties\<close>

text \<open>
  C11: block allocation.  \<open>ext2_alloc_block\<close> reports that the disk is full only when every block is taken; otherwise it
  returns the lowest free block and marks exactly this one in the bitmap on disk.  The counters stay the number of free
  blocks, the superblock and the group descriptors on disk agree with those in memory, and every other block behind the
  descriptors is untouched.
\<close>

theorem ext2_alloc_block_lowest:
  assumes "groups_ok s"
  shows "\<exists>r s'. ext2_alloc_block s = Some (r, s') \<and> groups_ok s' \<and>
    (case r of
       None \<Rightarrow> s' = s \<and> block_ids s \<subseteq> taken_blocks s
     | Some n \<Rightarrow> n \<in> block_ids s - taken_blocks s \<and> (\<forall>m \<in> block_ids s - taken_blocks s. n \<le> m) \<and>
         taken_blocks s' = insert n (taken_blocks s) \<and> taken_inodes s' = taken_inodes s \<and> on_disk s' \<and>
         (\<exists>g < group_count s. \<forall>x. block_in s x \<and> gd_blk s < x \<and> x \<noteq> bm_blk 0 s g \<longrightarrow> blk s' x = blk s x))"
proof -
  obtain r s' where r: "ext2_alloc_block s = Some (r, s')" "groups_ok s'"
    "case r of None \<Rightarrow> s' = s \<and> block_ids s \<subseteq> taken_blocks s
     | Some x \<Rightarrow> x \<in> block_ids s - taken_blocks s \<and> taken_blocks s' = insert x (taken_blocks s)"
    using block_alloc.alloc_id [OF assms] by blast
  show ?thesis
  proof (cases r)
    case (Some n)
    have k: "kind_ok 0 12 12" by (simp add: kind_ok_def)
    obtain g b where gb: "n = g * bits_of 0 s + b + first_block s" "g < group_count s" "b \<in> free_bits 0 s g"
      "\<forall>c \<in> free_bits 0 s g. b \<le> c" "\<forall>h < g. free_bits 0 s h = {}" "bit_changed 0 12 12 True s s' g b" "on_disk s'"
      using ext2_alloc_block_spec [OF assms] r(1) Some by auto
    note lay = bit_changed_layout [OF groups_meta [OF assms] k gb(6)]
    have u: "used_bit 4 s' h i = used_bit 4 s h i" if "h < group_count s" for h i
      using gb(6) that by (simp add: bit_changed_def)
    have gc: "group_count s' = group_count s" using gb(6) by (simp add: bit_changed_def)
    have ti: "taken_inodes s' = taken_inodes s" unfolding taken_inodes_def lay gc using u by blast
    have low: "n \<le> m" if m: "m \<in> block_ids s - taken_blocks s" for m
    proof -
      obtain h c where hc: "m = h * bits_of 0 s + c + first_block s" "h < group_count s" "c < bits_of 0 s" "\<not> used_bit 0 s h c"
        using m by (auto simp: block_ids_def taken_blocks_def)
      then have c: "c \<in> free_bits 0 s h" by (simp add: free_bits_def)
      then have "g \<le> h" using gb(5) by (metis empty_iff not_less)
      show ?thesis
      proof (cases "g = h")
        case True
        then show ?thesis using c gb(1,4) hc(1) by simp
      next
        case False
        then have "g * bits_of 0 s + b < h * bits_of 0 s" using \<open>g \<le> h\<close> free_bitsD [OF gb(3)] by (intro number_less) auto
        then show ?thesis using gb(1) hc(1) by simp
      qed
    qed
    have "\<forall>x. block_in s x \<and> gd_blk s < x \<and> x \<noteq> bm_blk 0 s g \<longrightarrow> blk s' x = blk s x" using gb(6) by (simp add: bit_changed_def)
    then show ?thesis using r Some gb(2,7) ti low by auto
  qed (use r in auto)
qed

theorem ext2_alloc_block_lowest_witness:
  "\<exists>n s'. ext2_alloc_block (demo_fs demo_disk) = Some (Some n, s') \<and> groups_ok s' \<and> on_disk s' \<and>
     n \<in> block_ids (demo_fs demo_disk) - taken_blocks (demo_fs demo_disk)"
proof -
  have "9 \<in> block_ids (demo_fs demo_disk)"
    using in_numbers [of 8 "64::nat" 0 1 1 "\<lambda>g b. True"] by (simp add: numbers_sets bits_of_def first_block_def demo_fields)
  moreover have "\<not> used_bit 0 (demo_fs demo_disk) 0 8" by (simp add: used_bit_def bm_blk_def demo_fields demo_bitmaps demo_bit)
  then have "9 \<notin> taken_blocks (demo_fs demo_disk)"
    using in_numbers [of 8 "64::nat" 0 1 1 "used_bit 0 (demo_fs demo_disk)"] by (simp add: numbers_sets bits_of_def first_block_def demo_fields)
  ultimately show ?thesis using ext2_alloc_block_lowest [OF demo_groups_ok] by (auto split: option.splits)
qed

text \<open>
  C39: a series of inode allocations.  Any number of calls of \<open>ext2_alloc_inode\<close> return different inodes, none of them in
  use before; they run out exactly when all inodes are taken, and afterwards the inodes in use are those before and the
  ones returned.
\<close>

theorem ext2_alloc_inodes_distinct:
  assumes "groups_ok s"
  shows "\<exists>xs s'. id_allocator.alloc_many ext2_alloc_inode n s = Some (xs, s') \<and> groups_ok s' \<and> distinct xs \<and>
           set xs \<subseteq> inode_ids s - taken_inodes s \<and> taken_inodes s' = taken_inodes s \<union> set xs \<and>
           length xs = min n (card (inode_ids s - taken_inodes s))"
  using inode_alloc.alloc_many_spec [OF assms] by blast

theorem ext2_alloc_inodes_distinct_witness:
  "\<exists>xs s'. id_allocator.alloc_many ext2_alloc_inode 3 (demo_fs demo_disk) = Some (xs, s') \<and> distinct xs \<and> groups_ok s'"
  using ext2_alloc_inodes_distinct [OF demo_groups_ok, of 3] by blast

text \<open>
  Freeing undoes allocation.  A block that \<open>ext2_alloc_block\<close> returned can be given back with \<open>ext2_free_block\<close>, after
  which the blocks in use are those before the allocation, and the counters still count the free blocks.
\<close>

theorem ext2_free_block_undoes_alloc:
  assumes "groups_ok s" and "ext2_alloc_block s = Some (Some n, s1)" and "n \<noteq> 0"
  shows "\<exists>s2. ext2_free_block s1 n = Some s2 \<and> groups_ok s2 \<and> taken_blocks s2 = taken_blocks s"
proof -
  have s1: "groups_ok s1" "n \<notin> taken_blocks s" "taken_blocks s1 = insert n (taken_blocks s)"
    using block_alloc.alloc_id [OF assms(1)] assms(2) by auto
  then obtain s2 where "ext2_free_block s1 n = Some s2" "groups_ok s2" "taken_blocks s2 = taken_blocks s1 - {n}"
    using block_alloc.release_id [OF s1(1), of n] assms(3) by auto
  then show ?thesis using s1 by auto
qed

theorem ext2_free_block_undoes_alloc_witness:
  "\<exists>n s1 s2. ext2_alloc_block (demo_fs demo_disk) = Some (Some n, s1) \<and> ext2_free_block s1 n = Some s2 \<and>
     taken_blocks s2 = taken_blocks (demo_fs demo_disk)"
proof -
  obtain n s1 where n: "ext2_alloc_block (demo_fs demo_disk) = Some (Some n, s1)" "n \<noteq> 0" using demo_alloc by blast
  then show ?thesis using ext2_free_block_undoes_alloc [OF demo_groups_ok n] by blast
qed

end
