(* ===== verification/TextBuf.thy ===== *)
theory TextBuf
  imports Kstring
begin

text \<open>
  The text buffer that the two editors of \<open>src/kernel/shell/editors.c\<close> keep: an array of 512 rows of 160 bytes, each row a
  terminated string.

  \<^item> The loops that move rows one up or one down copy all 160 bytes of a row and are modelled as copies of rows.
  \<^item> The loops that move a part of a row are the two loops of \<open>memmove\<close>, with the lowest byte first when the text moves to
    the left and with the highest byte first when it moves to the right.
  \<^item> A buffer is well formed when all its rows are strings; its text is the list of the strings of the rows in use.
\<close>

section \<open>Loops over rows\<close>

definition NANO_MAX_LINES :: nat where
  "NANO_MAX_LINES = 512"

definition NANO_MAX_COL :: nat where
  "NANO_MAX_COL = 160"

type_synonym rows = "u8 list list"

text \<open>Rows \<open>i\<close> to \<open>i + n - 1\<close> take the content of the row below them, the first one first.\<close>

fun rows_up :: "'a list \<Rightarrow> nat \<Rightarrow> nat \<Rightarrow> 'a list option" where
  "rows_up ls i 0 = Some ls"
| "rows_up ls i (Suc n) = do { r \<leftarrow> rd ls (Suc i); t \<leftarrow> wr ls i r; rows_up t (Suc i) n }"

text \<open>Rows \<open>i + n\<close> down to \<open>i + 1\<close> take the content of the row above them.\<close>

fun rows_down :: "'a list \<Rightarrow> nat \<Rightarrow> nat \<Rightarrow> 'a list option" where
  "rows_down ls i 0 = Some ls"
| "rows_down ls i (Suc n) = do { r \<leftarrow> rd ls (i + n); t \<leftarrow> wr ls (Suc (i + n)) r; rows_down t i n }"

text \<open>The length of a row, and a string copied into one.\<close>

definition line_len :: "rows \<Rightarrow> nat \<Rightarrow> nat option" where
  "line_len ls r = do { l \<leftarrow> rd ls r; strlen l }"

text \<open>Merging with the previous line: \<open>room\<close> bytes of it fit.\<close>

definition merge_lines :: "rows \<Rightarrow> nat \<Rightarrow> nat \<Rightarrow> nat \<Rightarrow> nat \<Rightarrow> rows option" where
  "merge_lines ls r plen room lcount =
     do { line \<leftarrow> rd ls r;
          prev \<leftarrow> rd ls (r - 1);
          prev1 \<leftarrow> (if 0 < room then do { p \<leftarrow> memcpy prev plen line 0 room; wr p (plen + room) 0 } else Some prev);
          rows_up (ls[r - 1 := prev1]) r (lcount - 1 - r) }"

text \<open>An empty line opened at row \<open>r\<close>, with the rows below moved down.\<close>

definition open_row :: "rows \<Rightarrow> nat \<Rightarrow> nat \<Rightarrow> rows option" where
  "open_row ls r lcount =
     do { ls1 \<leftarrow> rows_down ls r (lcount - r);
          l \<leftarrow> rd ls1 r;
          z \<leftarrow> bzero l 0 NANO_MAX_COL;
          Some (ls1[r := z]) }"

text \<open>Line \<open>r\<close> split at column \<open>c\<close>: the tail goes to the line below, which is open already.\<close>

definition split_row :: "rows \<Rightarrow> nat \<Rightarrow> nat \<Rightarrow> nat \<Rightarrow> rows option" where
  "split_row ls r c len =
     do { line \<leftarrow> rd ls r;
          next \<leftarrow> rd ls (r + 1);
          let k = min (len - c) (NANO_MAX_COL - 1);
          n1 \<leftarrow> memcpy next 0 line c k;
          n2 \<leftarrow> wr n1 k 0;
          l1 \<leftarrow> wr line c 0;
          Some (ls[r + 1 := n2, r := l1]) }"

section \<open>What the loops do\<close>

lemma rows_up_delete:
  "i + n < length ls \<Longrightarrow> rows_up ls i n = Some (take i ls @ take n (drop (Suc i) ls) @ drop (i + n) ls)"
proof (induction n arbitrary: ls i)
  case (Suc n)
  let ?t = "ls[i := ls ! Suc i]"
  have "rows_up ?t (Suc i) n = Some (take (Suc i) ?t @ take n (drop (Suc (Suc i)) ?t) @ drop (Suc i + n) ?t)"
    using Suc by simp
  moreover have "take (Suc i) ?t = take i ls @ [ls ! Suc i]" using Suc.prems by (simp add: take_Suc_snoc)
  moreover have "take (Suc n) (drop (Suc i) ls) = ls ! Suc i # take n (drop (Suc (Suc i)) ls)"
    using Suc.prems by (simp add: Cons_nth_drop_Suc [symmetric])
  ultimately show ?case using Suc.prems by (simp add: mem_simps drop_update_cancel)
qed simp

lemma rows_down_insert:
  "i + n < length ls \<Longrightarrow> rows_down ls i n = Some (take (Suc i) ls @ take n (drop i ls) @ drop (Suc (i + n)) ls)"
proof (induction n arbitrary: ls)
  case 0
  then show ?case by (simp add: append_take_drop_id)
next
  case (Suc n)
  let ?t = "ls[Suc (i + n) := ls ! (i + n)]"
  have "rows_down ?t i n = Some (take (Suc i) ?t @ take n (drop i ?t) @ drop (Suc (i + n)) ?t)"
    using Suc by simp
  moreover have "drop (Suc (i + n)) ?t = ls ! (i + n) # drop (Suc (Suc (i + n))) ls"
    using Suc.prems by (simp add: Cons_nth_drop_Suc [symmetric])
  moreover have "take (Suc n) (drop i ls) = take n (drop i ls) @ [ls ! (i + n)]"
    using Suc.prems by (simp add: take_Suc_snoc)
  moreover have "take (Suc i) ?t = take (Suc i) ls" "take n (drop i ?t) = take n (drop i ls)"
    using Suc.prems by (simp_all add: drop_update_swap)
  ultimately show ?case using Suc.prems by (simp add: mem_simps)
qed

section \<open>Rows as strings\<close>

definition row_ok :: "u8 list \<Rightarrow> bool" where
  "row_ok l \<longleftrightarrow> length l = 160 \<and> terminated l"

definition rows_ok :: "rows \<Rightarrow> bool" where
  "rows_ok ls \<longleftrightarrow> length ls = 512 \<and> (\<forall>l \<in> set ls. row_ok l)"

text \<open>A row that starts with a string and its terminator.\<close>

lemma row_ok_string:
  assumes "length l = 160" and "l = xs @ 0 # ys" and "0 \<notin> set xs"
  shows "row_ok l" and "cstr l = xs"
  using assms by (simp_all add: row_ok_def terminated_append_zero cstr_append_zero)

lemma row_split:
  assumes "row_ok l"
  obtains ys where "l = cstr l @ 0 # ys" and "0 \<notin> set (cstr l)" and "length (cstr l) + length ys = 159"
proof -
  have t: "terminated l" "length l = 160" using assms by (simp_all add: row_ok_def)
  have "l = cstr l @ drop (length (cstr l)) l"
    unfolding cstr_def by (metis append_take_drop_id takeWhile_eq_take)
  also have "drop (length (cstr l)) l = 0 # drop (Suc (length (cstr l))) l"
    using cstr_length [OF t(1)] cstr_stop [OF t(1)] by (simp add: Cons_nth_drop_Suc [symmetric])
  finally have "l = cstr l @ 0 # drop (Suc (length (cstr l))) l" .
  moreover have "length (cstr l) + length (drop (Suc (length (cstr l))) l) = 159"
    using t cstr_length [OF t(1)] by simp
  ultimately show ?thesis using that cstr_no_zero by blast
qed

lemma row_strlen: "row_ok l \<Longrightarrow> strlen l = Some (length (cstr l))"
  by (simp add: row_ok_def strlen_cstr)

lemma row_len: "row_ok l \<Longrightarrow> length (cstr l) \<le> 159"
  using cstr_length [of l] by (simp add: row_ok_def)

text \<open>Inserting bytes at \<open>c\<close> into a row, and removing \<open>k\<close> bytes at \<open>c\<close>.\<close>

lemma row_insert:
  assumes "row_ok l" and "c \<le> length (cstr l)" and "length (cstr l) + length xs \<le> 159" and "0 \<notin> set xs"
  shows "\<exists>t. memmove_down l (c + length xs) c (Suc (length (cstr l)) - c) = Some t \<and> length t = 160 \<and>
    row_ok (blit t c xs) \<and> cstr (blit t c xs) = take c (cstr l) @ xs @ drop c (cstr l)"
proof -
  obtain ys where l: "l = cstr l @ 0 # ys" "0 \<notin> set (cstr l)" "length (cstr l) + length ys = 159" using row_split [OF assms(1)] .
  let ?s = "cstr l"
  let ?n = "Suc (length ?s) - c"
  let ?t = "blit l (c + length xs) (take ?n (drop c l))"
  have len: "length l = 160" using assms(1) by (simp add: row_ok_def)
  have tk: "take ?n (drop c l) = drop c ?s @ [0]" using assms(2) by (subst l(1)) (simp add: Suc_diff_le)
  have "memmove_down l (c + length xs) c ?n = Some ?t"
    using memmove_down_blit [of c "c + length xs" ?n l ?n] assms(2,3) len by simp
  moreover have lt: "length ?t = 160" using len tk assms(2,3) by (simp add: mem_simps)
  moreover have "blit ?t c xs = (take c ?s @ xs @ drop c ?s) @ 0 # drop (Suc (length ?s + length xs)) l"
  proof -
    have tc: "take c l = take c ?s" using assms(2) by (subst l(1)) simp
    have t: "?t = take (c + length xs) l @ (drop c ?s @ [0]) @ drop (Suc (length ?s + length xs)) l"
      using assms(2) by (simp add: blit_def tk add.commute [of "length ?s"])
    have "take c ?t = take c l" using len assms(2,3) by (subst t) simp
    moreover have "drop (c + length xs) ?t = (drop c ?s @ [0]) @ drop (Suc (length ?s + length xs)) l"
      using len assms(2,3) by (subst t) simp
    ultimately show ?thesis by (simp add: blit_def tc)
  qed
  moreover have "0 \<notin> set (take c ?s @ xs @ drop c ?s)" using l(2) assms(4) by (auto dest: in_set_takeD in_set_dropD)
  moreover have "length (blit ?t c xs) = 160" using lt assms(2,3) by (simp add: mem_simps)
  ultimately show ?thesis using row_ok_string by blast
qed

lemma row_remove:
  assumes "row_ok l" and "c + k \<le> length (cstr l)" and "0 < k"
  shows "\<exists>t. memmove_up l c (c + k) (Suc (length (cstr l)) - (c + k)) 0 = Some t \<and> row_ok t \<and>
    cstr t = take c (cstr l) @ drop (c + k) (cstr l)"
proof -
  obtain ys where l: "l = cstr l @ 0 # ys" "0 \<notin> set (cstr l)" "length (cstr l) + length ys = 159" using row_split [OF assms(1)] .
  let ?s = "cstr l"
  let ?n = "Suc (length ?s) - (c + k)"
  let ?t = "blit l c (take ?n (drop (c + k) l))"
  have len: "length l = 160" using assms(1) by (simp add: row_ok_def)
  have tk: "take ?n (drop (c + k) l) = drop (c + k) ?s @ [0]" using assms(2) by (subst l(1)) (simp add: Suc_diff_le)
  have "memmove_up l c (c + k) ?n 0 = Some ?t"
    using memmove_up_blit [of c "c + k" ?n l 0] assms(2,3) len l(3) by simp
  moreover have "?t = (take c ?s @ drop (c + k) ?s) @ 0 # drop (Suc (length ?s - k)) l"
  proof -
    have "take c l = take c ?s" using assms(2) by (subst l(1)) simp
    moreover have "c + length (drop (c + k) ?s @ [0]) = Suc (length ?s - k)" using assms(2) by simp
    ultimately show ?thesis unfolding blit_def tk by simp
  qed
  moreover have "0 \<notin> set (take c ?s @ drop (c + k) ?s)" using l(2) by (auto dest: in_set_takeD in_set_dropD)
  moreover have "length ?t = 160" using len tk assms(2,3) l(3) by (simp add: mem_simps)
  ultimately show ?thesis using row_ok_string by blast
qed

text \<open>Cutting a row at \<open>c\<close>.\<close>

lemma row_cut:
  assumes "row_ok l" and "c \<le> length (cstr l)"
  shows "c < length l" and "row_ok (l[c := 0])" and "cstr (l[c := 0]) = take c (cstr l)"
proof -
  obtain ys where l: "l = cstr l @ 0 # ys" "0 \<notin> set (cstr l)" "length (cstr l) + length ys = 159" using row_split [OF assms(1)] .
  have len: "length l = 160" using assms(1) by (simp add: row_ok_def)
  show c: "c < length l" using len assms(2) l(3) by simp
  have "l[c := 0] = take c l @ 0 # drop (Suc c) l" using c by (simp add: upd_conv_take_nth_drop)
  moreover have "take c l = take c (cstr l)" using assms(2) by (subst l(1)) simp
  moreover have "0 \<notin> set (take c (cstr l))" using l(2) by (auto dest: in_set_takeD)
  ultimately show "row_ok (l[c := 0])" "cstr (l[c := 0]) = take c (cstr l)"
    using row_ok_string [of "l[c := 0]" "take c (cstr l)" "drop (Suc c) l"] len by (metis length_list_update)+
qed

lemma rows_ok_update: "rows_ok ls \<Longrightarrow> row_ok l \<Longrightarrow> rows_ok (ls[r := l])"
  by (auto simp: rows_ok_def dest: set_update_subset_insert [THEN subsetD])

lemma rows_ok_nth: "rows_ok ls \<Longrightarrow> r < 512 \<Longrightarrow> row_ok (ls ! r) \<and> rd ls r = Some (ls ! r)"
  by (simp add: rows_ok_def rd_in)

section \<open>Texts\<close>

definition texts :: "rows \<Rightarrow> nat \<Rightarrow> u8 list list" where
  "texts ls n = map cstr (take n ls)"

lemma length_texts [simp]: "rows_ok ls \<Longrightarrow> n \<le> 512 \<Longrightarrow> length (texts ls n) = n"
  by (simp add: texts_def rows_ok_def)

lemma texts_nth: "rows_ok ls \<Longrightarrow> n \<le> 512 \<Longrightarrow> r < n \<Longrightarrow> texts ls n ! r = cstr (ls ! r)"
  by (simp add: texts_def rows_ok_def)

lemma texts_update: "texts (ls[r := l]) n = (texts ls n)[r := cstr l]"
  by (simp add: texts_def take_update_swap map_update)

lemma texts_line_ok:
  assumes "rows_ok ls" and "x \<in> set (texts ls n)"
  shows "length x \<le> 159 \<and> 0 \<notin> set x"
proof -
  obtain l where "l \<in> set ls" "x = cstr l" using assms(2) by (auto simp: texts_def dest: in_set_takeD)
  then show ?thesis using assms(1) row_len [of l] cstr_no_zero [of l] by (auto simp: rows_ok_def)
qed

text \<open>Removing row \<open>r\<close>, and opening an empty row at \<open>r\<close>.\<close>

lemma rows_delete:
  assumes "rows_ok ls" and "r < n" and "n \<le> 512"
  shows "\<exists>ls'. rows_up ls r (n - 1 - r) = Some ls' \<and> rows_ok ls' \<and> texts ls' (n - 1) = take r (texts ls n) @ drop (Suc r) (texts ls n)"
proof -
  let ?k = "n - 1 - r"
  let ?ls = "take r ls @ take ?k (drop (Suc r) ls) @ drop (r + ?k) ls"
  have len: "length ls = 512" using assms(1) by (simp add: rows_ok_def)
  have "rows_up ls r ?k = Some ?ls" using rows_up_delete [of r ?k ls] assms(2,3) len by simp
  moreover have "rows_ok ?ls" using assms(1,2,3) len by (auto simp: rows_ok_def dest: in_set_takeD in_set_dropD)
  moreover have "take (n - 1) ?ls = take r ls @ take ?k (drop (Suc r) ls)" using assms(2,3) len by simp
  moreover have "take ?k (drop (Suc r) ls) = drop (Suc r) (take n ls)" using assms(2) by (simp add: take_drop)
  ultimately show ?thesis using assms(2) by (auto simp: texts_def take_map drop_map min_def)
qed

lemma row_zero: "row_ok l \<Longrightarrow> bzero l 0 NANO_MAX_COL = Some (replicate 160 0)"
  by (simp add: bzero_blit NANO_MAX_COL_def row_ok_def blit_def)

lemma row_zero_ok [simp]: "row_ok (replicate 160 0)" "cstr (replicate 160 0) = []"
  by (simp_all add: row_ok_def terminated_def cstr_def)

lemma rows_open:
  assumes "rows_ok ls" and "r \<le> n" and "n < 512"
  shows "\<exists>ls'. open_row ls r n = Some ls' \<and> rows_ok ls' \<and> texts ls' (Suc n) = take r (texts ls n) @ [] # drop r (texts ls n) \<and>
    ls' ! r = replicate 160 0 \<and> (\<forall>i < r. ls' ! i = ls ! i)"
proof -
  let ?k = "n - r"
  let ?l1 = "take (Suc r) ls @ take ?k (drop r ls) @ drop (Suc (r + ?k)) ls"
  let ?ls = "?l1[r := replicate 160 0]"
  have len: "length ls = 512" using assms(1) by (simp add: rows_ok_def)
  have d: "rows_down ls r ?k = Some ?l1" using rows_down_insert [of r ?k ls] assms(2,3) len by simp
  have ok1: "rows_ok ?l1" using assms len by (auto simp: rows_ok_def dest: in_set_takeD in_set_dropD)
  have "open_row ls r n = Some ?ls"
    using d rows_ok_nth [OF ok1, of r] assms(2,3) row_zero [of "?l1 ! r"] by (simp add: open_row_def)
  moreover have "rows_ok ?ls" by (intro rows_ok_update ok1) simp
  moreover have "texts ?ls (Suc n) = take r (texts ls n) @ [] # drop r (texts ls n)"
  proof -
    have "take (Suc n) ?l1 = take (Suc r) ls @ take ?k (drop r ls)" using assms(2,3) len by simp
    also have "\<dots> = take r ls @ ls ! r # drop r (take n ls)" using assms(2,3) len by (simp add: take_Suc_snoc take_drop)
    finally have "texts ?l1 (Suc n) = take r (texts ls n) @ cstr (ls ! r) # drop r (texts ls n)"
      using assms(2) by (simp add: texts_def take_map drop_map min_def)
    moreover have "length (take r (texts ls n)) = r" using assms by simp
    moreover have "texts ?ls (Suc n) = (texts ?l1 (Suc n))[r := []]" by (simp only: texts_update row_zero_ok)
    ultimately show ?thesis by (simp only:) (simp add: list_update_append)
  qed
  moreover have "?ls ! r = replicate 160 0" "\<forall>i < r. ?ls ! i = ls ! i" using assms(2,3) len by (simp_all add: nth_append)
  ultimately show ?thesis by blast
qed

text \<open>Appending to a row, merging two lines and splitting one.\<close>

lemma row_append:
  assumes "row_ok p" and "length (cstr p) + k \<le> 159" and "k \<le> length xs" and "0 \<notin> set (take k xs)"
  shows "\<exists>q. do { b \<leftarrow> memcpy p (length (cstr p)) xs 0 k; wr b (length (cstr p) + k) 0 } = Some q \<and> row_ok q \<and>
    cstr q = cstr p @ take k xs"
proof -
  obtain ys where p: "p = cstr p @ 0 # ys" "0 \<notin> set (cstr p)" "length (cstr p) + length ys = 159" using row_split [OF assms(1)] .
  have len: "length p = 160" using assms(1) by (simp add: row_ok_def)
  let ?b = "blit p (length (cstr p)) (take k xs)"
  let ?q = "?b[length (cstr p) + k := 0]"
  have m: "memcpy p (length (cstr p)) xs 0 k = Some ?b" using assms(2,3) len by (simp add: mem_simps)
  have tp: "take (length (cstr p)) p = cstr p" by (subst (2) p(1)) simp
  have q: "?q = (cstr p @ take k xs) @ 0 # drop (Suc (length (cstr p) + k)) p"
    using blit_snoc [of "length (cstr p)" "take k xs" p 0] assms(2,3) len by (simp add: blit_def tp)
  have "length ?q = 160" using assms(2,3) len by (simp add: mem_simps)
  moreover have "0 \<notin> set (cstr p @ take k xs)" using p(2) assms(4) by simp
  moreover have "wr ?b (length (cstr p) + k) 0 = Some ?q" using assms(2,3) len by (simp add: mem_simps)
  ultimately show ?thesis using m row_ok_string [OF _ q] by auto
qed

lemma rows_merge:
  assumes "rows_ok ls" and "0 < r" and "r < n" and "n \<le> 512"
    and "a = cstr (ls ! (r - 1))" and "b = cstr (ls ! r)"
  shows "\<exists>ls'. merge_lines ls r (length a) (min (159 - length a) (length b)) n = Some ls' \<and> rows_ok ls' \<and>
    texts ls' (n - 1) = take (r - 1) (texts ls n) @ take 159 (a @ b) # drop (Suc r) (texts ls n)"
proof -
  let ?room = "min (159 - length a) (length b)"
  have ra: "row_ok (ls ! (r - 1))" "rd ls (r - 1) = Some (ls ! (r - 1))" using rows_ok_nth [OF assms(1), of "r - 1"] assms(3,4) by auto
  have rb: "row_ok (ls ! r)" "rd ls r = Some (ls ! r)" using rows_ok_nth [OF assms(1), of r] assms(3,4) by auto
  obtain ys where lb: "ls ! r = b @ 0 # ys" "0 \<notin> set b" "length b + length ys = 159" using row_split [OF rb(1)] assms(6) by blast
  have tk: "take ?room (ls ! r) = take ?room b" by (simp add: lb(1))
  obtain q where q: "(if 0 < ?room then do { p \<leftarrow> memcpy (ls ! (r - 1)) (length a) (ls ! r) 0 ?room; wr p (length a + ?room) 0 }
      else Some (ls ! (r - 1))) = Some q" "row_ok q" "cstr q = a @ take ?room b"
  proof (cases "0 < ?room")
    case True
    have "\<exists>q. do { p \<leftarrow> memcpy (ls ! (r - 1)) (length a) (ls ! r) 0 ?room; wr p (length a + ?room) 0 } = Some q \<and> row_ok q \<and>
        cstr q = a @ take ?room (ls ! r)"
    proof -
      have "length (cstr (ls ! (r - 1))) + ?room \<le> 159" using row_len [OF ra(1)] unfolding assms(5) by linarith
      moreover have "?room \<le> length (ls ! r)" by (simp add: lb(1))
      moreover have "0 \<notin> set (take ?room (ls ! r))" unfolding tk using lb(2) by (auto dest: in_set_takeD)
      ultimately show ?thesis unfolding assms(5) by (rule row_append [OF ra(1)])
    qed
    then show ?thesis using that True tk by auto
  qed (use that ra(1) assms(5) in auto)
  have qt: "cstr q = take 159 (a @ b)" using q(3) row_len [OF ra(1)] assms(5) by (simp add: min_def)
  let ?l1 = "ls[r - 1 := q]"
  have ok1: "rows_ok ?l1" by (rule rows_ok_update [OF assms(1) q(2)])
  obtain ls' where ls': "rows_up ?l1 r (n - 1 - r) = Some ls'" "rows_ok ls'"
    "texts ls' (n - 1) = take r (texts ?l1 n) @ drop (Suc r) (texts ?l1 n)" using rows_delete [OF ok1 assms(3,4)] by blast
  have lt: "length (texts ls n) = n" using assms(1,4) by simp
  have "take r (texts ?l1 n) = take (r - 1) (texts ls n) @ [take 159 (a @ b)]"
    using assms(2,3) lt take_Suc_snoc [of "r - 1" "texts ?l1 n"] by (simp add: texts_update qt)
  moreover have "drop (Suc r) (texts ?l1 n) = drop (Suc r) (texts ls n)" using assms(2) by (simp add: texts_update)
  moreover have "merge_lines ls r (length a) ?room n = Some ls'" by (simp only: merge_lines_def ra(2) rb(2) q(1) ls'(1) Option.bind.simps)
  ultimately show ?thesis using ls' by auto
qed

lemma row_split_at:
  assumes "rows_ok ls" and "r + 1 < 512" and "s = cstr (ls ! r)" and "c \<le> length s" and "ls ! (r + 1) = replicate 160 0"
  shows "\<exists>x y. split_row ls r c (length s) = Some (ls[r + 1 := y, r := x]) \<and> row_ok x \<and> row_ok y \<and> cstr x = take c s \<and> cstr y = drop c s"
proof -
  have r: "row_ok (ls ! r)" "rd ls r = Some (ls ! r)" using rows_ok_nth [OF assms(1), of r] assms(2) by auto
  have r1: "rd ls (r + 1) = Some (replicate 160 0)" using rows_ok_nth [OF assms(1), of "r + 1"] assms(2,5) by auto
  obtain ys where l: "ls ! r = s @ 0 # ys" "0 \<notin> set s" "length s + length ys = 159" using row_split [OF r(1)] assms(3) by blast
  let ?k = "length s - c"
  have k: "min ?k (NANO_MAX_COL - 1) = ?k" using l(3) by (simp add: NANO_MAX_COL_def)
  let ?y = "(blit (replicate 160 0) 0 (drop c s))[?k := 0]"
  have tk: "take ?k (drop c (ls ! r)) = drop c s" using assms(4) by (simp add: l(1))
  have m: "memcpy (replicate 160 0) 0 (ls ! r) c ?k = Some (blit (replicate 160 0) 0 (drop c s))"
    using l assms(4) by (subst memcpy_blit) (simp_all add: tk)
  have y: "?y = drop c s @ 0 # replicate (159 - ?k) 0" using l(3) assms(4)
    by (intro nth_equalityI) (auto simp: blit_def nth_append nth_list_update nth_Cons')
  have oky: "row_ok ?y" "cstr ?y = drop c s"
    using row_ok_string [OF _ y] l assms(4) by (auto simp: blit_def dest: in_set_dropD)
  have w: "wr (blit (replicate 160 0) 0 (drop c s)) ?k 0 = Some ?y" using l(3) by (simp add: mem_simps blit_def)
  note x = row_cut [OF r(1), of c]
  have "wr (ls ! r) c 0 = Some ((ls ! r)[c := 0])" using x assms(3,4) by (simp add: mem_simps)
  then have "split_row ls r c (length s) = Some (ls[r + 1 := ?y, r := (ls ! r)[c := 0]])"
    using r r1 m w k by (simp add: split_row_def)
  then show ?thesis using oky x assms(3,4) by auto
qed

end
