(* ===== verification/Readline.thy ===== *)
theory Readline
  imports Term
begin

text \<open>
  Keyboard input and line editing: \<open>src/kernel/dev/keyboard.c\<close>, \<open>src/kernel/shell/readline.c\<close> and the
  command history of \<open>src/kernel/shell/commands.c\<close>.

  The keyboard interrupt writes the \<open>volatile\<close> variables of \<open>kbd_state\<close>, the loop of \<open>readline\<close> polls and
  clears them.  The two interleave: \<open>rl_step\<close> is one interrupt or one iteration of the loop, in any
  order.  An interrupt in the middle of an iteration is not modelled.
\<close>

section \<open>Definitions\<close>

subsection \<open>Keyboard\<close>

record kbd_state =
  modifier :: u8
  in_read :: u8
  read_key :: u8
  do_clear_screen :: u8
  cancel_input :: u8
  nav_key :: u8
  word_del :: u8
  ctrl_char :: u8

definition KEYMOD_ALT :: u8 where
  "KEYMOD_ALT = 56"

definition KEYMOD_CTRL :: u8 where
  "KEYMOD_CTRL = 29"

definition KEYMOD_SHFT :: u8 where
  "KEYMOD_SHFT = 42"

text \<open>The array has four elements and three initialisers, so its last element is 0.\<close>

definition is_modifier :: "u8 \<Rightarrow> bool" where
  "is_modifier scancode \<longleftrightarrow> scancode \<in> set [KEYMOD_ALT, KEYMOD_CTRL, KEYMOD_SHFT, 0]"

definition keys :: "u8 list" where
  "keys = [0, 0, 0x31, 0x32, 0x33, 0x34, 0x35, 0x36, 0x37, 0x38, 0x39, 0x30, 0x2D, 0x3D, 0x08,
     0x09, 0x71, 0x77, 0x65, 0x72, 0x74, 0x79, 0x75, 0x69, 0x6F, 0x70, 0x5B, 0x5D, 0x0A,
     0, 0x61, 0x73, 0x64, 0x66, 0x67, 0x68, 0x6A, 0x6B, 0x6C, 0x3B, 0x27, 0x60,
     0, 0x5C, 0x7A, 0x78, 0x63, 0x76, 0x62, 0x6E, 0x6D, 0x2C, 0x2E, 0x2F, 0, 0x2A, 0, 0x20, 0] @ replicate 69 0"

definition shift_keys :: "u8 list" where
  "shift_keys = [0, 0, 0x21, 0x40, 0x23, 0x24, 0x25, 0x5E, 0x26, 0x2A, 0x28, 0x29, 0x5F, 0x2B, 0,
     0, 0x51, 0x57, 0x45, 0x52, 0x54, 0x59, 0x55, 0x49, 0x4F, 0x50, 0x7B, 0x7D, 0,
     0, 0x41, 0x53, 0x44, 0x46, 0x47, 0x48, 0x4A, 0x4B, 0x4C, 0x3A, 0x22, 0x7E,
     0, 0x7C, 0x5A, 0x58, 0x43, 0x56, 0x42, 0x4E, 0x4D, 0x3C, 0x3E, 0x3F, 0, 0x2A, 0, 0x20, 0] @ replicate 69 0"

text \<open>One keyboard interrupt; \<open>scancode\<close> is what \<open>inb(0x60)\<close> returns.\<close>

definition keyboard_handler :: "u8 \<Rightarrow> kbd_state \<Rightarrow> kbd_state" where
  "keyboard_handler scancode k =
     (if scancode AND 0x80 \<noteq> 0 then
        (if is_modifier (scancode XOR 0x80) then k\<lparr>modifier := 0\<rparr> else k)
      else if modifier k = 0 \<and> is_modifier scancode then k\<lparr>modifier := scancode\<rparr>
      else if modifier k = KEYMOD_CTRL then
        (if scancode = 38 then k\<lparr>do_clear_screen := 1\<rparr>
         else if scancode = 46 then k\<lparr>cancel_input := 1\<rparr>
         else if scancode \<le> 58 then k\<lparr>ctrl_char := keys ! unat scancode\<rparr>
         else k)\<lparr>modifier := 0\<rparr>
      else if modifier k = KEYMOD_ALT \<and> scancode = 14 then
        k\<lparr>read_key := 0, nav_key := 0, word_del := 1, in_read := 1, modifier := 0\<rparr>
      else if modifier k = KEYMOD_SHFT \<and> scancode \<le> 58 then
        k\<lparr>read_key := shift_keys ! unat scancode, nav_key := 0, word_del := 0, in_read := 1\<rparr>
      else if modifier k = 0 \<and> scancode \<le> 58 then
        k\<lparr>read_key := keys ! unat scancode, nav_key := 0, word_del := 0, in_read := 1\<rparr>
      else if modifier k = 0 \<and> scancode = 72 then k\<lparr>read_key := 0, nav_key := 1, in_read := 1\<rparr>
      else if modifier k = 0 \<and> scancode = 80 then k\<lparr>read_key := 0, nav_key := 2, in_read := 1\<rparr>
      else if modifier k = 0 \<and> scancode = 75 then k\<lparr>read_key := 0, nav_key := 3, in_read := 1\<rparr>
      else if modifier k = 0 \<and> scancode = 77 then k\<lparr>read_key := 0, nav_key := 4, in_read := 1\<rparr>
      else k\<lparr>modifier := 0\<rparr>)"

subsection \<open>Command history\<close>

record hist_state =
  s_hist :: "u8 list list"
  s_hist_count :: nat
  s_hist_pos :: nat

definition shell_history_get :: "hist_state \<Rightarrow> nat \<Rightarrow> u8 list option" where
  "shell_history_get h idx = (if idx < s_hist_count h then Some (s_hist h ! idx) else None)"

definition shell_history_count :: "hist_state \<Rightarrow> nat" where
  "shell_history_count h = s_hist_count h"

definition shell_history_current :: "hist_state \<Rightarrow> u8 list option" where
  "shell_history_current h = (if s_hist_pos h < s_hist_count h then Some (s_hist h ! s_hist_pos h) else None)"

definition shell_history_pos_set :: "nat \<Rightarrow> hist_state \<Rightarrow> hist_state" where
  "shell_history_pos_set p h = h\<lparr>s_hist_pos := p\<rparr>"

text \<open>The copy loop of \<open>shell_record\<close>, with the terminator stored behind it.\<close>

function record_copy :: "u8 list \<Rightarrow> nat \<Rightarrow> u8 list \<Rightarrow> u8 list option" where
  "record_copy line i b =
     do { c \<leftarrow> rd line i;
          if c \<noteq> 0 \<and> i < 63 then do { b' \<leftarrow> wr b i c; record_copy line (Suc i) b' } else wr b i 0 }"
  by pat_completeness auto
termination
  by (relation "measure (\<lambda>(line, i, b). 63 - i)") auto

definition shell_record :: "u8 list \<Rightarrow> hist_state \<Rightarrow> hist_state option" where
  "shell_record line h =
     do {
       len \<leftarrow> strlen line;
       if len = 0 then Some h
       else do {
         new \<leftarrow> (if s_hist_count h = 0 then Some True
                 else do { prev \<leftarrow> rd (s_hist h) (s_hist_count h - 1); r \<leftarrow> strcmp prev line; Some (r \<noteq> 0) });
         h' \<leftarrow> (if new \<and> s_hist_count h < 64 then
                  do { b \<leftarrow> rd (s_hist h) (s_hist_count h);
                       b' \<leftarrow> record_copy line 0 b;
                       Some (h\<lparr>s_hist := (s_hist h)[s_hist_count h := b'], s_hist_count := s_hist_count h + 1\<rparr>) }
                else Some h);
         Some (h'\<lparr>s_hist_pos := s_hist_count h'\<rparr>) } }"

definition shell_history_prev :: "hist_state \<Rightarrow> hist_state" where
  "shell_history_prev h =
     (if s_hist_count h = 0 then h else if 0 < s_hist_pos h then h\<lparr>s_hist_pos := s_hist_pos h - 1\<rparr> else h)"

definition shell_history_next :: "hist_state \<Rightarrow> hist_state" where
  "shell_history_next h =
     (if s_hist_count h = 0 then h
      else if s_hist_pos h < s_hist_count h - 1 then h\<lparr>s_hist_pos := s_hist_pos h + 1\<rparr> else h)"

subsection \<open>Line editing\<close>

text \<open>
  \<open>buf\<close>, \<open>i\<close> (here \<open>rl_len\<close>), \<open>pos\<close> and \<open>hooked\<close> are the parameter and the locals of \<open>readline\<close>.
\<close>

record rl_state =
  rl_kbd :: kbd_state
  rl_hist :: hist_state
  rl_term :: term_state
  g_cwd :: "u8 list"
  g_base_cell :: nat
  rl_buf :: "u8 list"
  rl_len :: nat
  rl_pos :: nat
  hooked :: bool

definition cell_put :: "nat \<Rightarrow> u8 \<Rightarrow> rl_state \<Rightarrow> rl_state option" where
  "cell_put k c s =
     (let t = rl_term s; cell = g_base_cell s + k in
      if term_height t \<le> cell div term_width t then Some s
      else do { t' \<leftarrow> term_putch_at c (t_color t) (cell mod term_width t) (cell div term_width t) t;
                Some (s\<lparr>rl_term := t'\<rparr>) })"

definition cell_cursor :: "nat \<Rightarrow> rl_state \<Rightarrow> rl_state" where
  "cell_cursor pos s =
     (let t = rl_term s; cell = g_base_cell s + pos;
          t' = t\<lparr>t_row := cell div term_width t, t_col := cell mod term_width t\<rparr>
      in s\<lparr>rl_term := update_cursor (t_col t') (t_row t') t'\<rparr>)"

function cell_draw :: "nat \<Rightarrow> u8 list \<Rightarrow> nat \<Rightarrow> rl_state \<Rightarrow> rl_state option" where
  "cell_draw k buf len s =
     (if k < len then do { c \<leftarrow> rd buf k; s' \<leftarrow> cell_put k c s; cell_draw (Suc k) buf len s' } else Some s)"
  by pat_completeness auto
termination
  by (relation "measure (\<lambda>(k, buf, len, s). len - k)") auto

function cell_clear :: "nat \<Rightarrow> nat \<Rightarrow> rl_state \<Rightarrow> rl_state option" where
  "cell_clear k to s = (if k < to then do { s' \<leftarrow> cell_put k 0x20 s; cell_clear (Suc k) to s' } else Some s)"
  by pat_completeness auto
termination
  by (relation "measure (\<lambda>(k, to, s). to - k)") auto

definition insert_char :: "nat \<Rightarrow> u8 \<Rightarrow> rl_state \<Rightarrow> rl_state option" where
  "insert_char sz c s =
     (if sz \<le> rl_len s + 1 then Some s
      else do {
        b \<leftarrow> memmove (rl_buf s) (rl_pos s + 1) (rl_pos s) (rl_len s - rl_pos s + 1);
        b' \<leftarrow> wr b (rl_pos s) c;
        let s1 = s\<lparr>rl_buf := b', rl_len := rl_len s + 1\<rparr>;
        s2 \<leftarrow> cell_draw (rl_pos s1) b' (rl_len s1) s1;
        Some (cell_cursor (rl_pos s + 1) (s2\<lparr>rl_pos := rl_pos s + 1\<rparr>)) })"

definition backspace_at :: "rl_state \<Rightarrow> rl_state option" where
  "backspace_at s =
     (if rl_pos s = 0 then Some s
      else do {
        b \<leftarrow> memmove (rl_buf s) (rl_pos s - 1) (rl_pos s) (rl_len s - rl_pos s + 1);
        let s1 = s\<lparr>rl_buf := b, rl_len := rl_len s - 1, rl_pos := rl_pos s - 1\<rparr>;
        s2 \<leftarrow> cell_draw (rl_pos s1) b (rl_len s1) s1;
        s3 \<leftarrow> cell_clear (rl_len s1) (rl_len s) s2;
        Some (cell_cursor (rl_pos s1) s3) })"

text \<open>The two loops of \<open>delete_word\<close>: step back while the previous byte is (is not) a space.\<close>

fun back_while :: "(u8 \<Rightarrow> bool) \<Rightarrow> u8 list \<Rightarrow> nat \<Rightarrow> nat option" where
  "back_while p buf 0 = Some 0"
| "back_while p buf (Suc start) = do { c \<leftarrow> rd buf start; if p c then back_while p buf start else Some (Suc start) }"

definition delete_word :: "rl_state \<Rightarrow> rl_state option" where
  "delete_word s =
     (if rl_pos s = 0 then Some s
      else do {
        a \<leftarrow> back_while (\<lambda>c. c = 0x20) (rl_buf s) (rl_pos s);
        start \<leftarrow> back_while (\<lambda>c. c \<noteq> 0x20) (rl_buf s) a;
        if start = rl_pos s then Some s
        else do {
          b \<leftarrow> memmove (rl_buf s) start (rl_pos s) (rl_len s - rl_pos s + 1);
          let s1 = s\<lparr>rl_buf := b, rl_len := rl_len s - (rl_pos s - start), rl_pos := start\<rparr>;
          s2 \<leftarrow> cell_draw start b (rl_len s1) s1;
          s3 \<leftarrow> cell_clear (rl_len s1) (rl_len s) s2;
          Some (cell_cursor start s3) } })"

definition cursor_left :: "rl_state \<Rightarrow> rl_state" where
  "cursor_left s = (if 0 < rl_pos s then cell_cursor (rl_pos s - 1) (s\<lparr>rl_pos := rl_pos s - 1\<rparr>) else s)"

definition cursor_right :: "rl_state \<Rightarrow> rl_state" where
  "cursor_right s = (if rl_pos s < rl_len s then cell_cursor (rl_pos s + 1) (s\<lparr>rl_pos := rl_pos s + 1\<rparr>) else s)"

text \<open>The copy loop of \<open>replace_line\<close>, where \<open>i\<close> and \<open>k\<close> are equal, and the terminator behind it.\<close>

function replace_copy :: "u8 list \<Rightarrow> nat \<Rightarrow> nat \<Rightarrow> u8 list \<Rightarrow> (u8 list \<times> nat) option" where
  "replace_copy line sz i buf =
     do { c \<leftarrow> rd line i;
          if c \<noteq> 0 \<and> i < sz - 1 then do { b \<leftarrow> wr buf i c; replace_copy line sz (Suc i) b }
          else do { b \<leftarrow> wr buf i 0; Some (b, i) } }"
  by pat_completeness auto
termination
  by (relation "measure (\<lambda>(line, sz, i, buf). sz - i)") auto

definition replace_line :: "nat \<Rightarrow> u8 list \<Rightarrow> rl_state \<Rightarrow> rl_state option" where
  "replace_line sz line s =
     do { s1 \<leftarrow> cell_clear 0 (rl_len s) s;
          (b, i) \<leftarrow> replace_copy line sz 0 (rl_buf s1);
          let s2 = s1\<lparr>rl_buf := b\<rparr>;
          s3 \<leftarrow> cell_draw 0 b i s2;
          Some (cell_cursor i (s3\<lparr>rl_pos := i, rl_len := i\<rparr>)) }"

definition hist_line :: "hist_state \<Rightarrow> u8 list" where
  "hist_line h = (case shell_history_current h of None \<Rightarrow> [0] | Some cur \<Rightarrow> cur)"

definition prompt_cell :: "rl_state \<Rightarrow> nat" where
  "prompt_cell s = t_row (rl_term s) * term_width (rl_term s) + t_col (rl_term s)"

text \<open>
  The statements of \<open>readline\<close> before its loop, and one iteration of the loop.  \<open>Some r\<close> in the first component says
  that \<open>readline\<close> returns \<open>r\<close>.
\<close>

definition readline_start :: "rl_state \<Rightarrow> rl_state" where
  "readline_start s =
     s\<lparr>rl_len := 0, rl_pos := 0, hooked := False,
       rl_kbd := (rl_kbd s)\<lparr>cancel_input := 0, word_del := 0, read_key := 0, nav_key := 0, in_read := 0\<rparr>,
       g_base_cell := prompt_cell s\<rparr>"

definition rl_cancel :: "rl_state \<Rightarrow> (nat option \<times> rl_state) option" where
  "rl_cancel s =
     do { s1 \<leftarrow> cell_clear 0 (rl_len s) (s\<lparr>rl_kbd := (rl_kbd s)\<lparr>cancel_input := 0\<rparr>, rl_len := 0, rl_pos := 0\<rparr>);
          let s2 = cell_cursor 0 s1;
          b \<leftarrow> wr (rl_buf s2) 0 0;
          t \<leftarrow> printk [0x5E, 0x43, 0x0A, 0] [] (rl_term s2);
          Some (Some 0, s2\<lparr>rl_buf := b, rl_term := t\<rparr>) }"

definition rl_clear :: "rl_state \<Rightarrow> (nat option \<times> rl_state) option" where
  "rl_clear s =
     do { t1 \<leftarrow> term_clear (rl_term s);
          t2 \<leftarrow> printk [0x25, 0x73, 0x3E, 0x20, 0] [PStr (Some (g_cwd s))] t1;
          b \<leftarrow> wr (rl_buf s) 0 0;
          let s1 = s\<lparr>rl_kbd := (rl_kbd s)\<lparr>do_clear_screen := 0\<rparr>, rl_term := t2, rl_len := 0, rl_pos := 0, rl_buf := b, hooked := False\<rparr>;
          Some (None, s1\<lparr>g_base_cell := prompt_cell s1\<rparr>) }"

definition rl_nav :: "nat \<Rightarrow> rl_state \<Rightarrow> (nat option \<times> rl_state) option" where
  "rl_nav sz s =
     (let k = rl_kbd s; s0 = s\<lparr>rl_kbd := k\<lparr>in_read := 0\<rparr>\<rparr> in
      do { s1 \<leftarrow>
             (if nav_key k = 1 then
                (let h = (if hooked s0 then rl_hist s0 else shell_history_pos_set (shell_history_count (rl_hist s0)) (rl_hist s0));
                     h' = shell_history_prev h
                 in do { s' \<leftarrow> replace_line sz (hist_line h') (s0\<lparr>rl_hist := h'\<rparr>); Some (s'\<lparr>hooked := True\<rparr>) })
              else if nav_key k = 2 then
                (let h' = shell_history_next (rl_hist s0)
                 in do { s' \<leftarrow> replace_line sz (hist_line h') (s0\<lparr>rl_hist := h'\<rparr>); Some (s'\<lparr>hooked := True\<rparr>) })
              else if nav_key k = 3 then Some (cursor_left s0)
              else if nav_key k = 4 then Some (cursor_right s0)
              else Some s0);
           Some (None, s1\<lparr>rl_kbd := (rl_kbd s1)\<lparr>nav_key := 0\<rparr>\<rparr>) })"

definition rl_word :: "rl_state \<Rightarrow> (nat option \<times> rl_state) option" where
  "rl_word s =
     do { s1 \<leftarrow> delete_word (s\<lparr>rl_kbd := (rl_kbd s)\<lparr>in_read := 0\<rparr>\<rparr>);
          b \<leftarrow> wr (rl_buf s1) (rl_len s1) 0;
          Some (None, s1\<lparr>rl_kbd := (rl_kbd s1)\<lparr>word_del := 0\<rparr>, hooked := False, rl_buf := b\<rparr>) }"

definition rl_key :: "nat \<Rightarrow> rl_state \<Rightarrow> (nat option \<times> rl_state) option" where
  "rl_key sz s =
     (let key = read_key (rl_kbd s); s0 = s\<lparr>rl_kbd := (rl_kbd s)\<lparr>in_read := 0\<rparr>\<rparr> in
      if key = 0x0A then Some (Some (rl_len s0), s0\<lparr>rl_kbd := (rl_kbd s0)\<lparr>read_key := 0\<rparr>\<rparr>)
      else do {
        s1 \<leftarrow> (if key = 0x08 then backspace_at s0
               else if key = 0x09 then Some s0
               else if 0x20 \<le> sint key \<and> sint key < 0x7F then insert_char sz key s0
               else Some s0);
        b \<leftarrow> wr (rl_buf s1) (rl_len s1) 0;
        Some (None, s1\<lparr>hooked := False, rl_buf := b, rl_kbd := (rl_kbd s1)\<lparr>read_key := 0\<rparr>\<rparr>) })"

definition readline_iter :: "nat \<Rightarrow> rl_state \<Rightarrow> (nat option \<times> rl_state) option" where
  "readline_iter sz s =
     (let k = rl_kbd s in
      if sz \<le> rl_len s then Some (Some (rl_len s), s)
      else if cancel_input k = 1 then rl_cancel s
      else if do_clear_screen k = 1 then rl_clear s
      else if in_read k = 1 \<and> nav_key k \<noteq> 0 then rl_nav sz s
      else if in_read k = 1 \<and> word_del k \<noteq> 0 then rl_word s
      else if in_read k = 1 \<and> read_key k \<noteq> 0 then rl_key sz s
      else Some (None, s))"

text \<open>One iteration of the loop of \<open>wait_key\<close>.\<close>

definition wait_key_iter :: "kbd_state \<Rightarrow> u8 option \<times> kbd_state" where
  "wait_key_iter k = (if in_read k = 1 \<and> read_key k \<noteq> 0 then (Some (read_key k), k\<lparr>in_read := 0\<rparr>) else (None, k))"

text \<open>The step relation of a prompt: a keyboard interrupt, or an iteration that does not return.\<close>

inductive rl_step :: "nat \<Rightarrow> rl_state \<Rightarrow> rl_state \<Rightarrow> bool" for sz where
  interrupt: "rl_step sz s (s\<lparr>rl_kbd := keyboard_handler scancode (rl_kbd s)\<rparr>)"
| iteration: "readline_iter sz s = Some (None, s') \<Longrightarrow> rl_step sz s s'"

inductive rl_reach :: "nat \<Rightarrow> rl_state \<Rightarrow> rl_state \<Rightarrow> bool" for sz s0 where
  start: "rl_reach sz s0 (readline_start s0)"
| step: "rl_reach sz s0 s \<Longrightarrow> rl_step sz s s' \<Longrightarrow> rl_reach sz s0 s'"

section \<open>Drawing keeps the screen\<close>

declare cell_draw.simps [simp del] cell_clear.simps [simp del] record_copy.simps [simp del] replace_copy.simps [simp del]

text \<open>The screen alone, without a condition on the cursor.\<close>

definition screen_ok :: "term_state \<Rightarrow> bool" where
  "screen_ok t \<longleftrightarrow> 0 < term_width t \<and> 0 < term_height t \<and> term_width t * term_height t \<le> length (t_buf t)"

lemma screen_ok_same: "term_same t t' \<Longrightarrow> screen_ok t \<Longrightarrow> screen_ok t'"
  by (simp add: screen_ok_def term_same_def)

lemma term_ok_screen: "term_ok t \<Longrightarrow> screen_ok t"
  by (simp add: screen_ok_def term_ok_def)

text \<open>\<open>s'\<close> is \<open>s\<close> up to what is on the screen.\<close>

definition redrawn :: "rl_state \<Rightarrow> rl_state \<Rightarrow> bool" where
  "redrawn s s' \<longleftrightarrow> (\<exists>t. s' = s\<lparr>rl_term := t\<rparr> \<and> term_same (rl_term s) t)"

lemma redrawn_refl [simp]: "redrawn s s"
  unfolding redrawn_def by (rule exI [of _ "rl_term s"]) simp

lemma redrawn_trans: "redrawn s s' \<Longrightarrow> redrawn s' s'' \<Longrightarrow> redrawn s s''"
  unfolding redrawn_def using term_same_trans by fastforce

lemma redrawn_upd:
  assumes "redrawn s s'"
  shows "redrawn (s\<lparr>rl_pos := p\<rparr>) (s'\<lparr>rl_pos := p\<rparr>)" and "redrawn (s\<lparr>rl_pos := p, rl_len := l\<rparr>) (s'\<lparr>rl_pos := p, rl_len := l\<rparr>)"
  using assms unfolding redrawn_def by (cases s; fastforce)+

lemma redrawn_screen: "redrawn s s' \<Longrightarrow> screen_ok (rl_term s) \<Longrightarrow> screen_ok (rl_term s')"
  by (auto simp: redrawn_def intro: screen_ok_same)

lemma cell_put_ok:
  assumes "screen_ok (rl_term s)"
  shows "\<exists>s'. cell_put k c s = Some s' \<and> redrawn s s'"
proof (cases "term_height (rl_term s) \<le> (g_base_cell s + k) div term_width (rl_term s)")
  case False
  let ?t = "rl_term s" and ?x = "(g_base_cell s + k) mod term_width (rl_term s)" and ?y = "(g_base_cell s + k) div term_width (rl_term s)"
  have i: "?y * term_width ?t + ?x < term_width ?t * term_height ?t"
    using False assms by (intro cell_index) (simp_all add: screen_ok_def)
  then obtain t' where "term_putch_at c (t_color ?t) ?x ?y ?t = Some t'" "term_same ?t t'"
    using assms by (auto simp: term_putch_at_def screen_ok_def wr_in term_same_def)
  then show ?thesis using False by (auto simp: cell_put_def Let_def redrawn_def)
qed (simp add: cell_put_def Let_def)

lemma cell_draw_ok:
  "screen_ok (rl_term s) \<Longrightarrow> len \<le> length buf \<Longrightarrow> \<exists>s'. cell_draw k buf len s = Some s' \<and> redrawn s s'"
proof (induction "len - k" arbitrary: k s)
  case (Suc n)
  then have k: "k < len" "n = len - Suc k" by simp_all
  obtain s1 where s1: "cell_put k (buf ! k) s = Some s1" "redrawn s s1" using cell_put_ok [OF Suc.prems(1)] by blast
  then obtain s' where "cell_draw (Suc k) buf len s1 = Some s'" "redrawn s1 s'"
    using Suc.hyps(1) [OF k(2) redrawn_screen [OF s1(2) Suc.prems(1)] Suc.prems(2)] by blast
  then show ?case using s1 k Suc.prems redrawn_trans [OF s1(2)] by (subst cell_draw.simps) (simp add: rd_in)
qed (subst cell_draw.simps, simp)

lemma cell_clear_ok:
  "screen_ok (rl_term s) \<Longrightarrow> \<exists>s'. cell_clear k to s = Some s' \<and> redrawn s s'"
proof (induction "to - k" arbitrary: k s)
  case (Suc n)
  then have k: "k < to" "n = to - Suc k" by simp_all
  obtain s1 where s1: "cell_put k 0x20 s = Some s1" "redrawn s s1" using cell_put_ok [OF Suc.prems] by blast
  then obtain s' where "cell_clear (Suc k) to s1 = Some s'" "redrawn s1 s'"
    using Suc.hyps(1) [OF k(2) redrawn_screen [OF s1(2) Suc.prems]] by blast
  then show ?case using s1 k redrawn_trans [OF s1(2)] by (subst cell_clear.simps) simp
qed (subst cell_clear.simps, simp)

lemma cell_cursor_ok: "redrawn s (cell_cursor pos s)"
  by (auto simp: cell_cursor_def redrawn_def Let_def term_same_def update_cursor_def)

lemma redrawn_simps:
  assumes "redrawn s s'"
  shows "rl_buf s' = rl_buf s" and "rl_len s' = rl_len s" and "rl_pos s' = rl_pos s" and "rl_kbd s' = rl_kbd s"
    and "rl_hist s' = rl_hist s" and "g_cwd s' = g_cwd s" and "g_base_cell s' = g_base_cell s" and "hooked s' = hooked s"
    and "term_width (rl_term s') = term_width (rl_term s)" and "term_height (rl_term s') = term_height (rl_term s)"
  using assms by (auto simp: redrawn_def term_same_def)

section \<open>The editor as a zipper\<close>

text \<open>
  The specification: the line is the text before and the text after the cursor.  \<open>pending\<close> reads the
  keyboard variables as the command that the next iteration of the loop carries out.
\<close>

datatype ed_cmd = Idle | Cancel | Clear | Show "u8 list" | Left | Right | WordDel | Enter | Back | Ins u8

definition pending :: "rl_state \<Rightarrow> ed_cmd" where
  "pending s =
     (let k = rl_kbd s; h = rl_hist s in
      if cancel_input k = 1 then Cancel
      else if do_clear_screen k = 1 then Clear
      else if in_read k = 1 \<and> nav_key k \<noteq> 0 then
        (if nav_key k = 1 then
           Show (cstr (hist_line (shell_history_prev (if hooked s then h else shell_history_pos_set (shell_history_count h) h))))
         else if nav_key k = 2 then Show (cstr (hist_line (shell_history_next h)))
         else if nav_key k = 3 then Left else if nav_key k = 4 then Right else Idle)
      else if in_read k = 1 \<and> word_del k \<noteq> 0 then WordDel
      else if in_read k = 1 \<and> read_key k \<noteq> 0 then
        (if read_key k = 0x0A then Enter else if read_key k = 0x08 then Back
         else if 0x20 \<le> sint (read_key k) \<and> sint (read_key k) < 0x7F then Ins (read_key k) else Idle)
      else Idle)"

fun ed_step :: "nat \<Rightarrow> ed_cmd \<Rightarrow> u8 list \<times> u8 list \<Rightarrow> u8 list \<times> u8 list" where
  "ed_step sz Cancel (b, a) = ([], [])"
| "ed_step sz Clear (b, a) = ([], [])"
| "ed_step sz (Show l) (b, a) = (take (sz - 1) l, [])"
| "ed_step sz Left (b, a) = (if b = [] then (b, a) else (butlast b, last b # a))"
| "ed_step sz Right (b, a) = (if a = [] then (b, a) else (b @ [hd a], tl a))"
| "ed_step sz WordDel (b, a) = (rev (dropWhile (\<lambda>c. c \<noteq> 0x20) (dropWhile (\<lambda>c. c = 0x20) (rev b))), a)"
| "ed_step sz Back (b, a) = (butlast b, a)"
| "ed_step sz (Ins c) (b, a) = (if length b + length a + 1 < sz then (b @ [c], a) else (b, a))"
| "ed_step sz cmd ba = ba"

definition zipper :: "rl_state \<Rightarrow> u8 list \<times> u8 list" where
  "zipper s = (take (rl_pos s) (rl_buf s), take (rl_len s - rl_pos s) (drop (rl_pos s) (rl_buf s)))"

definition buf_ok :: "nat \<Rightarrow> u8 list \<Rightarrow> nat \<Rightarrow> nat \<Rightarrow> bool" where
  "buf_ok sz b len pos \<longleftrightarrow> len < sz \<and> sz \<le> length b \<and> pos \<le> len \<and> 0 \<notin> set (take len b) \<and> b ! len = 0"

text \<open>The environment of the editor: the screen, the prompt on it, the history and the working directory.\<close>

definition hist_ok :: "hist_state \<Rightarrow> bool" where
  "hist_ok h \<longleftrightarrow> s_hist_count h \<le> length (s_hist h) \<and> (\<forall>i < s_hist_count h. terminated (s_hist h ! i))"

definition env_ok :: "rl_state \<Rightarrow> bool" where
  "env_ok s \<longleftrightarrow> screen_ok (rl_term s) \<and> g_base_cell s < term_width (rl_term s) * term_height (rl_term s) \<and>
     hist_ok (rl_hist s) \<and> terminated (g_cwd s) \<and> length (cstr (g_cwd s)) < 254 \<and> 0x09 \<notin> set (cstr (g_cwd s))"

definition rl_ok :: "nat \<Rightarrow> rl_state \<Rightarrow> bool" where
  "rl_ok sz s \<longleftrightarrow> buf_ok sz (rl_buf s) (rl_len s) (rl_pos s) \<and> env_ok s"

lemma env_ok_redrawn: "redrawn s s' \<Longrightarrow> env_ok s \<Longrightarrow> env_ok s'"
  using redrawn_screen redrawn_simps by (fastforce simp: env_ok_def)

lemma zipper_append: "buf_ok sz (rl_buf s) (rl_len s) (rl_pos s) \<Longrightarrow> fst (zipper s) @ snd (zipper s) = take (rl_len s) (rl_buf s)"
  by (simp add: buf_ok_def zipper_def flip: take_add)

lemma buf_ok_cstr:
  assumes "buf_ok sz b len pos"
  shows "cstr b = take len b \<and> terminated b"
proof -
  have "b = take len b @ 0 # drop (Suc len) b" using assms by (simp add: buf_ok_def id_take_nth_drop [of len b, symmetric])
      (metis id_take_nth_drop le_trans less_le_trans)
  then show ?thesis using assms unfolding buf_ok_def by (metis cstr_append_zero terminated_append_zero)
qed

text \<open>Replacing the text between \<open>start\<close> and the cursor by \<open>new\<close>.\<close>

definition splice :: "nat \<Rightarrow> nat \<Rightarrow> nat \<Rightarrow> u8 list \<Rightarrow> u8 list \<Rightarrow> u8 list \<Rightarrow> bool" where
  "splice len pos start new b b' \<longleftrightarrow> length b' = length b \<and> take (start + length new) b' = take start b @ new \<and>
     take (len - pos + 1) (drop (start + length new) b') = take (len - pos + 1) (drop pos b)"

lemma splice_ok:
  assumes "splice len pos start new b b'" and "buf_ok sz b len pos" and "start \<le> pos" and "0 \<notin> set new"
    and "start + length new + (len - pos) < sz"
  shows "buf_ok sz b' (start + length new + (len - pos)) (start + length new)"
    and "take (start + length new) b' = take start b @ new"
    and "take (len - pos) (drop (start + length new) b') = take (len - pos) (drop pos b)"
proof -
  let ?p = "start + length new" and ?n = "len - pos"
  have l: "length b' = length b" "len < length b" "?p + ?n < length b" using assms by (auto simp: splice_def buf_ok_def)
  have tp: "take ?p b' = take start b @ new" using assms(1) by (simp add: splice_def)
  have e: "take (?n + 1) (drop ?p b') = take (?n + 1) (drop pos b)" using assms(1) by (simp add: splice_def)
  then have "take ?n (take (?n + 1) (drop ?p b')) = take ?n (take (?n + 1) (drop pos b))" by simp
  then show t: "take ?n (drop ?p b') = take ?n (drop pos b)" by (simp add: min_def)
  have "take (?n + 1) (drop ?p b') ! ?n = take (?n + 1) (drop pos b) ! ?n" by (simp only: e)
  then have z: "b' ! (?p + ?n) = 0" using l assms(2) by (simp add: buf_ok_def)
  have "take (?p + ?n) b' = take start b @ new @ take ?n (drop pos b)" using tp t by (simp add: take_add)
  moreover have "set (take start b) \<subseteq> set (take len b)"
    using assms(2,3) by (intro set_take_subset_set_take) (simp add: buf_ok_def)
  moreover have "set (take ?n (drop pos b)) \<subseteq> set (take len b)"
    using assms(2) by (simp add: take_drop buf_ok_def) (metis drop_take set_drop_subset take_drop)
  ultimately have "0 \<notin> set (take (?p + ?n) b')" using assms(2,4) by (auto simp: buf_ok_def)
  then show "buf_ok sz b' (?p + ?n) ?p" using z l assms(2,5) by (auto simp: buf_ok_def)
  show "take ?p b' = take start b @ new" by (rule tp)
qed

lemma move_splice:
  assumes "buf_ok sz b len pos" and "start \<le> pos"
  shows "\<exists>b'. memmove b start pos (len - pos + 1) = Some b' \<and> splice len pos start [] b b'"
proof -
  let ?x = "take (len - pos + 1) (drop pos b)"
  have l: "pos + (len - pos + 1) \<le> length b" "length ?x = len - pos + 1" using assms by (auto simp: buf_ok_def)
  have "memmove b start pos (len - pos + 1) = Some (blit b start ?x)" using l assms(2) by (intro memmove_blit) linarith+
  moreover have "splice len pos start [] b (blit b start ?x)"
    using l assms(2) by (simp add: splice_def length_blit) (simp add: blit_def)
  ultimately show ?thesis by blast
qed

text \<open>An operation of the editor: it succeeds, keeps the invariant and does to the zipper what \<open>cmd\<close> says.\<close>

definition edits :: "nat \<Rightarrow> ed_cmd \<Rightarrow> rl_state \<Rightarrow> rl_state \<Rightarrow> bool" where
  "edits sz cmd s s' \<longleftrightarrow> rl_ok sz s' \<and> zipper s' = ed_step sz cmd (zipper s)"

lemma rl_ok_redrawn: "redrawn s s' \<Longrightarrow> rl_ok sz s \<Longrightarrow> rl_ok sz s' \<and> zipper s' = zipper s"
  by (simp add: rl_ok_def env_ok_redrawn redrawn_simps zipper_def)

lemma redraw_edit:
  assumes "redrawn s1 s'" and "rl_ok sz s1" and "zipper s1 = ed_step sz cmd (zipper s)"
  shows "edits sz cmd s s'"
  using rl_ok_redrawn [OF assms(1,2)] assms(3) by (simp add: edits_def)

lemma insert_char_ok:
  assumes "rl_ok sz s" and "c \<noteq> 0"
  shows "\<exists>s'. insert_char sz c s = Some s' \<and> edits sz (Ins c) s s'"
proof (cases "rl_len s + 1 < sz")
  case True
  let ?b = "rl_buf s" and ?p = "rl_pos s" and ?l = "rl_len s"
  have ok: "buf_ok sz ?b ?l ?p" "env_ok s" using assms(1) by (simp_all add: rl_ok_def)
  let ?x = "take (?l - ?p + 1) (drop ?p ?b)"
  have l: "?p + 1 + (?l - ?p + 1) \<le> length ?b" "length ?x = ?l - ?p + 1" using ok(1) True by (auto simp: buf_ok_def)
  then have m: "memmove ?b (?p + 1) ?p (?l - ?p + 1) = Some (blit ?b (?p + 1) ?x)" by (intro memmove_blit) linarith+
  let ?b' = "(blit ?b (?p + 1) ?x)[?p := c]"
  have w: "wr (blit ?b (?p + 1) ?x) ?p c = Some ?b'" using l by (simp add: wr_in length_blit)
  have "?b' = blit ?b ?p (c # ?x)" using blit_cons [of "?p + 1" ?x ?b c] l by simp
  then have sp: "splice ?l ?p ?p [c] ?b ?b'"
    using l by (simp add: splice_def length_blit) (simp add: blit_def)
  have n: "?p + length [c] + (?l - ?p) = ?l + 1" using ok(1) by (simp add: buf_ok_def)
  note q = splice_ok [OF sp ok(1) order_refl, unfolded n]
  let ?s1 = "s\<lparr>rl_buf := ?b', rl_len := ?l + 1\<rparr>" and ?s2 = "s\<lparr>rl_buf := ?b', rl_len := ?l + 1, rl_pos := ?p + 1\<rparr>"
  have "env_ok ?s1" "?l + 1 \<le> length ?b'" using ok True q(1) assms(2) by (auto simp: env_ok_def buf_ok_def)
  then obtain s2 where d: "cell_draw ?p ?b' (?l + 1) ?s1 = Some s2" "redrawn ?s1 s2"
    using cell_draw_ok [of ?s1 "?l + 1" ?b' ?p] by (auto simp: env_ok_def)
  then have "redrawn ?s2 (s2\<lparr>rl_pos := ?p + 1\<rparr>)" using redrawn_upd(1) [OF d(2)] by simp
  then have "redrawn ?s2 (cell_cursor (?p + 1) (s2\<lparr>rl_pos := ?p + 1\<rparr>))" using cell_cursor_ok redrawn_trans by blast
  moreover have "rl_ok sz ?s2" using ok q(1) assms(2) True by (simp add: rl_ok_def env_ok_def)
  moreover have "zipper ?s2 = ed_step sz (Ins c) (zipper s)"
    using q(2,3) assms(2) True ok(1) by (auto simp: zipper_def buf_ok_def)
  ultimately have "edits sz (Ins c) s (cell_cursor (?p + 1) (s2\<lparr>rl_pos := ?p + 1\<rparr>))" by (rule redraw_edit)
  then show ?thesis using True m w d(1) by (simp add: insert_char_def Let_def)
next
  case False
  then show ?thesis using assms(1) by (auto simp: insert_char_def edits_def zipper_def rl_ok_def buf_ok_def)
qed

text \<open>\<open>backspace_at\<close> and \<open>delete_word\<close> cut the text from \<open>start\<close> to the cursor and redraw the rest.\<close>

lemma cut_ok:
  assumes "rl_ok sz s" and "start \<le> rl_pos s" and "ed_step sz cmd (zipper s) = (take start (rl_buf s), snd (zipper s))"
  shows "\<exists>b s2 s3. memmove (rl_buf s) start (rl_pos s) (rl_len s - rl_pos s + 1) = Some b \<and>
    cell_draw start b (rl_len s - (rl_pos s - start)) (s\<lparr>rl_buf := b, rl_len := rl_len s - (rl_pos s - start), rl_pos := start\<rparr>) = Some s2 \<and>
    cell_clear (rl_len s - (rl_pos s - start)) (rl_len s) s2 = Some s3 \<and> edits sz cmd s (cell_cursor start s3)"
proof -
  have ok: "buf_ok sz (rl_buf s) (rl_len s) (rl_pos s)" "env_ok s" using assms(1) by (simp_all add: rl_ok_def)
  obtain b where b: "memmove (rl_buf s) start (rl_pos s) (rl_len s - rl_pos s + 1) = Some b"
    "splice (rl_len s) (rl_pos s) start [] (rl_buf s) b" using move_splice [OF ok(1) assms(2)] by blast
  let ?l = "rl_len s - (rl_pos s - start)"
  have n: "start + length ([] :: u8 list) + (rl_len s - rl_pos s) = ?l" "?l < sz" "?l - start = rl_len s - rl_pos s"
    using ok(1) assms(2) by (auto simp: buf_ok_def)
  note q = splice_ok [OF b(2) ok(1) assms(2), unfolded n(1), simplified]
  let ?s1 = "s\<lparr>rl_buf := b, rl_len := ?l, rl_pos := start\<rparr>"
  have q1: "buf_ok sz b ?l start" using q(1) n(2) by simp
  have e: "env_ok ?s1" using ok(2) by (simp add: env_ok_def)
  obtain s2 where s2: "cell_draw start b ?l ?s1 = Some s2" "redrawn ?s1 s2"
    using cell_draw_ok [of ?s1 ?l b start] e q1 by (auto simp: env_ok_def buf_ok_def)
  obtain s3 where s3: "cell_clear ?l (rl_len s) s2 = Some s3" "redrawn s2 s3"
    using cell_clear_ok [of s2 ?l "rl_len s"] env_ok_redrawn [OF s2(2) e] by (auto simp: env_ok_def)
  have "redrawn ?s1 (cell_cursor start s3)" using redrawn_trans s2(2) s3(2) cell_cursor_ok by blast
  moreover have "rl_ok sz ?s1" using q1 e by (simp add: rl_ok_def)
  moreover have "zipper ?s1 = ed_step sz cmd (zipper s)"
    using q(2,3) n(2,3) assms(3) by (simp add: zipper_def)
  ultimately have "edits sz cmd s (cell_cursor start s3)" by (rule redraw_edit)
  then show ?thesis using b(1) s2(1) s3(1) by blast
qed

lemma backspace_at_ok:
  assumes "rl_ok sz s"
  shows "\<exists>s'. backspace_at s = Some s' \<and> edits sz Back s s'"
proof (cases "rl_pos s = 0")
  case True
  then show ?thesis using assms by (simp add: backspace_at_def edits_def zipper_def)
next
  case False
  then have n: "rl_len s - (rl_pos s - (rl_pos s - 1)) = rl_len s - 1" by simp
  have "ed_step sz Back (zipper s) = (take (rl_pos s - 1) (rl_buf s), snd (zipper s))"
    using assms False by (auto simp: zipper_def butlast_take rl_ok_def buf_ok_def)
  from cut_ok [OF assms _ this, unfolded n] False show ?thesis by (auto simp: backspace_at_def Let_def)
qed

lemma back_while_spec:
  "start \<le> length b \<Longrightarrow> \<exists>r. back_while p b start = Some r \<and> r \<le> start \<and> take r b = rev (dropWhile p (rev (take start b)))"
proof (induction start)
  case (Suc start)
  then show ?case by (auto simp: rd_in take_Suc_conv_app_nth)
qed simp

lemma delete_word_ok:
  assumes "rl_ok sz s"
  shows "\<exists>s'. delete_word s = Some s' \<and> edits sz WordDel s s'"
proof -
  have l: "rl_pos s \<le> length (rl_buf s)" using assms by (auto simp: rl_ok_def buf_ok_def)
  obtain a where a: "back_while (\<lambda>c. c = 0x20) (rl_buf s) (rl_pos s) = Some a" "a \<le> rl_pos s"
    "take a (rl_buf s) = rev (dropWhile (\<lambda>c. c = 0x20) (rev (take (rl_pos s) (rl_buf s))))" using back_while_spec [OF l] by blast
  then obtain st where st: "back_while (\<lambda>c. c \<noteq> 0x20) (rl_buf s) a = Some st" "st \<le> a"
    "take st (rl_buf s) = rev (dropWhile (\<lambda>c. c \<noteq> 0x20) (rev (take a (rl_buf s))))"
    using back_while_spec [of a "rl_buf s" "\<lambda>c. c \<noteq> 0x20"] l by auto
  have e: "ed_step sz WordDel (zipper s) = (take st (rl_buf s), snd (zipper s))"
    using a(3) st(3) by (simp add: zipper_def)
  show ?thesis
  proof (cases "st = rl_pos s \<or> rl_pos s = 0")
    case True
    then have "st = rl_pos s" using a(2) st(2) by auto
    then have "edits sz WordDel s s" using e assms by (simp add: edits_def zipper_def)
    then show ?thesis using True a(1) st(1) by (auto simp: delete_word_def)
  next
    case False
    have "st \<le> rl_pos s" using a(2) st(2) by simp
    from cut_ok [OF assms this e] False a(1) st(1) show ?thesis by (auto simp: delete_word_def Let_def)
  qed
qed

lemma replace_copy_spec:
  assumes "terminated line" and "0 < sz" and "sz \<le> length buf" and "n = min (length (cstr line)) (sz - 1)" and "i \<le> n"
    and "take i buf = take i (cstr line)"
  shows "\<exists>b. replace_copy line sz i buf = Some (b, n) \<and> length b = length buf \<and> take n b = take n (cstr line) \<and> b ! n = 0"
  using assms(3,5,6)
proof (induction "n - i" arbitrary: i buf)
  case 0
  then have i: "i = n" "n < length buf" using assms(2,4) by auto
  have "line ! i = 0 \<or> \<not> i < sz - 1" using assms(4) i cstr_stop [OF assms(1)] by (auto simp: min_def split: if_splits)
  moreover have "i < length line" using i assms(1,4) cstr_length [of line] by auto
  ultimately show ?case using i 0 by (subst replace_copy.simps) (auto simp: mem_simps)
next
  case (Suc m)
  then have i: "i < n" "i < length (cstr line)" "i < sz - 1" using assms(4) by auto
  have c: "cstr line ! i = line ! i" "line ! i \<noteq> 0" "i < length line"
    using cstr_nth [OF i(2)] cstr_length [OF assms(1)] i(2) by auto
  have "take (Suc i) (buf[i := line ! i]) = take (Suc i) (cstr line)"
    using Suc.prems i c(1) by (simp add: take_Suc_conv_app_nth)
  then obtain b where "replace_copy line sz (Suc i) (buf[i := line ! i]) = Some (b, n)" "length b = length buf"
      "take n b = take n (cstr line)" "b ! n = 0"
    using Suc.hyps(1) [of "Suc i" "buf[i := line ! i]"] Suc.hyps(2) Suc.prems i by fastforce
  then show ?case using i c Suc.prems assms(4) by (subst replace_copy.simps) (simp add: mem_simps)
qed

lemma replace_line_ok:
  assumes "rl_ok sz s" and "terminated line"
  shows "\<exists>s'. replace_line sz line s = Some s' \<and> edits sz (Show (cstr line)) s s'"
proof -
  have ok: "buf_ok sz (rl_buf s) (rl_len s) (rl_pos s)" "env_ok s" using assms(1) by (simp_all add: rl_ok_def)
  obtain s1 where s1: "cell_clear 0 (rl_len s) s = Some s1" "redrawn s s1"
    using cell_clear_ok [of s 0 "rl_len s"] ok(2) by (auto simp: env_ok_def)
  let ?n = "min (length (cstr line)) (sz - 1)"
  have len: "0 < sz" "sz \<le> length (rl_buf s1)" using ok(1) redrawn_simps(1) [OF s1(2)] by (auto simp: buf_ok_def)
  obtain b where b: "replace_copy line sz 0 (rl_buf s1) = Some (b, ?n)" "length b = length (rl_buf s1)" "take ?n b = take ?n (cstr line)" "b ! ?n = 0"
    using replace_copy_spec [OF assms(2) len refl, of 0] by auto
  let ?s2 = "s1\<lparr>rl_buf := b\<rparr>"
  have e: "env_ok ?s2" using env_ok_redrawn [OF s1(2) ok(2)] by (simp add: env_ok_def)
  obtain s3 where s3: "cell_draw 0 b ?n ?s2 = Some s3" "redrawn ?s2 s3"
    using cell_draw_ok [of ?s2 ?n b 0] e b(2) len by (fastforce simp: env_ok_def)
  let ?s4 = "?s2\<lparr>rl_pos := ?n, rl_len := ?n\<rparr>"
  have "redrawn ?s4 (cell_cursor ?n (s3\<lparr>rl_pos := ?n, rl_len := ?n\<rparr>))"
    using redrawn_trans [OF redrawn_upd(2) [OF s3(2)] cell_cursor_ok] by blast
  moreover have "0 \<notin> set (take ?n (cstr line))" using in_set_takeD cstr_no_zero by fastforce
  then have "rl_ok sz ?s4" using e b len by (auto simp: rl_ok_def buf_ok_def env_ok_def)
  moreover have "zipper ?s4 = ed_step sz (Show (cstr line)) (zipper s)"
    using b(3) by (cases "zipper s") (simp add: zipper_def min_def split: if_splits)
  ultimately have "edits sz (Show (cstr line)) s (cell_cursor ?n (s3\<lparr>rl_pos := ?n, rl_len := ?n\<rparr>))" by (rule redraw_edit)
  then show ?thesis using s1(1) b(1) s3(1) by (auto simp: replace_line_def Let_def)
qed

lemma cursor_left_ok: "rl_ok sz s \<Longrightarrow> edits sz Left s (cursor_left s)"
proof (cases "rl_pos s")
  case (Suc p)
  assume ok: "rl_ok sz s"
  let ?s1 = "s\<lparr>rl_pos := p\<rparr>"
  have l: "p < rl_len s" "p < length (rl_buf s)" using ok Suc by (auto simp: rl_ok_def buf_ok_def)
  have "zipper ?s1 = ed_step sz Left (zipper s)"
    using l Suc by (auto simp: zipper_def butlast_take take_Suc_conv_app_nth Suc_diff_Suc [symmetric] Cons_nth_drop_Suc [symmetric])
  moreover have "rl_ok sz ?s1" using ok l by (auto simp: rl_ok_def buf_ok_def env_ok_def)
  ultimately have "edits sz Left s (cell_cursor p ?s1)" using redraw_edit [OF cell_cursor_ok] by blast
  then show ?thesis using Suc by (simp add: cursor_left_def)
qed (simp add: cursor_left_def edits_def zipper_def)

lemma cursor_right_ok: "rl_ok sz s \<Longrightarrow> edits sz Right s (cursor_right s)"
proof (cases "rl_pos s < rl_len s")
  case True
  assume ok: "rl_ok sz s"
  let ?s1 = "s\<lparr>rl_pos := rl_pos s + 1\<rparr>"
  have l: "rl_pos s < length (rl_buf s)" using ok True by (auto simp: rl_ok_def buf_ok_def)
  have "zipper ?s1 = ed_step sz Right (zipper s)"
    using l True by (simp add: zipper_def take_Suc_conv_app_nth Suc_diff_Suc [symmetric] Cons_nth_drop_Suc [symmetric])
  moreover have "rl_ok sz ?s1" using ok True by (auto simp: rl_ok_def buf_ok_def env_ok_def)
  ultimately have "edits sz Right s (cell_cursor (rl_pos s + 1) ?s1)" using redraw_edit [OF cell_cursor_ok] by blast
  then show ?thesis using True by (simp add: cursor_right_def)
qed (simp add: cursor_right_def edits_def zipper_def rl_ok_def buf_ok_def)

section \<open>One iteration of the loop\<close>

lemma hist_line_terminated: "hist_ok h \<Longrightarrow> terminated (hist_line h)"
  by (auto simp: hist_line_def shell_history_current_def hist_ok_def terminated_def)

lemma hist_ok_moves:
  "hist_ok h \<Longrightarrow> hist_ok (shell_history_prev h)" "hist_ok h \<Longrightarrow> hist_ok (shell_history_next h)"
  "hist_ok h \<Longrightarrow> hist_ok (shell_history_pos_set p h)"
  by (simp_all add: hist_ok_def shell_history_prev_def shell_history_next_def shell_history_pos_set_def)

text \<open>Changes of the keyboard variables, the history and \<open>hooked\<close> do not touch the line.\<close>

lemma rl_ok_upd [simp]:
  "rl_ok sz (s\<lparr>rl_kbd := k\<rparr>) = rl_ok sz s" "rl_ok sz (s\<lparr>hooked := h\<rparr>) = rl_ok sz s"
  "hist_ok hi \<Longrightarrow> rl_ok sz s \<Longrightarrow> rl_ok sz (s\<lparr>rl_hist := hi\<rparr>)"
  by (simp_all add: rl_ok_def env_ok_def)

lemma zipper_upd [simp]:
  "zipper (s\<lparr>rl_kbd := k\<rparr>) = zipper s" "zipper (s\<lparr>hooked := h\<rparr>) = zipper s" "zipper (s\<lparr>rl_hist := hi\<rparr>) = zipper s"
  by (simp_all add: zipper_def)

lemma terminator_ok:
  assumes "rl_ok sz s"
  shows "wr (rl_buf s) (rl_len s) 0 = Some (rl_buf s)"
proof -
  have "rl_len s < length (rl_buf s)" "rl_buf s ! rl_len s = 0" using assms by (auto simp: rl_ok_def buf_ok_def)
  then show ?thesis by (metis list_update_id wr_in)
qed

lemma prompt_on_screen: "term_ok t \<Longrightarrow> t_row t * term_width t + t_col t < term_width t * term_height t"
  unfolding term_ok_def by (intro cell_index) simp_all

lemma printk_text_ok:
  assumes "terminated format" and "pk_out (cstr format) ap = Some out" and "length out < 256" and "term_ok t" and "0x09 \<notin> set out"
  shows "\<exists>t'. printk format ap t = Some t' \<and> term_ok t' \<and> term_same t t'"
proof -
  obtain t' where "term_write out t = Some t'" "term_ok t'" "term_same t t'" using term_write_ok [OF assms(4,5)] by blast
  then show ?thesis using printk_short [OF assms(1-3), of t]
    by (auto simp: update_cursor_def term_ok_def term_same_def)
qed

lemma rl_cancel_ok:
  assumes "rl_ok sz s"
  shows "\<exists>s'. rl_cancel s = Some (Some 0, s') \<and> edits sz Cancel s s'"
proof -
  let ?s0 = "s\<lparr>rl_kbd := (rl_kbd s)\<lparr>cancel_input := 0\<rparr>, rl_len := 0, rl_pos := 0\<rparr>"
  have e: "env_ok ?s0" "screen_ok (rl_term ?s0)" and l: "0 < sz" "sz \<le> length (rl_buf s)"
    using assms by (auto simp: rl_ok_def env_ok_def buf_ok_def)
  obtain s1 where s1: "cell_clear 0 (rl_len s) ?s0 = Some s1" "redrawn ?s0 s1" using cell_clear_ok [OF e(2)] by blast
  let ?s2 = "cell_cursor 0 s1"
  have r: "redrawn ?s0 ?s2" using redrawn_trans [OF s1(2) cell_cursor_ok] by blast
  have s2: "env_ok ?s2" "rl_buf ?s2 = rl_buf s" "rl_len ?s2 = 0" "rl_pos ?s2 = 0"
    using env_ok_redrawn [OF r e(1)] redrawn_simps [OF r] by simp_all
  have "term_ok (rl_term ?s2)"
    using env_ok_redrawn [OF s1(2) e(1)] less_mult_imp_div_less [of "g_base_cell s1" "term_height (rl_term s1)" "term_width (rl_term s1)"]
    by (simp add: env_ok_def screen_ok_def term_ok_def cell_cursor_def Let_def update_cursor_def mult.commute)
  then obtain t where t: "printk [0x5E, 0x43, 0x0A, 0] [] (rl_term ?s2) = Some t" "term_same (rl_term ?s2) t"
    using printk_text_ok [of "[0x5E, 0x43, 0x0A, 0]" "[]" "[0x5E, 0x43, 0x0A]" "rl_term ?s2"] by (auto simp: terminated_def cstr_def)
  let ?s' = "?s2\<lparr>rl_buf := (rl_buf s)[0 := 0], rl_term := t\<rparr>"
  have z: "(rl_buf s)[0 := 0] ! 0 = 0" using l by (intro nth_list_update_eq) linarith
  then have "rl_ok sz ?s'" using s2 t(2) l screen_ok_same [OF t(2)] by (auto simp: rl_ok_def buf_ok_def env_ok_def term_same_def)
  moreover have "zipper ?s' = ([], [])" using s2 by (simp add: zipper_def)
  ultimately have "edits sz Cancel s ?s'" by (cases "zipper s") (simp add: edits_def)
  moreover have "wr (rl_buf s) 0 0 = Some ((rl_buf s)[0 := 0])" using l by (intro wr_in) linarith
  ultimately show ?thesis using s1(1) t(1) s2(2) by (simp add: rl_cancel_def Let_def)
qed

lemma fill_rows_same:
  "(y + n) * width \<le> length b \<Longrightarrow> w \<le> width \<Longrightarrow>
     \<exists>b'. fill_rows width w v y n b = Some b' \<and> length b' = length b \<and> drop ((y + n) * width) b' = drop ((y + n) * width) b"
proof (induction n arbitrary: y b)
  case (Suc n)
  have le: "y * width + w \<le> (y + Suc n) * width" using Suc.prems(2) by (simp add: algebra_simps)
  let ?b = "blit b (y * width) (replicate w v)"
  have l: "length ?b = length b" using le Suc.prems(1) by (intro length_blit) simp
  have d: "drop ((y + Suc n) * width) ?b = drop ((y + Suc n) * width) b"
    using le Suc.prems(1) unfolding blit_def by simp
  have "fill_cells (y * width) v w b = Some ?b" using le Suc.prems(1) by (intro fill_cells_blit) simp
  moreover obtain b' where "fill_rows width w v (Suc y) n ?b = Some b'" "length b' = length ?b"
      "drop ((y + Suc n) * width) b' = drop ((y + Suc n) * width) ?b"
    using Suc.IH [of "Suc y" ?b] Suc.prems l by auto
  ultimately show ?case using l d by simp
qed simp

lemma term_clear_ok:
  assumes "screen_ok t"
  shows "\<exists>t'. term_clear t = Some t' \<and> term_ok t' \<and> term_same t t'"
proof -
  let ?w = "term_width t" and ?h = "min (term_height t) 50"
  have le: "?h * ?w \<le> ?w * term_height t" by (simp add: mult.commute min_def)
  have le': "?h * ?w \<le> length (t_buf t)" by (rule order_trans [OF le]) (use assms in \<open>simp add: screen_ok_def\<close>)
  obtain b where b: "fill_rows ?w (min ?w 160) (vga_entry 0x20 (t_color t)) 0 ?h (t_buf t) = Some b" "length b = length (t_buf t)"
      "drop (?h * ?w) b = drop (?h * ?w) (t_buf t)"
    using fill_rows_same [of 0 ?h ?w "t_buf t" "min ?w 160" "vga_entry 0x20 (t_color t)"] le' by auto
  have "drop (?w * term_height t - ?h * ?w) (drop (?h * ?w) b) = drop (?w * term_height t - ?h * ?w) (drop (?h * ?w) (t_buf t))"
    by (simp only: b(3))
  then have "drop (?w * term_height t) b = drop (?w * term_height t) (t_buf t)" using le by simp
  then show ?thesis using b assms by (simp add: term_clear_def term_ok_def term_same_def screen_ok_def)
qed

lemma rl_clear_ok:
  assumes "rl_ok sz s"
  shows "\<exists>s'. rl_clear s = Some (None, s') \<and> edits sz Clear s s'"
proof -
  have e: "screen_ok (rl_term s)" "terminated (g_cwd s)" "length (cstr (g_cwd s)) < 254" "0x09 \<notin> set (cstr (g_cwd s))"
    and l: "0 < sz" "sz \<le> length (rl_buf s)" using assms by (auto simp: rl_ok_def env_ok_def buf_ok_def)
  obtain t1 where t1: "term_clear (rl_term s) = Some t1" "term_ok t1" "term_same (rl_term s) t1" using term_clear_ok [OF e(1)] by blast
  have "pk_out (cstr [0x25, 0x73, 0x3E, 0x20, 0]) [PStr (Some (g_cwd s))] = Some (cstr (g_cwd s) @ [0x3E, 0x20])"
    using e(2) by (simp add: cstr_def pk_conv_def)
  then obtain t2 where t2: "printk [0x25, 0x73, 0x3E, 0x20, 0] [PStr (Some (g_cwd s))] t1 = Some t2" "term_ok t2" "term_same t1 t2"
    using printk_text_ok [of "[0x25, 0x73, 0x3E, 0x20, 0]" _ _ t1] e t1(2) by (fastforce simp: terminated_def)
  let ?s1 = "s\<lparr>rl_kbd := (rl_kbd s)\<lparr>do_clear_screen := 0\<rparr>, rl_term := t2, rl_len := 0, rl_pos := 0, rl_buf := (rl_buf s)[0 := 0], hooked := False\<rparr>"
  let ?s' = "?s1\<lparr>g_base_cell := prompt_cell ?s1\<rparr>"
  have z: "(rl_buf s)[0 := 0] ! 0 = 0" using l by (intro nth_list_update_eq) linarith
  then have "rl_ok sz ?s'" using assms l prompt_on_screen [OF t2(2)] term_ok_screen [OF t2(2)]
    by (auto simp: rl_ok_def buf_ok_def env_ok_def prompt_cell_def)
  moreover have "zipper ?s' = ([], [])" by (simp add: zipper_def)
  ultimately have "edits sz Clear s ?s'" by (cases "zipper s") (simp add: edits_def)
  moreover have "wr (rl_buf s) 0 0 = Some ((rl_buf s)[0 := 0])" using l by (intro wr_in) linarith
  ultimately show ?thesis using t1(1) t2(1) by (simp add: rl_clear_def Let_def)
qed

lemma rl_nav_ok:
  assumes "rl_ok sz s"
  shows "\<exists>s'. rl_nav sz s = Some (None, s') \<and>
    edits sz (let h = rl_hist s; k = nav_key (rl_kbd s) in
      if k = 1 then Show (cstr (hist_line (shell_history_prev (if hooked s then h else shell_history_pos_set (shell_history_count h) h))))
      else if k = 2 then Show (cstr (hist_line (shell_history_next h))) else if k = 3 then Left else if k = 4 then Right else Idle) s s'"
proof -
  let ?s0 = "s\<lparr>rl_kbd := (rl_kbd s)\<lparr>in_read := 0\<rparr>\<rparr>"
  have h: "hist_ok (rl_hist s)" using assms by (simp add: rl_ok_def env_ok_def)
  have show_ok: "\<exists>s'. replace_line sz (hist_line h') (?s0\<lparr>rl_hist := h'\<rparr>) = Some s' \<and> edits sz (Show (cstr (hist_line h'))) s s'" if "hist_ok h'" for h'
    using replace_line_ok [of sz "?s0\<lparr>rl_hist := h'\<rparr>" "hist_line h'"] assms that hist_line_terminated [OF that]
    by (auto simp: edits_def)
  have prev: "hist_ok (shell_history_prev (if hooked s then rl_hist s else shell_history_pos_set (shell_history_count (rl_hist s)) (rl_hist s)))"
    using h hist_ok_moves by simp
  have lr: "edits sz Left s (cursor_left ?s0)" "edits sz Right s (cursor_right ?s0)"
    using cursor_left_ok [of sz ?s0] cursor_right_ok [of sz ?s0] assms by (simp_all add: edits_def)
  consider "nav_key (rl_kbd s) = 1" | "nav_key (rl_kbd s) = 2" | "nav_key (rl_kbd s) = 3" | "nav_key (rl_kbd s) = 4"
    | "nav_key (rl_kbd s) \<notin> {1, 2, 3, 4}" by blast
  then show ?thesis
  proof cases
    case 1
    then show ?thesis using show_ok [OF prev] by (auto simp: rl_nav_def Let_def edits_def)
  next
    case 2
    then show ?thesis using show_ok [OF hist_ok_moves(2) [OF h]] by (auto simp: rl_nav_def Let_def edits_def)
  next
    case 3
    then show ?thesis using lr by (auto simp: rl_nav_def Let_def edits_def)
  next
    case 4
    then show ?thesis using lr by (auto simp: rl_nav_def Let_def edits_def)
  next
    case 5
    then show ?thesis using assms by (auto simp: rl_nav_def Let_def edits_def)
  qed
qed

lemma rl_word_ok:
  assumes "rl_ok sz s"
  shows "\<exists>s'. rl_word s = Some (None, s') \<and> edits sz WordDel s s'"
proof -
  obtain s1 where s1: "delete_word (s\<lparr>rl_kbd := (rl_kbd s)\<lparr>in_read := 0\<rparr>\<rparr>) = Some s1" "edits sz WordDel s s1"
    using delete_word_ok [of sz "s\<lparr>rl_kbd := (rl_kbd s)\<lparr>in_read := 0\<rparr>\<rparr>"] assms by (auto simp: edits_def)
  then have "wr (rl_buf s1) (rl_len s1) 0 = Some (rl_buf s1)" using terminator_ok by (auto simp: edits_def)
  then show ?thesis using s1 by (auto simp: rl_word_def edits_def)
qed

lemma rl_key_ok:
  assumes "rl_ok sz s" and "read_key (rl_kbd s) \<noteq> 0"
  shows "\<exists>r s'. rl_key sz s = Some (r, s') \<and> r = (if read_key (rl_kbd s) = 0x0A then Some (rl_len s) else None) \<and>
    edits sz (let k = read_key (rl_kbd s) in if k = 0x0A then Enter else if k = 0x08 then Back
      else if 0x20 \<le> sint k \<and> sint k < 0x7F then Ins k else Idle) s s'"
proof (cases "read_key (rl_kbd s) = 0x0A")
  case True
  then show ?thesis using assms(1) by (simp add: rl_key_def Let_def edits_def)
next
  case False
  let ?k = "read_key (rl_kbd s)" and ?s0 = "s\<lparr>rl_kbd := (rl_kbd s)\<lparr>in_read := 0\<rparr>\<rparr>"
  have nine: "\<not> (0x20 \<le> sint (0x09 :: u8))" by simp
  obtain s1 where s1: "(if ?k = 0x08 then backspace_at ?s0 else if ?k = 0x09 then Some ?s0
      else if 0x20 \<le> sint ?k \<and> sint ?k < 0x7F then insert_char sz ?k ?s0 else Some ?s0) = Some s1"
    "edits sz (if ?k = 0x08 then Back else if 0x20 \<le> sint ?k \<and> sint ?k < 0x7F then Ins ?k else Idle) s s1"
    using backspace_at_ok [of sz ?s0] insert_char_ok [of sz ?s0 ?k] assms nine
    by (cases "?k = 0x08"; cases "?k = 0x09"; cases "0x20 \<le> sint ?k \<and> sint ?k < 0x7F") (auto simp: edits_def)
  then have "wr (rl_buf s1) (rl_len s1) 0 = Some (rl_buf s1)" using terminator_ok by (auto simp: edits_def)
  then have "rl_key sz s = Some (None, s1\<lparr>hooked := False, rl_buf := rl_buf s1, rl_kbd := (rl_kbd s1)\<lparr>read_key := 0\<rparr>\<rparr>)"
    using False s1(1) by (simp add: rl_key_def Let_def)
  then show ?thesis using False s1(2) by (simp add: edits_def Let_def)
qed

definition returns :: "ed_cmd \<Rightarrow> u8 list \<times> u8 list \<Rightarrow> nat option" where
  "returns cmd z = (if cmd = Cancel then Some 0 else if cmd = Enter then Some (length (fst z) + length (snd z)) else None)"

lemma readline_iter_ok:
  assumes "rl_ok sz s"
  shows "\<exists>s'. readline_iter sz s = Some (returns (pending s) (zipper s), s') \<and> edits sz (pending s) s s'"
proof -
  let ?k = "rl_kbd s"
  have l: "\<not> sz \<le> rl_len s" "length (fst (zipper s)) + length (snd (zipper s)) = rl_len s"
    using assms by (auto simp: rl_ok_def buf_ok_def zipper_def)
  consider (cancel) "cancel_input ?k = 1" | (clear) "cancel_input ?k \<noteq> 1" "do_clear_screen ?k = 1"
    | (nav) "cancel_input ?k \<noteq> 1" "do_clear_screen ?k \<noteq> 1" "in_read ?k = 1" "nav_key ?k \<noteq> 0"
    | (word) "cancel_input ?k \<noteq> 1" "do_clear_screen ?k \<noteq> 1" "in_read ?k = 1" "nav_key ?k = 0" "word_del ?k \<noteq> 0"
    | (key) "cancel_input ?k \<noteq> 1" "do_clear_screen ?k \<noteq> 1" "in_read ?k = 1" "nav_key ?k = 0" "word_del ?k = 0" "read_key ?k \<noteq> 0"
    | (idle) "cancel_input ?k \<noteq> 1" "do_clear_screen ?k \<noteq> 1" "in_read ?k = 1 \<longrightarrow> nav_key ?k = 0 \<and> word_del ?k = 0 \<and> read_key ?k = 0"
    by blast
  then show ?thesis
  proof cases
    case cancel
    then show ?thesis using rl_cancel_ok [OF assms] l by (simp add: readline_iter_def pending_def returns_def Let_def)
  next
    case clear
    then show ?thesis using rl_clear_ok [OF assms] l by (simp add: readline_iter_def pending_def returns_def Let_def)
  next
    case nav
    then have "readline_iter sz s = rl_nav sz s" "returns (pending s) (zipper s) = None"
      using l by (auto simp: readline_iter_def pending_def returns_def Let_def)
    then show ?thesis using rl_nav_ok [OF assms] nav by (simp add: pending_def Let_def)
  next
    case word
    then show ?thesis using rl_word_ok [OF assms] l by (simp add: readline_iter_def pending_def returns_def Let_def)
  next
    case key
    then have "readline_iter sz s = rl_key sz s"
      "returns (pending s) (zipper s) = (if read_key ?k = 0x0A then Some (rl_len s) else None)"
      using l by (auto simp: readline_iter_def pending_def returns_def Let_def)
    then show ?thesis using rl_key_ok [OF assms key(6)] key by (simp add: pending_def Let_def)
  next
    case idle
    then have "readline_iter sz s = Some (None, s)" "pending s = Idle" using l by (auto simp: readline_iter_def pending_def Let_def)
    then show ?thesis using assms by (simp add: edits_def returns_def)
  qed
qed

inductive_cases rl_stepE: "rl_step sz s s'"

lemma rl_start_ok:
  assumes "term_ok (rl_term s0)" and "hist_ok (rl_hist s0)" and "terminated (g_cwd s0)" and "length (cstr (g_cwd s0)) < 254"
    and "0x09 \<notin> set (cstr (g_cwd s0))" and "0 < sz" and "sz \<le> length (rl_buf s0)" and "rl_buf s0 ! 0 = 0"
  shows "rl_ok sz (readline_start s0)"
  using assms prompt_on_screen [OF assms(1)] term_ok_screen [OF assms(1)]
  by (auto simp: readline_start_def rl_ok_def buf_ok_def env_ok_def prompt_cell_def)

lemma rl_reach_ok:
  assumes "rl_reach sz s0 s" and "rl_ok sz (readline_start s0)"
  shows "rl_ok sz s"
  using assms(1)
proof induction
  case (step s s')
  show ?case using step.hyps(2)
    by (rule rl_stepE) (use step.IH readline_iter_ok [OF step.IH] in \<open>auto simp: edits_def\<close>)
qed (rule assms(2))

lemma insert_char_row:
  assumes "rl_ok sz s" and "rl_len s + 1 < sz" and "insert_char sz c s = Some s'"
  shows "term_same (rl_term s) (rl_term s') \<and>
    t_row (rl_term s') = (g_base_cell s + rl_pos s + 1) div term_width (rl_term s) \<and> t_col (rl_term s') < term_width (rl_term s)"
proof -
  have ok: "screen_ok (rl_term s)" using assms(1) by (simp add: rl_ok_def env_ok_def)
  have "rl_len s + 1 \<le> length (rl_buf s)" using assms(1,2) by (auto simp: rl_ok_def buf_ok_def)
  moreover obtain b where b: "memmove (rl_buf s) (rl_pos s + 1) (rl_pos s) (rl_len s - rl_pos s + 1) = Some b" "length b = length (rl_buf s)"
  proof -
    let ?x = "take (rl_len s - rl_pos s + 1) (drop (rl_pos s) (rl_buf s))"
    have l: "rl_pos s + (rl_len s - rl_pos s + 1) \<le> length (rl_buf s)" "rl_pos s + 1 + (rl_len s - rl_pos s + 1) \<le> length (rl_buf s)"
      using assms(1,2) by (auto simp: rl_ok_def buf_ok_def)
    then have "length (blit (rl_buf s) (rl_pos s + 1) ?x) = length (rl_buf s)" by (intro length_blit) simp
    then show thesis using that memmove_blit [OF l] by blast
  qed
  moreover have "rl_pos s < length b" using assms(1,2) b(2) by (auto simp: rl_ok_def buf_ok_def)
  ultimately obtain s2 b' where s2: "cell_draw (rl_pos s) b' (rl_len s + 1) (s\<lparr>rl_buf := b', rl_len := rl_len s + 1\<rparr>) = Some s2"
      and s': "s' = cell_cursor (rl_pos s + 1) (s2\<lparr>rl_pos := rl_pos s + 1\<rparr>)" and len: "rl_len s + 1 \<le> length b'"
    using assms(2,3) by (auto simp: insert_char_def Let_def wr_in split: bind_splits)
  then have r: "redrawn (s\<lparr>rl_buf := b', rl_len := rl_len s + 1\<rparr>) s2"
    using cell_draw_ok [of "s\<lparr>rl_buf := b', rl_len := rl_len s + 1\<rparr>" "rl_len s + 1" b' "rl_pos s"] ok by auto
  then have "term_same (rl_term s) (rl_term s2)" "g_base_cell s2 = g_base_cell s"
    by (auto simp: redrawn_def)
  then show ?thesis using ok unfolding s'
    by (simp add: cell_cursor_def Let_def update_cursor_def term_same_def screen_ok_def)
qed

lemma off_screen_newline:
  assumes "term_height t \<le> t_row t"
  shows "\<exists>t'. printk [0x0A, 0] [] t = Some t' \<and> t_row t' = t_row t + 1 \<and> t_col t' = 0 \<and> term_width t' = term_width t \<and> t_buf t' = t_buf t"
proof -
  have "pk_out (cstr [0x0A, 0]) [] = Some [0x0A]" "terminated [0x0A, 0 :: u8]" by (simp_all add: cstr_def terminated_def)
  then have "printk [0x0A, 0] [] t = do { s' \<leftarrow> term_write [0x0A] t; Some (update_cursor (t_col s') (t_row s') s') }"
    using printk_short [of "[0x0A, 0]" "[]" "[0x0A]" t] by simp
  then show ?thesis using assms by (simp add: term_putchar_def update_cursor_def)
qed

section \<open>Properties\<close>


definition demo_kbd :: kbd_state where
  "demo_kbd = \<lparr>modifier = 0, in_read = 0, read_key = 0, do_clear_screen = 0, cancel_input = 0, nav_key = 0, word_del = 0, ctrl_char = 0\<rparr>"

definition demo_rl :: rl_state where
  "demo_rl = \<lparr>rl_kbd = demo_kbd, rl_hist = \<lparr>s_hist = [], s_hist_count = 0, s_hist_pos = 0\<rparr>,
     rl_term = \<lparr>t_row = 1, t_col = 2, t_color = 7, t_buf = replicate 6 0x0720, term_width = 3, term_height = 2, cursor_reg = 0\<rparr>,
     g_cwd = [0x2F, 0], g_base_cell = 0, rl_buf = replicate 4 0, rl_len = 0, rl_pos = 0, hooked = False\<rparr>"

definition demo_typed :: rl_state where
  "demo_typed = (readline_start demo_rl)\<lparr>rl_kbd := keyboard_handler 30 (rl_kbd (readline_start demo_rl))\<rparr>"

lemma demo_typed_reach: "rl_reach 4 demo_rl demo_typed"
  unfolding demo_typed_def by (rule rl_reach.step [OF rl_reach.start rl_step.interrupt])

lemma demo_pending: "pending demo_typed = Ins 0x61"
  by code_simp

lemma demo_rl_start:
  "term_ok (rl_term demo_rl)" "hist_ok (rl_hist demo_rl)" "terminated (g_cwd demo_rl)" "length (cstr (g_cwd demo_rl)) < 254"
  "0x09 \<notin> set (cstr (g_cwd demo_rl))" "(4 :: nat) \<le> length (rl_buf demo_rl)" "rl_buf demo_rl ! 0 = 0"
  by (simp_all add: demo_rl_def term_ok_def hist_ok_def terminated_def cstr_def)


text \<open>
  A line that runs past the last row of the screen breaks the terminal.  \<open>cell_cursor\<close> then puts the
  cursor on a row that does not exist, the line feed that follows the prompt does not scroll
  because the row is no longer equal to the height, and the next character is written outside the
  screen memory.
\<close>

theorem long_line_leaves_screen:
  assumes "rl_ok sz s" and "pending s = Ins c" and "rl_len s + 1 < sz" and "length (t_buf (rl_term s)) = term_width (rl_term s) * term_height (rl_term s)"
    and "term_width (rl_term s) * term_height (rl_term s) \<le> g_base_cell s + rl_pos s + 1" and "d \<noteq> 0x0A" and "d \<noteq> 0x09"
  shows "\<exists>s' t'. readline_iter sz s = Some (None, s') \<and> term_height (rl_term s) \<le> t_row (rl_term s') \<and>
    printk [0x0A, 0] [] (rl_term s') = Some t' \<and> term_height (rl_term s) < t_row t' \<and> term_putchar d t' = None"
proof -
  let ?s0 = "s\<lparr>rl_kbd := (rl_kbd s)\<lparr>in_read := 0\<rparr>\<rparr>" and ?w = "term_width (rl_term s)" and ?h = "term_height (rl_term s)"
  have k: "readline_iter sz s = rl_key sz s" "read_key (rl_kbd s) = c" "c \<noteq> 0" "c \<noteq> 0x0A" "c \<noteq> 0x08" "0x20 \<le> sint c" "sint c < 0x7F"
    using assms(2,3) by (auto simp: pending_def readline_iter_def Let_def split: if_splits)
  then have "c \<noteq> 0x09" by auto
  have ok0: "rl_ok sz ?s0" using assms(1) by simp
  obtain s1 where s1: "insert_char sz c ?s0 = Some s1" "edits sz (Ins c) ?s0 s1" using insert_char_ok [OF ok0 k(3)] by blast
  note row = insert_char_row [OF ok0 _ s1(1), simplified, OF assms(3) [simplified]]
  have w: "0 < ?w" using assms(1) by (simp add: rl_ok_def env_ok_def screen_ok_def)
  have h: "?h \<le> t_row (rl_term s1)" "term_height (rl_term s1) = ?h" "term_width (rl_term s1) = ?w" "length (t_buf (rl_term s1)) = ?w * ?h"
    using row assms(4,5) w div_le_mono [OF assms(5), of ?w] by (simp_all add: term_same_def)
  let ?s' = "s1\<lparr>hooked := False, rl_buf := rl_buf s1, rl_kbd := (rl_kbd s1)\<lparr>read_key := 0\<rparr>\<rparr>"
  have "wr (rl_buf s1) (rl_len s1) 0 = Some (rl_buf s1)" using terminator_ok s1(2) by (auto simp: edits_def)
  then have it: "readline_iter sz s = Some (None, ?s')" using k s1(1) \<open>c \<noteq> 0x09\<close> by (simp add: rl_key_def Let_def)
  obtain t' where t': "printk [0x0A, 0] [] (rl_term s1) = Some t'" "t_row t' = t_row (rl_term s1) + 1" "t_col t' = 0" "term_width t' = ?w" "t_buf t' = t_buf (rl_term s1)"
    using off_screen_newline [of "rl_term s1"] h by auto
  have "?h * ?w \<le> t_row t' * ?w" using h(1) t'(2) by (intro mult_le_mono1) simp
  then have "?w * ?h \<le> t_row t' * ?w" by (simp add: mult.commute)
  then have "term_putchar d t' = None" using assms(6,7) t' h(4)
    by (simp add: term_putchar_def term_putch_at_def wr_out)
  then show ?thesis using it t' h by auto
qed

theorem long_line_leaves_screen_witness:
  "\<exists>s' t'. readline_iter 4 demo_typed = Some (None, s') \<and> printk [0x0A, 0] [] (rl_term s') = Some t' \<and> t_row t' = 3 \<and> term_putchar 0x62 t' = None"
proof -
  have ok: "rl_ok 4 demo_typed" using rl_reach_ok [OF demo_typed_reach] rl_start_ok [OF demo_rl_start(1-5) _ demo_rl_start(6,7)] by simp
  have e: "rl_len demo_typed + 1 < 4" "length (t_buf (rl_term demo_typed)) = term_width (rl_term demo_typed) * term_height (rl_term demo_typed)"
    "term_width (rl_term demo_typed) * term_height (rl_term demo_typed) \<le> g_base_cell demo_typed + rl_pos demo_typed + 1" by code_simp+
  obtain s' t' where st: "readline_iter 4 demo_typed = Some (None, s')" "printk [0x0A, 0] [] (rl_term s') = Some t'" "term_putchar 0x62 t' = None"
    using long_line_leaves_screen [OF ok demo_pending e, of "0x62"] by auto
  have "map_option (\<lambda>(r, s). t_row (rl_term s)) (readline_iter 4 demo_typed) = Some 2" by code_simp
  moreover have "map_option (\<lambda>(r, s). term_height (rl_term s)) (readline_iter 4 demo_typed) = Some 2" by code_simp
  ultimately have "t_row t' = 3" using st(1,2) off_screen_newline [of "rl_term s'"] by auto
  then show ?thesis using st by blast
qed

end
