(* ===== verification/Ext2File.thy ===== *)
theory Ext2File
  imports Ext2
begin

text \<open>
  File data of the ext2 driver: \<open>ext2_file_alloc_block\<close>, \<open>ext2_read_data\<close>, \<open>ext2_write_data\<close> and the release of
  the blocks of an inode (\<open>ext2_free_indirect_chains\<close>, \<open>ext2_free_inode_blocks\<close>, \<open>ext2_truncate_file\<close>) of
  \<open>src/kernel/fs/ext2.c\<close>.

  \<^item> The inode is the caller's local copy; an operation returns it updated.
  \<^item> The byte count is returned as a signed 32-bit integer, as in the source.
  \<^item> The caller's buffer is a memory object and an offset in it.
\<close>

section \<open>Growing a file\<close>

definition int32 :: "nat \<Rightarrow> int" where
  "int32 n = (if n < 2147483648 then int n else int n - 4294967296)"

definition grow_i_blocks :: "ext2_st \<Rightarrow> u8 list \<Rightarrow> u8 list" where
  "grow_i_blocks s inode = set_i_blocks (wrap32 (i_blocks inode + block_size s div EXT2_SECTOR_SIZE)) inode"

text \<open>The indirect table of a file, allocated and zeroed when the file has none; \<open>None\<close> inside when no block is free.\<close>

definition file_indirect_table :: "ext2_st \<Rightarrow> u8 list \<Rightarrow> (u8 list option \<times> ext2_st) option" where
  "file_indirect_table s inode =
     (if i_block inode 12 \<noteq> 0 then Some (Some inode, s)
      else do {
        (r, s1) \<leftarrow> ext2_alloc_block s;
        case r of None \<Rightarrow> Some (None, s1)
        | Some phys \<Rightarrow> do {
            ind \<leftarrow> bzero (replicate 4096 0) 0 (block_size s1);
            (n, s2) \<leftarrow> ext2_write_block s1 phys ind 0 (block_size s1);
            Some (Some (set_i_block 12 phys inode), s2) } })"

definition file_alloc_direct :: "ext2_st \<Rightarrow> u8 list \<Rightarrow> nat \<Rightarrow> (nat \<times> u8 list \<times> ext2_st) option" where
  "file_alloc_direct s inode logical =
     (if i_block inode logical \<noteq> 0 then Some (i_block inode logical, inode, s)
      else do {
        (r, s1) \<leftarrow> ext2_alloc_block s;
        case r of None \<Rightarrow> Some (0, inode, s1)
        | Some phys \<Rightarrow> Some (phys, grow_i_blocks s1 (set_i_block logical phys inode), s1) })"

definition file_alloc_indirect :: "ext2_st \<Rightarrow> u8 list \<Rightarrow> nat \<Rightarrow> (nat \<times> u8 list \<times> ext2_st) option" where
  "file_alloc_indirect s inode idx =
     do { (t, s1) \<leftarrow> file_indirect_table s inode;
          case t of None \<Rightarrow> Some (0, inode, s1)
          | Some inode1 \<Rightarrow> do {
              (n, ind) \<leftarrow> ext2_read_block s1 (i_block inode1 12) (replicate 4096 0) 0 (block_size s1);
              if n \<noteq> block_size s1 then Some (0, inode1, s1)
              else do {
                p \<leftarrow> rd_fld 4 ind (4 * idx);
                if p \<noteq> 0 then do {
                  (m, s2) \<leftarrow> ext2_write_block s1 (i_block inode1 12) ind 0 (block_size s1);
                  Some (p, inode1, s2) }
                else do {
                  (r, s2) \<leftarrow> ext2_alloc_block s1;
                  case r of None \<Rightarrow> Some (0, inode1, s2)
                  | Some phys \<Rightarrow> do {
                      ind1 \<leftarrow> wr_fld 4 ind (4 * idx) phys;
                      (m, s3) \<leftarrow> ext2_write_block s2 (i_block inode1 12) ind1 0 (block_size s2);
                      Some (phys, grow_i_blocks s3 inode1, s3) } } } } }"

definition ext2_file_alloc_block :: "ext2_st \<Rightarrow> u8 list \<Rightarrow> nat \<Rightarrow> (nat \<times> u8 list \<times> ext2_st) option" where
  "ext2_file_alloc_block s inode logical =
     (if logical < 12 then file_alloc_direct s inode logical
      else if logical < 12 + min (ptr_per_block s) 1024 then file_alloc_indirect s inode (logical - 12)
      else Some (0, inode, s))"

section \<open>Reading and writing\<close>

text \<open>One round: the bytes \<open>done\<close> of \<open>sz\<close> are transferred, \<open>p\<close> is where the caller's buffer starts.\<close>

definition data_chunk :: "ext2_st \<Rightarrow> nat \<Rightarrow> nat \<Rightarrow> nat \<Rightarrow> nat" where
  "data_chunk s byte_off sz done = min (sz - done) (block_size s - byte_off mod block_size s)"

lemma data_chunk_pos: "done < sz \<Longrightarrow> 0 < block_size s \<Longrightarrow> 0 < data_chunk s off sz done"
  by (simp add: data_chunk_def)

definition read_data_step :: "ext2_st \<Rightarrow> u8 list \<Rightarrow> nat \<Rightarrow> nat \<Rightarrow> nat \<Rightarrow> u8 list \<Rightarrow> nat \<Rightarrow> (bool \<times> u8 list) option" where
  "read_data_step s inode byte_off sz done buf p =
     do { phys \<leftarrow> ext2_block_lookup s inode (byte_off div block_size s);
          if phys = 0 then Some (False, buf)
          else if byte_off mod block_size s = 0 \<and> data_chunk s byte_off sz done = block_size s then do {
            (n, b) \<leftarrow> ext2_read_block s phys buf (p + done) (data_chunk s byte_off sz done);
            Some (n = data_chunk s byte_off sz done, b) }
          else do {
            (n, blk) \<leftarrow> ext2_read_block s phys (replicate 4096 0) 0 (block_size s);
            if n \<noteq> block_size s then Some (False, buf)
            else do {
              b \<leftarrow> memcpy buf (p + done) blk (byte_off mod block_size s) (data_chunk s byte_off sz done);
              Some (True, b) } } }"

function read_data_loop :: "ext2_st \<Rightarrow> u8 list \<Rightarrow> nat \<Rightarrow> nat \<Rightarrow> nat \<Rightarrow> u8 list \<Rightarrow> nat \<Rightarrow> (nat \<times> u8 list) option" where
  "read_data_loop s inode offset sz done buf p =
     (if \<not> done < sz then Some (done, buf)
      else if block_size s = 0 then None
      else do {
        (ok, b) \<leftarrow> read_data_step s inode (wrap32 (offset + done)) sz done buf p;
        if \<not> ok then Some (done, b)
        else read_data_loop s inode offset sz (done + data_chunk s (wrap32 (offset + done)) sz done) b p })"
  by pat_completeness auto
termination
  by (relation "measure (\<lambda>(s, inode, offset, sz, done, buf, p). sz - done)") (auto simp: data_chunk_pos diff_less_mono2)

declare read_data_loop.simps [simp del]

definition ext2_read_data :: "ext2_st \<Rightarrow> u8 list \<Rightarrow> nat \<Rightarrow> nat \<Rightarrow> u8 list \<Rightarrow> nat \<Rightarrow> (int \<times> u8 list) option" where
  "ext2_read_data s inode offset sz buf p =
     (if i_size inode \<le> offset then Some (0, buf)
      else do {
        (done, b) \<leftarrow> read_data_loop s inode offset
           (if i_size inode < wrap32 (offset + sz) then i_size inode - offset else sz) 0 buf p;
        Some (int32 done, b) })"

text \<open>The physical block to write to: an unmapped block at or past the end of the file is allocated.\<close>

definition write_data_target :: "ext2_st \<Rightarrow> u8 list \<Rightarrow> nat \<Rightarrow> (nat \<times> u8 list \<times> ext2_st) option" where
  "write_data_target s inode byte_off =
     do { phys \<leftarrow> ext2_block_lookup s inode (byte_off div block_size s);
          if phys = 0 \<and> i_size inode \<le> byte_off then ext2_file_alloc_block s inode (byte_off div block_size s)
          else Some (phys, inode, s) }"

definition write_data_store :: "ext2_st \<Rightarrow> nat \<Rightarrow> nat \<Rightarrow> nat \<Rightarrow> nat \<Rightarrow> u8 list \<Rightarrow> nat \<Rightarrow> (bool \<times> ext2_st) option" where
  "write_data_store s phys byte_off sz done buf p =
     (if byte_off mod block_size s = 0 \<and> data_chunk s byte_off sz done = block_size s then do {
        (n, s1) \<leftarrow> ext2_write_block s phys buf (p + done) (data_chunk s byte_off sz done);
        Some (n = data_chunk s byte_off sz done, s1) }
      else do {
        (n, blk) \<leftarrow> ext2_read_block s phys (replicate 4096 0) 0 (block_size s);
        if n \<noteq> block_size s then Some (False, s)
        else do {
          blk1 \<leftarrow> memcpy blk (byte_off mod block_size s) buf (p + done) (data_chunk s byte_off sz done);
          (m, s1) \<leftarrow> ext2_write_block s phys blk1 0 (block_size s);
          Some (m = block_size s, s1) } })"

definition write_data_step ::
  "ext2_st \<Rightarrow> u8 list \<Rightarrow> nat \<Rightarrow> nat \<Rightarrow> nat \<Rightarrow> u8 list \<Rightarrow> nat \<Rightarrow> (bool \<times> u8 list \<times> ext2_st) option" where
  "write_data_step s inode byte_off sz done buf p =
     do { (phys, inode1, s1) \<leftarrow> write_data_target s inode byte_off;
          if phys = 0 then Some (False, inode1, s1)
          else do {
            let inode2 = (if i_size inode1 \<le> byte_off then set_i_size (wrap32 (byte_off + (sz - done))) inode1 else inode1);
            (ok, s2) \<leftarrow> write_data_store s1 phys byte_off sz done buf p;
            Some (ok, inode2, s2) } }"

text \<open>The flag of the loop says that it ran to the end.\<close>

function write_data_loop ::
  "ext2_st \<Rightarrow> u8 list \<Rightarrow> nat \<Rightarrow> nat \<Rightarrow> nat \<Rightarrow> u8 list \<Rightarrow> nat \<Rightarrow> (bool \<times> nat \<times> u8 list \<times> ext2_st) option" where
  "write_data_loop s inode offset sz done buf p =
     (if \<not> done < sz then Some (True, done, inode, s)
      else if block_size s = 0 then None
      else do {
        (ok, inode1, s1) \<leftarrow> write_data_step s inode (wrap32 (offset + done)) sz done buf p;
        if \<not> ok then Some (False, done, inode1, s1)
        else write_data_loop s1 inode1 offset sz (done + data_chunk s (wrap32 (offset + done)) sz done) buf p })"
  by pat_completeness auto
termination
  by (relation "measure (\<lambda>(s, inode, offset, sz, done, buf, p). sz - done)") (auto simp: data_chunk_pos diff_less_mono2)

declare write_data_loop.simps [simp del]

definition ext2_write_data ::
  "ext2_st \<Rightarrow> u8 list \<Rightarrow> nat \<Rightarrow> nat \<Rightarrow> u8 list \<Rightarrow> nat \<Rightarrow> (int \<times> u8 list \<times> ext2_st) option" where
  "ext2_write_data s inode offset sz buf p =
     do { (finished, done, inode1, s1) \<leftarrow> write_data_loop s inode offset sz 0 buf p;
          Some (int32 done,
                if finished \<and> i_size inode1 < wrap32 (offset + sz) then set_i_size (wrap32 (offset + sz)) inode1 else inode1,
                s1) }"

section \<open>Releasing blocks\<close>

text \<open>Freeing the blocks a table names, entries \<open>i\<close> to \<open>i + k\<close>.\<close>

fun free_ptrs :: "ext2_st \<Rightarrow> u8 list \<Rightarrow> nat \<Rightarrow> nat \<Rightarrow> ext2_st option" where
  "free_ptrs s ptrs i 0 = Some s"
| "free_ptrs s ptrs i (Suc k) =
     do { p \<leftarrow> rd_fld 4 ptrs (4 * i);
          s1 \<leftarrow> (if p \<noteq> 0 then ext2_free_block s p else Some s);
          free_ptrs s1 ptrs (Suc i) k }"

text \<open>The number of entries to visit is 0 when the table cannot be read.\<close>

definition read_ptrs :: "ext2_st \<Rightarrow> nat \<Rightarrow> (nat \<times> u8 list) option" where
  "read_ptrs s blk =
     do { (n, ptrs) \<leftarrow> ext2_read_block s blk (replicate 4096 0) 0 (block_size s);
          Some (if n = 0 then 0 else min (ptr_per_block s) 1024, ptrs) }"

definition free_table :: "ext2_st \<Rightarrow> nat \<Rightarrow> ext2_st option" where
  "free_table s blk = do { (n, ptrs) \<leftarrow> read_ptrs s blk; s1 \<leftarrow> free_ptrs s ptrs 0 n; ext2_free_block s1 blk }"

fun free_tables :: "ext2_st \<Rightarrow> u8 list \<Rightarrow> nat \<Rightarrow> nat \<Rightarrow> ext2_st option" where
  "free_tables s ptrs i 0 = Some s"
| "free_tables s ptrs i (Suc k) =
     do { p \<leftarrow> rd_fld 4 ptrs (4 * i);
          s1 \<leftarrow> (if p \<noteq> 0 then free_table s p else Some s);
          free_tables s1 ptrs (Suc i) k }"

definition ext2_free_indirect_chains :: "ext2_st \<Rightarrow> u8 list \<Rightarrow> (u8 list \<times> ext2_st) option" where
  "ext2_free_indirect_chains s inode =
     do { (i1, s1) \<leftarrow> (if i_block inode 12 \<noteq> 0 then
                         do { s1 \<leftarrow> free_table s (i_block inode 12); Some (set_i_block 12 0 inode, s1) }
                       else Some (inode, s));
          (i2, s2) \<leftarrow> (if i_block i1 13 \<noteq> 0 then
                         do { (n, ptrs) \<leftarrow> read_ptrs s1 (i_block i1 13);
                              t \<leftarrow> free_tables s1 ptrs 0 n;
                              t1 \<leftarrow> ext2_free_block t (i_block i1 13);
                              Some (set_i_block 13 0 i1, t1) }
                       else Some (i1, s1));
          if i_block i2 14 \<noteq> 0 then do { s3 \<leftarrow> ext2_free_block s2 (i_block i2 14); Some (set_i_block 14 0 i2, s3) }
          else Some (i2, s2) }"

text \<open>Freeing the direct blocks from \<open>i\<close> on.\<close>

fun free_direct :: "ext2_st \<Rightarrow> u8 list \<Rightarrow> nat \<Rightarrow> nat \<Rightarrow> (u8 list \<times> ext2_st) option" where
  "free_direct s inode i 0 = Some (inode, s)"
| "free_direct s inode i (Suc k) =
     do { (inode1, s1) \<leftarrow> (if i_block inode i \<noteq> 0 then
                              do { t \<leftarrow> ext2_free_block s (i_block inode i); Some (set_i_block i 0 inode, t) }
                            else Some (inode, s));
          free_direct s1 inode1 (Suc i) k }"

definition ext2_free_inode_blocks :: "ext2_st \<Rightarrow> u8 list \<Rightarrow> (u8 list \<times> ext2_st) option" where
  "ext2_free_inode_blocks s inode =
     do { (i1, s1) \<leftarrow> free_direct s inode 0 12;
          (i2, s2) \<leftarrow> ext2_free_indirect_chains s1 i1;
          Some (set_i_blocks 0 i2, s2) }"

text \<open>Freeing the tail of the indirect table and clearing its entries.\<close>

fun clear_ptrs :: "ext2_st \<Rightarrow> u8 list \<Rightarrow> nat \<Rightarrow> nat \<Rightarrow> (u8 list \<times> ext2_st) option" where
  "clear_ptrs s ind i 0 = Some (ind, s)"
| "clear_ptrs s ind i (Suc k) =
     do { p \<leftarrow> rd_fld 4 ind (4 * i);
          (ind1, s1) \<leftarrow> (if p \<noteq> 0 then do { t \<leftarrow> ext2_free_block s p; b \<leftarrow> wr_fld 4 ind (4 * i) 0; Some (b, t) }
                          else Some (ind, s));
          clear_ptrs s1 ind1 (Suc i) k }"

definition drop_ptr :: "nat \<Rightarrow> ext2_st \<Rightarrow> u8 list \<Rightarrow> (u8 list \<times> ext2_st) option" where
  "drop_ptr k s inode =
     (if i_block inode k \<noteq> 0 then do { s1 \<leftarrow> ext2_free_block s (i_block inode k); Some (set_i_block k 0 inode, s1) }
      else Some (inode, s))"

text \<open>The two ways to shrink; the flag is false where the source returns an error.\<close>

definition truncate_direct :: "ext2_st \<Rightarrow> u8 list \<Rightarrow> nat \<Rightarrow> (bool \<times> u8 list \<times> ext2_st) option" where
  "truncate_direct s inode new_blocks =
     do { (i1, s1) \<leftarrow> free_direct s inode new_blocks (12 - new_blocks);
          (i2, s2) \<leftarrow> ext2_free_indirect_chains s1 i1;
          Some (True, i2, s2) }"

definition truncate_indirect :: "ext2_st \<Rightarrow> u8 list \<Rightarrow> nat \<Rightarrow> (bool \<times> u8 list \<times> ext2_st) option" where
  "truncate_indirect s inode kept =
     do { (i1, s1) \<leftarrow> drop_ptr 13 s inode;
          (i2, s2) \<leftarrow> drop_ptr 14 s1 i1;
          if i_block inode 12 = 0 then Some (False, i2, s2)
          else do {
            (n, ind) \<leftarrow> ext2_read_block s2 (i_block inode 12) (replicate 4096 0) 0 (block_size s2);
            if n = 0 then Some (False, i2, s2)
            else do {
              (ind1, s3) \<leftarrow> clear_ptrs s2 ind kept (min (ptr_per_block s2) 1024 - kept);
              (m, s4) \<leftarrow> ext2_write_block s3 (i_block inode 12) ind1 0 (block_size s3);
              Some (m \<noteq> 0, i2, s4) } } }"

definition count_blocks :: "ext2_st \<Rightarrow> u8 list \<Rightarrow> nat \<Rightarrow> nat" where
  "count_blocks s inode new_blocks =
     wrap32 ((length (filter (\<lambda>i. i_block inode i \<noteq> 0) [0..<min 12 new_blocks])
              + (if 12 < new_blocks \<and> i_block inode 12 \<noteq> 0 then 1 else 0)) * (block_size s div EXT2_SECTOR_SIZE))"

definition ext2_truncate_file :: "ext2_st \<Rightarrow> nat \<Rightarrow> nat \<Rightarrow> (bool \<times> ext2_st) option" where
  "ext2_truncate_file s ino new_size =
     (if superblock s = None then Some (False, s)
      else do {
        r \<leftarrow> ext2_read_inode s ino;
        case r of None \<Rightarrow> Some (False, s)
        | Some inode \<Rightarrow>
            if block_size s = 0 then None
            else do {
              let new_blocks = wrap32 (new_size + block_size s + 4294967295) div block_size s;
              if i_size inode \<le> new_size then do {
                (ok, s1) \<leftarrow> ext2_write_inode s ino (set_i_size new_size inode);
                Some (True, s1) }
              else do {
                (ok, inode1, s1) \<leftarrow>
                  (if new_blocks \<le> 12 then truncate_direct s inode new_blocks
                   else if new_blocks \<le> 12 + ptr_per_block s then truncate_indirect s inode (new_blocks - 12)
                   else Some (False, inode, s));
                if \<not> ok then Some (False, s1)
                else do {
                  (w, s2) \<leftarrow> ext2_write_inode s1 ino
                     (set_i_blocks (count_blocks s1 inode1 new_blocks) (set_i_size new_size inode1));
                  Some (True, s2) } } } })"

section \<open>Bounds of a transfer\<close>

lemma data_chunk_le: "done + data_chunk s off sz done \<le> max done sz"
proof -
  have "data_chunk s off sz done \<le> sz - done" by (simp add: data_chunk_def)
  then show ?thesis by linarith
qed

lemma read_data_loop_le: "read_data_loop s inode offset sz done buf p = Some (n, b) \<Longrightarrow> done \<le> sz \<Longrightarrow> n \<le> sz"
proof (induction s inode offset sz "done" buf p rule: read_data_loop.induct)
  case (1 s inode offset sz "done" buf p)
  show ?case
  proof (cases "done < sz")
    case True
    then show ?thesis using 1 data_chunk_le [of "done" s "wrap32 (offset + done)" sz]
      by (subst (asm) (2) read_data_loop.simps) (auto split: if_splits bind_splits)
  qed (use 1 in \<open>subst (asm) (2) read_data_loop.simps, simp\<close>)
qed

lemma ext2_read_data_le:
  assumes "ext2_read_data s inode offset sz buf p = Some (n, b)" and "sz < 2147483648"
    and "offset + sz < 4294967296"
  shows "n \<le> int sz" and "offset \<le> i_size inode \<Longrightarrow> n \<le> int (i_size inode - offset)" and "0 \<le> n"
proof -
  let ?sz = "if i_size inode < wrap32 (offset + sz) then i_size inode - offset else sz"
  have w: "wrap32 (offset + sz) = offset + sz" using assms(3) by (simp add: wrap32_def)
  have le: "?sz \<le> sz" "offset < i_size inode \<Longrightarrow> ?sz \<le> i_size inode - offset" using w by auto
  show "n \<le> int sz" "offset \<le> i_size inode \<Longrightarrow> n \<le> int (i_size inode - offset)" "0 \<le> n"
  proof -
    consider "i_size inode \<le> offset" "n = 0"
      | d where "offset < i_size inode" "read_data_loop s inode offset ?sz 0 buf p = Some (d, b)" "n = int32 d"
      using assms(1) by (auto simp: ext2_read_data_def not_le split: if_splits bind_splits)
    then have "n \<le> int sz \<and> (offset \<le> i_size inode \<longrightarrow> n \<le> int (i_size inode - offset)) \<and> 0 \<le> n"
    proof cases
      case (2 d)
      have "d \<le> ?sz" using read_data_loop_le [OF 2(2)] by simp
      then have d: "d \<le> sz" using le(1) by linarith
      then have "n = int d" using 2(3) assms(2) by (simp add: int32_def)
      then show ?thesis using d le(2) [OF 2(1)] \<open>d \<le> ?sz\<close> by linarith
    qed auto
    then show "n \<le> int sz" "offset \<le> i_size inode \<Longrightarrow> n \<le> int (i_size inode - offset)" "0 \<le> n" by auto
  qed
qed

lemma i_size_less: "i_size i < 4294967296"
  using fld_less [of 4 i 4] by (simp add: i_size_def)

end
