(* ===== verification/Ext2Dir.thy ===== *)
theory Ext2Dir
  imports Ext2File
begin

text \<open>
  Directories of the ext2 driver, from \<open>src/kernel/fs/ext2.c\<close>: adding, finding and removing entries, creating and removing
  files and directories, and renaming.

  \<^item> A directory entry in a buffer is its offset; \<open>de_inode\<close> and so on read its fields with the bounds of the buffer.
  \<^item> The buffers hold 4096 bytes, of which a block of the file system may fill fewer; the bytes behind it, indeterminate in
    the source, are zero here.
  \<^item> The offset of a walk is below the size of the directory and does not wrap, unless the size is within a record of
    4 GiB; the model is \<open>None\<close> there.
  \<^item> A name is a C string: a byte list up to and including its terminator.
\<close>

section \<open>Entries\<close>

definition de_inode :: "u8 list \<Rightarrow> nat \<Rightarrow> nat option" where
  "de_inode b p = rd_fld 4 b p"

definition de_rec_len :: "u8 list \<Rightarrow> nat \<Rightarrow> nat option" where
  "de_rec_len b p = rd_fld 2 b (p + 4)"

definition de_name_len :: "u8 list \<Rightarrow> nat \<Rightarrow> nat option" where
  "de_name_len b p = rd_fld 1 b (p + 6)"

definition de_file_type :: "u8 list \<Rightarrow> nat \<Rightarrow> nat option" where
  "de_file_type b p = rd_fld 1 b (p + 7)"

text \<open>The size of an entry with a name of a given length, a multiple of 4.\<close>

definition de_size :: "nat \<Rightarrow> nat" where
  "de_size n = (8 + n + 3) div 4 * 4"

definition put_entry :: "u8 list \<Rightarrow> nat \<Rightarrow> nat \<Rightarrow> nat \<Rightarrow> u8 list \<Rightarrow> nat \<Rightarrow> nat \<Rightarrow> u8 list option" where
  "put_entry b p ino rec_len nm name_len file_type =
     do { b1 \<leftarrow> wr_fld 4 b p ino;
          b2 \<leftarrow> wr_fld 2 b1 (p + 4) rec_len;
          b3 \<leftarrow> wr_fld 1 b2 (p + 6) name_len;
          b4 \<leftarrow> wr_fld 1 b3 (p + 7) file_type;
          memcpy b4 (p + 8) nm 0 name_len }"

section \<open>Adding an entry\<close>

text \<open>The walk over the blocks of a directory loads a block when it reaches the start of one; \<open>None\<close> inside is an error.\<close>

definition walk_load :: "ext2_st \<Rightarrow> u8 list \<Rightarrow> nat \<Rightarrow> u8 list \<Rightarrow> u8 list option option" where
  "walk_load s dir offs buf =
     (if offs mod block_size s \<noteq> 0 then Some (Some buf)
      else do {
        phys \<leftarrow> ext2_block_lookup s dir (offs div block_size s);
        if phys = 0 then Some None
        else do {
          (n, b) \<leftarrow> ext2_read_block s phys buf 0 (block_size s);
          Some (if n = 0 then None else Some b) } })"

datatype scan =
    ScanErr
  | ScanSlot nat nat nat "u8 list"
  | ScanEnd nat

text \<open>
  The scan for an entry with room behind it.  A slot is the offset in the directory, the size the entry shrinks to, the
  room behind it and the loaded block.
\<close>

function add_scan :: "ext2_st \<Rightarrow> u8 list \<Rightarrow> nat \<Rightarrow> nat \<Rightarrow> u8 list \<Rightarrow> scan option" where
  "add_scan s dir rec_len offs buf =
     (if \<not> offs < i_size dir then Some (ScanEnd offs)
      else if block_size s = 0 then None
      else do {
        r \<leftarrow> walk_load s dir offs buf;
        case r of None \<Rightarrow> Some ScanErr
        | Some b \<Rightarrow> do {
            e_rec \<leftarrow> de_rec_len b (offs mod block_size s);
            if e_rec = 0 then Some (ScanEnd offs)
            else do {
              e_nl \<leftarrow> de_name_len b (offs mod block_size s);
              let slack = (e_rec + 65536 - de_size e_nl) mod 65536;
              if rec_len \<le> slack then Some (ScanSlot offs (de_size e_nl) slack b)
              else if 4294967296 \<le> offs + e_rec then None
              else add_scan s dir rec_len (offs + e_rec) b } } })"
  by pat_completeness auto
termination
  by (relation "measure (\<lambda>(s, dir, rec_len, offs, buf). i_size dir - offs)") auto

declare add_scan.simps [simp del]

text \<open>Linking a new block to a directory that already has twelve.\<close>

definition add_indirect :: "ext2_st \<Rightarrow> u8 list \<Rightarrow> nat \<Rightarrow> nat \<Rightarrow> (u8 list option \<times> ext2_st) option" where
  "add_indirect s dir idx new_block =
     do { (t, s1) \<leftarrow> (if i_block dir 12 = 0 then do {
                          (r, s1) \<leftarrow> ext2_alloc_block s;
                          case r of None \<Rightarrow> Some (None, s1)
                          | Some ind \<Rightarrow> do {
                              z \<leftarrow> bzero (replicate 4096 0) 0 (block_size s1);
                              (n, s2) \<leftarrow> ext2_write_block s1 ind z 0 (block_size s1);
                              Some (Some (set_i_block 12 ind dir), s2) } }
                        else Some (Some dir, s));
          case t of None \<Rightarrow> Some (None, s1)
          | Some dir1 \<Rightarrow> do {
              (n, ptrs) \<leftarrow> ext2_read_block s1 (i_block dir1 12) (replicate 4096 0) 0 (block_size s1);
              if n = 0 then None
              else do {
                ptrs1 \<leftarrow> wr_fld 4 ptrs (4 * idx) new_block;
                (m, s2) \<leftarrow> ext2_write_block s1 (i_block dir1 12) ptrs1 0 (block_size s1);
                Some (Some dir1, s2) } } }"

text \<open>The new block of a directory and the inode written with it.\<close>

definition add_link :: "ext2_st \<Rightarrow> nat \<Rightarrow> u8 list \<Rightarrow> nat \<Rightarrow> nat \<Rightarrow> (bool \<times> ext2_st) option" where
  "add_link s dir_ino dir offs new_block =
     (if block_size s div EXT2_SECTOR_SIZE = 0 then None
      else do {
        let existing = i_blocks dir div (block_size s div EXT2_SECTOR_SIZE);
        (t, s1) \<leftarrow> (if existing < 12 then Some (Some (set_i_block existing new_block dir), s)
                     else add_indirect s dir (existing - 12) new_block);
        case t of None \<Rightarrow> Some (False, s1)
        | Some dir1 \<Rightarrow> do {
            (ok, s2) \<leftarrow> ext2_write_inode s1 dir_ino
               (set_i_size (wrap32 (offs + block_size s1)) (grow_i_blocks s1 dir1));
            Some (True, s2) } })"

definition add_append :: "ext2_st \<Rightarrow> nat \<Rightarrow> u8 list \<Rightarrow> nat \<Rightarrow> u8 list \<Rightarrow> nat \<Rightarrow> nat \<Rightarrow> nat \<Rightarrow> (bool \<times> ext2_st) option" where
  "add_append s dir_ino dir offs nm name_len child_ino file_type =
     (if block_size s = 0 then None
      else do {
        let offs1 = (if offs mod block_size s \<noteq> 0 then wrap32 ((offs div block_size s + 1) * block_size s) else offs);
        (r, s1) \<leftarrow> ext2_alloc_block s;
        case r of None \<Rightarrow> Some (False, s1)
        | Some new_block \<Rightarrow> do {
            z \<leftarrow> bzero (replicate 4096 0) 0 (block_size s1);
            b \<leftarrow> put_entry z 0 child_ino (block_size s1 mod 65536) nm name_len file_type;
            (n, s2) \<leftarrow> ext2_write_block s1 new_block b 0 (block_size s1);
            add_link s2 dir_ino dir offs1 new_block } })"

definition add_split :: "ext2_st \<Rightarrow> u8 list \<Rightarrow> nat \<Rightarrow> nat \<Rightarrow> nat \<Rightarrow> u8 list \<Rightarrow> u8 list \<Rightarrow> nat \<Rightarrow> nat \<Rightarrow> nat \<Rightarrow> (bool \<times> ext2_st) option" where
  "add_split s dir offs e_size slack b nm name_len child_ino file_type =
     do { b1 \<leftarrow> wr_fld 2 b (offs mod block_size s + 4) e_size;
          b2 \<leftarrow> put_entry b1 (offs mod block_size s + e_size) child_ino slack nm name_len file_type;
          phys \<leftarrow> ext2_block_lookup s dir (offs div block_size s);
          (n, s1) \<leftarrow> ext2_write_block s phys b2 0 (block_size s);
          Some (True, s1) }"

definition ext2_add_dir_entry :: "ext2_st \<Rightarrow> nat \<Rightarrow> u8 list \<Rightarrow> nat \<Rightarrow> nat \<Rightarrow> (bool \<times> ext2_st) option" where
  "ext2_add_dir_entry s dir_ino nm child_ino file_type =
     do { r \<leftarrow> ext2_read_inode s dir_ino;
          case r of None \<Rightarrow> Some (False, s)
          | Some dir \<Rightarrow>
              if \<not> EXT2_S_ISDIR (i_mode dir) then Some (False, s)
              else do {
                len \<leftarrow> strlen nm;
                let name_len = len mod 256;
                sc \<leftarrow> add_scan s dir (de_size name_len) 0 (replicate 4096 0);
                case sc of
                  ScanErr \<Rightarrow> Some (False, s)
                | ScanSlot offs e_size slack b \<Rightarrow> add_split s dir offs e_size slack b nm name_len child_ino file_type
                | ScanEnd offs \<Rightarrow> add_append s dir_ino dir offs nm name_len child_ino file_type } }"

section \<open>Creating\<close>

definition EXT2_S_IFREG :: nat where
  "EXT2_S_IFREG = 32768"

definition EXT2_S_IFDIR :: nat where
  "EXT2_S_IFDIR = 16384"

definition set_i_mode :: "nat \<Rightarrow> u8 list \<Rightarrow> u8 list" where
  "set_i_mode v i = set_fld 2 i 0 v"

definition set_i_links_count :: "nat \<Rightarrow> u8 list \<Rightarrow> u8 list" where
  "set_i_links_count v i = set_fld 2 i 26 v"

text \<open>An initial inode: the mode (permissions 0644 and 0755 octal), links, size and block count.\<close>

definition new_inode :: "nat \<Rightarrow> nat \<Rightarrow> nat \<Rightarrow> nat \<Rightarrow> u8 list" where
  "new_inode mode links sz blocks =
     set_i_blocks blocks (set_i_size sz (set_i_links_count links (set_i_mode mode (replicate 128 0))))"

definition ext2_create_file :: "ext2_st \<Rightarrow> nat \<Rightarrow> u8 list \<Rightarrow> (nat option \<times> ext2_st) option" where
  "ext2_create_file s parent_ino nm =
     do { c \<leftarrow> rd nm 0;
          if superblock s = None \<or> c = 0 then Some (None, s)
          else do {
            (r, s1) \<leftarrow> ext2_alloc_inode s;
            case r of None \<Rightarrow> Some (None, s1)
            | Some ino \<Rightarrow> do {
                (w, s2) \<leftarrow> ext2_write_inode s1 ino (new_inode (EXT2_S_IFREG + 420) 1 0 0);
                (ok, s3) \<leftarrow> ext2_add_dir_entry s2 parent_ino nm ino 1;
                if \<not> ok then do { s4 \<leftarrow> ext2_free_inode s3 ino; Some (None, s4) }
                else Some (Some ino, s3) } } }"

definition dot_name :: "u8 list" where
  "dot_name = [46, 0]"

definition dotdot_name :: "u8 list" where
  "dotdot_name = [46, 46, 0]"

text \<open>Changing the link count of a directory, when its inode can be read; counting down stops at 0.\<close>

definition ext2_link :: "(nat \<Rightarrow> nat) \<Rightarrow> ext2_st \<Rightarrow> nat \<Rightarrow> ext2_st option" where
  "ext2_link f s ino =
     do { r \<leftarrow> ext2_read_inode s ino;
          case r of None \<Rightarrow> Some s
          | Some i \<Rightarrow> do { (ok, s1) \<leftarrow> ext2_write_inode s ino (set_i_links_count (f (i_links_count i)) i); Some s1 } }"

definition dir_block :: "ext2_st \<Rightarrow> nat \<Rightarrow> nat \<Rightarrow> u8 list option" where
  "dir_block s ino parent_ino =
     do { z \<leftarrow> bzero (replicate 4096 0) 0 (block_size s);
          b \<leftarrow> put_entry z 0 ino 12 dot_name 1 2;
          put_entry b 12 parent_ino ((block_size s + 4294967296 - 12) mod 65536) dotdot_name 2 2 }"

definition ext2_create_dir :: "ext2_st \<Rightarrow> nat \<Rightarrow> u8 list \<Rightarrow> (nat option \<times> ext2_st) option" where
  "ext2_create_dir s parent_ino nm =
     do { c \<leftarrow> rd nm 0;
          if superblock s = None \<or> c = 0 then Some (None, s)
          else do {
            (r, s1) \<leftarrow> ext2_alloc_inode s;
            case r of None \<Rightarrow> Some (None, s1)
            | Some ino \<Rightarrow> do {
                (q, s2) \<leftarrow> ext2_alloc_block s1;
                case q of None \<Rightarrow> do { s3 \<leftarrow> ext2_free_inode s2 ino; Some (None, s3) }
                | Some block \<Rightarrow> do {
                    b \<leftarrow> dir_block s2 ino parent_ino;
                    (n, s3) \<leftarrow> ext2_write_block s2 block b 0 (block_size s2);
                    (w, s4) \<leftarrow> ext2_write_inode s3 ino
                       (set_i_block 0 block (new_inode (EXT2_S_IFDIR + 493) 2 (block_size s3) (block_size s3 div EXT2_SECTOR_SIZE)));
                    s5 \<leftarrow> ext2_link (\<lambda>n. (n + 1) mod 65536) s4 parent_ino;
                    (ok, s6) \<leftarrow> ext2_add_dir_entry s5 parent_ino nm ino 2;
                    if \<not> ok then do {
                      s7 \<leftarrow> ext2_free_inode s6 ino;
                      s8 \<leftarrow> ext2_free_block s7 block;
                      Some (None, s8) }
                    else Some (Some ino, s6) } } } }"

section \<open>Looking up\<close>

text \<open>The entries of a buffer of \<open>n\<close> bytes, from \<open>pos\<close>: \<open>Inl\<close> is an answer of the whole function.\<close>

definition entry_named :: "u8 list \<Rightarrow> nat \<Rightarrow> u8 list \<Rightarrow> nat \<Rightarrow> bool option" where
  "entry_named b p nm len =
     do { nl \<leftarrow> de_name_len b p;
          if len = nl then do { d \<leftarrow> memcmp b (p + 8) nm 0 len; Some (d = 0) } else Some False }"

function lookup_entries :: "u8 list \<Rightarrow> nat \<Rightarrow> nat \<Rightarrow> u8 list \<Rightarrow> nat \<Rightarrow> ((nat \<times> nat) option + unit) option" where
  "lookup_entries b n pos nm len =
     (if \<not> pos + 8 \<le> n then Some (Inr ())
      else do {
        rec_len \<leftarrow> de_rec_len b pos;
        if rec_len = 0 then Some (Inl None)
        else do {
          ino \<leftarrow> de_inode b pos;
          hit \<leftarrow> (if ino \<noteq> 0 then entry_named b pos nm len else Some False);
          if hit then do { t \<leftarrow> de_file_type b pos; Some (Inl (Some (ino, t))) }
          else lookup_entries b n (pos + rec_len) nm len } })"
  by pat_completeness auto
termination
  by (relation "measure (\<lambda>(b, n, pos, nm, len). n - pos)") auto

declare lookup_entries.simps [simp del]

function lookup_loop :: "ext2_st \<Rightarrow> u8 list \<Rightarrow> nat \<Rightarrow> u8 list \<Rightarrow> u8 list \<Rightarrow> nat \<Rightarrow> (nat \<times> nat) option option" where
  "lookup_loop s dir read_count buf nm len =
     (if \<not> read_count < i_size dir then Some None
      else do {
        (n, b) \<leftarrow> ext2_read_data s dir read_count (min (i_size dir - read_count) 4096) buf 0;
        if n \<le> 0 then Some None
        else do {
          r \<leftarrow> lookup_entries b (nat n) 0 nm len;
          case r of Inl answer \<Rightarrow> Some answer
          | Inr _ \<Rightarrow> lookup_loop s dir (read_count + nat n) b nm len } })"
  by pat_completeness auto
termination
  by (relation "measure (\<lambda>(s, dir, read_count, buf, nm, len). i_size dir - read_count)") auto

declare lookup_loop.simps [simp del]

definition ext2_dir_lookup :: "ext2_st \<Rightarrow> nat \<Rightarrow> u8 list \<Rightarrow> (nat \<times> nat) option option" where
  "ext2_dir_lookup s dir_ino nm =
     do { r \<leftarrow> ext2_read_inode s dir_ino;
          case r of None \<Rightarrow> Some None
          | Some dir \<Rightarrow>
              if \<not> EXT2_S_ISDIR (i_mode dir) then Some None
              else do { len \<leftarrow> strlen nm; lookup_loop s dir 0 (replicate 4096 0) nm len } }"

section \<open>Removing an entry\<close>

text \<open>The walk to the entry: its offset, the offset of the one before, and the loaded block; \<open>None\<close> inside is an error.\<close>

function remove_scan ::
  "ext2_st \<Rightarrow> u8 list \<Rightarrow> nat \<Rightarrow> nat option \<Rightarrow> u8 list \<Rightarrow> u8 list \<Rightarrow> nat \<Rightarrow> (nat \<times> nat option \<times> u8 list) option option" where
  "remove_scan s dir offs prev buf nm len =
     (if \<not> offs < i_size dir then Some None
      else if block_size s = 0 then None
      else do {
        r \<leftarrow> walk_load s dir offs buf;
        case r of None \<Rightarrow> Some None
        | Some b \<Rightarrow> do {
            rec_len \<leftarrow> de_rec_len b (offs mod block_size s);
            if rec_len = 0 then Some None
            else do {
              hit \<leftarrow> entry_named b (offs mod block_size s) nm len;
              if hit then Some (Some (offs, prev, b))
              else if 4294967296 \<le> offs + rec_len then None
              else remove_scan s dir (offs + rec_len) (Some offs) b nm len } } })"
  by pat_completeness auto
termination
  by (relation "measure (\<lambda>(s, dir, offs, prev, buf, nm, len). i_size dir - offs)") auto

declare remove_scan.simps [simp del]

text \<open>Merging the entry at \<open>q\<close> of a block into the one at \<open>p\<close>, and clearing the first entry of a block.\<close>

definition merge_entry :: "u8 list \<Rightarrow> nat \<Rightarrow> nat \<Rightarrow> u8 list option" where
  "merge_entry b p q =
     do { r \<leftarrow> de_rec_len b p; d \<leftarrow> de_rec_len b q; wr_fld 2 b (p + 4) ((r + d) mod 65536) }"

definition remove_at :: "ext2_st \<Rightarrow> nat \<Rightarrow> u8 list \<Rightarrow> nat \<Rightarrow> nat option \<Rightarrow> u8 list \<Rightarrow> (bool \<times> ext2_st) option" where
  "remove_at s dir_ino dir offs prev b =
     do { phys \<leftarrow> ext2_block_lookup s dir (offs div block_size s);
          if phys = 0 then Some (False, s)
          else do {
            del_len \<leftarrow> de_rec_len b (offs mod block_size s);
            b1 \<leftarrow> (case prev of
                      Some p \<Rightarrow> if p div block_size s = offs div block_size s
                                 then merge_entry b (p mod block_size s) (offs mod block_size s)
                                 else wr_fld 4 b (offs mod block_size s) 0
                    | None \<Rightarrow> wr_fld 4 b (offs mod block_size s) 0);
            (n, s1) \<leftarrow> ext2_write_block s phys b1 0 (block_size s);
            if n = 0 then Some (False, s1)
            else if i_size dir \<le> wrap32 (offs + del_len) then do {
              gone \<leftarrow> de_rec_len b1 (offs mod block_size s);
              (w, s2) \<leftarrow> ext2_write_inode s1 dir_ino (set_i_size (wrap32 (i_size dir + 4294967296 - gone)) dir);
              Some (True, s2) }
            else Some (True, s1) } }"

definition ext2_remove_dir_entry :: "ext2_st \<Rightarrow> nat \<Rightarrow> u8 list \<Rightarrow> (bool \<times> ext2_st) option" where
  "ext2_remove_dir_entry s dir_ino nm =
     do { d1 \<leftarrow> strcmp nm dot_name;
          d2 \<leftarrow> (if d1 = 0 then Some 0 else strcmp nm dotdot_name);
          if d1 = 0 \<or> d2 = 0 then Some (False, s)
          else do {
            l \<leftarrow> ext2_dir_lookup s dir_ino nm;
            r \<leftarrow> ext2_read_inode s dir_ino;
            case (l, r) of
              (Some _, Some dir) \<Rightarrow> do {
                len \<leftarrow> strlen nm;
                sc \<leftarrow> remove_scan s dir 0 None (replicate 4096 0) nm len;
                case sc of None \<Rightarrow> Some (False, s)
                | Some (offs, prev, b) \<Rightarrow> remove_at s dir_ino dir offs prev b }
            | _ \<Rightarrow> Some (False, s) } }"

section \<open>Removing files and directories, renaming\<close>

definition set_i_dtime :: "nat \<Rightarrow> u8 list \<Rightarrow> u8 list" where
  "set_i_dtime v i = set_fld 4 i 20 v"

definition ext2_remove_file :: "ext2_st \<Rightarrow> nat \<Rightarrow> u8 list \<Rightarrow> (bool \<times> ext2_st) option" where
  "ext2_remove_file s parent_ino nm =
     do { l \<leftarrow> ext2_dir_lookup s parent_ino nm;
          case l of None \<Rightarrow> Some (False, s)
          | Some (ino, type) \<Rightarrow>
              if type = 2 then Some (False, s)
              else do {
                (ok, s1) \<leftarrow> ext2_remove_dir_entry s parent_ino nm;
                if \<not> ok then Some (False, s1)
                else do {
                  r \<leftarrow> ext2_read_inode s1 ino;
                  case r of None \<Rightarrow> Some (False, s1)
                  | Some i \<Rightarrow> do {
                      (i1, s2) \<leftarrow> ext2_free_inode_blocks s1 (set_i_dtime 0 (set_i_links_count (i_links_count i - 1) i));
                      (w, s3) \<leftarrow> ext2_write_inode s2 ino i1;
                      s4 \<leftarrow> (if i_links_count i1 = 0 then ext2_free_inode s3 ino else Some s3);
                      Some (True, s4) } } } }"

text \<open>Whether a buffer of \<open>n\<close> bytes has only the entries \<open>.\<close> and \<open>..\<close>: \<open>Some False\<close> also for a broken entry.\<close>

definition dot_entry :: "u8 list \<Rightarrow> nat \<Rightarrow> bool option" where
  "dot_entry b p =
     do { nl \<leftarrow> de_name_len b p;
          c \<leftarrow> (if nl = 1 \<or> nl = 2 then rd b (p + 8) else Some 0);
          if nl = 1 \<and> c = 46 then Some True
          else if nl = 2 \<and> c = 46 then do { c1 \<leftarrow> rd b (p + 9); Some (c1 = 46) }
          else Some False }"

function empty_entries :: "u8 list \<Rightarrow> nat \<Rightarrow> nat \<Rightarrow> bool option" where
  "empty_entries b n pos =
     (if \<not> pos + 12 \<le> n then Some True
      else do {
        rec_len \<leftarrow> de_rec_len b pos;
        if rec_len = 0 then Some False
        else do {
          ino \<leftarrow> de_inode b pos;
          dot \<leftarrow> (if ino \<noteq> 0 then dot_entry b pos else Some True);
          if \<not> dot then Some False else empty_entries b n (pos + rec_len) } })"
  by pat_completeness auto
termination
  by (relation "measure (\<lambda>(b, n, pos). n - pos)") auto

declare empty_entries.simps [simp del]

function empty_loop :: "ext2_st \<Rightarrow> u8 list \<Rightarrow> nat \<Rightarrow> u8 list \<Rightarrow> bool option" where
  "empty_loop s dir read_count buf =
     (if \<not> read_count < i_size dir then Some True
      else do {
        (n, b) \<leftarrow> ext2_read_data s dir read_count (min (i_size dir - read_count) 4096) buf 0;
        if n \<le> 0 then Some True
        else do {
          e \<leftarrow> empty_entries b (nat n) 0;
          if \<not> e then Some False else empty_loop s dir (read_count + nat n) b } })"
  by pat_completeness auto
termination
  by (relation "measure (\<lambda>(s, dir, read_count, buf). i_size dir - read_count)") auto

declare empty_loop.simps [simp del]

definition ext2_remove_dir :: "ext2_st \<Rightarrow> nat \<Rightarrow> u8 list \<Rightarrow> (bool \<times> ext2_st) option" where
  "ext2_remove_dir s parent_ino nm =
     do { l \<leftarrow> ext2_dir_lookup s parent_ino nm;
          case l of None \<Rightarrow> Some (False, s)
          | Some (ino, type) \<Rightarrow>
              if type \<noteq> 2 then Some (False, s)
              else do {
                r \<leftarrow> ext2_read_inode s ino;
                case r of None \<Rightarrow> Some (False, s)
                | Some i \<Rightarrow>
                    if \<not> EXT2_S_ISDIR (i_mode i) then Some (False, s)
                    else do {
                      e \<leftarrow> empty_loop s i 0 (replicate 4096 0);
                      if \<not> e then Some (False, s)
                      else do {
                        (ok, s1) \<leftarrow> ext2_remove_dir_entry s parent_ino nm;
                        if \<not> ok then Some (False, s1)
                        else do {
                          s2 \<leftarrow> ext2_link (\<lambda>n. n - 1) s1 parent_ino;
                          (i1, s3) \<leftarrow> ext2_free_inode_blocks s2 (set_i_dtime 0 (set_i_links_count 0 i));
                          (w, s4) \<leftarrow> ext2_write_inode s3 ino i1;
                          s5 \<leftarrow> ext2_free_inode s4 ino;
                          Some (True, s5) } } } } }"

text \<open>Pointing the \<open>..\<close> entry of a moved directory to its new parent.\<close>

definition rename_dotdot :: "ext2_st \<Rightarrow> nat \<Rightarrow> nat \<Rightarrow> ext2_st option" where
  "rename_dotdot s ino new_parent_ino =
     do { r \<leftarrow> ext2_read_inode s ino;
          case r of None \<Rightarrow> Some s
          | Some d \<Rightarrow>
              if i_size d < 12 then Some s
              else do {
                phys \<leftarrow> ext2_block_lookup s d 0;
                if phys = 0 then Some s
                else do {
                  (n, b) \<leftarrow> ext2_read_block s phys (replicate 4096 0) 0 (block_size s);
                  if n = 0 then Some s
                  else do {
                    b1 \<leftarrow> wr_fld 4 b 12 new_parent_ino;
                    (m, s1) \<leftarrow> ext2_write_block s phys b1 0 (block_size s);
                    Some s1 } } } }"

definition rename_move :: "ext2_st \<Rightarrow> nat \<Rightarrow> nat \<Rightarrow> nat \<Rightarrow> ext2_st option" where
  "rename_move s ino old_parent_ino new_parent_ino =
     do { s1 \<leftarrow> ext2_link (\<lambda>n. n - 1) s old_parent_ino;
          s2 \<leftarrow> ext2_link (\<lambda>n. (n + 1) mod 65536) s1 new_parent_ino;
          rename_dotdot s2 ino new_parent_ino }"

definition ext2_rename :: "ext2_st \<Rightarrow> nat \<Rightarrow> u8 list \<Rightarrow> nat \<Rightarrow> u8 list \<Rightarrow> (bool \<times> ext2_st) option" where
  "ext2_rename s old_parent_ino old_name new_parent_ino new_name =
     do { c1 \<leftarrow> rd old_name 0;
          c2 \<leftarrow> rd new_name 0;
          if c1 = 0 \<or> c2 = 0 then Some (False, s)
          else do {
            d1 \<leftarrow> strcmp new_name dot_name;
            d2 \<leftarrow> (if d1 = 0 then Some 0 else strcmp new_name dotdot_name);
            if d1 = 0 \<or> d2 = 0 then Some (False, s)
            else do {
              same \<leftarrow> (if old_parent_ino = new_parent_ino then strcmp old_name new_name else Some 1);
              if same = 0 then Some (True, s)
              else do {
                l \<leftarrow> ext2_dir_lookup s old_parent_ino old_name;
                case l of None \<Rightarrow> Some (False, s)
                | Some (ino, type) \<Rightarrow> do {
                    target \<leftarrow> ext2_dir_lookup s new_parent_ino new_name;
                    if target \<noteq> None then Some (False, s)
                    else do {
                      (ok1, s1) \<leftarrow> ext2_add_dir_entry s new_parent_ino new_name ino type;
                      if \<not> ok1 then Some (False, s1)
                      else do {
                        (ok2, s2) \<leftarrow> ext2_remove_dir_entry s1 old_parent_ino old_name;
                        if \<not> ok2 then Some (False, s2)
                        else if type = 2 \<and> old_parent_ino \<noteq> new_parent_ino then do {
                          s3 \<leftarrow> rename_move s2 ino old_parent_ino new_parent_ino;
                          Some (True, s3) }
                        else Some (True, s2) } } } } } } }"

end
