(* ===== verification/Path.thy ===== *)
theory Path
  imports Kstring
begin

text \<open>
  Path handling of the file system commands, from \<open>src/kernel/shell/commands.c\<close>: \<open>strtrim_right\<close>, \<open>canonicalize\<close>,
  \<open>vfs_cmd_resolve\<close> and \<open>vfs_cwd_parent\<close>.  The contents of uninitialised buffers do not matter and are zero.
\<close>

section \<open>Model\<close>

definition VFS_MAX_PATH :: nat where
  "VFS_MAX_PATH = 256"

fun trim_loop :: "u8 list \<Rightarrow> u8 \<Rightarrow> nat \<Rightarrow> u8 list option" where
  "trim_loop s c 0 = Some s"
| "trim_loop s c (Suc len) =
     do { x \<leftarrow> rd s len; if x = c then do { s' \<leftarrow> wr s len 0; trim_loop s' c len } else Some s }"

definition strtrim_right :: "u8 list \<Rightarrow> u8 \<Rightarrow> u8 list option" where
  "strtrim_right s c = do { len \<leftarrow> strlen s; trim_loop s c len }"

text \<open>Reading one component; at most 47 characters of it are kept.\<close>

function canon_comp :: "u8 list \<Rightarrow> nat \<Rightarrow> u8 list \<Rightarrow> nat \<Rightarrow> (nat \<times> u8 list \<times> nat) option" where
  "canon_comp path p cbuf k =
     do { c \<leftarrow> rd path p;
          if c \<noteq> 0 \<and> c \<noteq> 47 then
            (if k < 47 then
               do { c1 \<leftarrow> wr cbuf k c; c2 \<leftarrow> wr c1 (Suc k) 0; canon_comp path (Suc p) c2 (Suc k) }
             else canon_comp path (Suc p) cbuf k)
          else Some (p, cbuf, k) }"
  by pat_completeness auto
termination
  by (relation "measure (\<lambda>(path, p, cbuf, k). length path - p)") (auto dest: rd_SomeD)

declare canon_comp.simps [simp del]

lemma canon_comp_ge: "canon_comp path p cbuf k = Some (q, cbuf1, k') \<Longrightarrow> p \<le> q \<and> q < length path"
proof (induction path p cbuf k rule: canon_comp.induct)
  case (1 path p cbuf k)
  show ?case
  proof (cases "rd path p")
    case (Some c)
    then have p: "p < length path" by (auto dest: rd_SomeD)
    show ?thesis
    proof (cases "c \<noteq> 0 \<and> c \<noteq> 47")
      case True
      then show ?thesis using 1 Some by (fastforce simp: canon_comp.simps [of path p] split: if_splits bind_splits)
    next
      case False
      then show ?thesis using 1 Some p by (auto simp: canon_comp.simps [of path p])
    qed
  qed (use 1 in \<open>simp add: canon_comp.simps [of path p]\<close>)
qed

lemma canon_comp_moves:
  "canon_comp path p cbuf k = Some (q, cbuf1, k') \<Longrightarrow> rd path p = Some c \<Longrightarrow> c \<noteq> 0 \<Longrightarrow> c \<noteq> 47 \<Longrightarrow> p < q"
  by (subst (asm) canon_comp.simps) (auto dest!: canon_comp_ge split: if_splits bind_splits)

lemma canon_step:
  assumes "rd path p = Some c" and "c \<noteq> 0" and "canon_comp path p cbuf k = Some r" and "(q, y) = r" and "(cbuf1, k') = y" and "rd path q = Some d"
  shows "length path - (if d = 47 then Suc q else q) < length path - p"
proof -
  have r: "canon_comp path p cbuf k = Some (q, cbuf1, k')" using assms(3-5) by simp
  have "p < length path" using assms(1) by (auto dest: rd_SomeD)
  moreover have "q = p" if "c = 47" using assms(1) r that by (simp add: canon_comp.simps [of path p])
  then have "p < (if d = 47 then Suc q else q)"
    using canon_comp_ge [OF r] canon_comp_moves [OF r assms(1,2)] assms(1,6) by (cases "c = 47") auto
  ultimately show ?thesis by (rule diff_less_mono2 [rotated])
qed

text \<open>The loop over the components; \<open>parts\<close> are the 32 rows of 48 bytes, \<open>nparts\<close> of them in use.\<close>

function canon_loop :: "u8 list \<Rightarrow> nat \<Rightarrow> u8 list \<Rightarrow> u8 list list \<Rightarrow> nat \<Rightarrow> (u8 list list \<times> nat) option" where
  "canon_loop path p cbuf parts nparts =
     do { c \<leftarrow> rd path p;
          if c = 0 then Some (parts, nparts)
          else do {
            (q, cbuf1, k) \<leftarrow> canon_comp path p cbuf 0;
            d \<leftarrow> rd path q;
            let p' = (if d = 47 then Suc q else q);
            if k = 0 then canon_loop path p' cbuf1 parts nparts
            else do {
              dot \<leftarrow> strcmp cbuf1 [46, 0];
              if dot = 0 then canon_loop path p' cbuf1 parts nparts
              else do {
                dotdot \<leftarrow> strcmp cbuf1 [46, 46, 0];
                if dotdot = 0 then canon_loop path p' cbuf1 parts (if 0 < nparts then nparts - 1 else nparts)
                else if nparts < 32 then
                  do { old \<leftarrow> rd parts nparts;
                       row \<leftarrow> strcpy old cbuf1;
                       canon_loop path p' cbuf1 (parts[nparts := row]) (Suc nparts) }
                else canon_loop path p' cbuf1 parts nparts } } } }"
  by pat_completeness auto
termination
  by (relation "measure (\<lambda>(path, p, cbuf, parts, nparts). length path - p)")
    (simp_all split del: if_split, (erule (5) canon_step)+)

fun canon_build :: "u8 list list \<Rightarrow> nat \<Rightarrow> nat \<Rightarrow> u8 list \<Rightarrow> u8 list option" where
  "canon_build parts i 0 out = Some out"
| "canon_build parts i (Suc n) out =
     do { off \<leftarrow> strlen out;
          part \<leftarrow> rd parts i;
          plen \<leftarrow> strlen part;
          o1 \<leftarrow> memcpy out off part 0 plen;
          o2 \<leftarrow> wr o1 (off + plen) 47;
          o3 \<leftarrow> wr o2 (off + plen + 1) 0;
          canon_build parts (Suc i) n o3 }"

definition canonicalize :: "u8 list \<Rightarrow> u8 list option" where
  "canonicalize path =
     do { c \<leftarrow> rd path 0;
          if c \<noteq> 47 then Some path
          else do {
            (parts, nparts) \<leftarrow> canon_loop path 1 (replicate 64 0) (replicate 32 (replicate 48 0)) 0;
            if nparts = 0 then strcpy path [47, 0]
            else do {
              o1 \<leftarrow> wr (replicate VFS_MAX_PATH 0) 0 47;
              o2 \<leftarrow> wr o1 1 0;
              o3 \<leftarrow> canon_build parts 0 nparts o2;
              o4 \<leftarrow> strtrim_right o3 47;
              d \<leftarrow> rd o4 0;
              o5 \<leftarrow> (if d = 0 then strcpy o4 [47, 0] else Some o4);
              strcpy path o5 } } }"

text \<open>\<open>cwd\<close> is the global \<open>g_cwd\<close>.  The path before it is made canonical:\<close>

definition resolve_join :: "u8 list \<Rightarrow> u8 list \<Rightarrow> u8 list option" where
  "resolve_join cwd path =
     (let buf = replicate VFS_MAX_PATH 0; n = VFS_MAX_PATH - 1 in
      do { c \<leftarrow> rd path 0;
           if c = 47 then do { j \<leftarrow> strncpy buf path n; wr j n 0 }
           else do {
             dot \<leftarrow> strcmp path [46, 0];
             empty \<leftarrow> (if dot = 0 then Some 0 else strcmp path [0]);
             if empty = 0 then do { j \<leftarrow> strncpy buf cwd n; wr j n 0 }
             else do {
               l \<leftarrow> strlen cwd;
               x \<leftarrow> (if l = 0 then None else rd cwd (l - 1));
               (j, k) \<leftarrow> (if x = 47 then snprintf buf VFS_MAX_PATH [37, 115, 37, 115, 0] [VStr cwd, VStr path]
                          else snprintf buf VFS_MAX_PATH [37, 115, 47, 37, 115, 0] [VStr cwd, VStr path]);
               Some j } } })"

definition vfs_cmd_resolve :: "u8 list \<Rightarrow> u8 list option \<Rightarrow> u8 list \<Rightarrow> nat \<Rightarrow> u8 list option" where
  "vfs_cmd_resolve cwd pathp out out_sz =
     (case pathp of
        None \<Rightarrow> Some out
      | Some path \<Rightarrow>
          if out_sz = 0 then Some out
          else do {
            joined \<leftarrow> resolve_join cwd path;
            canon \<leftarrow> canonicalize joined;
            o1 \<leftarrow> strncpy out canon (out_sz - 1);
            wr o1 (out_sz - 1) 0 })"

text \<open>The two loops of \<open>vfs_cwd_parent\<close>: back over slashes, and back over the last component.\<close>

fun back_slashes :: "u8 list \<Rightarrow> nat \<Rightarrow> nat option" where
  "back_slashes cwd 0 = Some 0"
| "back_slashes cwd (Suc l) =
     (if 1 < Suc l then do { c \<leftarrow> rd cwd l; if c = 47 then back_slashes cwd l else Some (Suc l) } else Some (Suc l))"

fun back_name :: "u8 list \<Rightarrow> nat \<Rightarrow> nat option" where
  "back_name cwd 0 = Some 0"
| "back_name cwd (Suc l) =
     (if 1 < Suc l then do { c \<leftarrow> rd cwd l; if c \<noteq> 47 then back_name cwd l else Some (Suc l) } else Some (Suc l))"

definition vfs_cwd_parent :: "u8 list \<Rightarrow> u8 list \<Rightarrow> nat \<Rightarrow> u8 list option" where
  "vfs_cwd_parent cwd out out_sz =
     do { l \<leftarrow> strlen cwd;
          if l \<le> 1 then map_option fst (snprintf out out_sz [47, 0] [])
          else do {
            l1 \<leftarrow> back_slashes cwd l;
            l2 \<leftarrow> back_name cwd l1;
            if l2 \<le> 1 then map_option fst (snprintf out out_sz [47, 0] [])
            else do { o1 \<leftarrow> memcpy out 0 cwd 0 (l2 - 1); wr o1 (l2 - 1) 0 } } }"

section \<open>Components\<close>

lemma canon_comp_spec:
  assumes "terminated (drop p path)" and "length cbuf = 64" and "k \<le> 47" and "0 < k \<Longrightarrow> cbuf ! k = 0" and "0 \<notin> set (take k cbuf)"
    and "w = takeWhile (\<lambda>c. c \<noteq> 47) (cstr (drop p path))"
  shows "\<exists>cbuf1. canon_comp path p cbuf k = Some (p + length w, cbuf1, min 47 (k + length w)) \<and> length cbuf1 = 64 \<and>
    (0 < k + length w \<longrightarrow> terminated cbuf1 \<and> cstr cbuf1 = take 47 (take k cbuf @ w))"
  using assms
proof (induction "length path - p" arbitrary: p cbuf k w rule: less_induct)
  case less
  have p: "p < length path" by (rule terminated_drop_index [OF less.prems(1)])
  show ?case
  proof (cases "path ! p = 0 \<or> path ! p = 47")
    case True
    then have "w = []" using less.prems(6) cstr_drop_zero [OF p] cstr_drop_Cons [OF less.prems(1)] by (cases "path ! p = 0") auto
    moreover have "terminated cbuf \<and> cstr cbuf = take 47 (take k cbuf)" if "0 < k"
    proof -
      have "k < length cbuf" using less.prems(2,3) by simp
      from id_take_nth_drop [OF this] have e: "cbuf = take k cbuf @ 0 # drop (Suc k) cbuf" using less.prems(4) [OF that] by simp
      have "terminated cbuf" "cstr cbuf = take k cbuf"
        by (subst e, rule terminated_append_zero, subst e, rule cstr_append_zero [OF less.prems(5)])
      then show ?thesis using less.prems(3) by simp
    qed
    ultimately show ?thesis using True p less.prems(2,3) by (auto simp: canon_comp.simps [of path p] rd_in)
  next
    case False
    note c = cstr_drop_Cons [OF less.prems(1)]
    let ?w = "takeWhile (\<lambda>c. c \<noteq> 47) (cstr (drop (Suc p) path))"
    have w: "w = path ! p # ?w" "terminated (drop (Suc p) path)" using less.prems(6) c False by auto
    have lt: "length path - Suc p < length path - p" using p by simp
    show ?thesis
    proof (cases "k < 47")
      case True
      let ?b = "cbuf[k := path ! p, Suc k := 0]"
      have t: "take (Suc k) ?b = take k cbuf @ [path ! p]" using True less.prems(2) by (simp add: take_Suc_snoc)
      have "\<exists>cbuf1. canon_comp path (Suc p) ?b (Suc k) = Some (Suc p + length ?w, cbuf1, min 47 (Suc k + length ?w)) \<and> length cbuf1 = 64 \<and>
          (0 < Suc k + length ?w \<longrightarrow> terminated cbuf1 \<and> cstr cbuf1 = take 47 (take (Suc k) ?b @ ?w))"
        using True less.prems(2,5) False t by (intro less.hyps [OF lt w(2)]) auto
      then show ?thesis using True False p less.prems(2) w(1) t by (auto simp: canon_comp.simps [of path p] rd_in wr_in)
    next
      case k: False
      have "\<exists>cbuf1. canon_comp path (Suc p) cbuf k = Some (Suc p + length ?w, cbuf1, min 47 (k + length ?w)) \<and> length cbuf1 = 64 \<and>
          (0 < k + length ?w \<longrightarrow> terminated cbuf1 \<and> cstr cbuf1 = take 47 (take k cbuf @ ?w))"
        by (rule less.hyps [OF lt w(2) less.prems(2-5) refl])
      then show ?thesis using k False p less.prems(2,3) w(1) by (auto simp: canon_comp.simps [of path p] rd_in)
    qed
  qed
qed

section \<open>Normal form\<close>

text \<open>
  The reference: the stack of components, at most 32 of at most 47 characters each, where \<open>.\<close> does nothing and \<open>..\<close> removes
  the last one.
\<close>

definition norm_step :: "u8 list list \<Rightarrow> u8 list \<Rightarrow> u8 list list" where
  "norm_step st c =
     (if c = [46] then st else if c = [46, 46] then butlast st else if length st < 32 then st @ [take 47 c] else st)"

definition norm_path :: "u8 list \<Rightarrow> u8 list list" where
  "norm_path s = foldl norm_step [] (fields 47 s)"

definition render :: "u8 list list \<Rightarrow> u8 list" where
  "render st = (if st = [] then [47] else concat (map ((#) 47) st))"

definition parts_ok :: "u8 list list \<Rightarrow> nat \<Rightarrow> bool" where
  "parts_ok parts n \<longleftrightarrow> length parts = 32 \<and> n \<le> 32 \<and> (\<forall>r \<in> set parts. length r = 48) \<and> (\<forall>i < n. terminated (parts ! i))"

definition parts_stack :: "u8 list list \<Rightarrow> nat \<Rightarrow> u8 list list" where
  "parts_stack parts n = map cstr (take n parts)"

lemma fields_word:
  assumes "w \<noteq> []" and "sep \<notin> set w" and "rest = [] \<or> hd rest = sep"
  shows "fields sep (w @ rest) = w # fields sep rest"
proof -
  obtain y ys where w: "w = y # ys" using assms(1) by (cases w) auto
  have "takeWhile (\<lambda>c. c \<noteq> sep) (ys @ rest) = ys" "dropWhile (\<lambda>c. c \<noteq> sep) (ys @ rest) = rest"
    using assms(2,3) w by (auto simp: takeWhile_append dropWhile_append) (cases rest; auto)+
  then show ?thesis using assms(2) w by (subst fields.simps) auto
qed

lemma take_47_dots: "take 47 w = [46] \<longleftrightarrow> w = [46]" "take 47 w = [46, 46] \<longleftrightarrow> w = [46, 46]"
  by (cases "length w \<le> 47"; auto dest: arg_cong [of _ _ length])+

lemma parts_stack_pop: "n \<le> length parts \<Longrightarrow> parts_stack parts (if 0 < n then n - 1 else n) = butlast (parts_stack parts n)"
  by (cases n) (simp_all add: parts_stack_def butlast_take map_butlast [symmetric])

lemma parts_stack_push:
  "n < length parts \<Longrightarrow> parts_stack (parts[n := r]) (Suc n) = parts_stack parts n @ [cstr r]"
  by (simp add: parts_stack_def take_Suc_snoc)

text \<open>What happens to the parts for one component.\<close>

lemma canon_part:
  assumes "parts_ok parts n" and "terminated cbuf" and "length cbuf = 64" and "cstr cbuf = take 47 w" and "w \<noteq> []"
    and rest: "\<And>parts' n'. parts_ok parts' n' \<Longrightarrow> parts_stack parts' n' = norm_step (parts_stack parts n) w \<Longrightarrow> Q (canon_loop path q cbuf parts' n')"
  shows "Q (do { dot \<leftarrow> strcmp cbuf [46, 0];
              if dot = 0 then canon_loop path q cbuf parts n
              else do {
                dotdot \<leftarrow> strcmp cbuf [46, 46, 0];
                if dotdot = 0 then canon_loop path q cbuf parts (if 0 < n then n - 1 else n)
                else if n < 32 then
                  do { old \<leftarrow> rd parts n; row \<leftarrow> strcpy old cbuf; canon_loop path q cbuf (parts[n := row]) (Suc n) }
                else canon_loop path q cbuf parts n } })"
proof -
  have tc: "terminated [46, 0]" "terminated [46, 46, 0]" "cstr [46, 0] = [46]" "cstr [46, 46, 0] = [46, 46]"
    by (simp_all add: terminated_def cstr_def)
  obtain a b where ab: "strcmp cbuf [46, 0] = Some a" "a = 0 \<longleftrightarrow> w = [46]" "strcmp cbuf [46, 46, 0] = Some b" "b = 0 \<longleftrightarrow> w = [46, 46]"
    using strcmp_eq_0 [OF assms(2) tc(1)] strcmp_eq_0 [OF assms(2) tc(2)] assms(4) tc(3,4) take_47_dots [of w] by auto
  have len: "length (parts_stack parts n) = n" "length parts = 32" "n \<le> 32" using assms(1) by (auto simp: parts_ok_def parts_stack_def)
  consider "w = [46]" | "w = [46, 46]" | "w \<noteq> [46]" "w \<noteq> [46, 46]" "n < 32" | "w \<noteq> [46]" "w \<noteq> [46, 46]" "\<not> n < 32" by blast
  then show ?thesis
  proof cases
    case 1
    then show ?thesis using ab rest [OF assms(1)] by (simp add: norm_step_def)
  next
    case 2
    have "parts_ok parts (if 0 < n then n - 1 else n)" using assms(1) by (auto simp: parts_ok_def)
    from rest [OF this] show ?thesis using 2 ab len parts_stack_pop [of n parts] by (simp add: norm_step_def)
  next
    case 3
    have "length (cstr cbuf) < length (parts ! n)" using assms(1,4) 3(3) by (auto simp: parts_ok_def)
    then have row: "strcpy (parts ! n) cbuf = Some (blit (parts ! n) 0 (take 47 w @ [0]))"
      using strcpy_blit [OF assms(2)] assms(4) by simp
    let ?r = "blit (parts ! n) 0 (take 47 w @ [0])"
    have lr: "length ?r = 48" using assms(1) 3(3) by (simp add: parts_ok_def length_blit)
    have "0 \<notin> set (take 47 w)" using assms(4) cstr_no_zero by metis
    then have r: "terminated ?r" "cstr ?r = take 47 w" by (simp_all add: blit_def)
    have "parts_ok (parts[n := ?r]) (Suc n)"
      using assms(1) lr r(1) 3(3) by (auto simp: parts_ok_def nth_list_update less_Suc_eq dest!: subsetD [OF set_update_subset_insert])
    moreover have "parts_stack (parts[n := ?r]) (Suc n) = norm_step (parts_stack parts n) w"
      using 3 len r(2) parts_stack_push [of n parts ?r] by (simp add: norm_step_def)
    ultimately show ?thesis using ab 3 row len rest by (simp add: rd_in)
  next
    case 4
    then show ?thesis using ab len rest [OF assms(1)] by (simp add: norm_step_def)
  qed
qed

text \<open>Where the loop continues after a component, and the components that are left.\<close>

lemma canon_next:
  assumes "terminated (drop p path)" and "w = takeWhile (\<lambda>c. c \<noteq> 47) (cstr (drop p path))" and "q = p + length w"
    and "p' = (if path ! q = 47 then Suc q else q)"
  shows "q < length path" and "terminated (drop p' path)"
    and "fields 47 (cstr (drop p path)) = (if w = [] then [] else [w]) @ fields 47 (cstr (drop p' path))"
proof -
  let ?c = "cstr (drop p path)"
  have "length w \<le> length ?c" unfolding assms(2) by (rule length_takeWhile_le)
  then have "cstr (drop q path) = drop (length w) ?c \<and> terminated (drop q path)"
    using cstr_drop_suffix [OF assms(1), of "length w"] assms(3) by (simp add: add.commute)
  moreover have "drop (length w) ?c = dropWhile (\<lambda>c. c \<noteq> 47) ?c" unfolding assms(2) by (rule dropWhile_eq_drop [symmetric])
  ultimately have q: "cstr (drop q path) = dropWhile (\<lambda>c. c \<noteq> 47) ?c" "terminated (drop q path)" by simp_all
  show ql: "q < length path" by (rule terminated_drop_index [OF q(2)])
  have r: "cstr (drop q path) = (if path ! q = 47 then 47 # cstr (drop (Suc q) path) else []) \<and> (path ! q = 47 \<longrightarrow> terminated (drop (Suc q) path))"
  proof (cases "path ! q = 0")
    case False
    note c = cstr_drop_Cons [OF q(2) False]
    then have "dropWhile (\<lambda>c. c \<noteq> 47) ?c \<noteq> []" using q(1) by simp
    from hd_dropWhile [OF this] have "path ! q = 47" using c q(1) by simp
    then show ?thesis using c by simp
  qed (use ql in \<open>simp add: cstr_drop_zero\<close>)
  then show "terminated (drop p' path)" using q(2) assms(4) by simp
  have f: "fields 47 (cstr (drop q path)) = fields 47 (cstr (drop p' path))"
    using r assms(4) by (cases "path ! q = 47") (simp_all add: fields_sep_Cons)
  have e: "?c = w @ cstr (drop q path)" using q(1) assms(2) by simp
  have n: "47 \<notin> set w" unfolding assms(2) by (auto dest: set_takeWhileD)
  have h: "cstr (drop q path) = [] \<or> hd (cstr (drop q path)) = 47" using r by simp
  show "fields 47 ?c = (if w = [] then [] else [w]) @ fields 47 (cstr (drop p' path))"
  proof (cases "w = []")
    case True
    then show ?thesis using e f by simp
  next
    case False
    from fields_word [OF False n h] show ?thesis using e f False by simp
  qed
qed

lemma canon_loop_spec:
  assumes "terminated (drop p path)" and "length cbuf = 64" and "parts_ok parts n"
  shows "\<exists>parts' n'. canon_loop path p cbuf parts n = Some (parts', n') \<and> parts_ok parts' n' \<and>
    parts_stack parts' n' = foldl norm_step (parts_stack parts n) (fields 47 (cstr (drop p path)))"
  using assms
proof (induction "length path - p" arbitrary: p cbuf parts n rule: less_induct)
  case less
  have p: "p < length path" by (rule terminated_drop_index [OF less.prems(1)])
  show ?case
  proof (cases "path ! p = 0")
    case True
    then show ?thesis using p less.prems(3) by (simp add: canon_loop.simps [of path p] rd_in cstr_drop_zero)
  next
    case False
    define w where "w = takeWhile (\<lambda>c. c \<noteq> 47) (cstr (drop p path))"
    define q where "q = p + length w"
    define p' where "p' = (if path ! q = 47 then Suc q else q)"
    note nx = canon_next [OF less.prems(1) w_def q_def p'_def]
    obtain cbuf1 where cb: "canon_comp path p cbuf 0 = Some (q, cbuf1, min 47 (length w))" "length cbuf1 = 64"
      "w \<noteq> [] \<Longrightarrow> terminated cbuf1 \<and> cstr cbuf1 = take 47 w"
      using canon_comp_spec [OF less.prems(1,2) _ _ _ w_def, of 0] by (auto simp: q_def)
    have dec: "length path - p' < length path - p"
      using canon_step [OF rd_in [OF p] False cb(1) refl refl rd_in [OF nx(1)]] by (simp add: p'_def)
    note IH = less.hyps [OF dec nx(2) cb(2)]
    have unf: "canon_loop path p cbuf parts n = (if min 47 (length w) = 0 then canon_loop path p' cbuf1 parts n
       else do { dot \<leftarrow> strcmp cbuf1 [46, 0];
              if dot = 0 then canon_loop path p' cbuf1 parts n
              else do {
                dotdot \<leftarrow> strcmp cbuf1 [46, 46, 0];
                if dotdot = 0 then canon_loop path p' cbuf1 parts (if 0 < n then n - 1 else n)
                else if n < 32 then
                  do { old \<leftarrow> rd parts n; row \<leftarrow> strcpy old cbuf1; canon_loop path p' cbuf1 (parts[n := row]) (Suc n) }
                else canon_loop path p' cbuf1 parts n } })"
      unfolding canon_loop.simps [of path p] rd_in [OF p] bind.simps cb(1) prod.case rd_in [OF nx(1)] Let_def p'_def [symmetric] using False by simp
    show ?thesis
    proof (cases "w = []")
      case True
      then show ?thesis unfolding unf nx(3) using IH [OF less.prems(3)] by simp
    next
      case ne: False
      then have m: "(min 47 (length w) = 0) = False" by simp
      show ?thesis unfolding unf nx(3) m if_False
      proof (rule canon_part [OF less.prems(3) _ cb(2) _ ne])
        show "terminated cbuf1" "cstr cbuf1 = take 47 w" using cb(3) [OF ne] by simp_all
        fix ps m
        assume "parts_ok ps m" "parts_stack ps m = norm_step (parts_stack parts n) w"
        then show "\<exists>parts' n'. canon_loop path p' cbuf1 ps m = Some (parts', n') \<and> parts_ok parts' n' \<and>
            parts_stack parts' n' = foldl norm_step (parts_stack parts n) ((if w = [] then [] else [w]) @ fields 47 (cstr (drop p' path)))"
          using IH [of ps m] ne by simp
      qed
    qed
  qed
qed

section \<open>Putting the path together\<close>

text \<open>A buffer that holds a string.\<close>

definition holds :: "u8 list \<Rightarrow> u8 list \<Rightarrow> bool" where
  "holds b s \<longleftrightarrow> length s < length b \<and> take (length s) b = s \<and> b ! length s = 0 \<and> 0 \<notin> set s"

lemma holds_cstr: "holds b s \<Longrightarrow> terminated b \<and> cstr b = s"
proof -
  assume h: "holds b s"
  then have e: "b = s @ 0 # drop (Suc (length s)) b" unfolding holds_def by (metis id_take_nth_drop)
  then have "terminated b" by (metis terminated_append_zero)
  moreover have "cstr b = s" using e h unfolding holds_def by (metis cstr_append_zero)
  ultimately show ?thesis by simp
qed

lemma holds_blit: "0 \<notin> set s \<Longrightarrow> length s < length b \<Longrightarrow> holds (blit b 0 (s @ [0])) s"
  by (simp add: holds_def blit_def)

text \<open>Appending a part and a slash.\<close>

lemma append_part:
  assumes "holds out s" and "terminated part" and "length s + length (cstr part) + 1 < length out"
  shows "\<exists>o1 o2 o3. memcpy out (length s) part 0 (length (cstr part)) = Some o1 \<and> wr o1 (length s + length (cstr part)) 47 = Some o2 \<and>
    wr o2 (length s + length (cstr part) + 1) 0 = Some o3 \<and> holds o3 (s @ cstr part @ [47]) \<and> length o3 = length out"
proof -
  let ?c = "cstr part" and ?o = "\<lambda>x. blit out (length s) x"
  have b: "length s < length out" "take (length s) out = s" "0 \<notin> set s" using assms(1) by (auto simp: holds_def)
  have l: "length ?c \<le> length part" using cstr_length [OF assms(2)] by simp
  have m: "memcpy out (length s) part 0 (length ?c) = Some (?o ?c)" using assms(3) l cstr_take [of part] by (simp add: memcpy_blit)
  have w1: "wr (?o ?c) (length s + length ?c) 47 = Some (?o (?c @ [47]))"
    using blit_snoc [of "length s" ?c out 47] assms(3) by (simp add: wr_def length_blit)
  have w2: "wr (?o (?c @ [47])) (length s + length ?c + 1) 0 = Some (?o ((?c @ [47]) @ [0]))"
    using blit_snoc [of "length s" "?c @ [47]" out 0] assms(3) by (simp add: wr_def length_blit)
  have "?o ((?c @ [47]) @ [0]) = blit out 0 ((s @ ?c @ [47]) @ [0])" using b(2) by (simp add: blit_def add.assoc)
  then have "holds (?o ((?c @ [47]) @ [0])) (s @ ?c @ [47])"
    using holds_blit [of "s @ ?c @ [47]" out] b(3) cstr_no_zero [of part] assms(3) by simp
  moreover have "length (?o ((?c @ [47]) @ [0])) = length out" using assms(3) by (simp add: length_blit)
  ultimately show ?thesis using m w1 w2 by blast
qed

definition with_slashes :: "u8 list list \<Rightarrow> u8 list" where
  "with_slashes st = concat (map (\<lambda>c. c @ [47]) st)"

lemma with_slashes_simps [simp]: "with_slashes [] = []" "with_slashes (c # cs) = c @ [47] @ with_slashes cs"
  by (simp_all add: with_slashes_def)

lemma canon_build_spec:
  assumes "\<forall>j < n. terminated (parts ! (i + j))" and "i + n \<le> length parts" and "holds out s"
  shows "if length s + length (with_slashes (map cstr (take n (drop i parts)))) < length out
    then \<exists>out'. canon_build parts i n out = Some out' \<and> holds out' (s @ with_slashes (map cstr (take n (drop i parts)))) \<and> length out' = length out
    else canon_build parts i n out = None"
  using assms
proof (induction n arbitrary: i out s)
  case 0
  then show ?case by (simp add: holds_def)
next
  case (Suc n)
  let ?p = "parts ! i" and ?r = "with_slashes (map cstr (take n (drop (Suc i) parts)))"
  have p: "terminated ?p" "i < length parts" using Suc.prems(1,2) by (auto dest: spec [of _ 0])
  have t: "take (Suc n) (drop i parts) = ?p # take n (drop (Suc i) parts)" using p(2) by (simp add: Cons_nth_drop_Suc [symmetric])
  have sl: "strlen out = Some (length s)" using strlen_cstr holds_cstr [OF Suc.prems(3)] by simp
  have pl: "strlen ?p = Some (length (cstr ?p))" by (rule strlen_cstr [OF p(1)])
  show ?case
  proof (cases "length s + length (cstr ?p) + 1 < length out")
    case True
    obtain o1 o2 o3 where o: "memcpy out (length s) ?p 0 (length (cstr ?p)) = Some o1" "wr o1 (length s + length (cstr ?p)) 47 = Some o2"
      "wr o2 (length s + length (cstr ?p) + 1) 0 = Some o3" "holds o3 (s @ cstr ?p @ [47])" "length o3 = length out"
      using append_part [OF Suc.prems(3) p(1) True] by blast
    have u: "canon_build parts i (Suc n) out = canon_build parts (Suc i) n o3" using sl pl p(2) o(1-3) by (simp add: rd_in)
    have a: "\<forall>j < n. terminated (parts ! (Suc i + j))" using Suc.prems(1) by (metis Suc_less_eq add_Suc_right add_Suc)
    note ih = Suc.IH [OF a _ o(4)]
    show ?thesis unfolding u t using ih Suc.prems(2) o(5) by (auto simp: add.assoc split: if_splits)
  next
    case False
    have "canon_build parts i (Suc n) out = None"
    proof (cases "memcpy out (length s) ?p 0 (length (cstr ?p))")
      case (Some o1)
      then have "length o1 = length out"
        using memcpy_length by blast
      then show ?thesis using False sl pl p(2) Some by (auto simp: rd_in wr_def)
    qed (use sl pl p(2) in \<open>simp add: rd_in\<close>)
    then show ?thesis unfolding t using False by simp
  qed
qed

lemma trim_loop_one:
  assumes "holds b (s @ [c])" and "s \<noteq> []" and "last s \<noteq> c"
  shows "\<exists>b'. strtrim_right b c = Some b' \<and> holds b' s \<and> length b' = length b"
proof -
  have l: "strlen b = Some (Suc (length s))" using strlen_cstr holds_cstr [OF assms(1)] by simp
  have b: "Suc (length s) < length b" "take (Suc (length s)) b = s @ [c]" "0 \<notin> set s" using assms(1) by (auto simp: holds_def)
  have c: "b ! length s = c" using b(1,2) by (metis lessI nth_append_length nth_take)
  have s: "take (length s) b = s" using b(1,2) by (metis append_eq_conv_conj append_take_drop_id le_SucI length_take min.absorb2 nat_less_le order_refl take_all take_append take_take)
  let ?b = "b[length s := 0]"
  have h: "holds ?b s" using b s by (simp add: holds_def)
  obtain k where k: "length s = Suc k" using assms(2) by (cases s) auto
  have "?b ! k = last s" using s k b(1) assms(2) by (metis diff_Suc_1 last_conv_nth lessI nth_list_update_neq nth_take n_not_Suc_n)
  then have "trim_loop ?b c (length s) = Some ?b" using k b(1) assms(3) by (simp add: rd_in)
  then show ?thesis using l c b(1) h by (simp add: strtrim_right_def rd_in wr_in)
qed

lemma render_slashes: "st \<noteq> [] \<Longrightarrow> 47 # with_slashes st = render st @ [47]"
proof -
  have "47 # with_slashes st = concat (map ((#) 47) st) @ [47]" by (induction st) simp_all
  then show "st \<noteq> [] \<Longrightarrow> ?thesis" by (simp add: render_def)
qed

lemma fields_words: "c \<in> set (fields sep xs) \<Longrightarrow> c \<noteq> [] \<and> sep \<notin> set c \<and> set c \<subseteq> set xs"
proof (induction sep xs rule: fields.induct)
  case (1 sep xs)
  show ?case
  proof (cases "dropWhile (\<lambda>c. c = sep) xs")
    case Nil
    have "fields sep xs = []" unfolding fields.simps [of sep xs] Nil by simp
    then show ?thesis using "1.prems" by simp
  next
    case (Cons y ys)
    have y: "y \<noteq> sep" using hd_dropWhile [of "\<lambda>c. c = sep" xs] Cons by simp
    have sub: "insert y (set ys) \<subseteq> set xs" using Cons by (metis list.simps(15) set_dropWhileD subsetI)
    have f: "fields sep xs = (y # takeWhile (\<lambda>c. c \<noteq> sep) ys) # fields sep (dropWhile (\<lambda>c. c \<noteq> sep) ys)"
      using Cons by (simp add: fields.simps [of sep xs])
    from "1.prems" consider "c = y # takeWhile (\<lambda>c. c \<noteq> sep) ys" | "c \<in> set (fields sep (dropWhile (\<lambda>c. c \<noteq> sep) ys))" unfolding f by auto
    then show ?thesis
    proof cases
      case 1
      then show ?thesis using y sub by (auto dest: set_takeWhileD)
    next
      case 2
      from "1.IH" [OF Cons 2] show ?thesis using sub by (auto dest!: set_dropWhileD subsetD)
    qed
  qed
qed

text \<open>A component of a normal path.\<close>

definition plain :: "u8 list \<Rightarrow> bool" where
  "plain c \<longleftrightarrow> c \<noteq> [] \<and> 47 \<notin> set c \<and> 0 \<notin> set c \<and> c \<noteq> [46] \<and> c \<noteq> [46, 46]"

lemma plain_take:
  assumes "c \<noteq> []" and "47 \<notin> set c" and "0 \<notin> set c" and "c \<noteq> [46]" and "c \<noteq> [46, 46]"
  shows "plain (take 47 c)"
proof -
  have "set (take 47 c) \<subseteq> set c" by (rule set_take_subset)
  then show ?thesis unfolding plain_def take_47_dots using assms by auto
qed

lemma norm_steps_plain:
  assumes "\<forall>c \<in> set cs. c \<noteq> [] \<and> 47 \<notin> set c \<and> 0 \<notin> set c" and "\<forall>c \<in> set st. plain c"
  shows "\<forall>c \<in> set (foldl norm_step st cs). plain c"
  using assms
proof (induction cs arbitrary: st)
  case (Cons c cs)
  have c: "c \<noteq> []" "47 \<notin> set c" "0 \<notin> set c" using Cons.prems(1) by simp_all
  have "\<forall>d \<in> set (norm_step st c). plain d"
    using Cons.prems(2) plain_take [OF c] unfolding norm_step_def by (auto dest: in_set_butlastD)
  then show ?case using Cons.IH Cons.prems(1) by simp
qed simp

lemma norm_path_plain:
  assumes "0 \<notin> set s"
  shows "\<forall>c \<in> set (norm_path s). plain c"
proof -
  have "\<forall>c \<in> set (fields 47 s). c \<noteq> [] \<and> 47 \<notin> set c \<and> 0 \<notin> set c" using fields_words [of _ 47 s] assms by blast
  then show ?thesis unfolding norm_path_def by (rule norm_steps_plain) simp
qed

text \<open>The normal form is no longer than the path, with a slash after every component.\<close>

lemma norm_steps_length:
  "length (with_slashes (foldl norm_step st cs)) \<le> length (with_slashes st) + length (with_slashes cs)"
proof (induction cs arbitrary: st)
  case (Cons c cs)
  have b: "length (with_slashes (butlast st)) \<le> length (with_slashes st)"
    by (cases st rule: rev_cases) (simp_all add: with_slashes_def)
  have "length (with_slashes (norm_step st c)) \<le> length (with_slashes st) + Suc (length c)"
    using b by (auto simp: norm_step_def with_slashes_def)
  then show ?case using Cons.IH [of "norm_step st c"] by simp
qed simp

lemma fields_length:
  "length (with_slashes (fields sep xs)) \<le> (if xs = [] \<or> hd xs = sep then length xs else Suc (length xs))"
proof (induction sep xs rule: fields.induct)
  case (1 sep xs)
  show ?case
  proof (cases "dropWhile (\<lambda>c. c = sep) xs")
    case Nil
    have "fields sep xs = []" unfolding fields.simps [of sep xs] Nil by simp
    then show ?thesis by simp
  next
    case (Cons y ys)
    let ?r = "dropWhile (\<lambda>c. c \<noteq> sep) ys"
    have f: "fields sep xs = (y # takeWhile (\<lambda>c. c \<noteq> sep) ys) # fields sep ?r"
      using Cons by (simp add: fields.simps [of sep xs])
    have l: "length (takeWhile (\<lambda>c. c \<noteq> sep) ys) + length ?r = length ys"
      by (metis length_append takeWhile_dropWhile_id)
    have "?r = [] \<or> hd ?r = sep" using hd_dropWhile [of "\<lambda>c. c \<noteq> sep" ys] by blast
    from "1.IH" [OF Cons, unfolded if_P [OF this]] have "length (with_slashes (fields sep ?r)) \<le> length ?r" .
    then have "length (with_slashes (fields sep xs)) \<le> Suc (Suc (length ys))" unfolding f using l by simp
    moreover have "Suc (length ys) \<le> length xs" using length_dropWhile_le [of "\<lambda>c. c = sep" xs] Cons by simp
    moreover have "Suc (length ys) < length xs" if h: "xs \<noteq> []" "hd xs = sep"
    proof -
      obtain zs where "xs = sep # zs" using h by (cases xs) auto
      then show ?thesis using length_dropWhile_le [of "\<lambda>c. c = sep" zs] Cons by simp
    qed
    moreover have "xs \<noteq> []" using Cons by auto
    ultimately show ?thesis by (cases "hd xs = sep") (simp_all add: le_trans)
  qed
qed

lemma norm_path_length:
  assumes "s \<noteq> []" and "hd s = 47"
  shows "length (with_slashes (norm_path s)) \<le> length s"
  using norm_steps_length [of "[]" "fields 47 s"] fields_length [of 47 s] assms by (simp add: norm_path_def)

lemma canonicalize_spec:
  assumes "length path = 256" and "terminated path" and "path ! 0 = 47" and "st = norm_path (cstr path)"
  shows "if 1 + length (with_slashes st) < 256 then \<exists>path'. canonicalize path = Some path' \<and> holds path' (render st) \<and> length path' = 256
    else canonicalize path = None"
proof -
  have "cstr path = 47 # cstr (drop 1 path) \<and> terminated (drop 1 path)" using cstr_drop_Cons [of 0 path] assms(2,3) by simp
  then have c: "cstr path = 47 # cstr (drop 1 path)" "terminated (drop 1 path)" by simp_all
  have ok: "parts_ok (replicate 32 (replicate 48 0)) 0" by (simp add: parts_ok_def)
  obtain parts n where p: "canon_loop path 1 (replicate 64 0) (replicate 32 (replicate 48 0)) 0 = Some (parts, n)" "parts_ok parts n"
    "parts_stack parts n = foldl norm_step (parts_stack (replicate 32 (replicate 48 0)) 0) (fields 47 (cstr (drop 1 path)))"
    using canon_loop_spec [OF c(2) _ ok, of "replicate 64 0"] by auto
  have st: "parts_stack parts n = st" using p(3) assms(4) c(1) by (simp add: parts_stack_def norm_path_def fields_sep_Cons)
  have len: "length st = n" "n \<le> 32" "length parts = 32" using st p(2) by (auto simp: parts_stack_def parts_ok_def)
  have plain: "\<forall>c \<in> set st. plain c" unfolding assms(4) by (rule norm_path_plain [OF cstr_no_zero])
  have c0: "rd path 0 = Some 47" using assms(1,3) by (simp add: rd_in)
  show ?thesis
  proof (cases "n = 0")
    case True
    then have "st = []" using len by simp
    moreover have "strcpy path [47, 0] = Some (blit path 0 ([47] @ [0]))"
      using strcpy_blit [of "[47, 0]" path] assms(1) by (simp add: terminated_def cstr_def)
    moreover have "holds (blit path 0 ([47] @ [0])) [47]" using assms(1) by (intro holds_blit) auto
    ultimately show ?thesis using True p(1) c0 assms(1) by (simp add: canonicalize_def render_def length_blit)
  next
    case False
    then have ne: "st \<noteq> []" using len by auto
    let ?o = "(replicate 256 0 :: u8 list)[0 := 47, 1 := 0]"
    have o2: "wr (replicate VFS_MAX_PATH 0) 0 47 = Some ((replicate 256 0)[0 := 47])" "wr ((replicate 256 0 :: u8 list)[0 := 47]) 1 0 = Some ?o"
      by (simp_all add: VFS_MAX_PATH_def wr_def)
    have h: "holds ?o [47]" by (simp add: holds_def take_Suc_conv_app_nth)
    have tp: "\<forall>j < n. terminated (parts ! (0 + j))" using p(2) by (simp add: parts_ok_def)
    note b = canon_build_spec [OF tp _ h]
    have take: "map cstr (take n (drop 0 parts)) = st" using st by (simp add: parts_stack_def)
    have hd: "canonicalize path = do { o3 \<leftarrow> canon_build parts 0 n ?o; o4 \<leftarrow> strtrim_right o3 47; d \<leftarrow> rd o4 0;
        o5 \<leftarrow> (if d = 0 then strcpy o4 [47, 0] else Some o4); strcpy path o5 }"
      unfolding canonicalize_def c0 bind.simps p(1) prod.case o2 using False by simp
    show ?thesis
    proof (cases "1 + length (with_slashes st) < 256")
      case True
      then obtain out where out: "canon_build parts 0 n ?o = Some out" "holds out (render st @ [47])" "length out = 256"
        using b len take render_slashes [OF ne] by auto
      have rn: "render st \<noteq> []" "hd (render st) = 47" "0 \<notin> set (render st)" using ne plain by (auto simp: render_def plain_def hd_concat hd_map)
      have "render (butlast st @ [last st]) = concat (map ((#) 47) (butlast st)) @ 47 # last st" by (simp add: render_def)
      moreover have "plain (last st)" using plain ne by simp
      ultimately have "last (render st) = last (last st)" using ne by (simp add: plain_def)
      moreover have "plain (last st)" using plain ne by simp
      ultimately have "last (render st) \<noteq> 47" unfolding plain_def by (metis last_in_set)
      then obtain o4 where o4: "strtrim_right out 47 = Some o4" "holds o4 (render st)" "length o4 = 256"
        using trim_loop_one [OF out(2) rn(1)] out(3) by auto
      have "o4 ! 0 = 47" using o4(2) rn(1,2) by (metis hd_conv_nth holds_def length_greater_0_conv nth_take)
      then have r: "rd o4 0 = Some 47" using o4(3) by (simp add: rd_in)
      have l: "length (render st) < 256" using o4(2,3) by (simp add: holds_def)
      have "strcpy path o4 = Some (blit path 0 (render st @ [0]))"
        using strcpy_blit [of o4 path] holds_cstr [OF o4(2)] l assms(1) by simp
      moreover have "holds (blit path 0 (render st @ [0])) (render st)" using rn(3) l assms(1) by (intro holds_blit) auto
      ultimately show ?thesis unfolding hd using True out(1) o4(1) r l assms(1) by (simp add: length_blit)
    next
      case f: False
      then have "canon_build parts 0 n ?o = None" using b len take by auto
      then show ?thesis unfolding hd using f by simp
    qed
  qed
qed

text \<open>A path that is canonical is its own normal form.\<close>

lemma fields_joined: "\<forall>c \<in> set cs. c \<noteq> [] \<and> 47 \<notin> set c \<Longrightarrow> fields 47 (concat (map ((#) 47) cs)) = cs"
proof (induction cs)
  case (Cons c cs)
  have "concat (map ((#) 47) cs) = [] \<or> hd (concat (map ((#) 47) cs)) = 47" by (cases cs) simp_all
  then show ?case using Cons fields_word [of c 47 "concat (map ((#) 47) cs)"] by (simp add: fields_sep_Cons)
qed simp

lemma norm_steps_id:
  "\<forall>c \<in> set cs. plain c \<and> length c \<le> 47 \<Longrightarrow> length st + length cs \<le> 32 \<Longrightarrow> foldl norm_step st cs = st @ cs"
proof (induction cs arbitrary: st)
  case (Cons c cs)
  have "norm_step st c = st @ [c]" using Cons.prems by (simp add: norm_step_def plain_def)
  then show ?case using Cons by simp
qed simp

lemma norm_path_render:
  assumes "\<forall>c \<in> set cs. plain c \<and> length c \<le> 47" and "length cs \<le> 32"
  shows "norm_path (render cs) = cs"
proof (cases "cs = []")
  case False
  then show ?thesis using fields_joined [of cs] norm_steps_id [of cs "[]"] assms by (simp add: norm_path_def render_def plain_def)
qed (simp add: norm_path_def render_def fields_sep_Cons)

section \<open>Resolving a path\<close>

text \<open>The path that is made canonical: absolute paths as they are, others after the working directory.\<close>

definition full_path :: "u8 list \<Rightarrow> u8 list \<Rightarrow> u8 list" where
  "full_path cwd s =
     (if s \<noteq> [] \<and> hd s = 47 then s else if s = [] \<or> s = [46] then cwd else if last cwd = 47 then cwd @ s else cwd @ 47 # s)"

lemma strncpy_clip:
  assumes "terminated src" and "n < length dst"
  shows "\<exists>j. strncpy dst src n = Some j \<and>
    wr j n 0 = Some (blit dst 0 (take n (cstr src) @ replicate (Suc n - length (take n (cstr src))) 0))"
proof -
  let ?x = "take n (cstr src) @ replicate (n - length (cstr src)) 0"
  have "strncpy dst src n = Some (blit dst 0 ?x)" using strncpy_blit [OF assms(1), of n dst] assms(2) by simp
  moreover have "length ?x = n" by simp
  then have "wr (blit dst 0 ?x) n 0 = Some (blit dst 0 (?x @ [0]))"
    using blit_snoc [of 0 ?x dst 0] length_blit [of 0 ?x dst] assms(2) unfolding wr_def by (simp only: add_0) simp
  moreover have "?x @ [0] = take n (cstr src) @ replicate (Suc n - length (take n (cstr src))) 0"
    by (simp add: Suc_diff_le replicate_append_same)
  ultimately show ?thesis by simp
qed

lemma blit_padded_holds:
  assumes "0 \<notin> set s" and "length s < m" and "m \<le> length b"
  shows "holds (blit b 0 (s @ replicate (m - length s) 0)) s"
  using assms by (simp add: holds_def blit_def nth_append)

lemma strncpy_cut:
  assumes "holds src s" and "0 < n" and "n \<le> length dst"
  shows "\<exists>o1 dst'. strncpy dst src (n - 1) = Some o1 \<and> wr o1 (n - 1) 0 = Some dst' \<and> terminated dst' \<and> cstr dst' = take (n - 1) s"
proof -
  have c: "terminated src" "cstr src = s" "0 \<notin> set s" using holds_cstr [OF assms(1)] assms(1) by (auto simp: holds_def)
  let ?x = "take (n - 1) s @ replicate (n - 1 - length s) 0"
  have "strncpy dst src (n - 1) = Some (blit dst 0 ?x)" using strncpy_blit [OF c(1), of "n - 1" dst] c(2) assms(3) by simp
  moreover have "length ?x = n - 1" by simp
  then have "wr (blit dst 0 ?x) (n - 1) 0 = Some (blit dst 0 (?x @ [0]))"
    using blit_snoc [of 0 ?x dst 0] length_blit [of 0 ?x dst] assms(2,3) unfolding wr_def by (simp only: add_0) simp
  moreover have "\<exists>ys. ?x @ [0] = take (n - 1) s @ 0 # ys"
    by (cases "n - 1 - length s") auto
  then obtain ys where "blit dst 0 (?x @ [0]) = take (n - 1) s @ 0 # ys @ drop (length (?x @ [0])) dst" by (auto simp: blit_def)
  moreover have "0 \<notin> set (take (n - 1) s)" using c(3) by (auto dest: in_set_takeD)
  ultimately show ?thesis by simp
qed

lemma resolve_join_holds:
  assumes "terminated path" and "terminated cwd" and "cstr cwd \<noteq> []"
  shows "\<exists>joined. resolve_join cwd path = Some joined \<and> holds joined (take 255 (full_path (cstr cwd) (cstr path))) \<and> length joined = 256"
proof -
  let ?p = "cstr path" and ?w = "cstr cwd" and ?z = "replicate 256 0 :: u8 list"
  have len: "0 < length path" using assms(1) by (cases path) (auto simp: terminated_def)
  have c: "rd path 0 = Some (path ! 0)" using len by (simp add: rd_in)
  note def = resolve_join_def VFS_MAX_PATH_def Let_def
  have p0: "path ! 0 = 47 \<longleftrightarrow> ?p \<noteq> [] \<and> hd ?p = 47" using len by (cases path) (auto simp: cstr_def)
  have copy: "\<exists>j. do { j \<leftarrow> strncpy ?z src 255; wr j 255 0 } = Some j \<and> holds j (take 255 (cstr src)) \<and> length j = 256"
    if src: "terminated src" for src
  proof -
    let ?s = "take 255 (cstr src)"
    obtain j where j: "strncpy ?z src 255 = Some j" "wr j 255 0 = Some (blit ?z 0 (?s @ replicate (Suc 255 - length ?s) 0))"
      using strncpy_clip [OF src, of 255 ?z] by auto
    have "holds (blit ?z 0 (?s @ replicate (256 - length ?s) 0)) ?s"
      using cstr_no_zero [of src] by (intro blit_padded_holds) (auto dest: in_set_takeD)
    then show ?thesis using j by (simp add: length_blit)
  qed
  consider "path ! 0 = 47" | "path ! 0 \<noteq> 47" "?p = [] \<or> ?p = [46]" | "path ! 0 \<noteq> 47" "?p \<noteq> []" "?p \<noteq> [46]" by blast
  then show ?thesis
  proof cases
    case 1
    then have "full_path ?w ?p = ?p" using p0 by (simp add: full_path_def)
    then show ?thesis using copy [OF assms(1)] c 1 by (auto simp: def)
  next
    case 2
    have t: "terminated [46, 0]" "terminated [0]" "cstr [46, 0] = [46]" "cstr [0] = []" by (simp_all add: terminated_def cstr_def)
    obtain a b where ab: "strcmp path [46, 0] = Some a" "strcmp path [0] = Some b" "a = 0 \<or> b = 0"
      using strcmp_eq_0 [OF assms(1) t(1)] strcmp_eq_0 [OF assms(1) t(2)] 2(2) t(3,4) by auto
    have "full_path ?w ?p = ?w" using p0 2 by (auto simp: full_path_def)
    then show ?thesis using copy [OF assms(2)] c 2(1) ab by (auto simp: def)
  next
    case 3
    have t: "terminated [46, 0]" "terminated [0]" "cstr [46, 0] = [46]" "cstr [0] = []" by (simp_all add: terminated_def cstr_def)
    obtain a b where ab: "strcmp path [46, 0] = Some a" "strcmp path [0] = Some b" "a \<noteq> 0" "b \<noteq> 0"
      using strcmp_eq_0 [OF assms(1) t(1)] strcmp_eq_0 [OF assms(1) t(2)] 3 t(3,4) by auto
    have l: "strlen cwd = Some (length ?w)" "length ?w \<noteq> 0" using strlen_cstr [OF assms(2)] assms(3) by auto
    have x: "rd cwd (length ?w - 1) = Some (last ?w)"
      using cstr_length [OF assms(2)] assms(3) cstr_nth [of "length ?w - 1" cwd] l(2) by (simp add: rd_in last_conv_nth)
    have f: "full_path ?w ?p = (if last ?w = 47 then ?w @ ?p else ?w @ 47 # ?p)" using p0 3 by (simp add: full_path_def)
    have fo: "fmt_out (cstr [37, 115, 37, 115, 0]) [VStr cwd, VStr path] = Some (?w @ ?p)"
      "fmt_out (cstr [37, 115, 47, 37, 115, 0]) [VStr cwd, VStr path] = Some (?w @ 47 # ?p)"
      using assms(1,2) by (simp_all add: cstr_def [of "[37, 115, 37, 115, 0]"] cstr_def [of "[37, 115, 47, 37, 115, 0]"] fmt_out_cons)
    have tf: "terminated [37, 115, 37, 115, 0]" "terminated [37, 115, 47, 37, 115, 0]" by (simp_all add: terminated_def)
    let ?f = "full_path ?w ?p"
    have "(if last ?w = 47 then snprintf ?z 256 [37, 115, 37, 115, 0] [VStr cwd, VStr path]
        else snprintf ?z 256 [37, 115, 47, 37, 115, 0] [VStr cwd, VStr path]) = Some (blit ?z 0 (clip 256 ?f @ [0]), length (clip 256 ?f))"
      using snprintf_blit [OF tf(1) _ _ fo(1), of 256 ?z] snprintf_blit [OF tf(2) _ _ fo(2), of 256 ?z] f by simp
    moreover have "clip 256 ?f = take 255 ?f" by (simp add: clip_def)
    moreover have "0 \<notin> set ?f" using f cstr_no_zero [of cwd] cstr_no_zero [of path] by auto
    then have "holds (blit ?z 0 (take 255 ?f @ [0])) (take 255 ?f)" by (intro holds_blit) (auto dest: in_set_takeD)
    moreover have "length (blit ?z 0 (take 255 ?f @ [0])) = 256" by (simp add: length_blit)
    ultimately show ?thesis using c 3(1) ab l x by (auto simp: def)
  qed
qed

section \<open>Properties\<close>



text \<open>
  A canonical path of 255 characters overflows a buffer: \<open>canonicalize\<close> writes a slash after the last component, and
  the terminator behind it falls outside the 256 bytes.
\<close>

theorem canonicalize_overflows:
  assumes "length path = 256" and "terminated path" and "cstr path = render cs" and "cs \<noteq> []" and "length cs \<le> 32"
    and "\<forall>c \<in> set cs. plain c \<and> length c \<le> 47" and "length (render cs) = 255"
  shows "canonicalize path = None"
proof -
  have st: "norm_path (cstr path) = cs"
    using norm_path_render [of cs] assms(3,5,6) by simp
  have "path ! 0 = 47" using assms(2-4) cstr_nth [of 0 path] by (cases cs) (auto simp: render_def)
  moreover have "1 + length (with_slashes cs) = 256"
    using arg_cong [OF render_slashes [OF assms(4)], of length] assms(7) by simp
  ultimately show ?thesis using canonicalize_spec [OF assms(1,2) _ st [symmetric]] by simp
qed

theorem canonicalize_overflows_witness:
  "canonicalize (concat (map ((#) 47) (replicate 5 (replicate 47 97) @ [replicate 14 97])) @ [0]) = None"
proof (rule canonicalize_overflows)
  let ?cs = "replicate 5 (replicate 47 97) @ [replicate 14 97] :: u8 list list" and ?s = "concat (map ((#) 47) (replicate 5 (replicate 47 97) @ [replicate 14 97])) :: u8 list"
  show "length (?s @ [0]) = 256" "terminated (?s @ [0])" by (simp_all add: length_concat sum_list_replicate terminated_def)
  have "0 \<notin> set ?s" by (auto simp: set_replicate_conv_if)
  then have "cstr (?s @ [0]) = ?s" by (rule cstr_append_zero)
  then show "cstr (?s @ [0]) = render ?cs" by (simp add: render_def)
  show "?cs \<noteq> []" "length ?cs \<le> 32" "length (render ?cs) = 255" by (simp_all add: render_def length_concat sum_list_replicate)
  have "(replicate n 97 :: u8 list) \<noteq> [46]" "(replicate n 97 :: u8 list) \<noteq> [46, 46]" for n
    using in_set_replicate [of 46 n "97 :: u8"] by (auto dest: arg_cong [of _ _ set] simp del: in_set_replicate)
  then show "\<forall>c \<in> set ?cs. plain c \<and> length c \<le> 47" by (auto simp: plain_def set_replicate_conv_if)
qed

end
