(* ===== verification/Vfs.thy ===== *)
theory Vfs
  imports Ext2Dir Path
begin

text \<open>
  The virtual file system \<open>src/kernel/fs/vfs.c\<close> and its ext2 driver glue at the end of \<open>src/kernel/fs/ext2.c\<close>.

  \<^item> A node is the C structure; its four operations are either null or the ext2 ones, so a flag for each suffices.
  \<^item> A pointer to a node is a reference: to the heap cell of a mounted root, which \<open>kfree\<close> leaves empty, or to one of the
    eight static nodes \<open>ext2_node_finddir\<close> reuses.
  \<^item> Whether \<open>kmalloc\<close> succeeds is an argument.  Messages are not modelled.
  \<^item> Operations return a code, an integer with the values of \<open>vfs.h\<close>.
\<close>

section \<open>State\<close>

record vfs_node_t =
  node_name :: "u8 list"
  node_length :: nat
  node_flags :: nat
  node_inode :: nat
  node_read :: bool
  node_write :: bool
  node_readdir :: bool
  node_finddir :: bool

definition empty_node :: vfs_node_t where
  "empty_node = \<lparr>node_name = replicate 64 0, node_length = 0, node_flags = 0, node_inode = 0,
     node_read = False, node_write = False, node_readdir = False, node_finddir = False\<rparr>"

datatype node_ref = HeapNode nat | FindNode nat

record vfs_fs_ops_t =
  fs_name :: "u8 list"
  fs_mount :: "ext2_st \<Rightarrow> vfs_node_t \<Rightarrow> (int \<times> vfs_node_t) option"

record vfs_mount_point_t =
  mp_path :: "u8 list"
  mp_root :: "node_ref option"
  mp_fs_type :: nat
  mp_in_use :: bool

record vfs_fd_t =
  fd_node :: "node_ref option"
  fd_pos :: nat
  fd_flags :: nat
  fd_in_use :: bool

record vfs_st =
  ext2_fs :: ext2_st
  vfs_filesystems :: "vfs_fs_ops_t list"
  vfs_mounts :: "vfs_mount_point_t list"
  vfs_files :: "vfs_fd_t list"
  vfs_root :: "node_ref option"
  heap_nodes :: "vfs_node_t option list"
  find_nodes :: "vfs_node_t list"
  find_next :: nat

definition VFS_MAX_FS :: nat where
  "VFS_MAX_FS = 8"

definition VFS_MAX_MOUNTS :: nat where
  "VFS_MAX_MOUNTS = 8"

definition VFS_MAX_OPEN :: nat where
  "VFS_MAX_OPEN = 32"

definition VFS_OK :: int where
  "VFS_OK = 0"

definition VFS_ERR :: int where
  "VFS_ERR = -1"

definition VFS_ERR_NOT_FOUND :: int where
  "VFS_ERR_NOT_FOUND = -2"

definition VFS_ERR_IS_DIR :: int where
  "VFS_ERR_IS_DIR = -3"

definition VFS_ERR_IS_FILE :: int where
  "VFS_ERR_IS_FILE = -4"

definition VFS_ERR_NO_SPACE :: int where
  "VFS_ERR_NO_SPACE = -5"

definition VFS_FT_FILE :: nat where
  "VFS_FT_FILE = 1"

definition VFS_FT_DIR :: nat where
  "VFS_FT_DIR = 2"

definition VFS_O_CREATE :: nat where
  "VFS_O_CREATE = 4"

lemmas vfs_codes = VFS_OK_def VFS_ERR_def VFS_ERR_NOT_FOUND_def VFS_ERR_IS_DIR_def VFS_ERR_IS_FILE_def VFS_ERR_NO_SPACE_def

definition get_node :: "vfs_st \<Rightarrow> node_ref \<Rightarrow> vfs_node_t option" where
  "get_node s r = (case r of HeapNode i \<Rightarrow> do { n \<leftarrow> rd (heap_nodes s) i; n } | FindNode i \<Rightarrow> rd (find_nodes s) i)"

definition set_node :: "vfs_st \<Rightarrow> node_ref \<Rightarrow> vfs_node_t \<Rightarrow> vfs_st" where
  "set_node s r n =
     (case r of HeapNode i \<Rightarrow> s\<lparr>heap_nodes := (heap_nodes s)[i := Some n]\<rparr>
      | FindNode i \<Rightarrow> s\<lparr>find_nodes := (find_nodes s)[i := n]\<rparr>)"

section \<open>Operations of an ext2 node\<close>

definition ext2_node_read :: "ext2_st \<Rightarrow> vfs_node_t \<Rightarrow> nat \<Rightarrow> nat \<Rightarrow> u8 list \<Rightarrow> nat \<Rightarrow> (int \<times> u8 list) option" where
  "ext2_node_read s node offset sz buf p =
     (if \<not> ext2_mounted s then Some (VFS_ERR, buf)
      else do {
        r \<leftarrow> ext2_read_inode s (node_inode node);
        case r of None \<Rightarrow> Some (VFS_ERR, buf) | Some inode \<Rightarrow> ext2_read_data s inode offset sz buf p })"

definition ext2_node_write ::
  "ext2_st \<Rightarrow> vfs_node_t \<Rightarrow> nat \<Rightarrow> nat \<Rightarrow> u8 list \<Rightarrow> nat \<Rightarrow> (int \<times> vfs_node_t \<times> ext2_st) option" where
  "ext2_node_write s node offset sz buf p =
     (if \<not> ext2_mounted s then Some (VFS_ERR, node, s)
      else do {
        r \<leftarrow> ext2_read_inode s (node_inode node);
        case r of None \<Rightarrow> Some (VFS_ERR, node, s)
        | Some inode \<Rightarrow> do {
            (n, inode1, s1) \<leftarrow> ext2_write_data s inode offset sz buf p;
            if 0 < n \<and> i_size inode < wrap32 (offset + nat n) then do {
              let inode2 = set_i_size (wrap32 (offset + nat n)) inode1;
              (ok, s2) \<leftarrow> ext2_write_inode s1 (node_inode node) inode2;
              Some (n, node\<lparr>node_length := i_size inode2\<rparr>, s2) }
            else Some (n, node\<lparr>node_length := i_size inode1\<rparr>, s1) } })"

text \<open>The node of the entry at \<open>pos\<close> of a buffer.\<close>

definition entry_node :: "u8 list \<Rightarrow> nat \<Rightarrow> vfs_node_t option" where
  "entry_node b pos =
     do { nl \<leftarrow> de_name_len b pos;
          nm \<leftarrow> memcpy (replicate 64 0) 0 b (pos + 8) (min nl 63);
          nm1 \<leftarrow> wr nm (min nl 63) 0;
          ino \<leftarrow> de_inode b pos;
          t \<leftarrow> de_file_type b pos;
          Some (empty_node\<lparr>node_name := nm1, node_inode := ino, node_flags := (if t = 2 then VFS_FT_DIR else VFS_FT_FILE),
                  node_read := (t \<noteq> 2), node_write := (t \<noteq> 2), node_readdir := (t = 2), node_finddir := (t = 2)\<rparr>) }"

text \<open>The walk over a buffer of \<open>n\<close> bytes; \<open>Inr\<close> is the number of entries passed.\<close>

function readdir_entries :: "u8 list \<Rightarrow> nat \<Rightarrow> nat \<Rightarrow> nat \<Rightarrow> nat \<Rightarrow> (vfs_node_t + nat) option" where
  "readdir_entries b n pos entry_index index =
     (if \<not> pos + 8 \<le> n then Some (Inr entry_index)
      else do {
        rec_len \<leftarrow> de_rec_len b pos;
        if rec_len = 0 then Some (Inr entry_index)
        else do {
          ino \<leftarrow> de_inode b pos;
          if ino = 0 then readdir_entries b n (pos + rec_len) entry_index index
          else if entry_index = index then do { node \<leftarrow> entry_node b pos; Some (Inl node) }
          else readdir_entries b n (pos + rec_len) (Suc entry_index) index } })"
  by pat_completeness auto
termination
  by (relation "measure (\<lambda>(b, n, pos, entry_index, index). n - pos)") auto

declare readdir_entries.simps [simp del]

function readdir_loop :: "ext2_st \<Rightarrow> u8 list \<Rightarrow> nat \<Rightarrow> u8 list \<Rightarrow> nat \<Rightarrow> nat \<Rightarrow> (int \<times> vfs_node_t option) option" where
  "readdir_loop s dir read_count buf entry_index index =
     (if \<not> read_count < i_size dir then Some (VFS_ERR_NOT_FOUND, None)
      else do {
        (n, b) \<leftarrow> ext2_read_data s dir read_count (min (i_size dir - read_count) 4096) buf 0;
        if n \<le> 0 then Some (VFS_ERR_NOT_FOUND, None)
        else do {
          r \<leftarrow> readdir_entries b (nat n) 0 entry_index index;
          case r of Inl node \<Rightarrow> Some (VFS_OK, Some node)
          | Inr e \<Rightarrow> readdir_loop s dir (read_count + nat n) b e index } })"
  by pat_completeness auto
termination
  by (relation "measure (\<lambda>(s, dir, read_count, buf, entry_index, index). i_size dir - read_count)") auto

declare readdir_loop.simps [simp del]

definition ext2_node_readdir :: "ext2_st \<Rightarrow> vfs_node_t \<Rightarrow> nat \<Rightarrow> (int \<times> vfs_node_t option) option" where
  "ext2_node_readdir s node index =
     (if \<not> ext2_mounted s then Some (VFS_ERR, None)
      else do {
        r \<leftarrow> ext2_read_inode s (node_inode node);
        case r of None \<Rightarrow> Some (VFS_ERR, None)
        | Some dir \<Rightarrow>
            if \<not> EXT2_S_ISDIR (i_mode dir) then Some (VFS_ERR_IS_FILE, None)
            else readdir_loop s dir 0 (replicate 4096 0) 0 index })"

text \<open>Every entry takes at least one byte of the directory, so an index that is found is below its size.\<close>

lemma readdir_entries_count:
  "readdir_entries b n pos e index = Some r \<Longrightarrow> e \<le> index \<Longrightarrow>
     (case r of Inl _ \<Rightarrow> index < e + (n - pos) | Inr k \<Rightarrow> k \<le> e + (n - pos) \<and> k \<le> index)"
proof (induction b n pos e index rule: readdir_entries.induct)
  case (1 b n pos e index)
  show ?case
  proof (cases "pos + 8 \<le> n")
    case in_range: True
    show ?thesis
    proof (cases "de_rec_len b pos")
      case rec: (Some rec_len)
      show ?thesis
      proof (cases "rec_len = 0")
        case False
        obtain ino where ino: "de_inode b pos = Some ino"
          using "1.prems"(1) in_range rec False by (subst (asm) readdir_entries.simps) (auto split: bind_splits)
        show ?thesis
        proof (cases "ino = 0")
          case True
          then have "readdir_entries b n (pos + rec_len) e index = Some r"
            using "1.prems"(1) in_range rec ino False by (subst (asm) readdir_entries.simps) simp
          then show ?thesis using "1.IH"(1) [OF _ rec False ino True] in_range "1.prems"(2) False by (auto split: sum.splits)
        next
          case ino0: False
          show ?thesis
          proof (cases "e = index")
            case True
            then show ?thesis using "1.prems"(1) in_range rec ino False ino0
              by (subst (asm) readdir_entries.simps) (auto split: bind_splits)
          next
            case neq: False
            then have "readdir_entries b n (pos + rec_len) (Suc e) index = Some r"
              using "1.prems"(1) in_range rec ino False ino0 by (subst (asm) readdir_entries.simps) simp
            then show ?thesis using "1.IH"(2) [OF _ rec False ino ino0 neq] in_range "1.prems"(2) False neq
              by (auto split: sum.splits)
          qed
        qed
      qed (use "1.prems" in_range rec in \<open>auto simp: readdir_entries.simps [of b n pos]\<close>)
    qed (use "1.prems" in_range in \<open>auto simp: readdir_entries.simps [of b n pos]\<close>)
  qed (use "1.prems" in \<open>auto simp: readdir_entries.simps [of b n pos]\<close>)
qed

lemma readdir_loop_count:
  "readdir_loop s dir rc buf e index = Some (VFS_OK, out) \<Longrightarrow> e \<le> index \<Longrightarrow> index < e + (i_size dir - rc)"
proof (induction s dir rc buf e index rule: readdir_loop.induct)
  case (1 s dir rc buf e index)
  have rc: "rc < i_size dir" using "1.prems"(1) by (subst (asm) readdir_loop.simps) (auto simp: vfs_codes split: if_splits)
  obtain n b where rd: "ext2_read_data s dir rc (min (i_size dir - rc) 4096) buf 0 = Some (n, b)"
    using "1.prems"(1) rc by (subst (asm) readdir_loop.simps) (auto split: bind_splits)
  have n: "0 < n" using "1.prems"(1) rc rd by (subst (asm) readdir_loop.simps) (auto simp: vfs_codes split: if_splits)
  have "n \<le> int (min (i_size dir - rc) 4096)" using i_size_less [of dir] rc by (intro ext2_read_data_le(1) [OF rd]) auto
  then have le: "nat n \<le> i_size dir - rc" by simp
  obtain r where r: "readdir_entries b (nat n) 0 e index = Some r"
    using "1.prems"(1) rc rd n by (subst (asm) readdir_loop.simps) (auto split: bind_splits)
  have c: "case r of Inl _ \<Rightarrow> index < e + nat n | Inr k \<Rightarrow> k \<le> e + nat n \<and> k \<le> index"
    using readdir_entries_count [OF r "1.prems"(2)] by (cases r) auto
  show ?case
  proof (cases r)
    case (Inl x)
    then show ?thesis using c le by simp
  next
    case (Inr k)
    have "readdir_loop s dir (rc + nat n) b k index = Some (VFS_OK, out)"
      using "1.prems"(1) rc rd n r Inr by (subst (asm) readdir_loop.simps) simp
    then have "index < k + (i_size dir - (rc + nat n))" using "1.IH" [OF _ rd _ _ r Inr] rc n c Inr by simp
    then show ?thesis using c Inr le by (simp only: sum.case) linarith
  qed
qed

lemma ext2_node_readdir_count:
  assumes "ext2_node_readdir s node index = Some (VFS_OK, out)"
  shows "index < 4294967296"
proof -
  obtain dir where "readdir_loop s dir 0 (replicate 4096 0) 0 index = Some (VFS_OK, out)"
    using assms by (auto simp: ext2_node_readdir_def vfs_codes split: if_splits bind_splits option.splits)
  from readdir_loop_count [OF this] show ?thesis using i_size_less [of dir] by simp
qed

text \<open>The search by name tries one index after the other; the node found is copied into the next static node.\<close>

function finddir_loop :: "vfs_st \<Rightarrow> vfs_node_t \<Rightarrow> u8 list \<Rightarrow> nat \<Rightarrow> (node_ref option \<times> vfs_st) option" where
  "finddir_loop s node nm index =
     do { (code, child) \<leftarrow> ext2_node_readdir (ext2_fs s) node index;
          if code \<noteq> VFS_OK then Some (None, s)
          else do {
            c \<leftarrow> child;
            d \<leftarrow> strcmp (node_name c) nm;
            if d = 0 then do {
              ns \<leftarrow> wr (find_nodes s) (find_next s) c;
              Some (Some (FindNode (find_next s)), s\<lparr>find_nodes := ns, find_next := (find_next s + 1) mod 8\<rparr>) }
            else finddir_loop s node nm (Suc index) } }"
  by pat_completeness auto
termination
  by (relation "measure (\<lambda>(s, node, nm, index). 4294967296 - index)") (auto dest: ext2_node_readdir_count)

declare finddir_loop.simps [simp del]

definition ext2_node_finddir :: "vfs_st \<Rightarrow> vfs_node_t \<Rightarrow> u8 list \<Rightarrow> (node_ref option \<times> vfs_st) option" where
  "ext2_node_finddir s node nm = finddir_loop s node nm 0"

definition EXT2_ROOT_INO :: nat where
  "EXT2_ROOT_INO = 2"

definition ext2_vfs_mount :: "ext2_st \<Rightarrow> vfs_node_t \<Rightarrow> (int \<times> vfs_node_t) option" where
  "ext2_vfs_mount s root =
     (if \<not> ext2_mounted s then Some (VFS_ERR, root)
      else do {
        r \<leftarrow> ext2_read_inode s EXT2_ROOT_INO;
        case r of None \<Rightarrow> Some (VFS_ERR, root)
        | Some i \<Rightarrow>
            if \<not> EXT2_S_ISDIR (i_mode i) then Some (VFS_ERR, root)
            else Some (VFS_OK, root\<lparr>node_inode := EXT2_ROOT_INO, node_length := i_size i, node_flags := VFS_FT_DIR,
                                node_readdir := True, node_finddir := True\<rparr>) })"

text \<open>The string \<open>ext2\<close>.\<close>

definition ext2_name :: "u8 list" where
  "ext2_name = [101, 120, 116, 50, 0]"

definition ext2_fs_ops :: vfs_fs_ops_t where
  "ext2_fs_ops = \<lparr>fs_name = ext2_name, fs_mount = ext2_vfs_mount\<rparr>"

section \<open>Paths\<close>

function vfs_skip_slashes :: "u8 list \<Rightarrow> nat \<Rightarrow> nat option" where
  "vfs_skip_slashes path p = do { c \<leftarrow> rd path p; if c = 47 then vfs_skip_slashes path (Suc p) else Some p }"
  by pat_completeness auto
termination
  by (relation "measure (\<lambda>(path, p). length path - p)") (auto dest: rd_SomeD)

declare vfs_skip_slashes.simps [simp del]

text \<open>A character is signed: a byte from 128 on is below 32 and ends a component.\<close>

function comp_copy :: "u8 list \<Rightarrow> nat \<Rightarrow> u8 list \<Rightarrow> nat \<Rightarrow> nat \<Rightarrow> (nat \<times> u8 list \<times> nat) option" where
  "comp_copy path p component i max_len =
     do { c \<leftarrow> rd path p;
          if c \<noteq> 0 \<and> c \<noteq> 47 \<and> 32 \<le> sint c \<and> i < max_len - 1 then do {
            b \<leftarrow> wr component i c;
            comp_copy path (Suc p) b (Suc i) max_len }
          else Some (p, component, i) }"
  by pat_completeness auto
termination
  by (relation "measure (\<lambda>(path, p, component, i, max_len). length path - p)") (auto dest: rd_SomeD)

declare comp_copy.simps [simp del]

definition vfs_next_component :: "u8 list \<Rightarrow> nat \<Rightarrow> u8 list \<Rightarrow> nat \<Rightarrow> (nat \<times> u8 list) option" where
  "vfs_next_component path p component max_len =
     do { (q, b, i) \<leftarrow> comp_copy path p component 0 max_len;
          b1 \<leftarrow> wr b i 0;
          q1 \<leftarrow> vfs_skip_slashes path q;
          Some (q1, b1) }"

lemma vfs_skip_slashes_ge: "vfs_skip_slashes path p = Some q \<Longrightarrow> p \<le> q \<and> q < length path"
proof (induction path p rule: vfs_skip_slashes.induct)
  case (1 path p)
  show ?case
  proof (cases "rd path p")
    case (Some c)
    then show ?thesis using 1 by (cases "c = 47") (auto simp: vfs_skip_slashes.simps [of path p] dest: rd_SomeD)
  qed (use 1 in \<open>simp add: vfs_skip_slashes.simps [of path p]\<close>)
qed

lemma comp_copy_ge: "comp_copy path p b i m = Some (q, b1, j) \<Longrightarrow> p \<le> q \<and> q - p = j - i \<and> i \<le> j"
proof (induction path p b i m rule: comp_copy.induct)
  case (1 path p b i m)
  show ?case
  proof (cases "rd path p")
    case (Some c)
    show ?thesis
    proof (cases "c \<noteq> 0 \<and> c \<noteq> 47 \<and> 32 \<le> sint c \<and> i < m - 1")
      case True
      then obtain b2 where "wr b i c = Some b2" "comp_copy path (Suc p) b2 (Suc i) m = Some (q, b1, j)"
        using "1.prems" Some by (subst (asm) comp_copy.simps) (auto split: bind_splits)
      then show ?thesis using "1.IH" [OF Some True] by auto
    next
      case False
      then show ?thesis using "1.prems" Some by (subst (asm) comp_copy.simps) auto
    qed
  qed (use 1 in \<open>simp add: comp_copy.simps [of path p]\<close>)
qed

text \<open>A component that is not empty moves on in the path.\<close>

lemma vfs_next_component_moves:
  assumes "vfs_next_component path p b m = Some (q, b1)" and "rd b1 0 = Some c" and "c \<noteq> 0"
  shows "p < q \<and> q < length path"
proof -
  obtain q0 b0 i where cp: "comp_copy path p b 0 m = Some (q0, b0, i)" and w: "wr b0 i 0 = Some b1"
    and sk: "vfs_skip_slashes path q0 = Some q"
    using assms(1) by (auto simp: vfs_next_component_def split: bind_splits)
  have "i \<noteq> 0" using rd_wr_same [OF w] assms(2,3) by (metis option.inject)
  then show ?thesis using comp_copy_ge [OF cp] vfs_skip_slashes_ge [OF sk] by auto
qed

text \<open>
  The parent directory of a path and the name of the leaf.  The name is \<open>None\<close> where the source leaves the caller's
  buffer as it was; a caller that reads it then reads an indeterminate value.
\<close>

definition vfs_lookup :: "vfs_st \<Rightarrow> node_ref option \<Rightarrow> u8 list \<Rightarrow> (node_ref option \<times> vfs_st) option" where
  "vfs_lookup s dir nm =
     (case dir of None \<Rightarrow> Some (None, s)
      | Some r \<Rightarrow> do {
          node \<leftarrow> get_node s r;
          if \<not> node_finddir node then Some (None, s) else ext2_node_finddir s node nm })"

function parent_loop ::
  "vfs_st \<Rightarrow> u8 list \<Rightarrow> nat \<Rightarrow> node_ref \<Rightarrow> u8 list \<Rightarrow> nat \<Rightarrow> (node_ref option \<times> u8 list option \<times> vfs_st) option" where
  "parent_loop s path p node component child_sz =
     do { (q, comp) \<leftarrow> vfs_next_component path p component 64;
          c \<leftarrow> rd comp 0;
          if c = 0 then Some (Some node, None, s)
          else do {
            x \<leftarrow> rd path q;
            if x = 0 then do { leaf \<leftarrow> strncpy (replicate child_sz 0) comp child_sz; Some (Some node, Some leaf, s) }
            else do {
              (r, s1) \<leftarrow> vfs_lookup s (Some node) comp;
              case r of None \<Rightarrow> Some (None, None, s1)
              | Some next \<Rightarrow> parent_loop s1 path q next comp child_sz } } }"
  by pat_completeness auto
termination
  by (relation "measure (\<lambda>(s, path, p, node, component, child_sz). length path - p)")
    (auto dest: vfs_next_component_moves intro!: diff_less_mono2)

declare parent_loop.simps [simp del]

definition vfs_find_parent :: "vfs_st \<Rightarrow> u8 list \<Rightarrow> nat \<Rightarrow> (node_ref option \<times> u8 list option \<times> vfs_st) option" where
  "vfs_find_parent s path child_sz =
     do { p \<leftarrow> vfs_skip_slashes path 0;
          case vfs_root s of None \<Rightarrow> Some (None, None, s)
          | Some root \<Rightarrow> do {
              c \<leftarrow> rd path p;
              if c = 0 then do { leaf \<leftarrow> strncpy (replicate child_sz 0) [0] child_sz; Some (Some root, Some leaf, s) }
              else parent_loop s path p root (replicate 64 0) child_sz } }"

definition vfs_open_node :: "vfs_st \<Rightarrow> u8 list \<Rightarrow> (node_ref option \<times> vfs_st) option" where
  "vfs_open_node s path =
     do { c \<leftarrow> rd path 0;
          if c = 0 then Some (None, s)
          else do {
            d \<leftarrow> rd path 1;
            if c = 47 \<and> d = 0 then Some (vfs_root s, s)
            else do {
              (parent, leaf, s1) \<leftarrow> vfs_find_parent s path 64;
              if parent = None then Some (None, s1)
              else do { nm \<leftarrow> leaf; vfs_lookup s1 parent nm } } } }"

text \<open>The parent of a path with the name of the leaf, where the callers report an error for no parent or an empty name.\<close>

definition parent_leaf :: "vfs_st \<Rightarrow> u8 list \<Rightarrow> ((vfs_node_t \<times> u8 list) option \<times> vfs_st) option" where
  "parent_leaf s path =
     do { (parent, leaf, s1) \<leftarrow> vfs_find_parent s path 64;
          case parent of None \<Rightarrow> Some (None, s1)
          | Some r \<Rightarrow> do {
              nm \<leftarrow> leaf;
              c \<leftarrow> rd nm 0;
              if c = 0 then Some (None, s1) else do { node \<leftarrow> get_node s1 r; Some (Some (node, nm), s1) } } }"

section \<open>Mounting\<close>

definition vfs_init :: "vfs_st \<Rightarrow> vfs_st" where
  "vfs_init s = s\<lparr>vfs_filesystems := [],
     vfs_mounts := replicate VFS_MAX_MOUNTS \<lparr>mp_path = replicate 64 0, mp_root = None, mp_fs_type = 0, mp_in_use = False\<rparr>,
     vfs_files := replicate VFS_MAX_OPEN \<lparr>fd_node = None, fd_pos = 0, fd_flags = 0, fd_in_use = False\<rparr>,
     vfs_root := None\<rparr>"

text \<open>The index of the registered file system of a name.\<close>

fun find_fs :: "vfs_fs_ops_t list \<Rightarrow> u8 list \<Rightarrow> nat \<Rightarrow> nat option option" where
  "find_fs [] nm i = Some None"
| "find_fs (f # fs) nm i = do { d \<leftarrow> strcmp (fs_name f) nm; if d = 0 then Some (Some i) else find_fs fs nm (Suc i) }"

definition vfs_add_fs :: "vfs_st \<Rightarrow> vfs_fs_ops_t \<Rightarrow> (int \<times> vfs_st) option" where
  "vfs_add_fs s ops =
     (if VFS_MAX_FS \<le> length (vfs_filesystems s) then Some (VFS_ERR, s)
      else do {
        r \<leftarrow> find_fs (vfs_filesystems s) (fs_name ops) 0;
        if r \<noteq> None then Some (VFS_ERR, s) else Some (VFS_OK, s\<lparr>vfs_filesystems := vfs_filesystems s @ [ops]\<rparr>) })"

definition ext2_vfs_register :: "vfs_st \<Rightarrow> (int \<times> vfs_st) option" where
  "ext2_vfs_register s = vfs_add_fs s ext2_fs_ops"

fun first_free :: "('a \<Rightarrow> bool) \<Rightarrow> 'a list \<Rightarrow> nat \<Rightarrow> nat option" where
  "first_free used [] i = None"
| "first_free used (x # xs) i = (if \<not> used x then Some i else first_free used xs (Suc i))"

definition vfs_mount :: "bool \<Rightarrow> vfs_st \<Rightarrow> u8 list \<Rightarrow> u8 list \<Rightarrow> (int \<times> vfs_st) option" where
  "vfs_mount kmalloc_ok s path fs_type =
     do { found \<leftarrow> find_fs (vfs_filesystems s) fs_type 0;
          case found of None \<Rightarrow> Some (VFS_ERR_NOT_FOUND, s)
          | Some f \<Rightarrow>
              (case first_free mp_in_use (vfs_mounts s) 0 of
                 None \<Rightarrow> Some (VFS_ERR_NO_SPACE, s)
               | Some slot \<Rightarrow> do {
                   nm \<leftarrow> strcpy (replicate 64 0) path;
                   ops \<leftarrow> rd (vfs_filesystems s) f;
                   (code, root) \<leftarrow> fs_mount ops (ext2_fs s) (empty_node\<lparr>node_name := nm\<rparr>);
                   if code \<noteq> 0 then Some (VFS_ERR, s)
                   else do {
                     m \<leftarrow> rd (vfs_mounts s) slot;
                     if \<not> kmalloc_ok then Some (VFS_ERR_NO_SPACE, s\<lparr>vfs_mounts := (vfs_mounts s)[slot := m\<lparr>mp_root := None\<rparr>]\<rparr>)
                     else do {
                       p1 \<leftarrow> strncpy (mp_path m) path 63;
                       p2 \<leftarrow> wr p1 63 0;
                       c \<leftarrow> rd path 0;
                       d \<leftarrow> (if c = 47 then rd path 1 else Some 1);
                       let ref = HeapNode (length (heap_nodes s));
                       Some (VFS_OK, s\<lparr>heap_nodes := heap_nodes s @ [Some root],
                         vfs_mounts := (vfs_mounts s)[slot := \<lparr>mp_path = p2, mp_root = Some ref, mp_fs_type = f, mp_in_use = True\<rparr>],
                         vfs_root := (if c = 47 \<and> d = 0 then Some ref else vfs_root s)\<rparr>) } } }) }"

text \<open>The mount point at a path; the ext2 \<open>umount\<close> does nothing.\<close>

fun find_mount_at :: "vfs_mount_point_t list \<Rightarrow> u8 list \<Rightarrow> nat \<Rightarrow> nat option option" where
  "find_mount_at [] path i = Some None"
| "find_mount_at (m # ms) path i =
     do { hit \<leftarrow> (if mp_in_use m then do { d \<leftarrow> strcmp (mp_path m) path; Some (d = 0) } else Some False);
          if hit then Some (Some i) else find_mount_at ms path (Suc i) }"

definition ext2_vfs_umount :: "vfs_st \<Rightarrow> node_ref option \<Rightarrow> vfs_st" where
  "ext2_vfs_umount s root = s"

definition kfree_node :: "vfs_st \<Rightarrow> node_ref option \<Rightarrow> vfs_st" where
  "kfree_node s r = (case r of Some (HeapNode i) \<Rightarrow> s\<lparr>heap_nodes := (heap_nodes s)[i := None]\<rparr> | _ \<Rightarrow> s)"

definition vfs_unmount :: "vfs_st \<Rightarrow> u8 list \<Rightarrow> (int \<times> vfs_st) option" where
  "vfs_unmount s path =
     do { r \<leftarrow> find_mount_at (vfs_mounts s) path 0;
          case r of None \<Rightarrow> Some (VFS_ERR_NOT_FOUND, s)
          | Some i \<Rightarrow> do {
              m \<leftarrow> rd (vfs_mounts s) i;
              f \<leftarrow> rd (vfs_filesystems s) (mp_fs_type m);
              let s1 = kfree_node (ext2_vfs_umount s (mp_root m)) (mp_root m);
              Some (VFS_OK, s1\<lparr>vfs_mounts := (vfs_mounts s1)[i := m\<lparr>mp_in_use := False\<rparr>],
                               vfs_root := (if vfs_root s1 = mp_root m then None else vfs_root s1)\<rparr>) } }"

section \<open>Open files\<close>

definition ext2_vfs_create ::
  "(ext2_st \<Rightarrow> nat \<Rightarrow> u8 list \<Rightarrow> (nat option \<times> ext2_st) option) \<Rightarrow> vfs_st \<Rightarrow> vfs_node_t \<Rightarrow> u8 list \<Rightarrow> (int \<times> nat option \<times> vfs_st) option" where
  "ext2_vfs_create create s parent nm =
     do { c \<leftarrow> rd nm 0;
          if \<not> ext2_mounted (ext2_fs s) \<or> c = 0 then Some (VFS_ERR, None, s)
          else do {
            p \<leftarrow> vfs_skip_slashes nm 0;
            d \<leftarrow> rd nm p;
            if d = 0 then Some (VFS_ERR, None, s)
            else do {
              (r, e) \<leftarrow> create (ext2_fs s) (node_inode parent) (drop p nm);
              Some (if r = None then VFS_ERR else VFS_OK, r, s\<lparr>ext2_fs := e\<rparr>) } } }"

definition ext2_vfs_create_file :: "vfs_st \<Rightarrow> vfs_node_t \<Rightarrow> u8 list \<Rightarrow> (int \<times> nat option \<times> vfs_st) option" where
  "ext2_vfs_create_file = ext2_vfs_create ext2_create_file"

definition ext2_vfs_create_dir :: "vfs_st \<Rightarrow> vfs_node_t \<Rightarrow> u8 list \<Rightarrow> (int \<times> nat option \<times> vfs_st) option" where
  "ext2_vfs_create_dir = ext2_vfs_create ext2_create_dir"

definition vfs_open_fd :: "vfs_st \<Rightarrow> node_ref \<Rightarrow> nat \<Rightarrow> (int \<times> vfs_st)" where
  "vfs_open_fd s node flags =
     (case first_free fd_in_use (vfs_files s) 0 of
        None \<Rightarrow> (VFS_ERR_NO_SPACE, s)
      | Some i \<Rightarrow> (int i, s\<lparr>vfs_files := (vfs_files s)[i := \<lparr>fd_node = Some node, fd_pos = 0, fd_flags = flags, fd_in_use = True\<rparr>]\<rparr>))"

definition vfs_open :: "vfs_st \<Rightarrow> u8 list \<Rightarrow> nat \<Rightarrow> (int \<times> vfs_st) option" where
  "vfs_open s path flags =
     do { (r, s1) \<leftarrow> vfs_open_node s path;
          case r of Some node \<Rightarrow> Some (vfs_open_fd s1 node flags)
          | None \<Rightarrow>
              if flags div VFS_O_CREATE mod 2 = 0 then Some (VFS_ERR_NOT_FOUND, s1)
              else do {
                (pl, s2) \<leftarrow> parent_leaf s1 path;
                case pl of None \<Rightarrow> Some (VFS_ERR_NOT_FOUND, s2)
                | Some (parent, leaf) \<Rightarrow> do {
                    (code, ino, s3) \<leftarrow> ext2_vfs_create_file s2 parent leaf;
                    if code \<noteq> VFS_OK then Some (VFS_ERR, s3)
                    else do {
                      (r2, s4) \<leftarrow> vfs_open_node s3 path;
                      case r2 of None \<Rightarrow> Some (VFS_ERR, s4) | Some node \<Rightarrow> Some (vfs_open_fd s4 node flags) } } } }"

text \<open>The descriptor of a number, when it is in range and in use.\<close>

definition get_fd :: "vfs_st \<Rightarrow> int \<Rightarrow> vfs_fd_t option option" where
  "get_fd s fd =
     (if fd < 0 \<or> int VFS_MAX_OPEN \<le> fd then Some None
      else do { f \<leftarrow> rd (vfs_files s) (nat fd); Some (if fd_in_use f then Some f else None) })"

definition vfs_close :: "vfs_st \<Rightarrow> int \<Rightarrow> (int \<times> vfs_st) option" where
  "vfs_close s fd =
     do { r \<leftarrow> get_fd s fd;
          case r of None \<Rightarrow> Some (VFS_ERR, s)
          | Some f \<Rightarrow> Some (VFS_OK, s\<lparr>vfs_files := (vfs_files s)[nat fd := f\<lparr>fd_in_use := False, fd_node := None\<rparr>]\<rparr>) }"

definition fd_advance :: "vfs_st \<Rightarrow> int \<Rightarrow> vfs_fd_t \<Rightarrow> int \<Rightarrow> vfs_st" where
  "fd_advance s fd f n =
     (if 0 < n then s\<lparr>vfs_files := (vfs_files s)[nat fd := f\<lparr>fd_pos := wrap32 (fd_pos f + nat n)\<rparr>]\<rparr> else s)"

definition vfs_read :: "vfs_st \<Rightarrow> int \<Rightarrow> u8 list \<Rightarrow> nat \<Rightarrow> (int \<times> u8 list \<times> vfs_st) option" where
  "vfs_read s fd buf sz =
     do { r \<leftarrow> get_fd s fd;
          case r of None \<Rightarrow> Some (VFS_ERR, buf, s)
          | Some f \<Rightarrow>
              (case fd_node f of None \<Rightarrow> Some (VFS_ERR, buf, s)
               | Some ref \<Rightarrow> do {
                   node \<leftarrow> get_node s ref;
                   if \<not> node_read node then Some (VFS_ERR, buf, s)
                   else do {
                     (n, b) \<leftarrow> ext2_node_read (ext2_fs s) node (fd_pos f) sz buf 0;
                     Some (n, b, fd_advance s fd f n) } }) }"

definition vfs_write :: "vfs_st \<Rightarrow> int \<Rightarrow> u8 list \<Rightarrow> nat \<Rightarrow> (int \<times> vfs_st) option" where
  "vfs_write s fd buf sz =
     do { r \<leftarrow> get_fd s fd;
          case r of None \<Rightarrow> Some (VFS_ERR, s)
          | Some f \<Rightarrow>
              (case fd_node f of None \<Rightarrow> Some (VFS_ERR, s)
               | Some ref \<Rightarrow> do {
                   node \<leftarrow> get_node s ref;
                   if \<not> node_write node then Some (VFS_ERR, s)
                   else do {
                     (n, node1, e) \<leftarrow> ext2_node_write (ext2_fs s) node (fd_pos f) sz buf 0;
                     Some (n, fd_advance (set_node (s\<lparr>ext2_fs := e\<rparr>) ref node1) fd f n) } }) }"

section \<open>Operations on paths\<close>

definition vfs_stat :: "vfs_st \<Rightarrow> u8 list \<Rightarrow> (int \<times> (nat \<times> nat) option \<times> vfs_st) option" where
  "vfs_stat s path =
     do { (r, s1) \<leftarrow> vfs_open_node s path;
          case r of None \<Rightarrow> Some (VFS_ERR_NOT_FOUND, None, s1)
          | Some ref \<Rightarrow> do { node \<leftarrow> get_node s1 ref; Some (VFS_OK, Some (node_length node, node_flags node), s1) } }"

definition vfs_readdir :: "vfs_st \<Rightarrow> u8 list \<Rightarrow> nat \<Rightarrow> (int \<times> vfs_node_t option \<times> vfs_st) option" where
  "vfs_readdir s path index =
     do { (r, s1) \<leftarrow> vfs_open_node s path;
          case r of None \<Rightarrow> Some (VFS_ERR, None, s1)
          | Some ref \<Rightarrow> do {
              node \<leftarrow> get_node s1 ref;
              if \<not> node_readdir node then Some (VFS_ERR, None, s1)
              else do { (code, out) \<leftarrow> ext2_node_readdir (ext2_fs s1) node index; Some (code, out, s1) } } }"

definition vfs_mkdir :: "u8 list \<Rightarrow> int" where
  "vfs_mkdir path = VFS_ERR"

definition vfs_create :: "vfs_st \<Rightarrow> u8 list \<Rightarrow> nat \<Rightarrow> (int \<times> vfs_st) option" where
  "vfs_create s path flags = vfs_open s path (or VFS_O_CREATE flags)"

text \<open>Removing the leaf of a path with an operation of the driver.\<close>

definition remove_leaf :: "(ext2_st \<Rightarrow> nat \<Rightarrow> u8 list \<Rightarrow> (bool \<times> ext2_st) option) \<Rightarrow> vfs_st \<Rightarrow> u8 list \<Rightarrow> (int \<times> vfs_st) option" where
  "remove_leaf op s path =
     do { (pl, s1) \<leftarrow> parent_leaf s path;
          case pl of None \<Rightarrow> Some (VFS_ERR_NOT_FOUND, s1)
          | Some (parent, leaf) \<Rightarrow> do {
              (ok, e) \<leftarrow> op (ext2_fs s1) (node_inode parent) leaf;
              Some (if ok then VFS_OK else VFS_ERR, s1\<lparr>ext2_fs := e\<rparr>) } }"

definition vfs_unlink :: "vfs_st \<Rightarrow> u8 list \<Rightarrow> (int \<times> vfs_st) option" where
  "vfs_unlink s path =
     do { c \<leftarrow> rd path 0;
          if c = 0 then Some (VFS_ERR, s)
          else do {
            (r, s1) \<leftarrow> vfs_open_node s path;
            case r of None \<Rightarrow> Some (VFS_ERR_NOT_FOUND, s1)
            | Some ref \<Rightarrow> do {
                node \<leftarrow> get_node s1 ref;
                if node_flags node = VFS_FT_DIR then Some (VFS_ERR_IS_DIR, s1) else remove_leaf ext2_remove_file s1 path } } }"

definition vfs_rmdir :: "vfs_st \<Rightarrow> u8 list \<Rightarrow> (int \<times> vfs_st) option" where
  "vfs_rmdir s path =
     do { c \<leftarrow> rd path 0;
          if c = 0 then Some (VFS_ERR, s)
          else do {
            (r, s1) \<leftarrow> vfs_open_node s path;
            case r of None \<Rightarrow> Some (VFS_ERR_NOT_FOUND, s1)
            | Some ref \<Rightarrow> do {
                node \<leftarrow> get_node s1 ref;
                if node_flags node \<noteq> VFS_FT_DIR then Some (VFS_ERR_IS_FILE, s1) else remove_leaf ext2_remove_dir s1 path } } }"

text \<open>The path of a child, \<open>None\<close> inside when it does not fit; and the test for the names \<open>.\<close> and \<open>..\<close>.\<close>

definition child_path :: "u8 list \<Rightarrow> u8 list \<Rightarrow> u8 list option option" where
  "child_path path nm =
     do { l1 \<leftarrow> strlen path;
          l2 \<leftarrow> strlen nm;
          if l1 + 1 + l2 + 1 < VFS_MAX_PATH then do {
            (b, n) \<leftarrow> snprintf (replicate VFS_MAX_PATH 0) VFS_MAX_PATH [37, 115, 47, 37, 115, 0] [VStr path, VStr nm];
            Some (Some b) }
          else Some None }"

definition is_dot_name :: "u8 list \<Rightarrow> bool option" where
  "is_dot_name nm =
     do { d1 \<leftarrow> strcmp nm dot_name;
          if d1 = 0 then Some True else do { d2 \<leftarrow> strcmp nm dotdot_name; Some (d2 = 0) } }"

lemma strlen_loop_zero: "strlen_loop s i = Some n \<Longrightarrow> n < length s \<and> s ! n = 0"
proof (induction s i rule: strlen_loop.induct)
  case (1 s i)
  then show ?case by (subst (asm) (2) strlen_loop.simps) (auto split: bind_splits if_splits dest: rd_SomeD)
qed

lemma strlen_SomeD: "strlen s = Some n \<Longrightarrow> terminated s \<and> n = length (cstr s)"
  using strlen_loop_zero [of s 0 n] strlen_cstr [of s] by (auto simp: strlen_def terminated_def dest: nth_mem)

lemma child_path_cstr:
  assumes "terminated path" and "terminated nm"
  shows "child_path path nm =
    Some (if length (cstr path) + 1 + length (cstr nm) + 1 < 256
          then Some (blit (replicate 256 0) 0 ((cstr path @ 47 # cstr nm) @ [0])) else None)"
proof -
  let ?o = "cstr path @ 47 # cstr nm"
  have "fmt_out (cstr [37, 115, 47, 37, 115, 0]) [VStr path, VStr nm] = Some ?o"
    using assms by (simp add: cstr_def [of "[37, 115, 47, 37, 115, 0]"] fmt_out_cons)
  then have "snprintf (replicate 256 0) 256 [37, 115, 47, 37, 115, 0] [VStr path, VStr nm] =
      Some (blit (replicate 256 0) 0 (clip 256 ?o @ [0]), length (clip 256 ?o))"
    by (intro snprintf_blit) (simp_all add: terminated_def)
  moreover have "length (cstr path) + 1 + length (cstr nm) + 1 < 256 \<Longrightarrow> clip 256 ?o = ?o" by (simp add: clip_def)
  ultimately show ?thesis using assms by (simp add: child_path_def VFS_MAX_PATH_def strlen_cstr)
qed

lemma child_path_name:
  assumes "terminated path" and "terminated nm" and "child_path path nm = Some (Some b)"
  shows "terminated b \<and> cstr b = cstr path @ 47 # cstr nm \<and> length (cstr b) < 255"
proof -
  let ?o = "cstr path @ 47 # cstr nm"
  have b: "b = blit (replicate 256 0) 0 (?o @ [0])" and l: "length ?o < 255"
    using assms(3) by (auto simp: child_path_cstr [OF assms(1,2)] split: if_splits)
  have "b = ?o @ 0 # replicate (255 - length ?o) 0" using l by (simp add: b blit_def)
  moreover have "0 \<notin> set ?o" using cstr_no_zero [of path] cstr_no_zero [of nm] by simp
  ultimately show ?thesis using l by (metis cstr_append_zero terminated_append_zero)
qed

lemma child_path_longer:
  assumes "child_path path nm = Some (Some b)"
  shows "length (cstr path) < length (cstr b) \<and> length (cstr b) < 256"
proof -
  have "terminated path" "terminated nm" using assms by (auto simp: child_path_def dest!: strlen_SomeD split: bind_splits)
  from child_path_name [OF this assms] show ?thesis by auto
qed

lemma vfs_readdir_count: "vfs_readdir s path index = Some (VFS_OK, out, s1) \<Longrightarrow> index < 4294967296"
  by (auto simp: vfs_readdir_def vfs_codes split: bind_splits option.splits if_splits dest!: ext2_node_readdir_count [unfolded VFS_OK_def])

function vfs_rmtree :: "u8 list \<Rightarrow> vfs_st \<Rightarrow> (int \<times> vfs_st) option"
  and rmtree_loop :: "u8 list \<Rightarrow> nat \<Rightarrow> vfs_st \<Rightarrow> vfs_st option" where
  "vfs_rmtree path s =
     do { (r, s1) \<leftarrow> vfs_open_node s path;
          case r of None \<Rightarrow> Some (VFS_ERR_NOT_FOUND, s1)
          | Some ref \<Rightarrow> do {
              node \<leftarrow> get_node s1 ref;
              if node_flags node \<noteq> VFS_FT_DIR then vfs_unlink s1 path
              else do {
                (code, out, s2) \<leftarrow> vfs_readdir s1 path 0;
                if code \<noteq> VFS_OK then Some (VFS_ERR, s2)
                else do { s3 \<leftarrow> rmtree_loop path 0 s2; vfs_rmdir s3 path } } } }"
| "rmtree_loop path index s =
     do { (code, out, s1) \<leftarrow> vfs_readdir s path index;
          if code \<noteq> VFS_OK then Some s1
          else do {
            child \<leftarrow> out;
            dot \<leftarrow> is_dot_name (node_name child);
            if dot then rmtree_loop path (Suc index) s1
            else do {
              cp \<leftarrow> child_path path (node_name child);
              s2 \<leftarrow> (case cp of None \<Rightarrow> Some s1
                      | Some cpath \<Rightarrow>
                          if node_flags child = VFS_FT_DIR then do { (code1, t) \<leftarrow> vfs_rmtree cpath s1; Some t }
                          else do { (code1, t) \<leftarrow> vfs_unlink s1 cpath; Some t });
              rmtree_loop path (Suc index) s2 } } }"
  by pat_completeness auto
termination
  by (relation "inv_image (less_than <*lex*> less_than <*lex*> less_than)
       (\<lambda>x. case x of Inl (path, s) \<Rightarrow> (256 - length (cstr path), 1 :: nat, 0 :: nat)
                     | Inr (path, index, s) \<Rightarrow> (256 - length (cstr path), 0, 4294967296 - index))")
    (auto dest: vfs_readdir_count child_path_longer intro: diff_less_mono2)

declare vfs_rmtree.simps [simp del] rmtree_loop.simps [simp del]

definition vfs_rename :: "vfs_st \<Rightarrow> u8 list \<Rightarrow> u8 list \<Rightarrow> (int \<times> vfs_st) option" where
  "vfs_rename s oldpath newpath =
     do { c1 \<leftarrow> rd oldpath 0;
          c2 \<leftarrow> rd newpath 0;
          if c1 = 0 \<or> c2 = 0 then Some (VFS_ERR, s)
          else do {
            (r, s1) \<leftarrow> vfs_open_node s oldpath;
            if r = None then Some (VFS_ERR_NOT_FOUND, s1)
            else do {
              (old_r, old_l, s2) \<leftarrow> vfs_find_parent s1 oldpath 64;
              case old_r of None \<Rightarrow> Some (VFS_ERR_NOT_FOUND, s2)
              | Some old_parent \<Rightarrow> do {
                  old_leaf \<leftarrow> old_l;
                  c \<leftarrow> rd old_leaf 0;
                  if c = 0 then Some (VFS_ERR_NOT_FOUND, s2)
                  else do {
                    (dst, s3) \<leftarrow> vfs_open_node s2 newpath;
                    into \<leftarrow> (case dst of None \<Rightarrow> Some False
                              | Some ref \<Rightarrow> do {
                                  node \<leftarrow> get_node s3 ref;
                                  if node_flags node = VFS_FT_DIR then do { d \<leftarrow> strcmp newpath oldpath; Some (d \<noteq> 0) }
                                  else Some False });
                    target \<leftarrow> (if into then child_path newpath old_leaf else Some (Some newpath));
                    case target of None \<Rightarrow> Some (VFS_ERR, s3)
                    | Some newpath1 \<Rightarrow> do {
                        (new_r, new_l, s4) \<leftarrow> vfs_find_parent s3 newpath1 64;
                        case new_r of None \<Rightarrow> Some (VFS_ERR_NOT_FOUND, s4)
                        | Some new_parent \<Rightarrow> do {
                            new_leaf \<leftarrow> new_l;
                            d \<leftarrow> rd new_leaf 0;
                            if d = 0 then Some (VFS_ERR_NOT_FOUND, s4)
                            else do {
                              op \<leftarrow> get_node s4 old_parent;
                              np \<leftarrow> get_node s4 new_parent;
                              (ok, e) \<leftarrow> ext2_rename (ext2_fs s4) (node_inode op) old_leaf (node_inode np) new_leaf;
                              Some (if ok then VFS_OK else VFS_ERR, s4\<lparr>ext2_fs := e\<rparr>) } } } } } } } }"

definition vfs_truncate :: "vfs_st \<Rightarrow> u8 list \<Rightarrow> nat \<Rightarrow> (int \<times> vfs_st) option" where
  "vfs_truncate s path new_size =
     do { (r, s1) \<leftarrow> vfs_open_node s path;
          case r of None \<Rightarrow> Some (VFS_ERR_NOT_FOUND, s1)
          | Some ref \<Rightarrow> do {
              node \<leftarrow> get_node s1 ref;
              if node_flags node \<noteq> VFS_FT_FILE then Some (VFS_ERR_IS_DIR, s1)
              else do {
                (ok, e) \<leftarrow> ext2_truncate_file (ext2_fs s1) (node_inode node) new_size;
                Some (if ok then VFS_OK else VFS_ERR, s1\<lparr>ext2_fs := e\<rparr>) } } }"

section \<open>Initialisation\<close>

text \<open>
  \<open>ext2_init\<close> and the automatic mount at the root; the arguments say which \<open>kmalloc\<close> calls succeed.  Memory freed on the
  error paths keeps its contents.  A shift of 1024 past the sign bit is undefined.
\<close>

definition EXT2_MAGIC :: nat where
  "EXT2_MAGIC = 61267"

definition ext2_layout :: "u8 list \<Rightarrow> ext2_st \<Rightarrow> ext2_st option" where
  "ext2_layout sb s =
     (if 21 \<le> sb_log_block_size sb \<or> sb_blocks_per_group sb = 0 then None
      else Some (s\<lparr>superblock := Some sb, block_size := 1024 * 2 ^ sb_log_block_size sb,
        blocks_per_group := sb_blocks_per_group sb, inodes_per_group := sb_inodes_per_group sb,
        group_count := sb_blocks_count sb div sb_blocks_per_group sb
          + (if sb_blocks_count sb mod sb_blocks_per_group sb \<noteq> 0 then 1 else 0)\<rparr>))"

text \<open>The group descriptors: at most four sectors are read, into a buffer of that size.\<close>

definition ext2_load_groups :: "ext2_st \<Rightarrow> (bool \<times> ext2_st) option" where
  "ext2_load_groups s =
     do { sec \<leftarrow> ext2_gd_sector s;
          let len = wrap32 (32 * group_count s);
          let sectors = min (ext2_off_to_sectors (wrap32 (sec * EXT2_SECTOR_SIZE)) len) 4;
          (ok, gd_buf) \<leftarrow> disk_read s sec sectors (replicate 2048 0) 0;
          if \<not> ok then Some (False, s)
          else do { gd \<leftarrow> memcpy (replicate len 0) 0 gd_buf 0 len; Some (True, s\<lparr>group_desc := Some gd\<rparr>) } }"

text \<open>The strings \<open>/\<close> and the name of the file system.\<close>

definition root_path :: "u8 list" where
  "root_path = [47, 0]"

definition ext2_reset :: "ext2_st \<Rightarrow> ext2_st" where
  "ext2_reset s = s\<lparr>superblock := None, block_size := 0, blocks_per_group := 0, inodes_per_group := 0, group_count := 0,
     group_desc := None, ext2_mounted := False\<rparr>"

definition ext2_init :: "bool \<Rightarrow> bool \<Rightarrow> bool \<Rightarrow> vfs_st \<Rightarrow> vfs_st option" where
  "ext2_init sb_ok gd_ok root_ok s =
     do { let e0 = ext2_reset (ext2_fs s);
          r \<leftarrow> ext2_read_superblock e0;
          case r of None \<Rightarrow> Some (s\<lparr>ext2_fs := e0\<rparr>)
          | Some sb \<Rightarrow>
              if sb_magic sb \<noteq> EXT2_MAGIC \<or> \<not> sb_ok then Some (s\<lparr>ext2_fs := e0\<rparr>)
              else do {
                e1 \<leftarrow> ext2_layout sb e0;
                if \<not> gd_ok then Some (s\<lparr>ext2_fs := e1\<rparr>)
                else do {
                  (ok, e2) \<leftarrow> ext2_load_groups e1;
                  if \<not> ok then Some (s\<lparr>ext2_fs := e2\<rparr>)
                  else do {
                    (c1, s1) \<leftarrow> ext2_vfs_register (s\<lparr>ext2_fs := e2\<lparr>ext2_mounted := True\<rparr>\<rparr>);
                    (c2, s2) \<leftarrow> vfs_mount root_ok s1 root_path ext2_name;
                    Some s2 } } } }"

text \<open>The deepest mount point that prefixes a path, and the public name of \<open>vfs_find_parent\<close>.\<close>

fun find_mount_loop :: "vfs_mount_point_t list \<Rightarrow> u8 list \<Rightarrow> nat \<Rightarrow> nat option \<Rightarrow> nat \<Rightarrow> nat option option" where
  "find_mount_loop [] path i best best_len = Some best"
| "find_mount_loop (m # ms) path i best best_len =
     (if \<not> mp_in_use m then find_mount_loop ms path (Suc i) best best_len
      else do {
        len \<leftarrow> strlen (mp_path m);
        if len < best_len then find_mount_loop ms path (Suc i) best best_len
        else do {
          d \<leftarrow> strncmp path (mp_path m) len;
          c \<leftarrow> (if d = 0 then rd path len else Some 1);
          if d = 0 \<and> (c = 0 \<or> c = 47) then find_mount_loop ms path (Suc i) (Some i) (if len = 0 then 1 else len)
          else find_mount_loop ms path (Suc i) best best_len } })"

definition vfs_find_mount :: "vfs_st \<Rightarrow> u8 list \<Rightarrow> nat option option" where
  "vfs_find_mount s path = find_mount_loop (vfs_mounts s) path 0 None 0"

definition vfs_parent :: "vfs_st \<Rightarrow> u8 list \<Rightarrow> nat \<Rightarrow> (node_ref option \<times> u8 list option \<times> vfs_st) option" where
  "vfs_parent = vfs_find_parent"

end
