(* ===== verification/Nano.thy ===== *)
theory Nano
  imports TextBuf Readline Vfs
begin

text \<open>
  The editor \<open>nano\<close> of \<open>src/kernel/shell/editors.c\<close>: its text buffer, files, screen, and the loop over keys.

  \<^item> Row, column and number of lines are natural numbers: every decrement is guarded.  The scroll offsets are integers.
  \<^item> \<open>nano_event\<close> polls the variables of the keyboard interrupt; \<open>nano_event_step\<close> is one round of its loop.  The command
    takes the list of the events that \<open>nano_event\<close> returns one after the other; when the list ends it still waits.
\<close>

section \<open>State\<close>

definition cstring :: "string \<Rightarrow> u8 list" where
  "cstring s = map (\<lambda>c. of_nat (of_char c)) s @ [0]"

definition NANO_STATUS_SZ :: nat where
  "NANO_STATUS_SZ = 80"

record nano_st =
  nano_lines :: rows
  nano_lcount :: nat
  nano_row :: nat
  nano_col :: nat
  nano_scroll :: int
  nano_scroll_x :: int
  nano_modified :: bool
  nano_fname :: "u8 list"
  nano_status :: "u8 list"

definition EV_NAV :: "int \<Rightarrow> int" where
  "EV_NAV c = or 256 c"

definition EV_CTRL :: "int \<Rightarrow> int" where
  "EV_CTRL c = or 512 c"

definition EV_CANCEL :: int where
  "EV_CANCEL = 768"

definition EV_REDRAW :: int where
  "EV_REDRAW = 769"

section \<open>Editing\<close>

definition nano_tab_w :: "nano_st \<Rightarrow> nat" where
  "nano_tab_w s = 4 - nano_col s mod 4"

definition nano_line_name_len :: "nano_st \<Rightarrow> nat \<Rightarrow> nat option" where
  "nano_line_name_len s r = line_len (nano_lines s) r"

definition nano_insert_char :: "u8 \<Rightarrow> nano_st \<Rightarrow> nano_st option" where
  "nano_insert_char ch s =
     do { line \<leftarrow> rd (nano_lines s) (nano_row s);
          len \<leftarrow> strlen line;
          if NANO_MAX_COL - 1 \<le> len then Some s
          else do {
            l1 \<leftarrow> memmove_down line (nano_col s + 1) (nano_col s) (Suc len - nano_col s);
            l2 \<leftarrow> wr l1 (nano_col s) ch;
            Some (s\<lparr>nano_lines := (nano_lines s)[nano_row s := l2],
                    nano_col := (if NANO_MAX_COL \<le> nano_col s + 1 then NANO_MAX_COL - 1 else nano_col s + 1),
                    nano_modified := True\<rparr>) } }"

definition nano_backspace :: "nano_st \<Rightarrow> nano_st option" where
  "nano_backspace s =
     do { line \<leftarrow> rd (nano_lines s) (nano_row s);
          len \<leftarrow> strlen line;
          if 0 < nano_col s then do {
            l1 \<leftarrow> memmove_up line (nano_col s - 1) (nano_col s) (Suc len - nano_col s) 0;
            Some (s\<lparr>nano_lines := (nano_lines s)[nano_row s := l1], nano_col := nano_col s - 1, nano_modified := True\<rparr>) }
          else if 0 < nano_row s then do {
            plen \<leftarrow> nano_line_name_len s (nano_row s - 1);
            let room = min (NANO_MAX_COL - 1 - plen) len;
            ls \<leftarrow> merge_lines (nano_lines s) (nano_row s) plen room (nano_lcount s);
            Some (s\<lparr>nano_lines := ls, nano_lcount := nano_lcount s - 1, nano_row := nano_row s - 1,
                    nano_col := (if NANO_MAX_COL - 1 < plen + room then NANO_MAX_COL - 1 else plen + room),
                    nano_modified := True\<rparr>) }
          else Some s }"

definition nano_newline :: "nano_st \<Rightarrow> nano_st option" where
  "nano_newline s =
     do { len \<leftarrow> nano_line_name_len s (nano_row s);
          if NANO_MAX_LINES \<le> nano_lcount s then Some s
          else do {
            ls1 \<leftarrow> open_row (nano_lines s) (nano_row s + 1) (nano_lcount s);
            ls2 \<leftarrow> split_row ls1 (nano_row s) (nano_col s) len;
            Some (s\<lparr>nano_lines := ls2, nano_lcount := nano_lcount s + 1, nano_row := nano_row s + 1, nano_col := 0,
                    nano_modified := True\<rparr>) } }"

section \<open>Files\<close>

record load_st =
  tmp_line :: "u8 list"
  tpos :: nat
  ld_lines :: rows
  ld_lcount :: nat

text \<open>Storing the collected line as the last line, cut to its row.\<close>

definition load_store :: "load_st \<Rightarrow> rows option" where
  "load_store s =
     do { let n = min (tpos s) (NANO_MAX_COL - 1);
          l \<leftarrow> rd (ld_lines s) (ld_lcount s - 1);
          l1 \<leftarrow> strncpy l (tmp_line s) n;
          l2 \<leftarrow> wr l1 n 0;
          Some ((ld_lines s)[ld_lcount s - 1 := l2]) }"

definition load_newline :: "load_st \<Rightarrow> load_st option" where
  "load_newline s =
     do { cr \<leftarrow> (if 0 < tpos s then do { c \<leftarrow> rd (tmp_line s) (tpos s - 1); Some (c = 13) } else Some False);
          tmp \<leftarrow> wr (tmp_line s) (if cr then tpos s - 1 else tpos s) 0;
          ls \<leftarrow> load_store (s\<lparr>tmp_line := tmp\<rparr>);
          if ld_lcount s < NANO_MAX_LINES then do {
            l \<leftarrow> rd ls (ld_lcount s);
            z \<leftarrow> bzero l 0 NANO_MAX_COL;
            Some (s\<lparr>tmp_line := tmp, tpos := 0, ld_lines := ls[ld_lcount s := z], ld_lcount := ld_lcount s + 1\<rparr>) }
          else Some (s\<lparr>tmp_line := tmp, tpos := 0, ld_lines := ls\<rparr>) }"

definition load_char :: "u8 \<Rightarrow> load_st \<Rightarrow> load_st option" where
  "load_char c s =
     (if c = 10 then load_newline s
      else if tpos s < 4095 then do { t \<leftarrow> wr (tmp_line s) (tpos s) c; Some (s\<lparr>tmp_line := t, tpos := tpos s + 1\<rparr>) }
      else Some s)"

fun load_bytes :: "u8 list \<Rightarrow> nat \<Rightarrow> nat \<Rightarrow> load_st \<Rightarrow> load_st option" where
  "load_bytes buf i 0 s = Some s"
| "load_bytes buf i (Suc n) s = do { c \<leftarrow> rd buf i; s1 \<leftarrow> load_char c s; load_bytes buf (Suc i) n s1 }"

text \<open>The loop ends when \<open>vfs_read\<close> returns no more bytes.\<close>

partial_function (option) load_loop :: "int \<Rightarrow> u8 list \<Rightarrow> load_st \<Rightarrow> vfs_st \<Rightarrow> (load_st \<times> vfs_st) option" where
  "load_loop fd buf s v =
     do { (n, b, v1) \<leftarrow> vfs_read v fd buf 1024;
          if n \<le> 0 then Some (s, v1)
          else do { s1 \<leftarrow> load_bytes b 0 (nat n) s; load_loop fd b s1 v1 } }"

definition load_start :: "rows \<Rightarrow> load_st option" where
  "load_start ls =
     do { l \<leftarrow> rd ls 0;
          z \<leftarrow> bzero l 0 NANO_MAX_COL;
          Some \<lparr>tmp_line = replicate 4096 0, tpos = 0, ld_lines = ls[0 := z], ld_lcount = 1\<rparr> }"

definition VFS_O_READ :: nat where
  "VFS_O_READ = 1"

definition VFS_O_WRITE :: nat where
  "VFS_O_WRITE = 2"

definition nano_load_file :: "u8 list \<Rightarrow> nano_st \<Rightarrow> vfs_st \<Rightarrow> (nano_st \<times> vfs_st) option" where
  "nano_load_file path s v =
     do { d0 \<leftarrow> load_start (nano_lines s);
          (fd, v1) \<leftarrow> vfs_open v path VFS_O_READ;
          if fd < 0 then Some (s\<lparr>nano_lines := ld_lines d0, nano_lcount := 1\<rparr>, v1)
          else do {
            (d1, v2) \<leftarrow> load_loop fd (replicate 1024 0) d0 v1;
            (c, v3) \<leftarrow> vfs_close v2 fd;
            ls \<leftarrow> (if 0 < ld_lcount d1 then load_store d1 else Some (ld_lines d1));
            Some (s\<lparr>nano_lines := ls, nano_lcount := ld_lcount d1, nano_modified := False\<rparr>, v3) } }"

text \<open>Writing the lines from \<open>i\<close> on, each followed by a newline; \<open>Inl\<close> is the number of the line that could not be written.\<close>

fun save_lines :: "rows \<Rightarrow> nat \<Rightarrow> nat \<Rightarrow> int \<Rightarrow> int \<Rightarrow> vfs_st \<Rightarrow> ((nat + int) \<times> vfs_st) option" where
  "save_lines ls i 0 fd written v = Some (Inr written, v)"
| "save_lines ls i (Suc n) fd written v =
     do { l \<leftarrow> rd ls i;
          len \<leftarrow> strlen l;
          (w, v1) \<leftarrow> vfs_write v fd l len;
          if w \<noteq> int len then Some (Inl i, v1)
          else do {
            (w2, v2) \<leftarrow> vfs_write v1 fd [10, 0] 1;
            save_lines ls (Suc i) n fd (written + (int len + 1)) v2 } }"

definition set_status :: "u8 list \<Rightarrow> va list \<Rightarrow> nano_st \<Rightarrow> nano_st option" where
  "set_status format ap s = do { (b, n) \<leftarrow> snprintf (nano_status s) NANO_STATUS_SZ format ap; Some (s\<lparr>nano_status := b\<rparr>) }"

definition nano_save_file :: "u8 list \<Rightarrow> nano_st \<Rightarrow> vfs_st \<Rightarrow> (int \<times> nano_st \<times> vfs_st) option" where
  "nano_save_file path s v =
     do { (fd, v1) \<leftarrow> vfs_open v path (or VFS_O_READ (or VFS_O_WRITE VFS_O_CREATE));
          if fd < 0 then do {
            s1 \<leftarrow> set_status (cstring ''Save FAILED: open(%d)'') [VInt (of_int fd)] s; Some (- 1, s1, v1) }
          else do {
            (c, v2) \<leftarrow> vfs_truncate v1 path 0;
            if c \<noteq> VFS_OK then do {
              s1 \<leftarrow> set_status (cstring ''Save FAILED: truncate'') [] s;
              (c1, v3) \<leftarrow> vfs_close v2 fd;
              Some (- 1, s1, v3) }
            else do {
              (r, v3) \<leftarrow> save_lines (nano_lines s) 0 (nano_lcount s) fd 0 v2;
              case r of
                Inl i \<Rightarrow> do {
                  s1 \<leftarrow> set_status (cstring ''Save FAILED: write(%d)'') [VInt (of_nat i)] s;
                  (c1, v4) \<leftarrow> vfs_close v3 fd;
                  Some (- 1, s1, v4) }
              | Inr n \<Rightarrow> do { (c1, v4) \<leftarrow> vfs_close v3 fd; Some (n, s\<lparr>nano_modified := False\<rparr>, v4) } } } }"

section \<open>The screen\<close>

definition rdi :: "'a list \<Rightarrow> int \<Rightarrow> 'a option" where
  "rdi xs i = (if i < 0 then None else rd xs (nat i))"

text \<open>Cells \<open>x\<close> to \<open>x + n - 1\<close> of a screen row, and a string drawn from its start up to the width.\<close>

fun draw_cells :: "(nat \<Rightarrow> u8 option) \<Rightarrow> u8 \<Rightarrow> nat \<Rightarrow> nat \<Rightarrow> nat \<Rightarrow> term_state \<Rightarrow> term_state option" where
  "draw_cells f color y x 0 t = Some t"
| "draw_cells f color y x (Suc n) t =
     do { c \<leftarrow> f x; t1 \<leftarrow> term_putch_at c color x y t; draw_cells f color y (Suc x) n t1 }"

function draw_string :: "u8 list \<Rightarrow> u8 \<Rightarrow> nat \<Rightarrow> nat \<Rightarrow> nat \<Rightarrow> term_state \<Rightarrow> term_state option" where
  "draw_string str color y i w t =
     do { c \<leftarrow> rd str i;
          if c \<noteq> 0 \<and> i < w then do { t1 \<leftarrow> term_putch_at c color i y t; draw_string str color y (Suc i) w t1 }
          else Some t }"
  by pat_completeness auto
termination
  by (relation "measure (\<lambda>(str, color, y, i, w, t). w - i)") auto

declare draw_string.simps [simp del]

definition text_cell :: "u8 list \<Rightarrow> int \<Rightarrow> nat \<Rightarrow> u8 option" where
  "text_cell line scroll_x x =
     (if scroll_x + int x < int NANO_MAX_COL then do { c \<leftarrow> rdi line (scroll_x + int x); Some (if c \<noteq> 0 then c else 32) }
      else Some 32)"

fun draw_blank :: "u8 \<Rightarrow> nat \<Rightarrow> nat \<Rightarrow> nat \<Rightarrow> term_state \<Rightarrow> term_state option" where
  "draw_blank color r 0 w t = Some t"
| "draw_blank color r (Suc n) w t = do { t1 \<leftarrow> draw_cells (\<lambda>x. Some 32) color r 0 w t; draw_blank color (Suc r) n w t1 }"

fun draw_text :: "nano_st \<Rightarrow> u8 \<Rightarrow> nat \<Rightarrow> nat \<Rightarrow> nat \<Rightarrow> term_state \<Rightarrow> term_state option" where
  "draw_text s color r 0 w t = Some t"
| "draw_text s color r (Suc n) w t =
     (if int (nano_lcount s) \<le> nano_scroll s + int r then draw_blank color r (Suc n) w t
      else do {
        line \<leftarrow> rdi (nano_lines s) (nano_scroll s + int r);
        t1 \<leftarrow> draw_cells (text_cell line (nano_scroll_x s)) color r 0 w t;
        draw_text s color (Suc r) n w t1 })"

definition nano_bar :: "nano_st \<Rightarrow> u8 list option" where
  "nano_bar s =
     do { c \<leftarrow> rd (nano_status s) 0;
          if c \<noteq> 0 then Some (nano_status s)
          else do {
            (b, n) \<leftarrow> snprintf (replicate 128 0) 128
               (cstring ''%s  [Ln %d, Col %d]%s  ^O save  ^X exit  ^G help'')
               [VStr (nano_fname s), VInt (of_nat (nano_row s + 1)), VInt (of_nat (nano_col s + 1)),
                VStr (if nano_modified s then cstring ''  [modified]'' else cstring [])];
            Some b } }"

definition nano_place_cursor :: "nano_st \<Rightarrow> term_state \<Rightarrow> term_state" where
  "nano_place_cursor s t =
     (let w = int (term_width t); h = int (term_height t);
          cx0 = int (nano_col s) - nano_scroll_x s; cy0 = int (nano_row s) - nano_scroll s;
          cx1 = (if cx0 < 0 then 0 else cx0); cx2 = (if w \<le> cx1 then w - 1 else cx1); cx = (if 127 < cx2 then 127 else cx2);
          cy1 = (if cy0 < 0 then 0 else cy0); cy = (if h - 1 \<le> cy1 then h - 1 else cy1) in
      update_cursor (nat cx) (nat cy) t)"

definition nano_draw :: "nano_st \<Rightarrow> term_state \<Rightarrow> term_state option" where
  "nano_draw s t =
     do { t0 \<leftarrow> term_clear t;
          let w = term_width t0; let h = term_height t0; let bar_color = vga_entry_color 0 7;
          t1 \<leftarrow> draw_text s (vga_entry_color 7 0) 0 (h - 1) w t0;
          t2 \<leftarrow> draw_cells (\<lambda>x. Some 32) bar_color (h - 1) 0 w t1;
          bar \<leftarrow> nano_bar s;
          t3 \<leftarrow> draw_string bar bar_color (h - 1) 0 w t2;
          Some (nano_place_cursor s t3) }"

definition nano_clamp_cursor :: "term_state \<Rightarrow> nano_st \<Rightarrow> nano_st option" where
  "nano_clamp_cursor t s =
     do { len \<leftarrow> nano_line_name_len s (nano_row s);
          let w = int (term_width t); let h = int (term_height t);
          let col = (if len < nano_col s then len else nano_col s);
          let row = (if nano_lcount s \<le> nano_row s then nano_lcount s - 1 else nano_row s);
          let sc1 = (if int row < nano_scroll s then int row else nano_scroll s);
          let sc2 = (if sc1 + h - 1 \<le> int row then int row - (h - 2) else sc1);
          let x1 = (if int col < nano_scroll_x s then int col else nano_scroll_x s);
          let x2 = (if x1 + w \<le> int col then int col - w + 1 else x1);
          let x3 = (if x2 < 0 then 0 else x2);
          Some (s\<lparr>nano_col := col, nano_row := row, nano_scroll := sc2, nano_scroll_x := x3\<rparr>) }"

section \<open>Events and the command\<close>

text \<open>One round of the polling loop; the event is \<open>None\<close> when there is none yet.\<close>

definition nano_event_step :: "kbd_state \<Rightarrow> int option \<times> kbd_state" where
  "nano_event_step k =
     (if ctrl_char k \<noteq> 0 then (Some (EV_CTRL (uint (ctrl_char k))), k\<lparr>ctrl_char := 0, in_read := 0\<rparr>)
      else if cancel_input k \<noteq> 0 then (Some EV_CANCEL, k\<lparr>cancel_input := 0, in_read := 0\<rparr>)
      else if do_clear_screen k \<noteq> 0 then (Some EV_REDRAW, k\<lparr>do_clear_screen := 0\<rparr>)
      else if in_read k = 1 \<and> nav_key k \<noteq> 0 then (Some (EV_NAV (sint (nav_key k))), k\<lparr>nav_key := 0, in_read := 0\<rparr>)
      else if in_read k = 1 \<and> read_key k \<noteq> 0 then (Some (uint (read_key k)), k\<lparr>read_key := 0, in_read := 0\<rparr>)
      else (None, k))"

record nano_sys =
  nano :: nano_st
  scr :: term_state
  files :: vfs_st

definition nano_nav :: "term_state \<Rightarrow> int \<Rightarrow> nano_st \<Rightarrow> nano_st option" where
  "nano_nav t dir s =
     (if dir = 1 then
        (if 0 < nano_row s then nano_clamp_cursor t (s\<lparr>nano_row := nano_row s - 1\<rparr>) else Some s)
      else if dir = 2 then
        (if nano_row s < nano_lcount s - 1 then nano_clamp_cursor t (s\<lparr>nano_row := nano_row s + 1\<rparr>) else Some s)
      else if dir = 3 then
        (if 0 < nano_col s then Some (s\<lparr>nano_col := nano_col s - 1\<rparr>)
         else if 0 < nano_row s then do {
           len \<leftarrow> nano_line_name_len s (nano_row s - 1);
           Some (s\<lparr>nano_row := nano_row s - 1, nano_col := len\<rparr>) }
         else Some s)
      else if dir = 4 then do {
        len \<leftarrow> nano_line_name_len s (nano_row s);
        if nano_col s < len then Some (s\<lparr>nano_col := nano_col s + 1\<rparr>)
        else if nano_row s < nano_lcount s - 1 then Some (s\<lparr>nano_row := nano_row s + 1, nano_col := 0\<rparr>)
        else Some s }
      else Some s)"

fun insert_spaces :: "nat \<Rightarrow> nano_st \<Rightarrow> nano_st option" where
  "insert_spaces 0 s = Some s"
| "insert_spaces (Suc n) s = do { s1 \<leftarrow> nano_insert_char 32 s; insert_spaces n s1 }"

definition save_report :: "nano_sys \<Rightarrow> nano_sys option" where
  "save_report e =
     do { (n, s1, v1) \<leftarrow> nano_save_file (nano_fname (nano e)) (nano e) (files e);
          s2 \<leftarrow> (if n < 0 then do { b \<leftarrow> strcpy (nano_status s1) (cstring ''Save FAILED''); Some (s1\<lparr>nano_status := b\<rparr>) }
                 else do {
                   s2 \<leftarrow> set_status (cstring ''Saved %d bytes to %s%s'')
                     [VInt (of_int n), VStr (nano_fname s1), VStr (cstring '' '')] s1;
                   b \<leftarrow> wr (nano_status s2) (NANO_STATUS_SZ - 1) 0;
                   Some (s2\<lparr>nano_status := b\<rparr>) });
          Some (e\<lparr>nano := s2, files := v1\<rparr>) }"

text \<open>The keys that move the cursor or change the text.\<close>

definition edit_key :: "term_state \<Rightarrow> int \<Rightarrow> nano_st \<Rightarrow> nano_st option" where
  "edit_key t ev s =
     (if EV_NAV 1 \<le> ev \<and> ev \<le> EV_NAV 4 then nano_nav t (and ev 255) s
      else if ev = 8 then nano_backspace s
      else if ev = 10 then nano_newline s
      else if ev = 9 then insert_spaces (nano_tab_w s) s
      else if 32 \<le> ev \<and> ev < 127 then nano_insert_char (of_int ev) s
      else Some s)"

text \<open>One key; the flag says that the editor ends.  The question at the exit of a modified text is part of the loop below.\<close>

definition nano_key :: "int \<Rightarrow> nano_sys \<Rightarrow> (bool \<times> nano_sys) option" where
  "nano_key ev e =
     (if ev = EV_CTRL 111 \<or> ev = EV_CTRL 79 then do { e1 \<leftarrow> save_report e; Some (False, e1) }
      else if ev = EV_CTRL 120 \<or> ev = EV_CTRL 88 then Some (True, e)
      else if ev = EV_CTRL 103 \<or> ev = EV_CTRL 71 then do {
        b \<leftarrow> strcpy (nano_status (nano e)) (cstring ''^O save  ^X exit  ^G help  arrows move  Backspace delete'');
        Some (False, e\<lparr>nano := (nano e)\<lparr>nano_status := b\<rparr>\<rparr>) }
      else if ev = EV_REDRAW then Some (False, e)
      else if ev = EV_CANCEL \<or> ev = EV_CTRL 99 \<or> ev = EV_CTRL 67 then Some (True, e)
      else do { s1 \<leftarrow> edit_key (scr e) ev (nano e); Some (False, e\<lparr>nano := s1\<rparr>) })"

text \<open>The answer to the question at the exit, with the events after it; \<open>None\<close> while there is no answer.\<close>

fun confirm_answer :: "int list \<Rightarrow> (int \<times> int list) option" where
  "confirm_answer [] = None"
| "confirm_answer (ev # evs) =
     (if ev = 121 \<or> ev = 89 then Some (1, evs)
      else if ev = 110 \<or> ev = 78 then Some (0, evs)
      else if ev = EV_CANCEL \<or> ev = 99 \<or> ev = 67 then Some (- 1, evs)
      else confirm_answer evs)"

definition nano_confirm_exit :: "int list \<Rightarrow> nano_sys \<Rightarrow> ((int \<times> int list) option \<times> nano_sys) option" where
  "nano_confirm_exit evs e =
     do { b \<leftarrow> strcpy (nano_status (nano e)) (cstring ''Save modified buffer? [Y]es [N]o [C]ancel'');
          let s = (nano e)\<lparr>nano_status := b\<rparr>;
          t \<leftarrow> nano_draw s (scr e);
          Some (confirm_answer evs, e\<lparr>nano := s, scr := t\<rparr>) }"

lemma confirm_answer_shorter: "confirm_answer evs = Some (r, rest) \<Longrightarrow> length rest < length evs"
  by (induction evs) (auto split: if_splits)

lemma confirm_exit_shorter: "nano_confirm_exit evs e = Some (Some (r, rest), e1) \<Longrightarrow> length rest < length evs"
  by (auto simp: nano_confirm_exit_def Let_def confirm_answer_shorter split: bind_splits)

function nano_loop :: "int list \<Rightarrow> nano_sys \<Rightarrow> (bool \<times> nano_sys) option" where
  "nano_loop evs e =
     do { s \<leftarrow> nano_clamp_cursor (scr e) (nano e);
          t \<leftarrow> nano_draw s (scr e);
          let e1 = e\<lparr>nano := s, scr := t\<rparr>;
          case evs of
            [] \<Rightarrow> Some (False, e1)
          | ev # rest \<Rightarrow>
              if (ev = EV_CTRL 120 \<or> ev = EV_CTRL 88) \<and> nano_modified s then do {
                (answer, e2) \<leftarrow> nano_confirm_exit rest e1;
                case answer of
                  None \<Rightarrow> Some (False, e2)
                | Some (r, rest1) \<Rightarrow>
                    if r = 1 then do {
                      (n, s1, v1) \<leftarrow> nano_save_file (nano_fname (nano e2)) (nano e2) (files e2);
                      Some (True, e2\<lparr>nano := s1, files := v1\<rparr>) }
                    else if r = 0 then Some (True, e2)
                    else do {
                      b \<leftarrow> wr (nano_status (nano e2)) 0 0;
                      nano_loop rest1 (e2\<lparr>nano := (nano e2)\<lparr>nano_status := b\<rparr>\<rparr>) } }
              else do {
                (finished, e2) \<leftarrow> nano_key ev e1;
                if finished then Some (True, e2) else nano_loop rest e2 } }"
  by pat_completeness auto
termination
  by (relation "measure (\<lambda>(evs, e). length evs)") (auto dest: confirm_exit_shorter)

declare nano_loop.simps [simp del]

text \<open>The command; the flag says that it has returned.\<close>

definition nano_start :: "u8 list \<Rightarrow> u8 list \<Rightarrow> nano_sys \<Rightarrow> nano_sys option" where
  "nano_start cwd arg e =
     do { let s0 = nano e;
          f \<leftarrow> vfs_cmd_resolve cwd (Some arg) (nano_fname s0) 128;
          f1 \<leftarrow> wr f 127 0;
          l \<leftarrow> rd (nano_lines s0) 0;
          z \<leftarrow> bzero l 0 NANO_MAX_COL;
          st \<leftarrow> wr (nano_status s0) 0 0;
          (s1, v1) \<leftarrow> nano_load_file f1
            (s0\<lparr>nano_lines := (nano_lines s0)[0 := z], nano_lcount := 1, nano_row := 0, nano_col := 0, nano_scroll := 0,
                nano_scroll_x := 0, nano_modified := False, nano_fname := f1, nano_status := st\<rparr>) (files e);
          if nano_lcount s1 < 1 then do {
            l1 \<leftarrow> rd (nano_lines s1) 0;
            z1 \<leftarrow> bzero l1 0 NANO_MAX_COL;
            Some (e\<lparr>nano := s1\<lparr>nano_lcount := 1, nano_lines := (nano_lines s1)[0 := z1]\<rparr>, files := v1\<rparr>) }
          else Some (e\<lparr>nano := s1, files := v1\<rparr>) }"

definition cmd_nano :: "u8 list \<Rightarrow> u8 list list \<Rightarrow> int list \<Rightarrow> nano_sys \<Rightarrow> (bool \<times> nano_sys) option" where
  "cmd_nano cwd argv evs e =
     (case argv of
        a0 # arg # args \<Rightarrow> do {
          e1 \<leftarrow> nano_start cwd arg e;
          (finished, e2) \<leftarrow> nano_loop evs e1;
          if \<not> finished then Some (False, e2)
          else do { t \<leftarrow> term_clear (scr e2); Some (True, e2\<lparr>scr := update_cursor 0 0 (t\<lparr>t_row := 0, t_col := 0\<rparr>)\<rparr>) } }
      | _ \<Rightarrow> do {
          t1 \<leftarrow> printk (cstring (''Usage: nano <path>'' @ [CHR 0x0A])) [] (scr e);
          t2 \<leftarrow> printk (cstring (''  arrows: move   ^O: save   ^X: exit   ^G: help'' @ [CHR 0x0A])) [] t1;
          Some (True, e\<lparr>scr := t2\<rparr>) })"

end
