(* ===== verification/Editor.thy ===== *)
theory Editor
  imports TextBuf
begin

text \<open>
  What a text editor promises.  A document is a list of lines with a cursor; characters are inserted and removed at the
  cursor, lines are split and joined.  The limits of the editors of the kernel are part of it: a line has at most 159
  characters, a document 512 lines, and an operation that would exceed them is cut or does nothing.  The locale
  \<open>text_editor\<close> is the contract of an implementation, and the facts proved in it hold for each of them.
\<close>

section \<open>Documents\<close>

record doc =
  doc_lines :: "u8 list list"
  doc_row :: nat
  doc_col :: nat

definition cur_line :: "doc \<Rightarrow> u8 list" where
  "cur_line d = doc_lines d ! doc_row d"

definition doc_ok :: "doc \<Rightarrow> bool" where
  "doc_ok d \<longleftrightarrow> doc_row d < length (doc_lines d) \<and> length (doc_lines d) \<le> 512 \<and> doc_col d \<le> length (cur_line d) \<and>
     (\<forall>l \<in> set (doc_lines d). length l \<le> 159 \<and> 0 \<notin> set l)"

definition doc_insert :: "u8 \<Rightarrow> doc \<Rightarrow> doc" where
  "doc_insert c d =
     (if 159 \<le> length (cur_line d) then d
      else d\<lparr>doc_lines := (doc_lines d)[doc_row d := take (doc_col d) (cur_line d) @ c # drop (doc_col d) (cur_line d)],
             doc_col := doc_col d + 1\<rparr>)"

text \<open>
  At the start of a line the line is joined to the one before it, cut to its limit.  The cursor goes to the end of the
  joined line, not to the place where the two meet.
\<close>

definition doc_backspace :: "doc \<Rightarrow> doc" where
  "doc_backspace d =
     (if 0 < doc_col d then
        d\<lparr>doc_lines := (doc_lines d)[doc_row d := take (doc_col d - 1) (cur_line d) @ drop (doc_col d) (cur_line d)],
          doc_col := doc_col d - 1\<rparr>
      else if 0 < doc_row d then
        (let above = doc_lines d ! (doc_row d - 1); joined = take 159 (above @ cur_line d) in
         d\<lparr>doc_lines := take (doc_row d - 1) (doc_lines d) @ joined # drop (Suc (doc_row d)) (doc_lines d),
           doc_row := doc_row d - 1, doc_col := length above + min (159 - length above) (length (cur_line d))\<rparr>)
      else d)"

definition doc_newline :: "doc \<Rightarrow> doc" where
  "doc_newline d =
     (if 512 \<le> length (doc_lines d) then d
      else d\<lparr>doc_lines := take (doc_row d) (doc_lines d) @
               take (doc_col d) (cur_line d) # drop (doc_col d) (cur_line d) # drop (Suc (doc_row d)) (doc_lines d),
             doc_row := doc_row d + 1, doc_col := 0\<rparr>)"

fun run :: "('a \<Rightarrow> 's \<Rightarrow> 's option) \<Rightarrow> 'a list \<Rightarrow> 's \<Rightarrow> 's option" where
  "run f [] s = Some s"
| "run f (x # xs) s = do { s1 \<leftarrow> f x s; run f xs s1 }"

lemma run_append: "run f (xs @ ys) s = do { s1 \<leftarrow> run f xs s; run f ys s1 }"
  by (induction xs arbitrary: s) (simp_all split: bind_splits)

section \<open>Typing and erasing\<close>

text \<open>The effect of typing a text in the current line, and of erasing \<open>k\<close> characters before the cursor.\<close>

definition doc_type :: "u8 list \<Rightarrow> doc \<Rightarrow> doc" where
  "doc_type cs d = d\<lparr>doc_lines := (doc_lines d)[doc_row d := take (doc_col d) (cur_line d) @ cs @ drop (doc_col d) (cur_line d)],
     doc_col := doc_col d + length cs\<rparr>"

lemma doc_type_snoc:
  assumes "doc_ok d" and "length (cur_line d) + length cs < 159"
  shows "doc_insert c (doc_type cs d) = doc_type (cs @ [c]) d"
proof -
  have col: "doc_col d \<le> length (cur_line d)" "doc_row d < length (doc_lines d)" using assms(1) by (auto simp: doc_ok_def)
  have l: "cur_line (doc_type cs d) = take (doc_col d) (cur_line d) @ cs @ drop (doc_col d) (cur_line d)"
    using col by (simp add: doc_type_def cur_line_def)
  then have "length (cur_line (doc_type cs d)) < 159" using assms(2) col by simp
  then show ?thesis using col by (simp add: doc_insert_def l) (simp add: doc_type_def)
qed

lemma doc_type_erase:
  assumes "doc_ok d"
  shows "doc_backspace (doc_type (cs @ [c]) d) = doc_type cs d"
proof -
  have col: "doc_col d \<le> length (cur_line d)" "doc_row d < length (doc_lines d)" using assms by (auto simp: doc_ok_def)
  have "cur_line (doc_type (cs @ [c]) d) = (take (doc_col d) (cur_line d) @ cs) @ c # drop (doc_col d) (cur_line d)"
    using col by (simp add: doc_type_def cur_line_def)
  moreover have "doc_col (doc_type (cs @ [c]) d) = Suc (length (take (doc_col d) (cur_line d) @ cs))" using col by (simp add: doc_type_def)
  ultimately show ?thesis by (simp add: doc_backspace_def) (simp add: doc_type_def)
qed

lemma doc_type_nil: "doc_ok d \<Longrightarrow> doc_type [] d = d"
  by (simp add: doc_type_def cur_line_def)

lemma doc_newline_backspace:
  assumes "doc_ok d" and "length (doc_lines d) < 512"
  shows "doc_backspace (doc_newline d) = d\<lparr>doc_col := length (cur_line d)\<rparr>"
proof -
  let ?n = "doc_newline d"
  have col: "doc_col d \<le> length (cur_line d)" and row: "doc_row d < length (doc_lines d)" and len: "length (cur_line d) \<le> 159"
    using assms(1) by (auto simp: doc_ok_def cur_line_def)
  have n: "doc_lines ?n = take (doc_row d) (doc_lines d) @
      take (doc_col d) (cur_line d) # drop (doc_col d) (cur_line d) # drop (Suc (doc_row d)) (doc_lines d)"
    "doc_row ?n = doc_row d + 1" "doc_col ?n = 0" using assms(2) by (simp_all add: doc_newline_def)
  have k: "length (take (doc_row d) (doc_lines d)) = doc_row d" using row by simp
  have c: "cur_line ?n = drop (doc_col d) (cur_line d)" using k by (simp add: cur_line_def [of ?n] n nth_append)
  have a: "doc_lines ?n ! doc_row d = take (doc_col d) (cur_line d)" using k by (simp add: n nth_append)
  have t: "take (doc_row d) (doc_lines ?n) = take (doc_row d) (doc_lines d)"
    "drop (Suc (Suc (doc_row d))) (doc_lines ?n) = drop (Suc (doc_row d)) (doc_lines d)" using k by (simp_all add: n)
  have "take (doc_row d) (doc_lines d) @ cur_line d # drop (Suc (doc_row d)) (doc_lines d) = doc_lines d"
    using row by (simp add: cur_line_def id_take_nth_drop [symmetric])
  moreover have "doc_col d + min (159 - doc_col d) (length (cur_line d) - doc_col d) = length (cur_line d)" using col len by simp
  moreover have "take 159 (cur_line d) = cur_line d" using len by simp
  moreover have "?n = d\<lparr>doc_lines := doc_lines ?n, doc_row := doc_row d + 1, doc_col := 0\<rparr>" using assms(2) by (simp add: doc_newline_def)
  ultimately show ?thesis using col by (simp add: doc_backspace_def n(2,3) c a t Let_def min_def)
qed

section \<open>The contract\<close>

locale text_editor =
  fixes wf :: "'s \<Rightarrow> bool" and doc_of :: "'s \<Rightarrow> doc"
    and insert_char :: "u8 \<Rightarrow> 's \<Rightarrow> 's option" and backspace :: "'s \<Rightarrow> 's option" and newline :: "'s \<Rightarrow> 's option"
  assumes wf_doc: "wf s \<Longrightarrow> doc_ok (doc_of s)"
    and insert_refines: "wf s \<Longrightarrow> c \<noteq> 0 \<Longrightarrow> \<exists>s'. insert_char c s = Some s' \<and> wf s' \<and> doc_of s' = doc_insert c (doc_of s)"
    and backspace_refines: "wf s \<Longrightarrow> \<exists>s'. backspace s = Some s' \<and> wf s' \<and> doc_of s' = doc_backspace (doc_of s)"
    and newline_refines: "wf s \<Longrightarrow> \<exists>s'. newline s = Some s' \<and> wf s' \<and> doc_of s' = doc_newline (doc_of s)"
begin

lemma type_text:
  assumes "wf s" and "0 \<notin> set cs" and "length (cur_line (doc_of s)) + length cs \<le> 159"
  shows "\<exists>s'. run insert_char cs s = Some s' \<and> wf s' \<and> doc_of s' = doc_type cs (doc_of s)"
  using assms(2,3)
proof (induction cs rule: rev_induct)
  case Nil
  then show ?case using assms(1) wf_doc doc_type_nil by simp
next
  case (snoc c cs)
  then obtain t where t: "run insert_char cs s = Some t" "wf t" "doc_of t = doc_type cs (doc_of s)" by auto
  obtain s' where "insert_char c t = Some s'" "wf s'" "doc_of s' = doc_insert c (doc_of t)" using insert_refines [OF t(2), of c] snoc.prems by auto
  moreover have "doc_insert c (doc_of t) = doc_type (cs @ [c]) (doc_of s)"
    using doc_type_snoc [OF wf_doc [OF assms(1)]] snoc.prems t(3) by simp
  ultimately show ?case using t(1) by (auto simp: run_append)
qed

lemma erase_text:
  assumes "wf s0" and "wf s" and "doc_of s = doc_type cs (doc_of s0)"
  shows "\<exists>s'. run (\<lambda>c. backspace) cs s = Some s' \<and> wf s' \<and> doc_of s' = doc_of s0"
  using assms(2,3)
proof (induction "length cs" arbitrary: cs s)
  case 0
  then show ?case using doc_type_nil [OF wf_doc [OF assms(1)]] by simp
next
  case (Suc n)
  obtain c cs' where cs: "cs = cs' @ [c]" using Suc.hyps(2) by (cases cs rule: rev_cases) auto
  obtain t where t: "backspace s = Some t" "wf t" "doc_of t = doc_backspace (doc_of s)" using backspace_refines [OF Suc.prems(1)] by blast
  have "doc_of t = doc_type cs' (doc_of s0)" using t(3) Suc.prems(2) doc_type_erase [OF wf_doc [OF assms(1)]] cs by simp
  then obtain s' where s': "run (\<lambda>c. backspace) cs' t = Some s'" "wf s'" "doc_of s' = doc_of s0"
    using Suc.hyps(1) [of cs' t] Suc.hyps(2) t(2) cs by auto
  have same: "run (\<lambda>c. backspace) xs x = run (\<lambda>c. backspace) ys x" if "length xs = length ys" for xs ys :: "u8 list" and x
    using that by (induction xs ys arbitrary: x rule: list_induct2) (auto split: bind_splits)
  have "run (\<lambda>c. backspace) cs s = run (\<lambda>c. backspace) (c # cs') s" by (rule same) (simp add: cs)
  then show ?case using t(1) s' by simp
qed

text \<open>What is typed and erased again leaves no trace.\<close>

lemma type_erase:
  assumes "wf s" and "0 \<notin> set cs" and "length (cur_line (doc_of s)) + length cs \<le> 159"
  shows "\<exists>s1 s2. run insert_char cs s = Some s1 \<and> run (\<lambda>c. backspace) cs s1 = Some s2 \<and> wf s2 \<and> doc_of s2 = doc_of s"
proof -
  obtain s1 where s1: "run insert_char cs s = Some s1" "wf s1" "doc_of s1 = doc_type cs (doc_of s)" using type_text [OF assms] by blast
  then show ?thesis using erase_text [OF assms(1) s1(2,3)] by auto
qed

lemma newline_erase:
  assumes "wf s" and "length (doc_lines (doc_of s)) < 512"
  shows "\<exists>s1 s2. newline s = Some s1 \<and> backspace s1 = Some s2 \<and> wf s2 \<and> doc_lines (doc_of s2) = doc_lines (doc_of s) \<and>
    doc_row (doc_of s2) = doc_row (doc_of s)"
proof -
  obtain s1 where s1: "newline s = Some s1" "wf s1" "doc_of s1 = doc_newline (doc_of s)" using newline_refines [OF assms(1)] by blast
  obtain s2 where "backspace s1 = Some s2" "wf s2" "doc_of s2 = doc_backspace (doc_of s1)" using backspace_refines [OF s1(2)] by blast
  then show ?thesis using s1 doc_newline_backspace [OF wf_doc [OF assms(1)] assms(2)] by auto
qed

end

end
