(* ===== verification/NanoProps.thy ===== *)
theory NanoProps
  imports Nano Editor
begin

text \<open>
  The editor \<open>nano\<close> implements the editor of the theory \<open>Editor\<close>: every key does to the document what the
  contract says, and nothing is written outside the text buffer or the screen; reading the characters of a file yields its
  lines.
\<close>

section \<open>Editing\<close>

definition nano_wf :: "nano_st \<Rightarrow> bool" where
  "nano_wf s \<longleftrightarrow> rows_ok (nano_lines s) \<and> nano_lcount s \<le> 512 \<and> nano_row s < nano_lcount s \<and>
     nano_col s \<le> length (cstr (nano_lines s ! nano_row s))"

definition nano_doc :: "nano_st \<Rightarrow> doc" where
  "nano_doc s = \<lparr>doc_lines = texts (nano_lines s) (nano_lcount s), doc_row = nano_row s, doc_col = nano_col s\<rparr>"

lemma nano_cur_line: "nano_wf s \<Longrightarrow> cur_line (nano_doc s) = cstr (nano_lines s ! nano_row s)"
  by (simp add: nano_wf_def cur_line_def nano_doc_def texts_nth)

lemma nano_row_ok:
  assumes "nano_wf s" and "r < nano_lcount s"
  shows "row_ok (nano_lines s ! r)" and "rd (nano_lines s) r = Some (nano_lines s ! r)"
    and "nano_line_name_len s r = Some (length (cstr (nano_lines s ! r)))"
  using assms rows_ok_nth [of "nano_lines s" r] by (auto simp: nano_wf_def nano_line_name_len_def line_len_def row_strlen)

lemma nano_doc_ok:
  assumes "nano_wf s"
  shows "doc_ok (nano_doc s)"
proof -
  have "doc_col (nano_doc s) \<le> length (cur_line (nano_doc s))" using assms by (simp add: nano_cur_line) (simp add: nano_wf_def nano_doc_def)
  then show ?thesis using assms texts_line_ok [of "nano_lines s" _ "nano_lcount s"] by (auto simp: doc_ok_def nano_doc_def nano_wf_def)
qed

lemma nano_insert_refines:
  assumes "nano_wf s" and "c \<noteq> 0"
  shows "\<exists>s'. nano_insert_char c s = Some s' \<and> nano_wf s' \<and> nano_doc s' = doc_insert c (nano_doc s)"
proof -
  have w: "rows_ok (nano_lines s)" "nano_lcount s \<le> 512" "nano_row s < nano_lcount s" using assms(1) by (auto simp: nano_wf_def)
  let ?l = "nano_lines s ! nano_row s"
  have len: "length (nano_lines s) = 512" using w by (simp add: rows_ok_def)
  note r = nano_row_ok [OF assms(1) w(3)]
  note st = row_strlen [OF r(1)]
  have col: "nano_col s \<le> length (cstr ?l)" using assms(1) by (simp add: nano_wf_def)
  show ?thesis
  proof (cases "159 \<le> length (cstr ?l)")
    case True
    then show ?thesis using assms(1) r st nano_cur_line [OF assms(1)] by (auto simp: nano_insert_char_def NANO_MAX_COL_def doc_insert_def)
  next
    case False
    then obtain t where t: "memmove_down ?l (nano_col s + 1) (nano_col s) (Suc (length (cstr ?l)) - nano_col s) = Some t"
      "length t = 160" "row_ok (blit t (nano_col s) [c])"
      "cstr (blit t (nano_col s) [c]) = take (nano_col s) (cstr ?l) @ c # drop (nano_col s) (cstr ?l)"
      using row_insert [OF r(1) col, of "[c]"] assms(2) by auto
    have "wr t (nano_col s) c = Some (t[nano_col s := c])" using t(2) col False by (simp add: mem_simps)
    moreover have "t[nano_col s := c] = blit t (nano_col s) [c]" using t(2) col False by (simp add: blit_def upd_conv_take_nth_drop)
    ultimately have "nano_insert_char c s = Some (s\<lparr>nano_lines := (nano_lines s)[nano_row s := blit t (nano_col s) [c]],
        nano_col := nano_col s + 1, nano_modified := True\<rparr>)"
      using r st t(1) False col by (simp add: nano_insert_char_def NANO_MAX_COL_def)
    moreover have "nano_wf (s\<lparr>nano_lines := (nano_lines s)[nano_row s := blit t (nano_col s) [c]], nano_col := nano_col s + 1, nano_modified := True\<rparr>)"
      using w t(3,4) col len by (simp add: nano_wf_def rows_ok_update)
    ultimately show ?thesis using False t(4) nano_cur_line [OF assms(1)] by (simp add: doc_insert_def) (simp add: nano_doc_def texts_update)
  qed
qed

lemma nano_backspace_refines:
  assumes "nano_wf s"
  shows "\<exists>s'. nano_backspace s = Some s' \<and> nano_wf s' \<and> nano_doc s' = doc_backspace (nano_doc s)"
proof -
  have w: "rows_ok (nano_lines s)" "nano_lcount s \<le> 512" "nano_row s < nano_lcount s" using assms by (auto simp: nano_wf_def)
  let ?l = "nano_lines s ! nano_row s"
  have len: "length (nano_lines s) = 512" using w by (simp add: rows_ok_def)
  note r = nano_row_ok [OF assms w(3)]
  note st = row_strlen [OF r(1)]
  have col: "nano_col s \<le> length (cstr ?l)" using assms by (simp add: nano_wf_def)
  consider "0 < nano_col s" | "nano_col s = 0" "0 < nano_row s" | "nano_col s = 0" "nano_row s = 0" by auto
  then show ?thesis
  proof cases
    case 1
    then obtain t where t: "memmove_up ?l (nano_col s - 1) (nano_col s) (Suc (length (cstr ?l)) - nano_col s) 0 = Some t" "row_ok t"
      "cstr t = take (nano_col s - 1) (cstr ?l) @ drop (nano_col s) (cstr ?l)"
      using row_remove [OF r(1), of "nano_col s - 1" 1] col by auto
    have "nano_backspace s = Some (s\<lparr>nano_lines := (nano_lines s)[nano_row s := t], nano_col := nano_col s - 1, nano_modified := True\<rparr>)"
      using r st t(1) 1 by (simp add: nano_backspace_def)
    moreover have "nano_wf (s\<lparr>nano_lines := (nano_lines s)[nano_row s := t], nano_col := nano_col s - 1, nano_modified := True\<rparr>)"
      using w t(2,3) col len by (simp add: nano_wf_def rows_ok_update)
    ultimately show ?thesis using 1 t(3) nano_cur_line [OF assms] by (simp add: doc_backspace_def) (simp add: nano_doc_def texts_update)
  next
    case 2
    let ?r = "nano_row s - 1"
    let ?a = "cstr (nano_lines s ! ?r)"
    have lt: "?r < nano_lcount s" using w(3) by simp
    note ra = nano_row_ok [OF assms lt]
    obtain ls' where ls': "merge_lines (nano_lines s) (nano_row s) (length ?a) (min (159 - length ?a) (length (cstr ?l))) (nano_lcount s) = Some ls'"
      "rows_ok ls'" "texts ls' (nano_lcount s - 1) = take ?r (texts (nano_lines s) (nano_lcount s)) @ take 159 (?a @ cstr ?l) #
         drop (Suc (nano_row s)) (texts (nano_lines s) (nano_lcount s))"
      using rows_merge [OF w(1) 2(2) w(3,2)] by blast
    let ?c = "length ?a + min (159 - length ?a) (length (cstr ?l))"
    let ?s = "s\<lparr>nano_lines := ls', nano_lcount := nano_lcount s - 1, nano_row := ?r, nano_col := ?c, nano_modified := True\<rparr>"
    have c: "?c \<le> 159" using row_len [OF ra(1)] by simp
    have "nano_backspace s = Some ?s"
      using r st ra(3) ls'(1) 2 c by (simp add: nano_backspace_def NANO_MAX_COL_def Let_def)
    moreover have "cstr (ls' ! ?r) = take 159 (?a @ cstr ?l)"
    proof -
      have "length (take ?r (texts (nano_lines s) (nano_lcount s))) = ?r" using w by simp
      then have "texts ls' (nano_lcount s - 1) ! ?r = take 159 (?a @ cstr ?l)" unfolding ls'(3) by (metis nth_append_length)
      then show ?thesis using texts_nth [OF ls'(2), of "nano_lcount s - 1" ?r] w 2(2) by simp
    qed
    then have "nano_wf ?s" using ls'(2) w 2(2) row_len [OF ra(1)] by (auto simp: nano_wf_def)
    moreover have "nano_doc ?s = doc_backspace (nano_doc s)"
    proof -
      have "doc_lines (nano_doc s) ! (doc_row (nano_doc s) - 1) = ?a" using texts_nth [OF w(1,2) lt] by (simp add: nano_doc_def)
      then show ?thesis using 2 ls'(3) nano_cur_line [OF assms] by (simp add: doc_backspace_def Let_def) (simp add: nano_doc_def)
    qed
    ultimately show ?thesis by blast
  next
    case 3
    then show ?thesis using assms r st by (simp add: nano_backspace_def doc_backspace_def) (simp add: nano_doc_def)
  qed
qed

lemma nano_newline_refines:
  assumes "nano_wf s"
  shows "\<exists>s'. nano_newline s = Some s' \<and> nano_wf s' \<and> nano_doc s' = doc_newline (nano_doc s)"
proof -
  have w: "rows_ok (nano_lines s)" "nano_lcount s \<le> 512" "nano_row s < nano_lcount s" using assms by (auto simp: nano_wf_def)
  let ?r = "nano_row s"
  let ?l = "nano_lines s ! ?r"
  let ?T = "texts (nano_lines s) (nano_lcount s)"
  note r = nano_row_ok [OF assms w(3)]
  have col: "nano_col s \<le> length (cstr ?l)" using assms by (simp add: nano_wf_def)
  have lT: "length ?T = nano_lcount s" using w by simp
  show ?thesis
  proof (cases "512 \<le> nano_lcount s")
    case True
    then show ?thesis using assms r lT by (simp add: nano_newline_def NANO_MAX_LINES_def doc_newline_def) (simp add: nano_doc_def)
  next
    case False
    obtain l1 where l1: "open_row (nano_lines s) (?r + 1) (nano_lcount s) = Some l1" "rows_ok l1"
      "texts l1 (Suc (nano_lcount s)) = take (?r + 1) ?T @ [] # drop (?r + 1) ?T" "l1 ! (?r + 1) = replicate 160 0" "l1 ! ?r = ?l"
      using rows_open [OF w(1), of "?r + 1" "nano_lcount s"] w(3) False by auto
    obtain x y where xy: "split_row l1 ?r (nano_col s) (length (cstr ?l)) = Some (l1[?r + 1 := y, ?r := x])" "row_ok x" "row_ok y"
      "cstr x = take (nano_col s) (cstr ?l)" "cstr y = drop (nano_col s) (cstr ?l)"
      using row_split_at [OF l1(2), of ?r "cstr ?l" "nano_col s"] l1(4,5) w False col by auto
    let ?ls = "l1[?r + 1 := y, ?r := x]"
    let ?s = "s\<lparr>nano_lines := ?ls, nano_lcount := nano_lcount s + 1, nano_row := ?r + 1, nano_col := 0, nano_modified := True\<rparr>"
    have "nano_newline s = Some ?s" using r(3) l1(1) xy(1) False by (simp add: nano_newline_def NANO_MAX_LINES_def)
    moreover have "nano_wf ?s" using l1(2) xy(2,3) w False by (simp add: nano_wf_def rows_ok_update)
    moreover have "nano_doc ?s = doc_newline (nano_doc s)"
    proof -
      have "texts ?ls (Suc (nano_lcount s)) = take ?r ?T @ take (nano_col s) (cstr ?l) # drop (nano_col s) (cstr ?l) # drop (Suc ?r) ?T"
        using lT w(3) by (simp add: texts_update l1(3) xy(4,5) list_update_append take_Suc_snoc)
      then show ?thesis using False lT nano_cur_line [OF assms] by (simp add: doc_newline_def) (simp add: nano_doc_def)
    qed
    ultimately show ?thesis by blast
  qed
qed

interpretation nano_ed: text_editor nano_wf nano_doc nano_insert_char nano_backspace nano_newline
  by unfold_locales (auto intro: nano_doc_ok nano_insert_refines nano_backspace_refines nano_newline_refines)

section \<open>Keys\<close>

definition doc_nav :: "int \<Rightarrow> doc \<Rightarrow> doc" where
  "doc_nav dir d =
     (if dir = 1 then
        (if 0 < doc_row d then d\<lparr>doc_row := doc_row d - 1, doc_col := min (doc_col d) (length (doc_lines d ! (doc_row d - 1)))\<rparr> else d)
      else if dir = 2 then
        (if doc_row d + 1 < length (doc_lines d)
         then d\<lparr>doc_row := doc_row d + 1, doc_col := min (doc_col d) (length (doc_lines d ! (doc_row d + 1)))\<rparr> else d)
      else if dir = 3 then
        (if 0 < doc_col d then d\<lparr>doc_col := doc_col d - 1\<rparr>
         else if 0 < doc_row d then d\<lparr>doc_row := doc_row d - 1, doc_col := length (doc_lines d ! (doc_row d - 1))\<rparr>
         else d)
      else
        (if doc_col d < length (cur_line d) then d\<lparr>doc_col := doc_col d + 1\<rparr>
         else if doc_row d + 1 < length (doc_lines d) then d\<lparr>doc_row := doc_row d + 1, doc_col := 0\<rparr>
         else d))"

text \<open>What a key does to a document; a key without a meaning does nothing.\<close>

definition doc_key :: "int \<Rightarrow> doc \<Rightarrow> doc" where
  "doc_key ev d =
     (if 257 \<le> ev \<and> ev \<le> 260 then doc_nav (ev - 256) d
      else if ev = 8 then doc_backspace d
      else if ev = 10 then doc_newline d
      else if ev = 9 then (doc_insert 32 ^^ (4 - doc_col d mod 4)) d
      else if 32 \<le> ev \<and> ev < 127 then doc_insert (of_int ev) d
      else d)"

text \<open>What is on the screen starts inside the text.\<close>

definition view_ok :: "nano_st \<Rightarrow> bool" where
  "view_ok s \<longleftrightarrow> 0 \<le> nano_scroll s \<and> 0 \<le> nano_scroll_x s"

lemma nano_clamp:
  assumes "rows_ok (nano_lines s)" and "nano_lcount s \<le> 512" and "nano_row s < nano_lcount s" and "view_ok s" and "2 \<le> term_height t"
  shows "\<exists>x y. nano_clamp_cursor t s = Some (s\<lparr>nano_col := min (nano_col s) (length (cstr (nano_lines s ! nano_row s))),
      nano_scroll := y, nano_scroll_x := x\<rparr>) \<and> 0 \<le> y \<and> 0 \<le> x"
proof -
  let ?c = "min (nano_col s) (length (cstr (nano_lines s ! nano_row s)))"
  let ?y1 = "if int (nano_row s) < nano_scroll s then int (nano_row s) else nano_scroll s"
  let ?y = "if ?y1 + int (term_height t) - 1 \<le> int (nano_row s) then int (nano_row s) - (int (term_height t) - 2) else ?y1"
  let ?x1 = "if int ?c < nano_scroll_x s then int ?c else nano_scroll_x s"
  let ?x2 = "if ?x1 + int (term_width t) \<le> int ?c then int ?c - int (term_width t) + 1 else ?x1"
  let ?x = "if ?x2 < 0 then 0 else ?x2"
  have "nano_line_name_len s (nano_row s) = Some (length (cstr (nano_lines s ! nano_row s)))"
    using rows_ok_nth [OF assms(1), of "nano_row s"] assms(2,3) by (simp add: nano_line_name_len_def line_len_def row_strlen)
  moreover have "min (nano_col s) (length (cstr (nano_lines s ! nano_row s))) =
      (if length (cstr (nano_lines s ! nano_row s)) < nano_col s then length (cstr (nano_lines s ! nano_row s)) else nano_col s)" by simp
  moreover have "(if nano_lcount s \<le> nano_row s then nano_lcount s - 1 else nano_row s) = nano_row s" using assms(3) by simp
  ultimately have "nano_clamp_cursor t s = Some (s\<lparr>nano_col := ?c, nano_scroll := ?y, nano_scroll_x := ?x\<rparr>)"
    unfolding nano_clamp_cursor_def Let_def by simp
  moreover have "0 \<le> ?y" "0 \<le> ?x" using assms(4,5) by (auto simp: view_ok_def)
  ultimately show ?thesis by blast
qed

lemma nano_row_move:
  assumes "nano_wf s" and "view_ok s" and "2 \<le> term_height t" and "r < nano_lcount s"
  shows "\<exists>s'. nano_clamp_cursor t (s\<lparr>nano_row := r\<rparr>) = Some s' \<and> nano_wf s' \<and> view_ok s' \<and>
    nano_doc s' = (nano_doc s)\<lparr>doc_row := r, doc_col := min (nano_col s) (length (doc_lines (nano_doc s) ! r))\<rparr>"
proof -
  have w: "rows_ok (nano_lines s)" "nano_lcount s \<le> 512" using assms(1) by (auto simp: nano_wf_def)
  obtain x y where "nano_clamp_cursor t (s\<lparr>nano_row := r\<rparr>) = Some (s\<lparr>nano_row := r, nano_col := min (nano_col s) (length (cstr (nano_lines s ! r))),
      nano_scroll := y, nano_scroll_x := x\<rparr>)" "0 \<le> y" "0 \<le> x"
    using nano_clamp [of "s\<lparr>nano_row := r\<rparr>" t] w assms(2-4) by (auto simp: view_ok_def)
  then show ?thesis using w assms(4) texts_nth [OF w assms(4)] by (auto simp: nano_wf_def view_ok_def nano_doc_def)
qed

lemma nano_nav_refines:
  assumes "nano_wf s" and "view_ok s" and "2 \<le> term_height t" and "dir \<in> {1, 2, 3, 4}"
  shows "\<exists>s'. nano_nav t dir s = Some s' \<and> nano_wf s' \<and> view_ok s' \<and> nano_doc s' = doc_nav dir (nano_doc s)"
proof -
  have w: "rows_ok (nano_lines s)" "nano_lcount s \<le> 512" "nano_row s < nano_lcount s" using assms(1) by (auto simp: nano_wf_def)
  have col: "nano_col s \<le> length (cstr (nano_lines s ! nano_row s))" using assms(1) by (simp add: nano_wf_def)
  have d: "doc_row (nano_doc s) = nano_row s" "doc_col (nano_doc s) = nano_col s" "length (doc_lines (nano_doc s)) = nano_lcount s"
    using w by (simp_all add: nano_doc_def)
  have nth: "doc_lines (nano_doc s) ! r = cstr (nano_lines s ! r)" if "r < nano_lcount s" for r
    using texts_nth [OF w(1,2) that] by (simp add: nano_doc_def)
  note len = nano_row_ok(3) [OF assms(1)]
  consider "dir = 1" | "dir = 2" | "dir = 3" | "dir = 4" using assms(4) by auto
  then show ?thesis
  proof cases
    case 1
    then show ?thesis using nano_row_move [OF assms(1-3), of "nano_row s - 1"] w(3) d assms by (auto simp: nano_nav_def doc_nav_def)
  next
    case 2
    then show ?thesis using nano_row_move [OF assms(1-3), of "nano_row s + 1"] w(3) d assms by (auto simp: nano_nav_def doc_nav_def less_diff_conv)
  next
    case 3
    then show ?thesis using w d assms(1,2) col len [of "nano_row s - 1"] nth [of "nano_row s - 1"]
      by (auto simp: nano_nav_def doc_nav_def nano_wf_def view_ok_def nano_doc_def)
  next
    case 4
    then show ?thesis using w d assms(1,2) col len [of "nano_row s"] nano_cur_line [OF assms(1)]
      by (auto simp: nano_nav_def doc_nav_def nano_wf_def view_ok_def nano_doc_def less_diff_conv)
  qed
qed

lemma nano_view_same:
  "nano_insert_char c s = Some s' \<Longrightarrow> nano_scroll s' = nano_scroll s \<and> nano_scroll_x s' = nano_scroll_x s \<and>
     nano_fname s' = nano_fname s \<and> nano_status s' = nano_status s"
  "nano_backspace s = Some s' \<Longrightarrow> nano_scroll s' = nano_scroll s \<and> nano_scroll_x s' = nano_scroll_x s \<and>
     nano_fname s' = nano_fname s \<and> nano_status s' = nano_status s"
  "nano_newline s = Some s' \<Longrightarrow> nano_scroll s' = nano_scroll s \<and> nano_scroll_x s' = nano_scroll_x s \<and>
     nano_fname s' = nano_fname s \<and> nano_status s' = nano_status s"
  by (auto simp: nano_insert_char_def nano_backspace_def nano_newline_def Let_def split: bind_splits if_splits)

text \<open>The strings of the status line and the file name.\<close>

definition nano_ok :: "nano_st \<Rightarrow> bool" where
  "nano_ok s \<longleftrightarrow> nano_wf s \<and> view_ok s \<and> length (nano_status s) = 80 \<and> terminated (nano_status s) \<and> terminated (nano_fname s)"

lemma nano_clamp_same:
  "nano_clamp_cursor t s = Some s' \<Longrightarrow> nano_fname s' = nano_fname s \<and> nano_status s' = nano_status s \<and> nano_modified s' = nano_modified s"
  unfolding nano_clamp_cursor_def Let_def by (cases "nano_line_name_len s (nano_row s)") (simp_all, clarsimp)

lemma nano_nav_same:
  "nano_nav t dir s = Some s' \<Longrightarrow> nano_fname s' = nano_fname s \<and> nano_status s' = nano_status s"
  by (auto simp: nano_nav_def split: bind_splits if_splits dest!: nano_clamp_same)

lemma insert_spaces_refines:
  assumes "nano_ok s"
  shows "\<exists>s'. insert_spaces n s = Some s' \<and> nano_ok s' \<and> nano_doc s' = (doc_insert 32 ^^ n) (nano_doc s)"
  using assms
proof (induction n arbitrary: s)
  case (Suc n)
  obtain s1 where s1: "nano_insert_char 32 s = Some s1" "nano_wf s1" "nano_doc s1 = doc_insert 32 (nano_doc s)"
    using nano_insert_refines [of s 32] Suc.prems by (auto simp: nano_ok_def)
  then have "nano_ok s1" using Suc.prems nano_view_same(1) [OF s1(1)] by (simp add: nano_ok_def view_ok_def)
  then show ?case using Suc.IH [of s1] s1(1,3) by (simp add: funpow_swap1)
qed simp

lemma edit_key_refines:
  assumes "nano_ok s" and "2 \<le> term_height t"
  shows "\<exists>s'. edit_key t ev s = Some s' \<and> nano_ok s' \<and> nano_doc s' = doc_key ev (nano_doc s)"
proof -
  have w: "nano_wf s" "view_ok s" using assms(1) by (auto simp: nano_ok_def)
  have ev: "EV_NAV 1 = 257" "EV_NAV 4 = 260" by (simp_all add: EV_NAV_def)
  consider "ev \<in> {257, 258, 259, 260}" | "ev = 8" | "ev = 10" | "ev = 9" | "32 \<le> ev" "ev < 127"
    | "\<not> (257 \<le> ev \<and> ev \<le> 260)" "ev \<noteq> 8" "ev \<noteq> 10" "ev \<noteq> 9" "\<not> (32 \<le> ev \<and> ev < 127)" by force
  then show ?thesis
  proof cases
    case 1
    then have d: "and ev 255 = ev - 256" "ev - 256 \<in> {1, 2, 3, 4}" "257 \<le> ev" "ev \<le> 260" by auto
    obtain s' where s': "nano_nav t (ev - 256) s = Some s'" "nano_wf s'" "view_ok s'" "nano_doc s' = doc_nav (ev - 256) (nano_doc s)"
      using nano_nav_refines [OF w assms(2) d(2)] by blast
    then have "nano_ok s'" using assms(1) nano_nav_same [OF s'(1)] by (simp add: nano_ok_def)
    then show ?thesis using s' d by (simp add: edit_key_def doc_key_def ev)
  next
    case 2
    obtain s' where s': "nano_backspace s = Some s'" "nano_wf s'" "nano_doc s' = doc_backspace (nano_doc s)"
      using nano_backspace_refines [OF w(1)] by blast
    then have "nano_ok s'" using assms(1) nano_view_same(2) [OF s'(1)] by (simp add: nano_ok_def view_ok_def)
    then show ?thesis using s' 2 by (simp add: edit_key_def doc_key_def ev)
  next
    case 3
    obtain s' where s': "nano_newline s = Some s'" "nano_wf s'" "nano_doc s' = doc_newline (nano_doc s)"
      using nano_newline_refines [OF w(1)] by blast
    then have "nano_ok s'" using assms(1) nano_view_same(3) [OF s'(1)] by (simp add: nano_ok_def view_ok_def)
    then show ?thesis using s' 3 by (simp add: edit_key_def doc_key_def ev)
  next
    case 4
    then show ?thesis using insert_spaces_refines [OF assms(1), of "nano_tab_w s"]
      by (simp add: edit_key_def doc_key_def ev nano_tab_w_def) (simp add: nano_doc_def)
  next
    case 5
    have "(of_int ev :: u8) \<noteq> 0"
    proof
      assume "(of_int ev :: u8) = 0"
      then have "uint (of_int ev :: u8) = 0" by simp
      moreover have "uint (of_int ev :: u8) = ev" using 5 by (simp add: uint_word_of_int_eq take_bit_int_eq_self)
      ultimately show False using 5(1) by simp
    qed
    then obtain s' where s': "nano_insert_char (of_int ev) s = Some s'" "nano_wf s'" "nano_doc s' = doc_insert (of_int ev) (nano_doc s)"
      using nano_insert_refines [OF w(1)] by blast
    then have "nano_ok s'" using assms(1) nano_view_same(1) [OF s'(1)] by (simp add: nano_ok_def view_ok_def)
    then show ?thesis using s' 5 by (simp add: edit_key_def doc_key_def ev)
  next
    case 6
    have n: "\<not> (EV_NAV 1 \<le> ev \<and> ev \<le> EV_NAV 4)" using 6(1) by (simp add: ev)
    have "edit_key t ev s = Some s" unfolding edit_key_def if_not_P [OF n] if_not_P [OF 6(5)] using 6 by simp
    moreover have "doc_key ev (nano_doc s) = nano_doc s" unfolding doc_key_def if_not_P [OF 6(1)] if_not_P [OF 6(5)] using 6 by simp
    ultimately show ?thesis using assms(1) by simp
  qed
qed

section \<open>Drawing\<close>

lemma term_putch_keeps:
  assumes "term_ok t" and "x < term_width t" and "y < term_height t"
  shows "\<exists>t'. term_putch_at c color x y t = Some t' \<and> term_ok t' \<and> term_same t t'"
  using term_putch_at_ok [OF assms, of c color] assms(1) by (auto simp: term_ok_def term_same_def)

lemma draw_cells_ok:
  assumes "term_ok t" and "x + n \<le> term_width t" and "y < term_height t" and "\<And>i. x \<le> i \<Longrightarrow> i < x + n \<Longrightarrow> f i \<noteq> None"
  shows "\<exists>t'. draw_cells f color y x n t = Some t' \<and> term_ok t' \<and> term_same t t'"
  using assms
proof (induction n arbitrary: x t)
  case (Suc n)
  obtain c where c: "f x = Some c" using Suc.prems(4) [of x] by auto
  obtain t1 where t1: "term_putch_at c color x y t = Some t1" "term_ok t1" "term_same t t1"
    using term_putch_keeps [of t x y c color] Suc.prems by auto
  have "term_width t1 = term_width t" "term_height t1 = term_height t" using t1(3) by (simp_all add: term_same_def)
  then obtain t2 where "draw_cells f color y (Suc x) n t1 = Some t2" "term_ok t2" "term_same t1 t2"
    using Suc.IH [OF t1(2), of "Suc x"] Suc.prems(2,3,4) by auto
  then show ?case using c t1 term_same_trans by auto
qed simp

lemma draw_string_ok:
  assumes "term_ok t" and "y < term_height t" and "w = term_width t" and "terminated str" and "i \<le> length (cstr str)"
  shows "\<exists>t'. draw_string str color y i w t = Some t' \<and> term_ok t' \<and> term_same t t'"
  using assms
proof (induction str color y i w t rule: draw_string.induct)
  case (1 str color y i w t)
  have r: "rd str i = Some (str ! i)" using 1(6) cstr_length [OF 1(5)] by (simp add: rd_in)
  show ?case
  proof (cases "str ! i \<noteq> 0 \<and> i < w")
    case True
    then obtain t1 where t1: "term_putch_at (str ! i) color i y t = Some t1" "term_ok t1" "term_same t t1"
      using term_putch_keeps [of t i y "str ! i" color] 1(2-4) by auto
    have "i \<noteq> length (cstr str)" using True cstr_stop [OF 1(5)] by auto
    then obtain t2 where "draw_string str color y (Suc i) w t1 = Some t2" "term_ok t2" "term_same t1 t2"
      using 1(1) [OF r True t1(1,2)] 1(3-6) t1(3) by (auto simp: term_same_def)
    then show ?thesis using True r t1 term_same_trans by (subst draw_string.simps) auto
  qed (use r 1(2) in \<open>subst draw_string.simps, auto\<close>)
qed

lemma draw_blank_ok:
  assumes "term_ok t" and "r + n \<le> term_height t" and "w = term_width t"
  shows "\<exists>t'. draw_blank color r n w t = Some t' \<and> term_ok t' \<and> term_same t t'"
  using assms
proof (induction n arbitrary: r t)
  case (Suc n)
  obtain t1 where t1: "draw_cells (\<lambda>x. Some 32) color r 0 w t = Some t1" "term_ok t1" "term_same t t1"
    using draw_cells_ok [of t 0 w r "\<lambda>x. Some 32" color] Suc.prems by auto
  then obtain t2 where "draw_blank color (Suc r) n w t1 = Some t2" "term_ok t2" "term_same t1 t2"
    using Suc.IH [OF t1(2), of "Suc r"] Suc.prems(2,3) by (auto simp: term_same_def)
  then show ?case using t1 term_same_trans by auto
qed simp

lemma draw_text_ok:
  assumes "term_ok t" and "r + n \<le> term_height t" and "w = term_width t" and "nano_wf s" and "view_ok s"
  shows "\<exists>t'. draw_text s color r n w t = Some t' \<and> term_ok t' \<and> term_same t t'"
  using assms
proof (induction n arbitrary: r t)
  case (Suc n)
  show ?case
  proof (cases "int (nano_lcount s) \<le> nano_scroll s + int r")
    case True
    then show ?thesis using draw_blank_ok [OF Suc.prems(1-3)] by simp
  next
    case False
    let ?i = "nat (nano_scroll s + int r)"
    have i: "0 \<le> nano_scroll s + int r" "?i < nano_lcount s" using False Suc.prems(5) by (auto simp: view_ok_def)
    have l: "rdi (nano_lines s) (nano_scroll s + int r) = Some (nano_lines s ! ?i)" "length (nano_lines s ! ?i) = 160"
      using nano_row_ok(1,2) [OF Suc.prems(4) i(2)] i(1) by (simp_all add: rdi_def row_ok_def)
    have "text_cell (nano_lines s ! ?i) (nano_scroll_x s) k \<noteq> None" for k
      using l(2) Suc.prems(5) by (auto simp: text_cell_def view_ok_def rdi_def NANO_MAX_COL_def rd_in nat_less_iff)
    then obtain t1 where t1: "draw_cells (text_cell (nano_lines s ! ?i) (nano_scroll_x s)) color r 0 w t = Some t1" "term_ok t1" "term_same t t1"
      using draw_cells_ok [of t 0 w r "text_cell (nano_lines s ! ?i) (nano_scroll_x s)" color] Suc.prems by auto
    then obtain t2 where "draw_text s color (Suc r) n w t1 = Some t2" "term_ok t2" "term_same t1 t2"
      using Suc.IH [OF t1(2), of "Suc r"] Suc.prems(2-5) by (auto simp: term_same_def)
    then show ?thesis using False l(1) t1 term_same_trans by auto
  qed
qed simp

lemma snprintf_string:
  assumes "terminated format" and "0 < sz" and "sz \<le> length b" and "fmt_out (cstr format) ap = Some out"
  shows "\<exists>b' n. snprintf b sz format ap = Some (b', n) \<and> length b' = length b \<and> terminated b'"
proof -
  have "length (clip sz out @ [0]) \<le> length b" using length_clip [OF assms(2), of out] assms(3) by simp
  then have "length (blit b 0 (clip sz out @ [0])) = length b" by (simp add: mem_simps)
  moreover have "terminated (blit b 0 (clip sz out @ [0]))" by (simp add: terminated_def blit_def)
  ultimately show ?thesis using snprintf_blit [OF assms] by auto
qed

lemma cstring_terminated [simp]: "terminated (cstring xs)"
  by (simp add: cstring_def terminated_def)

lemma nano_bar_ok:
  assumes "nano_ok s"
  shows "\<exists>b. nano_bar s = Some b \<and> terminated b"
proof -
  have st: "length (nano_status s) = 80" "terminated (nano_status s)" "terminated (nano_fname s)" using assms by (auto simp: nano_ok_def)
  let ?f = "cstring ''%s  [Ln %d, Col %d]%s  ^O save  ^X exit  ^G help''"
  let ?ap = "[VStr (nano_fname s), VInt (of_nat (nano_row s + 1)), VInt (of_nat (nano_col s + 1)),
    VStr (if nano_modified s then cstring ''  [modified]'' else cstring [])]"
  have "\<exists>out. fmt_out (cstr ?f) ?ap = Some out" using st(3) by (simp add: cstring_def cstr_def fmt_out_cons terminated_def)
  then obtain out where "fmt_out (cstr ?f) ?ap = Some out" ..
  then obtain b n where "snprintf (replicate 128 0) 128 ?f ?ap = Some (b, n)" "terminated b"
    using snprintf_string [of ?f 128 "replicate 128 0" ?ap out] by auto
  then show ?thesis using st by (simp add: nano_bar_def rd_in)
qed

lemma nano_draw_ok:
  assumes "nano_ok s" and "term_ok t" and "2 \<le> term_height t"
  shows "\<exists>t'. nano_draw s t = Some t' \<and> term_ok t' \<and> term_same t t'"
proof -
  have w: "nano_wf s" "view_ok s" using assms(1) by (auto simp: nano_ok_def)
  obtain t0 where t0: "term_clear t = Some t0" "term_ok t0" "term_same t t0"
    using term_clear_ok [of t] assms(2) by (auto simp: screen_ok_def term_ok_def)
  let ?w = "term_width t0" and ?h = "term_height t0"
  have h: "2 \<le> ?h" using assms(3) t0(3) by (simp add: term_same_def)
  obtain t1 where t1: "draw_text s (vga_entry_color 7 0) 0 (?h - 1) ?w t0 = Some t1" "term_ok t1" "term_same t0 t1"
    using draw_text_ok [OF t0(2) _ _ w, of 0 "?h - 1" ?w "vga_entry_color 7 0"] by auto
  obtain t2 where t2: "draw_cells (\<lambda>x. Some 32) (vga_entry_color 0 7) (?h - 1) 0 ?w t1 = Some t2" "term_ok t2" "term_same t1 t2"
    using draw_cells_ok [OF t1(2), of 0 ?w "?h - 1" "\<lambda>x. Some 32" "vga_entry_color 0 7"] t1(3) h by (auto simp: term_same_def)
  obtain b where b: "nano_bar s = Some b" "terminated b" using nano_bar_ok [OF assms(1)] by blast
  obtain t3 where t3: "draw_string b (vga_entry_color 0 7) (?h - 1) 0 ?w t2 = Some t3" "term_ok t3" "term_same t2 t3"
    using draw_string_ok [OF t2(2), of "?h - 1" ?w b 0 "vga_entry_color 0 7"] b t1(3) t2(3) h by (auto simp: term_same_def)
  have "nano_draw s t = Some (nano_place_cursor s t3)" unfolding nano_draw_def using t0(1) t1(1) t2(1) b(1) t3(1) by simp
  moreover have "term_same t t3" using t0(3) t1(3) t2(3) t3(3) term_same_trans by blast
  then have "term_ok (nano_place_cursor s t3)" "term_same t (nano_place_cursor s t3)"
    using t3(2) by (simp_all add: nano_place_cursor_def Let_def update_cursor_def term_ok_def term_same_def)
  ultimately show ?thesis by blast
qed

section \<open>The loop over keys\<close>

text \<open>The keys that neither write the file nor leave the editor.\<close>

definition stays :: "int \<Rightarrow> bool" where
  "stays ev \<longleftrightarrow> ev \<notin> {EV_CTRL 111, EV_CTRL 79, EV_CTRL 120, EV_CTRL 88, EV_CTRL 99, EV_CTRL 67, EV_CANCEL}"

lemma ev_codes: "EV_CTRL 111 = 623" "EV_CTRL 79 = 591" "EV_CTRL 120 = 632" "EV_CTRL 88 = 600" "EV_CTRL 99 = 611" "EV_CTRL 67 = 579"
  "EV_CTRL 103 = 615" "EV_CTRL 71 = 583" "EV_CANCEL = 768" "EV_REDRAW = 769"
  by (simp_all add: EV_CTRL_def EV_CANCEL_def EV_REDRAW_def)

lemma strcpy_string:
  assumes "terminated src" and "length (cstr src) < length dst"
  shows "\<exists>d. strcpy dst src = Some d \<and> length d = length dst \<and> terminated d"
  using strcpy_loop_blit [OF assms, of 0] assms by (simp add: strcpy_def mem_simps terminated_def) (simp add: blit_def)

lemma nano_key_refines:
  assumes "nano_ok (nano e)" and "2 \<le> term_height (scr e)" and "stays ev"
  shows "\<exists>e'. nano_key ev e = Some (False, e') \<and> nano_ok (nano e') \<and> scr e' = scr e \<and> files e' = files e \<and>
    nano_doc (nano e') = doc_key ev (nano_doc (nano e))"
proof -
  have n: "ev \<noteq> EV_CTRL 111 \<and> ev \<noteq> EV_CTRL 79 \<and> ev \<noteq> EV_CTRL 120 \<and> ev \<noteq> EV_CTRL 88 \<and> ev \<noteq> EV_CTRL 99 \<and> ev \<noteq> EV_CTRL 67 \<and> ev \<noteq> EV_CANCEL"
    using assms(3) by (auto simp: stays_def)
  consider "ev = EV_CTRL 103 \<or> ev = EV_CTRL 71" | "ev = EV_REDRAW" | "\<not> (ev = EV_CTRL 103 \<or> ev = EV_CTRL 71)" "ev \<noteq> EV_REDRAW" by blast
  then show ?thesis
  proof cases
    case 1
    let ?h = "cstring ''^O save  ^X exit  ^G help  arrows move  Backspace delete''"
    have "length (cstr ?h) < length (nano_status (nano e))" using assms(1) by (simp add: nano_ok_def cstring_def cstr_def)
    then obtain b where b: "strcpy (nano_status (nano e)) ?h = Some b" "length b = 80" "terminated b"
      using strcpy_string [of ?h "nano_status (nano e)"] assms(1) by (auto simp: nano_ok_def)
    have k: "nano_key ev e = Some (False, e\<lparr>nano := (nano e)\<lparr>nano_status := b\<rparr>\<rparr>)" using 1 n b(1) by (auto simp: nano_key_def ev_codes)
    have "nano_ok ((nano e)\<lparr>nano_status := b\<rparr>)" using assms(1) b by (simp add: nano_ok_def nano_wf_def view_ok_def)
    moreover have "doc_key ev (nano_doc (nano e)) = nano_doc (nano e)" using 1 by (auto simp: doc_key_def ev_codes)
    ultimately show ?thesis using k by (simp add: nano_doc_def)
  next
    case 2
    then show ?thesis using n assms(1) by (simp add: nano_key_def doc_key_def ev_codes)
  next
    case 3
    then show ?thesis using n edit_key_refines [OF assms(1,2), of ev] by (auto simp: nano_key_def)
  qed
qed

lemma nano_clamp_wf:
  assumes "nano_ok s" and "2 \<le> term_height t"
  shows "\<exists>s'. nano_clamp_cursor t s = Some s' \<and> nano_ok s' \<and> nano_doc s' = nano_doc s"
proof -
  have w: "nano_wf s" "view_ok s" "rows_ok (nano_lines s)" "nano_lcount s \<le> 512" "nano_row s < nano_lcount s"
    "nano_col s \<le> length (cstr (nano_lines s ! nano_row s))" using assms(1) by (auto simp: nano_ok_def nano_wf_def)
  obtain x y where c: "nano_clamp_cursor t s = Some (s\<lparr>nano_col := min (nano_col s) (length (cstr (nano_lines s ! nano_row s))),
      nano_scroll := y, nano_scroll_x := x\<rparr>)" "0 \<le> y" "0 \<le> x" using nano_clamp [OF w(3-5,2) assms(2)] by blast
  let ?s = "s\<lparr>nano_col := min (nano_col s) (length (cstr (nano_lines s ! nano_row s))), nano_scroll := y, nano_scroll_x := x\<rparr>"
  have "nano_ok ?s" using assms(1) w c(2,3) by (simp add: nano_ok_def nano_wf_def view_ok_def)
  moreover have "nano_doc ?s = nano_doc s" using w(6) by (simp add: nano_doc_def)
  ultimately show ?thesis using c(1) by blast
qed

lemma nano_loop_keys:
  assumes "nano_ok (nano e)" and "term_ok (scr e)" and "2 \<le> term_height (scr e)" and "list_all stays evs"
  shows "\<exists>e'. nano_loop evs e = Some (False, e') \<and> nano_ok (nano e') \<and> term_ok (scr e') \<and> files e' = files e \<and>
    nano_doc (nano e') = fold doc_key evs (nano_doc (nano e))"
  using assms
proof (induction evs arbitrary: e)
  case Nil
  obtain s where s: "nano_clamp_cursor (scr e) (nano e) = Some s" "nano_ok s" "nano_doc s = nano_doc (nano e)"
    using nano_clamp_wf [OF Nil(1,3)] by blast
  obtain t where t: "nano_draw s (scr e) = Some t" "term_ok t" using nano_draw_ok [OF s(2) Nil(2,3)] by blast
  show ?case using s t by (subst nano_loop.simps) simp
next
  case (Cons ev evs)
  obtain s where s: "nano_clamp_cursor (scr e) (nano e) = Some s" "nano_ok s" "nano_doc s = nano_doc (nano e)"
    using nano_clamp_wf [OF Cons(2,4)] by blast
  obtain t where t: "nano_draw s (scr e) = Some t" "term_ok t" "term_same (scr e) t" using nano_draw_ok [OF s(2) Cons(3,4)] by blast
  have h: "2 \<le> term_height t" using t(3) Cons(4) by (simp add: term_same_def)
  have st: "stays ev" "list_all stays evs" using Cons(5) by simp_all
  let ?e = "e\<lparr>nano := s, scr := t\<rparr>"
  obtain e' where e': "nano_key ev ?e = Some (False, e')" "nano_ok (nano e')" "scr e' = t" "files e' = files e"
      "nano_doc (nano e') = doc_key ev (nano_doc s)"
    using nano_key_refines [of ?e ev] s(2) h st(1) by auto
  have "nano_loop (ev # evs) e = nano_loop evs e'"
    using s(1) t(1) e'(1) st(1) by (subst nano_loop.simps) (auto simp: stays_def Let_def)
  then show ?case using Cons.IH [of e'] e' t(2) h st(2) s(3) by simp
qed

section \<open>Loading\<close>

text \<open>The line that a part of a file becomes: without a carriage return at its end, and cut at 159 bytes or a zero byte.\<close>

definition strip_cr :: "u8 list \<Rightarrow> u8 list" where
  "strip_cr l = (if l \<noteq> [] \<and> last l = 13 then butlast l else l)"

definition shown_line :: "u8 list \<Rightarrow> u8 list" where
  "shown_line l = takeWhile (\<lambda>c. c \<noteq> 0) (take 159 l)"

text \<open>The state of loading after the lines \<open>ds\<close> and a part \<open>cur\<close> of the next line.\<close>

definition loading :: "load_st \<Rightarrow> u8 list list \<Rightarrow> u8 list \<Rightarrow> bool" where
  "loading d ds cur \<longleftrightarrow> length (tmp_line d) = 4096 \<and> tmp_line d ! 4095 = 0 \<and> tpos d = min (length cur) 4095 \<and>
     take (tpos d) (tmp_line d) = take 4095 cur \<and> rows_ok (ld_lines d) \<and> ld_lcount d = length ds + 1 \<and> length ds < 512 \<and>
     texts (ld_lines d) (length ds) = map (\<lambda>l. shown_line (strip_cr l)) ds"

lemma loading_char:
  assumes "loading d ds cur" and "c \<noteq> 10"
  shows "\<exists>d'. load_char c d = Some d' \<and> loading d' ds (cur @ [c])"
proof (cases "tpos d < 4095")
  case True
  have t: "length (tmp_line d) = 4096" "tpos d = length cur" "take (length cur) (tmp_line d) = cur" "length cur < 4095"
    using assms(1) True by (auto simp: loading_def)
  let ?d = "d\<lparr>tmp_line := (tmp_line d)[tpos d := c], tpos := tpos d + 1\<rparr>"
  have "load_char c d = Some ?d" using True assms(2) t(1) by (simp add: load_char_def mem_simps)
  moreover have "take (Suc (length cur)) ((tmp_line d)[length cur := c]) = cur @ [c]" using t by (simp add: take_Suc_snoc)
  then have "loading ?d ds (cur @ [c])" using assms(1) t by (simp add: loading_def nth_list_update)
  ultimately show ?thesis by blast
next
  case False
  then show ?thesis using assms by (auto simp: loading_def load_char_def)
qed

lemma take_takeWhile_comm: "take n (takeWhile P xs) = takeWhile P (take n xs)"
  by (induction xs arbitrary: n) (simp_all add: take_Cons split: nat.split)

text \<open>The row that a collected line is stored in.\<close>

lemma load_store_row:
  assumes "length (tmp_line d) = 4096" and "terminated (tmp_line d)" and "rows_ok (ld_lines d)" and "0 < ld_lcount d" and "ld_lcount d \<le> 512"
  shows "\<exists>l. load_store d = Some ((ld_lines d)[ld_lcount d - 1 := l]) \<and> row_ok l \<and>
    cstr l = takeWhile (\<lambda>c. c \<noteq> 0) (take (min (tpos d) 159) (tmp_line d))"
proof -
  let ?n = "min (tpos d) 159"
  let ?i = "ld_lcount d - 1"
  let ?l = "ld_lines d ! ?i"
  have r: "row_ok ?l" "rd (ld_lines d) ?i = Some ?l" using rows_ok_nth [OF assms(3), of ?i] assms(4,5) by auto
  have len: "length ?l = 160" using r(1) by (simp add: row_ok_def)
  let ?x = "take ?n (cstr (tmp_line d))"
  let ?y = "?x @ replicate (?n - length (cstr (tmp_line d))) 0"
  have ly: "length ?y = ?n" by (simp add: min_def)
  have cp: "strncpy ?l (tmp_line d) ?n = Some (blit ?l 0 ?y)" using strncpy_blit [OF assms(2), of ?n ?l] len by simp
  have w: "wr (blit ?l 0 ?y) ?n 0 = Some (blit ?l 0 (?y @ [0]))"
    using blit_snoc [of 0 ?y ?l 0] ly len by (simp add: mem_simps)
  have "row_ok (blit ?l 0 (?y @ [0])) \<and> cstr (blit ?l 0 (?y @ [0])) = ?x"
  proof -
    have "length (blit ?l 0 (?y @ [0])) = 160" using ly len by (simp add: mem_simps)
    moreover have "blit ?l 0 (?y @ [0]) = ?x @ 0 # (replicate (?n - length (cstr (tmp_line d))) 0 @ drop (Suc ?n) ?l)"
      using ly by (simp add: blit_def replicate_app_Cons_same)
    moreover have "0 \<notin> set ?x" using cstr_no_zero by (auto dest: in_set_takeD)
    ultimately show ?thesis using row_ok_string by blast
  qed
  moreover have "?x = takeWhile (\<lambda>c. c \<noteq> 0) (take ?n (tmp_line d))" by (simp add: cstr_def take_takeWhile_comm)
  moreover have "load_store d = Some ((ld_lines d)[?i := blit ?l 0 (?y @ [0])])"
    using r(2) cp w by (simp add: load_store_def NANO_MAX_COL_def Let_def)
  ultimately show ?thesis by auto
qed

lemma terminated_nth: "i < length b \<Longrightarrow> b ! i = 0 \<Longrightarrow> terminated b"
  by (auto simp: terminated_def dest: nth_mem)

lemma loading_last:
  assumes "loading d ds cur"
  shows "\<exists>ls. load_store d = Some ls \<and> rows_ok ls \<and> texts ls (ld_lcount d) = map (\<lambda>l. shown_line (strip_cr l)) ds @ [shown_line cur]"
proof -
  have d: "length (tmp_line d) = 4096" "tmp_line d ! 4095 = 0" "tpos d = min (length cur) 4095" "take (tpos d) (tmp_line d) = take 4095 cur"
    "rows_ok (ld_lines d)" "ld_lcount d = length ds + 1" "length ds < 512"
    "texts (ld_lines d) (length ds) = map (\<lambda>l. shown_line (strip_cr l)) ds" using assms by (auto simp: loading_def)
  obtain l where l: "load_store d = Some ((ld_lines d)[ld_lcount d - 1 := l])" "row_ok l"
    "cstr l = takeWhile (\<lambda>c. c \<noteq> 0) (take (min (tpos d) 159) (tmp_line d))"
    using load_store_row [OF d(1) _ d(5)] terminated_nth [of 4095 "tmp_line d"] d by auto
  have "take (min (tpos d) 159) (tmp_line d) = take 159 (take (tpos d) (tmp_line d))" by (simp add: min.commute)
  also have "\<dots> = take 159 cur" by (simp add: d(4))
  finally have c: "cstr l = shown_line cur" using l(3) by (simp add: shown_line_def)
  have "texts (ld_lines d) (ld_lcount d) = texts (ld_lines d) (length ds) @ [cstr (ld_lines d ! length ds)]"
    using d(5,6,7) by (simp add: texts_def take_Suc_snoc rows_ok_def)
  then have "texts ((ld_lines d)[ld_lcount d - 1 := l]) (ld_lcount d) = map (\<lambda>l. shown_line (strip_cr l)) ds @ [shown_line cur]"
    using d(6,8) c by (simp add: texts_update list_update_append)
  then show ?thesis using l(1) rows_ok_update [OF d(5) l(2)] by auto
qed

lemma last_take_nth: "0 < n \<Longrightarrow> n \<le> length xs \<Longrightarrow> last (take n xs) = xs ! (n - 1)"
  by (subst last_conv_nth) auto

text \<open>The end of a line: the byte that is cleared, and what is then shown.\<close>

lemma newline_shown:
  assumes "loading d ds cur"
  defines "cr \<equiv> 0 < tpos d \<and> tmp_line d ! (tpos d - 1) = 13"
  defines "tmp \<equiv> (tmp_line d)[if cr then tpos d - 1 else tpos d := 0]"
  shows "takeWhile (\<lambda>c. c \<noteq> 0) (take (min (tpos d) 159) tmp) = shown_line (strip_cr cur)"
proof -
  have d: "length (tmp_line d) = 4096" "tpos d = min (length cur) 4095" "take (tpos d) (tmp_line d) = take 4095 cur"
    using assms(1) by (auto simp: loading_def)
  have t159: "take 159 (tmp_line d) = take 159 cur" if "159 \<le> tpos d"
  proof -
    have "take 159 (take (tpos d) (tmp_line d)) = take 159 (take 4095 cur)" by (simp only: d(3))
    then show ?thesis using that by (simp add: min_def)
  qed
  have short: "take (tpos d) (tmp_line d) = cur" "tpos d = length cur" if "tpos d < 159" using that d(2,3) by auto
  show ?thesis
  proof (cases cr)
    case False
    have nocr: "\<not> (cur \<noteq> [] \<and> last cur = 13) \<or> 4095 < length cur"
    proof (rule ccontr)
      assume "\<not> ?thesis"
      then have c: "cur \<noteq> []" "last cur = 13" "length cur \<le> 4095" by auto
      have t: "tpos d = length cur" "take (length cur) (tmp_line d) = cur" using c(3) d(2,3) by auto
      have "last cur = tmp_line d ! (length cur - 1)" using last_take_nth [of "length cur" "tmp_line d"] t(2) c(1,3) d(1) by simp
      then show False using False c(1,2) t(1) by (simp add: cr_def)
    qed
    have "take (min (tpos d) 159) tmp = take 159 cur"
    proof (cases "tpos d < 159")
      case True
      then show ?thesis using False short by (simp add: tmp_def min_def)
    next
      case ge: False
      then show ?thesis using False t159 by (simp add: tmp_def min_def)
    qed
    then show ?thesis using nocr by (auto simp: shown_line_def strip_cr_def butlast_conv_take)
  next
    case True
    show ?thesis
    proof (cases "tpos d \<le> 159")
      case le: True
      then have cur: "take (length cur) (tmp_line d) = cur" "tpos d = length cur" "0 < length cur" using d True by (auto simp: cr_def)
      have "last cur = tmp_line d ! (length cur - 1)" using last_take_nth [of "length cur" "tmp_line d"] cur le d(1) by simp
      then have "last cur = 13" using True cur(2) by (simp add: cr_def)
      then have st: "strip_cr cur = butlast cur" using cur(3) by (simp add: strip_cr_def)
      have "take (length cur) tmp = butlast cur @ [0]"
      proof -
        have "take (length cur) tmp = cur[length cur - 1 := 0]" using True cur by (simp add: tmp_def take_update_swap)
        then show ?thesis using cur(3) by (metis append_butlast_last_id length_butlast length_greater_0_conv list_update_length)
      qed
      moreover have "takeWhile (\<lambda>c. c \<noteq> 0) (xs @ [0 :: u8]) = takeWhile (\<lambda>c. c \<noteq> 0) xs" for xs
        by (induction xs) simp_all
      moreover have "take 159 (butlast cur) = butlast cur" using le cur by simp
      ultimately show ?thesis using le cur(2) by (simp add: shown_line_def st min_def)
    next
      case False
      then have "take (min (tpos d) 159) tmp = take 159 cur" using True t159 by (simp add: tmp_def min_def)
      moreover have "take 159 (strip_cr cur) = take 159 cur" using False d(2) by (simp add: strip_cr_def butlast_conv_take)
      ultimately show ?thesis by (simp add: shown_line_def)
    qed
  qed
qed

lemma loading_newline:
  assumes "loading d ds cur" and "length ds + 1 < 512"
  shows "\<exists>d'. load_char 10 d = Some d' \<and> loading d' (ds @ [cur]) []"
proof -
  have d: "length (tmp_line d) = 4096" "tmp_line d ! 4095 = 0" "tpos d \<le> 4095" "rows_ok (ld_lines d)" "ld_lcount d = length ds + 1"
    "texts (ld_lines d) (length ds) = map (\<lambda>l. shown_line (strip_cr l)) ds" using assms(1) by (auto simp: loading_def)
  let ?cr = "0 < tpos d \<and> tmp_line d ! (tpos d - 1) = 13"
  let ?tmp = "(tmp_line d)[if ?cr then tpos d - 1 else tpos d := 0]"
  have z: "?tmp ! 4095 = 0" "length ?tmp = 4096" using d(1,2,3) by (simp_all add: nth_list_update)
  let ?d = "d\<lparr>tmp_line := ?tmp\<rparr>"
  obtain l where l: "load_store ?d = Some ((ld_lines d)[length ds := l])" "row_ok l"
    "cstr l = takeWhile (\<lambda>c. c \<noteq> 0) (take (min (tpos d) 159) ?tmp)"
    using load_store_row [of ?d] terminated_nth [of 4095 ?tmp] z d(4,5) assms(2) by auto
  have c: "cstr l = shown_line (strip_cr cur)" using newline_shown [OF assms(1)] l(3) by simp
  let ?ls = "(ld_lines d)[length ds := l]"
  have ok: "rows_ok ?ls" by (rule rows_ok_update [OF d(4) l(2)])
  have nx: "rd ?ls (length ds + 1) = Some (?ls ! (length ds + 1))" "bzero (?ls ! (length ds + 1)) 0 NANO_MAX_COL = Some (replicate 160 0)"
    using rows_ok_nth [OF ok, of "length ds + 1"] assms(2) row_zero by auto
  let ?d' = "d\<lparr>tmp_line := ?tmp, tpos := 0, ld_lines := ?ls[length ds + 1 := replicate 160 0], ld_lcount := length ds + 2\<rparr>"
  have cr: "(if 0 < tpos d then do { c \<leftarrow> rd (tmp_line d) (tpos d - 1); Some (c = 13) } else Some False) = Some ?cr"
    using d(1,3) by (simp add: rd_in)
  have "load_newline d = Some ?d'"
  proof -
    have w: "wr (tmp_line d) (if ?cr then tpos d - 1 else tpos d) 0 = Some ?tmp" using d(1,3) by (simp add: mem_simps)
    have lt: "ld_lcount d < NANO_MAX_LINES" using d(5) assms(2) by (simp add: NANO_MAX_LINES_def)
    have "ld_lcount d = length ds + 1" "ld_lcount d + 1 = length ds + 2" using d(5) by simp_all
    then show ?thesis unfolding load_newline_def cr Option.bind.simps w l(1) if_P [OF lt] by (simp only: nx Option.bind.simps)
  qed
  moreover have "loading ?d' (ds @ [cur]) []"
  proof -
    have "texts (ld_lines d) (length ds + 1) = texts (ld_lines d) (length ds) @ [cstr (ld_lines d ! length ds)]"
      using d(4) assms(2) by (simp add: texts_def take_Suc_snoc rows_ok_def)
    then have "texts (?ls[length ds + 1 := replicate 160 0]) (length ds + 1) = map (\<lambda>l. shown_line (strip_cr l)) (ds @ [cur])"
      using d(6) c by (simp add: texts_update list_update_append)
    then show ?thesis using z ok assms(2) by (simp add: loading_def rows_ok_update)
  qed
  ultimately show ?thesis by (simp add: load_char_def)
qed

end
