(* ===== verification/Ext2Data.thy ===== *)
theory Ext2Data
  imports Ext2File Ext2Store
begin

text \<open>
  File data: what \<open>ext2_read_data\<close> returns and what \<open>ext2_write_data\<close> stores, for files whose blocks are mapped, through direct,
  indirect or doubly indirect pointers.
\<close>

section \<open>The blocks of a file\<close>

text \<open>The block of an index and the pointer tables on the way to it.\<close>

definition phys :: "ext2_st \<Rightarrow> u8 list \<Rightarrow> nat \<Rightarrow> nat" where
  "phys s inode k =
     (let n = ptr_per_block s in
      if k < 12 then i_block inode k
      else if k - 12 < n then fld 4 (blk s (i_block inode 12)) (4 * (k - 12))
      else fld 4 (blk s (fld 4 (blk s (i_block inode 13)) (4 * ((k - 12 - n) div n)))) (4 * ((k - 12 - n) mod n)))"

definition tables :: "ext2_st \<Rightarrow> u8 list \<Rightarrow> nat \<Rightarrow> nat set" where
  "tables s inode k =
     (let n = ptr_per_block s in
      if k < 12 then {}
      else if k - 12 < n then {i_block inode 12}
      else {i_block inode 13, fld 4 (blk s (i_block inode 13)) (4 * ((k - 12 - n) div n))})"

definition max_blocks :: "ext2_st \<Rightarrow> nat" where
  "max_blocks s = 12 + ptr_per_block s + ptr_per_block s * ptr_per_block s"

text \<open>The blocks that hold the first \<open>n\<close> bytes are there.\<close>

definition covered :: "ext2_st \<Rightarrow> u8 list \<Rightarrow> nat \<Rightarrow> bool" where
  "covered s inode n \<longleftrightarrow>
     (\<forall>k. k * block_size s < n \<longrightarrow> k < max_blocks s \<and> block_in s (phys s inode k) \<and> (\<forall>t \<in> tables s inode k. block_in s t))"

text \<open>They are also different, and different from the tables.\<close>

definition separate :: "ext2_st \<Rightarrow> u8 list \<Rightarrow> nat \<Rightarrow> bool" where
  "separate s inode n \<longleftrightarrow>
     (\<forall>k j. k * block_size s < n \<longrightarrow> j * block_size s < n \<longrightarrow>
        (phys s inode k = phys s inode j \<longrightarrow> k = j) \<and> phys s inode k \<notin> tables s inode j)"

definition file_byte :: "ext2_st \<Rightarrow> u8 list \<Rightarrow> nat \<Rightarrow> u8" where
  "file_byte s inode i = blk s (phys s inode (i div block_size s)) ! (i mod block_size s)"

lemma good_size_ptrs: "good_size (block_size s) \<Longrightarrow> ptr_per_block s * 4 = block_size s \<and> 256 \<le> ptr_per_block s \<and> ptr_per_block s \<le> 1024"
  by (auto simp: good_size_def ptr_per_block_def)

lemma read_table:
  assumes "blocks_ok s" and "block_in s t"
  shows "ext2_read_block s t (replicate 4096 0) 0 (block_size s) = Some (block_size s, blit (replicate 4096 0) 0 (blk s t))"
  using assms by (intro ext2_read_block_ok) (auto simp: blocks_ok_def good_size_def)

lemma table_entry:
  assumes "blocks_ok s" and "block_in s t" and "i < ptr_per_block s"
  shows "rd_fld 4 (blit (replicate 4096 0) 0 (blk s t)) (4 * i) = Some (fld 4 (blk s t) (4 * i))"
proof -
  have n: "ptr_per_block s * 4 = block_size s" "ptr_per_block s \<le> 1024" using good_size_ptrs [of s] assms(1) by (auto simp: blocks_ok_def)
  have l: "length (blk s t) = block_size s" using assms(2) by simp
  have i: "4 * i + 4 \<le> block_size s" using n(1) assms(3) by linarith
  have "take 4 (drop (4 * i) (blit (replicate 4096 0) 0 (blk s t))) = take 4 (drop (4 * i) (blk s t))"
    using i l by (simp add: blit_def)
  then show ?thesis using i l n by (simp add: rd_fld_def fld_def length_blit)
qed

lemma one_level:
  assumes "blocks_ok s" and "block_in s t" and "i < ptr_per_block s"
  shows "ext2_get_block_from_ptr s t i 1 = Some (fld 4 (blk s t) (4 * i))"
proof -
  have "block_size s \<noteq> 0" using assms(1) by (auto simp: blocks_ok_def good_size_def)
  then show ?thesis using read_table [OF assms(1,2)] table_entry [OF assms] assms(3)
    by (simp add: ext2_get_block_from_ptr.simps(2) [of s t i 0, simplified])
qed

lemma two_levels:
  assumes "blocks_ok s" and "block_in s t" and "i < ptr_per_block s * ptr_per_block s"
    and "block_in s (fld 4 (blk s t) (4 * (i div ptr_per_block s)))"
  shows "ext2_get_block_from_ptr s t i 2 = Some (fld 4 (blk s (fld 4 (blk s t) (4 * (i div ptr_per_block s)))) (4 * (i mod ptr_per_block s)))"
proof -
  have z: "block_size s \<noteq> 0" "0 < ptr_per_block s" using assms(1) good_size_ptrs [of s] by (auto simp: blocks_ok_def good_size_def)
  have d: "i div ptr_per_block s < ptr_per_block s" using assms(3) by (simp add: less_mult_imp_div_less)
  have m: "i mod ptr_per_block s < ptr_per_block s" using z(2) by simp
  have e: "ext2_get_block_from_ptr s t i 2 = ext2_get_block_from_ptr s t i (Suc 1)" by (simp add: numeral_2_eq_2)
  show ?thesis unfolding e ext2_get_block_from_ptr.simps(2)
    using read_table [OF assms(1,2)] table_entry [OF assms(1,2) d] one_level [OF assms(1,4) m] z d by (simp add: Let_def)
qed

lemma ext2_block_lookup_ok:
  assumes "blocks_ok s" and "k < max_blocks s" and "\<forall>t \<in> tables s inode k. block_in s t"
  shows "ext2_block_lookup s inode k = Some (phys s inode k)"
proof -
  let ?n = "ptr_per_block s"
  have n: "?n \<le> 1024" using good_size_ptrs [of s] assms(1) by (simp add: blocks_ok_def)
  then have "?n * ?n \<le> 1024 * 1024" by (intro mult_le_mono)
  then have w: "wrap32 (?n * ?n) = ?n * ?n" by (simp add: wrap32_def)
  consider "k < 12" | "12 \<le> k" "k - 12 < ?n" | "12 \<le> k" "?n \<le> k - 12" by linarith
  then show ?thesis
  proof cases
    case 1
    then show ?thesis by (simp add: ext2_block_lookup_def phys_def Let_def)
  next
    case 2
    then have "block_in s (i_block inode 12)" using assms(3) by (simp add: tables_def Let_def)
    from one_level [OF assms(1) this 2(2)] show ?thesis using 2 by (simp add: ext2_block_lookup_def phys_def Let_def)
  next
    case 3
    have i: "k - 12 - ?n < ?n * ?n" using assms(2) 3 by (simp add: max_blocks_def)
    have t: "block_in s (i_block inode 13)" "block_in s (fld 4 (blk s (i_block inode 13)) (4 * ((k - 12 - ?n) div ?n)))"
      using assms(3) 3 by (simp_all add: tables_def Let_def)
    from two_levels [OF assms(1) t(1) i t(2)] show ?thesis using 3 i w by (simp add: ext2_block_lookup_def phys_def Let_def)
  qed
qed

section \<open>Reading\<close>

lemma data_chunk_in_block:
  "0 < block_size s \<Longrightarrow> byte_off mod block_size s + data_chunk s byte_off sz done \<le> block_size s"
  using mod_less_divisor [of "block_size s" byte_off] unfolding data_chunk_def by linarith

lemma upt_split: "i \<le> j \<Longrightarrow> j \<le> k \<Longrightarrow> [i..<j] @ [j..<k] = [i..<k]"
  by (metis le_Suc_ex upt_add_eq_append)

lemma piece_index:
  assumes "m mod n + i < (n :: nat)"
  shows "(m + i) div n = m div n" and "(m + i) mod n = m mod n + i"
proof -
  have "m + i = m mod n + i + n * (m div n)" by simp
  moreover have "(m mod n + i + n * q) div n = q" "(m mod n + i + n * q) mod n = m mod n + i" for q using assms by auto
  ultimately show "(m + i) div n = m div n" "(m + i) mod n = m mod n + i" by metis+
qed

text \<open>A piece inside one block of a file.\<close>

lemma block_piece:
  assumes "byte_off mod block_size s + c \<le> block_size s" and "block_in s (phys s inode (byte_off div block_size s))"
  shows "take c (drop (byte_off mod block_size s) (blk s (phys s inode (byte_off div block_size s)))) =
    map (file_byte s inode) [byte_off..<byte_off + c]"
proof (rule nth_equalityI)
  show "length (take c (drop (byte_off mod block_size s) (blk s (phys s inode (byte_off div block_size s))))) =
    length (map (file_byte s inode) [byte_off..<byte_off + c])" using assms by simp
next
  fix i
  assume "i < length (take c (drop (byte_off mod block_size s) (blk s (phys s inode (byte_off div block_size s)))))"
  then have i: "i < c" "byte_off mod block_size s + i < block_size s" using assms by auto
  note dm = piece_index [OF i(2)]
  show "take c (drop (byte_off mod block_size s) (blk s (phys s inode (byte_off div block_size s)))) ! i =
    map (file_byte s inode) [byte_off..<byte_off + c] ! i" using i assms by (simp add: file_byte_def dm)
qed

lemma covered_at:
  assumes "covered s inode n" and "i < n"
  shows "i div block_size s < max_blocks s" and "block_in s (phys s inode (i div block_size s))"
    and "\<forall>t \<in> tables s inode (i div block_size s). block_in s t" and "i div block_size s * block_size s < n"
proof -
  show "i div block_size s * block_size s < n" using assms(2) div_times_less_eq_dividend [of i "block_size s"] by linarith
  then show "i div block_size s < max_blocks s" "block_in s (phys s inode (i div block_size s))"
    "\<forall>t \<in> tables s inode (i div block_size s). block_in s t" using assms(1) by (auto simp: covered_def)
qed

lemma covered_mono: "covered s inode n \<Longrightarrow> m \<le> n \<Longrightarrow> covered s inode m"
  unfolding covered_def by (meson order_less_le_trans)

lemma read_data_step_ok:
  assumes "blocks_ok s" and "covered s inode n" and "byte_off < n" and "done < sz" and "p + sz \<le> length buf"
  shows "read_data_step s inode byte_off sz done buf p =
    Some (True, blit buf (p + done) (map (file_byte s inode) [byte_off..<byte_off + data_chunk s byte_off sz done]))"
proof -
  let ?bs = "block_size s" and ?c = "data_chunk s byte_off sz done"
  let ?b = "phys s inode (byte_off div ?bs)"
  have bs: "0 < ?bs" "?bs \<le> 4096" using assms(1) by (auto simp: blocks_ok_def good_size_def)
  note cov = covered_at [OF assms(2,3)]
  have lk: "ext2_block_lookup s inode (byte_off div ?bs) = Some ?b" by (rule ext2_block_lookup_ok [OF assms(1) cov(1,3)])
  have b0: "?b \<noteq> 0" using cov(2) by (simp add: block_in_def)
  have c: "byte_off mod ?bs + ?c \<le> ?bs" by (rule data_chunk_in_block [OF bs(1)])
  have cl: "done + ?c \<le> sz" using data_chunk_le [of "done" s byte_off sz] assms(4) by simp
  note piece = block_piece [OF c cov(2)]
  show ?thesis
  proof (cases "byte_off mod ?bs = 0 \<and> ?c = ?bs")
    case True
    then have "ext2_read_block s ?b buf (p + done) ?bs = Some (?bs, blit buf (p + done) (blk s ?b))"
      using cl assms(5) by (intro ext2_read_block_ok [OF assms(1) cov(2)]) simp
    moreover have "blk s ?b = map (file_byte s inode) [byte_off..<byte_off + ?c]" using piece True cov(2) by simp
    ultimately show ?thesis using lk b0 True by (simp add: read_data_step_def)
  next
    case False
    let ?z = "blit (replicate 4096 0) 0 (blk s ?b)"
    have lb: "length (blk s ?b) = ?bs" using cov(2) by simp
    have "memcpy buf (p + done) ?z (byte_off mod ?bs) ?c = Some (blit buf (p + done) (take ?c (drop (byte_off mod ?bs) ?z)))"
      using c cl assms(5) bs(2) lb by (intro memcpy_blit) (simp_all add: length_blit)
    moreover have "take ?c (drop (byte_off mod ?bs) ?z) = take ?c (drop (byte_off mod ?bs) (blk s ?b))"
      using c lb by (simp add: blit_def)
    ultimately show ?thesis using lk b0 piece read_table [OF assms(1) cov(2)] by (simp add: read_data_step_def if_not_P [OF False])
  qed
qed

lemma read_data_loop_ok:
  assumes "blocks_ok s" and "covered s inode n" and "offset + sz \<le> n" and "n \<le> 4294967296" and "p + sz \<le> length buf" and "done \<le> sz"
  shows "read_data_loop s inode offset sz done buf p =
    Some (sz, blit buf (p + done) (map (file_byte s inode) [offset + done..<offset + sz]))"
  using assms(5,6)
proof (induction "sz - done" arbitrary: "done" buf rule: less_induct)
  case less
  show ?case
  proof (cases "done < sz")
    case True
    let ?c = "data_chunk s (offset + done) sz done"
    have bs: "0 < block_size s" using assms(1) by (auto simp: blocks_ok_def good_size_def)
    have w: "wrap32 (offset + done) = offset + done" using True assms(3,4) by (simp add: wrap32_def)
    have c: "0 < ?c" "done + ?c \<le> sz" using data_chunk_pos [OF True bs] data_chunk_le [of "done" s "offset + done" sz] True by auto
    let ?m = "map (file_byte s inode) [offset + done..<offset + done + ?c]"
    let ?b = "blit buf (p + done) ?m"
    have st: "read_data_step s inode (offset + done) sz done buf p = Some (True, ?b)"
      using True assms(3) less.prems by (intro read_data_step_ok [OF assms(1,2)]) simp_all
    have lb: "length ?b = length buf" using c(2) less.prems(1) by (intro length_blit) simp
    have "read_data_loop s inode offset sz (done + ?c) ?b p =
        Some (sz, blit ?b (p + (done + ?c)) (map (file_byte s inode) [offset + (done + ?c)..<offset + sz]))"
      using c less.prems lb True by (intro less.hyps) auto
    moreover have "blit ?b (p + done + length ?m) (map (file_byte s inode) [offset + done + ?c..<offset + sz]) =
        blit buf (p + done) (?m @ map (file_byte s inode) [offset + done + ?c..<offset + sz])"
      using c less.prems by (intro blit_append) simp
    moreover have "?m @ map (file_byte s inode) [offset + done + ?c..<offset + sz] = map (file_byte s inode) [offset + done..<offset + sz]"
      using c by (simp only: map_append [symmetric]) (simp add: upt_split)
    ultimately show ?thesis using True bs w st by (subst read_data_loop.simps) (simp add: add.assoc)
  next
    case False
    then show ?thesis using less.prems by (subst read_data_loop.simps) simp
  qed
qed

section \<open>Writing\<close>

lemma set_i_size_fields:
  assumes "length inode = 128" and "v < 4294967296"
  shows "length (set_i_size v inode) = 128" and "i_size (set_i_size v inode) = v" and "k < 15 \<Longrightarrow> i_block (set_i_size v inode) k = i_block inode k"
proof -
  show "length (set_i_size v inode) = 128" using assms(1) by (simp add: set_i_size_def)
  show "i_size (set_i_size v inode) = v" using assms fld_set_same [of 4 4 inode v] by (simp add: set_i_size_def i_size_def)
  show "i_block (set_i_size v inode) k = i_block inode k" if "k < 15"
    using assms(1) fld_set_other [of 4 4 inode "40 + 4 * k" 4 v] by (simp add: set_i_size_def i_block_def)
qed

lemma sized_file:
  assumes "length inode = 128" and "v < 4294967296"
  shows "phys s (set_i_size v inode) = phys s inode" and "tables s (set_i_size v inode) = tables s inode"
    and "covered s (set_i_size v inode) = covered s inode" and "separate s (set_i_size v inode) = separate s inode"
    and "file_byte s (set_i_size v inode) = file_byte s inode"
proof -
  note f = set_i_size_fields [OF assms]
  show p: "phys s (set_i_size v inode) = phys s inode" using f(3) by (simp add: phys_def fun_eq_iff Let_def)
  show t: "tables s (set_i_size v inode) = tables s inode" using f(3) by (simp add: tables_def fun_eq_iff Let_def)
  show "covered s (set_i_size v inode) = covered s inode" "separate s (set_i_size v inode) = separate s inode"
    "file_byte s (set_i_size v inode) = file_byte s inode" using p t by (simp_all add: covered_def separate_def file_byte_def fun_eq_iff)
qed

text \<open>Changing a block of data leaves the way to every block of the file.\<close>

lemma same_tables:
  assumes "block_size t = block_size s" and "\<And>b. b \<in> tables s inode j \<Longrightarrow> blk t b = blk s b"
  shows "phys t inode j = phys s inode j \<and> tables t inode j = tables s inode j"
proof -
  have pp: "ptr_per_block t = ptr_per_block s" using assms(1) by (simp add: ptr_per_block_def)
  consider "j < 12" | "12 \<le> j" "j - 12 < ptr_per_block s" | "12 \<le> j" "ptr_per_block s \<le> j - 12" by linarith
  then show ?thesis
  proof cases
    case 1
    then show ?thesis by (simp add: phys_def tables_def Let_def)
  next
    case 2
    then have "blk t (i_block inode 12) = blk s (i_block inode 12)" by (intro assms(2)) (simp add: tables_def Let_def)
    then show ?thesis using 2 by (simp add: phys_def tables_def Let_def pp)
  next
    case 3
    let ?u = "fld 4 (blk s (i_block inode 13)) (4 * ((j - 12 - ptr_per_block s) div ptr_per_block s))"
    have "blk t (i_block inode 13) = blk s (i_block inode 13)" "blk t ?u = blk s ?u"
      using 3 by (intro assms(2); simp add: tables_def Let_def)+
    then show ?thesis using 3 by (simp add: phys_def tables_def Let_def pp)
  qed
qed

lemma set_blk_file:
  assumes "blocks_ok s" and "covered s inode n" and "separate s inode n" and "k * block_size s < n" and "length c = block_size s"
  shows "\<And>j. j * block_size s < n \<Longrightarrow> phys (set_blk s (phys s inode k) c) inode j = phys s inode j"
    and "\<And>j. j * block_size s < n \<Longrightarrow> tables (set_blk s (phys s inode k) c) inode j = tables s inode j"
    and "blocks_ok (set_blk s (phys s inode k) c)" and "covered (set_blk s (phys s inode k) c) inode n"
    and "separate (set_blk s (phys s inode k) c) inode n"
    and "block_in (set_blk s (phys s inode k) c) = block_in s"
proof -
  let ?b = "phys s inode k" and ?t = "set_blk s (phys s inode k) c"
  have d: "disk_ok s" using assms(1) by (simp add: blocks_ok_def)
  have b: "block_in s ?b" using assms(2,4) by (simp add: covered_def)
  show ok: "blocks_ok ?t" and bin: "block_in ?t = block_in s" using set_blk_ok [OF assms(1) b assms(5)] by auto
  have tb: "blk ?t t = blk s t" if "j * block_size s < n" "t \<in> tables s inode j" for j t
  proof -
    have "?b \<noteq> t" using assms(3,4) that by (auto simp: separate_def)
    moreover have "block_in s t" using assms(2) that by (auto simp: covered_def)
    ultimately show ?thesis using blk_set [OF d b assms(5)] by simp
  qed
  have pp: "ptr_per_block ?t = ptr_per_block s" by (simp add: ptr_per_block_def)
  have same: "phys ?t inode j = phys s inode j \<and> tables ?t inode j = tables s inode j" if j: "j * block_size s < n" for j
    using tb [OF j] by (intro same_tables) simp_all
  show "\<And>j. j * block_size s < n \<Longrightarrow> phys ?t inode j = phys s inode j" "\<And>j. j * block_size s < n \<Longrightarrow> tables ?t inode j = tables s inode j"
    using same by auto
  show "covered ?t inode n" using assms(2) same bin by (simp add: covered_def max_blocks_def pp)
  show "separate ?t inode n" using assms(3) same by (simp add: separate_def)
qed

lemma file_byte_set:
  assumes "blocks_ok s" and "covered s inode n" and "separate s inode n" and "k * block_size s < n" and "length c = block_size s"
    and "i < n"
  shows "file_byte (set_blk s (phys s inode k) c) inode i =
    (if i div block_size s = k then c ! (i mod block_size s) else file_byte s inode i)"
proof -
  let ?j = "i div block_size s"
  note same = set_blk_file [OF assms(1-5)] and cov = covered_at [OF assms(2,6)]
  have d: "disk_ok s" using assms(1) by (simp add: blocks_ok_def)
  have b: "block_in s (phys s inode k)" using assms(2,4) by (simp add: covered_def)
  have "?j = k \<longleftrightarrow> phys s inode ?j = phys s inode k" using assms(3,4) cov(4) by (auto simp: separate_def)
  then show ?thesis using same(1) [OF cov(4)] blk_set [OF d b assms(5) cov(2)] by (auto simp: file_byte_def)
qed

definition data_of :: "u8 list \<Rightarrow> nat \<Rightarrow> nat \<Rightarrow> nat \<Rightarrow> nat \<Rightarrow> (nat \<Rightarrow> u8) \<Rightarrow> nat \<Rightarrow> u8" where
  "data_of buf p offset a b old i = (if a \<le> i \<and> i < b then buf ! (p + (i - offset)) else old i)"

text \<open>What a write to the bytes from \<open>a\<close> to \<open>b\<close> does to the first \<open>n\<close> bytes of a file and to the rest of the disk.\<close>

definition rewritten :: "ext2_st \<Rightarrow> ext2_st \<Rightarrow> u8 list \<Rightarrow> nat \<Rightarrow> (nat \<Rightarrow> u8) \<Rightarrow> bool" where
  "rewritten s s' inode n f \<longleftrightarrow> blocks_ok s' \<and> covered s' inode n \<and> separate s' inode n \<and> block_size s' = block_size s \<and>
     superblock s' = superblock s \<and> group_desc s' = group_desc s \<and> group_count s' = group_count s \<and>
     length (disk s') = length (disk s) \<and> block_in s' = block_in s \<and>
     (\<forall>k. k * block_size s < n \<longrightarrow> phys s' inode k = phys s inode k) \<and>
     (\<forall>i < n. file_byte s' inode i = f i) \<and>
     (\<forall>b. block_in s b \<and> (\<forall>k. k * block_size s < n \<longrightarrow> b \<noteq> phys s inode k) \<longrightarrow> blk s' b = blk s b)"

lemma rewritten_trans:
  assumes "rewritten s s1 inode n f" and "rewritten s1 s2 inode n g"
  shows "rewritten s s2 inode n g"
  using assms by (auto simp: rewritten_def)

lemma set_blk_rewritten:
  assumes "blocks_ok s" and "covered s inode n" and "separate s inode n" and "k * block_size s < n" and "length c = block_size s"
  shows "rewritten s (set_blk s (phys s inode k) c) inode n
    (\<lambda>i. if i div block_size s = k then c ! (i mod block_size s) else file_byte s inode i)"
proof -
  note same = set_blk_file [OF assms]
  have d: "disk_ok s" using assms(1) by (simp add: blocks_ok_def)
  have b: "block_in s (phys s inode k)" using assms(2,4) by (simp add: covered_def)
  show ?thesis unfolding rewritten_def
    using same file_byte_set [OF assms] length_set_blk [OF d b assms(5)] blk_set [OF d b assms(5)] assms(4) by auto
qed

lemma write_data_store_ok:
  assumes "blocks_ok s" and "covered s inode n" and "separate s inode n" and "offset + sz \<le> n" and "done < sz" and "p + sz \<le> length buf"
    and "a = offset + done" and "c = data_chunk s a sz done"
  shows "\<exists>s'. write_data_store s (phys s inode (a div block_size s)) a sz done buf p = Some (True, s') \<and>
    rewritten s s' inode n (data_of buf p offset a (a + c) (file_byte s inode))"
proof -
  let ?bs = "block_size s" and ?k = "a div block_size s"
  let ?b = "phys s inode ?k"
  have bs: "0 < ?bs" "?bs \<le> 4096" using assms(1) by (auto simp: blocks_ok_def good_size_def)
  have an: "a < n" using assms(4,5,7) by simp
  note cov = covered_at [OF assms(2) an]
  have c: "a mod ?bs + c \<le> ?bs" unfolding assms(8) by (rule data_chunk_in_block [OF bs(1)])
  have cl: "done + c \<le> sz" using data_chunk_le [of "done" s a sz] assms(5,8) by simp
  have lb: "length (blk s ?b) = ?bs" using cov(2) by simp
  define new where "new = blit (blk s ?b) (a mod ?bs) (take c (drop (p + done) buf))"
  have ld: "length (take c (drop (p + done) buf)) = c" using cl assms(6) by simp
  have ln: "length new = ?bs" unfolding new_def using c ld lb by (subst length_blit) simp_all
  have st: "write_data_store s ?b a sz done buf p = Some (True, set_blk s ?b new)"
  proof (cases "a mod ?bs = 0 \<and> c = ?bs")
    case True
    then have "new = take ?bs (drop (p + done) buf)" using lb ld by (simp add: new_def blit_def)
    moreover have "ext2_write_block s ?b buf (p + done) ?bs = Some (?bs, set_blk s ?b (take ?bs (drop (p + done) buf)))"
      using True cl assms(6) by (intro ext2_write_block_ok [OF assms(1) cov(2)]) simp
    ultimately show ?thesis using True assms(8) by (simp add: write_data_store_def)
  next
    case False
    let ?z = "blit (replicate 4096 0) 0 (blk s ?b)"
    have lz: "length ?z = 4096" using lb bs(2) by (simp add: length_blit)
    have m: "memcpy ?z (a mod ?bs) buf (p + done) c = Some (blit ?z (a mod ?bs) (take c (drop (p + done) buf)))"
      using c cl assms(6) bs(2) lz by (intro memcpy_blit) simp_all
    have "take ?bs (blit ?z (a mod ?bs) (take c (drop (p + done) buf))) = new"
      unfolding new_def using c ld lb lz bs(2) by (intro nth_equalityI) (auto simp: length_blit nth_blit)
    then have "ext2_write_block s ?b (blit ?z (a mod ?bs) (take c (drop (p + done) buf))) 0 ?bs = Some (?bs, set_blk s ?b new)"
      using ext2_write_block_ok [OF assms(1) cov(2), of 0 "blit ?z (a mod ?bs) (take c (drop (p + done) buf))"] c ld lz bs(2)
      by (simp add: length_blit)
    then show ?thesis using m read_table [OF assms(1) cov(2)] assms(8) by (simp add: write_data_store_def if_not_P [OF False [unfolded assms(8)]])
  qed
  have "(if i div ?bs = ?k then new ! (i mod ?bs) else file_byte s inode i) = data_of buf p offset a (a + c) (file_byte s inode) i" if "i < n" for i
  proof (cases "i div ?bs = ?k")
    case True
    have im: "i mod ?bs < ?bs" using bs(1) by simp
    have "i = ?bs * ?k + i mod ?bs" "a = ?bs * ?k + a mod ?bs" using True by (metis mult_div_mod_eq)+
    then have r: "a \<le> i \<and> i < a + c \<longleftrightarrow> a mod ?bs \<le> i mod ?bs \<and> i mod ?bs < a mod ?bs + c" "a \<le> i \<Longrightarrow> i - a = i mod ?bs - a mod ?bs"
      by linarith+
    have nn: "new ! (i mod ?bs) = (if a mod ?bs \<le> i mod ?bs \<and> i mod ?bs < a mod ?bs + c then buf ! (p + done + (i mod ?bs - a mod ?bs)) else blk s ?b ! (i mod ?bs))"
      unfolding new_def using c ld lb im cl assms(6) by (subst nth_blit) auto
    show ?thesis
    proof (cases "a \<le> i \<and> i < a + c")
      case inside: True
      have "p + (i - offset) = p + done + (i mod ?bs - a mod ?bs)" using inside r(2) assms(7) by linarith
      moreover have "new ! (i mod ?bs) = buf ! (p + done + (i mod ?bs - a mod ?bs))" using inside nn r(1) by (simp only: if_True simp_thms)
      ultimately show ?thesis using True inside by (simp only: data_of_def if_True simp_thms)
    next
      case False
      then show ?thesis using True nn r(1) by (auto simp: data_of_def file_byte_def)
    qed
  next
    case False
    have "\<not> (a \<le> i \<and> i < a + c)"
    proof
      assume i: "a \<le> i \<and> i < a + c"
      then have "a mod ?bs + (i - a) < ?bs" using c by linarith
      from piece_index(1) [OF this] show False using False i by simp
    qed
    then show ?thesis using False by (auto simp: data_of_def)
  qed
  then have "rewritten s (set_blk s ?b new) inode n (data_of buf p offset a (a + c) (file_byte s inode))"
    using set_blk_rewritten [OF assms(1-3) cov(4) ln] by (simp add: rewritten_def)
  then show ?thesis using st by blast
qed

text \<open>A block of the file is found, so none is allocated.\<close>

lemma write_data_step_ok:
  assumes "blocks_ok s" and "covered s inode n" and "separate s inode n" and "offset + sz \<le> n" and "n \<le> 4294967295" and "done < sz"
    and "p + sz \<le> length buf" and "a = offset + done" and "length inode = 128"
  shows "\<exists>s'. write_data_step s inode a sz done buf p =
      Some (True, if i_size inode \<le> a then set_i_size (offset + sz) inode else inode, s') \<and>
    rewritten s s' inode n (data_of buf p offset a (a + data_chunk s a sz done) (file_byte s inode))"
proof -
  have an: "a < n" using assms(4,6,8) by simp
  note cov = covered_at [OF assms(2) an]
  have lk: "ext2_block_lookup s inode (a div block_size s) = Some (phys s inode (a div block_size s))"
    by (rule ext2_block_lookup_ok [OF assms(1) cov(1,3)])
  have nz: "phys s inode (a div block_size s) \<noteq> 0" using cov(2) by (simp add: block_in_def)
  have e: "wrap32 (a + (sz - done)) = offset + sz" using assms(4-6,8) by (simp add: wrap32_def)
  obtain s' where "write_data_store s (phys s inode (a div block_size s)) a sz done buf p = Some (True, s')"
    "rewritten s s' inode n (data_of buf p offset a (a + data_chunk s a sz done) (file_byte s inode))"
    using write_data_store_ok [OF assms(1-4,6,7,8) refl] by blast
  then show ?thesis using lk nz e by (simp add: write_data_step_def write_data_target_def Let_def)
qed

lemma rewritten_sized:
  assumes "length inode = 128" and "v < 4294967296"
  shows "rewritten s s' (set_i_size v inode) n f = rewritten s s' inode n f"
  by (simp add: rewritten_def sized_file [OF assms])

lemma write_data_loop_ok:
  assumes "blocks_ok s" and "covered s inode n" and "separate s inode n" and "offset + sz \<le> n" and "n \<le> 4294967295" and "done \<le> sz"
    and "p + sz \<le> length buf" and "length inode = 128"
  shows "\<exists>inode' s'. write_data_loop s inode offset sz done buf p = Some (True, sz, inode', s') \<and>
    rewritten s s' inode n (data_of buf p offset (offset + done) (offset + sz) (file_byte s inode)) \<and>
    (inode' = inode \<or> i_size inode < offset + sz \<and> inode' = set_i_size (offset + sz) inode)"
  using assms
proof (induction "sz - done" arbitrary: "done" s inode rule: less_induct)
  case less
  note prems = less.prems
  show ?case
  proof (cases "done < sz")
    case False
    have "rewritten s s inode n (data_of buf p offset (offset + done) (offset + sz) (file_byte s inode))"
      using prems(1-3,6) False by (auto simp: rewritten_def data_of_def)
    then show ?thesis using False prems(6) by (subst write_data_loop.simps) auto
  next
    case True
    let ?a = "offset + done" and ?c = "data_chunk s (offset + done) sz done"
    have bs: "0 < block_size s" using prems(1) by (auto simp: blocks_ok_def good_size_def)
    have w: "wrap32 ?a = ?a" using True prems(4,5) by (simp add: wrap32_def)
    have c: "0 < ?c" "done + ?c \<le> sz" using data_chunk_pos [OF True bs] data_chunk_le [of "done" s ?a sz] True by auto
    let ?i = "if i_size inode \<le> ?a then set_i_size (offset + sz) inode else inode"
    obtain s1 where s1: "write_data_step s inode ?a sz done buf p = Some (True, ?i, s1)"
      "rewritten s s1 inode n (data_of buf p offset ?a (?a + ?c) (file_byte s inode))"
      using write_data_step_ok [OF prems(1-5) True prems(7) refl prems(8)] by blast
    have v: "offset + sz < 4294967296" using prems(4,5) by simp
    note sz = sized_file [OF prems(8) v] and fl = set_i_size_fields [OF prems(8) v]
    have li: "length ?i = 128" using prems(8) fl(1) by simp
    have s1': "blocks_ok s1" "covered s1 ?i n" "separate s1 ?i n" using s1(2) by (simp_all add: rewritten_def sz)
    have "\<exists>inode' s'. write_data_loop s1 ?i offset sz (done + ?c) buf p = Some (True, sz, inode', s') \<and>
      rewritten s1 s' ?i n (data_of buf p offset (offset + (done + ?c)) (offset + sz) (file_byte s1 ?i)) \<and>
      (inode' = ?i \<or> i_size ?i < offset + sz \<and> inode' = set_i_size (offset + sz) ?i)"
      using c True prems(4,5,7) li s1' by (intro less.hyps) simp_all
    then obtain inode' s' where r: "write_data_loop s1 ?i offset sz (done + ?c) buf p = Some (True, sz, inode', s')"
      "rewritten s1 s' ?i n (data_of buf p offset (offset + (done + ?c)) (offset + sz) (file_byte s1 ?i))"
      "inode' = ?i \<or> i_size ?i < offset + sz \<and> inode' = set_i_size (offset + sz) ?i" by blast
    have i': "inode' = inode \<or> i_size inode < offset + sz \<and> inode' = set_i_size (offset + sz) inode"
      using r(3) fl(2) True by (auto split: if_splits)
    have "rewritten s1 s' inode n (data_of buf p offset (offset + (done + ?c)) (offset + sz) (file_byte s1 inode))"
      using r(2) rewritten_sized [OF prems(8) v] by (simp add: sz split: if_splits)
    moreover have "data_of buf p offset (offset + (done + ?c)) (offset + sz) (file_byte s1 inode) i =
        data_of buf p offset ?a (offset + sz) (file_byte s inode) i" if "i < n" for i
    proof -
      have f1: "file_byte s1 inode i = data_of buf p offset ?a (?a + ?c) (file_byte s inode) i" using s1(2) that by (simp add: rewritten_def)
      show ?thesis using c by (auto simp: data_of_def f1)
    qed
    ultimately have "rewritten s1 s' inode n (data_of buf p offset ?a (offset + sz) (file_byte s inode))" by (simp add: rewritten_def)
    with s1(2) have "rewritten s s' inode n (data_of buf p offset ?a (offset + sz) (file_byte s inode))" by (rule rewritten_trans)
    moreover have "write_data_loop s inode offset sz done buf p = Some (True, sz, inode', s')"
      using True bs w s1(1) r(1) by (subst write_data_loop.simps) simp
    ultimately show ?thesis using i' by blast
  qed
qed

lemma ext2_write_data_ok:
  assumes "blocks_ok s" and "covered s inode n" and "separate s inode n" and "offset + sz \<le> n" and "n \<le> 4294967295"
    and "p + sz \<le> length buf" and "length inode = 128" and "sz < 2147483648"
  shows "\<exists>s'. ext2_write_data s inode offset sz buf p =
      Some (int sz, if i_size inode < offset + sz then set_i_size (offset + sz) inode else inode, s') \<and>
    rewritten s s' inode n (data_of buf p offset offset (offset + sz) (file_byte s inode))"
proof -
  obtain inode' s' where r: "write_data_loop s inode offset sz 0 buf p = Some (True, sz, inode', s')"
    "rewritten s s' inode n (data_of buf p offset (offset + 0) (offset + sz) (file_byte s inode))"
    "inode' = inode \<or> i_size inode < offset + sz \<and> inode' = set_i_size (offset + sz) inode"
    using write_data_loop_ok [OF assms(1-5) le0 assms(6,7)] by blast
  have v: "offset + sz < 4294967296" using assms(4,5) by simp
  then have w: "wrap32 (offset + sz) = offset + sz" by (simp add: wrap32_def)
  have "ext2_write_data s inode offset sz buf p =
      Some (int sz, if i_size inode < offset + sz then set_i_size (offset + sz) inode else inode, s')"
    using r(1,3) w assms(8) set_i_size_fields(2) [OF assms(7) v] by (auto simp: ext2_write_data_def int32_def)
  then show ?thesis using r(2) by auto
qed

section \<open>The example\<close>

definition demo_file :: "u8 list" where
  "demo_file = set_i_size 1500 (set_i_block 0 9 (set_i_block 1 10 (replicate 128 0)))"

lemma demo_file_fields: "length demo_file = 128" "i_size demo_file = 1500" "i_block demo_file 0 = 9" "i_block demo_file 1 = 10"
proof -
  let ?a = "set_i_block 1 10 (replicate 128 0)"
  let ?b = "set_i_block 0 9 ?a"
  have l: "length ?a = 128" "length ?b = 128" by (simp_all add: set_i_block_def)
  note f = set_i_size_fields [OF l(2), of 1500]
  show "length demo_file = 128" "i_size demo_file = 1500" using f by (simp_all add: demo_file_def)
  have a: "i_block ?a 1 = 10" using fld_set_same [of 44 4 "replicate 128 0" 10] by (simp add: i_block_def set_i_block_def)
  have b: "i_block ?b 0 = 9" using fld_set_same [of 40 4 ?a 9] l by (simp add: i_block_def set_i_block_def)
  have c: "i_block ?b 1 = i_block ?a 1" using fld_set_other [of 40 4 ?a 44 4 9] l by (simp add: i_block_def set_i_block_def)
  show "i_block demo_file 0 = 9" "i_block demo_file 1 = 10" using f(3) [of 0] f(3) [of 1] a b c by (simp_all add: demo_file_def)
qed

lemma demo_file_ok:
  assumes "length m = 66560"
  shows "blocks_ok (demo_fs m)" and "covered (demo_fs m) demo_file 1500" and "separate (demo_fs m) demo_file 1500"
proof -
  show "blocks_ok (demo_fs m)" using assms by (simp add: blocks_ok_def demo_disk_ok good_size_def)
  have k: "k * 1024 < 1500 \<longleftrightarrow> k = 0 \<or> k = 1" for k :: nat by auto
  show "covered (demo_fs m) demo_file 1500"
    unfolding covered_def demo_fs_fields k using assms by (auto simp: phys_def tables_def Let_def demo_file_fields [simplified] max_blocks_def demo_block_in)
  show "separate (demo_fs m) demo_file 1500"
    unfolding separate_def demo_fs_fields k by (auto simp: phys_def tables_def Let_def demo_file_fields [simplified])
qed

lemma ext2_read_data_exact:
  assumes "blocks_ok s" and "covered s inode (i_size inode)" and "offset + sz < 4294967296"
    and "n = min sz (i_size inode - offset)" and "n < 2147483648" and "p + n \<le> length buf"
  shows "ext2_read_data s inode offset sz buf p = Some (int n, blit buf p (map (file_byte s inode) [offset..<offset + n]))"
proof (cases "i_size inode \<le> offset")
  case True
  then show ?thesis using assms(4) by (simp add: ext2_read_data_def)
next
  case False
  have w: "wrap32 (offset + sz) = offset + sz" using assms(3) by (simp add: wrap32_def)
  have e: "(if i_size inode < wrap32 (offset + sz) then i_size inode - offset else sz) = n" using False w assms(4) by auto
  have "read_data_loop s inode offset n 0 buf p = Some (n, blit buf (p + 0) (map (file_byte s inode) [offset + 0..<offset + n]))"
    using False assms(4,6) i_size_less [of inode] by (intro read_data_loop_ok [OF assms(1,2)]) auto
  then show ?thesis using False e assms(5) by (simp add: ext2_read_data_def int32_def)
qed

section \<open>Properties\<close>

text \<open>
  C17: reading a file.  For a file whose blocks are mapped, directly or through one or two levels of tables, \<open>ext2_read_data\<close>
  returns the number of bytes between the offset and the end of the file, at most the size asked for, and stores exactly
  these bytes of the file in the buffer, however the request lies on the blocks.
\<close>

theorem ext2_read_data_correct:
  assumes "blocks_ok s" and "covered s inode (i_size inode)" and "offset + sz < 4294967296"
    and "n = min sz (i_size inode - offset)" and "n < 2147483648" and "p + n \<le> length buf"
  shows "ext2_read_data s inode offset sz buf p = Some (int n, blit buf p (map (file_byte s inode) [offset..<offset + n]))"
  by (rule ext2_read_data_exact [OF assms])

theorem ext2_read_data_correct_witness:
  "ext2_read_data (demo_fs (replicate 66560 3)) demo_file 1000 4000 (replicate 512 0) 2 =
     Some (int 500, blit (replicate 512 0) 2 (map (file_byte (demo_fs (replicate 66560 3)) demo_file) [1000..<1500]))"
  using ext2_read_data_correct [of "demo_fs (replicate 66560 3)" demo_file 1000 4000 500 2 "replicate 512 0"]
    demo_file_ok [of "replicate 66560 3"] by (simp add: demo_file_fields)

text \<open>
  C10: writing and reading back.  A write to bytes whose blocks the file already has stores all of them, and a read of any
  part of the file afterwards returns the new bytes where they were written and the old ones elsewhere.  The size of
  the inode grows to the end of the write if it was smaller, and blocks that are not the file's are untouched.
\<close>

theorem ext2_write_then_read:
  assumes "blocks_ok s" and "covered s inode n" and "separate s inode n" and "offset + sz \<le> n" and "n \<le> 4294967295"
    and "p + sz \<le> length buf" and "length inode = 128" and "sz < 2147483648"
    and "i_size inode \<le> n" and "from + len \<le> max (i_size inode) (offset + sz)" and "len < 2147483648" and "q + len \<le> length out"
  shows "\<exists>inode' s'. ext2_write_data s inode offset sz buf p = Some (int sz, inode', s') \<and>
    i_size inode' = max (i_size inode) (offset + sz) \<and>
    ext2_read_data s' inode' from len out q =
      Some (int len, blit out q (map (data_of buf p offset offset (offset + sz) (file_byte s inode)) [from..<from + len])) \<and>
    (\<forall>b. block_in s b \<and> (\<forall>k. k * block_size s < n \<longrightarrow> b \<noteq> phys s inode k) \<longrightarrow> blk s' b = blk s b)"
proof -
  let ?e = "offset + sz"
  let ?i = "if i_size inode < ?e then set_i_size ?e inode else inode"
  let ?f = "data_of buf p offset offset ?e (file_byte s inode)"
  obtain s' where s': "ext2_write_data s inode offset sz buf p = Some (int sz, ?i, s')" "rewritten s s' inode n ?f"
    using ext2_write_data_ok [OF assms(1-8)] by blast
  have v: "?e < 4294967296" using assms(4,5) by simp
  note fl = set_i_size_fields [OF assms(7) v] and sf = sized_file [OF assms(7) v]
  have si: "i_size ?i = max (i_size inode) ?e" using fl(2) by simp
  have le: "i_size ?i \<le> n" using si assms(4,9) by simp
  have "covered s' inode n" using s'(2) by (simp add: rewritten_def)
  then have "covered s' inode (i_size ?i)" by (rule covered_mono [OF _ le])
  then have cov: "covered s' ?i (i_size ?i)" by (cases "i_size inode < ?e") (simp_all add: sf)
  have "ext2_read_data s' ?i from len out q = Some (int len, blit out q (map (file_byte s' ?i) [from..<from + len]))"
    using s'(2) si assms(10-12) le assms(5) by (intro ext2_read_data_exact [OF _ cov]) (auto simp: rewritten_def)
  moreover have "map (file_byte s' ?i) [from..<from + len] = map ?f [from..<from + len]"
    using s'(2) si assms(10) le by (intro map_cong) (auto simp: rewritten_def sf)
  ultimately show ?thesis using s' si unfolding rewritten_def by (intro exI [of _ ?i] exI [of _ s']) auto
qed

theorem ext2_write_then_read_witness:
  "\<exists>inode' s'. ext2_write_data (demo_fs (replicate 66560 3)) demo_file 1020 8 [1, 2, 3, 4, 5, 6, 7, 8] 0 = Some (int 8, inode', s') \<and>
     ext2_read_data s' inode' 1022 4 [0, 0, 0, 0] 0 = Some (int 4, [3, 4, 5, 6])"
proof -
  have "map (data_of [1, 2, 3, 4, 5, 6, 7, 8] 0 1020 1020 1028 f) [1022..<1022 + 4] = [3, 4, 5, 6]" for f
    by (simp add: data_of_def upt_rec)
  then show ?thesis
    using ext2_write_then_read [of "demo_fs (replicate 66560 3)" demo_file 1500 1020 8 0 "[1, 2, 3, 4, 5, 6, 7, 8]" 1022 4 0 "[0, 0, 0, 0]"]
      demo_file_ok [of "replicate 66560 3"] by (auto simp: demo_file_fields blit_def)
qed

end
