(* ===== verification/VfsProps.thy ===== *)
theory VfsProps
  imports Vfs
begin

text \<open>
  The tables of the virtual file system.  Every operation keeps them well formed, so in every state reachable from the start
  the descriptors and node references are in range; and descriptors are handed out lowest first and given back by \<open>vfs_close\<close>.
\<close>

section \<open>Well-formed tables\<close>

definition ref_ok :: "vfs_st \<Rightarrow> node_ref option \<Rightarrow> bool" where
  "ref_ok s r \<longleftrightarrow> (case r of None \<Rightarrow> True | Some (HeapNode i) \<Rightarrow> i < length (heap_nodes s) | Some (FindNode i) \<Rightarrow> i < 8)"

definition node_ok :: "vfs_node_t \<Rightarrow> bool" where
  "node_ok n \<longleftrightarrow> length (node_name n) = 64 \<and> terminated (node_name n)"

definition fd_ok :: "vfs_st \<Rightarrow> vfs_fd_t \<Rightarrow> bool" where
  "fd_ok s f \<longleftrightarrow> ref_ok s (fd_node f) \<and> (fd_in_use f \<longleftrightarrow> fd_node f \<noteq> None) \<and> fd_pos f < 4294967296"

definition mount_ok :: "vfs_st \<Rightarrow> vfs_mount_point_t \<Rightarrow> bool" where
  "mount_ok s m \<longleftrightarrow> ref_ok s (mp_root m) \<and> length (mp_path m) = 64 \<and>
     (mp_in_use m \<longrightarrow> mp_root m \<noteq> None \<and> mp_fs_type m < length (vfs_filesystems s))"

definition vfs_wf :: "vfs_st \<Rightarrow> bool" where
  "vfs_wf s \<longleftrightarrow> length (vfs_files s) = VFS_MAX_OPEN \<and> length (vfs_mounts s) = VFS_MAX_MOUNTS \<and>
     length (vfs_filesystems s) \<le> VFS_MAX_FS \<and> length (find_nodes s) = 8 \<and> find_next s < 8 \<and>
     (\<forall>n \<in> set (find_nodes s). node_ok n) \<and> (\<forall>n. Some n \<in> set (heap_nodes s) \<longrightarrow> node_ok n) \<and>
     ref_ok s (vfs_root s) \<and> (\<forall>f \<in> set (vfs_files s). fd_ok s f) \<and> (\<forall>m \<in> set (vfs_mounts s). mount_ok s m) \<and>
     (\<forall>f \<in> set (vfs_filesystems s). f = ext2_fs_ops)"

text \<open>What the tables are well formed for does not depend on the disk or on which static node is next.\<close>

lemma vfs_wf_ext2 [simp]: "vfs_wf (s\<lparr>ext2_fs := e\<rparr>) = vfs_wf s"
proof -
  have "ref_ok (s\<lparr>ext2_fs := e\<rparr>) = ref_ok s" by (simp add: ref_ok_def fun_eq_iff split: option.splits node_ref.splits)
  then show ?thesis by (simp add: vfs_wf_def fd_ok_def mount_ok_def)
qed

lemma ref_ok_find [simp]: "ref_ok (s\<lparr>find_nodes := ns, find_next := k\<rparr>) = ref_ok s"
  by (simp add: ref_ok_def fun_eq_iff split: option.splits node_ref.splits)

lemma vfs_wf_find:
  assumes "vfs_wf s" and "node_ok n" and "k < 8"
  shows "vfs_wf (s\<lparr>find_nodes := (find_nodes s)[i := n], find_next := k\<rparr>)"
  using assms set_update_subset_insert [of "find_nodes s" i n] by (auto simp: vfs_wf_def fd_ok_def mount_ok_def)

lemma empty_node_ok: "node_ok (empty_node\<lparr>node_name := nm\<rparr>) \<longleftrightarrow> length nm = 64 \<and> terminated nm"
  by (simp add: node_ok_def)

lemma entry_node_ok:
  assumes "entry_node b pos = Some n"
  shows "node_ok n"
proof -
  obtain nl nm nm1 where h: "memcpy (replicate 64 0) 0 b (pos + 8) (min nl 63) = Some nm" "wr nm (min nl 63) 0 = Some nm1" "node_name n = nm1"
    using assms by (auto simp: entry_node_def split: bind_splits)
  have "length nm1 = 64" using memcpy_length [OF h(1)] length_wr [OF h(2)] by simp
  moreover have "0 \<in> set nm1" using wr_SomeD [OF h(2)] by (metis set_update_memI)
  ultimately show ?thesis using h(3) by (simp add: node_ok_def terminated_def)
qed

lemma readdir_entries_node: "readdir_entries b n pos e index = Some (Inl node) \<Longrightarrow> node_ok node"
proof (induction b n pos e index rule: readdir_entries.induct)
  case (1 b n pos e index)
  then show ?case
    by (subst (asm) (3) readdir_entries.simps) (auto split: if_splits bind_splits dest: entry_node_ok)
qed

lemma readdir_loop_node: "readdir_loop s dir rc buf e index = Some (c, Some node) \<Longrightarrow> node_ok node"
proof (induction s dir rc buf e index rule: readdir_loop.induct)
  case (1 s dir rc buf e index)
  then show ?case
    by (subst (asm) (2) readdir_loop.simps) (auto split: if_splits bind_splits sum.splits dest: readdir_entries_node)
qed

lemma ext2_node_readdir_node: "ext2_node_readdir e node index = Some (c, Some n) \<Longrightarrow> node_ok n"
  by (auto simp: ext2_node_readdir_def split: if_splits bind_splits option.splits dest: readdir_loop_node)

section \<open>Finding nodes\<close>

text \<open>A lookup changes only the static nodes and returns a reference in range.\<close>

definition looked_up :: "vfs_st \<Rightarrow> node_ref option \<Rightarrow> vfs_st \<Rightarrow> bool" where
  "looked_up s r s' \<longleftrightarrow> vfs_wf s' \<and> ref_ok s' r \<and> ext2_fs s' = ext2_fs s \<and> vfs_files s' = vfs_files s \<and> vfs_mounts s' = vfs_mounts s \<and>
     vfs_root s' = vfs_root s \<and> heap_nodes s' = heap_nodes s \<and> vfs_filesystems s' = vfs_filesystems s"

lemma finddir_loop_ok: "finddir_loop s node nm index = Some (r, s') \<Longrightarrow> vfs_wf s \<Longrightarrow> looked_up s r s'"
proof (induction s node nm index rule: finddir_loop.induct)
  case (1 s node nm index)
  obtain code child where cc: "ext2_node_readdir (ext2_fs s) node index = Some (code, child)"
    using "1.prems"(1) by (subst (asm) finddir_loop.simps) (auto split: bind_splits)
  show ?case
  proof (cases "code = VFS_OK")
    case False
    then show ?thesis using "1.prems" cc by (subst (asm) finddir_loop.simps) (auto simp: looked_up_def ref_ok_def)
  next
    case True
    obtain c d where c: "child = Some c" and d: "strcmp (node_name c) nm = Some d"
      using "1.prems"(1) cc True by (subst (asm) finddir_loop.simps) (auto split: bind_splits)
    have n: "node_ok c" using ext2_node_readdir_node cc c by blast
    show ?thesis
    proof (cases "d = 0")
      case hit: True
      have i: "find_next s < length (find_nodes s)" "find_next s < 8" using "1.prems"(2) by (auto simp: vfs_wf_def)
      let ?s = "s\<lparr>find_nodes := (find_nodes s)[find_next s := c], find_next := (find_next s + 1) mod 8\<rparr>"
      have "vfs_wf ?s" by (rule vfs_wf_find [OF "1.prems"(2) n]) simp
      moreover have "r = Some (FindNode (find_next s))" "s' = ?s"
        using "1.prems"(1) cc True c d hit i(1) by (subst (asm) finddir_loop.simps, simp add: wr_in)+
      ultimately show ?thesis using i(2) by (simp add: looked_up_def ref_ok_def)
    next
      case False
      then have "finddir_loop s node nm (Suc index) = Some (r, s')"
        using "1.prems"(1) cc True c d by (subst (asm) finddir_loop.simps) simp
      then show ?thesis using "1.IH" [OF cc refl _ c d False] True "1.prems"(2) by simp
    qed
  qed
qed

lemma looked_up_trans: "looked_up s r s1 \<Longrightarrow> looked_up s1 r' s2 \<Longrightarrow> looked_up s r' s2"
  by (simp add: looked_up_def)

lemma looked_up_refl: "vfs_wf s \<Longrightarrow> ref_ok s r \<Longrightarrow> looked_up s r s"
  by (simp add: looked_up_def)

lemma ref_ok_none [simp]: "ref_ok s None"
  by (simp add: ref_ok_def)

lemma vfs_lookup_ok: "vfs_lookup s dir nm = Some (r, s') \<Longrightarrow> vfs_wf s \<Longrightarrow> looked_up s r s'"
  by (auto simp: vfs_lookup_def ext2_node_finddir_def split: option.splits bind_splits if_splits dest: finddir_loop_ok intro: looked_up_refl)

lemma parent_loop_ok:
  "parent_loop s path p node component sz = Some (r, leaf, s') \<Longrightarrow> vfs_wf s \<Longrightarrow> ref_ok s (Some node) \<Longrightarrow> looked_up s r s'"
proof (induction s path p node component sz arbitrary: r leaf s' rule: parent_loop.induct)
  case (1 s path p node component sz)
  obtain q comp c where h: "vfs_next_component path p component 64 = Some (q, comp)" "rd comp 0 = Some c"
    using "1.prems"(1) by (subst (asm) parent_loop.simps) (auto split: bind_splits)
  show ?case
  proof (cases "c = 0")
    case True
    then show ?thesis using "1.prems" h by (subst (asm) parent_loop.simps) (auto intro: looked_up_refl)
  next
    case False
    obtain x where x: "rd path q = Some x" using "1.prems"(1) h False by (subst (asm) parent_loop.simps) (auto split: bind_splits)
    show ?thesis
    proof (cases "x = 0")
      case True
      then show ?thesis using "1.prems" h False x by (subst (asm) parent_loop.simps) (auto split: bind_splits intro: looked_up_refl)
    next
      case x0: False
      obtain r1 s1 where l: "vfs_lookup s (Some node) comp = Some (r1, s1)"
        using "1.prems"(1) h False x x0 by (subst (asm) parent_loop.simps) (auto split: bind_splits)
      note lu = vfs_lookup_ok [OF l "1.prems"(2)]
      show ?thesis
      proof (cases r1)
        case None
        then show ?thesis using "1.prems"(1) h False x x0 l lu by (subst (asm) parent_loop.simps) auto
      next
        case (Some next')
        have "parent_loop s1 path q next' comp sz = Some (r, leaf, s')"
          using "1.prems"(1) h False x x0 l Some by (subst (asm) parent_loop.simps) simp
        then have "looked_up s1 r s'" using "1.IH" [OF h(1) refl h(2) False x x0 l refl Some] lu Some by (simp add: looked_up_def)
        then show ?thesis using lu looked_up_trans by blast
      qed
    qed
  qed
qed

lemma wf_root: "vfs_wf s \<Longrightarrow> ref_ok s (vfs_root s)"
  by (simp add: vfs_wf_def)

lemma vfs_find_parent_ok:
  assumes "vfs_find_parent s path sz = Some (r, leaf, s')" and "vfs_wf s"
  shows "looked_up s r s'"
  using assms wf_root [OF assms(2)]
  by (auto simp: vfs_find_parent_def split: bind_splits option.splits if_splits intro: looked_up_refl dest!: parent_loop_ok)

lemma vfs_open_node_ok:
  assumes "vfs_open_node s path = Some (r, s')" and "vfs_wf s"
  shows "looked_up s r s'"
proof -
  obtain c where c: "rd path 0 = Some c" using assms(1) by (auto simp: vfs_open_node_def split: bind_splits)
  show ?thesis
  proof (cases "c = 0")
    case True
    then show ?thesis using assms c by (auto simp: vfs_open_node_def intro: looked_up_refl)
  next
    case False
    obtain d where d: "rd path 1 = Some d" using assms(1) c False by (auto simp: vfs_open_node_def split: bind_splits)
    show ?thesis
    proof (cases "c = 47 \<and> d = 0")
      case True
      then show ?thesis using assms c d False wf_root by (auto simp: vfs_open_node_def intro: looked_up_refl)
    next
      case n: False
      obtain parent leaf s1 where p: "vfs_find_parent s path 64 = Some (parent, leaf, s1)"
        using assms(1) c d False n by (auto simp: vfs_open_node_def split: bind_splits)
      note lu = vfs_find_parent_ok [OF p assms(2)]
      then have w: "vfs_wf s1" by (simp add: looked_up_def)
      show ?thesis
      proof (cases parent)
        case None
        then show ?thesis using assms(1) c d False n p lu by (auto simp: vfs_open_node_def)
      next
        case (Some x)
        then obtain nm where "vfs_lookup s1 parent nm = Some (r, s')"
          using assms(1) c d False n p by (auto simp: vfs_open_node_def split: bind_splits)
        from looked_up_trans [OF lu vfs_lookup_ok [OF this w]] show ?thesis .
      qed
    qed
  qed
qed

lemma parent_leaf_ok: "parent_leaf s path = Some (pl, s') \<Longrightarrow> vfs_wf s \<Longrightarrow> vfs_wf s'"
  by (auto simp: parent_leaf_def split: bind_splits option.splits if_splits dest!: vfs_find_parent_ok simp: looked_up_def)

section \<open>Operations keep the tables well formed\<close>

lemma first_free_spec:
  "first_free used xs i = Some k \<Longrightarrow> i \<le> k \<and> k < i + length xs \<and> \<not> used (xs ! (k - i)) \<and> (\<forall>j < k - i. used (xs ! j))"
proof (induction used xs i rule: first_free.induct)
  case (2 used x xs i)
  show ?case
  proof (cases "used x")
    case True
    then have "first_free used xs (Suc i) = Some k" using "2.prems" by simp
    from "2.IH" [OF _ this] True have h: "Suc i \<le> k" "k < Suc i + length xs" "\<not> used (xs ! (k - Suc i))" "\<forall>j < k - Suc i. used (xs ! j)" by auto
    have e: "k - i = Suc (k - Suc i)" using h(1) by simp
    show ?thesis using h True unfolding e by (auto simp: less_Suc_eq_0_disj)
  qed (use 2 in auto)
qed simp

lemma first_free_none: "first_free used xs i = None \<longleftrightarrow> (\<forall>x \<in> set xs. used x)"
  by (induction used xs i rule: first_free.induct) auto

lemma ref_ok_heap:
  "length (heap_nodes s') = length (heap_nodes s) \<Longrightarrow> ref_ok s' = ref_ok s"
  by (simp add: ref_ok_def fun_eq_iff split: option.splits node_ref.splits)

lemma vfs_wf_files:
  assumes "vfs_wf s" and "fd_ok s f"
  shows "vfs_wf (s\<lparr>vfs_files := (vfs_files s)[i := f]\<rparr>)"
proof -
  have r: "ref_ok (s\<lparr>vfs_files := (vfs_files s)[i := f]\<rparr>) = ref_ok s" by (rule ref_ok_heap) simp
  show ?thesis using assms set_update_subset_insert [of "vfs_files s" i f]
    unfolding vfs_wf_def fd_ok_def mount_ok_def r by auto
qed

lemma vfs_open_fd_wf: "vfs_open_fd s node flags = (fd, s') \<Longrightarrow> vfs_wf s \<Longrightarrow> ref_ok s (Some node) \<Longrightarrow> vfs_wf s'"
  by (auto simp: vfs_open_fd_def fd_ok_def split: option.splits intro: vfs_wf_files)

lemma ext2_vfs_create_wf: "ext2_vfs_create op s parent nm = Some (code, r, s') \<Longrightarrow> vfs_wf s \<Longrightarrow> vfs_wf s'"
  by (auto simp: ext2_vfs_create_def split: bind_splits if_splits)

lemma vfs_open_wf:
  assumes "vfs_open s path flags = Some (fd, s')" and "vfs_wf s"
  shows "vfs_wf s'"
proof -
  obtain r s1 where o: "vfs_open_node s path = Some (r, s1)" using assms(1) by (auto simp: vfs_open_def split: bind_splits)
  note l1 = vfs_open_node_ok [OF o assms(2)]
  show ?thesis
  proof (cases r)
    case (Some node)
    then show ?thesis using assms(1) o l1 vfs_open_fd_wf [of s1 node flags fd s'] by (auto simp: vfs_open_def looked_up_def)
  next
    case None
    show ?thesis
    proof (cases "flags div VFS_O_CREATE mod 2 = 0")
      case True
      then show ?thesis using assms(1) o l1 None by (auto simp: vfs_open_def looked_up_def)
    next
      case False
      obtain pl s2 where pl: "parent_leaf s1 path = Some (pl, s2)" using assms(1) o None False by (auto simp: vfs_open_def split: bind_splits)
      have w2: "vfs_wf s2" using parent_leaf_ok [OF pl] l1 by (simp add: looked_up_def)
      show ?thesis
      proof (cases pl)
        case p: None
        then show ?thesis using assms(1) o None False pl w2 by (auto simp: vfs_open_def)
      next
        case (Some x)
        obtain parent leaf where x: "x = (parent, leaf)" by (cases x)
        obtain code ino s3 where c: "ext2_vfs_create_file s2 parent leaf = Some (code, ino, s3)"
          using assms(1) o None False pl Some x by (auto simp: vfs_open_def split: bind_splits)
        have w3: "vfs_wf s3" using ext2_vfs_create_wf c w2 unfolding ext2_vfs_create_file_def by blast
        show ?thesis
        proof (cases "code = VFS_OK")
          case ok: True
          obtain r2 s4 where o2: "vfs_open_node s3 path = Some (r2, s4)"
            using assms(1) o None False pl Some x c ok by (auto simp: vfs_open_def split: bind_splits)
          note l2 = vfs_open_node_ok [OF o2 w3]
          show ?thesis using assms(1) o None False pl Some x c ok o2 l2 vfs_open_fd_wf [of s4 _ flags fd s']
            by (cases r2) (auto simp: vfs_open_def looked_up_def)
        qed (use assms(1) o None False pl Some x c w3 in \<open>auto simp: vfs_open_def\<close>)
      qed
    qed
  qed
qed

lemma get_fd_ok:
  assumes "vfs_wf s"
  shows "\<exists>r. get_fd s fd = Some r \<and> (case r of None \<Rightarrow> True | Some f \<Rightarrow> 0 \<le> fd \<and> fd < 32 \<and> f = vfs_files s ! nat fd \<and> fd_in_use f \<and> fd_ok s f)"
proof (cases "fd < 0 \<or> int VFS_MAX_OPEN \<le> fd")
  case False
  then have i: "nat fd < length (vfs_files s)" using assms by (auto simp: vfs_wf_def VFS_MAX_OPEN_def)
  then have "fd_ok s (vfs_files s ! nat fd)" using assms by (simp add: vfs_wf_def)
  then show ?thesis using i False by (simp add: get_fd_def rd_in VFS_MAX_OPEN_def)
qed (simp add: get_fd_def)

lemma get_fd_SomeD: "get_fd s fd = Some (Some f) \<Longrightarrow> vfs_wf s \<Longrightarrow> 0 \<le> fd \<and> fd < 32 \<and> f = vfs_files s ! nat fd \<and> fd_in_use f \<and> fd_ok s f"
  using get_fd_ok [of s fd] by auto

lemma vfs_close_wf: "vfs_close s fd = Some (c, s') \<Longrightarrow> vfs_wf s \<Longrightarrow> vfs_wf s'"
  by (auto simp: vfs_close_def split: bind_splits option.splits intro!: vfs_wf_files dest!: get_fd_SomeD simp: fd_ok_def)

lemma fd_advance_wf: "vfs_wf s \<Longrightarrow> fd_ok s f \<Longrightarrow> vfs_wf (fd_advance s fd f n)"
  by (auto simp: fd_advance_def fd_ok_def wrap32_def intro!: vfs_wf_files)

lemma vfs_read_wf: "vfs_read s fd buf sz = Some (n, b, s') \<Longrightarrow> vfs_wf s \<Longrightarrow> vfs_wf s'"
  by (auto simp: vfs_read_def split: bind_splits option.splits if_splits dest!: get_fd_SomeD intro!: fd_advance_wf)

lemma set_node_wf:
  assumes "vfs_wf s" and "node_ok n"
  shows "vfs_wf (set_node s r n)" and "ref_ok (set_node s r n) = ref_ok s"
proof -
  show r: "ref_ok (set_node s r n) = ref_ok s" by (rule ref_ok_heap) (simp add: set_node_def split: node_ref.splits)
  show "vfs_wf (set_node s r n)"
  proof (cases r)
    case (HeapNode i)
    then show ?thesis using assms set_update_subset_insert [of "heap_nodes s" i "Some n"] r
      unfolding vfs_wf_def fd_ok_def mount_ok_def r by (auto simp: set_node_def)
  next
    case (FindNode i)
    then show ?thesis using assms set_update_subset_insert [of "find_nodes s" i n] r
      unfolding vfs_wf_def fd_ok_def mount_ok_def r by (auto simp: set_node_def)
  qed
qed

lemma get_node_ok: "get_node s r = Some n \<Longrightarrow> vfs_wf s \<Longrightarrow> node_ok n"
  by (auto simp: get_node_def vfs_wf_def split: node_ref.splits bind_splits dest!: rd_SomeD)

lemma ext2_node_write_ok: "ext2_node_write e node off sz buf p = Some (n, node', e') \<Longrightarrow> node_ok node \<Longrightarrow> node_ok node'"
  by (auto simp: ext2_node_write_def node_ok_def Let_def split: if_splits bind_splits option.splits)

lemma vfs_write_wf:
  assumes "vfs_write s fd buf sz = Some (n, s')" and "vfs_wf s"
  shows "vfs_wf s'"
proof -
  obtain r where r: "get_fd s fd = Some r" using assms(1) by (cases "get_fd s fd") (simp_all add: vfs_write_def)
  have "s' = s \<or> (\<exists>f ref node node1 e. r = Some f \<and> get_node s ref = Some node \<and>
      ext2_node_write (ext2_fs s) node (fd_pos f) sz buf 0 = Some (n, node1, e) \<and>
      s' = fd_advance (set_node (s\<lparr>ext2_fs := e\<rparr>) ref node1) fd f n)"
  proof (cases "\<exists>f ref. r = Some f \<and> fd_node f = Some ref")
    case False
    then show ?thesis using assms(1) r by (auto simp: vfs_write_def split: option.splits)
  next
    case True
    then obtain f ref where f: "r = Some f" "fd_node f = Some ref" by blast
    obtain node where node: "get_node s ref = Some node" using assms(1) r f by (cases "get_node s ref") (simp_all add: vfs_write_def)
    show ?thesis
    proof (cases "node_write node")
      case w: True
      obtain m node1 e where "ext2_node_write (ext2_fs s) node (fd_pos f) sz buf 0 = Some (m, node1, e)"
        using assms(1) r f node w by (cases "ext2_node_write (ext2_fs s) node (fd_pos f) sz buf 0") (auto simp: vfs_write_def)
      then show ?thesis using assms(1) r f node w by (auto simp: vfs_write_def)
    qed (use assms(1) r f node in \<open>simp add: vfs_write_def\<close>)
  qed
  then consider "s' = s" | f ref node node1 e where "get_fd s fd = Some (Some f)" "get_node s ref = Some node"
      "ext2_node_write (ext2_fs s) node (fd_pos f) sz buf 0 = Some (n, node1, e)"
      "s' = fd_advance (set_node (s\<lparr>ext2_fs := e\<rparr>) ref node1) fd f n" using r by blast
  then show ?thesis
  proof cases
    case 2
    have n1: "node_ok node1" using ext2_node_write_ok [OF 2(3) get_node_ok [OF 2(2) assms(2)]] .
    have w: "vfs_wf (s\<lparr>ext2_fs := e\<rparr>)" using assms(2) by simp
    note sn = set_node_wf [OF w n1, of ref]
    have "ref_ok (s\<lparr>ext2_fs := e\<rparr>) = ref_ok s" by (rule ref_ok_heap) simp
    moreover have "fd_ok s f" using get_fd_SomeD [OF 2(1) assms(2)] by blast
    ultimately have "fd_ok (set_node (s\<lparr>ext2_fs := e\<rparr>) ref node1) f" using sn(2) by (simp add: fd_ok_def)
    then show ?thesis using 2(4) fd_advance_wf [OF sn(1)] by simp
  qed (use assms in simp)
qed

lemma vfs_open_node_wf: "vfs_open_node s path = Some (r, s') \<Longrightarrow> vfs_wf s \<Longrightarrow> vfs_wf s'"
  using vfs_open_node_ok by (auto simp: looked_up_def)

lemma vfs_find_parent_wf: "vfs_find_parent s path sz = Some (r, l, s') \<Longrightarrow> vfs_wf s \<Longrightarrow> vfs_wf s'"
  using vfs_find_parent_ok by (auto simp: looked_up_def)

lemma vfs_stat_wf: "vfs_stat s path = Some (c, r, s') \<Longrightarrow> vfs_wf s \<Longrightarrow> vfs_wf s'"
  by (auto simp: vfs_stat_def split: bind_splits option.splits dest!: vfs_open_node_wf)

lemma vfs_readdir_wf: "vfs_readdir s path index = Some (c, r, s') \<Longrightarrow> vfs_wf s \<Longrightarrow> vfs_wf s'"
  by (auto simp: vfs_readdir_def split: bind_splits option.splits if_splits dest!: vfs_open_node_wf)

lemma remove_leaf_wf: "remove_leaf op s path = Some (c, s') \<Longrightarrow> vfs_wf s \<Longrightarrow> vfs_wf s'"
  by (auto simp: remove_leaf_def split: bind_splits option.splits dest!: parent_leaf_ok)

lemma vfs_unlink_wf: "vfs_unlink s path = Some (c, s') \<Longrightarrow> vfs_wf s \<Longrightarrow> vfs_wf s'"
  by (auto simp: vfs_unlink_def split: bind_splits option.splits if_splits dest!: vfs_open_node_wf remove_leaf_wf)

lemma vfs_rmdir_wf: "vfs_rmdir s path = Some (c, s') \<Longrightarrow> vfs_wf s \<Longrightarrow> vfs_wf s'"
  by (auto simp: vfs_rmdir_def split: bind_splits option.splits if_splits dest!: vfs_open_node_wf remove_leaf_wf)

lemma vfs_truncate_wf: "vfs_truncate s path sz = Some (c, s') \<Longrightarrow> vfs_wf s \<Longrightarrow> vfs_wf s'"
  by (auto simp: vfs_truncate_def split: bind_splits option.splits if_splits dest!: vfs_open_node_wf)

lemma rmtree_wf:
  "vfs_rmtree path s = Some (c, s') \<Longrightarrow> vfs_wf s \<Longrightarrow> vfs_wf s'"
  "rmtree_loop path index s = Some t \<Longrightarrow> vfs_wf s \<Longrightarrow> vfs_wf t"
proof (induction path s and path index s arbitrary: c s' and t rule: vfs_rmtree_rmtree_loop.induct)
  case (1 path s)
  obtain r s1 where o: "vfs_open_node s path = Some (r, s1)" using "1.prems"(1) by (subst (asm) vfs_rmtree.simps) (auto split: bind_splits)
  have w1: "vfs_wf s1" by (rule vfs_open_node_wf [OF o "1.prems"(2)])
  show ?case
  proof (cases r)
    case None
    then show ?thesis using "1.prems"(1) o w1 by (subst (asm) vfs_rmtree.simps) simp
  next
    case (Some ref)
    obtain node where n: "get_node s1 ref = Some node" using "1.prems"(1) o Some by (subst (asm) vfs_rmtree.simps) (auto split: bind_splits)
    show ?thesis
    proof (cases "node_flags node = VFS_FT_DIR")
      case False
      then have "vfs_unlink s1 path = Some (c, s')" using "1.prems"(1) o Some n by (subst (asm) vfs_rmtree.simps) simp
      then show ?thesis using w1 vfs_unlink_wf by blast
    next
      case True
      obtain code out s2 where rd: "vfs_readdir s1 path 0 = Some (code, out, s2)"
        using "1.prems"(1) o Some n True by (subst (asm) vfs_rmtree.simps) (auto split: bind_splits)
      have w2: "vfs_wf s2" by (rule vfs_readdir_wf [OF rd w1])
      show ?thesis
      proof (cases "code = VFS_OK")
        case ok: True
        obtain s3 where s3: "rmtree_loop path 0 s2 = Some s3" "vfs_rmdir s3 path = Some (c, s')"
          using "1.prems"(1) o Some n True rd ok by (subst (asm) vfs_rmtree.simps) (auto split: bind_splits)
        have "vfs_wf s3" using "1.IH" [OF o refl Some n _ rd refl refl _ s3(1) w2] True ok by simp
        then show ?thesis using s3(2) vfs_rmdir_wf by blast
      next
        case False
        then show ?thesis using "1.prems"(1) o Some n True rd w2 by (subst (asm) vfs_rmtree.simps) simp
      qed
    qed
  qed
next
  case (2 path index s)
  obtain code out s1 where rd: "vfs_readdir s path index = Some (code, out, s1)"
    using "2.prems"(1) by (subst (asm) rmtree_loop.simps) (auto split: bind_splits)
  have w1: "vfs_wf s1" by (rule vfs_readdir_wf [OF rd "2.prems"(2)])
  show ?case
  proof (cases "code = VFS_OK")
    case False
    then show ?thesis using "2.prems"(1) rd w1 by (subst (asm) rmtree_loop.simps) simp
  next
    case ok: True
    obtain child dot where ch: "out = Some child" "is_dot_name (node_name child) = Some dot"
      using "2.prems"(1) rd ok by (subst (asm) rmtree_loop.simps) (auto split: bind_splits)
    note IH = "2.IH" [OF rd refl refl _ ch]
    show ?thesis
    proof (cases dot)
      case True
      then have "rmtree_loop path (Suc index) s1 = Some t" using "2.prems"(1) rd ok ch by (subst (asm) rmtree_loop.simps) simp
      then show ?thesis using IH(1) True ok w1 by simp
    next
      case False
      obtain cp where cp: "child_path path (node_name child) = Some cp"
        using "2.prems"(1) rd ok ch False by (subst (asm) rmtree_loop.simps) (auto split: bind_splits)
      let ?m = "case cp of None \<Rightarrow> Some s1
                | Some cpath \<Rightarrow> if node_flags child = VFS_FT_DIR then do { (code1, t) \<leftarrow> vfs_rmtree cpath s1; Some t }
                                else do { (code1, t) \<leftarrow> vfs_unlink s1 cpath; Some t }"
      obtain s2 where s2: "?m = Some s2" "rmtree_loop path (Suc index) s2 = Some t"
        using "2.prems"(1) rd ok ch False cp by (subst (asm) rmtree_loop.simps) (auto split: bind_splits)
      have w2: "vfs_wf s2"
      proof (cases cp)
        case (Some cpath)
        then show ?thesis using s2(1) IH(2) [OF _ _ cp Some] ok False w1
          by (auto split: if_splits bind_splits dest: vfs_unlink_wf)
      qed (use s2 w1 in simp)
      then show ?thesis using IH(3) [OF _ _ cp s2(1) s2(2)] ok False by simp
    qed
  qed
qed

lemma vfs_rename_wf:
  assumes "vfs_rename s oldpath newpath = Some (c, s')" and "vfs_wf s"
  shows "vfs_wf s'"
proof -
  obtain c1 c2 where c: "rd oldpath 0 = Some c1" "rd newpath 0 = Some c2"
    using assms(1) by (auto simp: vfs_rename_def split: bind_splits)
  show ?thesis
  proof (cases "c1 = 0 \<or> c2 = 0")
    case True
    then show ?thesis using assms c by (auto simp: vfs_rename_def)
  next
    case z: False
    obtain r s1 where o: "vfs_open_node s oldpath = Some (r, s1)"
      using assms(1) c z by (cases "vfs_open_node s oldpath") (auto simp: vfs_rename_def)
    note w1 = vfs_open_node_wf [OF o assms(2)]
    obtain old_r old_l s2 where p: "r \<noteq> None \<Longrightarrow> vfs_find_parent s1 oldpath 64 = Some (old_r, old_l, s2)"
      using assms(1) c z o by (cases r; cases "vfs_find_parent s1 oldpath 64") (auto simp: vfs_rename_def)
    show ?thesis
    proof (cases "r = None \<or> old_r = None")
      case True
      then show ?thesis using assms(1) c z o w1 p vfs_find_parent_wf by (cases r) (auto simp: vfs_rename_def)
    next
      case r: False
      then obtain op where op: "old_r = Some op" "r \<noteq> None" by auto
      note p = p [OF op(2)]
      note w2 = vfs_find_parent_wf [OF p w1]
      obtain old_leaf d where l: "old_l = Some old_leaf" "rd old_leaf 0 = Some d"
        using assms(1) c z o p op by (auto simp: vfs_rename_def split: bind_splits)
      show ?thesis
      proof (cases "d = 0")
        case True
        then show ?thesis using assms(1) c z o p op l w2 by (auto simp: vfs_rename_def)
      next
        case d: False
        let ?rest = "\<lambda>dst s3. do {
                    into \<leftarrow> (case dst of None \<Rightarrow> Some False
                              | Some ref \<Rightarrow> do {
                                  node \<leftarrow> get_node s3 ref;
                                  if node_flags node = VFS_FT_DIR then do { d \<leftarrow> strcmp newpath oldpath; Some (d \<noteq> 0) }
                                  else Some False });
                    if into then child_path newpath old_leaf else Some (Some newpath) }"
        obtain dst s3 where o3: "vfs_open_node s2 newpath = Some (dst, s3)"
          using assms(1) c z o p op l d by (cases "vfs_open_node s2 newpath") (auto simp: vfs_rename_def)
        note w3 = vfs_open_node_wf [OF o3 w2]
        obtain target where t: "?rest dst s3 = Some target"
          using assms(1) c z o p op l d o3 by (cases "?rest dst s3") (auto simp: vfs_rename_def simp flip: bind_assoc)
        have run: "vfs_rename s oldpath newpath = (case target of None \<Rightarrow> Some (VFS_ERR, s3)
            | Some newpath1 \<Rightarrow> do {
                (new_r, new_l, s4) \<leftarrow> vfs_find_parent s3 newpath1 64;
                case new_r of None \<Rightarrow> Some (VFS_ERR_NOT_FOUND, s4)
                | Some new_parent \<Rightarrow> do {
                    new_leaf \<leftarrow> new_l;
                    d \<leftarrow> rd new_leaf 0;
                    if d = 0 then Some (VFS_ERR_NOT_FOUND, s4)
                    else do {
                      op' \<leftarrow> get_node s4 op;
                      np \<leftarrow> get_node s4 new_parent;
                      (ok, e) \<leftarrow> ext2_rename (ext2_fs s4) (node_inode op') old_leaf (node_inode np) new_leaf;
                      Some (if ok then VFS_OK else VFS_ERR, s4\<lparr>ext2_fs := e\<rparr>) } } })"
          using c z o p op l d o3 t by (auto simp: vfs_rename_def split: bind_splits)
        show ?thesis using assms(1) w3 unfolding run by (auto split: option.splits bind_splits if_splits dest!: vfs_find_parent_wf)
      qed
    qed
  qed
qed

lemma find_fs_range: "find_fs fs nm i = Some (Some k) \<Longrightarrow> i \<le> k \<and> k < i + length fs"
  by (induction fs nm i rule: find_fs.induct) (auto split: bind_splits if_splits)

lemma vfs_add_fs_wf:
  assumes "vfs_add_fs s ext2_fs_ops = Some (c, s')" and "vfs_wf s"
  shows "vfs_wf s'"
proof -
  have "s' = s \<or> length (vfs_filesystems s) < VFS_MAX_FS \<and> s' = s\<lparr>vfs_filesystems := vfs_filesystems s @ [ext2_fs_ops]\<rparr>"
    using assms(1) by (auto simp: vfs_add_fs_def split: if_splits bind_splits)
  moreover have "ref_ok (s\<lparr>vfs_filesystems := vfs_filesystems s @ [ext2_fs_ops]\<rparr>) = ref_ok s" by (rule ref_ok_heap) simp
  ultimately show ?thesis using assms(2) by (auto simp: vfs_wf_def fd_ok_def mount_ok_def less_Suc_eq)
qed

lemma ref_ok_grow: "ref_ok s r \<Longrightarrow> heap_nodes s' = heap_nodes s @ ns \<Longrightarrow> ref_ok s' r"
  by (auto simp: ref_ok_def split: option.splits node_ref.splits)

lemma ext2_vfs_mount_name: "ext2_vfs_mount e n = Some (c, n') \<Longrightarrow> node_name n' = node_name n"
  by (auto simp: ext2_vfs_mount_def split: if_splits bind_splits option.splits)

lemma strcpy_terminated: "strcpy dst src = Some d \<Longrightarrow> length d = length dst \<and> terminated d"
proof -
  have "strcpy_loop dst src i = Some d \<Longrightarrow> length d = length dst \<and> terminated d" for i
  proof (induction dst src i rule: strcpy_loop.induct)
    case (1 dst src i)
    then show ?case
      by (subst (asm) (2) strcpy_loop.simps)
        (auto split: bind_splits if_splits dest!: wr_SomeD simp: terminated_def set_update_memI)
  qed
  then show "strcpy dst src = Some d \<Longrightarrow> length d = length dst \<and> terminated d" by (simp add: strcpy_def)
qed

lemma strncpy_length: "strncpy dst src n = Some d \<Longrightarrow> length d = length dst"
proof -
  have pad: "strncpy_pad dst n i = Some d \<Longrightarrow> length d = length dst" for dst n i
  proof (induction dst n i rule: strncpy_pad.induct)
    case (1 dst n i)
    then show ?case by (subst (asm) (2) strncpy_pad.simps) (auto split: bind_splits if_splits dest!: wr_SomeD)
  qed
  have "strncpy_loop dst src n i = Some d \<Longrightarrow> length d = length dst" for i
  proof (induction dst src n i rule: strncpy_loop.induct)
    case (1 dst src n i)
    then show ?case by (subst (asm) (2) strncpy_loop.simps) (auto split: bind_splits if_splits dest!: wr_SomeD pad)
  qed
  then show "strncpy dst src n = Some d \<Longrightarrow> length d = length dst" by (simp add: strncpy_def)
qed

lemma wf_mount_slot:
  assumes "vfs_wf s" and "mount_ok s m"
  shows "vfs_wf (s\<lparr>vfs_mounts := (vfs_mounts s)[i := m]\<rparr>)"
proof -
  have r: "ref_ok (s\<lparr>vfs_mounts := (vfs_mounts s)[i := m]\<rparr>) = ref_ok s" by (rule ref_ok_heap) simp
  show ?thesis using assms set_update_subset_insert [of "vfs_mounts s" i m] unfolding vfs_wf_def fd_ok_def mount_ok_def r by auto
qed

lemma wf_heap_grow:
  assumes "vfs_wf s" and "node_ok n"
  shows "vfs_wf (s\<lparr>heap_nodes := heap_nodes s @ [Some n]\<rparr>)"
proof -
  let ?s = "s\<lparr>heap_nodes := heap_nodes s @ [Some n]\<rparr>"
  have r: "ref_ok s x \<Longrightarrow> ref_ok ?s x" for x by (rule ref_ok_grow) simp_all
  show ?thesis using assms r unfolding vfs_wf_def fd_ok_def mount_ok_def by auto
qed

lemma wf_root_set: "vfs_wf s \<Longrightarrow> ref_ok s r \<Longrightarrow> vfs_wf (s\<lparr>vfs_root := r\<rparr>)"
  using ref_ok_heap [of "s\<lparr>vfs_root := r\<rparr>" s] by (simp add: vfs_wf_def fd_ok_def mount_ok_def)

lemma vfs_mount_wf:
  assumes "vfs_mount k s path fs_type = Some (c, s')" and "vfs_wf s"
  shows "vfs_wf s'"
proof -
  obtain found where f: "find_fs (vfs_filesystems s) fs_type 0 = Some found" using assms(1) by (auto simp: vfs_mount_def split: bind_splits)
  show ?thesis
  proof (cases "found = None \<or> first_free mp_in_use (vfs_mounts s) 0 = None")
    case True
    then show ?thesis using assms f by (auto simp: vfs_mount_def split: option.splits)
  next
    case False
    then obtain t slot where t: "found = Some t" "first_free mp_in_use (vfs_mounts s) 0 = Some slot" by auto
    have tl: "t < length (vfs_filesystems s)" using find_fs_range f t(1) by fastforce
    have sl: "slot < length (vfs_mounts s)" "mount_ok s (vfs_mounts s ! slot)" "\<not> mp_in_use (vfs_mounts s ! slot)"
      using first_free_spec [OF t(2)] assms(2) by (auto simp: vfs_wf_def)
    have op: "vfs_filesystems s ! t = ext2_fs_ops" using assms(2) tl by (simp add: vfs_wf_def)
    note base = assms(1) f t rd_in [OF tl] rd_in [OF sl(1)] op
    obtain nm where nm: "strcpy (replicate 64 0) path = Some nm" using base by (cases "strcpy (replicate 64 0) path") (auto simp: vfs_mount_def)
    obtain code root where m: "ext2_vfs_mount (ext2_fs s) (empty_node\<lparr>node_name := nm\<rparr>) = Some (code, root)"
      using base nm by (cases "ext2_vfs_mount (ext2_fs s) (empty_node\<lparr>node_name := nm\<rparr>)") (auto simp: vfs_mount_def ext2_fs_ops_def)
    have ro: "node_ok root" using ext2_vfs_mount_name [OF m] strcpy_terminated [OF nm] by (simp add: node_ok_def)
    show ?thesis
    proof (cases "code \<noteq> 0 \<or> \<not> k")
      case True
      have "mount_ok s ((vfs_mounts s ! slot)\<lparr>mp_root := None\<rparr>)" using sl by (simp add: mount_ok_def)
      then show ?thesis using True base nm m assms(2) wf_mount_slot [OF assms(2)]
        by (cases "code = 0") (auto simp: vfs_mount_def ext2_fs_ops_def)
    next
      case False
      let ?r = "HeapNode (length (heap_nodes s))"
      obtain p1 p2 c0 d where x: "strncpy (mp_path (vfs_mounts s ! slot)) path 63 = Some p1" "wr p1 63 0 = Some p2" "rd path 0 = Some c0"
        "(if c0 = 47 then rd path 1 else Some 1) = Some d"
        using False base nm m by (auto simp: vfs_mount_def ext2_fs_ops_def split: bind_splits)
      have lp: "length p2 = 64" using strncpy_length [OF x(1)] length_wr [OF x(2)] sl(2) by (simp add: mount_ok_def)
      let ?s1 = "s\<lparr>heap_nodes := heap_nodes s @ [Some root]\<rparr>"
      let ?m = "\<lparr>mp_path = p2, mp_root = Some ?r, mp_fs_type = t, mp_in_use = True\<rparr>"
      let ?s2 = "?s1\<lparr>vfs_mounts := (vfs_mounts ?s1)[slot := ?m]\<rparr>"
      let ?root = "if c0 = 47 \<and> d = 0 then Some ?r else vfs_root s"
      have w1: "vfs_wf ?s1" by (rule wf_heap_grow [OF assms(2) ro])
      have "mount_ok ?s1 ?m" using lp tl by (simp add: mount_ok_def ref_ok_def)
      then have w2: "vfs_wf ?s2" by (rule wf_mount_slot [OF w1])
      have "ref_ok ?s2 ?root" using wf_root [OF w2] by (simp add: ref_ok_def)
      then have "vfs_wf (?s2\<lparr>vfs_root := ?root\<rparr>)" by (rule wf_root_set [OF w2])
      moreover have "s' = ?s2\<lparr>vfs_root := ?root\<rparr>" using False base nm m x by (simp add: vfs_mount_def ext2_fs_ops_def Let_def)
      ultimately show ?thesis by simp
    qed
  qed
qed

lemma vfs_unmount_wf:
  assumes "vfs_unmount s path = Some (c, s')" and "vfs_wf s"
  shows "vfs_wf s'"
proof -
  obtain r where r: "find_mount_at (vfs_mounts s) path 0 = Some r" using assms(1) by (auto simp: vfs_unmount_def split: bind_splits)
  show ?thesis
  proof (cases r)
    case None
    then show ?thesis using assms r by (simp add: vfs_unmount_def)
  next
    case (Some i)
    obtain m where m: "rd (vfs_mounts s) i = Some m" using assms(1) r Some by (auto simp: vfs_unmount_def split: bind_splits)
    let ?s1 = "kfree_node s (mp_root m)"
    have len: "length (heap_nodes ?s1) = length (heap_nodes s)" by (simp add: kfree_node_def split: option.splits node_ref.splits)
    have same: "vfs_files ?s1 = vfs_files s" "vfs_mounts ?s1 = vfs_mounts s" "vfs_filesystems ?s1 = vfs_filesystems s"
      "find_nodes ?s1 = find_nodes s" "find_next ?s1 = find_next s" "vfs_root ?s1 = vfs_root s"
      by (simp_all add: kfree_node_def split: option.splits node_ref.splits)
    have "Some n \<in> set (heap_nodes ?s1) \<Longrightarrow> Some n \<in> set (heap_nodes s)" for n
      using set_update_subset_insert [of "heap_nodes s" _ None] by (auto simp: kfree_node_def split: option.splits node_ref.splits)
    then have w1: "vfs_wf ?s1" using assms(2) same ref_ok_heap [OF len] by (auto simp: vfs_wf_def fd_ok_def mount_ok_def)
    let ?m = "m\<lparr>mp_in_use := False\<rparr>"
    let ?s2 = "?s1\<lparr>vfs_mounts := (vfs_mounts ?s1)[i := ?m]\<rparr>"
    have "mount_ok ?s1 m" using w1 m same(2) by (auto simp: vfs_wf_def dest!: rd_SomeD)
    then have w2: "vfs_wf ?s2" by (intro wf_mount_slot [OF w1]) (simp add: mount_ok_def)
    let ?root = "if vfs_root ?s1 = mp_root m then None else vfs_root ?s1"
    have "ref_ok ?s2 ?root" using wf_root [OF w2] by simp
    then have "vfs_wf (?s2\<lparr>vfs_root := ?root\<rparr>)" by (rule wf_root_set [OF w2])
    moreover have "s' = ?s2\<lparr>vfs_root := ?root\<rparr>"
      using assms(1) r Some m by (auto simp: vfs_unmount_def ext2_vfs_umount_def Let_def split: bind_splits)
    ultimately show ?thesis by simp
  qed
qed

lemma ext2_init_wf:
  assumes "ext2_init a b c s = Some s'" and "vfs_wf s"
  shows "vfs_wf s'"
proof -
  have mounted: "vfs_wf t" if "ext2_vfs_register (s\<lparr>ext2_fs := e\<rparr>) = Some (c1, s1)" "vfs_mount k s1 p n = Some (c2, t)"
    for e c1 s1 k p n c2 t
    using that vfs_add_fs_wf [of "s\<lparr>ext2_fs := e\<rparr>" c1 s1] assms(2) vfs_mount_wf [OF that(2)] by (simp add: ext2_vfs_register_def)
  show ?thesis
    by (insert assms) (auto simp: ext2_init_def Let_def split: bind_splits option.splits if_splits; erule (1) mounted)
qed

section \<open>Reachable states\<close>

text \<open>The state after \<open>vfs_init\<close>, with the static nodes as the loader leaves them, and the calls the kernel can make.\<close>

definition vfs_boot :: "ext2_st \<Rightarrow> vfs_st" where
  "vfs_boot e = vfs_init \<lparr>ext2_fs = e, vfs_filesystems = [], vfs_mounts = [], vfs_files = [], vfs_root = None, heap_nodes = [],
     find_nodes = replicate 8 empty_node, find_next = 0\<rparr>"

inductive vfs_step :: "vfs_st \<Rightarrow> vfs_st \<Rightarrow> bool" where
  do_init: "ext2_init a b c s = Some s' \<Longrightarrow> vfs_step s s'"
| do_mount: "vfs_mount k s path fs_type = Some (c, s') \<Longrightarrow> vfs_step s s'"
| do_unmount: "vfs_unmount s path = Some (c, s') \<Longrightarrow> vfs_step s s'"
| do_open_file: "vfs_open s path flags = Some (fd, s') \<Longrightarrow> vfs_step s s'"
| do_create: "vfs_create s path flags = Some (fd, s') \<Longrightarrow> vfs_step s s'"
| do_close: "vfs_close s fd = Some (c, s') \<Longrightarrow> vfs_step s s'"
| do_read: "vfs_read s fd buf sz = Some (n, b, s') \<Longrightarrow> vfs_step s s'"
| do_write: "vfs_write s fd buf sz = Some (n, s') \<Longrightarrow> vfs_step s s'"
| do_stat: "vfs_stat s path = Some (c, r, s') \<Longrightarrow> vfs_step s s'"
| do_readdir: "vfs_readdir s path index = Some (c, r, s') \<Longrightarrow> vfs_step s s'"
| do_parent: "vfs_parent s path sz = Some (r, leaf, s') \<Longrightarrow> vfs_step s s'"
| do_create_file: "ext2_vfs_create_file s node nm = Some (c, r, s') \<Longrightarrow> vfs_step s s'"
| do_create_dir: "ext2_vfs_create_dir s node nm = Some (c, r, s') \<Longrightarrow> vfs_step s s'"
| do_unlink: "vfs_unlink s path = Some (c, s') \<Longrightarrow> vfs_step s s'"
| do_rmdir: "vfs_rmdir s path = Some (c, s') \<Longrightarrow> vfs_step s s'"
| do_rmtree: "vfs_rmtree path s = Some (c, s') \<Longrightarrow> vfs_step s s'"
| do_rename: "vfs_rename s oldpath newpath = Some (c, s') \<Longrightarrow> vfs_step s s'"
| do_truncate: "vfs_truncate s path new_size = Some (c, s') \<Longrightarrow> vfs_step s s'"

inductive vfs_reachable :: "vfs_st \<Rightarrow> bool" where
  boot: "vfs_reachable (vfs_boot e)"
| step: "vfs_reachable s \<Longrightarrow> vfs_step s s' \<Longrightarrow> vfs_reachable s'"

lemma vfs_boot_wf: "vfs_wf (vfs_boot e)"
  by (simp add: vfs_boot_def vfs_init_def vfs_wf_def VFS_MAX_OPEN_def VFS_MAX_MOUNTS_def VFS_MAX_FS_def fd_ok_def mount_ok_def node_ok_def
      empty_node_def terminated_def)

lemmas vfs_ops_wf = ext2_init_wf vfs_mount_wf vfs_unmount_wf vfs_open_wf vfs_close_wf vfs_read_wf vfs_write_wf vfs_stat_wf
  vfs_readdir_wf vfs_find_parent_wf ext2_vfs_create_wf vfs_unlink_wf vfs_rmdir_wf rmtree_wf(1) vfs_rename_wf vfs_truncate_wf

lemma vfs_step_wf: "vfs_step s s' \<Longrightarrow> vfs_wf s \<Longrightarrow> vfs_wf s'"
  by (induction rule: vfs_step.induct)
    (auto simp: vfs_create_def vfs_parent_def ext2_vfs_create_file_def ext2_vfs_create_dir_def intro: vfs_ops_wf)

lemma parent_leaf_files: "parent_leaf s path = Some (pl, s') \<Longrightarrow> vfs_wf s \<Longrightarrow> vfs_files s' = vfs_files s"
  by (auto simp: parent_leaf_def looked_up_def split: bind_splits option.splits if_splits dest!: vfs_find_parent_ok)

text \<open>A successful \<open>vfs_open\<close> ends with a new descriptor, the table of descriptors being as before up to there.\<close>

lemma vfs_open_cases:
  assumes "vfs_open s path flags = Some (fd, s')" and "vfs_wf s"
  shows "fd \<in> {VFS_ERR, VFS_ERR_NOT_FOUND} \<or> (\<exists>t node. vfs_files t = vfs_files s \<and> vfs_open_fd t node flags = (fd, s'))"
proof -
  obtain r s1 where o: "vfs_open_node s path = Some (r, s1)" using assms(1) by (auto simp: vfs_open_def split: bind_splits)
  note l1 = vfs_open_node_ok [OF o assms(2)]
  show ?thesis
  proof (cases "r \<noteq> None \<or> flags div VFS_O_CREATE mod 2 = 0")
    case True
    then show ?thesis using assms(1) o l1 by (cases r) (auto simp: vfs_open_def looked_up_def)
  next
    case False
    obtain pl s2 where pl: "parent_leaf s1 path = Some (pl, s2)" using assms(1) o False by (auto simp: vfs_open_def split: bind_splits)
    have w2: "vfs_wf s2" "vfs_files s2 = vfs_files s" using parent_leaf_ok [OF pl] parent_leaf_files [OF pl] l1 by (auto simp: looked_up_def)
    show ?thesis
    proof (cases pl)
      case (Some x)
      obtain parent leaf where x: "x = (parent, leaf)" by (cases x)
      obtain code ino s3 where c: "ext2_vfs_create_file s2 parent leaf = Some (code, ino, s3)"
        using assms(1) o False pl Some x by (auto simp: vfs_open_def split: bind_splits)
      have w3: "vfs_wf s3" using ext2_vfs_create_wf c w2 unfolding ext2_vfs_create_file_def by blast
      have f3: "vfs_files s3 = vfs_files s" using c w2(2) by (auto simp: ext2_vfs_create_file_def ext2_vfs_create_def split: bind_splits if_splits)
      show ?thesis
      proof (cases "code = VFS_OK")
        case ok: True
        obtain r2 s4 where o2: "vfs_open_node s3 path = Some (r2, s4)"
          using assms(1) o False pl Some x c ok by (auto simp: vfs_open_def split: bind_splits)
        show ?thesis using assms(1) o False pl Some x c ok o2 vfs_open_node_ok [OF o2 w3] f3
          by (cases r2) (auto simp: vfs_open_def looked_up_def)
      qed (use assms(1) o False pl Some x c in \<open>auto simp: vfs_open_def\<close>)
    qed (use assms(1) o False pl in \<open>auto simp: vfs_open_def\<close>)
  qed
qed

text \<open>A system without disks.\<close>

definition no_ext2 :: ext2_st where
  "no_ext2 = \<lparr>superblock = None, block_size = 0, blocks_per_group = 0, inodes_per_group = 0, group_count = 0, group_desc = None,
     ext2_mounted = False, ata_devs = []\<rparr>"

section \<open>Properties\<close>



text \<open>
  Descriptors.  When \<open>vfs_open\<close> succeeds, creating the file or not, it returns the lowest descriptor that is not in use, with
  its position at the start, and changes no other descriptor; \<open>vfs_close\<close> of it succeeds and makes exactly this
  one free again.
\<close>

theorem vfs_open_close:
  assumes "vfs_wf s" and "vfs_open s path flags = Some (fd, s')" and "0 \<le> fd"
  shows "fd < 32 \<and> \<not> fd_in_use (vfs_files s ! nat fd) \<and> (\<forall>j < nat fd. fd_in_use (vfs_files s ! j)) \<and>
    (\<exists>node. vfs_files s' = (vfs_files s)[nat fd := \<lparr>fd_node = Some node, fd_pos = 0, fd_flags = flags, fd_in_use = True\<rparr>]) \<and>
    (\<exists>s''. vfs_close s' fd = Some (VFS_OK, s'') \<and> map fd_in_use (vfs_files s'') = map fd_in_use (vfs_files s) \<and>
       (\<forall>j. j \<noteq> nat fd \<longrightarrow> vfs_files s'' ! j = vfs_files s ! j))"
proof -
  obtain t node where t: "vfs_files t = vfs_files s" "vfs_open_fd t node flags = (fd, s')"
    using vfs_open_cases [OF assms(2,1)] assms(3) by (auto simp: vfs_codes)
  let ?f = "\<lparr>fd_node = Some node, fd_pos = 0, fd_flags = flags, fd_in_use = True\<rparr>"
  obtain i where i: "first_free fd_in_use (vfs_files s) 0 = Some i" "fd = int i" "s' = t\<lparr>vfs_files := (vfs_files s)[i := ?f]\<rparr>"
    using t assms(3) by (auto simp: vfs_open_fd_def vfs_codes split: option.splits)
  have l: "length (vfs_files s) = 32" using assms(1) by (simp add: vfs_wf_def VFS_MAX_OPEN_def)
  have h: "i < 32" "\<not> fd_in_use (vfs_files s ! i)" "\<forall>j < i. fd_in_use (vfs_files s ! j)" using first_free_spec [OF i(1)] l by auto
  have "get_fd s' fd = Some (Some ?f)" using i(2,3) h(1) l by (simp add: get_fd_def VFS_MAX_OPEN_def rd_in)
  then have c: "vfs_close s' fd = Some (VFS_OK, s'\<lparr>vfs_files := (vfs_files s)[i := ?f\<lparr>fd_in_use := False, fd_node := None\<rparr>]\<rparr>)"
    using i(2,3) by (simp add: vfs_close_def)
  have "map fd_in_use ((vfs_files s)[i := ?f\<lparr>fd_in_use := False, fd_node := None\<rparr>]) = map fd_in_use (vfs_files s)"
    using h l by (intro nth_equalityI) (auto simp: nth_list_update)
  then show ?thesis using i h c by auto
qed

definition rooted :: vfs_st where
  "rooted = (vfs_boot no_ext2)\<lparr>vfs_root := Some (HeapNode 0), heap_nodes := [Some empty_node]\<rparr>"

lemma rooted_wf: "vfs_wf rooted"
  by (simp add: rooted_def vfs_boot_def vfs_init_def vfs_wf_def VFS_MAX_OPEN_def VFS_MAX_MOUNTS_def VFS_MAX_FS_def fd_ok_def mount_ok_def
      node_ok_def empty_node_def terminated_def ref_ok_def)

lemma rooted_open: "map_option fst (vfs_open rooted root_path 1) = Some 0"
  by code_simp

theorem vfs_open_close_witness:
  "vfs_wf rooted \<and> (\<exists>s' s''. vfs_open rooted root_path 1 = Some (0, s') \<and> vfs_close s' 0 = Some (VFS_OK, s'') \<and>
     map fd_in_use (vfs_files s'') = map fd_in_use (vfs_files rooted))"
proof -
  obtain s' where "vfs_open rooted root_path 1 = Some (0, s')" using rooted_open by auto
  with vfs_open_close [OF rooted_wf this] rooted_wf show ?thesis by auto
qed

end
