(* ===== verification/NanoFile.thy ===== *)
theory NanoFile
  imports NanoProps Ext2Data VfsProps
begin

text \<open>
  From the disk to the document: \<open>nano_load_file\<close> composed with the descriptors of the virtual file system and the data of an
  ext2 file, and the properties of the editor.
\<close>

section \<open>A file as lines\<close>

text \<open>The bytes of a file: lines that end with a newline, and the rest behind the last newline.\<close>

definition file_bytes :: "u8 list list \<Rightarrow> u8 list \<Rightarrow> u8 list" where
  "file_bytes segs fin = concat (map (\<lambda>l. l @ [10]) segs) @ fin"

lemma loading_chars:
  assumes "loading d ds cur" and "10 \<notin> set cs"
  shows "\<exists>d'. run load_char cs d = Some d' \<and> loading d' ds (cur @ cs)"
  using assms
proof (induction cs arbitrary: d cur)
  case (Cons c cs)
  obtain d1 where d1: "load_char c d = Some d1" "loading d1 ds (cur @ [c])" using loading_char [of d ds cur c] Cons.prems by auto
  then show ?case using Cons.IH [OF d1(2)] Cons.prems(2) by simp
qed simp

lemma loading_file:
  assumes "loading d ds []" and "\<forall>l \<in> set segs. 10 \<notin> set l" and "10 \<notin> set fin" and "length ds + length segs < 512"
  shows "\<exists>d'. run load_char (file_bytes segs fin) d = Some d' \<and> loading d' (ds @ segs) fin"
  using assms
proof (induction segs arbitrary: d ds)
  case Nil
  then show ?case using loading_chars [of d ds "[]" fin] by (simp add: file_bytes_def)
next
  case (Cons l segs)
  obtain d1 where d1: "run load_char l d = Some d1" "loading d1 ds l" using loading_chars [of d ds "[]" l] Cons.prems by auto
  obtain d2 where d2: "load_char 10 d1 = Some d2" "loading d2 (ds @ [l]) []" using loading_newline [OF d1(2)] Cons.prems(4) by auto
  obtain d3 where d3: "run load_char (file_bytes segs fin) d2 = Some d3" "loading d3 ((ds @ [l]) @ segs) fin"
    using Cons.IH [OF d2(2)] Cons.prems by auto
  have "file_bytes (l # segs) fin = l @ 10 # file_bytes segs fin" by (simp add: file_bytes_def)
  then show ?case using d1(1) d2(1) d3 by (simp add: run_append)
qed

lemma load_bytes_run: "i + n \<le> length buf \<Longrightarrow> load_bytes buf i n d = run load_char (take n (drop i buf)) d"
proof (induction n arbitrary: i d)
  case (Suc n)
  have "take (Suc n) (drop i buf) = buf ! i # take n (drop (Suc i) buf)" using Suc.prems by (simp add: Cons_nth_drop_Suc [symmetric])
  moreover have "load_bytes buf (Suc i) n = run load_char (take n (drop (Suc i) buf))" using Suc by (intro ext) simp
  ultimately show ?case using Suc.prems by (simp add: rd_in)
qed simp

lemma load_start_ok:
  assumes "rows_ok ls"
  shows "\<exists>d. load_start ls = Some d \<and> loading d [] []"
proof -
  have "rd ls 0 = Some (ls ! 0)" "bzero (ls ! 0) 0 NANO_MAX_COL = Some (replicate 160 0)" using rows_ok_nth [OF assms, of 0] row_zero by auto
  then show ?thesis using assms by (simp add: load_start_def loading_def rows_ok_update texts_def)
qed

section \<open>Reading through a descriptor\<close>

text \<open>Descriptor \<open>fd\<close> is open on a readable node of a mounted file system, whose inode has mapped blocks.\<close>

definition open_on :: "vfs_st \<Rightarrow> int \<Rightarrow> u8 list \<Rightarrow> bool" where
  "open_on v fd inode \<longleftrightarrow> 0 \<le> fd \<and> fd < 32 \<and> length (vfs_files v) = 32 \<and> fd_in_use (vfs_files v ! nat fd) \<and>
     (\<exists>r node. fd_node (vfs_files v ! nat fd) = Some r \<and> get_node v r = Some node \<and> node_read node \<and>
        ext2_read_inode (ext2_fs v) (node_inode node) = Some (Some inode)) \<and>
     ext2_mounted (ext2_fs v) \<and> blocks_ok (ext2_fs v) \<and> covered (ext2_fs v) inode (i_size inode) \<and> i_size inode < 4294960000"

definition fd_at :: "vfs_st \<Rightarrow> int \<Rightarrow> nat \<Rightarrow> vfs_st" where
  "fd_at v fd p = v\<lparr>vfs_files := (vfs_files v)[nat fd := (vfs_files v ! nat fd)\<lparr>fd_pos := p\<rparr>]\<rparr>"

lemma get_fd_at: "open_on v fd inode \<Longrightarrow> get_fd (fd_at v fd p) fd = Some (Some ((vfs_files v ! nat fd)\<lparr>fd_pos := p\<rparr>))"
  by (auto simp: open_on_def get_fd_def fd_at_def VFS_MAX_OPEN_def rd_in nat_less_iff)

lemma get_node_at: "get_node (fd_at v fd p) r = get_node v r"
  by (simp add: get_node_def fd_at_def split: node_ref.split)

lemma vfs_read_at:
  assumes "open_on v fd inode" and "p \<le> i_size inode" and "length buf = 1024"
  defines "n \<equiv> min 1024 (i_size inode - p)"
  shows "vfs_read (fd_at v fd p) fd buf 1024 =
    Some (int n, blit buf 0 (map (file_byte (ext2_fs v) inode) [p..<p + n]), fd_at v fd (p + n))"
proof -
  let ?f = "(vfs_files v ! nat fd)\<lparr>fd_pos := p\<rparr>"
  obtain r node where r: "fd_node (vfs_files v ! nat fd) = Some r" "get_node v r = Some node" "node_read node"
    "ext2_read_inode (ext2_fs v) (node_inode node) = Some (Some inode)" using assms(1) by (auto simp: open_on_def)
  have o: "ext2_mounted (ext2_fs v)" "blocks_ok (ext2_fs v)" "covered (ext2_fs v) inode (i_size inode)" "i_size inode < 4294960000"
    using assms(1) by (auto simp: open_on_def)
  have "ext2_read_data (ext2_fs v) inode p 1024 buf 0 = Some (int n, blit buf 0 (map (file_byte (ext2_fs v) inode) [p..<p + n]))"
    using assms(2,3) o(4) by (intro ext2_read_data_exact [OF o(2,3)]) (auto simp: n_def)
  then have "ext2_node_read (ext2_fs (fd_at v fd p)) node p 1024 buf 0 = Some (int n, blit buf 0 (map (file_byte (ext2_fs v) inode) [p..<p + n]))"
    using o(1) r(4) by (simp add: ext2_node_read_def fd_at_def)
  moreover have "fd_advance (fd_at v fd p) fd ?f (int n) = fd_at v fd (p + n)"
  proof (cases "n = 0")
    case False
    have "wrap32 (p + n) = p + n" using assms(2) o(4) by (auto simp: wrap32_def n_def)
    then show ?thesis using False by (simp add: fd_advance_def fd_at_def)
  qed (simp add: fd_advance_def)
  ultimately show ?thesis using get_fd_at [OF assms(1), of p] get_node_at [of v fd p r] r by (simp add: vfs_read_def)
qed

text \<open>The loading loop reads the file from the position of the descriptor to its end.\<close>

lemma load_loop_reads:
  assumes "open_on v fd inode" and "p \<le> i_size inode" and "length buf = 1024"
    and "run load_char (map (file_byte (ext2_fs v) inode) [p..<i_size inode]) d = Some d'"
  shows "load_loop fd buf d (fd_at v fd p) = Some (d', fd_at v fd (i_size inode))"
  using assms(2-4)
proof (induction "i_size inode - p" arbitrary: p buf d rule: less_induct)
  case less
  let ?n = "min 1024 (i_size inode - p)"
  let ?x = "map (file_byte (ext2_fs v) inode) [p..<p + ?n]"
  note rd = vfs_read_at [OF assms(1) less.prems(1,2)]
  show ?case
  proof (cases "p = i_size inode")
    case True
    then show ?thesis using rd less.prems(3) by (subst load_loop.simps) simp
  next
    case False
    then have n: "0 < ?n" "p + ?n \<le> i_size inode" using less.prems(1) by auto
    let ?b = "blit buf 0 ?x"
    have lb: "length ?b = 1024" using less.prems(2) by (simp add: mem_simps)
    have "[p..<i_size inode] = [p..<p + ?n] @ [p + ?n..<i_size inode]" using upt_add_eq_append [of p "p + ?n" "i_size inode - (p + ?n)"] n(2) by simp
    then have "run load_char (?x @ map (file_byte (ext2_fs v) inode) [p + ?n..<i_size inode]) d = Some d'" using less.prems(3) by (metis map_append)
    then obtain d1 where d1: "run load_char ?x d = Some d1" "run load_char (map (file_byte (ext2_fs v) inode) [p + ?n..<i_size inode]) d1 = Some d'"
      by (auto simp: run_append split: bind_splits)
    have "load_bytes ?b 0 ?n d = Some d1" using load_bytes_run [of 0 ?n ?b d] lb d1(1) by (simp add: blit_def)
    moreover have "load_loop fd ?b d1 (fd_at v fd (p + ?n)) = Some (d', fd_at v fd (i_size inode))"
      using less.hyps [of "p + ?n" ?b d1] n lb d1(2) by simp
    ultimately show ?thesis using rd n(1) by (subst load_loop.simps) simp
  qed
qed

lemma vfs_close_at: "open_on v fd inode \<Longrightarrow> \<exists>v'. vfs_close (fd_at v fd p) fd = Some (VFS_OK, v')"
  using get_fd_at [of v fd inode p] by (auto simp: vfs_close_def)

lemma open_at_start:
  assumes "vfs_open v path VFS_O_READ = Some (fd, v1)" and "open_on v1 fd inode"
  shows "fd_pos (vfs_files v1 ! nat fd) = 0"
proof -
  have fd: "0 \<le> fd" "fd < int (length (vfs_files v1))" using assms(2) by (auto simp: open_on_def)
  then obtain node v0 where "vfs_open_node v path = Some (Some node, v0)" "vfs_open_fd v0 node VFS_O_READ = (fd, v1)"
    using assms(1) by (auto simp: vfs_open_def VFS_O_READ_def VFS_O_CREATE_def VFS_ERR_NOT_FOUND_def split: bind_splits option.splits)
  then show ?thesis using fd by (auto simp: vfs_open_fd_def VFS_ERR_NO_SPACE_def nat_less_iff split: option.splits)
qed

lemma nano_load_ok:
  assumes "rows_ok (nano_lines s)" and "vfs_open v path VFS_O_READ = Some (fd, v1)" and "open_on v1 fd inode"
    and "map (file_byte (ext2_fs v1) inode) [0..<i_size inode] = file_bytes segs fin"
    and "\<forall>l \<in> set segs. 10 \<notin> set l" and "10 \<notin> set fin" and "length segs < 512"
  shows "\<exists>s' v'. nano_load_file path s v = Some (s', v') \<and> rows_ok (nano_lines s') \<and> nano_lcount s' = length segs + 1 \<and> \<not> nano_modified s' \<and>
    texts (nano_lines s') (nano_lcount s') = map (\<lambda>l. shown_line (strip_cr l)) segs @ [shown_line fin]"
proof -
  obtain d0 where d0: "load_start (nano_lines s) = Some d0" "loading d0 [] []" using load_start_ok [OF assms(1)] by blast
  obtain d where d: "run load_char (file_bytes segs fin) d0 = Some d" "loading d segs fin"
    using loading_file [OF d0(2) assms(5,6)] assms(7) by auto
  have "(vfs_files v1 ! nat fd)\<lparr>fd_pos := 0\<rparr> = vfs_files v1 ! nat fd" using open_at_start [OF assms(2,3)] by (cases "vfs_files v1 ! nat fd") simp
  then have at0: "fd_at v1 fd 0 = v1" by (simp add: fd_at_def)
  have "load_loop fd (replicate 1024 0) d0 v1 = Some (d, fd_at v1 fd (i_size inode))"
    using load_loop_reads [OF assms(3), of 0 "replicate 1024 0" d0 d] d(1) assms(4) at0 by simp
  moreover obtain v' where "vfs_close (fd_at v1 fd (i_size inode)) fd = Some (VFS_OK, v')" using vfs_close_at [OF assms(3)] by blast
  moreover obtain ls where "load_store d = Some ls" "rows_ok ls"
    "texts ls (ld_lcount d) = map (\<lambda>l. shown_line (strip_cr l)) segs @ [shown_line fin]" using loading_last [OF d(2)] by blast
  moreover have "ld_lcount d = length segs + 1" "\<not> fd < 0" using d(2) assms(3) by (auto simp: loading_def open_on_def)
  ultimately show ?thesis using d0(1) assms(2) by (simp add: nano_load_file_def)
qed

section \<open>Properties\<close>

text \<open>
  C3: the editor \<open>nano\<close> refines a document with a cursor.  For any sequence of keys but those that save or leave, from any
  state of the editor that is well formed and on any terminal of at least two rows, the loop of the command handles all of
  them and waits for the next one: it draws the text and moves the cursor without leaving the screen, the rows of
  its buffer or its strings, keeps the state well formed and leaves the files alone; and the text and the cursor are those
  of the document after the same keys.
\<close>

theorem nano_keys_refine_editor:
  assumes "nano_ok (nano e)" and "term_ok (scr e)" and "2 \<le> term_height (scr e)" and "list_all stays evs"
  shows "\<exists>e'. nano_loop evs e = Some (False, e') \<and> nano_ok (nano e') \<and> term_ok (scr e') \<and> files e' = files e \<and>
    nano_doc (nano e') = fold doc_key evs (nano_doc (nano e))"
  by (rule nano_loop_keys [OF assms])

definition demo_nano :: nano_st where
  "demo_nano = \<lparr>nano_lines = replicate 512 (replicate 160 0), nano_lcount = 1, nano_row = 0, nano_col = 0, nano_scroll = 0,
     nano_scroll_x = 0, nano_modified = False, nano_fname = replicate 128 0, nano_status = replicate 80 0\<rparr>"

lemma demo_nano_ok: "nano_ok demo_nano" and demo_nano_doc: "nano_doc demo_nano = \<lparr>doc_lines = [[]], doc_row = 0, doc_col = 0\<rparr>"
proof -
  have "rows_ok (replicate 512 (replicate 160 0))" by (simp add: rows_ok_def row_ok_def terminated_def)
  then show "nano_ok demo_nano" by (simp add: nano_ok_def nano_wf_def view_ok_def demo_nano_def terminated_def)
  show "nano_doc demo_nano = \<lparr>doc_lines = [[]], doc_row = 0, doc_col = 0\<rparr>" by (simp add: nano_doc_def demo_nano_def texts_def cstr_def)
qed

theorem nano_keys_refine_editor_witness:
  "\<exists>e'. nano_loop [104, 105, 10, 33, 257] \<lparr>nano = demo_nano, scr = demo_term, files = vfs_boot no_ext2\<rparr> = Some (False, e') \<and>
     nano_doc (nano e') = \<lparr>doc_lines = [[104, 105], [33]], doc_row = 0, doc_col = 1\<rparr>"
proof -
  have "list_all stays [104, 105, 10, 33, 257]" by (simp add: stays_def EV_CTRL_def EV_CANCEL_def)
  moreover have "fold doc_key [104, 105, 10, 33, 257] \<lparr>doc_lines = [[]], doc_row = 0, doc_col = 0\<rparr> =
      \<lparr>doc_lines = [[104, 105], [33]], doc_row = 0, doc_col = 1\<rparr>"
    by (simp add: doc_key_def doc_insert_def doc_newline_def doc_nav_def cur_line_def)
  ultimately show ?thesis
    using nano_keys_refine_editor [of "\<lparr>nano = demo_nano, scr = demo_term, files = vfs_boot no_ext2\<rparr>" "[104, 105, 10, 33, 257]"]
      demo_nano_ok demo_nano_doc by (auto simp: term_ok_def demo_term_def)
qed


text \<open>A disk whose second inode is the example file and whose other bytes are \<open>b\<close>.\<close>

definition demo_text :: "u8 \<Rightarrow> vfs_st" where
  "demo_text b = (vfs_boot (demo_fs (blit (replicate 66560 b) 5248 demo_file)))\<lparr>vfs_root := Some (HeapNode 0),
     heap_nodes := [Some (empty_node\<lparr>node_inode := 2, node_read := True\<rparr>)]\<rparr>"

definition demo_opened :: "u8 \<Rightarrow> vfs_st" where
  "demo_opened b = (demo_text b)\<lparr>vfs_files := (vfs_files (demo_text b))[0 :=
     \<lparr>fd_node = Some (HeapNode 0), fd_pos = 0, fd_flags = VFS_O_READ, fd_in_use = True\<rparr>]\<rparr>"

lemma demo_text_open:
  assumes "rd path 0 = Some 47" and "rd path 1 = Some 0"
  shows "vfs_open (demo_text b) path VFS_O_READ = Some (0, (demo_opened b))" and "open_on (demo_opened b) 0 demo_file"
    and "map (file_byte (ext2_fs (demo_opened b)) demo_file) [0..<i_size demo_file] = file_bytes [] (replicate 1500 b)"
proof -
  let ?m = "blit (replicate 66560 b) 5248 demo_file"
  have m: "length ?m = 66560" by (simp add: length_blit demo_file_fields)
  have e: "ext2_fs (demo_text b) = demo_fs ?m" "vfs_root (demo_text b) = Some (HeapNode 0)" "length (vfs_files (demo_text b)) = 32"
    "\<not> fd_in_use (vfs_files (demo_text b) ! 0)" "heap_nodes (demo_text b) = [Some (empty_node\<lparr>node_inode := 2, node_read := True\<rparr>)]"
    by (simp_all add: demo_text_def vfs_boot_def vfs_init_def VFS_MAX_OPEN_def)
  have "first_free fd_in_use (vfs_files (demo_text b)) 0 = Some 0" using e(3,4) by (cases "vfs_files (demo_text b)") auto
  then show "vfs_open (demo_text b) path VFS_O_READ = Some (0, (demo_opened b))"
    using e assms by (simp add: vfs_open_def vfs_open_node_def vfs_open_fd_def demo_opened_def)
  have "inode_at (demo_fs ?m) 2 = 5248" by (simp add: inode_at_def table_at_def inode_bytes_def demo_fields Let_def)
  then have "ino (demo_fs ?m) 2 = demo_file" by (simp add: ino_def blit_def demo_file_fields)
  then have i: "ext2_read_inode (demo_fs ?m) 2 = Some (Some demo_file)"
    using ext2_read_inode_ok [OF demo_inodes_ok [OF m] demo_inode_in [of 2]] by simp
  have "get_node (demo_opened b) (HeapNode 0) = Some (empty_node\<lparr>node_inode := 2, node_read := True\<rparr>)" using e(5) by (simp add: get_node_def rd_def demo_opened_def)
  then show "open_on (demo_opened b) 0 demo_file"
    using e i demo_file_ok(1,2) [OF m] by (auto simp: open_on_def demo_opened_def demo_file_fields)
  have "file_byte (demo_fs ?m) demo_file k = b" if "k < 1500" for k
  proof -
    have kb: "k div 1024 = 0 \<or> k div 1024 = 1" using that by auto
    have "blk (demo_fs ?m) 9 = replicate 1024 b" "blk (demo_fs ?m) 10 = replicate 1024 b" by (simp_all add: blk_def blit_def demo_file_fields)
    then show ?thesis using kb by (auto simp: file_byte_def phys_def demo_file_fields [simplified])
  qed
  then have "map (file_byte (demo_fs ?m) demo_file) [0..<1500] = map (\<lambda>k. b) [0..<1500]" by (intro map_cong) auto
  then show "map (file_byte (ext2_fs (demo_opened b)) demo_file) [0..<i_size demo_file] = file_bytes [] (replicate 1500 b)"
    using e(1) by (simp add: demo_opened_def file_bytes_def demo_file_fields map_replicate_const)
qed


end
