(* ===== verification/Vi.thy ===== *)
theory Vi
  imports Nano
begin

text \<open>
  The text of the editor \<open>vi\<close> of \<open>src/kernel/shell/editors.c\<close>: its state and the operations that change the text, move the
  cursor, search, and apply an operator to a range.

  \<^item> Columns and lengths are natural numbers: every decrement is guarded.  Rows, the number of lines and the scroll offsets are
    integers, since a row can become -1; access to a row outside the buffer is \<open>None\<close>.
  \<^item> Local arrays, indeterminate in the source at first, are zero at first; only bytes written before are read from them.
\<close>

section \<open>State\<close>

definition key :: "char \<Rightarrow> int" where
  "key c = of_char c"

definition VI_MAX_LINES :: int where
  "VI_MAX_LINES = 512"

definition VI_MAX_COL :: nat where
  "VI_MAX_COL = 160"

definition VI_STATUS_SZ :: nat where
  "VI_STATUS_SZ = 80"

definition VI_CMD_SZ :: nat where
  "VI_CMD_SZ = 64"

definition VI_SEARCH_SZ :: nat where
  "VI_SEARCH_SZ = 64"

definition VI_YANK_MAX :: nat where
  "VI_YANK_MAX = 4096"

definition EV_ESC :: int where
  "EV_ESC = 1024"

datatype vi_mode_t = VI_M_NORM | VI_M_INS | VI_M_CMD | VI_M_VIS | VI_M_VISL | VI_M_SEARCH

datatype vis_type_t = VIS_NONE | VIS_CHAR | VIS_LINE

definition OP_NONE :: int where
  "OP_NONE = 0"

definition OP_DELETE :: int where
  "OP_DELETE = key CHR ''d''"

definition OP_YANK :: int where
  "OP_YANK = key CHR ''y''"

definition OP_CHANGE :: int where
  "OP_CHANGE = key CHR ''c''"

declare VI_MAX_LINES_def [simp] VI_MAX_COL_def [simp]

record vi_st =
  vi_lines :: rows
  vi_lcount :: int
  vi_row :: int
  vi_col :: nat
  vi_scroll :: int
  vi_scroll_x :: int
  vi_modified :: bool
  vi_mode :: vi_mode_t
  vi_done :: bool
  vi_pending :: int
  vi_fname :: "u8 list"
  vi_status :: "u8 list"
  vi_msg :: "u8 list"
  vi_cmd :: "u8 list"
  vi_cmd_len :: nat
  vi_show_rnu :: bool
  vi_show_nu :: bool
  vi_yank_buf :: "u8 list"
  vi_yank_len :: nat
  vi_yank_line :: bool
  vi_op :: int
  vi_op_linewise :: bool
  vi_op_pending :: bool
  vi_vis_start_row :: int
  vi_vis_start_col :: nat
  vi_vis_type :: vis_type_t
  vi_search_pat :: "u8 list"
  vi_search_len :: nat
  vi_search_dir :: int
  vi_search_highlight :: bool
  vi_search_prompt :: "u8 list"
  vi_search_prompt_len :: nat
  vi_undo_line :: "u8 list"
  vi_undo_row :: int
  vi_undo_lcount :: int
  vi_redo_line :: "u8 list"
  vi_redo_row :: int
  vi_redo_lcount :: int
  vi_undo_valid :: bool
  vi_dot_op :: int
  vi_dot_linewise :: bool
  vi_dot_valid :: bool

text \<open>Access to rows by an integer.\<close>

definition vi_at :: "vi_st \<Rightarrow> int \<Rightarrow> u8 list option" where
  "vi_at s r = rdi (vi_lines s) r"

definition vi_put :: "int \<Rightarrow> u8 list \<Rightarrow> vi_st \<Rightarrow> vi_st" where
  "vi_put r l s = s\<lparr>vi_lines := (vi_lines s)[nat r := l]\<rparr>"

definition vi_llen :: "vi_st \<Rightarrow> int \<Rightarrow> nat option" where
  "vi_llen s r = do { l \<leftarrow> vi_at s r; strlen l }"

text \<open>The rows below \<open>r\<close> moved up over it, and the rows from \<open>r\<close> on moved down by one, as the loops over the number of lines do.\<close>

definition vi_rows_up :: "int \<Rightarrow> vi_st \<Rightarrow> rows option" where
  "vi_rows_up r s =
     (if vi_lcount s - 1 \<le> r then Some (vi_lines s)
      else if r < 0 then None
      else rows_up (vi_lines s) (nat r) (nat (vi_lcount s - 1 - r)))"

definition vi_rows_down :: "int \<Rightarrow> vi_st \<Rightarrow> rows option" where
  "vi_rows_down r s =
     (if vi_lcount s \<le> r then Some (vi_lines s)
      else if r < 0 then None
      else rows_down (vi_lines s) (nat r) (nat (vi_lcount s - r)))"

definition vi_open_row :: "int \<Rightarrow> vi_st \<Rightarrow> rows option" where
  "vi_open_row r s =
     do { ls \<leftarrow> vi_rows_down r s;
          l \<leftarrow> rdi ls r;
          z \<leftarrow> bzero l 0 VI_MAX_COL;
          Some (ls[nat r := z]) }"

definition vi_clear_row :: "int \<Rightarrow> vi_st \<Rightarrow> vi_st option" where
  "vi_clear_row r s = do { l \<leftarrow> vi_at s r; z \<leftarrow> bzero l 0 VI_MAX_COL; Some (vi_put r z s) }"

definition vi_is_word :: "u8 \<Rightarrow> bool" where
  "vi_is_word c \<longleftrightarrow> c \<noteq> 0 \<and> c \<noteq> 32 \<and> c \<noteq> 9"

definition vi_is_alpha :: "u8 \<Rightarrow> bool" where
  "vi_is_alpha c \<longleftrightarrow> (97 \<le> c \<and> c \<le> 122) \<or> (65 \<le> c \<and> c \<le> 90) \<or> (48 \<le> c \<and> c \<le> 57) \<or> c = 95"

definition vi_is_blank :: "u8 \<Rightarrow> bool" where
  "vi_is_blank c \<longleftrightarrow> c = 32 \<or> c = 9"

definition vi_set_msg :: "u8 list \<Rightarrow> vi_st \<Rightarrow> vi_st option" where
  "vi_set_msg str s =
     do { m \<leftarrow> strncpy (vi_msg s) str (VI_STATUS_SZ - 1);
          m1 \<leftarrow> wr m (VI_STATUS_SZ - 1) 0;
          Some (s\<lparr>vi_msg := m1\<rparr>) }"

definition vi_no_msg :: "vi_st \<Rightarrow> vi_st option" where
  "vi_no_msg s = do { m \<leftarrow> wr (vi_msg s) 0 0; Some (s\<lparr>vi_msg := m\<rparr>) }"

definition vi_save_undo :: "vi_st \<Rightarrow> vi_st option" where
  "vi_save_undo s =
     do { l \<leftarrow> vi_at s (vi_row s);
          u \<leftarrow> strncpy (vi_undo_line s) l VI_MAX_COL;
          Some (s\<lparr>vi_undo_line := u, vi_undo_row := vi_row s, vi_undo_lcount := vi_lcount s, vi_undo_valid := True\<rparr>) }"

section \<open>Typing\<close>

definition vi_insert_char :: "u8 \<Rightarrow> vi_st \<Rightarrow> vi_st option" where
  "vi_insert_char ch s =
     do { line \<leftarrow> vi_at s (vi_row s);
          len \<leftarrow> strlen line;
          if VI_MAX_COL - 1 \<le> len then Some s
          else do {
            l1 \<leftarrow> memmove_down line (vi_col s + 1) (vi_col s) (Suc len - vi_col s);
            l2 \<leftarrow> wr l1 (vi_col s) ch;
            Some ((vi_put (vi_row s) l2 s)\<lparr>vi_col := (if VI_MAX_COL \<le> vi_col s + 1 then VI_MAX_COL - 1 else vi_col s + 1),
                    vi_modified := True\<rparr>) } }"

definition vi_backspace :: "vi_st \<Rightarrow> vi_st option" where
  "vi_backspace s =
     do { line \<leftarrow> vi_at s (vi_row s);
          len \<leftarrow> strlen line;
          if 0 < vi_col s then do {
            l1 \<leftarrow> memmove_up line (vi_col s - 1) (vi_col s) (Suc len - vi_col s) 0;
            Some ((vi_put (vi_row s) l1 s)\<lparr>vi_col := vi_col s - 1, vi_modified := True\<rparr>) }
          else if 0 < vi_row s then do {
            plen \<leftarrow> vi_llen s (vi_row s - 1);
            let room = min (VI_MAX_COL - 1 - plen) len;
            ls \<leftarrow> merge_lines (vi_lines s) (nat (vi_row s)) plen room (nat (vi_lcount s));
            Some (s\<lparr>vi_lines := ls, vi_lcount := vi_lcount s - 1, vi_row := vi_row s - 1,
                    vi_col := (if VI_MAX_COL - 1 < plen + room then VI_MAX_COL - 1 else plen + room),
                    vi_modified := True\<rparr>) }
          else Some s }"

definition vi_newline :: "vi_st \<Rightarrow> vi_st option" where
  "vi_newline s =
     do { len \<leftarrow> vi_llen s (vi_row s);
          if VI_MAX_LINES \<le> vi_lcount s then Some s
          else do {
            ls1 \<leftarrow> vi_open_row (vi_row s + 1) s;
            ls2 \<leftarrow> split_row ls1 (nat (vi_row s)) (vi_col s) len;
            Some (s\<lparr>vi_lines := ls2, vi_lcount := vi_lcount s + 1, vi_row := vi_row s + 1, vi_col := 0,
                    vi_modified := True\<rparr>) } }"

definition vi_open_line :: "bool \<Rightarrow> vi_st \<Rightarrow> vi_st option" where
  "vi_open_line before s =
     (if VI_MAX_LINES \<le> vi_lcount s then Some s
      else if before then do {
        ls \<leftarrow> vi_open_row (vi_row s) s;
        Some (s\<lparr>vi_lines := ls, vi_lcount := vi_lcount s + 1, vi_col := 0, vi_modified := True\<rparr>) }
      else do {
        ls \<leftarrow> vi_open_row (vi_row s + 1) s;
        Some (s\<lparr>vi_lines := ls, vi_lcount := vi_lcount s + 1, vi_row := vi_row s + 1, vi_col := 0, vi_modified := True\<rparr>) })"

section \<open>Deleting\<close>

text \<open>The text to keep is \<open>len\<close> bytes of an object from offset \<open>p\<close> on.\<close>

definition vi_yank_text :: "u8 list \<Rightarrow> nat \<Rightarrow> nat \<Rightarrow> bool \<Rightarrow> vi_st \<Rightarrow> vi_st option" where
  "vi_yank_text txt p len linewise s =
     do { let n = (if VI_YANK_MAX \<le> len then VI_YANK_MAX - 1 else len);
          b \<leftarrow> memcpy (vi_yank_buf s) 0 txt p n;
          b1 \<leftarrow> wr b n 0;
          Some (s\<lparr>vi_yank_buf := b1, vi_yank_len := n, vi_yank_line := linewise\<rparr>) }"

definition vi_delete_line_at :: "int \<Rightarrow> vi_st \<Rightarrow> vi_st option" where
  "vi_delete_line_at r s =
     (if vi_lcount s \<le> 1 then vi_clear_row 0 s
      else do { ls \<leftarrow> vi_rows_up r s; Some (s\<lparr>vi_lines := ls, vi_lcount := vi_lcount s - 1\<rparr>) })"

definition vi_delete_line :: "vi_st \<Rightarrow> vi_st option" where
  "vi_delete_line s =
     do { s1 \<leftarrow> vi_save_undo s;
          line \<leftarrow> vi_at s1 (vi_row s1);
          len \<leftarrow> strlen line;
          s2 \<leftarrow> vi_yank_text line 0 len True s1;
          s3 \<leftarrow> vi_delete_line_at (vi_row s2) s2;
          let r = (if vi_lcount s3 \<le> vi_row s3 then vi_lcount s3 - 1 else vi_row s3);
          Some (s3\<lparr>vi_row := (if r < 0 then 0 else r), vi_col := 0, vi_modified := True\<rparr>) }"

definition vi_delete_char :: "vi_st \<Rightarrow> vi_st option" where
  "vi_delete_char s =
     do { line \<leftarrow> vi_at s (vi_row s);
          len \<leftarrow> strlen line;
          if len \<le> vi_col s then Some s
          else do {
            l1 \<leftarrow> memmove_up line (vi_col s) (vi_col s + 1) (len - vi_col s) 0;
            Some ((vi_put (vi_row s) l1 s)\<lparr>vi_modified := True\<rparr>) } }"

definition vi_delete_to_eol :: "vi_st \<Rightarrow> vi_st option" where
  "vi_delete_to_eol s =
     do { line \<leftarrow> vi_at s (vi_row s);
          len \<leftarrow> strlen line;
          if vi_col s < len then do {
            s1 \<leftarrow> vi_yank_text line (vi_col s) (len - vi_col s) False s;
            l1 \<leftarrow> wr line (vi_col s) 0;
            Some ((vi_put (vi_row s) l1 s1)\<lparr>vi_modified := True\<rparr>) }
          else Some (s\<lparr>vi_modified := True\<rparr>) }"

text \<open>
  Rows \<open>i\<close> to \<open>i + n - 1\<close> collected in an array, with newlines between them.  With \<open>always\<close> a newline also goes before the
  first row.  A row that would not fit is left out.
\<close>

definition collect_row :: "bool \<Rightarrow> u8 list \<Rightarrow> u8 list \<Rightarrow> nat \<Rightarrow> (u8 list \<times> nat) option" where
  "collect_row always line tmp n =
     do { ll \<leftarrow> strlen line;
          if n + ll + 1 < VI_YANK_MAX then do {
            t1 \<leftarrow> (if always \<or> 0 < n then wr tmp n 10 else Some tmp);
            let k = (if always \<or> 0 < n then n + 1 else n);
            t2 \<leftarrow> memcpy t1 k line 0 ll;
            Some (t2, k + ll) }
          else Some (tmp, n) }"

fun collect_rows :: "vi_st \<Rightarrow> bool \<Rightarrow> int \<Rightarrow> nat \<Rightarrow> u8 list \<Rightarrow> nat \<Rightarrow> (u8 list \<times> nat) option" where
  "collect_rows s always i 0 tmp n = Some (tmp, n)"
| "collect_rows s always i (Suc k) tmp n =
     do { line \<leftarrow> vi_at s i; (t1, n1) \<leftarrow> collect_row always line tmp n; collect_rows s always (i + 1) k t1 n1 }"

fun delete_rows :: "int \<Rightarrow> nat \<Rightarrow> vi_st \<Rightarrow> vi_st option" where
  "delete_rows r 0 s = Some s"
| "delete_rows r (Suc n) s = (if vi_lcount s \<le> 1 then Some s else do { s1 \<leftarrow> vi_delete_line_at r s; delete_rows r n s1 })"

definition one_line_left :: "vi_st \<Rightarrow> vi_st option" where
  "one_line_left s = (if vi_lcount s < 1 then vi_clear_row 0 (s\<lparr>vi_lcount := 1\<rparr>) else Some s)"

definition delete_linewise :: "int \<Rightarrow> int \<Rightarrow> vi_st \<Rightarrow> vi_st option" where
  "delete_linewise r1 r2 s =
     do { let first = min r1 r2;
          let final = max r1 r2;
          (tmp, n) \<leftarrow> collect_rows s False first (nat (min final (vi_lcount s - 1) - first + 1)) (replicate VI_YANK_MAX 0) 0;
          tmp1 \<leftarrow> wr tmp n 0;
          s1 \<leftarrow> vi_yank_text tmp1 0 n True s;
          s2 \<leftarrow> delete_rows first (nat (final - first + 1)) s1;
          s3 \<leftarrow> one_line_left s2;
          Some (s3\<lparr>vi_row := (if vi_lcount s3 \<le> first then vi_lcount s3 - 1 else first), vi_col := 0\<rparr>) }"

definition delete_in_row :: "int \<Rightarrow> nat \<Rightarrow> nat \<Rightarrow> vi_st \<Rightarrow> vi_st option" where
  "delete_in_row r sc ec s =
     do { line \<leftarrow> vi_at s r;
          ll \<leftarrow> strlen line;
          let en = (if ec < ll then ec else ll);
          let st = (if sc < ll then sc else ll);
          if st < en then do {
            s1 \<leftarrow> vi_yank_text line st (en - st) False s;
            l1 \<leftarrow> memmove_up line st en (Suc ll - en) 0;
            Some ((vi_put r l1 s1)\<lparr>vi_col := sc\<rparr>) }
          else Some (s\<lparr>vi_col := sc\<rparr>) }"

text \<open>A range over several rows: the end of the first, the rows between, which are emptied, and the start of the last.\<close>

definition delete_first :: "int \<Rightarrow> nat \<Rightarrow> vi_st \<Rightarrow> (u8 list \<times> nat \<times> vi_st) option" where
  "delete_first sr sc s =
     do { line \<leftarrow> vi_at s sr;
          ll0 \<leftarrow> strlen line;
          let tmp = replicate VI_YANK_MAX 0;
          if sc < ll0 then do {
            t1 \<leftarrow> memcpy tmp 0 line sc (ll0 - sc);
            l1 \<leftarrow> wr line sc 0;
            Some (t1, ll0 - sc, vi_put sr l1 s) }
          else Some (tmp, 0, s) }"

fun delete_middle :: "int \<Rightarrow> nat \<Rightarrow> u8 list \<Rightarrow> nat \<Rightarrow> vi_st \<Rightarrow> (u8 list \<times> nat \<times> vi_st) option" where
  "delete_middle i 0 tmp n s = Some (tmp, n, s)"
| "delete_middle i (Suc k) tmp n s =
     do { line \<leftarrow> vi_at s i;
          (t1, n1) \<leftarrow> collect_row True line tmp n;
          l1 \<leftarrow> wr line 0 0;
          delete_middle (i + 1) k t1 n1 (vi_put i l1 s) }"

text \<open>The first \<open>ec\<close> characters of the last row of a range; there is no check that they fit.\<close>

definition collect_final :: "u8 list \<Rightarrow> nat \<Rightarrow> u8 list \<Rightarrow> nat \<Rightarrow> (u8 list \<times> nat) option" where
  "collect_final line ec2 tmp n =
     (if 0 < ec2 then do {
        t1 \<leftarrow> (if n + 1 < VI_YANK_MAX then wr tmp n 10 else Some tmp);
        let k = (if n + 1 < VI_YANK_MAX then n + 1 else n);
        t2 \<leftarrow> memcpy t1 k line 0 ec2;
        Some (t2, k + ec2) }
      else Some (tmp, n))"

definition delete_final :: "int \<Rightarrow> nat \<Rightarrow> u8 list \<Rightarrow> nat \<Rightarrow> vi_st \<Rightarrow> (u8 list \<times> nat \<times> vi_st) option" where
  "delete_final er ec tmp n s =
     (if er < vi_lcount s then do {
        line \<leftarrow> vi_at s er;
        ll2 \<leftarrow> strlen line;
        let ec2 = (if ec < ll2 then ec else ll2);
        (t1, n1) \<leftarrow> collect_final line ec2 tmp n;
        l1 \<leftarrow> memmove_up line 0 ec2 (Suc ll2 - ec2) 0;
        Some (t1, n1, vi_put er l1 s) }
      else Some (tmp, n, s))"

definition delete_span :: "int \<Rightarrow> nat \<Rightarrow> int \<Rightarrow> nat \<Rightarrow> vi_st \<Rightarrow> vi_st option" where
  "delete_span sr sc er ec s =
     do { (t1, n1, s1) \<leftarrow> delete_first sr sc s;
          (t2, n2, s2) \<leftarrow> delete_middle (sr + 1) (nat (min er (vi_lcount s) - (sr + 1))) t1 n1 s1;
          (t3, n3, s3) \<leftarrow> delete_final er ec t2 n2 s2;
          t4 \<leftarrow> wr t3 n3 0;
          s4 \<leftarrow> vi_yank_text t4 0 n3 False s3;
          s5 \<leftarrow> delete_rows (sr + 1) (nat (er - sr)) s4;
          s6 \<leftarrow> one_line_left s5;
          Some (s6\<lparr>vi_row := (if vi_lcount s6 \<le> sr then vi_lcount s6 - 1 else sr), vi_col := sc\<rparr>) }"

definition vi_delete_range :: "int \<Rightarrow> nat \<Rightarrow> int \<Rightarrow> nat \<Rightarrow> bool \<Rightarrow> vi_st \<Rightarrow> vi_st option" where
  "vi_delete_range r1 c1 r2 c2 linewise s =
     do { s1 \<leftarrow> vi_save_undo s;
          let sr = (if r1 < r2 then r1 else r2);
          let er = (if r1 < r2 then r2 else r1);
          let sc = (if r1 < r2 then c1 else c2);
          let ec = (if r1 < r2 then c2 else c1);
          s2 \<leftarrow> (if linewise then delete_linewise r1 r2 s1
                 else if sr = er then delete_in_row sr sc ec s1
                 else delete_span sr sc er ec s1);
          Some (s2\<lparr>vi_modified := True\<rparr>) }"

definition vi_change_range :: "int \<Rightarrow> nat \<Rightarrow> int \<Rightarrow> nat \<Rightarrow> bool \<Rightarrow> vi_st \<Rightarrow> vi_st option" where
  "vi_change_range r1 c1 r2 c2 linewise s =
     do { s1 \<leftarrow> vi_delete_range r1 c1 r2 c2 linewise s;
          s2 \<leftarrow> (if linewise then Some (s1\<lparr>vi_col := 0\<rparr>)
                 else if vi_row s1 < vi_lcount s1 then do {
                   ll \<leftarrow> vi_llen s1 (vi_row s1);
                   Some (if ll < vi_col s1 then s1\<lparr>vi_col := ll\<rparr> else s1) }
                 else Some s1);
          vi_no_msg (s2\<lparr>vi_mode := VI_M_INS\<rparr>) }"

section \<open>Motions\<close>

function scan_while :: "(u8 \<Rightarrow> bool) \<Rightarrow> u8 list \<Rightarrow> nat \<Rightarrow> nat \<Rightarrow> nat option" where
  "scan_while P line len c =
     (if c < len then do { x \<leftarrow> rd line c; if P x then scan_while P line len (Suc c) else Some c } else Some c)"
  by pat_completeness auto
termination
  by (relation "measure (\<lambda>(P, line, len, c). len - c)") auto

declare scan_while.simps [simp del]

text \<open>Backwards while the character at the column satisfies \<open>P\<close>, and while the one before it does.\<close>

fun back_at :: "(u8 \<Rightarrow> bool) \<Rightarrow> u8 list \<Rightarrow> nat \<Rightarrow> nat option" where
  "back_at P line 0 = Some 0"
| "back_at P line (Suc c) = do { x \<leftarrow> rd line (Suc c); if P x then back_at P line c else Some (Suc c) }"

fun back_before :: "(u8 \<Rightarrow> bool) \<Rightarrow> u8 list \<Rightarrow> nat \<Rightarrow> nat option" where
  "back_before P line 0 = Some 0"
| "back_before P line (Suc c) = do { x \<leftarrow> rd line c; if P x then back_before P line c else Some (Suc c) }"

definition vi_word_end :: "vi_st \<Rightarrow> int \<Rightarrow> nat \<Rightarrow> nat option" where
  "vi_word_end s r col =
     do { line \<leftarrow> vi_at s r;
          len \<leftarrow> strlen line;
          if len \<le> col then Some col
          else do {
            x \<leftarrow> rd line col;
            c \<leftarrow> scan_while (if vi_is_alpha x then vi_is_alpha else (\<lambda>y. \<not> vi_is_alpha y \<and> y \<noteq> 32 \<and> y \<noteq> 9)) line len col;
            Some (if c < len \<and> c = col then c + 1 else c) } }"

definition vi_word_fwd :: "vi_st \<Rightarrow> vi_st option" where
  "vi_word_fwd s =
     do { line \<leftarrow> vi_at s (vi_row s);
          len \<leftarrow> strlen line;
          if len \<le> vi_col s then
            Some (if vi_row s < vi_lcount s - 1 then s\<lparr>vi_row := vi_row s + 1, vi_col := 0\<rparr> else s)
          else do {
            x \<leftarrow> rd line (vi_col s);
            c1 \<leftarrow> (if vi_is_word x then scan_while vi_is_word line len (vi_col s) else Some (vi_col s));
            c2 \<leftarrow> scan_while (\<lambda>y. \<not> vi_is_word y) line len c1;
            Some (s\<lparr>vi_col := c2\<rparr>) } }"

definition vi_word_back :: "vi_st \<Rightarrow> vi_st option" where
  "vi_word_back s =
     do { line \<leftarrow> vi_at s (vi_row s);
          if 0 < vi_col s then do {
            c1 \<leftarrow> back_at (\<lambda>y. \<not> vi_is_word y) line (vi_col s - 1);
            c2 \<leftarrow> back_before vi_is_word line c1;
            Some (s\<lparr>vi_col := c2\<rparr>) }
          else if 0 < vi_row s then do {
            prev \<leftarrow> vi_at s (vi_row s - 1);
            len \<leftarrow> strlen prev;
            c \<leftarrow> back_before vi_is_word prev (len - 1);
            Some (s\<lparr>vi_row := vi_row s - 1, vi_col := c\<rparr>) }
          else Some s }"

text \<open>The column of the bracket that matches, or \<open>Some None\<close> when the line has none.\<close>

function match_fwd :: "u8 \<Rightarrow> u8 \<Rightarrow> u8 list \<Rightarrow> nat \<Rightarrow> nat \<Rightarrow> nat \<Rightarrow> nat option option" where
  "match_fwd a b line len c depth =
     (if c < len then do {
        x \<leftarrow> rd line c;
        let d = (if x = a then depth + 1 else if x = b then depth - 1 else depth);
        if 0 < d then match_fwd a b line len (Suc c) d else Some (Some c) }
      else Some None)"
  by pat_completeness auto
termination
  by (relation "measure (\<lambda>(a, b, line, len, c, depth). len - c)") auto

declare match_fwd.simps [simp del]

fun match_back :: "u8 \<Rightarrow> u8 \<Rightarrow> u8 list \<Rightarrow> nat \<Rightarrow> nat \<Rightarrow> nat option option" where
  "match_back a b line 0 depth = Some None"
| "match_back a b line (Suc c) depth =
     do { x \<leftarrow> rd line c;
          let d = (if x = b then depth + 1 else if x = a then depth - 1 else depth);
          if 0 < d then match_back a b line c d else Some (Some c) }"

fun match_pairs :: "(u8 \<times> u8) list \<Rightarrow> u8 \<Rightarrow> u8 list \<Rightarrow> nat \<Rightarrow> nat \<Rightarrow> nat option option" where
  "match_pairs [] x line len c = Some None"
| "match_pairs ((a, b) # ps) x line len c =
     (if x = a then match_fwd a b line len (c + 1) 1
      else if x = b then match_back a b line c 1
      else match_pairs ps x line len c)"

definition vi_move_to_matching :: "vi_st \<Rightarrow> vi_st option" where
  "vi_move_to_matching s =
     do { line \<leftarrow> vi_at s (vi_row s);
          len \<leftarrow> strlen line;
          if len \<le> vi_col s then Some s
          else do {
            x \<leftarrow> rd line (vi_col s);
            m \<leftarrow> match_pairs [(40, 41), (123, 125), (91, 93)] x line len (vi_col s);
            Some (case m of Some c \<Rightarrow> s\<lparr>vi_col := c\<rparr> | None \<Rightarrow> s) } }"

function rows_while :: "(u8 \<Rightarrow> bool) \<Rightarrow> vi_st \<Rightarrow> int \<Rightarrow> int option" where
  "rows_while P s r =
     (if r < vi_lcount s then do { l \<leftarrow> vi_at s r; x \<leftarrow> rd l 0; if P x then rows_while P s (r + 1) else Some r } else Some r)"
  by pat_completeness auto
termination
  by (relation "measure (\<lambda>(P, s, r). nat (vi_lcount s - r))") auto

function rows_back_while :: "(u8 \<Rightarrow> bool) \<Rightarrow> vi_st \<Rightarrow> int \<Rightarrow> int option" where
  "rows_back_while P s r =
     (if 0 < r then do { l \<leftarrow> vi_at s r; x \<leftarrow> rd l 0; if P x then rows_back_while P s (r - 1) else Some r } else Some r)"
  by pat_completeness auto
termination
  by (relation "measure (\<lambda>(P, s, r). nat r)") auto

declare rows_while.simps [simp del] rows_back_while.simps [simp del]

definition vi_move_to_paragraph :: "bool \<Rightarrow> vi_st \<Rightarrow> vi_st option" where
  "vi_move_to_paragraph forward s =
     (if forward then do {
        r1 \<leftarrow> rows_while (\<lambda>x. x \<noteq> 0) s (vi_row s + 1);
        r2 \<leftarrow> rows_while (\<lambda>x. x = 0) s (if r1 < vi_lcount s then r1 + 1 else r1);
        Some (s\<lparr>vi_row := (if r2 < vi_lcount s then r2 else vi_lcount s - 1), vi_col := 0\<rparr>) }
      else do {
        let r = vi_row s - 1;
        r1 \<leftarrow> (if 0 < r then do { l \<leftarrow> vi_at s r; x \<leftarrow> rd l 0; Some (if x = 0 then r - 1 else r) } else Some r);
        r2 \<leftarrow> rows_back_while (\<lambda>x. x \<noteq> 0) s r1;
        Some (s\<lparr>vi_row := (if 0 < r2 then r2 else 0), vi_col := 0\<rparr>) })"

section \<open>Searching\<close>

text \<open>In one row from column \<open>c\<close> on, then in the rows below from their start.\<close>

function row_search :: "u8 list \<Rightarrow> nat \<Rightarrow> u8 list \<Rightarrow> nat \<Rightarrow> nat \<Rightarrow> nat option option" where
  "row_search line ll pat plen c =
     (if int c \<le> int ll - int plen then do {
        k \<leftarrow> strncmp (drop c line) pat plen;
        if k = 0 then Some (Some c) else row_search line ll pat plen (Suc c) }
      else Some None)"
  by pat_completeness auto
termination
  by (relation "measure (\<lambda>(line, ll, pat, plen, c). Suc ll - c)") auto

function search_rows :: "vi_st \<Rightarrow> u8 list \<Rightarrow> nat \<Rightarrow> int \<Rightarrow> nat \<Rightarrow> (int \<times> nat) option option" where
  "search_rows s pat plen r c =
     (if r < vi_lcount s then do {
        line \<leftarrow> vi_at s r;
        ll \<leftarrow> strlen line;
        m \<leftarrow> row_search line ll pat plen c;
        case m of Some k \<Rightarrow> Some (Some (r, k)) | None \<Rightarrow> search_rows s pat plen (r + 1) 0 }
      else Some None)"
  by pat_completeness auto
termination
  by (relation "measure (\<lambda>(s, pat, plen, r, c). nat (vi_lcount s - r))") auto

definition vi_search_forward :: "vi_st \<Rightarrow> u8 list \<Rightarrow> nat \<Rightarrow> int \<Rightarrow> nat \<Rightarrow> (int \<times> nat) option option" where
  "vi_search_forward s pat plen sr sc = (if plen = 0 then Some None else search_rows s pat plen sr (sc + 1))"

text \<open>The columns below \<open>n\<close> of a row, from right to left, then the rows above.\<close>

fun row_search_back :: "u8 list \<Rightarrow> u8 list \<Rightarrow> nat \<Rightarrow> nat \<Rightarrow> nat option option" where
  "row_search_back line pat plen 0 = Some None"
| "row_search_back line pat plen (Suc c) =
     do { k \<leftarrow> strncmp (drop c line) pat plen;
          if k = 0 then Some (Some c) else row_search_back line pat plen c }"

function search_rows_back :: "vi_st \<Rightarrow> u8 list \<Rightarrow> nat \<Rightarrow> int \<Rightarrow> int \<Rightarrow> (int \<times> nat) option option" where
  "search_rows_back s pat plen r c =
     (if 0 \<le> r then do {
        line \<leftarrow> vi_at s r;
        ll \<leftarrow> strlen line;
        let c1 = (if int ll - int plen < c then int ll - int plen else c);
        m \<leftarrow> row_search_back line pat plen (nat (c1 + 1));
        case m of
          Some k \<Rightarrow> Some (Some (r, k))
        | None \<Rightarrow>
            if 0 \<le> r - 1 then do { l \<leftarrow> vi_llen s (r - 1); search_rows_back s pat plen (r - 1) (int l - int plen) }
            else Some None }
      else Some None)"
  by pat_completeness auto
termination
  by (relation "measure (\<lambda>(s, pat, plen, r, c). nat r)") auto

declare row_search.simps [simp del] search_rows.simps [simp del] search_rows_back.simps [simp del]

definition vi_search_backward :: "vi_st \<Rightarrow> u8 list \<Rightarrow> nat \<Rightarrow> int \<Rightarrow> nat \<Rightarrow> (int \<times> nat) option option" where
  "vi_search_backward s pat plen sr sc = (if plen = 0 then Some None else search_rows_back s pat plen sr (int sc - 1))"

definition search_goto :: "(int \<times> nat) option \<Rightarrow> vi_st \<Rightarrow> vi_st option" where
  "search_goto m s =
     (case m of Some (r, c) \<Rightarrow> Some (s\<lparr>vi_row := r, vi_col := c, vi_search_highlight := True\<rparr>)
      | None \<Rightarrow> vi_set_msg (cstring ''Pattern not found'') s)"

definition vi_search_next :: "vi_st \<Rightarrow> vi_st option" where
  "vi_search_next s =
     (if vi_search_len s = 0 then Some s
      else do {
        m \<leftarrow> (if 0 < vi_search_dir s then vi_search_forward s (vi_search_pat s) (vi_search_len s) (vi_row s) (vi_col s)
              else vi_search_backward s (vi_search_pat s) (vi_search_len s) (vi_row s) (vi_col s));
        search_goto m s })"

definition vi_search_prev :: "vi_st \<Rightarrow> vi_st option" where
  "vi_search_prev s =
     (if vi_search_len s = 0 then Some s
      else do {
        m \<leftarrow> (if 0 < vi_search_dir s then vi_search_backward s (vi_search_pat s) (vi_search_len s) (vi_row s) (vi_col s)
              else vi_search_forward s (vi_search_pat s) (vi_search_len s) (vi_row s) (vi_col s));
        search_goto m s })"

section \<open>Changes of the text\<close>

definition paste_line :: "int \<Rightarrow> vi_st \<Rightarrow> vi_st option" where
  "paste_line r s =
     do { ls \<leftarrow> vi_rows_down r s;
          l \<leftarrow> rdi ls r;
          l1 \<leftarrow> strncpy l (vi_yank_buf s) (vi_yank_len s);
          l2 \<leftarrow> wr l1 (vi_yank_len s) 0;
          Some (s\<lparr>vi_lines := ls[nat r := l2], vi_lcount := vi_lcount s + 1\<rparr>) }"

definition paste_chars :: "u8 list \<Rightarrow> nat \<Rightarrow> nat \<Rightarrow> vi_st \<Rightarrow> vi_st option" where
  "paste_chars line len c s =
     do { l1 \<leftarrow> memmove_down line (c + vi_yank_len s) c (Suc len - c);
          l2 \<leftarrow> memcpy l1 c (vi_yank_buf s) 0 (vi_yank_len s);
          Some (vi_put (vi_row s) l2 s) }"

definition vi_paste_after :: "vi_st \<Rightarrow> vi_st option" where
  "vi_paste_after s =
     (if vi_yank_len s = 0 then Some s
      else do {
        s1 \<leftarrow> vi_save_undo s;
        if vi_yank_line s1 then
          (if VI_MAX_LINES \<le> vi_lcount s1 then Some s1
           else do {
             s2 \<leftarrow> paste_line (vi_row s1 + 1) s1;
             Some (s2\<lparr>vi_row := vi_row s2 + 1, vi_col := 0, vi_modified := True\<rparr>) })
        else do {
          line \<leftarrow> vi_at s1 (vi_row s1);
          len \<leftarrow> strlen line;
          let ins = (if len < vi_col s1 + 1 then len else vi_col s1 + 1);
          if VI_MAX_COL - 1 \<le> vi_yank_len s1 + len then Some s1
          else do {
            s2 \<leftarrow> paste_chars line len ins s1;
            Some (s2\<lparr>vi_col := ins + vi_yank_len s2 - 1, vi_modified := True\<rparr>) } } })"

definition vi_paste_before :: "vi_st \<Rightarrow> vi_st option" where
  "vi_paste_before s =
     (if vi_yank_len s = 0 then Some s
      else do {
        s1 \<leftarrow> vi_save_undo s;
        if vi_yank_line s1 then
          (if VI_MAX_LINES \<le> vi_lcount s1 then Some s1
           else do { s2 \<leftarrow> paste_line (vi_row s1) s1; Some (s2\<lparr>vi_col := 0, vi_modified := True\<rparr>) })
        else do {
          line \<leftarrow> vi_at s1 (vi_row s1);
          len \<leftarrow> strlen line;
          if VI_MAX_COL - 1 \<le> vi_yank_len s1 + len then Some s1
          else do { s2 \<leftarrow> paste_chars line len (vi_col s1) s1; Some (s2\<lparr>vi_modified := True\<rparr>) } } })"

definition vi_toggle_case :: "vi_st \<Rightarrow> vi_st option" where
  "vi_toggle_case s =
     do { line \<leftarrow> vi_at s (vi_row s);
          len \<leftarrow> strlen line;
          if len \<le> vi_col s then Some s
          else do {
            s1 \<leftarrow> vi_save_undo s;
            x \<leftarrow> rd line (vi_col s);
            l1 \<leftarrow> wr line (vi_col s) (if 97 \<le> x \<and> x \<le> 122 then x - 32 else if 65 \<le> x \<and> x \<le> 90 then x + 32 else x);
            Some ((vi_put (vi_row s) l1 s1)\<lparr>vi_col := (if len \<le> vi_col s + 1 then len - 1 else vi_col s + 1), vi_modified := True\<rparr>) } }"

definition vi_join_lines :: "vi_st \<Rightarrow> vi_st option" where
  "vi_join_lines s =
     (if vi_lcount s - 1 \<le> vi_row s then Some s
      else do {
        s1 \<leftarrow> vi_save_undo s;
        cur \<leftarrow> vi_at s1 (vi_row s1);
        below \<leftarrow> vi_at s1 (vi_row s1 + 1);
        clen0 \<leftarrow> strlen cur;
        nlen \<leftarrow> strlen below;
        clen \<leftarrow> back_before vi_is_blank cur clen0;
        cur1 \<leftarrow> wr cur clen 32;
        cur2 \<leftarrow> (if clen + 1 + nlen < VI_MAX_COL - 1
                 then do { c \<leftarrow> memcpy cur1 (clen + 1) below 0 nlen; wr c (clen + 1 + nlen) 0 }
                 else Some cur1);
        let s2 = vi_put (vi_row s1) cur2 s1;
        ls \<leftarrow> vi_rows_up (vi_row s1 + 1) s2;
        Some (s2\<lparr>vi_lines := ls, vi_lcount := vi_lcount s2 - 1, vi_modified := True\<rparr>) })"

definition vi_indent :: "int \<Rightarrow> vi_st \<Rightarrow> vi_st option" where
  "vi_indent dir s =
     do { s1 \<leftarrow> vi_save_undo s;
          line \<leftarrow> vi_at s1 (vi_row s1);
          if 0 < dir then do {
            len \<leftarrow> strlen line;
            if VI_MAX_COL - 2 \<le> len then Some s1
            else do {
              l1 \<leftarrow> memmove_down line 2 0 (Suc len);
              l2 \<leftarrow> wr l1 0 32;
              l3 \<leftarrow> wr l2 1 32;
              Some ((vi_put (vi_row s1) l3 s1)\<lparr>vi_col := vi_col s1 + 2, vi_modified := True\<rparr>) } }
          else do {
            x \<leftarrow> rd line 0;
            if x = 32 then do {
              y \<leftarrow> rd line 1;
              let rm = (if y = 32 then 2 else 1);
              ll \<leftarrow> strlen line;
              l1 \<leftarrow> memmove_up line 0 rm (Suc ll - rm) 0;
              Some ((vi_put (vi_row s1) l1 s1)\<lparr>vi_col := (if rm \<le> vi_col s1 then vi_col s1 - rm else 0), vi_modified := True\<rparr>) }
            else Some (s1\<lparr>vi_modified := True\<rparr>) } }"

definition vi_do_undo :: "vi_st \<Rightarrow> vi_st option" where
  "vi_do_undo s =
     (if \<not> vi_undo_valid s then vi_set_msg (cstring ''[Already at oldest change]'') s
      else do {
        l \<leftarrow> vi_at s (vi_undo_row s);
        redo \<leftarrow> strncpy (vi_redo_line s) l VI_MAX_COL;
        l1 \<leftarrow> strncpy l (vi_undo_line s) VI_MAX_COL;
        vi_set_msg (cstring [])
          ((vi_put (vi_undo_row s) l1 s)\<lparr>vi_redo_line := redo, vi_redo_row := vi_undo_row s, vi_redo_lcount := vi_lcount s,
             vi_lcount := vi_undo_lcount s, vi_row := vi_undo_row s, vi_col := 0, vi_undo_valid := False, vi_modified := True\<rparr>) })"

definition vi_do_redo :: "vi_st \<Rightarrow> vi_st option" where
  "vi_do_redo s =
     do { l \<leftarrow> vi_at s (vi_redo_row s);
          undo \<leftarrow> strncpy (vi_undo_line s) l VI_MAX_COL;
          l1 \<leftarrow> strncpy l (vi_redo_line s) VI_MAX_COL;
          vi_set_msg (cstring [])
            ((vi_put (vi_redo_row s) l1 s)\<lparr>vi_undo_line := undo, vi_undo_row := vi_redo_row s, vi_undo_lcount := vi_lcount s,
               vi_lcount := vi_redo_lcount s, vi_row := vi_redo_row s, vi_col := 0, vi_modified := True\<rparr>) }"

section \<open>Ranges and operators\<close>

text \<open>The text of a range, collected as \<open>vi_visual_yank\<close> and the operator \<open>y\<close> do.\<close>

definition collect_range :: "vi_st \<Rightarrow> bool \<Rightarrow> int \<Rightarrow> nat \<Rightarrow> int \<Rightarrow> nat \<Rightarrow> (u8 list \<times> nat) option" where
  "collect_range s linewise sr sc er ec =
     (let tmp = replicate VI_YANK_MAX 0 in
      if linewise then collect_rows s False sr (nat (min er (vi_lcount s - 1) - sr + 1)) tmp 0
      else if sr = er then do {
        line \<leftarrow> vi_at s sr;
        ll \<leftarrow> strlen line;
        let en = (if ec < ll then ec else ll);
        if sc < en then do { t \<leftarrow> memcpy tmp 0 line sc (en - sc); Some (t, en - sc) } else Some (tmp, 0) }
      else do {
        line \<leftarrow> vi_at s sr;
        ll0 \<leftarrow> strlen line;
        (t1, n1) \<leftarrow> (if sc < ll0 then do { t \<leftarrow> memcpy tmp 0 line sc (ll0 - sc); Some (t, ll0 - sc) } else Some (tmp, 0));
        (t2, n2) \<leftarrow> collect_rows s True (sr + 1) (nat (min er (vi_lcount s) - (sr + 1))) t1 n1;
        if er < vi_lcount s then do {
          l2 \<leftarrow> vi_at s er;
          ll2 \<leftarrow> strlen l2;
          collect_final l2 (if ec < ll2 then ec else ll2) t2 n2 }
        else Some (t2, n2) })"

definition yank_range :: "bool \<Rightarrow> int \<Rightarrow> nat \<Rightarrow> int \<Rightarrow> nat \<Rightarrow> vi_st \<Rightarrow> vi_st option" where
  "yank_range linewise sr sc er ec s =
     do { (tmp, n) \<leftarrow> collect_range s linewise sr sc er ec;
          tmp1 \<leftarrow> wr tmp n 0;
          s1 \<leftarrow> vi_yank_text tmp1 0 n linewise s;
          (msg, k) \<leftarrow> snprintf (replicate 32 0) 32 (cstring ''%d lines yanked'') [VInt (of_int (er - sr + 1))];
          vi_set_msg msg s1 }"

definition vi_visual_yank :: "vi_st \<Rightarrow> vi_st option" where
  "vi_visual_yank s =
     (let up = vi_vis_start_row s < vi_row s;
          sr = (if up then vi_vis_start_row s else vi_row s);
          er = (if up then vi_row s else vi_vis_start_row s);
          sc = (if up then vi_vis_start_col s else vi_col s);
          ec = (if up then vi_col s else vi_vis_start_col s) in
      yank_range (vi_vis_type s = VIS_LINE) sr sc er ec s)"

definition vi_visual_delete :: "vi_st \<Rightarrow> vi_st option" where
  "vi_visual_delete s =
     do { s1 \<leftarrow> vi_delete_range (vi_vis_start_row s) (vi_vis_start_col s) (vi_row s) (vi_col s) (vi_vis_type s = VIS_LINE) s;
          Some (s1\<lparr>vi_vis_type := VIS_NONE, vi_mode := VI_M_NORM\<rparr>) }"

text \<open>
  Replacing every occurrence in a row.  With an empty pattern and an empty replacement the loop does not end, which is \<open>None\<close>.
\<close>

fun subst_copy :: "u8 list \<Rightarrow> nat \<Rightarrow> nat \<Rightarrow> u8 list \<Rightarrow> nat \<Rightarrow> (u8 list \<times> nat) option" where
  "subst_copy rep i 0 tmp t = Some (tmp, t)"
| "subst_copy rep i (Suc n) tmp t =
     (if t < VI_MAX_COL - 1 then do { x \<leftarrow> rd rep i; tmp1 \<leftarrow> wr tmp t x; subst_copy rep (Suc i) n tmp1 (Suc t) }
      else Some (tmp, t))"

partial_function (option) subst_loop ::
    "u8 list \<Rightarrow> nat \<Rightarrow> u8 list \<Rightarrow> nat \<Rightarrow> u8 list \<Rightarrow> nat \<Rightarrow> nat \<Rightarrow> u8 list \<Rightarrow> nat \<Rightarrow> (u8 list \<times> nat) option" where
  "subst_loop line ll pat plen rep rlen c tmp t =
     (if c < ll \<and> t < VI_MAX_COL - 1 then do {
        found \<leftarrow> (if int c \<le> int ll - int plen then do { k \<leftarrow> strncmp (drop c line) pat plen; Some (k = 0) } else Some False);
        if found then do {
          (tmp1, t1) \<leftarrow> subst_copy rep 0 rlen tmp t;
          subst_loop line ll pat plen rep rlen (c + plen) tmp1 t1 }
        else do {
          x \<leftarrow> rd line c;
          tmp1 \<leftarrow> wr tmp t x;
          subst_loop line ll pat plen rep rlen (Suc c) tmp1 (Suc t) } }
      else Some (tmp, t))"

definition vi_substitute_line :: "int \<Rightarrow> u8 list \<Rightarrow> nat \<Rightarrow> u8 list \<Rightarrow> nat \<Rightarrow> vi_st \<Rightarrow> vi_st option" where
  "vi_substitute_line r pat plen rep rlen s =
     do { line \<leftarrow> vi_at s r;
          ll \<leftarrow> strlen line;
          (tmp, t) \<leftarrow> subst_loop line ll pat plen rep rlen 0 (replicate VI_MAX_COL 0) 0;
          tmp1 \<leftarrow> wr tmp t 0;
          l1 \<leftarrow> memcpy line 0 tmp1 0 (t + 1);
          Some (vi_put r l1 s) }"

definition vi_clamp :: "term_state \<Rightarrow> vi_st \<Rightarrow> vi_st option" where
  "vi_clamp t s =
     do { len \<leftarrow> vi_llen s (vi_row s);
          let w = int (term_width t); let h = int (term_height t);
          let col = (if len < vi_col s then len else vi_col s);
          let r1 = (if vi_row s < 0 then 0 else vi_row s);
          let r = (if vi_lcount s \<le> r1 then vi_lcount s - 1 else r1);
          let sc1 = (if r < vi_scroll s then r else vi_scroll s);
          let sc2 = (if sc1 + h - 1 \<le> r then r - (h - 2) else sc1);
          let x1 = (if int col < vi_scroll_x s then int col else vi_scroll_x s);
          let x2 = (if x1 + w - 4 \<le> int col then int col - w + 5 else x1);
          let x3 = (if x2 < 0 then 0 else x2);
          Some (s\<lparr>vi_col := col, vi_row := r, vi_scroll := sc2, vi_scroll_x := x3\<rparr>) }"

definition vi_op_exec :: "term_state \<Rightarrow> int \<Rightarrow> bool \<Rightarrow> int \<Rightarrow> nat \<Rightarrow> int \<Rightarrow> nat \<Rightarrow> vi_st \<Rightarrow> vi_st option" where
  "vi_op_exec t p linewise r1 c1 r2 c2 s =
     (let sr = (if r1 < r2 then r1 else r2); er = (if r1 < r2 then r2 else r1);
          sc = (if linewise then 0 else if r1 < r2 then c1 else c2); ec = (if linewise then 0 else if r1 < r2 then c2 else c1) in
      if p = OP_DELETE then do { s1 \<leftarrow> vi_delete_range r1 c1 r2 c2 linewise s; vi_clamp t s1 }
      else if p = OP_YANK then yank_range linewise sr sc er ec s
      else if p = OP_CHANGE then vi_change_range r1 c1 r2 c2 linewise s
      else Some s)"

text \<open>Half of the rows of the text, with the division of C.\<close>

definition half_screen :: "term_state \<Rightarrow> int" where
  "half_screen t = (let d = int (term_height t) - 2 in if d < 0 then - (- d div 2) else d div 2)"

text \<open>The motions that commands and operators share.\<close>

definition move_end_of_word :: "vi_st \<Rightarrow> vi_st option" where
  "move_end_of_word s =
     do { e \<leftarrow> vi_word_end s (vi_row s) (vi_col s);
          len \<leftarrow> vi_llen s (vi_row s);
          let c = (if e = vi_col s \<and> vi_col s < len then vi_col s + 1 else e);
          Some (if len \<le> c \<and> vi_row s < vi_lcount s - 1 then s\<lparr>vi_row := vi_row s + 1, vi_col := 0\<rparr> else s\<lparr>vi_col := c\<rparr>) }"

definition move_to_eol :: "vi_st \<Rightarrow> vi_st option" where
  "move_to_eol s = do { len \<leftarrow> vi_llen s (vi_row s); Some (s\<lparr>vi_col := len - 1\<rparr>) }"

definition move_to_indent :: "vi_st \<Rightarrow> vi_st option" where
  "move_to_indent s =
     do { line \<leftarrow> vi_at s (vi_row s); len \<leftarrow> strlen line; c \<leftarrow> scan_while vi_is_blank line len 0; Some (s\<lparr>vi_col := c\<rparr>) }"

definition move_to_row :: "int \<Rightarrow> vi_st \<Rightarrow> vi_st" where
  "move_to_row r s = s\<lparr>vi_row := (if vi_lcount s \<le> r then vi_lcount s - 1 else r), vi_col := 0\<rparr>"

text \<open>The motion after an operator; \<open>None\<close> is inside when the key is not a motion.\<close>

definition op_motion :: "term_state \<Rightarrow> int \<Rightarrow> vi_st \<Rightarrow> vi_st option option" where
  "op_motion t m s =
     (if m = key CHR ''w'' then map_option Some (vi_word_fwd s)
      else if m = key CHR ''b'' then map_option Some (vi_word_back s)
      else if m = key CHR ''e'' then map_option Some (move_end_of_word s)
      else if m = key CHR ''$'' then map_option Some (move_to_eol s)
      else if m = key CHR ''0'' then Some (Some (s\<lparr>vi_col := 0\<rparr>))
      else if m = key CHR ''^'' then map_option Some (move_to_indent s)
      else if m = key CHR ''h'' then Some (Some (s\<lparr>vi_col := vi_col s - 1\<rparr>))
      else if m = key CHR ''l'' then do {
        len \<leftarrow> vi_llen s (vi_row s); Some (Some (if vi_col s < len then s\<lparr>vi_col := vi_col s + 1\<rparr> else s)) }
      else if m = key CHR ''j'' then Some (Some (if vi_row s < vi_lcount s - 1 then s\<lparr>vi_row := vi_row s + 1\<rparr> else s))
      else if m = key CHR ''k'' then Some (Some (if 0 < vi_row s then s\<lparr>vi_row := vi_row s - 1\<rparr> else s))
      else if m = key CHR ''G'' then Some (Some (s\<lparr>vi_row := vi_lcount s - 1, vi_col := 0\<rparr>))
      else if m = key CHR ''H'' then Some (Some (s\<lparr>vi_row := vi_scroll s, vi_col := 0\<rparr>))
      else if m = key CHR ''M'' then Some (Some (move_to_row (vi_scroll s + half_screen t) s))
      else if m = key CHR ''L'' then Some (Some (move_to_row (vi_scroll s + int (term_height t) - 3) s))
      else Some None)"

definition vi_apply_op_motion :: "term_state \<Rightarrow> int \<Rightarrow> bool \<Rightarrow> int \<Rightarrow> vi_st \<Rightarrow> vi_st option" where
  "vi_apply_op_motion t p linewise m s =
     do { moved \<leftarrow> op_motion t m s;
          case moved of None \<Rightarrow> Some s
          | Some s1 \<Rightarrow> do {
              s2 \<leftarrow> vi_op_exec t p linewise (vi_row s) (vi_col s) (vi_row s1) (vi_col s1) s1;
              vi_clamp t s2 } }"

end
