(* ===== verification/ViCmd.thy ===== *)
theory ViCmd
  imports Vi
begin

text \<open>
  The editor \<open>vi\<close> of \<open>src/kernel/shell/editors.c\<close> around its text: files, the commands behind the colon, the screen, the keys of
  each mode and the loop.  Keys are the values that \<open>vi_event\<close> returns, as for \<open>nano\<close>.
\<close>

section \<open>Files\<close>

text \<open>The loop that reads a file into lines is the one of \<open>nano_load_file\<close>.\<close>

definition vi_load_file :: "u8 list \<Rightarrow> vi_st \<Rightarrow> vfs_st \<Rightarrow> (vi_st \<times> vfs_st) option" where
  "vi_load_file path s v =
     do { d0 \<leftarrow> load_start (vi_lines s);
          (fd, v1) \<leftarrow> vfs_open v path VFS_O_READ;
          if fd < 0 then do {
            m \<leftarrow> strcpy (vi_msg s) (cstring ''[New file]'');
            Some (s\<lparr>vi_lines := ld_lines d0, vi_lcount := 1, vi_msg := m\<rparr>, v1) }
          else do {
            (d1, v2) \<leftarrow> load_loop fd (replicate 1024 0) d0 v1;
            (c, v3) \<leftarrow> vfs_close v2 fd;
            ls \<leftarrow> (if 0 < ld_lcount d1 then load_store d1 else Some (ld_lines d1));
            Some (s\<lparr>vi_lines := ls, vi_lcount := int (ld_lcount d1), vi_modified := False\<rparr>, v3) } }"

text \<open>
  Writing the lines from \<open>i\<close> on, each with a newline but for an empty last line; \<open>Inl\<close> is the number of the line that could
  not be written.
\<close>

fun vi_save_lines :: "vi_st \<Rightarrow> nat \<Rightarrow> nat \<Rightarrow> int \<Rightarrow> int \<Rightarrow> vfs_st \<Rightarrow> ((nat + int) \<times> vfs_st) option" where
  "vi_save_lines s i 0 fd written v = Some (Inr written, v)"
| "vi_save_lines s i (Suc n) fd written v =
     do { l \<leftarrow> rd (vi_lines s) i;
          len \<leftarrow> strlen l;
          (w, v1) \<leftarrow> vfs_write v fd l len;
          if w \<noteq> int len then Some (Inl i, v1)
          else if int i = vi_lcount s - 1 \<and> len = 0 then vi_save_lines s (Suc i) n fd written v1
          else do {
            (w2, v2) \<leftarrow> vfs_write v1 fd [10, 0] 1;
            if w2 \<noteq> 1 then Some (Inl i, v2)
            else vi_save_lines s (Suc i) n fd (written + (int len + 1)) v2 } }"

definition vi_set_status :: "u8 list \<Rightarrow> va list \<Rightarrow> vi_st \<Rightarrow> vi_st option" where
  "vi_set_status format ap s = do { (b, n) \<leftarrow> snprintf (vi_status s) VI_STATUS_SZ format ap; Some (s\<lparr>vi_status := b\<rparr>) }"

definition vi_save_file :: "u8 list \<Rightarrow> vi_st \<Rightarrow> vfs_st \<Rightarrow> (int \<times> vi_st \<times> vfs_st) option" where
  "vi_save_file path s v =
     do { (fd, v1) \<leftarrow> vfs_open v path (or VFS_O_READ (or VFS_O_WRITE VFS_O_CREATE));
          if fd < 0 then do {
            s1 \<leftarrow> vi_set_status (cstring ''Save FAILED: open(%d)'') [VInt (of_int fd)] s; Some (- 1, s1, v1) }
          else do {
            (c, v2) \<leftarrow> vfs_truncate v1 path 0;
            if c \<noteq> VFS_OK then do {
              s1 \<leftarrow> vi_set_status (cstring ''Save FAILED: truncate'') [] s;
              (c1, v3) \<leftarrow> vfs_close v2 fd;
              Some (- 1, s1, v3) }
            else do {
              (r, v3) \<leftarrow> vi_save_lines s 0 (nat (vi_lcount s)) fd 0 v2;
              case r of
                Inl i \<Rightarrow> do {
                  s1 \<leftarrow> vi_set_status (cstring ''Save FAILED: write(%d)'') [VInt (of_nat i)] s;
                  (c1, v4) \<leftarrow> vfs_close v3 fd;
                  Some (- 1, s1, v4) }
              | Inr n \<Rightarrow> do {
                  (c1, v4) \<leftarrow> vfs_close v3 fd;
                  (m, k) \<leftarrow> snprintf (vi_msg s) VI_STATUS_SZ (cstring (CHR 0x22 # ''%s'' @ CHR 0x22 # '' %d bytes written''))
                    [VStr path, VInt (of_int n)];
                  m1 \<leftarrow> wr m (VI_STATUS_SZ - 1) 0;
                  Some (0, s\<lparr>vi_modified := False, vi_msg := m1\<rparr>, v4) } } } }"

section \<open>Commands behind the colon\<close>

text \<open>The command \<open>:r\<close>.  A read ends the loop over its bytes, not the loop over reads, when the rows are full: the flag.\<close>

record read_st =
  tline :: "u8 list"
  rpos :: nat
  ins_row :: int
  rvi :: vi_st

definition read_store :: "read_st \<Rightarrow> read_st option" where
  "read_store d =
     do { let n = min (rpos d) (VI_MAX_COL - 1);
          l \<leftarrow> vi_at (rvi d) (ins_row d);
          l1 \<leftarrow> strncpy l (tline d) n;
          l2 \<leftarrow> wr l1 n 0;
          Some (d\<lparr>rpos := n, rvi := vi_put (ins_row d) l2 (rvi d)\<rparr>) }"

definition read_open :: "vi_st \<Rightarrow> int \<Rightarrow> vi_st option" where
  "read_open s r = do { ls \<leftarrow> vi_open_row r s; Some (s\<lparr>vi_lines := ls, vi_lcount := vi_lcount s + 1\<rparr>) }"

definition read_char :: "u8 \<Rightarrow> read_st \<Rightarrow> (bool \<times> read_st) option" where
  "read_char c d =
     (if c = 10 then do {
        d1 \<leftarrow> read_store d;
        let r = ins_row d + 1;
        if VI_MAX_LINES \<le> r then Some (True, d1\<lparr>ins_row := r\<rparr>)
        else do { s1 \<leftarrow> read_open (rvi d1) r; Some (False, d1\<lparr>ins_row := r, rpos := 0, rvi := s1\<rparr>) } }
      else if rpos d < 4095 then do { t \<leftarrow> wr (tline d) (rpos d) c; Some (False, d\<lparr>tline := t, rpos := rpos d + 1\<rparr>) }
      else Some (False, d))"

fun read_bytes :: "u8 list \<Rightarrow> nat \<Rightarrow> nat \<Rightarrow> read_st \<Rightarrow> read_st option" where
  "read_bytes buf i 0 d = Some d"
| "read_bytes buf i (Suc n) d =
     do { c \<leftarrow> rd buf i; (stop, d1) \<leftarrow> read_char c d; if stop then Some d1 else read_bytes buf (Suc i) n d1 }"

partial_function (option) read_loop :: "int \<Rightarrow> u8 list \<Rightarrow> read_st \<Rightarrow> vfs_st \<Rightarrow> (read_st \<times> vfs_st) option" where
  "read_loop fd buf d v =
     do { (n, b, v1) \<leftarrow> vfs_read v fd buf 1024;
          if n \<le> 0 then Some (d, v1)
          else do { d1 \<leftarrow> read_bytes b 0 (nat n) d; read_loop fd b d1 v1 } }"

function skip_spaces :: "u8 list \<Rightarrow> nat \<Rightarrow> nat option" where
  "skip_spaces cmd p = do { c \<leftarrow> rd cmd p; if c = 32 then skip_spaces cmd (Suc p) else Some p }"
  by pat_completeness auto
termination
  by (relation "measure (\<lambda>(cmd, p). length cmd - p)") (auto dest: rd_SomeD)

declare skip_spaces.simps [simp del]

definition cmd_read :: "u8 list \<Rightarrow> vi_st \<Rightarrow> vfs_st \<Rightarrow> (vi_st \<times> vfs_st) option" where
  "cmd_read cmd s v =
     do { p \<leftarrow> skip_spaces cmd 2;
          (fd, v1) \<leftarrow> vfs_open v (drop p cmd) VFS_O_READ;
          if fd < 0 then do { s1 \<leftarrow> vi_set_msg (cstring ''File not found'') s; Some (s1, v1) }
          else if VI_MAX_LINES \<le> vi_lcount s then do { (c, v2) \<leftarrow> vfs_close v1 fd; Some (s, v2) }
          else do {
            s1 \<leftarrow> read_open s (vi_row s + 1);
            (d, v2) \<leftarrow> read_loop fd (replicate 1024 0) \<lparr>tline = replicate 4096 0, rpos = 0, ins_row = vi_row s + 1, rvi = s1\<rparr> v1;
            (c, v3) \<leftarrow> vfs_close v2 fd;
            d1 \<leftarrow> (if 0 < rpos d \<and> ins_row d < VI_MAX_LINES then read_store d else Some d);
            Some ((rvi d1)\<lparr>vi_modified := True\<rparr>, v3) } }"

definition cmd_edit :: "u8 list \<Rightarrow> u8 list \<Rightarrow> vi_st \<Rightarrow> vfs_st \<Rightarrow> (vi_st \<times> vfs_st) option" where
  "cmd_edit cwd cmd s v =
     do { p \<leftarrow> skip_spaces cmd 2;
          f \<leftarrow> vfs_cmd_resolve cwd (Some (drop p cmd)) (vi_fname s) 128;
          f1 \<leftarrow> wr f 127 0;
          s1 \<leftarrow> vi_clear_row 0 s;
          (s2, v1) \<leftarrow> vi_load_file f1 (s1\<lparr>vi_fname := f1, vi_lcount := 1, vi_row := 0, vi_col := 0, vi_scroll := 0, vi_scroll_x := 0,
            vi_modified := False\<rparr>) v;
          s3 \<leftarrow> one_line_left s2;
          s4 \<leftarrow> vi_set_msg (cstring []) s3;
          Some (s4, v1) }"

text \<open>The pattern and the replacement between slashes; \<open>phase\<close> 2 ends the loop.\<close>

function parse_subst :: "u8 list \<Rightarrow> nat \<Rightarrow> nat \<Rightarrow> u8 list \<Rightarrow> nat \<Rightarrow> u8 list \<Rightarrow> nat \<Rightarrow> (u8 list \<times> nat \<times> u8 list \<times> nat) option" where
  "parse_subst cmd p phase pat plen rep rlen =
     do { c \<leftarrow> rd cmd p;
          if c = 0 \<or> 2 \<le> phase then Some (pat, plen, rep, rlen)
          else if phase = 0 then
            (if c = 47 then parse_subst cmd (Suc p) 1 pat plen rep rlen
             else if plen < VI_SEARCH_SZ - 1 then do { pat1 \<leftarrow> wr pat plen c; parse_subst cmd (Suc p) 0 pat1 (Suc plen) rep rlen }
             else parse_subst cmd (Suc p) 0 pat plen rep rlen)
          else if c = 47 \<or> c = 103 then do {
            d \<leftarrow> rd cmd (Suc p);
            parse_subst cmd (Suc p) (if d = 0 \<or> c = 47 then 2 else 1) pat plen rep rlen }
          else if rlen < VI_SEARCH_SZ - 1 then do { rep1 \<leftarrow> wr rep rlen c; parse_subst cmd (Suc p) 1 pat plen rep1 (Suc rlen) }
          else parse_subst cmd (Suc p) 1 pat plen rep rlen }"
  by pat_completeness auto
termination
  by (relation "measure (\<lambda>(cmd, p, phase, pat, plen, rep, rlen). length cmd - p)") (auto dest: rd_SomeD)

declare parse_subst.simps [simp del]

fun subst_lines :: "int \<Rightarrow> nat \<Rightarrow> u8 list \<Rightarrow> nat \<Rightarrow> u8 list \<Rightarrow> nat \<Rightarrow> vi_st \<Rightarrow> vi_st option" where
  "subst_lines i 0 pat plen rep rlen s = Some s"
| "subst_lines i (Suc n) pat plen rep rlen s =
     do { s1 \<leftarrow> vi_substitute_line i pat plen rep rlen s; subst_lines (i + 1) n pat plen rep rlen s1 }"

definition cmd_subst :: "u8 list \<Rightarrow> nat \<Rightarrow> bool \<Rightarrow> vi_st \<Rightarrow> vi_st option" where
  "cmd_subst cmd p everywhere s =
     do { (pat, plen, rep, rlen) \<leftarrow> parse_subst cmd p 0 (replicate VI_SEARCH_SZ 0) 0 (replicate VI_SEARCH_SZ 0) 0;
          s1 \<leftarrow> (if everywhere then subst_lines 0 (nat (vi_lcount s)) pat plen rep rlen s
                 else vi_substitute_line (vi_row s) pat plen rep rlen s);
          vi_set_msg (cstring []) (s1\<lparr>vi_modified := True\<rparr>) }"

definition cmd_is :: "u8 list \<Rightarrow> string \<Rightarrow> bool option" where
  "cmd_is cmd name = do { k \<leftarrow> strcmp cmd (cstring name); Some (k = 0) }"

text \<open>The commands without files: line numbers, highlighting, substitution, indentation, help.\<close>

definition exec_plain :: "u8 list \<Rightarrow> vi_st \<Rightarrow> vi_st option" where
  "exec_plain cmd s =
     do { c0 \<leftarrow> rd cmd 0;
          c1 \<leftarrow> (if c0 = 0 then Some 0 else rd cmd 1);
          c2 \<leftarrow> (if c1 = 0 then Some 0 else rd cmd 2);
          nu \<leftarrow> cmd_is cmd ''set nu'';
          rnu \<leftarrow> cmd_is cmd ''set rnu'';
          nonu \<leftarrow> cmd_is cmd ''set nonu'';
          nornu \<leftarrow> cmd_is cmd ''set nornu'';
          noh \<leftarrow> cmd_is cmd ''noh'';
          nohl \<leftarrow> cmd_is cmd ''nohlsearch'';
          help \<leftarrow> cmd_is cmd ''help'';
          if nu then vi_set_msg (cstring []) (s\<lparr>vi_show_nu := True, vi_show_rnu := False\<rparr>)
          else if rnu then vi_set_msg (cstring []) (s\<lparr>vi_show_nu := False, vi_show_rnu := True\<rparr>)
          else if nonu \<or> nornu then vi_set_msg (cstring []) (s\<lparr>vi_show_nu := False, vi_show_rnu := False\<rparr>)
          else if noh \<or> nohl then vi_set_msg (cstring []) (s\<lparr>vi_search_highlight := False\<rparr>)
          else if c0 = 115 \<and> c1 = 47 then cmd_subst cmd 2 False s
          else if c0 = 37 \<and> c1 = 115 \<and> c2 = 47 then cmd_subst cmd 3 True s
          else if c0 = 62 \<and> c1 = 62 then do { s1 \<leftarrow> vi_indent 1 s; vi_set_msg (cstring []) s1 }
          else if c0 = 60 \<and> c1 = 60 then do { s1 \<leftarrow> vi_indent (- 1) s; vi_set_msg (cstring []) s1 }
          else if help then vi_set_msg (cstring '':w :q :wq :x :! :e f :r f :%s//g :s// :set nu/rnu :noh :d :>> :<<'') s
          else vi_set_msg (cstring ''Not an editor command'') s }"

definition vi_exec_cmd :: "u8 list \<Rightarrow> u8 list \<Rightarrow> vi_st \<Rightarrow> vfs_st \<Rightarrow> (vi_st \<times> vfs_st) option" where
  "vi_exec_cmd cwd cmd s v =
     do { w \<leftarrow> cmd_is cmd ''w'';
          q \<leftarrow> cmd_is cmd ''q'';
          qq \<leftarrow> cmd_is cmd ''q!'';
          wq \<leftarrow> cmd_is cmd ''wq'';
          wqq \<leftarrow> cmd_is cmd ''wq!'';
          x \<leftarrow> cmd_is cmd ''x'';
          c0 \<leftarrow> rd cmd 0;
          c1 \<leftarrow> (if c0 = 0 then Some 0 else rd cmd 1);
          if w then do { (r, s1, v1) \<leftarrow> vi_save_file (vi_fname s) s v; Some (s1, v1) }
          else if q then
            (if vi_modified s then do { s1 \<leftarrow> vi_set_msg (cstring ''No write since last change (add ! to override)'') s; Some (s1, v) }
             else Some (s\<lparr>vi_done := True\<rparr>, v))
          else if qq then Some (s\<lparr>vi_done := True\<rparr>, v)
          else if wq \<or> wqq \<or> x then do {
            (r, s1, v1) \<leftarrow> vi_save_file (vi_fname s) s v;
            Some (if r = 0 then s1\<lparr>vi_done := True\<rparr> else s1, v1) }
          else if c0 = 101 \<and> c1 = 32 then cmd_edit cwd cmd s v
          else if c0 = 114 \<and> (c1 = 32 \<or> c1 = 33) then cmd_read cmd s v
          else do { s1 \<leftarrow> exec_plain cmd s; Some (s1, v) } }"

section \<open>The screen\<close>

fun draw_colored :: "(nat \<Rightarrow> (u8 \<times> u8) option) \<Rightarrow> nat \<Rightarrow> nat \<Rightarrow> nat \<Rightarrow> term_state \<Rightarrow> term_state option" where
  "draw_colored f y x 0 t = Some t"
| "draw_colored f y x (Suc n) t =
     do { (c, color) \<leftarrow> f x; t1 \<leftarrow> term_putch_at c color x y t; draw_colored f y (Suc x) n t1 }"

definition in_selection :: "vi_st \<Rightarrow> int \<Rightarrow> int \<Rightarrow> bool" where
  "in_selection s lineno ci =
     (if vi_vis_type s \<noteq> VIS_NONE \<and> vi_mode s = VI_M_VIS then
        (let up = vi_vis_start_row s < vi_row s;
             vsr = (if up then vi_vis_start_row s else vi_row s); ver = (if up then vi_row s else vi_vis_start_row s);
             vsc = int (if up then vi_vis_start_col s else vi_col s); vec = int (if up then vi_col s else vi_vis_start_col s) in
         if vi_vis_type s = VIS_LINE then vsr \<le> lineno \<and> lineno \<le> ver
         else if vsr < lineno \<and> lineno < ver then True
         else if lineno = vsr \<and> lineno = ver then vsc \<le> ci \<and> ci \<le> vec
         else if lineno = vsr then vsc \<le> ci
         else if lineno = ver then ci \<le> vec
         else False)
      else False)"

definition vi_cell :: "vi_st \<Rightarrow> int \<Rightarrow> u8 list \<Rightarrow> nat \<Rightarrow> nat \<Rightarrow> (u8 \<times> u8) option" where
  "vi_cell s lineno line gnu_w x =
     do { let ci = vi_scroll_x s + (int x - int gnu_w);
          ch \<leftarrow> (if ci < int VI_MAX_COL \<and> 0 \<le> ci then do { c \<leftarrow> rdi line ci; Some (if c \<noteq> 0 then c else 32) } else Some 32);
          if in_selection s lineno ci then Some (ch, vga_entry_color 0 11)
          else do {
            hl \<leftarrow> (if vi_search_highlight s \<and> 0 < vi_search_len s \<and> 0 \<le> ci then do {
                     ll \<leftarrow> strlen line;
                     if ci \<le> int ll - int (vi_search_len s) then do {
                       k \<leftarrow> strncmp (drop (nat ci) line) (vi_search_pat s) (vi_search_len s); Some (k = 0) }
                     else Some False }
                   else Some False);
            Some (ch, if hl then vga_entry_color 0 14 else vga_entry_color 7 0) } }"

definition line_number :: "vi_st \<Rightarrow> int \<Rightarrow> u8 list option" where
  "line_number s lineno =
     do { let n0 = (if vi_show_nu s then lineno + 1
                    else if 0 < vi_row s - lineno then vi_row s - lineno else lineno - vi_row s + 1);
          let n = (if 9999 < n0 then 9999 else n0);
          (b, k) \<leftarrow> snprintf (replicate 5 0) 5 (cstring ''%4d'') [VInt (of_int n)];
          Some b }"

definition vi_draw_row :: "vi_st \<Rightarrow> nat \<Rightarrow> nat \<Rightarrow> nat \<Rightarrow> term_state \<Rightarrow> term_state option" where
  "vi_draw_row s gnu_w r w t =
     (let lineno = vi_scroll s + int r; tilde_color = vga_entry_color 8 0 in
      if vi_lcount s \<le> lineno then do {
        t1 \<leftarrow> term_putch_at 126 tilde_color 0 r t;
        draw_cells (\<lambda>x. Some 32) tilde_color r 1 (w - 1) t1 }
      else do {
        t1 \<leftarrow> (if 0 < gnu_w then do { b \<leftarrow> line_number s lineno; draw_cells (rd b) (vga_entry_color 8 0) r 0 gnu_w t } else Some t);
        line \<leftarrow> vi_at s lineno;
        draw_colored (vi_cell s lineno line gnu_w) r gnu_w (w - gnu_w) t1 })"

fun vi_draw_rows :: "vi_st \<Rightarrow> nat \<Rightarrow> nat \<Rightarrow> nat \<Rightarrow> nat \<Rightarrow> term_state \<Rightarrow> term_state option" where
  "vi_draw_rows s gnu_w r 0 w t = Some t"
| "vi_draw_rows s gnu_w r (Suc n) w t = do { t1 \<leftarrow> vi_draw_row s gnu_w r w t; vi_draw_rows s gnu_w (Suc r) n w t1 }"

text \<open>What the last row shows: a prompt with what has been typed, a message, or the state of the editor.\<close>

definition prompt_bar :: "u8 \<Rightarrow> u8 list \<Rightarrow> nat \<Rightarrow> int \<Rightarrow> u8 list option" where
  "prompt_bar c typed n w =
     do { b1 \<leftarrow> wr (replicate 128 0) 0 c;
          let k = (if int n < w - 2 then int n else w - 2);
          b2 \<leftarrow> memcpy b1 1 typed 0 (nat k);
          if 1 + k < 0 then None else wr b2 (nat (1 + k)) 0 }"

definition state_bar :: "vi_st \<Rightarrow> u8 list option" where
  "state_bar s =
     do { let mode_str = (if vi_mode s = VI_M_INS then ''-- INSERT --''
                          else if vi_mode s = VI_M_VIS then (if vi_vis_type s = VIS_LINE then ''-- V-LINE --'' else ''-- VISUAL --'')
                          else ''-- NORMAL --'');
          f1 \<leftarrow> (if vi_modified s then strcat (replicate 16 0) (cstring ''+'') else Some (replicate 16 0));
          f2 \<leftarrow> (if vi_show_nu s then strcat f1 (cstring ''nu '') else Some f1);
          f3 \<leftarrow> (if vi_show_rnu s then strcat f2 (cstring ''rnu '') else Some f2);
          (b, n) \<leftarrow> snprintf (replicate 128 0) 128 (cstring ''%s  [Ln %d, Col %d]%s  %s'')
            [VStr (vi_fname s), VInt (of_int (vi_row s + 1)), VInt (of_nat (vi_col s + 1)), VStr f3, VStr (cstring mode_str)];
          Some b }"

definition vi_bar :: "vi_st \<Rightarrow> int \<Rightarrow> u8 list option" where
  "vi_bar s w =
     (if vi_mode s = VI_M_CMD then prompt_bar 58 (vi_cmd s) (vi_cmd_len s) w
      else if vi_mode s = VI_M_SEARCH then
        prompt_bar (if 0 < vi_search_dir s then 47 else 63) (vi_search_prompt s) (vi_search_prompt_len s) w
      else do { c \<leftarrow> rd (vi_msg s) 0; if c \<noteq> 0 then Some (vi_msg s) else state_bar s })"

definition vi_place_cursor :: "vi_st \<Rightarrow> nat \<Rightarrow> term_state \<Rightarrow> term_state" where
  "vi_place_cursor s gnu_w t =
     (let w = int (term_width t); h = int (term_height t); g = int gnu_w;
          cx0 = int (vi_col s) - vi_scroll_x s + g; cy0 = vi_row s - vi_scroll s;
          cx1 = (if cx0 < g then g else cx0); cx2 = (if w \<le> cx1 then w - 1 else cx1); cx = (if 127 < cx2 then 127 else cx2);
          cy1 = (if cy0 < 0 then 0 else cy0); cy = (if h - 1 \<le> cy1 then h - 1 else cy1) in
      update_cursor (nat cx) (nat cy) t)"

definition vi_draw :: "vi_st \<Rightarrow> term_state \<Rightarrow> term_state option" where
  "vi_draw s t =
     do { t0 \<leftarrow> term_clear t;
          let w = term_width t0; let h = term_height t0; let bar_color = vga_entry_color 0 7;
          let gnu_w = (if vi_show_nu s \<or> vi_show_rnu s then 4 else 0);
          t1 \<leftarrow> vi_draw_rows s gnu_w 0 (h - 1) w t0;
          t2 \<leftarrow> draw_cells (\<lambda>x. Some 32) bar_color (h - 1) 0 w t1;
          bar \<leftarrow> vi_bar s (int w);
          t3 \<leftarrow> draw_string bar bar_color (h - 1) 0 w t2;
          Some (vi_place_cursor s gnu_w t3) }"

section \<open>Keys\<close>

definition vi_event_step :: "kbd_state \<Rightarrow> int option \<times> kbd_state" where
  "vi_event_step k =
     (if ctrl_char k \<noteq> 0 then (Some (EV_CTRL (uint (ctrl_char k))), k\<lparr>ctrl_char := 0, in_read := 0\<rparr>)
      else if cancel_input k \<noteq> 0 then (Some EV_CANCEL, k\<lparr>cancel_input := 0, in_read := 0\<rparr>)
      else if do_clear_screen k \<noteq> 0 then (Some EV_REDRAW, k\<lparr>do_clear_screen := 0\<rparr>)
      else if in_read k = 1 \<and> nav_key k \<noteq> 0 then (Some (EV_NAV (sint (nav_key k))), k\<lparr>nav_key := 0, in_read := 0\<rparr>)
      else if in_read k = 1 \<and> read_key k \<noteq> 0 then (Some (uint (read_key k)), k\<lparr>read_key := 0, in_read := 0\<rparr>)
      else if in_read k = 1 \<and> nav_key k = 0 then (Some EV_ESC, k\<lparr>in_read := 0\<rparr>)
      else (None, k))"

definition vi_move :: "term_state \<Rightarrow> int \<Rightarrow> vi_st \<Rightarrow> vi_st option" where
  "vi_move t dir s =
     (if dir = 1 then (if 0 < vi_row s then vi_clamp t (s\<lparr>vi_row := vi_row s - 1\<rparr>) else Some s)
      else if dir = 2 then (if vi_row s < vi_lcount s - 1 then vi_clamp t (s\<lparr>vi_row := vi_row s + 1\<rparr>) else Some s)
      else if dir = 3 then
        (if 0 < vi_col s then vi_clamp t (s\<lparr>vi_col := vi_col s - 1\<rparr>)
         else if 0 < vi_row s then do { len \<leftarrow> vi_llen s (vi_row s - 1); Some (s\<lparr>vi_row := vi_row s - 1, vi_col := len\<rparr>) }
         else Some s)
      else if dir = 4 then do {
        len \<leftarrow> vi_llen s (vi_row s);
        if vi_col s < len then vi_clamp t (s\<lparr>vi_col := vi_col s + 1\<rparr>)
        else Some (if vi_row s < vi_lcount s - 1 then s\<lparr>vi_row := vi_row s + 1, vi_col := 0\<rparr> else s) }
      else Some s)"

definition vi_enter_insert :: "int \<Rightarrow> vi_st \<Rightarrow> vi_st option" where
  "vi_enter_insert kind s =
     do { s1 \<leftarrow> (if kind = key CHR ''i'' then Some (s\<lparr>vi_mode := VI_M_INS\<rparr>)
                else if kind = key CHR ''a'' then do {
                  len \<leftarrow> vi_llen s (vi_row s);
                  Some ((if vi_col s < len then s\<lparr>vi_col := vi_col s + 1\<rparr> else s)\<lparr>vi_mode := VI_M_INS\<rparr>) }
                else if kind = key CHR ''I'' then do { s1 \<leftarrow> move_to_indent s; Some (s1\<lparr>vi_mode := VI_M_INS\<rparr>) }
                else if kind = key CHR ''A'' then do { len \<leftarrow> vi_llen s (vi_row s); Some (s\<lparr>vi_col := len, vi_mode := VI_M_INS\<rparr>) }
                else if kind = key CHR ''o'' then do { s1 \<leftarrow> vi_open_line False s; Some (s1\<lparr>vi_mode := VI_M_INS\<rparr>) }
                else if kind = key CHR ''O'' then do { s1 \<leftarrow> vi_open_line True s; Some (s1\<lparr>vi_mode := VI_M_INS\<rparr>) }
                else Some s);
          vi_no_msg s1 }"

text \<open>The key after an operator.\<close>

definition norm_op_key :: "term_state \<Rightarrow> int \<Rightarrow> vi_st \<Rightarrow> vi_st option" where
  "norm_op_key t ev s0 =
     (let p = vi_op s0; s = s0\<lparr>vi_op_pending := False, vi_op := OP_NONE\<rparr> in
      if p = OP_DELETE \<and> ev = key CHR ''d'' then do { s1 \<leftarrow> vi_delete_line s; vi_clamp t s1 }
      else if p = OP_YANK \<and> ev = key CHR ''y'' then do {
        line \<leftarrow> vi_at s (vi_row s);
        len \<leftarrow> strlen line;
        let ll = (if VI_YANK_MAX \<le> len then VI_YANK_MAX - 1 else len);
        tmp \<leftarrow> memcpy (replicate VI_YANK_MAX 0) 0 line 0 ll;
        tmp1 \<leftarrow> wr tmp ll 0;
        s1 \<leftarrow> vi_yank_text tmp1 0 ll True s;
        vi_set_msg (cstring ''1 line yanked'') s1 }
      else if p = OP_CHANGE \<and> ev = key CHR ''c'' then do {
        s1 \<leftarrow> vi_save_undo s;
        s2 \<leftarrow> vi_clear_row (vi_row s1) s1;
        let n = (if vi_row s2 + 1 < 1 then 1 else vi_row s2 + 1);
        vi_no_msg (s2\<lparr>vi_col := 0, vi_lcount := n, vi_row := (if n \<le> vi_row s2 then n - 1 else vi_row s2), vi_modified := True,
          vi_mode := VI_M_INS\<rparr>) }
      else if ev \<in> set (map key ''wbe$0^hl'') then vi_apply_op_motion t p False ev s
      else if ev \<in> set (map key ''jkGHML'') then vi_apply_op_motion t p True ev s
      else Some s)"

text \<open>The key after \<open>r\<close>, \<open>g\<close>, \<open>z\<close>, \<open>f\<close>, \<open>>\<close> or \<open><\<close>.\<close>

definition norm_pending_key :: "term_state \<Rightarrow> int \<Rightarrow> vi_st \<Rightarrow> vi_st option" where
  "norm_pending_key t ev s0 =
     (let p = vi_pending s0; s = s0\<lparr>vi_pending := 0\<rparr> in
      if p = key CHR ''r'' then
        (if 32 \<le> ev \<and> ev < 127 \<and> ev \<noteq> 10 then do {
           s1 \<leftarrow> vi_save_undo s;
           line \<leftarrow> vi_at s1 (vi_row s1);
           l1 \<leftarrow> wr line (vi_col s1) (of_int ev);
           Some ((vi_put (vi_row s1) l1 s1)\<lparr>vi_modified := True\<rparr>) }
         else Some s)
      else if p = key CHR ''g'' \<and> ev = key CHR ''g'' then Some (s\<lparr>vi_row := 0, vi_col := 0\<rparr>)
      else if p = key CHR ''z'' then
        (let target = (if ev = key CHR ''z'' then vi_row s - half_screen t
                       else if ev = key CHR ''t'' then vi_scroll s
                       else if ev = key CHR ''b'' then vi_scroll s + int (term_height t) - 3
                       else if ev = key CHR ''m'' then vi_scroll s + half_screen t
                       else vi_row s);
             target1 = (if target < 0 then 0 else target) in
         Some (s\<lparr>vi_scroll := (if vi_lcount s - 1 < target1 then vi_lcount s - 1 else target1)\<rparr>))
      else if p = key CHR ''f'' then do {
        line \<leftarrow> vi_at s (vi_row s);
        len \<leftarrow> strlen line;
        c \<leftarrow> scan_while (\<lambda>x. x \<noteq> of_int ev) line len (vi_col s + 1);
        Some (if c < len then s\<lparr>vi_col := c\<rparr> else s) }
      else if p = key CHR ''>'' \<and> ev = key CHR ''>'' then vi_indent 1 s
      else if p = key CHR ''<'' \<and> ev = key CHR ''<'' then vi_indent (- 1) s
      else Some s)"

text \<open>The motions that both the normal and the visual mode know; \<open>None\<close> is inside when the key is another.\<close>

definition motion_key :: "term_state \<Rightarrow> int \<Rightarrow> vi_st \<Rightarrow> vi_st option option" where
  "motion_key t ev s =
     (if EV_NAV 1 \<le> ev \<and> ev \<le> EV_NAV 4 then map_option Some (vi_move t (and ev 255) s)
      else if ev = key CHR ''h'' \<or> ev = 8 then map_option Some (vi_move t 3 s)
      else if ev = key CHR ''j'' then map_option Some (vi_move t 2 s)
      else if ev = key CHR ''k'' then map_option Some (vi_move t 1 s)
      else if ev = key CHR ''l'' \<or> ev = 32 then map_option Some (vi_move t 4 s)
      else if ev = key CHR ''0'' then Some (Some (s\<lparr>vi_col := 0\<rparr>))
      else if ev = key CHR ''^'' then map_option Some (move_to_indent s)
      else if ev = key CHR ''$'' then map_option Some (move_to_eol s)
      else if ev = key CHR ''w'' then map_option Some (vi_word_fwd s)
      else if ev = key CHR ''b'' then map_option Some (vi_word_back s)
      else if ev = key CHR ''G'' then Some (Some (s\<lparr>vi_row := vi_lcount s - 1, vi_col := 0\<rparr>))
      else if ev = key CHR ''H'' then Some (Some (s\<lparr>vi_row := vi_scroll s, vi_col := 0\<rparr>))
      else if ev = key CHR ''M'' then Some (Some (move_to_row (vi_scroll s + half_screen t) s))
      else if ev = key CHR ''L'' then Some (Some (move_to_row (vi_scroll s + int (term_height t) - 3) s))
      else Some None)"

text \<open>The keys of the normal mode that change the text.\<close>

definition back_in_line :: "vi_st \<Rightarrow> vi_st option" where
  "back_in_line s = do { len \<leftarrow> vi_llen s (vi_row s); Some (if len \<le> vi_col s \<and> 0 < vi_col s then s\<lparr>vi_col := vi_col s - 1\<rparr> else s) }"

definition norm_edit_key :: "int \<Rightarrow> vi_st \<Rightarrow> vi_st option option" where
  "norm_edit_key ev s =
     (if ev = key CHR ''x'' then map_option Some (do { s1 \<leftarrow> vi_save_undo s; s2 \<leftarrow> vi_delete_char s1; back_in_line s2 })
      else if ev = key CHR ''X'' then
        map_option Some (if 0 < vi_col s then do { s1 \<leftarrow> vi_save_undo s; vi_delete_char (s1\<lparr>vi_col := vi_col s1 - 1\<rparr>) } else Some s)
      else if ev = key CHR ''D'' then map_option Some (do { s1 \<leftarrow> vi_save_undo s; s2 \<leftarrow> vi_delete_to_eol s1; back_in_line s2 })
      else if ev = key CHR ''C'' then
        map_option Some (do { s1 \<leftarrow> vi_save_undo s; s2 \<leftarrow> vi_delete_to_eol s1; vi_no_msg (s2\<lparr>vi_mode := VI_M_INS\<rparr>) })
      else if ev = key CHR ''S'' then
        map_option Some (do {
          s1 \<leftarrow> vi_save_undo s;
          s2 \<leftarrow> vi_clear_row (vi_row s1) s1;
          vi_no_msg (s2\<lparr>vi_col := 0, vi_modified := True, vi_mode := VI_M_INS\<rparr>) })
      else if ev = key CHR ''J'' then map_option Some (vi_join_lines s)
      else if ev = key CHR ''p'' then map_option Some (vi_paste_after s)
      else if ev = key CHR ''P'' then map_option Some (vi_paste_before s)
      else if ev = key CHR ''~'' then map_option Some (vi_toggle_case s)
      else if ev = key CHR ''u'' then map_option Some (vi_do_undo s)
      else if ev = key CHR ''U'' then map_option Some (vi_do_redo s)
      else if ev = key CHR ''.'' then
        map_option Some (
          if \<not> vi_dot_valid s then Some s
          else if vi_dot_op s = OP_DELETE \<and> vi_dot_linewise s then vi_delete_line s
          else if vi_dot_op s = OP_CHANGE then do {
            s1 \<leftarrow> vi_clear_row (vi_row s) s; Some (s1\<lparr>vi_col := 0, vi_modified := True, vi_mode := VI_M_INS\<rparr>) }
          else Some s)
      else Some None)"

definition start_prompt :: "vi_st \<Rightarrow> vi_st option" where
  "start_prompt s = do { b \<leftarrow> bzero (vi_cmd s) 0 VI_CMD_SZ; vi_no_msg (s\<lparr>vi_mode := VI_M_CMD, vi_cmd_len := 0, vi_cmd := b\<rparr>) }"

definition start_search :: "int \<Rightarrow> vi_st \<Rightarrow> vi_st option" where
  "start_search dir s =
     do { b \<leftarrow> bzero (vi_search_prompt s) 0 VI_SEARCH_SZ;
          vi_no_msg (s\<lparr>vi_mode := VI_M_SEARCH, vi_search_dir := dir, vi_search_prompt_len := 0, vi_search_prompt := b\<rparr>) }"

definition norm_other_key :: "int \<Rightarrow> vi_st \<Rightarrow> vi_st option" where
  "norm_other_key ev s =
     (if ev = key CHR ''e'' then move_end_of_word s
      else if ev \<in> {OP_YANK, OP_DELETE, OP_CHANGE} then Some (s\<lparr>vi_op := ev, vi_op_linewise := False, vi_op_pending := True\<rparr>)
      else if ev = 10 then Some (if vi_row s < vi_lcount s - 1 then s\<lparr>vi_row := vi_row s + 1, vi_col := 0\<rparr> else s)
      else if ev \<in> set (map key ''iaIAoO'') then
        vi_enter_insert ev (s\<lparr>vi_dot_op := OP_CHANGE, vi_dot_linewise := ev \<in> set (map key ''oOS''), vi_dot_valid := True\<rparr>)
      else if ev = key CHR ''v'' then
        vi_no_msg (s\<lparr>vi_vis_type := VIS_CHAR, vi_vis_start_row := vi_row s, vi_vis_start_col := vi_col s, vi_mode := VI_M_VIS\<rparr>)
      else if ev = key CHR ''V'' then
        vi_no_msg (s\<lparr>vi_vis_type := VIS_LINE, vi_vis_start_row := vi_row s, vi_vis_start_col := 0, vi_col := 0, vi_mode := VI_M_VIS\<rparr>)
      else if ev = key CHR '':'' then start_prompt s
      else if ev = key CHR ''/'' then start_search 1 s
      else if ev = key CHR ''?'' then start_search (- 1) s
      else if ev = key CHR ''n'' then vi_search_next s
      else if ev = key CHR ''N'' then vi_search_prev s
      else if ev = key CHR ''%'' then vi_move_to_matching s
      else if ev = key CHR ''{'' then vi_move_to_paragraph False s
      else if ev = key CHR ''}'' then vi_move_to_paragraph True s
      else if ev \<in> set (map key ''fzgr><'') then Some (s\<lparr>vi_pending := ev\<rparr>)
      else Some s)"

definition vi_norm_key :: "term_state \<Rightarrow> int \<Rightarrow> vi_st \<Rightarrow> vi_st option" where
  "vi_norm_key t ev s =
     (if ev = EV_CANCEL then Some s
      else if vi_op_pending s then norm_op_key t ev s
      else if vi_pending s \<noteq> 0 then norm_pending_key t ev s
      else do {
        m \<leftarrow> motion_key t ev s;
        case m of Some s1 \<Rightarrow> Some s1
        | None \<Rightarrow> do {
            d \<leftarrow> norm_edit_key ev s;
            case d of Some s1 \<Rightarrow> Some s1 | None \<Rightarrow> norm_other_key ev s } })"

definition vi_cmd_key :: "u8 list \<Rightarrow> int \<Rightarrow> vi_st \<Rightarrow> vfs_st \<Rightarrow> (vi_st \<times> vfs_st) option" where
  "vi_cmd_key cwd ev s v =
     (if ev = EV_ESC \<or> ev = EV_CANCEL then do { s1 \<leftarrow> vi_no_msg (s\<lparr>vi_mode := VI_M_NORM\<rparr>); Some (s1, v) }
      else if ev = 8 then
        (if 0 < vi_cmd_len s then do { b \<leftarrow> wr (vi_cmd s) (vi_cmd_len s - 1) 0; Some (s\<lparr>vi_cmd := b, vi_cmd_len := vi_cmd_len s - 1\<rparr>, v) }
         else Some (s, v))
      else if ev = 10 then do {
        b \<leftarrow> wr (vi_cmd s) (vi_cmd_len s) 0;
        (s1, v1) \<leftarrow> vi_exec_cmd cwd b (s\<lparr>vi_cmd := b\<rparr>) v;
        Some (s1\<lparr>vi_mode := VI_M_NORM\<rparr>, v1) }
      else if 32 \<le> ev \<and> ev < 127 \<and> ev \<noteq> 58 \<and> vi_cmd_len s < VI_CMD_SZ - 1 then do {
        b \<leftarrow> wr (vi_cmd s) (vi_cmd_len s) (of_int ev);
        Some (s\<lparr>vi_cmd := b, vi_cmd_len := vi_cmd_len s + 1\<rparr>, v) }
      else Some (s, v))"

definition vi_search_key :: "int \<Rightarrow> vi_st \<Rightarrow> vi_st option" where
  "vi_search_key ev s =
     (if ev = EV_ESC \<or> ev = EV_CANCEL then vi_no_msg (s\<lparr>vi_mode := VI_M_NORM\<rparr>)
      else if ev = 8 then
        (if 0 < vi_search_prompt_len s then do {
           b \<leftarrow> wr (vi_search_prompt s) (vi_search_prompt_len s - 1) 0;
           Some (s\<lparr>vi_search_prompt := b, vi_search_prompt_len := vi_search_prompt_len s - 1\<rparr>) }
         else Some s)
      else if ev = 10 then do {
        b \<leftarrow> wr (vi_search_prompt s) (vi_search_prompt_len s) 0;
        pat \<leftarrow> strncpy (vi_search_pat s) b (VI_SEARCH_SZ - 1);
        pat1 \<leftarrow> wr pat (VI_SEARCH_SZ - 1) 0;
        s1 \<leftarrow> vi_search_next (s\<lparr>vi_search_prompt := b, vi_search_pat := pat1, vi_search_len := vi_search_prompt_len s, vi_search_highlight := True\<rparr>);
        Some (s1\<lparr>vi_mode := VI_M_NORM\<rparr>) }
      else if 32 \<le> ev \<and> ev < 127 \<and> vi_search_prompt_len s < VI_SEARCH_SZ - 1 then do {
        b \<leftarrow> wr (vi_search_prompt s) (vi_search_prompt_len s) (of_int ev);
        Some (s\<lparr>vi_search_prompt := b, vi_search_prompt_len := vi_search_prompt_len s + 1\<rparr>) }
      else Some s)"

definition vi_visual_key :: "term_state \<Rightarrow> int \<Rightarrow> vi_st \<Rightarrow> vi_st option" where
  "vi_visual_key t ev s =
     (if ev = EV_ESC \<or> ev = EV_CANCEL then Some (s\<lparr>vi_vis_type := VIS_NONE, vi_mode := VI_M_NORM\<rparr>)
      else do {
        m \<leftarrow> motion_key t ev s;
        case m of Some s1 \<Rightarrow> Some s1
        | None \<Rightarrow>
            if ev = key CHR ''d'' \<or> ev = key CHR ''x'' then vi_visual_delete s
            else if ev = key CHR ''y'' then do { s1 \<leftarrow> vi_visual_yank s; Some (s1\<lparr>vi_vis_type := VIS_NONE, vi_mode := VI_M_NORM\<rparr>) }
            else if ev = key CHR ''c'' then do { s1 \<leftarrow> vi_visual_delete s; Some (s1\<lparr>vi_mode := VI_M_INS\<rparr>) }
            else if ev = key CHR ''p'' then do { s1 \<leftarrow> vi_visual_delete s; vi_paste_before s1 }
            else if ev = key CHR ''V'' then
              Some (if vi_vis_type s = VIS_LINE then s\<lparr>vi_vis_type := VIS_CHAR\<rparr> else s\<lparr>vi_vis_type := VIS_LINE, vi_col := 0\<rparr>)
            else if ev = key CHR ''v'' then Some (s\<lparr>vi_vis_type := (if vi_vis_type s = VIS_CHAR then VIS_LINE else VIS_CHAR)\<rparr>)
            else if ev = key CHR ''o'' then
              Some (s\<lparr>vi_vis_start_row := vi_row s, vi_vis_start_col := vi_col s, vi_row := vi_vis_start_row s, vi_col := vi_vis_start_col s\<rparr>)
            else if ev = key CHR ''~'' then vi_toggle_case s
            else if ev = key CHR '':'' then start_prompt (s\<lparr>vi_vis_type := VIS_NONE\<rparr>)
            else Some s })"

text \<open>The insert mode, with the key that deletes the word before the cursor.\<close>

definition ins_delete_word :: "vi_st \<Rightarrow> vi_st option" where
  "ins_delete_word s =
     do { line \<leftarrow> vi_at s (vi_row s);
          len \<leftarrow> strlen line;
          if 0 < vi_col s then do {
            a \<leftarrow> back_at vi_is_blank line (vi_col s - 1);
            start \<leftarrow> back_before (\<lambda>x. \<not> vi_is_blank x) line a;
            l1 \<leftarrow> memmove_up line start (start + (vi_col s - start)) (Suc len - start) 0;
            Some ((vi_put (vi_row s) l1 s)\<lparr>vi_col := start, vi_modified := True\<rparr>) }
          else Some s }"

fun vi_insert_chars :: "u8 \<Rightarrow> nat \<Rightarrow> vi_st \<Rightarrow> vi_st option" where
  "vi_insert_chars c 0 s = Some s"
| "vi_insert_chars c (Suc n) s = do { s1 \<leftarrow> vi_insert_char c s; vi_insert_chars c n s1 }"

definition vi_ins_key :: "term_state \<Rightarrow> int \<Rightarrow> vi_st \<Rightarrow> vi_st option" where
  "vi_ins_key t ev s =
     (if ev = EV_ESC \<or> ev = EV_CANCEL then vi_clamp t (s\<lparr>vi_mode := VI_M_NORM, vi_col := vi_col s - 1\<rparr>)
      else if EV_NAV 1 \<le> ev \<and> ev \<le> EV_NAV 4 then vi_move t (and ev 255) s
      else if ev = EV_CTRL 114 then vi_do_redo s
      else if ev = EV_REDRAW then Some s
      else if ev = 8 then vi_backspace s
      else if ev = 10 then vi_newline s
      else if ev = 9 then vi_insert_chars 32 4 s
      else if ev = EV_CTRL 119 then ins_delete_word s
      else if 32 \<le> ev \<and> ev < 127 then vi_insert_char (of_int ev) s
      else Some s)"

section \<open>The command\<close>

record vi_sys =
  vi :: vi_st
  vi_scr :: term_state
  vi_files :: vfs_st

definition vi_key :: "u8 list \<Rightarrow> int \<Rightarrow> vi_sys \<Rightarrow> vi_sys option" where
  "vi_key cwd ev e =
     (if vi_mode (vi e) = VI_M_CMD then do { (s, v) \<leftarrow> vi_cmd_key cwd ev (vi e) (vi_files e); Some (e\<lparr>vi := s, vi_files := v\<rparr>) }
      else do {
        s \<leftarrow> (if vi_mode (vi e) = VI_M_SEARCH then vi_search_key ev (vi e)
              else if vi_mode (vi e) = VI_M_VIS then vi_visual_key (vi_scr e) ev (vi e)
              else if ev = EV_REDRAW then Some (vi e)
              else if vi_mode (vi e) = VI_M_INS then vi_ins_key (vi_scr e) ev (vi e)
              else vi_norm_key (vi_scr e) ev (vi e));
        Some (e\<lparr>vi := s\<rparr>) })"

text \<open>The loop; the flag says that the editor has ended, otherwise it waits for the next key.\<close>

fun vi_loop :: "u8 list \<Rightarrow> int list \<Rightarrow> vi_sys \<Rightarrow> (bool \<times> vi_sys) option" where
  "vi_loop cwd evs e =
     (if vi_done (vi e) then Some (True, e)
      else do {
        s \<leftarrow> vi_clamp (vi_scr e) (vi e);
        t \<leftarrow> vi_draw s (vi_scr e);
        let e1 = e\<lparr>vi := s, vi_scr := t\<rparr>;
        case evs of [] \<Rightarrow> Some (False, e1) | ev # rest \<Rightarrow> do { e2 \<leftarrow> vi_key cwd ev e1; vi_loop cwd rest e2 } })"

declare vi_loop.simps [simp del]

definition vi_start :: "u8 list \<Rightarrow> u8 list \<Rightarrow> vi_sys \<Rightarrow> vi_sys option" where
  "vi_start cwd arg e =
     do { let s0 = vi e;
          f \<leftarrow> vfs_cmd_resolve cwd (Some arg) (vi_fname s0) 128;
          f1 \<leftarrow> wr f 127 0;
          s1 \<leftarrow> vi_clear_row 0 s0;
          s2 \<leftarrow> vi_no_msg s1;
          (s3, v) \<leftarrow> vi_load_file arg
            (s2\<lparr>vi_fname := f1, vi_lcount := 1, vi_row := 0, vi_col := 0, vi_scroll := 0, vi_scroll_x := 0, vi_modified := False,
                vi_mode := VI_M_NORM, vi_done := False, vi_pending := 0, vi_op := OP_NONE, vi_op_pending := False,
                vi_vis_type := VIS_NONE, vi_search_len := 0, vi_search_highlight := False, vi_show_nu := False, vi_show_rnu := False,
                vi_undo_valid := False, vi_dot_valid := False\<rparr>) (vi_files e);
          s4 \<leftarrow> one_line_left s3;
          Some (e\<lparr>vi := s4, vi_files := v\<rparr>) }"

definition vi_usage :: "string list" where
  "vi_usage =
    [''Usage: vi <path>'',
     ''  NORMAL: h j k l 0 $ ^ w b e G H M L x X D C S J ~ u U .'',
     ''  OPERATORS: dd yy cc dw dy cw d$ y$ d0 y0 d^ y^ >><<'',
     ''  VISUAL: v V  y d c p x o ~'',
     ''  SEARCH: /pat ?pat n N  f<char> %%'',
     ''  INSERT: i a I A o O  Ctrl-w Ctrl-h'',
     ''  EX: :w :q :wq :x :!cmd :e file :r file'',
     ''       :%s/p/r/g :s// :set nu :set rnu :noh :d :>> :<<'',
     ''  SCROLL: zt zb zm zz  { }'']"

fun print_lines :: "string list \<Rightarrow> term_state \<Rightarrow> term_state option" where
  "print_lines [] t = Some t"
| "print_lines (l # ls) t = do { t1 \<leftarrow> printk (cstring (l @ [CHR 0x0A])) [] t; print_lines ls t1 }"

definition cmd_vi :: "u8 list \<Rightarrow> u8 list list \<Rightarrow> int list \<Rightarrow> vi_sys \<Rightarrow> (bool \<times> vi_sys) option" where
  "cmd_vi cwd argv evs e =
     (case argv of
        a0 # arg # args \<Rightarrow> do {
          e1 \<leftarrow> vi_start cwd arg e;
          (finished, e2) \<leftarrow> vi_loop cwd evs e1;
          if \<not> finished then Some (False, e2)
          else do { t \<leftarrow> term_clear (vi_scr e2); Some (True, e2\<lparr>vi_scr := update_cursor 0 0 (t\<lparr>t_row := 0, t_col := 0\<rparr>)\<rparr>) } }
      | _ \<Rightarrow> do { t \<leftarrow> print_lines vi_usage (vi_scr e); Some (True, e\<lparr>vi_scr := t\<rparr>) })"

end
