(* ===== verification/ViProps.thy ===== *)
theory ViProps
  imports ViCmd NanoProps
begin

text \<open>
  What the commands of \<open>vi\<close> do to the text: the insert mode implements the same contract as \<open>nano\<close>, searching finds the next
  occurrence, a change of one line can be undone, and substitution replaces every occurrence.  Some commands do not
  do what they are for, which is shown as well.
\<close>

section \<open>The text as a document\<close>

definition vi_wf :: "vi_st \<Rightarrow> bool" where
  "vi_wf s \<longleftrightarrow> rows_ok (vi_lines s) \<and> vi_lcount s \<le> 512 \<and> 0 \<le> vi_row s \<and> vi_row s < vi_lcount s \<and>
     vi_col s \<le> length (cstr (vi_lines s ! nat (vi_row s)))"

definition vi_doc :: "vi_st \<Rightarrow> doc" where
  "vi_doc s = \<lparr>doc_lines = texts (vi_lines s) (nat (vi_lcount s)), doc_row = nat (vi_row s), doc_col = vi_col s\<rparr>"

text \<open>The part of the state that the two editors have in common.\<close>

definition to_nano :: "vi_st \<Rightarrow> nano_st" where
  "to_nano s = \<lparr>nano_lines = vi_lines s, nano_lcount = nat (vi_lcount s), nano_row = nat (vi_row s), nano_col = vi_col s,
     nano_scroll = vi_scroll s, nano_scroll_x = vi_scroll_x s, nano_modified = vi_modified s, nano_fname = vi_fname s,
     nano_status = vi_status s\<rparr>"

definition of_nano :: "vi_st \<Rightarrow> nano_st \<Rightarrow> vi_st" where
  "of_nano s n = s\<lparr>vi_lines := nano_lines n, vi_lcount := int (nano_lcount n), vi_row := int (nano_row n), vi_col := nano_col n,
     vi_modified := nano_modified n\<rparr>"

lemma of_nano_wf: "vi_wf (of_nano s n) \<longleftrightarrow> nano_wf n"
  by (simp add: of_nano_def vi_wf_def nano_wf_def)

lemma to_nano_wf: "vi_wf s \<Longrightarrow> nano_wf (to_nano s)"
  by (auto simp: to_nano_def vi_wf_def nano_wf_def nat_less_iff)

lemma of_nano_doc: "vi_doc (of_nano s n) = nano_doc n"
  by (simp add: vi_doc_def nano_doc_def of_nano_def)

lemma to_nano_doc: "nano_doc (to_nano s) = vi_doc s"
  by (simp add: vi_doc_def nano_doc_def to_nano_def)

lemma of_to_nano: "vi_wf s \<Longrightarrow> of_nano s (to_nano s) = s"
  by (simp add: of_nano_def to_nano_def vi_wf_def)

lemma vi_row_ok:
  assumes "vi_wf s" and "0 \<le> r" and "r < vi_lcount s"
  shows "row_ok (vi_lines s ! nat r)" and "vi_at s r = Some (vi_lines s ! nat r)"
    and "vi_llen s r = Some (length (cstr (vi_lines s ! nat r)))" and "rd (vi_lines s) (nat r) = Some (vi_lines s ! nat r)"
proof -
  have "nat r < 512" using assms by (auto simp: vi_wf_def)
  then have r: "row_ok (vi_lines s ! nat r)" "rd (vi_lines s) (nat r) = Some (vi_lines s ! nat r)"
    using rows_ok_nth [of "vi_lines s" "nat r"] assms(1) by (auto simp: vi_wf_def)
  then show "row_ok (vi_lines s ! nat r)" "vi_at s r = Some (vi_lines s ! nat r)" "rd (vi_lines s) (nat r) = Some (vi_lines s ! nat r)"
    using assms(2) by (simp_all add: vi_at_def rdi_def)
  with r show "vi_llen s r = Some (length (cstr (vi_lines s ! nat r)))" by (simp add: vi_llen_def row_strlen)
qed

lemma vi_cur:
  assumes "vi_wf s"
  shows "row_ok (vi_lines s ! nat (vi_row s))" and "vi_at s (vi_row s) = Some (vi_lines s ! nat (vi_row s))"
    and "vi_llen s (vi_row s) = Some (length (cstr (vi_lines s ! nat (vi_row s))))"
    and "rd (vi_lines s) (nat (vi_row s)) = Some (vi_lines s ! nat (vi_row s))"
  using vi_row_ok [OF assms, of "vi_row s"] assms by (auto simp: vi_wf_def)

section \<open>Typing as in nano\<close>

lemma vi_insert_nano:
  assumes "vi_wf s"
  shows "vi_insert_char c s = map_option (of_nano s) (nano_insert_char c (to_nano s))"
proof -
  have "0 \<le> vi_row s" "0 \<le> vi_lcount s" using assms by (auto simp: vi_wf_def)
  then show ?thesis using vi_cur [OF assms]
    by (auto simp: vi_insert_char_def nano_insert_char_def to_nano_def of_nano_def vi_put_def NANO_MAX_COL_def split: bind_splits)
qed

lemma vi_backspace_nano:
  assumes "vi_wf s"
  shows "vi_backspace s = map_option (of_nano s) (nano_backspace (to_nano s))"
proof -
  have r: "0 \<le> vi_row s" "1 \<le> vi_lcount s" using assms by (auto simp: vi_wf_def)
  have p: "vi_llen s (vi_row s - 1) = nano_line_name_len (to_nano s) (nat (vi_row s) - 1)" if "0 < vi_row s"
    using that by (simp add: vi_llen_def vi_at_def rdi_def nano_line_name_len_def line_len_def to_nano_def nat_diff_distrib')
  show ?thesis
  proof (cases "0 < vi_col s \<or> vi_row s = 0")
    case True
    then show ?thesis using r vi_cur [OF assms]
      by (auto simp: vi_backspace_def nano_backspace_def to_nano_def of_nano_def vi_put_def split: bind_splits)
  next
    case False
    then show ?thesis using r vi_cur [OF assms] p
      by (auto simp: vi_backspace_def nano_backspace_def NANO_MAX_COL_def to_nano_def of_nano_def Let_def nat_diff_distrib' split: bind_splits)
  qed
qed

lemma vi_open_row_nat:
  assumes "0 \<le> r" and "r \<le> vi_lcount s"
  shows "vi_open_row r s = open_row (vi_lines s) (nat r) (nat (vi_lcount s))"
proof -
  have "vi_rows_down r s = rows_down (vi_lines s) (nat r) (nat (vi_lcount s) - nat r)"
    using assms by (auto simp: vi_rows_down_def nat_diff_distrib')
  then show ?thesis using assms by (simp add: vi_open_row_def open_row_def rdi_def NANO_MAX_COL_def)
qed

lemma vi_newline_nano:
  assumes "vi_wf s"
  shows "vi_newline s = map_option (of_nano s) (nano_newline (to_nano s))"
proof -
  have r: "0 \<le> vi_row s" "vi_row s < vi_lcount s" using assms by (auto simp: vi_wf_def)
  have "vi_open_row (vi_row s + 1) s = open_row (vi_lines s) (nat (vi_row s) + 1) (nat (vi_lcount s))"
    using vi_open_row_nat [of "vi_row s + 1" s] r by (simp add: nat_add_distrib)
  moreover have "nano_line_name_len (to_nano s) (nat (vi_row s)) = vi_llen s (vi_row s)"
    using r by (simp add: vi_llen_def vi_at_def rdi_def nano_line_name_len_def line_len_def to_nano_def)
  moreover have "NANO_MAX_LINES \<le> nat (vi_lcount s) \<longleftrightarrow> VI_MAX_LINES \<le> vi_lcount s" using r by (auto simp: NANO_MAX_LINES_def)
  ultimately show ?thesis using r
    by (auto simp: vi_newline_def nano_newline_def of_nano_def to_nano_def nat_add_distrib split: bind_splits)
qed

lemma vi_refines:
  assumes "vi_wf s" and "vf = map_option (of_nano s) nf" and "\<exists>n. nf = Some n \<and> nano_wf n \<and> nano_doc n = g (nano_doc (to_nano s))"
  shows "\<exists>s'. vf = Some s' \<and> vi_wf s' \<and> vi_doc s' = g (vi_doc s)"
  using assms by (auto simp: of_nano_wf of_nano_doc to_nano_doc)

interpretation vi_ed: text_editor vi_wf vi_doc vi_insert_char vi_backspace vi_newline
proof
  show "doc_ok (vi_doc s)" if "vi_wf s" for s
    using nano_doc_ok [OF to_nano_wf [OF that]] by (simp add: to_nano_doc)
  show "\<exists>s'. vi_insert_char c s = Some s' \<and> vi_wf s' \<and> vi_doc s' = doc_insert c (vi_doc s)" if "vi_wf s" "c \<noteq> 0" for s c
    by (rule vi_refines [where g = "doc_insert c", OF that(1) vi_insert_nano [OF that(1)] nano_insert_refines [OF to_nano_wf [OF that(1)] that(2)]])
  show "\<exists>s'. vi_backspace s = Some s' \<and> vi_wf s' \<and> vi_doc s' = doc_backspace (vi_doc s)" if "vi_wf s" for s
    by (rule vi_refines [where g = doc_backspace, OF that vi_backspace_nano [OF that] nano_backspace_refines [OF to_nano_wf [OF that]]])
  show "\<exists>s'. vi_newline s = Some s' \<and> vi_wf s' \<and> vi_doc s' = doc_newline (vi_doc s)" if "vi_wf s" for s
    by (rule vi_refines [where g = doc_newline, OF that vi_newline_nano [OF that] nano_newline_refines [OF to_nano_wf [OF that]]])
qed

text \<open>The keys that type and erase.\<close>

definition plain_key :: "int \<Rightarrow> bool" where
  "plain_key ev \<longleftrightarrow> (32 \<le> ev \<and> ev < 127) \<or> ev = 8 \<or> ev = 10"

lemma printable_word:
  assumes "32 \<le> ev" and "ev < 127"
  shows "(of_int ev :: u8) \<noteq> 0"
proof
  assume "(of_int ev :: u8) = 0"
  then have "uint (of_int ev :: u8) = 0" by simp
  then show False using assms by (simp add: uint_word_of_int_eq take_bit_eq_mod)
qed

lemma vi_ins_key_doc:
  assumes "vi_wf s" and "plain_key ev"
  shows "\<exists>s'. vi_ins_key t ev s = Some s' \<and> vi_wf s' \<and> vi_doc s' = doc_key ev (vi_doc s)"
proof -
  consider "ev = 8" | "ev = 10" | "32 \<le> ev" "ev < 127" using assms(2) by (auto simp: plain_key_def)
  then show ?thesis
  proof cases
    case 1
    then show ?thesis using vi_ed.backspace_refines [OF assms(1)] by (simp add: vi_ins_key_def doc_key_def EV_ESC_def EV_CANCEL_def EV_NAV_def EV_CTRL_def EV_REDRAW_def)
  next
    case 2
    then show ?thesis using vi_ed.newline_refines [OF assms(1)] by (simp add: vi_ins_key_def doc_key_def EV_ESC_def EV_CANCEL_def EV_NAV_def EV_CTRL_def EV_REDRAW_def)
  next
    case 3
    then show ?thesis using vi_ed.insert_refines [OF assms(1) printable_word [OF 3]]
      by (simp add: vi_ins_key_def doc_key_def EV_ESC_def EV_CANCEL_def EV_NAV_def EV_CTRL_def EV_REDRAW_def)
  qed
qed

lemma edit_key_doc:
  assumes "nano_wf n" and "plain_key ev"
  shows "\<exists>n'. edit_key t ev n = Some n' \<and> nano_wf n' \<and> nano_doc n' = doc_key ev (nano_doc n)"
proof -
  consider "ev = 8" | "ev = 10" | "32 \<le> ev" "ev < 127" using assms(2) by (auto simp: plain_key_def)
  then show ?thesis
  proof cases
    case 1
    then show ?thesis using nano_backspace_refines [OF assms(1)] by (simp add: edit_key_def doc_key_def EV_NAV_def)
  next
    case 2
    then show ?thesis using nano_newline_refines [OF assms(1)] by (simp add: edit_key_def doc_key_def EV_NAV_def)
  next
    case 3
    then show ?thesis using nano_insert_refines [OF assms(1) printable_word [OF 3]] by (simp add: edit_key_def doc_key_def EV_NAV_def)
  qed
qed

lemma run_fold:
  assumes "\<And>x s. good s \<Longrightarrow> x \<in> set xs \<Longrightarrow> \<exists>s'. f x s = Some s' \<and> good s' \<and> d s' = g x (d s)" and "good s"
  shows "\<exists>s'. run f xs s = Some s' \<and> good s' \<and> d s' = fold g xs (d s)"
  using assms
proof (induction xs arbitrary: s)
  case (Cons x xs)
  obtain s1 where s1: "f x s = Some s1" "good s1" "d s1 = g x (d s)" using Cons.prems(1) [of s x] Cons.prems(2) by auto
  have "\<exists>s'. run f xs s1 = Some s' \<and> good s' \<and> d s' = fold g xs (d s1)" by (rule Cons.IH) (use Cons.prems(1) s1(2) in auto)
  then show ?case using s1 by auto
qed simp

section \<open>Searching\<close>

type_synonym pos = "nat \<times> nat"

definition before :: "pos \<Rightarrow> pos \<Rightarrow> bool" where
  "before x y \<longleftrightarrow> fst x < fst y \<or> fst x = fst y \<and> snd x < snd y"

definition occurs :: "u8 list list \<Rightarrow> u8 list \<Rightarrow> pos \<Rightarrow> bool" where
  "occurs ls w x \<longleftrightarrow> fst x < length ls \<and> take (length w) (drop (snd x) (ls ! fst x)) = w"

lemma strncmp_within:
  assumes "n \<le> length a" and "n \<le> length b" and "0 \<notin> set (take n a)"
  shows "\<exists>k. strncmp a b n = Some k \<and> (k = 0 \<longleftrightarrow> take n a = take n b)"
proof -
  have "\<exists>k. strncmp_loop a b n i = Some k \<and> (k = 0 \<longleftrightarrow> drop i (take n a) = drop i (take n b))" if "i \<le> n" for i
    using that
  proof (induction "n - i" arbitrary: i)
    case (Suc j)
    then have i: "i < n" "i < length a" "i < length b" using assms by auto
    have "a ! i \<in> set (take n a)" using i by (auto simp: in_set_conv_nth intro!: exI [of _ i])
    then have z: "a ! i \<noteq> 0" using assms(3) by metis
    have d: "drop i (take n a) = a ! i # drop (Suc i) (take n a)" "drop i (take n b) = b ! i # drop (Suc i) (take n b)"
      using i by (simp_all add: Cons_nth_drop_Suc [symmetric])
    show ?case using Suc.hyps(1) [of "Suc i"] Suc.hyps(2) i z
      by (auto simp: strncmp_loop.simps [of a _ _ i] rd_in d word_uint_eq_iff)
  qed (simp add: strncmp_loop.simps)
  from this [of 0] show ?thesis by (simp add: strncmp_def)
qed

text \<open>One comparison of the search loops.\<close>

lemma search_test:
  assumes "row_ok l" and "c + n \<le> length (cstr l)" and "n \<le> length pat"
  shows "\<exists>k. strncmp (drop c l) pat n = Some k \<and> (k = 0 \<longleftrightarrow> take n (drop c (cstr l)) = take n pat)"
proof -
  obtain ys where l: "l = cstr l @ 0 # ys" "0 \<notin> set (cstr l)" using row_split [OF assms(1)] .
  have "take n (drop c (cstr l @ 0 # ys)) = take n (drop c (cstr l))" using assms(2) by simp
  then have t: "take n (drop c l) = take n (drop c (cstr l))" using l(1) by simp
  moreover have "0 \<notin> set (take n (drop c (cstr l)))" using l(2) by (meson in_set_dropD in_set_takeD)
  moreover have "n \<le> length (drop c l)" using assms(2) cstr_length [of l] assms(1) by (simp add: row_ok_def)
  ultimately show ?thesis using strncmp_within [of n "drop c l" pat] assms(3) by simp
qed

lemma short_no_match: "length xs < c + n \<Longrightarrow> 0 < n \<Longrightarrow> n \<le> length w \<Longrightarrow> take n (drop c xs) \<noteq> take n w"
  by (auto dest: arg_cong [of _ _ length])

lemma row_search_spec:
  assumes "row_ok l" and "0 < n" and "n \<le> length pat"
  shows "\<exists>m. row_search l (length (cstr l)) pat n c = Some m \<and>
    (case m of Some k \<Rightarrow> c \<le> k \<and> take n (drop k (cstr l)) = take n pat \<and> (\<forall>j. c \<le> j \<and> j < k \<longrightarrow> take n (drop j (cstr l)) \<noteq> take n pat)
     | None \<Rightarrow> \<forall>j \<ge> c. take n (drop j (cstr l)) \<noteq> take n pat)"
proof (induction "Suc (length (cstr l)) - c" arbitrary: c rule: less_induct)
  case less
  show ?case
  proof (cases "c + n \<le> length (cstr l)")
    case False
    then have "\<forall>j \<ge> c. take n (drop j (cstr l)) \<noteq> take n pat" using short_no_match [of "cstr l" _ n pat] assms(2,3) by auto
    moreover have "\<not> int c \<le> int (length (cstr l)) - int n" using False by simp
    ultimately show ?thesis by (subst row_search.simps) simp
  next
    case True
    obtain k where k: "strncmp (drop c l) pat n = Some k" "k = 0 \<longleftrightarrow> take n (drop c (cstr l)) = take n pat"
      using search_test [OF assms(1) True assms(3)] by blast
    have le: "int c \<le> int (length (cstr l)) - int n" using True by simp
    show ?thesis
    proof (cases "k = 0")
      case True
      then show ?thesis using k le by (subst row_search.simps) auto
    next
      case False
      have "Suc (length (cstr l)) - Suc c < Suc (length (cstr l)) - c" using \<open>c + n \<le> length (cstr l)\<close> by simp
      from less.hyps [OF this] obtain m where m: "row_search l (length (cstr l)) pat n (Suc c) = Some m"
        "case m of Some k \<Rightarrow> Suc c \<le> k \<and> take n (drop k (cstr l)) = take n pat \<and> (\<forall>j. Suc c \<le> j \<and> j < k \<longrightarrow> take n (drop j (cstr l)) \<noteq> take n pat)
         | None \<Rightarrow> \<forall>j \<ge> Suc c. take n (drop j (cstr l)) \<noteq> take n pat" by blast
      have "row_search l (length (cstr l)) pat n c = Some m" using k(1) False le m(1) by (subst row_search.simps) simp
      moreover have "j = c \<or> Suc c \<le> j" if "c \<le> j" for j using that by auto
      ultimately show ?thesis using m(2) k(2) False by (auto split: option.splits)
    qed
  qed
qed

text \<open>Positions from \<open>(r, c)\<close> on.\<close>

definition from_pos :: "pos \<Rightarrow> pos \<Rightarrow> bool" where
  "from_pos x y \<longleftrightarrow> \<not> before y x"

lemma search_rows_spec:
  assumes "vi_wf s" and "0 < n" and "n \<le> length pat" and "0 \<le> r"
  defines "hit \<equiv> \<lambda>x y. occurs (doc_lines (vi_doc s)) (take n pat) y \<and> from_pos x y"
  shows "\<exists>m. search_rows s pat n r c = Some m \<and>
    (case m of Some (a, b) \<Rightarrow> 0 \<le> a \<and> hit (nat r, c) (nat a, b) \<and> (\<forall>y. hit (nat r, c) y \<longrightarrow> \<not> before y (nat a, b))
     | None \<Rightarrow> \<forall>y. \<not> hit (nat r, c) y)"
  using assms(4)
proof (induction "nat (vi_lcount s - r)" arbitrary: r c rule: less_induct)
  case less
  have w: "rows_ok (vi_lines s)" "nat (vi_lcount s) \<le> 512" using assms(1) by (auto simp: vi_wf_def)
  have len: "length (doc_lines (vi_doc s)) = nat (vi_lcount s)" using w by (simp add: vi_doc_def)
  have wl: "length (take n pat) = n" using assms(3) by simp
  show ?case
  proof (cases "r < vi_lcount s")
    case False
    then have "\<not> hit (nat r, c) y" for y using len less.prems by (auto simp: hit_def occurs_def from_pos_def before_def)
    then show ?thesis using False by (subst search_rows.simps) simp
  next
    case True
    let ?l = "vi_lines s ! nat r"
    note ok = vi_row_ok [OF assms(1) less.prems True]
    have line: "doc_lines (vi_doc s) ! nat r = cstr ?l" using texts_nth [OF w, of "nat r"] True less.prems by (simp add: vi_doc_def)
    obtain m where m: "row_search ?l (length (cstr ?l)) pat n c = Some m"
      "case m of Some k \<Rightarrow> c \<le> k \<and> take n (drop k (cstr ?l)) = take n pat \<and> (\<forall>j. c \<le> j \<and> j < k \<longrightarrow> take n (drop j (cstr ?l)) \<noteq> take n pat)
       | None \<Rightarrow> \<forall>j \<ge> c. take n (drop j (cstr ?l)) \<noteq> take n pat"
      using row_search_spec [OF ok(1) assms(2,3)] by blast
    have row: "occurs (doc_lines (vi_doc s)) (take n pat) (nat r, j) \<longleftrightarrow> take n (drop j (cstr ?l)) = take n pat" for j
      using line len True less.prems wl by (auto simp: occurs_def)
    show ?thesis
    proof (cases m)
      case (Some k)
      then have "search_rows s pat n r c = Some (Some (r, k))" using ok m(1) True by (subst search_rows.simps) (simp add: row_strlen)
      moreover have "hit (nat r, c) (nat r, k)" using m(2) Some row by (auto simp: hit_def from_pos_def before_def)
      moreover have "\<not> before y (nat r, k)" if "hit (nat r, c) y" for y
        using that m(2) Some row [of "snd y"] by (cases y) (auto simp: hit_def from_pos_def before_def)
      ultimately show ?thesis using less.prems by auto
    next
      case None
      have eq: "search_rows s pat n r c = search_rows s pat n (r + 1) 0"
        using ok m(1) True None by (subst search_rows.simps) (simp add: row_strlen)
      have lt: "j < c" if "take n (drop j (cstr ?l)) = take n pat" for j using m(2) None that by (auto simp: not_le [symmetric])
      have "hit (nat r, c) y = hit (nat (r + 1), 0) y" for y
      proof (cases "fst y = nat r")
        case True
        then show ?thesis using lt [of "snd y"] row [of "snd y"] less.prems by (cases y) (auto simp: hit_def from_pos_def before_def)
      next
        case False
        then show ?thesis using less.prems by (cases y) (auto simp: hit_def from_pos_def before_def)
      qed
      then have same: "hit (nat r, c) = hit (nat (r + 1), 0)" by (rule ext)
      show ?thesis unfolding eq same using less.hyps [of "r + 1" 0] True less.prems by simp
    qed
  qed
qed

lemma row_search_back_spec:
  assumes "row_ok l" and "n \<le> length pat" and "k = 0 \<or> k + n \<le> Suc (length (cstr l))"
  shows "\<exists>m. row_search_back l pat n k = Some m \<and>
    (case m of Some j \<Rightarrow> j < k \<and> take n (drop j (cstr l)) = take n pat \<and> (\<forall>i. j < i \<and> i < k \<longrightarrow> take n (drop i (cstr l)) \<noteq> take n pat)
     | None \<Rightarrow> \<forall>j < k. take n (drop j (cstr l)) \<noteq> take n pat)"
  using assms(3)
proof (induction k)
  case (Suc k)
  then obtain q where q: "strncmp (drop k l) pat n = Some q" "q = 0 \<longleftrightarrow> take n (drop k (cstr l)) = take n pat"
    using search_test [OF assms(1) _ assms(2), of k] by auto
  obtain m where m: "row_search_back l pat n k = Some m"
    "case m of Some j \<Rightarrow> j < k \<and> take n (drop j (cstr l)) = take n pat \<and> (\<forall>i. j < i \<and> i < k \<longrightarrow> take n (drop i (cstr l)) \<noteq> take n pat)
     | None \<Rightarrow> \<forall>j < k. take n (drop j (cstr l)) \<noteq> take n pat" using Suc by auto
  show ?case
  proof (cases "q = 0")
    case True
    then show ?thesis using q by auto
  next
    case False
    then show ?thesis using q m by (auto simp: less_Suc_eq split: option.splits)
  qed
qed simp

text \<open>Positions up to column \<open>c\<close> of row \<open>r\<close>.\<close>

definition upto_pos :: "nat \<Rightarrow> int \<Rightarrow> pos \<Rightarrow> bool" where
  "upto_pos r c y \<longleftrightarrow> fst y < r \<or> fst y = r \<and> int (snd y) \<le> c"

lemma search_rows_back_spec:
  assumes "vi_wf s" and "0 < n" and "n \<le> length pat" and "0 \<le> r" and "r < vi_lcount s"
  defines "hit \<equiv> \<lambda>r c y. occurs (doc_lines (vi_doc s)) (take n pat) y \<and> upto_pos (nat r) c y"
  shows "\<exists>m. search_rows_back s pat n r c = Some m \<and>
    (case m of Some (a, b) \<Rightarrow> 0 \<le> a \<and> hit r c (nat a, b) \<and> (\<forall>y. hit r c y \<longrightarrow> \<not> before (nat a, b) y)
     | None \<Rightarrow> \<forall>y. \<not> hit r c y)"
  using assms(4,5)
proof (induction "nat r" arbitrary: r c rule: less_induct)
  case less
  have w: "rows_ok (vi_lines s)" "nat (vi_lcount s) \<le> 512" using assms(1) by (auto simp: vi_wf_def)
  have len: "length (doc_lines (vi_doc s)) = nat (vi_lcount s)" using w by (simp add: vi_doc_def)
  let ?l = "vi_lines s ! nat r"
  let ?c = "min c (int (length (cstr ?l)) - int n)"
  note ok = vi_row_ok [OF assms(1) less.prems]
  have line: "doc_lines (vi_doc s) ! nat r = cstr ?l" using texts_nth [OF w, of "nat r"] less.prems by (simp add: vi_doc_def)
  have row: "occurs (doc_lines (vi_doc s)) (take n pat) (nat r, j) \<longleftrightarrow> take n (drop j (cstr ?l)) = take n pat" for j
    using line len less.prems assms(3) by (auto simp: occurs_def)
  have fits: "int j \<le> int (length (cstr ?l)) - int n" if "take n (drop j (cstr ?l)) = take n pat" for j
    using short_no_match [of "cstr ?l" j n pat] that assms(2,3) by linarith
  have "nat (?c + 1) = 0 \<or> nat (?c + 1) + n \<le> Suc (length (cstr ?l))" by auto
  from row_search_back_spec [OF ok(1) assms(3) this] obtain m where m: "row_search_back ?l pat n (nat (?c + 1)) = Some m"
    "case m of Some j \<Rightarrow> j < nat (?c + 1) \<and> take n (drop j (cstr ?l)) = take n pat \<and>
        (\<forall>i. j < i \<and> i < nat (?c + 1) \<longrightarrow> take n (drop i (cstr ?l)) \<noteq> take n pat)
     | None \<Rightarrow> \<forall>j < nat (?c + 1). take n (drop j (cstr ?l)) \<noteq> take n pat" by blast
  have cc: "(if int (length (cstr ?l)) - int n < c then int (length (cstr ?l)) - int n else c) = ?c" by simp
  have bound: "j < nat (?c + 1)" if "take n (drop j (cstr ?l)) = take n pat" "int j \<le> c" for j using fits [OF that(1)] that(2) by auto
  have step: "search_rows_back s pat n r c =
      (case m of Some k \<Rightarrow> Some (Some (r, k))
       | None \<Rightarrow> if 0 \<le> r - 1 then do { l \<leftarrow> vi_llen s (r - 1); search_rows_back s pat n (r - 1) (int l - int n) } else Some None)"
    using search_rows_back.simps [of s pat n r c] ok(2) row_strlen [OF ok(1)] m(1) less.prems(1) by (simp add: Let_def cc)
  show ?case
  proof (cases m)
    case (Some k)
    have "search_rows_back s pat n r c = Some (Some (r, k))" using Some step by simp
    moreover have "hit r c (nat r, k)" using m(2) Some row by (auto simp: hit_def upto_pos_def)
    moreover have "\<not> before (nat r, k) y" if "hit r c y" for y
      using that m(2) Some row [of "snd y"] bound [of "snd y"] by (cases y) (auto simp: hit_def upto_pos_def before_def)
    ultimately show ?thesis using less.prems by auto
  next
    case None
    have none: "\<not> hit r c (nat r, j)" for j using m(2) None row [of j] bound [of j] by (auto simp: hit_def upto_pos_def)
    show ?thesis
    proof (cases "r = 0")
      case True
      then have "search_rows_back s pat n r c = Some None" using None step True by simp
      moreover have "\<not> hit r c y" for y using none [of "snd y"] True by (cases y) (auto simp: hit_def upto_pos_def)
      ultimately show ?thesis by simp
    next
      case False
      let ?k = "int (length (cstr (vi_lines s ! nat (r - 1)))) - int n"
      have r1: "0 \<le> r - 1" "r - 1 < vi_lcount s" using False less.prems by auto
      have eq: "search_rows_back s pat n r c = search_rows_back s pat n (r - 1) ?k"
        using None step vi_row_ok(3) [OF assms(1) r1] r1 by simp
      have "hit r c y \<longleftrightarrow> hit (r - 1) ?k y" for y
      proof (cases "fst y = nat (r - 1)")
        case True
        have "int (snd y) \<le> ?k" if "occurs (doc_lines (vi_doc s)) (take n pat) y"
        proof -
          have "take n (drop (snd y) (cstr (vi_lines s ! nat (r - 1)))) = take n pat"
            using that texts_nth [OF w, of "nat (r - 1)"] r1 True assms(3) by (simp add: occurs_def vi_doc_def min_absorb2)
          then show ?thesis using short_no_match [of "cstr (vi_lines s ! nat (r - 1))" "snd y" n pat] assms(2,3) by linarith
        qed
        then show ?thesis using True r1 by (auto simp: hit_def upto_pos_def)
      next
        case False
        then show ?thesis using none [of "snd y"] r1 by (cases y) (auto simp: hit_def upto_pos_def)
      qed
      then have same: "hit r c = hit (r - 1) ?k" by (rule ext)
      show ?thesis unfolding eq same using less.hyps [of "r - 1" ?k] r1 by simp
    qed
  qed
qed

text \<open>The command \<open>n\<close> in either direction.\<close>

definition cursor :: "vi_st \<Rightarrow> pos" where
  "cursor s = (nat (vi_row s), vi_col s)"

definition passed :: "vi_st \<Rightarrow> pos \<Rightarrow> pos \<Rightarrow> bool" where
  "passed s x y = (if 0 < vi_search_dir s then before x y else before y x)"

definition next_hit :: "vi_st \<Rightarrow> pos \<Rightarrow> bool" where
  "next_hit s y \<longleftrightarrow> occurs (doc_lines (vi_doc s)) (take (vi_search_len s) (vi_search_pat s)) y \<and> passed s (cursor s) y"

lemma vi_set_msg_ok: "length (vi_msg s) = 80 \<Longrightarrow> terminated m \<Longrightarrow> \<exists>b. vi_set_msg m s = Some (s\<lparr>vi_msg := b\<rparr>) \<and> length b = 80"
  by (intro exI [of _ "(blit (vi_msg s) 0 (take 79 (cstr m) @ replicate (79 - length (cstr m)) 0))[79 := 0]"])
    (simp add: vi_set_msg_def VI_STATUS_SZ_def mem_simps length_blit)

lemma terminated_cstring: "terminated (cstring str)"
  by (simp add: cstring_def terminated_def)

lemma vi_search_finds:
  assumes "vi_wf s" and "0 < vi_search_len s" and "vi_search_len s \<le> length (vi_search_pat s)"
  shows "\<exists>m. (if 0 < vi_search_dir s then vi_search_forward s (vi_search_pat s) (vi_search_len s) (vi_row s) (vi_col s)
              else vi_search_backward s (vi_search_pat s) (vi_search_len s) (vi_row s) (vi_col s)) = Some m \<and>
    (case m of Some (a, b) \<Rightarrow> 0 \<le> a \<and> next_hit s (nat a, b) \<and>
        (\<forall>y. next_hit s y \<longrightarrow> \<not> passed s y (nat a, b))
     | None \<Rightarrow> \<forall>y. \<not> next_hit s y)"
proof -
  have r: "0 \<le> vi_row s" "vi_row s < vi_lcount s" using assms(1) by (auto simp: vi_wf_def)
  have a: "from_pos (nat (vi_row s), vi_col s + 1) = before (nat (vi_row s), vi_col s)"
    by (rule ext) (auto simp: from_pos_def before_def)
  have b: "upto_pos (nat (vi_row s)) (int (vi_col s) - 1) = (\<lambda>y. before y (nat (vi_row s), vi_col s))"
    by (rule ext) (auto simp: upto_pos_def before_def)
  show ?thesis
  proof (cases "0 < vi_search_dir s")
    case True
    then have p: "passed s = before" by (intro ext) (simp add: passed_def)
    have h: "next_hit s = (\<lambda>y. occurs (doc_lines (vi_doc s)) (take (vi_search_len s) (vi_search_pat s)) y \<and> from_pos (nat (vi_row s), vi_col s + 1) y)"
      by (rule ext) (simp add: next_hit_def p a [simplified] cursor_def)
    show ?thesis unfolding p h using search_rows_spec [OF assms r(1), of "vi_col s + 1"] assms(2) True by (simp add: vi_search_forward_def)
  next
    case False
    then have p: "passed s = (\<lambda>x y. before y x)" by (intro ext) (simp add: passed_def)
    have h: "next_hit s = (\<lambda>y. occurs (doc_lines (vi_doc s)) (take (vi_search_len s) (vi_search_pat s)) y \<and>
        upto_pos (nat (vi_row s)) (int (vi_col s) - 1) y)"
      by (rule ext) (simp add: next_hit_def p b cursor_def)
    show ?thesis unfolding p h using search_rows_back_spec [OF assms r, of "int (vi_col s) - 1"] assms(2) False by (simp add: vi_search_backward_def)
  qed
qed

lemma hit_in_text:
  assumes "vi_wf s" and "next_hit s (nat a, b)" and "0 \<le> a" and "0 < vi_search_len s" and "vi_search_len s \<le> length (vi_search_pat s)"
  shows "a < vi_lcount s" and "b \<le> length (cstr (vi_lines s ! nat a))"
proof -
  have w: "rows_ok (vi_lines s)" "nat (vi_lcount s) \<le> 512" using assms(1) by (auto simp: vi_wf_def)
  have h: "nat a < nat (vi_lcount s)" "take (vi_search_len s) (drop b (texts (vi_lines s) (nat (vi_lcount s)) ! nat a)) = take (vi_search_len s) (vi_search_pat s)"
    using assms(2,5) length_texts [OF w] by (auto simp: next_hit_def occurs_def vi_doc_def min_absorb2)
  then show "a < vi_lcount s" using assms(3) by simp
  show "b \<le> length (cstr (vi_lines s ! nat a))"
    using h texts_nth [OF w h(1)] short_no_match [of "cstr (vi_lines s ! nat a)" b "vi_search_len s" "vi_search_pat s"] assms(4,5) by fastforce
qed

lemma vi_search_next_ok:
  assumes "vi_wf s" and "0 < vi_search_len s" and "vi_search_len s \<le> length (vi_search_pat s)" and "length (vi_msg s) = 80"
  shows "\<exists>s'. vi_search_next s = Some s' \<and> vi_wf s' \<and> doc_lines (vi_doc s') = doc_lines (vi_doc s) \<and>
    (if \<exists>y. next_hit s y
     then next_hit s (cursor s') \<and> (\<forall>y. next_hit s y \<longrightarrow> \<not> passed s y (cursor s'))
     else cursor s' = cursor s)"
proof -
  obtain m where m: "(if 0 < vi_search_dir s then vi_search_forward s (vi_search_pat s) (vi_search_len s) (vi_row s) (vi_col s)
              else vi_search_backward s (vi_search_pat s) (vi_search_len s) (vi_row s) (vi_col s)) = Some m"
    "case m of Some (a, b) \<Rightarrow> 0 \<le> a \<and> next_hit s (nat a, b) \<and>
        (\<forall>y. next_hit s y \<longrightarrow> \<not> passed s y (nat a, b))
     | None \<Rightarrow> \<forall>y. \<not> next_hit s y" using vi_search_finds [OF assms(1-3)] by blast
  have n: "vi_search_next s = search_goto m s" using m(1) assms(2) by (auto simp: vi_search_next_def)
  show ?thesis
  proof (cases m)
    case None
    obtain b where "vi_set_msg (cstring ''Pattern not found'') s = Some (s\<lparr>vi_msg := b\<rparr>)"
      using vi_set_msg_ok [OF assms(4) terminated_cstring] by blast
    then show ?thesis using n m(2) None assms(1) by (simp add: search_goto_def vi_wf_def vi_doc_def cursor_def)
  next
    case (Some x)
    obtain a b where x: "x = (a, b)" by (cases x)
    have h: "0 \<le> a" "next_hit s (nat a, b)" using m(2) Some x by auto
    let ?s = "s\<lparr>vi_row := a, vi_col := b, vi_search_highlight := True\<rparr>"
    have "vi_wf ?s" using hit_in_text [OF assms(1) h(2,1) assms(2,3)] h(1) assms(1) by (simp add: vi_wf_def)
    moreover have "vi_search_next s = Some ?s" using n Some x by (simp add: search_goto_def)
    moreover have "cursor ?s = (nat a, b)" "doc_lines (vi_doc ?s) = doc_lines (vi_doc s)" by (simp_all add: cursor_def vi_doc_def)
    moreover have "\<exists>y. next_hit s y" using h(2) by blast
    ultimately show ?thesis using m(2) Some x by (intro exI [of _ ?s]) simp
  qed
qed

section \<open>Changing one line and undoing it\<close>

text \<open>The buffers beside the text have their sizes.\<close>

definition bufs_ok :: "vi_st \<Rightarrow> bool" where
  "bufs_ok s \<longleftrightarrow> length (vi_undo_line s) = 160 \<and> length (vi_redo_line s) = 160 \<and> length (vi_yank_buf s) = 4096 \<and> length (vi_msg s) = 80"

definition padded :: "u8 list \<Rightarrow> u8 list" where
  "padded xs = xs @ replicate (160 - length xs) 0"

lemma padded_row:
  assumes "row_ok l"
  shows "length (padded (cstr l)) = 160" and "row_ok (padded (cstr l))" and "cstr (padded (cstr l)) = cstr l"
proof -
  have len: "length (cstr l) \<le> 159" by (rule row_len [OF assms])
  have p: "padded (cstr l) = cstr l @ 0 # replicate (159 - length (cstr l)) 0"
    using len by (simp add: padded_def Suc_diff_le replicate_Suc [symmetric] del: replicate_Suc)
  show l: "length (padded (cstr l)) = 160" using len by (simp add: padded_def)
  show "row_ok (padded (cstr l))" "cstr (padded (cstr l)) = cstr l" using row_ok_string [OF l p cstr_no_zero] by auto
qed

lemma strncpy_row: "row_ok l \<Longrightarrow> length d = 160 \<Longrightarrow> strncpy d l 160 = Some (padded (cstr l))"
  using row_len [of l] by (simp add: strncpy_blit row_ok_def padded_def blit_def)

lemma vi_save_undo_ok:
  assumes "vi_wf s" and "bufs_ok s"
  shows "vi_save_undo s = Some (s\<lparr>vi_undo_line := padded (cstr (vi_lines s ! nat (vi_row s))), vi_undo_row := vi_row s,
    vi_undo_lcount := vi_lcount s, vi_undo_valid := True\<rparr>)"
  using vi_cur [OF assms(1)] assms(2) by (simp add: vi_save_undo_def strncpy_row bufs_ok_def)

text \<open>The state \<open>s'\<close> is \<open>s\<close> with another text in the line of the cursor, and the old one kept for undo.\<close>

definition edited :: "vi_st \<Rightarrow> u8 list \<Rightarrow> vi_st \<Rightarrow> bool" where
  "edited s x s' \<longleftrightarrow> bufs_ok s' \<and> vi_lcount s' = vi_lcount s \<and> vi_undo_valid s' \<and> vi_undo_row s' = vi_row s \<and>
     vi_undo_lcount s' = vi_lcount s \<and> vi_undo_line s' = padded (cstr (vi_lines s ! nat (vi_row s))) \<and>
     (\<exists>l. row_ok l \<and> cstr l = x \<and> vi_lines s' = (vi_lines s)[nat (vi_row s) := l])"

lemma edited_doc: "edited s x s' \<Longrightarrow> doc_lines (vi_doc s') = (doc_lines (vi_doc s))[nat (vi_row s) := x]"
  by (auto simp: edited_def vi_doc_def texts_update)

lemma vi_undo_redo:
  assumes "vi_wf s" and "edited s x s'"
  shows "\<exists>s2 s3. vi_do_undo s' = Some s2 \<and> doc_lines (vi_doc s2) = doc_lines (vi_doc s) \<and> vi_op_pending s2 = vi_op_pending s' \<and>
    vi_pending s2 = vi_pending s' \<and> vi_do_redo s2 = Some s3 \<and> doc_lines (vi_doc s3) = doc_lines (vi_doc s')"
proof -
  let ?r = "nat (vi_row s)"
  let ?old = "vi_lines s ! ?r"
  obtain l where l: "row_ok l" "cstr l = x" "vi_lines s' = (vi_lines s)[?r := l]" using assms(2) by (auto simp: edited_def)
  have e: "bufs_ok s'" "vi_lcount s' = vi_lcount s" "vi_undo_valid s'" "vi_undo_row s' = vi_row s" "vi_undo_lcount s' = vi_lcount s"
    "vi_undo_line s' = padded (cstr ?old)" using assms(2) by (auto simp: edited_def)
  have r: "0 \<le> vi_row s" "?r < 512" "length (vi_lines s) = 512" using assms(1) by (auto simp: vi_wf_def rows_ok_def)
  note old = padded_row [OF vi_cur(1) [OF assms(1)]]
  have at: "vi_at s' (vi_row s) = Some l" using l(3) r by (simp add: vi_at_def rdi_def rd_in)
  let ?u = "(vi_put (vi_row s) (padded (cstr ?old)) s')\<lparr>vi_redo_line := padded x, vi_redo_row := vi_row s, vi_redo_lcount := vi_lcount s,
     vi_lcount := vi_lcount s, vi_row := vi_row s, vi_col := 0, vi_undo_valid := False, vi_modified := True\<rparr>"
  obtain b where b: "vi_set_msg (cstring []) ?u = Some (?u\<lparr>vi_msg := b\<rparr>)" and b80: "length b = 80"
    using vi_set_msg_ok [OF _ terminated_cstring, of ?u] e(1) by (auto simp: vi_put_def bufs_ok_def)
  let ?s2 = "?u\<lparr>vi_msg := b\<rparr>"
  have u: "vi_do_undo s' = Some ?s2"
    using e at l(1,2) b old strncpy_row [OF l(1), of "vi_redo_line s'"] strncpy_row [OF old(2), of l]
    by (simp add: vi_do_undo_def bufs_ok_def row_ok_def)
  have ls2: "vi_lines ?s2 = (vi_lines s)[?r := padded (cstr ?old)]" using l(3) by (simp add: vi_put_def)
  have same: "(texts (vi_lines s) n)[?r := cstr ?old] = texts (vi_lines s) n" for n
    by (simp add: texts_update [symmetric])
  have d2: "doc_lines (vi_doc ?s2) = doc_lines (vi_doc s)" using old same by (simp add: vi_doc_def vi_put_def l(3) texts_update)
  note new = padded_row [OF l(1), unfolded l(2)]
  let ?v = "(vi_put (vi_row s) (padded x) ?s2)\<lparr>vi_undo_line := padded (cstr ?old), vi_undo_row := vi_row s, vi_undo_lcount := vi_lcount s,
     vi_lcount := vi_lcount s, vi_row := vi_row s, vi_col := 0, vi_modified := True\<rparr>"
  obtain b3 where b3: "vi_set_msg (cstring []) ?v = Some (?v\<lparr>vi_msg := b3\<rparr>)"
    using vi_set_msg_ok [OF _ terminated_cstring, of ?v] b80 by (auto simp: vi_put_def)
  have at2: "vi_at ?s2 (vi_row s) = Some (padded (cstr ?old))" using ls2 r by (simp add: vi_at_def rdi_def rd_in)
  have "strncpy (padded (cstr ?old)) (padded x) 160 = Some (padded x)" "strncpy (vi_undo_line s') (padded (cstr ?old)) 160 = Some (padded (cstr ?old))"
    using strncpy_row [OF new(2), of "padded (cstr ?old)"] strncpy_row [OF old(2), of "vi_undo_line s'"] old new e(6) by simp_all
  then have v: "vi_do_redo ?s2 = Some (?v\<lparr>vi_msg := b3\<rparr>)"
    using at2 b3 e(2) by (simp add: vi_do_redo_def vi_put_def)
  have "doc_lines (vi_doc (?v\<lparr>vi_msg := b3\<rparr>)) = doc_lines (vi_doc s')"
    using new l(2,3) e(2) by (simp add: vi_doc_def vi_put_def texts_update)
  with u v d2 show ?thesis by (intro exI [of _ ?s2] exI [of _ "?v\<lparr>vi_msg := b3\<rparr>"]) (simp add: vi_put_def)
qed

text \<open>The keys that change the line of the cursor.\<close>

definition flip_case :: "u8 \<Rightarrow> u8" where
  "flip_case x = (if 97 \<le> x \<and> x \<le> 122 then x - 32 else if 65 \<le> x \<and> x \<le> 90 then x + 32 else x)"

definition key_edit :: "char \<Rightarrow> nat \<Rightarrow> u8 list \<Rightarrow> u8 list" where
  "key_edit k c l =
     (if k = CHR ''x'' then take c l @ drop (Suc c) l
      else if k = CHR ''X'' then take (c - 1) l @ drop c l
      else if k = CHR ''D'' then take c l
      else l[c := flip_case (l ! c)])"

lemma flip_case_nonzero:
  assumes "x \<noteq> 0"
  shows "flip_case x \<noteq> 0"
proof -
  have n: "\<not> 97 \<le> (32 :: u8)" "\<not> (- 32 :: u8) \<le> 90" by (simp, simp)
  have a: "x - 32 \<noteq> 0" if "97 \<le> x" using that n(1) by (metis right_minus_eq)
  have b: "x + 32 \<noteq> 0" if "x \<le> 90" using that n(2) by (metis eq_neg_iff_add_eq_0)
  consider "flip_case x = x - 32" "97 \<le> x" | "flip_case x = x + 32" "x \<le> 90" | "flip_case x = x" unfolding flip_case_def by presburger
  then show ?thesis using a b assms by cases metis+
qed

lemma row_set:
  assumes "row_ok l" and "c < length (cstr l)" and "v \<noteq> 0"
  shows "row_ok (l[c := v])" and "cstr (l[c := v]) = (cstr l)[c := v]"
proof -
  obtain ys where l: "l = cstr l @ 0 # ys" "0 \<notin> set (cstr l)" "length (cstr l) + length ys = 159" using row_split [OF assms(1)] .
  have "(cstr l @ 0 # ys)[c := v] = (cstr l)[c := v] @ 0 # ys" using assms(2) by (simp add: list_update_append1)
  then have e: "l[c := v] = (cstr l)[c := v] @ 0 # ys" using l(1) by simp
  have "0 \<notin> set ((cstr l)[c := v])" using l(2) assms(3) by (metis insertE set_update_subset_insert subsetD)
  then show "row_ok (l[c := v])" "cstr (l[c := v]) = (cstr l)[c := v]" using row_ok_string [OF _ e] assms(1) by (auto simp: row_ok_def)
qed

abbreviation saved :: "vi_st \<Rightarrow> vi_st" where
  "saved s \<equiv> s\<lparr>vi_undo_line := padded (cstr (vi_lines s ! nat (vi_row s))), vi_undo_row := vi_row s, vi_undo_lcount := vi_lcount s, vi_undo_valid := True\<rparr>"

lemma saved_edited:
  assumes "vi_wf s" and "row_ok l" and "vi_lines s' = (vi_lines s)[nat (vi_row s) := l]" and "bufs_ok s'" and "vi_lcount s' = vi_lcount s"
    and "vi_undo_line s' = padded (cstr (vi_lines s ! nat (vi_row s)))" and "vi_undo_row s' = vi_row s" and "vi_undo_lcount s' = vi_lcount s"
    and "vi_undo_valid s'"
  shows "edited s (cstr l) s'"
  unfolding edited_def using assms by blast

lemma delete_char_ok:
  assumes "vi_at s (vi_row s) = Some l" and "row_ok l" and "vi_col s < length (cstr l)"
  shows "\<exists>t. vi_delete_char s = Some ((vi_put (vi_row s) t s)\<lparr>vi_modified := True\<rparr>) \<and> row_ok t \<and>
    cstr t = take (vi_col s) (cstr l) @ drop (Suc (vi_col s)) (cstr l)"
proof -
  obtain t where "memmove_up l (vi_col s) (vi_col s + 1) (Suc (length (cstr l)) - (vi_col s + 1)) 0 = Some t" "row_ok t"
    "cstr t = take (vi_col s) (cstr l) @ drop (vi_col s + 1) (cstr l)" using row_remove [OF assms(2), of "vi_col s" 1] assms(3) by auto
  then show ?thesis using assms by (intro exI [of _ t]) (simp add: vi_delete_char_def row_strlen)
qed

lemma vi_at_put:
  assumes "vi_wf s" and "vi_lines s0 = vi_lines s"
  shows "vi_at (vi_put (vi_row s) l s0) (vi_row s) = Some l"
  using assms by (auto simp: vi_at_def vi_put_def rdi_def rd_in vi_wf_def rows_ok_def nat_less_iff)

lemma back_in_line_ok:
  assumes "vi_at s (vi_row s) = Some l" and "row_ok l"
  shows "\<exists>c. back_in_line s = Some (s\<lparr>vi_col := c\<rparr>)"
proof -
  have "back_in_line s = Some (s\<lparr>vi_col := (if length (cstr l) \<le> vi_col s \<and> 0 < vi_col s then vi_col s - 1 else vi_col s)\<rparr>)"
    using assms by (simp add: back_in_line_def vi_llen_def row_strlen)
  then show ?thesis by blast
qed

text \<open>What the four keys do, as an edit of the line of the cursor.\<close>

definition key_does :: "char \<Rightarrow> vi_st \<Rightarrow> bool" where
  "key_does k s \<longleftrightarrow> (\<exists>s1. norm_edit_key (key k) s = Some (Some s1) \<and> edited s (key_edit k (vi_col s) (cstr (vi_lines s ! nat (vi_row s)))) s1 \<and>
     vi_op_pending s1 = vi_op_pending s \<and> vi_pending s1 = vi_pending s)"

lemma key_does_x:
  assumes "vi_wf s" and "bufs_ok s" and "vi_col s < length (cstr (vi_lines s ! nat (vi_row s)))"
  shows "key_does CHR ''x'' s"
proof -
  let ?l = "vi_lines s ! nat (vi_row s)"
  note c = vi_cur [OF assms(1)]
  have at: "vi_at (saved s) (vi_row (saved s)) = Some ?l" using c(2) by (simp add: vi_at_def)
  obtain t where t: "vi_delete_char (saved s) = Some ((vi_put (vi_row s) t (saved s))\<lparr>vi_modified := True\<rparr>)" "row_ok t"
    "cstr t = take (vi_col s) (cstr ?l) @ drop (Suc (vi_col s)) (cstr ?l)" using delete_char_ok [OF at c(1)] assms(3) by auto
  let ?s = "(vi_put (vi_row s) t (saved s))\<lparr>vi_modified := True\<rparr>"
  have "vi_at ?s (vi_row ?s) = Some t" using vi_at_put [OF assms(1), of "saved s" t] by (simp add: vi_at_def vi_put_def)
  then obtain k where k: "back_in_line ?s = Some (?s\<lparr>vi_col := k\<rparr>)" using back_in_line_ok t(2) by blast
  have "edited s (cstr t) (?s\<lparr>vi_col := k\<rparr>)"
    by (rule saved_edited [OF assms(1) t(2)]) (use assms(2) padded_row [OF c(1)] in \<open>simp_all add: vi_put_def bufs_ok_def\<close>)
  moreover have "norm_edit_key (key CHR ''x'') s = Some (Some (?s\<lparr>vi_col := k\<rparr>))"
    using vi_save_undo_ok [OF assms(1,2)] t(1) k by (simp add: norm_edit_key_def)
  ultimately show ?thesis using t(3) by (auto simp: key_does_def key_edit_def vi_put_def)
qed

lemma key_does_X:
  assumes "vi_wf s" and "bufs_ok s" and "vi_col s \<le> length (cstr (vi_lines s ! nat (vi_row s)))" and "0 < vi_col s"
  shows "key_does CHR ''X'' s"
proof -
  let ?l = "vi_lines s ! nat (vi_row s)"
  let ?b = "(saved s)\<lparr>vi_col := vi_col s - 1\<rparr>"
  note c = vi_cur [OF assms(1)]
  have at: "vi_at ?b (vi_row ?b) = Some ?l" using c(2) by (simp add: vi_at_def)
  have col: "vi_col ?b < length (cstr ?l)" using assms(3,4) by simp
  obtain t where t: "vi_delete_char ?b = Some ((vi_put (vi_row s) t ?b)\<lparr>vi_modified := True\<rparr>)" "row_ok t"
    "cstr t = take (vi_col s - 1) (cstr ?l) @ drop (vi_col s) (cstr ?l)" using delete_char_ok [OF at c(1) col] assms(4) by auto
  have "edited s (cstr t) ((vi_put (vi_row s) t ?b)\<lparr>vi_modified := True\<rparr>)"
    by (rule saved_edited [OF assms(1) t(2)]) (use assms(2) padded_row [OF c(1)] in \<open>simp_all add: vi_put_def bufs_ok_def\<close>)
  moreover have "norm_edit_key (key CHR ''X'') s = Some (Some ((vi_put (vi_row s) t ?b)\<lparr>vi_modified := True\<rparr>))"
    using vi_save_undo_ok [OF assms(1,2)] t(1) assms(4) by (simp add: norm_edit_key_def key_def)
  ultimately show ?thesis using t(3) by (auto simp: key_does_def key_edit_def vi_put_def)
qed

lemma vi_yank_text_ok:
  assumes "p + n \<le> length txt" and "n < 4096" and "length (vi_yank_buf s) = 4096"
  shows "vi_yank_text txt p n w s = Some (s\<lparr>vi_yank_buf := (blit (vi_yank_buf s) 0 (take n (drop p txt)))[n := 0], vi_yank_len := n, vi_yank_line := w\<rparr>)"
  using assms by (simp add: vi_yank_text_def VI_YANK_MAX_def memcpy_blit wr_def length_blit)

lemma key_does_D:
  assumes "vi_wf s" and "bufs_ok s" and "vi_col s < length (cstr (vi_lines s ! nat (vi_row s)))"
  shows "key_does CHR ''D'' s"
proof -
  let ?l = "vi_lines s ! nat (vi_row s)"
  let ?n = "length (cstr ?l) - vi_col s"
  note c = vi_cur [OF assms(1)]
  note cut = row_cut [OF c(1), of "vi_col s"]
  have len: "length (cstr ?l) \<le> 159" "length ?l = 160" using row_len [OF c(1)] c(1) by (auto simp: row_ok_def)
  let ?y = "(blit (vi_yank_buf s) 0 (take ?n (drop (vi_col s) ?l)))[?n := 0]"
  let ?s = "(vi_put (vi_row s) (?l[vi_col s := 0]) ((saved s)\<lparr>vi_yank_buf := ?y, vi_yank_len := ?n, vi_yank_line := False\<rparr>))\<lparr>vi_modified := True\<rparr>"
  have "vi_yank_text ?l (vi_col s) ?n False (saved s) = Some ((saved s)\<lparr>vi_yank_buf := ?y, vi_yank_len := ?n, vi_yank_line := False\<rparr>)"
    using vi_yank_text_ok [of "vi_col s" ?n ?l "saved s" False] len assms(2,3) by (simp add: bufs_ok_def)
  then have d: "vi_delete_to_eol (saved s) = Some ?s"
    using c(1,2) assms(3) cut(1) row_strlen [OF c(1)] by (simp add: vi_delete_to_eol_def vi_at_def wr_def)
  have "vi_at ?s (vi_row ?s) = Some (?l[vi_col s := 0])" using vi_at_put [OF assms(1), of s "?l[vi_col s := 0]"] by (simp add: vi_at_def vi_put_def)
  then obtain k where k: "back_in_line ?s = Some (?s\<lparr>vi_col := k\<rparr>)" using back_in_line_ok cut(2) assms(3) by fastforce
  have "edited s (cstr (?l[vi_col s := 0])) (?s\<lparr>vi_col := k\<rparr>)"
    by (rule saved_edited [OF assms(1)]) (use cut(2) assms(2,3) len padded_row [OF c(1)] in \<open>simp_all add: vi_put_def bufs_ok_def length_blit\<close>)
  moreover have "norm_edit_key (key CHR ''D'') s = Some (Some (?s\<lparr>vi_col := k\<rparr>))"
    using vi_save_undo_ok [OF assms(1,2)] d k by (simp add: norm_edit_key_def key_def)
  ultimately show ?thesis using cut(3) assms(3) by (auto simp: key_does_def key_edit_def vi_put_def)
qed

lemma key_does_case:
  assumes "vi_wf s" and "bufs_ok s" and "vi_col s < length (cstr (vi_lines s ! nat (vi_row s)))"
  shows "key_does CHR ''~'' s"
proof -
  let ?l = "vi_lines s ! nat (vi_row s)"
  let ?v = "flip_case (?l ! vi_col s)"
  note c = vi_cur [OF assms(1)]
  have x: "cstr ?l ! vi_col s = ?l ! vi_col s" "?l ! vi_col s \<noteq> 0" using cstr_nth [OF assms(3)] by auto
  note t = row_set [OF c(1) assms(3) flip_case_nonzero [OF x(2)]]
  have lt: "vi_col s < length ?l" using assms(3) row_len [OF c(1)] c(1) by (simp add: row_ok_def)
  let ?k = "if length (cstr ?l) \<le> vi_col s + 1 then length (cstr ?l) - 1 else vi_col s + 1"
  let ?s = "(vi_put (vi_row s) (?l[vi_col s := ?v]) (saved s))\<lparr>vi_col := ?k, vi_modified := True\<rparr>"
  have "edited s (cstr (?l[vi_col s := ?v])) ?s"
    by (rule saved_edited [OF assms(1) t(1)]) (use assms(2) padded_row [OF c(1)] in \<open>simp_all add: vi_put_def bufs_ok_def\<close>)
  moreover have "vi_toggle_case s = Some ?s"
    unfolding vi_toggle_case_def flip_case_def [symmetric]
    using c(2) row_strlen [OF c(1)] assms(3) vi_save_undo_ok [OF assms(1,2)] rd_in [OF lt] lt by (simp add: wr_def)
  then have "norm_edit_key (key CHR ''~'') s = Some (Some ?s)" by (simp add: norm_edit_key_def key_def)
  ultimately show ?thesis using t(2) x(1) by (auto simp: key_does_def key_edit_def vi_put_def)
qed

lemma key_does_all:
  assumes "vi_wf s" and "bufs_ok s" and "vi_col s < length (cstr (vi_lines s ! nat (vi_row s)))"
    and "k \<in> {CHR ''x'', CHR ''X'', CHR ''D'', CHR ''~''}" and "k = CHR ''X'' \<Longrightarrow> 0 < vi_col s"
  shows "key_does k s"
  using assms key_does_x [OF assms(1-3)] key_does_X [OF assms(1,2)] key_does_D [OF assms(1-3)] key_does_case [OF assms(1-3)] by auto

lemma norm_key_edit:
  assumes "k \<in> {CHR ''x'', CHR ''X'', CHR ''D'', CHR ''~'', CHR ''u'', CHR ''U''}" and "\<not> vi_op_pending s" and "vi_pending s = 0"
    and "norm_edit_key (key k) s = Some (Some s1)"
  shows "vi_norm_key t (key k) s = Some s1"
proof -
  have "motion_key t (key k) s = Some None" using assms(1) by (auto simp: motion_key_def key_def EV_NAV_def)
  moreover have "key k \<noteq> EV_CANCEL" using assms(1) by (auto simp: key_def EV_CANCEL_def)
  ultimately show ?thesis using assms(2-4) by (simp add: vi_norm_key_def)
qed

lemma norm_key_undo_redo: "norm_edit_key (key CHR ''u'') s = map_option Some (vi_do_undo s)" "norm_edit_key (key CHR ''U'') s = map_option Some (vi_do_redo s)"
  by (simp_all add: norm_edit_key_def key_def)

section \<open>Substitution\<close>

text \<open>Every occurrence of a word, from left to right, replaced by another text.\<close>

function replace_all :: "u8 list \<Rightarrow> u8 list \<Rightarrow> u8 list \<Rightarrow> u8 list" where
  "replace_all w r xs =
     (if w = [] \<or> xs = [] then xs
      else if take (length w) xs = w then r @ replace_all w r (drop (length w) xs)
      else hd xs # replace_all w r (tl xs))"
  by pat_completeness auto
termination
  by (relation "measure (\<lambda>(w, r, xs). length xs)") auto

declare replace_all.simps [simp del]

lemma subst_copy_ok:
  assumes "length tmp = 160" and "t \<le> 159" and "i + n \<le> length rep"
  shows "\<exists>tmp'. subst_copy rep i n tmp t = Some (tmp', min 159 (t + n)) \<and> length tmp' = 160 \<and>
    take (min 159 (t + n)) tmp' = take 159 (take t tmp @ take n (drop i rep))"
  using assms
proof (induction n arbitrary: i tmp t)
  case 0
  then show ?case by (simp add: min_absorb2)
next
  case (Suc n)
  show ?case
  proof (cases "t < 159")
    case False
    then show ?thesis using Suc.prems by (auto simp: min_def)
  next
    case True
    let ?tmp = "tmp[t := rep ! i]"
    obtain tmp' where "subst_copy rep (Suc i) n ?tmp (Suc t) = Some (tmp', min 159 (Suc t + n))" "length tmp' = 160"
      "take (min 159 (Suc t + n)) tmp' = take 159 (take (Suc t) ?tmp @ take n (drop (Suc i) rep))"
      using Suc.IH [of ?tmp "Suc t" "Suc i"] Suc.prems True by auto
    moreover have "take (Suc t) ?tmp @ take n (drop (Suc i) rep) = take t tmp @ take (Suc n) (drop i rep)"
      using Suc.prems True by (simp add: take_Suc_conv_app_nth Cons_nth_drop_Suc [symmetric])
    ultimately show ?thesis using True Suc.prems by (simp add: rd_in wr_def)
  qed
qed

lemma subst_loop_ok:
  assumes "row_ok l" and "0 < plen" and "plen \<le> length pat" and "rlen \<le> length rep"
    and "c \<le> length (cstr l)" and "length tmp = 160" and "t \<le> 159"
  shows "\<exists>tmp' t'. subst_loop l (length (cstr l)) pat plen rep rlen c tmp t = Some (tmp', t') \<and> length tmp' = 160 \<and> t' \<le> 159 \<and>
    take t' tmp' = take 159 (take t tmp @ replace_all (take plen pat) (take rlen rep) (drop c (cstr l)))"
  using assms(5-7)
proof (induction "length (cstr l) - c" arbitrary: c tmp t rule: less_induct)
  case less
  let ?s = "cstr l"
  let ?w = "take plen pat"
  let ?r = "take rlen rep"
  have w: "length ?w = plen" "?w \<noteq> []" using assms(2,3) by auto
  show ?case
  proof (cases "c < length ?s \<and> t < 159")
    case False
    then have "subst_loop l (length ?s) pat plen rep rlen c tmp t = Some (tmp, t)" by (subst subst_loop.simps) auto
    moreover have "take t tmp = take 159 (take t tmp @ replace_all ?w ?r (drop c ?s))"
    proof (cases "t = 159")
      case True
      then show ?thesis using less.prems(2) by simp
    next
      case ne: False
      then have "drop c ?s = []" using False less.prems by auto
      then show ?thesis using less.prems by (simp add: replace_all.simps)
    qed
    ultimately show ?thesis using less.prems by auto
  next
    case True
    have ne: "drop c ?s \<noteq> []" using True by simp
    show ?thesis
    proof (cases "take plen (drop c ?s) = ?w")
      case m: True
      then have fit: "c + plen \<le> length ?s" using short_no_match [of ?s c plen pat] assms(2,3) by linarith
      have cmp: "strncmp (drop c l) pat plen = Some 0" using search_test [OF assms(1) fit assms(3)] m by auto
      obtain tmp1 where t1: "subst_copy rep 0 rlen tmp t = Some (tmp1, min 159 (t + rlen))" "length tmp1 = 160"
        "take (min 159 (t + rlen)) tmp1 = take 159 (take t tmp @ ?r)" using subst_copy_ok [of tmp t 0 rlen rep] less.prems assms(4) by auto
      have "length ?s - (c + plen) < length ?s - c" using fit assms(2) by arith
      from less.hyps [OF this fit t1(2), of "min 159 (t + rlen)"] obtain tmp' t' where
        r: "subst_loop l (length ?s) pat plen rep rlen (c + plen) tmp1 (min 159 (t + rlen)) = Some (tmp', t')" "length tmp' = 160" "t' \<le> 159"
        "take t' tmp' = take 159 (take 159 (take t tmp @ ?r) @ replace_all ?w ?r (drop (c + plen) ?s))" unfolding t1(3) by auto
      have "replace_all ?w ?r (drop c ?s) = ?r @ replace_all ?w ?r (drop (c + plen) ?s)"
        using replace_all.simps [of ?w ?r "drop c ?s"] ne w m by (simp add: add.commute)
      moreover have "take 159 (take 159 xs @ ys) = take 159 (xs @ ys)" for xs ys :: "u8 list" by (simp add: min_def)
      ultimately have "take t' tmp' = take 159 (take t tmp @ replace_all ?w ?r (drop c ?s))" using r(4) by (metis append.assoc)
      moreover have "subst_loop l (length ?s) pat plen rep rlen c tmp t = Some (tmp', t')"
        using True cmp t1(1) r(1) fit by (subst subst_loop.simps) simp
      ultimately show ?thesis using r(2,3) by blast
    next
      case m: False
      have found: "(if int c \<le> int (length ?s) - int plen then do { k \<leftarrow> strncmp (drop c l) pat plen; Some (k = 0) } else Some False) = Some False"
        using search_test [OF assms(1) _ assms(3), of c] m by auto
      have x: "rd l c = Some (?s ! c)" using cstr_nth [of c l] True assms(1) cstr_length [of l] by (auto simp: rd_in row_ok_def)
      have "length ?s - Suc c < length ?s - c" using True by arith
      from less.hyps [OF this, of "tmp[t := ?s ! c]" "Suc t"] obtain tmp' t' where
        r: "subst_loop l (length ?s) pat plen rep rlen (Suc c) (tmp[t := ?s ! c]) (Suc t) = Some (tmp', t')" "length tmp' = 160" "t' \<le> 159"
        "take t' tmp' = take 159 (take (Suc t) (tmp[t := ?s ! c]) @ replace_all ?w ?r (drop (Suc c) ?s))" using True less.prems by auto
      have "replace_all ?w ?r (drop c ?s) = ?s ! c # replace_all ?w ?r (drop (Suc c) ?s)"
        using replace_all.simps [of ?w ?r "drop c ?s"] ne w m True by (simp add: hd_drop_conv_nth tl_drop drop_Suc)
      moreover have "take (Suc t) (tmp[t := ?s ! c]) = take t tmp @ [?s ! c]" using less.prems True by (simp add: take_Suc_conv_app_nth)
      ultimately have "take t' tmp' = take 159 (take t tmp @ replace_all ?w ?r (drop c ?s))" using r(4) by simp
      moreover have "subst_loop l (length ?s) pat plen rep rlen c tmp t = Some (tmp', t')"
        using True found x r(1) less.prems by (subst subst_loop.simps) (simp add: wr_def)
      ultimately show ?thesis using r(2,3) by blast
    qed
  qed
qed

lemma replace_all_no_zero: "0 \<notin> set xs \<Longrightarrow> 0 \<notin> set r \<Longrightarrow> 0 \<notin> set (replace_all w r xs)"
proof (induction w r xs rule: replace_all.induct)
  case (1 w r xs)
  have "0 \<notin> set (drop (length w) xs)" "0 \<notin> set (tl xs)" using 1(3) by (cases xs; auto dest: in_set_dropD)+
  moreover have "xs \<noteq> [] \<Longrightarrow> hd xs \<noteq> 0" using 1(3) by (metis list.set_sel(1))
  ultimately show ?case using 1 by (subst replace_all.simps) simp
qed

lemma vi_substitute_ok:
  assumes "vi_wf s" and "0 \<le> r" and "r < vi_lcount s" and "0 < plen" and "plen \<le> length pat" and "rlen \<le> length rep" and "0 \<notin> set (take rlen rep)"
  shows "\<exists>s'. vi_substitute_line r pat plen rep rlen s = Some s' \<and> rows_ok (vi_lines s') \<and> vi_lcount s' = vi_lcount s \<and>
    doc_lines (vi_doc s') = (doc_lines (vi_doc s))[nat r :=
      take 159 (replace_all (take plen pat) (take rlen rep) (doc_lines (vi_doc s) ! nat r))]"
proof -
  let ?l = "vi_lines s ! nat r"
  note ok = vi_row_ok [OF assms(1-3)]
  have w: "rows_ok (vi_lines s)" "nat (vi_lcount s) \<le> 512" using assms(1) by (auto simp: vi_wf_def)
  have line: "doc_lines (vi_doc s) ! nat r = cstr ?l" using texts_nth [OF w, of "nat r"] assms(2,3) by (simp add: vi_doc_def)
  have len: "length ?l = 160" using ok(1) by (simp add: row_ok_def)
  obtain tmp t where t: "subst_loop ?l (length (cstr ?l)) pat plen rep rlen 0 (replicate 160 0) 0 = Some (tmp, t)" "length tmp = 160" "t \<le> 159"
    "take t tmp = take 159 (replace_all (take plen pat) (take rlen rep) (cstr ?l))"
    using subst_loop_ok [OF ok(1) assms(4-6), of 0 "replicate 160 0" 0] by auto
  let ?n = "blit ?l 0 (take t tmp @ [0])"
  have b: "take (t + 1) (tmp[t := 0]) = take t tmp @ [0]" using t(2,3) by (simp add: take_Suc_conv_app_nth)
  have tl: "length (take t tmp) = t" using t(2,3) by simp
  have n: "?n = take t tmp @ 0 # drop (t + 1) ?l" using tl by (simp add: blit_def)
  have "0 \<notin> set (take t tmp)" unfolding t(4) using replace_all_no_zero [OF cstr_no_zero assms(7)] by (meson in_set_takeD)
  then have r: "row_ok ?n" "cstr ?n = take t tmp" using row_ok_string [OF _ n] n tl t(3) len by auto
  have "vi_substitute_line r pat plen rep rlen s = Some (vi_put r ?n s)"
    using ok(2) row_strlen [OF ok(1)] t len b by (simp add: vi_substitute_line_def wr_def memcpy_blit)
  moreover have "doc_lines (vi_doc (vi_put r ?n s)) = (doc_lines (vi_doc s))[nat r := cstr ?n]" by (simp add: vi_doc_def vi_put_def texts_update)
  moreover have "rows_ok (vi_lines (vi_put r ?n s))" using rows_ok_update [OF w(1) r(1)] by (simp add: vi_put_def)
  moreover have "vi_lcount (vi_put r ?n s) = vi_lcount s" by (simp add: vi_put_def)
  ultimately show ?thesis using r(2) t(4) line by auto
qed

section \<open>A range in one line\<close>

lemma vi_delete_range_row:
  assumes "vi_wf s" and "bufs_ok s" and "c1 \<le> length (cur_line (vi_doc s))" and "c2 \<le> length (cur_line (vi_doc s))"
  shows "\<exists>s'. vi_delete_range (vi_row s) c1 (vi_row s) c2 False s = Some s' \<and> vi_col s' = c2 \<and>
    doc_lines (vi_doc s') = (doc_lines (vi_doc s))[nat (vi_row s) := take c2 (cur_line (vi_doc s)) @ drop (max c1 c2) (cur_line (vi_doc s))]"
proof -
  let ?l = "vi_lines s ! nat (vi_row s)"
  note c = vi_cur [OF assms(1)]
  have w: "rows_ok (vi_lines s)" "nat (vi_lcount s) \<le> 512" "nat (vi_row s) < nat (vi_lcount s)" using assms(1) by (auto simp: vi_wf_def)
  have line: "cur_line (vi_doc s) = cstr ?l" using texts_nth [OF w] by (simp add: cur_line_def vi_doc_def)
  have len: "length ?l = 160" "length (cstr ?l) \<le> 159" using c(1) row_len [OF c(1)] by (auto simp: row_ok_def)
  have at: "vi_at (saved s) (vi_row s) = Some ?l" using c(2) by (simp add: vi_at_def)
  note sv = vi_save_undo_ok [OF assms(1,2)]
  show ?thesis
  proof (cases "c2 < c1")
    case False
    then have "\<not> (if c2 < length (cstr ?l) then c2 else length (cstr ?l)) < (if c1 < length (cstr ?l) then c1 else length (cstr ?l))" by auto
    then have "delete_in_row (vi_row s) c2 c1 (saved s) = Some ((saved s)\<lparr>vi_col := c2\<rparr>)"
      using at row_strlen [OF c(1)] by (simp add: delete_in_row_def Let_def)
    then have "vi_delete_range (vi_row s) c1 (vi_row s) c2 False s = Some ((saved s)\<lparr>vi_col := c2, vi_modified := True\<rparr>)"
      using sv by (simp add: vi_delete_range_def Let_def)
    moreover have "(doc_lines (vi_doc s))[nat (vi_row s) := cur_line (vi_doc s)] = doc_lines (vi_doc s)" by (simp add: cur_line_def vi_doc_def)
    ultimately show ?thesis using False by (simp add: vi_doc_def)
  next
    case True
    let ?k = "c1 - c2"
    have e: "(if c2 < length (cstr ?l) then c2 else length (cstr ?l)) = c2" "(if c1 < length (cstr ?l) then c1 else length (cstr ?l)) = c1"
      using True assms(3,4) line by auto
    obtain t where t: "memmove_up ?l c2 (c2 + ?k) (Suc (length (cstr ?l)) - (c2 + ?k)) 0 = Some t" "row_ok t"
      "cstr t = take c2 (cstr ?l) @ drop (c2 + ?k) (cstr ?l)" using row_remove [OF c(1), of c2 ?k] True assms(3) line by auto
    obtain b where y: "vi_yank_text ?l c2 ?k False (saved s) = Some ((saved s)\<lparr>vi_yank_buf := b, vi_yank_len := ?k, vi_yank_line := False\<rparr>)"
      using vi_yank_text_ok [of c2 ?k ?l "saved s" False] True assms(2,3) line len by (auto simp: bufs_ok_def)
    let ?s = "(vi_put (vi_row s) t ((saved s)\<lparr>vi_yank_buf := b, vi_yank_len := ?k, vi_yank_line := False\<rparr>))\<lparr>vi_col := c2\<rparr>"
    have "delete_in_row (vi_row s) c2 c1 (saved s) = Some ?s"
      unfolding delete_in_row_def using at row_strlen [OF c(1)] y t(1) True by (simp add: e)
    then have "vi_delete_range (vi_row s) c1 (vi_row s) c2 False s = Some (?s\<lparr>vi_modified := True\<rparr>)"
      using sv by (simp add: vi_delete_range_def Let_def)
    moreover have "doc_lines (vi_doc (?s\<lparr>vi_modified := True\<rparr>)) = (doc_lines (vi_doc s))[nat (vi_row s) := cstr t]"
      by (simp add: vi_doc_def vi_put_def texts_update)
    ultimately show ?thesis using t(3) True line by (auto simp: max_def)
  qed
qed

section \<open>Two commands that do harm\<close>

text \<open>Substituting nothing for nothing, as \<open>:s///\<close> does, never ends on a line that is not empty.\<close>

lemma subst_loop_hangs:
  assumes "c < ll" and "t < 159"
  shows "subst_loop line ll pat 0 rep 0 c tmp t = None"
proof -
  have cmp: "strncmp a b 0 = Some 0" for a b by (simp add: strncmp_def strncmp_loop.simps)
  have "\<not> (plen = 0 \<and> rlen = 0 \<and> c < ll \<and> t < 159)" if "subst_loop line ll pat plen rep rlen c tmp t = Some y" for plen rlen y
    by (rule subst_loop.raw_induct [where P = "\<lambda>line ll pat plen rep rlen c tmp t y. \<not> (plen = 0 \<and> rlen = 0 \<and> c < ll \<and> t < 159)", OF _ that])
      (auto simp: cmp, metis not_less_zero)
  then show ?thesis using assms by (cases "subst_loop line ll pat 0 rep 0 c tmp t") auto
qed

text \<open>The command \<open>cc\<close> clears the line of the cursor and drops all lines below it.\<close>

lemma vi_change_line_drops_rest:
  assumes "vi_wf s" and "bufs_ok s" and "vi_op_pending s" and "vi_op s = OP_CHANGE"
  shows "\<exists>s'. vi_norm_key t (key CHR ''c'') s = Some s' \<and> vi_mode s' = VI_M_INS \<and>
    doc_lines (vi_doc s') = take (nat (vi_row s)) (doc_lines (vi_doc s)) @ [[]]"
proof -
  let ?s = "saved (s\<lparr>vi_op_pending := False, vi_op := OP_NONE\<rparr>)"
  let ?r = "nat (vi_row s)"
  note c = vi_cur [OF assms(1)]
  have w: "rows_ok (vi_lines s)" "0 \<le> vi_row s" "?r < 512" "?r < nat (vi_lcount s)" using assms(1) by (auto simp: vi_wf_def)
  have b: "vi_wf (s\<lparr>vi_op_pending := False, vi_op := OP_NONE\<rparr>)" "bufs_ok (s\<lparr>vi_op_pending := False, vi_op := OP_NONE\<rparr>)"
    using assms(1,2) by (auto simp: vi_wf_def bufs_ok_def)
  have clear: "vi_clear_row (vi_row s) ?s = Some (vi_put (vi_row s) (replicate 160 0) ?s)"
    using c(1,2) row_zero [OF c(1)] by (simp add: vi_clear_row_def vi_at_def NANO_MAX_COL_def)
  have msg: "vi_no_msg s0 = Some (s0\<lparr>vi_msg := (vi_msg s0)[0 := 0]\<rparr>)" if "vi_msg s0 = vi_msg s" for s0
    using that assms(2) by (simp add: vi_no_msg_def wr_def bufs_ok_def)
  have e: "vi_norm_key t (key CHR ''c'') s = norm_op_key t (key CHR ''c'') s" using assms(3) by (simp add: vi_norm_key_def key_def EV_CANCEL_def)
  let ?f = "(vi_put (vi_row s) (replicate 160 0) ?s)\<lparr>vi_col := 0, vi_lcount := vi_row s + 1, vi_row := vi_row s, vi_modified := True, vi_mode := VI_M_INS\<rparr>"
  have "norm_op_key t (key CHR ''c'') s = Some (?f\<lparr>vi_msg := (vi_msg s)[0 := 0]\<rparr>)"
    using assms(4) vi_save_undo_ok [OF b] clear msg [of ?f] w(2)
    by (simp add: norm_op_key_def Let_def OP_CHANGE_def OP_DELETE_def OP_YANK_def key_def vi_put_def)
  moreover have "texts ((vi_lines s)[?r := replicate 160 0]) (Suc ?r) = take ?r (texts (vi_lines s) (nat (vi_lcount s))) @ [[]]"
    using w by (auto simp: texts_def rows_ok_def take_Suc_conv_app_nth take_map min_def)
  ultimately show ?thesis using e w(2) by (simp add: vi_doc_def vi_put_def nat_add_distrib)
qed

text \<open>The line numbers: the format asks for a width, which \<open>snprintf\<close> copies to the output as it stands.\<close>

lemma line_number_wrong: "line_number s n = Some [37, 52, 100, 0, 0]"
proof -
  have "snprintf (replicate 5 0) 5 (cstring ''%4d'') [VInt v] = Some ([37, 52, 100, 0, 0], 3)" for v
  proof -
    have r: "replicate 5 (0 :: u8) = [0, 0, 0, 0, 0]" by (simp add: eval_nat_numeral)
    have "sn_directive [0, 0, 0, 0, 0] 5 0 52 [VInt v] = Some ([37, 52, 0, 0, 0], 2, [VInt v])" by (simp add: sn_directive_def wr_def)
    then show ?thesis unfolding r by (simp add: cstring_def snprintf_def snprintf_loop.simps rd_def wr_def numeral_3_eq_3)
  qed
  then show ?thesis by (simp add: line_number_def Let_def)
qed

section \<open>The example\<close>

text \<open>Two lines, \<open>abcab\<close> and \<open>ba\<close>, with the cursor on the second character.\<close>

definition demo_vi :: vi_st where
  "demo_vi = \<lparr>vi_lines = padded [97, 98, 99, 97, 98] # padded [98, 97] # replicate 510 (replicate 160 0), vi_lcount = 2, vi_row = 0, vi_col = 1,
     vi_scroll = 0, vi_scroll_x = 0, vi_modified = False, vi_mode = VI_M_NORM, vi_done = False, vi_pending = 0,
     vi_fname = replicate 128 0, vi_status = replicate 80 0, vi_msg = replicate 80 0, vi_cmd = replicate 64 0, vi_cmd_len = 0,
     vi_show_rnu = False, vi_show_nu = False, vi_yank_buf = replicate 4096 0, vi_yank_len = 0, vi_yank_line = False,
     vi_op = OP_NONE, vi_op_linewise = False, vi_op_pending = False, vi_vis_start_row = 0, vi_vis_start_col = 0, vi_vis_type = VIS_NONE,
     vi_search_pat = padded [98, 97], vi_search_len = 2, vi_search_dir = 1, vi_search_highlight = False,
     vi_search_prompt = replicate 64 0, vi_search_prompt_len = 0, vi_undo_line = replicate 160 0, vi_undo_row = 0, vi_undo_lcount = 0,
     vi_redo_line = replicate 160 0, vi_redo_row = 0, vi_redo_lcount = 0, vi_undo_valid = False, vi_dot_op = 0, vi_dot_linewise = False,
     vi_dot_valid = False\<rparr>"

lemma demo_vi_doc: "vi_doc demo_vi = \<lparr>doc_lines = [[97, 98, 99, 97, 98], [98, 97]], doc_row = 0, doc_col = 1\<rparr>"
  by (simp add: vi_doc_def demo_vi_def texts_def cstr_def padded_def)

lemma demo_vi_ok: "vi_wf demo_vi" "bufs_ok demo_vi"
proof -
  have "rows_ok (vi_lines demo_vi)" by (simp add: demo_vi_def rows_ok_def row_ok_def terminated_def padded_def)
  then show "vi_wf demo_vi" by (simp add: vi_wf_def demo_vi_def cstr_def padded_def)
  show "bufs_ok demo_vi" by (simp add: bufs_ok_def demo_vi_def)
qed

lemma demo_vi_fields: "vi_row demo_vi = 0" "vi_col demo_vi = 1" "vi_lcount demo_vi = 2" "vi_search_len demo_vi = 2" "vi_search_dir demo_vi = 1"
  "vi_search_pat demo_vi = padded [98, 97]" "\<not> vi_op_pending demo_vi" "vi_pending demo_vi = 0" "length (vi_msg demo_vi) = 80"
  by (simp_all add: demo_vi_def)

section \<open>Properties\<close>

text \<open>
  C20: the insert mode of \<open>vi\<close> and the editor \<open>nano\<close> agree.  From states with the same document, any sequence of printable keys,
  backspaces and newlines is handled by both without leaving the buffer, and leads to the same document, which is that of
  the abstract editor.
\<close>

theorem vi_types_like_nano:
  assumes "vi_wf s" and "nano_wf n" and "vi_doc s = nano_doc n" and "list_all plain_key evs"
  shows "\<exists>s' n'. run (vi_ins_key t) evs s = Some s' \<and> run (edit_key u) evs n = Some n' \<and> vi_wf s' \<and> nano_wf n' \<and>
    vi_doc s' = fold doc_key evs (vi_doc s) \<and> nano_doc n' = vi_doc s'"
proof -
  have p: "plain_key ev" if "ev \<in> set evs" for ev using assms(4) that by (simp add: list_all_iff)
  have "\<exists>s'. run (vi_ins_key t) evs s = Some s' \<and> vi_wf s' \<and> vi_doc s' = fold doc_key evs (vi_doc s)"
    by (rule run_fold [where good = vi_wf]) (use p vi_ins_key_doc assms(1) in auto)
  moreover have "\<exists>n'. run (edit_key u) evs n = Some n' \<and> nano_wf n' \<and> nano_doc n' = fold doc_key evs (nano_doc n)"
    by (rule run_fold [where good = nano_wf]) (use p edit_key_doc assms(2) in auto)
  ultimately show ?thesis using assms(3) by auto
qed

theorem vi_types_like_nano_witness:
  "\<exists>s' n'. run (vi_ins_key demo_term) [120, 10, 8] demo_vi = Some s' \<and> run (edit_key demo_term) [120, 10, 8] (to_nano demo_vi) = Some n' \<and>
     vi_doc s' = \<lparr>doc_lines = [[97, 120, 98, 99, 97, 98], [98, 97]], doc_row = 0, doc_col = 6\<rparr> \<and> nano_doc n' = vi_doc s'"
proof -
  have "list_all plain_key [120, 10, 8]" by (simp add: plain_key_def)
  moreover have "fold doc_key [120, 10, 8] (vi_doc demo_vi) = \<lparr>doc_lines = [[97, 120, 98, 99, 97, 98], [98, 97]], doc_row = 0, doc_col = 6\<rparr>"
    by (simp add: demo_vi_doc doc_key_def doc_insert_def doc_newline_def doc_backspace_def cur_line_def)
  ultimately show ?thesis
    using vi_types_like_nano [OF demo_vi_ok(1) to_nano_wf [OF demo_vi_ok(1)] to_nano_doc [symmetric], of "[120, 10, 8]" demo_term demo_term] by auto
qed

text \<open>
  Searching.  The command \<open>n\<close> moves the cursor to the nearest occurrence of the pattern after the cursor in reading order, or
  before it when the search goes backwards, and nowhere when there is none; it never changes the text.
\<close>

theorem vi_search_finds_nearest:
  assumes "vi_wf s" and "0 < vi_search_len s" and "vi_search_len s \<le> length (vi_search_pat s)" and "length (vi_msg s) = 80"
  shows "\<exists>s'. vi_search_next s = Some s' \<and> vi_wf s' \<and> doc_lines (vi_doc s') = doc_lines (vi_doc s) \<and>
    (if \<exists>y. next_hit s y then next_hit s (cursor s') \<and> (\<forall>y. next_hit s y \<longrightarrow> \<not> passed s y (cursor s')) else cursor s' = cursor s)"
  by (rule vi_search_next_ok [OF assms])

theorem vi_search_finds_nearest_witness:
  "\<exists>s'. vi_search_next demo_vi = Some s' \<and> cursor s' = (1, 0)"
proof -
  have p: "take 2 (padded [98, 97]) = [98, 97]" by (simp add: padded_def)
  have h: "next_hit demo_vi y \<longleftrightarrow> occurs [[97, 98, 99, 97, 98], [98, 97]] [98, 97] y \<and> before (0, 1) y" for y
    by (simp add: next_hit_def passed_def demo_vi_doc demo_vi_fields cursor_def p)
  have hit: "next_hit demo_vi y \<longleftrightarrow> y = (1, 0)" for y
    unfolding h by (cases y) (auto simp: occurs_def before_def less_Suc_eq drop_Cons' take_Cons' split: if_splits)
  show ?thesis using vi_search_finds_nearest [OF demo_vi_ok(1)] demo_vi_fields by (simp add: hit padded_def) blast
qed

text \<open>
  C23: editing, undo and redo.  On a character of the text the keys \<open>x\<close>, \<open>X\<close>, \<open>D\<close> and \<open>~\<close> of the normal mode remove the character,
  the one before it or the rest of the line, or change its case; \<open>u\<close> after it restores the text and \<open>U\<close> after that
  brings the change back.
\<close>

theorem vi_edit_undo_redo:
  assumes "vi_wf s" and "bufs_ok s" and "vi_col s < length (cur_line (vi_doc s))" and "\<not> vi_op_pending s" and "vi_pending s = 0"
    and "k \<in> {CHR ''x'', CHR ''X'', CHR ''D'', CHR ''~''}" and "k = CHR ''X'' \<Longrightarrow> 0 < vi_col s"
  shows "\<exists>s1 s2 s3. vi_norm_key t (key k) s = Some s1 \<and>
      doc_lines (vi_doc s1) = (doc_lines (vi_doc s))[nat (vi_row s) := key_edit k (vi_col s) (cur_line (vi_doc s))] \<and>
    vi_norm_key t (key CHR ''u'') s1 = Some s2 \<and> doc_lines (vi_doc s2) = doc_lines (vi_doc s) \<and>
    vi_norm_key t (key CHR ''U'') s2 = Some s3 \<and> doc_lines (vi_doc s3) = doc_lines (vi_doc s1)"
proof -
  have w: "rows_ok (vi_lines s)" "nat (vi_lcount s) \<le> 512" "nat (vi_row s) < nat (vi_lcount s)" using assms(1) by (auto simp: vi_wf_def)
  have line: "cur_line (vi_doc s) = cstr (vi_lines s ! nat (vi_row s))" using texts_nth [OF w] by (simp add: cur_line_def vi_doc_def)
  obtain s1 where s1: "norm_edit_key (key k) s = Some (Some s1)" "edited s (key_edit k (vi_col s) (cur_line (vi_doc s))) s1"
    "vi_op_pending s1 = vi_op_pending s" "vi_pending s1 = vi_pending s"
    using key_does_all [OF assms(1,2) _ assms(6,7)] assms(3) line by (auto simp: key_does_def)
  obtain s2 s3 where u: "vi_do_undo s1 = Some s2" "doc_lines (vi_doc s2) = doc_lines (vi_doc s)" "vi_op_pending s2 = vi_op_pending s1"
    "vi_pending s2 = vi_pending s1" "vi_do_redo s2 = Some s3" "doc_lines (vi_doc s3) = doc_lines (vi_doc s1)"
    using vi_undo_redo [OF assms(1) s1(2)] by blast
  have "vi_norm_key t (key k) s = Some s1" using norm_key_edit [OF _ assms(4,5) s1(1)] assms(6) by auto
  moreover have "vi_norm_key t (key CHR ''u'') s1 = Some s2"
    using norm_key_edit [of "CHR ''u''" s1 s2] s1(3,4) assms(4,5) u(1) by (simp add: norm_key_undo_redo)
  moreover have "vi_norm_key t (key CHR ''U'') s2 = Some s3"
    using norm_key_edit [of "CHR ''U''" s2 s3] s1(3,4) assms(4,5) u(3-5) by (simp add: norm_key_undo_redo)
  ultimately show ?thesis using edited_doc [OF s1(2)] u(2,6) by blast
qed

theorem vi_edit_undo_redo_witness:
  "\<exists>s1 s2. vi_norm_key demo_term (key CHR ''x'') demo_vi = Some s1 \<and> doc_lines (vi_doc s1) = [[97, 99, 97, 98], [98, 97]] \<and>
     vi_norm_key demo_term (key CHR ''u'') s1 = Some s2 \<and> doc_lines (vi_doc s2) = [[97, 98, 99, 97, 98], [98, 97]]"
  using vi_edit_undo_redo [OF demo_vi_ok, of "CHR ''x''" demo_term] by (auto simp: demo_vi_fields demo_vi_doc cur_line_def key_edit_def)

text \<open>
  A range in one line.  Deleting from column \<open>c1\<close> to column \<open>c2\<close> removes the text between them when \<open>c2\<close> is the smaller one, as
  for a motion to the left; for a motion to the right, as in \<open>dw\<close> or \<open>dl\<close>, it removes nothing.
\<close>

theorem vi_delete_backward_only:
  assumes "vi_wf s" and "bufs_ok s" and "c1 \<le> length (cur_line (vi_doc s))" and "c2 \<le> length (cur_line (vi_doc s))"
  shows "\<exists>s'. vi_delete_range (vi_row s) c1 (vi_row s) c2 False s = Some s' \<and> vi_col s' = c2 \<and>
    doc_lines (vi_doc s') = (doc_lines (vi_doc s))[nat (vi_row s) := take c2 (cur_line (vi_doc s)) @ drop (max c1 c2) (cur_line (vi_doc s))]"
  by (rule vi_delete_range_row [OF assms])

theorem vi_delete_backward_only_witness:
  "\<exists>s1 s2. vi_delete_range (vi_row demo_vi) 3 (vi_row demo_vi) 1 False demo_vi = Some s1 \<and> doc_lines (vi_doc s1) = [[97, 97, 98], [98, 97]] \<and>
     vi_delete_range (vi_row demo_vi) 1 (vi_row demo_vi) 3 False demo_vi = Some s2 \<and> doc_lines (vi_doc s2) = [[97, 98, 99, 97, 98], [98, 97]]"
  using vi_delete_backward_only [OF demo_vi_ok, of 3 1] vi_delete_backward_only [OF demo_vi_ok, of 1 3]
  by (auto simp: demo_vi_fields demo_vi_doc cur_line_def)

text \<open>
  C40: substitution.  With a pattern that is not empty, the command \<open>:s\<close> replaces every occurrence in the line, from left to right
  and without overlaps, and cuts the result to the 159 characters of a row.
\<close>

theorem vi_substitute_correct:
  assumes "vi_wf s" and "0 \<le> r" and "r < vi_lcount s" and "0 < plen" and "plen \<le> length pat" and "rlen \<le> length rep" and "0 \<notin> set (take rlen rep)"
  shows "\<exists>s'. vi_substitute_line r pat plen rep rlen s = Some s' \<and> rows_ok (vi_lines s') \<and> vi_lcount s' = vi_lcount s \<and>
    doc_lines (vi_doc s') = (doc_lines (vi_doc s))[nat r :=
      take 159 (replace_all (take plen pat) (take rlen rep) (doc_lines (vi_doc s) ! nat r))]"
  by (rule vi_substitute_ok [OF assms])

theorem vi_substitute_correct_witness:
  "\<exists>s'. vi_substitute_line 0 [97, 98, 0] 2 [120, 0] 1 demo_vi = Some s' \<and> doc_lines (vi_doc s') = [[120, 99, 120], [98, 97]]"
proof -
  have "replace_all [97, 98] [120] [97, 98, 99, 97, 98] = [120, 99, 120]" by (simp add: replace_all.simps)
  then show ?thesis using vi_substitute_correct [OF demo_vi_ok(1), of 0 2 "[97, 98, 0]" 1 "[120, 0]"] by (auto simp: demo_vi_fields demo_vi_doc)
qed

end
