(* ===== verification/Shell.thy ===== *)
theory Shell
  imports NanoFile Readline "HOL-Library.Signed_Division"
begin

text \<open>
  The shell \<open>src/kernel/shell/shell.c\<close> and the commands of \<open>src/kernel/shell/commands.c\<close> that work on the file system, the
  working directory, the history and the terminal.

  \<^item> The state is what the commands share: \<open>g_cwd\<close>, the virtual file system, the history, the terminal and the tick counter; the clock
    is a function from its registers to their contents.
  \<^item> A pointer into the line is an offset; an argument of a command is the line from there on, after the splitting has put
    terminators into it.  \<open>argc\<close> is the number of arguments.
  \<^item> \<open>readline\<close> is modelled in \<open>Readline\<close>; an iteration of the shell takes the buffer it leaves.
  \<^item> Commands that show the state of the hardware, of tasks and of the network, the two editors (modelled by themselves) and
    the demonstrations are the argument \<open>other\<close> of the dispatcher.
\<close>

section \<open>State and messages\<close>

record shell_st =
  sh_cwd :: "u8 list"
  sh_vfs :: vfs_st
  sh_hist :: hist_state
  sh_term :: term_state
  sh_ticks :: nat
  sh_cmos :: "u8 \<Rightarrow> u8"

definition say :: "string \<Rightarrow> pk_arg list \<Rightarrow> shell_st \<Rightarrow> shell_st option" where
  "say fmt ap s = do { t \<leftarrow> printk (cstring fmt) ap (sh_term s); Some (s\<lparr>sh_term := t\<rparr>) }"

definition sayln :: "string \<Rightarrow> pk_arg list \<Rightarrow> shell_st \<Rightarrow> shell_st option" where
  "sayln fmt ap s = say (fmt @ [CHR 0x0A]) ap s"

text \<open>A string argument between single quotes.\<close>

definition quoted :: string where
  "quoted = [CHR 0x27, CHR 0x25, CHR 0x73, CHR 0x27]"

text \<open>The value of a signed operation; overflow is undefined.\<close>

definition as_int :: "int \<Rightarrow> int option" where
  "as_int x = (if int_ok x then Some x else None)"

section \<open>Commands on text\<close>

fun echo_args :: "u8 list list \<Rightarrow> bool \<Rightarrow> shell_st \<Rightarrow> shell_st option" where
  "echo_args [] first s = Some s"
| "echo_args (a # args) first s =
     do { s1 \<leftarrow> (if first then Some s else say '' '' [] s);
          s2 \<leftarrow> say ''%s'' [PStr (Some a)] s1;
          echo_args args False s2 }"

definition cmd_echo :: "u8 list list \<Rightarrow> shell_st \<Rightarrow> shell_st option" where
  "cmd_echo argv s = do { s1 \<leftarrow> echo_args (drop 1 argv) True s; sayln [] [] s1 }"

definition apply_operator :: "int \<Rightarrow> u8 \<Rightarrow> int \<Rightarrow> int option" where
  "apply_operator acc op val =
     (if op = 43 then as_int (acc + val)
      else if op = 45 then as_int (acc - val)
      else if op = 42 then as_int (acc * val)
      else if op = 47 then (if val \<noteq> 0 then as_int (acc sdiv val) else Some acc)
      else if op = 37 then
        (if val \<noteq> 0 then do { q \<leftarrow> as_int (acc sdiv val); Some (acc smod val) } else Some acc)
      else Some acc)"

definition is_operator :: "u8 list \<Rightarrow> bool option" where
  "is_operator a =
     do { c \<leftarrow> rd a 0;
          d \<leftarrow> rd a 1;
          Some (d = 0 \<and> (c = 43 \<or> c = 45 \<or> c = 42 \<or> c = 47 \<or> c = 37)) }"

text \<open>The loop over the operands; \<open>Inl\<close> is the argument that stands where an operator is expected.\<close>

fun calc_loop :: "u8 list list \<Rightarrow> int \<Rightarrow> u8 \<Rightarrow> (u8 list + int) option" where
  "calc_loop [] acc op = Some (Inr acc)"
| "calc_loop (a # args) acc op =
     do { c \<leftarrow> rd a 0;
          if c = 0 then calc_loop args acc op
          else do {
            isop \<leftarrow> is_operator a;
            if isop then calc_loop args acc c
            else if op = 0 then Some (Inl a)
            else do { v \<leftarrow> atoi a 0; acc1 \<leftarrow> apply_operator acc op v; calc_loop args acc1 0 } } }"

definition cmd_calc :: "u8 list list \<Rightarrow> shell_st \<Rightarrow> shell_st option" where
  "cmd_calc argv s =
     (case argv of
        a0 # a1 # args \<Rightarrow> do {
          acc \<leftarrow> atoi a1 0;
          r \<leftarrow> calc_loop args acc 0;
          case r of Inl a \<Rightarrow> sayln (''Expected operator before '' @ quoted) [PStr (Some a)] s
          | Inr v \<Rightarrow> sayln ''= %d'' [PInt (of_int v)] s }
      | _ \<Rightarrow> sayln ''Usage: calc <num> <op> <num> [op num]...  (op: + - * / %%)'' [] s)"

section \<open>The working directory\<close>

definition new_path :: "u8 list" where
  "new_path = replicate VFS_MAX_PATH 0"

definition resolve :: "u8 list \<Rightarrow> shell_st \<Rightarrow> u8 list option" where
  "resolve path s = vfs_cmd_resolve (sh_cwd s) (Some path) new_path VFS_MAX_PATH"

definition vfs_is_dir :: "vfs_st \<Rightarrow> u8 list \<Rightarrow> (bool \<times> vfs_st) option" where
  "vfs_is_dir v path =
     do { (r, v1) \<leftarrow> vfs_open_node v path;
          case r of None \<Rightarrow> Some (False, v1)
          | Some ref \<Rightarrow> do { node \<leftarrow> get_node v1 ref; Some (node_flags node = VFS_FT_DIR, v1) } }"

definition cmd_cd :: "u8 list list \<Rightarrow> shell_st \<Rightarrow> shell_st option" where
  "cmd_cd argv s =
     (case argv of
        a0 # a1 # args \<Rightarrow> do {
          home \<leftarrow> strcmp a1 [126, 0];
          let target = (if home = 0 then [47, 0] else a1);
          up \<leftarrow> strcmp target [46, 46, 0];
          full \<leftarrow> (if up = 0 then vfs_cwd_parent (sh_cwd s) new_path VFS_MAX_PATH else resolve target s);
          (dir, v) \<leftarrow> vfs_is_dir (sh_vfs s) full;
          root \<leftarrow> (if dir then Some 0 else strcmp full [47, 0]);
          let s1 = s\<lparr>sh_vfs := v\<rparr>;
          if \<not> dir \<and> root \<noteq> 0 then sayln ''cd: %s: No such directory'' [PStr (Some target)] s1
          else do {
            c1 \<leftarrow> strncpy (sh_cwd s) full (VFS_MAX_PATH - 1);
            c2 \<leftarrow> wr c1 (VFS_MAX_PATH - 1) 0;
            Some (s1\<lparr>sh_cwd := c2\<rparr>) } }
      | _ \<Rightarrow> sayln ''cd: usage: cd <dir>'' [] s)"

definition cmd_pwd :: "shell_st \<Rightarrow> shell_st option" where
  "cmd_pwd s = sayln ''%s'' [PStr (Some (sh_cwd s))] s"

section \<open>Directories and files\<close>

text \<open>An index that is found is below \<open>2 ^ 32\<close>, so the counter does not wrap.\<close>

function ls_loop :: "u8 list \<Rightarrow> nat \<Rightarrow> shell_st \<Rightarrow> (nat \<times> shell_st) option" where
  "ls_loop full index s =
     do { (code, out, v) \<leftarrow> vfs_readdir (sh_vfs s) full index;
          let s1 = s\<lparr>sh_vfs := v\<rparr>;
          if code \<noteq> VFS_OK then Some (index, s1)
          else do {
            node \<leftarrow> out;
            s2 \<leftarrow> (if node_flags node = VFS_FT_DIR then sayln ''%s/'' [PStr (Some (node_name node))] s1
                   else sayln ''%s'' [PStr (Some (node_name node))] s1);
            ls_loop full (Suc index) s2 } }"
  by pat_completeness auto
termination
  by (relation "measure (\<lambda>(full, index, s). 4294967296 - index)") (auto dest: vfs_readdir_count)

declare ls_loop.simps [simp del]

definition cmd_ls :: "u8 list list \<Rightarrow> shell_st \<Rightarrow> shell_st option" where
  "cmd_ls argv s =
     do { full \<leftarrow> resolve (case argv of a0 # a1 # args \<Rightarrow> a1 | _ \<Rightarrow> [46, 0]) s;
          (index, s1) \<leftarrow> ls_loop full 0 s;
          if index = 0 then sayln ''(empty)'' [] s1 else Some s1 }"

definition cat_byte :: "u8 \<Rightarrow> shell_st \<Rightarrow> shell_st option" where
  "cat_byte c s =
     (if c = 10 then sayln [] [] s
      else if 0x20 \<le> c \<and> c < 0x7F then say ''%c'' [PInt (ucast c)] s
      else Some s)"

fun cat_bytes :: "u8 list \<Rightarrow> nat \<Rightarrow> nat \<Rightarrow> shell_st \<Rightarrow> shell_st option" where
  "cat_bytes buf i 0 s = Some s"
| "cat_bytes buf i (Suc n) s = do { c \<leftarrow> rd buf i; s1 \<leftarrow> cat_byte c s; cat_bytes buf (Suc i) n s1 }"

text \<open>The loop ends when \<open>vfs_read\<close> returns no more bytes.\<close>

partial_function (option) cat_loop :: "int \<Rightarrow> u8 list \<Rightarrow> shell_st \<Rightarrow> shell_st option" where
  "cat_loop fd buf s =
     do { (n, b, v) \<leftarrow> vfs_read (sh_vfs s) fd buf 1024;
          if n \<le> 0 then Some (s\<lparr>sh_vfs := v\<rparr>)
          else do { s1 \<leftarrow> cat_bytes b 0 (nat n) (s\<lparr>sh_vfs := v\<rparr>); cat_loop fd b s1 } }"

definition cmd_cat :: "u8 list list \<Rightarrow> shell_st \<Rightarrow> shell_st option" where
  "cmd_cat argv s =
     (case argv of
        a0 # a1 # args \<Rightarrow> do {
          full \<leftarrow> resolve a1 s;
          (fd, v) \<leftarrow> vfs_open (sh_vfs s) full VFS_O_READ;
          let s1 = s\<lparr>sh_vfs := v\<rparr>;
          if fd < 0 then sayln ''cat: cannot open %s'' [PStr (Some a1)] s1
          else do {
            s2 \<leftarrow> cat_loop fd (replicate 1024 0) s1;
            (c, v1) \<leftarrow> vfs_close (sh_vfs s2) fd;
            Some (s2\<lparr>sh_vfs := v1\<rparr>) } }
      | _ \<Rightarrow> sayln ''Usage: cat <path>'' [] s)"

text \<open>\<open>kmalloc_ok\<close>: whether the allocation of the root node succeeds.\<close>

definition cmd_mount :: "bool \<Rightarrow> u8 list list \<Rightarrow> shell_st \<Rightarrow> shell_st option" where
  "cmd_mount kmalloc_ok argv s =
     (case argv of
        a0 # a1 # args \<Rightarrow> do {
          (ret, v) \<leftarrow> vfs_mount kmalloc_ok (sh_vfs s) a1 ext2_name;
          let s1 = s\<lparr>sh_vfs := v\<rparr>;
          if ret \<noteq> VFS_OK then sayln ''mount: failed (%d)'' [PInt (of_int ret)] s1 else Some s1 }
      | _ \<Rightarrow> sayln ''Usage: mount <path>   (mounts ext2 on device 0 at path)'' [] s)"

text \<open>
  What \<open>cmd_touch\<close>, \<open>cmd_mkdir\<close> and \<open>cmd_echo_write\<close> share: find the parent of a path and create an entry in it, reporting
  under the name \<open>who\<close>; the result is the inode, if there is one.
\<close>

definition create_at ::
  "(vfs_st \<Rightarrow> vfs_node_t \<Rightarrow> u8 list \<Rightarrow> (int \<times> nat option \<times> vfs_st) option) \<Rightarrow> string \<Rightarrow> u8 list \<Rightarrow> u8 list \<Rightarrow> shell_st \<Rightarrow>
   (nat option \<times> shell_st) option" where
  "create_at op who arg full s =
     do { (pl, v) \<leftarrow> parent_leaf (sh_vfs s) full;
          case pl of
            None \<Rightarrow> do { s1 \<leftarrow> sayln (who @ '': cannot create '' @ quoted) [PStr (Some arg)] (s\<lparr>sh_vfs := v\<rparr>); Some (None, s1) }
          | Some (parent, leaf) \<Rightarrow> do {
              (code, child_ino, v1) \<leftarrow> op v parent leaf;
              let s1 = s\<lparr>sh_vfs := v1\<rparr>;
              if code \<noteq> VFS_OK then do { s2 \<leftarrow> sayln (who @ '': failed to create '' @ quoted) [PStr (Some arg)] s1; Some (None, s2) }
              else do { n \<leftarrow> child_ino; Some (Some n, s1) } } }"

definition cmd_touch :: "u8 list list \<Rightarrow> shell_st \<Rightarrow> shell_st option" where
  "cmd_touch argv s =
     (case argv of
        a0 # a1 # args \<Rightarrow> do {
          full \<leftarrow> resolve a1 s;
          (r, s1) \<leftarrow> create_at ext2_vfs_create_file ''touch'' a1 full s;
          case r of None \<Rightarrow> Some s1 | Some n \<Rightarrow> sayln ''created: %s (inode %d)'' [PStr (Some full), PInt (of_nat n)] s1 }
      | _ \<Rightarrow> sayln ''Usage: touch <path>'' [] s)"

definition cmd_mkdir :: "u8 list list \<Rightarrow> shell_st \<Rightarrow> shell_st option" where
  "cmd_mkdir argv s =
     (case argv of
        a0 # a1 # args \<Rightarrow> do {
          full \<leftarrow> resolve a1 s;
          (r, s1) \<leftarrow> create_at ext2_vfs_create_dir ''mkdir'' a1 full s;
          case r of None \<Rightarrow> Some s1 | Some n \<Rightarrow> sayln ''created dir: %s (inode %d)'' [PStr (Some full), PInt (of_nat n)] s1 }
      | _ \<Rightarrow> sayln ''Usage: mkdir <path>'' [] s)"

text \<open>The text of \<open>cmd_echo_write\<close>: the words joined by blanks, in a buffer of 512 bytes.\<close>

definition CONTENT_SZ :: nat where
  "CONTENT_SZ = 512"

function content_word :: "u8 list \<Rightarrow> nat \<Rightarrow> u8 list \<Rightarrow> nat \<Rightarrow> (u8 list \<times> nat) option" where
  "content_word a k content pos =
     do { c \<leftarrow> rd a k;
          if c \<noteq> 0 \<and> pos < CONTENT_SZ - 1 then do { b \<leftarrow> wr content pos c; content_word a (Suc k) b (Suc pos) }
          else Some (content, pos) }"
  by pat_completeness auto
termination
  by (relation "measure (\<lambda>(a, k, content, pos). length a - k)") (auto dest: rd_SomeD)

declare content_word.simps [simp del]

fun content_words :: "u8 list list \<Rightarrow> bool \<Rightarrow> u8 list \<Rightarrow> nat \<Rightarrow> (u8 list \<times> nat) option" where
  "content_words [] first content pos = Some (content, pos)"
| "content_words (a # args) first content pos =
     do { (c1, p1) \<leftarrow> (if \<not> first \<and> pos < CONTENT_SZ - 1 then do { b \<leftarrow> wr content pos 32; Some (b, Suc pos) } else Some (content, pos));
          (c2, p2) \<leftarrow> content_word a 0 c1 p1;
          content_words args False c2 p2 }"

definition cmd_echo_write :: "u8 list list \<Rightarrow> shell_st \<Rightarrow> shell_st option" where
  "cmd_echo_write argv s =
     (case argv of
        [a0, a1] \<Rightarrow> do {
          full \<leftarrow> resolve a1 s;
          (r, s1) \<leftarrow> create_at ext2_vfs_create_file ''echo'' a1 full s;
          case r of None \<Rightarrow> Some s1 | Some n \<Rightarrow> sayln ''created: %s'' [PStr (Some full)] s1 }
      | a0 # a1 # a2 # args \<Rightarrow> do {
          let path = last argv;
          full \<leftarrow> resolve path s;
          (c1, pos) \<leftarrow> content_words (butlast (drop 1 argv)) True (replicate CONTENT_SZ 0) 0;
          content \<leftarrow> wr c1 pos 0;
          (r, s1) \<leftarrow> create_at ext2_vfs_create_file ''echo'' path full s;
          case r of None \<Rightarrow> Some s1
          | Some _ \<Rightarrow> do {
              (fd, v) \<leftarrow> vfs_open (sh_vfs s1) full (VFS_O_READ + VFS_O_WRITE);
              if fd < 0 then sayln (''echo: cannot open '' @ quoted) [PStr (Some path)] (s1\<lparr>sh_vfs := v\<rparr>)
              else do {
                (n, v1) \<leftarrow> vfs_write v fd content pos;
                (c, v2) \<leftarrow> vfs_close v1 fd;
                sayln ''wrote %d bytes to %s'' [PInt (of_int n), PStr (Some full)] (s1\<lparr>sh_vfs := v2\<rparr>) } } }
      | _ \<Rightarrow> do {
          s1 \<leftarrow> sayln ''Usage: echo_write <text> <path>'' [] s;
          sayln ''       echo_write <path>       (create empty file)'' [] s1 })"

definition rm_one :: "bool \<Rightarrow> u8 list \<Rightarrow> shell_st \<Rightarrow> shell_st option" where
  "rm_one recursive a s =
     do { full \<leftarrow> resolve a s;
          (r, v) \<leftarrow> vfs_open_node (sh_vfs s) full;
          let s1 = s\<lparr>sh_vfs := v\<rparr>;
          case r of None \<Rightarrow> sayln ''rm: %s: no such file'' [PStr (Some a)] s1
          | Some ref \<Rightarrow> do {
              node \<leftarrow> get_node v ref;
              if node_flags node = VFS_FT_DIR \<and> \<not> recursive then sayln ''rm: %s: is a directory (use rm -r)'' [PStr (Some a)] s1
              else do {
                (ret, v1) \<leftarrow> (if recursive then vfs_rmtree full v else vfs_unlink v full);
                let s2 = s\<lparr>sh_vfs := v1\<rparr>;
                if ret = VFS_OK then sayln ''removed: %s'' [PStr (Some full)] s2
                else sayln ''rm: %s: failed (%d)'' [PStr (Some a), PInt (of_int ret)] s2 } } }"

fun rm_args :: "bool \<Rightarrow> u8 list list \<Rightarrow> shell_st \<Rightarrow> shell_st option" where
  "rm_args recursive [] s = Some s"
| "rm_args recursive (a # args) s = do { s1 \<leftarrow> rm_one recursive a s; rm_args recursive args s1 }"

definition is_recursive :: "u8 list \<Rightarrow> bool option" where
  "is_recursive a =
     do { d1 \<leftarrow> strcmp a [45, 114, 0];
          d2 \<leftarrow> (if d1 = 0 then Some 0 else strcmp a [45, 114, 102, 0]);
          d3 \<leftarrow> (if d2 = 0 then Some 0 else strcmp a [45, 102, 114, 0]);
          Some (d3 = 0) }"

definition cmd_rm :: "u8 list list \<Rightarrow> shell_st \<Rightarrow> shell_st option" where
  "cmd_rm argv s =
     (case argv of
        a0 # a1 # args \<Rightarrow> do {
          recursive \<leftarrow> is_recursive a1;
          rm_args recursive (if recursive then args else a1 # args) s }
      | _ \<Rightarrow> do {
          s1 \<leftarrow> sayln ''Usage: rm <path>...      (remove files)'' [] s;
          sayln ''       rm -r <path>...   (remove directories recursively)'' [] s1 })"

definition rmdir_one :: "u8 list \<Rightarrow> shell_st \<Rightarrow> shell_st option" where
  "rmdir_one a s =
     do { full \<leftarrow> resolve a s;
          (ret, v) \<leftarrow> vfs_rmdir (sh_vfs s) full;
          let s1 = s\<lparr>sh_vfs := v\<rparr>;
          if ret = VFS_OK then sayln ''removed: %s'' [PStr (Some full)] s1
          else if ret = VFS_ERR_IS_FILE then sayln ''rmdir: %s: not a directory'' [PStr (Some a)] s1
          else sayln ''rmdir: %s: failed (%d)'' [PStr (Some a), PInt (of_int ret)] s1 }"

fun rmdir_args :: "u8 list list \<Rightarrow> shell_st \<Rightarrow> shell_st option" where
  "rmdir_args [] s = Some s"
| "rmdir_args (a # args) s = do { s1 \<leftarrow> rmdir_one a s; rmdir_args args s1 }"

definition cmd_rmdir :: "u8 list list \<Rightarrow> shell_st \<Rightarrow> shell_st option" where
  "cmd_rmdir argv s =
     (case argv of
        a0 # a1 # args \<Rightarrow> rmdir_args (a1 # args) s
      | _ \<Rightarrow> sayln ''Usage: rmdir <path>...   (remove empty directories)'' [] s)"

definition cmd_mv :: "u8 list list \<Rightarrow> shell_st \<Rightarrow> shell_st option" where
  "cmd_mv argv s =
     (case argv of
        a0 # a1 # a2 # args \<Rightarrow> do {
          full1 \<leftarrow> resolve a1 s;
          full2 \<leftarrow> resolve a2 s;
          (r, v) \<leftarrow> vfs_open_node (sh_vfs s) full1;
          if r = None then sayln ''mv: %s: no such file'' [PStr (Some a1)] (s\<lparr>sh_vfs := v\<rparr>)
          else do {
            (ret, v1) \<leftarrow> vfs_rename v full1 full2;
            let s1 = s\<lparr>sh_vfs := v1\<rparr>;
            if ret \<noteq> VFS_OK then sayln ''mv: %s -> %s failed (%d)'' [PStr (Some full1), PStr (Some full2), PInt (of_int ret)] s1
            else sayln ''%s -> %s'' [PStr (Some full1), PStr (Some full2)] s1 } }
      | _ \<Rightarrow> do {
          s1 \<leftarrow> sayln ''Usage: mv <source> <dest>'' [] s;
          sayln ''       (if <dest> is a directory, <source> is moved into it)'' [] s1 })"

section \<open>History, clock and help\<close>

text \<open>The newest line first, with its number; the lines \<open>n - 1\<close> down to \<open>0\<close>.\<close>

fun history_lines :: "nat \<Rightarrow> shell_st \<Rightarrow> shell_st option" where
  "history_lines 0 s = Some s"
| "history_lines (Suc n) s =
     do { s1 \<leftarrow> sayln ''  %d  %s'' [PInt (of_nat n), PStr (shell_history_get (sh_hist s) n)] s;
          history_lines n s1 }"

definition cmd_history :: "shell_st \<Rightarrow> shell_st option" where
  "cmd_history s =
     (let n = shell_history_count (sh_hist s)
      in if n = 0 then sayln ''No history.'' [] s else history_lines n s)"

definition rtc_conv :: "u8 \<Rightarrow> bool \<Rightarrow> u8" where
  "rtc_conv v bcd = (if bcd then (v AND 0x0F) + drop_bit 4 v * 10 else v)"

definition cmd_date :: "shell_st \<Rightarrow> shell_st option" where
  "cmd_date s =
     (let bcd = (sh_cmos s 0x0B AND 0x04 = 0);
          reg = (\<lambda>r. rtc_conv (sh_cmos s r) bcd);
          cent = reg 0x32;
          yy = (if cent \<noteq> 0 then ucast cent * 100 + ucast (reg 0x09) else 2000 + ucast (reg 0x09) :: u16)
      in sayln ''%04d-%02d-%02d %02d:%02d:%02d''
           [PInt (ucast yy), PInt (ucast (reg 0x08)), PInt (ucast (reg 0x07)), PInt (ucast (reg 0x04)), PInt (ucast (reg 0x02)),
            PInt (ucast (reg 0x00))] s)"

definition cmd_netstat :: "shell_st \<Rightarrow> shell_st option" where
  "cmd_netstat s =
     do { s1 \<leftarrow> sayln ''Active Internet connections'' [] s;
          s2 \<leftarrow> sayln ''Proto  Local Address        Remote Address       State'' [] s1;
          sayln ''tcp    :%-5u                %-17s ESTABLISHED'' [PInt 0, PStr (Some (cstring ''(active)''))] s2 }"

definition show_time :: "shell_st \<Rightarrow> shell_st option" where
  "show_time s =
     sayln ''Up time is %d minutes %d seconds.'' [PInt (of_nat (sh_ticks s div 18 div 60)), PInt (of_nat (sh_ticks s div 18 mod 60))] s"

definition cmd_clear :: "shell_st \<Rightarrow> shell_st option" where
  "cmd_clear s = do { t \<leftarrow> term_clear (sh_term s); Some (s\<lparr>sh_term := t\<rparr>) }"

text \<open>The names the dispatcher knows: those it tests itself, then the table.\<close>

datatype command = Cmd_help | Cmd_clear | Cmd_time | Cmd_shutdown | Cmd_reboot | Cmd_stacktrace | Cmd_map | Cmd_kmalloc | Cmd_vmalloc
  | Cmd_paging | Cmd_page_panic | Cmd_div_panic | Cmd_fetch | Cmd_history | Cmd_echo | Cmd_sleep | Cmd_calc
  | Cmd_hexdump | Cmd_cpuid | Cmd_gdt | Cmd_idt | Cmd_irq | Cmd_date | Cmd_cpu | Cmd_ls | Cmd_cat | Cmd_cd | Cmd_mount
  | Cmd_pwd | Cmd_df | Cmd_touch | Cmd_mkdir | Cmd_echo_write | Cmd_rm | Cmd_rmdir | Cmd_mv | Cmd_nano | Cmd_vi
  | Cmd_usb | Cmd_ps | Cmd_exec | Cmd_ifconfig | Cmd_netstat | Cmd_ping | Cmd_curl

definition builtins :: "(string \<times> command) list" where
  "builtins =
    [(''help'', Cmd_help),
     (''clear'', Cmd_clear),
     (''time'', Cmd_time),
     (''shutdown'', Cmd_shutdown),
     (''reboot'', Cmd_reboot),
     (''stacktrace'', Cmd_stacktrace),
     (''map'', Cmd_map),
     (''kmalloc'', Cmd_kmalloc),
     (''vmalloc'', Cmd_vmalloc),
     (''paging'', Cmd_paging),
     (''page_panic'', Cmd_page_panic),
     (''div_panic'', Cmd_div_panic)]"

definition g_commands :: "(string \<times> string \<times> command) list" where
  "g_commands =
    [(''fetch'', ''Print the kernel fastfetch-style banner'', Cmd_fetch),
     (''history'', ''Print command history'', Cmd_history),
     (''echo'', ''Echo the given arguments'', Cmd_echo),
     (''sleep'', ''Sleep for N seconds'', Cmd_sleep),
     (''calc'', ''Simple arithmetic calculator'', Cmd_calc),
     (''hexdump'', ''Dump memory at an address'', Cmd_hexdump),
     (''cpuid'', ''Print CPU info'', Cmd_cpuid),
     (''gdt'', ''Dump the Global Descriptor Table'', Cmd_gdt),
     (''idt'', ''Dump the Interrupt Descriptor Table'', Cmd_idt),
     (''irq'', ''List registered IRQ handlers'', Cmd_irq),
     (''date'', ''Read the CMOS real-time clock'', Cmd_date),
     (''cpu'', ''Print the CPU brand string'', Cmd_cpu),
     (''ls'', ''List a directory'', Cmd_ls),
     (''cat'', ''Print a file'', Cmd_cat),
     (''cd'', ''Change working directory'', Cmd_cd),
     (''mount'', ''Mount a filesystem'', Cmd_mount),
     (''pwd'', ''Print working directory'', Cmd_pwd),
     (''df'', ''Show disk usage'', Cmd_df),
     (''touch'', ''Create an empty file'', Cmd_touch),
     (''mkdir'', ''Create a new directory'', Cmd_mkdir),
     (''echo_write'', ''Write text to a file'', Cmd_echo_write),
     (''rm'', ''Remove a file (-r for directories)'', Cmd_rm),
     (''rmdir'', ''Remove an empty directory'', Cmd_rmdir),
     (''mv'', ''Rename or move a file/directory'', Cmd_mv),
     (''nano'', ''Simple text editor'', Cmd_nano),
     (''vi'', ''Minimal vi editor'', Cmd_vi),
     (''usb'', ''List USB devices'', Cmd_usb),
     (''ps'', ''List running kernel tasks'', Cmd_ps),
     (''exec'', ''Spawn a ring3 user task'', Cmd_exec),
     (''ifconfig'', ''Show the network interface config'', Cmd_ifconfig),
     (''netstat'', ''Show network link/packet state'', Cmd_netstat),
     (''ping'', ''ICMP echo (default 4, or -c count)'', Cmd_ping),
     (''curl'', ''Fetch a URL over the network'', Cmd_curl)]"

text \<open>The first entry of a name, by \<open>strcmp\<close>.\<close>

fun find_entry :: "(string \<times> 'a) list \<Rightarrow> u8 list \<Rightarrow> 'a option option" where
  "find_entry [] nm = Some None"
| "find_entry ((n, x) # es) nm = do { d \<leftarrow> strcmp nm (cstring n); if d = 0 then Some (Some x) else find_entry es nm }"

definition term_setcolor :: "u8 \<Rightarrow> shell_st \<Rightarrow> shell_st" where
  "term_setcolor color s = s\<lparr>sh_term := (sh_term s)\<lparr>t_color := color\<rparr>\<rparr>"

fun spaces :: "nat \<Rightarrow> shell_st \<Rightarrow> shell_st option" where
  "spaces 0 s = Some s"
| "spaces (Suc n) s = do { s1 \<leftarrow> say '' '' [] s; spaces n s1 }"

fun help_names :: "string list \<Rightarrow> nat \<Rightarrow> nat \<Rightarrow> nat \<Rightarrow> shell_st \<Rightarrow> shell_st option" where
  "help_names [] i colwidth cols s = Some s"
| "help_names (n # ns) i colwidth cols s =
     do { s1 \<leftarrow> say ''%s'' [PStr (Some (cstring n))] s;
          s2 \<leftarrow> spaces (colwidth - length n) s1;
          s3 \<leftarrow> (if (i + 1) mod cols = 0 then sayln [] [] s2 else Some s2);
          help_names ns (Suc i) colwidth cols s3 }"

definition cmd_help :: "u8 list list \<Rightarrow> shell_st \<Rightarrow> shell_st option" where
  "cmd_help argv s =
     (case argv of
        a0 # a1 # args \<Rightarrow> do {
          r \<leftarrow> find_entry (map (\<lambda>(n, h, c). (n, (n, h))) g_commands) a1;
          case r of Some (n, h) \<Rightarrow> sayln ''%s - %s'' [PStr (Some (cstring n)), PStr (Some (cstring h))] s
          | None \<Rightarrow> sayln (''help: no such command '' @ quoted @ '' (see '' @ [CHR 0x27] @ ''help'' @ [CHR 0x27] @ '')'') [PStr (Some a1)] s }
      | _ \<Rightarrow> do {
          let colwidth = foldl (\<lambda>m (n, h, c). max m (length n)) 1 g_commands + 3;
          let cols = max 1 (term_width (sh_term s) div colwidth);
          s1 \<leftarrow> say (''shell commands(%u) - '' @ [CHR 0x27]) [PInt (of_nat (length g_commands))] s;
          s2 \<leftarrow> say ''help <cmd>'' [] (term_setcolor (vga_entry_color 11 0) s1);
          s3 \<leftarrow> sayln ([CHR 0x27] @ '' for details:'' @ [CHR 0x0A]) [] (term_setcolor (vga_entry_color 7 0) s2);
          s4 \<leftarrow> help_names (map fst g_commands) 0 colwidth cols s3;
          sayln [] [] s4 })"

section \<open>The dispatcher\<close>

function skip_blank :: "u8 list \<Rightarrow> nat \<Rightarrow> nat option" where
  "skip_blank buf cur = do { c \<leftarrow> rd buf cur; if c = 32 \<or> c = 9 then skip_blank buf (Suc cur) else Some cur }"
  by pat_completeness auto
termination
  by (relation "measure (\<lambda>(buf, cur). length buf - cur)") (auto dest: rd_SomeD)

function skip_word :: "u8 list \<Rightarrow> nat \<Rightarrow> nat option" where
  "skip_word buf cur = do { c \<leftarrow> rd buf cur; if c \<noteq> 0 \<and> c \<noteq> 32 \<and> c \<noteq> 9 then skip_word buf (Suc cur) else Some cur }"
  by pat_completeness auto
termination
  by (relation "measure (\<lambda>(buf, cur). length buf - cur)") (auto dest: rd_SomeD)

definition MAX_ARGS :: nat where
  "MAX_ARGS = 16"

text \<open>The splitting in place: the line with terminators behind the words, and the offsets of the words.\<close>

function split_args :: "u8 list \<Rightarrow> nat \<Rightarrow> nat list \<Rightarrow> (u8 list \<times> nat list) option" where
  "split_args buf cur argv =
     do { c \<leftarrow> rd buf cur;
          if c = 0 \<or> MAX_ARGS \<le> length argv then Some (buf, argv)
          else do {
            p \<leftarrow> skip_blank buf cur;
            d \<leftarrow> rd buf p;
            if d = 0 then Some (buf, argv)
            else do {
              q \<leftarrow> skip_word buf p;
              e \<leftarrow> rd buf q;
              if e \<noteq> 0 then do { b \<leftarrow> wr buf q 0; split_args b (Suc q) (argv @ [p]) }
              else split_args buf q (argv @ [p]) } } }"
  by pat_completeness auto
termination
  by (relation "measure (\<lambda>(buf, cur, argv). MAX_ARGS - length argv)") auto

declare skip_blank.simps [simp del] skip_word.simps [simp del] split_args.simps [simp del]

type_synonym handler = "command \<Rightarrow> u8 list list \<Rightarrow> shell_st \<Rightarrow> shell_st option"

definition run_command :: "handler \<Rightarrow> bool \<Rightarrow> handler" where
  "run_command other kmalloc_ok c argv s =
     (case c of
        Cmd_help \<Rightarrow> cmd_help argv s
      | Cmd_clear \<Rightarrow> cmd_clear s
      | Cmd_time \<Rightarrow> show_time s
      | Cmd_history \<Rightarrow> cmd_history s
      | Cmd_echo \<Rightarrow> cmd_echo argv s
      | Cmd_calc \<Rightarrow> cmd_calc argv s
      | Cmd_date \<Rightarrow> cmd_date s
      | Cmd_ls \<Rightarrow> cmd_ls argv s
      | Cmd_cat \<Rightarrow> cmd_cat argv s
      | Cmd_cd \<Rightarrow> cmd_cd argv s
      | Cmd_mount \<Rightarrow> cmd_mount kmalloc_ok argv s
      | Cmd_pwd \<Rightarrow> cmd_pwd s
      | Cmd_touch \<Rightarrow> cmd_touch argv s
      | Cmd_mkdir \<Rightarrow> cmd_mkdir argv s
      | Cmd_echo_write \<Rightarrow> cmd_echo_write argv s
      | Cmd_rm \<Rightarrow> cmd_rm argv s
      | Cmd_rmdir \<Rightarrow> cmd_rmdir argv s
      | Cmd_mv \<Rightarrow> cmd_mv argv s
      | Cmd_netstat \<Rightarrow> cmd_netstat s
      | _ \<Rightarrow> other c argv s)"

definition command_names :: "(string \<times> command) list" where
  "command_names = builtins @ map (\<lambda>(n, h, c). (n, c)) g_commands"

definition dispatch :: "handler \<Rightarrow> u8 list \<Rightarrow> shell_st \<Rightarrow> shell_st option" where
  "dispatch exec buf s =
     do { (b, offs) \<leftarrow> split_args buf 0 [];
          let argv = map (\<lambda>p. drop p b) offs;
          case argv of [] \<Rightarrow> Some s
          | a0 # args \<Rightarrow> do {
              r \<leftarrow> find_entry command_names a0;
              case r of None \<Rightarrow> sayln ''rtjn-kernel: Command not found.'' [] s | Some c \<Rightarrow> exec c argv s } }"

definition TERM_BUFF :: nat where
  "TERM_BUFF = 255"

text \<open>An iteration of the loop of \<open>shell\<close>; \<open>line\<close> is the buffer as \<open>readline\<close> leaves it.\<close>

definition shell_line :: "handler \<Rightarrow> u8 list \<Rightarrow> shell_st \<Rightarrow> shell_st option" where
  "shell_line exec line s =
     do { s1 \<leftarrow> say ''%s> '' [PStr (Some (sh_cwd s))] s;
          s2 \<leftarrow> sayln [] [] s1;
          len \<leftarrow> strlen line;
          if len = 0 then Some s2
          else do {
            h \<leftarrow> shell_record line (sh_hist s2);
            b \<leftarrow> wr line TERM_BUFF 0;
            dispatch exec b (s2\<lparr>sh_hist := h\<rparr>) } }"

end
