(* ===== verification/ShellProps.thy ===== *)
theory ShellProps
  imports Shell
begin

text \<open>
  Properties of the shell: the arguments of a command are the words of the line; the working directory is canonical and
  \<open>cd\<close> moves in the tree of directories; \<open>cat\<close> shows the bytes of a file; and every line, whatever it says, leaves the state well formed.
\<close>

section \<open>Words of a line\<close>

definition blank :: "u8 \<Rightarrow> bool" where
  "blank c \<longleftrightarrow> c = 32 \<or> c = 9"

function blank_words :: "u8 list \<Rightarrow> u8 list list" where
  "blank_words xs =
     (case dropWhile blank xs of
        [] \<Rightarrow> []
      | y # ys \<Rightarrow> (y # takeWhile (\<lambda>c. \<not> blank c) ys) # blank_words (dropWhile (\<lambda>c. \<not> blank c) ys))"
  by pat_completeness auto
termination
proof (relation "measure length", goal_cases)
  case (2 xs y ys)
  then have "length (y # ys) \<le> length xs" by (metis length_dropWhile_le)
  then show ?case using length_dropWhile_le [of "\<lambda>c. \<not> blank c" ys] by simp
qed simp

declare blank_words.simps [simp del]

lemma blank_words_Nil [simp]: "blank_words [] = []"
  by (simp add: blank_words.simps)

lemma blank_words_skip: "blank_words (dropWhile blank xs) = blank_words xs"
  by (simp add: blank_words.simps [of xs] blank_words.simps [of "dropWhile blank xs"])

lemma blank_words_blank: "blank b \<Longrightarrow> blank_words (b # xs) = blank_words xs"
  using blank_words_skip [of "b # xs"] blank_words_skip [of xs] by simp

lemma skip_blank_spec:
  "terminated (drop cur buf) \<Longrightarrow>
     \<exists>p. skip_blank buf cur = Some p \<and> cur \<le> p \<and> terminated (drop p buf) \<and> cstr (drop p buf) = dropWhile blank (cstr (drop cur buf))"
proof (induction buf cur rule: skip_blank.induct)
  case (1 buf cur)
  have r: "rd buf cur = Some (buf ! cur)" using terminated_drop_index [OF "1.prems"] by (simp add: rd_in)
  show ?case
  proof (cases "buf ! cur = 32 \<or> buf ! cur = 9")
    case True
    then have "buf ! cur \<noteq> 0" by auto
    from cstr_drop_Cons [OF "1.prems" this] have c: "cstr (drop cur buf) = buf ! cur # cstr (drop (Suc cur) buf)"
      "terminated (drop (Suc cur) buf)" by simp_all
    from "1.IH" [OF r True c(2)] show ?thesis using r True c(1) by (auto simp: skip_blank.simps [of buf cur] blank_def intro: Suc_leD)
  next
    case False
    then have "dropWhile blank (cstr (drop cur buf)) = cstr (drop cur buf)"
      using cstr_drop_Cons [OF "1.prems"] cstr_drop_zero [of cur buf] terminated_drop_index [OF "1.prems"]
      by (cases "buf ! cur = 0") (auto simp: blank_def)
    then show ?thesis using r False "1.prems" by (simp add: skip_blank.simps [of buf cur])
  qed
qed

lemma skip_word_spec:
  "terminated (drop cur buf) \<Longrightarrow>
     \<exists>q. skip_word buf cur = Some q \<and> q = cur + length (takeWhile (\<lambda>c. \<not> blank c) (cstr (drop cur buf))) \<and>
       terminated (drop q buf) \<and> cstr (drop q buf) = dropWhile (\<lambda>c. \<not> blank c) (cstr (drop cur buf))"
proof (induction buf cur rule: skip_word.induct)
  case (1 buf cur)
  have i: "cur < length buf" using terminated_drop_index [OF "1.prems"] .
  then have r: "rd buf cur = Some (buf ! cur)" by (simp add: rd_in)
  show ?case
  proof (cases "buf ! cur \<noteq> 0 \<and> buf ! cur \<noteq> 32 \<and> buf ! cur \<noteq> 9")
    case True
    from cstr_drop_Cons [OF "1.prems"] True have c: "cstr (drop cur buf) = buf ! cur # cstr (drop (Suc cur) buf)"
      "terminated (drop (Suc cur) buf)" by simp_all
    from "1.IH" [OF r True c(2)] show ?thesis using r True c(1) by (auto simp: skip_word.simps [of buf cur] blank_def)
  next
    case False
    then have "cstr (drop cur buf) = [] \<or> (\<exists>xs. cstr (drop cur buf) = buf ! cur # xs \<and> blank (buf ! cur))"
      using cstr_drop_Cons [OF "1.prems"] cstr_drop_zero [OF i] by (cases "buf ! cur = 0") (auto simp: blank_def)
    then show ?thesis using r False "1.prems" by (auto simp: skip_word.simps [of buf cur])
  qed
qed

lemma take_prefix_cstr:
  assumes "terminated (drop p buf)" and "q = p + length (takeWhile P (cstr (drop p buf)))"
  shows "take (q - p) (drop p buf) = takeWhile P (cstr (drop p buf))"
proof -
  let ?w = "takeWhile P (cstr (drop p buf))"
  have "length ?w \<le> length (cstr (drop p buf))" by (rule length_takeWhile_le)
  moreover have "?w = take (length ?w) (cstr (drop p buf))" by (rule takeWhile_eq_take)
  ultimately show ?thesis using assms(2) cstr_take [of "drop p buf"] by (metis add_diff_cancel_left' min.absorb1 take_take)
qed

text \<open>One word: from \<open>p\<close> to the terminator at \<open>q\<close>.\<close>

lemma word_at:
  assumes "terminated (drop p buf)" and "q = p + length (takeWhile P (cstr (drop p buf)))"
    and "length buf' = length buf" and "\<And>i. i < q \<Longrightarrow> buf' ! i = buf ! i" and "buf' ! q = 0" and "q < length buf"
  shows "cstr (drop p buf') = takeWhile P (cstr (drop p buf)) \<and> terminated (drop p buf')"
proof -
  have t: "take (q - p) (drop p buf) = takeWhile P (cstr (drop p buf))" using take_prefix_cstr [OF assms(1,2)] .
  then have "0 \<notin> set (take (q - p) (drop p buf))" using cstr_no_zero [of "drop p buf"] by (auto dest: set_takeWhileD)
  then have "cstr (drop p buf') = take (q - p) (drop p buf)" using assms by (intro cstr_token) auto
  moreover have "drop p buf' ! (q - p) = 0" "q - p < length (drop p buf')" using assms by auto
  then have "terminated (drop p buf')" unfolding terminated_def by (metis nth_mem)
  ultimately show ?thesis using t by simp
qed

lemma blank_words_step:
  assumes "dropWhile blank xs = y # ys"
  shows "blank_words xs = takeWhile (\<lambda>c. \<not> blank c) (y # ys) # blank_words (dropWhile (\<lambda>c. \<not> blank c) (y # ys))"
proof -
  have "\<not> blank y" using hd_dropWhile [of blank xs] assms by simp
  then show ?thesis using assms by (simp add: blank_words.simps [of xs])
qed

text \<open>The next word of the line, as the dispatcher delimits it.\<close>

lemma next_word:
  assumes "terminated (drop cur buf)" and "skip_blank buf cur = Some p" and "buf ! p \<noteq> 0"
  obtains q where "skip_word buf p = Some q" and "cur \<le> p" and "p \<le> q" and "q < length buf" and "terminated (drop q buf)"
    and "\<And>buf'. length buf' = length buf \<Longrightarrow> (\<And>i. i < q \<Longrightarrow> buf' ! i = buf ! i) \<Longrightarrow> buf' ! q = 0 \<Longrightarrow>
      terminated (drop p buf') \<and> blank_words (cstr (drop cur buf)) = cstr (drop p buf') # blank_words (cstr (drop q buf))"
    and "buf ! q = 0 \<or> blank (buf ! q)"
proof -
  let ?P = "\<lambda>c. \<not> blank c"
  have p: "cur \<le> p" "terminated (drop p buf)" "cstr (drop p buf) = dropWhile blank (cstr (drop cur buf))"
    using skip_blank_spec [OF assms(1)] assms(2) by auto
  obtain y ys where y: "cstr (drop p buf) = y # ys" using cstr_drop_Cons [OF p(2) assms(3)] by auto
  obtain q where q: "skip_word buf p = Some q" "q = p + length (takeWhile ?P (cstr (drop p buf)))" "terminated (drop q buf)"
    "cstr (drop q buf) = dropWhile ?P (cstr (drop p buf))" using skip_word_spec [OF p(2)] by auto
  have iq: "q < length buf" using terminated_drop_index [OF q(3)] .
  have bw: "blank_words (cstr (drop cur buf)) = takeWhile ?P (cstr (drop p buf)) # blank_words (cstr (drop q buf))"
    unfolding q(4) y by (rule blank_words_step) (use p(3) y in simp)
  have e: "buf ! q = 0 \<or> blank (buf ! q)"
    using cstr_drop_Cons [OF q(3)] hd_dropWhile [of ?P "cstr (drop p buf)"] unfolding q(4) by (cases "buf ! q = 0") auto
  have "terminated (drop p buf') \<and> blank_words (cstr (drop cur buf)) = cstr (drop p buf') # blank_words (cstr (drop q buf))"
    if "length buf' = length buf" "\<And>i. i < q \<Longrightarrow> buf' ! i = buf ! i" "buf' ! q = 0" for buf'
    using word_at [OF p(2) q(2) that iq] bw by simp
  then show thesis using that q(1,3) p(1) q(2) iq e by auto
qed

lemma split_args_spec:
  "terminated (drop cur buf) \<Longrightarrow>
     \<exists>buf' new. split_args buf cur argv = Some (buf', argv @ new) \<and> length buf' = length buf \<and> (\<forall>i < cur. buf' ! i = buf ! i) \<and>
       map (\<lambda>p. cstr (drop p buf')) new = take (16 - length argv) (blank_words (cstr (drop cur buf))) \<and>
       (\<forall>p \<in> set new. terminated (drop p buf'))"
proof (induction buf cur argv rule: split_args.induct)
  case (1 buf cur argv)
  let ?s = "cstr (drop cur buf)"
  have i: "cur < length buf" using terminated_drop_index [OF "1.prems"] .
  then have r: "rd buf cur = Some (buf ! cur)" by (simp add: rd_in)
  obtain p where p: "skip_blank buf cur = Some p" "terminated (drop p buf)" "cstr (drop p buf) = dropWhile blank ?s"
    using skip_blank_spec [OF "1.prems"] by auto
  have ip: "p < length buf" using terminated_drop_index [OF p(2)] .
  then have rp: "rd buf p = Some (buf ! p)" by (simp add: rd_in)
  consider "buf ! cur = 0 \<or> MAX_ARGS \<le> length argv" | "\<not> (buf ! cur = 0 \<or> MAX_ARGS \<le> length argv)" "buf ! p = 0"
    | "\<not> (buf ! cur = 0 \<or> MAX_ARGS \<le> length argv)" "buf ! p \<noteq> 0" by blast
  then show ?case
  proof cases
    case 1
    then have "take (16 - length argv) (blank_words ?s) = []" using cstr_drop_zero [OF i] by (auto simp: MAX_ARGS_def)
    then show ?thesis using 1 r by (simp add: split_args.simps [of buf cur])
  next
    case 2
    then have "dropWhile blank ?s = []" using cstr_drop_zero [OF ip] p(3) by simp
    then have "blank_words ?s = []" using blank_words_skip [of ?s] by (metis blank_words_Nil)
    then show ?thesis using 2 r rp p(1) by (simp add: split_args.simps [of buf cur])
  next
    case word: 3
    have n: "16 - length argv = Suc (16 - length (argv @ [p]))" using word(1) unfolding MAX_ARGS_def length_append by (simp only: list.size) linarith
    obtain q where q: "skip_word buf p = Some q" "cur \<le> p" "p \<le> q" "q < length buf"
      "terminated (drop q buf)" "buf ! q = 0 \<or> blank (buf ! q)" and token: "\<And>buf'. length buf' = length buf \<Longrightarrow>
      (\<And>i. i < q \<Longrightarrow> buf' ! i = buf ! i) \<Longrightarrow> buf' ! q = 0 \<Longrightarrow> terminated (drop p buf') \<and> blank_words ?s = cstr (drop p buf') # blank_words (cstr (drop q buf))"
      by (rule next_word [OF "1.prems" p(1) word(2)]) blast
    have rq: "rd buf q = Some (buf ! q)" using q(4) by (simp add: rd_in)
    show ?thesis
    proof (cases "buf ! q = 0")
      case True
      have "split_args buf cur argv = Some (buf, argv @ [p])"
        using word True r rp rq p(1) q(1) by (simp add: split_args.simps [of buf cur] split_args.simps [of buf q])
      then show ?thesis using token [of buf] True cstr_drop_zero [OF q(4) True] n by (intro exI [of _ buf] exI [of _ "[p]"]) simp
    next
      case False
      let ?b = "buf[q := 0]"
      have w: "wr buf q 0 = Some ?b" using q(4) by (simp add: wr_in)
      from cstr_drop_Cons [OF q(5) False] have d: "cstr (drop q buf) = buf ! q # cstr (drop (Suc q) buf)"
        and c: "terminated (drop (Suc q) buf)" by simp_all
      have bw: "blank_words (cstr (drop q buf)) = blank_words (cstr (drop (Suc q) buf))"
        unfolding d by (rule blank_words_blank) (use q(6) False in simp)
      obtain buf' new where st: "split_args ?b (Suc q) (argv @ [p]) = Some (buf', (argv @ [p]) @ new)" "length buf' = length buf"
        "\<forall>i < Suc q. buf' ! i = ?b ! i" "\<forall>p \<in> set new. terminated (drop p buf')"
        "map (\<lambda>p. cstr (drop p buf')) new = take (16 - length (argv @ [p])) (blank_words (cstr (drop (Suc q) buf)))"
        using "1.IH"(1) [OF r word(1) p(1) rp word(2) q(1) rq False w] c by auto
      have same: "buf' ! i = buf ! i" if "i < q" for i using st(3) that by simp
      have "buf' ! q = 0" using st(3) q(4) by simp
      note tk = token [OF st(2) same this]
      have "split_args buf cur argv = Some (buf', argv @ p # new)"
        using word False r rp rq p(1) q(1) w st(1) by (simp add: split_args.simps [of buf cur])
      moreover have "\<forall>i < cur. buf' ! i = buf ! i" using same q(2,3) by simp
      moreover have "map (\<lambda>p. cstr (drop p buf')) (p # new) = take (16 - length argv) (blank_words ?s)" unfolding n using tk st(5) bw by simp
      ultimately show ?thesis using st(2,4) tk by (intro exI [of _ buf'] exI [of _ "p # new"]) simp
    qed
  qed
qed

section \<open>Names of commands\<close>

definition bytes :: "string \<Rightarrow> u8 list" where
  "bytes n = map (\<lambda>c. of_nat (of_char c)) n"

lemma byte_zero: "(of_nat (of_char c) :: u8) = 0 \<longleftrightarrow> c = CHR 0x00"
proof -
  have "256 dvd (of_char c :: nat) \<longleftrightarrow> (of_char c :: nat) = 0"
    by (metis dvd_0_right nat_dvd_not_less nat_of_char_less_256 neq0_conv)
  moreover have "(of_char (CHR 0x00) :: nat) = 0" by simp
  then have "(of_char c :: nat) = 0 \<longleftrightarrow> c = CHR 0x00" by (metis of_char_eq_iff)
  ultimately show ?thesis by (simp add: word_of_nat_eq_0_iff)
qed

lemma cstr_cstring:
  assumes "CHR 0x00 \<notin> set n"
  shows "cstr (cstring n) = bytes n"
proof -
  have "0 \<notin> set (bytes n)"
  proof
    assume "0 \<in> set (bytes n)"
    then obtain c where "0 = (of_nat (of_char c) :: u8)" "c \<in> set n" unfolding bytes_def set_map by (rule imageE)
    then show False using assms byte_zero [of c] by simp
  qed
  then show ?thesis unfolding cstring_def bytes_def [symmetric] by (rule cstr_append_zero)
qed

lemma find_entry_map_of:
  assumes "terminated nm" and "\<forall>(n, x) \<in> set es. CHR 0x00 \<notin> set n"
  shows "find_entry es nm = Some (map_of (map (\<lambda>(n, x). (bytes n, x)) es) (cstr nm))"
  using assms(2)
proof (induction es)
  case (Cons e es)
  obtain n x where e: "e = (n, x)" by fastforce
  obtain d where "strcmp nm (cstring n) = Some d" "d = 0 \<longleftrightarrow> cstr nm = bytes n"
    using strcmp_eq_0 [OF assms(1), of "cstring n"] cstr_cstring [of n] Cons.prems e by auto
  then show ?case using Cons e by auto
qed simp

lemma command_names_plain: "\<forall>(n, x) \<in> set command_names. CHR 0x00 \<notin> set n"
  by (simp add: command_names_def builtins_def g_commands_def)

section \<open>The working directory\<close>

text \<open>A string in a buffer of \<open>VFS_MAX_PATH\<close> bytes, and the lists of names that have a canonical path of a fitting length.\<close>

definition path_buf :: "u8 list \<Rightarrow> u8 list" where
  "path_buf p = p @ replicate (256 - length p) 0"

definition canonical :: "u8 list list \<Rightarrow> bool" where
  "canonical cs \<longleftrightarrow> length cs \<le> 32 \<and> (\<forall>c \<in> set cs. plain c \<and> length c \<le> 47) \<and> length (render cs) < 255"

lemma render_facts:
  assumes "\<forall>c \<in> set cs. plain c"
  shows "render cs \<noteq> []" and "hd (render cs) = 47" and "0 \<notin> set (render cs)"
  using assms by (auto simp: render_def plain_def hd_concat hd_map)

lemma path_buf_props:
  assumes "0 \<notin> set p" and "length p < 256"
  shows "length (path_buf p) = 256" and "terminated (path_buf p)" and "cstr (path_buf p) = p" and "holds (path_buf p) p"
proof -
  obtain n where n: "256 - length p = Suc n" using assms(2) by (cases "256 - length p") auto
  then have e: "path_buf p = p @ 0 # replicate n 0" by (simp add: path_buf_def)
  show "terminated (path_buf p)" "cstr (path_buf p) = p" unfolding e using assms(1) by simp_all
  show "length (path_buf p) = 256" using assms(2) by (simp add: path_buf_def)
  then show "holds (path_buf p) p" using assms unfolding holds_def e by simp
qed

lemma canonical_buf:
  assumes "canonical cs"
  shows "length (path_buf (render cs)) = 256" and "terminated (path_buf (render cs))" and "cstr (path_buf (render cs)) = render cs"
proof -
  have "0 \<notin> set (render cs)" "length (render cs) < 256" using assms render_facts(3) [of cs] by (auto simp: canonical_def)
  from path_buf_props [OF this] show "length (path_buf (render cs)) = 256" "terminated (path_buf (render cs))"
    "cstr (path_buf (render cs)) = render cs" by simp_all
qed

lemma path_buf_blit: "length p < 256 \<Longrightarrow> blit (replicate 256 0) 0 (p @ [0]) = path_buf p"
proof -
  assume p: "length p < 256"
  then have "256 - length p = Suc (255 - length p)" by simp
  then have "replicate (256 - length p) (0 :: u8) = 0 # replicate (255 - length p) 0" by simp
  then show ?thesis using p by (simp add: path_buf_def blit_def)
qed

text \<open>A copy of a path over a whole buffer, as \<open>strncpy\<close> with the terminator behind it makes it.\<close>

lemma copy_path:
  assumes "terminated src" and "cstr src = p" and "length p < 256" and "length dst = 256"
  shows "\<exists>j. strncpy dst src 255 = Some j \<and> wr j 255 0 = Some (path_buf p)"
proof -
  have "blit dst 0 (p @ replicate (256 - length p) 0) = path_buf p" using assms(3,4) by (simp add: blit_def path_buf_def)
  then show ?thesis using strncpy_clip [OF assms(1), of 255 dst] assms(2-4) by simp
qed

lemma norm_steps_bounds:
  "length st \<le> 32 \<Longrightarrow> \<forall>c \<in> set st. length c \<le> 47 \<Longrightarrow>
     length (foldl norm_step st cs) \<le> 32 \<and> (\<forall>c \<in> set (foldl norm_step st cs). length c \<le> 47)"
proof (induction cs arbitrary: st)
  case (Cons c cs)
  have "length (norm_step st c) \<le> 32" "\<forall>d \<in> set (norm_step st c). length d \<le> 47"
    using Cons.prems by (auto simp: norm_step_def dest: in_set_butlastD)
  then show ?case using Cons.IH [of "norm_step st c"] by simp
qed simp

lemma norm_path_canonical:
  assumes "0 \<notin> set f" and "1 + length (with_slashes (norm_path f)) < 256"
  shows "canonical (norm_path f)"
proof -
  have "length (render (norm_path f)) < 255"
    using assms(2) arg_cong [OF render_slashes [of "norm_path f"], of length] by (cases "norm_path f = []") (simp_all add: render_def)
  then show ?thesis using norm_path_plain [OF assms(1)] norm_steps_bounds [of "[]" "Kstring.fields 47 f"] by (simp add: canonical_def norm_path_def)
qed

text \<open>Resolving a path of any length: it is cut to 255 characters, and the buffer overruns when the result has that many.\<close>

lemma resolve_spec:
  assumes "sh_cwd s = path_buf (render cs)" and "canonical cs" and "terminated path"
  defines "st \<equiv> norm_path (take 255 (full_path (render cs) (cstr path)))"
  shows "resolve path s = (if canonical st then Some (path_buf (render st)) else None)"
proof -
  let ?f = "full_path (render cs) (cstr path)"
  have cw: "terminated (sh_cwd s)" "cstr (sh_cwd s) = render cs" using canonical_buf [OF assms(2)] assms(1) by simp_all
  have rc: "render cs \<noteq> []" "hd (render cs) = 47" "0 \<notin> set (render cs)" using assms(2) render_facts [of cs] by (simp_all add: canonical_def)
  have f: "?f \<noteq> []" "hd ?f = 47" "0 \<notin> set ?f" using rc cstr_no_zero [of path] by (auto simp: full_path_def)
  have f5: "take 255 ?f \<noteq> []" "hd (take 255 ?f) = 47" "0 \<notin> set (take 255 ?f)" using f by (auto dest: in_set_takeD)
  obtain joined where j: "resolve_join (sh_cwd s) path = Some joined" "holds joined (take 255 ?f)" "length joined = 256"
    using resolve_join_holds [OF assms(3) cw(1)] cw(2) rc(1) by auto
  have jc: "terminated joined" "cstr joined = take 255 ?f" using holds_cstr [OF j(2)] by simp_all
  have j0: "joined ! 0 = 47" using j(2) f5 by (metis hd_conv_nth holds_def length_greater_0_conv nth_take)
  have spec: "if 1 + length (with_slashes st) < 256 then \<exists>path'. canonicalize joined = Some path' \<and> holds path' (render st) \<and> length path' = 256
    else canonicalize joined = None" by (rule canonicalize_spec [OF j(3) jc(1) j0]) (simp add: st_def jc(2))
  have can: "canonical st \<longleftrightarrow> 1 + length (with_slashes st) < 256"
  proof
    assume "canonical st"
    then show "1 + length (with_slashes st) < 256"
      using arg_cong [OF render_slashes [of st], of length] by (cases "st = []") (simp_all add: canonical_def)
  qed (unfold st_def, rule norm_path_canonical [OF f5(3)])
  have len: "VFS_MAX_PATH = 256" "new_path = replicate 256 0" by (simp_all add: VFS_MAX_PATH_def new_path_def)
  show ?thesis
  proof (cases "canonical st")
    case True
    then obtain p where p: "canonicalize joined = Some p" "holds p (render st)" using spec can by auto
    have "length (render st) < 256" using True by (simp add: canonical_def)
    then obtain k where "strncpy (replicate 256 0) p 255 = Some k" "wr k 255 0 = Some (path_buf (render st))"
      using copy_path [of p "render st" "replicate 256 0"] holds_cstr [OF p(2)] by auto
    then show ?thesis using True j(1) p(1) by (simp add: resolve_def vfs_cmd_resolve_def len)
  next
    case False
    then show ?thesis using spec can j(1) by (simp add: resolve_def vfs_cmd_resolve_def len)
  qed
qed

text \<open>The parent of the working directory.\<close>

lemma back_name_spec:
  "47 \<notin> set c \<Longrightarrow> back_name (pre @ 47 # c @ post) (Suc (length pre + length c)) = Some (Suc (length pre))"
proof (induction c arbitrary: post rule: rev_induct)
  case Nil
  then show ?case by (simp add: rd_def)
next
  case (snoc x c)
  have "rd (pre @ 47 # (c @ [x]) @ post) (Suc (length pre + length c)) = Some x" by (simp add: rd_def nth_append)
  moreover have "back_name (pre @ 47 # c @ x # post) (Suc (length pre + length c)) = Some (Suc (length pre))"
    using snoc by simp
  ultimately show ?case using snoc.prems by simp
qed

lemma render_snoc: "render (cs @ [c]) = (if cs = [] then [] else render cs) @ 47 # c"
  by (simp add: render_def)

lemma canonical_butlast: "canonical cs \<Longrightarrow> canonical (butlast cs)"
proof (cases cs rule: rev_cases)
  case (snoc ys y)
  assume c: "canonical cs"
  have "length (render ys) \<le> length (render cs)" using snoc by (simp add: render_def)
  then show ?thesis using c snoc by (simp add: canonical_def)
qed simp

lemma cwd_parent_spec:
  assumes "canonical cs"
  shows "vfs_cwd_parent (path_buf (render cs)) new_path VFS_MAX_PATH = Some (path_buf (render (butlast cs)))"
proof -
  let ?w = "path_buf (render cs)"
  note buf = canonical_buf [OF assms]
  have root: "map_option fst (snprintf new_path VFS_MAX_PATH [47, 0] []) = Some (path_buf [47])"
  proof -
    have "fmt_out (cstr [47, 0]) [] = Some [47]" by (simp add: cstr_def fmt_out_cons)
    then show ?thesis using snprintf_blit [of "[47, 0]" 256 "replicate 256 0" "[]" "[47]"] path_buf_blit [of "[47]"]
      by (simp add: new_path_def VFS_MAX_PATH_def terminated_def clip_def)
  qed
  have l: "strlen ?w = Some (length (render cs))" using strlen_cstr [OF buf(2)] buf(3) by simp
  show ?thesis
  proof (cases cs rule: rev_cases)
    case Nil
    then show ?thesis using l root by (simp add: vfs_cwd_parent_def render_def)
  next
    case (snoc ys c)
    let ?pre = "if ys = [] then [] else render ys"
    have c: "c \<noteq> []" "47 \<notin> set c" using assms snoc by (auto simp: canonical_def plain_def)
    obtain post where w: "?w = ?pre @ 47 # c @ post" using snoc render_snoc [of ys c] by (simp add: path_buf_def)
    have n: "length (render cs) = Suc (length ?pre + length c)" using snoc render_snoc [of ys c] by simp
    have "rd ?w (length ?pre + length c) = Some (last c)"
    proof -
      obtain d x where "c = d @ [x]" using c(1) by (cases c rule: rev_cases) auto
      then show ?thesis unfolding w by (simp add: rd_def nth_append)
    qed
    moreover have "last c \<noteq> 47" using c by (metis last_in_set)
    ultimately have b: "back_slashes ?w (length (render cs)) = Some (length (render cs))" using c(1) unfolding n by simp
    have b2: "back_name ?w (length (render cs)) = Some (Suc (length ?pre))" unfolding n w by (rule back_name_spec [OF c(2)])
    have n1: "\<not> length (render cs) \<le> 1" using n c(1) by (cases c) auto
    show ?thesis
    proof (cases "ys = []")
      case True
      then show ?thesis using l n1 b b2 root snoc by (simp add: vfs_cwd_parent_def render_def)
    next
      case False
      have r: "render ys \<noteq> []" "length (render ys) < 255" using canonical_butlast [OF assms] snoc by (auto simp: canonical_def render_def)
      have "memcpy new_path 0 ?w 0 (length (render ys)) = Some (blit new_path 0 (render ys))"
        unfolding w using False r(2) by (subst memcpy_blit) (simp_all add: new_path_def VFS_MAX_PATH_def)
      moreover have "wr (blit new_path 0 (render ys)) (length (render ys)) 0 = Some (path_buf (render ys))"
        using blit_snoc [of 0 "render ys" "replicate 256 0" 0] path_buf_blit [of "render ys"] r(2)
        by (simp add: new_path_def VFS_MAX_PATH_def wr_def length_blit)
      ultimately show ?thesis using l n1 b b2 False r(1) snoc by (simp add: vfs_cwd_parent_def)
    qed
  qed
qed

lemma norm_parent:
  assumes "canonical cs"
  shows "norm_path (full_path (render cs) [46, 46]) = butlast cs"
proof -
  have "full_path (render cs) [46, 46] = concat (map ((#) 47) (cs @ [[46, 46]]))"
  proof (cases cs rule: rev_cases)
    case (snoc ys y)
    then have "last (render cs) = last y" "plain y" using assms by (auto simp: render_snoc canonical_def plain_def)
    then have "last (render cs) \<noteq> 47" by (metis last_in_set plain_def)
    then show ?thesis using snoc by (simp add: full_path_def render_def)
  qed (simp add: full_path_def render_def)
  moreover have "Kstring.fields 47 (concat (map ((#) 47) (cs @ [[46, 46]]))) = cs @ [[46, 46]]"
    using assms by (intro fields_joined) (auto simp: canonical_def plain_def)
  moreover have "foldl norm_step [] cs = cs" using norm_steps_id [of cs "[]"] assms by (simp add: canonical_def)
  ultimately show ?thesis by (simp add: norm_path_def norm_step_def)
qed

section \<open>Messages\<close>

lemma say_prints:
  assumes "pk_out (cstr (cstring fmt)) ap = Some out" and "length out < 256" and "term_ok (sh_term s)" and "0x09 \<notin> set out"
  shows "\<exists>t. say fmt ap s = Some (s\<lparr>sh_term := t\<rparr>) \<and> term_ok t \<and> term_same (sh_term s) t"
  using printk_text_ok [OF _ assms] by (auto simp: say_def)

lemma cd_message:
  assumes "terminated target" and "length (cstr target) \<le> 200" and "9 \<notin> set (cstr target)" and "term_ok (sh_term s)"
  shows "\<exists>t. sayln ''cd: %s: No such directory'' [PStr (Some target)] s = Some (s\<lparr>sh_term := t\<rparr>) \<and> term_ok t"
proof -
  let ?m = "''cd: %s: No such directory'' @ [CHR 0x0A]"
  let ?out = "[99, 100, 58, 32] @ cstr target @
    [58, 32, 78, 111, 32, 115, 117, 99, 104, 32, 100, 105, 114, 101, 99, 116, 111, 114, 121, 10]"
  have "pk_out (cstr (cstring ?m)) [PStr (Some target)] = Some ?out" using assms(1) by (simp add: cstring_def cstr_def pk_conv_def)
  then show ?thesis using say_prints [of ?m "[PStr (Some target)]" ?out s] assms(2-4) by (auto simp: sayln_def)
qed

lemma strcmp_two:
  assumes "terminated a" and "0 \<notin> set w"
  shows "\<exists>d. strcmp a (w @ [0]) = Some d \<and> (d = 0 \<longleftrightarrow> cstr a = w)"
  using strcmp_eq_0 [OF assms(1), of "w @ [0]"] assms(2) by (simp add: terminated_def)

text \<open>The path \<open>cmd_cd\<close> goes to: the special case of \<open>..\<close> agrees with the general one.\<close>

lemma cd_full:
  assumes "sh_cwd s = path_buf (render cs)" and "canonical cs" and "terminated target" and "d = 0 \<longleftrightarrow> cstr target = [46, 46]"
    and "full_path (render cs) (cstr target) = f" and "length f \<le> 254"
  shows "(if d = 0 then vfs_cwd_parent (sh_cwd s) new_path VFS_MAX_PATH else resolve target s) = Some (path_buf (render (norm_path f)))
    \<and> canonical (norm_path f)"
proof (cases "d = 0")
  case True
  then have "norm_path f = butlast cs" using assms(4,5) norm_parent [OF assms(2)] by simp
  then show ?thesis using True cwd_parent_spec [OF assms(2)] canonical_butlast [OF assms(2)] assms(1) by simp
next
  case False
  have rc: "render cs \<noteq> []" "hd (render cs) = 47" "0 \<notin> set (render cs)" using assms(2) render_facts [of cs] by (simp_all add: canonical_def)
  have f: "f \<noteq> []" "hd f = 47" "0 \<notin> set f" using rc cstr_no_zero [of target] unfolding assms(5) [symmetric] by (auto simp: full_path_def)
  have "1 + length (with_slashes (norm_path f)) < 256" using norm_path_length [OF f(1,2)] assms(6) by simp
  then have c: "canonical (norm_path f)" by (rule norm_path_canonical [OF f(3)])
  have "take 255 f = f" using assms(6) by simp
  then show ?thesis using False resolve_spec [OF assms(1-3)] c assms(5) by simp
qed

lemma cd_spec:
  assumes "sh_cwd s = path_buf (render cs)" and "canonical cs" and "terminated target"
    and "full_path (render cs) (if cstr target = [126] then [47] else cstr target) = f" and "length f \<le> 254"
    and "vfs_is_dir (sh_vfs s) (path_buf (render (norm_path f))) = Some (dir, v)"
    and "term_ok (sh_term s)" and "length (cstr target) \<le> 200" and "9 \<notin> set (cstr target)"
  shows "canonical (norm_path f) \<and> (\<exists>t. term_ok t \<and>
    cmd_cd [a0, target] s =
      Some (if dir \<or> norm_path f = [] then s\<lparr>sh_cwd := path_buf (render (norm_path f)), sh_vfs := v\<rparr>
            else s\<lparr>sh_vfs := v, sh_term := t\<rparr>))"
proof -
  obtain h where h: "strcmp target [126, 0] = Some h" "h = 0 \<longleftrightarrow> cstr target = [126]" using strcmp_two [OF assms(3), of "[126]"] by auto
  define tg where "tg = (if h = 0 then [47, 0] else target)"
  have tg: "terminated tg" "cstr tg = (if cstr target = [126] then [47] else cstr target)" "length (cstr tg) \<le> 200" "9 \<notin> set (cstr tg)"
    using h(2) assms(3,8,9) by (auto simp: tg_def terminated_def cstr_def)
  obtain d where d: "strcmp tg [46, 46, 0] = Some d" "d = 0 \<longleftrightarrow> cstr tg = [46, 46]" using strcmp_two [OF tg(1), of "[46, 46]"] by auto
  let ?full = "path_buf (render (norm_path f))"
  have full: "(if d = 0 then vfs_cwd_parent (sh_cwd s) new_path VFS_MAX_PATH else resolve tg s) = Some ?full" and can: "canonical (norm_path f)"
    using cd_full [OF assms(1,2) tg(1) d(2), of f] assms(4,5) tg(2) by simp_all
  note buf = canonical_buf [OF can]
  obtain r where r: "strcmp ?full [47, 0] = Some r" "r = 0 \<longleftrightarrow> render (norm_path f) = [47]"
    using strcmp_two [OF buf(2), of "[47]"] buf(3) by auto
  have root: "render (norm_path f) = [47] \<longleftrightarrow> norm_path f = []"
    using can by (cases "norm_path f") (auto simp: render_def canonical_def plain_def)
  obtain t where t: "sayln ''cd: %s: No such directory'' [PStr (Some tg)] (s\<lparr>sh_vfs := v\<rparr>) = Some (s\<lparr>sh_vfs := v, sh_term := t\<rparr>)" "term_ok t"
    using cd_message [OF tg(1,3,4), of "s\<lparr>sh_vfs := v\<rparr>"] assms(7) by auto
  have "length (render (norm_path f)) < 256" using can by (simp add: canonical_def)
  then obtain j where j: "strncpy (sh_cwd s) ?full 255 = Some j" "wr j 255 0 = Some ?full"
    using copy_path [OF buf(2,3)] canonical_buf(1) [OF assms(2)] assms(1) by auto
  have "cmd_cd [a0, target] s = do {
      full \<leftarrow> (if d = 0 then vfs_cwd_parent (sh_cwd s) new_path VFS_MAX_PATH else resolve tg s);
      (dir, v) \<leftarrow> vfs_is_dir (sh_vfs s) full;
      root \<leftarrow> (if dir then Some 0 else strcmp full [47, 0]);
      if \<not> dir \<and> root \<noteq> 0 then sayln ''cd: %s: No such directory'' [PStr (Some tg)] (s\<lparr>sh_vfs := v\<rparr>)
      else do { c1 \<leftarrow> strncpy (sh_cwd s) full (VFS_MAX_PATH - 1); c2 \<leftarrow> wr c1 (VFS_MAX_PATH - 1) 0; Some (s\<lparr>sh_vfs := v, sh_cwd := c2\<rparr>) } }"
    by (simp only: cmd_cd_def list.case h(1) d(1) Option.bind.simps Let_def tg_def [symmetric])
  moreover have "VFS_MAX_PATH - 1 = 255" by (simp add: VFS_MAX_PATH_def)
  ultimately show ?thesis unfolding full using assms(6) r root t j can by (cases "dir \<or> norm_path f = []") auto
qed


text \<open>
  C26: the dispatcher.  The arguments of a command are the words of the line, at most 16 of them, with blanks and tabs between
  them; the command is the first one with the name of the first word among the names \<open>dispatch\<close> knows, and other names are
  reported.
\<close>

theorem dispatch_runs_words:
  assumes "terminated buf"
  shows "\<exists>argv. map cstr argv = take 16 (blank_words (cstr buf)) \<and> (\<forall>a \<in> set argv. terminated a) \<and>
    dispatch exec buf s =
      (case argv of
         [] \<Rightarrow> Some s
       | a # args \<Rightarrow>
           (case map_of (map (\<lambda>(n, c). (bytes n, c)) command_names) (cstr a) of
              None \<Rightarrow> sayln ''rtjn-kernel: Command not found.'' [] s
            | Some c \<Rightarrow> exec c argv s))"
proof -
  obtain b offs where sp: "split_args buf 0 [] = Some (b, offs)" "map (\<lambda>p. cstr (drop p b)) offs = take 16 (blank_words (cstr buf))"
    "\<forall>p \<in> set offs. terminated (drop p b)" using split_args_spec [of 0 buf "[]"] assms by auto
  let ?argv = "map (\<lambda>p. drop p b) offs"
  have "map cstr ?argv = take 16 (blank_words (cstr buf))" "\<forall>a \<in> set ?argv. terminated a" using sp(2,3) by (simp_all add: o_def)
  moreover have "find_entry command_names a = Some (map_of (map (\<lambda>(n, c). (bytes n, c)) command_names) (cstr a))" if "a \<in> set ?argv" for a
    using that sp(3) command_names_plain by (intro find_entry_map_of) auto
  ultimately show ?thesis using sp(1) by (intro exI [of _ ?argv]) (auto simp: dispatch_def Let_def split: list.split option.split)
qed

section \<open>Printing a file\<close>

text \<open>The bytes of a file that \<open>cmd_cat\<close> shows, and the terminal after them, up to the register of the cursor.\<close>

definition visible :: "u8 list \<Rightarrow> u8 list" where
  "visible bs = filter (\<lambda>c. c = 10 \<or> 0x20 \<le> c \<and> c < 0x7F) bs"

definition shows_text :: "u8 list \<Rightarrow> term_state \<Rightarrow> term_state \<Rightarrow> bool" where
  "shows_text bs t t' \<longleftrightarrow> (\<exists>u. term_write bs t = Some u \<and> t' = u\<lparr>cursor_reg := cursor_reg t'\<rparr>) \<and> term_ok t'"

lemma visible_no_tab: "9 \<notin> set (visible bs)"
  by (auto simp: visible_def)

lemma term_putchar_cursor:
  "c \<noteq> 9 \<Longrightarrow> term_putchar c (t\<lparr>cursor_reg := x\<rparr>) = map_option (cursor_reg_update (\<lambda>_. x)) (term_putchar c t)"
  by (simp add: term_putchar_def term_putch_at_def shift_terminal_content_def Let_def split: bind_split)

lemma term_write_cursor:
  "9 \<notin> set bs \<Longrightarrow> term_write bs (t\<lparr>cursor_reg := x\<rparr>) = map_option (cursor_reg_update (\<lambda>_. x)) (term_write bs t)"
proof (induction bs arbitrary: t)
  case (Cons c bs)
  then have p: "term_putchar c (t\<lparr>cursor_reg := x\<rparr>) = map_option (cursor_reg_update (\<lambda>_. x)) (term_putchar c t)"
    by (intro term_putchar_cursor) auto
  show ?case
  proof (cases "term_putchar c t")
    case (Some u)
    then have "term_putchar c (t\<lparr>cursor_reg := x\<rparr>) = Some (u\<lparr>cursor_reg := x\<rparr>)" using p by simp
    then show ?thesis using Cons Some by simp
  qed (use p in simp)
qed simp

lemma shows_text_Nil: "term_ok t \<Longrightarrow> shows_text [] t t"
  by (cases t) (simp add: shows_text_def)

lemma shows_text_trans:
  assumes "shows_text as t t1" and "shows_text bs t1 t2" and "9 \<notin> set bs"
  shows "shows_text (as @ bs) t t2"
proof -
  obtain u1 u2 where u: "term_write as t = Some u1" "t1 = u1\<lparr>cursor_reg := cursor_reg t1\<rparr>"
    "term_write bs t1 = Some u2" "t2 = u2\<lparr>cursor_reg := cursor_reg t2\<rparr>" "term_ok t2" using assms(1,2) by (auto simp: shows_text_def)
  obtain w where w: "term_write bs u1 = Some w" "u2 = w\<lparr>cursor_reg := cursor_reg t1\<rparr>"
    using term_write_cursor [OF assms(3), where t = u1 and x = "cursor_reg t1"] u(2,3) by (metis (no_types, lifting) map_option_eq_Some)
  have "t2 = w\<lparr>cursor_reg := cursor_reg t2\<rparr>" using u(4) unfolding w(2) by simp
  then show ?thesis using u(1,5) w(1) by (auto simp: shows_text_def term_write_append)
qed

lemma say_text:
  assumes "pk_out (cstr (cstring fmt)) ap = Some out" and "length out < 256" and "term_ok (sh_term s)" and "9 \<notin> set out"
  shows "\<exists>t. say fmt ap s = Some (s\<lparr>sh_term := t\<rparr>) \<and> shows_text out (sh_term s) t"
proof -
  obtain u where u: "term_write out (sh_term s) = Some u" "term_ok u" using term_write_ok [OF assms(3,4)] by blast
  let ?t = "update_cursor (t_col u) (t_row u) u"
  have "say fmt ap s = Some (s\<lparr>sh_term := ?t\<rparr>)" using printk_short [OF _ assms(1,2)] u(1) by (simp add: say_def)
  moreover have "shows_text out (sh_term s) ?t" using u by (simp add: shows_text_def update_cursor_def term_ok_def)
  ultimately show ?thesis by blast
qed

lemma cat_byte_shows:
  assumes "term_ok (sh_term s)"
  shows "\<exists>t. cat_byte c s = Some (s\<lparr>sh_term := t\<rparr>) \<and> shows_text (visible [c]) (sh_term s) t"
proof -
  consider "c = 10" | "c \<noteq> 10" "0x20 \<le> c" "c < 0x7F" | "c \<noteq> 10" "\<not> (0x20 \<le> c \<and> c < 0x7F)" by blast
  then show ?thesis
  proof cases
    case 1
    have "pk_out (cstr (cstring [CHR 0x0A])) [] = Some [10]" by (simp add: cstring_def cstr_def)
    then show ?thesis using say_text [of "[CHR 0x0A]" "[]" "[10]" s] assms 1 by (simp add: cat_byte_def sayln_def visible_def)
  next
    case 2
    then have "c \<noteq> 0" "c \<noteq> 9" by auto
    moreover have "(ucast (ucast c :: u32) :: u8) = c" by (rule bit_word_eqI) (simp add: bit_simps)
    ultimately have "pk_out (cstr (cstring ''%c'')) [PInt (ucast c)] = Some [c]" by (simp add: cstring_def cstr_def pk_conv_def)
    then show ?thesis using say_text [of "''%c''" "[PInt (ucast c)]" "[c]" s] assms 2 \<open>c \<noteq> 9\<close> by (simp add: cat_byte_def visible_def)
  next
    case 3
    then show ?thesis using shows_text_Nil [OF assms] by (intro exI [of _ "sh_term s"]) (auto simp: cat_byte_def visible_def)
  qed
qed

lemma cat_bytes_shows:
  assumes "term_ok (sh_term s)" and "i + n \<le> length buf"
  shows "\<exists>t. cat_bytes buf i n s = Some (s\<lparr>sh_term := t\<rparr>) \<and> shows_text (visible (take n (drop i buf))) (sh_term s) t"
  using assms
proof (induction n arbitrary: i s)
  case 0
  then show ?case using shows_text_Nil [of "sh_term s"] by (intro exI [of _ "sh_term s"]) (simp add: visible_def)
next
  case (Suc n)
  obtain t1 where t1: "cat_byte (buf ! i) s = Some (s\<lparr>sh_term := t1\<rparr>)" "shows_text (visible [buf ! i]) (sh_term s) t1"
    using cat_byte_shows [OF Suc.prems(1)] by blast
  then have "term_ok (sh_term (s\<lparr>sh_term := t1\<rparr>))" by (simp add: shows_text_def)
  then obtain t2 where t2: "cat_bytes buf (Suc i) n (s\<lparr>sh_term := t1\<rparr>) = Some (s\<lparr>sh_term := t2\<rparr>)"
    "shows_text (visible (take n (drop (Suc i) buf))) t1 t2" using Suc.IH [of "s\<lparr>sh_term := t1\<rparr>" "Suc i"] Suc.prems(2) by auto
  have "take (Suc n) (drop i buf) = [buf ! i] @ take n (drop (Suc i) buf)" using Suc.prems(2) by (simp add: Cons_nth_drop_Suc [symmetric])
  then have "visible (take (Suc n) (drop i buf)) = visible [buf ! i] @ visible (take n (drop (Suc i) buf))" by (simp add: visible_def)
  then show ?case using shows_text_trans [OF t1(2) t2(2) visible_no_tab] t1(1) t2(1) Suc.prems(2)
    by (intro exI [of _ t2]) (simp add: rd_in)
qed

lemma cat_loop_shows:
  assumes "open_on v fd inode" and "p \<le> i_size inode" and "length buf = 1024" and "term_ok (sh_term s)"
  shows "\<exists>t. cat_loop fd buf (s\<lparr>sh_vfs := fd_at v fd p\<rparr>) = Some (s\<lparr>sh_vfs := fd_at v fd (i_size inode), sh_term := t\<rparr>) \<and>
    shows_text (visible (map (file_byte (ext2_fs v) inode) [p..<i_size inode])) (sh_term s) t"
  using assms(2-4)
proof (induction "i_size inode - p" arbitrary: p buf s rule: less_induct)
  case less
  let ?n = "min 1024 (i_size inode - p)"
  let ?x = "map (file_byte (ext2_fs v) inode) [p..<p + ?n]"
  note rd = vfs_read_at [OF assms(1) less.prems(1,2)]
  show ?case
  proof (cases "p = i_size inode")
    case True
    then show ?thesis using rd shows_text_Nil [OF less.prems(3)]
      by (subst cat_loop.simps) (auto simp: visible_def intro!: exI [of _ "sh_term s"])
  next
    case False
    then have n: "0 < ?n" "p + ?n \<le> i_size inode" using less.prems(1) by auto
    let ?b = "blit buf 0 ?x" and ?v = "fd_at v fd (p + ?n)"
    have lb: "length ?b = 1024" "take ?n (drop 0 ?b) = ?x" using less.prems(2) by (simp_all add: mem_simps blit_def)
    obtain t1 where t1: "cat_bytes ?b 0 ?n (s\<lparr>sh_vfs := ?v\<rparr>) = Some (s\<lparr>sh_vfs := ?v, sh_term := t1\<rparr>)" "shows_text (visible ?x) (sh_term s) t1"
      using cat_bytes_shows [of "s\<lparr>sh_vfs := ?v\<rparr>" 0 ?n ?b] lb less.prems(3) by auto
    then have ok: "term_ok (sh_term (s\<lparr>sh_term := t1\<rparr>))" by (simp add: shows_text_def)
    have eq: "s\<lparr>sh_term := t1, sh_vfs := ?v\<rparr> = s\<lparr>sh_vfs := ?v, sh_term := t1\<rparr>" by simp
    have dec: "i_size inode - (p + ?n) < i_size inode - p" using n by arith
    obtain t2 where t2: "cat_loop fd ?b (s\<lparr>sh_vfs := ?v, sh_term := t1\<rparr>) = Some (s\<lparr>sh_vfs := fd_at v fd (i_size inode), sh_term := t2\<rparr>)"
      "shows_text (visible (map (file_byte (ext2_fs v) inode) [p + ?n..<i_size inode])) t1 t2"
      using less.hyps [OF dec n(2) lb(1) ok] unfolding eq by auto
    have "[p..<i_size inode] = [p..<p + ?n] @ [p + ?n..<i_size inode]" using upt_add_eq_append [of p "p + ?n" "i_size inode - (p + ?n)"] n(2) by simp
    then have "visible (map (file_byte (ext2_fs v) inode) [p..<i_size inode]) =
        visible ?x @ visible (map (file_byte (ext2_fs v) inode) [p + ?n..<i_size inode])" by (simp only: map_append filter_append visible_def)
    moreover have "cat_loop fd buf (s\<lparr>sh_vfs := fd_at v fd p\<rparr>) = Some (s\<lparr>sh_vfs := fd_at v fd (i_size inode), sh_term := t2\<rparr>)"
      using rd n(1) t1(1) t2(1) by (subst cat_loop.simps) simp
    ultimately show ?thesis using shows_text_trans [OF t1(2) t2(2) visible_no_tab] by auto
  qed
qed

text \<open>
  C14: showing a file.  When the path names a file of the mounted file system, \<open>cmd_cat\<close> reads it to its end through the blocks of
  its inode and writes exactly its newlines and printable characters to the terminal, in order; the descriptor is closed, and
  nothing else of the state changes.
\<close>

theorem cat_shows_file:
  assumes "resolve arg s = Some path" and "vfs_open (sh_vfs s) path VFS_O_READ = Some (fd, v)" and "open_on v fd inode"
    and "term_ok (sh_term s)"
  shows "\<exists>t v'. cmd_cat [a0, arg] s = Some (s\<lparr>sh_vfs := v', sh_term := t\<rparr>) \<and> \<not> fd_in_use (vfs_files v' ! nat fd) \<and>
    shows_text (visible (map (file_byte (ext2_fs v) inode) [0..<i_size inode])) (sh_term s) t"
proof -
  have "(vfs_files v ! nat fd)\<lparr>fd_pos := 0\<rparr> = vfs_files v ! nat fd" using open_at_start [OF assms(2,3)] by (cases "vfs_files v ! nat fd") simp
  then have at0: "fd_at v fd 0 = v" by (simp add: fd_at_def)
  obtain t where t: "cat_loop fd (replicate 1024 0) (s\<lparr>sh_vfs := v\<rparr>) = Some (s\<lparr>sh_vfs := fd_at v fd (i_size inode), sh_term := t\<rparr>)"
    "shows_text (visible (map (file_byte (ext2_fs v) inode) [0..<i_size inode])) (sh_term s) t"
    using cat_loop_shows [OF assms(3), of 0 "replicate 1024 0" s] assms(4) at0 by auto
  let ?f = "(vfs_files v ! nat fd)\<lparr>fd_pos := i_size inode\<rparr>" and ?v = "fd_at v fd (i_size inode)"
  let ?v' = "?v\<lparr>vfs_files := (vfs_files ?v)[nat fd := ?f\<lparr>fd_in_use := False, fd_node := None\<rparr>]\<rparr>"
  have fd: "0 \<le> fd" "nat fd < length (vfs_files v)" using assms(3) by (auto simp: open_on_def)
  have "vfs_close ?v fd = Some (VFS_OK, ?v')" using get_fd_at [OF assms(3)] by (simp add: vfs_close_def)
  moreover have "\<not> fd_in_use (vfs_files ?v' ! nat fd)" using fd(2) by (simp add: fd_at_def)
  ultimately show ?thesis using assms(1,2) t fd(1) by (intro exI [of _ t] exI [of _ ?v']) (simp add: cmd_cat_def)
qed

section \<open>What every line keeps\<close>

definition hist_wf :: "hist_state \<Rightarrow> bool" where
  "hist_wf h \<longleftrightarrow> length (s_hist h) = 64 \<and> s_hist_count h \<le> 64 \<and> s_hist_pos h \<le> s_hist_count h \<and>
     (\<forall>r \<in> set (s_hist h). length r = 64) \<and> (\<forall>i < s_hist_count h. terminated (s_hist h ! i))"

definition shell_ok :: "shell_st \<Rightarrow> bool" where
  "shell_ok s \<longleftrightarrow> vfs_wf (sh_vfs s) \<and> (\<exists>cs. canonical cs \<and> sh_cwd s = path_buf (render cs)) \<and> hist_wf (sh_hist s)"

lemma shell_ok_simps [simp]:
  "shell_ok (s\<lparr>sh_term := t\<rparr>) = shell_ok s"
  "shell_ok s \<Longrightarrow> shell_ok (s\<lparr>sh_vfs := v\<rparr>) = vfs_wf v"
  "shell_ok s \<Longrightarrow> vfs_wf (sh_vfs s)"
  by (auto simp: shell_ok_def)

lemma say_ok:
  "say fmt ap s = Some s' \<Longrightarrow> shell_ok s' = shell_ok s" "sayln fmt ap s = Some s' \<Longrightarrow> shell_ok s' = shell_ok s"
  by (auto simp: say_def sayln_def split: bind_splits)

lemma vfs_is_dir_wf: "vfs_is_dir v path = Some (d, v') \<Longrightarrow> vfs_wf v \<Longrightarrow> vfs_wf v'"
  by (auto simp: vfs_is_dir_def split: bind_splits option.splits dest: vfs_open_node_wf)

lemma create_wf:
  "ext2_vfs_create_file v n nm = Some (c, r, v') \<Longrightarrow> vfs_wf v \<longrightarrow> vfs_wf v'"
  "ext2_vfs_create_dir v n nm = Some (c, r, v') \<Longrightarrow> vfs_wf v \<longrightarrow> vfs_wf v'"
  by (auto simp: ext2_vfs_create_file_def ext2_vfs_create_dir_def dest: ext2_vfs_create_wf)

text \<open>The operations of the file system in the form the proofs about commands use.\<close>

lemma files_ok:
  "vfs_mount k v p f = Some (c, v') \<Longrightarrow> vfs_wf v \<longrightarrow> vfs_wf v'"
  "vfs_open v p g = Some (fd, v') \<Longrightarrow> vfs_wf v \<longrightarrow> vfs_wf v'"
  "vfs_close v fd = Some (c, v') \<Longrightarrow> vfs_wf v \<longrightarrow> vfs_wf v'"
  "vfs_read v fd b n = Some (m, b', v') \<Longrightarrow> vfs_wf v \<longrightarrow> vfs_wf v'"
  "vfs_write v fd b n = Some (m, v') \<Longrightarrow> vfs_wf v \<longrightarrow> vfs_wf v'"
  "vfs_readdir v p i = Some (c, r, v') \<Longrightarrow> vfs_wf v \<longrightarrow> vfs_wf v'"
  "vfs_unlink v p = Some (c, v') \<Longrightarrow> vfs_wf v \<longrightarrow> vfs_wf v'"
  "vfs_rmdir v p = Some (c, v') \<Longrightarrow> vfs_wf v \<longrightarrow> vfs_wf v'"
  "vfs_rmtree p v = Some (c, v') \<Longrightarrow> vfs_wf v \<longrightarrow> vfs_wf v'"
  "vfs_rename v p q = Some (c, v') \<Longrightarrow> vfs_wf v \<longrightarrow> vfs_wf v'"
  "vfs_open_node v p = Some (ref, v') \<Longrightarrow> vfs_wf v \<longrightarrow> vfs_wf v'"
  "parent_leaf v p = Some (pl, v') \<Longrightarrow> vfs_wf v \<longrightarrow> vfs_wf v'"
  "vfs_is_dir v p = Some (d, v') \<Longrightarrow> vfs_wf v \<longrightarrow> vfs_wf v'"
  by (blast intro: vfs_mount_wf vfs_open_wf vfs_close_wf vfs_read_wf vfs_write_wf vfs_readdir_wf vfs_unlink_wf vfs_rmdir_wf
      rmtree_wf(1) vfs_rename_wf vfs_open_node_wf parent_leaf_ok vfs_is_dir_wf)+

lemmas command_splits = bind_splits option.splits if_splits list.splits sum.splits prod.splits

subsection \<open>Commands\<close>

lemma echo_ok: "cmd_echo argv s = Some s' \<Longrightarrow> shell_ok s \<Longrightarrow> shell_ok s'"
proof -
  have "echo_args as first s = Some s' \<Longrightarrow> shell_ok s' = shell_ok s" for as first s s'
    by (induction as first s rule: echo_args.induct) (auto split: bind_splits if_splits dest!: say_ok)
  then show "cmd_echo argv s = Some s' \<Longrightarrow> shell_ok s \<Longrightarrow> shell_ok s'" by (auto simp: cmd_echo_def split: bind_splits dest!: say_ok)
qed

lemma calc_ok: "cmd_calc argv s = Some s' \<Longrightarrow> shell_ok s \<Longrightarrow> shell_ok s'"
  by (auto simp: cmd_calc_def split: command_splits dest!: say_ok)

lemma ls_ok: "cmd_ls argv s = Some s' \<Longrightarrow> shell_ok s \<Longrightarrow> shell_ok s'"
proof -
  have "ls_loop full index s = Some (n, s') \<Longrightarrow> shell_ok s \<Longrightarrow> shell_ok s'" for full index s n s'
  proof (induction full index s rule: ls_loop.induct)
    case (1 full index s)
    obtain code out v where r: "vfs_readdir (sh_vfs s) full index = Some (code, out, v)"
      using "1.prems"(1) by (auto simp: ls_loop.simps [of full index s] split: bind_splits)
    have w: "shell_ok (s\<lparr>sh_vfs := v\<rparr>)" using files_ok(6) [OF r] "1.prems"(2) by simp
    show ?case
    proof (cases "code = VFS_OK")
      case True
      obtain node s2 where o: "out = Some node" "ls_loop full (Suc index) s2 = Some (n, s')"
        and m: "(if node_flags node = VFS_FT_DIR then sayln ''%s/'' [PStr (Some (node_name node))] (s\<lparr>sh_vfs := v\<rparr>)
           else sayln ''%s'' [PStr (Some (node_name node))] (s\<lparr>sh_vfs := v\<rparr>)) = Some s2"
        using "1.prems"(1) r True by (auto simp: ls_loop.simps [of full index s] Let_def split: bind_splits)
      have "shell_ok s2" using m w by (auto split: if_splits dest!: say_ok)
      then show ?thesis using "1.IH" [OF r refl refl refl _ o(1) m o(2)] True by simp
    next
      case False
      then show ?thesis using "1.prems"(1) r w by (simp add: ls_loop.simps [of full index s] Let_def)
    qed
  qed
  then show "cmd_ls argv s = Some s' \<Longrightarrow> shell_ok s \<Longrightarrow> shell_ok s'"
    by (auto simp: cmd_ls_def split: bind_splits if_splits dest!: say_ok)
qed

lemma cat_byte_ok: "cat_byte c s = Some s' \<Longrightarrow> shell_ok s' = shell_ok s"
  by (auto simp: cat_byte_def split: if_splits dest!: say_ok)

lemma cat_bytes_ok: "cat_bytes buf i n s = Some s' \<Longrightarrow> shell_ok s' = shell_ok s"
  by (induction n arbitrary: i s) (auto split: bind_splits dest!: cat_byte_ok)

lemma cat_loop_ok:
  assumes "cat_loop fd buf s = Some s'"
  shows "shell_ok s \<longrightarrow> shell_ok s'"
  using assms
proof (rule cat_loop.raw_induct [rotated, where P = "\<lambda>fd buf s s'. shell_ok s \<longrightarrow> shell_ok s'"])
  fix f fd buf s s'
  assume ih: "\<And>fd buf s s'. f fd buf s = Some s' \<Longrightarrow> shell_ok s \<longrightarrow> shell_ok s'"
    and "do { (n, b, v) \<leftarrow> vfs_read (sh_vfs s) fd buf 1024;
          if n \<le> 0 then Some (s\<lparr>sh_vfs := v\<rparr>) else do { s1 \<leftarrow> cat_bytes b 0 (nat n) (s\<lparr>sh_vfs := v\<rparr>); f fd b s1 } } = Some s'"
  then show "shell_ok s \<longrightarrow> shell_ok s'" by (auto split: bind_splits if_splits dest!: ih cat_bytes_ok files_ok)
qed

lemma cat_ok: "cmd_cat argv s = Some s' \<Longrightarrow> shell_ok s \<Longrightarrow> shell_ok s'"
  by (auto simp: cmd_cat_def Let_def split: command_splits dest!: say_ok files_ok cat_loop_ok)

lemma mount_ok: "cmd_mount k argv s = Some s' \<Longrightarrow> shell_ok s \<Longrightarrow> shell_ok s'"
  by (auto simp: cmd_mount_def Let_def split: command_splits dest!: say_ok files_ok)

lemma create_at_ok:
  assumes "create_at op who arg full s = Some (r, s')" and "shell_ok s"
    and "\<And>v n nm c i v'. op v n nm = Some (c, i, v') \<Longrightarrow> vfs_wf v \<longrightarrow> vfs_wf v'"
  shows "shell_ok s'"
  using assms(1,2) by (auto simp: create_at_def Let_def split: command_splits dest!: say_ok files_ok assms(3))

lemmas create_file_ok = create_at_ok [OF _ _ create_wf(1)]
lemmas create_dir_ok = create_at_ok [OF _ _ create_wf(2)]

lemma touch_ok: "cmd_touch argv s = Some s' \<Longrightarrow> shell_ok s \<Longrightarrow> shell_ok s'"
  by (auto simp: cmd_touch_def split: command_splits dest!: say_ok dest: create_file_ok)

lemma mkdir_ok: "cmd_mkdir argv s = Some s' \<Longrightarrow> shell_ok s \<Longrightarrow> shell_ok s'"
  by (auto simp: cmd_mkdir_def split: command_splits dest!: say_ok dest: create_dir_ok)

lemma rm_ok: "cmd_rm argv s = Some s' \<Longrightarrow> shell_ok s \<Longrightarrow> shell_ok s'"
proof -
  have one: "rm_one r a s = Some s' \<Longrightarrow> shell_ok s \<Longrightarrow> shell_ok s'" for r a s s'
    by (auto simp: rm_one_def Let_def split: command_splits dest!: say_ok files_ok)
  have "rm_args r as s = Some s' \<Longrightarrow> shell_ok s \<Longrightarrow> shell_ok s'" for r as s s'
    by (induction as arbitrary: s) (auto split: bind_splits dest: one)
  then show "cmd_rm argv s = Some s' \<Longrightarrow> shell_ok s \<Longrightarrow> shell_ok s'"
    by (auto simp: cmd_rm_def simp del: rm_args.simps split: bind_splits list.splits dest!: say_ok)
qed

lemma rmdir_ok: "cmd_rmdir argv s = Some s' \<Longrightarrow> shell_ok s \<Longrightarrow> shell_ok s'"
proof -
  have one: "rmdir_one a s = Some s' \<Longrightarrow> shell_ok s \<Longrightarrow> shell_ok s'" for a s s'
    by (auto simp: rmdir_one_def Let_def split: command_splits dest!: say_ok files_ok)
  have "rmdir_args as s = Some s' \<Longrightarrow> shell_ok s \<Longrightarrow> shell_ok s'" for as s s'
    by (induction as arbitrary: s) (auto split: bind_splits dest: one)
  then show "cmd_rmdir argv s = Some s' \<Longrightarrow> shell_ok s \<Longrightarrow> shell_ok s'"
    by (auto simp: cmd_rmdir_def simp del: rmdir_args.simps split: list.splits dest!: say_ok)
qed

lemma mv_ok: "cmd_mv argv s = Some s' \<Longrightarrow> shell_ok s \<Longrightarrow> shell_ok s'"
  by (auto simp: cmd_mv_def Let_def split: command_splits dest!: say_ok files_ok)

lemma echo_write_ok:
  assumes "cmd_echo_write argv s = Some s'" and "shell_ok s"
  shows "shell_ok s'"
proof -
  consider "argv = []" | a0 where "argv = [a0]" | a0 a1 where "argv = [a0, a1]" | a0 a1 a2 args where "argv = a0 # a1 # a2 # args"
    by (cases argv; cases "tl argv"; cases "tl (tl argv)") auto
  then show ?thesis
  proof cases
    case (3 a0 a1)
    obtain full r s1 where c: "create_at ext2_vfs_create_file ''echo'' a1 full s = Some (r, s1)"
      "(case r of None \<Rightarrow> Some s1 | Some n \<Rightarrow> sayln ''created: %s'' [PStr (Some full)] s1) = Some s'"
      using assms(1) 3 by (auto simp: cmd_echo_write_def split: bind_splits)
    then show ?thesis using create_file_ok [OF c(1) assms(2)] by (auto split: option.splits dest!: say_ok)
  next
    case (4 a0 a1 a2 args)
    obtain full content pos r s1 where c: "create_at ext2_vfs_create_file ''echo'' (last argv) full s = Some (r, s1)"
      "(case r of None \<Rightarrow> Some s1
        | Some _ \<Rightarrow> do { (fd, v) \<leftarrow> vfs_open (sh_vfs s1) full (VFS_O_READ + VFS_O_WRITE);
            if fd < 0 then sayln (''echo: cannot open '' @ quoted) [PStr (Some (last argv))] (s1\<lparr>sh_vfs := v\<rparr>)
            else do { (n, v1) \<leftarrow> vfs_write v fd content pos; (c, v2) \<leftarrow> vfs_close v1 fd;
              sayln ''wrote %d bytes to %s'' [PInt (of_int n), PStr (Some full)] (s1\<lparr>sh_vfs := v2\<rparr>) } }) = Some s'"
      using assms(1) unfolding 4 by (auto simp: cmd_echo_write_def Let_def simp del: content_words.simps last.simps butlast.simps split: bind_splits)
    then show ?thesis using create_file_ok [OF c(1) assms(2)]
      by (auto split: option.splits bind_splits if_splits dest!: say_ok files_ok)
  qed (use assms in \<open>auto simp: cmd_echo_write_def split: bind_splits dest!: say_ok\<close>)
qed

lemma cd_target:
  assumes "(if up = 0 then vfs_cwd_parent (sh_cwd s) new_path VFS_MAX_PATH else resolve target s) = Some full"
    and "shell_ok s" and "terminated target"
  shows "\<exists>st. canonical st \<and> full = path_buf (render st)"
proof -
  obtain cs where cs: "canonical cs" "sh_cwd s = path_buf (render cs)" using assms(2) by (auto simp: shell_ok_def)
  show ?thesis
  proof (cases "up = 0")
    case True
    then show ?thesis using assms(1) cwd_parent_spec [OF cs(1)] canonical_butlast [OF cs(1)] cs(2) by auto
  next
    case False
    then show ?thesis using assms(1) resolve_spec [OF cs(2,1) assms(3)] by (auto split: if_splits)
  qed
qed

lemma cd_ok:
  assumes "cmd_cd argv s = Some s'" and "shell_ok s" and "\<forall>a \<in> set argv. terminated a"
  shows "shell_ok s'"
proof -
  consider "length argv < 2" | a0 a1 args where "argv = a0 # a1 # args" by (cases argv; cases "tl argv") auto
  then show ?thesis
  proof cases
    case 1
    then show ?thesis using assms(1,2) by (cases argv; cases "tl argv") (auto simp: cmd_cd_def dest!: say_ok)
  next
    case (2 a0 a1 args)
    obtain home where home: "strcmp a1 [126, 0] = Some home" using assms(1) 2 by (auto simp: cmd_cd_def split: bind_splits)
    define target where "target = (if home = 0 then [47, 0] else a1)"
    obtain up where up: "strcmp target [46, 46, 0] = Some up" using assms(1) 2 home by (auto simp: cmd_cd_def target_def Let_def split: bind_splits)
    have rest: "do { full \<leftarrow> (if up = 0 then vfs_cwd_parent (sh_cwd s) new_path VFS_MAX_PATH else resolve target s);
        (dir, v) \<leftarrow> vfs_is_dir (sh_vfs s) full;
        root \<leftarrow> (if dir then Some 0 else strcmp full [47, 0]);
        if \<not> dir \<and> root \<noteq> 0 then sayln ''cd: %s: No such directory'' [PStr (Some target)] (s\<lparr>sh_vfs := v\<rparr>)
        else do { c1 \<leftarrow> strncpy (sh_cwd s) full (VFS_MAX_PATH - 1); c2 \<leftarrow> wr c1 (VFS_MAX_PATH - 1) 0; Some (s\<lparr>sh_vfs := v, sh_cwd := c2\<rparr>) } } = Some s'"
      using assms(1) by (simp only: 2 cmd_cd_def list.case home up Option.bind.simps Let_def target_def [symmetric])
    then obtain full where full: "(if up = 0 then vfs_cwd_parent (sh_cwd s) new_path VFS_MAX_PATH else resolve target s) = Some full"
      by (auto split: bind_splits)
    have "terminated target" using assms(3) 2 by (auto simp: target_def terminated_def)
    then obtain st where st: "canonical st" "full = path_buf (render st)" using cd_target [OF full assms(2)] by blast
    have "length (sh_cwd s) = 256" using assms(2) canonical_buf(1) by (auto simp: shell_ok_def)
    then obtain j where "strncpy (sh_cwd s) full 255 = Some j" "wr j 255 0 = Some full"
      using copy_path [OF canonical_buf(2,3) [OF st(1)]] st by (auto simp: canonical_def)
    moreover have "shell_ok (s\<lparr>sh_vfs := v, sh_cwd := full\<rparr>)" if "vfs_wf v" for v using that assms(2) st by (auto simp: shell_ok_def)
    moreover have "VFS_MAX_PATH - 1 = 255" by (simp add: VFS_MAX_PATH_def)
    ultimately show ?thesis using rest assms(2) unfolding full
      by (auto split: bind_splits if_splits dest!: say_ok files_ok)
  qed
qed

lemma history_ok: "cmd_history s = Some s' \<Longrightarrow> shell_ok s \<Longrightarrow> shell_ok s'"
proof -
  have "history_lines n s = Some s' \<Longrightarrow> shell_ok s' = shell_ok s" for n s s'
    by (induction n arbitrary: s) (auto split: bind_splits dest!: say_ok)
  then show "cmd_history s = Some s' \<Longrightarrow> shell_ok s \<Longrightarrow> shell_ok s'" by (auto simp: cmd_history_def Let_def split: if_splits dest!: say_ok)
qed

lemma help_ok: "cmd_help argv s = Some s' \<Longrightarrow> shell_ok s \<Longrightarrow> shell_ok s'"
proof -
  have c: "shell_ok (term_setcolor x s) = shell_ok s" for x s by (simp add: term_setcolor_def)
  have sp: "spaces n s = Some s' \<Longrightarrow> shell_ok s' = shell_ok s" for n s s'
    by (induction n arbitrary: s) (auto split: bind_splits dest!: say_ok)
  have "help_names ns i w k s = Some s' \<Longrightarrow> shell_ok s' = shell_ok s" for ns i w k s s'
    by (induction ns arbitrary: i s) (auto split: bind_splits if_splits dest!: say_ok sp)
  then show "cmd_help argv s = Some s' \<Longrightarrow> shell_ok s \<Longrightarrow> shell_ok s'"
    by (auto simp: cmd_help_def Let_def c split: bind_splits list.splits option.splits dest!: say_ok)
qed

lemma show_ok:
  "cmd_date s = Some s' \<Longrightarrow> shell_ok s' = shell_ok s"
  "cmd_netstat s = Some s' \<Longrightarrow> shell_ok s' = shell_ok s"
  "show_time s = Some s' \<Longrightarrow> shell_ok s' = shell_ok s"
  "cmd_clear s = Some s' \<Longrightarrow> shell_ok s' = shell_ok s"
  "cmd_pwd s = Some s' \<Longrightarrow> shell_ok s' = shell_ok s"
  by (auto simp: cmd_date_def cmd_netstat_def show_time_def cmd_clear_def cmd_pwd_def Let_def split: bind_splits dest!: say_ok)

lemmas commands_ok = help_ok show_ok history_ok echo_ok calc_ok ls_ok cat_ok cd_ok mount_ok touch_ok mkdir_ok echo_write_ok rm_ok rmdir_ok mv_ok

lemma run_command_ok:
  assumes "run_command other k c argv s = Some s'" and "shell_ok s" and "\<forall>a \<in> set argv. terminated a"
    and "\<And>c argv s s'. other c argv s = Some s' \<Longrightarrow> shell_ok s \<Longrightarrow> shell_ok s'"
  shows "shell_ok s'"
  using assms(1-3) by (cases c) (auto simp: run_command_def intro: commands_ok dest: show_ok assms(4))

subsection \<open>Lines\<close>

lemma record_copy_ok: "record_copy line i b = Some b' \<Longrightarrow> length b' = length b \<and> terminated b'"
proof (induction line i b rule: record_copy.induct)
  case (1 line i b)
  have stop: "wr b i 0 = Some b' \<Longrightarrow> length b' = length b \<and> terminated b'"
    by (auto simp: wr_def terminated_def set_update_memI split: if_splits)
  show ?case
    using "1.prems" stop "1.IH" by (auto simp: record_copy.simps [of line i b] split: bind_splits if_splits dest: length_wr)
qed

lemma shell_record_wf:
  assumes "shell_record line h = Some h'" and "hist_wf h"
  shows "hist_wf h'"
proof -
  have add: "hist_wf (h\<lparr>s_hist := (s_hist h)[s_hist_count h := b'], s_hist_count := s_hist_count h + 1, s_hist_pos := s_hist_count h + 1\<rparr>)"
    if "record_copy line 0 b = Some b'" "rd (s_hist h) (s_hist_count h) = Some b" "s_hist_count h < 64" for b b'
    using that assms(2) record_copy_ok [OF that(1)] rd_SomeD [OF that(2)]
    by (auto simp: hist_wf_def nth_list_update less_Suc_eq dest!: set_update_subset_insert [THEN subsetD])
  moreover have "hist_wf (h\<lparr>s_hist_pos := s_hist_count h\<rparr>)" using assms(2) by (simp add: hist_wf_def)
  moreover have "h' = h \<or> h' = h\<lparr>s_hist_pos := s_hist_count h\<rparr> \<or> (\<exists>b b'. record_copy line 0 b = Some b' \<and>
      rd (s_hist h) (s_hist_count h) = Some b \<and> s_hist_count h < 64 \<and>
      h' = h\<lparr>s_hist := (s_hist h)[s_hist_count h := b'], s_hist_count := s_hist_count h + 1, s_hist_pos := s_hist_count h + 1\<rparr>)"
    using assms(1) by (auto simp: shell_record_def split: bind_splits if_splits)
  ultimately show ?thesis using assms(2) by blast
qed

lemma dispatch_ok:
  assumes "dispatch exec buf s = Some s'" and "shell_ok s" and "terminated buf"
    and "\<And>c argv s s'. exec c argv s = Some s' \<Longrightarrow> shell_ok s \<Longrightarrow> \<forall>a \<in> set argv. terminated a \<Longrightarrow> shell_ok s'"
  shows "shell_ok s'"
proof -
  obtain b offs where sp: "split_args buf 0 [] = Some (b, offs)" "\<forall>p \<in> set offs. terminated (drop p b)"
    using split_args_spec [of 0 buf "[]"] assms(3) by auto
  show ?thesis using assms(1,2) sp by (auto simp: dispatch_def Let_def split: bind_splits list.splits option.splits dest!: say_ok elim!: assms(4))
qed

lemma shell_line_ok:
  assumes "shell_line exec line s = Some s'" and "shell_ok s"
    and "\<And>c argv s s'. exec c argv s = Some s' \<Longrightarrow> shell_ok s \<Longrightarrow> \<forall>a \<in> set argv. terminated a \<Longrightarrow> shell_ok s'"
  shows "shell_ok s'"
proof -
  obtain s1 s2 len where l: "say ''%s> '' [PStr (Some (sh_cwd s))] s = Some s1" "sayln [] [] s1 = Some s2" "strlen line = Some len"
    using assms(1) by (auto simp: shell_line_def split: bind_splits)
  have ok: "shell_ok s2" using l(1,2) assms(2) by (auto dest!: say_ok)
  show ?thesis
  proof (cases "len = 0")
    case False
    obtain h b where h: "shell_record line (sh_hist s2) = Some h" "wr line TERM_BUFF 0 = Some b" "dispatch exec b (s2\<lparr>sh_hist := h\<rparr>) = Some s'"
      using assms(1) l False by (auto simp: shell_line_def split: bind_splits)
    have "shell_ok (s2\<lparr>sh_hist := h\<rparr>)" using shell_record_wf [OF h(1)] ok by (simp add: shell_ok_def)
    moreover have "terminated b" using h(2) by (auto simp: wr_def terminated_def set_update_memI split: if_splits)
    ultimately show ?thesis using dispatch_ok [OF h(3)] assms(3) by blast
  qed (use assms(1) l ok in \<open>simp add: shell_line_def\<close>)
qed


section \<open>Examples\<close>

text \<open>A shell in the directory \<open>/\<close> or another one, with an empty history.\<close>

definition demo_shell :: "vfs_st \<Rightarrow> u8 list \<Rightarrow> shell_st" where
  "demo_shell v cwd = \<lparr>sh_cwd = path_buf cwd, sh_vfs = v, sh_hist = \<lparr>s_hist = replicate 64 (replicate 64 0), s_hist_count = 0, s_hist_pos = 0\<rparr>,
     sh_term = demo_term, sh_ticks = 0, sh_cmos = (\<lambda>_. 0)\<rparr>"

lemma demo_term_ok: "term_ok demo_term"
  by (simp add: term_ok_def demo_term_def)

lemma demo_cwd: "canonical [[97]]" "render [[97]] = [47, 97]" "canonical []" "render [] = [47]"
  by (simp_all add: canonical_def render_def plain_def)

lemma demo_shell_ok: "shell_ok (demo_shell rooted [47, 97])"
  unfolding shell_ok_def using rooted_wf demo_cwd(1,2) by (auto simp: demo_shell_def hist_wf_def intro!: exI [of _ "[[97]]"])

lemma rooted_root: "vfs_is_dir rooted (path_buf [47]) = Some (False, rooted)"
proof -
  have "rd (path_buf [47]) 0 = Some 47" "rd (path_buf [47]) 1 = Some 0" by (simp_all add: path_buf_def rd_def)
  then show ?thesis by (simp add: vfs_is_dir_def vfs_open_node_def rooted_def get_node_def rd_def empty_node_def VFS_FT_DIR_def)
qed

text \<open>The witness: the line \<open>cat  a\<close>, with two blanks.\<close>

theorem dispatch_runs_words_witness:
  "dispatch (\<lambda>c argv s. if c = Cmd_cat \<and> map cstr argv = [[99, 97, 116], [97]] then Some s else None)
     [99, 97, 116, 32, 32, 97, 0] (demo_shell rooted [47]) = Some (demo_shell rooted [47])"
proof -
  let ?e = "\<lambda>c argv s. if c = Cmd_cat \<and> map cstr argv = [[99, 97, 116], [97]] then Some s else None"
  let ?b = "[99, 97, 116, 32, 32, 97, 0] :: u8 list" and ?s = "demo_shell rooted [47]"
  have t: "terminated ?b" by (simp add: terminated_def)
  have w: "take 16 (blank_words (cstr ?b)) = [[99, 97, 116], [97]]"
    by (simp add: cstr_def blank_words.simps blank_def)
  obtain argv where a: "map cstr argv = [[99, 97, 116], [97]]" "dispatch ?e ?b ?s = (case argv of [] \<Rightarrow> Some ?s
      | a # args \<Rightarrow> (case map_of (map (\<lambda>(n, c). (bytes n, c)) command_names) (cstr a) of
          None \<Rightarrow> sayln ''rtjn-kernel: Command not found.'' [] ?s | Some c \<Rightarrow> ?e c argv ?s))"
    using dispatch_runs_words [OF t, of ?e ?s] unfolding w by (elim exE conjE) (rule that)
  have "map_of (map (\<lambda>(n, c). (bytes n, c)) command_names) [99, 97, 116] = Some Cmd_cat" by code_simp
  moreover obtain a0 args where "argv = a0 # args" "cstr a0 = [99, 97, 116]" using a(1) by (cases argv) auto
  ultimately show ?thesis using a by simp
qed


text \<open>The witness: a file of 1500 letters \<open>A\<close>.\<close>

theorem cat_shows_file_witness:
  "\<exists>t v'. cmd_cat [[99, 97, 116, 0], [46, 0]] (demo_shell (demo_text 65) [47]) =
     Some ((demo_shell (demo_text 65) [47])\<lparr>sh_vfs := v', sh_term := t\<rparr>) \<and> shows_text (replicate 1500 65) demo_term t"
proof -
  let ?s = "demo_shell (demo_text 65) [47]"
  have s: "sh_cwd ?s = path_buf (render [])" "sh_vfs ?s = demo_text 65" "sh_term ?s = demo_term"
    using demo_cwd(4) by (simp_all add: demo_shell_def)
  have p: "terminated [46, 0]" "norm_path (take 255 (full_path (render []) (cstr [46, 0]))) = []"
    unfolding demo_cwd(4) by (simp_all add: terminated_def cstr_def full_path_def norm_path_def Kstring.fields.simps)
  have r: "resolve [46, 0] ?s = Some (path_buf [47])" using resolve_spec [OF s(1) demo_cwd(3) p(1)] demo_cwd(3,4) unfolding p(2) by simp
  have d: "rd (path_buf [47]) 0 = Some 47" "rd (path_buf [47]) 1 = Some 0" by (simp_all add: path_buf_def rd_def)
  note o = demo_text_open [OF d, of 65]
  have "visible (map (file_byte (ext2_fs (demo_opened 65)) demo_file) [0..<i_size demo_file]) = replicate 1500 65"
    unfolding o(3) by (simp add: file_bytes_def visible_def filter_replicate)
  then show ?thesis using cat_shows_file [OF r _ o(2), of "[99, 97, 116, 0]"] o(1) s(2,3) demo_term_ok by auto
qed

text \<open>The witness: the line \<open>cd ~\<close> typed in \<open>/a\<close>.\<close>

definition demo_line :: "u8 list" where
  "demo_line = path_buf [99, 100, 32, 126]"

lemma demo_line_split: "split_args demo_line 0 [] = Some (demo_line[2 := 0], [0, 3])"
  by code_simp

lemma demo_line_entry: "find_entry command_names (demo_line[2 := 0]) = Some (Some Cmd_cd)"
  by code_simp

lemma demo_line_record: "shell_record demo_line (sh_hist (demo_shell rooted [47, 97])) \<noteq> None"
  by code_simp

lemma demo_line_buffer:
  "strlen demo_line = Some 4" "wr demo_line TERM_BUFF 0 = Some demo_line" "terminated (drop 3 (demo_line[2 := 0]))" "cstr (drop 3 (demo_line[2 := 0])) = [126]"
  by code_simp+

lemma demo_session:
  "\<exists>s'. shell_line (run_command other k) demo_line (demo_shell rooted [47, 97]) = Some s' \<and> sh_cwd s' = path_buf [47]"
proof -
  let ?s = "demo_shell rooted [47, 97]"
  have cw: "sh_cwd ?s = path_buf [47, 97]" "term_ok (sh_term ?s)" using demo_term_ok by (simp_all add: demo_shell_def)
  have "pk_out (cstr (cstring ''%s> '')) [PStr (Some (path_buf [47, 97]))] = Some [47, 97, 62, 32]"
    using canonical_buf(2,3) [OF demo_cwd(1)] unfolding demo_cwd(2) by (simp add: cstring_def cstr_def [of "_ # _"] pk_conv_def)
  then obtain t1 where t1: "say ''%s> '' [PStr (Some (sh_cwd ?s))] ?s = Some (?s\<lparr>sh_term := t1\<rparr>)" "term_ok t1"
    using say_prints [of "''%s> ''" "[PStr (Some (path_buf [47, 97]))]" "[47, 97, 62, 32]" ?s] cw by auto
  have "pk_out (cstr (cstring [CHR 0x0A])) [] = Some [10]" by (simp add: cstring_def cstr_def)
  then obtain t2 where t2: "sayln [] [] (?s\<lparr>sh_term := t1\<rparr>) = Some (?s\<lparr>sh_term := t2\<rparr>)" "term_ok t2"
    using say_prints [of "[CHR 0x0A]" "[]" "[10]" "?s\<lparr>sh_term := t1\<rparr>"] t1(2) by (auto simp: sayln_def)
  obtain h where h: "shell_record demo_line (sh_hist ?s) = Some h" using demo_line_record by auto
  let ?a0 = "demo_line[2 := 0]" and ?u = "?s\<lparr>sh_term := t2, sh_hist := h\<rparr>"
  have u: "sh_cwd ?u = path_buf (render [[97]])" "vfs_is_dir (sh_vfs ?u) (path_buf (render (norm_path [47]))) = Some (False, rooted)" "term_ok (sh_term ?u)"
    using cw(1) demo_cwd(2,4) rooted_root t2(2) by (simp_all add: demo_shell_def norm_path_def Kstring.fields.simps)
  have "\<exists>s'. cmd_cd [?a0, drop 3 ?a0] ?u = Some s' \<and> sh_cwd s' = path_buf [47]"
    using cd_spec [OF u(1) demo_cwd(1) demo_line_buffer(3) _ _ u(2,3), of ?a0] demo_line_buffer(4) demo_cwd(4)
    by (auto simp: full_path_def norm_path_def Kstring.fields.simps)
  then show ?thesis using t1(1) t2(1) h demo_line_buffer(1,2) demo_line_split demo_line_entry
    by (simp add: shell_line_def dispatch_def run_command_def)
qed


text \<open>
  \<open>printk\<close> knows no field widths: it drops the conversion at the character behind the percent sign and copies the rest, so
  \<open>cmd_date\<close> prints the same text whatever the clock says.
\<close>

theorem date_ignores_clock:
  assumes "term_ok (sh_term s)"
  shows "\<exists>t. cmd_date s = Some (s\<lparr>sh_term := t\<rparr>) \<and> shows_text (bytes ''4d-2d-2d 2d:2d:2d'' @ [10]) (sh_term s) t"
proof -
  let ?f = "''%04d-%02d-%02d %02d:%02d:%02d'' @ [CHR 0x0A]" and ?o = "bytes ''4d-2d-2d 2d:2d:2d'' @ [10]"
  have "pk_out (cstr (cstring ?f)) ap = Some ?o" for ap by (simp add: cstring_def cstr_def pk_conv_def get_flag_def bytes_def)
  moreover have "length ?o < 256" "9 \<notin> set ?o" by (simp_all add: bytes_def)
  ultimately have "\<exists>t. say ?f ap s = Some (s\<lparr>sh_term := t\<rparr>) \<and> shows_text ?o (sh_term s) t" for ap using say_text assms by blast
  then show ?thesis by (simp add: cmd_date_def sayln_def Let_def)
qed

end
