(* ===== verification/Spec2Isabelle.thy ===== *)
theory Spec2Isabelle
  imports Usertask NetProps Rtl8139 Http Ext2Alloc NanoFile ViProps ShellProps
begin

text \<open>
  A verification development for the rtjn kernel, a small kernel for i686 machines with a BIOS: memory management, a
  scheduler with user tasks, a text terminal with a shell, a TCP/IP stack on an RTL8139 card and an ext2 file system
  on an ATA disk.  The theories model the C code under \<open>src/kernel\<close> and \<open>src/include\<close>, one definition for each function
  and one for each loop, and prove what makes the components correct.

  \<^bold>\<open>Conventions.\<close>  An object of C is a list, a pointer into it an offset.  Machine integers are words where the code
  works with bits, and natural numbers with the reduction written out elsewhere.  Stateful functions take and return a
  record.  \<open>None\<close> is undefined behaviour of C: an access outside an object, a signed overflow, a division by zero, the use
  of an indeterminate value; in the paging model also a page fault.  Error codes of the program are values.  A theorem of the
  form \<open>f x = Some y\<close> therefore says that the code runs to its end without undefined behaviour and yields \<open>y\<close>.

  \<^bold>\<open>Parts, in the order in which they build on each other.\<close>

  \<^item> \<open>Prelude\<close>: words, objects with checked access, shared lemmas.
  \<^item> \<open>Kstring\<close> (\<open>lib/string.c\<close>): copying, comparing, formatting, splitting.  Copies are right for overlapping regions,
    \<open>snprintf\<close> never leaves its buffer, numbers survive printing and parsing, \<open>split\<close> finds the fields.
  \<^item> \<open>Pmm\<close> (\<open>mm/pmm.c\<close>, \<open>mm/get_mem_max_addr.c\<close>): the bitmap of frames against a set of free frames; allocation takes the
    lowest free frame, and frames handed out are distinct and outside the kernel.
  \<^item> \<open>Vmm\<close> (\<open>mm/vmm.c\<close>, \<open>mm/heap.c\<close>, \<open>map_ident\<close>): page tables in physical memory under the processor's own translation; the
    identity map set up at the start, and the heap on top of it.
  \<^item> \<open>Sched\<close> (\<open>task/sched.c\<close>, \<open>arch/tss.c\<close>, \<open>arch/system_timer.c\<close>): the task table as a state machine driven by the timer; its
    invariant and that every ready task gets its turn.
  \<^item> \<open>Term\<close> (\<open>lib/term.c\<close>): the text screen and \<open>printk\<close>.  \<open>Usertask\<close> (\<open>task/usertask.c\<close>, \<open>task/syscall.c\<close>): loading a program and the
    five system calls, over the scheduler, the page tables and the terminal.
  \<^item> \<open>Readline\<close> (\<open>dev/keyboard.c\<close>, \<open>shell/readline.c\<close>, the history of \<open>shell/commands.c\<close>): interrupts and iterations of the input
    loop in any order; the line editor refines a cursor in a list.
  \<^item> \<open>Inet\<close>, \<open>Net\<close>, \<open>NetSafety\<close>, \<open>NetProps\<close>, \<open>Dns\<close>, \<open>Http\<close> (\<open>net/network.c\<close>) and \<open>Rtl8139\<close> (\<open>dev/rtl8139.c\<close>): byte order and checksums,
    then the stack from the receive ring to the HTTP client.  \<open>NetSafety\<close> states the interface between the card and the
    protocols as the locale \<open>nic_poll\<close> and shows that no sequence of frames makes the stack hang or corrupts it, with the
    one exception that \<open>NetProps\<close> exhibits.
  \<^item> \<open>Path\<close> (paths of \<open>shell/commands.c\<close>): canonical absolute paths.
  \<^item> \<open>Ata\<close> (\<open>dev/ata.c\<close>), \<open>Ext2\<close>, \<open>Ext2File\<close>, \<open>Ext2Dir\<close> (\<open>fs/ext2.c\<close>) and \<open>Vfs\<close> (\<open>fs/vfs.c\<close>): sectors, then blocks, inodes and
    allocation, file data, directories, and the descriptors and paths above them.  \<open>Ext2Store\<close> shows blocks and
    inodes to be two instances of a store of cells (locale \<open>cell_store\<close>), \<open>Ext2Alloc\<close> the bitmaps to be allocators of
    numbers (locale \<open>id_allocator\<close>), \<open>Ext2Data\<close> that reading and writing a file are reading and writing its bytes;
    \<open>VfsProps\<close> that every operation keeps the tables of the virtual file system well formed.
  \<^item> \<open>TextBuf\<close>, \<open>Editor\<close>, \<open>Nano\<close>, \<open>NanoProps\<close>, \<open>NanoFile\<close> (\<open>shell/editors.c\<close>): the buffer of lines, what a text editor promises about
    a document with a cursor (locale \<open>text_editor\<close>), the editor \<open>nano\<close> as an instance of it, its loop over keys down to the cells
    of the screen, and the way of a file from the disk into the document.  \<open>Vi\<close>, \<open>ViCmd\<close>, \<open>ViProps\<close>: the modal editor of the same file,
    whose insert mode is a second instance; searching, undo and substitution are correct, while a number of its commands
    are not, some of which is shown.
  \<^item> \<open>Shell\<close>, \<open>ShellProps\<close> (\<open>shell/shell.c\<close>, \<open>shell/commands.c\<close>): the loop of the shell, the splitting of a line, the table of commands,
    and the commands on files, directories, the working directory, the history and text, over the terminal and the virtual file
    system.  A line runs the command of its first word on its words; \<open>cd\<close> moves between canonical paths, \<open>cat\<close> shows the bytes of a
    file on the screen, and no session leaves the state of the shell ill formed.

  \<^bold>\<open>Bounds.\<close>  Loops are total functions with a measure, except where the outside world decides.  The polls of the network
  nest: handling a frame may send one, which may wait for an ARP reply and poll again.  The depth of this nesting is fuel of
  \<open>poll_depth\<close>, and \<open>rtl8139_poll\<close> takes the number of frames that are still to come, which \<open>NetSafety\<close> proves to be enough
  since a nested poll needs a frame that has been consumed.  The wait loops end by the timer, which every poll advances.  The receive loop of
  the card runs as often as the card reports a non-empty ring, an argument.  The loops that read a file into an editor, show it or
  substitute text are partial functions, whose end is part of the theorems about them; the loops of the editors take the
  list of keys that will be pressed.  Offsets of a walk over a directory do not wrap unless the directory is within one
  record of 4 GiB, where the model is \<open>None\<close>.

  \<^bold>\<open>Not modelled.\<close>  Port I/O and processor state without a logical effect (interrupt controllers, descriptor tables, \<open>cli\<close> and
  \<open>sti\<close>, busy waits); the boot loader and the assembly entry code but for the timer entry; drive and card detection
  (\<open>pci.c\<close>, \<open>ata_init\<close>, \<open>rtl8139_init\<close>, \<open>usb.c\<close>, \<open>acpi.c\<close>); the frame-buffer console, which nothing enables;
  the commands of the shell that show processor tables, memory, tasks, disks, USB or the network interface, wait for the timer,
  start a task or send packets (an argument of the dispatcher in \<open>Shell\<close>); the banner; the bodies of demonstrations.
  \<open>task/ipc.c\<close> and \<open>user/shell.c\<close> are not part of the build.
\<close>

end
